(* ===== verification/Prelude.thy ===== *)
theory Prelude
  imports Main "HOL-Library.Word"
begin

text \<open>
  Shared vocabulary of the development: the machine-integer types of the Rust sources, the
  sum type that carries Rust's \<open>Result\<close>, big-endian byte strings, and the lemmas on lists and
  words that the component theories use.

  Bytes are \<open>8 word\<close>, so every arithmetic step on them wraps unless a definition says
  otherwise. Lengths and indices (\<open>usize\<close>) are natural numbers; a subtraction that would
  underflow in Rust is written as an explicit test.
\<close>

type_synonym u8 = "8 word"
type_synonym u16 = "16 word"
type_synonym u32 = "32 word"
type_synonym u64 = "64 word"
type_synonym bytes = "u8 list"

named_theorems result_simps \<open>rewriting of result-valued code\<close>
named_theorems wire_simps \<open>encoders and decoders of wire values\<close>

section \<open>Results\<close>

text \<open>
  A Rust \<open>Result<T, E>\<close> is \<open>'e + 'a\<close> with \<open>Inl\<close> for \<open>Err\<close>. The operator \<open>?\<close> that returns
  early on an error is \<open>and_then\<close>.
\<close>

definition and_then :: "'e + 'a \<Rightarrow> ('a \<Rightarrow> 'e + 'b) \<Rightarrow> 'e + 'b" where
  "and_then m f = (case m of Inl e \<Rightarrow> Inl e | Inr x \<Rightarrow> f x)"

lemma and_then_Inl [simp, result_simps]: "and_then (Inl e) f = Inl e"
  by (simp add: and_then_def)

lemma and_then_Inr [simp, result_simps]: "and_then (Inr x) f = f x"
  by (simp add: and_then_def)

lemma and_then_eq_Inr [result_simps]:
  "and_then m f = Inr y \<longleftrightarrow> (\<exists>x. m = Inr x \<and> f x = Inr y)"
  by (cases m) simp_all

lemma and_then_eq_Inl [result_simps]:
  "and_then m f = Inl e \<longleftrightarrow> m = Inl e \<or> (\<exists>x. m = Inr x \<and> f x = Inl e)"
  by (cases m) auto

lemma and_then_assoc: "and_then (and_then m f) g = and_then m (\<lambda>x. and_then (f x) g)"
  by (cases m) simp_all

lemma and_then_return [simp]: "and_then m Inr = m"
  by (cases m) simp_all

lemma and_then_cong [fundef_cong]:
  "m = m' \<Longrightarrow> (\<And>x. m' = Inr x \<Longrightarrow> f x = f' x) \<Longrightarrow> and_then m f = and_then m' f'"
  by (cases m') simp_all

definition is_ok :: "'e + 'a \<Rightarrow> bool" where
  "is_ok r = (case r of Inl _ \<Rightarrow> False | Inr _ \<Rightarrow> True)"

lemma is_ok_simps [simp]: "\<not> is_ok (Inl e)" "is_ok (Inr x)"
  by (simp_all add: is_ok_def)

lemma is_ok_iff: "is_ok r \<longleftrightarrow> (\<exists>x. r = Inr x)"
  by (cases r) auto

section \<open>Big-endian byte strings\<close>

text \<open>
  \<open>be_bytes k n\<close> is the last \<open>k\<close> base-256 digits of \<open>n\<close>, most significant first, and
  \<open>be_nat\<close> reads such a string back. Rust's \<open>to_be_bytes\<close> and \<open>from_be_bytes\<close> for each
  width are the instances at 2, 4 and 8 octets.
\<close>

fun be_bytes :: "nat \<Rightarrow> nat \<Rightarrow> bytes" where
  "be_bytes 0 n = []"
| "be_bytes (Suc k) n = be_bytes k (n div 256) @ [word_of_nat (n mod 256)]"

definition be_nat :: "bytes \<Rightarrow> nat" where
  "be_nat bs = foldl (\<lambda>acc b. acc * 256 + unat b) 0 bs"

lemma be_nat_Nil [simp]: "be_nat [] = 0"
  by (simp add: be_nat_def)

lemma be_nat_snoc [simp]: "be_nat (bs @ [b]) = be_nat bs * 256 + unat b"
  by (simp add: be_nat_def)

lemma unat_less_2p: "unat (w :: 'a :: len word) < 2 ^ LENGTH('a)"
  by (rule unsigned_less)

lemma unat_u8_less [simp]: "unat (b :: u8) < 256"
  using unat_less_2p [of b] by simp

lemma unat_u8_le [simp]: "unat (b :: u8) \<le> 255"
  using unat_u8_less [of b] by linarith

lemma numeral_le_one_u8 [simp]: "(numeral n :: u8) \<le> 1 \<longleftrightarrow> unat (numeral n :: u8) \<le> 1"
  by (simp add: word_le_nat_alt)

lemma length_be_bytes [simp]: "length (be_bytes k n) = k"
  by (induction k arbitrary: n) auto

lemma be_nat_bound: "be_nat bs < 256 ^ length bs"
proof (induction bs rule: rev_induct)
  case Nil
  then show ?case by simp
next
  case (snoc b bs)
  then have "be_nat bs + 1 \<le> 256 ^ length bs" by simp
  then have "(be_nat bs + 1) * 256 \<le> 256 ^ length bs * 256" by (rule mult_le_mono1)
  moreover have "unat b < 256" by simp
  ultimately show ?case by (simp del: unat_u8_less)
qed

lemma unat_word_of_nat_u8: "n < 256 \<Longrightarrow> unat (word_of_nat n :: u8) = n"
  by (simp add: unat_of_nat)

lemma be_nat_be_bytes: "be_nat (be_bytes k n) = n mod 256 ^ k"
proof (induction k arbitrary: n)
  case 0
  then show ?case by simp
next
  case (Suc k)
  have "be_nat (be_bytes (Suc k) n) = (n div 256) mod 256 ^ k * 256 + n mod 256"
    by (simp add: Suc.IH unat_word_of_nat_u8)
  also have "\<dots> = n mod 256 ^ Suc k"
    by (simp add: mod_mult2_eq mult.commute)
  finally show ?case .
qed

lemma be_bytes_be_nat: "be_bytes (length bs) (be_nat bs) = bs"
proof (induction bs rule: rev_induct)
  case Nil
  then show ?case by simp
next
  case (snoc b bs)
  have "unat b < 256" by simp
  then have "(be_nat bs * 256 + unat b) div 256 = be_nat bs"
    and "(be_nat bs * 256 + unat b) mod 256 = unat b"
    by (simp_all del: unat_u8_less)
  with snoc show ?case by simp
qed

definition to_be_u16 :: "u16 \<Rightarrow> bytes" where
  "to_be_u16 n = be_bytes 2 (unat n)"

definition from_be_u16 :: "bytes \<Rightarrow> u16" where
  "from_be_u16 bs = word_of_nat (be_nat bs)"

definition to_be_u32 :: "u32 \<Rightarrow> bytes" where
  "to_be_u32 n = be_bytes 4 (unat n)"

definition from_be_u32 :: "bytes \<Rightarrow> u32" where
  "from_be_u32 bs = word_of_nat (be_nat bs)"

definition to_be_u64 :: "u64 \<Rightarrow> bytes" where
  "to_be_u64 n = be_bytes 8 (unat n)"

definition from_be_u64 :: "bytes \<Rightarrow> u64" where
  "from_be_u64 bs = word_of_nat (be_nat bs)"

lemma length_to_be [simp, wire_simps]:
  "length (to_be_u16 a) = 2" "length (to_be_u32 b) = 4" "length (to_be_u64 c) = 8"
  by (simp_all add: to_be_u16_def to_be_u32_def to_be_u64_def)

lemma from_to_be_u16 [simp, wire_simps]: "from_be_u16 (to_be_u16 n) = n"
  using unat_less_2p [of n] by (simp add: from_be_u16_def to_be_u16_def be_nat_be_bytes)

lemma from_to_be_u32 [simp, wire_simps]: "from_be_u32 (to_be_u32 n) = n"
  using unat_less_2p [of n] by (simp add: from_be_u32_def to_be_u32_def be_nat_be_bytes)

lemma from_to_be_u64 [simp, wire_simps]: "from_be_u64 (to_be_u64 n) = n"
  using unat_less_2p [of n] by (simp add: from_be_u64_def to_be_u64_def be_nat_be_bytes)

lemma to_from_be_u16: "length bs = 2 \<Longrightarrow> to_be_u16 (from_be_u16 bs) = bs"
  using be_nat_bound [of bs] be_bytes_be_nat [of bs]
  by (simp add: from_be_u16_def to_be_u16_def unat_of_nat)

lemma to_from_be_u32: "length bs = 4 \<Longrightarrow> to_be_u32 (from_be_u32 bs) = bs"
  using be_nat_bound [of bs] be_bytes_be_nat [of bs]
  by (simp add: from_be_u32_def to_be_u32_def unat_of_nat)

lemma to_from_be_u64: "length bs = 8 \<Longrightarrow> to_be_u64 (from_be_u64 bs) = bs"
  using be_nat_bound [of bs] be_bytes_be_nat [of bs]
  by (simp add: from_be_u64_def to_be_u64_def unat_of_nat)

section \<open>Bit lengths\<close>

text \<open>
  The position of the highest set bit, plus one, and Rust's \<open>leading_zeros\<close> derived from it.
\<close>

definition bit_length :: "'a::len word \<Rightarrow> nat" where
  "bit_length x = length (dropWhile Not (map (bit x) (rev [0..<LENGTH('a)])))"

definition leading_zeros :: "'a::len word \<Rightarrow> nat" where
  "leading_zeros x = LENGTH('a) - bit_length x"

lemma top_bit_le_iff:
  "length (dropWhile Not (map p (rev [0..<N]))) \<le> n \<longleftrightarrow> (\<forall>i<N. p i \<longrightarrow> i < n)"
proof (induction N)
  case 0
  then show ?case by simp
next
  case (Suc N)
  then show ?case by (cases "p N") (auto simp: less_Suc_eq)
qed

lemma unat_less_2p_iff: "unat x < 2 ^ n \<longleftrightarrow> (\<forall>i. bit x i \<longrightarrow> i < n)"
  for x :: "'a::len word"
proof -
  have "unat x < 2 ^ n \<longleftrightarrow> take_bit n (unat x) = unat x"
    by (simp add: take_bit_nat_eq_self_iff)
  also have "\<dots> \<longleftrightarrow> take_bit n x = x"
    by (metis unsigned_take_bit_eq unsigned_word_eqI)
  also have "\<dots> \<longleftrightarrow> (\<forall>i. bit x i \<longrightarrow> i < n)"
    by (auto simp: bit_eq_iff bit_take_bit_iff dest: bit_imp_le_length)
  finally show ?thesis .
qed

lemma bit_length_le_iff: "bit_length x \<le> n \<longleftrightarrow> unat x < 2 ^ n"
  by (auto simp: bit_length_def top_bit_le_iff unat_less_2p_iff dest: bit_imp_le_length)

lemma bit_length_bound: "bit_length (x :: 'a::len word) \<le> LENGTH('a)"
  by (simp add: bit_length_le_iff unat_less_2p)

lemma unat_less_bit_length: "unat x < 2 ^ bit_length x"
  by (simp add: bit_length_le_iff [symmetric])

lemma bit_length_unat_ge: "x \<noteq> 0 \<Longrightarrow> 2 ^ (bit_length x - 1) \<le> unat x"
  using bit_length_le_iff [of x 0] bit_length_le_iff [of x "bit_length x - 1"]
  by (auto simp: unat_eq_zero not_less)

lemma bit_length_eqI:
  assumes "2 ^ n \<le> unat x" "unat x < 2 ^ Suc n"
  shows "bit_length x = Suc n"
  using assms bit_length_le_iff [of x n] bit_length_le_iff [of x "Suc n"] by linarith

lemma bit_length_0 [simp]: "bit_length 0 = 0"
  using bit_length_le_iff [of 0 0] by simp

section \<open>Widening, narrowing and shifting\<close>

lemma unat_ucast_mod: "unat (ucast (w :: 'a::len word) :: 'b::len word) = unat w mod 2 ^ LENGTH('b)"
  by (simp add: unsigned_ucast_eq unsigned_take_bit_eq take_bit_eq_mod)

lemma ucast_eq_of_unat: "(ucast (w :: 'a::len word) :: 'b::len word) = word_of_nat (unat w)"
  by simp

lemma unat_word_of_nat_less: "n < 2 ^ LENGTH('a) \<Longrightarrow> unat (word_of_nat n :: 'a::len word) = n"
  by (simp add: unat_of_nat)

lemma ucast_ucast_id:
  "unat (w :: 'a::len word) < 2 ^ LENGTH('b) \<Longrightarrow> ucast (ucast w :: 'b::len word) = w"
  by (simp add: ucast_eq_of_unat [of "ucast w"] unat_ucast_mod del: of_nat_unat) simp

lemma push_bit_one: "push_bit n (1 :: 'a::len word) = 2 ^ n"
  by (simp add: push_bit_eq_mult)

lemma unat_2p: "k < LENGTH('a) \<Longrightarrow> unat (2 ^ k :: 'a::len word) = 2 ^ k"
  using unat_word_of_nat_less [of "2 ^ k", where 'a = 'a] by simp

lemma ucast_word_of_nat_u8: "n < 256 \<Longrightarrow> ucast (word_of_nat n :: u8) = (word_of_nat n :: 'a::len word)"
  by (subst ucast_eq_of_unat) (simp only: unat_word_of_nat_u8)

lemma unat_and_mask: "unat (and w (mask n)) = unat w mod 2 ^ n" for w :: "'a::len word"
proof -
  have "unat (and w (mask n)) = unat (take_bit n w)" by (simp only: take_bit_eq_mask)
  also have "\<dots> = take_bit n (unat w)" by (rule unsigned_take_bit_eq)
  finally show ?thesis by (simp only: take_bit_eq_mod)
qed

lemma unat_drop_bit: "unat (drop_bit n w) = unat w div 2 ^ n" for w :: "'a::len word"
proof -
  have "take_bit LENGTH('a) (unat w) = unat w" by (simp add: take_bit_nat_eq_self_iff unat_less_2p)
  then have "unat (drop_bit n w) = drop_bit n (unat w)" by (simp only: unsigned_drop_bit_eq)
  then show ?thesis by (simp only: drop_bit_eq_div)
qed

section \<open>Octets bit by bit\<close>

lemma u8_all_bits:
  "(\<forall>n<8. P n) \<longleftrightarrow> P 0 \<and> P 1 \<and> P 2 \<and> P 3 \<and> P 4 \<and> P 5 \<and> P 6 \<and> P (7::nat)"
proof -
  have "n < 8 \<longleftrightarrow> n = 0 \<or> n = 1 \<or> n = 2 \<or> n = 3 \<or> n = 4 \<or> n = 5 \<or> n = 6 \<or> n = 7" for n :: nat
    by linarith
  then show ?thesis by metis
qed

lemma u8_eq_bits: "(a :: u8) = b \<longleftrightarrow> (\<forall>n<8. bit a n = bit b n)"
  by (simp add: bit_eq_iff)

lemmas u8_bitwise = u8_eq_bits u8_all_bits bit_simps

section \<open>Strings\<close>

text \<open>
  Rust's \<open>str::eq_ignore_ascii_case\<close> and the decimal rendering of an unsigned integer by
  \<open>fmt::Display\<close>.
\<close>

definition ascii_lower :: "char \<Rightarrow> char" where
  "ascii_lower c =
     (if 65 \<le> (of_char c :: nat) \<and> (of_char c :: nat) \<le> 90
      then char_of ((of_char c :: nat) + 32) else c)"

definition eq_ignore_ascii_case :: "string \<Rightarrow> string \<Rightarrow> bool" where
  "eq_ignore_ascii_case s t \<longleftrightarrow> map ascii_lower s = map ascii_lower t"

fun show_nat :: "nat \<Rightarrow> string" where
  "show_nat n =
     (if n < 10 then [char_of (48 + n)] else show_nat (n div 10) @ [char_of (48 + n mod 10)])"

declare show_nat.simps [simp del]

lemma eq_ignore_ascii_case_refl [simp]: "eq_ignore_ascii_case s s"
  by (simp add: eq_ignore_ascii_case_def)

lemma show_nat_not_Nil [simp]: "show_nat n \<noteq> []"
  by (subst show_nat.simps) simp

end
