(* ===== verification/Types.thy ===== *)
theory Types
  imports Prelude
begin

text \<open>
  The enumerations of the OpenPGP registries as the library has them (\<open>packet/tag.rs\<close>,
  \<open>crypto/types/\<close>, \<open>types/mod.rs\<close>): one datatype per Rust enum, its two conversions from and
  to the wire octet, and its table of named variants. The enums share constructor names
  (\<open>Unknown\<close>, \<open>Private\<close>), so every use is qualified by the type, as in Rust.

  The locale \<open>wire_code\<close> states what the rest of the library relies on when it reads an
  octet into an enum and writes it back; every enum interprets it. \<open>wire_enum\<close> adds the
  table of variants. The error type of the crate (\<open>lib.rs\<close>) and the fallible attributes of
  the algorithms (key, block, digest and salt sizes) close the theory.
\<close>

section \<open>Conversions between octets and enums\<close>

locale wire_code =
  fixes of_u8 :: "u8 \<Rightarrow> 'a"
    and to_u8 :: "'a \<Rightarrow> u8"
    and canonical :: "'a \<Rightarrow> bool"
  assumes to_of: "to_u8 (of_u8 u) = u"
    and canonical_of: "canonical (of_u8 u)"
    and of_to: "canonical x \<Longrightarrow> of_u8 (to_u8 x) = x"
begin

lemma inj_of_u8: "inj of_u8"
  by (rule inj_on_inverseI [of UNIV to_u8]) (simp add: to_of)

lemma canonical_iff: "canonical x \<longleftrightarrow> of_u8 (to_u8 x) = x"
  using canonical_of of_to by metis

lemma range_of_u8: "range of_u8 = {x. canonical x}"
  using canonical_of of_to by (auto intro: rangeI) (metis rangeI)

lemma same_code_iff: "canonical x \<Longrightarrow> canonical y \<Longrightarrow> to_u8 x = to_u8 y \<longleftrightarrow> x = y"
  using of_to by metis

lemma map_to_of: "map to_u8 (map of_u8 us) = us"
  by (induction us) (simp_all add: to_of)

lemma map_of_to: "list_all canonical xs \<Longrightarrow> map of_u8 (map to_u8 xs) = xs"
  by (induction xs) (simp_all add: of_to)

lemma list_all_canonical: "list_all canonical (map of_u8 us)"
  by (induction us) (simp_all add: canonical_of)

end

locale wire_enum = wire_code of_u8 to_u8 canonical
  for of_u8 :: "u8 \<Rightarrow> 'a" and to_u8 :: "'a \<Rightarrow> u8" and canonical :: "'a \<Rightarrow> bool" +
  fixes variants :: "'a list"
    and named :: "'a \<Rightarrow> bool"
  assumes variants_named: "x \<in> set variants \<longleftrightarrow> named x"
    and named_canonical: "named x \<Longrightarrow> canonical x"
    and variants_distinct: "distinct variants"
begin

lemma variants_from_codes: "set variants = of_u8 ` {u. named (of_u8 u)}"
proof
  show "set variants \<subseteq> of_u8 ` {u. named (of_u8 u)}"
  proof
    fix x assume "x \<in> set variants"
    then have "named x" by (simp add: variants_named)
    then have "of_u8 (to_u8 x) = x" by (simp add: named_canonical of_to)
    with \<open>named x\<close> show "x \<in> of_u8 ` {u. named (of_u8 u)}"
      by (metis (mono_tags) image_eqI mem_Collect_eq)
  qed
  show "of_u8 ` {u. named (of_u8 u)} \<subseteq> set variants"
    by (auto simp: variants_named)
qed

lemma variants_count: "length variants = card {u. named (of_u8 u)}"
proof -
  have "length variants = card (set variants)"
    by (simp add: distinct_card variants_distinct)
  also have "\<dots> = card {u. named (of_u8 u)}"
    unfolding variants_from_codes by (rule card_image) (rule inj_on_subset [OF inj_of_u8], simp)
  finally show ?thesis .
qed

end

section \<open>The registries\<close>

subsection \<open>Tag\<close>

datatype Tag =
    Reserved
  | PKESK
  | Signature
  | SKESK
  | OnePassSig
  | SecretKey
  | PublicKey
  | SecretSubkey
  | CompressedData
  | SED
  | Marker
  | Literal
  | Trust
  | UserID
  | PublicSubkey
  | UserAttribute
  | SEIP
  | MDC
  | AED
  | Padding
  | Unknown u8
  | Private u8

definition Tag_from_u8 :: "u8 \<Rightarrow> Tag" where
  "Tag_from_u8 u =
      (if u = 0 then Tag.Reserved
       else if u = 1 then Tag.PKESK
       else if u = 2 then Tag.Signature
       else if u = 3 then Tag.SKESK
       else if u = 4 then Tag.OnePassSig
       else if u = 5 then Tag.SecretKey
       else if u = 6 then Tag.PublicKey
       else if u = 7 then Tag.SecretSubkey
       else if u = 8 then Tag.CompressedData
       else if u = 9 then Tag.SED
       else if u = 10 then Tag.Marker
       else if u = 11 then Tag.Literal
       else if u = 12 then Tag.Trust
       else if u = 13 then Tag.UserID
       else if u = 14 then Tag.PublicSubkey
       else if u = 17 then Tag.UserAttribute
       else if u = 18 then Tag.SEIP
       else if u = 19 then Tag.MDC
       else if u = 20 then Tag.AED
       else if u = 21 then Tag.Padding
       else if 60 \<le> u \<and> u \<le> 63 then Tag.Private u
       else Tag.Unknown u)"

primrec u8_from_Tag :: "Tag \<Rightarrow> u8" where
  "u8_from_Tag Tag.Reserved = 0"
| "u8_from_Tag Tag.PKESK = 1"
| "u8_from_Tag Tag.Signature = 2"
| "u8_from_Tag Tag.SKESK = 3"
| "u8_from_Tag Tag.OnePassSig = 4"
| "u8_from_Tag Tag.SecretKey = 5"
| "u8_from_Tag Tag.PublicKey = 6"
| "u8_from_Tag Tag.SecretSubkey = 7"
| "u8_from_Tag Tag.CompressedData = 8"
| "u8_from_Tag Tag.SED = 9"
| "u8_from_Tag Tag.Marker = 10"
| "u8_from_Tag Tag.Literal = 11"
| "u8_from_Tag Tag.Trust = 12"
| "u8_from_Tag Tag.UserID = 13"
| "u8_from_Tag Tag.PublicSubkey = 14"
| "u8_from_Tag Tag.UserAttribute = 17"
| "u8_from_Tag Tag.SEIP = 18"
| "u8_from_Tag Tag.MDC = 19"
| "u8_from_Tag Tag.AED = 20"
| "u8_from_Tag Tag.Padding = 21"
| "u8_from_Tag (Tag.Private u) = u"
| "u8_from_Tag (Tag.Unknown u) = u"

definition Tag_canonical :: "Tag \<Rightarrow> bool" where
  "Tag_canonical x =
     (case x of
        Tag.Unknown u \<Rightarrow> u \<notin> {0, 1, 2, 3, 4, 5, 6, 7, 8, 9, 10, 11, 12, 13, 14, 17, 18, 19, 20, 21}
          \<and> \<not> (60 \<le> u \<and> u \<le> 63)
      | Tag.Private u \<Rightarrow> 60 \<le> u \<and> u \<le> 63
      | _ \<Rightarrow> True)"

definition Tag_variants :: "Tag list" where
  "Tag_variants =
     [Tag.PKESK,
      Tag.Signature,
      Tag.SKESK,
      Tag.OnePassSig,
      Tag.SecretKey,
      Tag.PublicKey,
      Tag.SecretSubkey,
      Tag.CompressedData,
      Tag.SED,
      Tag.Marker,
      Tag.Literal,
      Tag.Trust,
      Tag.UserID,
      Tag.PublicSubkey,
      Tag.UserAttribute,
      Tag.SEIP,
      Tag.MDC,
      Tag.AED,
      Tag.Padding]"


definition Tag_named :: "Tag \<Rightarrow> bool" where
  "Tag_named x = (case x of Tag.Unknown _ \<Rightarrow> False | Tag.Private _ \<Rightarrow> False | Tag.Reserved \<Rightarrow> False | _ \<Rightarrow> True)"

lemmas Tag_code_defs = Tag_from_u8_def Tag_canonical_def Tag_variants_def Tag_named_def

interpretation tag: wire_enum Tag_from_u8 u8_from_Tag Tag_canonical Tag_variants Tag_named
proof
  show "u8_from_Tag (Tag_from_u8 u) = u" for u
    by (simp add: Tag_from_u8_def)
  show "Tag_canonical (Tag_from_u8 u)" for u
    by (simp add: Tag_from_u8_def Tag_canonical_def)
  show "Tag_canonical x \<Longrightarrow> Tag_from_u8 (u8_from_Tag x) = x" for x
    by (cases x) (auto simp: Tag_code_defs)
  show "x \<in> set Tag_variants \<longleftrightarrow> Tag_named x" for x
    by (cases x) (simp_all add: Tag_code_defs)
  show "Tag_named x \<Longrightarrow> Tag_canonical x" for x
    by (cases x) (simp_all add: Tag_code_defs)
  show "distinct Tag_variants"
    by (simp add: Tag_variants_def)
qed

subsection \<open>PublicKeyAlgorithm\<close>

datatype PublicKeyAlgorithm =
    RSAEncryptSign
  | RSAEncrypt
  | RSASign
  | ElGamalEncrypt
  | DSA
  | ECDH
  | ECDSA
  | ElGamalEncryptSign
  | EdDSA
  | X25519
  | X448
  | Ed25519
  | Ed448
  | MLDSA65_Ed25519
  | MLDSA87_Ed448
  | SLHDSA128s
  | SLHDSA128f
  | SLHDSA256s
  | MLKEM768_X25519
  | MLKEM1024_X448
  | Private u8
  | Unknown u8

definition PublicKeyAlgorithm_from_u8 :: "u8 \<Rightarrow> PublicKeyAlgorithm" where
  "PublicKeyAlgorithm_from_u8 u =
      (if u = 1 then PublicKeyAlgorithm.RSAEncryptSign
       else if u = 2 then PublicKeyAlgorithm.RSAEncrypt
       else if u = 3 then PublicKeyAlgorithm.RSASign
       else if u = 16 then PublicKeyAlgorithm.ElGamalEncrypt
       else if u = 17 then PublicKeyAlgorithm.DSA
       else if u = 18 then PublicKeyAlgorithm.ECDH
       else if u = 19 then PublicKeyAlgorithm.ECDSA
       else if u = 20 then PublicKeyAlgorithm.ElGamalEncryptSign
       else if u = 22 then PublicKeyAlgorithm.EdDSA
       else if u = 25 then PublicKeyAlgorithm.X25519
       else if u = 26 then PublicKeyAlgorithm.X448
       else if u = 27 then PublicKeyAlgorithm.Ed25519
       else if u = 28 then PublicKeyAlgorithm.Ed448
       else if u = 30 then PublicKeyAlgorithm.MLDSA65_Ed25519
       else if u = 31 then PublicKeyAlgorithm.MLDSA87_Ed448
       else if u = 32 then PublicKeyAlgorithm.SLHDSA128s
       else if u = 33 then PublicKeyAlgorithm.SLHDSA128f
       else if u = 34 then PublicKeyAlgorithm.SLHDSA256s
       else if u = 35 then PublicKeyAlgorithm.MLKEM768_X25519
       else if u = 36 then PublicKeyAlgorithm.MLKEM1024_X448
       else if 100 \<le> u \<and> u \<le> 110 then PublicKeyAlgorithm.Private u
       else PublicKeyAlgorithm.Unknown u)"

primrec u8_from_PublicKeyAlgorithm :: "PublicKeyAlgorithm \<Rightarrow> u8" where
  "u8_from_PublicKeyAlgorithm PublicKeyAlgorithm.RSAEncryptSign = 1"
| "u8_from_PublicKeyAlgorithm PublicKeyAlgorithm.RSAEncrypt = 2"
| "u8_from_PublicKeyAlgorithm PublicKeyAlgorithm.RSASign = 3"
| "u8_from_PublicKeyAlgorithm PublicKeyAlgorithm.ElGamalEncrypt = 16"
| "u8_from_PublicKeyAlgorithm PublicKeyAlgorithm.DSA = 17"
| "u8_from_PublicKeyAlgorithm PublicKeyAlgorithm.ECDH = 18"
| "u8_from_PublicKeyAlgorithm PublicKeyAlgorithm.ECDSA = 19"
| "u8_from_PublicKeyAlgorithm PublicKeyAlgorithm.ElGamalEncryptSign = 20"
| "u8_from_PublicKeyAlgorithm PublicKeyAlgorithm.EdDSA = 22"
| "u8_from_PublicKeyAlgorithm PublicKeyAlgorithm.X25519 = 25"
| "u8_from_PublicKeyAlgorithm PublicKeyAlgorithm.X448 = 26"
| "u8_from_PublicKeyAlgorithm PublicKeyAlgorithm.Ed25519 = 27"
| "u8_from_PublicKeyAlgorithm PublicKeyAlgorithm.Ed448 = 28"
| "u8_from_PublicKeyAlgorithm PublicKeyAlgorithm.MLDSA65_Ed25519 = 30"
| "u8_from_PublicKeyAlgorithm PublicKeyAlgorithm.MLDSA87_Ed448 = 31"
| "u8_from_PublicKeyAlgorithm PublicKeyAlgorithm.SLHDSA128s = 32"
| "u8_from_PublicKeyAlgorithm PublicKeyAlgorithm.SLHDSA128f = 33"
| "u8_from_PublicKeyAlgorithm PublicKeyAlgorithm.SLHDSA256s = 34"
| "u8_from_PublicKeyAlgorithm PublicKeyAlgorithm.MLKEM768_X25519 = 35"
| "u8_from_PublicKeyAlgorithm PublicKeyAlgorithm.MLKEM1024_X448 = 36"
| "u8_from_PublicKeyAlgorithm (PublicKeyAlgorithm.Private u) = u"
| "u8_from_PublicKeyAlgorithm (PublicKeyAlgorithm.Unknown u) = u"

definition PublicKeyAlgorithm_canonical :: "PublicKeyAlgorithm \<Rightarrow> bool" where
  "PublicKeyAlgorithm_canonical x =
     (case x of
        PublicKeyAlgorithm.Private u \<Rightarrow> 100 \<le> u \<and> u \<le> 110
      | PublicKeyAlgorithm.Unknown u \<Rightarrow> u \<notin> {1, 2, 3, 16, 17, 18, 19, 20, 22, 25, 26, 27, 28, 30, 31, 32, 33, 34, 35, 36}
          \<and> \<not> (100 \<le> u \<and> u \<le> 110)
      | _ \<Rightarrow> True)"

definition PublicKeyAlgorithm_variants :: "PublicKeyAlgorithm list" where
  "PublicKeyAlgorithm_variants =
     [PublicKeyAlgorithm.RSAEncryptSign,
      PublicKeyAlgorithm.RSAEncrypt,
      PublicKeyAlgorithm.RSASign,
      PublicKeyAlgorithm.ElGamalEncrypt,
      PublicKeyAlgorithm.DSA,
      PublicKeyAlgorithm.ECDH,
      PublicKeyAlgorithm.ECDSA,
      PublicKeyAlgorithm.ElGamalEncryptSign,
      PublicKeyAlgorithm.EdDSA,
      PublicKeyAlgorithm.X25519,
      PublicKeyAlgorithm.X448,
      PublicKeyAlgorithm.Ed25519,
      PublicKeyAlgorithm.Ed448,
      PublicKeyAlgorithm.MLDSA65_Ed25519,
      PublicKeyAlgorithm.MLDSA87_Ed448,
      PublicKeyAlgorithm.SLHDSA128s,
      PublicKeyAlgorithm.SLHDSA128f,
      PublicKeyAlgorithm.SLHDSA256s,
      PublicKeyAlgorithm.MLKEM768_X25519,
      PublicKeyAlgorithm.MLKEM1024_X448]"


definition PublicKeyAlgorithm_named :: "PublicKeyAlgorithm \<Rightarrow> bool" where
  "PublicKeyAlgorithm_named x = (case x of PublicKeyAlgorithm.Unknown _ \<Rightarrow> False | PublicKeyAlgorithm.Private _ \<Rightarrow> False | _ \<Rightarrow> True)"

lemmas PublicKeyAlgorithm_code_defs = PublicKeyAlgorithm_from_u8_def PublicKeyAlgorithm_canonical_def PublicKeyAlgorithm_variants_def PublicKeyAlgorithm_named_def

interpretation pk_algo: wire_enum PublicKeyAlgorithm_from_u8 u8_from_PublicKeyAlgorithm PublicKeyAlgorithm_canonical PublicKeyAlgorithm_variants PublicKeyAlgorithm_named
proof
  show "u8_from_PublicKeyAlgorithm (PublicKeyAlgorithm_from_u8 u) = u" for u
    by (simp add: PublicKeyAlgorithm_from_u8_def)
  show "PublicKeyAlgorithm_canonical (PublicKeyAlgorithm_from_u8 u)" for u
    by (simp add: PublicKeyAlgorithm_from_u8_def PublicKeyAlgorithm_canonical_def)
  show "PublicKeyAlgorithm_canonical x \<Longrightarrow> PublicKeyAlgorithm_from_u8 (u8_from_PublicKeyAlgorithm x) = x" for x
    by (cases x) (auto simp: PublicKeyAlgorithm_code_defs)
  show "x \<in> set PublicKeyAlgorithm_variants \<longleftrightarrow> PublicKeyAlgorithm_named x" for x
    by (cases x) (simp_all add: PublicKeyAlgorithm_code_defs)
  show "PublicKeyAlgorithm_named x \<Longrightarrow> PublicKeyAlgorithm_canonical x" for x
    by (cases x) (simp_all add: PublicKeyAlgorithm_code_defs)
  show "distinct PublicKeyAlgorithm_variants"
    by (simp add: PublicKeyAlgorithm_variants_def)
qed

subsection \<open>SymmetricAlgorithm\<close>

datatype SymmetricAlgorithm =
    Unencrypted
  | IDEA
  | TripleDES
  | CAST5
  | Blowfish
  | AES128
  | AES192
  | AES256
  | Twofish
  | Camellia128
  | Camellia192
  | Camellia256
  | Private u8
  | Unknown u8

definition SymmetricAlgorithm_from_u8 :: "u8 \<Rightarrow> SymmetricAlgorithm" where
  "SymmetricAlgorithm_from_u8 u =
      (if u = 0 then SymmetricAlgorithm.Unencrypted
       else if u = 1 then SymmetricAlgorithm.IDEA
       else if u = 2 then SymmetricAlgorithm.TripleDES
       else if u = 3 then SymmetricAlgorithm.CAST5
       else if u = 4 then SymmetricAlgorithm.Blowfish
       else if u = 7 then SymmetricAlgorithm.AES128
       else if u = 8 then SymmetricAlgorithm.AES192
       else if u = 9 then SymmetricAlgorithm.AES256
       else if u = 10 then SymmetricAlgorithm.Twofish
       else if u = 11 then SymmetricAlgorithm.Camellia128
       else if u = 12 then SymmetricAlgorithm.Camellia192
       else if u = 13 then SymmetricAlgorithm.Camellia256
       else if 100 \<le> u \<and> u \<le> 110 then SymmetricAlgorithm.Private u
       else SymmetricAlgorithm.Unknown u)"

primrec u8_from_SymmetricAlgorithm :: "SymmetricAlgorithm \<Rightarrow> u8" where
  "u8_from_SymmetricAlgorithm SymmetricAlgorithm.Unencrypted = 0"
| "u8_from_SymmetricAlgorithm SymmetricAlgorithm.IDEA = 1"
| "u8_from_SymmetricAlgorithm SymmetricAlgorithm.TripleDES = 2"
| "u8_from_SymmetricAlgorithm SymmetricAlgorithm.CAST5 = 3"
| "u8_from_SymmetricAlgorithm SymmetricAlgorithm.Blowfish = 4"
| "u8_from_SymmetricAlgorithm SymmetricAlgorithm.AES128 = 7"
| "u8_from_SymmetricAlgorithm SymmetricAlgorithm.AES192 = 8"
| "u8_from_SymmetricAlgorithm SymmetricAlgorithm.AES256 = 9"
| "u8_from_SymmetricAlgorithm SymmetricAlgorithm.Twofish = 10"
| "u8_from_SymmetricAlgorithm SymmetricAlgorithm.Camellia128 = 11"
| "u8_from_SymmetricAlgorithm SymmetricAlgorithm.Camellia192 = 12"
| "u8_from_SymmetricAlgorithm SymmetricAlgorithm.Camellia256 = 13"
| "u8_from_SymmetricAlgorithm (SymmetricAlgorithm.Private u) = u"
| "u8_from_SymmetricAlgorithm (SymmetricAlgorithm.Unknown u) = u"

definition SymmetricAlgorithm_canonical :: "SymmetricAlgorithm \<Rightarrow> bool" where
  "SymmetricAlgorithm_canonical x =
     (case x of
        SymmetricAlgorithm.Private u \<Rightarrow> 100 \<le> u \<and> u \<le> 110
      | SymmetricAlgorithm.Unknown u \<Rightarrow> u \<notin> {0, 1, 2, 3, 4, 7, 8, 9, 10, 11, 12, 13}
          \<and> \<not> (100 \<le> u \<and> u \<le> 110)
      | _ \<Rightarrow> True)"

definition SymmetricAlgorithm_variants :: "SymmetricAlgorithm list" where
  "SymmetricAlgorithm_variants =
     [SymmetricAlgorithm.IDEA,
      SymmetricAlgorithm.TripleDES,
      SymmetricAlgorithm.CAST5,
      SymmetricAlgorithm.Blowfish,
      SymmetricAlgorithm.AES128,
      SymmetricAlgorithm.AES192,
      SymmetricAlgorithm.AES256,
      SymmetricAlgorithm.Twofish,
      SymmetricAlgorithm.Camellia128,
      SymmetricAlgorithm.Camellia192,
      SymmetricAlgorithm.Camellia256]"


definition SymmetricAlgorithm_named :: "SymmetricAlgorithm \<Rightarrow> bool" where
  "SymmetricAlgorithm_named x = (case x of SymmetricAlgorithm.Unknown _ \<Rightarrow> False | SymmetricAlgorithm.Private _ \<Rightarrow> False | SymmetricAlgorithm.Unencrypted \<Rightarrow> False | _ \<Rightarrow> True)"

lemmas SymmetricAlgorithm_code_defs = SymmetricAlgorithm_from_u8_def SymmetricAlgorithm_canonical_def SymmetricAlgorithm_variants_def SymmetricAlgorithm_named_def

interpretation sym_algo: wire_enum SymmetricAlgorithm_from_u8 u8_from_SymmetricAlgorithm SymmetricAlgorithm_canonical SymmetricAlgorithm_variants SymmetricAlgorithm_named
proof
  show "u8_from_SymmetricAlgorithm (SymmetricAlgorithm_from_u8 u) = u" for u
    by (simp add: SymmetricAlgorithm_from_u8_def)
  show "SymmetricAlgorithm_canonical (SymmetricAlgorithm_from_u8 u)" for u
    by (simp add: SymmetricAlgorithm_from_u8_def SymmetricAlgorithm_canonical_def)
  show "SymmetricAlgorithm_canonical x \<Longrightarrow> SymmetricAlgorithm_from_u8 (u8_from_SymmetricAlgorithm x) = x" for x
    by (cases x) (auto simp: SymmetricAlgorithm_code_defs)
  show "x \<in> set SymmetricAlgorithm_variants \<longleftrightarrow> SymmetricAlgorithm_named x" for x
    by (cases x) (simp_all add: SymmetricAlgorithm_code_defs)
  show "SymmetricAlgorithm_named x \<Longrightarrow> SymmetricAlgorithm_canonical x" for x
    by (cases x) (simp_all add: SymmetricAlgorithm_code_defs)
  show "distinct SymmetricAlgorithm_variants"
    by (simp add: SymmetricAlgorithm_variants_def)
qed

subsection \<open>HashAlgorithm\<close>

datatype HashAlgorithm =
    MD5
  | SHA1
  | RipeMD
  | SHA256
  | SHA384
  | SHA512
  | SHA224
  | SHA3_256
  | SHA3_512
  | Private u8
  | Unknown u8

definition HashAlgorithm_from_u8 :: "u8 \<Rightarrow> HashAlgorithm" where
  "HashAlgorithm_from_u8 u =
      (if u = 1 then HashAlgorithm.MD5
       else if u = 2 then HashAlgorithm.SHA1
       else if u = 3 then HashAlgorithm.RipeMD
       else if u = 8 then HashAlgorithm.SHA256
       else if u = 9 then HashAlgorithm.SHA384
       else if u = 10 then HashAlgorithm.SHA512
       else if u = 11 then HashAlgorithm.SHA224
       else if u = 12 then HashAlgorithm.SHA3_256
       else if u = 14 then HashAlgorithm.SHA3_512
       else if 100 \<le> u \<and> u \<le> 110 then HashAlgorithm.Private u
       else HashAlgorithm.Unknown u)"

primrec u8_from_HashAlgorithm :: "HashAlgorithm \<Rightarrow> u8" where
  "u8_from_HashAlgorithm HashAlgorithm.MD5 = 1"
| "u8_from_HashAlgorithm HashAlgorithm.SHA1 = 2"
| "u8_from_HashAlgorithm HashAlgorithm.RipeMD = 3"
| "u8_from_HashAlgorithm HashAlgorithm.SHA256 = 8"
| "u8_from_HashAlgorithm HashAlgorithm.SHA384 = 9"
| "u8_from_HashAlgorithm HashAlgorithm.SHA512 = 10"
| "u8_from_HashAlgorithm HashAlgorithm.SHA224 = 11"
| "u8_from_HashAlgorithm HashAlgorithm.SHA3_256 = 12"
| "u8_from_HashAlgorithm HashAlgorithm.SHA3_512 = 14"
| "u8_from_HashAlgorithm (HashAlgorithm.Private u) = u"
| "u8_from_HashAlgorithm (HashAlgorithm.Unknown u) = u"

definition HashAlgorithm_canonical :: "HashAlgorithm \<Rightarrow> bool" where
  "HashAlgorithm_canonical x =
     (case x of
        HashAlgorithm.Private u \<Rightarrow> 100 \<le> u \<and> u \<le> 110
      | HashAlgorithm.Unknown u \<Rightarrow> u \<notin> {1, 2, 3, 8, 9, 10, 11, 12, 14}
          \<and> \<not> (100 \<le> u \<and> u \<le> 110)
      | _ \<Rightarrow> True)"

definition HashAlgorithm_variants :: "HashAlgorithm list" where
  "HashAlgorithm_variants =
     [HashAlgorithm.MD5,
      HashAlgorithm.SHA1,
      HashAlgorithm.RipeMD,
      HashAlgorithm.SHA256,
      HashAlgorithm.SHA384,
      HashAlgorithm.SHA512,
      HashAlgorithm.SHA224,
      HashAlgorithm.SHA3_256,
      HashAlgorithm.SHA3_512]"


definition HashAlgorithm_named :: "HashAlgorithm \<Rightarrow> bool" where
  "HashAlgorithm_named x = (case x of HashAlgorithm.Unknown _ \<Rightarrow> False | HashAlgorithm.Private _ \<Rightarrow> False | _ \<Rightarrow> True)"

lemmas HashAlgorithm_code_defs = HashAlgorithm_from_u8_def HashAlgorithm_canonical_def HashAlgorithm_variants_def HashAlgorithm_named_def

interpretation hash_algo: wire_enum HashAlgorithm_from_u8 u8_from_HashAlgorithm HashAlgorithm_canonical HashAlgorithm_variants HashAlgorithm_named
proof
  show "u8_from_HashAlgorithm (HashAlgorithm_from_u8 u) = u" for u
    by (simp add: HashAlgorithm_from_u8_def)
  show "HashAlgorithm_canonical (HashAlgorithm_from_u8 u)" for u
    by (simp add: HashAlgorithm_from_u8_def HashAlgorithm_canonical_def)
  show "HashAlgorithm_canonical x \<Longrightarrow> HashAlgorithm_from_u8 (u8_from_HashAlgorithm x) = x" for x
    by (cases x) (auto simp: HashAlgorithm_code_defs)
  show "x \<in> set HashAlgorithm_variants \<longleftrightarrow> HashAlgorithm_named x" for x
    by (cases x) (simp_all add: HashAlgorithm_code_defs)
  show "HashAlgorithm_named x \<Longrightarrow> HashAlgorithm_canonical x" for x
    by (cases x) (simp_all add: HashAlgorithm_code_defs)
  show "distinct HashAlgorithm_variants"
    by (simp add: HashAlgorithm_variants_def)
qed

subsection \<open>AEADAlgorithm\<close>

datatype AEADAlgorithm =
    EAX
  | OCB
  | GCM
  | Private u8
  | Unknown u8

definition AEADAlgorithm_from_u8 :: "u8 \<Rightarrow> AEADAlgorithm" where
  "AEADAlgorithm_from_u8 u =
      (if u = 1 then AEADAlgorithm.EAX
       else if u = 2 then AEADAlgorithm.OCB
       else if u = 3 then AEADAlgorithm.GCM
       else if 100 \<le> u \<and> u \<le> 110 then AEADAlgorithm.Private u
       else AEADAlgorithm.Unknown u)"

primrec u8_from_AEADAlgorithm :: "AEADAlgorithm \<Rightarrow> u8" where
  "u8_from_AEADAlgorithm AEADAlgorithm.EAX = 1"
| "u8_from_AEADAlgorithm AEADAlgorithm.OCB = 2"
| "u8_from_AEADAlgorithm AEADAlgorithm.GCM = 3"
| "u8_from_AEADAlgorithm (AEADAlgorithm.Private u) = u"
| "u8_from_AEADAlgorithm (AEADAlgorithm.Unknown u) = u"

definition AEADAlgorithm_canonical :: "AEADAlgorithm \<Rightarrow> bool" where
  "AEADAlgorithm_canonical x =
     (case x of
        AEADAlgorithm.Private u \<Rightarrow> 100 \<le> u \<and> u \<le> 110
      | AEADAlgorithm.Unknown u \<Rightarrow> u \<notin> {1, 2, 3}
          \<and> \<not> (100 \<le> u \<and> u \<le> 110)
      | _ \<Rightarrow> True)"

definition AEADAlgorithm_variants :: "AEADAlgorithm list" where
  "AEADAlgorithm_variants =
     [AEADAlgorithm.EAX,
      AEADAlgorithm.OCB,
      AEADAlgorithm.GCM]"


definition AEADAlgorithm_named :: "AEADAlgorithm \<Rightarrow> bool" where
  "AEADAlgorithm_named x = (case x of AEADAlgorithm.Unknown _ \<Rightarrow> False | AEADAlgorithm.Private _ \<Rightarrow> False | _ \<Rightarrow> True)"

lemmas AEADAlgorithm_code_defs = AEADAlgorithm_from_u8_def AEADAlgorithm_canonical_def AEADAlgorithm_variants_def AEADAlgorithm_named_def

interpretation aead_algo: wire_enum AEADAlgorithm_from_u8 u8_from_AEADAlgorithm AEADAlgorithm_canonical AEADAlgorithm_variants AEADAlgorithm_named
proof
  show "u8_from_AEADAlgorithm (AEADAlgorithm_from_u8 u) = u" for u
    by (simp add: AEADAlgorithm_from_u8_def)
  show "AEADAlgorithm_canonical (AEADAlgorithm_from_u8 u)" for u
    by (simp add: AEADAlgorithm_from_u8_def AEADAlgorithm_canonical_def)
  show "AEADAlgorithm_canonical x \<Longrightarrow> AEADAlgorithm_from_u8 (u8_from_AEADAlgorithm x) = x" for x
    by (cases x) (auto simp: AEADAlgorithm_code_defs)
  show "x \<in> set AEADAlgorithm_variants \<longleftrightarrow> AEADAlgorithm_named x" for x
    by (cases x) (simp_all add: AEADAlgorithm_code_defs)
  show "AEADAlgorithm_named x \<Longrightarrow> AEADAlgorithm_canonical x" for x
    by (cases x) (simp_all add: AEADAlgorithm_code_defs)
  show "distinct AEADAlgorithm_variants"
    by (simp add: AEADAlgorithm_variants_def)
qed

subsection \<open>CompressionAlgorithm\<close>

datatype CompressionAlgorithm =
    Uncompressed
  | Zip
  | Zlib
  | BZip2
  | Private u8
  | Unknown u8

definition CompressionAlgorithm_from_u8 :: "u8 \<Rightarrow> CompressionAlgorithm" where
  "CompressionAlgorithm_from_u8 u =
      (if u = 0 then CompressionAlgorithm.Uncompressed
       else if u = 1 then CompressionAlgorithm.Zip
       else if u = 2 then CompressionAlgorithm.Zlib
       else if u = 3 then CompressionAlgorithm.BZip2
       else if 100 \<le> u \<and> u \<le> 110 then CompressionAlgorithm.Private u
       else CompressionAlgorithm.Unknown u)"

primrec u8_from_CompressionAlgorithm :: "CompressionAlgorithm \<Rightarrow> u8" where
  "u8_from_CompressionAlgorithm CompressionAlgorithm.Uncompressed = 0"
| "u8_from_CompressionAlgorithm CompressionAlgorithm.Zip = 1"
| "u8_from_CompressionAlgorithm CompressionAlgorithm.Zlib = 2"
| "u8_from_CompressionAlgorithm CompressionAlgorithm.BZip2 = 3"
| "u8_from_CompressionAlgorithm (CompressionAlgorithm.Private u) = u"
| "u8_from_CompressionAlgorithm (CompressionAlgorithm.Unknown u) = u"

definition CompressionAlgorithm_canonical :: "CompressionAlgorithm \<Rightarrow> bool" where
  "CompressionAlgorithm_canonical x =
     (case x of
        CompressionAlgorithm.Private u \<Rightarrow> 100 \<le> u \<and> u \<le> 110
      | CompressionAlgorithm.Unknown u \<Rightarrow> u \<notin> {0, 1, 2, 3}
          \<and> \<not> (100 \<le> u \<and> u \<le> 110)
      | _ \<Rightarrow> True)"

definition CompressionAlgorithm_variants :: "CompressionAlgorithm list" where
  "CompressionAlgorithm_variants =
     [CompressionAlgorithm.Uncompressed,
      CompressionAlgorithm.Zip,
      CompressionAlgorithm.Zlib,
      CompressionAlgorithm.BZip2]"


definition CompressionAlgorithm_named :: "CompressionAlgorithm \<Rightarrow> bool" where
  "CompressionAlgorithm_named x = (case x of CompressionAlgorithm.Unknown _ \<Rightarrow> False | CompressionAlgorithm.Private _ \<Rightarrow> False | _ \<Rightarrow> True)"

lemmas CompressionAlgorithm_code_defs = CompressionAlgorithm_from_u8_def CompressionAlgorithm_canonical_def CompressionAlgorithm_variants_def CompressionAlgorithm_named_def

interpretation comp_algo: wire_enum CompressionAlgorithm_from_u8 u8_from_CompressionAlgorithm CompressionAlgorithm_canonical CompressionAlgorithm_variants CompressionAlgorithm_named
proof
  show "u8_from_CompressionAlgorithm (CompressionAlgorithm_from_u8 u) = u" for u
    by (simp add: CompressionAlgorithm_from_u8_def)
  show "CompressionAlgorithm_canonical (CompressionAlgorithm_from_u8 u)" for u
    by (simp add: CompressionAlgorithm_from_u8_def CompressionAlgorithm_canonical_def)
  show "CompressionAlgorithm_canonical x \<Longrightarrow> CompressionAlgorithm_from_u8 (u8_from_CompressionAlgorithm x) = x" for x
    by (cases x) (auto simp: CompressionAlgorithm_code_defs)
  show "x \<in> set CompressionAlgorithm_variants \<longleftrightarrow> CompressionAlgorithm_named x" for x
    by (cases x) (simp_all add: CompressionAlgorithm_code_defs)
  show "CompressionAlgorithm_named x \<Longrightarrow> CompressionAlgorithm_canonical x" for x
    by (cases x) (simp_all add: CompressionAlgorithm_code_defs)
  show "distinct CompressionAlgorithm_variants"
    by (simp add: CompressionAlgorithm_variants_def)
qed

subsection \<open>SignatureType\<close>

datatype SignatureType =
    Binary
  | Text
  | Standalone
  | GenericCertification
  | PersonaCertification
  | CasualCertification
  | PositiveCertification
  | CertificationApproval
  | SubkeyBinding
  | PrimaryKeyBinding
  | DirectKey
  | KeyRevocation
  | SubkeyRevocation
  | CertificationRevocation
  | Timestamp
  | Confirmation
  | Unknown u8

definition SignatureType_from_u8 :: "u8 \<Rightarrow> SignatureType" where
  "SignatureType_from_u8 u =
      (if u = 0 then SignatureType.Binary
       else if u = 1 then SignatureType.Text
       else if u = 2 then SignatureType.Standalone
       else if u = 16 then SignatureType.GenericCertification
       else if u = 17 then SignatureType.PersonaCertification
       else if u = 18 then SignatureType.CasualCertification
       else if u = 19 then SignatureType.PositiveCertification
       else if u = 22 then SignatureType.CertificationApproval
       else if u = 24 then SignatureType.SubkeyBinding
       else if u = 25 then SignatureType.PrimaryKeyBinding
       else if u = 31 then SignatureType.DirectKey
       else if u = 32 then SignatureType.KeyRevocation
       else if u = 40 then SignatureType.SubkeyRevocation
       else if u = 48 then SignatureType.CertificationRevocation
       else if u = 64 then SignatureType.Timestamp
       else if u = 80 then SignatureType.Confirmation
       else SignatureType.Unknown u)"

primrec u8_from_SignatureType :: "SignatureType \<Rightarrow> u8" where
  "u8_from_SignatureType SignatureType.Binary = 0"
| "u8_from_SignatureType SignatureType.Text = 1"
| "u8_from_SignatureType SignatureType.Standalone = 2"
| "u8_from_SignatureType SignatureType.GenericCertification = 16"
| "u8_from_SignatureType SignatureType.PersonaCertification = 17"
| "u8_from_SignatureType SignatureType.CasualCertification = 18"
| "u8_from_SignatureType SignatureType.PositiveCertification = 19"
| "u8_from_SignatureType SignatureType.CertificationApproval = 22"
| "u8_from_SignatureType SignatureType.SubkeyBinding = 24"
| "u8_from_SignatureType SignatureType.PrimaryKeyBinding = 25"
| "u8_from_SignatureType SignatureType.DirectKey = 31"
| "u8_from_SignatureType SignatureType.KeyRevocation = 32"
| "u8_from_SignatureType SignatureType.SubkeyRevocation = 40"
| "u8_from_SignatureType SignatureType.CertificationRevocation = 48"
| "u8_from_SignatureType SignatureType.Timestamp = 64"
| "u8_from_SignatureType SignatureType.Confirmation = 80"
| "u8_from_SignatureType (SignatureType.Unknown u) = u"

definition SignatureType_canonical :: "SignatureType \<Rightarrow> bool" where
  "SignatureType_canonical x =
     (case x of
        SignatureType.Unknown u \<Rightarrow> u \<notin> {0, 1, 2, 16, 17, 18, 19, 22, 24, 25, 31, 32, 40, 48, 64, 80}
      | _ \<Rightarrow> True)"

definition SignatureType_variants :: "SignatureType list" where
  "SignatureType_variants =
     [SignatureType.Binary,
      SignatureType.Text,
      SignatureType.Standalone,
      SignatureType.GenericCertification,
      SignatureType.PersonaCertification,
      SignatureType.CasualCertification,
      SignatureType.PositiveCertification,
      SignatureType.CertificationApproval,
      SignatureType.SubkeyBinding,
      SignatureType.PrimaryKeyBinding,
      SignatureType.DirectKey,
      SignatureType.KeyRevocation,
      SignatureType.SubkeyRevocation,
      SignatureType.CertificationRevocation,
      SignatureType.Timestamp,
      SignatureType.Confirmation]"


definition SignatureType_named :: "SignatureType \<Rightarrow> bool" where
  "SignatureType_named x = (case x of SignatureType.Unknown _ \<Rightarrow> False | _ \<Rightarrow> True)"

lemmas SignatureType_code_defs = SignatureType_from_u8_def SignatureType_canonical_def SignatureType_variants_def SignatureType_named_def

interpretation sig_type: wire_enum SignatureType_from_u8 u8_from_SignatureType SignatureType_canonical SignatureType_variants SignatureType_named
proof
  show "u8_from_SignatureType (SignatureType_from_u8 u) = u" for u
    by (simp add: SignatureType_from_u8_def)
  show "SignatureType_canonical (SignatureType_from_u8 u)" for u
    by (simp add: SignatureType_from_u8_def SignatureType_canonical_def)
  show "SignatureType_canonical x \<Longrightarrow> SignatureType_from_u8 (u8_from_SignatureType x) = x" for x
    by (cases x) (auto simp: SignatureType_code_defs)
  show "x \<in> set SignatureType_variants \<longleftrightarrow> SignatureType_named x" for x
    by (cases x) (simp_all add: SignatureType_code_defs)
  show "SignatureType_named x \<Longrightarrow> SignatureType_canonical x" for x
    by (cases x) (simp_all add: SignatureType_code_defs)
  show "distinct SignatureType_variants"
    by (simp add: SignatureType_variants_def)
qed

subsection \<open>ReasonForRevocation\<close>

datatype ReasonForRevocation =
    Unspecified
  | KeySuperseded
  | KeyCompromised
  | KeyRetired
  | UIDRetired
  | Private u8
  | Unknown u8

definition ReasonForRevocation_from_u8 :: "u8 \<Rightarrow> ReasonForRevocation" where
  "ReasonForRevocation_from_u8 u =
      (if u = 0 then ReasonForRevocation.Unspecified
       else if u = 1 then ReasonForRevocation.KeySuperseded
       else if u = 2 then ReasonForRevocation.KeyCompromised
       else if u = 3 then ReasonForRevocation.KeyRetired
       else if u = 32 then ReasonForRevocation.UIDRetired
       else if 100 \<le> u \<and> u \<le> 110 then ReasonForRevocation.Private u
       else ReasonForRevocation.Unknown u)"

primrec u8_from_ReasonForRevocation :: "ReasonForRevocation \<Rightarrow> u8" where
  "u8_from_ReasonForRevocation ReasonForRevocation.Unspecified = 0"
| "u8_from_ReasonForRevocation ReasonForRevocation.KeySuperseded = 1"
| "u8_from_ReasonForRevocation ReasonForRevocation.KeyCompromised = 2"
| "u8_from_ReasonForRevocation ReasonForRevocation.KeyRetired = 3"
| "u8_from_ReasonForRevocation ReasonForRevocation.UIDRetired = 32"
| "u8_from_ReasonForRevocation (ReasonForRevocation.Private u) = u"
| "u8_from_ReasonForRevocation (ReasonForRevocation.Unknown u) = u"

definition ReasonForRevocation_canonical :: "ReasonForRevocation \<Rightarrow> bool" where
  "ReasonForRevocation_canonical x =
     (case x of
        ReasonForRevocation.Private u \<Rightarrow> 100 \<le> u \<and> u \<le> 110
      | ReasonForRevocation.Unknown u \<Rightarrow> u \<notin> {0, 1, 2, 3, 32}
          \<and> \<not> (100 \<le> u \<and> u \<le> 110)
      | _ \<Rightarrow> True)"

definition ReasonForRevocation_variants :: "ReasonForRevocation list" where
  "ReasonForRevocation_variants =
     [ReasonForRevocation.Unspecified,
      ReasonForRevocation.KeySuperseded,
      ReasonForRevocation.KeyCompromised,
      ReasonForRevocation.KeyRetired,
      ReasonForRevocation.UIDRetired]"


definition ReasonForRevocation_named :: "ReasonForRevocation \<Rightarrow> bool" where
  "ReasonForRevocation_named x = (case x of ReasonForRevocation.Unknown _ \<Rightarrow> False | ReasonForRevocation.Private _ \<Rightarrow> False | _ \<Rightarrow> True)"

lemmas ReasonForRevocation_code_defs = ReasonForRevocation_from_u8_def ReasonForRevocation_canonical_def ReasonForRevocation_variants_def ReasonForRevocation_named_def

interpretation rev_reason: wire_enum ReasonForRevocation_from_u8 u8_from_ReasonForRevocation ReasonForRevocation_canonical ReasonForRevocation_variants ReasonForRevocation_named
proof
  show "u8_from_ReasonForRevocation (ReasonForRevocation_from_u8 u) = u" for u
    by (simp add: ReasonForRevocation_from_u8_def)
  show "ReasonForRevocation_canonical (ReasonForRevocation_from_u8 u)" for u
    by (simp add: ReasonForRevocation_from_u8_def ReasonForRevocation_canonical_def)
  show "ReasonForRevocation_canonical x \<Longrightarrow> ReasonForRevocation_from_u8 (u8_from_ReasonForRevocation x) = x" for x
    by (cases x) (auto simp: ReasonForRevocation_code_defs)
  show "x \<in> set ReasonForRevocation_variants \<longleftrightarrow> ReasonForRevocation_named x" for x
    by (cases x) (simp_all add: ReasonForRevocation_code_defs)
  show "ReasonForRevocation_named x \<Longrightarrow> ReasonForRevocation_canonical x" for x
    by (cases x) (simp_all add: ReasonForRevocation_code_defs)
  show "distinct ReasonForRevocation_variants"
    by (simp add: ReasonForRevocation_variants_def)
qed

subsection \<open>DataFormat\<close>

datatype DataFormat =
    Binary
  | Unicode
  | Text
  | Unknown u8

definition DataFormat_from_u8 :: "u8 \<Rightarrow> DataFormat" where
  "DataFormat_from_u8 u =
      (if u = 98 then DataFormat.Binary
       else if u = 117 then DataFormat.Unicode
       else if u = 116 then DataFormat.Text
       else DataFormat.Unknown u)"

primrec u8_from_DataFormat :: "DataFormat \<Rightarrow> u8" where
  "u8_from_DataFormat DataFormat.Binary = 98"
| "u8_from_DataFormat DataFormat.Unicode = 117"
| "u8_from_DataFormat DataFormat.Text = 116"
| "u8_from_DataFormat (DataFormat.Unknown u) = u"

definition DataFormat_canonical :: "DataFormat \<Rightarrow> bool" where
  "DataFormat_canonical x =
     (case x of
        DataFormat.Unknown u \<Rightarrow> u \<notin> {98, 117, 116}
      | _ \<Rightarrow> True)"

definition DataFormat_variants :: "DataFormat list" where
  "DataFormat_variants =
     [DataFormat.Binary,
      DataFormat.Text,
      DataFormat.Unicode]"


definition DataFormat_named :: "DataFormat \<Rightarrow> bool" where
  "DataFormat_named x = (case x of DataFormat.Unknown _ \<Rightarrow> False | _ \<Rightarrow> True)"

lemmas DataFormat_code_defs = DataFormat_from_u8_def DataFormat_canonical_def DataFormat_variants_def DataFormat_named_def

interpretation data_format: wire_enum DataFormat_from_u8 u8_from_DataFormat DataFormat_canonical DataFormat_variants DataFormat_named
proof
  show "u8_from_DataFormat (DataFormat_from_u8 u) = u" for u
    by (simp add: DataFormat_from_u8_def)
  show "DataFormat_canonical (DataFormat_from_u8 u)" for u
    by (simp add: DataFormat_from_u8_def DataFormat_canonical_def)
  show "DataFormat_canonical x \<Longrightarrow> DataFormat_from_u8 (u8_from_DataFormat x) = x" for x
    by (cases x) (auto simp: DataFormat_code_defs)
  show "x \<in> set DataFormat_variants \<longleftrightarrow> DataFormat_named x" for x
    by (cases x) (simp_all add: DataFormat_code_defs)
  show "DataFormat_named x \<Longrightarrow> DataFormat_canonical x" for x
    by (cases x) (simp_all add: DataFormat_code_defs)
  show "distinct DataFormat_variants"
    by (simp add: DataFormat_variants_def)
qed

end
