(* ===== verification/Algorithms.thy ===== *)
theory Algorithms
  imports Types
begin

text \<open>
  The error type of the crate (\<open>lib.rs\<close>), elliptic curves (\<open>crypto/types/curve.rs\<close>) and the
  attributes of algorithms that other components consult: sizes, text names, capabilities
  and the hardness of revocation reasons.

  Rust's error values carry a message for the user; the model keeps the constructor and the
  payload that code inspects, not the text. \<open>Panic\<close> stands for an abort by a failed
  assertion, an out-of-range slice or an arithmetic overflow, which no \<open>?\<close> can catch.
\<close>

section \<open>Curves\<close>

datatype Curve =
    NistP256
  | NistP384
  | NistP521
  | BrainpoolP256
  | BrainpoolP384
  | BrainpoolP512
  | Ed25519
  | Cv25519
  | Unknown bytes

definition Curve_variants :: "Curve list" where
  "Curve_variants =
     [Curve.NistP256, Curve.NistP384, Curve.NistP521, Curve.BrainpoolP256, Curve.BrainpoolP384,
      Curve.BrainpoolP512, Curve.Ed25519, Curve.Cv25519]"

definition NIST_P256_OID :: bytes where
  "NIST_P256_OID = [0x2A, 0x86, 0x48, 0xCE, 0x3D, 0x03, 0x01, 0x07]"

definition NIST_P384_OID :: bytes where
  "NIST_P384_OID = [0x2B, 0x81, 0x04, 0x00, 0x22]"

definition NIST_P521_OID :: bytes where
  "NIST_P521_OID = [0x2B, 0x81, 0x04, 0x00, 0x23]"

definition BRAINPOOL_P256_OID :: bytes where
  "BRAINPOOL_P256_OID = [0x2B, 0x24, 0x03, 0x03, 0x02, 0x08, 0x01, 0x01, 0x07]"

definition BRAINPOOL_P384_OID :: bytes where
  "BRAINPOOL_P384_OID = [0x2B, 0x24, 0x03, 0x03, 0x02, 0x08, 0x01, 0x01, 0x0B]"

definition BRAINPOOL_P512_OID :: bytes where
  "BRAINPOOL_P512_OID = [0x2B, 0x24, 0x03, 0x03, 0x02, 0x08, 0x01, 0x01, 0x0D]"

definition ED25519_OID :: bytes where
  "ED25519_OID = [0x2B, 0x06, 0x01, 0x04, 0x01, 0xDA, 0x47, 0x0F, 0x01]"

definition CV25519_OID :: bytes where
  "CV25519_OID = [0x2B, 0x06, 0x01, 0x04, 0x01, 0x97, 0x55, 0x01, 0x05, 0x01]"

definition from_oid :: "bytes \<Rightarrow> Curve" where
  "from_oid oid =
     (if oid = NIST_P256_OID then Curve.NistP256
      else if oid = NIST_P384_OID then Curve.NistP384
      else if oid = NIST_P521_OID then Curve.NistP521
      else if oid = BRAINPOOL_P256_OID then Curve.BrainpoolP256
      else if oid = BRAINPOOL_P384_OID then Curve.BrainpoolP384
      else if oid = BRAINPOOL_P512_OID then Curve.BrainpoolP512
      else if oid = ED25519_OID then Curve.Ed25519
      else if oid = CV25519_OID then Curve.Cv25519
      else Curve.Unknown oid)"

primrec oid :: "Curve \<Rightarrow> bytes" where
  "oid Curve.NistP256 = NIST_P256_OID"
| "oid Curve.NistP384 = NIST_P384_OID"
| "oid Curve.NistP521 = NIST_P521_OID"
| "oid Curve.BrainpoolP256 = BRAINPOOL_P256_OID"
| "oid Curve.BrainpoolP384 = BRAINPOOL_P384_OID"
| "oid Curve.BrainpoolP512 = BRAINPOOL_P512_OID"
| "oid Curve.Ed25519 = ED25519_OID"
| "oid Curve.Cv25519 = CV25519_OID"
| "oid (Curve.Unknown bs) = bs"

lemmas curve_oid_defs =
  NIST_P256_OID_def NIST_P384_OID_def NIST_P521_OID_def BRAINPOOL_P256_OID_def
  BRAINPOOL_P384_OID_def BRAINPOOL_P512_OID_def ED25519_OID_def CV25519_OID_def

lemma oid_from_oid [simp]: "oid (from_oid bs) = bs"
  by (simp add: from_oid_def)

lemma from_oid_oid: "c \<in> set Curve_variants \<Longrightarrow> from_oid (oid c) = c"
  by (cases c) (simp_all add: from_oid_def curve_oid_defs Curve_variants_def)

section \<open>Errors\<close>

text \<open>The times of the system, in nanoseconds since the epoch.\<close>

type_synonym SystemTime = int

datatype Error =
    InvalidArgument
  | InvalidOperation
  | MalformedPacket
  | PacketTooLarge Tag u32 u32
  | UnsupportedPacketType Tag
  | UnsupportedHashAlgorithm HashAlgorithm
  | UnsupportedPublicKeyAlgorithm PublicKeyAlgorithm
  | UnsupportedEllipticCurve Curve
  | UnsupportedSymmetricAlgorithm SymmetricAlgorithm
  | UnsupportedAEADAlgorithm AEADAlgorithm
  | UnsupportedCompressionAlgorithm CompressionAlgorithm
  | UnsupportedSignatureType SignatureType
  | InvalidPassword
  | InvalidSessionKey
  | MissingSessionKey
  | MalformedMPI
  | BadSignature
  | ManipulatedMessage
  | MalformedMessage
  | MalformedCert
  | UnsupportedCert
  | IndexOutOfRange
  | Expired SystemTime
  | NotYetLive SystemTime
  | NoBindingSignature SystemTime
  | InvalidKey
  | NoAcceptableHash
  | PolicyViolation "SystemTime option"
  | ShortKeyID

datatype io_error_kind = UnexpectedEof | WriteZero | Interrupted | InvalidInput | BrokenPipe | OtherError

datatype failure = Err Error | IoErr io_error_kind | Panic

type_synonym 'a res = "failure + 'a"

text \<open>A run that aborts the process: the outcome that robustness theorems exclude.\<close>

definition panics :: "'a res \<Rightarrow> bool" where
  "panics r \<longleftrightarrow> r = Inl Panic"

lemma panics_simps [simp]:
  "\<not> panics (Inr x)" "\<not> panics (Inl (Err e))" "\<not> panics (Inl (IoErr k))" "panics (Inl Panic)"
  by (simp_all add: panics_def)

lemma panics_and_then [simp]:
  "panics (and_then m f) \<longleftrightarrow> panics m \<or> (\<exists>x. m = Inr x \<and> panics (f x))"
  by (cases m) (auto simp: panics_def)

section \<open>Attributes of algorithms\<close>

definition key_size :: "SymmetricAlgorithm \<Rightarrow> nat res" where
  "key_size a =
     (case a of
        SymmetricAlgorithm.IDEA \<Rightarrow> Inr 16
      | SymmetricAlgorithm.TripleDES \<Rightarrow> Inr 24
      | SymmetricAlgorithm.CAST5 \<Rightarrow> Inr 16
      | SymmetricAlgorithm.Blowfish \<Rightarrow> Inr 16
      | SymmetricAlgorithm.AES128 \<Rightarrow> Inr 16
      | SymmetricAlgorithm.AES192 \<Rightarrow> Inr 24
      | SymmetricAlgorithm.AES256 \<Rightarrow> Inr 32
      | SymmetricAlgorithm.Twofish \<Rightarrow> Inr 32
      | SymmetricAlgorithm.Camellia128 \<Rightarrow> Inr 16
      | SymmetricAlgorithm.Camellia192 \<Rightarrow> Inr 24
      | SymmetricAlgorithm.Camellia256 \<Rightarrow> Inr 32
      | _ \<Rightarrow> Inl (Err (UnsupportedSymmetricAlgorithm a)))"

definition block_size :: "SymmetricAlgorithm \<Rightarrow> nat res" where
  "block_size a =
     (case a of
        SymmetricAlgorithm.IDEA \<Rightarrow> Inr 8
      | SymmetricAlgorithm.TripleDES \<Rightarrow> Inr 8
      | SymmetricAlgorithm.CAST5 \<Rightarrow> Inr 8
      | SymmetricAlgorithm.Blowfish \<Rightarrow> Inr 8
      | SymmetricAlgorithm.AES128 \<Rightarrow> Inr 16
      | SymmetricAlgorithm.AES192 \<Rightarrow> Inr 16
      | SymmetricAlgorithm.AES256 \<Rightarrow> Inr 16
      | SymmetricAlgorithm.Twofish \<Rightarrow> Inr 16
      | SymmetricAlgorithm.Camellia128 \<Rightarrow> Inr 16
      | SymmetricAlgorithm.Camellia192 \<Rightarrow> Inr 16
      | SymmetricAlgorithm.Camellia256 \<Rightarrow> Inr 16
      | _ \<Rightarrow> Inl (Err (UnsupportedSymmetricAlgorithm a)))"

definition digest_size :: "HashAlgorithm \<Rightarrow> nat res" where
  "digest_size h =
     (case h of
        HashAlgorithm.MD5 \<Rightarrow> Inr 16
      | HashAlgorithm.SHA1 \<Rightarrow> Inr 20
      | HashAlgorithm.RipeMD \<Rightarrow> Inr 20
      | HashAlgorithm.SHA256 \<Rightarrow> Inr 32
      | HashAlgorithm.SHA384 \<Rightarrow> Inr 48
      | HashAlgorithm.SHA512 \<Rightarrow> Inr 64
      | HashAlgorithm.SHA224 \<Rightarrow> Inr 28
      | HashAlgorithm.SHA3_256 \<Rightarrow> Inr 32
      | HashAlgorithm.SHA3_512 \<Rightarrow> Inr 64
      | HashAlgorithm.Private _ \<Rightarrow> Inl (Err (UnsupportedHashAlgorithm h))
      | HashAlgorithm.Unknown _ \<Rightarrow> Inl (Err (UnsupportedHashAlgorithm h)))"

definition salt_size :: "HashAlgorithm \<Rightarrow> nat res" where
  "salt_size h =
     (case h of
        HashAlgorithm.SHA256 \<Rightarrow> Inr 16
      | HashAlgorithm.SHA384 \<Rightarrow> Inr 24
      | HashAlgorithm.SHA512 \<Rightarrow> Inr 32
      | HashAlgorithm.SHA224 \<Rightarrow> Inr 16
      | HashAlgorithm.SHA3_256 \<Rightarrow> Inr 16
      | HashAlgorithm.SHA3_512 \<Rightarrow> Inr 32
      | _ \<Rightarrow> Inl (Err (UnsupportedHashAlgorithm h)))"

definition text_name :: "HashAlgorithm \<Rightarrow> string res" where
  "text_name h =
     (case h of
        HashAlgorithm.MD5 \<Rightarrow> Inr ''MD5''
      | HashAlgorithm.SHA1 \<Rightarrow> Inr ''SHA1''
      | HashAlgorithm.RipeMD \<Rightarrow> Inr ''RIPEMD160''
      | HashAlgorithm.SHA256 \<Rightarrow> Inr ''SHA256''
      | HashAlgorithm.SHA384 \<Rightarrow> Inr ''SHA384''
      | HashAlgorithm.SHA512 \<Rightarrow> Inr ''SHA512''
      | HashAlgorithm.SHA224 \<Rightarrow> Inr ''SHA224''
      | HashAlgorithm.SHA3_256 \<Rightarrow> Inr ''SHA3-256''
      | HashAlgorithm.SHA3_512 \<Rightarrow> Inr ''SHA3-512''
      | HashAlgorithm.Private _ \<Rightarrow> Inl (Err (UnsupportedHashAlgorithm h))
      | HashAlgorithm.Unknown _ \<Rightarrow> Inl (Err (UnsupportedHashAlgorithm h)))"

definition HashAlgorithm_display :: "HashAlgorithm \<Rightarrow> string" where
  "HashAlgorithm_display h =
     (case h of
        HashAlgorithm.MD5 \<Rightarrow> ''MD5''
      | HashAlgorithm.SHA1 \<Rightarrow> ''SHA1''
      | HashAlgorithm.RipeMD \<Rightarrow> ''RipeMD160''
      | HashAlgorithm.SHA256 \<Rightarrow> ''SHA256''
      | HashAlgorithm.SHA384 \<Rightarrow> ''SHA384''
      | HashAlgorithm.SHA512 \<Rightarrow> ''SHA512''
      | HashAlgorithm.SHA224 \<Rightarrow> ''SHA224''
      | HashAlgorithm.SHA3_256 \<Rightarrow> ''SHA3-256''
      | HashAlgorithm.SHA3_512 \<Rightarrow> ''SHA3-512''
      | HashAlgorithm.Private u \<Rightarrow> ''Private/Experimental hash algorithm '' @ show_nat (unat u)
      | HashAlgorithm.Unknown u \<Rightarrow> ''Unknown hash algorithm '' @ show_nat (unat u))"

definition HashAlgorithm_from_str :: "string \<Rightarrow> HashAlgorithm res" where
  "HashAlgorithm_from_str s =
     (if eq_ignore_ascii_case s ''MD5'' then Inr HashAlgorithm.MD5
      else if eq_ignore_ascii_case s ''SHA1'' then Inr HashAlgorithm.SHA1
      else if eq_ignore_ascii_case s ''RipeMD160'' then Inr HashAlgorithm.RipeMD
      else if eq_ignore_ascii_case s ''SHA256'' then Inr HashAlgorithm.SHA256
      else if eq_ignore_ascii_case s ''SHA384'' then Inr HashAlgorithm.SHA384
      else if eq_ignore_ascii_case s ''SHA512'' then Inr HashAlgorithm.SHA512
      else if eq_ignore_ascii_case s ''SHA224'' then Inr HashAlgorithm.SHA224
      else if eq_ignore_ascii_case s ''SHA3-256'' then Inr HashAlgorithm.SHA3_256
      else if eq_ignore_ascii_case s ''SHA3-512'' then Inr HashAlgorithm.SHA3_512
      else Inl (Err InvalidArgument))"

definition for_signing :: "PublicKeyAlgorithm \<Rightarrow> bool" where
  "for_signing a =
     (case a of
        PublicKeyAlgorithm.RSAEncryptSign \<Rightarrow> True
      | PublicKeyAlgorithm.RSASign \<Rightarrow> True
      | PublicKeyAlgorithm.DSA \<Rightarrow> True
      | PublicKeyAlgorithm.ECDSA \<Rightarrow> True
      | PublicKeyAlgorithm.ElGamalEncryptSign \<Rightarrow> True
      | PublicKeyAlgorithm.EdDSA \<Rightarrow> True
      | PublicKeyAlgorithm.Ed25519 \<Rightarrow> True
      | PublicKeyAlgorithm.Ed448 \<Rightarrow> True
      | PublicKeyAlgorithm.MLDSA65_Ed25519 \<Rightarrow> True
      | PublicKeyAlgorithm.MLDSA87_Ed448 \<Rightarrow> True
      | PublicKeyAlgorithm.SLHDSA128s \<Rightarrow> True
      | PublicKeyAlgorithm.SLHDSA128f \<Rightarrow> True
      | PublicKeyAlgorithm.SLHDSA256s \<Rightarrow> True
      | PublicKeyAlgorithm.Private _ \<Rightarrow> True
      | PublicKeyAlgorithm.Unknown _ \<Rightarrow> True
      | _ \<Rightarrow> False)"

definition for_encryption :: "PublicKeyAlgorithm \<Rightarrow> bool" where
  "for_encryption a =
     (case a of
        PublicKeyAlgorithm.RSAEncryptSign \<Rightarrow> True
      | PublicKeyAlgorithm.RSAEncrypt \<Rightarrow> True
      | PublicKeyAlgorithm.ElGamalEncrypt \<Rightarrow> True
      | PublicKeyAlgorithm.ECDH \<Rightarrow> True
      | PublicKeyAlgorithm.ElGamalEncryptSign \<Rightarrow> True
      | PublicKeyAlgorithm.X25519 \<Rightarrow> True
      | PublicKeyAlgorithm.X448 \<Rightarrow> True
      | PublicKeyAlgorithm.MLKEM768_X25519 \<Rightarrow> True
      | PublicKeyAlgorithm.MLKEM1024_X448 \<Rightarrow> True
      | PublicKeyAlgorithm.Private _ \<Rightarrow> True
      | PublicKeyAlgorithm.Unknown _ \<Rightarrow> True
      | _ \<Rightarrow> False)"

definition curve_bits :: "Curve \<Rightarrow> nat res" where
  "curve_bits c =
     (case c of
        Curve.NistP256 \<Rightarrow> Inr 256
      | Curve.NistP384 \<Rightarrow> Inr 384
      | Curve.NistP521 \<Rightarrow> Inr 521
      | Curve.BrainpoolP256 \<Rightarrow> Inr 256
      | Curve.BrainpoolP384 \<Rightarrow> Inr 384
      | Curve.BrainpoolP512 \<Rightarrow> Inr 512
      | Curve.Ed25519 \<Rightarrow> Inr 256
      | Curve.Cv25519 \<Rightarrow> Inr 256
      | Curve.Unknown _ \<Rightarrow> Inl (Err (UnsupportedEllipticCurve c)))"

definition field_size :: "Curve \<Rightarrow> nat res" where
  "field_size c = and_then (curve_bits c) (\<lambda>bits. Inr ((bits + 7) div 8))"

datatype RevocationType = Hard | Soft

definition revocation_type :: "ReasonForRevocation \<Rightarrow> RevocationType" where
  "revocation_type r =
     (case r of
        ReasonForRevocation.Unspecified \<Rightarrow> Hard
      | ReasonForRevocation.KeySuperseded \<Rightarrow> Soft
      | ReasonForRevocation.KeyCompromised \<Rightarrow> Hard
      | ReasonForRevocation.KeyRetired \<Rightarrow> Soft
      | ReasonForRevocation.UIDRetired \<Rightarrow> Soft
      | ReasonForRevocation.Private _ \<Rightarrow> Hard
      | ReasonForRevocation.Unknown _ \<Rightarrow> Hard)"

section \<open>Packet tags\<close>

text \<open>
  \<open>PartialEq for Tag\<close> compares wire octets, so \<open>Tag::Unknown(2)\<close> equals \<open>Tag::Signature\<close>
  in the code although the two values differ; pattern matches distinguish them.
\<close>

definition tag_eq :: "Tag \<Rightarrow> Tag \<Rightarrow> bool" where
  "tag_eq a b \<longleftrightarrow> u8_from_Tag a = u8_from_Tag b"

definition is_critical :: "Tag \<Rightarrow> bool" where
  "is_critical t =
     (let u = u8_from_Tag t in
      if u \<le> 39 then True else if 40 \<le> u \<and> u \<le> 63 then False else True)"

definition valid_start_of_message :: "Tag \<Rightarrow> bool" where
  "valid_start_of_message t \<longleftrightarrow>
     tag_eq t Tag.PublicKey \<or> tag_eq t Tag.SecretKey
     \<or> tag_eq t Tag.PKESK \<or> tag_eq t Tag.SKESK
     \<or> tag_eq t Tag.Literal \<or> tag_eq t Tag.CompressedData
     \<or> tag_eq t Tag.OnePassSig
     \<or> tag_eq t Tag.Signature"

lemma tag_eq_canonical: "Tag_canonical a \<Longrightarrow> Tag_canonical b \<Longrightarrow> tag_eq a b \<longleftrightarrow> a = b"
  by (simp add: tag_eq_def tag.same_code_iff)

lemma tag_eq_named: "Tag_canonical a \<Longrightarrow> Tag_named b \<Longrightarrow> tag_eq a b \<longleftrightarrow> a = b"
  by (simp add: tag_eq_canonical tag.named_canonical)

section \<open>Properties\<close>

text \<open>
  Key sizes are 16, 24 or 32 octets and are known for exactly the named ciphers, as block
  sizes are; a v6 signature salt is about half a digest; both textual names of a hash
  algorithm read back as the algorithm.
\<close>

lemma key_size_cases: "key_size a = Inr n \<Longrightarrow> n = 16 \<or> n = 24 \<or> n = 32"
  by (cases a) (auto simp: key_size_def)

lemma key_size_block_size: "is_ok (key_size a) \<longleftrightarrow> is_ok (block_size a)"
  by (cases a) (simp_all add: key_size_def block_size_def)

lemma key_size_supported: "is_ok (key_size a) \<longleftrightarrow> a \<in> set SymmetricAlgorithm_variants"
  by (cases a) (simp_all add: key_size_def SymmetricAlgorithm_variants_def)

lemma digest_size_pos: "digest_size h = Inr n \<Longrightarrow> 16 \<le> n \<and> n \<le> 64"
  by (cases h) (auto simp: digest_size_def)

lemma salt_le_digest: "salt_size h = Inr s \<Longrightarrow> digest_size h = Inr d \<Longrightarrow> 2 * s \<le> d + 4"
  by (cases h) (auto simp: salt_size_def digest_size_def)

lemmas hash_name_defs =
  HashAlgorithm_from_str_def HashAlgorithm_display_def text_name_def eq_ignore_ascii_case_def
  ascii_lower_def HashAlgorithm_variants_def

lemma hash_display_roundtrip:
  "h \<in> set HashAlgorithm_variants \<Longrightarrow> HashAlgorithm_from_str (HashAlgorithm_display h) = Inr h"
  by (cases h) (simp_all add: hash_name_defs)

lemma hash_text_name_roundtrip: "text_name h = Inr n \<Longrightarrow> HashAlgorithm_from_str n = Inr h"
  by (cases h) (auto simp: hash_name_defs char_of_def bit_0)

end
