(* ===== verification/Header.thy ===== *)
theory Header
  imports Algorithms
begin

text \<open>
  Packet framing: the cipher type byte, body lengths and packet headers
  (\<open>packet/header/ctb.rs\<close>, \<open>packet/header/mod.rs\<close>), their decoding (\<open>parse.rs\<close>) and their
  encoding (\<open>serialize.rs\<close>).

  A decoder takes the unread octets of the input and returns the value with the octets it
  left, as \<open>buffered_reader::Memory\<close> does with its buffer and cursor. An encoder returns the
  octets it writes.
\<close>

unbundle bit_operations_syntax

section \<open>Reading octets\<close>

text \<open>
  \<open>data_consume_hard\<close> fails with \<open>UnexpectedEof\<close> and leaves the reader alone when fewer than
  \<open>amount\<close> octets are left (\<open>buffered-reader/src/memory.rs\<close>); callers index the returned
  slice below \<open>amount\<close>, so the model returns exactly the consumed octets.
\<close>

type_synonym 'a reader = "bytes \<Rightarrow> ('a \<times> bytes) res"

definition data_consume_hard :: "nat \<Rightarrow> bytes reader" where
  "data_consume_hard amount bs =
     (if length bs < amount then Inl (IoErr UnexpectedEof)
      else Inr (take amount bs, drop amount bs))"

definition read_u8 :: "u8 reader" where
  "read_u8 bs = and_then (data_consume_hard 1 bs) (\<lambda>(d, rest). Inr (d ! 0, rest))"

definition read_be_u16 :: "u16 reader" where
  "read_be_u16 bs = and_then (data_consume_hard 2 bs) (\<lambda>(d, rest). Inr (from_be_u16 d, rest))"

definition read_be_u32 :: "u32 reader" where
  "read_be_u32 bs = and_then (data_consume_hard 4 bs) (\<lambda>(d, rest). Inr (from_be_u32 d, rest))"

lemma data_consume_hard_append [simp, wire_simps]:
  "n = length ds \<Longrightarrow> data_consume_hard n (ds @ rest) = Inr (ds, rest)"
  by (simp add: data_consume_hard_def)

lemma read_u8_Nil [simp]: "read_u8 [] = Inl (IoErr UnexpectedEof)"
  by (simp add: read_u8_def data_consume_hard_def)

lemma read_u8_Cons [simp, wire_simps]: "read_u8 (b # rest) = Inr (b, rest)"
  by (simp add: read_u8_def data_consume_hard_def)

lemma read_be_u16_append [simp, wire_simps]:
  "read_be_u16 (to_be_u16 n @ rest) = Inr (n, rest)"
  by (simp add: read_be_u16_def)

lemma read_be_u32_append [simp, wire_simps]:
  "read_be_u32 (to_be_u32 n @ rest) = Inr (n, rest)"
  by (simp add: read_be_u32_def)

lemma data_consume_hard_eq_Inr:
  "data_consume_hard n bs = Inr (d, rest) \<longleftrightarrow> bs = d @ rest \<and> length d = n"
  by (auto simp: data_consume_hard_def)

lemma read_u8_eq_Inr: "read_u8 bs = Inr (b, rest) \<longleftrightarrow> bs = b # rest"
  by (cases bs) auto

lemma read_be_u16_eq_Inr: "read_be_u16 bs = Inr (n, rest) \<longleftrightarrow> bs = to_be_u16 n @ rest"
  by (auto simp: read_be_u16_def result_simps data_consume_hard_eq_Inr to_from_be_u16)

lemma read_be_u32_eq_Inr: "read_be_u32 bs = Inr (n, rest) \<longleftrightarrow> bs = to_be_u32 n @ rest"
  by (auto simp: read_be_u32_def result_simps data_consume_hard_eq_Inr to_from_be_u32)

lemmas reader_inverts =
  data_consume_hard_eq_Inr read_u8_eq_Inr read_be_u16_eq_Inr read_be_u32_eq_Inr

lemma reader_no_panic [simp]:
  "\<not> panics (data_consume_hard n bs)" "\<not> panics (read_u8 bs)"
  "\<not> panics (read_be_u16 bs)" "\<not> panics (read_be_u32 bs)"
  by (auto simp: data_consume_hard_def read_u8_def read_be_u16_def read_be_u32_def)

section \<open>Codecs\<close>

text \<open>
  What a client of an encoder and a decoder may rely on: the decoder, run on an encoding
  followed by anything, returns the value and leaves exactly what followed. From this law
  encodings are self-delimiting, so a sequence of them is read back item by item.
\<close>

locale codec =
  fixes encode :: "'a \<Rightarrow> bytes res"
    and decode :: "'a reader"
    and dom :: "'a \<Rightarrow> bool"
  assumes encode_ok: "dom x \<Longrightarrow> is_ok (encode x)"
    and decode_encode: "dom x \<Longrightarrow> encode x = Inr bs \<Longrightarrow> decode (bs @ rest) = Inr (x, rest)"
    and encode_nonempty: "dom x \<Longrightarrow> encode x \<noteq> Inr []"
begin

lemma encode_inj: "dom x \<Longrightarrow> dom y \<Longrightarrow> encode x = encode y \<Longrightarrow> x = y"
  using encode_ok decode_encode [of x _ "[]"] decode_encode [of y _ "[]"]
  by (fastforce simp: is_ok_iff)

lemma encode_prefix_free:
  assumes "dom x" "dom y" "encode x = Inr xs" "encode y = Inr ys" "xs @ r = ys @ s"
  shows "x = y \<and> r = s"
  using decode_encode [OF assms(1,3), of r] decode_encode [OF assms(2,4), of s] assms(5) by simp

fun encode_all :: "'a list \<Rightarrow> bytes res" where
  "encode_all [] = Inr []"
| "encode_all (x # xs) = and_then (encode x) (\<lambda>b. and_then (encode_all xs) (\<lambda>bs. Inr (b @ bs)))"

fun decode_n :: "nat \<Rightarrow> bytes \<Rightarrow> ('a list \<times> bytes) res" where
  "decode_n 0 bs = Inr ([], bs)"
| "decode_n (Suc n) bs =
     and_then (decode bs) (\<lambda>(x, r). and_then (decode_n n r) (\<lambda>(xs, r'). Inr (x # xs, r')))"

lemma decode_n_encode_all:
  "list_all dom xs \<Longrightarrow> encode_all xs = Inr bs \<Longrightarrow> decode_n (length xs) (bs @ rest) = Inr (xs, rest)"
  by (induction xs arbitrary: bs) (auto simp: result_simps decode_encode)

end

section \<open>Body lengths\<close>

datatype BodyLength = Full u32 | Partial u32 | Indeterminate

datatype PacketLengthType = OneOctet | TwoOctets | FourOctets | Indeterminate

definition PacketLengthType_try_from :: "u8 \<Rightarrow> PacketLengthType res" where
  "PacketLengthType_try_from u =
     (if u = 0 then Inr PacketLengthType.OneOctet
      else if u = 1 then Inr PacketLengthType.TwoOctets
      else if u = 2 then Inr PacketLengthType.FourOctets
      else if u = 3 then Inr PacketLengthType.Indeterminate
      else Inl (Err InvalidArgument))"

primrec u8_from_PacketLengthType :: "PacketLengthType \<Rightarrow> u8" where
  "u8_from_PacketLengthType PacketLengthType.OneOctet = 0"
| "u8_from_PacketLengthType PacketLengthType.TwoOctets = 1"
| "u8_from_PacketLengthType PacketLengthType.FourOctets = 2"
| "u8_from_PacketLengthType PacketLengthType.Indeterminate = 3"

text \<open>The position of the highest set bit, or 0 for the argument 0.\<close>

definition log2 :: "u32 \<Rightarrow> nat" where
  "log2 x = (if x = 0 then 0 else 31 - leading_zeros x)"

definition parse_new_format :: "BodyLength reader" where
  "parse_new_format bs =
     and_then (read_u8 bs) (\<lambda>(octet1, bs).
       if octet1 \<le> 191 then Inr (BodyLength.Full (ucast octet1), bs)
       else if octet1 \<le> 223 then
         and_then (read_u8 bs) (\<lambda>(octet2, bs).
           Inr (BodyLength.Full (push_bit 8 (ucast octet1 - 192) + ucast octet2 + 192), bs))
       else if octet1 \<le> 254 then Inr (BodyLength.Partial (push_bit (unat (octet1 AND 0x1F)) 1), bs)
       else and_then (read_be_u32 bs) (\<lambda>(n, bs). Inr (BodyLength.Full n, bs)))"

definition parse_old_format :: "PacketLengthType \<Rightarrow> BodyLength reader" where
  "parse_old_format length_type bs =
     (case length_type of
        PacketLengthType.OneOctet \<Rightarrow>
          and_then (read_u8 bs) (\<lambda>(b, bs). Inr (BodyLength.Full (ucast b), bs))
      | PacketLengthType.TwoOctets \<Rightarrow>
          and_then (read_be_u16 bs) (\<lambda>(n, bs). Inr (BodyLength.Full (ucast n), bs))
      | PacketLengthType.FourOctets \<Rightarrow>
          and_then (read_be_u32 bs) (\<lambda>(n, bs). Inr (BodyLength.Full n, bs))
      | PacketLengthType.Indeterminate \<Rightarrow> Inr (BodyLength.Indeterminate, bs))"

definition BodyLength_serialize :: "BodyLength \<Rightarrow> bytes res" where
  "BodyLength_serialize bl =
     (case bl of
        BodyLength.Full l \<Rightarrow>
          if l \<le> 191 then Inr [ucast l]
          else if l \<le> 8383 then
            (let v = l - 192; v = v + push_bit 8 192 in Inr (to_be_u16 (ucast v)))
          else Inr (0xff # to_be_u32 l)
      | BodyLength.Partial l \<Rightarrow>
          if l > push_bit 30 1 then Inl (Err InvalidArgument)
          else
            (let chunk_size_log2 = log2 l;
                 chunk_size = push_bit chunk_size_log2 1 in
             if l \<noteq> chunk_size then Inl (Err InvalidArgument)
             else
               (let size_byte = 224 + chunk_size_log2 in
                if \<not> size_byte < 255 then Inl Panic
                else Inr [word_of_nat size_byte]))
      | BodyLength.Indeterminate \<Rightarrow> Inl (Err InvalidArgument))"

definition BodyLength_serialized_len :: "BodyLength \<Rightarrow> nat" where
  "BodyLength_serialized_len bl =
     (case bl of
        BodyLength.Full l \<Rightarrow> if l \<le> 191 then 1 else if l \<le> 8383 then 2 else 5
      | BodyLength.Partial _ \<Rightarrow> 1
      | BodyLength.Indeterminate \<Rightarrow> 0)"

definition BodyLength_serialize_old :: "BodyLength \<Rightarrow> bytes res" where
  "BodyLength_serialize_old bl =
     (case bl of
        BodyLength.Full l \<Rightarrow>
          if l \<le> 0xFF then Inr [ucast l]
          else if l \<le> 0xFFFF then Inr (to_be_u16 (ucast l))
          else Inr (to_be_u32 l)
      | BodyLength.Indeterminate \<Rightarrow> Inr []
      | BodyLength.Partial _ \<Rightarrow> Inl (Err InvalidArgument))"

definition BodyLength_old_serialized_len :: "BodyLength \<Rightarrow> nat" where
  "BodyLength_old_serialized_len bl =
     (case bl of
        BodyLength.Full l \<Rightarrow> if l \<le> 0xFF then 1 else if l \<le> 0xFFFF then 2 else 4
      | BodyLength.Indeterminate \<Rightarrow> 0
      | BodyLength.Partial _ \<Rightarrow> 0)"

section \<open>Cipher type bytes\<close>

record CTBNew =
  new_tag :: Tag

record CTBOld =
  old_tag :: Tag
  length_type :: PacketLengthType

datatype CTB = New CTBNew | Old CTBOld

definition CTBNew_new :: "Tag \<Rightarrow> CTBNew" where
  "CTBNew_new tag = \<lparr>new_tag = tag\<rparr>"

definition CTBOld_new :: "Tag \<Rightarrow> BodyLength \<Rightarrow> CTBOld res" where
  "CTBOld_new tag len =
     (let n = u8_from_Tag tag in
      if n > 15 then Inl (Err InvalidArgument)
      else
        and_then
          (case len of
             BodyLength.Full l \<Rightarrow>
               if l \<le> 0xFF then Inr PacketLengthType.OneOctet
               else if l \<le> 0xFFFF then Inr PacketLengthType.TwoOctets
               else Inr PacketLengthType.FourOctets
           | BodyLength.Partial _ \<Rightarrow> Inl (Err InvalidArgument)
           | BodyLength.Indeterminate \<Rightarrow> Inr PacketLengthType.Indeterminate)
          (\<lambda>lt. Inr \<lparr>old_tag = tag, length_type = lt\<rparr>))"

definition CTB_new :: "Tag \<Rightarrow> CTB" where
  "CTB_new tag = CTB.New (CTBNew_new tag)"

definition CTB_tag :: "CTB \<Rightarrow> Tag" where
  "CTB_tag c = (case c of CTB.New c \<Rightarrow> new_tag c | CTB.Old c \<Rightarrow> old_tag c)"

definition CTB_try_from :: "u8 \<Rightarrow> CTB res" where
  "CTB_try_from ptag =
     (if ptag AND 0x80 = 0 then Inl (Err MalformedPacket)
      else
        (let new_format = (ptag AND 0x40 \<noteq> 0) in
         if new_format then
           (let tag = ptag AND 0x3F in Inr (CTB.New \<lparr>new_tag = Tag_from_u8 tag\<rparr>))
         else
           (let tag = drop_bit 2 (ptag AND 0x3C); lt = ptag AND 0x03 in
            and_then (PacketLengthType_try_from lt) (\<lambda>lt.
              Inr (CTB.Old \<lparr>old_tag = Tag_from_u8 tag, length_type = lt\<rparr>)))))"

definition CTBNew_serialize :: "CTBNew \<Rightarrow> bytes" where
  "CTBNew_serialize c = [0xC0 OR u8_from_Tag (new_tag c)]"

definition CTBOld_serialize :: "CTBOld \<Rightarrow> bytes" where
  "CTBOld_serialize c =
     [0x80 OR push_bit 2 (u8_from_Tag (old_tag c)) OR u8_from_PacketLengthType (length_type c)]"

definition CTB_serialize :: "CTB \<Rightarrow> bytes" where
  "CTB_serialize c = (case c of CTB.New c \<Rightarrow> CTBNew_serialize c | CTB.Old c \<Rightarrow> CTBOld_serialize c)"

section \<open>Headers\<close>

record Header =
  ctb :: CTB
  body_length :: BodyLength

definition Header_new :: "CTB \<Rightarrow> BodyLength \<Rightarrow> Header" where
  "Header_new c l = \<lparr>ctb = c, body_length = l\<rparr>"

definition Header_parse :: "Header reader" where
  "Header_parse bs =
     and_then (read_u8 bs) (\<lambda>(b, bs).
       and_then (CTB_try_from b) (\<lambda>ctb.
         and_then
           (case ctb of
              CTB.New _ \<Rightarrow> parse_new_format bs
            | CTB.Old c \<Rightarrow> parse_old_format (length_type c) bs)
           (\<lambda>(len, bs). Inr (Header_new ctb len, bs))))"

definition Header_serialize :: "Header \<Rightarrow> bytes res" where
  "Header_serialize h =
     and_then
       (case ctb h of
          CTB.New _ \<Rightarrow> BodyLength_serialize (body_length h)
        | CTB.Old _ \<Rightarrow> BodyLength_serialize_old (body_length h))
       (\<lambda>l. Inr (CTB_serialize (ctb h) @ l))"

definition Header_serialized_len :: "Header \<Rightarrow> nat" where
  "Header_serialized_len h =
     1 + (case ctb h of
            CTB.New _ \<Rightarrow> BodyLength_serialized_len (body_length h)
          | CTB.Old _ \<Rightarrow> BodyLength_old_serialized_len (body_length h))"

definition is_data_packet :: "Tag \<Rightarrow> bool" where
  "is_data_packet tag \<longleftrightarrow>
     tag_eq tag Tag.Literal \<or> tag_eq tag Tag.CompressedData
     \<or> tag_eq tag Tag.SED \<or> tag_eq tag Tag.SEIP \<or> tag_eq tag Tag.AED"

text \<open>
  The size check of \<open>Header::valid\<close> for packets that carry no data. The arm for the data
  packets is \<open>unreachable!\<close> in the code.
\<close>

definition valid_full_size :: "Tag \<Rightarrow> bool \<Rightarrow> u32 \<Rightarrow> bool res" where
  "valid_full_size tag future_compatible l =
     (case tag of
        Tag.Signature \<Rightarrow> Inr (10 \<le> l \<and> l < 10 + 2 * 64 * 1024 + 64 * 1024)
      | Tag.SKESK \<Rightarrow> Inr (3 \<le> l \<and> l < 10 * 1024)
      | Tag.PKESK \<Rightarrow> Inr ((10 < l \<and> l < 10 * 1024) \<or> (5 \<le> l \<and> l < 10 * 1024))
      | Tag.OnePassSig \<Rightarrow>
          if \<not> future_compatible then Inr (l = 13 \<or> (6 + 32 \<le> l \<and> l < 6 + 32 + 256))
          else Inr (l < 1024)
      | Tag.PublicKey \<Rightarrow> Inr (6 < l \<and> l < 1024 * 1024)
      | Tag.PublicSubkey \<Rightarrow> Inr (6 < l \<and> l < 1024 * 1024)
      | Tag.SecretKey \<Rightarrow> Inr (6 < l \<and> l < 1024 * 1024)
      | Tag.SecretSubkey \<Rightarrow> Inr (6 < l \<and> l < 1024 * 1024)
      | Tag.Trust \<Rightarrow> Inr True
      | Tag.UserID \<Rightarrow> Inr (l < 32 * 1024)
      | Tag.UserAttribute \<Rightarrow> Inr (2 \<le> l)
      | Tag.MDC \<Rightarrow> Inr (l = 20)
      | Tag.Literal \<Rightarrow> Inl Panic
      | Tag.CompressedData \<Rightarrow> Inl Panic
      | Tag.SED \<Rightarrow> Inl Panic
      | Tag.SEIP \<Rightarrow> Inl Panic
      | Tag.AED \<Rightarrow> Inl Panic
      | Tag.Unknown _ \<Rightarrow> Inr True
      | Tag.Private _ \<Rightarrow> Inr True
      | Tag.Marker \<Rightarrow> Inr (l = 3)
      | Tag.Reserved \<Rightarrow> Inr True
      | Tag.Padding \<Rightarrow> Inr True)"

definition Header_valid_length :: "Tag \<Rightarrow> bool \<Rightarrow> BodyLength \<Rightarrow> unit res" where
  "Header_valid_length tag future_compatible len =
     (if is_data_packet tag then
        (case len of
           BodyLength.Indeterminate \<Rightarrow> Inr ()
         | BodyLength.Partial l \<Rightarrow> if l < 512 then Inl (Err MalformedPacket) else Inr ()
         | BodyLength.Full l \<Rightarrow>
             if tag_eq tag Tag.SED \<and> l < 8 + 2 + 6 then Inl (Err MalformedPacket)
             else if tag_eq tag Tag.SEIP \<and> l < 1 + 8 + 2 + 6 + 20 then Inl (Err MalformedPacket)
             else if tag_eq tag Tag.CompressedData \<and> l = 0 then Inl (Err MalformedPacket)
             else if tag_eq tag Tag.Literal \<and> l < 6 then Inl (Err MalformedPacket)
             else Inr ())
      else
        (case len of
           BodyLength.Indeterminate \<Rightarrow> Inl (Err MalformedPacket)
         | BodyLength.Partial _ \<Rightarrow> Inl (Err MalformedPacket)
         | BodyLength.Full l \<Rightarrow>
             and_then (valid_full_size tag future_compatible l) (\<lambda>valid.
               if \<not> valid then Inl (Err MalformedPacket) else Inr ())))"

definition Header_valid :: "Header \<Rightarrow> bool \<Rightarrow> unit res" where
  "Header_valid h future_compatible =
     (let tag = CTB_tag (ctb h) in
      case tag of
        Tag.Reserved \<Rightarrow> Inl (Err (UnsupportedPacketType tag))
      | Tag.Unknown _ \<Rightarrow>
          if \<not> future_compatible then Inl (Err (UnsupportedPacketType tag))
          else Header_valid_length tag future_compatible (body_length h)
      | Tag.Private _ \<Rightarrow>
          if \<not> future_compatible then Inl (Err (UnsupportedPacketType tag))
          else Header_valid_length tag future_compatible (body_length h)
      | _ \<Rightarrow> Header_valid_length tag future_compatible (body_length h))"

section \<open>Properties of body lengths\<close>

lemma log2_2p: "k < 32 \<Longrightarrow> log2 (2 ^ k) = k"
  using bit_length_eqI [of k "2 ^ k :: u32"]
  by (simp add: log2_def leading_zeros_def unat_2p)

lemma log2_bounds:
  assumes "x \<noteq> 0"
  shows "2 ^ log2 x \<le> unat x" "unat x < 2 ^ Suc (log2 x)"
proof -
  have pos: "0 < bit_length x" using assms bit_length_le_iff [of x 0] by (simp add: unat_eq_zero)
  have le: "bit_length x \<le> 32" using bit_length_bound [of x] by simp
  have eq: "log2 x = bit_length x - 1"
    using pos le assms by (simp add: log2_def leading_zeros_def)
  show "2 ^ log2 x \<le> unat x" using bit_length_unat_ge [OF assms] by (simp add: eq)
  show "unat x < 2 ^ Suc (log2 x)" using unat_less_bit_length [of x] pos by (simp add: eq)
qed

lemma log2_less: "log2 x < 32"
proof -
  have "log2 x \<le> 31" by (simp add: log2_def)
  then show ?thesis by simp
qed

lemma to_be_u16_octets: "to_be_u16 w = [word_of_nat (unat w div 256), word_of_nat (unat w mod 256)]"
proof -
  have "unat w div 256 mod 256 = unat w div 256"
    using unat_less_2p [of w] by (simp add: less_mult_imp_div_less)
  then show ?thesis by (simp add: to_be_u16_def numeral_2_eq_2)
qed

text \<open>The lengths the new format can express.\<close>

definition new_format_ok :: "BodyLength \<Rightarrow> bool" where
  "new_format_ok bl =
     (case bl of
        BodyLength.Full _ \<Rightarrow> True
      | BodyLength.Partial l \<Rightarrow> l \<in> set (map (\<lambda>k. push_bit k 1) [0..<31])
      | BodyLength.Indeterminate \<Rightarrow> False)"

text \<open>
  The two-octet form: \<open>n\<close> with \<open>192 \<le> n \<le> 8383\<close> is written as \<open>0xC000 + (n - 192)\<close>.
\<close>

lemma two_octet_encoding:
  assumes "192 \<le> unat l" "unat l \<le> 8383"
  shows "to_be_u16 (ucast (l - 192 + push_bit 8 192 :: u32)) =
    [word_of_nat (192 + (unat l - 192) div 256), word_of_nat ((unat l - 192) mod 256)]"
proof -
  have "unat (l - 192) = unat l - 192"
    using assms by (simp add: unat_sub word_le_nat_alt)
  moreover have "push_bit 8 192 = (49152 :: u32)" by simp
  ultimately have "unat (l - 192 + push_bit 8 192) = unat l - 192 + 192 * 256"
    using assms by (simp add: unat_word_ariths)
  then have "unat (ucast (l - 192 + push_bit 8 192) :: u16) = unat l - 192 + 192 * 256"
    using assms by (simp add: unat_ucast_mod)
  moreover have "(unat l - 192 + 192 * 256) div 256 = 192 + (unat l - 192) div 256" by simp
  moreover have "(unat l - 192 + 192 * 256) mod 256 = (unat l - 192) mod 256" by presburger
  ultimately show ?thesis by (simp only: to_be_u16_octets)
qed

lemma two_octet_decoding:
  assumes "192 \<le> unat l" "unat l \<le> 8383"
  shows "push_bit 8 (ucast (word_of_nat (192 + (unat l - 192) div 256) :: u8) - 192)
    + ucast (word_of_nat ((unat l - 192) mod 256) :: u8) + 192 = (l :: u32)" (is "?lhs = l")
proof -
  define q r where "q = (unat l - 192) div 256" and "r = (unat l - 192) mod 256"
  have q: "q < 32" and r: "r < 256" and l: "unat l = q * 256 + r + 192"
    using assms by (auto simp: q_def r_def)
  have "ucast (word_of_nat (192 + q) :: u8) = (word_of_nat (192 + q) :: u32)"
    by (rule ucast_word_of_nat_u8) (use q in simp)
  moreover have "ucast (word_of_nat r :: u8) = (word_of_nat r :: u32)"
    using r by (rule ucast_word_of_nat_u8)
  ultimately have "?lhs = word_of_nat q * 256 + word_of_nat r + 192"
    by (simp add: q_def [symmetric] r_def [symmetric] push_bit_eq_mult)
  also have "\<dots> = word_of_nat (unat l)" by (simp add: l)
  finally show ?thesis by simp
qed

lemma parse_new_format_Full:
  assumes "BodyLength_serialize (BodyLength.Full l) = Inr bs"
  shows "parse_new_format (bs @ rest) = Inr (BodyLength.Full l, rest)"
proof -
  consider "unat l \<le> 191" | "192 \<le> unat l" "unat l \<le> 8383" | "8383 < unat l" by linarith
  then show ?thesis
  proof cases
    case 1
    then have "bs = [ucast l]" and "ucast (ucast l :: u8) = l"
      using assms by (auto simp: BodyLength_serialize_def word_le_nat_alt intro: ucast_ucast_id)
    moreover have "unat (ucast l :: u8) \<le> 191" using 1 by (simp add: unat_ucast_mod)
    ultimately show ?thesis by (simp add: parse_new_format_def word_le_nat_alt)
  next
    case 2
    then have bs: "bs = [word_of_nat (192 + (unat l - 192) div 256), word_of_nat ((unat l - 192) mod 256)]"
      using assms by (auto simp: BodyLength_serialize_def word_le_nat_alt Let_def two_octet_encoding
          simp del: push_bit_numeral)
    have "unat (word_of_nat (192 + (unat l - 192) div 256) :: u8) = 192 + (unat l - 192) div 256"
      by (rule unat_word_of_nat_u8) (use 2 in auto)
    with 2 show ?thesis
      using two_octet_decoding [OF 2] by (simp add: parse_new_format_def bs word_le_nat_alt)
  next
    case 3
    with assms have "bs = 0xff # to_be_u32 l"
      by (auto simp: BodyLength_serialize_def word_le_nat_alt)
    then show ?thesis by (simp add: parse_new_format_def word_le_nat_alt)
  qed
qed

lemma unat_2p_le_u32: "k < 32 \<Longrightarrow> j < 32 \<Longrightarrow> (2 ^ k :: u32) \<le> 2 ^ j \<longleftrightarrow> k \<le> j"
  by (simp add: word_le_nat_alt unat_2p)

lemma partial_octet: "k < 31 \<Longrightarrow> (word_of_nat (224 + k) :: u8) AND 0x1F = word_of_nat k"
proof -
  assume k: "k < 31"
  then have u: "unat (word_of_nat (224 + k) :: u8) = 224 + k" by (intro unat_word_of_nat_u8) simp
  have "(0x1F :: u8) = mask 5" by (simp add: mask_eq_exp_minus_1)
  then have "unat ((word_of_nat (224 + k) :: u8) AND 0x1F) = (224 + k) mod 2 ^ 5"
    by (simp only: unat_and_mask u)
  also have "\<dots> = k" using mod_mult_self3 [of 7 32 k] k by simp
  finally have "unat ((word_of_nat (224 + k) :: u8) AND 0x1F) = unat (word_of_nat k :: u8)"
    using k by (simp add: unat_word_of_nat_u8)
  then show ?thesis by (rule unsigned_word_eqI)
qed

lemma BodyLength_serialize_Partial:
  "BodyLength_serialize (BodyLength.Partial l) =
     (if l \<in> set (map (\<lambda>k. push_bit k 1) [0..<31]) then Inr [word_of_nat (224 + log2 l)]
      else Inl (Err InvalidArgument))"
proof (cases "l \<in> set (map (\<lambda>k. push_bit k 1) [0..<31])")
  case True
  then obtain k where k: "k < 31" "l = 2 ^ k" by (auto simp: push_bit_one)
  then have "\<not> 2 ^ 30 < l" using unat_2p_le_u32 [of k 30] by (simp add: not_less)
  with k True show ?thesis by (simp add: BodyLength_serialize_def push_bit_one log2_2p Let_def)
next
  case False
  have "l = 2 ^ log2 l \<Longrightarrow> l \<le> 2 ^ 30 \<Longrightarrow> log2 l < 31"
    using unat_2p_le_u32 [of "log2 l" 30] log2_less [of l] by simp
  with False show ?thesis
    by (auto simp: BodyLength_serialize_def push_bit_one Let_def not_less)
qed

lemma parse_new_format_Partial:
  assumes "BodyLength_serialize (BodyLength.Partial l) = Inr bs"
  shows "parse_new_format (bs @ rest) = Inr (BodyLength.Partial l, rest)"
proof -
  obtain k where k: "k < 31" "l = 2 ^ k" "bs = [word_of_nat (224 + k)]"
    using assms by (auto simp: BodyLength_serialize_Partial push_bit_one log2_2p split: if_splits)
  have u: "unat (word_of_nat (224 + k) :: u8) = 224 + k"
    by (rule unat_word_of_nat_u8) (use k in simp)
  have "unat (word_of_nat k :: u8) = k" using k by (intro unat_word_of_nat_u8) simp
  with k u partial_octet [OF k(1)] show ?thesis
    by (simp add: parse_new_format_def word_le_nat_alt push_bit_one)
qed

lemma BodyLength_serialize_ok: "is_ok (BodyLength_serialize bl) \<longleftrightarrow> new_format_ok bl"
  by (cases bl)
    (auto simp: new_format_ok_def BodyLength_serialize_Partial, simp_all add: BodyLength_serialize_def Let_def)

interpretation new_length: codec BodyLength_serialize parse_new_format new_format_ok
proof
  show "new_format_ok x \<Longrightarrow> is_ok (BodyLength_serialize x)" for x
    by (simp add: BodyLength_serialize_ok)
  show "new_format_ok x \<Longrightarrow> BodyLength_serialize x = Inr bs \<Longrightarrow>
      parse_new_format (bs @ rest) = Inr (x, rest)" for x bs rest
    by (cases x) (auto simp: parse_new_format_Full parse_new_format_Partial new_format_ok_def)
  show "new_format_ok x \<Longrightarrow> BodyLength_serialize x \<noteq> Inr []" for x
    by (cases x)
      (auto simp: BodyLength_serialize_Partial BodyLength_serialize_def Let_def to_be_u16_octets
        split: if_splits)
qed

lemma BodyLength_serialize_length:
  "BodyLength_serialize bl = Inr bs \<Longrightarrow> length bs = BodyLength_serialized_len bl"
  by (cases bl)
    (auto simp: BodyLength_serialize_Partial BodyLength_serialized_len_def split: if_splits,
     auto simp: BodyLength_serialize_def Let_def split: if_splits)

text \<open>Reading never fails for want of anything but octets, and any length read can be written.\<close>

lemma parse_new_format_ok: "parse_new_format bs = Inr (bl, rest) \<Longrightarrow> new_format_ok bl"
proof -
  have "unat (b AND 0x1F) < 31" if "b \<le> 254" "\<not> b \<le> 223" for b :: u8
  proof -
    have "(0x1F :: u8) = mask 5" by (simp add: mask_eq_exp_minus_1)
    then have "unat (b AND 0x1F) = unat b mod 32" by (simp only: unat_and_mask) simp
    moreover have "unat b = 7 * 32 + (unat b - 224)" "unat b - 224 < 31"
      using that by (auto simp: word_le_nat_alt)
    ultimately show ?thesis using mod_mult_self3 [of 7 32 "unat b - 224"] by simp
  qed
  then show "parse_new_format bs = Inr (bl, rest) \<Longrightarrow> new_format_ok bl"
    by (auto simp: parse_new_format_def new_format_ok_def result_simps split: if_splits)
qed

lemma parse_new_format_no_panic: "\<not> panics (parse_new_format bs)"
  by (auto simp: parse_new_format_def)

lemma parse_old_format_no_panic: "\<not> panics (parse_old_format lt bs)"
  by (cases lt) (auto simp: parse_old_format_def)

text \<open>Old-format lengths: the length type that \<open>CTBOld::new\<close> picks is the one that is written.\<close>

lemma parse_old_format_serialize:
  assumes "CTBOld_new tag bl = Inr c" and "BodyLength_serialize_old bl = Inr bs"
  shows "parse_old_format (length_type c) (bs @ rest) = Inr (bl, rest)"
proof (cases bl)
  case (Full l)
  consider "unat l \<le> 0xFF" | "0xFF < unat l" "unat l \<le> 0xFFFF" | "0xFFFF < unat l" by linarith
  then show ?thesis
    using assms Full
    by cases (auto simp: CTBOld_new_def BodyLength_serialize_old_def Let_def parse_old_format_def
        word_le_nat_alt ucast_ucast_id split: if_splits)
next
  case (Partial l)
  with assms show ?thesis by (simp add: BodyLength_serialize_old_def)
next
  case Indeterminate
  with assms show ?thesis
    by (auto simp: CTBOld_new_def BodyLength_serialize_old_def Let_def parse_old_format_def split: if_splits)
qed

lemma BodyLength_serialize_old_length:
  "BodyLength_serialize_old bl = Inr bs \<Longrightarrow> length bs = BodyLength_old_serialized_len bl"
  by (cases bl) (auto simp: BodyLength_serialize_old_def BodyLength_old_serialized_len_def split: if_splits)

section \<open>Properties of cipher type bytes\<close>

lemma u8_bit_tests:
  "(b AND 0x80 = (0::u8)) \<longleftrightarrow> \<not> bit b 7" "(b AND 0x40 = (0::u8)) \<longleftrightarrow> \<not> bit b 6"
  by (simp_all add: u8_eq_bits u8_all_bits bit_simps)

lemma ctb_new_octet: "bit b 7 \<Longrightarrow> bit b 6 \<Longrightarrow> 0xC0 OR (b AND 0x3F) = (b::u8)"
  by (simp add: u8_eq_bits u8_all_bits bit_simps)

lemma ctb_old_octet:
  "bit b 7 \<Longrightarrow> \<not> bit b 6 \<Longrightarrow> 0x80 OR push_bit 2 (drop_bit 2 b) AND 0x3C OR b AND 3 = (b::u8)"
  by (simp add: u8_eq_bits u8_all_bits bit_simps) (simp add: numeral_2_eq_2 numeral_3_eq_3)

lemma and_3_cases: "(b AND 3 :: u8) = 0 \<or> b AND 3 = 1 \<or> b AND 3 = 2 \<or> b AND 3 = 3"
  by (auto simp: u8_eq_bits u8_all_bits bit_simps)

lemma PacketLengthType_try_from_and_3:
  "\<exists>lt. PacketLengthType_try_from (b AND 3) = Inr lt \<and> u8_from_PacketLengthType lt = b AND 3"
  using and_3_cases [of b] by (auto simp: PacketLengthType_try_from_def)

lemma PacketLengthType_roundtrip:
  "PacketLengthType_try_from (u8_from_PacketLengthType lt) = Inr lt"
  by (cases lt) (simp_all add: PacketLengthType_try_from_def)

lemma CTB_serialize_try_from:
  "if bit b 7 then \<exists>c. CTB_try_from b = Inr c \<and> CTB_serialize c = [b]
   else CTB_try_from b = Inl (Err MalformedPacket)"
proof (cases "bit b 7")
  case True
  obtain lt where "PacketLengthType_try_from (b AND 3) = Inr lt" "u8_from_PacketLengthType lt = b AND 3"
    using PacketLengthType_try_from_and_3 by blast
  with True show ?thesis
    by (auto simp: CTB_try_from_def u8_bit_tests CTB_serialize_def CTBNew_serialize_def
        CTBOld_serialize_def tag.to_of ctb_new_octet ctb_old_octet Let_def)
next
  case False
  then show ?thesis by (simp add: CTB_try_from_def u8_bit_tests)
qed

lemma ctb_new_tag_octet:
  assumes "t < 64"
  shows "bit (0xC0 OR t) 7 \<and> bit (0xC0 OR t) 6 \<and> (0xC0 OR t) AND 0x3F = (t::u8)"
proof -
  have "\<not> bit t i" if "6 \<le> i" for i
    using assms that unat_less_2p_iff [of t 6] by (auto simp: word_less_nat_alt)
  then show ?thesis by (simp add: u8_bitwise)
qed

lemma ctb_old_tag_octet:
  assumes "t < 16" "lt < 4"
  shows "bit (0x80 OR push_bit 2 t OR lt) 7 \<and> \<not> bit (0x80 OR push_bit 2 t OR lt) 6
    \<and> drop_bit 2 ((0x80 OR push_bit 2 t OR lt) AND 0x3C) = t \<and> (0x80 OR push_bit 2 t OR lt) AND 3 = (lt::u8)"
proof -
  have t: "\<not> bit t i" if "4 \<le> i" for i
    using assms that unat_less_2p_iff [of t 4] by (auto simp: word_less_nat_alt)
  have l: "\<not> bit lt i" if "2 \<le> i" for i
    using assms that unat_less_2p_iff [of lt 2] by (auto simp: word_less_nat_alt)
  from t l show ?thesis by (simp add: u8_bitwise)
qed

text \<open>
  A cipher type byte whose tag fits its format: six bits in the new format, four in the old.
\<close>

definition CTB_wf :: "CTB \<Rightarrow> bool" where
  "CTB_wf c =
     (case c of
        CTB.New c \<Rightarrow> Tag_canonical (new_tag c) \<and> u8_from_Tag (new_tag c) < 64
      | CTB.Old c \<Rightarrow> Tag_canonical (old_tag c) \<and> u8_from_Tag (old_tag c) < 16)"

lemma CTB_try_from_serialize:
  assumes "CTB_wf c"
  obtains b where "CTB_serialize c = [b]" "CTB_try_from b = Inr c"
proof (cases c)
  case (New c')
  with assms ctb_new_tag_octet [of "u8_from_Tag (new_tag c')"] that show ?thesis
    by (simp add: CTB_wf_def CTB_serialize_def CTBNew_serialize_def CTB_try_from_def u8_bit_tests tag.of_to)
next
  case (Old c')
  have "u8_from_PacketLengthType (length_type c') < 4"
    by (cases "length_type c'") (simp_all add: word_less_nat_alt)
  with assms Old ctb_old_tag_octet [of "u8_from_Tag (old_tag c')" "u8_from_PacketLengthType (length_type c')"] that
  show ?thesis
    by (simp add: CTB_wf_def CTB_serialize_def CTBOld_serialize_def CTB_try_from_def u8_bit_tests
        tag.of_to PacketLengthType_roundtrip Let_def)
qed

section \<open>Properties of headers\<close>

text \<open>
  The headers the library constructs: a tag that fits, and a length that the format of the
  cipher type byte can express. In the old format the cipher type byte names the width of
  the length, so the two must agree as \<open>CTBOld::new\<close> makes them.
\<close>

definition Header_wf :: "Header \<Rightarrow> bool" where
  "Header_wf h \<longleftrightarrow>
     CTB_wf (ctb h)
     \<and> (case ctb h of
          CTB.New _ \<Rightarrow> new_format_ok (body_length h)
        | CTB.Old c \<Rightarrow> CTBOld_new (old_tag c) (body_length h) = Inr c)"

lemma Header_serialize_ok: "Header_wf h \<Longrightarrow> is_ok (Header_serialize h)"
  by (cases "ctb h"; cases "body_length h")
    (auto simp: Header_wf_def Header_serialize_def is_ok_iff result_simps CTBOld_new_def Let_def
      BodyLength_serialize_old_def BodyLength_serialize_ok [unfolded is_ok_iff] split: if_splits)

lemma Header_parse_serialize:
  assumes wf: "Header_wf h" and ser: "Header_serialize h = Inr bs"
  shows "Header_parse (bs @ rest) = Inr (h, rest)"
proof -
  obtain b where b: "CTB_serialize (ctb h) = [b]" "CTB_try_from b = Inr (ctb h)"
    using wf CTB_try_from_serialize [of "ctb h"] by (auto simp: Header_wf_def)
  have h: "Header_new (ctb h) (body_length h) = h" by (simp add: Header_new_def)
  show ?thesis
  proof (cases "ctb h")
    case (New c)
    then obtain l where "BodyLength_serialize (body_length h) = Inr l" "bs = b # l"
      using ser b by (auto simp: Header_serialize_def result_simps)
    moreover have "new_format_ok (body_length h)" using wf New by (simp add: Header_wf_def)
    ultimately show ?thesis
      using b h New by (simp add: Header_parse_def new_length.decode_encode)
  next
    case (Old c)
    then obtain l where l: "BodyLength_serialize_old (body_length h) = Inr l" "bs = b # l"
      using ser b by (auto simp: Header_serialize_def result_simps)
    moreover have "CTBOld_new (old_tag c) (body_length h) = Inr c" using wf Old by (simp add: Header_wf_def)
    ultimately show ?thesis
      using b h Old by (simp add: Header_parse_def parse_old_format_serialize)
  qed
qed

lemma CTB_serialize_length: "length (CTB_serialize c) = 1"
  by (cases c) (simp_all add: CTB_serialize_def CTBNew_serialize_def CTBOld_serialize_def)

lemma Header_serialize_length:
  "Header_serialize h = Inr bs \<Longrightarrow> length bs = Header_serialized_len h"
  by (cases "ctb h")
    (auto simp: Header_serialize_def Header_serialized_len_def result_simps CTB_serialize_length
      BodyLength_serialize_length BodyLength_serialize_old_length)

interpretation header: codec Header_serialize Header_parse Header_wf
proof
  show "Header_wf h \<Longrightarrow> is_ok (Header_serialize h)" for h by (rule Header_serialize_ok)
  show "Header_wf h \<Longrightarrow> Header_serialize h = Inr bs \<Longrightarrow> Header_parse (bs @ rest) = Inr (h, rest)"
    for h bs rest by (rule Header_parse_serialize)
  show "Header_wf h \<Longrightarrow> Header_serialize h \<noteq> Inr []" for h
    using Header_serialize_length [of h "[]"] by (auto simp: Header_serialized_len_def)
qed

lemma CTB_try_from_no_panic: "\<not> panics (CTB_try_from b)"
  using CTB_serialize_try_from [of b] by (auto split: if_splits)

lemma Header_parse_no_panic: "\<not> panics (Header_parse bs)"
  by (auto simp: Header_parse_def CTB_try_from_no_panic parse_new_format_no_panic
      parse_old_format_no_panic split: CTB.splits)

text \<open>The longer encodings of a length that a decoder accepts are never written again.\<close>

lemma parse_new_format_shrinks:
  assumes "parse_new_format bs = Inr (bl, rest)"
  shows "BodyLength_serialized_len bl + length rest \<le> length bs"
proof -
  have "push_bit 8 (ucast a - 192) + ucast b + 192 \<le> (8383 :: u32)" if "\<not> a \<le> 191" "a \<le> 223" for a b :: u8
  proof -
    define q where "q = unat a - 192"
    have a: "a = word_of_nat (192 + q)" and q: "q < 32"
      using that by (auto simp: q_def word_le_nat_alt)
    have "push_bit 8 (ucast a - 192) + ucast b + 192 = (word_of_nat (q * 256 + unat b + 192) :: u32)"
      using q by (simp only: a ucast_word_of_nat_u8) (simp add: push_bit_eq_mult)
    moreover have "q * 256 + unat b + 192 \<le> 8383"
      using q unat_u8_le [of b] by linarith
    ultimately show ?thesis by (simp only: word_le_nat_alt) (simp add: unat_of_nat del: of_nat_add)
  qed
  moreover have "a \<le> 191 \<Longrightarrow> ucast a \<le> (191 :: u32)" for a :: u8
    by (simp add: word_le_nat_alt unat_ucast_mod)
  moreover have "to_be_u32 n \<noteq> []" for n by (metis length_to_be(2) list.size(3) zero_neq_numeral)
  ultimately show ?thesis using assms
    by (auto simp: parse_new_format_def BodyLength_serialized_len_def result_simps reader_inverts
        split: if_splits)
qed

lemma CTB_try_from_wf: "CTB_try_from b = Inr c \<Longrightarrow> CTB_wf c"
proof -
  have "unat (b AND 0x3F) < 64"
    using unat_and_mask [of b 6] by (simp add: mask_eq_exp_minus_1)
  moreover have "unat (b AND 0x3C) \<le> unat (0x3C :: u8)"
    by (rule word_and_le1 [THEN word_le_nat_alt [THEN iffD1]])
  then have "unat (drop_bit 2 (b AND 0x3C)) < 16"
    by (simp only: unat_drop_bit) simp
  ultimately show "CTB_try_from b = Inr c \<Longrightarrow> CTB_wf c"
    by (auto simp: CTB_try_from_def Let_def CTB_wf_def result_simps tag.to_of tag.canonical_of
        word_less_nat_alt split: if_splits)
qed

lemma Header_parse_New:
  "Header_parse bs = Inr (h, rest) \<Longrightarrow> ctb h = CTB.New c \<Longrightarrow>
     \<exists>b bs'. bs = b # bs' \<and> CTB_try_from b = Inr (CTB.New c) \<and> parse_new_format bs' = Inr (body_length h, rest)"
proof -
  assume parse: "Header_parse bs = Inr (h, rest)" and new: "ctb h = CTB.New c"
  obtain b bs' ct l where "bs = b # bs'" "CTB_try_from b = Inr ct" "h = Header_new ct l"
    and l: "(case ct of CTB.New _ \<Rightarrow> parse_new_format bs'
      | CTB.Old c \<Rightarrow> parse_old_format (length_type c) bs') = Inr (l, rest)"
    using parse by (auto simp: Header_parse_def result_simps reader_inverts)
  with new show ?thesis by (auto simp: Header_new_def)
qed

section \<open>Properties of header validation\<close>

lemma valid_full_size_no_panic: "\<not> is_data_packet tag \<Longrightarrow> \<not> panics (valid_full_size tag fc l)"
  by (cases tag) (simp_all add: valid_full_size_def is_data_packet_def tag_eq_def)

lemma Header_valid_length_no_panic: "\<not> panics (Header_valid_length tag fc l)"
  by (auto simp: Header_valid_length_def valid_full_size_no_panic split: BodyLength.splits)

lemma valid_full_size_mono:
  "valid_full_size tag False l = Inr True \<Longrightarrow> valid_full_size tag True l = Inr True"
  by (cases tag) (auto simp: valid_full_size_def word_less_nat_alt word_le_nat_alt)

lemma Header_valid_length_mono:
  "Header_valid_length tag False l = Inr () \<Longrightarrow> Header_valid_length tag True l = Inr ()"
  by (cases l) (auto simp: Header_valid_length_def result_simps dest: valid_full_size_mono split: if_splits)

lemma Header_valid_eq_Inr:
  "Header_valid h fc = Inr () \<longleftrightarrow>
     CTB_tag (ctb h) \<noteq> Tag.Reserved
     \<and> (fc \<or> Tag_named (CTB_tag (ctb h)))
     \<and> Header_valid_length (CTB_tag (ctb h)) fc (body_length h) = Inr ()"
  by (cases "CTB_tag (ctb h)") (auto simp: Header_valid_def Tag_named_def Let_def split: if_splits)

section \<open>Theorems\<close>

text \<open>
  C18. Round trip of packet headers. Every header the library builds is written without error,
  in as many octets as announced, and reading those octets returns the header and stops
  exactly at its end.
\<close>

theorem header_roundtrip:
  assumes "Header_wf h"
  shows "\<exists>bs. Header_serialize h = Inr bs \<and> length bs = Header_serialized_len h
    \<and> (\<forall>rest. Header_parse (bs @ rest) = Inr (h, rest))"
proof -
  obtain bs where "Header_serialize h = Inr bs"
    using header.encode_ok [OF assms] by (auto simp: is_ok_iff)
  then show ?thesis
    by (auto intro: header.decode_encode [OF assms] Header_serialize_length)
qed

theorem header_roundtrip_witness:
  "Header_wf (Header_new (CTB_new Tag.Literal) (BodyLength.Partial 512))
   \<and> (\<exists>bs. Header_serialize (Header_new (CTB_new Tag.Literal) (BodyLength.Partial 512)) = Inr bs
        \<and> length bs = 2)"
proof -
  let ?h = "Header_new (CTB_new Tag.Literal) (BodyLength.Partial 512)"
  have wf: "Header_wf ?h"
    by (simp add: Header_wf_def CTB_wf_def new_format_ok_def Header_new_def CTB_new_def
        CTBNew_new_def Tag_canonical_def upt_rec)
  with header_roundtrip [OF wf] show ?thesis
    by (auto simp: Header_serialized_len_def BodyLength_serialized_len_def Header_new_def CTB_new_def)
qed

text \<open>
  The cipher type byte is decoded without loss: every octet whose top bit is set is
  decoded, and encoding the result gives the octet back; every other octet is rejected as
  malformed.
\<close>

theorem ctb_octet_roundtrip:
  "if bit b 7 then \<exists>c. CTB_try_from b = Inr c \<and> CTB_serialize c = [b]
   else CTB_try_from b = Inl (Err MalformedPacket)"
  by (rule CTB_serialize_try_from)

text \<open>
  Rewriting a new-format header never makes it longer and never changes its meaning:
  whatever encoding of the length was read, the header is written in at most as many octets,
  and those octets are read as the same header.
\<close>

theorem new_header_rewrite:
  assumes "Header_parse bs = Inr (h, rest)" and "ctb h = CTB.New c"
  shows "\<exists>bs'. Header_serialize h = Inr bs' \<and> length bs' + length rest \<le> length bs
    \<and> Header_parse (bs' @ rest) = Inr (h, rest)"
proof -
  obtain b bs0 where bs: "bs = b # bs0" "CTB_try_from b = Inr (CTB.New c)"
    "parse_new_format bs0 = Inr (body_length h, rest)"
    using Header_parse_New [OF assms] by blast
  have wf: "Header_wf h"
    using bs assms(2) CTB_try_from_wf parse_new_format_ok by (auto simp: Header_wf_def)
  then obtain bs' where bs': "Header_serialize h = Inr bs'"
    using header.encode_ok by (auto simp: is_ok_iff)
  have "length bs' + length rest \<le> length bs"
    using bs Header_serialize_length [OF bs'] parse_new_format_shrinks [OF bs(3)] assms(2)
    by (simp add: Header_serialized_len_def)
  with bs' wf show ?thesis using header.decode_encode by blast
qed

theorem new_header_rewrite_witness:
  "\<exists>bs' h. Header_parse [0xCB, 0xFF, 0, 0, 0, 7, 1] = Inr (h, [1])
     \<and> Header_serialize h = Inr bs' \<and> length bs' + 1 \<le> 7"
proof -
  let ?h = "Header_new (CTB_new Tag.Literal) (BodyLength.Full 7)"
  have p: "Header_parse [0xCB, 0xFF, 0, 0, 0, 7, 1] = Inr (?h, [1])"
    by (simp add: Header_parse_def CTB_try_from_def parse_new_format_def read_be_u32_def
        data_consume_hard_def from_be_u32_def be_nat_def CTB_new_def CTBNew_new_def Tag_from_u8_def
        Header_new_def)
  have c: "ctb ?h = CTB.New (CTBNew_new Tag.Literal)" by (simp add: Header_new_def CTB_new_def)
  show ?thesis using new_header_rewrite [OF p c] p by auto
qed

text \<open>
  Reading a header from arbitrary input and checking it never aborts the process: the arm
  of \<open>Header::valid\<close> marked \<open>unreachable!\<close> is not reached for any header, also one whose tag
  is an alias of a data packet's tag.
\<close>

theorem header_check_never_panics:
  "\<not> panics (and_then (Header_parse bs) (\<lambda>(h, rest). Header_valid h fc)) \<and> \<not> panics (Header_valid h' fc)"
proof -
  have valid: "\<not> panics (Header_valid h fc)" for h
    by (auto simp: Header_valid_def Header_valid_length_no_panic Let_def split: Tag.splits)
  then show ?thesis using Header_parse_no_panic by auto
qed

text \<open>
  What \<open>Header::valid\<close> guarantees: the tag is not the reserved one; a packet of
  indeterminate length or with a chunked body is a data packet, and its first chunk holds at
  least 512 octets; a header that passes the strict check passes the lenient one.
\<close>

theorem header_valid_framing:
  assumes "Header_valid h fc = Inr ()"
  shows "CTB_tag (ctb h) \<noteq> Tag.Reserved
    \<and> (case body_length h of
         BodyLength.Full _ \<Rightarrow> True
       | BodyLength.Partial l \<Rightarrow> is_data_packet (CTB_tag (ctb h)) \<and> 512 \<le> l
       | BodyLength.Indeterminate \<Rightarrow> is_data_packet (CTB_tag (ctb h)))
    \<and> Header_valid h True = Inr ()"
proof -
  have "Header_valid h True = Inr ()"
    using assms by (cases fc) (auto simp: Header_valid_eq_Inr dest: Header_valid_length_mono)
  with assms show ?thesis
    by (auto simp: Header_valid_eq_Inr Header_valid_length_def not_less split: BodyLength.splits if_splits)
qed

theorem header_valid_framing_witness:
  "Header_valid (Header_new (CTB_new Tag.SEIP) (BodyLength.Partial 1024)) False = Inr ()
   \<and> is_data_packet Tag.SEIP"
proof -
  have v: "Header_valid (Header_new (CTB_new Tag.SEIP) (BodyLength.Partial 1024)) False = Inr ()"
    by (simp add: Header_valid_def Header_valid_length_def Header_new_def CTB_new_def CTBNew_new_def
        CTB_tag_def is_data_packet_def tag_eq_def)
  show ?thesis using v header_valid_framing [OF v]
    by (simp add: Header_new_def CTB_new_def CTBNew_new_def CTB_tag_def)
qed

text \<open>
  An old-format header that was read with a length field wider than necessary is not written back faithfully: the cipher
  type byte keeps announcing the wide field while the length is written in its shortest form. Whatever follows, reading such a
  header back takes octets of the body for the length, or runs out of input.
\<close>

theorem old_header_rewrite_corrupts:
  assumes "Header_parse bs = Inr (h, input)" "ctb h = CTB.Old c" "body_length h = BodyLength.Full l"
    and "length_type c = PacketLengthType.TwoOctets \<and> l \<le> 0xFF \<or> length_type c = PacketLengthType.FourOctets \<and> l \<le> 0xFFFF"
  shows "\<exists>hdr. Header_serialize h = Inr hdr
    \<and> (\<forall>body. case Header_parse (hdr @ body) of Inl e \<Rightarrow> e = IoErr UnexpectedEof | Inr (h', rest) \<Rightarrow> length rest < length body)"
proof -
  obtain b where "CTB_try_from b = Inr (CTB.Old c)"
    using assms(1,2) by (auto simp: Header_parse_def result_simps Header_new_def split: prod.splits)
  from CTB_try_from_serialize [OF CTB_try_from_wf [OF this]] obtain b where b: "CTB_serialize (CTB.Old c) = [b]" "CTB_try_from b = Inr (CTB.Old c)"
    by auto
  obtain len where len: "BodyLength_serialize_old (BodyLength.Full l) = Inr len"
      "length_type c = PacketLengthType.TwoOctets \<and> length len = 1 \<or> length_type c = PacketLengthType.FourOctets \<and> length len \<le> 2"
    using assms(4) by (cases "l \<le> 0xFF") (auto simp: BodyLength_serialize_old_def)
  have "Header_serialize h = Inr (b # len)"
    using b(1) len(1) assms(2,3) by (simp add: Header_serialize_def)
  moreover have "case Header_parse ((b # len) @ body) of Inl e \<Rightarrow> e = IoErr UnexpectedEof | Inr (h', rest) \<Rightarrow> length rest < length body" for body
    using b(2) len(2)
    by (auto simp: Header_parse_def parse_old_format_def read_be_u16_def read_be_u32_def data_consume_hard_def)
  ultimately show ?thesis by blast
qed

theorem old_header_rewrite_corrupts_witness:
  "\<exists>hdr. Header_serialize (Header_new (CTB.Old \<lparr>old_tag = Tag.PublicKey, length_type = PacketLengthType.TwoOctets\<rparr>) (BodyLength.Full 5)) = Inr hdr
    \<and> (\<forall>body. case Header_parse (hdr @ body) of Inl e \<Rightarrow> e = IoErr UnexpectedEof | Inr (h', rest) \<Rightarrow> length rest < length body)"
proof (rule old_header_rewrite_corrupts [of "[0x99, 0, 5]" _ "[]" "\<lparr>old_tag = Tag.PublicKey, length_type = PacketLengthType.TwoOctets\<rparr>" 5])
  show "Header_parse [0x99, 0, 5]
      = Inr (Header_new (CTB.Old \<lparr>old_tag = Tag.PublicKey, length_type = PacketLengthType.TwoOctets\<rparr>) (BodyLength.Full 5), [])"
    by (simp add: Header_parse_def CTB_try_from_def parse_old_format_def read_be_u16_def
        data_consume_hard_def from_be_u16_def be_nat_def Tag_from_u8_def PacketLengthType_try_from_def)
qed (simp_all add: Header_new_def)

end
