(* ===== verification/PartialBody.thy ===== *)
theory PartialBody
  imports Header "HOL-Library.Sublist"
begin

text \<open>
  Chunked packet bodies. The writer \<open>PartialBodyFilter\<close>
  (\<open>serialize/stream/partial_body.rs\<close>) splits a stream into chunks of a power of two of
  octets; the reader \<open>BufferedReaderPartialBodyFilter\<close> (\<open>parse/partial_body.rs\<close>) joins them.
  Both are stated against one decoder of the format, \<open>payload\<close>.

  The writer's downstream is the list of octets written so far; the reader's upstream is a
  \<open>buffered_reader::Memory\<close>, the list of octets not yet consumed. Cookies, the hashing of
  chunk headers and the pool of unused buffers do not influence the data and are left out.
\<close>

section \<open>The format\<close>

text \<open>
  \<open>payload n final bs\<close>: the data of a body of which \<open>n\<close> octets of the current chunk are left,
  with the input that follows the body. Reading past the end of the input is an error.
\<close>

lemma parse_new_format_consumes: "parse_new_format bs = Inr (bl, rest) \<Longrightarrow> length rest < length bs"
  by (auto simp: parse_new_format_def result_simps reader_inverts split: if_splits)

function payload :: "nat \<Rightarrow> bool \<Rightarrow> bytes \<Rightarrow> (bytes \<times> bytes) res" where
  "payload n final bs =
     (if length bs < n then Inl (IoErr UnexpectedEof)
      else if final then Inr (take n bs, drop n bs)
      else
        and_then (parse_new_format (drop n bs)) (\<lambda>(bl, bs').
          and_then
            (case bl of
               BodyLength.Full l \<Rightarrow> payload (unat l) True bs'
             | BodyLength.Partial l \<Rightarrow> payload (unat l) False bs'
             | BodyLength.Indeterminate \<Rightarrow> Inl Panic)
            (\<lambda>(d, rest). Inr (take n bs @ d, rest))))"
  by pat_completeness auto
termination
  by (relation "measure (\<lambda>(n, final, bs). length bs)")
    (auto dest!: parse_new_format_consumes)

declare payload.simps [simp del]

definition decode_body :: "bytes \<Rightarrow> (bytes \<times> bytes) res" where
  "decode_body bs = payload 0 False bs"

section \<open>The writer\<close>

record partial_body_filter =
  pf_inner :: "bytes option"
  pf_buffer :: bytes
  pf_buffer_threshold :: nat
  pf_max_chunk_size :: nat
  pf_position :: nat

definition PARTIAL_BODY_FILTER_MAX_CHUNK_SIZE :: nat where
  "PARTIAL_BODY_FILTER_MAX_CHUNK_SIZE = 2 ^ 30"

definition PARTIAL_BODY_FILTER_BUFFER_THRESHOLD :: nat where
  "PARTIAL_BODY_FILTER_BUFFER_THRESHOLD = 4 * 1024 * 1024"

fun count_ones :: "nat \<Rightarrow> nat" where
  "count_ones n = (if n = 0 then 0 else n mod 2 + count_ones (n div 2))"

declare count_ones.simps [simp del]

definition with_limits :: "bytes \<Rightarrow> nat \<Rightarrow> nat \<Rightarrow> partial_body_filter res" where
  "with_limits inner buffer_threshold max_chunk_size =
     (if count_ones buffer_threshold \<noteq> 1 then Inl (Err InvalidArgument)
      else if count_ones max_chunk_size \<noteq> 1 then Inl (Err InvalidArgument)
      else if max_chunk_size > PARTIAL_BODY_FILTER_MAX_CHUNK_SIZE then Inl (Err InvalidArgument)
      else Inr \<lparr>pf_inner = Some inner, pf_buffer = [], pf_buffer_threshold = buffer_threshold,
             pf_max_chunk_size = max_chunk_size, pf_position = 0\<rparr>)"

text \<open>The loop of \<open>write_out\<close>: the buffer, the rest of \<open>other\<close> and what was written so far.\<close>

definition chunk_size_log2 :: "nat \<Rightarrow> nat \<Rightarrow> nat" where
  "chunk_size_log2 max_chunk_size len = log2 (word_of_nat (min max_chunk_size len))"

function write_chunks :: "nat \<Rightarrow> nat \<Rightarrow> bytes \<Rightarrow> bytes \<Rightarrow> bytes \<Rightarrow> (bytes \<times> bytes \<times> bytes) res" where
  "write_chunks threshold max_chunk_size buffer other inner =
     (if length buffer + length other > threshold then
        (let chunk_size = 2 ^ chunk_size_log2 max_chunk_size (length buffer + length other) in
         case BodyLength_serialize (BodyLength.Partial (word_of_nat chunk_size)) of
           Inl _ \<Rightarrow> Inl Panic
         | Inr size_byte \<Rightarrow>
             (let l = min (length buffer) chunk_size;
                  inner' = inner @ size_byte @ take l buffer;
                  buffer' = drop l buffer in
              if chunk_size > l then
                if length other < chunk_size - l then Inl Panic
                else write_chunks threshold max_chunk_size buffer' (drop (chunk_size - l) other)
                       (inner' @ take (chunk_size - l) other)
              else write_chunks threshold max_chunk_size buffer' other inner'))
      else Inr (buffer, other, inner))"
  by pat_completeness auto
termination
  by (relation "measure (\<lambda>(t, m, buffer, other, inner). length buffer + length other)")
    (auto simp: min_def split: if_splits intro!: diff_less)

declare write_chunks.simps [simp del]

definition write_out :: "bytes \<Rightarrow> bool \<Rightarrow> partial_body_filter \<Rightarrow> partial_body_filter res" where
  "write_out other done f =
     (case pf_inner f of
        None \<Rightarrow> Inr f
      | Some inner \<Rightarrow>
          if done then
            (let l = length (pf_buffer f) + length other in
             if l > 2 ^ 32 - 1 then Inl Panic
             else
               and_then (BodyLength_serialize (BodyLength.Full (word_of_nat l))) (\<lambda>header.
                 Inr (f\<lparr>pf_inner := Some (inner @ header @ pf_buffer f @ other), pf_buffer := []\<rparr>)))
          else
            and_then (write_chunks (pf_buffer_threshold f) (pf_max_chunk_size f) (pf_buffer f) other inner)
              (\<lambda>(buffer, other, inner).
                 let buffer = buffer @ other in
                 if \<not> length buffer \<le> pf_buffer_threshold f then Inl Panic
                 else Inr (f\<lparr>pf_inner := Some inner, pf_buffer := buffer\<rparr>)))"

definition pf_write :: "bytes \<Rightarrow> partial_body_filter \<Rightarrow> partial_body_filter res" where
  "pf_write buf f =
     (if length (pf_buffer f) > pf_buffer_threshold f then Inl Panic
      else
        and_then
          (if length buf \<ge> pf_buffer_threshold f - length (pf_buffer f) then write_out buf False f
           else Inr (f\<lparr>pf_buffer := pf_buffer f @ buf\<rparr>))
          (\<lambda>f. Inr (f\<lparr>pf_position := pf_position f + length buf\<rparr>)))"

definition pf_flush :: "partial_body_filter \<Rightarrow> partial_body_filter res" where
  "pf_flush f = write_out [] False f"

definition pf_into_inner :: "partial_body_filter \<Rightarrow> bytes option res" where
  "pf_into_inner f = and_then (write_out [] True f) (\<lambda>f. Inr (pf_inner f))"

text \<open>A client's session: a sequence of writes and flushes, then taking the writer apart.\<close>

datatype pf_op = Write bytes | Flush

fun pf_run :: "pf_op list \<Rightarrow> partial_body_filter \<Rightarrow> partial_body_filter res" where
  "pf_run [] f = Inr f"
| "pf_run (Write buf # ops) f = and_then (pf_write buf f) (pf_run ops)"
| "pf_run (Flush # ops) f = and_then (pf_flush f) (pf_run ops)"

fun pf_written :: "pf_op list \<Rightarrow> bytes" where
  "pf_written [] = []"
| "pf_written (Write buf # ops) = buf @ pf_written ops"
| "pf_written (Flush # ops) = pf_written ops"

section \<open>The reader\<close>

record partial_body_reader =
  pr_reader :: bytes
  pr_partial_body_length :: u32
  pr_last :: bool
  pr_buffer :: "bytes option"
  pr_cursor :: nat

definition pr_with_cookie :: "bytes \<Rightarrow> u32 \<Rightarrow> partial_body_reader" where
  "pr_with_cookie reader partial_body_length =
     \<lparr>pr_reader = reader, pr_partial_body_length = partial_body_length, pr_last = False,
      pr_buffer = None, pr_cursor = 0\<rparr>"

text \<open>
  The loop of \<open>do_fill_buffer\<close> over the upstream octets, the octets left in the chunk, the
  \<open>last\<close> flag and the octets buffered so far. When a chunk header cannot be read, its first
  octet, if there is one, is gone.
\<close>

function fill_loop ::
    "nat \<Rightarrow> bytes \<Rightarrow> u32 \<Rightarrow> bool \<Rightarrow> bytes \<Rightarrow> (bytes \<times> u32 \<times> bool \<times> bytes) \<times> unit res" where
  "fill_loop amount reader pbl lst buffered =
     (let to_read = min (unat pbl) (amount - length buffered);
          did_read = min to_read (length reader);
          buffered' = buffered @ take did_read reader;
          reader' = drop did_read reader;
          pbl' = pbl - word_of_nat did_read in
      if did_read < to_read then ((reader', pbl', lst, buffered'), Inr ())
      else if length buffered' = amount \<or> lst then ((reader', pbl', lst, buffered'), Inr ())
      else if pbl' \<noteq> 0 then ((reader', pbl', lst, buffered'), Inl Panic)
      else
        (case parse_new_format reader' of
           Inl e \<Rightarrow> ((drop 1 reader', pbl', lst, buffered'), Inl e)
         | Inr (BodyLength.Full len, reader'') \<Rightarrow> fill_loop amount reader'' len True buffered'
         | Inr (BodyLength.Partial len, reader'') \<Rightarrow> fill_loop amount reader'' len lst buffered'
         | Inr (BodyLength.Indeterminate, reader'') \<Rightarrow> ((reader'', pbl', lst, buffered'), Inl Panic)))"
  by pat_completeness auto
termination
  by (relation "measure (\<lambda>(amount, reader, pbl, lst, buffered). length reader)")
    (auto dest!: parse_new_format_consumes)

declare fill_loop.simps [simp del]

definition do_fill_buffer :: "nat \<Rightarrow> partial_body_reader \<Rightarrow> partial_body_reader \<times> unit res" where
  "do_fill_buffer amount s =
     (if pr_last s \<and> pr_partial_body_length s = 0 then (s, Inr ())
      else
        (let left = (case pr_buffer s of None \<Rightarrow> [] | Some old \<Rightarrow> drop (pr_cursor s) old) in
         if pr_buffer s \<noteq> None \<and> \<not> amount > length left then (s, Inl Panic)
         else
           (case fill_loop amount (pr_reader s) (pr_partial_body_length s) (pr_last s) left of
              ((reader, pbl, lst, buffered), r) \<Rightarrow>
                (if r = Inl Panic then (s, Inl Panic)
                 else
                   (s\<lparr>pr_reader := reader, pr_partial_body_length := pbl, pr_last := lst,
                      pr_buffer := Some buffered, pr_cursor := 0\<rparr>, r)))))"

text \<open>
  The pass-through branch of \<open>data_helper\<close>: no local buffer, and the request does not
  straddle a chunk boundary or this is the last chunk. The upstream \<open>Memory\<close> returns a slice
  that reaches to the end of its buffer.
\<close>

definition pass_through :: "nat \<Rightarrow> bool \<Rightarrow> bool \<Rightarrow> partial_body_reader \<Rightarrow> partial_body_reader \<times> bytes res" where
  "pass_through amount hard and_consume s =
     (let reader = pr_reader s in
      if hard \<and> and_consume \<and> length reader < amount then (s, Inl (IoErr UnexpectedEof))
      else
        (let s' = (if and_consume then s\<lparr>pr_reader := drop amount reader\<rparr> else s);
             amount_buffered = min (length reader) (unat (pr_partial_body_length s)) in
         if hard \<and> amount_buffered < amount then (s', Inl (IoErr UnexpectedEof))
         else
           (if and_consume
            then s'\<lparr>pr_partial_body_length :=
                   pr_partial_body_length s - word_of_nat (min amount amount_buffered)\<rparr>
            else s',
            Inr (take amount_buffered reader))))"

definition from_buffer :: "nat \<Rightarrow> bool \<Rightarrow> bool \<Rightarrow> partial_body_reader \<Rightarrow> partial_body_reader \<times> bytes res" where
  "from_buffer amount hard and_consume s =
     (case pr_buffer s of
        None \<Rightarrow> (s, Inl Panic)
      | Some b \<Rightarrow>
          (let buffer = drop (pr_cursor s) b in
           if hard \<and> length buffer < amount then (s, Inl (IoErr UnexpectedEof))
           else
             (if and_consume then s\<lparr>pr_cursor := pr_cursor s + min amount (length buffer)\<rparr> else s,
              Inr buffer)))"

definition data_helper :: "nat \<Rightarrow> bool \<Rightarrow> bool \<Rightarrow> partial_body_reader \<Rightarrow> partial_body_reader \<times> bytes res" where
  "data_helper amount hard and_consume s =
     (let s = (case pr_buffer s of
                 Some b \<Rightarrow> if length b = pr_cursor s then s\<lparr>pr_buffer := None, pr_cursor := 0\<rparr> else s
               | None \<Rightarrow> s) in
      case pr_buffer s of
        Some b \<Rightarrow>
          if amount > length b - pr_cursor s then
            (case do_fill_buffer amount s of
               (s, Inl e) \<Rightarrow> (s, Inl e)
             | (s, Inr _) \<Rightarrow> from_buffer amount hard and_consume s)
          else from_buffer amount hard and_consume s
      | None \<Rightarrow>
          if pr_cursor s \<noteq> 0 then (s, Inl Panic)
          else if amount \<le> unat (pr_partial_body_length s) \<or> pr_last s then
            pass_through amount hard and_consume s
          else
            (case do_fill_buffer amount s of
               (s, Inl e) \<Rightarrow> (s, Inl e)
             | (s, Inr _) \<Rightarrow> from_buffer amount hard and_consume s))"

definition pr_data :: "nat \<Rightarrow> partial_body_reader \<Rightarrow> partial_body_reader \<times> bytes res" where
  "pr_data amount s = data_helper amount False False s"

definition pr_data_hard :: "nat \<Rightarrow> partial_body_reader \<Rightarrow> partial_body_reader \<times> bytes res" where
  "pr_data_hard amount s = data_helper amount True False s"

definition pr_data_consume :: "nat \<Rightarrow> partial_body_reader \<Rightarrow> partial_body_reader \<times> bytes res" where
  "pr_data_consume amount s = data_helper amount False True s"

definition pr_data_consume_hard :: "nat \<Rightarrow> partial_body_reader \<Rightarrow> partial_body_reader \<times> bytes res" where
  "pr_data_consume_hard amount s = data_helper amount True True s"

definition pr_consume :: "nat \<Rightarrow> partial_body_reader \<Rightarrow> (partial_body_reader \<times> bytes) res" where
  "pr_consume amount s =
     (case pr_buffer s of
        Some b \<Rightarrow>
          if \<not> pr_cursor s + amount \<le> length b then Inl Panic
          else Inr (s\<lparr>pr_cursor := pr_cursor s + amount\<rparr>, drop (pr_cursor s) b)
      | None \<Rightarrow>
          if \<not> amount \<le> unat (pr_partial_body_length s) \<or> \<not> amount \<le> length (pr_reader s) then Inl Panic
          else
            Inr (s\<lparr>pr_partial_body_length := pr_partial_body_length s - word_of_nat amount,
                   pr_reader := drop amount (pr_reader s)\<rparr>,
                 pr_reader s))"

definition pr_consummated :: "partial_body_reader \<Rightarrow> bool" where
  "pr_consummated s \<longleftrightarrow> pr_partial_body_length s = 0 \<and> pr_last s"

section \<open>Properties of the writer\<close>

text \<open>
  \<open>opens bs d\<close>: after \<open>bs\<close> a decoder has seen exactly the data \<open>d\<close> and expects another
  chunk header.
\<close>

definition opens :: "bytes \<Rightarrow> bytes \<Rightarrow> bool" where
  "opens bs d \<longleftrightarrow>
     (\<forall>more. decode_body (bs @ more) = and_then (decode_body more) (\<lambda>(d', rest). Inr (d @ d', rest)))"

lemma and_then_case_Inr:
  "and_then m (\<lambda>(d, rest). Inr (d, rest)) = m"
  by (cases m) auto

lemma opens_Nil: "opens [] []"
  by (simp add: opens_def and_then_case_Inr)

lemma opens_append: "opens bs d \<Longrightarrow> opens cs e \<Longrightarrow> opens (bs @ cs) (d @ e)"
  by (auto simp: opens_def and_then_def split: sum.splits)

lemma payload_within:
  "payload (length c) False (c @ bs) = and_then (payload 0 False bs) (\<lambda>(d, rest). Inr (c @ d, rest))"
  by (subst (1 2) payload.simps) (auto simp: and_then_def split: sum.splits)

lemma opens_chunk:
  assumes "BodyLength_serialize (BodyLength.Partial (word_of_nat (length c))) = Inr sb"
    and "length c < 2 ^ 32"
  shows "opens (sb @ c) c"
proof -
  have "parse_new_format (sb @ c @ more) = Inr (BodyLength.Partial (word_of_nat (length c)), c @ more)" for more
    using assms(1) by (rule parse_new_format_Partial)
  moreover have "unat (word_of_nat (length c) :: u32) = length c"
    using assms(2) by (simp add: unat_of_nat)
  ultimately show ?thesis
    unfolding opens_def decode_body_def
    by (subst payload.simps) (simp add: payload_within and_then_assoc case_prod_beta)
qed

lemma decode_body_last:
  assumes "BodyLength_serialize (BodyLength.Full (word_of_nat (length c))) = Inr h"
    and "length c < 2 ^ 32"
  shows "decode_body (h @ c @ rest) = Inr (c, rest)"
proof -
  have "parse_new_format (h @ c @ rest) = Inr (BodyLength.Full (word_of_nat (length c)), c @ rest)"
    using assms(1) by (rule parse_new_format_Full)
  moreover have "unat (word_of_nat (length c) :: u32) = length c"
    using assms(2) by (simp add: unat_of_nat)
  ultimately show ?thesis
    unfolding decode_body_def by (subst payload.simps) (simp add: payload.simps [of _ True])
qed

lemma serialize_Full_ok: "\<exists>h. BodyLength_serialize (BodyLength.Full l) = Inr h"
  using new_length.encode_ok [of "BodyLength.Full l"] by (simp add: new_format_ok_def is_ok_iff)

lemma chunk_size_log2_bounds:
  assumes "0 < m" "m \<le> 2 ^ 30" "0 < n"
  shows "chunk_size_log2 m n \<le> 30" and "2 ^ chunk_size_log2 m n \<le> min m n"
    and "min m n < 2 ^ Suc (chunk_size_log2 m n)"
proof -
  let ?w = "word_of_nat (min m n) :: u32"
  have u: "unat ?w = min m n"
    using assms by (intro unat_word_of_nat_less) (auto simp: min_def)
  then have nz: "?w \<noteq> 0" using assms by (metis min_less_iff_conj neq0_conv unat_0)
  show le: "2 ^ chunk_size_log2 m n \<le> min m n"
    using log2_bounds(1) [OF nz] u by (simp add: chunk_size_log2_def)
  show "min m n < 2 ^ Suc (chunk_size_log2 m n)"
    using log2_bounds(2) [OF nz] u by (simp add: chunk_size_log2_def)
  have "2 ^ chunk_size_log2 m n \<le> (2 ^ 30 :: nat)" using le assms by linarith
  then show "chunk_size_log2 m n \<le> 30" by (simp only: power_increasing_iff)
qed

lemma serialize_Partial_ok:
  assumes "k \<le> 30"
  shows "BodyLength_serialize (BodyLength.Partial (word_of_nat (2 ^ k))) = Inr [word_of_nat (224 + k)]"
proof -
  have "(2 ^ k :: u32) \<in> set (map (\<lambda>k. push_bit k 1) [0..<31])"
    using assms by (auto simp: push_bit_one)
  then show ?thesis using assms by (simp add: BodyLength_serialize_Partial log2_2p)
qed

text \<open>What the standard asks of the first chunk: at least 512 octets.\<close>

definition big_first :: "bytes \<Rightarrow> bool" where
  "big_first bs \<longleftrightarrow> bs = [] \<or> (\<exists>k rest. 9 \<le> k \<and> k \<le> 30 \<and> bs = word_of_nat (224 + k) # rest)"

lemma big_first_append: "big_first bs \<Longrightarrow> 9 \<le> k \<Longrightarrow> k \<le> 30 \<Longrightarrow> big_first (bs @ word_of_nat (224 + k) # c)"
  by (cases bs) (auto simp: big_first_def)

lemma write_chunks_correct:
  assumes "0 < m" "m \<le> 2 ^ 30" "opens bs d" "512 \<le> t \<and> 512 \<le> m \<longrightarrow> big_first bs"
  shows "\<exists>buffer' other' bs' d'. write_chunks t m buffer other (pre @ bs) = Inr (buffer', other', pre @ bs')
    \<and> opens bs' d' \<and> d' @ buffer' @ other' = d @ buffer @ other \<and> length buffer' + length other' \<le> t
    \<and> (512 \<le> t \<and> 512 \<le> m \<longrightarrow> big_first bs')"
  using assms(3,4)
proof (induction "length buffer + length other" arbitrary: buffer other bs d rule: less_induct)
  case less
  let ?n = "length buffer + length other"
  show ?case
  proof (cases "?n > t")
    case False
    with less.prems show ?thesis by (subst write_chunks.simps) auto
  next
    case True
    define k where "k = chunk_size_log2 m ?n"
    have n: "0 < ?n" using True by linarith
    have k: "k \<le> 30" "2 ^ k \<le> ?n" "min m ?n < 2 ^ Suc k"
      using chunk_size_log2_bounds [OF assms(1,2) n] by (simp_all add: k_def)
    define l where "l = min (length buffer) (2 ^ k)"
    define c where "c = take l buffer @ take (2 ^ k - l) other"
    have c: "length c = 2 ^ k" using k(2) by (auto simp: c_def l_def)
    have lt: "(2::nat) ^ k < 2 ^ 32" using k(1) by (intro power_strict_increasing) simp_all
    have "opens ([word_of_nat (224 + k)] @ c) c"
      by (rule opens_chunk) (simp_all only: c serialize_Partial_ok [OF k(1)] lt)
    then have o: "opens (bs @ [word_of_nat (224 + k)] @ c) (d @ c)" by (rule opens_append [OF less.prems(1)])
    have big: "512 \<le> t \<and> 512 \<le> m \<longrightarrow> big_first (bs @ [word_of_nat (224 + k)] @ c)"
    proof
      assume ge: "512 \<le> t \<and> 512 \<le> m"
      with True k(3) have "(2 ^ 9 :: nat) < 2 ^ Suc k" by (auto simp: min_def split: if_splits)
      then have "9 \<le> k" by (simp only: power_strict_increasing_iff)
      with ge less.prems(2) k(1) big_first_append show "big_first (bs @ [word_of_nat (224 + k)] @ c)" by simp
    qed
    have ser: "BodyLength_serialize (BodyLength.Partial (2 ^ k)) = Inr [224 + word_of_nat k]"
      using serialize_Partial_ok [OF k(1)] by simp
    have step: "write_chunks t m buffer other (pre @ bs) =
        write_chunks t m (drop l buffer) (drop (2 ^ k - l) other) (pre @ (bs @ [word_of_nat (224 + k)] @ c))"
    proof (cases "2 ^ k > l")
      case True
      then have "l = length buffer" by (auto simp: l_def min_def split: if_splits)
      with True \<open>?n > t\<close> k c show ?thesis
        by (subst write_chunks.simps) (auto simp: ser k_def [symmetric] l_def [symmetric] c_def Let_def)
    next
      case False
      then have "2 ^ k = l" using l_def by simp
      with \<open>?n > t\<close> k c show ?thesis
        by (subst write_chunks.simps) (auto simp: ser k_def [symmetric] l_def [symmetric] c_def Let_def)
    qed
    have dec: "length (drop l buffer) + length (drop (2 ^ k - l) other) < ?n"
      using k(2) \<open>?n > t\<close> n by (auto simp: l_def min_def intro!: diff_less)
    have eq: "(d @ c) @ drop l buffer @ drop (2 ^ k - l) other = d @ buffer @ other"
      by (cases "2 ^ k > l") (auto simp: c_def l_def min_def split: if_splits)
    from less.hyps [OF dec o big] show ?thesis unfolding step eq by simp
  qed
qed

text \<open>
  The invariant of a filter that was set up on a sink holding \<open>pre\<close> and has accepted \<open>d\<close>: the
  chunks written plus the buffer are the data, and the buffer is within its threshold.
\<close>

definition pf_inv :: "bytes \<Rightarrow> bytes \<Rightarrow> partial_body_filter \<Rightarrow> bool" where
  "pf_inv pre d f \<longleftrightarrow>
     0 < pf_max_chunk_size f \<and> pf_max_chunk_size f \<le> 2 ^ 30
     \<and> length (pf_buffer f) \<le> pf_buffer_threshold f
     \<and> (\<exists>bs e. pf_inner f = Some (pre @ bs) \<and> opens bs e \<and> d = e @ pf_buffer f
          \<and> (512 \<le> pf_buffer_threshold f \<and> 512 \<le> pf_max_chunk_size f \<longrightarrow> big_first bs))"

lemma count_ones_pos: "count_ones n = Suc 0 \<Longrightarrow> 0 < n"
  by (cases n) (simp_all add: count_ones.simps [of 0])

lemma count_ones_2p: "count_ones (2 ^ k) = 1"
proof (induction k)
  case 0
  then show ?case by (simp add: count_ones.simps [of "Suc 0"] count_ones.simps [of 0])
next
  case (Suc k)
  then show ?case by (simp add: count_ones.simps [of "2 * 2 ^ k"])
qed

lemma with_limits_2p:
  assumes "j \<le> 30"
  shows "with_limits inner (2 ^ i) (2 ^ j) = Inr \<lparr>pf_inner = Some inner, pf_buffer = [], pf_buffer_threshold = 2 ^ i,
    pf_max_chunk_size = 2 ^ j, pf_position = 0\<rparr>"
proof -
  have "(2::nat) ^ j \<le> 2 ^ 30" using assms by (rule power_increasing) simp
  then show ?thesis by (simp add: with_limits_def count_ones_2p PARTIAL_BODY_FILTER_MAX_CHUNK_SIZE_def del: power_increasing_iff)
qed

lemma with_limits_inv: "with_limits pre t m = Inr f \<Longrightarrow> pf_inv pre [] f"
  by (auto simp: with_limits_def pf_inv_def PARTIAL_BODY_FILTER_MAX_CHUNK_SIZE_def opens_Nil big_first_def
      dest: count_ones_pos split: if_splits)

lemma write_out_inv:
  assumes "pf_inv pre d f"
  shows "\<exists>f'. write_out other False f = Inr f' \<and> pf_inv pre (d @ other) f'
    \<and> pf_position f' = pf_position f \<and> pf_buffer_threshold f' = pf_buffer_threshold f
    \<and> pf_max_chunk_size f' = pf_max_chunk_size f"
proof -
  obtain bs e where f: "pf_inner f = Some (pre @ bs)" "opens bs e" "d = e @ pf_buffer f"
    "512 \<le> pf_buffer_threshold f \<and> 512 \<le> pf_max_chunk_size f \<longrightarrow> big_first bs"
    and m: "0 < pf_max_chunk_size f" "pf_max_chunk_size f \<le> 2 ^ 30"
    using assms by (auto simp: pf_inv_def)
  from write_chunks_correct [OF m f(2,4), of "pf_buffer f" other pre]
  obtain buffer' other' bs' d' where "write_chunks (pf_buffer_threshold f) (pf_max_chunk_size f) (pf_buffer f) other (pre @ bs)
      = Inr (buffer', other', pre @ bs')" "opens bs' d'" "d' @ buffer' @ other' = e @ pf_buffer f @ other"
    "length buffer' + length other' \<le> pf_buffer_threshold f"
    "512 \<le> pf_buffer_threshold f \<and> 512 \<le> pf_max_chunk_size f \<longrightarrow> big_first bs'"
    by blast
  with f m show ?thesis by (auto simp: write_out_def pf_inv_def Let_def)
qed

lemma pf_write_inv:
  assumes "pf_inv pre d f"
  shows "\<exists>f'. pf_write buf f = Inr f' \<and> pf_inv pre (d @ buf) f'
    \<and> pf_position f' = pf_position f + length buf \<and> pf_buffer_threshold f' = pf_buffer_threshold f
    \<and> pf_max_chunk_size f' = pf_max_chunk_size f"
proof (cases "length buf \<ge> pf_buffer_threshold f - length (pf_buffer f)")
  case True
  with write_out_inv [OF assms, of buf] assms show ?thesis by (auto simp: pf_write_def pf_inv_def)
next
  case False
  with assms show ?thesis by (auto simp: pf_write_def pf_inv_def)
qed

lemma pf_run_inv:
  assumes "pf_inv pre d f"
  shows "\<exists>f'. pf_run ops f = Inr f' \<and> pf_inv pre (d @ pf_written ops) f'
    \<and> pf_position f' = pf_position f + length (pf_written ops) \<and> pf_buffer_threshold f' = pf_buffer_threshold f
    \<and> pf_max_chunk_size f' = pf_max_chunk_size f"
  using assms
proof (induction ops f arbitrary: d rule: pf_run.induct)
  case (1 f)
  then show ?case by simp
next
  case (2 buf ops f)
  from pf_write_inv [OF 2(2)] obtain f1 where "pf_write buf f = Inr f1" "pf_inv pre (d @ buf) f1"
    "pf_position f1 = pf_position f + length buf" "pf_buffer_threshold f1 = pf_buffer_threshold f"
    "pf_max_chunk_size f1 = pf_max_chunk_size f" by blast
  with 2(1) [of f1 "d @ buf"] show ?case by auto
next
  case (3 ops f)
  from write_out_inv [OF 3(2), of "[]"] obtain f1 where "pf_flush f = Inr f1" "pf_inv pre d f1"
    "pf_position f1 = pf_position f" "pf_buffer_threshold f1 = pf_buffer_threshold f"
    "pf_max_chunk_size f1 = pf_max_chunk_size f"
    by (auto simp: pf_flush_def)
  with 3(1) [of f1 d] show ?case by auto
qed

lemma pf_into_inner_decodes:
  assumes "pf_inv pre d f" "pf_buffer_threshold f < 2 ^ 32"
  shows "\<exists>bs. pf_into_inner f = Inr (Some (pre @ bs)) \<and> (\<forall>rest. decode_body (bs @ rest) = Inr (d, rest))
    \<and> (512 \<le> pf_buffer_threshold f \<and> 512 \<le> pf_max_chunk_size f \<longrightarrow>
         (\<forall>l rest. parse_new_format bs = Inr (BodyLength.Partial l, rest) \<longrightarrow> 512 \<le> l))"
proof -
  obtain bs e where f: "pf_inner f = Some (pre @ bs)" "opens bs e" "d = e @ pf_buffer f"
    "512 \<le> pf_buffer_threshold f \<and> 512 \<le> pf_max_chunk_size f \<longrightarrow> big_first bs"
    and l: "length (pf_buffer f) < 2 ^ 32"
    using assms by (auto simp: pf_inv_def)
  obtain h where h: "BodyLength_serialize (BodyLength.Full (word_of_nat (length (pf_buffer f)))) = Inr h"
    using serialize_Full_ok by blast
  have "decode_body ((bs @ h @ pf_buffer f) @ rest) = Inr (d, rest)" for rest
    using f(2,3) decode_body_last [OF h l] by (simp add: opens_def)
  moreover have "512 \<le> l"
    if "parse_new_format (bs @ h @ pf_buffer f) = Inr (BodyLength.Partial l, rest)" "big_first bs" for l rest
  proof (cases "bs = []")
    case True
    with that(1) parse_new_format_Full [OF h] show ?thesis by simp
  next
    case False
    with that(2) obtain k r where k: "9 \<le> k" "k \<le> 30" "bs = [word_of_nat (224 + k)] @ r"
      by (auto simp: big_first_def)
    from that(1) parse_new_format_Partial [OF serialize_Partial_ok [OF k(2)]] have "l = 2 ^ k"
      by (simp add: k(3))
    moreover have "(2 ^ 9 :: nat) \<le> 2 ^ k" using k(1) by (rule power_increasing) simp
    ultimately show ?thesis using k(2) by (simp add: word_le_nat_alt unat_2p)
  qed
  ultimately show ?thesis
    using f l h by (auto simp: pf_into_inner_def write_out_def Let_def)
qed


section \<open>Properties of the reader\<close>

text \<open>What is left to read: the local buffer, then the rest of the body.\<close>

definition pr_left :: "partial_body_reader \<Rightarrow> bytes" where
  "pr_left s = (case pr_buffer s of None \<Rightarrow> [] | Some b \<Rightarrow> drop (pr_cursor s) b)"

definition pr_rest :: "partial_body_reader \<Rightarrow> (bytes \<times> bytes) res" where
  "pr_rest s = and_then (payload (unat (pr_partial_body_length s)) (pr_last s) (pr_reader s))
     (\<lambda>(d, rest). Inr (pr_left s @ d, rest))"

definition pr_inv :: "partial_body_reader \<Rightarrow> bool" where
  "pr_inv s \<longleftrightarrow> (case pr_buffer s of None \<Rightarrow> pr_cursor s = 0 | Some b \<Rightarrow> pr_cursor s \<le> length b)"

lemma and_then_InrD: "and_then m f = Inr y \<Longrightarrow> \<exists>x. m = Inr x \<and> f x = Inr y"
  by (cases m) auto

lemma payload_Inr:
  assumes "payload n final bs = Inr (d, rest)"
  shows "n \<le> length bs" "take n bs = take n d" "n \<le> length d" "final \<Longrightarrow> d = take n bs"
  using assms by (auto simp: payload.simps [of n] split: if_splits dest!: and_then_InrD)

lemma payload_drop:
  assumes "payload n final bs = Inr (d, rest)" "k \<le> n"
  shows "payload (n - k) final (drop k bs) = Inr (drop k d, rest)"
  using assms
  by (subst payload.simps, subst (asm) payload.simps)
    (auto simp: and_then_def drop_take min_def split: if_splits sum.splits)

lemma fill_loop_ok:
  assumes "payload (unat pbl) lst reader = Inr (d, rest)" "length buffered \<le> amount"
  shows "\<exists>reader' pbl' lst' d1 d2. fill_loop amount reader pbl lst buffered = ((reader', pbl', lst', buffered @ d1), Inr ())
    \<and> d = d1 @ d2 \<and> payload (unat pbl') lst' reader' = Inr (d2, rest)
    \<and> min amount (length buffered + length d) \<le> length buffered + length d1"
  using assms
proof (induction amount reader pbl lst buffered arbitrary: d rule: fill_loop.induct)
  case (1 amount reader pbl lst buffered)
  note p = payload_Inr [OF "1.prems"(1)]
  define n where "n = min (unat pbl) (amount - length buffered)"
  have n: "n \<le> unat pbl" "n \<le> length reader" "n \<le> length d" using p by (simp_all add: n_def)
  have "unat pbl < 2 ^ 32" using unat_less_2p [of pbl] by simp
  then have un: "unat (word_of_nat n :: u32) = n" using n(1) by (intro unat_word_of_nat_less) simp
  have u: "unat (pbl - word_of_nat n) = unat pbl - n"
    using n(1) un by (subst unat_sub) (simp_all add: word_le_nat_alt)
  have tk: "take n reader = take n d"
    using p(2) n(1) by (metis min.absorb1 take_take)
  have after: "payload (unat (pbl - word_of_nat n)) lst (drop n reader) = Inr (drop n d, rest)"
    using payload_drop [OF "1.prems"(1) n(1)] by (simp add: u)
  have nmin: "min n (length reader) = n" using n by simp
  show ?case
  proof (cases "length buffered + n = amount \<or> lst")
    case True
    have "fill_loop amount reader pbl lst buffered =
        ((drop n reader, pbl - word_of_nat n, lst, buffered @ take n d), Inr ())"
      using True n by (subst fill_loop.simps) (auto simp: Let_def n_def [symmetric] nmin tk [symmetric])
    moreover have "min amount (length buffered + length d) \<le> length buffered + length (take n d)"
      using True n p by (auto simp: n_def min_def split: if_splits)
    ultimately show ?thesis using after by (metis append_take_drop_id)
  next
    case False
    then have l: "n = unat pbl" "length buffered + n < amount" "\<not> lst"
      using "1.prems"(2) by (auto simp: n_def min_def split: if_splits)
    then have z: "pbl - word_of_nat n = 0" by simp
    from after obtain bl r where pn: "parse_new_format (drop n reader) = Inr (bl, r)"
      and bl: "(case bl of BodyLength.Full l \<Rightarrow> payload (unat l) True r
        | BodyLength.Partial l \<Rightarrow> payload (unat l) False r | BodyLength.Indeterminate \<Rightarrow> Inl Panic) = Inr (drop n d, rest)"
      using l(3) z by (subst (asm) payload.simps) (auto dest!: and_then_InrD)
    have len: "length (buffered @ take n reader) \<le> amount" using l n by simp
    have fl: "fill_loop amount reader pbl lst buffered =
        (case bl of BodyLength.Full len \<Rightarrow> fill_loop amount r len True (buffered @ take n reader)
         | BodyLength.Partial len \<Rightarrow> fill_loop amount r len lst (buffered @ take n reader)
         | BodyLength.Indeterminate \<Rightarrow> ((r, pbl - word_of_nat n, lst, buffered @ take n reader), Inl Panic))"
      using l n z pn
      by (subst fill_loop.simps) (auto simp: Let_def n_def [symmetric] nmin split: BodyLength.splits)
    have "\<exists>reader' pbl' lst' d1 d2. fill_loop amount reader pbl lst buffered
        = ((reader', pbl', lst', (buffered @ take n reader) @ d1), Inr ())
      \<and> drop n d = d1 @ d2 \<and> payload (unat pbl') lst' reader' = Inr (d2, rest)
      \<and> min amount (length (buffered @ take n reader) + length (drop n d)) \<le> length (buffered @ take n reader) + length d1"
    proof (cases bl)
      case (Full len)
      show ?thesis unfolding fl Full BodyLength.case
        by (rule "1.IH"(1)) (use Full pn bl l n z nmin in \<open>auto simp: n_def [symmetric]\<close>)
    next
      case (Partial len)
      show ?thesis unfolding fl Partial BodyLength.case
        by (rule "1.IH"(2)) (use Partial pn bl l n z nmin in \<open>auto simp: n_def [symmetric]\<close>)
    next
      case Indeterminate
      with bl show ?thesis by simp
    qed
    then obtain reader' pbl' lst' d1 d2 where
      f: "fill_loop amount reader pbl lst buffered = ((reader', pbl', lst', buffered @ (take n d @ d1)), Inr ())"
      "drop n d = d1 @ d2" "payload (unat pbl') lst' reader' = Inr (d2, rest)"
      "min amount (length buffered + length d) \<le> length buffered + length (take n d @ d1)"
      using n by (auto simp: tk)
    moreover have "d = (take n d @ d1) @ d2" using f(2) by (metis append.assoc append_take_drop_id)
    ultimately show ?thesis by blast
  qed
qed

lemma do_fill_buffer_ok:
  assumes "pr_inv s" "pr_rest s = Inr (d, rest)" "length (pr_left s) < amount"
    and "pr_buffer s = None \<longrightarrow> \<not> pr_last s"
  shows "\<exists>s'. do_fill_buffer amount s = (s', Inr ()) \<and> pr_inv s' \<and> pr_buffer s' \<noteq> None
    \<and> pr_rest s' = Inr (d, rest) \<and> min amount (length d) \<le> length (pr_left s')"
proof -
  obtain e where e: "payload (unat (pr_partial_body_length s)) (pr_last s) (pr_reader s) = Inr (e, rest)" "d = pr_left s @ e"
    using assms(2) by (auto simp: pr_rest_def dest!: and_then_InrD)
  show ?thesis
  proof (cases "pr_last s \<and> pr_partial_body_length s = 0")
    case True
    with e have "d = pr_left s" by (simp add: payload.simps)
    with True assms show ?thesis by (auto simp: do_fill_buffer_def)
  next
    case False
    from fill_loop_ok [OF e(1), of "pr_left s" amount] assms(3)
    obtain reader' pbl' lst' d1 d2 where f:
      "fill_loop amount (pr_reader s) (pr_partial_body_length s) (pr_last s) (pr_left s)
        = ((reader', pbl', lst', pr_left s @ d1), Inr ())"
      "e = d1 @ d2" "payload (unat pbl') lst' reader' = Inr (d2, rest)"
      "min amount (length (pr_left s) + length e) \<le> length (pr_left s) + length d1"
      by auto
    have "do_fill_buffer amount s = (s\<lparr>pr_reader := reader', pr_partial_body_length := pbl', pr_last := lst',
        pr_buffer := Some (pr_left s @ d1), pr_cursor := 0\<rparr>, Inr ())"
      using False assms(3) f(1) unfolding do_fill_buffer_def pr_left_def [symmetric] by auto
    with f e(2) show ?thesis by (simp add: pr_inv_def pr_rest_def pr_left_def)
  qed
qed

lemma from_buffer_ok:
  assumes "pr_inv s" "pr_rest s = Inr (d, rest)" "pr_buffer s \<noteq> None" "min amount (length d) \<le> length (pr_left s)"
    and "hard \<or> and_consume \<longrightarrow> amount \<le> length d"
  shows "\<exists>s' out. from_buffer amount hard and_consume s = (s', Inr out) \<and> pr_inv s' \<and> prefix out d
    \<and> min amount (length d) \<le> length out \<and> pr_rest s' = Inr (if and_consume then drop amount d else d, rest)"
proof -
  obtain b where b: "pr_buffer s = Some b" using assms(3) by blast
  obtain e where e: "payload (unat (pr_partial_body_length s)) (pr_last s) (pr_reader s) = Inr (e, rest)"
    and d: "d = drop (pr_cursor s) b @ e"
    using assms(2) b by (auto simp: pr_rest_def pr_left_def dest!: and_then_InrD)
  have c: "pr_cursor s \<le> length b" using assms(1) b by (simp add: pr_inv_def)
  have l: "min amount (length d) \<le> length (drop (pr_cursor s) b)" using assms(4) b by (simp add: pr_left_def)
  show ?thesis
  proof (cases and_consume)
    case True
    then have a: "amount \<le> length d" using assms(5) by simp
    then have a': "amount \<le> length b - pr_cursor s" using l by simp
    then show ?thesis using b c d e True
      by (simp add: from_buffer_def pr_inv_def pr_rest_def pr_left_def add.commute)
  next
    case False
    have "\<not> (hard \<and> length b - pr_cursor s < amount)" using assms(5) l by auto
    then show ?thesis using b d l False assms(1,2) by (auto simp: from_buffer_def)
  qed
qed

lemma from_buffer_short:
  assumes "pr_rest s = Inr (d, rest)" "pr_buffer s \<noteq> None" "length d < amount"
  shows "from_buffer amount True and_consume s = (s, Inl (IoErr UnexpectedEof))"
  using assms by (auto simp: from_buffer_def pr_rest_def pr_left_def dest!: and_then_InrD)

lemma pass_through_ok:
  assumes "pr_buffer s = None" "pr_cursor s = 0" "pr_rest s = Inr (d, rest)"
    and "amount \<le> unat (pr_partial_body_length s) \<or> pr_last s"
    and "hard \<or> and_consume \<longrightarrow> amount \<le> length d"
  shows "\<exists>s' out. pass_through amount hard and_consume s = (s', Inr out) \<and> pr_inv s' \<and> prefix out d
    \<and> min amount (length d) \<le> length out \<and> pr_rest s' = Inr (if and_consume then drop amount d else d, rest)"
proof -
  let ?n = "unat (pr_partial_body_length s)"
  have pl: "payload ?n (pr_last s) (pr_reader s) = Inr (d, rest)"
    using assms(1,3) by (auto simp: pr_rest_def pr_left_def dest!: and_then_InrD)
  note p = payload_Inr [OF pl]
  have pf: "prefix (take ?n (pr_reader s)) d" using p(2) by (metis take_is_prefix)
  have amin: "min amount (length d) \<le> ?n" using assms(4) p by auto
  have le: "amount \<le> ?n" if "hard \<or> and_consume" using that assms(4,5) p by auto
  have dr: "payload (unat (pr_partial_body_length s - word_of_nat amount)) (pr_last s) (drop amount (pr_reader s))
      = Inr (drop amount d, rest)" if "amount \<le> ?n"
  proof -
    have "?n < 2 ^ 32" using unat_less_2p [of "pr_partial_body_length s"] by simp
    then have "unat (word_of_nat amount :: u32) = amount" using that by (intro unat_word_of_nat_less) simp
    then have "unat (pr_partial_body_length s - word_of_nat amount) = ?n - amount"
      using that by (subst unat_sub) (simp_all add: word_le_nat_alt)
    with payload_drop [OF pl that] show ?thesis by simp
  qed
  show ?thesis
  proof (cases and_consume)
    case True
    with assms(1,2) p(1) pf amin le dr show ?thesis
      by (auto simp: pass_through_def Let_def pr_inv_def pr_rest_def pr_left_def min_def)
  next
    case False
    with assms(1-3) p(1) pf amin le show ?thesis
      by (auto simp: pass_through_def Let_def pr_inv_def min_def)
  qed
qed

lemma pass_through_short:
  assumes "pr_buffer s = None" "pr_rest s = Inr (d, rest)" "length d < amount" "pr_last s"
  shows "pass_through amount True False s = (s, Inl (IoErr UnexpectedEof))"
proof -
  have pl: "payload (unat (pr_partial_body_length s)) True (pr_reader s) = Inr (d, rest)"
    using assms by (auto simp: pr_rest_def pr_left_def dest!: and_then_InrD)
  from payload_Inr [OF pl] assms(3) show ?thesis by (auto simp: pass_through_def)
qed

lemma drop_empty_buffer:
  assumes "pr_inv s" "pr_buffer s = Some b" "length b = pr_cursor s"
  shows "pr_inv (s\<lparr>pr_buffer := None, pr_cursor := 0\<rparr>)" "pr_rest (s\<lparr>pr_buffer := None, pr_cursor := 0\<rparr>) = pr_rest s"
  using assms by (auto simp: pr_inv_def pr_rest_def pr_left_def)

text \<open>What \<open>data_helper\<close> does once an exhausted local buffer has been dropped.\<close>

definition data_helper_live :: "nat \<Rightarrow> bool \<Rightarrow> bool \<Rightarrow> partial_body_reader \<Rightarrow> partial_body_reader \<times> bytes res" where
  "data_helper_live amount hard and_consume s =
     (if pr_buffer s = None \<and> (amount \<le> unat (pr_partial_body_length s) \<or> pr_last s)
      then pass_through amount hard and_consume s
      else if pr_buffer s = None \<or> amount > length (pr_left s)
      then (case do_fill_buffer amount s of
              (s, Inl e) \<Rightarrow> (s, Inl e)
            | (s, Inr _) \<Rightarrow> from_buffer amount hard and_consume s)
      else from_buffer amount hard and_consume s)"

lemma data_helper_liveE:
  assumes "pr_inv s"
  obtains t where "pr_inv t" "pr_rest t = pr_rest s" "data_helper amount hard and_consume s = data_helper_live amount hard and_consume t"
proof (cases "\<exists>b. pr_buffer s = Some b \<and> length b = pr_cursor s")
  case True
  then obtain b where b: "pr_buffer s = Some b" "length b = pr_cursor s" by blast
  show ?thesis
  proof (rule that [OF drop_empty_buffer [OF assms b]])
    show "data_helper amount hard and_consume s = data_helper_live amount hard and_consume (s\<lparr>pr_buffer := None, pr_cursor := 0\<rparr>)"
      using b by (simp add: data_helper_def data_helper_live_def Let_def)
  qed
next
  case False
  show ?thesis
  proof (rule that [OF assms refl])
    show "data_helper amount hard and_consume s = data_helper_live amount hard and_consume s"
      using False assms
      by (auto simp: data_helper_def data_helper_live_def Let_def pr_inv_def pr_left_def split: option.splits)
  qed
qed

lemma data_helper_ok:
  assumes "pr_inv s" "pr_rest s = Inr (d, rest)" "hard \<or> and_consume \<longrightarrow> amount \<le> length d"
  shows "\<exists>s' out. data_helper amount hard and_consume s = (s', Inr out) \<and> pr_inv s' \<and> prefix out d
    \<and> min amount (length d) \<le> length out \<and> pr_rest s' = Inr (if and_consume then drop amount d else d, rest)"
proof -
  obtain t where t: "pr_inv t" "pr_rest t = Inr (d, rest)"
    and eq: "data_helper amount hard and_consume s = data_helper_live amount hard and_consume t"
    using data_helper_liveE [OF assms(1)] assms(2) by metis
  consider (pass) "pr_buffer t = None" "amount \<le> unat (pr_partial_body_length t) \<or> pr_last t"
    | (fill) "pr_buffer t = None \<longrightarrow> \<not> pr_last t \<and> unat (pr_partial_body_length t) < amount" "length (pr_left t) < amount"
    | (have_it) "pr_buffer t \<noteq> None" "amount \<le> length (pr_left t)"
    by (cases "pr_buffer t") (fastforce simp: pr_left_def)+
  then show ?thesis
  proof cases
    case pass
    moreover have "pr_cursor t = 0" using t(1) pass by (simp add: pr_inv_def)
    ultimately show ?thesis
      using pass_through_ok [OF _ _ t(2) _ assms(3)] by (simp add: eq data_helper_live_def)
  next
    case fill
    from do_fill_buffer_ok [OF t fill(2)] fill(1) obtain u where u: "do_fill_buffer amount t = (u, Inr ())"
      "pr_inv u" "pr_buffer u \<noteq> None" "pr_rest u = Inr (d, rest)" "min amount (length d) \<le> length (pr_left u)"
      by blast
    have "data_helper amount hard and_consume s = from_buffer amount hard and_consume u"
      using fill u(1) by (auto simp: eq data_helper_live_def)
    with from_buffer_ok [OF u(2,4,3,5) assms(3)] show ?thesis by simp
  next
    case have_it
    then have "data_helper amount hard and_consume s = from_buffer amount hard and_consume t"
      by (auto simp: eq data_helper_live_def)
    moreover have "min amount (length d) \<le> length (pr_left t)" using have_it by simp
    ultimately show ?thesis using from_buffer_ok [OF t have_it(1) _ assms(3)] by simp
  qed
qed

lemma data_helper_short:
  assumes "pr_inv s" "pr_rest s = Inr (d, rest)" "length d < amount"
  shows "\<exists>s'. data_helper amount True False s = (s', Inl (IoErr UnexpectedEof)) \<and> pr_inv s' \<and> pr_rest s' = Inr (d, rest)"
proof -
  obtain t where t: "pr_inv t" "pr_rest t = Inr (d, rest)"
    and eq: "data_helper amount True False s = data_helper_live amount True False t"
    using data_helper_liveE [OF assms(1)] assms(2) by metis
  have left: "length (pr_left t) < amount" using t(2) assms(3) by (auto simp: pr_rest_def dest!: and_then_InrD)
  have body: "unat (pr_partial_body_length t) < amount"
    using t(2) assms(3) by (auto simp: pr_rest_def dest!: and_then_InrD payload_Inr(3))
  show ?thesis
  proof (cases "pr_buffer t = None \<and> pr_last t")
    case True
    with pass_through_short [OF _ t(2) assms(3)] t show ?thesis by (simp add: eq data_helper_live_def)
  next
    case False
    with do_fill_buffer_ok [OF t left] obtain u where u: "do_fill_buffer amount t = (u, Inr ())"
      "pr_inv u" "pr_buffer u \<noteq> None" "pr_rest u = Inr (d, rest)" by blast
    have "data_helper amount True False s = from_buffer amount True False u"
      using False body left u(1) by (auto simp: eq data_helper_live_def)
    with from_buffer_short [OF u(4,3) assms(3)] u show ?thesis by simp
  qed
qed

text \<open>A client that reads fields of the given sizes one after the other.\<close>

fun pr_reads :: "nat list \<Rightarrow> partial_body_reader \<Rightarrow> (bytes list \<times> partial_body_reader) res" where
  "pr_reads [] s = Inr ([], s)"
| "pr_reads (amount # amounts) s =
     (case pr_data_consume_hard amount s of
        (s, Inl e) \<Rightarrow> Inl e
      | (s, Inr out) \<Rightarrow> and_then (pr_reads amounts s) (\<lambda>(outs, s). Inr (take amount out # outs, s)))"

fun slices :: "nat list \<Rightarrow> 'a list \<Rightarrow> 'a list list" where
  "slices [] xs = []"
| "slices (n # ns) xs = take n xs # slices ns (drop n xs)"

lemma pr_reads_ok:
  assumes "pr_inv s" "pr_rest s = Inr (d, rest)" "sum_list amounts \<le> length d"
  shows "\<exists>s'. pr_reads amounts s = Inr (slices amounts d, s') \<and> pr_inv s' \<and> pr_rest s' = Inr (drop (sum_list amounts) d, rest)"
  using assms
proof (induction amounts arbitrary: s d)
  case Nil
  then show ?case by simp
next
  case (Cons amount amounts)
  have le: "amount \<le> length d" using Cons.prems(3) by simp
  with data_helper_ok [OF Cons.prems(1,2), of True True amount] obtain s1 out where
    o: "pr_data_consume_hard amount s = (s1, Inr out)" "pr_inv s1" "prefix out d" "amount \<le> length out"
      "pr_rest s1 = Inr (drop amount d, rest)"
    by (auto simp: pr_data_consume_hard_def)
  have "take amount out = take amount d" using o(3,4) by (auto simp: prefix_def)
  moreover have "sum_list amounts \<le> length (drop amount d)" using Cons.prems(3) by simp
  ultimately show ?case using Cons.IH [OF o(2,5)] o(1) by (auto simp: add.commute)
qed

lemma with_limits_fields:
  "with_limits inner t m = Inr f \<Longrightarrow> pf_buffer_threshold f = t \<and> pf_max_chunk_size f = m \<and> pf_position f = 0"
  by (auto simp: with_limits_def split: if_splits)

section \<open>Theorems\<close>

text \<open>
  C19. Writing a packet body through \<open>PartialBodyFilter\<close>, in any pieces and with any flushes
  in between, never fails or panics; the result decodes to exactly the data that was written, whatever
  follows it, the position counts the octets accepted, and what the sink held before is kept.
\<close>

theorem partial_body_session:
  assumes "with_limits pre t m = Inr f" "t < 2 ^ 32"
  shows "\<exists>f' bs. pf_run ops f = Inr f' \<and> pf_into_inner f' = Inr (Some (pre @ bs))
    \<and> pf_position f' = length (pf_written ops)
    \<and> (\<forall>rest. decode_body (bs @ rest) = Inr (pf_written ops, rest))"
proof -
  from pf_run_inv [OF with_limits_inv [OF assms(1)], of ops] with_limits_fields [OF assms(1)]
  obtain f' where f': "pf_run ops f = Inr f'" "pf_inv pre (pf_written ops) f'"
    "pf_position f' = length (pf_written ops)" "pf_buffer_threshold f' = t" by auto
  with pf_into_inner_decodes [OF f'(2)] assms(2) show ?thesis by fastforce
qed

theorem partial_body_session_witness:
  "\<exists>f' bs. pf_run [Write [1, 2, 3], Flush, Write [4, 5]]
       \<lparr>pf_inner = Some [9], pf_buffer = [], pf_buffer_threshold = 2, pf_max_chunk_size = 2, pf_position = 0\<rparr> = Inr f'
    \<and> pf_into_inner f' = Inr (Some ([9] @ bs))
    \<and> pf_position f' = length (pf_written [Write [1, 2, 3], Flush, Write [4, 5]])
    \<and> (\<forall>rest. decode_body (bs @ rest) = Inr (pf_written [Write [1, 2, 3], Flush, Write [4, 5]], rest))"
  by (rule partial_body_session [of "[9]" 2 2]) (use with_limits_2p [of 1 "[9]" 1] in simp_all)

text \<open>
  C21. With a buffer threshold and a maximum chunk size of at least 512 octets, as the stream writers
  set them up, the body written either is a single last chunk or starts with a chunk of at
  least 512 octets, as the standard demands of the first partial length.
\<close>

theorem partial_body_first_chunk:
  assumes "with_limits pre t m = Inr f" "512 \<le> t" "t < 2 ^ 32" "512 \<le> m"
  shows "\<exists>f' bs. pf_run ops f = Inr f' \<and> pf_into_inner f' = Inr (Some (pre @ bs))
    \<and> (\<forall>l rest. parse_new_format bs = Inr (BodyLength.Partial l, rest) \<longrightarrow> 512 \<le> l)"
proof -
  from pf_run_inv [OF with_limits_inv [OF assms(1)], of ops] with_limits_fields [OF assms(1)]
  obtain f' where f': "pf_run ops f = Inr f'" "pf_inv pre (pf_written ops) f'"
    "pf_buffer_threshold f' = t" "pf_max_chunk_size f' = m" by auto
  with pf_into_inner_decodes [OF f'(2)] assms show ?thesis by fastforce
qed

theorem partial_body_first_chunk_witness:
  "\<exists>f' bs. pf_run [Write (replicate 600 7)]
      \<lparr>pf_inner = Some [], pf_buffer = [], pf_buffer_threshold = 512, pf_max_chunk_size = 512, pf_position = 0\<rparr> = Inr f'
    \<and> pf_into_inner f' = Inr (Some ([] @ bs))
    \<and> (\<forall>l rest. parse_new_format bs = Inr (BodyLength.Partial l, rest) \<longrightarrow> 512 \<le> l)"
  by (rule partial_body_first_chunk [of "[]" 512 512]) (use with_limits_2p [of 9 "[]" 9] in simp_all)

text \<open>
  C20. What \<open>PartialBodyFilter\<close> writes, \<open>BufferedReaderPartialBodyFilter\<close> reads: after the
  header of the first chunk, reading fields of any sizes that fit in the body returns the consecutive
  slices of the data that was written, across all chunk boundaries, and leaves the reader
  before the rest of the body and of the input.
\<close>

theorem partial_body_write_read:
  assumes "with_limits pre t m = Inr f" "t < 2 ^ 32"
    and "pf_run ops f = Inr f'" "pf_into_inner f' = Inr (Some (pre @ bs))"
    and "parse_new_format (bs @ rest) = Inr (BodyLength.Partial l, input)"
    and "sum_list amounts \<le> length (pf_written ops)"
  shows "\<exists>s. pr_reads amounts (pr_with_cookie input l) = Inr (slices amounts (pf_written ops), s)
    \<and> pr_rest s = Inr (drop (sum_list amounts) (pf_written ops), rest)"
proof -
  from pf_run_inv [OF with_limits_inv [OF assms(1)], of ops] with_limits_fields [OF assms(1)] assms(3)
  have f': "pf_inv pre (pf_written ops) f'" "pf_buffer_threshold f' = t" by auto
  with pf_into_inner_decodes [OF f'(1)] assms(2,4) have dec: "decode_body (bs @ rest) = Inr (pf_written ops, rest)"
    by fastforce
  let ?s = "pr_with_cookie input l"
  have "pr_rest ?s = decode_body (bs @ rest)"
    using assms(5) payload.simps [of 0 False "bs @ rest"]
    by (simp add: decode_body_def pr_rest_def pr_with_cookie_def pr_left_def)
  with dec have r: "pr_rest ?s = Inr (pf_written ops, rest)" by simp
  have "pr_inv ?s" by (simp add: pr_inv_def pr_with_cookie_def)
  from pr_reads_ok [OF this r assms(6)] show ?thesis by blast
qed

theorem partial_body_write_read_witness:
  "\<exists>s. pr_reads [1, 2] (pr_with_cookie [1, 2, 1, 3, 7] 2) = Inr (slices [1, 2] (pf_written [Write [1, 2, 3]]), s)
    \<and> pr_rest s = Inr (drop (sum_list [1, 2]) (pf_written [Write [1, 2, 3]]), [7])"
  by (rule partial_body_write_read [of "[9]" 2 2
        "\<lparr>pf_inner = Some [9], pf_buffer = [], pf_buffer_threshold = 2, pf_max_chunk_size = 2, pf_position = 0\<rparr>" _
        "\<lparr>pf_inner = Some [9, 225, 1, 2], pf_buffer = [3], pf_buffer_threshold = 2, pf_max_chunk_size = 2, pf_position = 3\<rparr>"
        "[225, 1, 2, 1, 3]"])
    (use with_limits_2p [of 1 "[9]" 1] in simp, simp, code_simp,
     simp add: pf_into_inner_def write_out_def BodyLength_serialize_def, code_simp, simp)

text \<open>
  Looking at a body without consuming it shows a prefix of the data: \<open>data\<close> returns at least
  the amount asked for or everything there is, \<open>data_hard\<close> fails with an unexpected end of
  file exactly when the body is shorter, and neither changes what remains to be read.
\<close>

theorem partial_body_peek:
  assumes "pr_inv s" "pr_rest s = Inr (d, rest)"
  shows "(\<exists>s' out. pr_data amount s = (s', Inr out) \<and> prefix out d \<and> min amount (length d) \<le> length out
      \<and> pr_rest s' = Inr (d, rest))
    \<and> (\<exists>s' r. pr_data_hard amount s = (s', r) \<and> pr_rest s' = Inr (d, rest)
      \<and> (if amount \<le> length d then \<exists>out. r = Inr out \<and> prefix out d \<and> amount \<le> length out
         else r = Inl (IoErr UnexpectedEof)))"
proof (rule conjI)
  show "\<exists>s' out. pr_data amount s = (s', Inr out) \<and> prefix out d \<and> min amount (length d) \<le> length out
      \<and> pr_rest s' = Inr (d, rest)"
    using data_helper_ok [OF assms, of False False amount] by (auto simp: pr_data_def)
  show "\<exists>s' r. pr_data_hard amount s = (s', r) \<and> pr_rest s' = Inr (d, rest)
      \<and> (if amount \<le> length d then \<exists>out. r = Inr out \<and> prefix out d \<and> amount \<le> length out
         else r = Inl (IoErr UnexpectedEof))"
    using data_helper_ok [OF assms, of True False amount] data_helper_short [OF assms, of amount]
    by (cases "amount \<le> length d") (auto simp: pr_data_hard_def)
qed

theorem partial_body_peek_witness:
  "(\<exists>s' out. pr_data 3 (pr_with_cookie [1, 2, 1, 3, 7] 2) = (s', Inr out) \<and> prefix out [1, 2, 3]
      \<and> min 3 (length [1 :: u8, 2, 3]) \<le> length out \<and> pr_rest s' = Inr ([1, 2, 3], [7]))
    \<and> (\<exists>s' r. pr_data_hard 3 (pr_with_cookie [1, 2, 1, 3, 7] 2) = (s', r) \<and> pr_rest s' = Inr ([1, 2, 3], [7])
      \<and> (if 3 \<le> length [1 :: u8, 2, 3] then \<exists>out. r = Inr out \<and> prefix out [1, 2, 3] \<and> 3 \<le> length out
         else r = Inl (IoErr UnexpectedEof)))"
  by (rule partial_body_peek) (code_simp, code_simp)

text \<open>
  A defect of the reader: consuming more than the last chunk holds from a reader with no local
  buffer returns the right data but drops octets of the underlying reader that
  follow the body, that is, of the next packet.
\<close>

theorem data_consume_overruns:
  assumes "pr_buffer s = None" "pr_cursor s = 0" "pr_last s"
    and "unat (pr_partial_body_length s) < amount" "amount \<le> length (pr_reader s)"
  shows "\<exists>s'. pr_data_consume amount s = (s', Inr (take (unat (pr_partial_body_length s)) (pr_reader s)))
    \<and> pr_consummated s' \<and> pr_reader s' = drop amount (pr_reader s)"
  using assms
  by (auto simp: pr_data_consume_def data_helper_def pass_through_def Let_def pr_consummated_def min_def)

theorem data_consume_overruns_witness:
  "\<exists>s'. pr_data_consume 2 \<lparr>pr_reader = [1, 2, 3], pr_partial_body_length = 1, pr_last = True,
        pr_buffer = None, pr_cursor = 0\<rparr> = (s', Inr [1]) \<and> pr_consummated s' \<and> pr_reader s' = [3]"
  using data_consume_overruns [of "\<lparr>pr_reader = [1, 2, 3], pr_partial_body_length = 1, pr_last = True,
        pr_buffer = None, pr_cursor = 0\<rparr>" 2] by simp

end
