(* ===== verification/Mpi.thy ===== *)
theory Mpi
  imports Header
begin

text \<open>
  Multiprecision integers and the cryptographic material made of them: public keys, secret
  keys, ciphertexts and signatures (\<open>crypto/mpi.rs\<close>), their parsers (\<open>parse/mpis.rs\<close> and
  \<open>MPI::parse\<close> in \<open>parse.rs\<close>) and their writers (\<open>serialize.rs\<close>).

  \<open>Protected\<close> memory is a byte string: that it is encrypted in memory and cleared on drop does not show
  in values. A fixed-size array is a byte string whose length the well-formedness predicates state.
\<close>

unbundle bit_operations_syntax

section \<open>Multiprecision integers\<close>

record MPI =
  MPI_value :: bytes

type_synonym ProtectedMPI = MPI

definition trim_leading_zeros :: "bytes \<Rightarrow> bytes" where
  "trim_leading_zeros v = (let offset = length (takeWhile (\<lambda>x. x = 0) v) in drop offset v)"

definition MPI_new :: "bytes \<Rightarrow> MPI" where
  "MPI_new value = \<lparr>MPI_value = trim_leading_zeros value\<rparr>"

definition ProtectedMPI_from :: "bytes \<Rightarrow> ProtectedMPI" where
  "ProtectedMPI_from m = \<lparr>MPI_value = trim_leading_zeros m\<rparr>"

text \<open>
  \<open>new_point_common\<close> subtracts the lengths of the coordinates from the field size, so a
  coordinate that is too long aborts.
\<close>

definition new_point_common :: "bytes \<Rightarrow> bytes \<Rightarrow> nat \<Rightarrow> bytes res" where
  "new_point_common x y field_bits =
     (let field_sz = (if field_bits mod 8 > 0 then 1 else 0) + field_bits div 8 in
      if length x > field_sz \<or> length y > field_sz then Inl Panic
      else
        Inr (0x04 # replicate (field_sz - length x) 0 @ x @ replicate (field_sz - length y) 0 @ y))"

definition MPI_new_point :: "bytes \<Rightarrow> bytes \<Rightarrow> nat \<Rightarrow> MPI res" where
  "MPI_new_point x y field_bits = and_then (new_point_common x y field_bits) (\<lambda>v. Inr (MPI_new v))"

definition new_compressed_point_common :: "bytes \<Rightarrow> bytes" where
  "new_compressed_point_common x = 0x40 # x"

definition MPI_new_compressed_point :: "bytes \<Rightarrow> MPI" where
  "MPI_new_compressed_point x = MPI_new (new_compressed_point_common x)"

definition MPI_zero :: MPI where
  "MPI_zero = MPI_new []"

definition MPI_is_zero :: "MPI \<Rightarrow> bool" where
  "MPI_is_zero m \<longleftrightarrow> MPI_value m = []"

definition MPI_bits :: "MPI \<Rightarrow> nat" where
  "MPI_bits m =
     length (MPI_value m) * 8 - (case MPI_value m of [] \<Rightarrow> 0 | b # _ \<Rightarrow> leading_zeros b)"

definition pad :: "bytes \<Rightarrow> nat \<Rightarrow> bytes res" where
  "pad value to =
     (if length value = to then Inr value
      else if length value < to then Inr (replicate (to - length value) 0 @ value)
      else Inl (Err InvalidOperation))"

definition pad_at_least :: "bytes \<Rightarrow> nat \<Rightarrow> bytes" where
  "pad_at_least value to = (case pad value to of Inr v \<Rightarrow> v | Inl _ \<Rightarrow> value)"

definition pad_truncating :: "bytes \<Rightarrow> nat \<Rightarrow> bytes" where
  "pad_truncating value to =
     (if length value = to then value
      else replicate (to - length value) 0 @ take (min (length value) to) value)"

definition MPI_value_padded :: "MPI \<Rightarrow> nat \<Rightarrow> bytes res" where
  "MPI_value_padded m to = pad (MPI_value m) to"

definition ProtectedMPI_value_padded :: "ProtectedMPI \<Rightarrow> nat \<Rightarrow> bytes" where
  "ProtectedMPI_value_padded m to =
     replicate (to - length (MPI_value m)) 0 @ take (min (length (MPI_value m)) to) (MPI_value m)"

definition decode_point_common :: "bytes \<Rightarrow> Curve \<Rightarrow> (bytes \<times> bytes) res" where
  "decode_point_common value curve =
     (case curve of
        Curve.Unknown _ \<Rightarrow> Inl (Err (UnsupportedEllipticCurve curve))
      | _ \<Rightarrow>
          if curve = Curve.Ed25519 \<or> curve = Curve.Cv25519 then
            if length value \<noteq> 1 + 32 then Inl (Err MalformedMPI)
            else if (case value of [] \<Rightarrow> True | b # _ \<Rightarrow> b \<noteq> 0x40) then Inl (Err MalformedMPI)
            else Inr (drop 1 value, [])
          else
            and_then (field_size curve) (\<lambda>coordinate_length.
              if length value \<noteq> 1 + 2 * coordinate_length then Inl (Err MalformedMPI)
              else if (case value of [] \<Rightarrow> True | b # _ \<Rightarrow> b \<noteq> 0x04) then Inl (Err MalformedMPI)
              else Inr (take coordinate_length (drop 1 value), drop (1 + coordinate_length) value)))"

definition MPI_decode_point :: "MPI \<Rightarrow> Curve \<Rightarrow> (bytes \<times> bytes) res" where
  "MPI_decode_point m curve = decode_point_common (MPI_value m) curve"

text \<open>Rust's \<open>Ordering\<close>, its \<open>then\<close>, and the comparisons of integers and of slices.\<close>

datatype Ordering = Less | Equal | Greater

definition cmp_then :: "Ordering \<Rightarrow> Ordering \<Rightarrow> Ordering" where
  "cmp_then a b = (if a = Equal then b else a)"

definition cmp :: "'a::linorder \<Rightarrow> 'a \<Rightarrow> Ordering" where
  "cmp a b = (if a < b then Less else if a = b then Equal else Greater)"

fun slice_cmp :: "bytes \<Rightarrow> bytes \<Rightarrow> Ordering" where
  "slice_cmp [] [] = Equal"
| "slice_cmp [] (_ # _) = Less"
| "slice_cmp (_ # _) [] = Greater"
| "slice_cmp (a # as) (b # bs) = cmp_then (cmp a b) (slice_cmp as bs)"

definition raw_bigint_cmp :: "bytes \<Rightarrow> bytes \<Rightarrow> Ordering" where
  "raw_bigint_cmp a b =
     (let a = dropWhile (\<lambda>x. x = 0) a; b = dropWhile (\<lambda>x. x = 0) b in
      cmp_then (cmp (length a) (length b)) (slice_cmp a b))"

definition rsa_sort_raw_pq :: "bytes \<Rightarrow> bytes \<Rightarrow> bytes \<times> bytes" where
  "rsa_sort_raw_pq p q =
     (case raw_bigint_cmp p q of Less \<Rightarrow> (p, q) | Equal \<Rightarrow> (p, q) | Greater \<Rightarrow> (q, p))"

definition MPI_serialize :: "MPI \<Rightarrow> bytes" where
  "MPI_serialize m = to_be_u16 (word_of_nat (MPI_bits m)) @ MPI_value m"

definition MPI_serialized_len :: "MPI \<Rightarrow> nat" where
  "MPI_serialized_len m = 2 + length (MPI_value m)"

definition uniform_error_for_secrets :: "bool \<Rightarrow> Error \<Rightarrow> failure" where
  "uniform_error_for_secrets parsing_secrets e = (if parsing_secrets then Err MalformedMPI else Err e)"

text \<open>
  \<open>MPI::parse_common\<close> looks at the octets with \<open>data_hard\<close> and consumes them only once the
  integer is known to be well-formed, so that after a failure the reader is where it was.
\<close>

definition MPI_parse_common :: "bool \<Rightarrow> bool \<Rightarrow> bytes reader" where
  "MPI_parse_common parsing_secrets lenient_parsing bs =
     (if length bs < 2 then Inl (IoErr UnexpectedEof)
      else
        (let bits = unat (from_be_u16 (take 2 bs)) in
         if bits = 0 then Inr ([], drop 2 bs)
         else
           (let nbytes = (bits + 7) div 8 in
            if length bs < 2 + nbytes then Inl (IoErr UnexpectedEof)
            else
              (let value = take nbytes (drop 2 bs);
                   unused_bits = nbytes * 8 - bits;
                   unused_value = value ! 0 AND NOT (push_bit (8 - unused_bits) 1 - 1);
                   first_used_bit = 8 - unused_bits in
               if unused_bits > 0 \<and> unused_value \<noteq> 0 \<and> \<not> lenient_parsing
               then Inl (uniform_error_for_secrets parsing_secrets MalformedMPI)
               else if value ! 0 AND push_bit (first_used_bit - 1) 1 = 0 \<and> \<not> lenient_parsing
               then Inl (uniform_error_for_secrets parsing_secrets MalformedMPI)
               else Inr (value, drop (2 + nbytes) bs)))))"

definition MPI_parse :: "MPI reader" where
  "MPI_parse bs = and_then (MPI_parse_common False False bs) (\<lambda>(v, bs). Inr (MPI_new v, bs))"

definition ProtectedMPI_parse :: "ProtectedMPI reader" where
  "ProtectedMPI_parse bs =
     and_then (MPI_parse_common True False bs) (\<lambda>(v, bs). Inr (ProtectedMPI_from v, bs))"

section \<open>Properties of integers\<close>

text \<open>An integer as \<open>MPI::new\<close> builds it, small enough for its bit count to fit in 16 bits.\<close>

definition MPI_stripped :: "MPI \<Rightarrow> bool" where
  "MPI_stripped m \<longleftrightarrow> MPI_value m = [] \<or> hd (MPI_value m) \<noteq> 0"

definition MPI_ok :: "MPI \<Rightarrow> bool" where
  "MPI_ok m \<longleftrightarrow> MPI_stripped m \<and> MPI_bits m < 2 ^ 16"

lemma trim_leading_zeros_dropWhile: "trim_leading_zeros v = dropWhile (\<lambda>x. x = 0) v"
  by (simp add: trim_leading_zeros_def dropWhile_eq_drop)

lemma trim_leading_zeros_id: "v = [] \<or> hd v \<noteq> 0 \<Longrightarrow> trim_leading_zeros v = v"
  by (cases v) (auto simp: trim_leading_zeros_dropWhile)

lemma MPI_new_stripped: "MPI_stripped (MPI_new v)"
  using hd_dropWhile [of "\<lambda>x. x = 0" v]
  by (cases "dropWhile (\<lambda>x. x = 0) v = []")
    (simp_all only: MPI_stripped_def MPI_new_def trim_leading_zeros_dropWhile MPI.simps simp_thms if_True)

lemma MPI_new_value: "MPI_stripped m \<Longrightarrow> MPI_new (MPI_value m) = m"
  by (simp add: MPI_stripped_def MPI_new_def trim_leading_zeros_id)

lemma be_nat_Cons: "be_nat (b # bs) = unat b * 256 ^ length bs + be_nat bs"
  by (induction bs rule: rev_induct) (simp_all add: be_nat_snoc [of "b # _", simplified] be_nat_def algebra_simps)

text \<open>The first octet tells the length: \<open>u\<close> unused bits, then a set bit.\<close>

lemma leading_octet:
  fixes b :: u8
  assumes "u < 8"
  shows "b AND NOT (push_bit (8 - u) 1 - 1) = 0 \<and> b AND push_bit (7 - u) 1 \<noteq> 0
    \<longleftrightarrow> b \<noteq> 0 \<and> leading_zeros b = u"
proof -
  have m: "push_bit (8 - u) 1 - 1 = (mask (8 - u) :: u8)" by (simp add: mask_eq_exp_minus_1 push_bit_one)
  have "b AND NOT (mask (8 - u)) = 0 \<longleftrightarrow> (\<forall>i. bit b i \<longrightarrow> i < 8 - u)"
    using bit_imp_le_length [of b] by (fastforce simp: bit_eq_iff bit_and_iff bit_not_iff bit_mask_iff)
  then have a: "b AND NOT (mask (8 - u)) = 0 \<longleftrightarrow> bit_length b \<le> 8 - u"
    by (simp add: bit_length_le_iff unat_less_2p_iff)
  have s: "b AND push_bit (7 - u) 1 \<noteq> 0 \<longleftrightarrow> bit b (7 - u)"
    using assms by (auto simp: bit_eq_iff [where 'a = u8] bit_and_iff push_bit_one bit_exp_iff)
  have bl: "bit_length b \<le> 7 - u \<longleftrightarrow> (\<forall>i. bit b i \<longrightarrow> i < 7 - u)"
    by (simp add: bit_length_le_iff unat_less_2p_iff)
  have suc: "8 - u = Suc (7 - u)" using assms by simp
  have "bit_length b \<le> 8 - u \<and> bit b (7 - u) \<longleftrightarrow> bit_length b = 8 - u"
  proof
    assume "bit_length b \<le> 8 - u \<and> bit b (7 - u)"
    with bl show "bit_length b = 8 - u" by (auto simp: suc le_Suc_eq)
  next
    assume e: "bit_length b = 8 - u"
    with bl obtain i where i: "bit b i" "7 - u \<le> i" by (auto simp: suc not_less)
    have "i < 8 - u" using i(1) e bit_length_le_iff [of b "8 - u"] by (simp add: unat_less_2p_iff)
    with i suc have "i = 7 - u" by linarith
    with i e show "bit_length b \<le> 8 - u \<and> bit b (7 - u)" by simp
  qed
  moreover have "bit_length b \<le> 8" using bit_length_bound [of b] by simp
  moreover have "b \<noteq> 0 \<longleftrightarrow> bit_length b \<noteq> 0" using bit_length_le_iff [of b 0] by (simp add: unat_eq_zero)
  ultimately show ?thesis using a s m assms by (auto simp: leading_zeros_def)
qed

lemma leading_zeros_u8_less: "(b :: u8) \<noteq> 0 \<Longrightarrow> leading_zeros b < 8"
  using bit_length_le_iff [of b 0] by (auto simp: leading_zeros_def unat_eq_zero)

lemma MPI_bits_stripped:
  assumes "MPI_value m = b # bs" "b \<noteq> 0"
  shows "MPI_bits m = length bs * 8 + (8 - leading_zeros b)" "0 < MPI_bits m"
    "(MPI_bits m + 7) div 8 = Suc (length bs)" "Suc (length bs) * 8 - MPI_bits m = leading_zeros b"
  using assms leading_zeros_u8_less [OF assms(2)] by (auto simp: MPI_bits_def)

lemma MPI_parse_common_eq_Inr:
  "MPI_parse_common p False bs = Inr (v, rest) \<longleftrightarrow> MPI_ok \<lparr>MPI_value = v\<rparr> \<and> bs = MPI_serialize \<lparr>MPI_value = v\<rparr> @ rest"
    (is "?l \<longleftrightarrow> ?r")
proof
  assume l: ?l
  define n where "n = from_be_u16 (take 2 bs)"
  have len: "2 \<le> length bs" using l by (simp add: MPI_parse_common_def split: if_splits)
  then have bs: "bs = to_be_u16 n @ drop 2 bs" by (simp add: n_def to_from_be_u16)
  show ?r
  proof (cases "unat n = 0")
    case True
    with l len bs show ?thesis
      by (simp add: MPI_parse_common_def n_def [symmetric] MPI_ok_def MPI_stripped_def MPI_bits_def MPI_serialize_def unat_eq_zero)
  next
    case False
    define k where "k = (unat n + 7) div 8"
    define u where "u = k * 8 - unat n"
    have k: "0 < k" "u < 8" "k * 8 = unat n + u" using False by (auto simp: k_def u_def)
    from l len False have r: "2 + k \<le> length bs" "v = take k (drop 2 bs)" "rest = drop (2 + k) bs"
      and top: "u = 0 \<or> v ! 0 AND NOT (push_bit (8 - u) 1 - 1) = 0" "v ! 0 AND push_bit (7 - u) 1 \<noteq> 0"
      by (simp_all add: MPI_parse_common_def Let_def n_def [symmetric] k_def [symmetric] u_def [symmetric] not_less
          split: if_splits)
    have "length v = k" using r by simp
    with k obtain b t where v: "v = b # t" "length t = k - 1" by (cases v) auto
    have all: "NOT (push_bit 8 1 - 1 :: u8) = 0" by code_simp
    have "b AND NOT (push_bit (8 - u) 1 - 1) = 0"
    proof (cases "u = 0")
      case True
      then show ?thesis by (simp only: all diff_zero and_zero_eq)
    next
      case False
      with top(1) v show ?thesis by simp
    qed
    then have lz: "b \<noteq> 0" "leading_zeros b = u" using leading_octet [OF k(2), of b] top(2) v by auto
    note mb = MPI_bits_stripped [of "\<lparr>MPI_value = v\<rparr>", simplified, OF v(1) lz(1)]
    have "MPI_bits \<lparr>MPI_value = v\<rparr> = unat n" using mb(1) lz(2) v(2) k by simp
    moreover have "drop 2 bs = v @ rest" using r(2,3) append_take_drop_id [of k "drop 2 bs"] by (simp add: add.commute)
    ultimately show ?thesis
      using v(1) lz(1) bs unat_less_2p [of n] by (simp add: MPI_ok_def MPI_stripped_def MPI_serialize_def)
  qed
next
  assume r: ?r
  define m where "m = \<lparr>MPI_value = v\<rparr>"
  have mv: "MPI_value m = v" by (simp add: m_def)
  have ok: "MPI_stripped m" "MPI_bits m < 2 ^ 16" and bs: "bs = to_be_u16 (word_of_nat (MPI_bits m)) @ v @ rest"
    using r by (simp_all add: m_def MPI_ok_def MPI_serialize_def)
  have ub: "unat (word_of_nat (MPI_bits m) :: u16) = MPI_bits m"
    using ok(2) by (intro unat_word_of_nat_less) simp
  show ?l
  proof (cases v)
    case Nil
    then have "MPI_bits m = 0" by (simp add: MPI_bits_def mv)
    with Nil bs ub show ?thesis by (simp add: MPI_parse_common_def)
  next
    case (Cons b t)
    have b: "b \<noteq> 0" using ok(1) Cons mv by (simp add: MPI_stripped_def)
    note mb = MPI_bits_stripped [of m, unfolded mv, OF Cons b]
    have "b AND NOT (push_bit (8 - leading_zeros b) 1 - 1) = 0 \<and> b AND push_bit (7 - leading_zeros b) 1 \<noteq> 0"
      using leading_octet [OF leading_zeros_u8_less [OF b], of b] b by simp
    then show ?thesis
      using bs ub mb(2-4) Cons by (simp add: MPI_parse_common_def Let_def del: mult_Suc)
  qed
qed

lemma MPI_parse_eq_Inr: "MPI_parse bs = Inr (m, rest) \<longleftrightarrow> MPI_ok m \<and> bs = MPI_serialize m @ rest"
proof -
  have "MPI_new v = m \<longleftrightarrow> \<lparr>MPI_value = v\<rparr> = m" if "MPI_ok \<lparr>MPI_value = v\<rparr>" for v
    using MPI_new_value [of "\<lparr>MPI_value = v\<rparr>"] that by (simp add: MPI_ok_def)
  then show ?thesis
    by (cases m) (auto simp: MPI_parse_def result_simps MPI_parse_common_eq_Inr)
qed

lemma ProtectedMPI_parse_eq_Inr: "ProtectedMPI_parse bs = Inr (m, rest) \<longleftrightarrow> MPI_ok m \<and> bs = MPI_serialize m @ rest"
proof -
  have "ProtectedMPI_from v = m \<longleftrightarrow> \<lparr>MPI_value = v\<rparr> = m" if "MPI_ok \<lparr>MPI_value = v\<rparr>" for v
    using MPI_new_value [of "\<lparr>MPI_value = v\<rparr>"] that by (simp add: MPI_ok_def ProtectedMPI_from_def MPI_new_def)
  then show ?thesis
    by (cases m) (auto simp: ProtectedMPI_parse_def result_simps MPI_parse_common_eq_Inr)
qed

section \<open>Numbers\<close>

lemma bit_length_u8: "bit_length (b :: u8) = 8 - leading_zeros b"
  using bit_length_bound [of b] by (simp add: leading_zeros_def)

lemma be_nat_dropWhile: "be_nat (dropWhile (\<lambda>x. x = 0) bs) = be_nat bs"
  by (induction bs) (auto simp: be_nat_Cons)

lemma be_nat_replicate_0: "be_nat (replicate n 0 @ bs) = be_nat bs"
  by (induction n) (simp_all add: be_nat_Cons)

lemma be_nat_stripped_ge: "b \<noteq> 0 \<Longrightarrow> 256 ^ length bs \<le> be_nat (b # bs)"
proof -
  assume "b \<noteq> 0"
  then have "1 \<le> unat b" by (simp add: Suc_le_eq unat_gt_0)
  then have "1 * 256 ^ length bs \<le> unat b * 256 ^ length bs" by (rule mult_le_mono1)
  then show ?thesis unfolding be_nat_Cons by linarith
qed

lemma slice_cmp_be_nat:
  "length a = length b \<Longrightarrow> slice_cmp a b = cmp (be_nat a) (be_nat b)"
proof (induction a b rule: slice_cmp.induct)
  case (4 a as b bs)
  have la: "be_nat as < 256 ^ length bs" and lb: "be_nat bs < 256 ^ length bs"
    using be_nat_bound [of as] be_nat_bound [of bs] 4 by simp_all
  have less: "x * 256 ^ length bs + be_nat u < y * 256 ^ length bs + be_nat v"
    if "x < y" "be_nat u < 256 ^ length bs" for x y u v
  proof -
    have "x * 256 ^ length bs + 256 ^ length bs \<le> y * 256 ^ length bs"
      using mult_le_mono1 [of "Suc x" y "256 ^ length bs"] that(1) by simp
    with that(2) show ?thesis by linarith
  qed
  consider "unat a < unat b" | "a = b" | "unat b < unat a"
    by (metis linorder_neqE_nat unsigned_word_eqI)
  then show ?case
  proof cases
    case 1
    with less [OF 1 la, of bs] 4 show ?thesis by (simp add: cmp_def cmp_then_def be_nat_Cons word_less_nat_alt)
  next
    case 2
    with 4 show ?thesis by (simp add: cmp_def cmp_then_def be_nat_Cons)
  next
    case 3
    with less [OF 3 lb, of as] 4 show ?thesis by (auto simp: cmp_def cmp_then_def be_nat_Cons word_less_nat_alt)
  qed
qed (simp_all add: cmp_def)

lemma be_nat_shorter:
  assumes "length a < length b" "b \<noteq> [] \<longrightarrow> hd b \<noteq> 0"
  shows "be_nat a < be_nat b"
proof -
  obtain x bs where b: "b = x # bs" "x \<noteq> 0" using assms by (cases b) auto
  have "be_nat a < 256 ^ length a" by (rule be_nat_bound)
  also have "(256::nat) ^ length a \<le> 256 ^ length bs" using assms(1) b by (intro power_increasing) simp_all
  also have "\<dots> \<le> be_nat b" unfolding b(1) using b(2) by (rule be_nat_stripped_ge)
  finally show ?thesis .
qed

lemma raw_bigint_cmp_be_nat: "raw_bigint_cmp a b = cmp (be_nat a) (be_nat b)"
proof -
  let ?a = "dropWhile (\<lambda>x. x = 0) a" and ?b = "dropWhile (\<lambda>x. x = 0) b"
  have hd: "?a \<noteq> [] \<longrightarrow> hd ?a \<noteq> 0" "?b \<noteq> [] \<longrightarrow> hd ?b \<noteq> 0"
    using hd_dropWhile [of "\<lambda>x. x = 0"] by blast+
  consider "length ?a < length ?b" | "length ?a = length ?b" | "length ?b < length ?a" by linarith
  then show ?thesis
    using be_nat_shorter [OF _ hd(2), of ?a] be_nat_shorter [OF _ hd(1), of ?b] slice_cmp_be_nat [of ?a ?b]
    by cases (auto simp: raw_bigint_cmp_def cmp_def cmp_then_def be_nat_dropWhile)
qed

section \<open>Theorems\<close>

text \<open>
  \<open>MPI::parse\<close> accepts exactly the serializations of integers without leading zeros of at
  most 65535 bits, and what it accepts it returns: unused bits that are set, a bit count that
  is too large or leading zero octets are refused.
\<close>

theorem mpi_parse_iff:
  "MPI_parse bs = Inr (m, rest) \<longleftrightarrow> MPI_stripped m \<and> MPI_bits m < 2 ^ 16 \<and> bs = MPI_serialize m @ rest"
  by (simp add: MPI_parse_eq_Inr MPI_ok_def)

text \<open>
  \<open>MPI::new\<close> keeps the number, \<open>bits\<close> is its length in binary, and \<open>value_padded\<close>
  returns the same number in exactly the requested number of octets, failing just when it does not fit.
\<close>

theorem mpi_new_number:
  "be_nat (MPI_value (MPI_new v)) = be_nat v \<and> be_nat v < 2 ^ MPI_bits (MPI_new v)
    \<and> (be_nat v = 0 \<or> 2 ^ (MPI_bits (MPI_new v) - 1) \<le> be_nat v)
    \<and> (MPI_is_zero (MPI_new v) \<longleftrightarrow> be_nat v = 0)
    \<and> (case MPI_value_padded (MPI_new v) to of
         Inr p \<Rightarrow> length p = to \<and> be_nat p = be_nat v
       | Inl e \<Rightarrow> e = Err InvalidOperation \<and> to < length (MPI_value (MPI_new v)))"
proof -
  let ?m = "MPI_new v"
  have val: "be_nat (MPI_value ?m) = be_nat v"
    by (simp add: MPI_new_def trim_leading_zeros_dropWhile be_nat_dropWhile)
  have pad: "case MPI_value_padded ?m to of Inr p \<Rightarrow> length p = to \<and> be_nat p = be_nat v
       | Inl e \<Rightarrow> e = Err InvalidOperation \<and> to < length (MPI_value ?m)"
    using val by (simp add: MPI_value_padded_def pad_def be_nat_replicate_0)
  show ?thesis
  proof (cases "MPI_value ?m")
    case Nil
    with val pad show ?thesis by (simp add: MPI_bits_def MPI_is_zero_def)
  next
    case (Cons b t)
    have b: "b \<noteq> 0" using MPI_new_stripped [of v] Cons by (simp add: MPI_stripped_def)
    have bits: "MPI_bits ?m = 8 * length t + bit_length b"
      using MPI_bits_stripped(1) [OF Cons b] by (simp add: bit_length_u8)
    have p: "(2::nat) ^ (8 * length t) = 256 ^ length t" by (simp add: power_mult)
    have bl: "bit_length b \<noteq> 0" using bit_length_le_iff [of b 0] b by (simp add: unat_eq_zero)
    have num: "be_nat v = unat b * 256 ^ length t + be_nat t" using val Cons by (simp add: be_nat_Cons)
    have "Suc (unat b) * 256 ^ length t \<le> 2 ^ bit_length b * 256 ^ length t"
      using unat_less_bit_length [of b] by (intro mult_le_mono1) simp
    moreover have "(2::nat) ^ MPI_bits ?m = 2 ^ bit_length b * 256 ^ length t"
      unfolding bits power_add p by (rule mult.commute)
    ultimately have up: "be_nat v < 2 ^ MPI_bits ?m"
      using num be_nat_bound [of t] by simp
    have "2 ^ (bit_length b - 1) * 256 ^ length t \<le> unat b * 256 ^ length t"
      using bit_length_unat_ge [OF b] by (rule mult_le_mono1)
    moreover have "MPI_bits ?m - 1 = 8 * length t + (bit_length b - 1)" using bits bl by simp
    ultimately have lo: "2 ^ (MPI_bits ?m - 1) \<le> be_nat v"
      unfolding num by (simp only: power_add p mult.commute [of "256 ^ length t"])
    have "0 < be_nat v" using lo by (rule less_le_trans [rotated]) simp
    with val pad up lo Cons show ?thesis by (simp add: MPI_is_zero_def)
  qed
qed

text \<open>
  C23. \<open>raw_bigint_cmp\<close> compares byte strings of any length, with or without leading zeros, as
  the numbers they stand for, and \<open>rsa_sort_raw_pq\<close> returns its arguments with the smaller
  number first.
\<close>

theorem raw_bigint_cmp_numeric:
  "raw_bigint_cmp a b = cmp (be_nat a) (be_nat b)
    \<and> rsa_sort_raw_pq a b = (if be_nat a \<le> be_nat b then (a, b) else (b, a))"
  by (auto simp: raw_bigint_cmp_be_nat rsa_sort_raw_pq_def cmp_def)

text \<open>
  A point encoded with \<open>new_point\<close> for a curve's field size and decoded with
  \<open>decode_point\<close> gives back both coordinates, padded to the size of the field; coordinates
  that fit never abort.
\<close>

theorem point_roundtrip:
  assumes "field_size c = Inr n" "c \<notin> {Curve.Ed25519, Curve.Cv25519}" "curve_bits c = Inr bits"
    and "length x \<le> n" "length y \<le> n"
  shows "\<exists>m. MPI_new_point x y bits = Inr m
    \<and> MPI_decode_point m c = Inr (replicate (n - length x) 0 @ x, replicate (n - length y) 0 @ y)"
proof -
  have sz: "(if bits mod 8 > 0 then 1 else 0) + bits div 8 = n"
    using assms(1,3) by (cases c) (auto simp: field_size_def curve_bits_def)
  have nu: "\<forall>u. c \<noteq> Curve.Unknown u" using assms(1) by (auto simp: field_size_def curve_bits_def)
  let ?v = "0x04 # replicate (n - length x) 0 @ x @ replicate (n - length y) 0 @ (y :: bytes)"
  have "MPI_new_point x y bits = Inr (MPI_new ?v)"
    using assms(4,5) unfolding MPI_new_point_def new_point_common_def Let_def sz by simp
  moreover have "MPI_value (MPI_new ?v) = ?v" by (simp add: MPI_new_def trim_leading_zeros_id)
  moreover have "decode_point_common ?v c = Inr (replicate (n - length x) 0 @ x, replicate (n - length y) 0 @ y)"
    using assms nu by (cases c) (simp_all add: decode_point_common_def)
  ultimately show ?thesis by (simp add: MPI_decode_point_def)
qed

theorem point_roundtrip_witness:
  "\<exists>m. MPI_new_point [1] [2, 3] 256 = Inr m
    \<and> MPI_decode_point m Curve.NistP256 =
        Inr (replicate (32 - length [1 :: u8]) 0 @ [1], replicate (32 - length [2 :: u8, 3]) 0 @ [2, 3])"
  by (rule point_roundtrip) (simp_all add: field_size_def curve_bits_def)

end
