(* ===== verification/Material.thy ===== *)
theory Material
  imports Mpi
begin

text \<open>
  Public keys, secret keys, ciphertexts and signatures: the enums of \<open>crypto/mpi.rs\<close>, the
  parsers of \<open>parse/mpis.rs\<close> and the writers of \<open>serialize.rs\<close>.

  The octets of an algorithm the crate does not know are read as integers for as long as they are
  well-formed ones; the rest is kept as it is.
\<close>

section \<open>Fields\<close>

definition parse_u8 :: "u8 reader" where
  "parse_u8 bs = read_u8 bs"

definition parse_bytes :: "nat \<Rightarrow> bytes reader" where
  "parse_bytes amount bs = data_consume_hard amount bs"

definition parse_bytes_into :: "nat \<Rightarrow> bytes reader" where
  "parse_bytes_into amount bs = data_consume_hard amount bs"

definition parse_bytes_eof :: "bytes reader" where
  "parse_bytes_eof bs = Inr (bs, [])"

text \<open>A length octet followed by that many octets, as the parsers spell it out for each field.\<close>

definition parse_bytes_u8_len :: "bytes reader" where
  "parse_bytes_u8_len bs = and_then (parse_u8 bs) (\<lambda>(len, bs). parse_bytes (unat len) bs)"

definition write_field_with_u8_size :: "bytes \<Rightarrow> bytes res" where
  "write_field_with_u8_size buf =
     (if length buf > 255 then Inl (Err InvalidArgument) else Inr (word_of_nat (length buf) # buf))"

definition curve_ok :: "Curve \<Rightarrow> bool" where
  "curve_ok curve \<longleftrightarrow> from_oid (oid curve) = curve \<and> length (oid curve) < 256"

lemma MPI_parse_consumes: "MPI_parse bs = Inr (m, rest) \<Longrightarrow> length rest < length bs"
  by (simp add: MPI_parse_eq_Inr MPI_serialize_def)

lemma ProtectedMPI_parse_consumes: "ProtectedMPI_parse bs = Inr (m, rest) \<Longrightarrow> length rest < length bs"
  by (simp add: ProtectedMPI_parse_eq_Inr MPI_serialize_def)

function mpis_loop :: "bytes \<Rightarrow> MPI list \<times> bytes" where
  "mpis_loop bs =
     (case MPI_parse bs of
        Inl _ \<Rightarrow> ([], bs)
      | Inr (m, bs') \<Rightarrow> (case mpis_loop bs' of (ms, rest) \<Rightarrow> (m # ms, rest)))"
  by pat_completeness auto
termination by (relation "measure length") (auto dest: MPI_parse_consumes)

function protected_mpis_loop :: "bytes \<Rightarrow> ProtectedMPI list \<times> bytes" where
  "protected_mpis_loop bs =
     (case ProtectedMPI_parse bs of
        Inl _ \<Rightarrow> ([], bs)
      | Inr (m, bs') \<Rightarrow> (case protected_mpis_loop bs' of (ms, rest) \<Rightarrow> (m # ms, rest)))"
  by pat_completeness auto
termination by (relation "measure length") (auto dest: ProtectedMPI_parse_consumes)

declare mpis_loop.simps [simp del] protected_mpis_loop.simps [simp del]

section \<open>Public keys\<close>

datatype PublicKey =
    RSA MPI MPI
  | DSA MPI MPI MPI MPI
  | ElGamal MPI MPI MPI
  | EdDSA Curve MPI
  | ECDSA Curve MPI
  | ECDH Curve MPI HashAlgorithm SymmetricAlgorithm
  | X25519 bytes
  | X448 bytes
  | Ed25519 bytes
  | Ed448 bytes
  | MLDSA65_Ed25519 bytes bytes
  | MLDSA87_Ed448 bytes bytes
  | SLHDSA128s bytes
  | SLHDSA128f bytes
  | SLHDSA256s bytes
  | MLKEM768_X25519 bytes bytes
  | MLKEM1024_X448 bytes bytes
  | Unknown "MPI list" bytes

definition PublicKey_parse :: "PublicKeyAlgorithm \<Rightarrow> PublicKey reader" where
  "PublicKey_parse algo bs =
     (case algo of
        PublicKeyAlgorithm.RSAEncryptSign \<Rightarrow>
          and_then (MPI_parse bs) (\<lambda>(n, bs).
          and_then (MPI_parse bs) (\<lambda>(e, bs).
          Inr (PublicKey.RSA e n, bs)))
      | PublicKeyAlgorithm.RSAEncrypt \<Rightarrow>
          and_then (MPI_parse bs) (\<lambda>(n, bs).
          and_then (MPI_parse bs) (\<lambda>(e, bs).
          Inr (PublicKey.RSA e n, bs)))
      | PublicKeyAlgorithm.RSASign \<Rightarrow>
          and_then (MPI_parse bs) (\<lambda>(n, bs).
          and_then (MPI_parse bs) (\<lambda>(e, bs).
          Inr (PublicKey.RSA e n, bs)))
      | PublicKeyAlgorithm.DSA \<Rightarrow>
          and_then (MPI_parse bs) (\<lambda>(p, bs).
          and_then (MPI_parse bs) (\<lambda>(q, bs).
          and_then (MPI_parse bs) (\<lambda>(g, bs).
          and_then (MPI_parse bs) (\<lambda>(y, bs).
          Inr (PublicKey.DSA p q g y, bs)))))
      | PublicKeyAlgorithm.ElGamalEncrypt \<Rightarrow>
          and_then (MPI_parse bs) (\<lambda>(p, bs).
          and_then (MPI_parse bs) (\<lambda>(g, bs).
          and_then (MPI_parse bs) (\<lambda>(y, bs).
          Inr (PublicKey.ElGamal p g y, bs))))
      | PublicKeyAlgorithm.ElGamalEncryptSign \<Rightarrow>
          and_then (MPI_parse bs) (\<lambda>(p, bs).
          and_then (MPI_parse bs) (\<lambda>(g, bs).
          and_then (MPI_parse bs) (\<lambda>(y, bs).
          Inr (PublicKey.ElGamal p g y, bs))))
      | PublicKeyAlgorithm.EdDSA \<Rightarrow>
          and_then (parse_bytes_u8_len bs) (\<lambda>(curve, bs).
          and_then (MPI_parse bs) (\<lambda>(q, bs).
          Inr (PublicKey.EdDSA (from_oid curve) q, bs)))
      | PublicKeyAlgorithm.ECDSA \<Rightarrow>
          and_then (parse_bytes_u8_len bs) (\<lambda>(curve, bs).
          and_then (MPI_parse bs) (\<lambda>(q, bs).
          Inr (PublicKey.ECDSA (from_oid curve) q, bs)))
      | PublicKeyAlgorithm.ECDH \<Rightarrow>
          and_then (parse_bytes_u8_len bs) (\<lambda>(curve, bs).
          and_then (MPI_parse bs) (\<lambda>(q, bs).
          and_then (parse_u8 bs) (\<lambda>(kdf_len, bs).
          if kdf_len \<noteq> 3 then Inl (Err MalformedPacket) else
          and_then (parse_u8 bs) (\<lambda>(reserved, bs).
          if reserved \<noteq> 1 then Inl (Err MalformedPacket) else
          and_then (parse_u8 bs) (\<lambda>(hash, bs).
          and_then (parse_u8 bs) (\<lambda>(symm, bs).
          Inr (PublicKey.ECDH (from_oid curve) q (HashAlgorithm_from_u8 hash) (SymmetricAlgorithm_from_u8 symm), bs)))))))
      | PublicKeyAlgorithm.X25519 \<Rightarrow>
          and_then (parse_bytes_into 32 bs) (\<lambda>(u, bs).
          Inr (PublicKey.X25519 u, bs))
      | PublicKeyAlgorithm.X448 \<Rightarrow>
          and_then (parse_bytes_into 56 bs) (\<lambda>(u, bs).
          Inr (PublicKey.X448 u, bs))
      | PublicKeyAlgorithm.Ed25519 \<Rightarrow>
          and_then (parse_bytes_into 32 bs) (\<lambda>(a, bs).
          Inr (PublicKey.Ed25519 a, bs))
      | PublicKeyAlgorithm.Ed448 \<Rightarrow>
          and_then (parse_bytes_into 57 bs) (\<lambda>(a, bs).
          Inr (PublicKey.Ed448 a, bs))
      | PublicKeyAlgorithm.MLDSA65_Ed25519 \<Rightarrow>
          and_then (parse_bytes_into 32 bs) (\<lambda>(eddsa, bs).
          and_then (parse_bytes_into 1952 bs) (\<lambda>(mldsa, bs).
          Inr (PublicKey.MLDSA65_Ed25519 eddsa mldsa, bs)))
      | PublicKeyAlgorithm.MLDSA87_Ed448 \<Rightarrow>
          and_then (parse_bytes_into 57 bs) (\<lambda>(eddsa, bs).
          and_then (parse_bytes_into 2592 bs) (\<lambda>(mldsa, bs).
          Inr (PublicKey.MLDSA87_Ed448 eddsa mldsa, bs)))
      | PublicKeyAlgorithm.SLHDSA128s \<Rightarrow>
          and_then (parse_bytes_into 32 bs) (\<lambda>(public, bs).
          Inr (PublicKey.SLHDSA128s public, bs))
      | PublicKeyAlgorithm.SLHDSA128f \<Rightarrow>
          and_then (parse_bytes_into 32 bs) (\<lambda>(public, bs).
          Inr (PublicKey.SLHDSA128f public, bs))
      | PublicKeyAlgorithm.SLHDSA256s \<Rightarrow>
          and_then (parse_bytes_into 64 bs) (\<lambda>(public, bs).
          Inr (PublicKey.SLHDSA256s public, bs))
      | PublicKeyAlgorithm.MLKEM768_X25519 \<Rightarrow>
          and_then (parse_bytes_into 32 bs) (\<lambda>(ecdh, bs).
          and_then (parse_bytes_into 1184 bs) (\<lambda>(mlkem, bs).
          Inr (PublicKey.MLKEM768_X25519 ecdh mlkem, bs)))
      | PublicKeyAlgorithm.MLKEM1024_X448 \<Rightarrow>
          and_then (parse_bytes_into 56 bs) (\<lambda>(ecdh, bs).
          and_then (parse_bytes_into 1568 bs) (\<lambda>(mlkem, bs).
          Inr (PublicKey.MLKEM1024_X448 ecdh mlkem, bs)))
      | PublicKeyAlgorithm.Unknown _ \<Rightarrow>
          (case mpis_loop bs of (mpis, bs) \<Rightarrow>
             and_then (parse_bytes_eof bs) (\<lambda>(rest, bs). Inr (PublicKey.Unknown mpis rest, bs)))
      | PublicKeyAlgorithm.Private _ \<Rightarrow>
          (case mpis_loop bs of (mpis, bs) \<Rightarrow>
             and_then (parse_bytes_eof bs) (\<lambda>(rest, bs). Inr (PublicKey.Unknown mpis rest, bs))))"

definition PublicKey_serialize :: "PublicKey \<Rightarrow> bytes res" where
  "PublicKey_serialize pk =
     (case pk of
        PublicKey.RSA e n \<Rightarrow> Inr (MPI_serialize n @ MPI_serialize e)
      | PublicKey.DSA p q g y \<Rightarrow> Inr (MPI_serialize p @ MPI_serialize q @ MPI_serialize g @ MPI_serialize y)
      | PublicKey.ElGamal p g y \<Rightarrow> Inr (MPI_serialize p @ MPI_serialize g @ MPI_serialize y)
      | PublicKey.EdDSA curve q \<Rightarrow> and_then (write_field_with_u8_size (oid curve)) (\<lambda>field. Inr (field @ MPI_serialize q))
      | PublicKey.ECDSA curve q \<Rightarrow> and_then (write_field_with_u8_size (oid curve)) (\<lambda>field. Inr (field @ MPI_serialize q))
      | PublicKey.ECDH curve q hash symm \<Rightarrow> and_then (write_field_with_u8_size (oid curve)) (\<lambda>field. Inr (field @ MPI_serialize q @ [3, 1, u8_from_HashAlgorithm hash, u8_from_SymmetricAlgorithm symm]))
      | PublicKey.X25519 u \<Rightarrow> Inr (u)
      | PublicKey.X448 u \<Rightarrow> Inr (u)
      | PublicKey.Ed25519 a \<Rightarrow> Inr (a)
      | PublicKey.Ed448 a \<Rightarrow> Inr (a)
      | PublicKey.MLDSA65_Ed25519 eddsa mldsa \<Rightarrow> Inr (eddsa @ mldsa)
      | PublicKey.MLDSA87_Ed448 eddsa mldsa \<Rightarrow> Inr (eddsa @ mldsa)
      | PublicKey.SLHDSA128s public \<Rightarrow> Inr (public)
      | PublicKey.SLHDSA128f public \<Rightarrow> Inr (public)
      | PublicKey.SLHDSA256s public \<Rightarrow> Inr (public)
      | PublicKey.MLKEM768_X25519 ecdh mlkem \<Rightarrow> Inr (ecdh @ mlkem)
      | PublicKey.MLKEM1024_X448 ecdh mlkem \<Rightarrow> Inr (ecdh @ mlkem)
      | PublicKey.Unknown mpis rest \<Rightarrow> Inr (concat (map MPI_serialize mpis) @ rest))"

definition PublicKey_serialized_len :: "PublicKey \<Rightarrow> nat" where
  "PublicKey_serialized_len pk =
     (case pk of
        PublicKey.RSA e n \<Rightarrow> MPI_serialized_len n + MPI_serialized_len e
      | PublicKey.DSA p q g y \<Rightarrow> MPI_serialized_len p + MPI_serialized_len q + MPI_serialized_len g + MPI_serialized_len y
      | PublicKey.ElGamal p g y \<Rightarrow> MPI_serialized_len p + MPI_serialized_len g + MPI_serialized_len y
      | PublicKey.EdDSA curve q \<Rightarrow> 1 + length (oid curve) + MPI_serialized_len q
      | PublicKey.ECDSA curve q \<Rightarrow> 1 + length (oid curve) + MPI_serialized_len q
      | PublicKey.ECDH curve q hash symm \<Rightarrow> 1 + length (oid curve) + MPI_serialized_len q + 4
      | PublicKey.X25519 u \<Rightarrow> 32
      | PublicKey.X448 u \<Rightarrow> 56
      | PublicKey.Ed25519 a \<Rightarrow> 32
      | PublicKey.Ed448 a \<Rightarrow> 57
      | PublicKey.MLDSA65_Ed25519 eddsa mldsa \<Rightarrow> 32 + 1952
      | PublicKey.MLDSA87_Ed448 eddsa mldsa \<Rightarrow> 57 + 2592
      | PublicKey.SLHDSA128s public \<Rightarrow> 32
      | PublicKey.SLHDSA128f public \<Rightarrow> 32
      | PublicKey.SLHDSA256s public \<Rightarrow> 64
      | PublicKey.MLKEM768_X25519 ecdh mlkem \<Rightarrow> 32 + 1184
      | PublicKey.MLKEM1024_X448 ecdh mlkem \<Rightarrow> 56 + 1568
      | PublicKey.Unknown mpis rest \<Rightarrow> sum_list (map MPI_serialized_len mpis) + length rest)"

definition PublicKey_algo :: "PublicKey \<Rightarrow> PublicKeyAlgorithm option" where
  "PublicKey_algo pk =
     (case pk of
        PublicKey.RSA _ _ \<Rightarrow> Some PublicKeyAlgorithm.RSAEncryptSign
      | PublicKey.DSA _ _ _ _ \<Rightarrow> Some PublicKeyAlgorithm.DSA
      | PublicKey.ElGamal _ _ _ \<Rightarrow> Some PublicKeyAlgorithm.ElGamalEncrypt
      | PublicKey.EdDSA _ _ \<Rightarrow> Some PublicKeyAlgorithm.EdDSA
      | PublicKey.ECDSA _ _ \<Rightarrow> Some PublicKeyAlgorithm.ECDSA
      | PublicKey.ECDH _ _ _ _ \<Rightarrow> Some PublicKeyAlgorithm.ECDH
      | PublicKey.X25519 _ \<Rightarrow> Some PublicKeyAlgorithm.X25519
      | PublicKey.X448 _ \<Rightarrow> Some PublicKeyAlgorithm.X448
      | PublicKey.Ed25519 _ \<Rightarrow> Some PublicKeyAlgorithm.Ed25519
      | PublicKey.Ed448 _ \<Rightarrow> Some PublicKeyAlgorithm.Ed448
      | PublicKey.MLDSA65_Ed25519 _ _ \<Rightarrow> Some PublicKeyAlgorithm.MLDSA65_Ed25519
      | PublicKey.MLDSA87_Ed448 _ _ \<Rightarrow> Some PublicKeyAlgorithm.MLDSA87_Ed448
      | PublicKey.SLHDSA128s _ \<Rightarrow> Some PublicKeyAlgorithm.SLHDSA128s
      | PublicKey.SLHDSA128f _ \<Rightarrow> Some PublicKeyAlgorithm.SLHDSA128f
      | PublicKey.SLHDSA256s _ \<Rightarrow> Some PublicKeyAlgorithm.SLHDSA256s
      | PublicKey.MLKEM768_X25519 _ _ \<Rightarrow> Some PublicKeyAlgorithm.MLKEM768_X25519
      | PublicKey.MLKEM1024_X448 _ _ \<Rightarrow> Some PublicKeyAlgorithm.MLKEM1024_X448
      | PublicKey.Unknown _ _ \<Rightarrow> None)"

definition PublicKey_wf :: "PublicKey \<Rightarrow> bool" where
  "PublicKey_wf pk =
     (case pk of
        PublicKey.RSA e n \<Rightarrow> MPI_ok n \<and> MPI_ok e
      | PublicKey.DSA p q g y \<Rightarrow> MPI_ok p \<and> MPI_ok q \<and> MPI_ok g \<and> MPI_ok y
      | PublicKey.ElGamal p g y \<Rightarrow> MPI_ok p \<and> MPI_ok g \<and> MPI_ok y
      | PublicKey.EdDSA curve q \<Rightarrow> curve_ok curve \<and> MPI_ok q
      | PublicKey.ECDSA curve q \<Rightarrow> curve_ok curve \<and> MPI_ok q
      | PublicKey.ECDH curve q hash symm \<Rightarrow> curve_ok curve \<and> MPI_ok q \<and> HashAlgorithm_canonical hash \<and> SymmetricAlgorithm_canonical symm
      | PublicKey.X25519 u \<Rightarrow> length u = 32
      | PublicKey.X448 u \<Rightarrow> length u = 56
      | PublicKey.Ed25519 a \<Rightarrow> length a = 32
      | PublicKey.Ed448 a \<Rightarrow> length a = 57
      | PublicKey.MLDSA65_Ed25519 eddsa mldsa \<Rightarrow> length eddsa = 32 \<and> length mldsa = 1952
      | PublicKey.MLDSA87_Ed448 eddsa mldsa \<Rightarrow> length eddsa = 57 \<and> length mldsa = 2592
      | PublicKey.SLHDSA128s public \<Rightarrow> length public = 32
      | PublicKey.SLHDSA128f public \<Rightarrow> length public = 32
      | PublicKey.SLHDSA256s public \<Rightarrow> length public = 64
      | PublicKey.MLKEM768_X25519 ecdh mlkem \<Rightarrow> length ecdh = 32 \<and> length mlkem = 1184
      | PublicKey.MLKEM1024_X448 ecdh mlkem \<Rightarrow> length ecdh = 56 \<and> length mlkem = 1568
      | PublicKey.Unknown mpis rest \<Rightarrow> list_all MPI_ok mpis \<and> \<not> is_ok (MPI_parse rest))"

section \<open>Secret keys\<close>

datatype SecretKeyMaterial =
    RSA ProtectedMPI ProtectedMPI ProtectedMPI ProtectedMPI
  | DSA ProtectedMPI
  | ElGamal ProtectedMPI
  | EdDSA ProtectedMPI
  | ECDSA ProtectedMPI
  | ECDH ProtectedMPI
  | X25519 bytes
  | X448 bytes
  | Ed25519 bytes
  | Ed448 bytes
  | MLDSA65_Ed25519 bytes bytes
  | MLDSA87_Ed448 bytes bytes
  | SLHDSA128s bytes
  | SLHDSA128f bytes
  | SLHDSA256s bytes
  | MLKEM768_X25519 bytes bytes
  | MLKEM1024_X448 bytes bytes
  | Unknown "ProtectedMPI list" bytes

definition SecretKeyMaterial_parse_mpis :: "PublicKeyAlgorithm \<Rightarrow> SecretKeyMaterial reader" where
  "SecretKeyMaterial_parse_mpis algo bs =
     (case algo of
        PublicKeyAlgorithm.RSAEncryptSign \<Rightarrow>
          and_then (ProtectedMPI_parse bs) (\<lambda>(d, bs).
          and_then (ProtectedMPI_parse bs) (\<lambda>(p, bs).
          and_then (ProtectedMPI_parse bs) (\<lambda>(q, bs).
          and_then (ProtectedMPI_parse bs) (\<lambda>(u, bs).
          Inr (SecretKeyMaterial.RSA d p q u, bs)))))
      | PublicKeyAlgorithm.RSAEncrypt \<Rightarrow>
          and_then (ProtectedMPI_parse bs) (\<lambda>(d, bs).
          and_then (ProtectedMPI_parse bs) (\<lambda>(p, bs).
          and_then (ProtectedMPI_parse bs) (\<lambda>(q, bs).
          and_then (ProtectedMPI_parse bs) (\<lambda>(u, bs).
          Inr (SecretKeyMaterial.RSA d p q u, bs)))))
      | PublicKeyAlgorithm.RSASign \<Rightarrow>
          and_then (ProtectedMPI_parse bs) (\<lambda>(d, bs).
          and_then (ProtectedMPI_parse bs) (\<lambda>(p, bs).
          and_then (ProtectedMPI_parse bs) (\<lambda>(q, bs).
          and_then (ProtectedMPI_parse bs) (\<lambda>(u, bs).
          Inr (SecretKeyMaterial.RSA d p q u, bs)))))
      | PublicKeyAlgorithm.DSA \<Rightarrow>
          and_then (ProtectedMPI_parse bs) (\<lambda>(x, bs).
          Inr (SecretKeyMaterial.DSA x, bs))
      | PublicKeyAlgorithm.ElGamalEncrypt \<Rightarrow>
          and_then (ProtectedMPI_parse bs) (\<lambda>(x, bs).
          Inr (SecretKeyMaterial.ElGamal x, bs))
      | PublicKeyAlgorithm.ElGamalEncryptSign \<Rightarrow>
          and_then (ProtectedMPI_parse bs) (\<lambda>(x, bs).
          Inr (SecretKeyMaterial.ElGamal x, bs))
      | PublicKeyAlgorithm.EdDSA \<Rightarrow>
          and_then (ProtectedMPI_parse bs) (\<lambda>(scalar, bs).
          Inr (SecretKeyMaterial.EdDSA scalar, bs))
      | PublicKeyAlgorithm.ECDSA \<Rightarrow>
          and_then (ProtectedMPI_parse bs) (\<lambda>(scalar, bs).
          Inr (SecretKeyMaterial.ECDSA scalar, bs))
      | PublicKeyAlgorithm.ECDH \<Rightarrow>
          and_then (ProtectedMPI_parse bs) (\<lambda>(scalar, bs).
          Inr (SecretKeyMaterial.ECDH scalar, bs))
      | PublicKeyAlgorithm.X25519 \<Rightarrow>
          and_then (parse_bytes_into 32 bs) (\<lambda>(x, bs).
          Inr (SecretKeyMaterial.X25519 x, bs))
      | PublicKeyAlgorithm.X448 \<Rightarrow>
          and_then (parse_bytes_into 56 bs) (\<lambda>(x, bs).
          Inr (SecretKeyMaterial.X448 x, bs))
      | PublicKeyAlgorithm.Ed25519 \<Rightarrow>
          and_then (parse_bytes_into 32 bs) (\<lambda>(x, bs).
          Inr (SecretKeyMaterial.Ed25519 x, bs))
      | PublicKeyAlgorithm.Ed448 \<Rightarrow>
          and_then (parse_bytes_into 57 bs) (\<lambda>(x, bs).
          Inr (SecretKeyMaterial.Ed448 x, bs))
      | PublicKeyAlgorithm.MLDSA65_Ed25519 \<Rightarrow>
          and_then (parse_bytes_into 32 bs) (\<lambda>(eddsa, bs).
          and_then (parse_bytes_into 32 bs) (\<lambda>(mldsa, bs).
          Inr (SecretKeyMaterial.MLDSA65_Ed25519 eddsa mldsa, bs)))
      | PublicKeyAlgorithm.MLDSA87_Ed448 \<Rightarrow>
          and_then (parse_bytes_into 57 bs) (\<lambda>(eddsa, bs).
          and_then (parse_bytes_into 32 bs) (\<lambda>(mldsa, bs).
          Inr (SecretKeyMaterial.MLDSA87_Ed448 eddsa mldsa, bs)))
      | PublicKeyAlgorithm.SLHDSA128s \<Rightarrow>
          and_then (parse_bytes_into 64 bs) (\<lambda>(secret, bs).
          Inr (SecretKeyMaterial.SLHDSA128s secret, bs))
      | PublicKeyAlgorithm.SLHDSA128f \<Rightarrow>
          and_then (parse_bytes_into 64 bs) (\<lambda>(secret, bs).
          Inr (SecretKeyMaterial.SLHDSA128f secret, bs))
      | PublicKeyAlgorithm.SLHDSA256s \<Rightarrow>
          and_then (parse_bytes_into 128 bs) (\<lambda>(secret, bs).
          Inr (SecretKeyMaterial.SLHDSA256s secret, bs))
      | PublicKeyAlgorithm.MLKEM768_X25519 \<Rightarrow>
          and_then (parse_bytes_into 32 bs) (\<lambda>(ecdh, bs).
          and_then (parse_bytes_into 64 bs) (\<lambda>(mlkem, bs).
          Inr (SecretKeyMaterial.MLKEM768_X25519 ecdh mlkem, bs)))
      | PublicKeyAlgorithm.MLKEM1024_X448 \<Rightarrow>
          and_then (parse_bytes_into 56 bs) (\<lambda>(ecdh, bs).
          and_then (parse_bytes_into 64 bs) (\<lambda>(mlkem, bs).
          Inr (SecretKeyMaterial.MLKEM1024_X448 ecdh mlkem, bs)))
      | PublicKeyAlgorithm.Unknown _ \<Rightarrow>
          (case protected_mpis_loop bs of (mpis, bs) \<Rightarrow>
             and_then (parse_bytes_eof bs) (\<lambda>(rest, bs). Inr (SecretKeyMaterial.Unknown mpis rest, bs)))
      | PublicKeyAlgorithm.Private _ \<Rightarrow>
          (case protected_mpis_loop bs of (mpis, bs) \<Rightarrow>
             and_then (parse_bytes_eof bs) (\<lambda>(rest, bs). Inr (SecretKeyMaterial.Unknown mpis rest, bs))))"

definition SecretKeyMaterial_serialize :: "SecretKeyMaterial \<Rightarrow> bytes res" where
  "SecretKeyMaterial_serialize sk =
     (case sk of
        SecretKeyMaterial.RSA d p q u \<Rightarrow> Inr (MPI_serialize d @ MPI_serialize p @ MPI_serialize q @ MPI_serialize u)
      | SecretKeyMaterial.DSA x \<Rightarrow> Inr (MPI_serialize x)
      | SecretKeyMaterial.ElGamal x \<Rightarrow> Inr (MPI_serialize x)
      | SecretKeyMaterial.EdDSA scalar \<Rightarrow> Inr (MPI_serialize scalar)
      | SecretKeyMaterial.ECDSA scalar \<Rightarrow> Inr (MPI_serialize scalar)
      | SecretKeyMaterial.ECDH scalar \<Rightarrow> Inr (MPI_serialize scalar)
      | SecretKeyMaterial.X25519 x \<Rightarrow> Inr (x)
      | SecretKeyMaterial.X448 x \<Rightarrow> Inr (x)
      | SecretKeyMaterial.Ed25519 x \<Rightarrow> Inr (x)
      | SecretKeyMaterial.Ed448 x \<Rightarrow> Inr (x)
      | SecretKeyMaterial.MLDSA65_Ed25519 eddsa mldsa \<Rightarrow> Inr (eddsa @ mldsa)
      | SecretKeyMaterial.MLDSA87_Ed448 eddsa mldsa \<Rightarrow> Inr (eddsa @ mldsa)
      | SecretKeyMaterial.SLHDSA128s secret \<Rightarrow> Inr (secret)
      | SecretKeyMaterial.SLHDSA128f secret \<Rightarrow> Inr (secret)
      | SecretKeyMaterial.SLHDSA256s secret \<Rightarrow> Inr (secret)
      | SecretKeyMaterial.MLKEM768_X25519 ecdh mlkem \<Rightarrow> Inr (ecdh @ mlkem)
      | SecretKeyMaterial.MLKEM1024_X448 ecdh mlkem \<Rightarrow> Inr (ecdh @ mlkem)
      | SecretKeyMaterial.Unknown mpis rest \<Rightarrow> Inr (concat (map MPI_serialize mpis) @ rest))"

definition SecretKeyMaterial_serialized_len :: "SecretKeyMaterial \<Rightarrow> nat" where
  "SecretKeyMaterial_serialized_len sk =
     (case sk of
        SecretKeyMaterial.RSA d p q u \<Rightarrow> MPI_serialized_len d + MPI_serialized_len p + MPI_serialized_len q + MPI_serialized_len u
      | SecretKeyMaterial.DSA x \<Rightarrow> MPI_serialized_len x
      | SecretKeyMaterial.ElGamal x \<Rightarrow> MPI_serialized_len x
      | SecretKeyMaterial.EdDSA scalar \<Rightarrow> MPI_serialized_len scalar
      | SecretKeyMaterial.ECDSA scalar \<Rightarrow> MPI_serialized_len scalar
      | SecretKeyMaterial.ECDH scalar \<Rightarrow> MPI_serialized_len scalar
      | SecretKeyMaterial.X25519 x \<Rightarrow> 32
      | SecretKeyMaterial.X448 x \<Rightarrow> 56
      | SecretKeyMaterial.Ed25519 x \<Rightarrow> 32
      | SecretKeyMaterial.Ed448 x \<Rightarrow> 57
      | SecretKeyMaterial.MLDSA65_Ed25519 eddsa mldsa \<Rightarrow> 32 + 32
      | SecretKeyMaterial.MLDSA87_Ed448 eddsa mldsa \<Rightarrow> 57 + 32
      | SecretKeyMaterial.SLHDSA128s secret \<Rightarrow> 64
      | SecretKeyMaterial.SLHDSA128f secret \<Rightarrow> 64
      | SecretKeyMaterial.SLHDSA256s secret \<Rightarrow> 128
      | SecretKeyMaterial.MLKEM768_X25519 ecdh mlkem \<Rightarrow> 32 + 64
      | SecretKeyMaterial.MLKEM1024_X448 ecdh mlkem \<Rightarrow> 56 + 64
      | SecretKeyMaterial.Unknown mpis rest \<Rightarrow> sum_list (map MPI_serialized_len mpis) + length rest)"

definition SecretKeyMaterial_algo :: "SecretKeyMaterial \<Rightarrow> PublicKeyAlgorithm option" where
  "SecretKeyMaterial_algo sk =
     (case sk of
        SecretKeyMaterial.RSA _ _ _ _ \<Rightarrow> Some PublicKeyAlgorithm.RSAEncryptSign
      | SecretKeyMaterial.DSA _ \<Rightarrow> Some PublicKeyAlgorithm.DSA
      | SecretKeyMaterial.ElGamal _ \<Rightarrow> Some PublicKeyAlgorithm.ElGamalEncrypt
      | SecretKeyMaterial.EdDSA _ \<Rightarrow> Some PublicKeyAlgorithm.EdDSA
      | SecretKeyMaterial.ECDSA _ \<Rightarrow> Some PublicKeyAlgorithm.ECDSA
      | SecretKeyMaterial.ECDH _ \<Rightarrow> Some PublicKeyAlgorithm.ECDH
      | SecretKeyMaterial.X25519 _ \<Rightarrow> Some PublicKeyAlgorithm.X25519
      | SecretKeyMaterial.X448 _ \<Rightarrow> Some PublicKeyAlgorithm.X448
      | SecretKeyMaterial.Ed25519 _ \<Rightarrow> Some PublicKeyAlgorithm.Ed25519
      | SecretKeyMaterial.Ed448 _ \<Rightarrow> Some PublicKeyAlgorithm.Ed448
      | SecretKeyMaterial.MLDSA65_Ed25519 _ _ \<Rightarrow> Some PublicKeyAlgorithm.MLDSA65_Ed25519
      | SecretKeyMaterial.MLDSA87_Ed448 _ _ \<Rightarrow> Some PublicKeyAlgorithm.MLDSA87_Ed448
      | SecretKeyMaterial.SLHDSA128s _ \<Rightarrow> Some PublicKeyAlgorithm.SLHDSA128s
      | SecretKeyMaterial.SLHDSA128f _ \<Rightarrow> Some PublicKeyAlgorithm.SLHDSA128f
      | SecretKeyMaterial.SLHDSA256s _ \<Rightarrow> Some PublicKeyAlgorithm.SLHDSA256s
      | SecretKeyMaterial.MLKEM768_X25519 _ _ \<Rightarrow> Some PublicKeyAlgorithm.MLKEM768_X25519
      | SecretKeyMaterial.MLKEM1024_X448 _ _ \<Rightarrow> Some PublicKeyAlgorithm.MLKEM1024_X448
      | SecretKeyMaterial.Unknown _ _ \<Rightarrow> None)"

definition SecretKeyMaterial_wf :: "SecretKeyMaterial \<Rightarrow> bool" where
  "SecretKeyMaterial_wf sk =
     (case sk of
        SecretKeyMaterial.RSA d p q u \<Rightarrow> MPI_ok d \<and> MPI_ok p \<and> MPI_ok q \<and> MPI_ok u
      | SecretKeyMaterial.DSA x \<Rightarrow> MPI_ok x
      | SecretKeyMaterial.ElGamal x \<Rightarrow> MPI_ok x
      | SecretKeyMaterial.EdDSA scalar \<Rightarrow> MPI_ok scalar
      | SecretKeyMaterial.ECDSA scalar \<Rightarrow> MPI_ok scalar
      | SecretKeyMaterial.ECDH scalar \<Rightarrow> MPI_ok scalar
      | SecretKeyMaterial.X25519 x \<Rightarrow> length x = 32
      | SecretKeyMaterial.X448 x \<Rightarrow> length x = 56
      | SecretKeyMaterial.Ed25519 x \<Rightarrow> length x = 32
      | SecretKeyMaterial.Ed448 x \<Rightarrow> length x = 57
      | SecretKeyMaterial.MLDSA65_Ed25519 eddsa mldsa \<Rightarrow> length eddsa = 32 \<and> length mldsa = 32
      | SecretKeyMaterial.MLDSA87_Ed448 eddsa mldsa \<Rightarrow> length eddsa = 57 \<and> length mldsa = 32
      | SecretKeyMaterial.SLHDSA128s secret \<Rightarrow> length secret = 64
      | SecretKeyMaterial.SLHDSA128f secret \<Rightarrow> length secret = 64
      | SecretKeyMaterial.SLHDSA256s secret \<Rightarrow> length secret = 128
      | SecretKeyMaterial.MLKEM768_X25519 ecdh mlkem \<Rightarrow> length ecdh = 32 \<and> length mlkem = 64
      | SecretKeyMaterial.MLKEM1024_X448 ecdh mlkem \<Rightarrow> length ecdh = 56 \<and> length mlkem = 64
      | SecretKeyMaterial.Unknown mpis rest \<Rightarrow> list_all MPI_ok mpis \<and> \<not> is_ok (ProtectedMPI_parse rest))"

section \<open>Ciphertexts\<close>

datatype Ciphertext =
    RSA MPI
  | ElGamal MPI MPI
  | ECDH MPI bytes
  | X25519 bytes bytes
  | X448 bytes bytes
  | MLKEM768_X25519 bytes bytes bytes
  | MLKEM1024_X448 bytes bytes bytes
  | Unknown "MPI list" bytes

definition Ciphertext_parse :: "PublicKeyAlgorithm \<Rightarrow> Ciphertext reader" where
  "Ciphertext_parse algo bs =
     (case algo of
        PublicKeyAlgorithm.RSAEncryptSign \<Rightarrow>
          and_then (MPI_parse bs) (\<lambda>(c, bs).
          Inr (Ciphertext.RSA c, bs))
      | PublicKeyAlgorithm.RSAEncrypt \<Rightarrow>
          and_then (MPI_parse bs) (\<lambda>(c, bs).
          Inr (Ciphertext.RSA c, bs))
      | PublicKeyAlgorithm.ElGamalEncrypt \<Rightarrow>
          and_then (MPI_parse bs) (\<lambda>(e, bs).
          and_then (MPI_parse bs) (\<lambda>(c, bs).
          Inr (Ciphertext.ElGamal e c, bs)))
      | PublicKeyAlgorithm.ElGamalEncryptSign \<Rightarrow>
          and_then (MPI_parse bs) (\<lambda>(e, bs).
          and_then (MPI_parse bs) (\<lambda>(c, bs).
          Inr (Ciphertext.ElGamal e c, bs)))
      | PublicKeyAlgorithm.ECDH \<Rightarrow>
          and_then (MPI_parse bs) (\<lambda>(e, bs).
          and_then (parse_bytes_u8_len bs) (\<lambda>(key, bs).
          Inr (Ciphertext.ECDH e key, bs)))
      | PublicKeyAlgorithm.X25519 \<Rightarrow>
          and_then (parse_bytes_into 32 bs) (\<lambda>(e, bs).
          and_then (parse_bytes_u8_len bs) (\<lambda>(key, bs).
          Inr (Ciphertext.X25519 e key, bs)))
      | PublicKeyAlgorithm.X448 \<Rightarrow>
          and_then (parse_bytes_into 56 bs) (\<lambda>(e, bs).
          and_then (parse_bytes_u8_len bs) (\<lambda>(key, bs).
          Inr (Ciphertext.X448 e key, bs)))
      | PublicKeyAlgorithm.MLKEM768_X25519 \<Rightarrow>
          and_then (parse_bytes_into 32 bs) (\<lambda>(ecdh, bs).
          and_then (parse_bytes_into 1088 bs) (\<lambda>(mlkem, bs).
          and_then (parse_bytes_u8_len bs) (\<lambda>(esk, bs).
          Inr (Ciphertext.MLKEM768_X25519 ecdh mlkem esk, bs))))
      | PublicKeyAlgorithm.MLKEM1024_X448 \<Rightarrow>
          and_then (parse_bytes_into 56 bs) (\<lambda>(ecdh, bs).
          and_then (parse_bytes_into 1568 bs) (\<lambda>(mlkem, bs).
          and_then (parse_bytes_u8_len bs) (\<lambda>(esk, bs).
          Inr (Ciphertext.MLKEM1024_X448 ecdh mlkem esk, bs))))
      | PublicKeyAlgorithm.Unknown _ \<Rightarrow>
          (case mpis_loop bs of (mpis, bs) \<Rightarrow>
             and_then (parse_bytes_eof bs) (\<lambda>(rest, bs). Inr (Ciphertext.Unknown mpis rest, bs)))
      | PublicKeyAlgorithm.Private _ \<Rightarrow>
          (case mpis_loop bs of (mpis, bs) \<Rightarrow>
             and_then (parse_bytes_eof bs) (\<lambda>(rest, bs). Inr (Ciphertext.Unknown mpis rest, bs)))
      | PublicKeyAlgorithm.RSASign \<Rightarrow> Inl (Err InvalidArgument)
      | PublicKeyAlgorithm.DSA \<Rightarrow> Inl (Err InvalidArgument)
      | PublicKeyAlgorithm.EdDSA \<Rightarrow> Inl (Err InvalidArgument)
      | PublicKeyAlgorithm.ECDSA \<Rightarrow> Inl (Err InvalidArgument)
      | PublicKeyAlgorithm.Ed25519 \<Rightarrow> Inl (Err InvalidArgument)
      | PublicKeyAlgorithm.Ed448 \<Rightarrow> Inl (Err InvalidArgument)
      | PublicKeyAlgorithm.MLDSA65_Ed25519 \<Rightarrow> Inl (Err InvalidArgument)
      | PublicKeyAlgorithm.MLDSA87_Ed448 \<Rightarrow> Inl (Err InvalidArgument)
      | PublicKeyAlgorithm.SLHDSA128s \<Rightarrow> Inl (Err InvalidArgument)
      | PublicKeyAlgorithm.SLHDSA128f \<Rightarrow> Inl (Err InvalidArgument)
      | PublicKeyAlgorithm.SLHDSA256s \<Rightarrow> Inl (Err InvalidArgument))"

definition Ciphertext_serialize :: "Ciphertext \<Rightarrow> bytes res" where
  "Ciphertext_serialize ct =
     (case ct of
        Ciphertext.RSA c \<Rightarrow> Inr (MPI_serialize c)
      | Ciphertext.ElGamal e c \<Rightarrow> Inr (MPI_serialize e @ MPI_serialize c)
      | Ciphertext.ECDH e key \<Rightarrow> and_then (write_field_with_u8_size key) (\<lambda>field. Inr (MPI_serialize e @ field))
      | Ciphertext.X25519 e key \<Rightarrow> and_then (write_field_with_u8_size key) (\<lambda>field. Inr (e @ field))
      | Ciphertext.X448 e key \<Rightarrow> and_then (write_field_with_u8_size key) (\<lambda>field. Inr (e @ field))
      | Ciphertext.MLKEM768_X25519 ecdh mlkem esk \<Rightarrow> and_then (write_field_with_u8_size esk) (\<lambda>field. Inr (ecdh @ mlkem @ field))
      | Ciphertext.MLKEM1024_X448 ecdh mlkem esk \<Rightarrow> and_then (write_field_with_u8_size esk) (\<lambda>field. Inr (ecdh @ mlkem @ field))
      | Ciphertext.Unknown mpis rest \<Rightarrow> Inr (concat (map MPI_serialize mpis) @ rest))"

definition Ciphertext_serialized_len :: "Ciphertext \<Rightarrow> nat" where
  "Ciphertext_serialized_len ct =
     (case ct of
        Ciphertext.RSA c \<Rightarrow> MPI_serialized_len c
      | Ciphertext.ElGamal e c \<Rightarrow> MPI_serialized_len e + MPI_serialized_len c
      | Ciphertext.ECDH e key \<Rightarrow> MPI_serialized_len e + 1 + length key
      | Ciphertext.X25519 e key \<Rightarrow> 32 + 1 + length key
      | Ciphertext.X448 e key \<Rightarrow> 56 + 1 + length key
      | Ciphertext.MLKEM768_X25519 ecdh mlkem esk \<Rightarrow> 32 + 1088 + 1 + length esk
      | Ciphertext.MLKEM1024_X448 ecdh mlkem esk \<Rightarrow> 56 + 1568 + 1 + length esk
      | Ciphertext.Unknown mpis rest \<Rightarrow> sum_list (map MPI_serialized_len mpis) + length rest)"

definition Ciphertext_pk_algo :: "Ciphertext \<Rightarrow> PublicKeyAlgorithm option" where
  "Ciphertext_pk_algo ct =
     (case ct of
        Ciphertext.RSA _ \<Rightarrow> Some PublicKeyAlgorithm.RSAEncryptSign
      | Ciphertext.ElGamal _ _ \<Rightarrow> Some PublicKeyAlgorithm.ElGamalEncrypt
      | Ciphertext.ECDH _ _ \<Rightarrow> Some PublicKeyAlgorithm.ECDH
      | Ciphertext.X25519 _ _ \<Rightarrow> Some PublicKeyAlgorithm.X25519
      | Ciphertext.X448 _ _ \<Rightarrow> Some PublicKeyAlgorithm.X448
      | Ciphertext.MLKEM768_X25519 _ _ _ \<Rightarrow> Some PublicKeyAlgorithm.MLKEM768_X25519
      | Ciphertext.MLKEM1024_X448 _ _ _ \<Rightarrow> Some PublicKeyAlgorithm.MLKEM1024_X448
      | Ciphertext.Unknown _ _ \<Rightarrow> None)"

definition Ciphertext_wf :: "Ciphertext \<Rightarrow> bool" where
  "Ciphertext_wf ct =
     (case ct of
        Ciphertext.RSA c \<Rightarrow> MPI_ok c
      | Ciphertext.ElGamal e c \<Rightarrow> MPI_ok e \<and> MPI_ok c
      | Ciphertext.ECDH e key \<Rightarrow> MPI_ok e \<and> length key < 256
      | Ciphertext.X25519 e key \<Rightarrow> length e = 32 \<and> length key < 256
      | Ciphertext.X448 e key \<Rightarrow> length e = 56 \<and> length key < 256
      | Ciphertext.MLKEM768_X25519 ecdh mlkem esk \<Rightarrow> length ecdh = 32 \<and> length mlkem = 1088 \<and> length esk < 256
      | Ciphertext.MLKEM1024_X448 ecdh mlkem esk \<Rightarrow> length ecdh = 56 \<and> length mlkem = 1568 \<and> length esk < 256
      | Ciphertext.Unknown mpis rest \<Rightarrow> list_all MPI_ok mpis \<and> \<not> is_ok (MPI_parse rest))"

section \<open>Signatures\<close>

datatype Signature =
    RSA MPI
  | DSA MPI MPI
  | ElGamal MPI MPI
  | EdDSA MPI MPI
  | ECDSA MPI MPI
  | Ed25519 bytes
  | Ed448 bytes
  | MLDSA65_Ed25519 bytes bytes
  | MLDSA87_Ed448 bytes bytes
  | SLHDSA128s bytes
  | SLHDSA128f bytes
  | SLHDSA256s bytes
  | Unknown "MPI list" bytes

definition Signature_parse :: "PublicKeyAlgorithm \<Rightarrow> Signature reader" where
  "Signature_parse algo bs =
     (case algo of
        PublicKeyAlgorithm.RSAEncryptSign \<Rightarrow>
          and_then (MPI_parse bs) (\<lambda>(s, bs).
          Inr (Signature.RSA s, bs))
      | PublicKeyAlgorithm.RSASign \<Rightarrow>
          and_then (MPI_parse bs) (\<lambda>(s, bs).
          Inr (Signature.RSA s, bs))
      | PublicKeyAlgorithm.DSA \<Rightarrow>
          and_then (MPI_parse bs) (\<lambda>(r, bs).
          and_then (MPI_parse bs) (\<lambda>(s, bs).
          Inr (Signature.DSA r s, bs)))
      | PublicKeyAlgorithm.ElGamalEncryptSign \<Rightarrow>
          and_then (MPI_parse bs) (\<lambda>(r, bs).
          and_then (MPI_parse bs) (\<lambda>(s, bs).
          Inr (Signature.ElGamal r s, bs)))
      | PublicKeyAlgorithm.EdDSA \<Rightarrow>
          and_then (MPI_parse bs) (\<lambda>(r, bs).
          and_then (MPI_parse bs) (\<lambda>(s, bs).
          Inr (Signature.EdDSA r s, bs)))
      | PublicKeyAlgorithm.ECDSA \<Rightarrow>
          and_then (MPI_parse bs) (\<lambda>(r, bs).
          and_then (MPI_parse bs) (\<lambda>(s, bs).
          Inr (Signature.ECDSA r s, bs)))
      | PublicKeyAlgorithm.Ed25519 \<Rightarrow>
          and_then (parse_bytes_into 64 bs) (\<lambda>(s, bs).
          Inr (Signature.Ed25519 s, bs))
      | PublicKeyAlgorithm.Ed448 \<Rightarrow>
          and_then (parse_bytes_into 114 bs) (\<lambda>(s, bs).
          Inr (Signature.Ed448 s, bs))
      | PublicKeyAlgorithm.MLDSA65_Ed25519 \<Rightarrow>
          and_then (parse_bytes_into 64 bs) (\<lambda>(eddsa, bs).
          and_then (parse_bytes_into 3309 bs) (\<lambda>(mldsa, bs).
          Inr (Signature.MLDSA65_Ed25519 eddsa mldsa, bs)))
      | PublicKeyAlgorithm.MLDSA87_Ed448 \<Rightarrow>
          and_then (parse_bytes_into 114 bs) (\<lambda>(eddsa, bs).
          and_then (parse_bytes_into 4627 bs) (\<lambda>(mldsa, bs).
          Inr (Signature.MLDSA87_Ed448 eddsa mldsa, bs)))
      | PublicKeyAlgorithm.SLHDSA128s \<Rightarrow>
          and_then (parse_bytes_into 7856 bs) (\<lambda>(sig, bs).
          Inr (Signature.SLHDSA128s sig, bs))
      | PublicKeyAlgorithm.SLHDSA128f \<Rightarrow>
          and_then (parse_bytes_into 17088 bs) (\<lambda>(sig, bs).
          Inr (Signature.SLHDSA128f sig, bs))
      | PublicKeyAlgorithm.SLHDSA256s \<Rightarrow>
          and_then (parse_bytes_into 29792 bs) (\<lambda>(sig, bs).
          Inr (Signature.SLHDSA256s sig, bs))
      | PublicKeyAlgorithm.Unknown _ \<Rightarrow>
          (case mpis_loop bs of (mpis, bs) \<Rightarrow>
             and_then (parse_bytes_eof bs) (\<lambda>(rest, bs). Inr (Signature.Unknown mpis rest, bs)))
      | PublicKeyAlgorithm.Private _ \<Rightarrow>
          (case mpis_loop bs of (mpis, bs) \<Rightarrow>
             and_then (parse_bytes_eof bs) (\<lambda>(rest, bs). Inr (Signature.Unknown mpis rest, bs)))
      | PublicKeyAlgorithm.RSAEncrypt \<Rightarrow> Inl (Err InvalidArgument)
      | PublicKeyAlgorithm.ElGamalEncrypt \<Rightarrow> Inl (Err InvalidArgument)
      | PublicKeyAlgorithm.ECDH \<Rightarrow> Inl (Err InvalidArgument)
      | PublicKeyAlgorithm.X25519 \<Rightarrow> Inl (Err InvalidArgument)
      | PublicKeyAlgorithm.X448 \<Rightarrow> Inl (Err InvalidArgument)
      | PublicKeyAlgorithm.MLKEM768_X25519 \<Rightarrow> Inl (Err InvalidArgument)
      | PublicKeyAlgorithm.MLKEM1024_X448 \<Rightarrow> Inl (Err InvalidArgument))"

definition Signature_serialize :: "Signature \<Rightarrow> bytes res" where
  "Signature_serialize sig =
     (case sig of
        Signature.RSA s \<Rightarrow> Inr (MPI_serialize s)
      | Signature.DSA r s \<Rightarrow> Inr (MPI_serialize r @ MPI_serialize s)
      | Signature.ElGamal r s \<Rightarrow> Inr (MPI_serialize r @ MPI_serialize s)
      | Signature.EdDSA r s \<Rightarrow> Inr (MPI_serialize r @ MPI_serialize s)
      | Signature.ECDSA r s \<Rightarrow> Inr (MPI_serialize r @ MPI_serialize s)
      | Signature.Ed25519 s \<Rightarrow> Inr (s)
      | Signature.Ed448 s \<Rightarrow> Inr (s)
      | Signature.MLDSA65_Ed25519 eddsa mldsa \<Rightarrow> Inr (eddsa @ mldsa)
      | Signature.MLDSA87_Ed448 eddsa mldsa \<Rightarrow> Inr (eddsa @ mldsa)
      | Signature.SLHDSA128s sig \<Rightarrow> Inr (sig)
      | Signature.SLHDSA128f sig \<Rightarrow> Inr (sig)
      | Signature.SLHDSA256s sig \<Rightarrow> Inr (sig)
      | Signature.Unknown mpis rest \<Rightarrow> Inr (concat (map MPI_serialize mpis) @ rest))"

definition Signature_serialized_len :: "Signature \<Rightarrow> nat" where
  "Signature_serialized_len sig =
     (case sig of
        Signature.RSA s \<Rightarrow> MPI_serialized_len s
      | Signature.DSA r s \<Rightarrow> MPI_serialized_len r + MPI_serialized_len s
      | Signature.ElGamal r s \<Rightarrow> MPI_serialized_len r + MPI_serialized_len s
      | Signature.EdDSA r s \<Rightarrow> MPI_serialized_len r + MPI_serialized_len s
      | Signature.ECDSA r s \<Rightarrow> MPI_serialized_len r + MPI_serialized_len s
      | Signature.Ed25519 s \<Rightarrow> 64
      | Signature.Ed448 s \<Rightarrow> 114
      | Signature.MLDSA65_Ed25519 eddsa mldsa \<Rightarrow> 64 + 3309
      | Signature.MLDSA87_Ed448 eddsa mldsa \<Rightarrow> 114 + 4627
      | Signature.SLHDSA128s sig \<Rightarrow> 7856
      | Signature.SLHDSA128f sig \<Rightarrow> 17088
      | Signature.SLHDSA256s sig \<Rightarrow> 29792
      | Signature.Unknown mpis rest \<Rightarrow> sum_list (map MPI_serialized_len mpis) + length rest)"

definition Signature_wf :: "Signature \<Rightarrow> bool" where
  "Signature_wf sig =
     (case sig of
        Signature.RSA s \<Rightarrow> MPI_ok s
      | Signature.DSA r s \<Rightarrow> MPI_ok r \<and> MPI_ok s
      | Signature.ElGamal r s \<Rightarrow> MPI_ok r \<and> MPI_ok s
      | Signature.EdDSA r s \<Rightarrow> MPI_ok r \<and> MPI_ok s
      | Signature.ECDSA r s \<Rightarrow> MPI_ok r \<and> MPI_ok s
      | Signature.Ed25519 s \<Rightarrow> length s = 64
      | Signature.Ed448 s \<Rightarrow> length s = 114
      | Signature.MLDSA65_Ed25519 eddsa mldsa \<Rightarrow> length eddsa = 64 \<and> length mldsa = 3309
      | Signature.MLDSA87_Ed448 eddsa mldsa \<Rightarrow> length eddsa = 114 \<and> length mldsa = 4627
      | Signature.SLHDSA128s sig \<Rightarrow> length sig = 7856
      | Signature.SLHDSA128f sig \<Rightarrow> length sig = 17088
      | Signature.SLHDSA256s sig \<Rightarrow> length sig = 29792
      | Signature.Unknown mpis rest \<Rightarrow> list_all MPI_ok mpis \<and> \<not> is_ok (MPI_parse rest))"

section \<open>Checksums of secret keys\<close>

text \<open>
  The digest is computed by the cryptographic backend: \<open>sha1\<close> is a parameter. \<open>total_out\<close> and
  \<open>rewind\<close> on the \<open>Dup\<close> reader give the octets the integers were parsed from.
\<close>

datatype SecretKeyChecksum = SHA1 | Sum16

definition SecretKeyChecksum_len :: "SecretKeyChecksum \<Rightarrow> nat" where
  "SecretKeyChecksum_len c = (case c of SecretKeyChecksum.SHA1 \<Rightarrow> 20 | SecretKeyChecksum.Sum16 \<Rightarrow> 2)"

definition sum16 :: "bytes \<Rightarrow> bytes" where
  "sum16 data = to_be_u16 (foldl (\<lambda>acc v. acc + ucast v) 0 data)"

definition SecretKeyMaterial_parse ::
    "(bytes \<Rightarrow> bytes) \<Rightarrow> PublicKeyAlgorithm \<Rightarrow> SecretKeyChecksum option \<Rightarrow> SecretKeyMaterial reader" where
  "SecretKeyMaterial_parse sha1 algo checksum bs =
     and_then (SecretKeyMaterial_parse_mpis algo bs) (\<lambda>(mpis, bs').
       case checksum of
         None \<Rightarrow> Inr (mpis, bs')
       | Some c \<Rightarrow>
           and_then (parse_bytes (SecretKeyChecksum_len c) bs') (\<lambda>(their_chksum, bs'').
             let data = take (length bs - length bs') bs;
                 good = (case c of
                           SecretKeyChecksum.SHA1 \<Rightarrow> sha1 data = their_chksum
                         | SecretKeyChecksum.Sum16 \<Rightarrow> sum16 data = their_chksum) in
             if good then Inr (mpis, bs'') else Inl (Err MalformedMPI)))"

definition SecretKeyMaterial_serialize_with_checksum ::
    "(bytes \<Rightarrow> bytes) \<Rightarrow> SecretKeyChecksum \<Rightarrow> SecretKeyMaterial \<Rightarrow> bytes res" where
  "SecretKeyMaterial_serialize_with_checksum sha1 checksum sk =
     and_then (SecretKeyMaterial_serialize sk) (\<lambda>data.
       Inr (data @ (case checksum of SecretKeyChecksum.SHA1 \<Rightarrow> sha1 data | SecretKeyChecksum.Sum16 \<Rightarrow> sum16 data)))"

definition PublicKey_bits :: "PublicKey \<Rightarrow> nat option" where
  "PublicKey_bits pk =
     (let ok = (\<lambda>r. case r of Inr n \<Rightarrow> Some n | Inl _ \<Rightarrow> None) in
      case pk of
        PublicKey.RSA e n \<Rightarrow> Some (MPI_bits n)
      | PublicKey.DSA p q g y \<Rightarrow> Some (MPI_bits p)
      | PublicKey.ElGamal p g y \<Rightarrow> Some (MPI_bits p)
      | PublicKey.EdDSA curve q \<Rightarrow> ok (curve_bits curve)
      | PublicKey.ECDSA curve q \<Rightarrow> ok (curve_bits curve)
      | PublicKey.ECDH curve q hash symm \<Rightarrow> ok (curve_bits curve)
      | PublicKey.X25519 _ \<Rightarrow> Some 256
      | PublicKey.X448 _ \<Rightarrow> Some 448
      | PublicKey.Ed25519 _ \<Rightarrow> Some 256
      | PublicKey.Ed448 _ \<Rightarrow> Some 456
      | _ \<Rightarrow> None)"


section \<open>Properties of fields\<close>

lemma parse_u8_eq_Inr: "parse_u8 bs = Inr (b, rest) \<longleftrightarrow> bs = b # rest"
  by (simp add: parse_u8_def read_u8_eq_Inr)

lemma parse_bytes_eq_Inr: "parse_bytes n bs = Inr (d, rest) \<longleftrightarrow> bs = d @ rest \<and> length d = n"
  by (simp add: parse_bytes_def data_consume_hard_eq_Inr)

lemma parse_bytes_into_eq_Inr: "parse_bytes_into n bs = Inr (d, rest) \<longleftrightarrow> bs = d @ rest \<and> length d = n"
  by (simp add: parse_bytes_into_def data_consume_hard_eq_Inr)

lemma parse_bytes_u8_len_eq_Inr:
  "parse_bytes_u8_len bs = Inr (d, rest) \<longleftrightarrow> length d < 256 \<and> bs = word_of_nat (length d) # d @ rest"
  by (auto simp: parse_bytes_u8_len_def result_simps parse_u8_eq_Inr parse_bytes_eq_Inr unat_word_of_nat_u8)

lemma write_field_with_u8_size_eq_Inr:
  "write_field_with_u8_size buf = Inr c \<longleftrightarrow> length buf < 256 \<and> c = word_of_nat (length buf) # buf"
  by (auto simp: write_field_with_u8_size_def)

lemmas field_inverts = MPI_parse_eq_Inr ProtectedMPI_parse_eq_Inr parse_u8_eq_Inr parse_bytes_eq_Inr
  parse_bytes_into_eq_Inr parse_bytes_u8_len_eq_Inr

lemma mpis_loop_exact:
  "mpis_loop bs = (ms, rest) \<Longrightarrow>
     list_all MPI_ok ms \<and> \<not> is_ok (MPI_parse rest) \<and> bs = concat (map MPI_serialize ms) @ rest"
proof (induction bs arbitrary: ms rule: mpis_loop.induct)
  case (1 bs)
  show ?case
  proof (cases "MPI_parse bs")
    case (Inl e)
    with 1 show ?thesis by (auto simp: mpis_loop.simps [of bs])
  next
    case (Inr p)
    obtain m bs' where p: "p = (m, bs')" by (cases p)
    obtain ms' where ms: "ms = m # ms'" "mpis_loop bs' = (ms', rest)"
      using 1(2) Inr p by (auto simp: mpis_loop.simps [of bs] split: prod.splits)
    with 1(1) [OF Inr p [symmetric], of ms'] Inr p show ?thesis by (simp add: MPI_parse_eq_Inr)
  qed
qed

lemma protected_mpis_loop_exact:
  "protected_mpis_loop bs = (ms, rest) \<Longrightarrow>
     list_all MPI_ok ms \<and> \<not> is_ok (ProtectedMPI_parse rest) \<and> bs = concat (map MPI_serialize ms) @ rest"
proof (induction bs arbitrary: ms rule: protected_mpis_loop.induct)
  case (1 bs)
  show ?case
  proof (cases "ProtectedMPI_parse bs")
    case (Inl e)
    with 1 show ?thesis by (auto simp: protected_mpis_loop.simps [of bs])
  next
    case (Inr p)
    obtain m bs' where p: "p = (m, bs')" by (cases p)
    obtain ms' where ms: "ms = m # ms'" "protected_mpis_loop bs' = (ms', rest)"
      using 1(2) Inr p by (auto simp: protected_mpis_loop.simps [of bs] split: prod.splits)
    with 1(1) [OF Inr p [symmetric], of ms'] Inr p show ?thesis by (simp add: ProtectedMPI_parse_eq_Inr)
  qed
qed

lemma mpis_loop_serialize:
  "list_all MPI_ok ms \<Longrightarrow> \<not> is_ok (MPI_parse rest) \<Longrightarrow> mpis_loop (concat (map MPI_serialize ms) @ rest) = (ms, rest)"
proof (induction ms)
  case Nil
  then show ?case by (cases "MPI_parse rest") (auto simp: mpis_loop.simps [of rest])
next
  case (Cons m ms)
  then have "MPI_parse (MPI_serialize m @ concat (map MPI_serialize ms) @ rest) = Inr (m, concat (map MPI_serialize ms) @ rest)"
    by (simp add: MPI_parse_eq_Inr)
  with Cons show ?case by (subst mpis_loop.simps) simp
qed

lemma protected_mpis_loop_serialize:
  "list_all MPI_ok ms \<Longrightarrow> \<not> is_ok (ProtectedMPI_parse rest) \<Longrightarrow>
     protected_mpis_loop (concat (map MPI_serialize ms) @ rest) = (ms, rest)"
proof (induction ms)
  case Nil
  then show ?case by (cases "ProtectedMPI_parse rest") (auto simp: protected_mpis_loop.simps [of rest])
next
  case (Cons m ms)
  then have "ProtectedMPI_parse (MPI_serialize m @ concat (map MPI_serialize ms) @ rest) = Inr (m, concat (map MPI_serialize ms) @ rest)"
    by (simp add: ProtectedMPI_parse_eq_Inr)
  with Cons show ?case by (subst protected_mpis_loop.simps) simp
qed

lemma length_MPI_serialize: "length (MPI_serialize m) = MPI_serialized_len m"
  by (simp add: MPI_serialize_def MPI_serialized_len_def)

lemma length_concat_MPI_serialize: "length (concat (map MPI_serialize ms)) = sum_list (map MPI_serialized_len ms)"
  by (induction ms) (simp_all add: length_MPI_serialize)

lemma curve_ok_from_oid: "length d < 256 \<Longrightarrow> curve_ok (from_oid d)"
  by (simp add: curve_ok_def)

lemmas field_lens = length_MPI_serialize length_concat_MPI_serialize

lemma MPI_parse_serialize: "MPI_ok m \<Longrightarrow> MPI_parse (MPI_serialize m @ rest) = Inr (m, rest)"
  by (simp add: MPI_parse_eq_Inr)

lemma ProtectedMPI_parse_serialize: "MPI_ok m \<Longrightarrow> ProtectedMPI_parse (MPI_serialize m @ rest) = Inr (m, rest)"
  by (simp add: ProtectedMPI_parse_eq_Inr)

lemma parse_bytes_into_append: "length d = n \<Longrightarrow> parse_bytes_into n (d @ rest) = Inr (d, rest)"
  by (simp add: parse_bytes_into_eq_Inr)

lemma parse_u8_Cons: "parse_u8 (b # rest) = Inr (b, rest)"
  by (simp add: parse_u8_eq_Inr)

lemma parse_bytes_u8_len_append:
  "length d < 256 \<Longrightarrow> parse_bytes_u8_len (word_of_nat (length d) # d @ rest) = Inr (d, rest)"
  by (simp add: parse_bytes_u8_len_eq_Inr)

lemma write_field_with_u8_size_ok:
  "length d < 256 \<Longrightarrow> write_field_with_u8_size d = Inr (word_of_nat (length d) # d)"
  by (simp add: write_field_with_u8_size_def)

lemma curve_okD: "curve_ok curve \<Longrightarrow> from_oid (oid curve) = curve" "curve_ok curve \<Longrightarrow> length (oid curve) < 256"
  by (simp_all add: curve_ok_def)

lemmas field_reads = MPI_parse_serialize ProtectedMPI_parse_serialize parse_bytes_into_append parse_u8_Cons
  parse_bytes_u8_len_append write_field_with_u8_size_ok parse_bytes_eof_def curve_okD mpis_loop_serialize
  protected_mpis_loop_serialize hash_algo.of_to sym_algo.of_to

section \<open>Exact codecs\<close>

text \<open>
  A codec whose decoder accepts nothing but encodings: the octets consumed are the encoding of the value
  returned. Octets that were read can then be reproduced from the value, which fingerprints
  and signatures over parsed material rely on.
\<close>

locale exact_codec = codec +
  assumes decode_exact: "decode bs = Inr (x, rest) \<Longrightarrow> \<exists>c. encode x = Inr c \<and> bs = c @ rest"
begin

lemma decode_iff: "dom x \<Longrightarrow> decode bs = Inr (x, rest) \<longleftrightarrow> (\<exists>c. encode x = Inr c \<and> bs = c @ rest)"
  using decode_exact decode_encode by blast

lemma decode_inj:
  assumes "decode bs = Inr (x, rest)" "decode bs' = Inr (x, rest')"
  shows "\<exists>c. bs = c @ rest \<and> bs' = c @ rest'"
  using decode_exact [OF assms(1)] decode_exact [OF assms(2)] by auto

lemma decode_consumes: "dom x \<Longrightarrow> decode bs = Inr (x, rest) \<Longrightarrow> length rest < length bs"
  using encode_nonempty decode_exact by fastforce

end

interpretation mpi: exact_codec "\<lambda>m. Inr (MPI_serialize m)" MPI_parse MPI_ok
proof unfold_locales
  show "Inr (MPI_serialize m) \<noteq> Inr []" for m
    using length_MPI_serialize [of m] by (auto simp: MPI_serialized_len_def)
qed (auto simp: MPI_parse_eq_Inr)

text \<open>The algorithms that share the material of one variant; none for unknown ones.\<close>

definition algo_family :: "PublicKeyAlgorithm \<Rightarrow> PublicKeyAlgorithm option" where
  "algo_family a =
     (case a of
        PublicKeyAlgorithm.RSAEncrypt \<Rightarrow> Some PublicKeyAlgorithm.RSAEncryptSign
      | PublicKeyAlgorithm.RSASign \<Rightarrow> Some PublicKeyAlgorithm.RSAEncryptSign
      | PublicKeyAlgorithm.ElGamalEncryptSign \<Rightarrow> Some PublicKeyAlgorithm.ElGamalEncrypt
      | PublicKeyAlgorithm.Unknown _ \<Rightarrow> None
      | PublicKeyAlgorithm.Private _ \<Rightarrow> None
      | _ \<Rightarrow> Some a)"

lemmas public_key_defs = PublicKey_parse_def PublicKey_serialize_def PublicKey_wf_def PublicKey_algo_def PublicKey_serialized_len_def

lemma PublicKey_parse_exact:
  assumes "PublicKey_parse a bs = Inr (pk, rest)"
  shows "PublicKey_wf pk \<and> PublicKey_algo pk = algo_family a
    \<and> (\<exists>c. PublicKey_serialize pk = Inr c \<and> length c = PublicKey_serialized_len pk \<and> bs = c @ rest)"
  using assms
  by (cases a)
    (auto simp: public_key_defs algo_family_def result_simps field_inverts field_lens curve_ok_from_oid
      hash_algo.to_of hash_algo.canonical_of sym_algo.to_of sym_algo.canonical_of write_field_with_u8_size_def parse_bytes_eof_def split: if_splits prod.splits dest!: mpis_loop_exact)

lemma PublicKey_serialize_parse:
  assumes "PublicKey_wf pk" "PublicKey_algo pk = algo_family a" "algo_family a \<noteq> None \<or> rest = []"
  shows "\<exists>c. PublicKey_serialize pk = Inr c \<and> PublicKey_parse a (c @ rest) = Inr (pk, rest)"
  using assms by (cases a; cases pk) (simp_all add: public_key_defs algo_family_def field_reads)

lemmas secret_key_defs = SecretKeyMaterial_parse_mpis_def SecretKeyMaterial_serialize_def SecretKeyMaterial_wf_def
  SecretKeyMaterial_algo_def SecretKeyMaterial_serialized_len_def

lemma SecretKeyMaterial_parse_mpis_exact:
  assumes "SecretKeyMaterial_parse_mpis a bs = Inr (sk, rest)"
  shows "SecretKeyMaterial_wf sk \<and> SecretKeyMaterial_algo sk = algo_family a
    \<and> (\<exists>c. SecretKeyMaterial_serialize sk = Inr c \<and> length c = SecretKeyMaterial_serialized_len sk \<and> bs = c @ rest)"
  using assms
  by (cases a)
    (auto simp: secret_key_defs algo_family_def result_simps field_inverts field_lens parse_bytes_eof_def
      split: prod.splits dest!: protected_mpis_loop_exact)

lemma SecretKeyMaterial_serialize_parse_mpis:
  assumes "SecretKeyMaterial_wf sk" "SecretKeyMaterial_algo sk = algo_family a" "algo_family a \<noteq> None \<or> rest = []"
  shows "\<exists>c. SecretKeyMaterial_serialize sk = Inr c \<and> SecretKeyMaterial_parse_mpis a (c @ rest) = Inr (sk, rest)"
  using assms by (cases a; cases sk) (simp_all add: secret_key_defs algo_family_def field_reads)

lemmas ciphertext_defs = Ciphertext_parse_def Ciphertext_serialize_def Ciphertext_wf_def
  Ciphertext_pk_algo_def Ciphertext_serialized_len_def

lemma Ciphertext_parse_exact:
  assumes "Ciphertext_parse a bs = Inr (ct, rest)"
  shows "Ciphertext_wf ct \<and> Ciphertext_pk_algo ct = algo_family a \<and> a \<noteq> PublicKeyAlgorithm.RSASign
    \<and> (\<exists>c. Ciphertext_serialize ct = Inr c \<and> length c = Ciphertext_serialized_len ct \<and> bs = c @ rest)"
  using assms
  by (cases a)
    (auto simp: ciphertext_defs algo_family_def result_simps field_inverts field_lens parse_bytes_eof_def
      write_field_with_u8_size_def split: prod.splits dest!: mpis_loop_exact)

lemma Ciphertext_serialize_parse:
  assumes "Ciphertext_wf ct" "Ciphertext_pk_algo ct = algo_family a" "a \<noteq> PublicKeyAlgorithm.RSASign"
    and "algo_family a \<noteq> None \<or> rest = []"
  shows "\<exists>c. Ciphertext_serialize ct = Inr c \<and> Ciphertext_parse a (c @ rest) = Inr (ct, rest)"
  using assms by (cases a; cases ct) (simp_all add: ciphertext_defs algo_family_def field_reads)

text \<open>Signatures do not know their algorithm; this is the variant each algorithm's signatures have.\<close>

definition Signature_fits :: "PublicKeyAlgorithm \<Rightarrow> Signature \<Rightarrow> bool" where
  "Signature_fits a sig =
     (case sig of
        Signature.RSA _ \<Rightarrow> a = PublicKeyAlgorithm.RSAEncryptSign \<or> a = PublicKeyAlgorithm.RSASign
      | Signature.DSA _ _ \<Rightarrow> a = PublicKeyAlgorithm.DSA
      | Signature.ElGamal _ _ \<Rightarrow> a = PublicKeyAlgorithm.ElGamalEncryptSign
      | Signature.EdDSA _ _ \<Rightarrow> a = PublicKeyAlgorithm.EdDSA
      | Signature.ECDSA _ _ \<Rightarrow> a = PublicKeyAlgorithm.ECDSA
      | Signature.Ed25519 _ \<Rightarrow> a = PublicKeyAlgorithm.Ed25519
      | Signature.Ed448 _ \<Rightarrow> a = PublicKeyAlgorithm.Ed448
      | Signature.MLDSA65_Ed25519 _ _ \<Rightarrow> a = PublicKeyAlgorithm.MLDSA65_Ed25519
      | Signature.MLDSA87_Ed448 _ _ \<Rightarrow> a = PublicKeyAlgorithm.MLDSA87_Ed448
      | Signature.SLHDSA128s _ \<Rightarrow> a = PublicKeyAlgorithm.SLHDSA128s
      | Signature.SLHDSA128f _ \<Rightarrow> a = PublicKeyAlgorithm.SLHDSA128f
      | Signature.SLHDSA256s _ \<Rightarrow> a = PublicKeyAlgorithm.SLHDSA256s
      | Signature.Unknown _ _ \<Rightarrow> algo_family a = None)"

lemmas signature_defs = Signature_parse_def Signature_serialize_def Signature_wf_def Signature_fits_def
  Signature_serialized_len_def

lemma Signature_parse_exact:
  assumes "Signature_parse a bs = Inr (sig, rest)"
  shows "Signature_wf sig \<and> Signature_fits a sig
    \<and> (\<exists>c. Signature_serialize sig = Inr c \<and> length c = Signature_serialized_len sig \<and> bs = c @ rest)"
  using assms
  by (cases a)
    (auto simp: signature_defs algo_family_def result_simps field_inverts field_lens parse_bytes_eof_def
      split: prod.splits dest!: mpis_loop_exact)

lemma Signature_serialize_parse:
  assumes "Signature_wf sig" "Signature_fits a sig" "algo_family a \<noteq> None \<or> rest = []"
  shows "\<exists>c. Signature_serialize sig = Inr c \<and> Signature_parse a (c @ rest) = Inr (sig, rest)"
  using assms by (cases a; cases sig) (simp_all add: signature_defs algo_family_def field_reads)

section \<open>Interpretations\<close>

text \<open>For the algorithms the crate knows, each kind of material is an exact codec.\<close>

lemma PublicKey_serialized_len_pos: "PublicKey_algo pk \<noteq> None \<Longrightarrow> 0 < PublicKey_serialized_len pk"
  by (cases pk) (simp_all add: public_key_defs MPI_serialized_len_def)

lemma SecretKeyMaterial_serialized_len_pos: "SecretKeyMaterial_algo sk \<noteq> None \<Longrightarrow> 0 < SecretKeyMaterial_serialized_len sk"
  by (cases sk) (simp_all add: secret_key_defs MPI_serialized_len_def)

lemma Ciphertext_serialized_len_pos: "Ciphertext_pk_algo ct \<noteq> None \<Longrightarrow> 0 < Ciphertext_serialized_len ct"
  by (cases ct) (simp_all add: ciphertext_defs MPI_serialized_len_def)

lemma Signature_serialized_len_pos:
  "Signature_fits a sig \<Longrightarrow> algo_family a \<noteq> None \<Longrightarrow> 0 < Signature_serialized_len sig"
  by (cases sig) (simp_all add: signature_defs MPI_serialized_len_def)

text \<open>The contract of a codec from the two directions and the announced length.\<close>

lemma exact_codecI:
  fixes encode :: "'a \<Rightarrow> bytes res" and dom :: "'a \<Rightarrow> bool"
  assumes exact: "\<And>bs x rest. decode bs = Inr (x, rest) \<Longrightarrow> \<exists>c. encode x = Inr c \<and> length c = len x \<and> bs = c @ rest"
    and rt: "\<And>x rest. dom x \<Longrightarrow> \<exists>c. encode x = Inr c \<and> decode (c @ rest) = Inr (x, rest)"
    and pos: "\<And>x. dom x \<Longrightarrow> 0 < len x"
  shows "exact_codec encode decode dom"
proof
  show "is_ok (encode x)" if "dom x" for x using rt [OF that] by (auto simp: is_ok_iff)
  show "decode (bs @ rest) = Inr (x, rest)" if "dom x" "encode x = Inr bs" for x bs rest
    using rt [OF that(1), of rest] that(2) by auto
  show "encode x \<noteq> Inr []" if "dom x" for x
    using rt [OF that, of "[]"] exact [of "[]" x "[]"] pos [OF that] by auto
  show "\<exists>c. encode x = Inr c \<and> bs = c @ rest" if "decode bs = Inr (x, rest)" for bs x rest
    using exact [OF that] by blast
qed

interpretation public_key: exact_codec PublicKey_serialize "PublicKey_parse a"
    "\<lambda>pk. PublicKey_wf pk \<and> PublicKey_algo pk = algo_family a \<and> algo_family a \<noteq> None" for a
  by (rule exact_codecI [where len = PublicKey_serialized_len])
    (simp_all add: PublicKey_serialize_parse PublicKey_serialized_len_pos PublicKey_parse_exact)

interpretation secret_key: exact_codec SecretKeyMaterial_serialize "SecretKeyMaterial_parse_mpis a"
    "\<lambda>sk. SecretKeyMaterial_wf sk \<and> SecretKeyMaterial_algo sk = algo_family a \<and> algo_family a \<noteq> None" for a
  by (rule exact_codecI [where len = SecretKeyMaterial_serialized_len])
    (simp_all add: SecretKeyMaterial_serialize_parse_mpis SecretKeyMaterial_serialized_len_pos SecretKeyMaterial_parse_mpis_exact)

interpretation ciphertext: exact_codec Ciphertext_serialize "Ciphertext_parse a"
    "\<lambda>ct. Ciphertext_wf ct \<and> Ciphertext_pk_algo ct = algo_family a \<and> a \<noteq> PublicKeyAlgorithm.RSASign \<and> algo_family a \<noteq> None" for a
  by (rule exact_codecI [where len = Ciphertext_serialized_len])
    (simp_all add: Ciphertext_serialize_parse Ciphertext_serialized_len_pos Ciphertext_parse_exact)

interpretation signature: exact_codec Signature_serialize "Signature_parse a"
    "\<lambda>sig. Signature_wf sig \<and> Signature_fits a sig \<and> algo_family a \<noteq> None" for a
  by (rule exact_codecI [where len = Signature_serialized_len])
    (auto simp: Signature_serialize_parse Signature_parse_exact intro!: Signature_serialized_len_pos)

lemma unknown_consumes_all:
  "algo_family a = None \<Longrightarrow> PublicKey_parse a bs = Inr (pk, rest) \<Longrightarrow> rest = []"
  "algo_family a = None \<Longrightarrow> SecretKeyMaterial_parse_mpis a bs = Inr (sk, rest) \<Longrightarrow> rest = []"
  "algo_family a = None \<Longrightarrow> Ciphertext_parse a bs = Inr (ct, rest) \<Longrightarrow> rest = []"
  "algo_family a = None \<Longrightarrow> Signature_parse a bs = Inr (sig, rest) \<Longrightarrow> rest = []"
  by (cases a; simp add: public_key_defs algo_family_def parse_bytes_eof_def split: prod.splits)
    (cases a; simp add: secret_key_defs ciphertext_defs signature_defs algo_family_def parse_bytes_eof_def split: prod.splits)+

section \<open>Theorems\<close>

text \<open>
  C22. \<open>PublicKey::_parse\<close> and \<open>PublicKey::serialize\<close> are inverse to each other for every
  algorithm: the parser accepts an input exactly when it starts with the serialization of a
  well-formed key of that algorithm, whose length is \<open>serialized_len\<close>, and it returns that key and what
  follows; for algorithms the crate does not know the key takes all of the input.
\<close>

theorem public_key_parse_iff:
  "PublicKey_parse a bs = Inr (pk, rest) \<longleftrightarrow>
     PublicKey_wf pk \<and> PublicKey_algo pk = algo_family a \<and> (if algo_family a = None then rest = [] else True)
     \<and> (\<exists>c. PublicKey_serialize pk = Inr c \<and> length c = PublicKey_serialized_len pk \<and> bs = c @ rest)"
  using PublicKey_parse_exact [of a bs pk rest] PublicKey_serialize_parse [of pk a rest] unknown_consumes_all(1) [of a bs pk rest]
  by (auto split: if_splits)

text \<open>
  \<open>Ciphertext::_parse\<close> and \<open>Ciphertext::serialize\<close> are inverse to each other for
  every algorithm that encrypts, in the same sense; for a signing algorithm the parser returns
  no ciphertext.
\<close>

theorem ciphertext_parse_iff:
  "Ciphertext_parse a bs = Inr (ct, rest) \<longleftrightarrow>
     Ciphertext_wf ct \<and> Ciphertext_pk_algo ct = algo_family a \<and> a \<noteq> PublicKeyAlgorithm.RSASign
     \<and> (if algo_family a = None then rest = [] else True)
     \<and> (\<exists>c. Ciphertext_serialize ct = Inr c \<and> length c = Ciphertext_serialized_len ct \<and> bs = c @ rest)"
  using Ciphertext_parse_exact [of a bs ct rest] Ciphertext_serialize_parse [of ct a rest] unknown_consumes_all(3) [of a bs ct rest]
  by (auto split: if_splits)

text \<open>
  \<open>Signature::_parse\<close> and \<open>Signature::serialize\<close> are inverse to each other for every
  algorithm that signs, in the same sense.
\<close>

theorem signature_parse_iff:
  "Signature_parse a bs = Inr (sig, rest) \<longleftrightarrow>
     Signature_wf sig \<and> Signature_fits a sig \<and> (if algo_family a = None then rest = [] else True)
     \<and> (\<exists>c. Signature_serialize sig = Inr c \<and> length c = Signature_serialized_len sig \<and> bs = c @ rest)"
  using Signature_parse_exact [of a bs sig rest] Signature_serialize_parse [of sig a rest] unknown_consumes_all(4) [of a bs sig rest]
  by (auto split: if_splits)

lemma length_sum16: "length (sum16 d) = 2"
  by (simp add: sum16_def)

lemma secret_key_checksum_parts:
  assumes "SecretKeyMaterial_parse_mpis a bs = Inr (sk, bs')"
  shows "\<exists>d. SecretKeyMaterial_serialize sk = Inr d \<and> bs = d @ bs' \<and> take (length bs - length bs') bs = d"
  using SecretKeyMaterial_parse_mpis_exact [OF assms] by auto

lemma SecretKeyMaterial_parse_checksum:
  assumes "\<And>x. c = SecretKeyChecksum.SHA1 \<Longrightarrow> length (sha1 x) = 20"
  shows "SecretKeyMaterial_parse sha1 a (Some c) bs = Inr (sk, rest) \<longleftrightarrow>
    SecretKeyMaterial_wf sk \<and> SecretKeyMaterial_algo sk = algo_family a \<and> algo_family a \<noteq> None
    \<and> (\<exists>d. SecretKeyMaterial_serialize_with_checksum sha1 c sk = Inr d \<and> bs = d @ rest)"
proof
  assume "SecretKeyMaterial_parse sha1 a (Some c) bs = Inr (sk, rest)"
  then obtain bs' where m: "SecretKeyMaterial_parse_mpis a bs = Inr (sk, bs')"
    and k: "SecretKeyMaterial_parse sha1 a (Some c) bs = Inr (sk, rest)"
    by (auto simp: SecretKeyMaterial_parse_def and_then_eq_Inr Let_def split: if_splits)
  obtain d where d: "SecretKeyMaterial_serialize sk = Inr d" "bs = d @ bs'" "take (length bs - length bs') bs = d"
    using secret_key_checksum_parts [OF m] by blast
  let ?sum = "case c of SecretKeyChecksum.SHA1 \<Rightarrow> sha1 d | SecretKeyChecksum.Sum16 \<Rightarrow> sum16 d"
  from k m d(3) have "parse_bytes (SecretKeyChecksum_len c) bs' = Inr (?sum, rest)"
    by (cases c) (auto simp: SecretKeyMaterial_parse_def and_then_eq_Inr split: if_splits)
  then have c: "bs' = ?sum @ rest" "length ?sum = SecretKeyChecksum_len c" by (simp_all only: parse_bytes_eq_Inr)
  have "bs' \<noteq> []" using c by (auto simp: SecretKeyChecksum_len_def split: SecretKeyChecksum.splits)
  then have "algo_family a \<noteq> None" using unknown_consumes_all(2) [OF _ m] by blast
  with SecretKeyMaterial_parse_mpis_exact [OF m] d(1,2) c(1)
  show "SecretKeyMaterial_wf sk \<and> SecretKeyMaterial_algo sk = algo_family a \<and> algo_family a \<noteq> None
    \<and> (\<exists>d. SecretKeyMaterial_serialize_with_checksum sha1 c sk = Inr d \<and> bs = d @ rest)"
    by (auto simp: SecretKeyMaterial_serialize_with_checksum_def)
next
  assume r: "SecretKeyMaterial_wf sk \<and> SecretKeyMaterial_algo sk = algo_family a \<and> algo_family a \<noteq> None
    \<and> (\<exists>d. SecretKeyMaterial_serialize_with_checksum sha1 c sk = Inr d \<and> bs = d @ rest)"
  then obtain d where d: "SecretKeyMaterial_serialize sk = Inr d"
    "bs = d @ (case c of SecretKeyChecksum.SHA1 \<Rightarrow> sha1 d | SecretKeyChecksum.Sum16 \<Rightarrow> sum16 d) @ rest"
    by (auto simp: SecretKeyMaterial_serialize_with_checksum_def result_simps)
  have "SecretKeyMaterial_parse_mpis a (d @ r') = Inr (sk, r')" for r'
    using secret_key.decode_encode [of sk a d] r d(1) by simp
  with d(2) assms show "SecretKeyMaterial_parse sha1 a (Some c) bs = Inr (sk, rest)"
    by (cases c) (simp_all add: SecretKeyMaterial_parse_def parse_bytes_def SecretKeyChecksum_len_def length_sum16)
qed

text \<open>
  Secret key material with a checksum: reading with \<open>from_bytes_with_checksum\<close> accepts
  exactly what \<open>serialize_with_checksum\<close> writes for well-formed material of a known algorithm,
  whichever checksum is used and whatever 20-octet digest SHA-1 computes; any other
  checksum is refused. Material of an unknown algorithm is never accepted, because its parser
  has already read the checksum.
\<close>

theorem secret_key_checksum_iff:
  assumes "\<And>x. length (sha1 x) = 20"
  shows "SecretKeyMaterial_parse sha1 a (Some c) bs = Inr (sk, rest) \<longleftrightarrow>
    SecretKeyMaterial_wf sk \<and> SecretKeyMaterial_algo sk = algo_family a \<and> algo_family a \<noteq> None
    \<and> (\<exists>d. SecretKeyMaterial_serialize_with_checksum sha1 c sk = Inr d \<and> bs = d @ rest)"
  by (rule SecretKeyMaterial_parse_checksum) (rule assms)

theorem secret_key_checksum_iff_witness:
  "SecretKeyMaterial_parse (\<lambda>_. replicate 20 7) PublicKeyAlgorithm.DSA (Some SecretKeyChecksum.Sum16) [0, 2, 3, 0, 5] =
       Inr (SecretKeyMaterial.DSA \<lparr>MPI_value = [3]\<rparr>, []) \<longleftrightarrow>
    SecretKeyMaterial_wf (SecretKeyMaterial.DSA \<lparr>MPI_value = [3]\<rparr>)
    \<and> SecretKeyMaterial_algo (SecretKeyMaterial.DSA \<lparr>MPI_value = [3]\<rparr>) = algo_family PublicKeyAlgorithm.DSA
    \<and> algo_family PublicKeyAlgorithm.DSA \<noteq> None
    \<and> (\<exists>d. SecretKeyMaterial_serialize_with_checksum (\<lambda>_. replicate 20 7) SecretKeyChecksum.Sum16
          (SecretKeyMaterial.DSA \<lparr>MPI_value = [3]\<rparr>) = Inr d \<and> [0, 2, 3, 0, 5] = d @ [])"
  by (rule secret_key_checksum_iff) simp

text \<open>
  Without a checksum, the parser of secret keys accepts exactly the serializations of
  well-formed material of the algorithm and returns what follows.
\<close>

theorem secret_key_parse_iff:
  "SecretKeyMaterial_parse sha1 a None bs = Inr (sk, rest) \<longleftrightarrow>
     SecretKeyMaterial_wf sk \<and> SecretKeyMaterial_algo sk = algo_family a \<and> (if algo_family a = None then rest = [] else True)
     \<and> (\<exists>c. SecretKeyMaterial_serialize sk = Inr c \<and> length c = SecretKeyMaterial_serialized_len sk \<and> bs = c @ rest)"
proof -
  have "SecretKeyMaterial_parse sha1 a None bs = SecretKeyMaterial_parse_mpis a bs"
    by (simp add: SecretKeyMaterial_parse_def and_then_def split: sum.splits)
  then show ?thesis
    using SecretKeyMaterial_parse_mpis_exact [of a bs sk rest] SecretKeyMaterial_serialize_parse_mpis [of sk a rest]
      unknown_consumes_all(2) [of a bs sk rest]
    by (auto split: if_splits)
qed

end
