(* ===== verification/KeyWrap.thy ===== *)
theory KeyWrap
  imports Material
begin

text \<open>
  Session key wrapping for elliptic curve Diffie-Hellman (\<open>crypto/ecdh.rs\<close>): the key derivation
  function, PKCS5 padding, the AES key wrap of RFC 3394 and their composition.

  Hash functions and block ciphers come from the backend chosen at build time. They are
  parameters: \<open>context\<close> gives the digest size and the digest function of a hash algorithm,
  \<open>encryptor\<close> and \<open>decryptor\<close> give the function an ECB cipher applies to a block of 16 octets.
  A key is represented by its \<open>mpis()\<close> and the octets of its fingerprint.
\<close>

unbundle bit_operations_syntax

type_synonym hash_backend = "HashAlgorithm \<Rightarrow> (nat \<times> (bytes \<Rightarrow> bytes)) res"
type_synonym cipher_backend = "SymmetricAlgorithm \<Rightarrow> bytes \<Rightarrow> (bytes \<Rightarrow> bytes res) res"

definition default_ecdh_kdf_hash :: "Curve \<Rightarrow> HashAlgorithm" where
  "default_ecdh_kdf_hash curve =
     (case curve of
        Curve.Cv25519 \<Rightarrow> HashAlgorithm.SHA256
      | Curve.NistP256 \<Rightarrow> HashAlgorithm.SHA256
      | Curve.NistP384 \<Rightarrow> HashAlgorithm.SHA384
      | Curve.NistP521 \<Rightarrow> HashAlgorithm.SHA512
      | Curve.BrainpoolP256 \<Rightarrow> HashAlgorithm.SHA256
      | Curve.BrainpoolP384 \<Rightarrow> HashAlgorithm.SHA384
      | Curve.BrainpoolP512 \<Rightarrow> HashAlgorithm.SHA512
      | Curve.Ed25519 \<Rightarrow> HashAlgorithm.SHA512
      | Curve.Unknown _ \<Rightarrow> HashAlgorithm.SHA512)"

definition default_ecdh_kek_cipher :: "Curve \<Rightarrow> SymmetricAlgorithm" where
  "default_ecdh_kek_cipher curve =
     (case curve of
        Curve.Cv25519 \<Rightarrow> SymmetricAlgorithm.AES128
      | Curve.NistP256 \<Rightarrow> SymmetricAlgorithm.AES128
      | Curve.NistP384 \<Rightarrow> SymmetricAlgorithm.AES192
      | Curve.NistP521 \<Rightarrow> SymmetricAlgorithm.AES256
      | Curve.BrainpoolP256 \<Rightarrow> SymmetricAlgorithm.AES128
      | Curve.BrainpoolP384 \<Rightarrow> SymmetricAlgorithm.AES192
      | Curve.BrainpoolP512 \<Rightarrow> SymmetricAlgorithm.AES256
      | Curve.Ed25519 \<Rightarrow> SymmetricAlgorithm.AES256
      | Curve.Unknown _ \<Rightarrow> SymmetricAlgorithm.AES256)"

section \<open>Key derivation and padding\<close>

definition kdf :: "hash_backend \<Rightarrow> bytes \<Rightarrow> nat \<Rightarrow> HashAlgorithm \<Rightarrow> bytes \<Rightarrow> bytes res" where
  "kdf context x obits hash param =
     and_then (context hash) (\<lambda>(digest_size, digest).
       if obits > digest_size then Inl (Err InvalidArgument)
       else Inr (take obits (digest ([0, 0, 0, 1] @ x @ param))))"

definition pkcs5_pad :: "bytes \<Rightarrow> nat \<Rightarrow> bytes res" where
  "pkcs5_pad sk target_len =
     (if length sk > target_len then Inl (Err InvalidArgument)
      else
        (let missing = target_len - length sk in
         if \<not> missing \<le> 0xff then Inl Panic
         else Inr (sk @ replicate missing (word_of_nat missing))))"

definition pkcs5_unpad :: "bytes \<Rightarrow> bytes res" where
  "pkcs5_unpad sk =
     (if length sk > 0xff then Inl (Err InvalidArgument)
      else if sk = [] then Inl Panic
      else
        (let padding = sk ! (length sk - 1) in
         if padding = 0 \<or> unat padding > length sk then Inl (Err InvalidArgument)
         else
           (let target_len = length sk - unat padding in
            if list_all (\<lambda>b. b = padding) (drop target_len sk) then Inr (take target_len sk)
            else Inl (Err InvalidArgument))))"

section \<open>AES key wrap\<close>

definition AES_KEY_WRAP_IV :: u64 where
  "AES_KEY_WRAP_IV = 0xa6a6a6a6a6a6a6a6"

text \<open>The \<open>i\<close>-th block of eight octets of the register array, and its replacement.\<close>

definition block :: "bytes \<Rightarrow> nat \<Rightarrow> bytes" where
  "block r i = take 8 (drop (8 * i) r)"

definition set_block :: "bytes \<Rightarrow> nat \<Rightarrow> bytes \<Rightarrow> bytes" where
  "set_block r i b = take (8 * i) r @ b @ drop (8 * i + 8) r"

definition wrap_step :: "(bytes \<Rightarrow> bytes res) \<Rightarrow> nat \<Rightarrow> nat \<times> nat \<Rightarrow> u64 \<times> bytes \<Rightarrow> (u64 \<times> bytes) res" where
  "wrap_step encrypt n = (\<lambda>(j, i) (a, r).
     and_then (encrypt (to_be_u64 a @ block r i)) (\<lambda>b.
       Inr (from_be_u64 (take 8 b) XOR word_of_nat (n * j + i + 1), set_block r i (drop 8 b))))"

definition unwrap_step :: "(bytes \<Rightarrow> bytes res) \<Rightarrow> nat \<Rightarrow> nat \<times> nat \<Rightarrow> u64 \<times> bytes \<Rightarrow> (u64 \<times> bytes) res" where
  "unwrap_step decrypt n = (\<lambda>(j, i) (a, r).
     and_then (decrypt (to_be_u64 (a XOR word_of_nat (n * j + i + 1)) @ block r i)) (\<lambda>b.
       Inr (from_be_u64 (take 8 b), set_block r i (drop 8 b))))"

text \<open>The loops \<open>for j in 0..6\<close>, \<open>for i in 0..n\<close>, as the list of their index pairs.\<close>

fun res_fold :: "('x \<Rightarrow> 's \<Rightarrow> 's res) \<Rightarrow> 'x list \<Rightarrow> 's \<Rightarrow> 's res" where
  "res_fold f [] s = Inr s"
| "res_fold f (x # xs) s = and_then (f x s) (res_fold f xs)"

definition rounds :: "nat \<Rightarrow> (nat \<times> nat) list" where
  "rounds n = concat (map (\<lambda>j. map (\<lambda>i. (j, i)) [0..<n]) [0..<6])"

definition aes_key_wrap :: "cipher_backend \<Rightarrow> SymmetricAlgorithm \<Rightarrow> bytes \<Rightarrow> bytes \<Rightarrow> bytes res" where
  "aes_key_wrap encryptor algo key plaintext =
     (if length plaintext mod 8 \<noteq> 0 then Inl (Err InvalidArgument)
      else
        and_then (key_size algo) (\<lambda>size.
          if length key \<noteq> size then Inl (Err InvalidArgument)
          else
            and_then (encryptor algo key) (\<lambda>encrypt.
              let n = length plaintext div 8 in
              and_then (res_fold (wrap_step encrypt n) (rounds n) (AES_KEY_WRAP_IV, plaintext))
                (\<lambda>(a, r). Inr (to_be_u64 a @ r)))))"

text \<open>
  The number of blocks is computed with subtractions on \<open>usize\<close>: no input block at all, or only
  the first one, makes one of them underflow.
\<close>

definition aes_key_unwrap :: "cipher_backend \<Rightarrow> SymmetricAlgorithm \<Rightarrow> bytes \<Rightarrow> bytes \<Rightarrow> bytes res" where
  "aes_key_unwrap decryptor algo key ciphertext =
     (if length ciphertext mod 8 \<noteq> 0 then Inl (Err InvalidArgument)
      else
        and_then (key_size algo) (\<lambda>size.
          if length key \<noteq> size then Inl (Err InvalidArgument)
          else
            and_then (decryptor algo key) (\<lambda>decrypt.
              if length ciphertext div 8 < 1 then Inl Panic
              else
                (let n = length ciphertext div 8 - 1 in
                 if n < 1 then Inl Panic
                 else
                   and_then (res_fold (unwrap_step decrypt n) (rev (rounds n))
                       (from_be_u64 (take 8 ciphertext), drop 8 ciphertext))
                     (\<lambda>(a, r). if a = AES_KEY_WRAP_IV then Inr r else Inl (Err InvalidArgument))))))"

section \<open>Wrapping session keys\<close>

definition anonymous_sender :: bytes where
  "anonymous_sender = map of_char ''Anonymous Sender    ''"

definition make_param :: "bytes \<Rightarrow> Curve \<Rightarrow> HashAlgorithm \<Rightarrow> SymmetricAlgorithm \<Rightarrow> bytes" where
  "make_param fingerprint curve hash symm =
     [word_of_nat (length (oid curve))] @ oid curve
     @ [u8_from_PublicKeyAlgorithm PublicKeyAlgorithm.ECDH]
     @ [3, 1, u8_from_HashAlgorithm hash, u8_from_SymmetricAlgorithm symm]
     @ anonymous_sender @ fingerprint"

definition encrypt_wrap ::
    "hash_backend \<Rightarrow> cipher_backend \<Rightarrow> PublicKey \<Rightarrow> bytes \<Rightarrow> bytes \<Rightarrow> MPI \<Rightarrow> bytes \<Rightarrow> Ciphertext res" where
  "encrypt_wrap context encryptor mpis fingerprint session_key VB S =
     (case mpis of
        PublicKey.ECDH curve q hash symm \<Rightarrow>
          and_then (pkcs5_pad session_key 40) (\<lambda>m.
          let param = make_param fingerprint curve hash symm in
          and_then (key_size symm) (\<lambda>size.
          and_then (kdf context S size hash param) (\<lambda>Z.
          and_then (aes_key_wrap encryptor symm Z m) (\<lambda>C.
          Inr (Ciphertext.ECDH VB C)))))
      | _ \<Rightarrow> Inl (Err InvalidArgument))"

definition decrypt_unwrap ::
    "hash_backend \<Rightarrow> cipher_backend \<Rightarrow> PublicKey \<Rightarrow> bytes \<Rightarrow> bytes \<Rightarrow> Ciphertext \<Rightarrow> bytes res" where
  "decrypt_unwrap context decryptor mpis fingerprint S ciphertext =
     (case (mpis, ciphertext) of
        (PublicKey.ECDH curve q hash symm, Ciphertext.ECDH e key) \<Rightarrow>
          (let param = make_param fingerprint curve hash symm in
           and_then (key_size symm) (\<lambda>size.
           and_then (kdf context S size hash param) (\<lambda>Z.
           and_then (aes_key_unwrap decryptor symm Z key) (\<lambda>m. pkcs5_unpad m))))
      | _ \<Rightarrow> Inl (Err InvalidArgument))"

section \<open>Properties of padding\<close>

lemma pkcs5_unpad_pad:
  assumes "length sk < n" "n \<le> 255"
  shows "\<exists>m. pkcs5_pad sk n = Inr m \<and> length m = n \<and> pkcs5_unpad m = Inr sk"
proof -
  define k where "k = n - length sk"
  have k: "0 < k" "k < 256" "n = length sk + k" using assms by (simp_all add: k_def)
  then have u: "unat (word_of_nat k :: u8) = k" by (simp add: unat_word_of_nat_u8)
  with k have nz: "(word_of_nat k :: u8) \<noteq> 0" by (metis unat_0 less_irrefl)
  let ?m = "sk @ replicate k (word_of_nat k)"
  have m: "pkcs5_pad sk n = Inr ?m" "length ?m = n" using k by (simp_all add: pkcs5_pad_def)
  have "n - 1 = length sk + (k - 1)" using k by simp
  then have "?m ! (n - 1) = word_of_nat k" using k by (simp only: nth_append_length_plus nth_replicate)
  then have "pkcs5_unpad ?m = Inr sk"
    using m(2) nz k u assms(2) by (simp add: pkcs5_unpad_def list_all_iff)
  with m show ?thesis by blast
qed

section \<open>Properties of the key wrap\<close>

text \<open>What the wrap needs of a block cipher: on blocks of 16 octets the decryptor undoes the encryptor.\<close>

definition inverse_ciphers :: "(bytes \<Rightarrow> bytes res) \<Rightarrow> (bytes \<Rightarrow> bytes res) \<Rightarrow> bool" where
  "inverse_ciphers encrypt decrypt \<longleftrightarrow>
     (\<forall>b. length b = 16 \<longrightarrow> (\<exists>c. encrypt b = Inr c \<and> length c = 16 \<and> decrypt c = Inr b))"

lemma res_fold_append: "res_fold f (xs @ ys) s = and_then (res_fold f xs s) (res_fold f ys)"
  by (induction xs arbitrary: s) (simp_all add: and_then_def split: sum.splits)

lemma res_fold_inverse:
  assumes "\<And>x s. x \<in> set xs \<Longrightarrow> P s \<Longrightarrow> \<exists>t. f x s = Inr t \<and> P t \<and> g x t = Inr s" "P s"
  shows "\<exists>t. res_fold f xs s = Inr t \<and> P t \<and> res_fold g (rev xs) t = Inr s"
  using assms
proof (induction xs arbitrary: s)
  case Nil
  then show ?case by simp
next
  case (Cons x xs)
  from Cons.prems(1) [of x s] Cons.prems(2) obtain t where t: "f x s = Inr t" "P t" "g x t = Inr s" by auto
  from Cons.IH [OF Cons.prems(1) t(2)] obtain u where "res_fold f xs t = Inr u" "P u" "res_fold g (rev xs) u = Inr t"
    by auto
  with t show ?case by (auto simp: res_fold_append)
qed

lemma length_block: "i < n \<Longrightarrow> length r = 8 * n \<Longrightarrow> length (block r i) = 8"
  by (simp add: block_def)

lemma block_set_block:
  assumes "i < n" "length r = 8 * n" "length b = 8"
  shows "block (set_block r i b) i = b" "set_block (set_block r i b) i (block r i) = r" "length (set_block r i b) = 8 * n"
proof -
  have l: "length (take (8 * i) r) = 8 * i" using assms by simp
  show "block (set_block r i b) i = b" using l assms(3) by (simp add: block_def set_block_def)
  show "length (set_block r i b) = 8 * n" using assms by (simp add: set_block_def)
  have "take 8 (drop (8 * i) r) @ drop (8 * i + 8) r = drop (8 * i) r"
    using append_take_drop_id [of 8 "drop (8 * i) r"] by (simp add: add.commute)
  then show "set_block (set_block r i b) i (block r i) = r"
    using l assms(3) by (simp add: block_def set_block_def)
qed

lemma set_rounds: "(j, i) \<in> set (rounds n) \<Longrightarrow> i < n"
  by (auto simp: rounds_def)

lemma unwrap_wrap_step:
  assumes "inverse_ciphers encrypt decrypt" "x \<in> set (rounds n)" "length (snd s) = 8 * n"
  shows "\<exists>t. wrap_step encrypt n x s = Inr t \<and> length (snd t) = 8 * n \<and> unwrap_step decrypt n x t = Inr s"
proof -
  obtain j i a r where x: "x = (j, i)" "s = (a, r)" by (metis surj_pair)
  have i: "i < n" "length r = 8 * n" using assms(2,3) x set_rounds by auto
  then have "length (to_be_u64 a @ block r i) = 16" by (simp add: length_block)
  then obtain c where c: "encrypt (to_be_u64 a @ block r i) = Inr c" "length c = 16" "decrypt c = Inr (to_be_u64 a @ block r i)"
    using assms(1) unfolding inverse_ciphers_def by blast
  have d: "length (drop 8 c) = 8" "to_be_u64 (from_be_u64 (take 8 c)) = take 8 c" using c(2) by (simp_all add: to_from_be_u64)
  note sb = block_set_block [OF i d(1)]
  have "(from_be_u64 (take 8 c) XOR w) XOR w = from_be_u64 (take 8 c)" for w by (simp add: xor.assoc)
  with c d sb show ?thesis by (simp add: x wrap_step_def unwrap_step_def)
qed

lemma aes_key_unwrap_wrap:
  assumes "key_size algo = Inr (length key)" "encryptor algo key = Inr encrypt" "decryptor algo key = Inr decrypt"
    and "inverse_ciphers encrypt decrypt" "length plaintext mod 8 = 0" "plaintext \<noteq> []"
  shows "\<exists>c. aes_key_wrap encryptor algo key plaintext = Inr c \<and> length c = length plaintext + 8
    \<and> aes_key_unwrap decryptor algo key c = Inr plaintext"
proof -
  define n where "n = length plaintext div 8"
  have n: "length plaintext = 8 * n" using assms(5) by (auto simp: n_def)
  moreover have "0 < length plaintext" using assms(6) by simp
  ultimately have "0 < n" by simp
  let ?P = "\<lambda>s :: u64 \<times> bytes. length (snd s) = 8 * n"
  from res_fold_inverse [of "rounds n" ?P "wrap_step encrypt n" "unwrap_step decrypt n" "(AES_KEY_WRAP_IV, plaintext)"]
  obtain a r where t: "res_fold (wrap_step encrypt n) (rounds n) (AES_KEY_WRAP_IV, plaintext) = Inr (a, r)" "length r = 8 * n"
    "res_fold (unwrap_step decrypt n) (rev (rounds n)) (a, r) = Inr (AES_KEY_WRAP_IV, plaintext)"
    using unwrap_wrap_step [OF assms(4)] n by auto
  have "aes_key_wrap encryptor algo key plaintext = Inr (to_be_u64 a @ r)"
    using assms(1,2,5) t(1) by (simp add: aes_key_wrap_def n_def [symmetric])
  moreover have "length (to_be_u64 a @ r) div 8 - 1 = n" "length (to_be_u64 a @ r) mod 8 = 0" using t(2) by simp_all
  then have "aes_key_unwrap decryptor algo key (to_be_u64 a @ r) = Inr plaintext"
    using assms(1,3) t n \<open>0 < n\<close> by (simp add: aes_key_unwrap_def)
  ultimately show ?thesis using t(2) n by simp
qed

lemma ecdh_wrap_unwrap:
  assumes "key_size symm = Inr sz" "context hash = Inr (dsz, digest)" "sz \<le> dsz"
    and "\<And>x. length (digest x) = dsz"
    and "\<And>key. length key = sz \<Longrightarrow> encryptor symm key = Inr (encrypt key) \<and> decryptor symm key = Inr (decrypt key)
      \<and> inverse_ciphers (encrypt key) (decrypt key)"
    and "length session_key < 40"
  shows "\<exists>C. encrypt_wrap context encryptor (PublicKey.ECDH curve q hash symm) fp session_key VB S = Inr (Ciphertext.ECDH VB C)
    \<and> length C = 48
    \<and> decrypt_unwrap context decryptor (PublicKey.ECDH curve q hash symm) fp S (Ciphertext.ECDH VB C) = Inr session_key"
proof -
  obtain m where m: "pkcs5_pad session_key 40 = Inr m" "length m = 40" "pkcs5_unpad m = Inr session_key"
    using pkcs5_unpad_pad [of session_key 40] assms(6) by auto
  define Z where "Z = take sz (digest ([0, 0, 0, 1] @ S @ make_param fp curve hash symm))"
  have Z: "kdf context S sz hash (make_param fp curve hash symm) = Inr Z" "length Z = sz"
    using assms(2,3,4) by (simp_all add: kdf_def Z_def)
  have c: "encryptor symm Z = Inr (encrypt Z)" "decryptor symm Z = Inr (decrypt Z)" "inverse_ciphers (encrypt Z) (decrypt Z)"
    using assms(5) [OF Z(2)] by simp_all
  have ks: "key_size symm = Inr (length Z)" using assms(1) Z(2) by simp
  have "m \<noteq> []" using m(2) by auto
  then obtain C where "aes_key_wrap encryptor symm Z m = Inr C" "length C = 48" "aes_key_unwrap decryptor symm Z C = Inr m"
    using aes_key_unwrap_wrap [of symm Z encryptor _ decryptor _ m, OF ks c] m(2) by auto
  with m Z assms(1) show ?thesis by (simp add: encrypt_wrap_def decrypt_unwrap_def)
qed

section \<open>Theorems\<close>

text \<open>
  A session key of fewer than 40 octets that was wrapped for an ECDH key is recovered by the
  owner of the same shared secret: \<open>decrypt_unwrap\<close> undoes \<open>encrypt_wrap\<close>, for every cipher whose
  decryption inverts its encryption and every hash whose digests are long enough for the
  wrapping key. The wrapped key always has 48 octets, whatever the session key.
\<close>

theorem ecdh_wrap_roundtrip:
  assumes "key_size symm = Inr sz" "context hash = Inr (dsz, digest)" "sz \<le> dsz"
    and "\<And>x. length (digest x) = dsz"
    and "\<And>key. length key = sz \<Longrightarrow> encryptor symm key = Inr (encrypt key) \<and> decryptor symm key = Inr (decrypt key)
      \<and> inverse_ciphers (encrypt key) (decrypt key)"
    and "length session_key < 40"
  shows "\<exists>C. encrypt_wrap context encryptor (PublicKey.ECDH curve q hash symm) fp session_key VB S = Inr (Ciphertext.ECDH VB C)
    \<and> length C = 48
    \<and> decrypt_unwrap context decryptor (PublicKey.ECDH curve q hash symm) fp S (Ciphertext.ECDH VB C) = Inr session_key"
  using assms by (rule ecdh_wrap_unwrap)

theorem ecdh_wrap_roundtrip_witness:
  "\<exists>C. encrypt_wrap (\<lambda>_. Inr (32, \<lambda>_. replicate 32 5)) (\<lambda>_ _. Inr (\<lambda>b. Inr (rev b)))
        (PublicKey.ECDH Curve.Cv25519 MPI_zero HashAlgorithm.SHA256 SymmetricAlgorithm.AES128) [1] [9, 8] MPI_zero [7]
      = Inr (Ciphertext.ECDH MPI_zero C)
    \<and> length C = 48
    \<and> decrypt_unwrap (\<lambda>_. Inr (32, \<lambda>_. replicate 32 5)) (\<lambda>_ _. Inr (\<lambda>b. Inr (rev b)))
        (PublicKey.ECDH Curve.Cv25519 MPI_zero HashAlgorithm.SHA256 SymmetricAlgorithm.AES128) [1] [7] (Ciphertext.ECDH MPI_zero C)
      = Inr [9, 8]"
  by (rule ecdh_wrap_roundtrip [where sz = 16 and dsz = 32 and digest = "\<lambda>_. replicate 32 5"
        and encrypt = "\<lambda>_ b. Inr (rev b)" and decrypt = "\<lambda>_ b. Inr (rev b)"])
    (simp_all add: key_size_def inverse_ciphers_def)

text \<open>
  The AES key wrap of RFC 3394: unwrapping with the same key returns the plaintext, for every
  non-empty plaintext of whole blocks and every block cipher whose decryption inverts its
  encryption; the ciphertext is one block longer.
\<close>

theorem aes_key_wrap_roundtrip:
  assumes "key_size algo = Inr (length key)" "encryptor algo key = Inr encrypt" "decryptor algo key = Inr decrypt"
    and "inverse_ciphers encrypt decrypt" "length plaintext mod 8 = 0" "plaintext \<noteq> []"
  shows "\<exists>c. aes_key_wrap encryptor algo key plaintext = Inr c \<and> length c = length plaintext + 8
    \<and> aes_key_unwrap decryptor algo key c = Inr plaintext"
  using assms by (rule aes_key_unwrap_wrap)

theorem aes_key_wrap_roundtrip_witness:
  "\<exists>c. aes_key_wrap (\<lambda>_ _. Inr (\<lambda>b. Inr (rev b))) SymmetricAlgorithm.AES128 (replicate 16 1) (replicate 16 2) = Inr c
    \<and> length c = length (replicate 16 (2 :: u8)) + 8
    \<and> aes_key_unwrap (\<lambda>_ _. Inr (\<lambda>b. Inr (rev b))) SymmetricAlgorithm.AES128 (replicate 16 1) c = Inr (replicate 16 2)"
  by (rule aes_key_wrap_roundtrip [where encrypt = "\<lambda>b. Inr (rev b)" and decrypt = "\<lambda>b. Inr (rev b)"])
    (simp_all add: key_size_def inverse_ciphers_def)

text \<open>
  A defect of \<open>aes_key_unwrap\<close>: a wrapped key of no or of one block makes the computation of
  the number of blocks underflow and aborts the process. The parser of ciphertexts delivers such
  a key, here from an integer followed by the length octet 0, so that a message can abort its recipient.
\<close>

theorem ecdh_unwrap_panics:
  assumes "key_size symm = Inr sz" "context hash = Inr (dsz, digest)" "sz \<le> dsz"
    and "\<And>x. length (digest x) = dsz" "\<And>key. length key = sz \<Longrightarrow> is_ok (decryptor symm key)"
    and "length C = 8"
  shows "Ciphertext_parse PublicKeyAlgorithm.ECDH [0, 1, 1, 0] = Inr (Ciphertext.ECDH \<lparr>MPI_value = [1]\<rparr> [], [])
    \<and> decrypt_unwrap context decryptor (PublicKey.ECDH curve q hash symm) fp S (Ciphertext.ECDH \<lparr>MPI_value = [1]\<rparr> []) = Inl Panic
    \<and> decrypt_unwrap context decryptor (PublicKey.ECDH curve q hash symm) fp S (Ciphertext.ECDH VB C) = Inl Panic"
proof -
  define Z where "Z = take sz (digest ([0, 0, 0, 1] @ S @ make_param fp curve hash symm))"
  have Z: "kdf context S sz hash (make_param fp curve hash symm) = Inr Z" "length Z = sz"
    using assms(2,3,4) by (simp_all add: kdf_def Z_def)
  obtain d where "decryptor symm Z = Inr d" using assms(5) [OF Z(2)] by (auto simp: is_ok_iff)
  with assms(1) Z have "aes_key_unwrap decryptor symm Z C = Inl Panic" if "length C = 8 \<or> C = []" for C
    using that by (auto simp: aes_key_unwrap_def)
  with Z assms(1) have "decrypt_unwrap context decryptor (PublicKey.ECDH curve q hash symm) fp S (Ciphertext.ECDH VB C) = Inl Panic"
    if "length C = 8 \<or> C = []" for VB C
    using that by (simp add: decrypt_unwrap_def)
  moreover have "Ciphertext_parse PublicKeyAlgorithm.ECDH [0, 1, 1, 0] = Inr (Ciphertext.ECDH \<lparr>MPI_value = [1]\<rparr> [], [])"
    by code_simp
  ultimately show ?thesis using assms(6) by simp
qed

theorem ecdh_unwrap_panics_witness:
  "Ciphertext_parse PublicKeyAlgorithm.ECDH [0, 1, 1, 0] = Inr (Ciphertext.ECDH \<lparr>MPI_value = [1]\<rparr> [], [])
    \<and> decrypt_unwrap (\<lambda>_. Inr (32, \<lambda>_. replicate 32 5)) (\<lambda>_ _. Inr (\<lambda>b. Inr (rev b)))
        (PublicKey.ECDH Curve.Cv25519 MPI_zero HashAlgorithm.SHA256 SymmetricAlgorithm.AES128) [1] [7]
        (Ciphertext.ECDH \<lparr>MPI_value = [1]\<rparr> []) = Inl Panic
    \<and> decrypt_unwrap (\<lambda>_. Inr (32, \<lambda>_. replicate 32 5)) (\<lambda>_ _. Inr (\<lambda>b. Inr (rev b)))
        (PublicKey.ECDH Curve.Cv25519 MPI_zero HashAlgorithm.SHA256 SymmetricAlgorithm.AES128) [1] [7]
        (Ciphertext.ECDH MPI_zero (replicate 8 3)) = Inl Panic"
  by (rule ecdh_unwrap_panics [where sz = 16 and dsz = 32 and digest = "\<lambda>_. replicate 32 5"])
    (simp_all add: key_size_def)

end
