(* ===== verification/Flags.thy ===== *)
theory Flags
  imports Header
begin

text \<open>
  Sets of flags in signature subpackets: \<open>Bitfield\<close> (\<open>types/bitfield.rs\<close>) and \<open>KeyFlags\<close>
  (\<open>types/key_flags.rs\<close>). A bit field grows to hold the bits that are set and reads as unset beyond
  its end, so different octets can stand for the same flags.
\<close>

unbundle bit_operations_syntax

section \<open>The interface\<close>

text \<open>
  What the users of flags rely on: a flag reads as it was last written and writing one leaves the
  others alone.
\<close>

locale flag_set =
  fixes get_flag :: "'f \<Rightarrow> nat \<Rightarrow> bool"
    and set_flag :: "'f \<Rightarrow> nat \<Rightarrow> 'f"
    and clear_flag :: "'f \<Rightarrow> nat \<Rightarrow> 'f"
  assumes get_set: "get_flag (set_flag f i) j \<longleftrightarrow> i = j \<or> get_flag f j"
    and get_clear: "get_flag (clear_flag f i) j \<longleftrightarrow> i \<noteq> j \<and> get_flag f j"
begin

definition flags :: "'f \<Rightarrow> nat set" where
  "flags f = {i. get_flag f i}"

lemma flags_set: "flags (set_flag f i) = insert i (flags f)"
  by (auto simp: flags_def get_set)

lemma flags_clear: "flags (clear_flag f i) = flags f - {i}"
  by (auto simp: flags_def get_clear)

lemma flags_foldl_set: "flags (foldl set_flag f is) = flags f \<union> set is"
  by (induction "is" arbitrary: f) (auto simp: flags_set)

lemma flags_foldl_clear: "flags (foldl clear_flag f is) = flags f - set is"
  by (induction "is" arbitrary: f) (auto simp: flags_clear)

end

section \<open>Bit fields\<close>

record Bitfield =
  raw :: bytes

definition Bitfield_get :: "Bitfield \<Rightarrow> nat \<Rightarrow> bool" where
  "Bitfield_get f i =
     (let byte = i div 8 in
      if byte \<ge> length (raw f) then False
      else (raw f ! byte) AND push_bit (i mod 8) 1 \<noteq> 0)"

definition Bitfield_set :: "Bitfield \<Rightarrow> nat \<Rightarrow> Bitfield" where
  "Bitfield_set f i =
     (let byte = i div 8;
          grown = raw f @ replicate (Suc byte - length (raw f)) 0 in
      f\<lparr>raw := grown[byte := (grown ! byte) OR push_bit (i mod 8) 1]\<rparr>)"

definition Bitfield_clear :: "Bitfield \<Rightarrow> nat \<Rightarrow> Bitfield" where
  "Bitfield_clear f i =
     (let byte = i div 8 in
      if byte < length (raw f) then f\<lparr>raw := (raw f)[byte := (raw f ! byte) AND NOT (push_bit (i mod 8) 1)]\<rparr>
      else f)"

definition iter_set :: "Bitfield \<Rightarrow> nat list" where
  "iter_set f =
     (let bits = concat (map (\<lambda>b. map (\<lambda>i. b AND push_bit i 1 \<noteq> 0) [0..<8]) (raw f)) in
      map fst (filter snd (enumerate 0 bits)))"

definition padding_bytes :: "Bitfield \<Rightarrow> nat option" where
  "padding_bytes f =
     (let n = length (takeWhile (\<lambda>b. b = 0) (rev (raw f))) in if n = 0 then None else Some n)"

definition normalized_eq :: "Bitfield \<Rightarrow> Bitfield \<Rightarrow> bool" where
  "normalized_eq f g =
     (let (small, big) = (if length (raw f) < length (raw g) then (f, g) else (g, f)) in
      list_all (\<lambda>(s, b). s = b) (zip (raw small) (raw big))
      \<and> list_all (\<lambda>b. b = 0) (drop (length (raw small)) (raw big)))"

function canonicalize_raw :: "bytes \<Rightarrow> bytes" where
  "canonicalize_raw bs =
     (if bs \<noteq> [] \<and> bs ! (length bs - 1) = 0 then canonicalize_raw (take (length bs - 1) bs) else bs)"
  by pat_completeness auto
termination by (relation "measure length") auto

declare canonicalize_raw.simps [simp del]

definition canonicalize :: "Bitfield \<Rightarrow> Bitfield" where
  "canonicalize f = f\<lparr>raw := canonicalize_raw (raw f)\<rparr>"

section \<open>Key flags\<close>

record KeyFlags =
  key_flags :: Bitfield

definition KEY_FLAG_CERTIFY :: nat where "KEY_FLAG_CERTIFY = 0"
definition KEY_FLAG_SIGN :: nat where "KEY_FLAG_SIGN = 1"
definition KEY_FLAG_ENCRYPT_FOR_TRANSPORT :: nat where "KEY_FLAG_ENCRYPT_FOR_TRANSPORT = 2"
definition KEY_FLAG_ENCRYPT_AT_REST :: nat where "KEY_FLAG_ENCRYPT_AT_REST = 3"
definition KEY_FLAG_SPLIT_KEY :: nat where "KEY_FLAG_SPLIT_KEY = 4"
definition KEY_FLAG_AUTHENTICATE :: nat where "KEY_FLAG_AUTHENTICATE = 5"
definition KEY_FLAG_GROUP_KEY :: nat where "KEY_FLAG_GROUP_KEY = 7"

definition KeyFlags_new :: "bytes \<Rightarrow> KeyFlags" where
  "KeyFlags_new bits = \<lparr>key_flags = \<lparr>raw = bits\<rparr>\<rparr>"

definition KeyFlags_empty :: KeyFlags where
  "KeyFlags_empty = KeyFlags_new []"

definition KeyFlags_get :: "KeyFlags \<Rightarrow> nat \<Rightarrow> bool" where
  "KeyFlags_get k i = Bitfield_get (key_flags k) i"

definition KeyFlags_set :: "KeyFlags \<Rightarrow> nat \<Rightarrow> KeyFlags" where
  "KeyFlags_set k i = k\<lparr>key_flags := canonicalize (Bitfield_set (key_flags k) i)\<rparr>"

definition KeyFlags_clear :: "KeyFlags \<Rightarrow> nat \<Rightarrow> KeyFlags" where
  "KeyFlags_clear k i = k\<lparr>key_flags := canonicalize (Bitfield_clear (key_flags k) i)\<rparr>"

definition KeyFlags_normalized_eq :: "KeyFlags \<Rightarrow> KeyFlags \<Rightarrow> bool" where
  "KeyFlags_normalized_eq k l = normalized_eq (key_flags k) (key_flags l)"

definition KeyFlags_bitand :: "KeyFlags \<Rightarrow> KeyFlags \<Rightarrow> KeyFlags" where
  "KeyFlags_bitand k l =
     KeyFlags_new (map (\<lambda>(l, r). l AND r) (zip (raw (key_flags k)) (raw (key_flags l))))"

definition KeyFlags_bitor :: "KeyFlags \<Rightarrow> KeyFlags \<Rightarrow> KeyFlags" where
  "KeyFlags_bitor k l =
     (let l0 = raw (key_flags k); r0 = raw (key_flags l);
          (l, r) = (if length l0 > length r0 then (l0, r0) else (r0, l0)) in
      KeyFlags_new (map (\<lambda>(a, b). a OR b) (zip (take (length r) l) r) @ drop (length r) l))"

definition KeyFlags_is_empty :: "KeyFlags \<Rightarrow> bool" where
  "KeyFlags_is_empty k \<longleftrightarrow> list_all (\<lambda>b. b = 0) (raw (key_flags k))"

subsection \<open>Named flags\<close>

definition KeyFlags_for_certification :: "KeyFlags \<Rightarrow> bool" where
  "KeyFlags_for_certification k = KeyFlags_get k KEY_FLAG_CERTIFY"

definition set_certification :: "KeyFlags \<Rightarrow> KeyFlags" where
  "set_certification k = KeyFlags_set k KEY_FLAG_CERTIFY"

definition only_certification :: KeyFlags where
  "only_certification = set_certification KeyFlags_empty"

definition clear_certification :: "KeyFlags \<Rightarrow> KeyFlags" where
  "clear_certification k = KeyFlags_clear k KEY_FLAG_CERTIFY"

definition set_certification_to :: "KeyFlags \<Rightarrow> bool \<Rightarrow> KeyFlags" where
  "set_certification_to k v = (if v then KeyFlags_set k KEY_FLAG_CERTIFY else KeyFlags_clear k KEY_FLAG_CERTIFY)"

definition KeyFlags_for_signing :: "KeyFlags \<Rightarrow> bool" where
  "KeyFlags_for_signing k = KeyFlags_get k KEY_FLAG_SIGN"

definition set_signing :: "KeyFlags \<Rightarrow> KeyFlags" where
  "set_signing k = KeyFlags_set k KEY_FLAG_SIGN"

definition only_signing :: KeyFlags where
  "only_signing = set_signing KeyFlags_empty"

definition clear_signing :: "KeyFlags \<Rightarrow> KeyFlags" where
  "clear_signing k = KeyFlags_clear k KEY_FLAG_SIGN"

definition set_signing_to :: "KeyFlags \<Rightarrow> bool \<Rightarrow> KeyFlags" where
  "set_signing_to k v = (if v then KeyFlags_set k KEY_FLAG_SIGN else KeyFlags_clear k KEY_FLAG_SIGN)"

definition KeyFlags_for_transport_encryption :: "KeyFlags \<Rightarrow> bool" where
  "KeyFlags_for_transport_encryption k = KeyFlags_get k KEY_FLAG_ENCRYPT_FOR_TRANSPORT"

definition set_transport_encryption :: "KeyFlags \<Rightarrow> KeyFlags" where
  "set_transport_encryption k = KeyFlags_set k KEY_FLAG_ENCRYPT_FOR_TRANSPORT"

definition only_transport_encryption :: KeyFlags where
  "only_transport_encryption = set_transport_encryption KeyFlags_empty"

definition clear_transport_encryption :: "KeyFlags \<Rightarrow> KeyFlags" where
  "clear_transport_encryption k = KeyFlags_clear k KEY_FLAG_ENCRYPT_FOR_TRANSPORT"

definition set_transport_encryption_to :: "KeyFlags \<Rightarrow> bool \<Rightarrow> KeyFlags" where
  "set_transport_encryption_to k v = (if v then KeyFlags_set k KEY_FLAG_ENCRYPT_FOR_TRANSPORT else KeyFlags_clear k KEY_FLAG_ENCRYPT_FOR_TRANSPORT)"

definition KeyFlags_for_storage_encryption :: "KeyFlags \<Rightarrow> bool" where
  "KeyFlags_for_storage_encryption k = KeyFlags_get k KEY_FLAG_ENCRYPT_AT_REST"

definition set_storage_encryption :: "KeyFlags \<Rightarrow> KeyFlags" where
  "set_storage_encryption k = KeyFlags_set k KEY_FLAG_ENCRYPT_AT_REST"

definition only_storage_encryption :: KeyFlags where
  "only_storage_encryption = set_storage_encryption KeyFlags_empty"

definition clear_storage_encryption :: "KeyFlags \<Rightarrow> KeyFlags" where
  "clear_storage_encryption k = KeyFlags_clear k KEY_FLAG_ENCRYPT_AT_REST"

definition set_storage_encryption_to :: "KeyFlags \<Rightarrow> bool \<Rightarrow> KeyFlags" where
  "set_storage_encryption_to k v = (if v then KeyFlags_set k KEY_FLAG_ENCRYPT_AT_REST else KeyFlags_clear k KEY_FLAG_ENCRYPT_AT_REST)"

definition KeyFlags_for_authentication :: "KeyFlags \<Rightarrow> bool" where
  "KeyFlags_for_authentication k = KeyFlags_get k KEY_FLAG_AUTHENTICATE"

definition set_authentication :: "KeyFlags \<Rightarrow> KeyFlags" where
  "set_authentication k = KeyFlags_set k KEY_FLAG_AUTHENTICATE"

definition only_authentication :: KeyFlags where
  "only_authentication = set_authentication KeyFlags_empty"

definition clear_authentication :: "KeyFlags \<Rightarrow> KeyFlags" where
  "clear_authentication k = KeyFlags_clear k KEY_FLAG_AUTHENTICATE"

definition set_authentication_to :: "KeyFlags \<Rightarrow> bool \<Rightarrow> KeyFlags" where
  "set_authentication_to k v = (if v then KeyFlags_set k KEY_FLAG_AUTHENTICATE else KeyFlags_clear k KEY_FLAG_AUTHENTICATE)"

definition KeyFlags_is_split_key :: "KeyFlags \<Rightarrow> bool" where
  "KeyFlags_is_split_key k = KeyFlags_get k KEY_FLAG_SPLIT_KEY"

definition set_split_key :: "KeyFlags \<Rightarrow> KeyFlags" where
  "set_split_key k = KeyFlags_set k KEY_FLAG_SPLIT_KEY"

definition only_split_key :: KeyFlags where
  "only_split_key = set_split_key KeyFlags_empty"

definition clear_split_key :: "KeyFlags \<Rightarrow> KeyFlags" where
  "clear_split_key k = KeyFlags_clear k KEY_FLAG_SPLIT_KEY"

definition set_split_key_to :: "KeyFlags \<Rightarrow> bool \<Rightarrow> KeyFlags" where
  "set_split_key_to k v = (if v then KeyFlags_set k KEY_FLAG_SPLIT_KEY else KeyFlags_clear k KEY_FLAG_SPLIT_KEY)"

definition KeyFlags_is_group_key :: "KeyFlags \<Rightarrow> bool" where
  "KeyFlags_is_group_key k = KeyFlags_get k KEY_FLAG_GROUP_KEY"

definition set_group_key :: "KeyFlags \<Rightarrow> KeyFlags" where
  "set_group_key k = KeyFlags_set k KEY_FLAG_GROUP_KEY"

definition only_group_key :: KeyFlags where
  "only_group_key = set_group_key KeyFlags_empty"

definition clear_group_key :: "KeyFlags \<Rightarrow> KeyFlags" where
  "clear_group_key k = KeyFlags_clear k KEY_FLAG_GROUP_KEY"

definition set_group_key_to :: "KeyFlags \<Rightarrow> bool \<Rightarrow> KeyFlags" where
  "set_group_key_to k v = (if v then KeyFlags_set k KEY_FLAG_GROUP_KEY else KeyFlags_clear k KEY_FLAG_GROUP_KEY)"

lemmas key_flag_codes = KEY_FLAG_CERTIFY_def KEY_FLAG_SIGN_def KEY_FLAG_ENCRYPT_FOR_TRANSPORT_def
  KEY_FLAG_ENCRYPT_AT_REST_def KEY_FLAG_SPLIT_KEY_def KEY_FLAG_AUTHENTICATE_def KEY_FLAG_GROUP_KEY_def

lemmas named_key_flag_defs =
  KeyFlags_for_certification_def set_certification_def only_certification_def clear_certification_def
  set_certification_to_def KeyFlags_for_signing_def set_signing_def only_signing_def
  clear_signing_def set_signing_to_def KeyFlags_for_transport_encryption_def set_transport_encryption_def
  only_transport_encryption_def clear_transport_encryption_def set_transport_encryption_to_def KeyFlags_for_storage_encryption_def
  set_storage_encryption_def only_storage_encryption_def clear_storage_encryption_def set_storage_encryption_to_def
  KeyFlags_for_authentication_def set_authentication_def only_authentication_def clear_authentication_def
  set_authentication_to_def KeyFlags_is_split_key_def set_split_key_def only_split_key_def
  clear_split_key_def set_split_key_to_def KeyFlags_is_group_key_def set_group_key_def
  only_group_key_def clear_group_key_def set_group_key_to_def

section \<open>Properties\<close>

lemma bit_octet_exp: "i mod 8 < 8 \<Longrightarrow> bit (2 ^ (i mod 8) :: u8) (j mod 8) \<longleftrightarrow> i mod 8 = j mod 8"
  by (auto simp: bit_exp_iff)

lemma and_exp_nonzero: "n < 8 \<Longrightarrow> (b :: u8) AND 2 ^ n = 0 \<longleftrightarrow> \<not> bit b n"
  by (auto simp: and_exp_eq_0_iff_not_bit)

lemma or_exp_bit: "bit ((b :: u8) OR 2 ^ (i mod 8)) (j mod 8) \<longleftrightarrow> bit b (j mod 8) \<or> i mod 8 = j mod 8"
  by (simp add: bit_or_iff bit_octet_exp)

lemma and_not_exp_bit:
  "bit ((b :: u8) AND NOT (2 ^ (i mod 8))) (j mod 8) \<longleftrightarrow> bit b (j mod 8) \<and> i mod 8 \<noteq> j mod 8"
  by (auto simp: bit_and_iff bit_not_iff bit_octet_exp)

lemmas octet_bits = push_bit_of_1 and_exp_nonzero or_exp_bit and_not_exp_bit

lemma Bitfield_get_bit: "Bitfield_get f i \<longleftrightarrow> i div 8 < length (raw f) \<and> bit (raw f ! (i div 8)) (i mod 8)"
  by (auto simp: Bitfield_get_def Let_def octet_bits)

lemma div_mod_8_eq: "i div 8 = j div 8 \<Longrightarrow> i mod 8 = j mod 8 \<longleftrightarrow> i = (j :: nat)"
  by (metis div_mult_mod_eq)

lemma Bitfield_get_set: "Bitfield_get (Bitfield_set f i) j \<longleftrightarrow> i = j \<or> Bitfield_get f j"
proof (cases "i div 8 = j div 8")
  case True
  then show ?thesis
    using div_mod_8_eq [OF True]
    by (auto simp: Bitfield_get_bit Bitfield_set_def Let_def octet_bits nth_append)
next
  case False
  then have "i \<noteq> j" by auto
  let ?g = "raw f @ replicate (Suc (i div 8) - length (raw f)) 0"
  have "j div 8 < length ?g \<and> bit (?g ! (j div 8)) (j mod 8) \<longleftrightarrow> Bitfield_get f j"
    by (cases "j div 8 < length (raw f)") (auto simp: Bitfield_get_bit nth_append)
  then show ?thesis
    using False \<open>i \<noteq> j\<close> by (subst Bitfield_get_bit) (simp add: Bitfield_set_def Let_def)
qed

lemma Bitfield_get_clear: "Bitfield_get (Bitfield_clear f i) j \<longleftrightarrow> i \<noteq> j \<and> Bitfield_get f j"
proof (cases "i div 8 = j div 8")
  case True
  then show ?thesis
    using div_mod_8_eq [OF True] by (auto simp: Bitfield_get_bit Bitfield_clear_def Let_def octet_bits)
next
  case False
  then show ?thesis by (auto simp: Bitfield_get_bit Bitfield_clear_def Let_def)
qed

interpretation bitfield: flag_set Bitfield_get Bitfield_set Bitfield_clear
  by unfold_locales (simp_all add: Bitfield_get_set Bitfield_get_clear)

lemma canonicalize_raw_dropWhile: "canonicalize_raw bs = rev (dropWhile (\<lambda>b. b = 0) (rev bs))"
proof (induction bs rule: rev_induct)
  case Nil
  then show ?case by (simp add: canonicalize_raw.simps)
next
  case (snoc b bs)
  then show ?case by (simp add: canonicalize_raw.simps [of "bs @ [b]"])
qed

lemma Bitfield_get_append_zeros: "list_all (\<lambda>b. b = 0) zs \<Longrightarrow> Bitfield_get \<lparr>raw = bs @ zs\<rparr> i \<longleftrightarrow> Bitfield_get \<lparr>raw = bs\<rparr> i"
  by (auto simp: Bitfield_get_bit nth_append list_all_length)

lemma canonicalize_raw_split:
  obtains zs where "bs = canonicalize_raw bs @ zs" "list_all (\<lambda>b. b = 0) zs"
proof
  let ?z = "rev (takeWhile (\<lambda>b. b = 0) (rev bs))"
  show "bs = canonicalize_raw bs @ ?z"
    unfolding canonicalize_raw_dropWhile rev_append [symmetric] by (simp only: takeWhile_dropWhile_id rev_rev_ident)
  show "list_all (\<lambda>b. b = 0) ?z" by (auto simp: list_all_iff dest: set_takeWhileD)
qed

lemma Bitfield_get_canonicalize: "Bitfield_get (canonicalize f) i \<longleftrightarrow> Bitfield_get f i"
proof -
  obtain zs where "raw f = canonicalize_raw (raw f) @ zs" "list_all (\<lambda>b. b = 0) zs"
    by (rule canonicalize_raw_split)
  then show ?thesis
    using Bitfield_get_append_zeros [of zs "canonicalize_raw (raw f)" i]
    by (simp add: canonicalize_def Bitfield_get_bit)
qed

interpretation key_flags: flag_set KeyFlags_get KeyFlags_set KeyFlags_clear
  by unfold_locales
    (simp_all add: KeyFlags_get_def KeyFlags_set_def KeyFlags_clear_def Bitfield_get_canonicalize
      Bitfield_get_set Bitfield_get_clear)

lemma canonicalize_raw_last: "canonicalize_raw bs = [] \<or> last (canonicalize_raw bs) \<noteq> 0"
  by (metis (mono_tags) canonicalize_raw_dropWhile hd_dropWhile last_rev rev.simps(1))

lemma canonicalize_raw_id: "bs = [] \<or> last bs \<noteq> 0 \<Longrightarrow> canonicalize_raw bs = bs"
  by (cases bs rule: rev_cases) (simp_all add: canonicalize_raw.simps)

lemma Bitfield_get_at: "n < 8 \<Longrightarrow> Bitfield_get f (8 * k + n) \<longleftrightarrow> k < length (raw f) \<and> bit (raw f ! k) n"
  by (simp add: Bitfield_get_bit)

lemma octet_eqI: "(\<And>n. n < 8 \<Longrightarrow> bit (a :: u8) n = bit b n) \<Longrightarrow> a = b"
  by (rule bit_word_eqI) simp

lemma octets_nonzero_bit: "(b :: u8) \<noteq> 0 \<Longrightarrow> \<exists>n < 8. bit b n"
  using octet_eqI [of b 0] by auto

lemma canonical_length_le:
  assumes "last (raw f) \<noteq> 0" "raw f \<noteq> []" "\<forall>i. Bitfield_get f i \<longrightarrow> Bitfield_get g i"
  shows "length (raw f) \<le> length (raw g)"
proof -
  let ?k = "length (raw f) - 1"
  obtain n where n: "n < 8" "bit (raw f ! ?k) n"
    using assms octets_nonzero_bit [of "last (raw f)"] by (auto simp: last_conv_nth)
  then have "Bitfield_get f (8 * ?k + n)" using assms(2) by (simp add: Bitfield_get_at)
  then have "Bitfield_get g (8 * ?k + n)" using assms(3) by blast
  then have "?k < length (raw g)" using n(1) Bitfield_get_at by blast
  then show ?thesis by arith
qed

lemma same_length_same_flags:
  assumes "length (raw f) = length (raw g)" "\<forall>i. Bitfield_get f i = Bitfield_get g i"
  shows "raw f = raw g"
proof (rule nth_equalityI [OF assms(1)])
  fix k assume "k < length (raw f)"
  then show "raw f ! k = raw g ! k"
    using assms Bitfield_get_at [of _ f k] Bitfield_get_at [of _ g k] by (intro octet_eqI) auto
qed

lemma canonical_unique:
  assumes "raw f = [] \<or> last (raw f) \<noteq> 0" "raw g = [] \<or> last (raw g) \<noteq> 0"
    and "\<forall>i. Bitfield_get f i = Bitfield_get g i"
  shows "raw f = raw g"
proof -
  have "length (raw f) \<le> length (raw g)"
    using assms canonical_length_le [of f g] by (cases "raw f = []") auto
  moreover have "length (raw g) \<le> length (raw f)"
    using assms canonical_length_le [of g f] by (cases "raw g = []") auto
  ultimately show ?thesis using assms(3) same_length_same_flags by simp
qed

lemma canonicalize_eq_iff: "canonicalize f = canonicalize g \<longleftrightarrow> (\<forall>i. Bitfield_get f i = Bitfield_get g i)"
proof
  assume "canonicalize f = canonicalize g"
  then show "\<forall>i. Bitfield_get f i = Bitfield_get g i" by (metis Bitfield_get_canonicalize)
next
  assume "\<forall>i. Bitfield_get f i = Bitfield_get g i"
  then have "raw (canonicalize f) = raw (canonicalize g)"
    by (intro canonical_unique) (simp_all add: Bitfield_get_canonicalize, simp_all add: canonicalize_def canonicalize_raw_last)
  then show "canonicalize f = canonicalize g" by simp
qed

lemma zip_eq_prefix:
  assumes "length s \<le> length b"
  shows "list_all (\<lambda>(x, y). x = y) (zip s b) \<longleftrightarrow> b = s @ drop (length s) b"
  using assms
proof (induction s arbitrary: b)
  case (Cons x s)
  then show ?case by (cases b) auto
qed simp

lemma normalized_prefix:
  assumes "length (raw s) \<le> length (raw b)"
  shows "list_all (\<lambda>(x, y). x = y) (zip (raw s) (raw b)) \<and> list_all (\<lambda>x. x = 0) (drop (length (raw s)) (raw b))
    \<longleftrightarrow> (\<forall>i. Bitfield_get s i = Bitfield_get b i)" (is "?l \<longleftrightarrow> ?r")
proof
  assume ?l
  then show ?r
    using Bitfield_get_append_zeros [of "drop (length (raw s)) (raw b)" "raw s"] zip_eq_prefix [OF assms]
    by (simp add: Bitfield_get_bit)
next
  assume r: ?r
  have z: "raw b ! k = 0" if "length (raw s) \<le> k" "k < length (raw b)" for k
    using that r Bitfield_get_at [of _ s k] Bitfield_get_at [of _ b k] by (intro octet_eqI) auto
  have e: "raw s ! k = raw b ! k" if "k < length (raw s)" for k
    using that assms r Bitfield_get_at [of _ s k] Bitfield_get_at [of _ b k] by (intro octet_eqI) auto
  show ?l using e z assms by (auto simp: list_all_length)
qed

lemma concat_map_nth:
  "concat (map (\<lambda>b. map (p b) [0..<8]) bs) = map (\<lambda>i. p (bs ! (i div 8)) (i mod 8)) [0..<8 * length bs]"
proof (induction bs rule: rev_induct)
  case (snoc b bs)
  have "map (p b) [0..<8] = map (\<lambda>i. p ((bs @ [b]) ! (i div 8)) (i mod 8)) [8 * length bs..<8 * length bs + 8]"
    by (rule nth_equalityI) simp_all
  moreover have "[0..<8 * length (bs @ [b])] = [0..<8 * length bs] @ [8 * length bs..<8 * length bs + 8]"
    using upt_add_eq_append [of 0 "8 * length bs" 8] by (simp add: add.commute)
  ultimately show ?case using snoc by (auto simp: nth_append simp del: upt_Suc)
qed simp

lemma enumerate_filter: "map fst (filter snd (enumerate 0 (map p [0..<n]))) = filter p [0..<n]"
proof -
  have "enumerate 0 (map p [0..<n]) = map (\<lambda>i. (i, p i)) [0..<n]"
    by (rule nth_equalityI) (simp_all add: nth_enumerate_eq)
  then show ?thesis by (simp add: filter_map comp_def)
qed

lemma Bitfield_get_bitand:
  "KeyFlags_get (KeyFlags_bitand k l) i \<longleftrightarrow> KeyFlags_get k i \<and> KeyFlags_get l i"
  by (auto simp: KeyFlags_get_def KeyFlags_bitand_def KeyFlags_new_def Bitfield_get_bit bit_and_iff)

lemma or_longer_bit:
  "length r \<le> length l \<Longrightarrow>
   Bitfield_get \<lparr>raw = map (\<lambda>(a, b). a OR b) (zip (take (length r) l) r) @ drop (length r) l\<rparr> i
   \<longleftrightarrow> Bitfield_get \<lparr>raw = l\<rparr> i \<or> Bitfield_get \<lparr>raw = r\<rparr> i"
  by (auto simp: Bitfield_get_bit nth_append bit_or_iff)

lemma Bitfield_get_bitor:
  "KeyFlags_get (KeyFlags_bitor k l) i \<longleftrightarrow> KeyFlags_get k i \<or> KeyFlags_get l i"
proof -
  have get: "Bitfield_get \<lparr>raw = raw (key_flags k)\<rparr> i \<longleftrightarrow> KeyFlags_get k i"
      "KeyFlags_get \<lparr>key_flags = f\<rparr> i \<longleftrightarrow> Bitfield_get f i" for k f
    by (simp_all add: Bitfield_get_bit KeyFlags_get_def)
  show ?thesis
  proof (cases "length (raw (key_flags l)) < length (raw (key_flags k))")
    case True
    then show ?thesis
      using or_longer_bit [of "raw (key_flags l)" "raw (key_flags k)" i]
      by (simp add: KeyFlags_bitor_def KeyFlags_new_def Let_def get)
  next
    case False
    then show ?thesis
      using or_longer_bit [of "raw (key_flags k)" "raw (key_flags l)" i]
      by (auto simp: KeyFlags_bitor_def KeyFlags_new_def Let_def get)
  qed
qed

lemma KeyFlags_is_empty_iff: "KeyFlags_is_empty k \<longleftrightarrow> (\<forall>i. \<not> KeyFlags_get k i)"
  using normalized_prefix [of "\<lparr>raw = []\<rparr>" "key_flags k"]
  by (simp add: KeyFlags_is_empty_def KeyFlags_get_def Bitfield_get_bit [of "\<lparr>raw = []\<rparr>"])

text \<open>
  \<open>normalized_eq\<close> decides whether two bit fields have the same flags set, whatever their lengths,
  and \<open>canonicalize\<close> gives each set of flags one representation, the one without trailing zeros.
\<close>

theorem normalized_eq_same_flags:
  "(normalized_eq f g \<longleftrightarrow> (\<forall>i. Bitfield_get f i = Bitfield_get g i))
   \<and> (normalized_eq f g \<longleftrightarrow> canonicalize f = canonicalize g)
   \<and> normalized_eq f (canonicalize f) \<and> padding_bytes (canonicalize f) = None"
proof -
  have n: "normalized_eq f g \<longleftrightarrow> (\<forall>i. Bitfield_get f i = Bitfield_get g i)" for f g
    using normalized_prefix [of f g] normalized_prefix [of g f]
    by (auto simp: normalized_eq_def Let_def)
  moreover have "padding_bytes (canonicalize f) = None"
    using canonicalize_raw_last [of "raw f"]
    by (cases "canonicalize_raw (raw f)" rule: rev_cases)
      (simp_all add: padding_bytes_def canonicalize_def Let_def)
  ultimately show ?thesis by (simp add: Bitfield_get_canonicalize canonicalize_eq_iff)
qed

text \<open>
  The iterator over the flags of a bit field yields exactly the flags that \<open>get\<close> reports, each
  once and in increasing order.
\<close>

theorem iter_set_flags:
  "iter_set f = filter (Bitfield_get f) [0..<8 * length (raw f)]
   \<and> List.set (iter_set f) = {i. Bitfield_get f i} \<and> sorted (iter_set f) \<and> distinct (iter_set f)"
proof -
  have "filter (\<lambda>i. raw f ! (i div 8) AND push_bit (i mod 8) 1 \<noteq> 0) [0..<8 * length (raw f)]
      = filter (Bitfield_get f) [0..<8 * length (raw f)]"
    by (rule filter_cong) (auto simp: Bitfield_get_bit octet_bits)
  then have eq: "iter_set f = filter (Bitfield_get f) [0..<8 * length (raw f)]"
    using concat_map_nth [of "\<lambda>b i. b AND push_bit i 1 \<noteq> 0" "raw f"]
    by (simp add: iter_set_def Let_def enumerate_filter del: upt_Suc)
  moreover have "i < 8 * length (raw f)" if "Bitfield_get f i" for i
    using that by (auto simp: Bitfield_get_bit)
  ultimately show ?thesis by (auto simp: sorted_wrt_filter)
qed

text \<open>
  Key flags after any sequence of \<open>clear\<close> calls followed by any sequence of \<open>set\<close> calls are
  the ones named last: a flag is on when it was set, or was on before and has not been cleared. The
  intersection and union of two sets of flags have the flags in both, and in either, and
  \<open>is_empty\<close> holds when no flag is on.
\<close>

theorem key_flags_set_operations:
  "(KeyFlags_get (foldl KeyFlags_set (foldl KeyFlags_clear k cs) ss) i
      \<longleftrightarrow> i \<in> List.set ss \<or> KeyFlags_get k i \<and> i \<notin> List.set cs)
   \<and> (KeyFlags_get (KeyFlags_bitand k l) i \<longleftrightarrow> KeyFlags_get k i \<and> KeyFlags_get l i)
   \<and> (KeyFlags_get (KeyFlags_bitor k l) i \<longleftrightarrow> KeyFlags_get k i \<or> KeyFlags_get l i)
   \<and> (KeyFlags_is_empty k \<longleftrightarrow> (\<forall>i. \<not> KeyFlags_get k i))"
  using key_flags.flags_foldl_set [of "foldl KeyFlags_clear k cs" ss] key_flags.flags_foldl_clear [of k cs]
  by (auto simp: key_flags.flags_def Bitfield_get_bitand Bitfield_get_bitor KeyFlags_is_empty_iff)

text \<open>The named accessors address seven different flags: each one reads back what was written to it.\<close>

lemma named_flags_independent:
  "distinct [KEY_FLAG_CERTIFY, KEY_FLAG_SIGN, KEY_FLAG_ENCRYPT_FOR_TRANSPORT, KEY_FLAG_ENCRYPT_AT_REST,
     KEY_FLAG_SPLIT_KEY, KEY_FLAG_AUTHENTICATE, KEY_FLAG_GROUP_KEY]"
  by (simp add: key_flag_codes)

lemma named_flags_read_back:
  "KeyFlags_for_certification (set_certification_to k v) = v"
  "KeyFlags_for_signing (set_signing_to k v) = v"
  "KeyFlags_for_transport_encryption (set_transport_encryption_to k v) = v"
  "KeyFlags_for_storage_encryption (set_storage_encryption_to k v) = v"
  "KeyFlags_for_authentication (set_authentication_to k v) = v"
  "KeyFlags_is_split_key (set_split_key_to k v) = v"
  "KeyFlags_is_group_key (set_group_key_to k v) = v"
  by (simp_all add: named_key_flag_defs key_flags.get_set key_flags.get_clear)

lemma only_flags:
  "KeyFlags_get only_certification i \<longleftrightarrow> i = KEY_FLAG_CERTIFY" "KeyFlags_get only_signing i \<longleftrightarrow> i = KEY_FLAG_SIGN"
  by (auto simp: named_key_flag_defs key_flags.get_set KeyFlags_empty_def KeyFlags_new_def KeyFlags_get_def
      Bitfield_get_bit [of "\<lparr>raw = []\<rparr>"] KeyFlags_set_def Bitfield_get_canonicalize Bitfield_get_set)

end
