(* ===== verification/KeyHandles.thy ===== *)
theory KeyHandles
  imports Header
begin

text \<open>
  Names of keys: fingerprints (\<open>fingerprint.rs\<close>), key ids (\<open>keyid.rs\<close>), key handles that are one or
  the other (\<open>keyhandle.rs\<close>), and the hexadecimal notation they are printed and parsed with
  (\<open>fmt.rs\<close>).

  A Rust string is the list of its code points, so that the white space that parsing skips is all of
  the white space of Unicode.
\<close>

unbundle bit_operations_syntax

section \<open>Hexadecimal notation\<close>

type_synonym str = "nat list"

definition is_whitespace :: "nat \<Rightarrow> bool" where
  "is_whitespace c \<longleftrightarrow>
     9 \<le> c \<and> c \<le> 13 \<or> c = 32 \<or> c = 0x85 \<or> c = 0xA0 \<or> c = 0x1680 \<or> 0x2000 \<le> c \<and> c \<le> 0x200A
     \<or> c = 0x2028 \<or> c = 0x2029 \<or> c = 0x202F \<or> c = 0x205F \<or> c = 0x3000"

definition BAD :: u8 where "BAD = 255"
definition X :: u8 where "X = 120"

definition hex_nibble :: "bool \<Rightarrow> nat \<Rightarrow> u8 option" where
  "hex_nibble pretty c =
     (if 48 \<le> c \<and> c \<le> 57 then Some (word_of_nat (c - 48))
      else if 97 \<le> c \<and> c \<le> 102 then Some (word_of_nat (c - 97 + 10))
      else if 65 \<le> c \<and> c \<le> 70 then Some (word_of_nat (c - 65 + 10))
      else if (c = 120 \<or> c = 88) \<and> pretty then Some X
      else if pretty \<and> is_whitespace c then None
      else Some BAD)"

fun nibble_pairs :: "u8 list \<Rightarrow> bytes" where
  "nibble_pairs (a # b # ns) = (push_bit 4 a OR b) # nibble_pairs ns"
| "nibble_pairs _ = []"

definition from_hex :: "str \<Rightarrow> bool \<Rightarrow> bytes res" where
  "from_hex hex pretty =
     (let nibbles = List.map_filter (hex_nibble pretty) hex;
          nibbles = (if pretty \<and> length nibbles \<ge> 2 \<and> nibbles ! 0 = 0 \<and> nibbles ! 1 = X
                     then drop 2 nibbles else nibbles) in
      if list_ex (\<lambda>b. b = BAD \<or> b = X) nibbles then Inl (Err InvalidArgument)
      else
        (let nibbles = (if length nibbles mod 2 \<noteq> 0 then 0 # nibbles else nibbles) in
         Inr (nibble_pairs nibbles)))"

definition decode_pretty :: "str \<Rightarrow> bytes res" where
  "decode_pretty hex = from_hex hex True"

definition hex_digit :: "bool \<Rightarrow> u8 \<Rightarrow> nat" where
  "hex_digit upper_case n =
     (if n < 10 then 48 + unat n else (if upper_case then 65 else 97) + (unat n - 10))"

definition hex_octet :: "bool \<Rightarrow> u8 \<Rightarrow> str" where
  "hex_octet upper_case b = [hex_digit upper_case (drop_bit 4 b), hex_digit upper_case (b AND 0xF)]"

definition to_hex :: "bytes \<Rightarrow> bool \<Rightarrow> str" where
  "to_hex s pretty =
     concat (map (\<lambda>(i, b). (if pretty \<and> i > 0 \<and> i mod 2 = 0 then [32] else []) @ hex_octet True b)
       (enumerate 0 s))"

section \<open>Fingerprints and key ids\<close>

datatype Fingerprint = V6 bytes | V4 bytes | Unknown "u8 option" bytes

datatype KeyID = Long bytes | Invalid bytes

datatype KeyHandle = Fingerprint Fingerprint | KeyID KeyID

definition Fingerprint_from_bytes_intern :: "u8 option \<Rightarrow> bytes \<Rightarrow> Fingerprint res" where
  "Fingerprint_from_bytes_intern version raw =
     (let version = (if version = None \<and> length raw = 32 then Some 6
                     else if version = None \<and> length raw = 20 then Some 4
                     else version) in
      if version = Some 6 then
        (if length raw = 32 then Inr (Fingerprint.V6 raw) else Inl (Err InvalidArgument))
      else if version = Some 4 then
        (if length raw = 20 then Inr (Fingerprint.V4 raw) else Inl (Err InvalidArgument))
      else Inr (Fingerprint.Unknown version raw))"

definition Fingerprint_from_bytes :: "u8 \<Rightarrow> bytes \<Rightarrow> Fingerprint res" where
  "Fingerprint_from_bytes version raw = Fingerprint_from_bytes_intern (Some version) raw"

definition Fingerprint_as_bytes :: "Fingerprint \<Rightarrow> bytes" where
  "Fingerprint_as_bytes fp =
     (case fp of
        Fingerprint.V4 fp \<Rightarrow> fp
      | Fingerprint.V6 fp \<Rightarrow> fp
      | Fingerprint.Unknown _ bytes \<Rightarrow> bytes)"

text \<open>
  The separators of the two \<open>write_to_fmt\<close>: fingerprints have one more space in the middle of the
  alternate form.
\<close>

definition Fingerprint_write_to_fmt :: "Fingerprint \<Rightarrow> bool \<Rightarrow> bool \<Rightarrow> str" where
  "Fingerprint_write_to_fmt fp upper_case pretty =
     (let raw = Fingerprint_as_bytes fp in
      concat (map (\<lambda>(i, b).
          (if pretty \<and> i > 0 \<and> i mod 2 = 0 then [32] else [])
          @ (if pretty \<and> i > 0 \<and> i * 2 = length raw then [32] else [])
          @ hex_octet upper_case b)
        (enumerate 0 raw)))"

definition Fingerprint_to_hex :: "Fingerprint \<Rightarrow> str" where
  "Fingerprint_to_hex fp = Fingerprint_write_to_fmt fp True False"

definition Fingerprint_to_spaced_hex :: "Fingerprint \<Rightarrow> str" where
  "Fingerprint_to_spaced_hex fp = Fingerprint_write_to_fmt fp True True"

definition odd_nibbles :: "str \<Rightarrow> bool" where
  "odd_nibbles s \<longleftrightarrow> length (filter (\<lambda>c. \<not> is_whitespace c) s) mod 2 = 1"

definition Fingerprint_from_str :: "str \<Rightarrow> Fingerprint res" where
  "Fingerprint_from_str s =
     (if odd_nibbles s then Inl (Err InvalidArgument)
      else and_then (decode_pretty s) (\<lambda>bytes. Fingerprint_from_bytes_intern None bytes))"

definition KeyID_from_bytes :: "bytes \<Rightarrow> KeyID" where
  "KeyID_from_bytes raw = (if length raw = 8 then KeyID.Long raw else KeyID.Invalid raw)"

definition KeyID_new :: "u64 \<Rightarrow> KeyID" where
  "KeyID_new data = KeyID_from_bytes (to_be_u64 data)"

definition KeyID_as_u64 :: "KeyID \<Rightarrow> u64 res" where
  "KeyID_as_u64 k =
     (case k of KeyID.Long b \<Rightarrow> Inr (from_be_u64 b) | KeyID.Invalid _ \<Rightarrow> Inl (Err InvalidArgument))"

definition KeyID_as_bytes :: "KeyID \<Rightarrow> bytes" where
  "KeyID_as_bytes k = (case k of KeyID.Long b \<Rightarrow> b | KeyID.Invalid b \<Rightarrow> b)"

definition KeyID_from_Fingerprint :: "Fingerprint \<Rightarrow> KeyID" where
  "KeyID_from_Fingerprint fp =
     (case fp of
        Fingerprint.V4 fp \<Rightarrow> KeyID_from_bytes (drop (length fp - 8) fp)
      | Fingerprint.V6 fp \<Rightarrow> KeyID_from_bytes (take 8 fp)
      | Fingerprint.Unknown _ bytes \<Rightarrow> KeyID.Invalid bytes)"

definition KeyID_wildcard :: KeyID where
  "KeyID_wildcard = KeyID_from_bytes (replicate 8 0)"

definition KeyID_is_wildcard :: "KeyID \<Rightarrow> bool" where
  "KeyID_is_wildcard k = list_all (\<lambda>b. b = 0) (KeyID_as_bytes k)"

definition KeyID_write_to_fmt :: "KeyID \<Rightarrow> bool \<Rightarrow> bool \<Rightarrow> str" where
  "KeyID_write_to_fmt k upper_case pretty =
     concat (map (\<lambda>(i, b).
         (if pretty \<and> i > 0 \<and> i mod 2 = 0 then [32] else []) @ hex_octet upper_case b)
       (enumerate 0 (KeyID_as_bytes k)))"

definition KeyID_to_hex :: "KeyID \<Rightarrow> str" where
  "KeyID_to_hex k = KeyID_write_to_fmt k True False"

definition KeyID_to_spaced_hex :: "KeyID \<Rightarrow> str" where
  "KeyID_to_spaced_hex k = KeyID_write_to_fmt k True True"

definition KeyID_from_str :: "str \<Rightarrow> KeyID res" where
  "KeyID_from_str s =
     (if odd_nibbles s then Inl (Err InvalidArgument)
      else
        and_then (decode_pretty s) (\<lambda>bytes.
          if length bytes = 8 then Inr (KeyID_from_bytes bytes)
          else if length bytes = 4 then Inl (Err ShortKeyID)
          else and_then (Fingerprint_from_str s) (\<lambda>fp. Inr (KeyID_from_Fingerprint fp))))"

section \<open>Key handles\<close>

definition KeyHandle_as_bytes :: "KeyHandle \<Rightarrow> bytes" where
  "KeyHandle_as_bytes h =
     (case h of
        KeyHandle.Fingerprint i \<Rightarrow> Fingerprint_as_bytes i
      | KeyHandle.KeyID i \<Rightarrow> KeyID_as_bytes i)"

definition KeyID_from_KeyHandle :: "KeyHandle \<Rightarrow> KeyID" where
  "KeyID_from_KeyHandle h =
     (case h of KeyHandle.Fingerprint i \<Rightarrow> KeyID_from_Fingerprint i | KeyHandle.KeyID i \<Rightarrow> i)"

definition Fingerprint_try_from_KeyHandle :: "KeyHandle \<Rightarrow> Fingerprint res" where
  "Fingerprint_try_from_KeyHandle h =
     (case h of KeyHandle.Fingerprint i \<Rightarrow> Inr i | KeyHandle.KeyID _ \<Rightarrow> Inl (Err InvalidOperation))"

definition Fingerprint_aliases :: "Fingerprint \<Rightarrow> KeyHandle \<Rightarrow> bool" where
  "Fingerprint_aliases fp other =
     (case (fp, other) of
        (f, KeyHandle.Fingerprint ot) \<Rightarrow> f = ot
      | (Fingerprint.V4 f, KeyHandle.KeyID (KeyID.Long ot)) \<Rightarrow> drop 12 f = ot
      | (Fingerprint.V6 f, KeyHandle.KeyID (KeyID.Long ot)) \<Rightarrow> take 8 f = ot
      | (f, KeyHandle.KeyID ot) \<Rightarrow> KeyID_from_Fingerprint f = ot)"

definition KeyID_aliases :: "KeyID \<Rightarrow> KeyHandle \<Rightarrow> bool" where
  "KeyID_aliases k other =
     (case (k, other) of
        (k, KeyHandle.KeyID ot) \<Rightarrow> k = ot
      | (KeyID.Long k, KeyHandle.Fingerprint (Fingerprint.V4 f)) \<Rightarrow> drop 12 f = k
      | (KeyID.Long k, KeyHandle.Fingerprint (Fingerprint.V6 f)) \<Rightarrow> k = take 8 f
      | (k, ot) \<Rightarrow> k = KeyID_from_KeyHandle ot)"

definition KeyHandle_aliases :: "KeyHandle \<Rightarrow> KeyHandle \<Rightarrow> bool" where
  "KeyHandle_aliases h other =
     (case h of
        KeyHandle.Fingerprint fpr \<Rightarrow> Fingerprint_aliases fpr other
      | KeyHandle.KeyID keyid \<Rightarrow> KeyID_aliases keyid other)"

definition KeyHandle_eq :: "KeyHandle \<Rightarrow> KeyHandle \<Rightarrow> bool" where
  "KeyHandle_eq a b \<longleftrightarrow> KeyHandle_as_bytes a = KeyHandle_as_bytes b"

definition KeyHandle_from_str :: "str \<Rightarrow> KeyHandle res" where
  "KeyHandle_from_str s =
     and_then (decode_pretty s) (\<lambda>bytes.
       and_then (Fingerprint_from_bytes_intern None bytes) (\<lambda>fpr.
         case fpr of
           Fingerprint.Unknown _ _ \<Rightarrow>
             (case KeyID_from_bytes bytes of
                KeyID.Invalid _ \<Rightarrow> Inr (KeyHandle.Fingerprint fpr)
              | kid \<Rightarrow> Inr (KeyHandle.KeyID kid))
         | _ \<Rightarrow> Inr (KeyHandle.Fingerprint fpr)))"

definition KeyHandle_is_invalid :: "KeyHandle \<Rightarrow> bool" where
  "KeyHandle_is_invalid h =
     (case h of
        KeyHandle.Fingerprint (Fingerprint.Unknown _ _) \<Rightarrow> True
      | KeyHandle.KeyID (KeyID.Invalid _) \<Rightarrow> True
      | _ \<Rightarrow> False)"

definition KeyHandle_to_hex :: "KeyHandle \<Rightarrow> str" where
  "KeyHandle_to_hex h =
     (case h of
        KeyHandle.Fingerprint fpr \<Rightarrow> Fingerprint_write_to_fmt fpr True False
      | KeyHandle.KeyID keyid \<Rightarrow> KeyID_write_to_fmt keyid True False)"

definition KeyHandle_to_spaced_hex :: "KeyHandle \<Rightarrow> str" where
  "KeyHandle_to_spaced_hex h =
     (case h of
        KeyHandle.Fingerprint v \<Rightarrow> Fingerprint_to_spaced_hex v
      | KeyHandle.KeyID v \<Rightarrow> KeyID_to_spaced_hex v)"

section \<open>Properties\<close>

lemma hex_nibble_digit:
  assumes "n < 16"
  shows "hex_nibble pretty (hex_digit upper_case n) = Some n"
proof (cases "n < 10")
  case True
  then show ?thesis by (auto simp: hex_nibble_def hex_digit_def word_less_nat_alt word_le_nat_alt)
next
  case False
  then have "10 \<le> unat n" "unat n < 16" using assms by (auto simp: word_less_nat_alt not_less word_le_nat_alt)
  then show ?thesis using False by (auto simp: hex_nibble_def hex_digit_def)
qed

lemma nibbles_less: "drop_bit 4 (b :: u8) < 16" "b AND 0xF < 16"
proof -
  have "unat b div 16 < 16" using unat_u8_less [of b] by (simp add: less_mult_imp_div_less)
  then show "drop_bit 4 b < 16" by (simp add: word_less_nat_alt unat_drop_bit)
  have "b AND 0xF = b AND mask 4" by (simp add: mask_eq_exp_minus_1)
  then show "b AND 0xF < 16" by (simp add: word_less_nat_alt unat_and_mask)
qed

lemma nibbles_octet: "push_bit 4 (drop_bit 4 b) OR (b AND 0xF) = (b :: u8)"
  by (simp add: u8_bitwise)

lemma nibble_not_special: "n < 16 \<Longrightarrow> n \<noteq> BAD \<and> n \<noteq> X"
  by (auto simp: BAD_def X_def word_less_nat_alt)

lemma map_filter_append: "List.map_filter f (xs @ ys) = List.map_filter f xs @ List.map_filter f ys"
  by (simp add: List.map_filter_def)

definition nibbles_of :: "bytes \<Rightarrow> u8 list" where
  "nibbles_of bs = concat (map (\<lambda>b. [drop_bit 4 b, b AND 0xF]) bs)"

lemma nibble_pairs_of: "nibble_pairs (nibbles_of bs) = bs"
  by (induction bs) (simp_all add: nibbles_of_def nibbles_octet)

lemma nibbles_of_props: "length (nibbles_of bs) = 2 * length bs" "\<forall>n \<in> set (nibbles_of bs). n < 16"
  by (induction bs) (auto simp: nibbles_of_def nibbles_less)

lemma hex_digit_not_white: "n < 16 \<Longrightarrow> \<not> is_whitespace (hex_digit upper_case n)"
  by (auto simp: is_whitespace_def hex_digit_def word_less_nat_alt split: if_splits)

text \<open>Octets in hexadecimal with white space between them, which must be absent when it is not skipped.\<close>

definition spaced :: "bool \<Rightarrow> (nat \<times> u8 \<Rightarrow> str) \<Rightarrow> (nat \<times> u8) list \<Rightarrow> str" where
  "spaced upper_case sep ibs = concat (map (\<lambda>p. sep p @ hex_octet upper_case (snd p)) ibs)"

lemma spaced_nibbles:
  assumes "\<And>p. list_all (\<lambda>c. pretty \<and> c = 32) (sep p)"
  shows "List.map_filter (hex_nibble pretty) (spaced upper_case sep ibs) = nibbles_of (map snd ibs)"
proof (induction ibs)
  case Nil
  then show ?case by (simp add: spaced_def nibbles_of_def)
next
  case (Cons p ibs)
  have "List.map_filter (hex_nibble pretty) w = []" if "list_all (\<lambda>c. pretty \<and> c = 32) w" for w
    using that by (induction w) (auto simp: hex_nibble_def is_whitespace_def)
  with Cons assms show ?case
    by (simp add: spaced_def nibbles_of_def hex_octet_def map_filter_append hex_nibble_digit nibbles_less)
qed

lemma spaced_even:
  assumes "\<And>p. list_all (\<lambda>c. c = 32) (sep p)"
  shows "\<not> odd_nibbles (spaced upper_case sep ibs)"
proof -
  have "filter (\<lambda>c. \<not> is_whitespace c) w = []" if "list_all (\<lambda>c. c = 32) w" for w
    using that by (induction w) (auto simp: is_whitespace_def)
  with assms have "even (length (filter (\<lambda>c. \<not> is_whitespace c) (spaced upper_case sep ibs)))"
    by (induction ibs) (simp_all add: spaced_def hex_octet_def hex_digit_not_white nibbles_less)
  then show ?thesis by (simp add: odd_nibbles_def even_iff_mod_2_eq_zero)
qed

lemma from_hex_spaced:
  assumes "\<And>p. list_all (\<lambda>c. pretty \<and> c = 32) (sep p)"
  shows "from_hex (spaced upper_case sep ibs) pretty = Inr (map snd ibs)"
proof -
  let ?n = "nibbles_of (map snd ibs)"
  have "\<not> (length ?n \<ge> 2 \<and> ?n ! 1 = X)"
    using nibbles_of_props(2) nibble_not_special by (auto simp del: length_greater_0_conv) (metis Suc_le_lessD nth_mem numeral_2_eq_2)
  moreover have "\<not> list_ex (\<lambda>b. b = BAD \<or> b = X) ?n"
    using nibbles_of_props(2) nibble_not_special by (auto simp: list_ex_iff)
  ultimately show ?thesis
    using spaced_nibbles [OF assms]
    by (auto simp: from_hex_def Let_def nibbles_of_props(1) nibble_pairs_of)
qed

definition Fingerprint_ok :: "Fingerprint \<Rightarrow> bool" where
  "Fingerprint_ok fp =
     (case fp of
        Fingerprint.V4 b \<Rightarrow> length b = 20
      | Fingerprint.V6 b \<Rightarrow> length b = 32
      | Fingerprint.Unknown v b \<Rightarrow> v \<noteq> Some 4 \<and> v \<noteq> Some 6 \<and> (v = None \<longrightarrow> length b \<noteq> 20 \<and> length b \<noteq> 32))"

definition KeyID_ok :: "KeyID \<Rightarrow> bool" where
  "KeyID_ok k = (case k of KeyID.Long b \<Rightarrow> length b = 8 | KeyID.Invalid b \<Rightarrow> length b \<noteq> 8)"

definition KeyHandle_ok :: "KeyHandle \<Rightarrow> bool" where
  "KeyHandle_ok h = (case h of KeyHandle.Fingerprint f \<Rightarrow> Fingerprint_ok f | KeyHandle.KeyID k \<Rightarrow> KeyID_ok k)"

lemma Fingerprint_write_to_fmt_spaced:
  obtains sep where "Fingerprint_write_to_fmt fp upper_case pretty = spaced upper_case sep (enumerate 0 (Fingerprint_as_bytes fp))"
    "\<And>p. list_all (\<lambda>c. pretty \<and> c = 32) (sep p)"
proof
  let ?sep = "\<lambda>(i, b). (if pretty \<and> i > 0 \<and> i mod 2 = 0 then [32] else [])
    @ (if pretty \<and> i > 0 \<and> i * 2 = length (Fingerprint_as_bytes fp) then [32] else [])"
  show "Fingerprint_write_to_fmt fp upper_case pretty = spaced upper_case ?sep (enumerate 0 (Fingerprint_as_bytes fp))"
    by (auto simp: Fingerprint_write_to_fmt_def spaced_def Let_def intro!: arg_cong [where f = concat])
  show "list_all (\<lambda>c. pretty \<and> c = 32) (?sep p)" for p by (cases p) simp
qed

lemma KeyID_write_to_fmt_spaced:
  obtains sep where "KeyID_write_to_fmt k upper_case pretty = spaced upper_case sep (enumerate 0 (KeyID_as_bytes k))"
    "\<And>p. list_all (\<lambda>c. pretty \<and> c = 32) (sep p)"
proof
  let ?sep = "\<lambda>(i, b). if pretty \<and> i > 0 \<and> i mod 2 = 0 then [32] else []"
  show "KeyID_write_to_fmt k upper_case pretty = spaced upper_case ?sep (enumerate 0 (KeyID_as_bytes k))"
    by (auto simp: KeyID_write_to_fmt_def spaced_def intro!: arg_cong [where f = concat])
  show "list_all (\<lambda>c. pretty \<and> c = 32) (?sep p)" for p by (cases p) simp
qed

lemma decode_pretty_spaced:
  assumes "\<And>p. list_all (\<lambda>c. pretty \<and> c = 32) (sep p)"
  shows "decode_pretty (spaced upper_case sep (enumerate 0 bs)) = Inr bs"
    "\<not> odd_nibbles (spaced upper_case sep (enumerate 0 bs))"
proof -
  have w: "list_all (\<lambda>c. True \<and> c = 32) (sep p)" for p
    using assms [of p] by (auto simp: list_all_iff)
  show "decode_pretty (spaced upper_case sep (enumerate 0 bs)) = Inr bs"
    using from_hex_spaced [OF w] by (simp add: decode_pretty_def)
  show "\<not> odd_nibbles (spaced upper_case sep (enumerate 0 bs))"
    using w by (intro spaced_even) simp
qed

lemma decode_written:
  "decode_pretty (Fingerprint_write_to_fmt fp u p) = Inr (Fingerprint_as_bytes fp)"
  "\<not> odd_nibbles (Fingerprint_write_to_fmt fp u p)"
  "decode_pretty (KeyID_write_to_fmt k u p) = Inr (KeyID_as_bytes k)"
  "\<not> odd_nibbles (KeyID_write_to_fmt k u p)"
  using decode_pretty_spaced Fingerprint_write_to_fmt_spaced [of fp u p] KeyID_write_to_fmt_spaced [of k u p]
  by metis+

lemmas key_name_defs = Fingerprint_ok_def KeyID_ok_def KeyHandle_ok_def Fingerprint_as_bytes_def KeyID_as_bytes_def
  Fingerprint_from_bytes_intern_def KeyID_from_bytes_def KeyID_from_Fingerprint_def KeyID_from_KeyHandle_def

text \<open>
  Names of keys survive printing: a fingerprint of version 4 or 6, a long key id, and a handle
  that is one of these, printed in upper or lower case, with or without spaces, parse back to
  themselves. Parsed as a key id, the printed fingerprint gives the key id of the key.
\<close>

theorem key_names_roundtrip:
  assumes "Fingerprint_ok fp" "KeyID_ok k" "\<forall>v b. fp \<noteq> Fingerprint.Unknown v b" "\<forall>b. k \<noteq> KeyID.Invalid b"
  shows "Fingerprint_from_str (Fingerprint_write_to_fmt fp upper_case pretty) = Inr fp
    \<and> KeyID_from_str (KeyID_write_to_fmt k upper_case pretty) = Inr k
    \<and> KeyID_from_str (Fingerprint_write_to_fmt fp upper_case pretty) = Inr (KeyID_from_Fingerprint fp)
    \<and> KeyHandle_from_str (Fingerprint_write_to_fmt fp upper_case pretty) = Inr (KeyHandle.Fingerprint fp)
    \<and> KeyHandle_from_str (KeyID_write_to_fmt k upper_case pretty) = Inr (KeyHandle.KeyID k)"
  using assms
  by (cases fp; cases k)
    (auto simp: Fingerprint_from_str_def KeyID_from_str_def KeyHandle_from_str_def decode_written key_name_defs)

theorem key_names_roundtrip_witness:
  "Fingerprint_from_str (Fingerprint_write_to_fmt (Fingerprint.V4 (replicate 20 0xAB)) False True)
     = Inr (Fingerprint.V4 (replicate 20 0xAB))
   \<and> KeyHandle_from_str (KeyID_write_to_fmt (KeyID.Long (replicate 8 0)) True False)
     = Inr (KeyHandle.KeyID (KeyID.Long (replicate 8 0)))"
  using key_names_roundtrip [of "Fingerprint.V4 (replicate 20 0xAB)" "KeyID.Long (replicate 8 0)" False True]
    key_names_roundtrip [of "Fingerprint.V4 (replicate 20 0xAB)" "KeyID.Long (replicate 8 0)" True False]
  by (simp add: Fingerprint_ok_def KeyID_ok_def)

text \<open>
  Two handles alias exactly when they are the same fingerprint, or one of them is a key id and both
  have the same key id. The shortcuts that compare slices of the fingerprint agree with the derivation
  of the key id; aliasing is reflexive and symmetric.
\<close>

theorem key_handle_aliases_iff:
  assumes "KeyHandle_ok a" "KeyHandle_ok b"
  shows "(KeyHandle_aliases a b \<longleftrightarrow>
      (case (a, b) of
         (KeyHandle.Fingerprint f, KeyHandle.Fingerprint g) \<Rightarrow> f = g
       | _ \<Rightarrow> KeyID_from_KeyHandle a = KeyID_from_KeyHandle b))
    \<and> (KeyHandle_aliases a b \<longleftrightarrow> KeyHandle_aliases b a) \<and> KeyHandle_aliases a a"
  using assms
  by (cases a; cases b)
    (auto simp: KeyHandle_aliases_def Fingerprint_aliases_def KeyID_aliases_def key_name_defs
      split: Fingerprint.splits KeyID.splits)

theorem key_handle_aliases_iff_witness:
  "KeyHandle_aliases (KeyHandle.KeyID (KeyID.Long [13, 14, 15, 16, 17, 18, 19, 20]))
     (KeyHandle.Fingerprint (Fingerprint.V4 [1, 2, 3, 4, 5, 6, 7, 8, 9, 10, 11, 12, 13, 14, 15, 16, 17, 18, 19, 20]))"
  using key_handle_aliases_iff [of "KeyHandle.KeyID (KeyID.Long [13, 14, 15, 16, 17, 18, 19, 20])"
      "KeyHandle.Fingerprint (Fingerprint.V4 [1, 2, 3, 4, 5, 6, 7, 8, 9, 10, 11, 12, 13, 14, 15, 16, 17, 18, 19, 20])"]
  by (simp add: key_name_defs)

end
