(* ===== verification/Subpackets.thy ===== *)
theory Subpackets
  imports Material Flags KeyHandles
begin

text \<open>
  Signature subpackets: their tags, lengths and values (\<open>packet/signature/subpacket.rs\<close>), the parser
  of one subpacket (\<open>parse.rs\<close>) and its writer (\<open>serialize.rs\<close>).

  A subpacket can hold a signature, which has subpackets of its own. The types here have a parameter
  \<open>'sig\<close> for it, and the operations take what they call on it as an argument; \<open>Signatures\<close> ties the
  knot. Whether the backend has a hash algorithm, and its digest size, is the parameter
  \<open>digest_sizes\<close>. \<open>Timestamp\<close> and \<open>Duration\<close> wrap the \<open>u32\<close> they are here.
\<close>

unbundle bit_operations_syntax

section \<open>Tags\<close>

datatype SubpacketTag =
    SignatureCreationTime
  | SignatureExpirationTime
  | ExportableCertification
  | TrustSignature
  | RegularExpression
  | Revocable
  | KeyExpirationTime
  | PlaceholderForBackwardCompatibility
  | PreferredSymmetricAlgorithms
  | RevocationKey
  | Issuer
  | NotationData
  | PreferredHashAlgorithms
  | PreferredCompressionAlgorithms
  | KeyServerPreferences
  | PreferredKeyServer
  | PrimaryUserID
  | PolicyURI
  | KeyFlags
  | SignersUserID
  | ReasonForRevocation
  | Features
  | SignatureTarget
  | EmbeddedSignature
  | IssuerFingerprint
  | PreferredAEADAlgorithms
  | IntendedRecipient
  | ApprovedCertifications
  | PreferredAEADCiphersuites
  | Reserved u8
  | Private u8
  | Unknown u8

definition SubpacketTag_from_u8 :: "u8 \<Rightarrow> SubpacketTag" where
  "SubpacketTag_from_u8 u =
     (if u = 2 then SubpacketTag.SignatureCreationTime
      else if u = 3 then SubpacketTag.SignatureExpirationTime
      else if u = 4 then SubpacketTag.ExportableCertification
      else if u = 5 then SubpacketTag.TrustSignature
      else if u = 6 then SubpacketTag.RegularExpression
      else if u = 7 then SubpacketTag.Revocable
      else if u = 9 then SubpacketTag.KeyExpirationTime
      else if u = 10 then SubpacketTag.PlaceholderForBackwardCompatibility
      else if u = 11 then SubpacketTag.PreferredSymmetricAlgorithms
      else if u = 12 then SubpacketTag.RevocationKey
      else if u = 16 then SubpacketTag.Issuer
      else if u = 20 then SubpacketTag.NotationData
      else if u = 21 then SubpacketTag.PreferredHashAlgorithms
      else if u = 22 then SubpacketTag.PreferredCompressionAlgorithms
      else if u = 23 then SubpacketTag.KeyServerPreferences
      else if u = 24 then SubpacketTag.PreferredKeyServer
      else if u = 25 then SubpacketTag.PrimaryUserID
      else if u = 26 then SubpacketTag.PolicyURI
      else if u = 27 then SubpacketTag.KeyFlags
      else if u = 28 then SubpacketTag.SignersUserID
      else if u = 29 then SubpacketTag.ReasonForRevocation
      else if u = 30 then SubpacketTag.Features
      else if u = 31 then SubpacketTag.SignatureTarget
      else if u = 32 then SubpacketTag.EmbeddedSignature
      else if u = 33 then SubpacketTag.IssuerFingerprint
      else if u = 34 then SubpacketTag.PreferredAEADAlgorithms
      else if u = 35 then SubpacketTag.IntendedRecipient
      else if u = 37 then SubpacketTag.ApprovedCertifications
      else if u = 39 then SubpacketTag.PreferredAEADCiphersuites
      else if u \<in> {0, 1, 8, 13, 14, 15, 17, 18, 19, 38} then SubpacketTag.Reserved u
      else if 100 \<le> u \<and> u \<le> 110 then SubpacketTag.Private u
      else SubpacketTag.Unknown u)"

primrec u8_from_SubpacketTag :: "SubpacketTag \<Rightarrow> u8" where
  "u8_from_SubpacketTag SubpacketTag.SignatureCreationTime = 2"
| "u8_from_SubpacketTag SubpacketTag.SignatureExpirationTime = 3"
| "u8_from_SubpacketTag SubpacketTag.ExportableCertification = 4"
| "u8_from_SubpacketTag SubpacketTag.TrustSignature = 5"
| "u8_from_SubpacketTag SubpacketTag.RegularExpression = 6"
| "u8_from_SubpacketTag SubpacketTag.Revocable = 7"
| "u8_from_SubpacketTag SubpacketTag.KeyExpirationTime = 9"
| "u8_from_SubpacketTag SubpacketTag.PlaceholderForBackwardCompatibility = 10"
| "u8_from_SubpacketTag SubpacketTag.PreferredSymmetricAlgorithms = 11"
| "u8_from_SubpacketTag SubpacketTag.RevocationKey = 12"
| "u8_from_SubpacketTag SubpacketTag.Issuer = 16"
| "u8_from_SubpacketTag SubpacketTag.NotationData = 20"
| "u8_from_SubpacketTag SubpacketTag.PreferredHashAlgorithms = 21"
| "u8_from_SubpacketTag SubpacketTag.PreferredCompressionAlgorithms = 22"
| "u8_from_SubpacketTag SubpacketTag.KeyServerPreferences = 23"
| "u8_from_SubpacketTag SubpacketTag.PreferredKeyServer = 24"
| "u8_from_SubpacketTag SubpacketTag.PrimaryUserID = 25"
| "u8_from_SubpacketTag SubpacketTag.PolicyURI = 26"
| "u8_from_SubpacketTag SubpacketTag.KeyFlags = 27"
| "u8_from_SubpacketTag SubpacketTag.SignersUserID = 28"
| "u8_from_SubpacketTag SubpacketTag.ReasonForRevocation = 29"
| "u8_from_SubpacketTag SubpacketTag.Features = 30"
| "u8_from_SubpacketTag SubpacketTag.SignatureTarget = 31"
| "u8_from_SubpacketTag SubpacketTag.EmbeddedSignature = 32"
| "u8_from_SubpacketTag SubpacketTag.IssuerFingerprint = 33"
| "u8_from_SubpacketTag SubpacketTag.PreferredAEADAlgorithms = 34"
| "u8_from_SubpacketTag SubpacketTag.IntendedRecipient = 35"
| "u8_from_SubpacketTag SubpacketTag.ApprovedCertifications = 37"
| "u8_from_SubpacketTag SubpacketTag.PreferredAEADCiphersuites = 39"
| "u8_from_SubpacketTag (SubpacketTag.Reserved u) = u"
| "u8_from_SubpacketTag (SubpacketTag.Private u) = u"
| "u8_from_SubpacketTag (SubpacketTag.Unknown u) = u"

definition SubpacketTag_canonical :: "SubpacketTag \<Rightarrow> bool" where
  "SubpacketTag_canonical x =
     (case x of
        SubpacketTag.Reserved u \<Rightarrow> u \<in> {0, 1, 8, 13, 14, 15, 17, 18, 19, 38}
      | SubpacketTag.Private u \<Rightarrow> 100 \<le> u \<and> u \<le> 110
      | SubpacketTag.Unknown u \<Rightarrow>
          u \<notin> {2, 3, 4, 5, 6, 7, 9, 10, 11, 12, 16, 20, 21, 22, 23, 24, 25, 26, 27, 28, 29, 30, 31, 32, 33, 34, 35, 37, 39}
          \<and> u \<notin> {0, 1, 8, 13, 14, 15, 17, 18, 19, 38} \<and> \<not> (100 \<le> u \<and> u \<le> 110)
      | _ \<Rightarrow> True)"

definition SUBPACKET_TAG_VARIANTS :: "SubpacketTag list" where
  "SUBPACKET_TAG_VARIANTS =
     [SubpacketTag.SignatureCreationTime,
      SubpacketTag.SignatureExpirationTime,
      SubpacketTag.ExportableCertification,
      SubpacketTag.TrustSignature,
      SubpacketTag.RegularExpression,
      SubpacketTag.Revocable,
      SubpacketTag.KeyExpirationTime,
      SubpacketTag.PlaceholderForBackwardCompatibility,
      SubpacketTag.PreferredSymmetricAlgorithms,
      SubpacketTag.RevocationKey,
      SubpacketTag.Issuer,
      SubpacketTag.NotationData,
      SubpacketTag.PreferredHashAlgorithms,
      SubpacketTag.PreferredCompressionAlgorithms,
      SubpacketTag.KeyServerPreferences,
      SubpacketTag.PreferredKeyServer,
      SubpacketTag.PrimaryUserID,
      SubpacketTag.PolicyURI,
      SubpacketTag.KeyFlags,
      SubpacketTag.SignersUserID,
      SubpacketTag.ReasonForRevocation,
      SubpacketTag.Features,
      SubpacketTag.SignatureTarget,
      SubpacketTag.EmbeddedSignature,
      SubpacketTag.IssuerFingerprint,
      SubpacketTag.PreferredAEADAlgorithms,
      SubpacketTag.IntendedRecipient,
      SubpacketTag.ApprovedCertifications,
      SubpacketTag.PreferredAEADCiphersuites]"

definition SubpacketTag_named :: "SubpacketTag \<Rightarrow> bool" where
  "SubpacketTag_named x =
     (case x of
        SubpacketTag.Reserved _ \<Rightarrow> False
      | SubpacketTag.Private _ \<Rightarrow> False
      | SubpacketTag.Unknown _ \<Rightarrow> False
      | _ \<Rightarrow> True)"

lemma SubpacketTag_of_to:
  assumes "SubpacketTag_canonical x"
  shows "SubpacketTag_from_u8 (u8_from_SubpacketTag x) = x"
proof (cases x)
  case (Reserved u)
  with assms have "u = 0 \<or> u = 1 \<or> u = 8 \<or> u = 13 \<or> u = 14 \<or> u = 15 \<or> u = 17 \<or> u = 18 \<or> u = 19 \<or> u = 38"
    by (simp add: SubpacketTag_canonical_def)
  then show ?thesis unfolding Reserved by (elim disjE) (simp_all add: SubpacketTag_from_u8_def)
next
  case (Private u)
  with assms have "100 \<le> u" "u \<le> 110" by (simp_all add: SubpacketTag_canonical_def)
  then have "u \<noteq> k" if "k < 100" for k using that by auto
  then show ?thesis using \<open>100 \<le> u\<close> \<open>u \<le> 110\<close> unfolding Private by (simp add: SubpacketTag_from_u8_def)
qed (use assms in \<open>simp_all add: SubpacketTag_from_u8_def SubpacketTag_canonical_def\<close>)

interpretation subpacket_tag: wire_enum SubpacketTag_from_u8 u8_from_SubpacketTag SubpacketTag_canonical
    SUBPACKET_TAG_VARIANTS SubpacketTag_named
proof
  show "u8_from_SubpacketTag (SubpacketTag_from_u8 u) = u" for u
    by (simp add: SubpacketTag_from_u8_def)
  show "SubpacketTag_canonical (SubpacketTag_from_u8 u)" for u
    by (simp add: SubpacketTag_from_u8_def SubpacketTag_canonical_def)
  show "SubpacketTag_canonical x \<Longrightarrow> SubpacketTag_from_u8 (u8_from_SubpacketTag x) = x" for x
    by (rule SubpacketTag_of_to)
  show "x \<in> set SUBPACKET_TAG_VARIANTS \<longleftrightarrow> SubpacketTag_named x" for x
    by (cases x) (simp_all add: SUBPACKET_TAG_VARIANTS_def SubpacketTag_named_def)
  show "SubpacketTag_named x \<Longrightarrow> SubpacketTag_canonical x" for x
    by (cases x) (simp_all add: SubpacketTag_named_def SubpacketTag_canonical_def)
  show "distinct SUBPACKET_TAG_VARIANTS"
    by (simp add: SUBPACKET_TAG_VARIANTS_def)
qed

section \<open>Lengths\<close>

record SubpacketLength =
  sl_len :: u32
  sl_raw :: "bytes option"

definition SubpacketLength_new :: "u32 \<Rightarrow> bytes option \<Rightarrow> SubpacketLength" where
  "SubpacketLength_new len encoding = \<lparr>sl_len = len, sl_raw = encoding\<rparr>"

definition SubpacketLength_from_u32 :: "u32 \<Rightarrow> SubpacketLength" where
  "SubpacketLength_from_u32 len = \<lparr>sl_len = len, sl_raw = None\<rparr>"

definition SubpacketLength_len :: "SubpacketLength \<Rightarrow> nat" where
  "SubpacketLength_len l = unat (sl_len l)"

definition len_optimal_encoding :: "u32 \<Rightarrow> nat" where
  "len_optimal_encoding len = BodyLength_serialized_len (BodyLength.Full len)"

definition SubpacketLength_parse :: "SubpacketLength reader" where
  "SubpacketLength_parse bs =
     and_then (read_u8 bs) (\<lambda>(octet1, bs).
       if octet1 < 192 then Inr (SubpacketLength_new (ucast octet1) None, bs)
       else if 192 \<le> octet1 \<and> octet1 < 255 then
         and_then (read_u8 bs) (\<lambda>(octet2, bs).
           let len = push_bit 8 (ucast octet1 - 192) + ucast octet2 + 192 in
           Inr (SubpacketLength_new len
                  (if len_optimal_encoding len = 2 then None else Some [octet1, octet2]), bs))
       else if octet1 \<noteq> 255 then Inl Panic
       else
         and_then (read_be_u32 bs) (\<lambda>(len, bs).
           Inr (SubpacketLength_new len
                  (if len_optimal_encoding len = 5 then None else Some (octet1 # to_be_u32 len)), bs)))"

definition SubpacketLength_serialize :: "SubpacketLength \<Rightarrow> bytes res" where
  "SubpacketLength_serialize l =
     (case sl_raw l of
        Some encoding \<Rightarrow> Inr encoding
      | None \<Rightarrow> BodyLength_serialize (BodyLength.Full (word_of_nat (SubpacketLength_len l))))"

definition SubpacketLength_serialized_len :: "SubpacketLength \<Rightarrow> nat" where
  "SubpacketLength_serialized_len l =
     (case sl_raw l of
        Some encoding \<Rightarrow> length encoding
      | None \<Rightarrow> len_optimal_encoding (word_of_nat (SubpacketLength_len l)))"

text \<open>
  \<open>serialize_into\<close> fails on a buffer that is too short, and the comparison unwraps its result. What the
  buffer held beyond the octets written stays: here zeros.
\<close>

definition SubpacketLength_serialize_into :: "SubpacketLength \<Rightarrow> bytes \<Rightarrow> bytes res" where
  "SubpacketLength_serialize_into l buf =
     and_then (SubpacketLength_serialize l) (\<lambda>bs.
       if length buf < length bs then
         (if length buf \<ge> SubpacketLength_serialized_len l then Inl Panic else Inl (Err InvalidArgument))
       else Inr (bs @ drop (length bs) buf))"

definition unwrap :: "'a res \<Rightarrow> 'a res" where
  "unwrap r = (case r of Inl _ \<Rightarrow> Inl Panic | Inr x \<Rightarrow> Inr x)"

definition SubpacketLength_cmp :: "SubpacketLength \<Rightarrow> SubpacketLength \<Rightarrow> Ordering res" where
  "SubpacketLength_cmp a b =
     (case (sl_raw a, sl_raw b) of
        (None, None) \<Rightarrow> Inr (cmp (sl_len a) (sl_len b))
      | (Some self_raw, Some other_raw) \<Rightarrow> Inr (slice_cmp self_raw other_raw)
      | (Some self_raw, None) \<Rightarrow>
          and_then (unwrap (SubpacketLength_serialize_into b (replicate (SubpacketLength_serialized_len a) 0)))
            (\<lambda>other_raw. Inr (slice_cmp self_raw other_raw))
      | (None, Some other_raw) \<Rightarrow>
          and_then (unwrap (SubpacketLength_serialize_into a (replicate (SubpacketLength_serialized_len a) 0)))
            (\<lambda>self_raw. Inr (slice_cmp self_raw other_raw)))"

section \<open>Parts of values\<close>

record RevocationKey =
  rk_pk_algo :: PublicKeyAlgorithm
  rk_fp :: Fingerprint
  sensitive :: bool
  unknown :: u8

definition REVOCATION_KEY_FLAG_MUST_BE_SET :: u8 where "REVOCATION_KEY_FLAG_MUST_BE_SET = 0x80"
definition REVOCATION_KEY_FLAG_SENSITIVE :: u8 where "REVOCATION_KEY_FLAG_SENSITIVE = 0x40"
definition REVOCATION_KEY_MASK_UNKNOWN :: u8 where
  "REVOCATION_KEY_MASK_UNKNOWN = NOT (REVOCATION_KEY_FLAG_MUST_BE_SET OR REVOCATION_KEY_FLAG_SENSITIVE)"

definition RevocationKey_new :: "PublicKeyAlgorithm \<Rightarrow> Fingerprint \<Rightarrow> bool \<Rightarrow> RevocationKey" where
  "RevocationKey_new pk_algo fp s = \<lparr>rk_pk_algo = pk_algo, rk_fp = fp, sensitive = s, unknown = 0\<rparr>"

definition RevocationKey_from_bits :: "PublicKeyAlgorithm \<Rightarrow> Fingerprint \<Rightarrow> u8 \<Rightarrow> RevocationKey res" where
  "RevocationKey_from_bits pk_algo fp cls =
     (if cls AND REVOCATION_KEY_FLAG_MUST_BE_SET = 0 then Inl (Err InvalidArgument)
      else
        Inr \<lparr>rk_pk_algo = pk_algo, rk_fp = fp,
             sensitive = (cls AND REVOCATION_KEY_FLAG_SENSITIVE > 0),
             unknown = cls AND REVOCATION_KEY_MASK_UNKNOWN\<rparr>)"

definition RevocationKey_class :: "RevocationKey \<Rightarrow> u8" where
  "RevocationKey_class rk =
     REVOCATION_KEY_FLAG_MUST_BE_SET
     OR (if sensitive rk then REVOCATION_KEY_FLAG_SENSITIVE else 0)
     OR unknown rk"

definition RevocationKey_serialize :: "RevocationKey \<Rightarrow> bytes" where
  "RevocationKey_serialize rk =
     [RevocationKey_class rk, u8_from_PublicKeyAlgorithm (rk_pk_algo rk)] @ Fingerprint_as_bytes (rk_fp rk)"

definition RevocationKey_serialized_len :: "RevocationKey \<Rightarrow> nat" where
  "RevocationKey_serialized_len rk = 1 + 1 + length (Fingerprint_as_bytes (rk_fp rk))"

record NotationDataFlags =
  notation_flags :: Bitfield

definition NotationDataFlags_new :: "bytes \<Rightarrow> NotationDataFlags res" where
  "NotationDataFlags_new bits =
     (if length bits = 4 then Inr \<lparr>notation_flags = \<lparr>raw = bits\<rparr>\<rparr> else Inl (Err InvalidArgument))"

definition NotationDataFlags_get :: "NotationDataFlags \<Rightarrow> nat \<Rightarrow> bool" where
  "NotationDataFlags_get f i = Bitfield_get (notation_flags f) i"

definition NotationDataFlags_set :: "NotationDataFlags \<Rightarrow> nat \<Rightarrow> NotationDataFlags res" where
  "NotationDataFlags_set f i =
     (if length (raw (notation_flags f)) \<noteq> 4 then Inl Panic
      else if i div 8 < 4 then Inr (f\<lparr>notation_flags := Bitfield_set (notation_flags f) i\<rparr>)
      else Inl (Err InvalidArgument))"

definition NotationDataFlags_clear :: "NotationDataFlags \<Rightarrow> nat \<Rightarrow> NotationDataFlags res" where
  "NotationDataFlags_clear f i =
     (if length (raw (notation_flags f)) \<noteq> 4 then Inl Panic
      else if i div 8 < 4 then Inr (f\<lparr>notation_flags := Bitfield_clear (notation_flags f) i\<rparr>)
      else Inl (Err InvalidArgument))"

text \<open>The name of a notation is a Rust string, held as its octets in UTF-8.\<close>

record NotationData =
  nd_flags :: NotationDataFlags
  nd_name :: bytes
  nd_value :: bytes

definition NotationData_new :: "bytes \<Rightarrow> bytes \<Rightarrow> NotationDataFlags option \<Rightarrow> NotationData" where
  "NotationData_new name val fs =
     \<lparr>nd_flags = (case fs of Some f \<Rightarrow> f | None \<Rightarrow> \<lparr>notation_flags = \<lparr>raw = [0, 0, 0, 0]\<rparr>\<rparr>),
      nd_name = name, nd_value = val\<rparr>"

record KeyServerPreferences =
  key_server_flags :: Bitfield

definition KeyServerPreferences_new :: "bytes \<Rightarrow> KeyServerPreferences" where
  "KeyServerPreferences_new bits = \<lparr>key_server_flags = \<lparr>raw = bits\<rparr>\<rparr>"

record Features =
  feature_flags :: Bitfield

definition Features_new :: "bytes \<Rightarrow> Features" where
  "Features_new bits = \<lparr>feature_flags = \<lparr>raw = bits\<rparr>\<rparr>"

text \<open>What \<open>std::str::from_utf8\<close> accepts.\<close>

definition utf8_tail :: "u8 \<Rightarrow> bool" where
  "utf8_tail b \<longleftrightarrow> 0x80 \<le> b \<and> b \<le> 0xBF"

fun utf8_valid :: "bytes \<Rightarrow> bool" where
  "utf8_valid [] = True"
| "utf8_valid (a # bs) =
     (if a < 0x80 then utf8_valid bs
      else if 0xC2 \<le> a \<and> a \<le> 0xDF then
        (case bs of b # bs \<Rightarrow> utf8_tail b \<and> utf8_valid bs | _ \<Rightarrow> False)
      else if 0xE0 \<le> a \<and> a \<le> 0xEF then
        (case bs of
           b # c # bs \<Rightarrow>
             utf8_tail b \<and> (if a = 0xE0 then 0xA0 \<le> b else if a = 0xED then b \<le> 0x9F else True)
             \<and> utf8_tail c \<and> utf8_valid bs
         | _ \<Rightarrow> False)
      else if 0xF0 \<le> a \<and> a \<le> 0xF4 then
        (case bs of
           b # c # d # bs \<Rightarrow>
             utf8_tail b \<and> (if a = 0xF0 then 0x90 \<le> b else if a = 0xF4 then b \<le> 0x8F else True)
             \<and> utf8_tail c \<and> utf8_tail d \<and> utf8_valid bs
         | _ \<Rightarrow> False)
      else False)"

text \<open>\<open>slice::chunks\<close>; a size of zero panics in Rust and does not occur below.\<close>

function chunks :: "nat \<Rightarrow> 'a list \<Rightarrow> 'a list list" where
  "chunks n xs = (if xs = [] \<or> n = 0 then [] else take n xs # chunks n (drop n xs))"
  by pat_completeness auto
termination by (relation "measure (length \<circ> snd)") auto

declare chunks.simps [simp del] utf8_valid.simps(2) [simp del]

section \<open>Values\<close>

datatype 'sig SubpacketValue =
    Unknown SubpacketTag bytes
  | SignatureCreationTime u32
  | SignatureExpirationTime u32
  | ExportableCertification bool
  | TrustSignature u8 u8
  | RegularExpression bytes
  | Revocable bool
  | KeyExpirationTime u32
  | PreferredSymmetricAlgorithms "SymmetricAlgorithm list"
  | RevocationKey RevocationKey
  | Issuer KeyID
  | NotationData NotationData
  | PreferredHashAlgorithms "HashAlgorithm list"
  | PreferredCompressionAlgorithms "CompressionAlgorithm list"
  | KeyServerPreferences KeyServerPreferences
  | PreferredKeyServer bytes
  | PrimaryUserID bool
  | PolicyURI bytes
  | KeyFlags KeyFlags
  | SignersUserID bytes
  | ReasonForRevocation ReasonForRevocation bytes
  | Features Features
  | SignatureTarget PublicKeyAlgorithm HashAlgorithm bytes
  | EmbeddedSignature 'sig
  | IssuerFingerprint Fingerprint
  | IntendedRecipient Fingerprint
  | ApprovedCertifications "bytes list"
  | PreferredAEADCiphersuites "(SymmetricAlgorithm \<times> AEADAlgorithm) list"

definition SubpacketValue_tag :: "'sig SubpacketValue \<Rightarrow> SubpacketTag" where
  "SubpacketValue_tag v =
     (case v of
        SubpacketValue.SignatureCreationTime _ \<Rightarrow> SubpacketTag.SignatureCreationTime
      | SubpacketValue.SignatureExpirationTime _ \<Rightarrow> SubpacketTag.SignatureExpirationTime
      | SubpacketValue.ExportableCertification _ \<Rightarrow> SubpacketTag.ExportableCertification
      | SubpacketValue.TrustSignature _ _ \<Rightarrow> SubpacketTag.TrustSignature
      | SubpacketValue.RegularExpression _ \<Rightarrow> SubpacketTag.RegularExpression
      | SubpacketValue.Revocable _ \<Rightarrow> SubpacketTag.Revocable
      | SubpacketValue.KeyExpirationTime _ \<Rightarrow> SubpacketTag.KeyExpirationTime
      | SubpacketValue.PreferredSymmetricAlgorithms _ \<Rightarrow> SubpacketTag.PreferredSymmetricAlgorithms
      | SubpacketValue.RevocationKey _ \<Rightarrow> SubpacketTag.RevocationKey
      | SubpacketValue.Issuer _ \<Rightarrow> SubpacketTag.Issuer
      | SubpacketValue.NotationData _ \<Rightarrow> SubpacketTag.NotationData
      | SubpacketValue.PreferredHashAlgorithms _ \<Rightarrow> SubpacketTag.PreferredHashAlgorithms
      | SubpacketValue.PreferredCompressionAlgorithms _ \<Rightarrow> SubpacketTag.PreferredCompressionAlgorithms
      | SubpacketValue.KeyServerPreferences _ \<Rightarrow> SubpacketTag.KeyServerPreferences
      | SubpacketValue.PreferredKeyServer _ \<Rightarrow> SubpacketTag.PreferredKeyServer
      | SubpacketValue.PrimaryUserID _ \<Rightarrow> SubpacketTag.PrimaryUserID
      | SubpacketValue.PolicyURI _ \<Rightarrow> SubpacketTag.PolicyURI
      | SubpacketValue.KeyFlags _ \<Rightarrow> SubpacketTag.KeyFlags
      | SubpacketValue.SignersUserID _ \<Rightarrow> SubpacketTag.SignersUserID
      | SubpacketValue.ReasonForRevocation _ _ \<Rightarrow> SubpacketTag.ReasonForRevocation
      | SubpacketValue.Features _ \<Rightarrow> SubpacketTag.Features
      | SubpacketValue.SignatureTarget _ _ _ \<Rightarrow> SubpacketTag.SignatureTarget
      | SubpacketValue.EmbeddedSignature _ \<Rightarrow> SubpacketTag.EmbeddedSignature
      | SubpacketValue.IssuerFingerprint _ \<Rightarrow> SubpacketTag.IssuerFingerprint
      | SubpacketValue.IntendedRecipient _ \<Rightarrow> SubpacketTag.IntendedRecipient
      | SubpacketValue.ApprovedCertifications _ \<Rightarrow> SubpacketTag.ApprovedCertifications
      | SubpacketValue.PreferredAEADCiphersuites _ \<Rightarrow> SubpacketTag.PreferredAEADCiphersuites
      | SubpacketValue.Unknown tag _ \<Rightarrow> tag)"

definition fingerprint_value_serialize :: "Fingerprint \<Rightarrow> bytes res" where
  "fingerprint_value_serialize fp =
     (case fp of
        Fingerprint.V4 _ \<Rightarrow> Inr (4 # Fingerprint_as_bytes fp)
      | Fingerprint.V6 _ \<Rightarrow> Inr (6 # Fingerprint_as_bytes fp)
      | _ \<Rightarrow> Inl (Err InvalidArgument))"

definition SubpacketValue_serialize :: "('sig \<Rightarrow> bytes res) \<Rightarrow> 'sig SubpacketValue \<Rightarrow> bytes res" where
  "SubpacketValue_serialize sig_serialize v =
     (case v of
        SubpacketValue.SignatureCreationTime t \<Rightarrow> Inr (to_be_u32 t)
      | SubpacketValue.SignatureExpirationTime t \<Rightarrow> Inr (to_be_u32 t)
      | SubpacketValue.ExportableCertification e \<Rightarrow> Inr [if e then 1 else 0]
      | SubpacketValue.TrustSignature level trust \<Rightarrow> Inr [level, trust]
      | SubpacketValue.RegularExpression re \<Rightarrow> Inr (re @ [0])
      | SubpacketValue.Revocable r \<Rightarrow> Inr [if r then 1 else 0]
      | SubpacketValue.KeyExpirationTime t \<Rightarrow> Inr (to_be_u32 t)
      | SubpacketValue.PreferredSymmetricAlgorithms p \<Rightarrow> Inr (map u8_from_SymmetricAlgorithm p)
      | SubpacketValue.RevocationKey rk \<Rightarrow> Inr (RevocationKey_serialize rk)
      | SubpacketValue.Issuer keyid \<Rightarrow> Inr (KeyID_as_bytes keyid)
      | SubpacketValue.NotationData nd \<Rightarrow>
          Inr (raw (notation_flags (nd_flags nd))
            @ to_be_u16 (word_of_nat (length (nd_name nd))) @ to_be_u16 (word_of_nat (length (nd_value nd)))
            @ nd_name nd @ nd_value nd)
      | SubpacketValue.PreferredHashAlgorithms p \<Rightarrow> Inr (map u8_from_HashAlgorithm p)
      | SubpacketValue.PreferredCompressionAlgorithms p \<Rightarrow> Inr (map u8_from_CompressionAlgorithm p)
      | SubpacketValue.KeyServerPreferences p \<Rightarrow> Inr (raw (key_server_flags p))
      | SubpacketValue.PreferredKeyServer p \<Rightarrow> Inr p
      | SubpacketValue.PrimaryUserID p \<Rightarrow> Inr [if p then 1 else 0]
      | SubpacketValue.PolicyURI p \<Rightarrow> Inr p
      | SubpacketValue.KeyFlags f \<Rightarrow> Inr (raw (key_flags f))
      | SubpacketValue.SignersUserID uid \<Rightarrow> Inr uid
      | SubpacketValue.ReasonForRevocation code reason \<Rightarrow> Inr (u8_from_ReasonForRevocation code # reason)
      | SubpacketValue.Features f \<Rightarrow> Inr (raw (feature_flags f))
      | SubpacketValue.SignatureTarget pk_algo hash_algo digest \<Rightarrow>
          Inr ([u8_from_PublicKeyAlgorithm pk_algo, u8_from_HashAlgorithm hash_algo] @ digest)
      | SubpacketValue.EmbeddedSignature sig \<Rightarrow> sig_serialize sig
      | SubpacketValue.IssuerFingerprint fp \<Rightarrow> fingerprint_value_serialize fp
      | SubpacketValue.IntendedRecipient fp \<Rightarrow> fingerprint_value_serialize fp
      | SubpacketValue.ApprovedCertifications digests \<Rightarrow> Inr (concat digests)
      | SubpacketValue.PreferredAEADCiphersuites p \<Rightarrow>
          Inr (concat (map (\<lambda>(symm, aead). [u8_from_SymmetricAlgorithm symm, u8_from_AEADAlgorithm aead]) p))
      | SubpacketValue.Unknown _ body \<Rightarrow> Inr body)"

definition SubpacketValue_serialized_len :: "('sig \<Rightarrow> nat) \<Rightarrow> 'sig SubpacketValue \<Rightarrow> nat" where
  "SubpacketValue_serialized_len sig_serialized_len v =
     (case v of
        SubpacketValue.SignatureCreationTime _ \<Rightarrow> 4
      | SubpacketValue.SignatureExpirationTime _ \<Rightarrow> 4
      | SubpacketValue.ExportableCertification _ \<Rightarrow> 1
      | SubpacketValue.TrustSignature _ _ \<Rightarrow> 2
      | SubpacketValue.RegularExpression re \<Rightarrow> length re + 1
      | SubpacketValue.Revocable _ \<Rightarrow> 1
      | SubpacketValue.KeyExpirationTime _ \<Rightarrow> 4
      | SubpacketValue.PreferredSymmetricAlgorithms p \<Rightarrow> length p
      | SubpacketValue.RevocationKey rk \<Rightarrow> RevocationKey_serialized_len rk
      | SubpacketValue.Issuer keyid \<Rightarrow> length (KeyID_as_bytes keyid)
      | SubpacketValue.NotationData nd \<Rightarrow> 4 + 2 + 2 + length (nd_name nd) + length (nd_value nd)
      | SubpacketValue.PreferredHashAlgorithms p \<Rightarrow> length p
      | SubpacketValue.PreferredCompressionAlgorithms p \<Rightarrow> length p
      | SubpacketValue.KeyServerPreferences p \<Rightarrow> length (raw (key_server_flags p))
      | SubpacketValue.PreferredKeyServer p \<Rightarrow> length p
      | SubpacketValue.PrimaryUserID _ \<Rightarrow> 1
      | SubpacketValue.PolicyURI p \<Rightarrow> length p
      | SubpacketValue.KeyFlags f \<Rightarrow> length (raw (key_flags f))
      | SubpacketValue.SignersUserID uid \<Rightarrow> length uid
      | SubpacketValue.ReasonForRevocation _ reason \<Rightarrow> 1 + length reason
      | SubpacketValue.Features f \<Rightarrow> length (raw (feature_flags f))
      | SubpacketValue.SignatureTarget _ _ digest \<Rightarrow> 2 + length digest
      | SubpacketValue.EmbeddedSignature sig \<Rightarrow> sig_serialized_len sig
      | SubpacketValue.IssuerFingerprint fp \<Rightarrow> 1 + length (Fingerprint_as_bytes fp)
      | SubpacketValue.IntendedRecipient fp \<Rightarrow> 1 + length (Fingerprint_as_bytes fp)
      | SubpacketValue.ApprovedCertifications digests \<Rightarrow> sum_list (map length digests)
      | SubpacketValue.PreferredAEADCiphersuites c \<Rightarrow> length c * 2
      | SubpacketValue.Unknown _ body \<Rightarrow> length body)"

section \<open>Subpackets\<close>

datatype 'sig Subpacket =
  Subpacket (sp_length: SubpacketLength) (critical: bool) (sp_value: "'sig SubpacketValue") (authenticated: bool)

definition with_length :: "SubpacketLength \<Rightarrow> 'sig SubpacketValue \<Rightarrow> bool \<Rightarrow> 'sig Subpacket" where
  "with_length len val crit = Subpacket len crit val False"

definition Subpacket_new :: "('sig \<Rightarrow> nat) \<Rightarrow> 'sig SubpacketValue \<Rightarrow> bool \<Rightarrow> 'sig Subpacket res" where
  "Subpacket_new sig_serialized_len val crit =
     (let body = word_of_nat (SubpacketValue_serialized_len sig_serialized_len val) :: u32 in
      if body = - 1 then Inl Panic
      else Inr (with_length (SubpacketLength_from_u32 (1 + body)) val crit))"

definition Subpacket_tag :: "'sig Subpacket \<Rightarrow> SubpacketTag" where
  "Subpacket_tag p = SubpacketValue_tag (sp_value p)"

definition set_authenticated :: "'sig Subpacket \<Rightarrow> bool \<Rightarrow> 'sig Subpacket" where
  "set_authenticated p a = Subpacket (sp_length p) (critical p) (sp_value p) a"

definition Subpacket_serialize :: "('sig \<Rightarrow> bytes res) \<Rightarrow> 'sig Subpacket \<Rightarrow> bytes res" where
  "Subpacket_serialize sig_serialize p =
     (let tag = u8_from_SubpacketTag (Subpacket_tag p) OR (if critical p then push_bit 7 1 else 0) in
      and_then (SubpacketLength_serialize (sp_length p)) (\<lambda>l.
        and_then (SubpacketValue_serialize sig_serialize (sp_value p)) (\<lambda>v. Inr (l @ [tag] @ v))))"

definition Subpacket_serialized_len :: "('sig \<Rightarrow> nat) \<Rightarrow> 'sig Subpacket \<Rightarrow> nat" where
  "Subpacket_serialized_len sig_serialized_len p =
     SubpacketLength_serialized_len (sp_length p) + 1 + SubpacketValue_serialized_len sig_serialized_len (sp_value p)"

definition parse_bool :: "bool reader" where
  "parse_bool bs =
     and_then (read_u8 bs) (\<lambda>(v, bs).
       if v = 0 then Inr (False, bs) else if v = 1 then Inr (True, bs) else Inl (Err MalformedPacket))"

definition fingerprint_value_parse :: "nat \<Rightarrow> Fingerprint reader" where
  "fingerprint_value_parse len bs =
     (if len = 0 then Inl (Err MalformedPacket)
      else
        and_then (parse_u8 bs) (\<lambda>(version, bs).
          let expect_len = (if version = 4 then Some (1 + 20) else if version = 6 then Some (1 + 32) else None) in
          if (case expect_len of Some n \<Rightarrow> len \<noteq> n | None \<Rightarrow> False) then Inl (Err MalformedPacket)
          else
            and_then (parse_bytes (len - 1) bs) (\<lambda>(bytes, bs).
              and_then (Fingerprint_from_bytes version bytes) (\<lambda>fp. Inr (fp, bs)))))"

text \<open>The body of a subpacket of \<open>len\<close> octets, by tag.\<close>

definition SubpacketValue_parse ::
    "(HashAlgorithm \<Rightarrow> nat option) \<Rightarrow> (bytes \<Rightarrow> 'sig res) \<Rightarrow> HashAlgorithm \<Rightarrow> SubpacketTag \<Rightarrow> nat
     \<Rightarrow> 'sig SubpacketValue reader" where
  "SubpacketValue_parse digest_sizes sig_from_bytes hash_algo tag len bs =
     (case tag of
        SubpacketTag.SignatureCreationTime \<Rightarrow>
          and_then (read_be_u32 bs) (\<lambda>(t, bs). Inr (SubpacketValue.SignatureCreationTime t, bs))
      | SubpacketTag.SignatureExpirationTime \<Rightarrow>
          and_then (read_be_u32 bs) (\<lambda>(t, bs). Inr (SubpacketValue.SignatureExpirationTime t, bs))
      | SubpacketTag.ExportableCertification \<Rightarrow>
          and_then (parse_bool bs) (\<lambda>(e, bs). Inr (SubpacketValue.ExportableCertification e, bs))
      | SubpacketTag.TrustSignature \<Rightarrow>
          and_then (parse_u8 bs) (\<lambda>(level, bs).
            and_then (parse_u8 bs) (\<lambda>(trust, bs). Inr (SubpacketValue.TrustSignature level trust, bs)))
      | SubpacketTag.RegularExpression \<Rightarrow>
          and_then (parse_bytes len bs) (\<lambda>(v, bs).
            if v = [] \<or> v ! (length v - 1) \<noteq> 0 then Inl (Err MalformedPacket)
            else Inr (SubpacketValue.RegularExpression (butlast v), bs))
      | SubpacketTag.Revocable \<Rightarrow>
          and_then (parse_bool bs) (\<lambda>(r, bs). Inr (SubpacketValue.Revocable r, bs))
      | SubpacketTag.KeyExpirationTime \<Rightarrow>
          and_then (read_be_u32 bs) (\<lambda>(t, bs). Inr (SubpacketValue.KeyExpirationTime t, bs))
      | SubpacketTag.PreferredSymmetricAlgorithms \<Rightarrow>
          and_then (parse_bytes len bs) (\<lambda>(v, bs).
            Inr (SubpacketValue.PreferredSymmetricAlgorithms (map SymmetricAlgorithm_from_u8 v), bs))
      | SubpacketTag.RevocationKey \<Rightarrow>
          if len < 22 then Inl (Err MalformedPacket)
          else
            and_then (parse_u8 bs) (\<lambda>(cls, bs).
              and_then (parse_u8 bs) (\<lambda>(pk_algo, bs).
                and_then (parse_bytes (len - 2) bs) (\<lambda>(fp, bs).
                  and_then (Fingerprint_from_bytes_intern None fp) (\<lambda>fp.
                    and_then (RevocationKey_from_bits (PublicKeyAlgorithm_from_u8 pk_algo) fp cls) (\<lambda>rk.
                      Inr (SubpacketValue.RevocationKey rk, bs))))))
      | SubpacketTag.Issuer \<Rightarrow>
          and_then (parse_bytes len bs) (\<lambda>(v, bs). Inr (SubpacketValue.Issuer (KeyID_from_bytes v), bs))
      | SubpacketTag.NotationData \<Rightarrow>
          and_then (parse_bytes 4 bs) (\<lambda>(flag_bits, bs).
            and_then (read_be_u16 bs) (\<lambda>(name_len, bs).
              and_then (read_be_u16 bs) (\<lambda>(value_len, bs).
                if len \<noteq> 8 + unat name_len + unat value_len then Inl (Err MalformedPacket)
                else
                  and_then (parse_bytes (unat name_len) bs) (\<lambda>(name, bs).
                    if \<not> utf8_valid name then Inl (Err MalformedPacket)
                    else
                      and_then (parse_bytes (unat value_len) bs) (\<lambda>(val, bs).
                        and_then (NotationDataFlags_new flag_bits) (\<lambda>fs.
                          Inr (SubpacketValue.NotationData (NotationData_new name val (Some fs)), bs)))))))
      | SubpacketTag.PreferredHashAlgorithms \<Rightarrow>
          and_then (parse_bytes len bs) (\<lambda>(v, bs).
            Inr (SubpacketValue.PreferredHashAlgorithms (map HashAlgorithm_from_u8 v), bs))
      | SubpacketTag.PreferredCompressionAlgorithms \<Rightarrow>
          and_then (parse_bytes len bs) (\<lambda>(v, bs).
            Inr (SubpacketValue.PreferredCompressionAlgorithms (map CompressionAlgorithm_from_u8 v), bs))
      | SubpacketTag.KeyServerPreferences \<Rightarrow>
          and_then (parse_bytes len bs) (\<lambda>(v, bs).
            Inr (SubpacketValue.KeyServerPreferences (KeyServerPreferences_new v), bs))
      | SubpacketTag.PreferredKeyServer \<Rightarrow>
          and_then (parse_bytes len bs) (\<lambda>(v, bs). Inr (SubpacketValue.PreferredKeyServer v, bs))
      | SubpacketTag.PrimaryUserID \<Rightarrow>
          and_then (parse_bool bs) (\<lambda>(p, bs). Inr (SubpacketValue.PrimaryUserID p, bs))
      | SubpacketTag.PolicyURI \<Rightarrow>
          and_then (parse_bytes len bs) (\<lambda>(v, bs). Inr (SubpacketValue.PolicyURI v, bs))
      | SubpacketTag.KeyFlags \<Rightarrow>
          and_then (parse_bytes len bs) (\<lambda>(v, bs). Inr (SubpacketValue.KeyFlags (KeyFlags_new v), bs))
      | SubpacketTag.SignersUserID \<Rightarrow>
          and_then (parse_bytes len bs) (\<lambda>(v, bs). Inr (SubpacketValue.SignersUserID v, bs))
      | SubpacketTag.ReasonForRevocation \<Rightarrow>
          if len = 0 then Inl (Err MalformedPacket)
          else
            and_then (parse_u8 bs) (\<lambda>(code, bs).
              and_then (parse_bytes (len - 1) bs) (\<lambda>(reason, bs).
                Inr (SubpacketValue.ReasonForRevocation (ReasonForRevocation_from_u8 code) reason, bs)))
      | SubpacketTag.Features \<Rightarrow>
          and_then (parse_bytes len bs) (\<lambda>(v, bs). Inr (SubpacketValue.Features (Features_new v), bs))
      | SubpacketTag.SignatureTarget \<Rightarrow>
          if len < 2 then Inl (Err MalformedPacket)
          else
            and_then (parse_u8 bs) (\<lambda>(pk_algo, bs).
              and_then (parse_u8 bs) (\<lambda>(h, bs).
                and_then (parse_bytes (len - 2) bs) (\<lambda>(digest, bs).
                  Inr (SubpacketValue.SignatureTarget
                         (PublicKeyAlgorithm_from_u8 pk_algo) (HashAlgorithm_from_u8 h) digest, bs))))
      | SubpacketTag.EmbeddedSignature \<Rightarrow>
          and_then (parse_bytes len bs) (\<lambda>(v, bs).
            and_then (sig_from_bytes v) (\<lambda>sig. Inr (SubpacketValue.EmbeddedSignature sig, bs)))
      | SubpacketTag.IssuerFingerprint \<Rightarrow>
          and_then (fingerprint_value_parse len bs) (\<lambda>(fp, bs). Inr (SubpacketValue.IssuerFingerprint fp, bs))
      | SubpacketTag.IntendedRecipient \<Rightarrow>
          and_then (fingerprint_value_parse len bs) (\<lambda>(fp, bs). Inr (SubpacketValue.IntendedRecipient fp, bs))
      | SubpacketTag.ApprovedCertifications \<Rightarrow>
          (let digest_size = (case digest_sizes hash_algo of Some n \<Rightarrow> n | None \<Rightarrow> len) in
           if digest_size = 0 then Inr (SubpacketValue.ApprovedCertifications [], bs)
           else if len mod digest_size \<noteq> 0 then Inl (Err BadSignature)
           else
             and_then (parse_bytes len bs) (\<lambda>(bytes, bs).
               Inr (SubpacketValue.ApprovedCertifications (chunks digest_size bytes), bs)))
      | SubpacketTag.PreferredAEADCiphersuites \<Rightarrow>
          if len mod 2 \<noteq> 0 then Inl (Err BadSignature)
          else
            and_then (parse_bytes len bs) (\<lambda>(v, bs).
              Inr (SubpacketValue.PreferredAEADCiphersuites
                     (map (\<lambda>c. (SymmetricAlgorithm_from_u8 (c ! 0), AEADAlgorithm_from_u8 (c ! 1))) (chunks 2 v)), bs))
      | SubpacketTag.Reserved _ \<Rightarrow> and_then (parse_bytes len bs) (\<lambda>(body, bs). Inr (SubpacketValue.Unknown tag body, bs))
      | SubpacketTag.PlaceholderForBackwardCompatibility \<Rightarrow>
          and_then (parse_bytes len bs) (\<lambda>(body, bs). Inr (SubpacketValue.Unknown tag body, bs))
      | SubpacketTag.PreferredAEADAlgorithms \<Rightarrow>
          and_then (parse_bytes len bs) (\<lambda>(body, bs). Inr (SubpacketValue.Unknown tag body, bs))
      | SubpacketTag.Private _ \<Rightarrow> and_then (parse_bytes len bs) (\<lambda>(body, bs). Inr (SubpacketValue.Unknown tag body, bs))
      | SubpacketTag.Unknown _ \<Rightarrow> and_then (parse_bytes len bs) (\<lambda>(body, bs). Inr (SubpacketValue.Unknown tag body, bs)))"

text \<open>
  The position of the reader before the body, \<open>total_out\<close>, is given by the number of unread octets.
\<close>

definition Subpacket_parse ::
    "(HashAlgorithm \<Rightarrow> nat option) \<Rightarrow> (bytes \<Rightarrow> 'sig res) \<Rightarrow> nat \<Rightarrow> HashAlgorithm \<Rightarrow> 'sig Subpacket reader" where
  "Subpacket_parse digest_sizes sig_from_bytes limit hash_algo bs =
     and_then (SubpacketLength_parse bs) (\<lambda>(len_field, bs).
       let len = SubpacketLength_len len_field in
       if limit < SubpacketLength_serialized_len len_field + len then Inl (Err MalformedPacket)
       else if len = 0 then Inl (Err MalformedPacket)
       else
         and_then (parse_u8 bs) (\<lambda>(tag, bs).
           let len = len - 1;
               crit = (tag AND push_bit 7 1 \<noteq> 0);
               tag = SubpacketTag_from_u8 (tag AND NOT (push_bit 7 1)) in
           and_then (SubpacketValue_parse digest_sizes sig_from_bytes hash_algo tag len bs) (\<lambda>(val, bs').
             if length bs \<noteq> length bs' + len then Inl (Err MalformedPacket)
             else Inr (with_length len_field val crit, bs'))))"

end
