(* ===== verification/SubpacketCodec.thy ===== *)
theory SubpacketCodec
  imports Subpackets
begin

text \<open>
  Reading and writing signature subpackets are inverse to each other, given that they are for the
  signatures inside.
\<close>

unbundle bit_operations_syntax

section \<open>Lengths\<close>

lemma u8_last: "\<not> a < 255 \<Longrightarrow> a = (255 :: u8)"
  using unat_u8_le [of a] by (simp add: word_less_nat_alt word_unat_eq_iff del: unat_u8_le)

definition two_octets :: "u8 \<Rightarrow> u8 \<Rightarrow> u32" where
  "two_octets a b = push_bit 8 (ucast a - 192) + ucast b + 192"

definition SubpacketLength_ok :: "SubpacketLength \<Rightarrow> bool" where
  "SubpacketLength_ok l =
     (case sl_raw l of
        None \<Rightarrow> True
      | Some [a, b] \<Rightarrow> 192 \<le> a \<and> a < 255 \<and> sl_len l = two_octets a b \<and> len_optimal_encoding (sl_len l) \<noteq> 2
      | Some r \<Rightarrow> r = 255 # to_be_u32 (sl_len l) \<and> len_optimal_encoding (sl_len l) \<noteq> 5)"

lemma unat_two_octets:
  assumes "192 \<le> a"
  shows "unat (two_octets a b) = (unat a - 192) * 256 + unat b + 192"
proof -
  have a: "192 \<le> unat a" using assms by (simp add: word_le_nat_alt)
  have "ucast a - 192 = (word_of_nat (unat a - 192) :: u32)" using a by (simp add: of_nat_diff)
  then have "two_octets a b = word_of_nat ((unat a - 192) * 256 + unat b + 192)"
    by (simp add: two_octets_def push_bit_eq_mult mult.commute)
  moreover have "(unat a - 192) * 256 + unat b + 192 < 2 ^ 32"
    using unat_u8_less [of a] unat_u8_less [of b] by (simp del: unat_u8_less)
  ultimately show ?thesis by (simp add: unat_word_of_nat_less del: of_nat_add of_nat_mult)
qed

lemma len_optimal_encoding_unat:
  "len_optimal_encoding l = (if unat l \<le> 191 then 1 else if unat l \<le> 8383 then 2 else 5)"
  by (simp add: len_optimal_encoding_def BodyLength_serialized_len_def word_le_nat_alt)

lemma two_octets_optimal:
  assumes "192 \<le> a" "len_optimal_encoding (two_octets a b) = 2"
  shows "BodyLength_serialize (BodyLength.Full (two_octets a b)) = Inr [a, b]"
proof -
  let ?l = "two_octets a b"
  have a: "192 \<le> unat a" using assms(1) by (simp add: word_le_nat_alt)
  have l: "unat ?l = (unat a - 192) * 256 + unat b + 192" using assms(1) by (rule unat_two_octets)
  have range: "192 \<le> unat ?l" "unat ?l \<le> 8383" using assms(2) l by (auto simp: len_optimal_encoding_unat split: if_splits)
  have "(unat ?l - 192) div 256 = unat a - 192" "(unat ?l - 192) mod 256 = unat b"
    using unat_u8_less [of b] by (simp_all add: l)
  then have "to_be_u16 (ucast (?l - 192 + push_bit 8 192 :: u32)) = [a, b]"
    using two_octet_encoding [OF range] a by simp
  then show ?thesis
    using range by (simp add: BodyLength_serialize_def Let_def word_le_nat_alt)
qed

lemma SubpacketLength_serialize_Inr:
  "\<exists>c. SubpacketLength_serialize l = Inr c \<and> length c = SubpacketLength_serialized_len l"
proof (cases "sl_raw l")
  case None
  have "is_ok (BodyLength_serialize (BodyLength.Full (sl_len l)))"
    by (simp add: BodyLength_serialize_def Let_def)
  then obtain c where "BodyLength_serialize (BodyLength.Full (sl_len l)) = Inr c" by (auto simp: is_ok_iff)
  then show ?thesis
    using None BodyLength_serialize_length
    by (auto simp: SubpacketLength_serialize_def SubpacketLength_serialized_len_def SubpacketLength_len_def
        len_optimal_encoding_def)
qed (simp add: SubpacketLength_serialize_def SubpacketLength_serialized_len_def)

lemma SubpacketLength_parse_None:
  assumes "BodyLength_serialize (BodyLength.Full l) = Inr c"
  shows "SubpacketLength_parse (c @ rest) = Inr (SubpacketLength_new l None, rest)"
proof -
  consider "unat l \<le> 191" | "192 \<le> unat l" "unat l \<le> 8383" | "8383 < unat l" by linarith
  then show ?thesis
  proof cases
    case 1
    then have "c = [ucast l]" "unat (ucast l :: u8) = unat l"
      using assms by (auto simp: BodyLength_serialize_def word_le_nat_alt unat_ucast_mod)
    with 1 show ?thesis
      by (simp add: SubpacketLength_parse_def word_less_nat_alt ucast_ucast_id)
  next
    case 2
    let ?a = "word_of_nat (192 + (unat l - 192) div 256) :: u8" and ?b = "word_of_nat ((unat l - 192) mod 256) :: u8"
    have c: "c = [?a, ?b]"
      using assms 2 two_octet_encoding [OF 2] by (simp add: BodyLength_serialize_def Let_def word_le_nat_alt)
    have "(unat l - 192) div 256 \<le> 31" using 2 by (simp add: less_Suc_eq_le [symmetric] div_less_iff_less_mult)
    then have "unat ?a = 192 + (unat l - 192) div 256" "unat ?a < 224"
      using unat_word_of_nat_u8 [of "192 + (unat l - 192) div 256"] by (simp_all del: of_nat_add)
    then have "192 \<le> ?a" "?a < 255" by (simp_all add: word_le_nat_alt word_less_nat_alt)
    moreover have "push_bit 8 (ucast ?a - 192) + ucast ?b + 192 = l" by (rule two_octet_decoding [OF 2])
    moreover have "len_optimal_encoding l = 2" using 2 by (simp add: len_optimal_encoding_unat)
    ultimately show ?thesis unfolding c by (simp add: SubpacketLength_parse_def Let_def not_less [symmetric])
  next
    case 3
    then have "c = 255 # to_be_u32 l"
      using assms by (simp add: BodyLength_serialize_def word_le_nat_alt)
    with 3 show ?thesis by (simp add: SubpacketLength_parse_def len_optimal_encoding_unat)
  qed
qed

lemma SubpacketLength_parse_serialize:
  assumes "SubpacketLength_ok l" "SubpacketLength_serialize l = Inr c"
  shows "SubpacketLength_parse (c @ rest) = Inr (l, rest)"
proof (cases "sl_raw l")
  case None
  then have "l = SubpacketLength_new (sl_len l) None" by (simp add: SubpacketLength_new_def)
  moreover have "BodyLength_serialize (BodyLength.Full (sl_len l)) = Inr c"
    using assms(2) None by (simp add: SubpacketLength_serialize_def SubpacketLength_len_def)
  ultimately show ?thesis using SubpacketLength_parse_None by metis
next
  case (Some r)
  then have c: "c = r" using assms(2) by (simp add: SubpacketLength_serialize_def)
  have l: "l = SubpacketLength_new (sl_len l) (Some r)" using Some by (simp add: SubpacketLength_new_def)
  from assms(1) Some consider
      a b where "r = [a, b]" "192 \<le> a" "a < 255" "sl_len l = two_octets a b" "len_optimal_encoding (sl_len l) \<noteq> 2"
    | "r = 255 # to_be_u32 (sl_len l)" "len_optimal_encoding (sl_len l) \<noteq> 5"
    by (auto simp: SubpacketLength_ok_def split: list.splits)
  then show ?thesis
  proof cases
    case 1
    then show ?thesis
      by (subst l) (simp add: c SubpacketLength_parse_def two_octets_def Let_def not_less [symmetric])
  next
    case 2
    then show ?thesis by (subst l) (simp add: c SubpacketLength_parse_def)
  qed
qed

lemma SubpacketLength_parse_exact:
  assumes "SubpacketLength_parse bs = Inr (l, rest)"
  shows "SubpacketLength_ok l \<and> (\<exists>c. SubpacketLength_serialize l = Inr c \<and> bs = c @ rest)"
proof -
  obtain a bs1 where bs: "bs = a # bs1"
    using assms by (cases bs) (simp_all add: SubpacketLength_parse_def)
  consider "a < 192" | "192 \<le> a" "a < 255" | "a = 255"
    using u8_last [of a] by (cases "a < 192"; cases "a < 255") (auto simp: not_less)
  then show ?thesis
  proof cases
    case 1
    then have "l = SubpacketLength_new (ucast a) None" "bs1 = rest"
      using assms bs by (simp_all add: SubpacketLength_parse_def)
    moreover have "unat a \<le> 191" "unat (ucast a :: u32) = unat a"
      using 1 unat_u8_less [of a] by (auto simp: word_less_nat_alt unat_ucast_mod simp del: unat_u8_less)
    ultimately show ?thesis
      using bs by (simp add: SubpacketLength_ok_def SubpacketLength_new_def SubpacketLength_serialize_def
          SubpacketLength_len_def BodyLength_serialize_def word_le_nat_alt ucast_ucast_id)
  next
    case 2
    then obtain b where b: "bs1 = b # rest"
        "l = SubpacketLength_new (two_octets a b) (if len_optimal_encoding (two_octets a b) = 2 then None else Some [a, b])"
      using assms bs by (auto simp: SubpacketLength_parse_def two_octets_def Let_def result_simps read_u8_eq_Inr not_less [symmetric])
    then show ?thesis
      using bs 2 two_octets_optimal [of a b]
      by (auto simp: SubpacketLength_ok_def SubpacketLength_new_def SubpacketLength_serialize_def SubpacketLength_len_def)
  next
    case 3
    then obtain n where n: "bs1 = to_be_u32 n @ rest"
        "l = SubpacketLength_new n (if len_optimal_encoding n = 5 then None else Some (255 # to_be_u32 n))"
      using assms bs by (auto simp: SubpacketLength_parse_def result_simps read_be_u32_eq_Inr)
    have "to_be_u32 n \<noteq> [x]" for x using length_to_be(2) [of n] by (metis One_nat_def length_Cons list.size(3) numeral_eq_one_iff semiring_norm(85))
    then show ?thesis
      using bs 3 n
      by (auto simp: SubpacketLength_ok_def SubpacketLength_new_def SubpacketLength_serialize_def SubpacketLength_len_def
          BodyLength_serialize_def len_optimal_encoding_unat word_le_nat_alt split: list.splits if_splits)
  qed
qed

lemma SubpacketLength_parse_no_panic: "\<not> panics (SubpacketLength_parse bs)"
proof -
  have "a = 255" if "\<not> a < 192" "\<not> (192 \<le> a \<and> a < 255)" for a :: u8
    using that u8_last [of a] by auto
  then show ?thesis by (auto simp: SubpacketLength_parse_def Let_def)
qed

section \<open>Parts of values\<close>

lemma concat_chunks: "0 < n \<Longrightarrow> concat (chunks n xs) = xs"
  by (induction n xs rule: chunks.induct) (subst chunks.simps, simp)

lemma chunks_full: "0 < n \<Longrightarrow> length xs mod n = 0 \<Longrightarrow> list_all (\<lambda>c. length c = n) (chunks n xs)"
proof (induction n xs rule: chunks.induct)
  case (1 n xs)
  show ?case
  proof (cases "xs = []")
    case True
    then show ?thesis by (simp add: chunks.simps)
  next
    case False
    then have "n \<le> length xs" using 1(3) mod_less [of "length xs" n] by (cases "length xs < n") auto
    moreover from this have "length (drop n xs) mod n = 0" using 1(3) by (simp add: le_mod_geq)
    ultimately show ?thesis using 1 False by (subst chunks.simps) simp
  qed
qed

lemma chunks_concat: "0 < n \<Longrightarrow> list_all (\<lambda>c. length c = n) cs \<Longrightarrow> chunks n (concat cs) = cs"
proof (induction cs)
  case Nil
  then show ?case by (simp add: chunks.simps)
next
  case (Cons c cs)
  then have "c \<noteq> []" by auto
  with Cons show ?case by (subst chunks.simps) simp
qed

lemma chunks_whole: "xs \<noteq> [] \<Longrightarrow> chunks (length xs) xs = [xs]"
  by (subst chunks.simps) (simp add: chunks.simps)

lemma sum_list_full: "list_all (\<lambda>c. length c = n) cs \<Longrightarrow> sum_list (map length cs) = n * length cs"
  by (induction cs) (simp_all add: algebra_simps)

lemma length_concat_full: "length (concat cs) = sum_list (map length cs)"
  by (simp add: length_concat)

definition RevocationKey_ok :: "RevocationKey \<Rightarrow> bool" where
  "RevocationKey_ok rk \<longleftrightarrow>
     PublicKeyAlgorithm_canonical (rk_pk_algo rk) \<and> unknown rk AND 0xC0 = 0
     \<and> 20 \<le> length (Fingerprint_as_bytes (rk_fp rk))
     \<and> Fingerprint_from_bytes_intern None (Fingerprint_as_bytes (rk_fp rk)) = Inr (rk_fp rk)"

lemmas revocation_key_defs = RevocationKey_from_bits_def RevocationKey_class_def REVOCATION_KEY_FLAG_MUST_BE_SET_def
  REVOCATION_KEY_FLAG_SENSITIVE_def REVOCATION_KEY_MASK_UNKNOWN_def

lemma revocation_class_octet:
  assumes "cls AND 0x80 \<noteq> (0 :: u8)"
  shows "0x80 OR (if cls AND 0x40 > 0 then 0x40 else 0) OR (cls AND NOT (0x80 OR 0x40)) = cls"
  using assms by (auto simp: word_gt_0 u8_bitwise)

lemma revocation_class_bits:
  assumes "u AND 0xC0 = (0 :: u8)"
  shows "(0x80 OR (if s then 0x40 else 0) OR u) AND 0x80 \<noteq> 0"
    "(0x80 OR (if s then 0x40 else 0) OR u) AND 0x40 > 0 \<longleftrightarrow> s"
    "(0x80 OR (if s then 0x40 else 0) OR u) AND NOT (0x80 OR 0x40) = u"
  using assms by (auto simp: word_gt_0 u8_bitwise)

lemma RevocationKey_class_from_bits:
  assumes "RevocationKey_from_bits pk fp cls = Inr rk"
  shows "RevocationKey_class rk = cls \<and> rk_pk_algo rk = pk \<and> rk_fp rk = fp \<and> unknown rk AND 0xC0 = 0"
proof -
  have rk: "cls AND 0x80 \<noteq> 0"
      "rk = \<lparr>rk_pk_algo = pk, rk_fp = fp, sensitive = (cls AND 0x40 > 0), unknown = cls AND NOT (0x80 OR 0x40)\<rparr>"
    using assms by (auto simp: revocation_key_defs split: if_splits)
  moreover have "(cls AND NOT (0x80 OR 0x40)) AND 0xC0 = (0 :: u8)" by (simp add: u8_bitwise)
  ultimately show ?thesis using revocation_class_octet [OF rk(1)] by (simp add: revocation_key_defs split: if_splits)
qed

lemma RevocationKey_from_bits_class:
  assumes "unknown rk AND 0xC0 = 0"
  shows "RevocationKey_from_bits (rk_pk_algo rk) (rk_fp rk) (RevocationKey_class rk) = Inr rk"
  using revocation_class_bits [OF assms, of "sensitive rk"] by (cases "sensitive rk") (simp_all add: revocation_key_defs)

definition fingerprint_value_ok :: "Fingerprint \<Rightarrow> bool" where
  "fingerprint_value_ok fp \<longleftrightarrow> Fingerprint_ok fp \<and> (case fp of Fingerprint.Unknown v _ \<Rightarrow> v \<noteq> None | _ \<Rightarrow> True)"

lemma fingerprint_value_parse_exact:
  assumes "fingerprint_value_parse len bs = Inr (fp, rest)"
  shows "fingerprint_value_ok fp \<and> 1 + length (Fingerprint_as_bytes fp) = len
    \<and> (case fingerprint_value_serialize fp of Inr c \<Rightarrow> bs = c @ rest | Inl e \<Rightarrow> e = Err InvalidArgument)"
  using assms
  by (auto simp: fingerprint_value_parse_def result_simps field_inverts Let_def Fingerprint_from_bytes_def
      Fingerprint_from_bytes_intern_def fingerprint_value_serialize_def fingerprint_value_ok_def Fingerprint_ok_def
      Fingerprint_as_bytes_def split: if_splits)

lemma fingerprint_value_parse_serialize:
  assumes "fingerprint_value_ok fp" "fingerprint_value_serialize fp = Inr c"
  shows "1 + length (Fingerprint_as_bytes fp) = length c \<and> fingerprint_value_parse (length c) (c @ rest) = Inr (fp, rest)"
  using assms
  by (cases fp)
    (auto simp: fingerprint_value_parse_def parse_u8_def parse_bytes_def Fingerprint_from_bytes_def
      Fingerprint_from_bytes_intern_def fingerprint_value_serialize_def fingerprint_value_ok_def Fingerprint_ok_def
      Fingerprint_as_bytes_def)

definition NotationData_ok :: "NotationData \<Rightarrow> bool" where
  "NotationData_ok nd \<longleftrightarrow>
     length (raw (notation_flags (nd_flags nd))) = 4 \<and> utf8_valid (nd_name nd)
     \<and> length (nd_name nd) < 2 ^ 16 \<and> length (nd_value nd) < 2 ^ 16"

lemma parse_bool_exact: "parse_bool bs = Inr (b, rest) \<longleftrightarrow> bs = (if b then 1 else 0) # rest"
  by (cases bs) (auto simp: parse_bool_def)

lemma wire_pair_of: "length v mod 2 = 0 \<Longrightarrow>
   concat (map (\<lambda>(s, a). [u8_from_SymmetricAlgorithm s, u8_from_AEADAlgorithm a])
     (map (\<lambda>c. (SymmetricAlgorithm_from_u8 (c ! 0), AEADAlgorithm_from_u8 (c ! 1))) (chunks 2 v))) = v"
proof -
  assume "length v mod 2 = 0"
  then have "list_all (\<lambda>c. length c = 2) (chunks 2 v)" by (simp add: chunks_full)
  then have "map (\<lambda>(s, a). [u8_from_SymmetricAlgorithm s, u8_from_AEADAlgorithm a])
     (map (\<lambda>c. (SymmetricAlgorithm_from_u8 (c ! 0), AEADAlgorithm_from_u8 (c ! 1))) (chunks 2 v)) = chunks 2 v"
    by (intro nth_equalityI)
      (auto simp: list_all_length sym_algo.to_of aead_algo.to_of numeral_2_eq_2 length_Suc_conv)
  then show ?thesis by (simp add: concat_chunks)
qed

lemma wire_pair_to:
  "list_all (\<lambda>(s, a). SymmetricAlgorithm_canonical s \<and> AEADAlgorithm_canonical a) p \<Longrightarrow>
   map (\<lambda>c. (SymmetricAlgorithm_from_u8 (c ! 0), AEADAlgorithm_from_u8 (c ! 1)))
     (chunks 2 (concat (map (\<lambda>(s, a). [u8_from_SymmetricAlgorithm s, u8_from_AEADAlgorithm a]) p))) = p"
proof (induction p)
  case Nil
  then show ?case by (simp add: chunks.simps)
next
  case (Cons x p)
  then show ?case by (cases x) (subst chunks.simps, simp add: sym_algo.of_to aead_algo.of_to)
qed

section \<open>Values\<close>

text \<open>The tags whose bodies are kept as they are.\<close>

definition opaque_tag :: "SubpacketTag \<Rightarrow> bool" where
  "opaque_tag tag =
     (case tag of
        SubpacketTag.Reserved _ \<Rightarrow> True
      | SubpacketTag.PlaceholderForBackwardCompatibility \<Rightarrow> True
      | SubpacketTag.PreferredAEADAlgorithms \<Rightarrow> True
      | SubpacketTag.Private _ \<Rightarrow> True
      | SubpacketTag.Unknown _ \<Rightarrow> True
      | _ \<Rightarrow> False)"

definition approved_ok :: "(HashAlgorithm \<Rightarrow> nat option) \<Rightarrow> HashAlgorithm \<Rightarrow> bytes list \<Rightarrow> bool" where
  "approved_ok digest_sizes hash_algo digests =
     (case digest_sizes hash_algo of
        Some n \<Rightarrow> list_all (\<lambda>d. length d = n) digests \<and> (n = 0 \<longrightarrow> digests = [])
      | None \<Rightarrow> length digests \<le> 1 \<and> list_all (\<lambda>d. d \<noteq> []) digests)"

definition SubpacketValue_ok ::
    "(HashAlgorithm \<Rightarrow> nat option) \<Rightarrow> ('sig \<Rightarrow> bool) \<Rightarrow> HashAlgorithm \<Rightarrow> 'sig SubpacketValue \<Rightarrow> bool" where
  "SubpacketValue_ok digest_sizes sig_ok hash_algo v =
     (case v of
        SubpacketValue.PreferredSymmetricAlgorithms p \<Rightarrow> list_all SymmetricAlgorithm_canonical p
      | SubpacketValue.RevocationKey rk \<Rightarrow> RevocationKey_ok rk
      | SubpacketValue.Issuer keyid \<Rightarrow> KeyID_ok keyid
      | SubpacketValue.NotationData nd \<Rightarrow> NotationData_ok nd
      | SubpacketValue.PreferredHashAlgorithms p \<Rightarrow> list_all HashAlgorithm_canonical p
      | SubpacketValue.PreferredCompressionAlgorithms p \<Rightarrow> list_all CompressionAlgorithm_canonical p
      | SubpacketValue.ReasonForRevocation code _ \<Rightarrow> ReasonForRevocation_canonical code
      | SubpacketValue.SignatureTarget pk h _ \<Rightarrow> PublicKeyAlgorithm_canonical pk \<and> HashAlgorithm_canonical h
      | SubpacketValue.EmbeddedSignature sig \<Rightarrow> sig_ok sig
      | SubpacketValue.IssuerFingerprint fp \<Rightarrow> fingerprint_value_ok fp
      | SubpacketValue.IntendedRecipient fp \<Rightarrow> fingerprint_value_ok fp
      | SubpacketValue.ApprovedCertifications digests \<Rightarrow> approved_ok digest_sizes hash_algo digests
      | SubpacketValue.PreferredAEADCiphersuites p \<Rightarrow>
          list_all (\<lambda>(s, a). SymmetricAlgorithm_canonical s \<and> AEADAlgorithm_canonical a) p
      | SubpacketValue.Unknown tag _ \<Rightarrow> opaque_tag tag \<and> SubpacketTag_canonical tag
      | _ \<Rightarrow> True)"

lemmas wire_lists =
  sym_algo.map_to_of [simplified] hash_algo.map_to_of [simplified] comp_algo.map_to_of [simplified]
  sym_algo.list_all_canonical hash_algo.list_all_canonical comp_algo.list_all_canonical

lemmas wire_octets = rev_reason.to_of rev_reason.canonical_of pk_algo.to_of pk_algo.canonical_of hash_algo.to_of
  hash_algo.canonical_of

lemmas wrapper_defs = KeyServerPreferences_new_def KeyFlags_new_def Features_new_def

lemmas value_defs = SubpacketValue_tag_def SubpacketValue_serialize_def SubpacketValue_serialized_len_def SubpacketValue_ok_def

text \<open>What the subpackets rely on for the signatures inside them, up to a size.\<close>

locale embedded_signature =
  fixes sig_from_bytes :: "bytes \<Rightarrow> 'sig res"
    and sig_serialize :: "'sig \<Rightarrow> bytes res"
    and sig_serialized_len :: "'sig \<Rightarrow> nat"
    and sig_ok :: "'sig \<Rightarrow> bool"
    and bound :: nat
  assumes sig_exact: "length bs < bound \<Longrightarrow> sig_from_bytes bs = Inr s \<Longrightarrow>
      sig_ok s \<and> sig_serialized_len s = length bs
      \<and> (case sig_serialize s of Inr c \<Rightarrow> c = bs | Inl e \<Rightarrow> e = Err InvalidArgument)"
    and sig_written: "sig_ok s \<Longrightarrow> sig_serialize s = Inr c \<Longrightarrow> length c < bound \<Longrightarrow>
      sig_serialized_len s = length c \<and> sig_from_bytes c = Inr s"
begin

abbreviation value_exact :: "(HashAlgorithm \<Rightarrow> nat option) \<Rightarrow> HashAlgorithm \<Rightarrow> SubpacketTag \<Rightarrow> nat
    \<Rightarrow> bytes \<Rightarrow> 'sig SubpacketValue \<Rightarrow> bytes \<Rightarrow> bool" where
  "value_exact ds h tag len bs v rest \<equiv>
     SubpacketValue_tag v = tag \<and> SubpacketValue_ok ds sig_ok h v
     \<and> SubpacketValue_serialized_len sig_serialized_len v = len
     \<and> (case SubpacketValue_serialize sig_serialize v of Inr c \<Rightarrow> bs = c @ rest | Inl e \<Rightarrow> e = Err InvalidArgument)"

lemma parse_notation_exact:
  assumes "SubpacketValue_parse ds sig_from_bytes h SubpacketTag.NotationData len bs = Inr (v, rest)"
  shows "value_exact ds h SubpacketTag.NotationData len bs v rest"
proof -
  obtain f n m name val where f: "length f = 4" "bs = f @ to_be_u16 n @ to_be_u16 m @ name @ val @ rest"
      "length name = unat n" "length val = unat m" "len = 8 + unat n + unat m" "utf8_valid name"
      "v = SubpacketValue.NotationData (NotationData_new name val (Some \<lparr>notation_flags = \<lparr>raw = f\<rparr>\<rparr>))"
    using assms
    by (auto simp: SubpacketValue_parse_def result_simps field_inverts read_be_u16_eq_Inr NotationDataFlags_new_def
        split: if_splits)
  moreover have "unat n < 2 ^ 16" "unat m < 2 ^ 16" using unat_less_2p [of n] unat_less_2p [of m] by simp_all
  ultimately show ?thesis
    by (simp add: value_defs NotationData_ok_def NotationData_new_def)
qed

lemma parse_approved_exact:
  assumes "SubpacketValue_parse ds sig_from_bytes h SubpacketTag.ApprovedCertifications len bs = Inr (v, rest)"
    and "length bs = length rest + len"
  shows "value_exact ds h SubpacketTag.ApprovedCertifications len bs v rest"
proof -
  let ?n = "case ds h of Some n \<Rightarrow> n | None \<Rightarrow> len"
  show ?thesis
  proof (cases "?n = 0")
    case True
    then have "v = SubpacketValue.ApprovedCertifications []" "bs = rest"
      using assms by (auto simp: SubpacketValue_parse_def Let_def)
    with True assms(2) show ?thesis by (simp add: value_defs approved_ok_def split: option.splits)
  next
    case False
    then obtain b where b: "bs = b @ rest" "length b = len" "len mod ?n = 0"
        "v = SubpacketValue.ApprovedCertifications (chunks ?n b)"
      using assms(1) by (auto simp: SubpacketValue_parse_def Let_def result_simps field_inverts split: if_splits)
    have c: "concat (chunks ?n b) = b" using False by (simp add: concat_chunks)
    moreover have "approved_ok ds h (chunks ?n b)"
    proof (cases "ds h")
      case None
      then show ?thesis using False b(2) chunks_whole [of b] by (auto simp: approved_ok_def)
    next
      case (Some n)
      then show ?thesis using False b chunks_full [of n b] by (simp add: approved_ok_def)
    qed
    ultimately show ?thesis
      using b(1,2,4) length_concat_full [of "chunks ?n b"] by (simp add: value_defs)
  qed
qed

lemma parse_embedded_exact:
  assumes "SubpacketValue_parse ds sig_from_bytes h SubpacketTag.EmbeddedSignature len bs = Inr (v, rest)" "len < bound"
  shows "value_exact ds h SubpacketTag.EmbeddedSignature len bs v rest"
proof -
  obtain b sig where b: "bs = b @ rest" "length b = len" "sig_from_bytes b = Inr sig"
      "v = SubpacketValue.EmbeddedSignature sig"
    using assms(1) by (auto simp: SubpacketValue_parse_def result_simps field_inverts)
  then show ?thesis using sig_exact [OF _ b(3)] assms(2) by (simp add: value_defs split: sum.splits)
qed

lemma parse_regex_exact:
  assumes "SubpacketValue_parse ds sig_from_bytes h SubpacketTag.RegularExpression len bs = Inr (v, rest)"
  shows "value_exact ds h SubpacketTag.RegularExpression len bs v rest"
proof -
  obtain r where r: "bs = r @ rest" "length r = len" "r \<noteq> []" "r ! (length r - 1) = 0"
      "v = SubpacketValue.RegularExpression (butlast r)"
    using assms by (auto simp: SubpacketValue_parse_def result_simps field_inverts split: if_splits)
  moreover from this have "butlast r @ [0] = r" by (metis append_butlast_last_id last_conv_nth)
  moreover have "length (butlast r) + 1 = len" using r by (cases r rule: rev_cases) auto
  ultimately show ?thesis by (simp add: value_defs)
qed

lemma parse_revoker_exact:
  assumes "SubpacketValue_parse ds sig_from_bytes h SubpacketTag.RevocationKey len bs = Inr (v, rest)"
  shows "value_exact ds h SubpacketTag.RevocationKey len bs v rest"
proof -
  obtain cls pk f fp rk where f: "22 \<le> len" "bs = cls # pk # f @ rest" "length f = len - 2"
      "Fingerprint_from_bytes_intern None f = Inr fp"
      "RevocationKey_from_bits (PublicKeyAlgorithm_from_u8 pk) fp cls = Inr rk"
      "v = SubpacketValue.RevocationKey rk"
    using assms by (auto simp: SubpacketValue_parse_def result_simps field_inverts not_less split: if_splits)
  have "20 \<le> len - 2" "Suc (Suc (len - 2)) = len" using f(1) by simp_all
  moreover have "Fingerprint_as_bytes fp = f"
    using f(4) by (auto simp: Fingerprint_from_bytes_intern_def Fingerprint_as_bytes_def Let_def split: if_splits)
  ultimately show ?thesis
    using f RevocationKey_class_from_bits [OF f(5)]
    by (simp add: value_defs RevocationKey_ok_def RevocationKey_serialize_def RevocationKey_serialized_len_def
        pk_algo.to_of pk_algo.canonical_of)
qed

lemma parse_suites_exact:
  assumes "SubpacketValue_parse ds sig_from_bytes h SubpacketTag.PreferredAEADCiphersuites len bs = Inr (v, rest)"
  shows "value_exact ds h SubpacketTag.PreferredAEADCiphersuites len bs v rest"
proof -
  obtain r where r: "bs = r @ rest" "length r = len" "len mod 2 = 0"
      "v = SubpacketValue.PreferredAEADCiphersuites
         (map (\<lambda>c. (SymmetricAlgorithm_from_u8 (c ! 0), AEADAlgorithm_from_u8 (c ! 1))) (chunks 2 r))"
    using assms by (auto simp: SubpacketValue_parse_def result_simps field_inverts split: if_splits)
  have "length (concat (chunks 2 r)) = 2 * length (chunks 2 r)"
    using r(2,3) chunks_full [of 2 r] by (simp add: length_concat_full sum_list_full)
  then have "2 * length (chunks 2 r) = len" by (simp add: concat_chunks r(2))
  then show ?thesis
    using r wire_pair_of [of r]
    by (simp add: value_defs list_all_iff sym_algo.canonical_of aead_algo.canonical_of)
qed

lemma SubpacketValue_parse_exact:
  assumes "SubpacketValue_parse ds sig_from_bytes h tag len bs = Inr (v, rest)"
    and "length bs = length rest + len" "len < bound" "SubpacketTag_canonical tag"
  shows "value_exact ds h tag len bs v rest"
proof (cases tag)
  case NotationData
  with assms(1) show ?thesis using parse_notation_exact by simp
next
  case ApprovedCertifications
  with assms show ?thesis using parse_approved_exact by simp
next
  case EmbeddedSignature
  with assms show ?thesis using parse_embedded_exact by simp
next
  case RegularExpression
  with assms show ?thesis using parse_regex_exact by simp
next
  case RevocationKey
  with assms show ?thesis using parse_revoker_exact by simp
next
  case PreferredAEADCiphersuites
  with assms show ?thesis using parse_suites_exact by simp
qed (use assms in \<open>auto simp: SubpacketValue_parse_def value_defs result_simps field_inverts reader_inverts
    parse_bool_exact wire_lists wire_octets
    wrapper_defs KeyID_from_bytes_def KeyID_ok_def KeyID_as_bytes_def opaque_tag_def
    split: if_splits sum.splits dest!: fingerprint_value_parse_exact\<close>)

abbreviation value_read :: "(HashAlgorithm \<Rightarrow> nat option) \<Rightarrow> HashAlgorithm \<Rightarrow> 'sig SubpacketValue
    \<Rightarrow> bytes \<Rightarrow> bytes \<Rightarrow> bool" where
  "value_read ds h v c rest \<equiv>
     SubpacketValue_serialized_len sig_serialized_len v = length c
     \<and> SubpacketValue_parse ds sig_from_bytes h (SubpacketValue_tag v) (length c) (c @ rest) = Inr (v, rest)"

lemma read_notation:
  assumes "NotationData_ok nd" "SubpacketValue_serialize sig_serialize (SubpacketValue.NotationData nd) = Inr c"
  shows "value_read ds h (SubpacketValue.NotationData nd) c rest"
proof -
  have len: "unat (word_of_nat (length (nd_name nd)) :: u16) = length (nd_name nd)"
      "unat (word_of_nat (length (nd_value nd)) :: u16) = length (nd_value nd)"
    using assms(1) by (simp_all add: NotationData_ok_def unat_word_of_nat_less)
  have nd: "NotationData_new (nd_name nd) (nd_value nd) (Some \<lparr>notation_flags = \<lparr>raw = raw (notation_flags (nd_flags nd))\<rparr>\<rparr>) = nd"
    by (simp add: NotationData_new_def)
  show ?thesis
    using assms(2)
    by (auto simp: value_defs SubpacketValue_parse_def parse_bytes_def len NotationDataFlags_new_def
        assms(1) [unfolded NotationData_ok_def] nd simp del: of_nat_add)
qed

lemma read_approved:
  assumes "approved_ok ds h digests" "c = concat digests"
  shows "value_read ds h (SubpacketValue.ApprovedCertifications digests) c rest"
proof -
  let ?n = "case ds h of Some n \<Rightarrow> n | None \<Rightarrow> length c"
  have len: "sum_list (map length digests) = length c" using assms(2) by (simp add: length_concat_full)
  show ?thesis
  proof (cases "?n = 0")
    case True
    then have "digests = []"
      using assms by (cases "ds h"; cases digests) (auto simp: approved_ok_def)
    with True assms(2) show ?thesis by (simp add: value_defs SubpacketValue_parse_def Let_def split: option.splits)
  next
    case False
    have "length c mod ?n = 0 \<and> chunks ?n c = digests"
    proof (cases "ds h")
      case None
      then obtain d where "digests = [d]" "d \<noteq> []"
        using False assms by (cases digests) (auto simp: approved_ok_def)
      then show ?thesis using None assms(2) chunks_whole [of d] by simp
    next
      case (Some n)
      then show ?thesis
        using False assms len [symmetric] by (auto simp: approved_ok_def chunks_concat sum_list_full)
    qed
    then show ?thesis
      using False len by (simp add: value_defs SubpacketValue_parse_def Let_def parse_bytes_def)
  qed
qed

lemma read_regex: "value_read ds h (SubpacketValue.RegularExpression re) (re @ [0]) rest"
  using data_consume_hard_append [of "Suc (length re)" "re @ [0]" rest]
  by (simp add: value_defs SubpacketValue_parse_def parse_bytes_def)

lemma read_revoker:
  assumes "RevocationKey_ok rk"
  shows "value_read ds h (SubpacketValue.RevocationKey rk) (RevocationKey_serialize rk) rest"
  using assms
  by (simp add: value_defs SubpacketValue_parse_def RevocationKey_ok_def RevocationKey_serialize_def
      RevocationKey_serialized_len_def parse_u8_def parse_bytes_def pk_algo.of_to RevocationKey_from_bits_class)

lemma read_suites:
  assumes "list_all (\<lambda>(s, a). SymmetricAlgorithm_canonical s \<and> AEADAlgorithm_canonical a) p"
    and "c = concat (map (\<lambda>(s, a). [u8_from_SymmetricAlgorithm s, u8_from_AEADAlgorithm a]) p)"
  shows "value_read ds h (SubpacketValue.PreferredAEADCiphersuites p) c rest"
proof -
  have "length c = length p * 2" unfolding assms(2) by (induction p) auto
  then show ?thesis
    using wire_pair_to [OF assms(1)] assms(2) by (simp add: value_defs SubpacketValue_parse_def parse_bytes_def)
qed

lemma SubpacketValue_written:
  assumes "SubpacketValue_ok ds sig_ok h v" "SubpacketValue_serialize sig_serialize v = Inr c" "length c < bound"
  shows "value_read ds h v c rest"
proof (cases v)
  case (NotationData nd)
  with assms show ?thesis using read_notation by (simp add: value_defs)
next
  case (ApprovedCertifications digests)
  with assms show ?thesis using read_approved [of ds h digests c rest] by (auto simp: value_defs)
next
  case (RegularExpression re)
  with assms show ?thesis using read_regex [of re ds h rest] by (auto simp: value_defs)
next
  case (RevocationKey rk)
  with assms show ?thesis using read_revoker [of rk ds h rest] by (auto simp: value_defs)
next
  case (PreferredAEADCiphersuites p)
  with assms show ?thesis using read_suites [of p c] by (auto simp: value_defs)
next
  case (EmbeddedSignature sig)
  with assms show ?thesis
    using sig_written [of sig c] by (simp add: value_defs SubpacketValue_parse_def parse_bytes_def)
next
  case (IssuerFingerprint fp)
  with assms show ?thesis
    using fingerprint_value_parse_serialize [of fp c rest] by (simp add: value_defs SubpacketValue_parse_def)
next
  case (IntendedRecipient fp)
  with assms show ?thesis
    using fingerprint_value_parse_serialize [of fp c rest] by (simp add: value_defs SubpacketValue_parse_def)
next
  case (Unknown tag body)
  with assms show ?thesis
    by (cases tag) (simp_all add: value_defs SubpacketValue_parse_def opaque_tag_def parse_bytes_def)
next
  case (Issuer keyid)
  with assms show ?thesis
    by (cases keyid) (auto simp: value_defs SubpacketValue_parse_def parse_bytes_def KeyID_ok_def KeyID_as_bytes_def KeyID_from_bytes_def)
qed (use assms in \<open>auto simp: value_defs SubpacketValue_parse_def parse_u8_def parse_bytes_def parse_bool_def wrapper_defs
    sym_algo.map_of_to [simplified] hash_algo.map_of_to [simplified] comp_algo.map_of_to [simplified]
    rev_reason.of_to pk_algo.of_to hash_algo.of_to\<close>)

end

section \<open>Subpackets\<close>

text \<open>
  A subpacket as the parser makes it: its length counts the tag and the body, the tag has the critical
  bit clear, and nothing has authenticated it yet.
\<close>

definition Subpacket_ok ::
    "(HashAlgorithm \<Rightarrow> nat option) \<Rightarrow> ('sig \<Rightarrow> nat) \<Rightarrow> ('sig \<Rightarrow> bool) \<Rightarrow> HashAlgorithm \<Rightarrow> 'sig Subpacket \<Rightarrow> bool" where
  "Subpacket_ok ds sig_len sig_ok h p \<longleftrightarrow>
     SubpacketLength_ok (sp_length p)
     \<and> SubpacketLength_len (sp_length p) = 1 + SubpacketValue_serialized_len sig_len (sp_value p)
     \<and> u8_from_SubpacketTag (Subpacket_tag p) < 0x80 \<and> \<not> authenticated p
     \<and> SubpacketValue_ok ds sig_ok h (sp_value p)"

lemma tag_octet:
  fixes t :: u8
  assumes "t < 0x80"
  shows "((t OR (if c then push_bit 7 1 else 0)) AND push_bit 7 1 \<noteq> 0) = c"
    "(t OR (if c then push_bit 7 1 else 0)) AND NOT (push_bit 7 1) = t"
proof -
  have "\<not> bit t 7"
    using assms unat_less_2p_iff [of t 7] by (auto simp: word_less_nat_alt)
  then show "((t OR (if c then push_bit 7 1 else 0)) AND push_bit 7 1 \<noteq> 0) = c"
      "(t OR (if c then push_bit 7 1 else 0)) AND NOT (push_bit 7 1) = t"
    by (auto simp: u8_bitwise)
qed

lemma tag_octet_split:
  fixes t :: u8
  shows "(t AND NOT (push_bit 7 1)) OR (if t AND push_bit 7 1 \<noteq> 0 then push_bit 7 1 else 0) = t"
    "t AND NOT (push_bit 7 1) < 0x80"
proof -
  show "(t AND NOT (push_bit 7 1)) OR (if t AND push_bit 7 1 \<noteq> 0 then push_bit 7 1 else 0) = t"
    by (auto simp: u8_bitwise)
  have "bit (t AND NOT (push_bit 7 1)) i \<Longrightarrow> i < 7" for i
    using bit_imp_le_length [of "t AND NOT (push_bit 7 1)" i] by (auto simp: bit_simps le_less Suc_less_eq2 less_Suc_eq numeral_eq_Suc)
  then have "unat (t AND NOT (push_bit 7 1)) < 2 ^ 7" using unat_less_2p_iff by blast
  then show "t AND NOT (push_bit 7 1) < 0x80" by (simp add: word_less_nat_alt)
qed

lemma value_tag_canonical: "SubpacketValue_ok ds ok h v \<Longrightarrow> SubpacketTag_canonical (SubpacketValue_tag v)"
  by (cases v) (simp_all add: value_defs SubpacketTag_canonical_def)

context embedded_signature
begin

lemma Subpacket_parse_exact:
  assumes "Subpacket_parse ds sig_from_bytes limit h bs = Inr (p, rest)" "length bs \<le> bound"
  shows "Subpacket_ok ds sig_serialized_len sig_ok h p
    \<and> Subpacket_serialized_len sig_serialized_len p \<le> limit
    \<and> length bs = Subpacket_serialized_len sig_serialized_len p + length rest
    \<and> (case Subpacket_serialize sig_serialize p of Inr c \<Rightarrow> bs = c @ rest | Inl e \<Rightarrow> e = Err InvalidArgument)"
proof -
  obtain l bs1 tag bs2 v where p: "SubpacketLength_parse bs = Inr (l, bs1)"
      "SubpacketLength_serialized_len l + SubpacketLength_len l \<le> limit" "SubpacketLength_len l \<noteq> 0" "bs1 = tag # bs2"
      "SubpacketValue_parse ds sig_from_bytes h (SubpacketTag_from_u8 (tag AND NOT (push_bit 7 1))) (SubpacketLength_len l - 1) bs2
        = Inr (v, rest)"
      "length bs2 = length rest + (SubpacketLength_len l - 1)"
      "p = with_length l v (tag AND push_bit 7 1 \<noteq> 0)"
    using assms(1)
    by (auto simp: Subpacket_parse_def Let_def result_simps field_inverts not_less split: if_splits)
  obtain c where c: "SubpacketLength_serialize l = Inr c" "bs = c @ bs1" "SubpacketLength_ok l"
    using SubpacketLength_parse_exact [OF p(1)] by blast
  have lc: "length c = SubpacketLength_serialized_len l" using SubpacketLength_serialize_Inr [of l] c(1) by auto
  have "SubpacketLength_len l - 1 < bound" using assms(2) p(3,4,6) c(2) by simp
  note v = SubpacketValue_parse_exact [OF p(5,6) this subpacket_tag.canonical_of]
  have tag: "u8_from_SubpacketTag (SubpacketTag_from_u8 t) = t" for t by (rule subpacket_tag.to_of)
  show ?thesis
    using p c lc v tag_octet_split [of tag]
    by (simp add: Subpacket_ok_def Subpacket_serialized_len_def Subpacket_serialize_def Subpacket_tag_def
        with_length_def tag split: sum.splits)
qed

lemma Subpacket_written:
  assumes "Subpacket_ok ds sig_serialized_len sig_ok h p" "Subpacket_serialize sig_serialize p = Inr c" "length c \<le> bound"
  shows "length c = Subpacket_serialized_len sig_serialized_len p
    \<and> (Subpacket_serialized_len sig_serialized_len p \<le> limit \<longrightarrow>
       Subpacket_parse ds sig_from_bytes limit h (c @ rest) = Inr (p, rest))"
proof -
  obtain l v where c: "SubpacketLength_serialize (sp_length p) = Inr l"
      "SubpacketValue_serialize sig_serialize (sp_value p) = Inr v"
      "c = l @ [u8_from_SubpacketTag (Subpacket_tag p) OR (if critical p then push_bit 7 1 else 0)] @ v"
    using assms(2) by (auto simp: Subpacket_serialize_def Let_def result_simps)
  note ok = assms(1) [unfolded Subpacket_ok_def]
  have "length v < bound" using assms(3) c(3) by simp
  then have v: "value_read ds h (sp_value p) v rest" for rest
    using SubpacketValue_written ok c(2) by blast
  have l: "length l = SubpacketLength_serialized_len (sp_length p)"
    using SubpacketLength_serialize_Inr [of "sp_length p"] c(1) by auto
  have pl: "SubpacketLength_parse (l @ rest) = Inr (sp_length p, rest)" for rest
    using SubpacketLength_parse_serialize ok c(1) by blast
  have "SubpacketTag_from_u8 (u8_from_SubpacketTag (Subpacket_tag p)) = Subpacket_tag p"
    using ok value_tag_canonical [of ds sig_ok h "sp_value p"] by (simp add: Subpacket_tag_def subpacket_tag.of_to)
  moreover have "with_length (sp_length p) (sp_value p) (critical p) = p"
    using ok by (cases p) (simp add: with_length_def)
  ultimately show ?thesis
    using ok v l pl tag_octet [of "u8_from_SubpacketTag (Subpacket_tag p)" "critical p"]
    by (auto simp: c(3) Subpacket_parse_def parse_u8_def Subpacket_serialized_len_def Let_def Subpacket_tag_def)
qed

end

section \<open>The order of lengths\<close>

lemma optimal_octets:
  assumes "BodyLength_serialize (BodyLength.Full l) = Inr c"
  obtains "unat l \<le> 191" "c = [word_of_nat (unat l)]"
  | "192 \<le> unat l" "unat l \<le> 8383" "c = [word_of_nat (192 + (unat l - 192) div 256), word_of_nat ((unat l - 192) mod 256)]"
  | "8383 < unat l" "c = 255 # to_be_u32 l"
proof -
  consider "unat l \<le> 191" | "192 \<le> unat l" "unat l \<le> 8383" | "8383 < unat l" by linarith
  then show thesis
  proof cases
    case 1
    then show ?thesis using assms that(1) by (simp add: BodyLength_serialize_def word_le_nat_alt)
  next
    case 2
    then show ?thesis
      using assms that(2) two_octet_encoding [OF 2] by (simp add: BodyLength_serialize_def Let_def word_le_nat_alt)
  next
    case 3
    then show ?thesis using assms that(3) by (simp add: BodyLength_serialize_def word_le_nat_alt)
  qed
qed

lemma optimal_shape:
  assumes "BodyLength_serialize (BodyLength.Full l) = Inr c"
  shows "be_nat c = (if unat l \<le> 191 then unat l else if unat l \<le> 8383 then unat l + 48960 else unat l + 255 * 2 ^ 32)"
    and "length c = (if unat l \<le> 191 then 1 else if unat l \<le> 8383 then 2 else 5)"
    and "if unat l \<le> 191 then unat (hd c) < 192 else if unat l \<le> 8383 then 192 \<le> unat (hd c) \<and> unat (hd c) < 224 else hd c = 255"
proof -
  have "be_nat c = (if unat l \<le> 191 then unat l else if unat l \<le> 8383 then unat l + 48960 else unat l + 255 * 2 ^ 32)
      \<and> length c = (if unat l \<le> 191 then 1 else if unat l \<le> 8383 then 2 else 5)
      \<and> (if unat l \<le> 191 then unat (hd c) < 192 else if unat l \<le> 8383 then 192 \<le> unat (hd c) \<and> unat (hd c) < 224 else hd c = 255)"
    using assms
  proof (cases rule: optimal_octets)
    case 1
    then have "unat (ucast l :: u8) = unat l" by (simp add: unat_ucast_mod)
    with 1 show ?thesis by (simp add: be_nat_Cons)
  next
    case 2
    let ?q = "(unat l - 192) div 256" and ?r = "(unat l - 192) mod 256"
    have q: "192 + ?q < 224" using 2 by (simp add: less_Suc_eq_le [symmetric] div_less_iff_less_mult)
    then have "unat (word_of_nat (192 + ?q) :: u8) = 192 + ?q" "unat (word_of_nat ?r :: u8) = ?r"
      by (simp_all add: unat_word_of_nat_u8 del: of_nat_add)
    moreover have "be_nat c = unat (word_of_nat (192 + ?q) :: u8) * 256 + unat (word_of_nat ?r :: u8)"
      using 2 by (simp add: be_nat_Cons del: of_nat_add)
    moreover have "?q * 256 + ?r = unat l - 192" by simp
    ultimately show ?thesis using 2 q by (simp del: of_nat_add)
  next
    case 3
    have "be_nat (to_be_u32 l) = unat l" using unat_less_2p [of l] by (simp add: to_be_u32_def be_nat_be_bytes)
    with 3 show ?thesis by (simp add: be_nat_Cons)
  qed
  then show "be_nat c = (if unat l \<le> 191 then unat l else if unat l \<le> 8383 then unat l + 48960 else unat l + 255 * 2 ^ 32)"
    "length c = (if unat l \<le> 191 then 1 else if unat l \<le> 8383 then 2 else 5)"
    "if unat l \<le> 191 then unat (hd c) < 192 else if unat l \<le> 8383 then 192 \<le> unat (hd c) \<and> unat (hd c) < 224 else hd c = 255"
    by blast+
qed

lemma slice_cmp_hd:
  "x \<noteq> [] \<Longrightarrow> y \<noteq> [] \<Longrightarrow> hd x \<noteq> hd y \<Longrightarrow> slice_cmp x y = cmp (unat (hd x)) (unat (hd y))"
  by (cases x; cases y) (auto simp: cmp_then_def cmp_def word_less_nat_alt word_unat_eq_iff)

lemma optimal_cmp:
  assumes "BodyLength_serialize (BodyLength.Full l) = Inr c" "BodyLength_serialize (BodyLength.Full k) = Inr d"
  shows "slice_cmp c d = cmp l k"
proof -
  note c = optimal_shape [OF assms(1)] and d = optimal_shape [OF assms(2)]
  show ?thesis
  proof (cases "length c = length d")
    case True
    then show ?thesis using slice_cmp_be_nat [OF True] c d by (auto simp: cmp_def word_less_nat_alt word_unat_eq_iff split: if_splits)
  next
    case False
    then have "hd c \<noteq> hd d" "c \<noteq> []" "d \<noteq> []" using c d by (auto split: if_splits)
    then have "slice_cmp c d = cmp (unat (hd c)) (unat (hd d))" by (intro slice_cmp_hd)
    then show ?thesis using False c d by (auto simp: cmp_def word_less_nat_alt word_unat_eq_iff split: if_splits)
  qed
qed

lemma raw_shape:
  assumes "SubpacketLength_ok a" "sl_raw a = Some r"
  obtains "length r = 2" "224 \<le> unat (hd r)" "unat (hd r) < 255" | "length r = 5" "hd r = 255" "unat (sl_len a) \<le> 8383"
proof -
  from assms consider
      p q where "r = [p, q]" "192 \<le> p" "p < 255" "sl_len a = two_octets p q" "len_optimal_encoding (sl_len a) \<noteq> 2"
    | "r = 255 # to_be_u32 (sl_len a)" "len_optimal_encoding (sl_len a) \<noteq> 5"
    by (auto simp: SubpacketLength_ok_def split: list.splits)
  then show ?thesis
  proof cases
    case (1 p q)
    have "unat (sl_len a) = (unat p - 192) * 256 + unat q + 192" using 1 unat_two_octets by simp
    then have "224 \<le> unat p"
      using 1 unat_u8_less [of q] by (auto simp: len_optimal_encoding_unat word_le_nat_alt simp del: unat_u8_less split: if_splits)
    then show ?thesis using 1 that(1) by (simp add: word_less_nat_alt)
  next
    case 2
    then show ?thesis using that(2) by (auto simp: len_optimal_encoding_unat split: if_splits)
  qed
qed

text \<open>
  Lengths of subpackets are ordered as their encodings are, octet by octet, whether the encodings are
  the shortest ones or not. There is one exception: the comparison panics when the left encoding is a stored
  one and the right one is not and takes more octets.
\<close>

theorem subpacket_length_cmp:
  assumes "SubpacketLength_ok a" "SubpacketLength_ok b" "SubpacketLength_serialize a = Inr x" "SubpacketLength_serialize b = Inr y"
  shows "SubpacketLength_cmp a b =
    (if sl_raw a \<noteq> None \<and> sl_raw b = None \<and> length x < length y then Inl Panic else Inr (slice_cmp x y))"
proof (cases "sl_raw a"; cases "sl_raw b")
  assume "sl_raw a = None" "sl_raw b = None"
  then show ?thesis
    using assms(3,4) optimal_cmp [of "sl_len a" x "sl_len b" y]
    by (simp add: SubpacketLength_cmp_def SubpacketLength_serialize_def SubpacketLength_len_def)
next
  fix r assume "sl_raw a = None" "sl_raw b = Some r"
  then show ?thesis
    using assms(3,4) SubpacketLength_serialize_Inr [of a]
    by (auto simp: SubpacketLength_cmp_def SubpacketLength_serialize_into_def unwrap_def)
      (simp add: SubpacketLength_serialize_def)
next
  fix r assume ab: "sl_raw a = Some r" "sl_raw b = None"
  have x: "x = r" "SubpacketLength_serialized_len a = length x"
    using ab assms(3) by (simp_all add: SubpacketLength_serialize_def SubpacketLength_serialized_len_def)
  have y: "BodyLength_serialize (BodyLength.Full (sl_len b)) = Inr y" "SubpacketLength_serialized_len b = length y"
    using ab assms(4) SubpacketLength_serialize_Inr [of b] by (auto simp: SubpacketLength_serialize_def SubpacketLength_len_def)
  have "slice_cmp x (y @ replicate (length x - length y) 0) = slice_cmp x y" if "length y \<le> length x"
  proof (cases "length y = length x")
    case False
    have "hd x \<noteq> hd y \<and> y \<noteq> [] \<and> x \<noteq> []"
      using assms(1) ab(1)
    proof (cases rule: raw_shape)
      case 1
      then show ?thesis using optimal_shape(2,3) [OF y(1)] that x(1) by (auto split: if_splits)
    next
      case 2
      then show ?thesis using optimal_shape(2,3) [OF y(1)] False x(1) by (auto split: if_splits)
    qed
    then show ?thesis using slice_cmp_hd [of x y] slice_cmp_hd [of x "y @ replicate (length x - length y) 0"] by simp
  qed simp
  then show ?thesis
    using ab assms(4) x y(2)
    by (auto simp: SubpacketLength_cmp_def SubpacketLength_serialize_into_def unwrap_def not_less)
next
  fix r q assume "sl_raw a = Some r" "sl_raw b = Some q"
  then show ?thesis using assms(3,4) by (simp add: SubpacketLength_cmp_def SubpacketLength_serialize_def)
qed

theorem subpacket_length_cmp_witness:
  "SubpacketLength_cmp (SubpacketLength_new 8384 (Some [224, 0])) (SubpacketLength_from_u32 8384) = Inl Panic"
  using subpacket_length_cmp [of "SubpacketLength_new 8384 (Some [224, 0])" "SubpacketLength_from_u32 8384" "[224, 0]" "255 # to_be_u32 8384"]
  by (simp add: SubpacketLength_ok_def SubpacketLength_new_def SubpacketLength_from_u32_def two_octets_def len_optimal_encoding_unat
      SubpacketLength_serialize_def BodyLength_serialize_def SubpacketLength_len_def push_bit_eq_mult)

end
