(* ===== verification/SubpacketAreas.thy ===== *)
theory SubpacketAreas
  imports Subpackets "HOL-Library.Multiset"
begin

text \<open>
  Subpacket areas (\<open>packet/signature/subpacket.rs\<close>): the list of subpackets of a signature with the
  cache that finds the last one of a tag, and the pair of a hashed and an unhashed area.

  The cache is filled by a lookup through interior mutability, so a lookup returns the area with its
  cache next to its result.
\<close>

section \<open>The interface\<close>

text \<open>
  What the users of an area rely on: it is a list of entries, a lookup finds the last entry of a key,
  and the updates change the list as a store of last writes does. The operations that can refuse an
  entry for its size do so without an effect.
\<close>

definition find_last :: "('a \<Rightarrow> bool) \<Rightarrow> 'a list \<Rightarrow> 'a option" where
  "find_last P xs = (if filter P xs = [] then None else Some (last (filter P xs)))"

lemma find_last_Nil [simp]: "find_last P [] = None"
  by (simp add: find_last_def)

lemma find_last_snoc [simp]: "find_last P (xs @ [x]) = (if P x then Some x else find_last P xs)"
  by (simp add: find_last_def)

lemma find_last_cong_filter: "filter P xs = filter P ys \<Longrightarrow> find_last P xs = find_last P ys"
  by (simp add: find_last_def)

lemma find_last_filter: "find_last P (filter Q xs) = find_last (\<lambda>x. Q x \<and> P x) xs"
  by (simp add: find_last_def conj_commute)

locale entry_store =
  fixes invar :: "'s \<Rightarrow> bool"
    and entries :: "'s \<Rightarrow> 'v list"
    and key :: "'v \<Rightarrow> 'k"
    and stored :: "'v \<Rightarrow> 'v"
    and lookup :: "'s \<Rightarrow> 'k \<Rightarrow> 'v option"
    and add :: "'s \<Rightarrow> 'v \<Rightarrow> 'e + 's"
    and replace :: "'s \<Rightarrow> 'v \<Rightarrow> 'e + 's"
    and remove :: "'s \<Rightarrow> 'k \<Rightarrow> 's"
    and acceptable :: "'v \<Rightarrow> bool"
  assumes lookup: "invar s \<Longrightarrow> lookup s k = find_last (\<lambda>v. key v = k) (entries s)"
    and key_stored: "key (stored v) = key v"
    and add: "invar s \<Longrightarrow> acceptable v \<Longrightarrow> add s v = Inr t \<Longrightarrow> invar t \<and> entries t = entries s @ [stored v]"
    and replace: "invar s \<Longrightarrow> acceptable v \<Longrightarrow> replace s v = Inr t \<Longrightarrow>
      invar t \<and> entries t = filter (\<lambda>w. key w \<noteq> key v) (entries s) @ [stored v]"
    and remove: "invar s \<Longrightarrow> invar (remove s k) \<and> entries (remove s k) = filter (\<lambda>w. key w \<noteq> k) (entries s)"
begin

text \<open>The store as a map: additions and replacements update it, removals delete from it.\<close>

lemma lookup_add:
  assumes "invar s" "acceptable v" "add s v = Inr t"
  shows "lookup t = (lookup s)(key v \<mapsto> stored v)"
  using assms add [OF assms] by (auto simp: lookup key_stored)

lemma lookup_replace:
  assumes "invar s" "acceptable v" "replace s v = Inr t"
  shows "lookup t = (lookup s)(key v \<mapsto> stored v)"
proof
  fix k
  have "(\<lambda>x. key x \<noteq> key v \<and> key x = k) = (\<lambda>x. key x = k)" if "k \<noteq> key v" using that by auto
  then show "lookup t k = ((lookup s)(key v \<mapsto> stored v)) k"
    using assms(1) replace [OF assms] by (auto simp: lookup key_stored find_last_filter)
qed

lemma lookup_remove:
  assumes "invar s"
  shows "lookup (remove s k) = (lookup s)(k := None)"
proof
  fix j
  have "(\<lambda>x. key x \<noteq> k \<and> key x = j) = (\<lambda>x. key x = j)" if "j \<noteq> k" using that by auto
  moreover have "find_last (\<lambda>x. key x \<noteq> k \<and> key x = k) xs = None" for xs by (simp add: find_last_def)
  ultimately show "lookup (remove s k) j = ((lookup s)(k := None)) j"
    using assms remove [OF assms, of k] by (auto simp: lookup find_last_filter)
qed

lemma replace_unique:
  assumes "invar s" "acceptable v" "replace s v = Inr t"
  shows "filter (\<lambda>w. key w = key v) (entries t) = [stored v]"
  using replace [OF assms] by (simp add: key_stored)

end

section \<open>Areas\<close>

datatype 'sig SubpacketArea = SubpacketArea (packets: "'sig Subpacket list") (parsed: "u16 list option")

definition SUBPACKET_NOT_PRESENT :: u16 where
  "SUBPACKET_NOT_PRESENT = 0xFFFF"

definition SubpacketArea_MAX_SIZE :: nat where
  "SubpacketArea_MAX_SIZE = 2 ^ 16 - 1"

definition SubpacketArea_new :: "'sig Subpacket list \<Rightarrow> 'sig SubpacketArea res" where
  "SubpacketArea_new ps = Inr (SubpacketArea ps None)"

definition tag_code :: "'sig Subpacket \<Rightarrow> nat" where
  "tag_code p = unat (u8_from_SubpacketTag (Subpacket_tag p))"

definition cache_index :: "'sig Subpacket list \<Rightarrow> u16 list" where
  "cache_index ps =
     (case map tag_code ps of
        [] \<Rightarrow> []
      | c # cs \<Rightarrow>
          foldl (\<lambda>index (i, sp). index[tag_code sp := word_of_nat i])
            (replicate (foldl max c cs + 1) SUBPACKET_NOT_PRESENT) (enumerate 0 ps))"

definition cache_init :: "'sig SubpacketArea \<Rightarrow> u16 list \<times> 'sig SubpacketArea" where
  "cache_init a =
     (case parsed a of
        Some index \<Rightarrow> (index, a)
      | None \<Rightarrow> (cache_index (packets a), SubpacketArea (packets a) (Some (cache_index (packets a)))))"

definition cache_invalidate :: "'sig SubpacketArea \<Rightarrow> 'sig SubpacketArea" where
  "cache_invalidate a = SubpacketArea (packets a) None"

definition SubpacketArea_subpacket ::
    "'sig SubpacketArea \<Rightarrow> SubpacketTag \<Rightarrow> 'sig Subpacket option res \<times> 'sig SubpacketArea" where
  "SubpacketArea_subpacket a tag =
     (let (index, a) = cache_init a; code = unat (u8_from_SubpacketTag tag) in
      (if code \<ge> length index then Inr None
       else if index ! code = SUBPACKET_NOT_PRESENT then Inr None
       else if unat (index ! code) < length (packets a) then Inr (Some (packets a ! unat (index ! code)))
       else Inl Panic, a))"

definition SubpacketArea_subpackets :: "'sig SubpacketArea \<Rightarrow> SubpacketTag \<Rightarrow> 'sig Subpacket list" where
  "SubpacketArea_subpackets a target = filter (\<lambda>sp. Subpacket_tag sp = target) (packets a)"

definition SubpacketArea_serialized_len :: "('sig \<Rightarrow> nat) \<Rightarrow> 'sig SubpacketArea \<Rightarrow> nat" where
  "SubpacketArea_serialized_len sig_len a = sum_list (map (Subpacket_serialized_len sig_len) (packets a))"

fun subpackets_serialize :: "('sig \<Rightarrow> bytes res) \<Rightarrow> 'sig Subpacket list \<Rightarrow> bytes res" where
  "subpackets_serialize sig_serialize [] = Inr []"
| "subpackets_serialize sig_serialize (sb # sbs) =
     and_then (Subpacket_serialize sig_serialize sb) (\<lambda>b.
       and_then (subpackets_serialize sig_serialize sbs) (\<lambda>bs. Inr (b @ bs)))"

definition SubpacketArea_serialize :: "('sig \<Rightarrow> bytes res) \<Rightarrow> 'sig SubpacketArea \<Rightarrow> bytes res" where
  "SubpacketArea_serialize sig_serialize a = subpackets_serialize sig_serialize (packets a)"

definition add_internal ::
    "('sig \<Rightarrow> nat) \<Rightarrow> 'sig SubpacketArea \<Rightarrow> 'sig Subpacket \<Rightarrow> bool \<Rightarrow> 'sig SubpacketArea res" where
  "add_internal sig_len a packet auth =
     (if SubpacketArea_serialized_len sig_len a + Subpacket_serialized_len sig_len packet > 0xFFFF
      then Inl (Err MalformedPacket)
      else
        (let a = cache_invalidate a in
         Inr (SubpacketArea (packets a @ [set_authenticated packet auth]) (parsed a))))"

definition SubpacketArea_add :: "('sig \<Rightarrow> nat) \<Rightarrow> 'sig SubpacketArea \<Rightarrow> 'sig Subpacket \<Rightarrow> 'sig SubpacketArea res" where
  "SubpacketArea_add sig_len a packet = add_internal sig_len a packet False"

definition SubpacketArea_remove_all :: "'sig SubpacketArea \<Rightarrow> SubpacketTag \<Rightarrow> 'sig SubpacketArea" where
  "SubpacketArea_remove_all a tag =
     (let a = cache_invalidate a in
      SubpacketArea (filter (\<lambda>sp. Subpacket_tag sp \<noteq> tag) (packets a)) (parsed a))"

definition SubpacketArea_replace ::
    "('sig \<Rightarrow> nat) \<Rightarrow> 'sig SubpacketArea \<Rightarrow> 'sig Subpacket \<Rightarrow> 'sig SubpacketArea res" where
  "SubpacketArea_replace sig_len a packet =
     (if sum_list (map (Subpacket_serialized_len sig_len) (filter (\<lambda>sp. Subpacket_tag sp \<noteq> Subpacket_tag packet) (packets a)))
         + Subpacket_serialized_len sig_len packet > 0xFFFF
      then Inl (Err MalformedPacket)
      else
        (let a = SubpacketArea_remove_all a (Subpacket_tag packet) in
         Inr (SubpacketArea (packets a @ [set_authenticated packet False]) (parsed a))))"

definition SubpacketArea_clear :: "'sig SubpacketArea \<Rightarrow> 'sig SubpacketArea" where
  "SubpacketArea_clear a = (let a = cache_invalidate a in SubpacketArea [] (parsed a))"

definition SubpacketArea_sort :: "'sig SubpacketArea \<Rightarrow> 'sig SubpacketArea" where
  "SubpacketArea_sort a =
     (let a = cache_invalidate a in SubpacketArea (sort_key tag_code (packets a)) (parsed a))"

section \<open>The two areas of a signature\<close>

datatype 'sig SubpacketAreas = SubpacketAreas (hashed_area: "'sig SubpacketArea") (unhashed_area: "'sig SubpacketArea")

definition SubpacketAreas_new :: "'sig SubpacketArea \<Rightarrow> 'sig SubpacketArea \<Rightarrow> 'sig SubpacketAreas" where
  "SubpacketAreas_new h u = SubpacketAreas h u"

definition SubpacketAreas_sort :: "'sig SubpacketAreas \<Rightarrow> 'sig SubpacketAreas" where
  "SubpacketAreas_sort s = SubpacketAreas (SubpacketArea_sort (hashed_area s)) (SubpacketArea_sort (unhashed_area s))"

definition from_unhashed :: "SubpacketTag \<Rightarrow> bool" where
  "from_unhashed tag \<longleftrightarrow>
     tag = SubpacketTag.Issuer \<or> tag = SubpacketTag.IssuerFingerprint \<or> tag = SubpacketTag.EmbeddedSignature"

definition SubpacketAreas_subpacket ::
    "'sig SubpacketAreas \<Rightarrow> SubpacketTag \<Rightarrow> 'sig Subpacket option res \<times> 'sig SubpacketAreas" where
  "SubpacketAreas_subpacket s tag =
     (let (r, h) = SubpacketArea_subpacket (hashed_area s) tag in
      case r of
        Inl e \<Rightarrow> (Inl e, SubpacketAreas h (unhashed_area s))
      | Inr (Some sb) \<Rightarrow> (Inr (Some sb), SubpacketAreas h (unhashed_area s))
      | Inr None \<Rightarrow>
          if \<not> from_unhashed tag then (Inr None, SubpacketAreas h (unhashed_area s))
          else (let (r, u) = SubpacketArea_subpacket (unhashed_area s) tag in (r, SubpacketAreas h u)))"

definition SubpacketAreas_subpackets :: "'sig SubpacketAreas \<Rightarrow> SubpacketTag \<Rightarrow> 'sig Subpacket list" where
  "SubpacketAreas_subpackets s tag =
     SubpacketArea_subpackets (hashed_area s) tag
     @ filter (\<lambda>sp. from_unhashed tag \<and> Subpacket_tag sp = tag) (packets (unhashed_area s))"

section \<open>The cache\<close>

definition last_pos :: "('a \<Rightarrow> nat) \<Rightarrow> nat \<Rightarrow> 'a list \<Rightarrow> nat option" where
  "last_pos f c xs = find_last (\<lambda>i. f (xs ! i) = c) [0..<length xs]"

lemma last_pos_Nil [simp]: "last_pos f c [] = None"
  by (simp add: last_pos_def)

lemma last_pos_snoc [simp]: "last_pos f c (xs @ [x]) = (if f x = c then Some (length xs) else last_pos f c xs)"
proof -
  have "find_last (\<lambda>i. f ((xs @ [x]) ! i) = c) [0..<length xs] = find_last (\<lambda>i. f (xs ! i) = c) [0..<length xs]"
    using filter_cong [of "[0..<length xs]" "[0..<length xs]" "\<lambda>i. f ((xs @ [x]) ! i) = c" "\<lambda>i. f (xs ! i) = c"]
    by (simp add: find_last_def nth_append)
  then show ?thesis by (simp add: last_pos_def)
qed

lemma last_pos_less: "last_pos f c xs = Some i \<Longrightarrow> i < length xs"
  by (induction xs arbitrary: i rule: rev_induct) (auto split: if_splits simp: less_Suc_eq)

lemma find_last_pos: "find_last (\<lambda>x. f x = c) xs = map_option (nth xs) (last_pos f c xs)"
  by (induction xs rule: rev_induct) (auto simp: nth_append dest: last_pos_less intro!: option.map_cong)

lemma fold_index:
  assumes "c < N" "\<forall>x \<in> set xs. f x < N"
  shows "length (foldl (\<lambda>index (i, x). index[f x := word_of_nat i]) (replicate N d) (enumerate 0 xs)) = N
    \<and> foldl (\<lambda>index (i, x). index[f x := word_of_nat i]) (replicate N d) (enumerate 0 xs) ! c
      = (case last_pos f c xs of None \<Rightarrow> d | Some i \<Rightarrow> word_of_nat i)"
  using assms
proof (induction xs rule: rev_induct)
  case (snoc x xs)
  then show ?case by (auto simp: enumerate_append_eq nth_list_update)
qed simp

lemma foldl_max_ge: "x \<in> set (c # cs) \<Longrightarrow> x \<le> foldl max c (cs :: nat list)"
proof (induction cs rule: rev_induct)
  case (snoc d ds)
  then show ?case by (auto simp: le_max_iff_disj)
qed simp

abbreviation index_from :: "nat \<Rightarrow> 'sig Subpacket list \<Rightarrow> u16 list" where
  "index_from N ps \<equiv>
     foldl (\<lambda>index (i, sp). index[tag_code sp := word_of_nat i]) (replicate N SUBPACKET_NOT_PRESENT) (enumerate 0 ps)"

lemma cache_index_cases:
  obtains "ps = []" "cache_index ps = []"
  | N where "0 < N" "\<forall>p \<in> set ps. tag_code p < N" "cache_index ps = index_from N ps"
proof (cases ps)
  case Nil
  then show ?thesis using that(1) by (simp add: cache_index_def)
next
  case (Cons q qs)
  let ?N = "foldl max (tag_code q) (map tag_code qs) + 1"
  have "\<forall>p \<in> set ps. tag_code p < ?N"
    using foldl_max_ge [of _ "tag_code q" "map tag_code qs"] Cons by (auto simp: less_Suc_eq_le)
  moreover have "cache_index ps = index_from ?N ps"
    by (simp only: cache_index_def Cons list.map list.case)
  ultimately show ?thesis using that(2) [of ?N] by simp
qed

lemma last_pos_None: "\<forall>x \<in> set xs. f x \<noteq> c \<Longrightarrow> last_pos f c xs = None"
  by (induction xs rule: rev_induct) auto

lemma cache_index_nth:
  "code < length (cache_index ps) \<Longrightarrow>
     cache_index ps ! code = (case last_pos tag_code code ps of None \<Rightarrow> SUBPACKET_NOT_PRESENT | Some i \<Rightarrow> word_of_nat i)"
  "length (cache_index ps) \<le> code \<Longrightarrow> last_pos tag_code code ps = None"
proof -
  consider "ps = []" "cache_index ps = []"
    | N where "0 < N" "\<forall>p \<in> set ps. tag_code p < N" "cache_index ps = index_from N ps"
    by (rule cache_index_cases)
  note * = this
  show "cache_index ps ! code = (case last_pos tag_code code ps of None \<Rightarrow> SUBPACKET_NOT_PRESENT | Some i \<Rightarrow> word_of_nat i)"
    if "code < length (cache_index ps)"
    using * that
  proof cases
    case (2 N)
    then show ?thesis
      using that fold_index [of 0 N ps tag_code SUBPACKET_NOT_PRESENT] fold_index [of code N ps tag_code SUBPACKET_NOT_PRESENT]
      by simp
  qed simp
  show "last_pos tag_code code ps = None" if "length (cache_index ps) \<le> code"
    using *
  proof cases
    case (2 N)
    then have "N \<le> code" using that fold_index [of 0 N ps tag_code SUBPACKET_NOT_PRESENT] by simp
    then show ?thesis using 2(2) by (intro last_pos_None) auto
  qed simp
qed

definition cache_ok :: "'sig SubpacketArea \<Rightarrow> bool" where
  "cache_ok a \<longleftrightarrow> parsed a = None \<or> parsed a = Some (cache_index (packets a))"

lemma cache_init_ok: "cache_ok a \<Longrightarrow> cache_init a = (cache_index (packets a), SubpacketArea (packets a) (Some (cache_index (packets a))))"
  by (cases a) (auto simp: cache_ok_def cache_init_def)

lemma tag_code_eq:
  "SubpacketTag_canonical (Subpacket_tag p) \<Longrightarrow> SubpacketTag_canonical tag \<Longrightarrow>
     tag_code p = unat (u8_from_SubpacketTag tag) \<longleftrightarrow> Subpacket_tag p = tag"
  using subpacket_tag.same_code_iff [of "Subpacket_tag p" tag] by (simp add: tag_code_def word_unat_eq_iff [symmetric])

lemma SubpacketArea_subpacket_last:
  assumes "cache_ok a" "length (packets a) < 2 ^ 16"
    and "list_all (\<lambda>p. SubpacketTag_canonical (Subpacket_tag p)) (packets a)" "SubpacketTag_canonical tag"
  shows "fst (SubpacketArea_subpacket a tag) = Inr (find_last (\<lambda>p. Subpacket_tag p = tag) (packets a))"
proof -
  let ?c = "unat (u8_from_SubpacketTag tag)" and ?ps = "packets a"
  have "find_last (\<lambda>p. Subpacket_tag p = tag) ?ps = find_last (\<lambda>p. tag_code p = ?c) ?ps"
    using assms(3,4) filter_cong [of ?ps ?ps "\<lambda>p. Subpacket_tag p = tag" "\<lambda>p. tag_code p = ?c"]
    by (auto simp: find_last_def list_all_iff tag_code_eq)
  then have spec: "find_last (\<lambda>p. Subpacket_tag p = tag) ?ps = map_option (nth ?ps) (last_pos tag_code ?c ?ps)"
    by (simp add: find_last_pos)
  show ?thesis
  proof (cases "last_pos tag_code ?c ?ps")
    case None
    then show ?thesis
      using cache_index_nth(1) [of ?c ?ps] by (simp add: SubpacketArea_subpacket_def cache_init_ok [OF assms(1)] Let_def spec)
  next
    case (Some i)
    then have "i < length ?ps" by (rule last_pos_less)
    then have i: "unat (word_of_nat i :: u16) = i" "(word_of_nat i :: u16) \<noteq> SUBPACKET_NOT_PRESENT"
      using assms(2) by (auto simp: unat_word_of_nat_less SUBPACKET_NOT_PRESENT_def word_unat_eq_iff)
    have "?c < length (cache_index ?ps)" using Some cache_index_nth(2) [of ?ps ?c] by (cases "?c < length (cache_index ?ps)") auto
    then show ?thesis
      using Some i \<open>i < length ?ps\<close> cache_index_nth(1) [of ?c ?ps]
      by (simp add: SubpacketArea_subpacket_def cache_init_ok [OF assms(1)] Let_def spec)
  qed
qed

section \<open>Areas as stores\<close>

text \<open>
  The size limit of the areas that \<open>add\<close> and \<open>replace\<close> make also limits the number of subpackets, so
  the positions fit the cache.
\<close>

definition SubpacketArea_invar :: "('sig \<Rightarrow> nat) \<Rightarrow> 'sig SubpacketArea \<Rightarrow> bool" where
  "SubpacketArea_invar sig_len a \<longleftrightarrow>
     cache_ok a \<and> SubpacketArea_serialized_len sig_len a \<le> SubpacketArea_MAX_SIZE
     \<and> list_all (\<lambda>p. SubpacketTag_canonical (Subpacket_tag p)) (packets a)"

lemma length_le_serialized: "length ps \<le> sum_list (map (Subpacket_serialized_len sig_len) ps)"
  by (induction ps) (simp_all add: Subpacket_serialized_len_def)

lemma filter_serialized_le: "sum_list (map f (filter P xs)) \<le> sum_list (map f xs :: nat list)"
  by (induction xs) auto

lemma Subpacket_tag_set_authenticated [simp]: "Subpacket_tag (set_authenticated p b) = Subpacket_tag p"
  by (simp add: Subpacket_tag_def set_authenticated_def)

lemma serialized_len_set_authenticated [simp]:
  "Subpacket_serialized_len f (set_authenticated p b) = Subpacket_serialized_len f p"
  by (simp add: Subpacket_serialized_len_def set_authenticated_def)

lemmas area_defs = SubpacketArea_invar_def SubpacketArea_serialized_len_def SubpacketArea_MAX_SIZE_def cache_ok_def
  cache_invalidate_def

definition SubpacketArea_lookup :: "'sig SubpacketArea \<Rightarrow> SubpacketTag \<Rightarrow> 'sig Subpacket option" where
  "SubpacketArea_lookup a tag =
     (if SubpacketTag_canonical tag then (case fst (SubpacketArea_subpacket a tag) of Inr r \<Rightarrow> r | Inl _ \<Rightarrow> None) else None)"

lemma invar_lookup:
  assumes "SubpacketArea_invar sig_len a"
  shows "SubpacketTag_canonical tag \<Longrightarrow>
      fst (SubpacketArea_subpacket a tag) = Inr (find_last (\<lambda>p. Subpacket_tag p = tag) (packets a))"
    "SubpacketArea_lookup a tag = find_last (\<lambda>p. Subpacket_tag p = tag) (packets a)"
proof -
  have "length (packets a) < 2 ^ 16"
    using assms length_le_serialized [of "packets a" sig_len] by (simp add: area_defs)
  then show l: "fst (SubpacketArea_subpacket a tag) = Inr (find_last (\<lambda>p. Subpacket_tag p = tag) (packets a))"
    if "SubpacketTag_canonical tag"
    using that assms SubpacketArea_subpacket_last [of a tag] by (simp add: SubpacketArea_invar_def)
  have "find_last (\<lambda>p. Subpacket_tag p = tag) (packets a) = None" if "\<not> SubpacketTag_canonical tag"
    using that assms by (auto simp: SubpacketArea_invar_def list_all_iff find_last_def filter_empty_conv)
  then show "SubpacketArea_lookup a tag = find_last (\<lambda>p. Subpacket_tag p = tag) (packets a)"
    using l by (auto simp: SubpacketArea_lookup_def)
qed

interpretation area: entry_store "SubpacketArea_invar sig_len" packets Subpacket_tag "\<lambda>p. set_authenticated p False"
    SubpacketArea_lookup "SubpacketArea_add sig_len" "SubpacketArea_replace sig_len" SubpacketArea_remove_all
    "\<lambda>p. SubpacketTag_canonical (Subpacket_tag p)" for sig_len :: "'sig \<Rightarrow> nat"
proof (unfold_locales, goal_cases)
  case (1 s k)
  then show ?case by (rule invar_lookup)
next
  case (2 v)
  show ?case by simp
next
  case (3 s v t)
  then show ?case
    by (auto simp: SubpacketArea_add_def add_internal_def area_defs split: if_splits)
next
  case (4 s v t)
  then show ?case
    by (auto simp: SubpacketArea_replace_def SubpacketArea_remove_all_def area_defs list_all_iff split: if_splits)
next
  case (5 s k)
  then show ?case
    using filter_serialized_le [of "Subpacket_serialized_len sig_len" "\<lambda>w. Subpacket_tag w \<noteq> k" "packets s"]
    by (auto simp: SubpacketArea_remove_all_def area_defs list_all_iff)
qed

lemma sort_lookup:
  assumes "SubpacketArea_invar sig_len a"
  shows "SubpacketArea_invar sig_len (SubpacketArea_sort a) \<and> SubpacketArea_lookup (SubpacketArea_sort a) = SubpacketArea_lookup a"
proof -
  have mset: "mset (packets (SubpacketArea_sort a)) = mset (packets a)"
    by (simp add: SubpacketArea_sort_def cache_invalidate_def)
  then have "sum_list (map f (packets (SubpacketArea_sort a))) = sum_list (map f (packets a))" for f :: "'a Subpacket \<Rightarrow> nat"
    by (metis mset_map sum_mset_sum_list)
  moreover have "set (packets (SubpacketArea_sort a)) = set (packets a)" using mset by (metis set_mset_mset)
  ultimately have inv: "SubpacketArea_invar sig_len (SubpacketArea_sort a)"
    using assms by (auto simp: area_defs list_all_iff SubpacketArea_sort_def)
  have "filter (\<lambda>p. Subpacket_tag p = k) (sort_key tag_code ps) = filter (\<lambda>p. Subpacket_tag p = k) ps"
    for k and ps :: "'a Subpacket list"
  proof -
    let ?c = "unat (u8_from_SubpacketTag k)"
    have "filter (\<lambda>p. Subpacket_tag p = k) qs = filter (\<lambda>p. Subpacket_tag p = k) (filter (\<lambda>p. tag_code p = ?c) qs)"
      for qs :: "'a Subpacket list"
      by (auto simp: tag_code_def intro: filter_cong)
    then show ?thesis by (metis sort_key_stable)
  qed
  then have "SubpacketArea_lookup (SubpacketArea_sort a) k = SubpacketArea_lookup a k" for k
    unfolding invar_lookup(2) [OF inv] invar_lookup(2) [OF assms]
    by (simp add: SubpacketArea_sort_def cache_invalidate_def find_last_def)
  with inv show ?thesis by blast
qed

text \<open>
  C26. Looking up a subpacket returns the last one with the tag in an area within the size limit, whether
  the cache is filled or not; it never panics and it leaves the subpackets and the invariant of the area
  alone.
\<close>

theorem subpacket_lookup_last:
  assumes "SubpacketArea_invar sig_len a" "SubpacketTag_canonical tag"
  shows "fst (SubpacketArea_subpacket a tag) = Inr (find_last (\<lambda>p. Subpacket_tag p = tag) (packets a))
    \<and> packets (snd (SubpacketArea_subpacket a tag)) = packets a
    \<and> SubpacketArea_invar sig_len (snd (SubpacketArea_subpacket a tag))
    \<and> fst (SubpacketArea_subpacket (snd (SubpacketArea_subpacket a tag)) tag) = fst (SubpacketArea_subpacket a tag)"
proof -
  have s: "snd (SubpacketArea_subpacket a tag) = SubpacketArea (packets a) (Some (cache_index (packets a)))"
    using assms by (simp add: SubpacketArea_subpacket_def Let_def cache_init_ok SubpacketArea_invar_def)
  have inv: "SubpacketArea_invar sig_len (snd (SubpacketArea_subpacket a tag))"
    using assms(1) by (simp add: s area_defs)
  show ?thesis
    unfolding invar_lookup(1) [OF assms] invar_lookup(1) [OF inv assms(2)] using inv by (simp add: s)
qed

theorem subpacket_lookup_last_witness:
  "fst (SubpacketArea_subpacket
     (SubpacketArea [Subpacket (SubpacketLength_from_u32 2) False (SubpacketValue.Revocable True) False,
        Subpacket (SubpacketLength_from_u32 2) True (SubpacketValue.Revocable False) False] None
      :: unit SubpacketArea) SubpacketTag.Revocable)
   = Inr (Some (Subpacket (SubpacketLength_from_u32 2) True (SubpacketValue.Revocable False) False))"
  (is "fst (SubpacketArea_subpacket ?a ?t) = _")
proof -
  have "SubpacketArea_invar (\<lambda>_. 0) ?a"
    by (simp add: area_defs Subpacket_serialized_len_def SubpacketLength_serialized_len_def SubpacketLength_from_u32_def
      SubpacketLength_len_def len_optimal_encoding_def BodyLength_serialized_len_def SubpacketValue_serialized_len_def
      Subpacket_tag_def SubpacketValue_tag_def SubpacketTag_canonical_def)
  moreover have "SubpacketTag_canonical ?t" by (simp add: SubpacketTag_canonical_def)
  ultimately have "fst (SubpacketArea_subpacket ?a ?t) = Inr (find_last (\<lambda>p. Subpacket_tag p = ?t) (packets ?a))"
    using subpacket_lookup_last by blast
  also have "\<dots> = Inr (Some (Subpacket (SubpacketLength_from_u32 2) True (SubpacketValue.Revocable False) False))"
    by (simp add: find_last_def Subpacket_tag_def SubpacketValue_tag_def)
  finally show ?thesis .
qed

text \<open>
  C27. An area behaves as a map from tags to subpackets, with the last writer winning: \<open>add\<close> and
  \<open>replace\<close> update the tag of the subpacket, which is stored as not authenticated, \<open>remove_all\<close> deletes
  the tag, and \<open>sort\<close> changes nothing; every operation keeps the invariant, and after \<open>replace\<close> the
  subpacket is the only one with its tag.
\<close>

theorem subpacket_area_store:
  assumes "SubpacketArea_invar sig_len a" "SubpacketTag_canonical (Subpacket_tag p)"
    and "SubpacketArea_add sig_len a p = Inr b" "SubpacketArea_replace sig_len a p = Inr c"
  shows "SubpacketArea_lookup b = (SubpacketArea_lookup a)(Subpacket_tag p \<mapsto> set_authenticated p False)
    \<and> SubpacketArea_lookup c = (SubpacketArea_lookup a)(Subpacket_tag p \<mapsto> set_authenticated p False)
    \<and> SubpacketArea_subpackets c (Subpacket_tag p) = [set_authenticated p False]
    \<and> SubpacketArea_lookup (SubpacketArea_remove_all a tag) = (SubpacketArea_lookup a)(tag := None)
    \<and> SubpacketArea_lookup (SubpacketArea_sort a) = SubpacketArea_lookup a
    \<and> list_all (SubpacketArea_invar sig_len) [b, c, SubpacketArea_remove_all a tag, SubpacketArea_sort a]"
  using area.lookup_add [OF assms(1-3)] area.lookup_replace [OF assms(1,2,4)] area.lookup_remove [OF assms(1)]
    area.replace_unique [OF assms(1,2,4)] area.add [OF assms(1-3)] area.replace [OF assms(1,2,4)]
    area.remove [OF assms(1)] sort_lookup [OF assms(1)]
  by (simp add: SubpacketArea_subpackets_def)

definition demo_subpacket :: "bool \<Rightarrow> unit Subpacket" where
  "demo_subpacket v = Subpacket (SubpacketLength_from_u32 2) False (SubpacketValue.Revocable v) True"

theorem subpacket_area_store_witness:
  "SubpacketArea_lookup (SubpacketArea [set_authenticated (demo_subpacket True) False] None)
     = [SubpacketTag.Revocable \<mapsto> set_authenticated (demo_subpacket True) False]"
proof -
  let ?e = "SubpacketArea [] None :: unit SubpacketArea"
  have len: "Subpacket_serialized_len (\<lambda>_. 0) (demo_subpacket v) = 3" for v
    by (simp add: demo_subpacket_def Subpacket_serialized_len_def SubpacketLength_serialized_len_def SubpacketLength_from_u32_def
      SubpacketLength_len_def len_optimal_encoding_def BodyLength_serialized_len_def SubpacketValue_serialized_len_def)
  have tag: "Subpacket_tag (demo_subpacket True) = SubpacketTag.Revocable"
    by (simp add: demo_subpacket_def Subpacket_tag_def SubpacketValue_tag_def)
  have inv: "SubpacketArea_invar (\<lambda>_. 0) ?e" by (simp add: area_defs)
  have "SubpacketArea_lookup ?e = (\<lambda>_. None)"
    using invar_lookup(2) [OF inv] by auto
  then show ?thesis
    using subpacket_area_store [OF inv, of "demo_subpacket True"
        "SubpacketArea [set_authenticated (demo_subpacket True) False] None"
        "SubpacketArea [set_authenticated (demo_subpacket True) False] None" SubpacketTag.Revocable]
    by (simp add: tag SubpacketTag_canonical_def SubpacketArea_add_def add_internal_def SubpacketArea_replace_def
        SubpacketArea_remove_all_def len area_defs)
qed

text \<open>
  The cache keeps positions in 16 bits. In an area of more than 65535 subpackets, which the version 6
  format can hold, the position wraps around and a lookup returns a subpacket with another tag.
\<close>

theorem subpacket_lookup_wraps:
  assumes "Subpacket_tag r \<noteq> Subpacket_tag p" "Subpacket_tag r \<noteq> Subpacket_tag q"
    and "SubpacketTag_canonical (Subpacket_tag p)" "SubpacketTag_canonical (Subpacket_tag q)" "SubpacketTag_canonical (Subpacket_tag r)"
  shows "fst (SubpacketArea_subpacket (SubpacketArea (p # replicate 65535 q @ [r]) None) (Subpacket_tag r)) = Inr (Some p)"
proof -
  let ?ps = "p # replicate 65535 q @ [r]" and ?c = "unat (u8_from_SubpacketTag (Subpacket_tag r))"
  have pos: "last_pos tag_code ?c ?ps = Some 65536"
    using last_pos_snoc [of tag_code ?c "p # replicate 65535 q" r] by (simp add: tag_code_def)
  have l: "?c < length (cache_index ?ps)" using pos cache_index_nth(2) [of ?ps ?c] by (cases "?c < length (cache_index ?ps)") auto
  have "cache_index ?ps ! ?c = 0" using cache_index_nth(1) [OF l] pos by (simp)
  then show ?thesis
    using l by (simp add: SubpacketArea_subpacket_def cache_init_def SUBPACKET_NOT_PRESENT_def Let_def not_le)
qed

theorem subpacket_lookup_wraps_witness:
  "fst (SubpacketArea_subpacket
      (SubpacketArea (with_length (SubpacketLength_from_u32 2) (SubpacketValue.PrimaryUserID True) False
         # replicate 65535 (with_length (SubpacketLength_from_u32 2) (SubpacketValue.Revocable True) False)
         @ [with_length (SubpacketLength_from_u32 2) (SubpacketValue.ExportableCertification False) True]) None
       :: unit SubpacketArea) SubpacketTag.ExportableCertification)
   = Inr (Some (with_length (SubpacketLength_from_u32 2) (SubpacketValue.PrimaryUserID True) False))"
  using subpacket_lookup_wraps [of
      "with_length (SubpacketLength_from_u32 2) (SubpacketValue.ExportableCertification False) True :: unit Subpacket"
      "with_length (SubpacketLength_from_u32 2) (SubpacketValue.PrimaryUserID True) False"
      "with_length (SubpacketLength_from_u32 2) (SubpacketValue.Revocable True) False"]
  by (simp add: Subpacket_tag_def SubpacketValue_tag_def with_length_def SubpacketTag_canonical_def)

end
