(* ===== verification/Signatures.thy ===== *)
theory Signatures
  imports SubpacketCodec SubpacketAreas
begin

text \<open>
  Signature packets: the data of the three versions (\<open>packet/signature.rs\<close>, \<open>packet/signature/v6.rs\<close>),
  the parser of the body of a signature packet and of its subpacket areas (\<open>parse.rs\<close>), and its writer
  (\<open>serialize.rs\<close>).

  A signature can hold signatures in its subpackets. The operations of one version take the operations
  on the signatures inside as an argument; \<open>SignaturePacket_from_bytes\<close>, \<open>SignaturePacket_serialize\<close> and
  \<open>SignaturePacket_serialized_len\<close> are the recursive functions these make, and the parser ends because the
  octets of an embedded signature are fewer than those of the signature around it.

  The parser here reads a signature on its own, so there is no data around it to hash and
  \<open>Signature::parse_finish\<close> leaves it alone.
\<close>

section \<open>Data\<close>

datatype 'sig SignatureFields =
  SignatureFields (sf_version: u8) (sf_typ: SignatureType) (sf_pk_algo: PublicKeyAlgorithm)
    (sf_hash_algo: HashAlgorithm) (sf_subpackets: "'sig SubpacketAreas")

datatype 'sig Signature4 =
  Signature4 (fields: "'sig SignatureFields") (digest_prefix: "u8 \<times> u8") (sig_mpis: Signature)
    (computed_digest: "bytes option") (level: nat) (additional_issuers: "KeyHandle list option")

datatype 'sig Signature3 = Signature3 (intern: "'sig Signature4")

datatype 'sig Signature6 = Signature6 (common: "'sig Signature4") (salt: bytes)

datatype SignaturePacket =
    V3 "SignaturePacket Signature3"
  | V4 "SignaturePacket Signature4"
  | V6 "SignaturePacket Signature6"

definition sig_version :: "'sig Signature4 \<Rightarrow> u8" where
  "sig_version s = sf_version (fields s)"

abbreviation sig_hashed :: "'sig Signature4 \<Rightarrow> 'sig SubpacketArea" where
  "sig_hashed s \<equiv> hashed_area (sf_subpackets (fields s))"

abbreviation sig_unhashed :: "'sig Signature4 \<Rightarrow> 'sig SubpacketArea" where
  "sig_unhashed s \<equiv> unhashed_area (sf_subpackets (fields s))"

definition Signature4_new ::
    "SignatureType \<Rightarrow> PublicKeyAlgorithm \<Rightarrow> HashAlgorithm \<Rightarrow> 'sig SubpacketArea \<Rightarrow> 'sig SubpacketArea
     \<Rightarrow> u8 \<times> u8 \<Rightarrow> Signature \<Rightarrow> 'sig Signature4" where
  "Signature4_new typ pk_algo hash_algo hashed unhashed prefix mpis =
     Signature4 (SignatureFields 4 typ pk_algo hash_algo (SubpacketAreas_new hashed unhashed)) prefix mpis None 0 None"

definition set_version :: "'sig Signature4 \<Rightarrow> u8 \<Rightarrow> 'sig Signature4" where
  "set_version s v =
     (let f = fields s in
      Signature4 (SignatureFields v (sf_typ f) (sf_pk_algo f) (sf_hash_algo f) (sf_subpackets f))
        (digest_prefix s) (sig_mpis s) (computed_digest s) (level s) (additional_issuers s))"

definition Signature3_new ::
    "('sig \<Rightarrow> nat) \<Rightarrow> SignatureType \<Rightarrow> u32 \<Rightarrow> KeyID \<Rightarrow> PublicKeyAlgorithm \<Rightarrow> HashAlgorithm
     \<Rightarrow> u8 \<times> u8 \<Rightarrow> Signature \<Rightarrow> 'sig Signature3 res" where
  "Signature3_new sig_len typ creation_time issuer pk_algo hash_algo prefix mpis =
     and_then (unwrap (Subpacket_new sig_len (SubpacketValue.SignatureCreationTime creation_time) True)) (\<lambda>t.
       and_then (unwrap (SubpacketArea_new [t])) (\<lambda>hashed.
         and_then (unwrap (Subpacket_new sig_len (SubpacketValue.Issuer issuer) False)) (\<lambda>i.
           and_then (unwrap (SubpacketArea_new [i])) (\<lambda>unhashed.
             Inr (Signature3 (set_version (Signature4_new typ pk_algo hash_algo hashed unhashed prefix mpis) 3))))))"

definition Signature6_from_common :: "'sig Signature4 \<Rightarrow> bytes \<Rightarrow> 'sig Signature6 res" where
  "Signature6_from_common c s = Inr (Signature6 (set_version c 6) s)"

definition Signature6_new ::
    "SignatureType \<Rightarrow> PublicKeyAlgorithm \<Rightarrow> HashAlgorithm \<Rightarrow> 'sig SubpacketArea \<Rightarrow> 'sig SubpacketArea
     \<Rightarrow> u8 \<times> u8 \<Rightarrow> bytes \<Rightarrow> Signature \<Rightarrow> 'sig Signature6 res" where
  "Signature6_new typ pk_algo hash_algo hashed unhashed prefix s mpis =
     Signature6_from_common (Signature4_new typ pk_algo hash_algo hashed unhashed prefix mpis) s"

section \<open>Parsing\<close>

lemma Subpacket_parse_progress:
  assumes "Subpacket_parse ds f limit h bs = Inr (p, bs')"
  shows "0 < SubpacketLength_len (sp_length p)
    \<and> SubpacketLength_len (sp_length p) + SubpacketLength_serialized_len (sp_length p) \<le> limit"
  using assms by (auto simp: Subpacket_parse_def Let_def result_simps with_length_def split: if_splits prod.splits)

function subpackets_parse ::
    "(HashAlgorithm \<Rightarrow> nat option) \<Rightarrow> (bytes \<Rightarrow> 'sig res) \<Rightarrow> nat \<Rightarrow> HashAlgorithm \<Rightarrow> 'sig Subpacket list reader" where
  "subpackets_parse ds sig_from_bytes limit hash_algo bs =
     (if limit > 0 then
        and_then (Subpacket_parse ds sig_from_bytes limit hash_algo bs) (\<lambda>(p, bs).
          let n = SubpacketLength_len (sp_length p) + SubpacketLength_serialized_len (sp_length p) in
          if \<not> limit \<ge> n then Inl Panic
          else
            and_then (subpackets_parse ds sig_from_bytes (limit - n) hash_algo bs) (\<lambda>(ps, bs). Inr (p # ps, bs)))
      else Inr ([], bs))"
  by pat_completeness auto
termination
  by (relation "measure (\<lambda>(_, _, limit, _, _). limit)") (auto dest: Subpacket_parse_progress)

declare subpackets_parse.simps [simp del]

definition SubpacketArea_parse ::
    "(HashAlgorithm \<Rightarrow> nat option) \<Rightarrow> (bytes \<Rightarrow> 'sig res) \<Rightarrow> nat \<Rightarrow> HashAlgorithm \<Rightarrow> 'sig SubpacketArea reader" where
  "SubpacketArea_parse ds sig_from_bytes limit hash_algo bs =
     and_then (subpackets_parse ds sig_from_bytes limit hash_algo bs) (\<lambda>(ps, bs).
       and_then (SubpacketArea_new ps) (\<lambda>area. Inr (area, bs)))"

definition Signature3_parse :: "('sig \<Rightarrow> nat) \<Rightarrow> 'sig Signature3 reader" where
  "Signature3_parse sig_len bs =
     and_then (parse_u8 bs) (\<lambda>(len, bs).
       if len \<noteq> 5 then Inl (Err MalformedPacket)
       else
         and_then (parse_u8 bs) (\<lambda>(typ, bs).
         and_then (read_be_u32 bs) (\<lambda>(creation_time, bs).
         and_then (parse_bytes 8 bs) (\<lambda>(issuer, bs).
         and_then (parse_u8 bs) (\<lambda>(pk_algo, bs).
         and_then (parse_u8 bs) (\<lambda>(hash_algo, bs).
         and_then (parse_u8 bs) (\<lambda>(digest_prefix1, bs).
         and_then (parse_u8 bs) (\<lambda>(digest_prefix2, bs).
           if \<not> for_signing (PublicKeyAlgorithm_from_u8 pk_algo) then Inl (Err MalformedPacket)
           else
             and_then (Signature_parse (PublicKeyAlgorithm_from_u8 pk_algo) bs) (\<lambda>(mpis, bs).
               and_then (Signature3_new sig_len (SignatureType_from_u8 typ) creation_time (KeyID_from_bytes issuer)
                  (PublicKeyAlgorithm_from_u8 pk_algo) (HashAlgorithm_from_u8 hash_algo)
                  (digest_prefix1, digest_prefix2) mpis) (\<lambda>s. Inr (s, bs)))))))))))"

definition Signature4_parse ::
    "(HashAlgorithm \<Rightarrow> nat option) \<Rightarrow> (bytes \<Rightarrow> 'sig res) \<Rightarrow> 'sig Signature4 reader" where
  "Signature4_parse ds sig_from_bytes bs =
     and_then (parse_u8 bs) (\<lambda>(typ, bs).
     and_then (parse_u8 bs) (\<lambda>(pk_algo, bs).
     and_then (parse_u8 bs) (\<lambda>(hash_algo, bs).
     and_then (read_be_u16 bs) (\<lambda>(hashed_area_len, bs).
     and_then (SubpacketArea_parse ds sig_from_bytes (unat hashed_area_len) (HashAlgorithm_from_u8 hash_algo) bs) (\<lambda>(hashed, bs).
     and_then (read_be_u16 bs) (\<lambda>(unhashed_area_len, bs).
     and_then (SubpacketArea_parse ds sig_from_bytes (unat unhashed_area_len) (HashAlgorithm_from_u8 hash_algo) bs) (\<lambda>(unhashed, bs).
     and_then (parse_u8 bs) (\<lambda>(digest_prefix1, bs).
     and_then (parse_u8 bs) (\<lambda>(digest_prefix2, bs).
       if \<not> for_signing (PublicKeyAlgorithm_from_u8 pk_algo) then Inl (Err MalformedPacket)
       else
         and_then (Signature_parse (PublicKeyAlgorithm_from_u8 pk_algo) bs) (\<lambda>(mpis, bs).
           Inr (Signature4_new (SignatureType_from_u8 typ) (PublicKeyAlgorithm_from_u8 pk_algo)
                  (HashAlgorithm_from_u8 hash_algo) hashed unhashed (digest_prefix1, digest_prefix2) mpis, bs)))))))))))"

definition Signature6_parse ::
    "(HashAlgorithm \<Rightarrow> nat option) \<Rightarrow> (bytes \<Rightarrow> 'sig res) \<Rightarrow> 'sig Signature6 reader" where
  "Signature6_parse ds sig_from_bytes bs =
     and_then (parse_u8 bs) (\<lambda>(typ, bs).
     and_then (parse_u8 bs) (\<lambda>(pk_algo, bs).
     and_then (parse_u8 bs) (\<lambda>(hash_algo, bs).
     and_then (read_be_u32 bs) (\<lambda>(hashed_area_len, bs).
     and_then (SubpacketArea_parse ds sig_from_bytes (unat hashed_area_len) (HashAlgorithm_from_u8 hash_algo) bs) (\<lambda>(hashed, bs).
     and_then (read_be_u32 bs) (\<lambda>(unhashed_area_len, bs).
     and_then (SubpacketArea_parse ds sig_from_bytes (unat unhashed_area_len) (HashAlgorithm_from_u8 hash_algo) bs) (\<lambda>(unhashed, bs).
     and_then (parse_u8 bs) (\<lambda>(digest_prefix1, bs).
     and_then (parse_u8 bs) (\<lambda>(digest_prefix2, bs).
       if \<not> for_signing (PublicKeyAlgorithm_from_u8 pk_algo) then Inl (Err MalformedPacket)
       else
         and_then (parse_u8 bs) (\<lambda>(salt_len, bs).
         and_then (parse_bytes (unat salt_len) bs) (\<lambda>(salt, bs).
         and_then (Signature_parse (PublicKeyAlgorithm_from_u8 pk_algo) bs) (\<lambda>(mpis, bs).
         and_then (Signature6_new (SignatureType_from_u8 typ) (PublicKeyAlgorithm_from_u8 pk_algo)
                  (HashAlgorithm_from_u8 hash_algo) hashed unhashed (digest_prefix1, digest_prefix2) salt mpis) (\<lambda>s.
           Inr (s, bs))))))))))))))"

text \<open>
  The octets after the signature are an error, like those of \<open>PacketParser::buffer_unread_content\<close>.
\<close>

definition SignaturePacket_parse ::
    "(HashAlgorithm \<Rightarrow> nat option) \<Rightarrow> (SignaturePacket \<Rightarrow> nat) \<Rightarrow> (bytes \<Rightarrow> SignaturePacket res) \<Rightarrow> SignaturePacket reader" where
  "SignaturePacket_parse ds sig_len sig_from_bytes bs =
     and_then (parse_u8 bs) (\<lambda>(version, bs).
       if version = 3 then and_then (Signature3_parse sig_len bs) (\<lambda>(s, bs). Inr (V3 s, bs))
       else if version = 4 then and_then (Signature4_parse ds sig_from_bytes bs) (\<lambda>(s, bs). Inr (V4 s, bs))
       else if version = 6 then and_then (Signature6_parse ds sig_from_bytes bs) (\<lambda>(s, bs). Inr (V6 s, bs))
       else Inl (Err MalformedPacket))"

section \<open>Writing\<close>

text \<open>
  The lookups fill the caches of the areas, which the writer does not change otherwise.
\<close>

definition Signature3_serialize :: "'sig Signature3 \<Rightarrow> bytes res" where
  "Signature3_serialize sig =
     (let s = intern sig in
      if sig_version s \<noteq> 3 then Inl Panic
      else
        and_then (fst (SubpacketArea_subpacket (sig_hashed s) SubpacketTag.SignatureCreationTime)) (\<lambda>t.
          case map_option sp_value t of
            Some (SubpacketValue.SignatureCreationTime ct) \<Rightarrow>
              if length (packets (sig_hashed s)) > 1 then Inl (Err InvalidArgument)
              else
                and_then (fst (SubpacketArea_subpacket (sig_unhashed s) SubpacketTag.Issuer)) (\<lambda>i.
                  case map_option sp_value i of
                    Some (SubpacketValue.Issuer (KeyID.Long b)) \<Rightarrow>
                      if length b \<noteq> 8 then Inl Panic
                      else if length (packets (sig_unhashed s)) > 1 then Inl (Err InvalidArgument)
                      else
                        and_then (Signature_serialize (sig_mpis s)) (\<lambda>mpis.
                          Inr ([3, 5, u8_from_SignatureType (sf_typ (fields s))] @ to_be_u32 ct @ b
                            @ [u8_from_PublicKeyAlgorithm (sf_pk_algo (fields s)), u8_from_HashAlgorithm (sf_hash_algo (fields s)),
                               fst (digest_prefix s), snd (digest_prefix s)] @ mpis))
                  | _ \<Rightarrow> Inl (Err InvalidArgument))
          | _ \<Rightarrow> Inl (Err InvalidArgument)))"

definition Signature3_net_len :: "'sig Signature3 \<Rightarrow> nat" where
  "Signature3_net_len sig = 1 + 1 + 1 + 4 + 8 + 1 + 1 + 2 + Signature_serialized_len (sig_mpis (intern sig))"

definition Signature4_serialize :: "('sig \<Rightarrow> bytes res) \<Rightarrow> ('sig \<Rightarrow> nat) \<Rightarrow> 'sig Signature4 \<Rightarrow> bytes res" where
  "Signature4_serialize sig_serialize sig_len s =
     (if sig_version s \<noteq> 4 then Inl Panic
      else
        let hl = SubpacketArea_serialized_len sig_len (sig_hashed s);
            ul = SubpacketArea_serialized_len sig_len (sig_unhashed s) in
        if hl > 2 ^ 16 - 1 then Inl (Err InvalidArgument)
        else
          and_then (SubpacketArea_serialize sig_serialize (sig_hashed s)) (\<lambda>hashed.
            if ul > 2 ^ 16 - 1 then Inl (Err InvalidArgument)
            else
              and_then (SubpacketArea_serialize sig_serialize (sig_unhashed s)) (\<lambda>unhashed.
                and_then (Signature_serialize (sig_mpis s)) (\<lambda>mpis.
                  Inr ([sig_version s, u8_from_SignatureType (sf_typ (fields s)),
                        u8_from_PublicKeyAlgorithm (sf_pk_algo (fields s)), u8_from_HashAlgorithm (sf_hash_algo (fields s))]
                       @ to_be_u16 (word_of_nat hl) @ hashed @ to_be_u16 (word_of_nat ul) @ unhashed
                       @ [fst (digest_prefix s), snd (digest_prefix s)] @ mpis)))))"

definition Signature4_net_len :: "('sig \<Rightarrow> nat) \<Rightarrow> 'sig Signature4 \<Rightarrow> nat" where
  "Signature4_net_len sig_len s =
     1 + 1 + 1 + 1 + 2 + SubpacketArea_serialized_len sig_len (sig_hashed s)
     + 2 + SubpacketArea_serialized_len sig_len (sig_unhashed s) + 2 + Signature_serialized_len (sig_mpis s)"

definition Signature6_serialize :: "('sig \<Rightarrow> bytes res) \<Rightarrow> ('sig \<Rightarrow> nat) \<Rightarrow> 'sig Signature6 \<Rightarrow> bytes res" where
  "Signature6_serialize sig_serialize sig_len sig =
     (let s = common sig in
      if sig_version s \<noteq> 6 then Inl Panic
      else
        let hl = SubpacketArea_serialized_len sig_len (sig_hashed s);
            ul = SubpacketArea_serialized_len sig_len (sig_unhashed s) in
        if hl > 2 ^ 32 - 1 then Inl (Err InvalidArgument)
        else
          and_then (SubpacketArea_serialize sig_serialize (sig_hashed s)) (\<lambda>hashed.
            if ul > 2 ^ 32 - 1 then Inl (Err InvalidArgument)
            else
              and_then (SubpacketArea_serialize sig_serialize (sig_unhashed s)) (\<lambda>unhashed.
                and_then (Signature_serialize (sig_mpis s)) (\<lambda>mpis.
                  Inr ([sig_version s, u8_from_SignatureType (sf_typ (fields s)),
                        u8_from_PublicKeyAlgorithm (sf_pk_algo (fields s)), u8_from_HashAlgorithm (sf_hash_algo (fields s))]
                       @ to_be_u32 (word_of_nat hl) @ hashed @ to_be_u32 (word_of_nat ul) @ unhashed
                       @ [fst (digest_prefix s), snd (digest_prefix s), word_of_nat (length (salt sig))] @ salt sig @ mpis)))))"

definition Signature6_net_len :: "('sig \<Rightarrow> nat) \<Rightarrow> 'sig Signature6 \<Rightarrow> nat" where
  "Signature6_net_len sig_len sig =
     (let s = common sig in
      1 + 1 + 1 + 1 + 4 + SubpacketArea_serialized_len sig_len (sig_hashed s)
      + 4 + SubpacketArea_serialized_len sig_len (sig_unhashed s) + 2 + 1 + length (salt sig)
      + Signature_serialized_len (sig_mpis s))"


section \<open>Signatures in signatures\<close>

text \<open>
  The operations use those of the embedded signatures on the signatures that are there, and the parser
  on fewer octets than it has.
\<close>

lemma value_cong:
  assumes "\<And>x. x \<in> set_SubpacketValue v \<Longrightarrow> f x = g x"
  shows "SubpacketValue_serialize f v = SubpacketValue_serialize g v"
  using assms by (cases v) (simp_all add: SubpacketValue_serialize_def)

lemma value_len_cong:
  assumes "\<And>x. x \<in> set_SubpacketValue v \<Longrightarrow> f x = g x"
  shows "SubpacketValue_serialized_len f v = SubpacketValue_serialized_len g v"
  using assms by (cases v) (simp_all add: SubpacketValue_serialized_len_def)

lemma set_Subpacket_value: "set_Subpacket p = set_SubpacketValue (sp_value p)"
  by (cases p) simp

lemma packet_cong:
  assumes "\<And>x. x \<in> set_Subpacket p \<Longrightarrow> f x = g x"
  shows "Subpacket_serialize f p = Subpacket_serialize g p"
  using value_cong [of "sp_value p" f g] assms by (simp add: Subpacket_serialize_def set_Subpacket_value)

lemma packet_len_cong:
  assumes "\<And>x. x \<in> set_Subpacket p \<Longrightarrow> f x = g x"
  shows "Subpacket_serialized_len f p = Subpacket_serialized_len g p"
  using value_len_cong [of "sp_value p" f g] assms by (simp add: Subpacket_serialized_len_def set_Subpacket_value)

lemma set_SubpacketArea_packets: "set_SubpacketArea a = (\<Union>p \<in> set (packets a). set_Subpacket p)"
  by (cases a) simp

lemma area_cong:
  assumes "\<And>x. x \<in> set_SubpacketArea a \<Longrightarrow> f x = g x"
  shows "SubpacketArea_serialize f a = SubpacketArea_serialize g a"
proof -
  have "\<forall>p \<in> set ps. Subpacket_serialize f p = Subpacket_serialize g p \<Longrightarrow> subpackets_serialize f ps = subpackets_serialize g ps" for ps
    by (induction ps) simp_all
  moreover have "\<forall>p \<in> set (packets a). Subpacket_serialize f p = Subpacket_serialize g p"
    using assms by (intro ballI packet_cong) (auto simp: set_SubpacketArea_packets)
  ultimately show ?thesis by (simp add: SubpacketArea_serialize_def)
qed

lemma area_len_cong:
  assumes "\<And>x. x \<in> set_SubpacketArea a \<Longrightarrow> f x = g x"
  shows "SubpacketArea_serialized_len f a = SubpacketArea_serialized_len g a"
proof -
  have "map (Subpacket_serialized_len f) (packets a) = map (Subpacket_serialized_len g) (packets a)"
    using assms by (intro map_cong packet_len_cong) (auto simp: set_SubpacketArea_packets)
  then show ?thesis by (simp only: SubpacketArea_serialized_len_def)
qed

lemma set_Signature4_areas: "set_Signature4 s = set_SubpacketArea (sig_hashed s) \<union> set_SubpacketArea (sig_unhashed s)"
  by (cases s rule: Signature4.exhaust; cases "fields s"; cases "sf_subpackets (fields s)") simp

lemma set_Signature6_common [simp]: "set_Signature6 s = set_Signature4 (common s)"
  by (cases s) simp

lemma areas_cong:
  assumes "\<And>x. x \<in> set_Signature4 s \<Longrightarrow> f x = f' x"
  shows "SubpacketArea_serialize f (sig_hashed s) = SubpacketArea_serialize f' (sig_hashed s)"
    "SubpacketArea_serialize f (sig_unhashed s) = SubpacketArea_serialize f' (sig_unhashed s)"
  using assms by (auto intro!: area_cong simp: set_Signature4_areas)

lemma areas_len_cong:
  assumes "\<And>x. x \<in> set_Signature4 s \<Longrightarrow> f x = f' x"
  shows "SubpacketArea_serialized_len f (sig_hashed s) = SubpacketArea_serialized_len f' (sig_hashed s)"
    "SubpacketArea_serialized_len f (sig_unhashed s) = SubpacketArea_serialized_len f' (sig_unhashed s)"
  using assms by (auto intro!: area_len_cong simp: set_Signature4_areas)

lemma Signature4_serialize_cong [fundef_cong]:
  assumes "s = s'" "\<And>x. x \<in> set_Signature4 s' \<Longrightarrow> f x = f' x" "\<And>x. x \<in> set_Signature4 s' \<Longrightarrow> g x = g' x"
  shows "Signature4_serialize f g s = Signature4_serialize f' g' s'"
  using areas_cong [of s' f f', OF assms(2)] areas_len_cong [of s' g g', OF assms(3)] assms(1)
  by (simp add: Signature4_serialize_def Let_def cong: if_cong)

lemma Signature6_serialize_cong [fundef_cong]:
  assumes "s = s'" "\<And>x. x \<in> set_Signature6 s' \<Longrightarrow> f x = f' x" "\<And>x. x \<in> set_Signature6 s' \<Longrightarrow> g x = g' x"
  shows "Signature6_serialize f g s = Signature6_serialize f' g' s'"
  using areas_cong [of "common s'" f f'] areas_len_cong [of "common s'" g g'] assms
  by (simp add: Signature6_serialize_def Let_def cong: if_cong)

lemma Signature4_net_len_cong [fundef_cong]:
  assumes "s = s'" "\<And>x. x \<in> set_Signature4 s' \<Longrightarrow> g x = g' x"
  shows "Signature4_net_len g s = Signature4_net_len g' s'"
  using areas_len_cong [of s' g g'] assms by (simp add: Signature4_net_len_def)

lemma Signature6_net_len_cong [fundef_cong]:
  assumes "s = s'" "\<And>x. x \<in> set_Signature6 s' \<Longrightarrow> g x = g' x"
  shows "Signature6_net_len g s = Signature6_net_len g' s'"
  using areas_len_cong [of "common s'" g g'] assms by (simp add: Signature6_net_len_def Let_def)

lemma size_value: "x \<in> set_SubpacketValue v \<Longrightarrow> f x \<le> size_SubpacketValue f v"
  by (cases v) auto

lemma size_packet: "x \<in> set_Subpacket p \<Longrightarrow> f x \<le> size_Subpacket f p"
  using size_value [of x "sp_value p" f] by (cases p) auto

lemma size_area: "x \<in> set_SubpacketArea a \<Longrightarrow> f x \<le> size_SubpacketArea f a"
  using size_packet [of x _ f] by (cases a) (auto intro: le_SucI trans_le_add1 order_trans [OF _ size_list_estimation'])

lemma size_signature4:
  assumes "x \<in> set_Signature4 s"
  shows "f x \<le> size_Signature4 f s"
proof -
  have "f x \<le> size_SubpacketArea f (sig_hashed s) + size_SubpacketArea f (sig_unhashed s)"
    using assms size_area [of x "sig_hashed s" f] size_area [of x "sig_unhashed s" f] by (auto simp: set_Signature4_areas)
  then show ?thesis
    by (cases s rule: Signature4.exhaust; cases "fields s"; cases "sf_subpackets (fields s)") auto
qed

lemma size_signature6: "x \<in> set_Signature4 (common s) \<Longrightarrow> f x \<le> size_Signature6 f s"
  using size_signature4 [of x "common s" f] by (cases s) simp

lemma embedded_smaller [termination_simp]:
  "x \<in> set_Signature4 s \<Longrightarrow> size x < Suc (size_Signature4 size s)"
  "x \<in> set_Signature4 (common s6) \<Longrightarrow> size x < Suc (size_Signature6 size s6)"
  by (simp_all add: less_Suc_eq_le size_signature4 size_signature6)

fun SignaturePacket_serialized_len :: "SignaturePacket \<Rightarrow> nat" where
  "SignaturePacket_serialized_len (V3 s) = Signature3_net_len s"
| "SignaturePacket_serialized_len (V4 s) = Signature4_net_len SignaturePacket_serialized_len s"
| "SignaturePacket_serialized_len (V6 s) = Signature6_net_len SignaturePacket_serialized_len s"

fun SignaturePacket_serialize :: "SignaturePacket \<Rightarrow> bytes res" where
  "SignaturePacket_serialize (V3 s) = Signature3_serialize s"
| "SignaturePacket_serialize (V4 s) = Signature4_serialize SignaturePacket_serialize SignaturePacket_serialized_len s"
| "SignaturePacket_serialize (V6 s) = Signature6_serialize SignaturePacket_serialize SignaturePacket_serialized_len s"

lemma SubpacketValue_parse_cong:
  assumes "\<And>v. length v \<le> length bs \<Longrightarrow> f v = g v"
  shows "SubpacketValue_parse ds f h tag len bs = SubpacketValue_parse ds g h tag len bs"
proof -
  have "and_then (parse_bytes len bs) (\<lambda>(v, bs). and_then (f v) (k bs)) = and_then (parse_bytes len bs) (\<lambda>(v, bs). and_then (g v) (k bs))"
    for k :: "bytes \<Rightarrow> 'a \<Rightarrow> ('a SubpacketValue \<times> bytes) res"
    using assms by (auto simp: parse_bytes_eq_Inr intro!: and_then_cong)
  then show ?thesis by (cases tag) (simp_all add: SubpacketValue_parse_def)
qed

lemma SubpacketLength_parse_shorter: "SubpacketLength_parse bs = Inr (l, rest) \<Longrightarrow> length rest < length bs"
  by (auto simp: SubpacketLength_parse_def Let_def result_simps read_u8_eq_Inr read_be_u32_eq_Inr split: if_splits)

lemma Subpacket_parse_cong:
  assumes "\<And>v. length v < length bs \<Longrightarrow> f v = g v"
  shows "Subpacket_parse ds f limit h bs = Subpacket_parse ds g limit h bs"
  unfolding Subpacket_parse_def Let_def
  using assms
  by (auto intro!: and_then_cong SubpacketValue_parse_cong dest!: SubpacketLength_parse_shorter simp: parse_u8_eq_Inr
      split: prod.splits)

lemma Subpacket_parse_shorter: "Subpacket_parse ds f limit h bs = Inr (p, rest) \<Longrightarrow> length rest < length bs"
  by (auto simp: Subpacket_parse_def Let_def result_simps parse_u8_eq_Inr split: if_splits dest!: SubpacketLength_parse_shorter)

lemma subpackets_parse_cong:
  assumes "\<And>v. length v < length bs \<Longrightarrow> f v = g v"
  shows "subpackets_parse ds f limit h bs = subpackets_parse ds g limit h bs"
  using assms
proof (induction ds f limit h bs rule: subpackets_parse.induct)
  case (1 ds f limit h bs)
  have "Subpacket_parse ds f limit h bs = Subpacket_parse ds g limit h bs" using 1(2) by (rule Subpacket_parse_cong)
  moreover have "subpackets_parse ds f (limit - (SubpacketLength_len (sp_length p) + SubpacketLength_serialized_len (sp_length p))) h bs'
      = subpackets_parse ds g (limit - (SubpacketLength_len (sp_length p) + SubpacketLength_serialized_len (sp_length p))) h bs'"
    if "Subpacket_parse ds g limit h bs = Inr (p, bs')" "0 < limit" for p bs'
  proof -
    have p: "Subpacket_parse ds f limit h bs = Inr (p, bs')" using that calculation by simp
    show ?thesis
      using 1(1) [OF that(2) p refl refl] Subpacket_parse_progress [OF p] Subpacket_parse_shorter [OF p] 1(2) by simp
  qed
  ultimately show ?case
    by (subst (1 2) subpackets_parse.simps) (auto simp: Let_def intro!: and_then_cong arg_cong [where f = "\<lambda>x. and_then x _"])
qed

lemma SubpacketArea_parse_cong:
  assumes "\<And>v. length v < length bs \<Longrightarrow> f v = g v"
  shows "SubpacketArea_parse ds f limit h bs = SubpacketArea_parse ds g limit h bs"
  using subpackets_parse_cong [OF assms, where ds = ds and limit = limit and h = h] by (simp add: SubpacketArea_parse_def)

lemma subpackets_parse_shorter: "subpackets_parse ds f limit h bs = Inr (ps, rest) \<Longrightarrow> length rest \<le> length bs"
proof (induction ds f limit h bs arbitrary: ps rest rule: subpackets_parse.induct)
  case (1 ds f limit h bs)
  show ?case
    using 1(2)
    by (subst (asm) subpackets_parse.simps)
      (force simp: Let_def result_simps split: if_splits dest: 1(1) Subpacket_parse_shorter)
qed

lemma SubpacketArea_parse_shorter: "SubpacketArea_parse ds f limit h bs = Inr (a, rest) \<Longrightarrow> length rest \<le> length bs"
  by (auto simp: SubpacketArea_parse_def SubpacketArea_new_def result_simps dest: subpackets_parse_shorter)

lemma Signature4_parse_cong:
  assumes "\<And>v. length v < length bs \<Longrightarrow> f v = g v"
  shows "Signature4_parse ds f bs = Signature4_parse ds g bs"
  unfolding Signature4_parse_def using assms
  by (auto intro!: and_then_cong SubpacketArea_parse_cong dest!: SubpacketArea_parse_shorter
      simp: parse_u8_eq_Inr read_be_u16_eq_Inr split: prod.splits)

lemma Signature6_parse_cong:
  assumes "\<And>v. length v < length bs \<Longrightarrow> f v = g v"
  shows "Signature6_parse ds f bs = Signature6_parse ds g bs"
  unfolding Signature6_parse_def using assms
  by (auto intro!: and_then_cong SubpacketArea_parse_cong dest!: SubpacketArea_parse_shorter
      simp: parse_u8_eq_Inr read_be_u32_eq_Inr split: prod.splits)

lemma SignaturePacket_parse_cong [fundef_cong]:
  assumes "bs = bs'" "\<And>v. length v < length bs' \<Longrightarrow> f v = g v"
  shows "SignaturePacket_parse ds sig_len f bs = SignaturePacket_parse ds sig_len g bs'"
  unfolding SignaturePacket_parse_def assms(1) using assms(2)
  by (auto intro!: and_then_cong arg_cong [where f = "\<lambda>x. and_then x _"] Signature4_parse_cong Signature6_parse_cong
      simp: parse_u8_eq_Inr split: prod.splits)

function SignaturePacket_from_bytes :: "(HashAlgorithm \<Rightarrow> nat option) \<Rightarrow> bytes \<Rightarrow> SignaturePacket res" where
  "SignaturePacket_from_bytes ds bs =
     and_then (SignaturePacket_parse ds SignaturePacket_serialized_len (SignaturePacket_from_bytes ds) bs) (\<lambda>(s, rest).
       if rest \<noteq> [] then Inl (Err MalformedPacket) else Inr s)"
  by pat_completeness auto
termination
  by (relation "measure (\<lambda>(_, bs). length bs)") auto

declare SignaturePacket_from_bytes.simps [simp del]

end
