(* ===== verification/SignatureCodec.thy ===== *)
theory SignatureCodec
  imports Signatures
begin

text \<open>
  Reading and writing signature packets are inverse to each other, embedded signatures included.
\<close>

section \<open>Signatures as the parser makes them\<close>

definition SubpacketArea_ok ::
    "(HashAlgorithm \<Rightarrow> nat option) \<Rightarrow> ('sig \<Rightarrow> nat) \<Rightarrow> ('sig \<Rightarrow> bool) \<Rightarrow> HashAlgorithm \<Rightarrow> 'sig SubpacketArea \<Rightarrow> bool" where
  "SubpacketArea_ok ds sig_len sig_ok h a \<longleftrightarrow> parsed a = None \<and> list_all (Subpacket_ok ds sig_len sig_ok h) (packets a)"

definition Signature_fields_ok :: "u8 \<Rightarrow> 'sig Signature4 \<Rightarrow> bool" where
  "Signature_fields_ok version s \<longleftrightarrow>
     sig_version s = version \<and> SignatureType_canonical (sf_typ (fields s))
     \<and> PublicKeyAlgorithm_canonical (sf_pk_algo (fields s)) \<and> for_signing (sf_pk_algo (fields s))
     \<and> HashAlgorithm_canonical (sf_hash_algo (fields s))
     \<and> Signature_wf (sig_mpis s) \<and> Signature_fits (sf_pk_algo (fields s)) (sig_mpis s)
     \<and> computed_digest s = None \<and> level s = 0 \<and> additional_issuers s = None"

definition Signature4_ok ::
    "(HashAlgorithm \<Rightarrow> nat option) \<Rightarrow> ('sig \<Rightarrow> nat) \<Rightarrow> ('sig \<Rightarrow> bool) \<Rightarrow> u8 \<Rightarrow> 'sig Signature4 \<Rightarrow> bool" where
  "Signature4_ok ds sig_len sig_ok version s \<longleftrightarrow>
     Signature_fields_ok version s
     \<and> SubpacketArea_ok ds sig_len sig_ok (sf_hash_algo (fields s)) (sig_hashed s)
     \<and> SubpacketArea_ok ds sig_len sig_ok (sf_hash_algo (fields s)) (sig_unhashed s)"

definition Signature3_ok :: "'sig Signature3 \<Rightarrow> bool" where
  "Signature3_ok sig \<longleftrightarrow>
     Signature_fields_ok 3 (intern sig)
     \<and> (\<exists>t b. length b = 8
         \<and> sig_hashed (intern sig) =
             SubpacketArea [with_length (SubpacketLength_from_u32 5) (SubpacketValue.SignatureCreationTime t) True] None
         \<and> sig_unhashed (intern sig) =
             SubpacketArea [with_length (SubpacketLength_from_u32 9) (SubpacketValue.Issuer (KeyID.Long b)) False] None)"

lemma Signature_fields_ok_eq:
  "Signature_fields_ok v s \<Longrightarrow>
    Signature4 (SignatureFields v (sf_typ (fields s)) (sf_pk_algo (fields s)) (sf_hash_algo (fields s))
      (SubpacketAreas (sig_hashed s) (sig_unhashed s))) (digest_prefix s) (sig_mpis s) None 0 None = s"
  by (cases s rule: Signature4.exhaust; cases "fields s"; cases "sf_subpackets (fields s)")
    (simp add: Signature_fields_ok_def sig_version_def)

lemma value_ok_cong:
  assumes "\<And>x. x \<in> set_SubpacketValue v \<Longrightarrow> f x = g x"
  shows "SubpacketValue_ok ds f h v = SubpacketValue_ok ds g h v"
  using assms by (cases v) (simp_all add: SubpacketValue_ok_def)

lemma area_ok_cong:
  assumes "\<And>x. x \<in> set_SubpacketArea a \<Longrightarrow> f x = g x"
  shows "SubpacketArea_ok ds sig_len f h a = SubpacketArea_ok ds sig_len g h a"
proof -
  have "SubpacketValue_ok ds f h (sp_value p) = SubpacketValue_ok ds g h (sp_value p)" if "p \<in> set (packets a)" for p
    using assms that by (intro value_ok_cong) (auto simp: set_SubpacketArea_packets set_Subpacket_value)
  then show ?thesis by (auto simp: SubpacketArea_ok_def Subpacket_ok_def list_all_iff)
qed

lemma Signature4_ok_cong [fundef_cong]:
  assumes "s = s'" "\<And>x. x \<in> set_Signature4 s' \<Longrightarrow> f x = g x"
  shows "Signature4_ok ds sig_len f v s = Signature4_ok ds sig_len g v s'"
  using assms area_ok_cong [of _ f g] by (simp add: Signature4_ok_def set_Signature4_areas)

lemma embedded_smaller_common [termination_simp]:
  "x \<in> set_Signature4 (common s) \<Longrightarrow> size x < size_Signature6 size s"
  using size_signature4 [of x "common s" size] by (cases s) simp

fun SignaturePacket_ok :: "(HashAlgorithm \<Rightarrow> nat option) \<Rightarrow> SignaturePacket \<Rightarrow> bool" where
  "SignaturePacket_ok ds (V3 s) = Signature3_ok s"
| "SignaturePacket_ok ds (V4 s) = Signature4_ok ds SignaturePacket_serialized_len (SignaturePacket_ok ds) 4 s"
| "SignaturePacket_ok ds (V6 s) =
     (Signature4_ok ds SignaturePacket_serialized_len (SignaturePacket_ok ds) 6 (common s) \<and> length (salt s) < 256)"

text \<open>A reader took exactly what the writer, if it does not refuse, writes.\<close>

definition reads_back :: "bytes res \<Rightarrow> bytes \<Rightarrow> bytes \<Rightarrow> bool" where
  "reads_back w bs rest = (case w of Inr c \<Rightarrow> bs = c @ rest | Inl e \<Rightarrow> e = Err InvalidArgument)"

context embedded_signature
begin

lemma Subpacket_parse_reads_back:
  assumes "Subpacket_parse ds sig_from_bytes limit h bs = Inr (p, rest)" "length bs \<le> bound"
  shows "reads_back (Subpacket_serialize sig_serialize p) bs rest"
  using Subpacket_parse_exact [OF assms] by (simp add: reads_back_def)

lemma subpackets_parse_exact:
  assumes "subpackets_parse ds sig_from_bytes limit h bs = Inr (ps, rest)" "length bs \<le> bound"
  shows "list_all (Subpacket_ok ds sig_serialized_len sig_ok h) ps
    \<and> sum_list (map (Subpacket_serialized_len sig_serialized_len) ps) = limit
    \<and> length bs = limit + length rest
    \<and> reads_back (subpackets_serialize sig_serialize ps) bs rest"
  using assms
proof (induction limit arbitrary: bs ps rest rule: less_induct)
  case (less limit)
  show ?case
  proof (cases "limit = 0")
    case True
    then show ?thesis using less.prems by (simp add: subpackets_parse.simps reads_back_def)
  next
    case False
    define size_of where "size_of p = SubpacketLength_len (sp_length p) + SubpacketLength_serialized_len (sp_length p)"
      for p :: "'sig Subpacket"
    obtain p bs1 qs where p: "Subpacket_parse ds sig_from_bytes limit h bs = Inr (p, bs1)" "size_of p \<le> limit"
        "subpackets_parse ds sig_from_bytes (limit - size_of p) h bs1 = Inr (qs, rest)" "ps = p # qs"
      using less.prems(1) False
      by (subst (asm) subpackets_parse.simps) (auto simp: Let_def result_simps size_of_def split: if_splits)
    note ex = Subpacket_parse_exact [OF p(1) less.prems(2)]
    have sz: "size_of p = Subpacket_serialized_len sig_serialized_len p"
      using ex by (simp add: size_of_def Subpacket_ok_def Subpacket_serialized_len_def)
    have "limit - size_of p < limit" using Subpacket_parse_progress [OF p(1)] False by (simp add: size_of_def)
    moreover have "length bs1 \<le> bound" using ex less.prems(2) by simp
    ultimately have rec: "list_all (Subpacket_ok ds sig_serialized_len sig_ok h) qs
        \<and> sum_list (map (Subpacket_serialized_len sig_serialized_len) qs) = limit - size_of p
        \<and> length bs1 = limit - size_of p + length rest \<and> reads_back (subpackets_serialize sig_serialize qs) bs1 rest"
      using less.IH p(3) by blast
    show ?thesis
      using ex rec sz p(2,4) Subpacket_parse_reads_back [OF p(1) less.prems(2)]
      by (auto simp: reads_back_def result_simps split: sum.splits)
  qed
qed

lemma subpackets_written:
  assumes "list_all (Subpacket_ok ds sig_serialized_len sig_ok h) ps"
    and "subpackets_serialize sig_serialize ps = Inr c" "length c \<le> bound"
  shows "length c = sum_list (map (Subpacket_serialized_len sig_serialized_len) ps)
    \<and> subpackets_parse ds sig_from_bytes (length c) h (c @ rest) = Inr (ps, rest)"
  using assms
proof (induction ps arbitrary: c)
  case Nil
  then show ?case by (simp add: subpackets_parse.simps)
next
  case (Cons p ps)
  then obtain b d where c: "Subpacket_serialize sig_serialize p = Inr b" "subpackets_serialize sig_serialize ps = Inr d" "c = b @ d"
    by (auto simp: result_simps)
  have ok: "Subpacket_ok ds sig_serialized_len sig_ok h p" using Cons.prems(1) by simp
  have b: "length b = Subpacket_serialized_len sig_serialized_len p"
      "length b \<le> limit \<longrightarrow> Subpacket_parse ds sig_from_bytes limit h (b @ rest) = Inr (p, rest)" for limit rest
    using Subpacket_written [OF ok c(1)] Cons.prems(3) c(3) by auto
  have "SubpacketLength_len (sp_length p) + SubpacketLength_serialized_len (sp_length p) = length b" "0 < length b"
    using ok b(1) by (simp_all add: Subpacket_ok_def Subpacket_serialized_len_def)
  moreover have "length d = sum_list (map (Subpacket_serialized_len sig_serialized_len) ps)
      \<and> subpackets_parse ds sig_from_bytes (length d) h (d @ rest) = Inr (ps, rest)"
    using Cons.IH [OF _ c(2)] Cons.prems c(3) by auto
  ultimately show ?case
    using b by (elim conjE, subst subpackets_parse.simps) (simp add: c(3))
qed

lemma area_parse_exact:
  assumes "SubpacketArea_parse ds sig_from_bytes limit h bs = Inr (a, rest)" "length bs \<le> bound"
  shows "SubpacketArea_ok ds sig_serialized_len sig_ok h a \<and> SubpacketArea_serialized_len sig_serialized_len a = limit
    \<and> length bs = limit + length rest \<and> reads_back (SubpacketArea_serialize sig_serialize a) bs rest"
proof -
  obtain ps where "a = SubpacketArea ps None" "subpackets_parse ds sig_from_bytes limit h bs = Inr (ps, rest)"
    using assms(1) by (auto simp: SubpacketArea_parse_def SubpacketArea_new_def result_simps)
  then show ?thesis
    using subpackets_parse_exact [OF _ assms(2)]
    by (simp add: SubpacketArea_ok_def SubpacketArea_serialized_len_def SubpacketArea_serialize_def)
qed

lemma area_written:
  assumes "SubpacketArea_ok ds sig_serialized_len sig_ok h a" "SubpacketArea_serialize sig_serialize a = Inr c" "length c \<le> bound"
  shows "length c = SubpacketArea_serialized_len sig_serialized_len a
    \<and> SubpacketArea_parse ds sig_from_bytes (length c) h (c @ rest) = Inr (a, rest)"
  using assms subpackets_written [of ds h "packets a" c rest]
  by (cases a) (auto simp: SubpacketArea_ok_def SubpacketArea_serialized_len_def SubpacketArea_serialize_def SubpacketArea_parse_def
      SubpacketArea_new_def)

lemma Signature4_parse_exact:
  assumes "Signature4_parse ds sig_from_bytes bs = Inr (s, rest)" "length bs \<le> bound"
  shows "Signature4_ok ds sig_serialized_len sig_ok 4 s \<and> Signature4_net_len sig_serialized_len s + length rest = 1 + length bs
    \<and> reads_back (Signature4_serialize sig_serialize sig_serialized_len s) (4 # bs) rest"
proof -
  obtain ty pk h hl ul d1 d2 hashed unhashed m bs1 bs2 bs3 where
    b: "bs = [ty, pk, h] @ to_be_u16 hl @ bs1" and
    ha: "SubpacketArea_parse ds sig_from_bytes (unat hl) (HashAlgorithm_from_u8 h) bs1 = Inr (hashed, to_be_u16 ul @ bs2)" and
    ua: "SubpacketArea_parse ds sig_from_bytes (unat ul) (HashAlgorithm_from_u8 h) bs2 = Inr (unhashed, [d1, d2] @ bs3)" and
    m: "for_signing (PublicKeyAlgorithm_from_u8 pk)" "Signature_parse (PublicKeyAlgorithm_from_u8 pk) bs3 = Inr (m, rest)" and
    s: "s = Signature4_new (SignatureType_from_u8 ty) (PublicKeyAlgorithm_from_u8 pk) (HashAlgorithm_from_u8 h)
        hashed unhashed (d1, d2) m"
    using assms(1)
    by (auto simp: Signature4_parse_def result_simps field_inverts read_be_u16_eq_Inr split: if_splits)
  have h: "SubpacketArea_ok ds sig_serialized_len sig_ok (HashAlgorithm_from_u8 h) hashed"
      "SubpacketArea_serialized_len sig_serialized_len hashed = unat hl" "length bs1 = unat hl + 2 + length bs2"
      "reads_back (SubpacketArea_serialize sig_serialize hashed) bs1 (to_be_u16 ul @ bs2)"
    using area_parse_exact [OF ha] assms(2) b by auto
  have u: "SubpacketArea_ok ds sig_serialized_len sig_ok (HashAlgorithm_from_u8 h) unhashed"
      "SubpacketArea_serialized_len sig_serialized_len unhashed = unat ul" "length bs2 = unat ul + 2 + length bs3"
      "reads_back (SubpacketArea_serialize sig_serialize unhashed) bs2 ([d1, d2] @ bs3)"
    using area_parse_exact [OF ua] assms(2) b h(3) by auto
  obtain c where c: "Signature_wf m" "Signature_fits (PublicKeyAlgorithm_from_u8 pk) m" "Signature_serialize m = Inr c"
      "length c = Signature_serialized_len m" "bs3 = c @ rest"
    using Signature_parse_exact [OF m(2)] by blast
  have "unat hl \<le> 65535" "unat ul \<le> 65535" using unat_less_2p [of hl] unat_less_2p [of ul] by simp_all
  then show ?thesis
    using b h u c m(1)
    by (auto simp: s Signature4_new_def SubpacketAreas_new_def Signature4_ok_def Signature_fields_ok_def sig_version_def
        Signature4_net_len_def Signature4_serialize_def reads_back_def Let_def result_simps sig_type.to_of sig_type.canonical_of
        wire_octets split: sum.splits)
qed

lemma Signature6_parse_exact:
  assumes "Signature6_parse ds sig_from_bytes bs = Inr (s, rest)" "length bs \<le> bound"
  shows "Signature4_ok ds sig_serialized_len sig_ok 6 (common s) \<and> length (salt s) < 256
    \<and> Signature6_net_len sig_serialized_len s + length rest = 1 + length bs
    \<and> reads_back (Signature6_serialize sig_serialize sig_serialized_len s) (6 # bs) rest"
proof -
  obtain ty pk h hl ul d1 d2 sl sa hashed unhashed m bs1 bs2 bs3 where
    b: "bs = [ty, pk, h] @ to_be_u32 hl @ bs1" and
    ha: "SubpacketArea_parse ds sig_from_bytes (unat hl) (HashAlgorithm_from_u8 h) bs1 = Inr (hashed, to_be_u32 ul @ bs2)" and
    ua: "SubpacketArea_parse ds sig_from_bytes (unat ul) (HashAlgorithm_from_u8 h) bs2 = Inr (unhashed, [d1, d2, sl] @ sa @ bs3)" and
    m: "for_signing (PublicKeyAlgorithm_from_u8 pk)" "Signature_parse (PublicKeyAlgorithm_from_u8 pk) bs3 = Inr (m, rest)" and
    sa: "length sa = unat sl" and
    s: "Signature6_new (SignatureType_from_u8 ty) (PublicKeyAlgorithm_from_u8 pk) (HashAlgorithm_from_u8 h)
        hashed unhashed (d1, d2) sa m = Inr s"
    using assms(1)
    by (auto simp: Signature6_parse_def result_simps field_inverts read_be_u32_eq_Inr split: if_splits)
  have h: "SubpacketArea_ok ds sig_serialized_len sig_ok (HashAlgorithm_from_u8 h) hashed"
      "SubpacketArea_serialized_len sig_serialized_len hashed = unat hl" "length bs1 = unat hl + 4 + length bs2"
      "reads_back (SubpacketArea_serialize sig_serialize hashed) bs1 (to_be_u32 ul @ bs2)"
    using area_parse_exact [OF ha] assms(2) b by auto
  have u: "SubpacketArea_ok ds sig_serialized_len sig_ok (HashAlgorithm_from_u8 h) unhashed"
      "SubpacketArea_serialized_len sig_serialized_len unhashed = unat ul" "length bs2 = unat ul + 3 + length sa + length bs3"
      "reads_back (SubpacketArea_serialize sig_serialize unhashed) bs2 ([d1, d2, sl] @ sa @ bs3)"
    using area_parse_exact [OF ua] assms(2) b h(3) by auto
  obtain c where c: "Signature_wf m" "Signature_fits (PublicKeyAlgorithm_from_u8 pk) m" "Signature_serialize m = Inr c"
      "length c = Signature_serialized_len m" "bs3 = c @ rest"
    using Signature_parse_exact [OF m(2)] by blast
  have "unat hl \<le> 4294967295" "unat ul \<le> 4294967295" using unat_less_2p [of hl] unat_less_2p [of ul] by simp_all
  moreover have s6: "s = Signature6 (Signature4 (SignatureFields 6 (SignatureType_from_u8 ty) (PublicKeyAlgorithm_from_u8 pk)
      (HashAlgorithm_from_u8 h) (SubpacketAreas hashed unhashed)) (d1, d2) m None 0 None) sa"
    using s by (simp add: Signature6_new_def Signature6_from_common_def set_version_def Signature4_new_def SubpacketAreas_new_def)
  moreover have "word_of_nat (length sa) = sl" "length sa < 256" using sa unat_u8_less [of sl] by (simp_all del: unat_u8_less)
  ultimately show ?thesis
    using b h u c m(1) unfolding s6
    by (auto simp: Signature4_ok_def Signature_fields_ok_def sig_version_def Signature6_net_len_def Signature6_serialize_def
        reads_back_def Let_def result_simps sig_type.to_of sig_type.canonical_of wire_octets split: sum.splits)
qed

lemma Signature4_written:
  assumes "Signature4_ok ds sig_serialized_len sig_ok 4 s"
    and "Signature4_serialize sig_serialize sig_serialized_len s = Inr c" "length c \<le> bound"
  shows "Signature4_net_len sig_serialized_len s = length c
    \<and> (\<exists>bs. c = 4 # bs \<and> Signature4_parse ds sig_from_bytes bs = Inr (s, []))"
proof -
  let ?h = "SubpacketArea_serialized_len sig_serialized_len (sig_hashed s)"
    and ?u = "SubpacketArea_serialized_len sig_serialized_len (sig_unhashed s)" and ?f = "fields s"
  note ok = assms(1) [unfolded Signature4_ok_def Signature_fields_ok_def]
  obtain h u m where c: "SubpacketArea_serialize sig_serialize (sig_hashed s) = Inr h" "?h \<le> 65535"
      "SubpacketArea_serialize sig_serialize (sig_unhashed s) = Inr u" "?u \<le> 65535" "Signature_serialize (sig_mpis s) = Inr m"
      "c = 4 # [u8_from_SignatureType (sf_typ ?f), u8_from_PublicKeyAlgorithm (sf_pk_algo ?f), u8_from_HashAlgorithm (sf_hash_algo ?f)]
         @ to_be_u16 (word_of_nat ?h) @ h @ to_be_u16 (word_of_nat ?u) @ u @ [fst (digest_prefix s), snd (digest_prefix s)] @ m"
    using assms(2) ok by (auto simp: Signature4_serialize_def Let_def result_simps not_less split: if_splits)
  have h: "length h = ?h" "SubpacketArea_parse ds sig_from_bytes ?h (sf_hash_algo ?f) (h @ rest) = Inr (sig_hashed s, rest)" for rest
    using area_written [OF _ c(1)] ok assms(3) c(6) by fastforce+
  have u: "length u = ?u" "SubpacketArea_parse ds sig_from_bytes ?u (sf_hash_algo ?f) (u @ rest) = Inr (sig_unhashed s, rest)" for rest
    using area_written [OF _ c(3)] ok assms(3) c(6) by fastforce+
  have m: "Signature_parse (sf_pk_algo ?f) m = Inr (sig_mpis s, [])"
    using Signature_serialize_parse [of "sig_mpis s" "sf_pk_algo ?f" "[]"] ok c(5) by auto
  have "Signature4_new (sf_typ ?f) (sf_pk_algo ?f) (sf_hash_algo ?f) (sig_hashed s) (sig_unhashed s) (digest_prefix s) (sig_mpis s) = s"
    using Signature_fields_ok_eq [of 4 s] assms(1) by (simp add: Signature4_ok_def Signature4_new_def SubpacketAreas_new_def)
  moreover have "unat (word_of_nat ?h :: u16) = ?h" "unat (word_of_nat ?u :: u16) = ?u" using c(2,4) by (simp_all add: unat_word_of_nat_less)
  moreover have "length m = Signature_serialized_len (sig_mpis s)" using Signature_parse_exact [OF m] c(5) by auto
  ultimately show ?thesis
    using ok c(6) h u m
    by (simp add: Signature4_net_len_def Signature4_parse_def parse_u8_def sig_type.of_to pk_algo.of_to hash_algo.of_to)
qed

lemma Signature6_written:
  assumes "Signature4_ok ds sig_serialized_len sig_ok 6 (common sig)" "length (salt sig) < 256"
    and "Signature6_serialize sig_serialize sig_serialized_len sig = Inr c" "length c \<le> bound"
  shows "Signature6_net_len sig_serialized_len sig = length c
    \<and> (\<exists>bs. c = 6 # bs \<and> Signature6_parse ds sig_from_bytes bs = Inr (sig, []))"
proof -
  define s where "s = common sig"
  let ?h = "SubpacketArea_serialized_len sig_serialized_len (sig_hashed s)"
    and ?u = "SubpacketArea_serialized_len sig_serialized_len (sig_unhashed s)" and ?f = "fields s"
  note ok = assms(1) [folded s_def, unfolded Signature4_ok_def Signature_fields_ok_def]
  obtain h u m where c: "SubpacketArea_serialize sig_serialize (sig_hashed s) = Inr h" "?h \<le> 4294967295"
      "SubpacketArea_serialize sig_serialize (sig_unhashed s) = Inr u" "?u \<le> 4294967295" "Signature_serialize (sig_mpis s) = Inr m"
      "c = 6 # [u8_from_SignatureType (sf_typ ?f), u8_from_PublicKeyAlgorithm (sf_pk_algo ?f), u8_from_HashAlgorithm (sf_hash_algo ?f)]
         @ to_be_u32 (word_of_nat ?h) @ h @ to_be_u32 (word_of_nat ?u) @ u
         @ [fst (digest_prefix s), snd (digest_prefix s), word_of_nat (length (salt sig))] @ salt sig @ m"
    using assms(3) ok by (auto simp: Signature6_serialize_def Let_def result_simps not_less s_def split: if_splits)
  have h: "length h = ?h" "SubpacketArea_parse ds sig_from_bytes ?h (sf_hash_algo ?f) (h @ rest) = Inr (sig_hashed s, rest)" for rest
    using area_written [OF _ c(1)] ok assms(4) c(6) by fastforce+
  have u: "length u = ?u" "SubpacketArea_parse ds sig_from_bytes ?u (sf_hash_algo ?f) (u @ rest) = Inr (sig_unhashed s, rest)" for rest
    using area_written [OF _ c(3)] ok assms(4) c(6) by fastforce+
  have m: "Signature_parse (sf_pk_algo ?f) m = Inr (sig_mpis s, [])"
    using Signature_serialize_parse [of "sig_mpis s" "sf_pk_algo ?f" "[]"] ok c(5) by auto
  have "Signature6_new (sf_typ ?f) (sf_pk_algo ?f) (sf_hash_algo ?f) (sig_hashed s) (sig_unhashed s) (digest_prefix s) (salt sig)
      (sig_mpis s) = Inr sig"
    using Signature_fields_ok_eq [of 6 s] assms(1)
    by (cases sig) (simp add: s_def Signature4_ok_def Signature6_new_def Signature6_from_common_def set_version_def
        Signature4_new_def SubpacketAreas_new_def)
  moreover have "unat (word_of_nat ?h :: u32) = ?h" "unat (word_of_nat ?u :: u32) = ?u" using c(2,4) by (simp_all add: unat_word_of_nat_less)
  moreover have "length m = Signature_serialized_len (sig_mpis s)" using Signature_parse_exact [OF m] c(5) by auto
  moreover have "unat (word_of_nat (length (salt sig)) :: u8) = length (salt sig)" using assms(2) by (simp add: unat_word_of_nat_u8)
  ultimately show ?thesis
    using ok c(6) h u m
    by (simp add: Signature6_net_len_def Signature6_parse_def parse_u8_def parse_bytes_def s_def [symmetric] sig_type.of_to
        pk_algo.of_to hash_algo.of_to)
qed

end

lemma Signature3_new_eq:
  assumes "length b = 8"
  shows "Signature3_new sig_len typ t (KeyID.Long b) pk h prefix m =
    Inr (Signature3 (Signature4 (SignatureFields 3 typ pk h
      (SubpacketAreas (SubpacketArea [with_length (SubpacketLength_from_u32 5) (SubpacketValue.SignatureCreationTime t) True] None)
        (SubpacketArea [with_length (SubpacketLength_from_u32 9) (SubpacketValue.Issuer (KeyID.Long b)) False] None)))
      prefix m None 0 None))"
  using assms
  by (simp add: Signature3_new_def Subpacket_new_def unwrap_def SubpacketArea_new_def SubpacketValue_serialized_len_def
      KeyID_as_bytes_def set_version_def Signature4_new_def SubpacketAreas_new_def)

lemma area_single:
  "SubpacketTag_canonical tag \<Longrightarrow> Subpacket_tag p = tag \<Longrightarrow>
     fst (SubpacketArea_subpacket (SubpacketArea [p] None) tag) = Inr (Some p)"
  using SubpacketArea_subpacket_last [of "SubpacketArea [p] None" tag] by (simp add: cache_ok_def find_last_def)

lemmas v3_lookup = area_single SubpacketTag_canonical_def Subpacket_tag_def SubpacketValue_tag_def with_length_def

lemma Signature3_parse_exact:
  assumes "Signature3_parse sig_len bs = Inr (s, rest)"
  shows "Signature3_ok s \<and> Signature3_net_len s + length rest = 1 + length bs
    \<and> reads_back (Signature3_serialize s) (3 # bs) rest"
proof -
  obtain ty t i pk h d1 d2 m bs1 where
    b: "bs = [5, ty] @ to_be_u32 t @ i @ [pk, h, d1, d2] @ bs1" "length i = 8" and
    m: "for_signing (PublicKeyAlgorithm_from_u8 pk)" "Signature_parse (PublicKeyAlgorithm_from_u8 pk) bs1 = Inr (m, rest)" and
    s: "Signature3_new sig_len (SignatureType_from_u8 ty) t (KeyID_from_bytes i) (PublicKeyAlgorithm_from_u8 pk)
      (HashAlgorithm_from_u8 h) (d1, d2) m = Inr s"
    using assms by (auto simp: Signature3_parse_def result_simps field_inverts read_be_u32_eq_Inr split: if_splits)
  obtain c where c: "Signature_wf m" "Signature_fits (PublicKeyAlgorithm_from_u8 pk) m" "Signature_serialize m = Inr c"
      "length c = Signature_serialized_len m" "bs1 = c @ rest"
    using Signature_parse_exact [OF m(2)] by blast
  have "KeyID_from_bytes i = KeyID.Long i" using b(2) by (simp add: KeyID_from_bytes_def)
  then have s3: "Signature3 (Signature4 (SignatureFields 3 (SignatureType_from_u8 ty) (PublicKeyAlgorithm_from_u8 pk) (HashAlgorithm_from_u8 h)
      (SubpacketAreas (SubpacketArea [with_length (SubpacketLength_from_u32 5) (SubpacketValue.SignatureCreationTime t) True] None)
        (SubpacketArea [with_length (SubpacketLength_from_u32 9) (SubpacketValue.Issuer (KeyID.Long i)) False] None)))
      (d1, d2) m None 0 None) = s"
    using s by (simp add: Signature3_new_eq b(2))
  show ?thesis
    using b c m(1) unfolding s3 [symmetric]
    by (simp add: Signature3_ok_def Signature_fields_ok_def sig_version_def Signature3_net_len_def Signature3_serialize_def
        reads_back_def Let_def v3_lookup sig_type.to_of sig_type.canonical_of wire_octets)
qed

lemma Signature3_written:
  assumes "Signature3_ok sig" "Signature3_serialize sig = Inr c"
  shows "Signature3_net_len sig = length c \<and> (\<exists>bs. c = 3 # bs \<and> Signature3_parse sig_len bs = Inr (sig, []))"
proof -
  define s where "s = intern sig"
  let ?f = "fields s"
  obtain t b where a: "Signature_fields_ok 3 s" "length b = 8"
      "sig_hashed s = SubpacketArea [with_length (SubpacketLength_from_u32 5) (SubpacketValue.SignatureCreationTime t) True] None"
      "sig_unhashed s = SubpacketArea [with_length (SubpacketLength_from_u32 9) (SubpacketValue.Issuer (KeyID.Long b)) False] None"
    using assms(1) unfolding Signature3_ok_def s_def [symmetric] by blast
  note ok = a(1) [unfolded Signature_fields_ok_def]
  obtain m where c: "Signature_serialize (sig_mpis s) = Inr m"
      "c = [3, 5, u8_from_SignatureType (sf_typ ?f)] @ to_be_u32 t @ b @ [u8_from_PublicKeyAlgorithm (sf_pk_algo ?f),
        u8_from_HashAlgorithm (sf_hash_algo ?f), fst (digest_prefix s), snd (digest_prefix s)] @ m"
    using assms(2) ok a
    by (auto simp: Signature3_serialize_def s_def [symmetric] Let_def result_simps v3_lookup)
  have m: "Signature_parse (sf_pk_algo ?f) m = Inr (sig_mpis s, [])"
    using Signature_serialize_parse [of "sig_mpis s" "sf_pk_algo ?f" "[]"] ok c(1) by auto
  moreover have "length m = Signature_serialized_len (sig_mpis s)" using Signature_parse_exact [OF m] c(1) by auto
  moreover have "Signature3_new sig_len (sf_typ ?f) t (KeyID.Long b) (sf_pk_algo ?f) (sf_hash_algo ?f) (digest_prefix s) (sig_mpis s)
      = Inr sig"
    using Signature_fields_ok_eq [OF a(1), unfolded a(3,4)] a(2) by (cases sig) (simp add: s_def Signature3_new_eq)
  ultimately show ?thesis
    using ok c(2) a(2)
    by (simp add: Signature3_net_len_def Signature3_parse_def s_def [symmetric] parse_u8_def parse_bytes_def KeyID_from_bytes_def
        sig_type.of_to pk_algo.of_to hash_algo.of_to)
qed

section \<open>The knot\<close>

text \<open>If the signatures of up to \<open>n\<close> octets are read and written exactly, so are those with one octet more.\<close>

lemma signature_step:
  assumes "embedded_signature (SignaturePacket_from_bytes ds) SignaturePacket_serialize SignaturePacket_serialized_len (SignaturePacket_ok ds) n"
  shows "embedded_signature (SignaturePacket_from_bytes ds) SignaturePacket_serialize SignaturePacket_serialized_len (SignaturePacket_ok ds) (Suc n)"
proof
  fix bs s
  assume b: "length bs < Suc n" "SignaturePacket_from_bytes ds bs = Inr s"
  obtain v bs1 where p: "bs = v # bs1" "SignaturePacket_parse ds SignaturePacket_serialized_len (SignaturePacket_from_bytes ds) bs = Inr (s, [])"
    using b(2) by (subst (asm) SignaturePacket_from_bytes.simps)
      (auto simp: result_simps SignaturePacket_parse_def field_inverts split: if_splits)
  consider s3 where "v = 3" "s = V3 s3" "Signature3_parse SignaturePacket_serialized_len bs1 = Inr (s3, [])"
    | s4 where "v = 4" "s = V4 s4" "Signature4_parse ds (SignaturePacket_from_bytes ds) bs1 = Inr (s4, [])"
    | s6 where "v = 6" "s = V6 s6" "Signature6_parse ds (SignaturePacket_from_bytes ds) bs1 = Inr (s6, [])"
    using p by (auto simp: SignaturePacket_parse_def parse_u8_def result_simps split: if_splits)
  then show "SignaturePacket_ok ds s \<and> SignaturePacket_serialized_len s = length bs
      \<and> (case SignaturePacket_serialize s of Inr c \<Rightarrow> c = bs | Inl e \<Rightarrow> e = Err InvalidArgument)"
  proof cases
    case 1
    then show ?thesis using Signature3_parse_exact [OF 1(3)] p(1) by (simp add: reads_back_def split: sum.splits)
  next
    case 2
    then show ?thesis
      using embedded_signature.Signature4_parse_exact [OF assms 2(3)] p(1) b(1) by (simp add: reads_back_def split: sum.splits)
  next
    case 3
    then show ?thesis
      using embedded_signature.Signature6_parse_exact [OF assms 3(3)] p(1) b(1) by (simp add: reads_back_def split: sum.splits)
  qed
next
  fix s c
  assume b: "SignaturePacket_ok ds s" "SignaturePacket_serialize s = Inr c" "length c < Suc n"
  show "SignaturePacket_serialized_len s = length c \<and> SignaturePacket_from_bytes ds c = Inr s"
  proof (cases s)
    case (V3 s3)
    then show ?thesis
      using b Signature3_written [of s3 c SignaturePacket_serialized_len]
      by (auto simp: SignaturePacket_from_bytes.simps SignaturePacket_parse_def parse_u8_def)
  next
    case (V4 s4)
    then show ?thesis
      using b embedded_signature.Signature4_written [OF assms, of ds s4 c]
      by (auto simp: SignaturePacket_from_bytes.simps SignaturePacket_parse_def parse_u8_def)
  next
    case (V6 s6)
    then show ?thesis
      using b embedded_signature.Signature6_written [OF assms, of ds s6 c]
      by (auto simp: SignaturePacket_from_bytes.simps SignaturePacket_parse_def parse_u8_def)
  qed
qed

interpretation sig: embedded_signature "SignaturePacket_from_bytes ds" SignaturePacket_serialize SignaturePacket_serialized_len
    "SignaturePacket_ok ds" n for ds n
proof (induction n)
  case 0
  show ?case by unfold_locales simp_all
next
  case (Suc n)
  then show ?case by (rule signature_step)
qed

section \<open>No panics\<close>

lemma field_no_panic [simp]: "\<not> panics (parse_u8 bs)" "\<not> panics (parse_bytes n bs)" "\<not> panics (parse_bool bs)"
  by (auto simp: parse_u8_def parse_bytes_def parse_bool_def)

lemma MPI_parse_no_panic [simp]: "\<not> panics (MPI_parse bs)"
  by (auto simp: MPI_parse_def MPI_parse_common_def uniform_error_for_secrets_def Let_def)

lemma Signature_parse_no_panic [simp]: "\<not> panics (Signature_parse a bs)"
  by (cases a) (auto simp: Signature_parse_def parse_bytes_eof_def parse_bytes_into_def split: prod.splits)

lemma fingerprint_no_panic [simp]: "\<not> panics (Fingerprint_from_bytes_intern v bs)" "\<not> panics (fingerprint_value_parse len bs)"
  by (auto simp: Fingerprint_from_bytes_intern_def fingerprint_value_parse_def Fingerprint_from_bytes_def Let_def)

lemma SubpacketValue_parse_no_panic:
  assumes "\<And>v. length v \<le> length bs \<Longrightarrow> \<not> panics (f v)"
  shows "\<not> panics (SubpacketValue_parse ds f h tag len bs)"
  using assms by (cases tag)
    (auto simp: SubpacketValue_parse_def Let_def RevocationKey_from_bits_def NotationDataFlags_new_def parse_bytes_eq_Inr)

lemma Subpacket_parse_no_panic:
  assumes "\<And>v. length v < length bs \<Longrightarrow> \<not> panics (f v)"
  shows "\<not> panics (Subpacket_parse ds f limit h bs)"
  using assms SubpacketLength_parse_no_panic [of bs]
  by (auto simp: Subpacket_parse_def Let_def parse_u8_eq_Inr dest!: SubpacketLength_parse_shorter intro!: SubpacketValue_parse_no_panic)

lemma SubpacketArea_parse_no_panic:
  assumes "\<And>v. length v < length bs \<Longrightarrow> \<not> panics (f v)"
  shows "\<not> panics (SubpacketArea_parse ds f limit h bs)"
proof -
  have "\<not> panics (subpackets_parse ds f limit h bs)"
    using assms
  proof (induction ds f limit h bs rule: subpackets_parse.induct)
    case (1 ds f limit h bs)
    have "\<not> panics (subpackets_parse ds f (limit - (SubpacketLength_len (sp_length p) + SubpacketLength_serialized_len (sp_length p))) h bs')"
      if "Subpacket_parse ds f limit h bs = Inr (p, bs')" "0 < limit" for p bs'
      using 1(1) [OF that(2,1) refl refl] Subpacket_parse_progress [OF that(1)] Subpacket_parse_shorter [OF that(1)] 1(2) by simp
    then show ?case
      using 1(2) Subpacket_parse_no_panic [of bs f ds limit h]
      by (subst subpackets_parse.simps) (auto simp: Let_def dest: Subpacket_parse_progress)
  qed
  then show ?thesis by (auto simp: SubpacketArea_parse_def SubpacketArea_new_def)
qed

lemma Signature4_parse_no_panic:
  assumes "\<And>v. length v < length bs \<Longrightarrow> \<not> panics (f v)"
  shows "\<not> panics (Signature4_parse ds f bs)"
  unfolding Signature4_parse_def using assms
  by (auto simp: parse_u8_eq_Inr read_be_u16_eq_Inr dest!: SubpacketArea_parse_shorter intro!: SubpacketArea_parse_no_panic)

lemma Signature6_parse_no_panic:
  assumes "\<And>v. length v < length bs \<Longrightarrow> \<not> panics (f v)"
  shows "\<not> panics (Signature6_parse ds f bs)"
  unfolding Signature6_parse_def using assms
  by (auto simp: parse_u8_eq_Inr read_be_u32_eq_Inr Signature6_new_def Signature6_from_common_def
      dest!: SubpacketArea_parse_shorter intro!: SubpacketArea_parse_no_panic)

lemma Signature3_parse_no_panic: "\<not> panics (Signature3_parse sig_len bs)"
  by (auto simp: Signature3_parse_def parse_bytes_eq_Inr KeyID_from_bytes_def Signature3_new_eq)

lemma SignaturePacket_from_bytes_no_panic: "\<not> panics (SignaturePacket_from_bytes ds bs)"
proof (induction "length bs" arbitrary: bs rule: less_induct)
  case less
  have "\<not> panics (Signature4_parse ds (SignaturePacket_from_bytes ds) b)" "\<not> panics (Signature6_parse ds (SignaturePacket_from_bytes ds) b)"
    if "length b < length bs" for b
    using that less by (auto intro!: Signature4_parse_no_panic Signature6_parse_no_panic)
  then show ?case
    using Signature3_parse_no_panic by (subst SignaturePacket_from_bytes.simps) (auto simp: SignaturePacket_parse_def parse_u8_eq_Inr)
qed

section \<open>Theorems\<close>

text \<open>
  C11. \<open>Signature::from_bytes\<close> and \<open>Signature::serialize\<close> are inverse to each other for signatures of
  versions 3, 4 and 6, with their embedded signatures: the octets that a signature serializes to are the only
  ones that parse to it, and they do so when the signature is one the parser can make. Their number is
  \<open>serialized_len\<close>.
\<close>

theorem signature_bytes_iff:
  assumes "SignaturePacket_serialize s = Inr c"
  shows "(SignaturePacket_from_bytes ds bs = Inr s) = (SignaturePacket_ok ds s \<and> bs = c)
    \<and> (if SignaturePacket_ok ds s then length c = SignaturePacket_serialized_len s else True)"
  using sig.sig_exact [of bs "Suc (length bs)" ds s] sig.sig_written [of ds s c "Suc (length c)"] assms by auto

text \<open>A signature of version 4 by Ed25519 with a creation time and, not hashed, a signature inside.\<close>

definition demo_inner :: SignaturePacket where
  "demo_inner =
     V4 (Signature4_new SignatureType.PrimaryKeyBinding PublicKeyAlgorithm.Ed25519 HashAlgorithm.SHA256
       (SubpacketArea [] None) (SubpacketArea [] None) (7, 9) (Signature.Ed25519 (replicate 64 3)))"

definition demo_signature :: SignaturePacket where
  "demo_signature =
     V4 (Signature4_new SignatureType.SubkeyBinding PublicKeyAlgorithm.Ed25519 HashAlgorithm.SHA256
       (SubpacketArea [with_length (SubpacketLength_from_u32 5) (SubpacketValue.SignatureCreationTime 1) True] None)
       (SubpacketArea [with_length (SubpacketLength_from_u32 75) (SubpacketValue.EmbeddedSignature demo_inner) False] None)
       (1, 2) (Signature.Ed25519 (replicate 64 5)))"

lemmas write_simps = Signature4_serialize_def Signature4_net_len_def Signature4_new_def SubpacketAreas_new_def sig_version_def
  SubpacketArea_serialize_def SubpacketArea_serialized_len_def Subpacket_serialize_def Subpacket_serialized_len_def
  SubpacketLength_serialize_def SubpacketLength_serialized_len_def SubpacketLength_from_u32_def SubpacketLength_len_def
  len_optimal_encoding_def BodyLength_serialize_def BodyLength_serialized_len_def with_length_def
  SubpacketValue_serialize_def SubpacketValue_serialized_len_def Subpacket_tag_def SubpacketValue_tag_def

definition demo_bytes :: bytes where
  "demo_bytes =
     [4, 0x18, 27, 8] @ [0, 6] @ [5, 0x82, 0, 0, 0, 1] @ [0, 76]
     @ [75, 32] @ [4, 0x19, 27, 8, 0, 0, 0, 0, 7, 9] @ replicate 64 3 @ [1, 2] @ replicate 64 5"

lemma demo_be: "to_be_u16 0 = [0, 0]" "to_be_u16 6 = [0, 6]" "to_be_u16 76 = [0, 76]" "to_be_u32 1 = [0, 0, 0, 1]"
  by code_simp+

lemma demo_serialize: "SignaturePacket_serialize demo_signature = Inr demo_bytes"
  by (simp add: demo_signature_def demo_inner_def write_simps demo_bytes_def demo_be Signature_serialize_def Signature_serialized_len_def Let_def)

theorem signature_bytes_iff_witness: "SignaturePacket_from_bytes (\<lambda>_. None) demo_bytes = Inr demo_signature"
proof -
  have "SignaturePacket_ok (\<lambda>_. None) demo_signature"
    by (simp add: demo_signature_def demo_inner_def Signature4_ok_def Signature_fields_ok_def SubpacketArea_ok_def Subpacket_ok_def write_simps
        SubpacketLength_ok_def SubpacketValue_ok_def for_signing_def SignatureType_canonical_def PublicKeyAlgorithm_canonical_def
        HashAlgorithm_canonical_def signature_defs)
  then show ?thesis
    using signature_bytes_iff [OF demo_serialize, of "\<lambda>_. None" demo_bytes] by simp
qed

text \<open>
  C25. \<open>Signature::from_bytes\<close> ends and never panics, however signatures are nested. A signature it
  returns is well-formed, has the length of the input as \<open>serialized_len\<close>, and serializing it gives the input back or fails
  with \<open>InvalidArgument\<close>.
\<close>

theorem signature_from_bytes_total:
  "case SignaturePacket_from_bytes ds bs of
     Inl e \<Rightarrow> e \<noteq> Panic
   | Inr s \<Rightarrow> SignaturePacket_ok ds s \<and> SignaturePacket_serialized_len s = length bs
       \<and> (SignaturePacket_serialize s = Inr bs \<or> SignaturePacket_serialize s = Inl (Err InvalidArgument))"
proof (cases "SignaturePacket_from_bytes ds bs")
  case (Inl e)
  then show ?thesis using SignaturePacket_from_bytes_no_panic [of ds bs] by auto
next
  case (Inr s)
  then show ?thesis using sig.sig_exact [of bs "Suc (length bs)" ds s] by (auto split: sum.splits)
qed

text \<open>
  The second case happens: an issuer fingerprint of a version the crate does not know parses, and the
  signature that holds it cannot be serialized.
\<close>

theorem signature_unknown_issuer_lost:
  assumes "v \<noteq> 4" "v \<noteq> 6"
  shows "case SignaturePacket_from_bytes ds ([4, 0, 100, 8] @ to_be_u16 4 @ [3, 33, v, 0xAA] @ to_be_u16 0 @ [1, 2]) of
      Inr s \<Rightarrow> SignaturePacket_serialize s = Inl (Err InvalidArgument)
    | Inl e \<Rightarrow> False"
proof -
  define issuer where "issuer = with_length (SubpacketLength_from_u32 3)
    (SubpacketValue.IssuerFingerprint (Fingerprint.Unknown (Some v) [0xAA]) :: SignaturePacket SubpacketValue) False"
  have p: "Subpacket_parse ds f 4 h ([3, 33, v, 0xAA] @ rest) = Inr (issuer, rest)" for f h rest
    using assms
    by (simp add: Subpacket_parse_def SubpacketLength_parse_def SubpacketLength_new_def SubpacketLength_from_u32_def
        SubpacketLength_len_def SubpacketLength_serialized_len_def len_optimal_encoding_unat SubpacketTag_from_u8_def SubpacketValue_parse_def
        fingerprint_value_parse_def parse_u8_def parse_bytes_def data_consume_hard_def Fingerprint_from_bytes_def Fingerprint_from_bytes_intern_def issuer_def
        push_bit_one)
  have "subpackets_parse ds f 4 h ([3, 33, v, 0xAA] @ rest) = Inr ([issuer], rest)" for f h rest
    by (subst subpackets_parse.simps, unfold p)
      (simp add: issuer_def with_length_def SubpacketLength_from_u32_def SubpacketLength_len_def SubpacketLength_serialized_len_def
        len_optimal_encoding_unat subpackets_parse.simps [of _ _ 0])
  then have a: "SubpacketArea_parse ds f 4 h (3 # 33 # v # 0xAA # rest) = Inr (SubpacketArea [issuer] None, rest)"
      "SubpacketArea_parse ds f 0 h rest = Inr (SubpacketArea [] None, rest)" for f h rest
    by (simp_all add: SubpacketArea_parse_def SubpacketArea_new_def subpackets_parse.simps [of _ _ 0])
  have "Signature_parse (PublicKeyAlgorithm_from_u8 100) [] = Inr (Signature.Unknown [] [], [])" "for_signing (PublicKeyAlgorithm_from_u8 100)"
    by code_simp+
  then show ?thesis
    by (subst SignaturePacket_from_bytes.simps)
      (simp add: SignaturePacket_parse_def Signature4_parse_def parse_u8_def a Signature4_serialize_def Signature4_new_def SubpacketAreas_new_def
        sig_version_def SubpacketArea_serialized_len_def issuer_def SubpacketArea_serialize_def Subpacket_serialize_def with_length_def write_simps
        fingerprint_value_serialize_def Fingerprint_as_bytes_def)
qed

theorem signature_unknown_issuer_lost_witness:
  "case SignaturePacket_from_bytes (\<lambda>_. None) ([4, 0, 100, 8] @ to_be_u16 4 @ [3, 33, 5, 0xAA] @ to_be_u16 0 @ [1, 2]) of
     Inr s \<Rightarrow> SignaturePacket_serialize s = Inl (Err InvalidArgument)
   | Inl e \<Rightarrow> False"
  by (rule signature_unknown_issuer_lost) simp_all

end
