(* ===== verification/S2k.thy ===== *)
theory S2k
  imports Material
begin

text \<open>
  String-to-key specifiers (\<open>crypto/s2k.rs\<close>): the coded iteration count, key derivation, and
  the wire format (\<open>S2K::parse_common\<close> in \<open>parse.rs\<close>, \<open>Marshal for S2K\<close> in \<open>serialize.rs\<close>).

  Hash functions and Argon2 come from other crates and are parameters. \<open>context\<close> gives, for a
  supported hash algorithm, the size of its digests and the function from data to digest; the
  running context is the data fed to it so far, and \<open>digest\<close> starts it afresh.
\<close>

unbundle bit_operations_syntax

datatype S2K =
    Argon2 bytes u8 u8 u8
  | Iterated HashAlgorithm bytes u32
  | Salted HashAlgorithm bytes
  | Simple HashAlgorithm
  | Implicit
  | Private u8 "bytes option"
  | Unknown u8 "bytes option"

section \<open>The coded count\<close>

definition decode_count :: "u8 \<Rightarrow> u32" where
  "decode_count coded =
     (let mantissa = 16 + (ucast coded AND 15) :: u32;
          exp = unat (drop_bit 4 (ucast coded :: u32)) + 6 in
      push_bit (min (32 - 5) exp) mantissa)"

definition encode_count :: "u32 \<Rightarrow> u8 res" where
  "encode_count hash_bytes =
     (let msb = 32 - leading_zeros hash_bytes in
      if msb \<le> 10 then Inl (Err InvalidArgument)
      else
        (let mantissa_mask = push_bit (msb - 11) 0x3C0;
             tail_mask = push_bit (msb - 11) 1 - 1;
             exp = msb - 11;
             mantissa = drop_bit (msb - 5) (hash_bytes AND mantissa_mask) in
         if tail_mask AND hash_bytes \<noteq> 0 then Inl (Err InvalidArgument)
         else Inr (ucast mantissa OR push_bit 4 (word_of_nat exp))))"

definition nearest_hash_count :: "nat \<Rightarrow> u32" where
  "nearest_hash_count hash_bytes =
     (if hash_bytes \<le> 1024 then 1024
      else if hash_bytes \<ge> 0x3e00001 then 0x3e00000
      else
        (case find (\<lambda>n. unat n \<ge> hash_bytes) (map (\<lambda>i. decode_count (word_of_nat i)) [0..<256]) of
           Some n \<Rightarrow> n
         | None \<Rightarrow> 0x3e00000))"

text \<open>\<open>random\<close> fills the salt, or fails.\<close>

definition new_iterated :: "bytes res \<Rightarrow> HashAlgorithm \<Rightarrow> u32 \<Rightarrow> S2K res" where
  "new_iterated random hash approx_hash_bytes =
     (if approx_hash_bytes > 0x3e00000 then Inl (Err InvalidArgument)
      else
        and_then random (\<lambda>salt.
          Inr (S2K.Iterated hash salt (nearest_hash_count (unat approx_hash_bytes)))))"

definition S2K_default :: "bytes res \<Rightarrow> S2K res" where
  "S2K_default random =
     (case new_iterated random HashAlgorithm.SHA256 0x3e00000 of Inl _ \<Rightarrow> Inl Panic | Inr s \<Rightarrow> Inr s)"

section \<open>Key derivation\<close>

text \<open>The data fed to the hash function for one block of key material, after the zeros.\<close>

definition iterated_data :: "bytes \<Rightarrow> bytes \<Rightarrow> u32 \<Rightarrow> bytes" where
  "iterated_data salt string hash_bytes =
     (if unat hash_bytes < length salt + length string then salt @ string
      else
        (let N = 16;
             data_len = length salt + length string;
             octs_per_iter = N * data_len;
             data = concat (replicate N (salt @ string));
             full = unat hash_bytes div octs_per_iter;
             tail = unat hash_bytes - full * octs_per_iter in
         concat (replicate full data) @ (if tail \<noteq> 0 then take tail data else [])))"

text \<open>The loop over \<open>chunks_mut\<close>: \<open>i\<close> zeros so far, \<open>n\<close> octets of the key left.\<close>

function derive_chunks :: "(bytes \<Rightarrow> bytes) \<Rightarrow> nat \<Rightarrow> bytes \<Rightarrow> nat \<Rightarrow> nat \<Rightarrow> bytes" where
  "derive_chunks digest hash_sz input i n =
     (if n = 0 \<or> hash_sz = 0 then []
      else
        take (min hash_sz n) (digest (replicate i 0 @ input))
          @ derive_chunks digest hash_sz input (Suc i) (n - min hash_sz n))"
  by pat_completeness auto
termination by (relation "measure (\<lambda>(d, sz, input, i, n). n)") auto

declare derive_chunks.simps [simp del]

definition hash_key ::
    "(HashAlgorithm \<Rightarrow> (nat \<times> (bytes \<Rightarrow> bytes)) res) \<Rightarrow> HashAlgorithm \<Rightarrow> bytes \<Rightarrow> nat \<Rightarrow> bytes res" where
  "hash_key context hash input key_len =
     and_then (context hash) (\<lambda>(hash_sz, digest).
       if hash_sz = 0 then Inl Panic else Inr (derive_chunks digest hash_sz input 0 key_len))"

text \<open>\<open>argon2 t p m\<close> is the derivation with \<open>2 ^ m\<close> blocks of memory, or a failure to set it up.\<close>

definition derive_key ::
    "(HashAlgorithm \<Rightarrow> (nat \<times> (bytes \<Rightarrow> bytes)) res) \<Rightarrow> (u8 \<Rightarrow> u8 \<Rightarrow> u32 \<Rightarrow> bytes \<Rightarrow> bytes \<Rightarrow> nat \<Rightarrow> bytes res)
      \<Rightarrow> S2K \<Rightarrow> bytes \<Rightarrow> nat \<Rightarrow> bytes res" where
  "derive_key context argon2 s2k password key_len =
     (case s2k of
        S2K.Argon2 salt t p m \<Rightarrow>
          if unat m \<ge> 32 then Inl (Err InvalidArgument)
          else if key_len \<ge> 2 ^ 32 then Inl (Err InvalidArgument)
          else argon2 t p (2 ^ unat m) password salt key_len
      | S2K.Simple hash \<Rightarrow> hash_key context hash password key_len
      | S2K.Salted hash salt \<Rightarrow> hash_key context hash (salt @ password) key_len
      | S2K.Iterated hash salt hash_bytes \<Rightarrow>
          hash_key context hash (iterated_data salt password hash_bytes) key_len
      | S2K.Implicit \<Rightarrow> hash_key context HashAlgorithm.MD5 password key_len
      | S2K.Unknown _ _ \<Rightarrow> Inl (Err MalformedPacket)
      | S2K.Private _ _ \<Rightarrow> Inl (Err MalformedPacket))"

definition S2K_is_supported :: "S2K \<Rightarrow> bool" where
  "S2K_is_supported s2k =
     (case s2k of
        S2K.Private _ _ \<Rightarrow> False
      | S2K.Unknown _ _ \<Rightarrow> False
      | _ \<Rightarrow> True)"

section \<open>Wire format\<close>

definition S2K_serialize :: "S2K \<Rightarrow> bytes res" where
  "S2K_serialize s2k =
     (case s2k of
        S2K.Simple hash \<Rightarrow> Inr [0, u8_from_HashAlgorithm hash]
      | S2K.Salted hash salt \<Rightarrow> Inr ([1, u8_from_HashAlgorithm hash] @ salt)
      | S2K.Iterated hash salt hash_bytes \<Rightarrow>
          and_then (encode_count hash_bytes) (\<lambda>count.
            Inr ([3, u8_from_HashAlgorithm hash] @ salt @ [count]))
      | S2K.Implicit \<Rightarrow> Inr []
      | S2K.Argon2 salt t p m \<Rightarrow> Inr ([4] @ salt @ [t, p, m])
      | S2K.Private tag parameters \<Rightarrow>
          Inr (tag # (case parameters of Some p \<Rightarrow> p | None \<Rightarrow> []))
      | S2K.Unknown tag parameters \<Rightarrow>
          Inr (tag # (case parameters of Some p \<Rightarrow> p | None \<Rightarrow> [])))"

definition S2K_serialized_len :: "S2K \<Rightarrow> nat" where
  "S2K_serialized_len s2k =
     (case s2k of
        S2K.Simple _ \<Rightarrow> 2
      | S2K.Salted _ _ \<Rightarrow> 2 + 8
      | S2K.Iterated _ _ _ \<Rightarrow> 2 + 8 + 1
      | S2K.Implicit \<Rightarrow> 0
      | S2K.Argon2 _ _ _ _ \<Rightarrow> 20
      | S2K.Private _ parameters \<Rightarrow> 1 + (case parameters of Some p \<Rightarrow> length p | None \<Rightarrow> 0)
      | S2K.Unknown _ parameters \<Rightarrow> 1 + (case parameters of Some p \<Rightarrow> length p | None \<Rightarrow> 0))"

definition read_salt :: "bytes reader" where
  "read_salt bs = parse_bytes 8 bs"

definition check_size :: "u8 option \<Rightarrow> u8 \<Rightarrow> unit res" where
  "check_size s2k_len expected =
     (case s2k_len of
        Some got \<Rightarrow> if got \<noteq> expected then Inl (Err MalformedPacket) else Inr ()
      | None \<Rightarrow> Inr ())"

definition parse_parameters :: "u8 option \<Rightarrow> bytes option reader" where
  "parse_parameters s2k_len bs =
     (case s2k_len of
        Some l \<Rightarrow> and_then (parse_bytes (unat l - 1) bs) (\<lambda>(p, bs). Inr (Some p, bs))
      | None \<Rightarrow> Inr (None, bs))"

definition S2K_parse_common :: "u8 option \<Rightarrow> S2K reader" where
  "S2K_parse_common s2k_len bs =
     (if s2k_len = Some 0 then Inl (Err MalformedPacket)
      else
        and_then (parse_u8 bs) (\<lambda>(s2k, bs).
          if s2k = 0 then
            and_then (check_size s2k_len 2) (\<lambda>_.
            and_then (parse_u8 bs) (\<lambda>(hash, bs).
            Inr (S2K.Simple (HashAlgorithm_from_u8 hash), bs)))
          else if s2k = 1 then
            and_then (check_size s2k_len 10) (\<lambda>_.
            and_then (parse_u8 bs) (\<lambda>(hash, bs).
            and_then (read_salt bs) (\<lambda>(salt, bs).
            Inr (S2K.Salted (HashAlgorithm_from_u8 hash) salt, bs))))
          else if s2k = 3 then
            and_then (check_size s2k_len 11) (\<lambda>_.
            and_then (parse_u8 bs) (\<lambda>(hash, bs).
            and_then (read_salt bs) (\<lambda>(salt, bs).
            and_then (parse_u8 bs) (\<lambda>(count, bs).
            Inr (S2K.Iterated (HashAlgorithm_from_u8 hash) salt (decode_count count), bs)))))
          else if s2k = 4 then
            and_then (parse_bytes 16 bs) (\<lambda>(salt, bs).
            and_then (parse_u8 bs) (\<lambda>(t, bs).
            and_then (parse_u8 bs) (\<lambda>(p, bs).
            and_then (parse_u8 bs) (\<lambda>(m, bs).
            Inr (S2K.Argon2 salt t p m, bs)))))
          else if 100 \<le> s2k \<and> s2k \<le> 110 then
            and_then (parse_parameters s2k_len bs) (\<lambda>(parameters, bs).
            Inr (S2K.Private s2k parameters, bs))
          else
            and_then (parse_parameters s2k_len bs) (\<lambda>(parameters, bs).
            Inr (S2K.Unknown s2k parameters, bs))))"

definition S2K_parse_v4 :: "S2K reader" where
  "S2K_parse_v4 bs = S2K_parse_common None bs"

definition S2K_parse_v6 :: "u8 \<Rightarrow> S2K reader" where
  "S2K_parse_v6 s2k_len bs = S2K_parse_common (Some s2k_len) bs"

section \<open>Properties of the coded count\<close>

lemma unat_ucast_u32: "unat (ucast (c :: u8) :: u32) = unat c"
  by (subst unat_ucast_mod, rule mod_less, rule less_trans [OF unat_u8_less]) simp

text \<open>The count as a number: \<open>(16 + m) * 2 ^ (e + 6)\<close> for the code \<open>16 * e + m\<close>.\<close>

lemma decode_count_nat: "unat (decode_count c) = (16 + unat c mod 16) * 2 ^ (unat c div 16 + 6)"
proof -
  have m: "ucast c AND 15 = (word_of_nat (unat c mod 16) :: u32)"
  proof -
    have "unat (ucast c AND mask 4 :: u32) = unat (ucast c :: u32) mod 2 ^ 4" by (rule unat_and_mask)
    then have "unat (ucast c AND 15 :: u32) = unat c mod 16"
      by (simp add: mask_eq_exp_minus_1 unat_ucast_u32)
    then have "word_of_nat (unat (ucast c AND 15 :: u32)) = (word_of_nat (unat c mod 16) :: u32)" by (rule arg_cong)
    then show ?thesis by (simp only: of_nat_unat ucast_id)
  qed
  have e: "unat (drop_bit 4 (ucast c :: u32)) = unat c div 16"
    by (simp add: unat_drop_bit unat_ucast_u32)
  have le: "unat c div 16 \<le> 15" using unat_u8_less [of c] by linarith
  let ?n = "(16 + unat c mod 16) * 2 ^ (unat c div 16 + 6)"
  have "decode_count c = word_of_nat ?n"
    using le by (simp add: decode_count_def Let_def m e push_bit_eq_mult min_def mult.commute)
  moreover have "?n < 2 ^ LENGTH(32)"
  proof -
    have "(2::nat) ^ (unat c div 16 + 6) \<le> 2 ^ 21" using le by (intro power_increasing) simp_all
    moreover have "16 + unat c mod 16 \<le> 31" using mod_less_divisor [of 16 "unat c"] by linarith
    ultimately have "?n \<le> 31 * 2 ^ 21" by (intro mult_le_mono)
    then show ?thesis by simp
  qed
  ultimately show ?thesis by (simp only: unat_word_of_nat_less)
qed

lemma or_disjoint_add: "unat a < 2 ^ n \<Longrightarrow> a OR push_bit n b = a + push_bit n b" for a :: "'a::len word"
  by (rule disjunctive_add [symmetric]) (auto simp: bit_push_bit_iff unat_less_2p_iff)

text \<open>
  What \<open>encode_count\<close> computes for a number of \<open>e + 11\<close> bits. Only the lowest \<open>e\<close> bits are
  checked to be zero; the six bits below the mantissa are dropped, and the exponent is
  reduced modulo 16.
\<close>

lemma encode_count_nat:
  assumes "2 ^ (e + 10) \<le> unat n" "unat n < 2 ^ (e + 11)"
  shows "encode_count n = (if unat n mod 2 ^ e \<noteq> 0 then Inl (Err InvalidArgument)
    else Inr (word_of_nat (unat n div 2 ^ (e + 6) mod 16 + 16 * e)))"
proof -
  have "(2::nat) ^ (e + 10) < 2 ^ 32" using assms(1) unat_less_2p [of n] by simp
  then have e: "e \<le> 21" by (simp only: power_strict_increasing_iff)
  have bl: "bit_length n = e + 11" using bit_length_eqI [of "e + 10" n] assms by (simp add: add.commute)
  have msb: "32 - leading_zeros n = e + 11" using bl e by (simp add: leading_zeros_def)
  have mask: "push_bit e 0x3C0 = push_bit (e + 6) (mask 4 :: u32)"
  proof -
    have "(0x3C0 :: u32) = push_bit 6 (mask 4)" by (simp add: mask_eq_exp_minus_1 push_bit_eq_mult)
    then show ?thesis by (simp only: push_bit_push_bit)
  qed
  have shift: "drop_bit (e + 6) (push_bit (e + 6) (mask 4)) = (mask 4 :: u32)"
    using e by (auto simp: bit_eq_iff [where 'a = u32] bit_drop_bit_eq bit_push_bit_iff bit_mask_iff)
  define man where "man = drop_bit (e + 6) (n AND push_bit e 0x3C0)"
  have "man = drop_bit (e + 6) n AND mask 4" by (simp only: man_def mask drop_bit_and shift)
  then have man: "unat man = unat n div 2 ^ (e + 6) mod 16"
    by (simp only: unat_and_mask unat_drop_bit) simp
  have tail: "unat ((push_bit e 1 - 1) AND n) = unat n mod 2 ^ e"
    using unat_and_mask [of n e] by (simp add: mask_eq_exp_minus_1 push_bit_one and.commute)
  have "unat (ucast man :: u8) = unat man" using man by (simp add: unat_ucast_mod)
  then have "ucast man OR push_bit 4 (word_of_nat e :: u8) = ucast man + push_bit 4 (word_of_nat e)"
    using man by (intro or_disjoint_add) simp
  also have "\<dots> = word_of_nat (unat man + 16 * e)" by (simp add: push_bit_eq_mult mult.commute)
  finally have or: "ucast man OR push_bit 4 (word_of_nat e :: u8) = word_of_nat (unat man + 16 * e)" .
  have "(push_bit e 1 - 1) AND n \<noteq> 0 \<longleftrightarrow> unat n mod 2 ^ e \<noteq> 0"
    unfolding tail [symmetric] by (simp add: unat_eq_zero)
  moreover have "e + 11 - 11 = e" "e + 11 - 5 = e + 6" "\<not> e + 11 \<le> 10" by simp_all
  ultimately show ?thesis
    unfolding encode_count_def Let_def msb by (simp only: if_False man_def [symmetric] or man)
qed

lemma encode_decode_count: "encode_count (decode_count c) = Inr c"
proof -
  define m where "m = unat c mod 16"
  define e where "e = unat c div 16"
  have c: "unat c = m + 16 * e" "m < 16" by (simp_all add: m_def e_def)
  have n: "unat (decode_count c) = (16 + m) * 2 ^ (e + 6)" by (simp only: decode_count_nat m_def e_def)
  have "2 ^ (e + 10) \<le> unat (decode_count c)" "unat (decode_count c) < 2 ^ (e + 11)"
    using c(2) by (simp_all add: n power_add)
  from encode_count_nat [OF this]
  have "encode_count (decode_count c) = Inr (word_of_nat (m + 16 * e))" using c(2) by (simp add: n power_add)
  moreover have "word_of_nat (m + 16 * e) = c" unfolding c(1) [symmetric] by simp
  ultimately show ?thesis by simp
qed

lemma decode_count_mono: "unat c \<le> unat d \<Longrightarrow> unat (decode_count c) \<le> unat (decode_count d)"
proof (cases "unat c div 16 = unat d div 16")
  case True
  assume "unat c \<le> unat d"
  with True have "unat c mod 16 \<le> unat d mod 16" by (metis mod_mult_div_eq add_le_cancel_left add.commute)
  with True show ?thesis by (simp add: decode_count_nat)
next
  case False
  assume "unat c \<le> unat d"
  with False have lt: "unat c div 16 + 7 \<le> unat d div 16 + 6" using div_le_mono [of "unat c" "unat d" 16] by simp
  have "16 + unat c mod 16 \<le> 32" using mod_less_divisor [of 16 "unat c"] by linarith
  then have "unat (decode_count c) \<le> 32 * 2 ^ (unat c div 16 + 6)" unfolding decode_count_nat by (rule mult_le_mono1)
  also have "\<dots> = 16 * 2 ^ (unat c div 16 + 7)" by (simp add: power_add)
  also have "\<dots> \<le> 16 * 2 ^ (unat d div 16 + 6)" using lt by (intro mult_le_mono2 power_increasing) simp_all
  also have "\<dots> \<le> unat (decode_count d)" unfolding decode_count_nat by (rule mult_le_mono1) simp
  finally show ?thesis .
qed

lemma decode_count_ge: "1024 \<le> unat (decode_count c)"
  using decode_count_mono [of 0 c] by (simp add: decode_count_nat)

lemma decode_count_ends: "decode_count 0 = 1024" "decode_count 255 = 0x3e00000"
  by (simp_all add: decode_count_nat word_unat_eq_iff)

lemma nearest_hash_count_least:
  assumes "hash_bytes \<le> 0x3e00000"
  shows "\<exists>c. nearest_hash_count hash_bytes = decode_count c \<and> hash_bytes \<le> unat (decode_count c)
    \<and> (\<forall>d. hash_bytes \<le> unat (decode_count d) \<longrightarrow> unat (decode_count c) \<le> unat (decode_count d))"
proof (cases "hash_bytes \<le> 1024")
  case True
  moreover have "unat (decode_count 0) = 1024" by (simp add: decode_count_nat)
  ultimately show ?thesis using decode_count_ge decode_count_ends(1)
    by (intro exI [of _ 0]) (simp add: nearest_hash_count_def)
next
  case False
  let ?l = "map (\<lambda>i. decode_count (word_of_nat i)) [0..<256]" and ?P = "\<lambda>n. unat n \<ge> hash_bytes"
  have "unat (decode_count 255) = 0x3e00000" by (simp add: decode_count_nat)
  then have "?P (?l ! 255)" using assms by simp
  moreover have "?l ! 255 \<in> set ?l" by (rule nth_mem) simp
  ultimately have "find ?P ?l \<noteq> None" by (metis (no_types, lifting) find_None_iff)
  then obtain n where find: "find ?P ?l = Some n" by blast
  from iffD1 [OF find_Some_iff find] obtain i where
    i: "i < 256" "n = ?l ! i" "?P n" "\<forall>j<i. \<not> ?P (?l ! j)" by auto
  have n: "n = decode_count (word_of_nat i)" using i(1,2) by simp
  have "unat n \<le> unat (decode_count d)" if d: "hash_bytes \<le> unat (decode_count d)" for d
  proof -
    have "\<not> unat d < i"
    proof
      assume lt: "unat d < i"
      with i(1) have "?l ! unat d = decode_count d" by simp
      with i(4) lt d show False by auto
    qed
    then have "unat (word_of_nat i :: u8) \<le> unat d" using i(1) by (simp add: unat_word_of_nat_u8)
    with n show ?thesis by (simp add: decode_count_mono)
  qed
  moreover have "nearest_hash_count hash_bytes = n" using False assms find by (simp add: nearest_hash_count_def)
  ultimately show ?thesis using i(3) n by auto
qed

section \<open>Properties of key derivation\<close>

lemma length_concat_replicate: "length (concat (replicate k xs)) = k * length xs"
  by (induction k) simp_all

lemma take_concat_replicate:
  assumes "n \<le> j * length xs" "n \<le> k * length xs"
  shows "take n (concat (replicate j xs)) = take n (concat (replicate k xs))"
proof -
  have *: "take n (concat (replicate j xs)) = take n (concat (replicate (j + d) xs))" if "n \<le> j * length xs" for j d
    using that by (simp add: replicate_add length_concat_replicate)
  show ?thesis
  proof (cases "j \<le> k")
    case True
    then show ?thesis using * [OF assms(1), of "k - j"] by (simp only: le_add_diff_inverse)
  next
    case False
    then have "k + (j - k) = j" by simp
    then show ?thesis using * [OF assms(2), of "j - k"] by (simp only:)
  qed
qed

lemma concat_replicate_concat: "concat (replicate k (concat (replicate j xs))) = concat (replicate (k * j) xs)"
  by (induction k) (simp_all add: replicate_add)

text \<open>What the standard says is hashed: salt and password over and over, up to the count, but once in full.\<close>

definition hashed_octets :: "bytes \<Rightarrow> bytes \<Rightarrow> nat \<Rightarrow> bytes" where
  "hashed_octets salt string count =
     (let n = max count (length (salt @ string)) in take n (concat (replicate n (salt @ string))))"

lemma iterated_data_hashed_octets:
  assumes "salt \<noteq> []"
  shows "iterated_data salt string hash_bytes = hashed_octets salt string (unat hash_bytes)"
proof -
  define xs where "xs = salt @ string"
  have xs: "0 < length xs" "length xs = length salt + length string" using assms by (simp_all add: xs_def)
  define h where "h = unat hash_bytes"
  show ?thesis
  proof (cases "h < length xs")
    case True
    have "take (length xs) (concat (replicate (length xs) xs)) = take (length xs) (concat (replicate 1 xs))"
      using xs(1) by (intro take_concat_replicate) (simp_all add: Suc_le_eq)
    with True xs(2) show ?thesis
      by (simp add: iterated_data_def hashed_octets_def h_def xs_def [symmetric] max_def)
  next
    case False
    define q where "q = h div (16 * length xs)"
    define t where "t = h - q * (16 * length xs)"
    have h: "h = q * 16 * length xs + t" "t < 16 * length xs"
      using xs(1) by (simp_all only: t_def q_def mult.assoc minus_div_mult_eq_mod div_mult_mod_eq mod_less_divisor
          zero_less_mult_iff zero_less_numeral simp_thms)
    have le: "h \<le> h * length xs" using xs(1) by (cases "length xs") simp_all
    have "concat (replicate q (concat (replicate 16 xs))) @ take t (concat (replicate 16 xs))
        = take h (concat (replicate (q * 16 + 16) xs))"
      using h by (simp add: replicate_add length_concat_replicate concat_replicate_concat)
    also have "\<dots> = take h (concat (replicate h xs))"
      using h le by (intro take_concat_replicate) (simp_all add: algebra_simps)
    finally have "concat (replicate q (concat (replicate 16 xs))) @ take t (concat (replicate 16 xs))
        = take h (concat (replicate h xs))" .
    moreover have "iterated_data salt string hash_bytes
        = concat (replicate q (concat (replicate 16 xs))) @ take t (concat (replicate 16 xs))"
      using False by (simp add: iterated_data_def Let_def flip: xs(2) h_def xs_def q_def t_def) (simp add: t_def)
    ultimately show ?thesis
      using False xs(2) by (simp add: hashed_octets_def h_def [symmetric] xs_def [symmetric] max_def)
  qed
qed

lemma length_concat_map: "(\<And>x. x \<in> set xs \<Longrightarrow> length (f x) = k) \<Longrightarrow> length (concat (map f xs)) = length xs * k"
  by (induction xs) simp_all

lemma derive_chunks_blocks:
  assumes "0 < sz" "\<And>x. length (digest x) = sz"
  shows "derive_chunks digest sz input i n = take n (concat (map (\<lambda>j. digest (replicate j 0 @ input)) [i..<i + n]))"
proof (induction n arbitrary: i rule: less_induct)
  case (less n)
  let ?B = "\<lambda>j. digest (replicate j 0 @ input)"
  show ?case
  proof (cases "n = 0")
    case True
    then show ?thesis by (simp add: derive_chunks.simps)
  next
    case False
    then have up: "[i..<i + n] = i # [Suc i..<i + n]" by (simp add: upt_conv_Cons)
    show ?thesis
    proof (cases "n \<le> sz")
      case True
      with False assms show ?thesis
        by (subst derive_chunks.simps) (simp add: up derive_chunks.simps [of _ _ _ _ 0])
    next
      case sz: False
      let ?m = "n - sz"
      have split: "[Suc i..<i + n] = [Suc i..<Suc i + ?m] @ [Suc i + ?m..<i + n]"
        using sz assms(1) upt_add_eq_append [of "Suc i" "Suc i + ?m" "sz - 1"] by simp
      have "length (concat (map ?B [Suc i..<Suc i + ?m])) = ?m * sz"
        using assms(2) by (subst length_concat_map [where k = sz]) (simp_all only: length_upt diff_add_inverse)
      then have "?m \<le> length (concat (map ?B [Suc i..<Suc i + ?m]))" using assms(1) by (cases sz) simp_all
      then have "take ?m (concat (map ?B [Suc i..<i + n])) = take ?m (concat (map ?B [Suc i..<Suc i + ?m]))"
        unfolding split by (simp only: map_append concat_append take_append) simp
      moreover have "derive_chunks digest sz input (Suc i) ?m = take ?m (concat (map ?B [Suc i..<Suc i + ?m]))"
        using False assms(1) by (intro less.IH) simp
      ultimately show ?thesis
        using False sz assms by (subst derive_chunks.simps) (simp add: up min_def)
    qed
  qed
qed

lemma hash_key_blocks:
  assumes "context hash = Inr (sz, digest)" "0 < sz" "\<And>x. length (digest x) = sz"
  shows "\<exists>key. hash_key context hash input n = Inr key \<and> length key = n
    \<and> key = take n (concat (map (\<lambda>i. digest (replicate i 0 @ input)) [0..<n]))"
proof -
  have "n \<le> length (concat (map (\<lambda>i. digest (replicate i 0 @ input)) [0..<n]))"
    using assms(2,3) by (simp add: length_concat_map [where k = sz])
  then show ?thesis
    using assms derive_chunks_blocks [OF assms(2), of digest input 0 n] by (simp add: hash_key_def)
qed

section \<open>Properties of the wire format\<close>

definition parameters_fit :: "u8 option \<Rightarrow> bytes option \<Rightarrow> bool" where
  "parameters_fit s2k_len parameters =
     (case s2k_len of None \<Rightarrow> parameters = None
      | Some l \<Rightarrow> (case parameters of None \<Rightarrow> False | Some p \<Rightarrow> unat l = Suc (length p)))"

text \<open>
  The specifiers that \<open>parse_common\<close> can return, given the explicit length, if there is one.
\<close>

definition S2K_wf :: "u8 option \<Rightarrow> S2K \<Rightarrow> bool" where
  "S2K_wf s2k_len s2k =
     (case s2k of
        S2K.Simple hash \<Rightarrow> HashAlgorithm_canonical hash
      | S2K.Salted hash salt \<Rightarrow> HashAlgorithm_canonical hash \<and> length salt = 8
      | S2K.Iterated hash salt hash_bytes \<Rightarrow>
          HashAlgorithm_canonical hash \<and> length salt = 8
          \<and> (case encode_count hash_bytes of Inr c \<Rightarrow> decode_count c = hash_bytes | Inl _ \<Rightarrow> False)
      | S2K.Implicit \<Rightarrow> False
      | S2K.Argon2 salt t p m \<Rightarrow> length salt = 16
      | S2K.Private tag parameters \<Rightarrow> 100 \<le> tag \<and> tag \<le> 110 \<and> parameters_fit s2k_len parameters
      | S2K.Unknown tag parameters \<Rightarrow>
          tag \<notin> {0, 1, 3, 4} \<and> \<not> (100 \<le> tag \<and> tag \<le> 110) \<and> parameters_fit s2k_len parameters)"

lemma Suc_unat_pred: "(a :: u8) \<noteq> 0 \<Longrightarrow> Suc (unat a - Suc 0) = unat a"
  by (simp add: unat_gt_0)

lemma parse_parameters_eq_Inr:
  "s2k_len \<noteq> Some 0 \<Longrightarrow> parse_parameters s2k_len bs = Inr (p, rest) \<longleftrightarrow>
     parameters_fit s2k_len p \<and> bs = (case p of Some d \<Rightarrow> d | None \<Rightarrow> []) @ rest"
  by (cases s2k_len; cases p)
    (auto simp: parse_parameters_def parameters_fit_def result_simps parse_bytes_eq_Inr Suc_unat_pred)

definition size_fits :: "u8 option \<Rightarrow> S2K \<Rightarrow> bool" where
  "size_fits s2k_len s2k =
     (case s2k_len of
        None \<Rightarrow> True
      | Some l \<Rightarrow> (case s2k of S2K.Argon2 _ _ _ _ \<Rightarrow> l \<noteq> 0 | _ \<Rightarrow> unat l = S2K_serialized_len s2k))"

lemma check_size_eq_Inr: "check_size s2k_len n = Inr () \<longleftrightarrow> (case s2k_len of None \<Rightarrow> True | Some l \<Rightarrow> l = n)"
  by (simp add: check_size_def split: option.splits)

lemmas s2k_defs = S2K_wf_def S2K_serialize_def S2K_serialized_len_def size_fits_def

lemma u8_unat_eq: "unat (l :: u8) = unat (numeral n :: u8) \<longleftrightarrow> l = numeral n"
  by (simp add: word_unat_eq_iff)

lemma S2K_parse_common_exact:
  assumes "S2K_parse_common s2k_len bs = Inr (s2k, rest)"
  shows "S2K_wf s2k_len s2k \<and> size_fits s2k_len s2k
    \<and> (\<exists>c. S2K_serialize s2k = Inr c \<and> length c = S2K_serialized_len s2k \<and> bs = c @ rest)"
proof -
  have nz: "s2k_len \<noteq> Some 0" using assms by (auto simp: S2K_parse_common_def)
  obtain tag bs1 where bs: "bs = tag # bs1"
    using assms by (cases bs) (auto simp: S2K_parse_common_def parse_u8_def split: if_splits)
  note simps = S2K_parse_common_def s2k_defs result_simps field_inverts read_salt_def check_size_eq_Inr
    hash_algo.to_of hash_algo.canonical_of encode_decode_count
  consider "tag = 0" | "tag = 1" | "tag = 3" | "tag = 4" | "tag \<notin> {0, 1, 3, 4}" "100 \<le> tag \<and> tag \<le> 110"
    | "tag \<notin> {0, 1, 3, 4}" "\<not> (100 \<le> tag \<and> tag \<le> 110)" by blast
  then show ?thesis
  proof cases
    case 1
    with assms nz show ?thesis by (cases s2k_len) (auto simp: bs simps)
  next
    case 2
    with assms nz show ?thesis by (cases s2k_len) (auto simp: bs simps)
  next
    case 3
    with assms nz show ?thesis by (cases s2k_len) (auto simp: bs simps)
  next
    case 4
    with assms nz show ?thesis by (cases s2k_len) (auto simp: bs simps)
  next
    case 5
    with assms nz obtain p where "parse_parameters s2k_len bs1 = Inr (p, rest)" "s2k = S2K.Private tag p"
      by (auto simp: bs S2K_parse_common_def parse_u8_Cons and_then_eq_Inr)
    with 5 show ?thesis
      by (auto simp: bs parse_parameters_eq_Inr [OF nz] s2k_defs parameters_fit_def split: option.splits)
  next
    case 6
    with assms nz obtain p where "parse_parameters s2k_len bs1 = Inr (p, rest)" "s2k = S2K.Unknown tag p"
      by (auto simp: bs S2K_parse_common_def parse_u8_Cons and_then_eq_Inr)
    with 6 show ?thesis
      by (auto simp: bs parse_parameters_eq_Inr [OF nz] s2k_defs parameters_fit_def split: option.splits)
  qed
qed

lemma S2K_serialize_parse_common:
  assumes "S2K_wf s2k_len s2k" "size_fits s2k_len s2k"
  shows "\<exists>c. S2K_serialize s2k = Inr c \<and> S2K_parse_common s2k_len (c @ rest) = Inr (s2k, rest)"
proof -
  have nz: "s2k_len \<noteq> Some 0"
    using assms by (cases s2k) (auto simp: s2k_defs parameters_fit_def)
  have sz: "check_size s2k_len n = Inr ()" if "size_fits s2k_len s2k" "\<forall>a b c d. s2k \<noteq> S2K.Argon2 a b c d"
    "S2K_serialized_len s2k = unat n" for n
  proof -
    have "unat l = unat n" if "s2k_len = Some l" for l
      using \<open>size_fits s2k_len s2k\<close> \<open>\<forall>a b c d. s2k \<noteq> _\<close> \<open>S2K_serialized_len s2k = unat n\<close> that
      by (cases s2k) (simp_all add: size_fits_def)
    then show ?thesis by (cases s2k_len) (simp_all add: check_size_def unsigned_word_eqI)
  qed
  show ?thesis
  proof (cases s2k)
    case (Private tag p)
    then have "\<not> tag = 0" "\<not> tag = 1" "\<not> tag = 3" "\<not> tag = 4" "100 \<le> tag \<and> tag \<le> 110"
      "parse_parameters s2k_len ((case p of Some d \<Rightarrow> d | None \<Rightarrow> []) @ rest) = Inr (p, rest)"
      using assms by (auto simp: s2k_defs parse_parameters_eq_Inr [OF nz])
    with Private nz show ?thesis by (simp add: S2K_parse_common_def S2K_serialize_def parse_u8_Cons)
  next
    case (Unknown tag p)
    then have "\<not> tag = 0" "\<not> tag = 1" "\<not> tag = 3" "\<not> tag = 4" "\<not> (100 \<le> tag \<and> tag \<le> 110)"
      "parse_parameters s2k_len ((case p of Some d \<Rightarrow> d | None \<Rightarrow> []) @ rest) = Inr (p, rest)"
      using assms by (auto simp: s2k_defs parse_parameters_eq_Inr [OF nz])
    with Unknown nz show ?thesis by (simp add: S2K_parse_common_def S2K_serialize_def parse_u8_Cons)
  next
    case (Iterated hash salt n)
    then obtain c where "encode_count n = Inr c" "decode_count c = n"
      using assms(1) by (auto simp: S2K_wf_def split: sum.splits)
    with Iterated nz assms sz [of 11] show ?thesis
      by (simp add: S2K_parse_common_def s2k_defs parse_u8_Cons read_salt_def parse_bytes_def hash_algo.of_to)
  qed (use assms nz sz [of 2] sz [of 10] in
      \<open>simp_all add: S2K_parse_common_def s2k_defs parse_u8_Cons read_salt_def parse_bytes_def hash_algo.of_to\<close>)
qed

interpretation s2k: exact_codec S2K_serialize "S2K_parse_common s2k_len" "\<lambda>s. S2K_wf s2k_len s \<and> size_fits s2k_len s" for s2k_len
proof (rule exact_codecI [where len = S2K_serialized_len])
  show "0 < S2K_serialized_len s" if "S2K_wf s2k_len s \<and> size_fits s2k_len s" for s
    using that by (cases s) (simp_all add: s2k_defs)
qed (simp_all add: S2K_parse_common_exact S2K_serialize_parse_common)

section \<open>Theorems\<close>

text \<open>
  Reading a specifier, with or without the explicit length of version 6, accepts exactly the
  serializations of well-formed specifiers that fit the length, and returns the specifier and what follows.
  For Argon2 any non-zero length is accepted: \<open>parse_common\<close> checks the size of every other
  kind, but not of this one.
\<close>

theorem s2k_parse_iff:
  "S2K_parse_common s2k_len bs = Inr (s2k, rest) \<longleftrightarrow>
     S2K_wf s2k_len s2k \<and> size_fits s2k_len s2k
     \<and> (\<exists>c. S2K_serialize s2k = Inr c \<and> length c = S2K_serialized_len s2k \<and> bs = c @ rest)"
  using S2K_parse_common_exact [of s2k_len bs s2k rest] S2K_serialize_parse_common [of s2k_len s2k rest] by auto

text \<open>
  A defect of the version 6 reader: an Argon2 specifier of 20 octets is accepted under an
  explicit length of 5, so that the length and the octets consumed disagree.
\<close>

theorem s2k_v6_argon2_length_unchecked:
  "S2K_parse_v6 5 (4 # replicate 16 7 @ [1, 2, 3, 42]) = Inr (S2K.Argon2 (replicate 16 7) 1 2 3, [42])"
  by (simp add: S2K_parse_v6_def S2K_parse_common_def parse_u8_Cons parse_bytes_def)

text \<open>
  The coded count: every code decodes to a count that encodes to the same code, larger codes
  give larger counts, and the range is from 1024 to 65011712.
\<close>

theorem s2k_count_roundtrip:
  "encode_count (decode_count c) = Inr c \<and> (decode_count c \<le> decode_count d \<longleftrightarrow> c \<le> d)
    \<and> 1024 \<le> decode_count c \<and> decode_count c \<le> 0x3e00000"
proof -
  have inj: "c = d" if "decode_count c = decode_count d"
    using arg_cong [OF that, of encode_count] by (simp only: encode_decode_count sum.inject)
  have mono: "decode_count x \<le> decode_count y" if "x \<le> y" for x y
    using that by (simp only: word_le_nat_alt decode_count_mono)
  have "c \<le> d" if "decode_count c \<le> decode_count d"
  proof (rule ccontr)
    assume "\<not> c \<le> d"
    then have "d \<le> c" by simp
    with mono that have "decode_count c = decode_count d" by (intro order_antisym)
    with inj \<open>\<not> c \<le> d\<close> show False by simp
  qed
  moreover have "unat (decode_count c) \<le> unat (decode_count 255)" by (rule decode_count_mono) simp
  then have "decode_count c \<le> 0x3e00000" by (simp only: word_le_nat_alt decode_count_ends(2))
  moreover have "1024 \<le> decode_count c" using decode_count_ge [of c] by (simp add: word_le_nat_alt)
  ultimately show ?thesis using mono [of c d] by (auto simp: encode_decode_count)
qed

text \<open>
  \<open>nearest_hash_count\<close> returns the smallest representable count that is at least the one asked
  for, and the largest representable one when there is none.
\<close>

theorem s2k_nearest_hash_count:
  "\<exists>c. nearest_hash_count n = decode_count c
    \<and> (if n \<le> 0x3e00000
       then n \<le> unat (decode_count c) \<and> (\<forall>d. unat (decode_count d) < n \<or> unat (decode_count c) \<le> unat (decode_count d))
       else c = 255)"
proof (cases "n \<le> 0x3e00000")
  case True
  with nearest_hash_count_least [OF True] show ?thesis by (metis not_le)
next
  case False
  then show ?thesis using decode_count_ends(2) by (auto simp: nearest_hash_count_def)
qed

text \<open>
  A defect of \<open>encode_count\<close>: it is documented to fail for counts that cannot be represented,
  but it checks fewer low bits than the format drops and does not check the exponent, so
  that a specifier with such a count is written with a different one: 1025 as 1024 and
  67108864 as 1024.
\<close>

theorem s2k_encode_count_lossy:
  "encode_count 1025 = Inr 0 \<and> encode_count 67108864 = Inr 0 \<and> decode_count 0 = 1024"
  using encode_count_nat [of 0 1025] encode_count_nat [of 16 67108864] decode_count_ends(1)
  by simp

text \<open>
  C24. Deriving a key with an iterated specifier returns a key of exactly the requested size: the
  concatenated digests, the \<open>i\<close>-th over \<open>i\<close> zero octets followed by salt and password repeated
  up to the count and at least once. The loop that is unrolled sixteen times hashes the same octets as the
  standard's description.
\<close>

theorem s2k_iterated_key:
  assumes "context hash = Inr (sz, digest)" "0 < sz" "\<And>x. length (digest x) = sz" "length salt = 8"
  shows "\<exists>key. derive_key context argon2 (S2K.Iterated hash salt hash_bytes) password n = Inr key
    \<and> length key = n
    \<and> key = take n (concat (map (\<lambda>i. digest (replicate i 0 @ hashed_octets salt password (unat hash_bytes))) [0..<n]))"
proof -
  have "salt \<noteq> []" using assms(4) by auto
  then have "iterated_data salt password hash_bytes = hashed_octets salt password (unat hash_bytes)"
    by (rule iterated_data_hashed_octets)
  then show ?thesis using hash_key_blocks [of "context" hash sz digest, OF assms(1-3)] by (simp add: derive_key_def)
qed

theorem s2k_iterated_key_witness:
  "\<exists>key. derive_key (\<lambda>_. Inr (2, \<lambda>x. [word_of_nat (length x), 9])) (\<lambda>_ _ _ _ _ _. Inl Panic)
      (S2K.Iterated HashAlgorithm.SHA256 [1, 2, 3, 4, 5, 6, 7, 8] 1024) [65, 66] 3 = Inr key
    \<and> length key = 3
    \<and> key = take 3 (concat (map (\<lambda>i. [word_of_nat (length (replicate i 0 @
          hashed_octets [1, 2, 3, 4, 5, 6, 7, 8] [65, 66] (unat (1024 :: u32)))), 9]) [0..<3]))"
  by (rule s2k_iterated_key [of "\<lambda>_. Inr (2, \<lambda>x. [word_of_nat (length x), 9])"]) simp_all

end
