(* ===== verification/Keys.thy ===== *)
theory Keys
  imports S2k KeyHandles
begin

text \<open>
  Key packets: the data of versions 4 and 6 (\<open>packet/key.rs\<close>, \<open>packet/key/v4.rs\<close>, \<open>packet/key/v6.rs\<close>), the
  parser of their bodies (\<open>parse.rs\<close>), their writer (\<open>serialize.rs\<close>), and the octets that are hashed for
  fingerprints and signatures (\<open>crypto/hash.rs\<close>).

  The type parameters of the Rust types say whether the secret parts of a key count; here this is the
  argument \<open>significant\<close>. The role of a key and the cache of its fingerprint are left out. The digests SHA-1 and
  SHA-256 are parameters.
\<close>

section \<open>Data\<close>

record Encrypted =
  enc_s2k :: S2K
  enc_algo :: SymmetricAlgorithm
  enc_aead :: "(AEADAlgorithm \<times> bytes) option"
  enc_checksum :: "SecretKeyChecksum option"
  enc_ciphertext :: "bytes + nat \<times> bytes"

datatype KeySecret = Unencrypted SecretKeyMaterial | Encrypted Encrypted

record Key4 =
  creation_time :: u32
  key_pk_algo :: PublicKeyAlgorithm
  key_mpis :: PublicKey
  secret :: "KeySecret option"

datatype Key = V4 Key4 | V6 Key4

definition Encrypted_new_aead :: "S2K \<Rightarrow> SymmetricAlgorithm \<Rightarrow> AEADAlgorithm \<Rightarrow> bytes \<Rightarrow> bytes \<Rightarrow> Encrypted" where
  "Encrypted_new_aead s2k sym_algo aead_algo aead_iv c =
     \<lparr>enc_s2k = s2k, enc_algo = sym_algo, enc_aead = Some (aead_algo, aead_iv), enc_checksum = None, enc_ciphertext = Inr (0, c)\<rparr>"

definition Encrypted_new_raw ::
    "S2K \<Rightarrow> SymmetricAlgorithm \<Rightarrow> SecretKeyChecksum option \<Rightarrow> bytes + nat \<times> bytes \<Rightarrow> Encrypted" where
  "Encrypted_new_raw s2k algo checksum c =
     \<lparr>enc_s2k = s2k, enc_algo = algo, enc_aead = None, enc_checksum = checksum, enc_ciphertext = c\<rparr>"

definition raw_ciphertext :: "Encrypted \<Rightarrow> bytes" where
  "raw_ciphertext e = (case enc_ciphertext e of Inr (_, c) \<Rightarrow> c | Inl c \<Rightarrow> c)"

definition Encrypted_ciphertext :: "Encrypted \<Rightarrow> bytes res" where
  "Encrypted_ciphertext e = (case enc_ciphertext e of Inr (_, c) \<Rightarrow> Inr c | Inl _ \<Rightarrow> Inl (Err MalformedPacket))"

definition cfb_iv_len :: "Encrypted \<Rightarrow> nat" where
  "cfb_iv_len e = (case enc_ciphertext e of Inr (n, _) \<Rightarrow> n | Inl _ \<Rightarrow> 0)"

definition Key4_make :: "u32 \<Rightarrow> PublicKeyAlgorithm \<Rightarrow> PublicKey \<Rightarrow> KeySecret option \<Rightarrow> Key4" where
  "Key4_make t pk_algo mpis s = \<lparr>creation_time = t, key_pk_algo = pk_algo, key_mpis = mpis, secret = s\<rparr>"

definition nonce_size :: "AEADAlgorithm \<Rightarrow> nat res" where
  "nonce_size a =
     (case a of
        AEADAlgorithm.EAX \<Rightarrow> Inr 16
      | AEADAlgorithm.OCB \<Rightarrow> Inr 15
      | AEADAlgorithm.GCM \<Rightarrow> Inr 12
      | _ \<Rightarrow> Inl (Err (UnsupportedAEADAlgorithm a)))"

section \<open>Parsing\<close>

text \<open>
  Fields with an announced length. The position \<open>pos\<close> is the number of octets read from the packet; it
  has to fit 32 bits.
\<close>

record VariableSizedField =
  vf_start :: nat
  vf_length :: nat

definition variable_sized_field_start :: "nat \<Rightarrow> nat \<Rightarrow> VariableSizedField res" where
  "variable_sized_field_start pos len =
     (if pos < 2 ^ 32 then Inr \<lparr>vf_start = pos, vf_length = len\<rparr> else Inl Panic)"

definition variable_sized_field_remaining :: "nat \<Rightarrow> VariableSizedField \<Rightarrow> nat res" where
  "variable_sized_field_remaining pos f =
     (if pos < 2 ^ 32 then Inr (vf_length f - (pos - vf_start f)) else Inl Panic)"

definition variable_sized_field_end :: "nat \<Rightarrow> VariableSizedField \<Rightarrow> unit res" where
  "variable_sized_field_end pos f =
     (if pos < 2 ^ 32 then
        (let l = pos - vf_start f in
         if l < vf_length f then Inl (Err MalformedPacket)
         else if l = vf_length f then Inr ()
         else Inl (Err MalformedPacket))
      else Inl Panic)"

text \<open>The secret part of a key of version 4. It is absent if there are no more octets.\<close>

definition Key4_parse_secret :: "(bytes \<Rightarrow> bytes) \<Rightarrow> PublicKeyAlgorithm \<Rightarrow> KeySecret option reader" where
  "Key4_parse_secret sha1 pk_algo bs =
     (case parse_u8 bs of
        Inl _ \<Rightarrow> Inr (None, bs)
      | Inr (s2k_usage, bs) \<Rightarrow>
          if s2k_usage = 0 then
            and_then (SecretKeyMaterial_parse sha1 pk_algo (Some SecretKeyChecksum.Sum16) bs) (\<lambda>(sec, bs).
              Inr (Some (Unencrypted sec), bs))
          else if s2k_usage = 253 then
            and_then (parse_u8 bs) (\<lambda>(sym_algo, bs).
            and_then (parse_u8 bs) (\<lambda>(aead_algo, bs).
            and_then (S2K_parse_v4 bs) (\<lambda>(s2k, bs).
            and_then (parse_bytes (case nonce_size (AEADAlgorithm_from_u8 aead_algo) of Inr n \<Rightarrow> n | Inl _ \<Rightarrow> 0) bs) (\<lambda>(aead_iv, bs).
            and_then (parse_bytes_eof bs) (\<lambda>(cipher, bs).
              Inr (Some (Encrypted (Encrypted_new_aead s2k (SymmetricAlgorithm_from_u8 sym_algo)
                     (AEADAlgorithm_from_u8 aead_algo) aead_iv cipher)), bs))))))
          else
            and_then (if s2k_usage = 254 \<or> s2k_usage = 255 then parse_u8 bs else Inr (s2k_usage, bs)) (\<lambda>(sk, bs).
            and_then (if s2k_usage = 254 \<or> s2k_usage = 255 then S2K_parse_v4 bs else Inr (S2K.Implicit, bs)) (\<lambda>(s2k, bs).
            and_then (parse_bytes_eof bs) (\<lambda>(cipher, bs).
              Inr (Some (Encrypted (Encrypted_new_raw s2k (SymmetricAlgorithm_from_u8 sk)
                     (Some (if s2k_usage = 254 then SecretKeyChecksum.SHA1 else SecretKeyChecksum.Sum16))
                     (if S2K_is_supported s2k then Inr (0, cipher) else Inl cipher))), bs)))))"

text \<open>The secret part has to be there or not by the tag of the packet; a packet without a header has the reserved tag.\<close>

definition check_secret :: "Tag \<Rightarrow> KeySecret option \<Rightarrow> unit res" where
  "check_secret tag s =
     (if s \<noteq> None then
        (if tag = Tag.PublicKey \<or> tag = Tag.PublicSubkey then Inl (Err MalformedPacket) else Inr ())
      else if tag = Tag.SecretKey \<or> tag = Tag.SecretSubkey then Inl (Err MalformedPacket)
      else Inr ())"

definition Key4_parse :: "(bytes \<Rightarrow> bytes) \<Rightarrow> Tag \<Rightarrow> Key4 reader" where
  "Key4_parse sha1 tag bs =
     and_then (read_be_u32 bs) (\<lambda>(t, bs).
     and_then (parse_u8 bs) (\<lambda>(pk_algo, bs).
     and_then (PublicKey_parse (PublicKeyAlgorithm_from_u8 pk_algo) bs) (\<lambda>(mpis, bs).
     and_then (Key4_parse_secret sha1 (PublicKeyAlgorithm_from_u8 pk_algo) bs) (\<lambda>(s, bs).
     and_then (check_secret tag s) (\<lambda>_.
       Inr (Key4_make t (PublicKeyAlgorithm_from_u8 pk_algo) mpis s, bs))))))"

text \<open>
  Encrypted secret parts of version 6: the parameters, among them the specifier, have an announced length. The
  octets before \<open>bs\<close> in the packet are \<open>pos\<close> minus those left.
\<close>

definition s2k_field_v6 :: "(bytes \<Rightarrow> nat) \<Rightarrow> S2K reader" where
  "s2k_field_v6 pos bs =
     and_then (parse_u8 bs) (\<lambda>(s2k_len, bs).
     and_then (variable_sized_field_start (pos bs) (unat s2k_len)) (\<lambda>s2k_params.
     and_then (S2K_parse_v6 s2k_len bs) (\<lambda>(s2k, bs).
     and_then (variable_sized_field_end (pos bs) s2k_params) (\<lambda>_. Inr (s2k, bs)))))"

definition Key6_parse_secret :: "(bytes \<Rightarrow> bytes) \<Rightarrow> (bytes \<Rightarrow> nat) \<Rightarrow> PublicKeyAlgorithm \<Rightarrow> KeySecret option reader" where
  "Key6_parse_secret sha1 pos pk_algo bs =
     (case parse_u8 bs of
        Inl _ \<Rightarrow> Inr (None, bs)
      | Inr (s2k_usage, bs) \<Rightarrow>
          if s2k_usage = 0 then
            and_then (SecretKeyMaterial_parse sha1 pk_algo None bs) (\<lambda>(sec, bs). Inr (Some (Unencrypted sec), bs))
          else if 1 \<le> s2k_usage \<and> s2k_usage \<le> 252 then Inl (Err MalformedPacket)
          else if s2k_usage = 253 then
            and_then (parse_u8 bs) (\<lambda>(parameters_len, bs).
            and_then (variable_sized_field_start (pos bs) (unat parameters_len)) (\<lambda>parameters.
            and_then (parse_u8 bs) (\<lambda>(sym_algo, bs).
            and_then (parse_u8 bs) (\<lambda>(aead_algo, bs).
            and_then (s2k_field_v6 pos bs) (\<lambda>(s2k, bs).
            and_then (variable_sized_field_remaining (pos bs) parameters) (\<lambda>n.
            and_then (parse_bytes n bs) (\<lambda>(aead_iv, bs).
            and_then (variable_sized_field_end (pos bs) parameters) (\<lambda>_.
            and_then (parse_bytes_eof bs) (\<lambda>(cipher, bs).
              Inr (Some (Encrypted (Encrypted_new_aead s2k (SymmetricAlgorithm_from_u8 sym_algo)
                     (AEADAlgorithm_from_u8 aead_algo) aead_iv cipher)), bs))))))))))
          else
            and_then (parse_u8 bs) (\<lambda>(parameters_len, bs).
            and_then (variable_sized_field_start (pos bs) (unat parameters_len)) (\<lambda>parameters.
            and_then (parse_u8 bs) (\<lambda>(sym_algo, bs).
            and_then (s2k_field_v6 pos bs) (\<lambda>(s2k, bs).
            and_then (variable_sized_field_remaining (pos bs) parameters) (\<lambda>n.
            and_then (parse_bytes n bs) (\<lambda>(cfb_iv, bs).
            and_then (variable_sized_field_end (pos bs) parameters) (\<lambda>_.
            and_then (parse_bytes_eof bs) (\<lambda>(cipher, bs).
              Inr (Some (Encrypted (Encrypted_new_raw s2k (SymmetricAlgorithm_from_u8 sym_algo)
                     (Some (if s2k_usage = 254 then SecretKeyChecksum.SHA1 else SecretKeyChecksum.Sum16))
                     (Inr (length cfb_iv, cfb_iv @ cipher)))), bs))))))))))"

definition Key6_parse :: "(bytes \<Rightarrow> bytes) \<Rightarrow> (bytes \<Rightarrow> nat) \<Rightarrow> Tag \<Rightarrow> Key4 reader" where
  "Key6_parse sha1 pos tag bs =
     and_then (read_be_u32 bs) (\<lambda>(t, bs).
     and_then (parse_u8 bs) (\<lambda>(pk_algo, bs).
     and_then (read_be_u32 bs) (\<lambda>(public_len, bs).
     and_then (variable_sized_field_start (pos bs) (unat public_len)) (\<lambda>public_mpis.
     and_then (PublicKey_parse (PublicKeyAlgorithm_from_u8 pk_algo) bs) (\<lambda>(mpis, bs).
     and_then (variable_sized_field_end (pos bs) public_mpis) (\<lambda>_.
     and_then (Key6_parse_secret sha1 pos (PublicKeyAlgorithm_from_u8 pk_algo) bs) (\<lambda>(s, bs).
     and_then (check_secret tag s) (\<lambda>_.
       Inr (Key4_make t (PublicKeyAlgorithm_from_u8 pk_algo) mpis s, bs)))))))))"

definition Key_parse :: "(bytes \<Rightarrow> bytes) \<Rightarrow> Tag \<Rightarrow> Key reader" where
  "Key_parse sha1 tag body =
     (if \<not> (tag = Tag.Reserved \<or> tag = Tag.PublicKey \<or> tag = Tag.PublicSubkey \<or> tag = Tag.SecretKey \<or> tag = Tag.SecretSubkey)
      then Inl Panic
      else
        and_then (parse_u8 body) (\<lambda>(version, bs).
          if version = 4 then and_then (Key4_parse sha1 tag bs) (\<lambda>(k, bs). Inr (Key.V4 k, bs))
          else if version = 6 then
            and_then (Key6_parse sha1 (\<lambda>bs. length body - length bs) tag bs) (\<lambda>(k, bs). Inr (Key.V6 k, bs))
          else Inl (Err MalformedPacket)))"

definition Key_from_bytes :: "(bytes \<Rightarrow> bytes) \<Rightarrow> bytes \<Rightarrow> Key res" where
  "Key_from_bytes sha1 bs =
     and_then (Key_parse sha1 Tag.Reserved bs) (\<lambda>(k, rest).
       if rest \<noteq> [] then Inl (Err MalformedPacket) else Inr k)"

section \<open>Writing\<close>

definition checksum_usage :: "Encrypted \<Rightarrow> u8 res" where
  "checksum_usage e =
     (case enc_checksum e of
        Some SecretKeyChecksum.SHA1 \<Rightarrow> Inr 254
      | Some SecretKeyChecksum.Sum16 \<Rightarrow> Inr 255
      | None \<Rightarrow> Inl (Err InvalidOperation))"

text \<open>\<open>try_into().unwrap_or(0)\<close> for an octet.\<close>

definition u8_or_zero :: "nat \<Rightarrow> u8" where
  "u8_or_zero n = (if n < 256 then word_of_nat n else 0)"

definition Key4_serialize_secret :: "(bytes \<Rightarrow> bytes) \<Rightarrow> KeySecret \<Rightarrow> bytes res" where
  "Key4_serialize_secret sha1 s =
     (case s of
        Unencrypted mpis \<Rightarrow>
          and_then (SecretKeyMaterial_serialize_with_checksum sha1 SecretKeyChecksum.Sum16 mpis) (\<lambda>m. Inr (0 # m))
      | Encrypted e \<Rightarrow>
          (case enc_aead e of
             Some (aead_algo, aead_iv) \<Rightarrow>
               and_then (S2K_serialize (enc_s2k e)) (\<lambda>s2k.
                 Inr ([253, u8_from_SymmetricAlgorithm (enc_algo e), u8_from_AEADAlgorithm aead_algo]
                      @ s2k @ aead_iv @ raw_ciphertext e))
           | None \<Rightarrow>
               and_then (if enc_s2k e = S2K.Implicit then Inr []
                         else and_then (checksum_usage e) (\<lambda>u. Inr [u])) (\<lambda>usage.
               and_then (S2K_serialize (enc_s2k e)) (\<lambda>s2k.
                 Inr (usage @ [u8_from_SymmetricAlgorithm (enc_algo e)] @ s2k @ raw_ciphertext e)))))"

definition Key4_serialize :: "(bytes \<Rightarrow> bytes) \<Rightarrow> bool \<Rightarrow> Key4 \<Rightarrow> bytes res" where
  "Key4_serialize sha1 significant k =
     and_then (PublicKey_serialize (key_mpis k)) (\<lambda>mpis.
       and_then (case secret k of
                   Some s \<Rightarrow> if significant then Key4_serialize_secret sha1 s else Inr []
                 | None \<Rightarrow> Inr []) (\<lambda>sec.
         Inr ([4] @ to_be_u32 (creation_time k) @ [u8_from_PublicKeyAlgorithm (key_pk_algo k)] @ mpis @ sec)))"

definition Key4_net_len :: "bool \<Rightarrow> Key4 \<Rightarrow> nat" where
  "Key4_net_len significant k =
     1 + 4 + 1 + PublicKey_serialized_len (key_mpis k)
     + (case secret k of
          Some s \<Rightarrow>
            if significant then
              1 + (case s of
                     Unencrypted mpis \<Rightarrow> SecretKeyMaterial_serialized_len mpis + 2
                   | Encrypted e \<Rightarrow>
                       (if enc_s2k e = S2K.Implicit then 0 else 1) + (if enc_aead e \<noteq> None then 1 else 0)
                       + S2K_serialized_len (enc_s2k e) + (case enc_aead e of Some (_, iv) \<Rightarrow> length iv | None \<Rightarrow> 0)
                       + length (raw_ciphertext e))
            else 0
        | None \<Rightarrow> 0)"

definition Key6_serialize_secret :: "KeySecret \<Rightarrow> bytes res" where
  "Key6_serialize_secret s =
     (case s of
        Unencrypted mpis \<Rightarrow> and_then (SecretKeyMaterial_serialize mpis) (\<lambda>m. Inr (0 # m))
      | Encrypted e \<Rightarrow>
          (case enc_aead e of
             Some (aead_algo, aead_iv) \<Rightarrow>
               and_then (S2K_serialize (enc_s2k e)) (\<lambda>s2k.
                 Inr ([253, u8_or_zero (1 + 1 + 1 + S2K_serialized_len (enc_s2k e) + length aead_iv),
                       u8_from_SymmetricAlgorithm (enc_algo e), u8_from_AEADAlgorithm aead_algo,
                       u8_or_zero (S2K_serialized_len (enc_s2k e))]
                      @ s2k @ aead_iv @ raw_ciphertext e))
           | None \<Rightarrow>
               and_then (checksum_usage e) (\<lambda>usage.
               and_then (S2K_serialize (enc_s2k e)) (\<lambda>s2k.
                 Inr ([usage, u8_or_zero (1 + 1 + S2K_serialized_len (enc_s2k e) + cfb_iv_len e),
                       u8_from_SymmetricAlgorithm (enc_algo e), u8_or_zero (S2K_serialized_len (enc_s2k e))]
                      @ s2k @ raw_ciphertext e)))))"

definition Key6_serialize :: "bool \<Rightarrow> Key4 \<Rightarrow> bytes res" where
  "Key6_serialize significant k =
     and_then (PublicKey_serialize (key_mpis k)) (\<lambda>mpis.
       and_then (case secret k of
                   Some s \<Rightarrow> if significant then Key6_serialize_secret s else Inr []
                 | None \<Rightarrow> Inr []) (\<lambda>sec.
         Inr ([6] @ to_be_u32 (creation_time k) @ [u8_from_PublicKeyAlgorithm (key_pk_algo k)]
              @ to_be_u32 (word_of_nat (PublicKey_serialized_len (key_mpis k))) @ mpis @ sec)))"

definition Key6_net_len :: "bool \<Rightarrow> Key4 \<Rightarrow> nat" where
  "Key6_net_len significant k =
     1 + 4 + 1 + 4 + PublicKey_serialized_len (key_mpis k)
     + (case secret k of
          Some s \<Rightarrow>
            if significant then
              1 + (case s of
                     Unencrypted mpis \<Rightarrow> SecretKeyMaterial_serialized_len mpis
                   | Encrypted e \<Rightarrow>
                       1 + 1 + (if enc_aead e \<noteq> None then 1 else 0) + 1 + S2K_serialized_len (enc_s2k e)
                       + (case enc_aead e of Some (_, iv) \<Rightarrow> length iv | None \<Rightarrow> 0) + length (raw_ciphertext e))
            else 0
        | None \<Rightarrow> 0)"

definition Key_serialize :: "(bytes \<Rightarrow> bytes) \<Rightarrow> bool \<Rightarrow> Key \<Rightarrow> bytes res" where
  "Key_serialize sha1 significant k =
     (case k of Key.V4 k \<Rightarrow> Key4_serialize sha1 significant k | Key.V6 k \<Rightarrow> Key6_serialize significant k)"

definition Key_net_len :: "bool \<Rightarrow> Key \<Rightarrow> nat" where
  "Key_net_len significant k = (case k of Key.V4 k \<Rightarrow> Key4_net_len significant k | Key.V6 k \<Rightarrow> Key6_net_len significant k)"

section \<open>Hashing\<close>

text \<open>
  The octets hashed for a key under a signature of the given version. A length that does not fit is the conversion
  error of \<open>try_from\<close>, an error from outside the crate like those of the readers; \<open>fingerprint\<close> expects that there
  is none.
\<close>

definition write_key_hash_header :: "nat \<Rightarrow> u8 option \<Rightarrow> bytes res" where
  "write_key_hash_header public_len for_signature =
     (case for_signature of
        None \<Rightarrow> Inl (Err InvalidOperation)
      | Some v \<Rightarrow>
          if v = 3 \<or> v = 4 then
            (if public_len < 2 ^ 16 then Inr (0x99 # to_be_u16 (word_of_nat public_len)) else Inl (IoErr OtherError))
          else if v = 6 then
            (if public_len < 2 ^ 32 then Inr (0x9b # to_be_u32 (word_of_nat public_len)) else Inl (IoErr OtherError))
          else Inl (Err InvalidOperation))"

definition Key4_hash :: "u8 option \<Rightarrow> Key4 \<Rightarrow> bytes res" where
  "Key4_hash for_signature k =
     and_then (write_key_hash_header ((9 - 3) + PublicKey_serialized_len (key_mpis k)) for_signature) (\<lambda>header.
     and_then (PublicKey_serialize (key_mpis k)) (\<lambda>mpis.
       Inr (header @ [4] @ to_be_u32 (creation_time k) @ [u8_from_PublicKeyAlgorithm (key_pk_algo k)] @ mpis)))"

definition Key6_hash :: "u8 option \<Rightarrow> Key4 \<Rightarrow> bytes res" where
  "Key6_hash for_signature k =
     and_then (write_key_hash_header ((15 - 5) + PublicKey_serialized_len (key_mpis k)) for_signature) (\<lambda>header.
     and_then (PublicKey_serialize (key_mpis k)) (\<lambda>mpis.
       Inr (header @ [6] @ to_be_u32 (creation_time k) @ [u8_from_PublicKeyAlgorithm (key_pk_algo k)]
            @ to_be_u32 (word_of_nat (PublicKey_serialized_len (key_mpis k))) @ mpis)))"

definition Key4_fingerprint :: "(bytes \<Rightarrow> bytes) \<Rightarrow> Key4 \<Rightarrow> Fingerprint res" where
  "Key4_fingerprint sha1 k =
     (case Key4_hash (Some 4) k of Inr h \<Rightarrow> Inr (Fingerprint.V4 (sha1 h)) | Inl _ \<Rightarrow> Inl Panic)"

definition Key6_fingerprint :: "(bytes \<Rightarrow> bytes) \<Rightarrow> Key4 \<Rightarrow> Fingerprint res" where
  "Key6_fingerprint sha256 k =
     (case Key6_hash (Some 6) k of Inr h \<Rightarrow> Inr (Fingerprint.V6 (sha256 h)) | Inl _ \<Rightarrow> Inl Panic)"

definition Key_fingerprint :: "(bytes \<Rightarrow> bytes) \<Rightarrow> (bytes \<Rightarrow> bytes) \<Rightarrow> Key \<Rightarrow> Fingerprint res" where
  "Key_fingerprint sha1 sha256 k =
     (case k of Key.V4 k \<Rightarrow> Key4_fingerprint sha1 k | Key.V6 k \<Rightarrow> Key6_fingerprint sha256 k)"

definition Key_keyid :: "(bytes \<Rightarrow> bytes) \<Rightarrow> (bytes \<Rightarrow> bytes) \<Rightarrow> Key \<Rightarrow> KeyID res" where
  "Key_keyid sha1 sha256 k = and_then (Key_fingerprint sha1 sha256 k) (\<lambda>fp. Inr (KeyID_from_Fingerprint fp))"

end
