(* ===== verification/KeyCodec.thy ===== *)
theory KeyCodec
  imports Keys
begin

text \<open>
  Reading and writing key packets are inverse to each other; the fingerprint of a key is the digest of its
  framed public part.
\<close>

section \<open>Secret parts of version 4\<close>

definition KeySecret_ok4 :: "PublicKeyAlgorithm \<Rightarrow> KeySecret \<Rightarrow> bool" where
  "KeySecret_ok4 pk s =
     (case s of
        Unencrypted m \<Rightarrow> SecretKeyMaterial_wf m \<and> SecretKeyMaterial_algo m = algo_family pk \<and> algo_family pk \<noteq> None
      | Encrypted e \<Rightarrow>
          SymmetricAlgorithm_canonical (enc_algo e)
          \<and> (case enc_aead e of
               Some (a, iv) \<Rightarrow>
                 AEADAlgorithm_canonical a \<and> length iv = (case nonce_size a of Inr n \<Rightarrow> n | Inl _ \<Rightarrow> 0)
                 \<and> S2K_wf None (enc_s2k e) \<and> enc_checksum e = None \<and> enc_ciphertext e = Inr (0, raw_ciphertext e)
             | None \<Rightarrow>
                 if enc_s2k e = S2K.Implicit then
                   u8_from_SymmetricAlgorithm (enc_algo e) \<notin> {0, 253, 254, 255} \<and> enc_checksum e = Some SecretKeyChecksum.Sum16
                   \<and> enc_ciphertext e = Inr (0, raw_ciphertext e)
                 else
                   S2K_wf None (enc_s2k e) \<and> enc_checksum e \<noteq> None
                   \<and> enc_ciphertext e = (if S2K_is_supported (enc_s2k e) then Inr (0, raw_ciphertext e) else Inl (raw_ciphertext e))))"

lemmas encrypted_defs = Encrypted_new_aead_def Encrypted_new_raw_def raw_ciphertext_def

lemma S2K_not_implicit [simp]: "\<not> S2K_wf l S2K.Implicit"
  by (simp add: S2K_wf_def)

lemma S2K_v4_exact:
  "S2K_parse_v4 bs = Inr (s, rest) \<Longrightarrow> S2K_wf None s \<and> (\<exists>c. S2K_serialize s = Inr c \<and> length c = S2K_serialized_len s \<and> bs = c @ rest)"
  using S2K_parse_common_exact [of None bs s rest] by (simp add: S2K_parse_v4_def)

lemma S2K_v4_written: "S2K_wf None s \<Longrightarrow> S2K_serialize s = Inr c \<Longrightarrow> S2K_parse_v4 (c @ rest) = Inr (s, rest)"
  using S2K_serialize_parse_common [of None s rest] by (auto simp: S2K_parse_v4_def size_fits_def)

lemma checksum_cases: "enc_checksum e \<noteq> None \<Longrightarrow> enc_checksum e = Some SecretKeyChecksum.SHA1 \<or> enc_checksum e = Some SecretKeyChecksum.Sum16"
  by (metis option.exhaust SecretKeyChecksum.exhaust)

lemma Key4_parse_secret_exact:
  assumes "Key4_parse_secret sha1 pk bs = Inr (s, [])"
  shows "case s of None \<Rightarrow> bs = [] | Some x \<Rightarrow> KeySecret_ok4 pk x \<and> Key4_serialize_secret sha1 x = Inr bs"
proof (cases bs)
  case Nil
  then show ?thesis using assms by (auto simp: Key4_parse_secret_def parse_u8_def)
next
  case (Cons u bs1)
  consider "u = 0" | "u = 253" | "u = 254 \<or> u = 255" | "u \<noteq> 0" "u \<noteq> 253" "u \<noteq> 254" "u \<noteq> 255" by blast
  then show ?thesis
  proof cases
    case 1
    then obtain m where m: "SecretKeyMaterial_parse sha1 pk (Some SecretKeyChecksum.Sum16) bs1 = Inr (m, [])" "s = Some (Unencrypted m)"
      using assms Cons by (auto simp: Key4_parse_secret_def parse_u8_def result_simps)
    then show ?thesis
      using SecretKeyMaterial_parse_checksum [of SecretKeyChecksum.Sum16 sha1 pk bs1 m "[]"] 1 Cons
      by (auto simp: KeySecret_ok4_def Key4_serialize_secret_def)
  next
    case 2
    then obtain a b t bs2 iv c where e: "bs1 = a # b # bs2" "S2K_parse_v4 bs2 = Inr (t, iv @ c)"
        "length iv = (case nonce_size (AEADAlgorithm_from_u8 b) of Inr n \<Rightarrow> n | Inl _ \<Rightarrow> 0)"
        "s = Some (Encrypted (Encrypted_new_aead t (SymmetricAlgorithm_from_u8 a) (AEADAlgorithm_from_u8 b) iv c))"
      using assms Cons by (auto simp: Key4_parse_secret_def parse_u8_Cons result_simps field_inverts parse_bytes_eof_def)
    then show ?thesis
      using S2K_v4_exact [OF e(2)] 2 Cons
      by (auto simp: KeySecret_ok4_def Key4_serialize_secret_def encrypted_defs sym_algo.canonical_of sym_algo.to_of
          aead_algo.canonical_of aead_algo.to_of)
  next
    case 3
    then obtain a t bs2 c where e: "bs1 = a # bs2" "S2K_parse_v4 bs2 = Inr (t, c)"
        "s = Some (Encrypted (Encrypted_new_raw t (SymmetricAlgorithm_from_u8 a)
           (Some (if u = 254 then SecretKeyChecksum.SHA1 else SecretKeyChecksum.Sum16))
           (if S2K_is_supported t then Inr (0, c) else Inl c)))"
      using assms Cons by (auto simp: Key4_parse_secret_def parse_u8_Cons result_simps field_inverts parse_bytes_eof_def)
    then show ?thesis
      using S2K_v4_exact [OF e(2)] 3 Cons
      by (auto simp: KeySecret_ok4_def Key4_serialize_secret_def encrypted_defs checksum_usage_def sym_algo.canonical_of sym_algo.to_of)
  next
    case 4
    then have "s = Some (Encrypted (Encrypted_new_raw S2K.Implicit (SymmetricAlgorithm_from_u8 u) (Some SecretKeyChecksum.Sum16) (Inr (0, bs1))))"
      using assms Cons by (auto simp: Key4_parse_secret_def parse_u8_Cons result_simps field_inverts parse_bytes_eof_def S2K_is_supported_def)
    then show ?thesis
      using 4 Cons
      by (auto simp: KeySecret_ok4_def Key4_serialize_secret_def encrypted_defs S2K_serialize_def sym_algo.canonical_of sym_algo.to_of)
  qed
qed

lemma Key4_parse_secret_written:
  assumes "KeySecret_ok4 pk x" "Key4_serialize_secret sha1 x = Inr bs"
  shows "Key4_parse_secret sha1 pk bs = Inr (Some x, [])"
proof (cases x)
  case (Unencrypted m)
  then show ?thesis
    using assms SecretKeyMaterial_parse_checksum [of SecretKeyChecksum.Sum16 sha1 pk _ m "[]"]
    by (auto simp: KeySecret_ok4_def Key4_serialize_secret_def Key4_parse_secret_def parse_u8_Cons result_simps)
next
  case (Encrypted e)
  show ?thesis
  proof (cases "enc_aead e")
    case None
    show ?thesis
    proof (cases "enc_s2k e = S2K.Implicit")
      case True
      then show ?thesis
        using assms Encrypted None
        by (cases e) (auto simp: KeySecret_ok4_def Key4_serialize_secret_def Key4_parse_secret_def parse_u8_Cons parse_bytes_eof_def
            S2K_serialize_def S2K_is_supported_def Encrypted_new_raw_def sym_algo.of_to)
    next
      case False
      then have c: "enc_checksum e = Some SecretKeyChecksum.SHA1 \<or> enc_checksum e = Some SecretKeyChecksum.Sum16" "S2K_wf None (enc_s2k e)"
        using assms(1) Encrypted None checksum_cases [of e] by (auto simp: KeySecret_ok4_def)
      show ?thesis
        using assms Encrypted None False c(1) S2K_v4_written [OF c(2)]
        by (cases e) (auto simp: KeySecret_ok4_def Key4_serialize_secret_def Key4_parse_secret_def parse_u8_Cons parse_bytes_eof_def
            checksum_usage_def result_simps Encrypted_new_raw_def sym_algo.of_to)
    qed
  next
    case (Some ai)
    then obtain a iv where ai: "enc_aead e = Some (a, iv)" by (cases ai) simp
    then have "S2K_wf None (enc_s2k e)" using assms(1) Encrypted by (simp add: KeySecret_ok4_def)
    then show ?thesis
      using assms Encrypted ai S2K_v4_written [of "enc_s2k e"]
      by (cases e) (auto simp: KeySecret_ok4_def Key4_serialize_secret_def Key4_parse_secret_def parse_u8_Cons parse_bytes_eof_def parse_bytes_def
          result_simps Encrypted_new_aead_def sym_algo.of_to aead_algo.of_to)
  qed
qed

section \<open>Secret parts of version 6\<close>

text \<open>A specifier whose length fits the octet that announces it.\<close>

definition S2K_ok6 :: "S2K \<Rightarrow> bool" where
  "S2K_ok6 s \<longleftrightarrow> S2K_serialized_len s < 256 \<and> S2K_wf (Some (word_of_nat (S2K_serialized_len s))) s"

abbreviation position :: "nat \<Rightarrow> bytes \<Rightarrow> nat" where
  "position N \<equiv> \<lambda>bs. N - length bs"

lemmas field_defs = variable_sized_field_start_def variable_sized_field_remaining_def variable_sized_field_end_def

lemma S2K_serialize_length: "S2K_wf l s \<Longrightarrow> S2K_serialize s = Inr c \<Longrightarrow> length c = S2K_serialized_len s"
  by (cases s) (auto simp: s2k_defs result_simps split: option.splits)

lemma s2k_field_v6_exact:
  assumes "s2k_field_v6 (position N) bs = Inr (s, rest)" "length bs \<le> N" "N < 2 ^ 32"
  shows "S2K_ok6 s \<and> (\<exists>c. S2K_serialize s = Inr c \<and> length c = S2K_serialized_len s \<and> bs = word_of_nat (length c) # c @ rest)"
proof -
  obtain l bs1 where p: "bs = l # bs1" "S2K_parse_common (Some l) bs1 = Inr (s, rest)" "(N - length rest) - (N - length bs1) = unat l"
    using assms(1) by (auto simp: s2k_field_v6_def S2K_parse_v6_def result_simps field_inverts field_defs Let_def split: if_splits)
  obtain c where c: "S2K_wf (Some l) s" "S2K_serialize s = Inr c" "length c = S2K_serialized_len s" "bs1 = c @ rest"
    using S2K_parse_common_exact [OF p(2)] by blast
  have "length c = unat l" using p(1,3) c(4) assms(2) by simp
  then show ?thesis using c p(1) unat_u8_less [of l] by (auto simp: S2K_ok6_def simp del: unat_u8_less)
qed

lemma s2k_field_v6_written:
  assumes "S2K_ok6 s" "S2K_serialize s = Inr c" "length c < N" "length c + length rest < N" "N < 2 ^ 32"
  shows "s2k_field_v6 (position N) (word_of_nat (S2K_serialized_len s) # c @ rest) = Inr (s, rest)"
proof -
  let ?l = "word_of_nat (S2K_serialized_len s) :: u8"
  have l: "unat ?l = S2K_serialized_len s" using assms(1) by (simp add: S2K_ok6_def unat_word_of_nat_u8)
  have wf: "S2K_wf (Some ?l) s" using assms(1) by (simp add: S2K_ok6_def)
  have "?l \<noteq> 0" using l wf by (cases s) (auto simp: S2K_wf_def S2K_serialized_len_def)
  then have "size_fits (Some ?l) s" using l by (auto simp: size_fits_def split: S2K.splits)
  then have p: "S2K_parse_common (Some ?l) (c @ rest) = Inr (s, rest)"
    using S2K_serialize_parse_common [OF wf, of rest] assms(2) by auto
  have "length c = S2K_serialized_len s" using S2K_parse_common_exact [OF p] assms(2) by auto
  then show ?thesis
    using assms(3-5) p l
    by (simp add: s2k_field_v6_def S2K_parse_v6_def parse_u8_Cons field_defs Let_def less_imp_diff_less)
qed

definition KeySecret_ok6 :: "PublicKeyAlgorithm \<Rightarrow> KeySecret \<Rightarrow> bool" where
  "KeySecret_ok6 pk s =
     (case s of
        Unencrypted m \<Rightarrow> SecretKeyMaterial_wf m \<and> SecretKeyMaterial_algo m = algo_family pk
      | Encrypted e \<Rightarrow>
          SymmetricAlgorithm_canonical (enc_algo e) \<and> S2K_ok6 (enc_s2k e)
          \<and> enc_ciphertext e = Inr (cfb_iv_len e, raw_ciphertext e)
          \<and> (case enc_aead e of
               Some (a, iv) \<Rightarrow>
                 AEADAlgorithm_canonical a \<and> enc_checksum e = None \<and> cfb_iv_len e = 0
                 \<and> 3 + S2K_serialized_len (enc_s2k e) + length iv < 256
             | None \<Rightarrow>
                 enc_checksum e \<noteq> None \<and> cfb_iv_len e \<le> length (raw_ciphertext e)
                 \<and> 2 + S2K_serialized_len (enc_s2k e) + cfb_iv_len e < 256))"

lemma u8_or_zero_unat: "unat l = n \<Longrightarrow> n < 256 \<and> u8_or_zero n = l"
  by (auto simp: u8_or_zero_def)

lemma last_usages:
  assumes "u \<noteq> (0 :: u8)" "\<not> (1 \<le> u \<and> u \<le> 252)" "u \<noteq> 253"
  shows "u = 254 \<or> u = 255"
proof -
  have "unat u \<noteq> 0" using assms(1) by (simp add: unat_eq_zero)
  moreover have "252 < unat u \<or> unat u < 1" using assms(2) by (auto simp: word_le_nat_alt)
  moreover have "unat u \<noteq> 253" using assms(3) by (simp add: word_unat_eq_iff)
  ultimately have "unat u = 254 \<or> unat u = 255" using unat_u8_le [of u] by linarith
  then show ?thesis by (simp add: word_unat_eq_iff)
qed

lemma Key6_parse_secret_exact:
  assumes "Key6_parse_secret sha1 (position N) pk bs = Inr (s, [])" "length bs \<le> N" "N < 2 ^ 32"
  shows "case s of None \<Rightarrow> bs = [] | Some x \<Rightarrow> KeySecret_ok6 pk x \<and> Key6_serialize_secret x = Inr bs"
proof (cases bs)
  case Nil
  then show ?thesis using assms(1) by (auto simp: Key6_parse_secret_def parse_u8_def)
next
  case (Cons u bs1)
  consider "u = 0" | "u = 253" | "u \<noteq> 0" "\<not> (1 \<le> u \<and> u \<le> 252)" "u \<noteq> 253" | "1 \<le> u \<and> u \<le> 252" by blast
  then show ?thesis
  proof cases
    case 1
    then obtain m where m: "SecretKeyMaterial_parse_mpis pk bs1 = Inr (m, [])" "s = Some (Unencrypted m)"
      using assms(1) Cons
      by (auto simp: Key6_parse_secret_def parse_u8_Cons SecretKeyMaterial_parse_def result_simps)
    then show ?thesis
      using SecretKeyMaterial_parse_mpis_exact [OF m(1)] 1 Cons by (auto simp: KeySecret_ok6_def Key6_serialize_secret_def)
  next
    case 2
    then obtain l a b t bs2 iv c where e: "bs1 = l # a # b # bs2" "s2k_field_v6 (position N) bs2 = Inr (t, iv @ c)"
        "length iv = unat l - ((N - length (iv @ c)) - (N - length (a # b # bs2)))"
        "(N - length c) - (N - length (a # b # bs2)) = unat l"
        "s = Some (Encrypted (Encrypted_new_aead t (SymmetricAlgorithm_from_u8 a) (AEADAlgorithm_from_u8 b) iv c))"
      using assms(1) Cons
      by (auto simp: Key6_parse_secret_def parse_u8_Cons result_simps field_inverts field_defs Let_def parse_bytes_eof_def split: if_splits)
    obtain d where d: "S2K_ok6 t" "S2K_serialize t = Inr d" "length d = S2K_serialized_len t" "bs2 = word_of_nat (length d) # d @ iv @ c"
      using s2k_field_v6_exact [OF e(2)] assms(2,3) Cons e(1) by auto
    have "unat l = Suc (Suc (Suc (S2K_serialized_len t + length iv)))" using e(1,4) d(3,4) assms(2) Cons by simp
    note u8_or_zero_unat [OF this]
    moreover have "u8_or_zero (S2K_serialized_len t) = word_of_nat (S2K_serialized_len t)" using d(1) by (simp add: u8_or_zero_def S2K_ok6_def)
    ultimately show ?thesis
      using d(1-3)
      by (simp add: Cons 2 e(1,5) d(4) KeySecret_ok6_def Key6_serialize_secret_def encrypted_defs cfb_iv_len_def
          sym_algo.canonical_of sym_algo.to_of aead_algo.canonical_of aead_algo.to_of)
  next
    case 3
    then have u: "u = 254 \<or> u = 255" by (rule last_usages)
    obtain l a t bs2 iv c where e: "bs1 = l # a # bs2" "s2k_field_v6 (position N) bs2 = Inr (t, iv @ c)"
        "(N - length c) - (N - length (a # bs2)) = unat l"
        "s = Some (Encrypted (Encrypted_new_raw t (SymmetricAlgorithm_from_u8 a)
           (Some (if u = 254 then SecretKeyChecksum.SHA1 else SecretKeyChecksum.Sum16)) (Inr (length iv, iv @ c))))"
      using assms(1) Cons 3
      by (auto simp: Key6_parse_secret_def parse_u8_Cons result_simps field_inverts field_defs Let_def parse_bytes_eof_def split: if_splits)
    obtain d where d: "S2K_ok6 t" "S2K_serialize t = Inr d" "length d = S2K_serialized_len t" "bs2 = word_of_nat (length d) # d @ iv @ c"
      using s2k_field_v6_exact [OF e(2)] assms(2,3) Cons e(1) by auto
    have "unat l = Suc (Suc (S2K_serialized_len t + length iv))" using e(1,3) d(3,4) assms(2) Cons by simp
    note u8_or_zero_unat [OF this]
    moreover have "u8_or_zero (S2K_serialized_len t) = word_of_nat (S2K_serialized_len t)" using d(1) by (simp add: u8_or_zero_def S2K_ok6_def)
    ultimately show ?thesis
      using d(1-3) u
      by (elim disjE) (simp_all add: Cons e(1,4) d(4) KeySecret_ok6_def Key6_serialize_secret_def encrypted_defs cfb_iv_len_def
          checksum_usage_def sym_algo.canonical_of sym_algo.to_of)
  next
    case 4
    then have "u \<noteq> 0" by auto
    then show ?thesis using assms(1) Cons 4 by (simp add: Key6_parse_secret_def parse_u8_Cons)
  qed
qed

lemma Key6_parse_secret_written:
  assumes "KeySecret_ok6 pk x" "algo_family pk \<noteq> None" "Key6_serialize_secret x = Inr bs" "length bs \<le> N" "N < 2 ^ 32"
  shows "Key6_parse_secret sha1 (position N) pk bs = Inr (Some x, [])"
proof (cases x)
  case (Unencrypted m)
  then obtain c where c: "SecretKeyMaterial_serialize m = Inr c" "bs = 0 # c"
    using assms(3) by (auto simp: Key6_serialize_secret_def result_simps)
  have "SecretKeyMaterial_parse_mpis pk (c @ []) = Inr (m, [])"
    using secret_key.decode_encode [of m pk c "[]"] assms(1,2) Unencrypted c(1) by (simp add: KeySecret_ok6_def)
  then show ?thesis using Unencrypted c(2) by (simp add: Key6_parse_secret_def parse_u8_Cons SecretKeyMaterial_parse_def)
next
  case (Encrypted e)
  note ok = assms(1) [unfolded Encrypted KeySecret_ok6_def, simplified]
  let ?l = "S2K_serialized_len (enc_s2k e)" and ?r = "raw_ciphertext e"
  obtain d where d: "S2K_serialize (enc_s2k e) = Inr d" using assms(3) Encrypted
    by (auto simp: Key6_serialize_secret_def result_simps split: option.splits)
  have l: "u8_or_zero ?l = word_of_nat ?l" "length d = ?l"
    using ok S2K_serialize_length [OF _ d] by (auto simp: u8_or_zero_def S2K_ok6_def)
  have f: "s2k_field_v6 (position N) (word_of_nat ?l # d @ rest) = Inr (enc_s2k e, rest)" if "?l + length rest < N" for rest
    using s2k_field_v6_written [of "enc_s2k e" d N rest] ok d that l(2) assms(5) by simp
  have pos: "position N xs < 2 ^ 32" for xs using assms(5) by simp
  show ?thesis
  proof (cases "enc_aead e")
    case None
    let ?n = "cfb_iv_len e"
    let ?p = "u8_or_zero (Suc (Suc (?l + ?n)))"
    have n: "?n \<le> length ?r" "unat ?p = Suc (Suc (?l + ?n))" using ok None by (auto simp: u8_or_zero_def unat_word_of_nat_u8 simp del: of_nat_Suc)
    obtain u where u: "(u = 254 \<and> enc_checksum e = Some SecretKeyChecksum.SHA1) \<or> (u = 255 \<and> enc_checksum e = Some SecretKeyChecksum.Sum16)"
        "bs = u # ?p # u8_from_SymmetricAlgorithm (enc_algo e) # word_of_nat ?l # d @ take ?n ?r @ drop ?n ?r"
      using assms(3) Encrypted None ok d l checksum_cases [of e]
      by (auto simp: Key6_serialize_secret_def checksum_usage_def result_simps)
    have "e = Encrypted_new_raw (enc_s2k e) (enc_algo e) (enc_checksum e) (Inr (?n, ?r))"
      using ok None by (cases e) (simp add: Encrypted_new_raw_def)
    moreover have "?l + length ?r < N" "4 + ?l + length ?r \<le> N" using assms(4) u(2) l(2) n(1) by auto
    ultimately show ?thesis
      using u(1) pos n ok
      unfolding u(2) Key6_parse_secret_def
      by (elim disjE) (simp_all add: parse_u8_Cons field_defs f parse_bytes_def data_consume_hard_def parse_bytes_eof_def Let_def Encrypted
          sym_algo.of_to l)
  next
    case (Some ai)
    then obtain a iv where ai: "enc_aead e = Some (a, iv)" by (cases ai) simp
    let ?p = "u8_or_zero (Suc (Suc (Suc (?l + length iv))))"
    have n: "unat ?p = Suc (Suc (Suc (?l + length iv)))" using ok ai by (auto simp: u8_or_zero_def unat_word_of_nat_u8 simp del: of_nat_Suc)
    have b: "bs = 253 # ?p # u8_from_SymmetricAlgorithm (enc_algo e) # u8_from_AEADAlgorithm a # word_of_nat ?l # d @ iv @ ?r"
      using assms(3) Encrypted ai d l by (auto simp: Key6_serialize_secret_def result_simps)
    have "e = Encrypted_new_aead (enc_s2k e) (enc_algo e) a iv ?r"
      using ok ai by (intro Encrypted.equality) (auto simp: Encrypted_new_aead_def)
    moreover have "?l + (length iv + length ?r) < N" "5 + ?l + length iv + length ?r \<le> N" using assms(4) b l(2) by auto
    ultimately show ?thesis
      using pos n ok ai
      unfolding b Key6_parse_secret_def
      by (simp add: parse_u8_Cons field_defs f parse_bytes_def data_consume_hard_def parse_bytes_eof_def Let_def Encrypted
          sym_algo.of_to aead_algo.of_to l)
  qed
qed

section \<open>Keys\<close>

definition Key_ok :: "Key \<Rightarrow> bool" where
  "Key_ok key =
     (case key of
        Key.V4 k \<Rightarrow>
          PublicKeyAlgorithm_canonical (key_pk_algo k) \<and> PublicKey_wf (key_mpis k) \<and> PublicKey_algo (key_mpis k) = algo_family (key_pk_algo k)
          \<and> (case secret k of None \<Rightarrow> True | Some s \<Rightarrow> algo_family (key_pk_algo k) \<noteq> None \<and> KeySecret_ok4 (key_pk_algo k) s)
      | Key.V6 k \<Rightarrow>
          PublicKeyAlgorithm_canonical (key_pk_algo k) \<and> PublicKey_wf (key_mpis k) \<and> PublicKey_algo (key_mpis k) = algo_family (key_pk_algo k)
          \<and> (case secret k of None \<Rightarrow> True | Some s \<Rightarrow> algo_family (key_pk_algo k) \<noteq> None \<and> KeySecret_ok6 (key_pk_algo k) s))"

text \<open>What the tag of a key packet says of the secret part.\<close>

definition Key_tag_ok :: "Tag \<Rightarrow> Key \<Rightarrow> bool" where
  "Key_tag_ok tag key = (let s = (case key of Key.V4 k \<Rightarrow> secret k | Key.V6 k \<Rightarrow> secret k) in
     (case tag of
        Tag.Reserved \<Rightarrow> True
      | Tag.PublicKey \<Rightarrow> s = None
      | Tag.PublicSubkey \<Rightarrow> s = None
      | Tag.SecretKey \<Rightarrow> s \<noteq> None
      | Tag.SecretSubkey \<Rightarrow> s \<noteq> None
      | _ \<Rightarrow> False))"

lemma word_of_nat_unat_u32: "word_of_nat (unat (l :: u32)) = l"
  by simp

lemma check_secret_iff:
  "tag \<in> {Tag.Reserved, Tag.PublicKey, Tag.PublicSubkey, Tag.SecretKey, Tag.SecretSubkey} \<Longrightarrow>
     check_secret tag s = Inr () \<longleftrightarrow>
       (case tag of Tag.Reserved \<Rightarrow> True | Tag.PublicKey \<Rightarrow> s = None | Tag.PublicSubkey \<Rightarrow> s = None
        | Tag.SecretKey \<Rightarrow> s \<noteq> None | Tag.SecretSubkey \<Rightarrow> s \<noteq> None | _ \<Rightarrow> False)"
  by (auto simp: check_secret_def)

lemma secret_present:
  assumes "PublicKey_parse a bs = Inr (pk, rest)" "rest \<noteq> []"
  shows "algo_family a \<noteq> None"
  using unknown_consumes_all(1) [OF _ assms(1)] assms(2) by blast

lemma Key_parse_exact:
  assumes "Key_parse sha1 tag bs = Inr (k, [])" "length bs < 2 ^ 32"
  shows "Key_ok k \<and> Key_tag_ok tag k \<and> Key_serialize sha1 True k = Inr bs"
proof -
  have tag: "tag \<in> {Tag.Reserved, Tag.PublicKey, Tag.PublicSubkey, Tag.SecretKey, Tag.SecretSubkey}"
    using assms(1) by (auto simp: Key_parse_def split: if_splits)
  obtain v bs1 where b: "bs = v # bs1" using assms(1) by (auto simp: Key_parse_def result_simps field_inverts split: if_splits)
  consider k4 where "v = 4" "k = Key.V4 k4" "Key4_parse sha1 tag bs1 = Inr (k4, [])"
    | k6 where "v = 6" "k = Key.V6 k6" "Key6_parse sha1 (position (length bs)) tag bs1 = Inr (k6, [])"
    using assms(1) tag b by (auto simp: Key_parse_def parse_u8_Cons result_simps split: if_splits)
  then show ?thesis
  proof cases
    case 1
    then obtain t pk m bs2 s bs3 where p: "bs1 = to_be_u32 t @ pk # bs2" "PublicKey_parse (PublicKeyAlgorithm_from_u8 pk) bs2 = Inr (m, bs3)"
        "Key4_parse_secret sha1 (PublicKeyAlgorithm_from_u8 pk) bs3 = Inr (s, [])" "check_secret tag s = Inr ()"
        "k4 = Key4_make t (PublicKeyAlgorithm_from_u8 pk) m s"
      by (auto simp: Key4_parse_def result_simps field_inverts read_be_u32_eq_Inr)
    show ?thesis
      using PublicKey_parse_exact [OF p(2)] Key4_parse_secret_exact [OF p(3)] p(4) tag secret_present [OF p(2)] b 1 p(1)
      by (auto simp: p(5) Key_ok_def Key_tag_ok_def Key4_make_def Key_serialize_def Key4_serialize_def check_secret_iff pk_algo.to_of
          pk_algo.canonical_of Key4_serialize_secret_def result_simps split: option.splits KeySecret.splits)
  next
    case 2
    then obtain t pk l m bs2 s bs3 where p: "bs1 = to_be_u32 t @ pk # to_be_u32 l @ bs2"
        "PublicKey_parse (PublicKeyAlgorithm_from_u8 pk) bs2 = Inr (m, bs3)"
        "(length bs - length bs3) - (length bs - length bs2) = unat l"
        "Key6_parse_secret sha1 (position (length bs)) (PublicKeyAlgorithm_from_u8 pk) bs3 = Inr (s, [])" "check_secret tag s = Inr ()"
        "k6 = Key4_make t (PublicKeyAlgorithm_from_u8 pk) m s"
      by (auto simp: Key6_parse_def result_simps field_inverts read_be_u32_eq_Inr field_defs Let_def split: if_splits)
    obtain c where c: "PublicKey_wf m" "PublicKey_algo m = algo_family (PublicKeyAlgorithm_from_u8 pk)" "PublicKey_serialize m = Inr c"
        "length c = PublicKey_serialized_len m" "bs2 = c @ bs3"
      using PublicKey_parse_exact [OF p(2)] by blast
    have "unat l = PublicKey_serialized_len m" using p(3) c(4,5) b p(1) by simp
    then have l: "word_of_nat (PublicKey_serialized_len m) = l" by (metis word_of_nat_unat_u32)
    show ?thesis
      using c l Key6_parse_secret_exact [OF p(4)] assms(2) p(5) tag secret_present [OF p(2)] b 2 p(1)
      by (auto simp: p(6) Key_ok_def Key_tag_ok_def Key4_make_def Key_serialize_def Key6_serialize_def check_secret_iff pk_algo.to_of
          pk_algo.canonical_of Key6_serialize_secret_def result_simps split: option.splits KeySecret.splits)
  qed
qed

lemma Key_parse_written:
  assumes "Key_ok k" "Key_tag_ok tag k" "Key_serialize sha1 True k = Inr bs" "length bs < 2 ^ 32"
  shows "Key_parse sha1 tag bs = Inr (k, [])"
proof -
  have tag: "tag \<in> {Tag.Reserved, Tag.PublicKey, Tag.PublicSubkey, Tag.SecretKey, Tag.SecretSubkey}"
    using assms(2) by (auto simp: Key_tag_ok_def Let_def split: Tag.splits)
  show ?thesis
  proof (cases k)
    case (V4 k4)
    let ?pk = "key_pk_algo k4" and ?m = "key_mpis k4"
    obtain c s where c: "PublicKey_serialize ?m = Inr c" "(case secret k4 of Some x \<Rightarrow> Key4_serialize_secret sha1 x | None \<Rightarrow> Inr []) = Inr s"
        "bs = 4 # to_be_u32 (creation_time k4) @ u8_from_PublicKeyAlgorithm ?pk # c @ s"
      using assms(3) V4 by (auto simp: Key_serialize_def Key4_serialize_def result_simps cong: option.case_cong)
    have s: "Key4_parse_secret sha1 ?pk s = Inr (secret k4, [])" "secret k4 = None \<Longrightarrow> s = []"
      using assms(1) V4 c(2) Key4_parse_secret_written [of ?pk _ sha1 s]
      by (auto simp: Key_ok_def Key4_parse_secret_def parse_u8_def split: option.splits)
    have "PublicKey_parse ?pk (c @ s) = Inr (?m, s)"
      using PublicKey_serialize_parse [of ?m ?pk s] assms(1) V4 c(1) s(2) by (auto simp: Key_ok_def split: option.splits)
    moreover have "check_secret tag (secret k4) = Inr ()" "Key4_make (creation_time k4) ?pk ?m (secret k4) = k4"
      using assms(2) V4 tag by (auto simp: check_secret_iff Key_tag_ok_def Key4_make_def)
    ultimately show ?thesis
      using tag s(1) V4 assms(1)
      by (auto simp: Key_parse_def Key4_parse_def parse_u8_Cons c(3) pk_algo.of_to Key_ok_def)
  next
    case (V6 k6)
    let ?pk = "key_pk_algo k6" and ?m = "key_mpis k6"
    let ?l = "PublicKey_serialized_len ?m"
    obtain c s where c: "PublicKey_serialize ?m = Inr c" "(case secret k6 of Some x \<Rightarrow> Key6_serialize_secret x | None \<Rightarrow> Inr []) = Inr s"
        "bs = 6 # to_be_u32 (creation_time k6) @ u8_from_PublicKeyAlgorithm ?pk # to_be_u32 (word_of_nat ?l) @ c @ s"
      using assms(3) V6 by (auto simp: Key_serialize_def Key6_serialize_def result_simps cong: option.case_cong)
    have s: "Key6_parse_secret sha1 (position (length bs)) ?pk s = Inr (secret k6, [])" "secret k6 = None \<Longrightarrow> s = []"
      using assms(1,4) V6 c(2,3) Key6_parse_secret_written [of ?pk _ s "length bs" sha1]
      by (auto simp: Key_ok_def Key6_parse_secret_def parse_u8_def split: option.splits)
    have m: "PublicKey_parse ?pk (c @ s) = Inr (?m, s)"
      using PublicKey_serialize_parse [of ?m ?pk s] assms(1) V6 c(1) s(2) by (auto simp: Key_ok_def split: option.splits)
    have "length c = ?l" using PublicKey_parse_exact [OF m] c(1) by auto
    moreover have "unat (word_of_nat ?l :: u32) = ?l"
      using calculation assms(4) c(3) by (simp add: unat_word_of_nat_less)
    moreover have "check_secret tag (secret k6) = Inr ()" "Key4_make (creation_time k6) ?pk ?m (secret k6) = k6"
      using assms(2) V6 tag by (auto simp: check_secret_iff Key_tag_ok_def Key4_make_def)
    moreover have "position (length bs) xs < 2 ^ 32" for xs using assms(4) by simp
    ultimately show ?thesis
      using tag s(1) m V6 assms(1)
      by (auto simp: Key_parse_def Key6_parse_def parse_u8_Cons c(3) pk_algo.of_to Key_ok_def field_defs Let_def)
  qed
qed

lemma Key_net_len_ok:
  assumes "Key_ok k" "Key_serialize sha1 significant k = Inr bs"
  shows "Key_net_len significant k = length bs"
proof -
  have pub: "length c = PublicKey_serialized_len m"
    if "PublicKey_wf m" "PublicKey_algo m = algo_family a" "PublicKey_serialize m = Inr c" for m a c
    using PublicKey_serialize_parse [of m a "[]"] PublicKey_parse_exact [of a "c @ []" m "[]"] that by auto
  have sec: "length c = SecretKeyMaterial_serialized_len m"
    if "SecretKeyMaterial_wf m" "SecretKeyMaterial_algo m = algo_family a" "SecretKeyMaterial_serialize m = Inr c" for m a c
    using SecretKeyMaterial_serialize_parse_mpis [of m a "[]"] SecretKeyMaterial_parse_mpis_exact [of a "c @ []" m "[]"] that by auto
  have s2k: "length c = S2K_serialized_len t" if "S2K_wf l t \<or> S2K_ok6 t \<or> t = S2K.Implicit" "S2K_serialize t = Inr c" for t c l
    using that S2K_serialize_length [of _ t c] by (auto simp: S2K_ok6_def S2K_serialize_def S2K_serialized_len_def)
  show ?thesis
  proof (cases k)
    case (V4 key)
    then show ?thesis
      using assms pub [of "key_mpis key" "key_pk_algo key"] sec [of _ "key_pk_algo key"]
      by (auto intro!: s2k [of None, symmetric] simp: Key_ok_def KeySecret_ok4_def Key_net_len_def Key4_net_len_def Key_serialize_def Key4_serialize_def Key4_serialize_secret_def
          SecretKeyMaterial_serialize_with_checksum_def length_sum16 checksum_usage_def result_simps
          split: option.splits KeySecret.splits if_splits prod.splits)
  next
    case (V6 key)
    then show ?thesis
      using assms pub [of "key_mpis key" "key_pk_algo key"] sec [of _ "key_pk_algo key"]
      by (auto intro!: s2k [of None, symmetric] simp: Key_ok_def KeySecret_ok6_def Key_net_len_def Key6_net_len_def Key_serialize_def Key6_serialize_def Key6_serialize_secret_def
          result_simps split: option.splits KeySecret.splits if_splits prod.splits)
  qed
qed

section \<open>Theorems\<close>

text \<open>
  C12. \<open>Key::from_bytes\<close> and \<open>Key::serialize\<close> are inverse to each other for keys of versions 4 and 6, public
  or with a secret part that is in the clear or protected in any of the ways the format knows: the parser accepts
  exactly the serializations of well-formed keys, and their lengths are what \<open>net_len\<close> computes.
\<close>

theorem key_bytes_iff:
  assumes "length bs < 2 ^ 32"
  shows "Key_from_bytes sha1 bs = Inr k \<longleftrightarrow> Key_ok k \<and> Key_serialize sha1 True k = Inr bs \<and> Key_net_len True k = length bs"
  using Key_net_len_ok [of k sha1 True bs] Key_parse_exact [of sha1 Tag.Reserved bs k] Key_parse_written [of k Tag.Reserved sha1 bs] assms
  by (auto simp: Key_from_bytes_def Key_tag_ok_def result_simps split: if_splits)

definition demo_key :: Key where
  "demo_key =
     Key.V6 (Key4_make 1 PublicKeyAlgorithm.Ed25519 (PublicKey.Ed25519 (replicate 32 7))
       (Some (Encrypted (Encrypted_new_aead (S2K.Argon2 (replicate 16 1) 1 4 21) SymmetricAlgorithm.AES256
          AEADAlgorithm.OCB (replicate 15 2) (replicate 48 3)))))"

theorem key_bytes_iff_witness:
  "Key_from_bytes (\<lambda>_. []) ([6] @ to_be_u32 1 @ [27] @ to_be_u32 32 @ replicate 32 7
     @ [253, 38, 9, 2, 20] @ [4] @ replicate 16 1 @ [1, 4, 21] @ replicate 15 2 @ replicate 48 3) = Inr demo_key"
proof -
  have "Key_ok demo_key"
    by (simp add: demo_key_def Key_ok_def Key4_make_def Encrypted_new_aead_def KeySecret_ok6_def cfb_iv_len_def raw_ciphertext_def S2K_ok6_def
        S2K_serialized_len_def S2K_wf_def PublicKeyAlgorithm_canonical_def SymmetricAlgorithm_canonical_def AEADAlgorithm_canonical_def
        public_key_defs algo_family_def)
  moreover have "Key_serialize (\<lambda>_. []) True demo_key = Inr ([6] @ to_be_u32 1 @ [27] @ to_be_u32 32 @ replicate 32 7
     @ [253, 38, 9, 2, 20] @ [4] @ replicate 16 1 @ [1, 4, 21] @ replicate 15 2 @ replicate 48 3)"
    by (simp add: demo_key_def Key_serialize_def Key6_serialize_def Key4_make_def Encrypted_new_aead_def Key6_serialize_secret_def u8_or_zero_def
        raw_ciphertext_def S2K_serialize_def S2K_serialized_len_def public_key_defs)
  ultimately show ?thesis
    using Key_net_len_ok [of demo_key "\<lambda>_. []" True] by (subst key_bytes_iff) simp_all
qed

text \<open>
  C28. The fingerprint of a key is the digest of its public part as \<open>serialize\<close> writes it, after an octet and the
  length of that part: SHA-1, 0x99 and two octets for version 4, SHA-256, 0x9b and four octets for version 6. The
  secret part does not matter.
\<close>

theorem key_fingerprint_public:
  assumes "Key_ok k" "Key_serialize sha1 False k = Inr bs" "case k of Key.V4 _ \<Rightarrow> length bs < 2 ^ 16 | Key.V6 _ \<Rightarrow> length bs < 2 ^ 32"
  shows "Key_fingerprint sha1 sha256 k =
    Inr (case k of Key.V4 _ \<Rightarrow> Fingerprint.V4 (sha1 (0x99 # to_be_u16 (word_of_nat (length bs)) @ bs))
         | Key.V6 _ \<Rightarrow> Fingerprint.V6 (sha256 (0x9b # to_be_u32 (word_of_nat (length bs)) @ bs)))"
proof -
  obtain key where key: "k = Key.V4 key \<or> k = Key.V6 key" by (cases k) auto
  then obtain c where c: "PublicKey_serialize (key_mpis key) = Inr c"
    using assms(2) by (auto simp: Key_serialize_def Key4_serialize_def Key6_serialize_def result_simps)
  have "length c = PublicKey_serialized_len (key_mpis key)"
    using PublicKey_serialize_parse [of "key_mpis key" "key_pk_algo key" "[]"] PublicKey_parse_exact [of "key_pk_algo key" "c @ []" "key_mpis key" "[]"]
      assms(1) key c by (auto simp: Key_ok_def)
  then show ?thesis
    using assms(2,3) key c
    by (auto simp: Key_serialize_def Key4_serialize_def Key6_serialize_def Key_fingerprint_def Key4_fingerprint_def Key6_fingerprint_def
        Key4_hash_def Key6_hash_def write_key_hash_header_def split: option.splits)
qed

theorem key_fingerprint_public_witness:
  "Key_fingerprint (\<lambda>_. replicate 20 0) (\<lambda>x. take 32 x) demo_key =
     Inr (Fingerprint.V6 (take 32 (0x9b # to_be_u32 42 @ [6] @ to_be_u32 1 @ [27] @ to_be_u32 32 @ replicate 32 7)))"
proof -
  have "Key_ok demo_key"
    by (simp add: demo_key_def Key_ok_def Key4_make_def Encrypted_new_aead_def KeySecret_ok6_def cfb_iv_len_def raw_ciphertext_def S2K_ok6_def
        S2K_serialized_len_def S2K_wf_def PublicKeyAlgorithm_canonical_def SymmetricAlgorithm_canonical_def AEADAlgorithm_canonical_def
        public_key_defs algo_family_def)
  moreover have "Key_serialize (\<lambda>_. replicate 20 0) False demo_key = Inr ([6] @ to_be_u32 1 @ [27] @ to_be_u32 32 @ replicate 32 7)"
    by (simp add: demo_key_def Key_serialize_def Key6_serialize_def Key4_make_def public_key_defs)
  ultimately show ?thesis
    using key_fingerprint_public [of demo_key "\<lambda>_. replicate 20 0" "[6] @ to_be_u32 1 @ [27] @ to_be_u32 32 @ replicate 32 7" "\<lambda>x. take 32 x"]
    by (simp add: demo_key_def)
qed

text \<open>
  The public part of a key of version 4 can be too long for the two octets: a packet with 65530 octets or more of
  material for an algorithm the crate does not know parses, and computing its fingerprint panics.
\<close>

theorem key_fingerprint_panics:
  assumes "65530 \<le> length material" "length material < 2 ^ 32 - 6"
  shows "case Key_from_bytes sha1 ([4] @ to_be_u32 t @ [99] @ material) of
      Inr k \<Rightarrow> Key_fingerprint sha1 sha256 k = Inl Panic
    | Inl e \<Rightarrow> False"
proof -
  let ?a = "PublicKeyAlgorithm_from_u8 99"
  obtain m where m: "PublicKey_parse ?a material = Inr (m, [])"
    by (cases "mpis_loop material") (simp add: PublicKeyAlgorithm_from_u8_def PublicKey_parse_def parse_bytes_eof_def)
  have len: "PublicKey_serialized_len m = length material" using PublicKey_parse_exact [OF m] by auto
  have "Key_from_bytes sha1 ([4] @ to_be_u32 t @ [99] @ material) = Inr (Key.V4 (Key4_make t ?a m None))"
    using m by (simp add: Key_from_bytes_def Key_parse_def Key4_parse_def parse_u8_Cons Key4_parse_secret_def check_secret_def parse_u8_def)
  then show ?thesis
    using assms(1) by (simp add: Key_fingerprint_def Key4_fingerprint_def Key4_hash_def write_key_hash_header_def Key4_make_def len)
qed

theorem key_fingerprint_panics_witness:
  "case Key_from_bytes (\<lambda>_. []) ([4] @ to_be_u32 0 @ [99] @ replicate 65530 7) of
     Inr k \<Rightarrow> Key_fingerprint (\<lambda>_. []) (\<lambda>_. []) k = Inl Panic
   | Inl e \<Rightarrow> False"
  by (rule key_fingerprint_panics) simp_all

end
