(* ===== verification/PacketBodies.thy ===== *)
theory PacketBodies
  imports KeyCodec SignatureCodec PartialBody
begin

text \<open>
  The bodies of the other packets: one-pass signatures, encrypted session keys, encrypted, compressed and literal
  data, and the packets that are plain octets (\<open>packet/*.rs\<close>), with their parsers (\<open>parse.rs\<close>) and writers
  (\<open>serialize.rs\<close>).

  A container holds octets that are not processed, octets that are, or packets; the type parameter is the type of
  packets. The digest of a body, by which containers are compared, is left out. Compressing and decompressing, done
  by other crates, are parameters.
\<close>

section \<open>Outcomes of the parser of a body\<close>

text \<open>
  An error while a body is parsed makes it a packet of unknown contents if it is an error of the crate or the end of the
  data (\<open>php_try!\<close>, \<open>fail\<close>); any other error, and those that are returned with \<open>?\<close>, end the whole parser.
\<close>

datatype 'a php_outcome = Parsed 'a bytes | Unparsable failure

type_synonym 'a php = "'a php_outcome res"

definition php_try :: "'a res \<Rightarrow> ('a \<Rightarrow> 'b php) \<Rightarrow> 'b php" where
  "php_try r f =
     (case r of
        Inr x \<Rightarrow> f x
      | Inl (Err e) \<Rightarrow> Inr (Unparsable (Err e))
      | Inl (IoErr k) \<Rightarrow> if k = UnexpectedEof then Inr (Unparsable (IoErr UnexpectedEof)) else Inl (IoErr k)
      | Inl Panic \<Rightarrow> Inl Panic)"

lemma php_try_Inr [simp]: "php_try (Inr x) f = f x"
  by (simp add: php_try_def)

definition php_ok :: "('a \<times> bytes) res \<Rightarrow> 'a php" where
  "php_ok r = php_try r (\<lambda>(x, rest). Inr (Parsed x rest))"

lemma php_ok_Inr [simp]: "php_ok (Inr (x, rest)) = Inr (Parsed x rest)"
  by (simp add: php_ok_def)

section \<open>One-pass signatures\<close>

record OnePassSig3 =
  ops_typ :: SignatureType
  ops_hash_algo :: HashAlgorithm
  ops_pk_algo :: PublicKeyAlgorithm
  ops_issuer :: KeyID
  ops_last :: u8

record OnePassSig6 =
  ops_common :: OnePassSig3
  ops_salt :: bytes
  ops_issuer_fp :: Fingerprint

datatype OnePassSig = V3 OnePassSig3 | V6 OnePassSig6

definition OnePassSig3_new :: "SignatureType \<Rightarrow> OnePassSig3" where
  "OnePassSig3_new typ =
     \<lparr>ops_typ = typ, ops_hash_algo = HashAlgorithm.Unknown 0, ops_pk_algo = PublicKeyAlgorithm.Unknown 0,
      ops_issuer = KeyID_new 0, ops_last = 1\<rparr>"

definition OnePassSig6_new :: "SignatureType \<Rightarrow> Fingerprint \<Rightarrow> OnePassSig6" where
  "OnePassSig6_new typ issuer = \<lparr>ops_common = OnePassSig3_new typ, ops_salt = [], ops_issuer_fp = issuer\<rparr>"

definition OnePassSig3_parse :: "OnePassSig3 reader" where
  "OnePassSig3_parse bs =
     and_then (parse_u8 bs) (\<lambda>(typ, bs).
     and_then (parse_u8 bs) (\<lambda>(hash_algo, bs).
     and_then (parse_u8 bs) (\<lambda>(pk_algo, bs).
     and_then (parse_bytes 8 bs) (\<lambda>(issuer, bs).
     and_then (parse_u8 bs) (\<lambda>(last, bs).
       Inr ((OnePassSig3_new (SignatureType_from_u8 typ))
              \<lparr>ops_hash_algo := HashAlgorithm_from_u8 hash_algo, ops_pk_algo := PublicKeyAlgorithm_from_u8 pk_algo,
               ops_issuer := KeyID_from_bytes issuer, ops_last := last\<rparr>, bs))))))"

definition OnePassSig6_parse :: "OnePassSig6 reader" where
  "OnePassSig6_parse bs =
     and_then (parse_u8 bs) (\<lambda>(typ, bs).
     and_then (parse_u8 bs) (\<lambda>(hash_algo, bs).
     and_then (parse_u8 bs) (\<lambda>(pk_algo, bs).
     and_then (parse_u8 bs) (\<lambda>(salt_len, bs).
     and_then (parse_bytes (unat salt_len) bs) (\<lambda>(salt, bs).
     and_then (parse_bytes 32 bs) (\<lambda>(issuer, bs).
     and_then (parse_u8 bs) (\<lambda>(last, bs).
     and_then (Fingerprint_from_bytes 6 issuer) (\<lambda>fp.
       let sig = OnePassSig6_new (SignatureType_from_u8 typ) fp in
       Inr (sig\<lparr>ops_salt := salt,
                ops_common := (ops_common sig)\<lparr>ops_hash_algo := HashAlgorithm_from_u8 hash_algo,
                  ops_pk_algo := PublicKeyAlgorithm_from_u8 pk_algo, ops_last := last\<rparr>\<rparr>, bs)))))))))"

definition OnePassSig_parse :: "OnePassSig reader" where
  "OnePassSig_parse bs =
     and_then (parse_u8 bs) (\<lambda>(version, bs).
       if version = 3 then and_then (OnePassSig3_parse bs) (\<lambda>(s, bs). Inr (OnePassSig.V3 s, bs))
       else if version = 6 then and_then (OnePassSig6_parse bs) (\<lambda>(s, bs). Inr (OnePassSig.V6 s, bs))
       else Inl (Err MalformedPacket))"

definition OnePassSig3_serialize :: "OnePassSig3 \<Rightarrow> bytes" where
  "OnePassSig3_serialize s =
     [3, u8_from_SignatureType (ops_typ s), u8_from_HashAlgorithm (ops_hash_algo s), u8_from_PublicKeyAlgorithm (ops_pk_algo s)]
     @ KeyID_as_bytes (ops_issuer s) @ [ops_last s]"

definition OnePassSig6_serialize :: "OnePassSig6 \<Rightarrow> bytes res" where
  "OnePassSig6_serialize s =
     (let c = ops_common s in
      if length (ops_salt s) < 256 then
        (case ops_issuer_fp s of
           Fingerprint.V6 bytes \<Rightarrow>
             Inr ([6, u8_from_SignatureType (ops_typ c), u8_from_HashAlgorithm (ops_hash_algo c), u8_from_PublicKeyAlgorithm (ops_pk_algo c),
                   word_of_nat (length (ops_salt s))] @ ops_salt s @ bytes @ [ops_last c])
         | _ \<Rightarrow> Inl (Err InvalidArgument))
      else Inl (Err InvalidArgument))"

definition OnePassSig_serialize :: "OnePassSig \<Rightarrow> bytes res" where
  "OnePassSig_serialize s = (case s of OnePassSig.V3 s \<Rightarrow> Inr (OnePassSig3_serialize s) | OnePassSig.V6 s \<Rightarrow> OnePassSig6_serialize s)"

definition OnePassSig3_net_len :: "OnePassSig3 \<Rightarrow> nat" where
  "OnePassSig3_net_len s = 1 + 1 + 1 + 1 + 8 + 1"

definition OnePassSig6_net_len :: "OnePassSig6 \<Rightarrow> nat" where
  "OnePassSig6_net_len s = 1 + 1 + 1 + 1 + 1 + length (ops_salt s) + 32 + 1"

definition OnePassSig_net_len :: "OnePassSig \<Rightarrow> nat" where
  "OnePassSig_net_len s = (case s of OnePassSig.V3 s \<Rightarrow> OnePassSig3_net_len s | OnePassSig.V6 s \<Rightarrow> OnePassSig6_net_len s)"

section \<open>Session keys encrypted with a public key\<close>

record PKESK3 =
  pkesk3_recipient :: "KeyID option"
  pkesk3_pk_algo :: PublicKeyAlgorithm
  pkesk3_esk :: Ciphertext

record PKESK6 =
  pkesk6_recipient :: "Fingerprint option"
  pkesk6_pk_algo :: PublicKeyAlgorithm
  pkesk6_esk :: Ciphertext

datatype PKESK = V3 PKESK3 | V6 PKESK6

definition PKESK3_new :: "KeyID option \<Rightarrow> PublicKeyAlgorithm \<Rightarrow> Ciphertext \<Rightarrow> PKESK3" where
  "PKESK3_new recipient pk_algo esk =
     \<lparr>pkesk3_recipient = (case recipient of Some k \<Rightarrow> if KeyID_is_wildcard k then None else recipient | None \<Rightarrow> None),
      pkesk3_pk_algo = pk_algo, pkesk3_esk = esk\<rparr>"

definition PKESK6_new :: "Fingerprint option \<Rightarrow> PublicKeyAlgorithm \<Rightarrow> Ciphertext \<Rightarrow> PKESK6" where
  "PKESK6_new recipient pk_algo esk = \<lparr>pkesk6_recipient = recipient, pkesk6_pk_algo = pk_algo, pkesk6_esk = esk\<rparr>"

text \<open>Errors in the encrypted session key end the whole parser.\<close>

definition PKESK3_parse :: "bytes \<Rightarrow> PKESK3 php" where
  "PKESK3_parse bs =
     php_try (parse_bytes 8 bs) (\<lambda>(raw, bs).
     php_try (parse_u8 bs) (\<lambda>(algo, bs).
       let keyid = KeyID_from_bytes raw;
           keyid = (if KeyID_is_wildcard keyid then None else Some keyid);
           pk_algo = PublicKeyAlgorithm_from_u8 algo in
       if \<not> for_encryption pk_algo then Inr (Unparsable (Err MalformedPacket))
       else and_then (Ciphertext_parse pk_algo bs) (\<lambda>(mpis, bs). Inr (Parsed (PKESK3_new keyid pk_algo mpis) bs))))"

definition pkesk6_recipient_parse :: "bytes \<Rightarrow> Fingerprint option php" where
  "pkesk6_recipient_parse bs =
     php_try (parse_u8 bs) (\<lambda>(fp_len, bs).
       if fp_len = 0 then Inr (Parsed None bs)
       else
         php_try (parse_u8 bs) (\<lambda>(fp_version, bs).
           if fp_version = 4 \<and> fp_len - 1 \<noteq> 20 \<or> fp_version = 6 \<and> fp_len - 1 \<noteq> 32 then Inr (Unparsable (Err MalformedPacket))
           else
             php_try (parse_bytes (unat (fp_len - 1)) bs) (\<lambda>(raw, bs).
               and_then (Fingerprint_from_bytes fp_version raw) (\<lambda>fp. Inr (Parsed (Some fp) bs)))))"

definition PKESK6_parse :: "bytes \<Rightarrow> PKESK6 php" where
  "PKESK6_parse bs =
     and_then (pkesk6_recipient_parse bs) (\<lambda>p.
       case p of
         Unparsable e \<Rightarrow> Inr (Unparsable e)
       | Parsed fingerprint bs \<Rightarrow>
           php_try (parse_u8 bs) (\<lambda>(algo, bs).
             let pk_algo = PublicKeyAlgorithm_from_u8 algo in
             if \<not> for_encryption pk_algo then Inr (Unparsable (Err MalformedPacket))
             else and_then (Ciphertext_parse pk_algo bs) (\<lambda>(mpis, bs). Inr (Parsed (PKESK6_new fingerprint pk_algo mpis) bs))))"

definition map_parsed :: "('a \<Rightarrow> 'b) \<Rightarrow> 'a php \<Rightarrow> 'b php" where
  "map_parsed f r = and_then r (\<lambda>p. case p of Parsed x bs \<Rightarrow> Inr (Parsed (f x) bs) | Unparsable e \<Rightarrow> Inr (Unparsable e))"

definition PKESK_parse :: "bytes \<Rightarrow> PKESK php" where
  "PKESK_parse bs =
     php_try (parse_u8 bs) (\<lambda>(version, bs).
       if version = 3 then map_parsed PKESK.V3 (PKESK3_parse bs)
       else if version = 6 then map_parsed PKESK.V6 (PKESK6_parse bs)
       else Inr (Unparsable (Err MalformedPacket)))"

definition PKESK3_serialize :: "PKESK3 \<Rightarrow> bytes res" where
  "PKESK3_serialize p =
     and_then (Ciphertext_serialize (pkesk3_esk p)) (\<lambda>esk.
       Inr ([3] @ KeyID_as_bytes (case pkesk3_recipient p of Some k \<Rightarrow> k | None \<Rightarrow> KeyID_wildcard)
            @ [u8_from_PublicKeyAlgorithm (pkesk3_pk_algo p)] @ esk))"

definition PKESK6_serialize :: "PKESK6 \<Rightarrow> bytes res" where
  "PKESK6_serialize p =
     and_then (Ciphertext_serialize (pkesk6_esk p)) (\<lambda>esk.
       Inr ([6]
            @ (case pkesk6_recipient p of
                 Some fp \<Rightarrow>
                   [word_of_nat (length (Fingerprint_as_bytes fp) + 1),
                    case fp of Fingerprint.V4 _ \<Rightarrow> 4 | Fingerprint.V6 _ \<Rightarrow> 6
                      | Fingerprint.Unknown version _ \<Rightarrow> (case version of Some v \<Rightarrow> v | None \<Rightarrow> 0xff)]
                   @ Fingerprint_as_bytes fp
               | None \<Rightarrow> [0])
            @ [u8_from_PublicKeyAlgorithm (pkesk6_pk_algo p)] @ esk))"

definition PKESK_serialize :: "PKESK \<Rightarrow> bytes res" where
  "PKESK_serialize p = (case p of PKESK.V3 p \<Rightarrow> PKESK3_serialize p | PKESK.V6 p \<Rightarrow> PKESK6_serialize p)"

definition PKESK3_net_len :: "PKESK3 \<Rightarrow> nat" where
  "PKESK3_net_len p = 1 + 8 + 1 + Ciphertext_serialized_len (pkesk3_esk p)"

definition PKESK6_net_len :: "PKESK6 \<Rightarrow> nat" where
  "PKESK6_net_len p =
     1 + 1 + (case pkesk6_recipient p of Some r \<Rightarrow> length (Fingerprint_as_bytes r) + 1 | None \<Rightarrow> 0) + 1
     + Ciphertext_serialized_len (pkesk6_esk p)"

definition PKESK_net_len :: "PKESK \<Rightarrow> nat" where
  "PKESK_net_len p = (case p of PKESK.V3 p \<Rightarrow> PKESK3_net_len p | PKESK.V6 p \<Rightarrow> PKESK6_net_len p)"

section \<open>Session keys encrypted with a password\<close>

record SKESK4 =
  skesk_version :: u8
  skesk_sym_algo :: SymmetricAlgorithm
  skesk_s2k :: S2K
  skesk_esk :: "bytes + bytes option"

record SKESK6 =
  skesk4 :: SKESK4
  skesk_aead_algo :: AEADAlgorithm
  skesk_aead_iv :: bytes

datatype SKESK = V4 SKESK4 | V6 SKESK6

definition SKESK4_new_raw :: "SymmetricAlgorithm \<Rightarrow> S2K \<Rightarrow> bytes + bytes option \<Rightarrow> SKESK4" where
  "SKESK4_new_raw esk_algo s2k esk = \<lparr>skesk_version = 4, skesk_sym_algo = esk_algo, skesk_s2k = s2k, skesk_esk = esk\<rparr>"

definition SKESK4_new :: "SymmetricAlgorithm \<Rightarrow> S2K \<Rightarrow> bytes option \<Rightarrow> SKESK4" where
  "SKESK4_new esk_algo s2k esk =
     SKESK4_new_raw esk_algo s2k (Inr (case esk of Some e \<Rightarrow> if length e = 0 then None else Some e | None \<Rightarrow> None))"

definition SKESK6_new :: "SymmetricAlgorithm \<Rightarrow> AEADAlgorithm \<Rightarrow> S2K \<Rightarrow> bytes \<Rightarrow> bytes \<Rightarrow> SKESK6" where
  "SKESK6_new sym_algo aead_algo s2k aead_iv esk =
     \<lparr>skesk4 = \<lparr>skesk_version = 6, skesk_sym_algo = sym_algo, skesk_s2k = s2k, skesk_esk = Inr (Some esk)\<rparr>,
      skesk_aead_algo = aead_algo, skesk_aead_iv = aead_iv\<rparr>"

definition raw_esk :: "SKESK4 \<Rightarrow> bytes" where
  "raw_esk s = (case skesk_esk s of Inr (Some esk) \<Rightarrow> esk | Inr None \<Rightarrow> [] | Inl s2k_esk \<Rightarrow> s2k_esk)"

definition SKESK4_parse :: "SKESK4 reader" where
  "SKESK4_parse bs =
     and_then (parse_u8 bs) (\<lambda>(sym_algo, bs).
     and_then (S2K_parse_v4 bs) (\<lambda>(s2k, bs).
     and_then (parse_bytes_eof bs) (\<lambda>(esk, bs).
       Inr (SKESK4_new_raw (SymmetricAlgorithm_from_u8 sym_algo) s2k
              (if S2K_is_supported s2k \<or> esk = [] then Inr (if esk \<noteq> [] then Some esk else None) else Inl esk), bs))))"

definition SKESK6_parse :: "SKESK6 reader" where
  "SKESK6_parse bs =
     and_then (parse_u8 bs) (\<lambda>(parameter_len, bs).
       if unat parameter_len < 1 + 1 + 1 + 1 + 12 then Inl (Err MalformedPacket)
       else
         and_then (parse_u8 bs) (\<lambda>(sym_algo, bs).
         and_then (parse_u8 bs) (\<lambda>(aead_algo, bs).
         and_then (parse_u8 bs) (\<lambda>(s2k_len, bs).
           if unat parameter_len < 1 + 1 + 1 + unat s2k_len + 12 then Inl (Err MalformedPacket)
           else
             and_then (S2K_parse_v6 s2k_len bs) (\<lambda>(s2k, bs).
             and_then (if 1 + 1 + 1 + unat s2k_len \<le> unat parameter_len
                       then parse_bytes (unat parameter_len - (1 + 1 + 1 + unat s2k_len)) bs
                       else Inl (Err MalformedPacket)) (\<lambda>(iv, bs).
             and_then (parse_bytes_eof bs) (\<lambda>(esk, bs).
               Inr (SKESK6_new (SymmetricAlgorithm_from_u8 sym_algo) (AEADAlgorithm_from_u8 aead_algo) s2k iv esk, bs))))))))"

definition SKESK_parse :: "SKESK reader" where
  "SKESK_parse bs =
     and_then (parse_u8 bs) (\<lambda>(version, bs).
       if version = 4 then and_then (SKESK4_parse bs) (\<lambda>(s, bs). Inr (SKESK.V4 s, bs))
       else if version = 6 then and_then (SKESK6_parse bs) (\<lambda>(s, bs). Inr (SKESK.V6 s, bs))
       else Inl (Err MalformedPacket))"

definition SKESK4_serialize :: "SKESK4 \<Rightarrow> bytes res" where
  "SKESK4_serialize s =
     and_then (S2K_serialize (skesk_s2k s)) (\<lambda>s2k.
       Inr ([4, u8_from_SymmetricAlgorithm (skesk_sym_algo s)] @ s2k @ raw_esk s))"

definition SKESK6_serialize :: "SKESK6 \<Rightarrow> bytes res" where
  "SKESK6_serialize s =
     (let s2k_len = S2K_serialized_len (skesk_s2k (skesk4 s)) in
      and_then (S2K_serialize (skesk_s2k (skesk4 s))) (\<lambda>s2k.
        Inr ([6, word_of_nat (1 + 1 + 1 + s2k_len + length (skesk_aead_iv s)),
              u8_from_SymmetricAlgorithm (skesk_sym_algo (skesk4 s)), u8_from_AEADAlgorithm (skesk_aead_algo s), word_of_nat s2k_len]
             @ s2k @ skesk_aead_iv s @ raw_esk (skesk4 s))))"

definition SKESK_serialize :: "SKESK \<Rightarrow> bytes res" where
  "SKESK_serialize s = (case s of SKESK.V4 s \<Rightarrow> SKESK4_serialize s | SKESK.V6 s \<Rightarrow> SKESK6_serialize s)"

definition SKESK4_net_len :: "SKESK4 \<Rightarrow> nat" where
  "SKESK4_net_len s = 1 + 1 + S2K_serialized_len (skesk_s2k s) + length (raw_esk s)"

definition SKESK6_net_len :: "SKESK6 \<Rightarrow> nat" where
  "SKESK6_net_len s =
     1 + 1 + 1 + 1 + 1 + S2K_serialized_len (skesk_s2k (skesk4 s)) + length (skesk_aead_iv s) + length (raw_esk (skesk4 s))"

definition SKESK_net_len :: "SKESK \<Rightarrow> nat" where
  "SKESK_net_len s = (case s of SKESK.V4 s \<Rightarrow> SKESK4_net_len s | SKESK.V6 s \<Rightarrow> SKESK6_net_len s)"

section \<open>Containers\<close>

datatype 'p Body = Unprocessed bytes | Processed bytes | Structured "'p list"

definition Container_default :: "'p Body" where
  "Container_default = Structured []"

definition Container_default_unprocessed :: "'p Body" where
  "Container_default_unprocessed = Unprocessed []"

definition Container_children :: "'p Body \<Rightarrow> 'p list option" where
  "Container_children c = (case c of Structured ps \<Rightarrow> Some ps | _ \<Rightarrow> None)"

text \<open>The body of a literal data packet and of an unknown packet (\<open>impl_unprocessed_body_forwards\<close>).\<close>

definition unprocessed_body :: "'p Body \<Rightarrow> bytes res" where
  "unprocessed_body c = (case c of Unprocessed bytes \<Rightarrow> Inr bytes | Processed _ \<Rightarrow> Inl Panic | Structured _ \<Rightarrow> Inl Panic)"

section \<open>Encrypted data\<close>

datatype 'p SEIP1 = SEIP1 (seip1_container: "'p Body")

datatype 'p SEIP2 =
  SEIP2 (seip2_sym_algo: SymmetricAlgorithm) (seip2_aead: AEADAlgorithm) (seip2_chunk_size: u64) (seip2_salt: bytes)
    (seip2_container: "'p Body")

datatype 'p SEIP = V1 "'p SEIP1" | V2 "'p SEIP2"

definition SEIP1_new :: "'p SEIP1" where
  "SEIP1_new = SEIP1 Container_default"

definition check_chunk_size :: "u64 \<Rightarrow> unit res" where
  "check_chunk_size chunk_size =
     (if count_ones (unat chunk_size) \<noteq> 1 then Inl (Err InvalidArgument)
      else if chunk_size < 64 then Inl (Err InvalidArgument)
      else Inr ())"

definition SEIP2_new :: "SymmetricAlgorithm \<Rightarrow> AEADAlgorithm \<Rightarrow> u64 \<Rightarrow> bytes \<Rightarrow> 'p SEIP2 res" where
  "SEIP2_new sym_algo aead chunk_size salt32 =
     and_then (check_chunk_size chunk_size) (\<lambda>_. Inr (SEIP2 sym_algo aead chunk_size salt32 Container_default))"

definition SEIP2_set_chunk_size :: "u64 \<Rightarrow> 'p SEIP2 \<Rightarrow> 'p SEIP2 res" where
  "SEIP2_set_chunk_size chunk_size s =
     and_then (check_chunk_size chunk_size) (\<lambda>_.
       Inr (SEIP2 (seip2_sym_algo s) (seip2_aead s) chunk_size (seip2_salt s) (seip2_container s)))"

definition SEIP2_parse :: "'p SEIP2 reader" where
  "SEIP2_parse bs =
     and_then (parse_u8 bs) (\<lambda>(cipher, bs).
     and_then (parse_u8 bs) (\<lambda>(aead, bs).
     and_then (parse_u8 bs) (\<lambda>(chunk_size, bs).
       if chunk_size > 16 then Inl (Err MalformedPacket)
       else
         and_then (parse_bytes 32 bs) (\<lambda>(salt, bs).
         and_then (SEIP2_new (SymmetricAlgorithm_from_u8 cipher) (AEADAlgorithm_from_u8 aead) (push_bit (unat (chunk_size + 6)) 1) salt)
           (\<lambda>seip2. Inr (seip2, bs))))))"

definition SEIP_parse :: "'p SEIP reader" where
  "SEIP_parse bs =
     and_then (parse_u8 bs) (\<lambda>(version, bs).
       if version = 1 then Inr (SEIP.V1 SEIP1_new, bs)
       else if version = 2 then and_then (SEIP2_parse bs) (\<lambda>(s, bs). Inr (SEIP.V2 s, bs))
       else Inl (Err MalformedPacket))"

definition SEIP1_serialize :: "'p SEIP1 \<Rightarrow> bytes res" where
  "SEIP1_serialize s = (case seip1_container s of Unprocessed bytes \<Rightarrow> Inr ([1] @ bytes) | _ \<Rightarrow> Inl (Err InvalidOperation))"

fun trailing_zeros :: "nat \<Rightarrow> nat \<Rightarrow> nat" where
  "trailing_zeros 0 n = 0"
| "trailing_zeros (Suc w) n = (if odd n then 0 else Suc (trailing_zeros w (n div 2)))"

definition SEIP2_serialize_headers :: "'p SEIP2 \<Rightarrow> bytes res" where
  "SEIP2_serialize_headers s =
     (let tz = trailing_zeros 64 (unat (seip2_chunk_size s)) in
      if tz < 6 then Inl Panic
      else
        Inr ([2, u8_from_SymmetricAlgorithm (seip2_sym_algo s), u8_from_AEADAlgorithm (seip2_aead s), word_of_nat (tz - 6)]
             @ seip2_salt s))"

definition SEIP2_serialize :: "'p SEIP2 \<Rightarrow> bytes res" where
  "SEIP2_serialize s =
     (case seip2_container s of
        Unprocessed bytes \<Rightarrow> and_then (SEIP2_serialize_headers s) (\<lambda>h. Inr (h @ bytes))
      | _ \<Rightarrow> Inl (Err InvalidOperation))"

definition SEIP_serialize :: "'p SEIP \<Rightarrow> bytes res" where
  "SEIP_serialize s = (case s of SEIP.V1 s \<Rightarrow> SEIP1_serialize s | SEIP.V2 s \<Rightarrow> SEIP2_serialize s)"

definition SEIP1_net_len :: "'p SEIP1 \<Rightarrow> nat" where
  "SEIP1_net_len s = (case seip1_container s of Unprocessed bytes \<Rightarrow> 1 + length bytes | _ \<Rightarrow> 0)"

definition SEIP2_net_len :: "'p SEIP2 \<Rightarrow> nat" where
  "SEIP2_net_len s = (case seip2_container s of Unprocessed bytes \<Rightarrow> 4 + 32 + length bytes | _ \<Rightarrow> 0)"

definition SEIP_net_len :: "'p SEIP \<Rightarrow> nat" where
  "SEIP_net_len s = (case s of SEIP.V1 s \<Rightarrow> SEIP1_net_len s | SEIP.V2 s \<Rightarrow> SEIP2_net_len s)"

section \<open>Compressed data\<close>

datatype 'p CompressedData = CompressedData (cd_algo: CompressionAlgorithm) (cd_container: "'p Body")

definition CompressedData_new :: "CompressionAlgorithm \<Rightarrow> 'p CompressedData" where
  "CompressedData_new algo = CompressedData algo Container_default"

text \<open>The packet, and whether its body is read through a decompressor or left alone.\<close>

definition compression_supported :: "CompressionAlgorithm \<Rightarrow> bool" where
  "compression_supported algo =
     (case algo of
        CompressionAlgorithm.Uncompressed \<Rightarrow> True
      | CompressionAlgorithm.Zip \<Rightarrow> True
      | CompressionAlgorithm.Zlib \<Rightarrow> True
      | CompressionAlgorithm.BZip2 \<Rightarrow> True
      | _ \<Rightarrow> False)"

definition CompressedData_parse :: "'p CompressedData reader" where
  "CompressedData_parse bs =
     and_then (parse_u8 bs) (\<lambda>(algo, bs). Inr (CompressedData_new (CompressionAlgorithm_from_u8 algo), bs))"

definition Compressor_new_naked :: "(CompressionAlgorithm \<Rightarrow> bytes \<Rightarrow> bytes) \<Rightarrow> CompressionAlgorithm \<Rightarrow> bytes \<Rightarrow> bytes res" where
  "Compressor_new_naked compress algo bytes =
     (case algo of
        CompressionAlgorithm.Uncompressed \<Rightarrow> Inr ([u8_from_CompressionAlgorithm algo] @ bytes)
      | CompressionAlgorithm.Zip \<Rightarrow> Inr ([u8_from_CompressionAlgorithm algo] @ compress algo bytes)
      | CompressionAlgorithm.Zlib \<Rightarrow> Inr ([u8_from_CompressionAlgorithm algo] @ compress algo bytes)
      | CompressionAlgorithm.BZip2 \<Rightarrow> Inr ([u8_from_CompressionAlgorithm algo] @ compress algo bytes)
      | a \<Rightarrow> Inl (Err (UnsupportedCompressionAlgorithm a)))"

fun serialize_all :: "('p \<Rightarrow> bytes res) \<Rightarrow> 'p list \<Rightarrow> bytes res" where
  "serialize_all serialize [] = Inr []"
| "serialize_all serialize (p # ps) =
     and_then (serialize p) (\<lambda>c. and_then (serialize_all serialize ps) (\<lambda>cs. Inr (c @ cs)))"

definition CompressedData_serialize ::
    "(CompressionAlgorithm \<Rightarrow> bytes \<Rightarrow> bytes) \<Rightarrow> ('p \<Rightarrow> bytes res) \<Rightarrow> 'p CompressedData \<Rightarrow> bytes res" where
  "CompressedData_serialize compress serialize d =
     (case cd_container d of
        Unprocessed bytes \<Rightarrow> Inr ([u8_from_CompressionAlgorithm (cd_algo d)] @ bytes)
      | Processed bytes \<Rightarrow> Compressor_new_naked compress (cd_algo d) bytes
      | Structured children \<Rightarrow>
          and_then (Compressor_new_naked compress (cd_algo d) []) (\<lambda>_.
          and_then (serialize_all serialize children) (\<lambda>bytes. Compressor_new_naked compress (cd_algo d) bytes)))"

definition overestimate :: "nat \<Rightarrow> nat" where
  "overestimate l = l + max (l div 5) 4096"

fun sum_all :: "('p \<Rightarrow> nat res) \<Rightarrow> 'p list \<Rightarrow> nat res" where
  "sum_all len [] = Inr 0"
| "sum_all len (p # ps) = and_then (len p) (\<lambda>n. and_then (sum_all len ps) (\<lambda>m. Inr (n + m)))"

definition CompressedData_net_len :: "('p \<Rightarrow> nat res) \<Rightarrow> 'p CompressedData \<Rightarrow> nat res" where
  "CompressedData_net_len serialized_len d =
     (case cd_container d of
        Unprocessed bytes \<Rightarrow> Inr (1 + length bytes)
      | Processed bytes \<Rightarrow> Inr (1 + overestimate (length bytes))
      | Structured ps \<Rightarrow> and_then (sum_all serialized_len ps) (\<lambda>l. Inr (1 + overestimate l)))"

section \<open>Literal data\<close>

datatype 'p Literal =
  Literal (lit_format: DataFormat) (lit_filename: "bytes option") (lit_date: "u32 option") (lit_container: "'p Body")

definition Literal_new :: "DataFormat \<Rightarrow> 'p Literal" where
  "Literal_new format = Literal format None None Container_default_unprocessed"

definition Literal_set_filename :: "bytes \<Rightarrow> 'p Literal \<Rightarrow> 'p Literal res" where
  "Literal_set_filename filename l =
     (if length filename = 0 then Inr (Literal (lit_format l) None (lit_date l) (lit_container l))
      else if length filename \<le> 255 then Inr (Literal (lit_format l) (Some filename) (lit_date l) (lit_container l))
      else Inl (Err InvalidArgument))"

definition Literal_set_date :: "u32 option \<Rightarrow> 'p Literal \<Rightarrow> 'p Literal" where
  "Literal_set_date timestamp l =
     Literal (lit_format l) (lit_filename l)
       (case timestamp of Some t \<Rightarrow> if t = 0 then None else Some t | None \<Rightarrow> None) (lit_container l)"

definition Literal_set_body :: "bytes \<Rightarrow> 'p Literal \<Rightarrow> 'p Literal res" where
  "Literal_set_body data l =
     and_then (unprocessed_body (lit_container l)) (\<lambda>_.
       Inr (Literal (lit_format l) (lit_filename l) (lit_date l) (Unprocessed data)))"

definition Literal_body :: "'p Literal \<Rightarrow> bytes res" where
  "Literal_body l = unprocessed_body (lit_container l)"

definition Literal_parse :: "'p Literal reader" where
  "Literal_parse bs =
     and_then (parse_u8 bs) (\<lambda>(format, bs).
     and_then (parse_u8 bs) (\<lambda>(filename_len, bs).
     and_then (if filename_len > 0
               then and_then (parse_bytes (unat filename_len) bs) (\<lambda>(f, bs). Inr (Some f, bs))
               else Inr (None, bs)) (\<lambda>(filename, bs).
     and_then (read_be_u32 bs) (\<lambda>(date, bs).
     and_then (case filename of
                 Some f \<Rightarrow> (case Literal_set_filename f (Literal_new (DataFormat_from_u8 format)) of Inl _ \<Rightarrow> Inl Panic | Inr l \<Rightarrow> Inr l)
               | None \<Rightarrow> Inr (Literal_new (DataFormat_from_u8 format))) (\<lambda>literal.
       Inr (Literal_set_date (Some date) literal, bs))))))"

definition Literal_serialize_headers :: "'p Literal \<Rightarrow> bytes" where
  "Literal_serialize_headers l =
     (let filename = (case lit_filename l of Some f \<Rightarrow> take (min (length f) 255) f | None \<Rightarrow> []);
          date = (case lit_date l of Some d \<Rightarrow> d | None \<Rightarrow> 0) in
      [u8_from_DataFormat (lit_format l), word_of_nat (length filename)] @ filename @ to_be_u32 date)"

definition Literal_serialize :: "'p Literal \<Rightarrow> bytes res" where
  "Literal_serialize l = and_then (Literal_body l) (\<lambda>body. Inr (Literal_serialize_headers l @ body))"

definition Literal_net_len :: "'p Literal \<Rightarrow> nat res" where
  "Literal_net_len l =
     and_then (Literal_body l) (\<lambda>body.
       Inr (1 + (1 + (case lit_filename l of Some f \<Rightarrow> length f | None \<Rightarrow> 0)) + 4 + length body))"

section \<open>Packets that are plain octets\<close>

definition Marker_BODY :: bytes where
  "Marker_BODY = [0x50, 0x47, 0x50]"

definition Marker_parse :: "unit reader" where
  "Marker_parse bs =
     and_then (parse_bytes (length Marker_BODY) bs) (\<lambda>(marker, bs).
       if marker = Marker_BODY then Inr ((), bs) else Inl (Err MalformedPacket))"

text \<open>\<open>Trust\<close>, \<open>UserID\<close>, \<open>UserAttribute\<close> and \<open>Padding\<close> hold the octets of their body.\<close>

definition Trust_parse :: "bytes reader" where
  "Trust_parse bs = parse_bytes_eof bs"

definition UserID_parse :: "bytes reader" where
  "UserID_parse bs = parse_bytes_eof bs"

definition UserAttribute_parse :: "bytes reader" where
  "UserAttribute_parse bs = parse_bytes_eof bs"

definition Padding_parse :: "bytes reader" where
  "Padding_parse bs = parse_bytes_eof bs"

record MDC =
  mdc_computed_digest :: bytes
  mdc_digest :: bytes

definition MDC_new :: "bytes \<Rightarrow> bytes \<Rightarrow> MDC" where
  "MDC_new expected computed = \<lparr>mdc_computed_digest = computed, mdc_digest = expected\<rparr>"

definition MDC_valid :: "MDC \<Rightarrow> bool" where
  "MDC_valid m = (if mdc_digest m = replicate 20 0 then False else mdc_computed_digest m = mdc_digest m)"

text \<open>Outside of an encrypted container no digest has been computed.\<close>

definition MDC_parse :: "MDC reader" where
  "MDC_parse bs = and_then (parse_bytes 20 bs) (\<lambda>(digest, bs). Inr (MDC_new digest (replicate 20 0), bs))"

datatype 'p UnknownPacket = UnknownPacket (unk_tag: Tag) (unk_error: failure) (unk_container: "'p Body")

definition UnknownPacket_new :: "Tag \<Rightarrow> failure \<Rightarrow> 'p UnknownPacket" where
  "UnknownPacket_new tag error = UnknownPacket tag error Container_default_unprocessed"

definition UnknownPacket_body :: "'p UnknownPacket \<Rightarrow> bytes res" where
  "UnknownPacket_body u = unprocessed_body (unk_container u)"

end
