(* ===== verification/PacketBodyCodec.thy ===== *)
theory PacketBodyCodec
  imports PacketBodies
begin

text \<open>
  The parsers and writers of the packet bodies undo each other. The contract is stated once, as the locale
  \<open>packet_body\<close>: what is written for a well-formed body is as long as announced and is read back completely.
  \<open>exact_body\<close> adds the converse, that a body that is read completely is well formed and is written as it was.
\<close>

locale packet_body =
  fixes serialize :: "'a \<Rightarrow> bytes res"
    and parse :: "bytes \<Rightarrow> 'a php"
    and net_len :: "'a \<Rightarrow> nat"
    and ok :: "'a \<Rightarrow> bool"
  assumes body_written: "ok x \<Longrightarrow> serialize x = Inr c \<Longrightarrow> parse c = Inr (Parsed x [])"
    and body_len: "ok x \<Longrightarrow> serialize x = Inr c \<Longrightarrow> length c = net_len x"
begin

lemma body_inj: "ok x \<Longrightarrow> ok y \<Longrightarrow> serialize x = Inr c \<Longrightarrow> serialize y = Inr c \<Longrightarrow> x = y"
  by (metis Inr_inject php_outcome.inject(1) body_written)

end

locale exact_body = packet_body +
  assumes body_exact: "parse bs = Inr (Parsed x []) \<Longrightarrow> ok x \<and> serialize x = Inr bs"
begin

lemma body_iff: "parse bs = Inr (Parsed x []) \<longleftrightarrow> ok x \<and> serialize x = Inr bs"
  using body_exact body_written by blast

end

section \<open>Outcomes\<close>

lemma php_ok_eq_Parsed: "php_ok r = Inr (Parsed x rest) \<longleftrightarrow> r = Inr (x, rest)"
  by (auto simp: php_ok_def php_try_def split: sum.splits failure.splits if_splits prod.splits)

lemma php_try_eq_Parsed: "php_try r f = Inr (Parsed x rest) \<longleftrightarrow> (\<exists>y. r = Inr y \<and> f y = Inr (Parsed x rest))"
  by (auto simp: php_try_def split: sum.splits failure.splits if_splits)

lemma map_parsed_eq_Parsed: "map_parsed f r = Inr (Parsed x rest) \<longleftrightarrow> (\<exists>y. r = Inr (Parsed y rest) \<and> x = f y)"
  by (cases r) (auto simp: map_parsed_def split: php_outcome.split)

lemma php_case_eq_Parsed:
  "(case p of Parsed y bs \<Rightarrow> f y bs | Unparsable e \<Rightarrow> Inr (Unparsable e)) = Inr (Parsed x rest)
   \<longleftrightarrow> (\<exists>y bs. p = Parsed y bs \<and> f y bs = Inr (Parsed x rest))"
  by (cases p) auto

lemmas outcome_simps = php_case_eq_Parsed php_ok_eq_Parsed php_try_eq_Parsed map_parsed_eq_Parsed

section \<open>One-pass signatures\<close>

definition OnePassSig_ok :: "OnePassSig \<Rightarrow> bool" where
  "OnePassSig_ok s =
     (case s of
        OnePassSig.V3 s \<Rightarrow>
          SignatureType_canonical (ops_typ s) \<and> HashAlgorithm_canonical (ops_hash_algo s) \<and> PublicKeyAlgorithm_canonical (ops_pk_algo s)
          \<and> (\<exists>k. ops_issuer s = KeyID.Long k \<and> length k = 8)
      | OnePassSig.V6 s \<Rightarrow>
          (let c = ops_common s in
           SignatureType_canonical (ops_typ c) \<and> HashAlgorithm_canonical (ops_hash_algo c) \<and> PublicKeyAlgorithm_canonical (ops_pk_algo c)
           \<and> ops_issuer c = KeyID_new 0 \<and> length (ops_salt s) < 256 \<and> (\<exists>k. ops_issuer_fp s = Fingerprint.V6 k \<and> length k = 32)))"

lemmas ops_defs = OnePassSig_ok_def OnePassSig_parse_def OnePassSig3_parse_def OnePassSig6_parse_def OnePassSig3_new_def OnePassSig6_new_def
  OnePassSig_serialize_def OnePassSig3_serialize_def OnePassSig6_serialize_def OnePassSig_net_len_def OnePassSig3_net_len_def OnePassSig6_net_len_def
  KeyID_from_bytes_def KeyID_as_bytes_def Fingerprint_from_bytes_def Fingerprint_from_bytes_intern_def

lemmas octet_inverses = sig_type.to_of hash_algo.to_of pk_algo.to_of sym_algo.to_of aead_algo.to_of comp_algo.to_of data_format.to_of
  sig_type.of_to hash_algo.of_to pk_algo.of_to sym_algo.of_to aead_algo.of_to comp_algo.of_to data_format.of_to
  sig_type.canonical_of hash_algo.canonical_of pk_algo.canonical_of sym_algo.canonical_of aead_algo.canonical_of comp_algo.canonical_of
  data_format.canonical_of

lemma parse_bytes_append: "length bs = n \<Longrightarrow> parse_bytes n (bs @ rest) = Inr (bs, rest)"
  by (auto simp: parse_bytes_eq_Inr)

lemma parse_bytes_whole: "length bs = n \<Longrightarrow> parse_bytes n bs = Inr (bs, [])"
  using parse_bytes_append [of bs n "[]"] by simp

lemma OnePassSig_parse_written:
  assumes "OnePassSig_ok s" "OnePassSig_serialize s = Inr c"
  shows "OnePassSig_parse c = Inr (s, []) \<and> length c = OnePassSig_net_len s"
proof (cases s)
  case (V3 s3)
  then show ?thesis
    using assms by (cases s3) (auto simp: ops_defs parse_u8_Cons parse_bytes_append octet_inverses)
next
  case (V6 s6)
  then show ?thesis
    using assms
    by (cases s6; cases "ops_common s6")
      (auto simp: ops_defs parse_u8_Cons parse_bytes_append octet_inverses unat_word_of_nat_u8 Let_def split: if_splits)
qed

lemma OnePassSig_parse_exact:
  assumes "OnePassSig_parse bs = Inr (s, [])"
  shows "OnePassSig_ok s \<and> OnePassSig_serialize s = Inr bs"
  using assms
  by (auto simp: ops_defs result_simps field_inverts octet_inverses Let_def split: if_splits)

interpretation ops: exact_body OnePassSig_serialize "\<lambda>bs. php_ok (OnePassSig_parse bs)" OnePassSig_net_len OnePassSig_ok
  by unfold_locales (auto simp: outcome_simps dest: OnePassSig_parse_written OnePassSig_parse_exact)

section \<open>Session keys encrypted with a public key\<close>

definition Ciphertext_fits :: "PublicKeyAlgorithm \<Rightarrow> Ciphertext \<Rightarrow> bool" where
  "Ciphertext_fits a ct \<longleftrightarrow> PublicKeyAlgorithm_canonical a \<and> for_encryption a \<and> Ciphertext_wf ct \<and> Ciphertext_pk_algo ct = algo_family a"

definition recipient_ok :: "Fingerprint option \<Rightarrow> bool" where
  "recipient_ok r =
     (case r of
        None \<Rightarrow> True
      | Some (Fingerprint.V4 k) \<Rightarrow> length k = 20
      | Some (Fingerprint.V6 k) \<Rightarrow> length k = 32
      | Some (Fingerprint.Unknown v k) \<Rightarrow> v \<noteq> None \<and> v \<noteq> Some 4 \<and> v \<noteq> Some 6 \<and> length k < 255)"

definition PKESK_ok :: "PKESK \<Rightarrow> bool" where
  "PKESK_ok p =
     (case p of
        PKESK.V3 p \<Rightarrow>
          Ciphertext_fits (pkesk3_pk_algo p) (pkesk3_esk p)
          \<and> (case pkesk3_recipient p of None \<Rightarrow> True | Some k \<Rightarrow> \<not> KeyID_is_wildcard k \<and> (\<exists>b. k = KeyID.Long b \<and> length b = 8))
      | PKESK.V6 p \<Rightarrow> Ciphertext_fits (pkesk6_pk_algo p) (pkesk6_esk p) \<and> recipient_ok (pkesk6_recipient p))"

lemma for_encryption_not_sign: "for_encryption a \<Longrightarrow> a \<noteq> PublicKeyAlgorithm.RSASign"
  by (auto simp: for_encryption_def)

lemma Ciphertext_parse_fits:
  assumes "Ciphertext_parse a bs = Inr (ct, [])" "for_encryption a" "PublicKeyAlgorithm_canonical a"
  shows "Ciphertext_fits a ct \<and> Ciphertext_serialize ct = Inr bs"
  using Ciphertext_parse_exact [OF assms(1)] assms(2,3) by (auto simp: Ciphertext_fits_def)

lemma Ciphertext_written:
  assumes "Ciphertext_fits a ct" "Ciphertext_serialize ct = Inr c"
  shows "Ciphertext_parse a c = Inr (ct, []) \<and> length c = Ciphertext_serialized_len ct"
proof -
  have "Ciphertext_parse a c = Inr (ct, [])"
    using Ciphertext_serialize_parse [of ct a "[]"] assms by (auto simp: Ciphertext_fits_def for_encryption_not_sign)
  then show ?thesis using Ciphertext_parse_exact assms(2) by fastforce
qed

lemma wildcard_octets: "length k = 8 \<Longrightarrow> KeyID_is_wildcard (KeyID.Long k) \<longleftrightarrow> k = replicate 8 0"
  using replicate_eqI [of k 8 0] by (auto simp: KeyID_is_wildcard_def KeyID_as_bytes_def list_all_iff)

lemmas pkesk3_defs = PKESK3_parse_def PKESK3_serialize_def PKESK3_net_len_def PKESK3_new_def KeyID_from_bytes_def KeyID_wildcard_def

lemma PKESK3_parse_written:
  assumes "PKESK_ok (PKESK.V3 p)" "PKESK3_serialize p = Inr c"
  shows "PKESK3_parse (tl c) = Inr (Parsed p []) \<and> hd c = 3 \<and> length c = PKESK3_net_len p"
proof -
  obtain d where d: "Ciphertext_serialize (pkesk3_esk p) = Inr d"
    "c = 3 # KeyID_as_bytes (case pkesk3_recipient p of Some k \<Rightarrow> k | None \<Rightarrow> KeyID_wildcard) @ u8_from_PublicKeyAlgorithm (pkesk3_pk_algo p) # d"
    using assms(2) by (auto simp: PKESK3_serialize_def result_simps)
  have f: "Ciphertext_fits (pkesk3_pk_algo p) (pkesk3_esk p)" using assms(1) by (simp add: PKESK_ok_def)
  then show ?thesis
    using Ciphertext_written [OF f d(1)] assms(1)
    by (cases p; cases "pkesk3_recipient p")
      (auto simp: PKESK_ok_def pkesk3_defs d(2) KeyID_as_bytes_def parse_bytes_append parse_u8_Cons Ciphertext_fits_def pk_algo.of_to wildcard_octets)
qed

lemma PKESK3_parse_exact:
  assumes "PKESK3_parse bs = Inr (Parsed p [])"
  shows "PKESK_ok (PKESK.V3 p) \<and> PKESK3_serialize p = Inr (3 # bs)"
proof -
  obtain k a rest ct where p: "length k = 8" "bs = k @ a # rest" "for_encryption (PublicKeyAlgorithm_from_u8 a)"
    "Ciphertext_parse (PublicKeyAlgorithm_from_u8 a) rest = Inr (ct, [])"
    "p = PKESK3_new (if KeyID_is_wildcard (KeyID.Long k) then None else Some (KeyID.Long k)) (PublicKeyAlgorithm_from_u8 a) ct"
    using assms by (auto simp: PKESK3_parse_def outcome_simps result_simps field_inverts KeyID_from_bytes_def Let_def split: if_splits)
  show ?thesis
    using Ciphertext_parse_fits [OF p(4,3) pk_algo.canonical_of] p(1,2,5)
    by (auto simp: PKESK_ok_def pkesk3_defs wildcard_octets KeyID_as_bytes_def pk_algo.to_of)
qed

lemma fp_len_octet:
  assumes "l \<noteq> 0" "length k = unat (l - 1 :: u8)"
  shows "word_of_nat (length k + 1) = l" "unat (l - 1) < 255"
proof -
  have "unat (l - 1) + 1 = unat l" using assms(1) by (simp add: unat_minus_one unat_gt_0)
  then show "word_of_nat (length k + 1) = l" "unat (l - 1) < 255" using assms(2) unat_u8_less [of l] by (simp_all del: unat_u8_less)
qed

lemma fp_len_octet_back:
  assumes "length k < 255"
  shows "(word_of_nat (length k + 1) :: u8) \<noteq> 0" "unat (word_of_nat (length k + 1) - 1 :: u8) = length k"
proof -
  have "unat (word_of_nat (length k + 1) :: u8) = length k + 1" using assms by (simp add: unat_word_of_nat_u8 del: of_nat_Suc of_nat_add)
  then show "(word_of_nat (length k + 1) :: u8) \<noteq> 0" by (metis add_is_0 one_neq_zero unat_0)
  show "unat (word_of_nat (length k + 1) - 1 :: u8) = length k" using assms by (simp add: unat_word_of_nat_u8)
qed

definition recipient_octets :: "Fingerprint option \<Rightarrow> bytes" where
  "recipient_octets r =
     (case r of
        Some fp \<Rightarrow>
          [word_of_nat (length (Fingerprint_as_bytes fp) + 1),
           case fp of Fingerprint.V4 _ \<Rightarrow> 4 | Fingerprint.V6 _ \<Rightarrow> 6
             | Fingerprint.Unknown version _ \<Rightarrow> (case version of Some v \<Rightarrow> v | None \<Rightarrow> 0xff)]
          @ Fingerprint_as_bytes fp
      | None \<Rightarrow> [0])"

lemma recipient_parse_written:
  assumes "recipient_ok r"
  shows "pkesk6_recipient_parse (recipient_octets r @ rest) = Inr (Parsed r rest)"
proof (cases r)
  case None
  then show ?thesis by (simp add: pkesk6_recipient_parse_def recipient_octets_def parse_u8_Cons)
next
  case (Some fp)
  then show ?thesis
    using assms fp_len_octet_back [of "Fingerprint_as_bytes fp"]
    by (cases fp)
      (auto simp: recipient_ok_def pkesk6_recipient_parse_def recipient_octets_def parse_u8_Cons Fingerprint_as_bytes_def parse_bytes_append
        Fingerprint_from_bytes_def Fingerprint_from_bytes_intern_def)
qed

lemma recipient_parse_exact:
  assumes "pkesk6_recipient_parse bs = Inr (Parsed r rest)"
  shows "recipient_ok r \<and> bs = recipient_octets r @ rest"
  using assms fp_len_octet
  by (auto simp: pkesk6_recipient_parse_def recipient_ok_def recipient_octets_def outcome_simps result_simps field_inverts
      Fingerprint_from_bytes_def Fingerprint_from_bytes_intern_def Fingerprint_as_bytes_def Let_def split: if_splits)

lemma PKESK6_serialize_octets:
  "PKESK6_serialize p =
     and_then (Ciphertext_serialize (pkesk6_esk p)) (\<lambda>esk.
       Inr (6 # recipient_octets (pkesk6_recipient p) @ u8_from_PublicKeyAlgorithm (pkesk6_pk_algo p) # esk))"
  by (simp add: PKESK6_serialize_def recipient_octets_def)

lemma PKESK6_parse_written:
  assumes "PKESK_ok (PKESK.V6 p)" "PKESK6_serialize p = Inr c"
  shows "PKESK6_parse (tl c) = Inr (Parsed p []) \<and> hd c = 6 \<and> length c = PKESK6_net_len p"
proof -
  obtain d where d: "Ciphertext_serialize (pkesk6_esk p) = Inr d"
    "c = 6 # recipient_octets (pkesk6_recipient p) @ u8_from_PublicKeyAlgorithm (pkesk6_pk_algo p) # d"
    using assms(2) by (auto simp: PKESK6_serialize_octets result_simps)
  have f: "Ciphertext_fits (pkesk6_pk_algo p) (pkesk6_esk p)" "recipient_ok (pkesk6_recipient p)"
    using assms(1) by (simp_all add: PKESK_ok_def)
  have "length (recipient_octets (pkesk6_recipient p)) = 1 + (case pkesk6_recipient p of Some r \<Rightarrow> length (Fingerprint_as_bytes r) + 1 | None \<Rightarrow> 0)"
    by (simp add: recipient_octets_def split: option.split)
  then show ?thesis
    using Ciphertext_written [OF f(1) d(1)] f
    by (auto simp: PKESK6_parse_def PKESK6_net_len_def d(2) recipient_parse_written parse_u8_Cons Ciphertext_fits_def pk_algo.of_to PKESK6_new_def)
qed

lemma PKESK6_parse_exact:
  assumes "PKESK6_parse bs = Inr (Parsed p [])"
  shows "PKESK_ok (PKESK.V6 p) \<and> PKESK6_serialize p = Inr (6 # bs)"
proof -
  obtain r a rest ct where p: "pkesk6_recipient_parse bs = Inr (Parsed r (a # rest))" "for_encryption (PublicKeyAlgorithm_from_u8 a)"
    "Ciphertext_parse (PublicKeyAlgorithm_from_u8 a) rest = Inr (ct, [])" "p = PKESK6_new r (PublicKeyAlgorithm_from_u8 a) ct"
    using assms
    by (auto simp: PKESK6_parse_def outcome_simps result_simps field_inverts Let_def split: if_splits)
  show ?thesis
    using Ciphertext_parse_fits [OF p(3,2) pk_algo.canonical_of] recipient_parse_exact [OF p(1)] p(4)
    by (auto simp: PKESK_ok_def PKESK6_serialize_octets PKESK6_new_def pk_algo.to_of)
qed

interpretation pkesk: exact_body PKESK_serialize PKESK_parse PKESK_net_len PKESK_ok
proof
  show "PKESK_parse c = Inr (Parsed x [])" if "PKESK_ok x" "PKESK_serialize x = Inr c" for x c
  proof (cases x)
    case (V3 p)
    then show ?thesis
      using that PKESK3_parse_written [of p c]
      by (cases c) (auto simp: PKESK_serialize_def PKESK3_serialize_def PKESK_parse_def parse_u8_Cons map_parsed_def result_simps)
  next
    case (V6 p)
    then show ?thesis
      using that PKESK6_parse_written [of p c]
      by (cases c) (auto simp: PKESK_serialize_def PKESK6_serialize_def PKESK_parse_def parse_u8_Cons map_parsed_def result_simps)
  qed
  show "length c = PKESK_net_len x" if "PKESK_ok x" "PKESK_serialize x = Inr c" for x c
    using that PKESK3_parse_written [of _ c] PKESK6_parse_written [of _ c]
    by (cases x) (auto simp: PKESK_serialize_def PKESK_net_len_def)
next
  fix bs x
  assume "PKESK_parse bs = Inr (Parsed x [])"
  then show "PKESK_ok x \<and> PKESK_serialize x = Inr bs"
    by (auto simp: PKESK_parse_def outcome_simps field_inverts PKESK_serialize_def split: if_splits dest: PKESK3_parse_exact PKESK6_parse_exact)
qed

section \<open>Session keys encrypted with a password\<close>

definition SKESK_ok :: "SKESK \<Rightarrow> bool" where
  "SKESK_ok s =
     (case s of
        SKESK.V4 s \<Rightarrow>
          skesk_version s = 4 \<and> SymmetricAlgorithm_canonical (skesk_sym_algo s) \<and> S2K_wf None (skesk_s2k s)
          \<and> (case skesk_esk s of
               Inr (Some e) \<Rightarrow> S2K_is_supported (skesk_s2k s) \<and> e \<noteq> []
             | Inr None \<Rightarrow> True
             | Inl e \<Rightarrow> \<not> S2K_is_supported (skesk_s2k s) \<and> e \<noteq> [])
      | SKESK.V6 s \<Rightarrow>
          skesk_version (skesk4 s) = 6 \<and> SymmetricAlgorithm_canonical (skesk_sym_algo (skesk4 s)) \<and> AEADAlgorithm_canonical (skesk_aead_algo s)
          \<and> S2K_ok6 (skesk_s2k (skesk4 s)) \<and> (\<exists>e. skesk_esk (skesk4 s) = Inr (Some e))
          \<and> 12 \<le> length (skesk_aead_iv s) \<and> 3 + S2K_serialized_len (skesk_s2k (skesk4 s)) + length (skesk_aead_iv s) < 256)"

lemma SKESK4_parse_written:
  assumes "SKESK_ok (SKESK.V4 s)" "SKESK4_serialize s = Inr c"
  shows "SKESK4_parse (tl c) = Inr (s, []) \<and> hd c = 4 \<and> length c = SKESK4_net_len s"
proof -
  obtain d where d: "S2K_serialize (skesk_s2k s) = Inr d" "c = 4 # u8_from_SymmetricAlgorithm (skesk_sym_algo s) # d @ raw_esk s"
    using assms(2) by (auto simp: SKESK4_serialize_def result_simps)
  have w: "S2K_wf None (skesk_s2k s)" using assms(1) by (simp add: SKESK_ok_def)
  show ?thesis
    using S2K_v4_written [OF w d(1), of "raw_esk s"] S2K_serialize_length [OF w d(1)] assms(1)
    by (cases s)
      (auto simp: SKESK_ok_def SKESK4_parse_def SKESK4_net_len_def SKESK4_new_raw_def d(2) parse_u8_Cons parse_bytes_eof_def raw_esk_def sym_algo.of_to
        split: sum.splits option.splits)
qed

lemma S2K_v6_written:
  assumes "S2K_ok6 s" "S2K_serialize s = Inr c"
  shows "S2K_parse_v6 (word_of_nat (S2K_serialized_len s)) (c @ rest) = Inr (s, rest) \<and> length c = S2K_serialized_len s"
proof -
  let ?l = "word_of_nat (S2K_serialized_len s) :: u8"
  have l: "unat ?l = S2K_serialized_len s" and wf: "S2K_wf (Some ?l) s" using assms(1) by (simp_all add: S2K_ok6_def unat_word_of_nat_u8)
  have "?l \<noteq> 0" using l wf by (cases s) (auto simp: S2K_wf_def S2K_serialized_len_def)
  then have "size_fits (Some ?l) s" using l by (auto simp: size_fits_def split: S2K.splits)
  then show ?thesis
    using S2K_serialize_parse_common [OF wf, of rest] assms(2) S2K_serialize_length [OF wf assms(2)] by (auto simp: S2K_parse_v6_def)
qed

lemma SKESK6_parse_written:
  assumes "SKESK_ok (SKESK.V6 s)" "SKESK6_serialize s = Inr c"
  shows "SKESK6_parse (tl c) = Inr (s, []) \<and> hd c = 6 \<and> length c = SKESK6_net_len s"
proof -
  let ?k = "skesk4 s" and ?iv = "skesk_aead_iv s"
  let ?l = "S2K_serialized_len (skesk_s2k ?k)"
  obtain d where d: "S2K_serialize (skesk_s2k ?k) = Inr d"
    "c = 6 # word_of_nat (3 + ?l + length ?iv) # u8_from_SymmetricAlgorithm (skesk_sym_algo ?k) # u8_from_AEADAlgorithm (skesk_aead_algo s)
       # word_of_nat ?l # d @ ?iv @ raw_esk ?k"
    using assms(2) by (auto simp: SKESK6_serialize_def result_simps Let_def algebra_simps)
  have o6: "S2K_ok6 (skesk_s2k ?k)" and iv: "12 \<le> length ?iv" "3 + ?l + length ?iv < 256" using assms(1) by (simp_all add: SKESK_ok_def)
  have u: "unat (word_of_nat (3 + ?l + length ?iv) :: u8) = 3 + ?l + length ?iv" "unat (word_of_nat ?l :: u8) = ?l"
    using iv by (simp_all add: unat_word_of_nat_u8 del: of_nat_add)
  have "0 < ?l" using o6 by (cases "skesk_s2k ?k") (auto simp: S2K_ok6_def S2K_wf_def S2K_serialized_len_def)
  then have "SKESK6_parse (tl c) = Inr (s, [])"
    using S2K_v6_written [OF o6 d(1)] assms(1) iv u
    by (cases s; cases ?k)
      (auto simp: SKESK_ok_def SKESK6_parse_def d(2) parse_u8_Cons parse_bytes_append parse_bytes_eof_def raw_esk_def SKESK6_new_def
        sym_algo.of_to aead_algo.of_to simp del: of_nat_add)
  then show ?thesis using S2K_v6_written [OF o6 d(1)] by (simp add: d(2) SKESK6_net_len_def)
qed

interpretation skesk: packet_body SKESK_serialize "\<lambda>bs. php_ok (SKESK_parse bs)" SKESK_net_len SKESK_ok
proof
  show "php_ok (SKESK_parse c) = Inr (Parsed x [])" if "SKESK_ok x" "SKESK_serialize x = Inr c" for x c
  proof (cases x)
    case (V4 s)
    then show ?thesis
      using that SKESK4_parse_written [of s c]
      by (cases c) (auto simp: SKESK_serialize_def SKESK4_serialize_def SKESK_parse_def parse_u8_Cons result_simps)
  next
    case (V6 s)
    then show ?thesis
      using that SKESK6_parse_written [of s c]
      by (cases c) (auto simp: SKESK_serialize_def SKESK6_serialize_def SKESK_parse_def parse_u8_Cons result_simps Let_def)
  qed
  show "length c = SKESK_net_len x" if "SKESK_ok x" "SKESK_serialize x = Inr c" for x c
    using that SKESK4_parse_written [of _ c] SKESK6_parse_written [of _ c]
    by (cases x) (auto simp: SKESK_serialize_def SKESK_net_len_def)
qed

section \<open>Signatures, keys and the packets that are plain octets\<close>

interpretation sig_body: packet_body SignaturePacket_serialize
    "\<lambda>bs. php_ok (SignaturePacket_parse ds SignaturePacket_serialized_len (SignaturePacket_from_bytes ds) bs)"
    SignaturePacket_serialized_len "SignaturePacket_ok ds" for ds
proof
  show "php_ok (SignaturePacket_parse ds SignaturePacket_serialized_len (SignaturePacket_from_bytes ds) c) = Inr (Parsed x [])"
    if "SignaturePacket_ok ds x" "SignaturePacket_serialize x = Inr c" for x c
  proof -
    have "SignaturePacket_from_bytes ds c = Inr x" using sig.sig_written [OF that lessI] by blast
    then show ?thesis by (subst (asm) SignaturePacket_from_bytes.simps) (auto simp: result_simps outcome_simps split: if_splits)
  qed
  show "length c = SignaturePacket_serialized_len x" if "SignaturePacket_ok ds x" "SignaturePacket_serialize x = Inr c" for x c
    using sig.sig_written [OF that lessI] by simp
qed

definition Key_body_ok :: "(bytes \<Rightarrow> bytes) \<Rightarrow> Tag \<Rightarrow> Key \<Rightarrow> bool" where
  "Key_body_ok sha1 tag k \<longleftrightarrow> Key_ok k \<and> Key_tag_ok tag k \<and> (case Key_serialize sha1 True k of Inr c \<Rightarrow> length c < 2 ^ 32 | Inl _ \<Rightarrow> True)"

interpretation key_body: packet_body "Key_serialize sha1 True" "\<lambda>bs. php_ok (Key_parse sha1 tag bs)" "Key_net_len True" "Key_body_ok sha1 tag" for sha1 tag
  by unfold_locales (auto simp: outcome_simps Key_body_ok_def Key_net_len_ok intro: Key_parse_written)

interpretation marker_body: exact_body "\<lambda>_. Inr Marker_BODY" "\<lambda>bs. php_ok (Marker_parse bs)" "\<lambda>_. length Marker_BODY" "\<lambda>_. True"
  by unfold_locales (auto simp: outcome_simps Marker_parse_def result_simps parse_bytes_eq_Inr Marker_BODY_def split: if_splits)

interpretation octets_body: exact_body Inr "\<lambda>bs. php_ok (parse_bytes_eof bs)" length "\<lambda>_. True"
  by unfold_locales (auto simp: outcome_simps parse_bytes_eof_def)

definition MDC_ok :: "MDC \<Rightarrow> bool" where
  "MDC_ok m \<longleftrightarrow> length (mdc_digest m) = 20 \<and> mdc_computed_digest m = replicate 20 0"

interpretation mdc_body: exact_body "\<lambda>m. Inr (mdc_digest m)" "\<lambda>bs. php_ok (MDC_parse bs)" "\<lambda>_. 20" MDC_ok
proof
  show "php_ok (MDC_parse c) = Inr (Parsed x [])" if "MDC_ok x" "Inr (mdc_digest x) = Inr c" for x c
    using that by (cases x) (simp add: outcome_simps MDC_parse_def MDC_ok_def MDC_new_def parse_bytes_whole)
qed (auto simp: outcome_simps MDC_parse_def MDC_ok_def MDC_new_def result_simps parse_bytes_eq_Inr)

section \<open>Containers\<close>

text \<open>What precedes the contents of a container, and the container with nothing in it.\<close>

lemma unat_trailing_zeros: "k < w \<Longrightarrow> trailing_zeros w (2 ^ k) = k"
proof (induction k arbitrary: w)
  case 0
  then show ?case by (cases w) auto
next
  case (Suc k)
  then obtain w' where "w = Suc w'" "k < w'" by (cases w) auto
  then show ?case using Suc.IH by simp
qed

definition SEIP2_ok :: "'p SEIP2 \<Rightarrow> bool" where
  "SEIP2_ok s \<longleftrightarrow>
     SymmetricAlgorithm_canonical (seip2_sym_algo s) \<and> AEADAlgorithm_canonical (seip2_aead s)
     \<and> (\<exists>k \<le> 16. seip2_chunk_size s = 2 ^ (k + 6)) \<and> length (seip2_salt s) = 32"

definition SEIP_empty :: "'p SEIP \<Rightarrow> 'p SEIP" where
  "SEIP_empty s =
     (case s of
        SEIP.V1 _ \<Rightarrow> SEIP.V1 SEIP1_new
      | SEIP.V2 s \<Rightarrow> SEIP.V2 (SEIP2 (seip2_sym_algo s) (seip2_aead s) (seip2_chunk_size s) (seip2_salt s) Container_default))"

definition SEIP_ok :: "'p SEIP \<Rightarrow> bool" where
  "SEIP_ok s = (case s of SEIP.V1 s \<Rightarrow> True | SEIP.V2 s \<Rightarrow> SEIP2_ok s)"

lemma check_chunk_size_2p:
  assumes "k \<le> 16"
  shows "check_chunk_size (2 ^ (k + 6)) = Inr ()" "unat (2 ^ (k + 6) :: u64) = 2 ^ (k + 6)"
proof -
  show u: "unat (2 ^ (k + 6) :: u64) = 2 ^ (k + 6)" using assms by (intro unat_2p) simp
  have "(64 :: nat) \<le> 2 ^ (k + 6)" by (simp add: power_add)
  then have "\<not> (2 ^ (k + 6) :: u64) < 64" by (simp only: word_less_nat_alt u) simp
  then show "check_chunk_size (2 ^ (k + 6)) = Inr ()"
    unfolding check_chunk_size_def by (simp only: u count_ones_2p) simp
qed

lemma SEIP2_parse_written:
  fixes s :: "'p SEIP2"
  assumes "SEIP2_ok s" "SEIP2_serialize_headers s = Inr c"
  shows "\<exists>c'. c = 2 # c' \<and> length c = 36
    \<and> SEIP2_parse (c' @ rest) = Inr (SEIP2 (seip2_sym_algo s) (seip2_aead s) (seip2_chunk_size s) (seip2_salt s) (Container_default :: 'p Body), rest)"
proof -
  obtain k where k: "k \<le> 16" "seip2_chunk_size s = 2 ^ (k + 6)" using assms(1) by (auto simp: SEIP2_ok_def)
  have tz: "trailing_zeros 64 (unat (seip2_chunk_size s)) = k + 6"
    using k(1) unat_trailing_zeros [of "k + 6" 64] by (simp only: k(2) check_chunk_size_2p(2) [OF k(1)])
  have w: "unat (word_of_nat k + 6 :: u8) = k + 6" "\<not> (word_of_nat k :: u8) > 16"
    using k(1) unat_word_of_nat_u8 [of "k + 6"] by (simp_all add: word_less_nat_alt unat_word_of_nat_u8)
  have c: "c = [2, u8_from_SymmetricAlgorithm (seip2_sym_algo s), u8_from_AEADAlgorithm (seip2_aead s), word_of_nat k] @ seip2_salt s"
    using assms(2) tz by (auto simp: SEIP2_serialize_headers_def Let_def split: if_splits)
  show ?thesis
    using assms(1) w check_chunk_size_2p [OF k(1)]
    by (auto simp: c SEIP2_ok_def SEIP2_parse_def parse_u8_Cons parse_bytes_append SEIP2_new_def sym_algo.of_to aead_algo.of_to push_bit_one k(2)
        simp del: power_add)
qed

lemma SEIP_parse_written:
  assumes "SEIP_ok s" "SEIP_serialize s = Inr c"
  shows "\<exists>h d. c = h @ d \<and> length c = SEIP_net_len s \<and> SEIP_parse c = Inr (SEIP_empty s, d)
    \<and> (case s of SEIP.V1 s \<Rightarrow> seip1_container s | SEIP.V2 s \<Rightarrow> seip2_container s) = Unprocessed d"
proof (cases s)
  case (V1 x)
  then show ?thesis
    using assms by (auto simp: SEIP_serialize_def SEIP1_serialize_def SEIP_net_len_def SEIP1_net_len_def SEIP_parse_def parse_u8_Cons SEIP_empty_def
        split: Body.splits)
next
  case (V2 x)
  obtain d h where d: "seip2_container x = Unprocessed d" "SEIP2_serialize_headers x = Inr h" "c = h @ d"
    using assms(2) V2 by (auto simp: SEIP_serialize_def SEIP2_serialize_def result_simps split: Body.splits)
  have "SEIP2_ok x" using assms(1) V2 by (simp add: SEIP_ok_def)
  from SEIP2_parse_written [OF this d(2), of d] show ?thesis
    using V2 d by (auto simp: SEIP_net_len_def SEIP2_net_len_def SEIP_parse_def parse_u8_Cons SEIP_empty_def)
qed

definition Literal_ok :: "'p Literal \<Rightarrow> bool" where
  "Literal_ok l \<longleftrightarrow>
     DataFormat_canonical (lit_format l) \<and> (case lit_filename l of None \<Rightarrow> True | Some f \<Rightarrow> f \<noteq> [] \<and> length f \<le> 255) \<and> lit_date l \<noteq> Some 0
     \<and> (\<exists>d. lit_container l = Unprocessed d)"

lemma Literal_parse_written:
  fixes l :: "'p Literal"
  assumes "Literal_ok l" "Literal_serialize l = Inr c"
  shows "\<exists>d. lit_container l = Unprocessed d \<and> Literal_net_len l = Inr (length c)
    \<and> Literal_parse c = Inr (Literal (lit_format l) (lit_filename l) (lit_date l) (Container_default_unprocessed :: 'p Body), d)"
proof -
  obtain d where d: "lit_container l = Unprocessed d" "c = Literal_serialize_headers l @ d"
    using assms by (auto simp: Literal_ok_def Literal_serialize_def Literal_body_def unprocessed_body_def)
  show ?thesis
  proof (cases "lit_filename l")
    case None
    then show ?thesis
      using assms(1) d
      by (cases "lit_date l") (auto simp: Literal_ok_def Literal_serialize_headers_def Literal_parse_def parse_u8_Cons Literal_net_len_def Literal_body_def
          unprocessed_body_def Literal_new_def Literal_set_date_def data_format.of_to)
  next
    case (Some f)
    then have "f \<noteq> []" "length f \<le> 255" using assms(1) by (simp_all add: Literal_ok_def)
    then have "0 < (word_of_nat (length f) :: u8)" "unat (word_of_nat (length f) :: u8) = length f"
      by (simp_all add: word_less_nat_alt unat_word_of_nat_u8)
    then show ?thesis
      using assms(1) d Some
      by (cases "lit_date l") (auto simp: Literal_ok_def Literal_serialize_headers_def Literal_parse_def parse_u8_Cons parse_bytes_append Literal_net_len_def
          Literal_body_def unprocessed_body_def Literal_new_def Literal_set_date_def Literal_set_filename_def data_format.of_to)
  qed
qed

end
