(* ===== verification/Packets.thy ===== *)
theory Packets
  imports PacketBodyCodec
begin

text \<open>
  Packets (\<open>packet/mod.rs\<close>), their writer (\<open>Packet::serialize\<close> of \<open>serialize.rs\<close>) and their conversion to packets of
  unknown contents (\<open>packet/unknown.rs\<close>).

  A compressed container may hold packets, so the writer is recursive.
\<close>

datatype Packet =
    Unknown "Packet UnknownPacket"
  | Signature SignaturePacket
  | OnePassSig OnePassSig
  | PublicKey Key
  | PublicSubkey Key
  | SecretKey Key
  | SecretSubkey Key
  | Marker
  | Trust bytes
  | UserID bytes
  | UserAttribute bytes
  | Literal "Packet Literal"
  | CompressedData "Packet CompressedData"
  | PKESK PKESK
  | SKESK SKESK
  | SEIP "Packet SEIP"
  | MDC MDC
  | Padding bytes

primrec Packet_tag :: "Packet \<Rightarrow> Tag" where
  "Packet_tag (Packet.Unknown p) = unk_tag p"
| "Packet_tag (Packet.Signature _) = Tag.Signature"
| "Packet_tag (Packet.OnePassSig _) = Tag.OnePassSig"
| "Packet_tag (Packet.PublicKey _) = Tag.PublicKey"
| "Packet_tag (Packet.PublicSubkey _) = Tag.PublicSubkey"
| "Packet_tag (Packet.SecretKey _) = Tag.SecretKey"
| "Packet_tag (Packet.SecretSubkey _) = Tag.SecretSubkey"
| "Packet_tag Packet.Marker = Tag.Marker"
| "Packet_tag (Packet.Trust _) = Tag.Trust"
| "Packet_tag (Packet.UserID _) = Tag.UserID"
| "Packet_tag (Packet.UserAttribute _) = Tag.UserAttribute"
| "Packet_tag (Packet.Literal _) = Tag.Literal"
| "Packet_tag (Packet.CompressedData _) = Tag.CompressedData"
| "Packet_tag (Packet.PKESK _) = Tag.PKESK"
| "Packet_tag (Packet.SKESK _) = Tag.SKESK"
| "Packet_tag (Packet.SEIP _) = Tag.SEIP"
| "Packet_tag (Packet.MDC _) = Tag.MDC"
| "Packet_tag (Packet.Padding _) = Tag.Padding"

text \<open>The container of a packet that has one.\<close>

definition Packet_container :: "Packet \<Rightarrow> Packet Body option" where
  "Packet_container p =
     (case p of
        Packet.CompressedData p \<Rightarrow> Some (cd_container p)
      | Packet.SEIP (SEIP.V1 p) \<Rightarrow> Some (seip1_container p)
      | Packet.SEIP (SEIP.V2 p) \<Rightarrow> Some (seip2_container p)
      | Packet.Literal p \<Rightarrow> Some (lit_container p)
      | Packet.Unknown p \<Rightarrow> Some (unk_container p)
      | _ \<Rightarrow> None)"

definition Packet_set_container :: "Packet Body \<Rightarrow> Packet \<Rightarrow> Packet" where
  "Packet_set_container c p =
     (case p of
        Packet.CompressedData p \<Rightarrow> Packet.CompressedData (CompressedData.CompressedData (cd_algo p) c)
      | Packet.SEIP (SEIP.V1 p) \<Rightarrow> Packet.SEIP (SEIP.V1 (SEIP1 c))
      | Packet.SEIP (SEIP.V2 p) \<Rightarrow>
          Packet.SEIP (SEIP.V2 (SEIP2 (seip2_sym_algo p) (seip2_aead p) (seip2_chunk_size p) (seip2_salt p) c))
      | Packet.Literal p \<Rightarrow> Packet.Literal (Literal.Literal (lit_format p) (lit_filename p) (lit_date p) c)
      | Packet.Unknown p \<Rightarrow> Packet.Unknown (UnknownPacket (unk_tag p) (unk_error p) c)
      | p \<Rightarrow> p)"

section \<open>Lengths and writing\<close>

definition gross_len :: "nat \<Rightarrow> nat" where
  "gross_len net = 1 + BodyLength_serialized_len (BodyLength.Full (word_of_nat net)) + net"

lemma sum_all_cong: "(\<And>p. p \<in> set ps \<Longrightarrow> f p = g p) \<Longrightarrow> sum_all f ps = sum_all g ps"
  by (induction ps) simp_all

lemma serialize_all_cong: "(\<And>p. p \<in> set ps \<Longrightarrow> f p = g p) \<Longrightarrow> serialize_all f ps = serialize_all g ps"
  by (induction ps) simp_all

lemma set_CompressedData_children:
  "p \<in> set_CompressedData d \<longleftrightarrow> (\<exists>ps. cd_container d = Structured ps \<and> p \<in> set ps)"
  by (cases d; cases "cd_container d") auto

lemma CompressedData_net_len_cong [fundef_cong]:
  "d = d' \<Longrightarrow> (\<And>p. p \<in> set_CompressedData d' \<Longrightarrow> f p = g p) \<Longrightarrow> CompressedData_net_len f d = CompressedData_net_len g d'"
  by (cases "cd_container d'") (auto simp: CompressedData_net_len_def set_CompressedData_children cong: sum_all_cong)

lemma CompressedData_serialize_cong [fundef_cong]:
  "d = d' \<Longrightarrow> (\<And>p. p \<in> set_CompressedData d' \<Longrightarrow> f p = g p) \<Longrightarrow> CompressedData_serialize c f d = CompressedData_serialize c g d'"
  by (cases "cd_container d'") (auto simp: CompressedData_serialize_def set_CompressedData_children cong: serialize_all_cong)

lemma child_smaller [termination_simp]: "p \<in> set_CompressedData d \<Longrightarrow> size p < Suc (size_CompressedData size d)"
proof -
  assume "p \<in> set_CompressedData d"
  then obtain ps where ps: "cd_container d = Structured ps" "p \<in> set ps" by (auto simp: set_CompressedData_children)
  have "size p \<le> size_list size ps" using ps(2) by (rule size_list_estimation') simp
  then show ?thesis using ps(1) by (cases d) simp
qed

fun Packet_net_len :: "Packet \<Rightarrow> nat res" where
  "Packet_net_len (Packet.Unknown p) = and_then (UnknownPacket_body p) (\<lambda>b. Inr (length b))"
| "Packet_net_len (Packet.Signature p) = Inr (SignaturePacket_serialized_len p)"
| "Packet_net_len (Packet.OnePassSig p) = Inr (OnePassSig_net_len p)"
| "Packet_net_len (Packet.PublicKey p) = Inr (Key_net_len False p)"
| "Packet_net_len (Packet.PublicSubkey p) = Inr (Key_net_len False p)"
| "Packet_net_len (Packet.SecretKey p) = Inr (Key_net_len True p)"
| "Packet_net_len (Packet.SecretSubkey p) = Inr (Key_net_len True p)"
| "Packet_net_len Packet.Marker = Inr (length Marker_BODY)"
| "Packet_net_len (Packet.Trust p) = Inr (length p)"
| "Packet_net_len (Packet.UserID p) = Inr (length p)"
| "Packet_net_len (Packet.UserAttribute p) = Inr (length p)"
| "Packet_net_len (Packet.Literal p) = Literal_net_len p"
| "Packet_net_len (Packet.CompressedData p) =
     CompressedData_net_len (\<lambda>q. and_then (Packet_net_len q) (\<lambda>n. Inr (gross_len n))) p"
| "Packet_net_len (Packet.PKESK p) = Inr (PKESK_net_len p)"
| "Packet_net_len (Packet.SKESK p) = Inr (SKESK_net_len p)"
| "Packet_net_len (Packet.SEIP p) = Inr (SEIP_net_len p)"
| "Packet_net_len (Packet.MDC p) = Inr 20"
| "Packet_net_len (Packet.Padding p) = Inr (length p)"

definition Packet_serialized_len :: "Packet \<Rightarrow> nat res" where
  "Packet_serialized_len p = and_then (Packet_net_len p) (\<lambda>n. Inr (gross_len n))"

text \<open>The packet in its frame; the length of compressed data, which is only estimated, is that of what is written.\<close>

definition framed :: "Tag \<Rightarrow> nat \<Rightarrow> bytes res \<Rightarrow> bytes res" where
  "framed tag net_len body =
     and_then (BodyLength_serialize (BodyLength.Full (word_of_nat net_len))) (\<lambda>len.
     and_then body (\<lambda>body. Inr (CTB_serialize (CTB_new tag) @ len @ body)))"

definition Packet_body :: "(bytes \<Rightarrow> bytes) \<Rightarrow> Packet \<Rightarrow> bytes res" where
  "Packet_body sha1 p =
     (case p of
        Packet.Unknown p \<Rightarrow> UnknownPacket_body p
      | Packet.Signature p \<Rightarrow> SignaturePacket_serialize p
      | Packet.OnePassSig p \<Rightarrow> OnePassSig_serialize p
      | Packet.PublicKey p \<Rightarrow> Key_serialize sha1 False p
      | Packet.PublicSubkey p \<Rightarrow> Key_serialize sha1 False p
      | Packet.SecretKey p \<Rightarrow> Key_serialize sha1 True p
      | Packet.SecretSubkey p \<Rightarrow> Key_serialize sha1 True p
      | Packet.Marker \<Rightarrow> Inr Marker_BODY
      | Packet.Trust p \<Rightarrow> Inr p
      | Packet.UserID p \<Rightarrow> Inr p
      | Packet.UserAttribute p \<Rightarrow> Inr p
      | Packet.Literal p \<Rightarrow> Literal_serialize p
      | Packet.CompressedData _ \<Rightarrow> Inl Panic
      | Packet.PKESK p \<Rightarrow> PKESK_serialize p
      | Packet.SKESK p \<Rightarrow> SKESK_serialize p
      | Packet.SEIP p \<Rightarrow> SEIP_serialize p
      | Packet.MDC p \<Rightarrow> Inr (mdc_digest p)
      | Packet.Padding p \<Rightarrow> Inr p)"

fun Packet_serialize :: "(CompressionAlgorithm \<Rightarrow> bytes \<Rightarrow> bytes) \<Rightarrow> (bytes \<Rightarrow> bytes) \<Rightarrow> Packet \<Rightarrow> bytes res" where
  "Packet_serialize compress sha1 p =
     (case p of
        Packet.CompressedData d \<Rightarrow>
          and_then (CompressedData_serialize compress (Packet_serialize compress sha1) d) (\<lambda>body. framed (Packet_tag p) (length body) (Inr body))
      | _ \<Rightarrow> and_then (Packet_net_len p) (\<lambda>net_len. framed (Packet_tag p) net_len (Packet_body sha1 p)))"

declare Packet_serialize.simps [simp del]

text \<open>
  The conversion to a packet of unknown contents. Containers are refused, but a literal data packet is not: its contents,
  without its headers, become the body.
\<close>

definition Unknown_convert :: "Tag \<Rightarrow> bytes res \<Rightarrow> Packet UnknownPacket res" where
  "Unknown_convert tag body =
     (case body of Inr b \<Rightarrow> Inr (UnknownPacket tag (Err MalformedPacket) (Unprocessed b)) | Inl _ \<Rightarrow> Inl Panic)"

definition Unknown_try_from :: "(bytes \<Rightarrow> bytes) \<Rightarrow> Packet \<Rightarrow> Packet UnknownPacket res" where
  "Unknown_try_from sha1 p =
     (case p of
        Packet.Unknown p \<Rightarrow> Inr p
      | Packet.CompressedData _ \<Rightarrow> Inl (Err InvalidOperation)
      | Packet.SEIP _ \<Rightarrow> Inl (Err InvalidOperation)
      | Packet.Signature v \<Rightarrow> Unknown_convert (Packet_tag p) (SignaturePacket_serialize v)
      | Packet.OnePassSig v \<Rightarrow> Unknown_convert (Packet_tag p) (OnePassSig_serialize v)
      | Packet.PublicKey v \<Rightarrow> Unknown_convert (Packet_tag p) (Key_serialize sha1 False v)
      | Packet.PublicSubkey v \<Rightarrow> Unknown_convert (Packet_tag p) (Key_serialize sha1 False v)
      | Packet.SecretKey v \<Rightarrow> Unknown_convert (Packet_tag p) (Key_serialize sha1 True v)
      | Packet.SecretSubkey v \<Rightarrow> Unknown_convert (Packet_tag p) (Key_serialize sha1 True v)
      | Packet.Marker \<Rightarrow> Unknown_convert (Packet_tag p) (Inr Marker_BODY)
      | Packet.Trust v \<Rightarrow> Unknown_convert (Packet_tag p) (Inr v)
      | Packet.UserID v \<Rightarrow> Unknown_convert (Packet_tag p) (Inr v)
      | Packet.UserAttribute v \<Rightarrow> Unknown_convert (Packet_tag p) (Inr v)
      | Packet.PKESK v \<Rightarrow> Unknown_convert (Packet_tag p) (PKESK_serialize v)
      | Packet.SKESK v \<Rightarrow> Unknown_convert (Packet_tag p) (SKESK_serialize v)
      | Packet.MDC v \<Rightarrow> Unknown_convert (Packet_tag p) (Inr (mdc_digest v))
      | Packet.Padding v \<Rightarrow> Unknown_convert (Packet_tag p) (Inr v)
      | Packet.Literal v \<Rightarrow>
          and_then (Literal_body v) (\<lambda>body. Inr (UnknownPacket (Packet_tag p) (Err MalformedPacket) (Unprocessed body))))"

end
