(* ===== verification/PacketParser.thy ===== *)
theory PacketParser
  imports Packets
begin

text \<open>
  The packet parser (\<open>PacketParser\<close> of \<open>parse.rs\<close>): it reads a header, resynchronising on junk between packets, parses
  the body under the length of the header, turns what it cannot parse into a packet of unknown contents, and buffers what
  is unread of a container before it goes to the next packet.

  The input is a \<open>buffered_reader::Memory\<close> of octets that are not armored. Containers are not descended into
  (\<open>next\<close>, not \<open>recurse\<close>); hashing for signatures, which fills in computed digests, the map of the packet's fields, the
  digest of the body and the validators of the packet sequence are left out.

  The parameters are the digest sizes and SHA1 of the cryptographic backend and the decompressing readers.
\<close>

section \<open>Readers of a body\<close>

text \<open>
  The octets a packet's body has left, and what is found behind them: the rest of the input, the end of the input within
  the body, or a chunk header that cannot be read, of which the first octet is lost.
\<close>

datatype body_end = Complete bytes | Short | BadHeader bytes

record body_reader =
  br_data :: bytes
  br_end :: body_end

text \<open>
  The readers under a packet parser are described here by what they deliver: \<open>limited\<close> is a \<open>Limitor\<close> over the rest of the
  input, \<open>chunked\<close> the reader of bodies in chunks. Their methods are modelled in \<open>BufferedReaders\<close> and \<open>PartialBody\<close>. A chunk
  header is never of indeterminate length, as the parser of such headers returns none.
\<close>

definition limited :: "u32 \<Rightarrow> bytes \<Rightarrow> body_reader" where
  "limited len bs =
     \<lparr>br_data = take (unat len) bs, br_end = (if unat len \<le> length bs then Complete (drop (unat len) bs) else Short)\<rparr>"

definition prepend :: "bytes \<Rightarrow> body_reader \<Rightarrow> body_reader" where
  "prepend d b = b\<lparr>br_data := d @ br_data b\<rparr>"

function chunked :: "nat \<Rightarrow> bool \<Rightarrow> bytes \<Rightarrow> body_reader" where
  "chunked n final bs =
     (if length bs < n then \<lparr>br_data = bs, br_end = Short\<rparr>
      else if final then \<lparr>br_data = take n bs, br_end = Complete (drop n bs)\<rparr>
      else
        (case parse_new_format (drop n bs) of
           Inl _ \<Rightarrow> \<lparr>br_data = take n bs, br_end = BadHeader (drop (Suc n) bs)\<rparr>
         | Inr (BodyLength.Full l, rest) \<Rightarrow> prepend (take n bs) (chunked (unat l) True rest)
         | Inr (BodyLength.Partial l, rest) \<Rightarrow> prepend (take n bs) (chunked (unat l) False rest)
         | Inr (BodyLength.Indeterminate, rest) \<Rightarrow> \<lparr>br_data = take n bs, br_end = BadHeader rest\<rparr>))"
  by pat_completeness auto
termination
  by (relation "measure (\<lambda>(n, final, bs). length bs)") (auto dest!: parse_new_format_consumes)

declare chunked.simps [simp del]

definition body_of :: "BodyLength \<Rightarrow> bytes \<Rightarrow> body_reader" where
  "body_of len bs =
     (case len of
        BodyLength.Full l \<Rightarrow> limited l bs
      | BodyLength.Partial l \<Rightarrow> chunked (unat l) False bs
      | BodyLength.Indeterminate \<Rightarrow> \<lparr>br_data = bs, br_end = Complete []\<rparr>)"

text \<open>After a read past the end of the body, a chunk header that could not be read is tried again, one octet on.\<close>

definition reread :: "body_reader \<Rightarrow> failure \<Rightarrow> body_reader" where
  "reread b e =
     (case br_end b of
        BadHeader r \<Rightarrow> if e = IoErr UnexpectedEof then prepend (br_data b) (chunked 0 False r) else b
      | _ \<Rightarrow> b)"

datatype pp_reader = Plain body_reader | Decompressor CompressionAlgorithm body_reader

text \<open>A decompressor delivers data and leaves some of the compressed body.\<close>

type_synonym decompressor = "CompressionAlgorithm \<Rightarrow> body_reader \<Rightarrow> (bytes \<times> body_reader) res"

definition pp_steal_eof :: "decompressor \<Rightarrow> pp_reader \<Rightarrow> (bytes \<times> body_reader) res" where
  "pp_steal_eof decompress r =
     (case r of
        Plain b \<Rightarrow>
          (case br_end b of BadHeader _ \<Rightarrow> Inl (IoErr UnexpectedEof) | _ \<Rightarrow> Inr (br_data b, b\<lparr>br_data := []\<rparr>))
      | Decompressor algo b \<Rightarrow> decompress algo b)"

definition buffered_reader_stack_pop :: "body_reader \<Rightarrow> bytes res" where
  "buffered_reader_stack_pop b =
     (case br_end b of
        Complete rest \<Rightarrow> Inr rest
      | Short \<Rightarrow> if br_data b = [] then Inl (Err MalformedPacket) else Inr []
      | BadHeader _ \<Rightarrow> if br_data b = [] then Inl (Err MalformedPacket) else Inl (IoErr UnexpectedEof))"

section \<open>Recovery\<close>

definition RECOVERY_THRESHOLD :: nat where
  "RECOVERY_THRESHOLD = 32 * 1024"

definition Marker_plausible :: "Header \<Rightarrow> bytes \<Rightarrow> unit res" where
  "Marker_plausible header data =
     (case body_length header of
        BodyLength.Full len \<Rightarrow>
          if unat len \<noteq> length Marker_BODY then Inl (Err MalformedPacket)
          else if length data < length Marker_BODY then Inl (Err MalformedPacket)
          else if data = Marker_BODY then Inr () else Inl (Err MalformedPacket)
      | _ \<Rightarrow> Inl (Err MalformedPacket))"

definition pk_algo_known :: "PublicKeyAlgorithm \<Rightarrow> bool" where
  "pk_algo_known a = (case a of PublicKeyAlgorithm.Unknown _ \<Rightarrow> False | _ \<Rightarrow> True)"

definition Signature4_plausible :: "Header \<Rightarrow> bytes \<Rightarrow> unit res" where
  "Signature4_plausible header data =
     (case body_length header of
        BodyLength.Full len \<Rightarrow>
          if len < 11 then Inl (Err MalformedPacket)
          else if length data < 11 then Inl (Err MalformedPacket)
          else if data ! 0 = 4
              \<and> (case SignatureType_from_u8 (data ! 1) of SignatureType.Unknown _ \<Rightarrow> False | _ \<Rightarrow> True)
              \<and> pk_algo_known (PublicKeyAlgorithm_from_u8 (data ! 2))
              \<and> (case HashAlgorithm_from_u8 (data ! 3) of HashAlgorithm.Unknown _ \<Rightarrow> False | _ \<Rightarrow> True)
          then Inr ()
          else Inl (Err MalformedPacket)
      | _ \<Rightarrow> Inl (Err MalformedPacket))"

definition Key4_plausible :: "bytes \<Rightarrow> unit res" where
  "Key4_plausible data =
     (if length data < 6 then Inl (Err MalformedPacket)
      else if data ! 0 = 4 \<and> pk_algo_known (PublicKeyAlgorithm_from_u8 (data ! 5)) then Inr ()
      else Inl (Err MalformedPacket))"

definition RFC9580_PUBLICATION_TIME :: u32 where
  "RFC9580_PUBLICATION_TIME = 1722376800"

definition Key6_plausible :: "Header \<Rightarrow> bytes \<Rightarrow> unit res" where
  "Key6_plausible header data =
     (if length data < 10 then Inl (Err MalformedPacket)
      else if data ! 0 = 6 \<and> pk_algo_known (PublicKeyAlgorithm_from_u8 (data ! 5))
          \<and> from_be_u32 (take 4 (drop 1 data)) \<ge> RFC9580_PUBLICATION_TIME
          \<and> (case body_length header of BodyLength.Full len \<Rightarrow> from_be_u32 (take 4 (drop 6 data)) < len | _ \<Rightarrow> False)
      then Inr ()
      else Inl (Err MalformedPacket))"

definition Key_plausible :: "Header \<Rightarrow> bytes \<Rightarrow> unit res" where
  "Key_plausible header data =
     (case body_length header of
        BodyLength.Full len \<Rightarrow>
          if len < 6 then Inl (Err MalformedPacket)
          else if length data < 6 then Inl (Err MalformedPacket)
          else if data ! 0 = 4 then Key4_plausible data
          else if data ! 0 = 6 then Key6_plausible header data
          else Inl (Err MalformedPacket)
      | _ \<Rightarrow> Inl (Err MalformedPacket))"

definition plausible_cert :: "Header \<Rightarrow> bytes \<Rightarrow> unit res" where
  "plausible_cert header data =
     (case CTB_tag (ctb header) of
        Tag.Marker \<Rightarrow> Marker_plausible header data
      | Tag.Signature \<Rightarrow> Signature4_plausible header data
      | Tag.SecretKey \<Rightarrow> Key_plausible header data
      | Tag.PublicKey \<Rightarrow> Key_plausible header data
      | Tag.SecretSubkey \<Rightarrow> Key_plausible header data
      | Tag.PublicSubkey \<Rightarrow> Key_plausible header data
      | _ \<Rightarrow> Inl (Err MalformedPacket))"

text \<open>
  The loop that reads a header: how much is skipped, the header, what the body is read from, and the error to report
  once the junk has been returned. Skipped octets are given a made-up header.
\<close>

definition junk_header :: "nat \<Rightarrow> Header" where
  "junk_header skip = Header_new (CTB_new Tag.Reserved) (BodyLength.Full (word_of_nat skip))"

function find_header :: "bool \<Rightarrow> bytes \<Rightarrow> nat \<Rightarrow> failure option \<Rightarrow> (nat \<times> Header \<times> bytes \<times> failure option) res" where
  "find_header first_packet bs skip orig_error =
     (if length bs < skip then
        (if skip = 0 then Inl Panic else Inr (skip, junk_header skip, bs, None))
      else
        (case Header_parse (drop skip bs) of
           Inr (header, rest) \<Rightarrow>
             if skip = 0 then Inr (0, header, rest, None)
             else if is_ok (plausible_cert header rest) then Inr (skip, junk_header skip, bs, None)
             else find_header first_packet bs (Suc skip) orig_error
         | Inl err \<Rightarrow>
             (let orig_error = (case orig_error of None \<Rightarrow> err | Some e \<Rightarrow> e) in
              if first_packet then Inl orig_error
              else if skip > RECOVERY_THRESHOLD then Inr (skip, junk_header skip, bs, Some orig_error)
              else find_header first_packet bs (Suc skip) (Some orig_error))))"
  by pat_completeness auto
termination
  by (relation "measure (\<lambda>(_, bs, skip, _). Suc (length bs) - skip)") auto

declare find_header.simps [simp del]

section \<open>The parser\<close>

record settings =
  max_packet_size :: u32
  set_buffer_unread_content :: bool

definition DEFAULT_MAX_PACKET_SIZE :: u32 where
  "DEFAULT_MAX_PACKET_SIZE = 2 ^ 20"

definition settings_default :: settings where
  "settings_default = \<lparr>max_packet_size = DEFAULT_MAX_PACKET_SIZE, set_buffer_unread_content = False\<rparr>"

record state =
  st_settings :: settings
  first_packet :: bool
  pending_error :: "failure option"

definition state_new :: "settings \<Rightarrow> state" where
  "state_new s = \<lparr>st_settings = s, first_packet = True, pending_error = None\<rparr>"

record PacketParser =
  pp_packet :: Packet
  pp_reader :: pp_reader
  pp_processed :: bool
  pp_finished :: bool
  pp_state :: state

datatype ParserResult = EOF state | Success PacketParser

text \<open>What the parser takes from the cryptographic backend.\<close>

record backend =
  digest_sizes :: "HashAlgorithm \<Rightarrow> nat option"
  sha1_of :: "bytes \<Rightarrow> bytes"

definition parse_packet :: "backend \<Rightarrow> Tag \<Rightarrow> bytes \<Rightarrow> Packet php" where
  "parse_packet be tag bs =
     (case tag of
        Tag.Signature \<Rightarrow>
          map_parsed Packet.Signature
            (php_ok (SignaturePacket_parse (digest_sizes be) SignaturePacket_serialized_len (SignaturePacket_from_bytes (digest_sizes be)) bs))
      | Tag.OnePassSig \<Rightarrow> map_parsed Packet.OnePassSig (php_ok (OnePassSig_parse bs))
      | Tag.PublicSubkey \<Rightarrow> map_parsed Packet.PublicSubkey (php_ok (Key_parse (sha1_of be) tag bs))
      | Tag.PublicKey \<Rightarrow> map_parsed Packet.PublicKey (php_ok (Key_parse (sha1_of be) tag bs))
      | Tag.SecretKey \<Rightarrow> map_parsed Packet.SecretKey (php_ok (Key_parse (sha1_of be) tag bs))
      | Tag.SecretSubkey \<Rightarrow> map_parsed Packet.SecretSubkey (php_ok (Key_parse (sha1_of be) tag bs))
      | Tag.Trust \<Rightarrow> map_parsed Packet.Trust (php_ok (Trust_parse bs))
      | Tag.UserID \<Rightarrow> map_parsed Packet.UserID (php_ok (UserID_parse bs))
      | Tag.UserAttribute \<Rightarrow> map_parsed Packet.UserAttribute (php_ok (UserAttribute_parse bs))
      | Tag.Marker \<Rightarrow> map_parsed (\<lambda>_. Packet.Marker) (php_ok (Marker_parse bs))
      | Tag.Literal \<Rightarrow> map_parsed Packet.Literal (php_ok (Literal_parse bs))
      | Tag.CompressedData \<Rightarrow> map_parsed Packet.CompressedData (php_ok (CompressedData_parse bs))
      | Tag.SKESK \<Rightarrow> map_parsed Packet.SKESK (php_ok (SKESK_parse bs))
      | Tag.SEIP \<Rightarrow> map_parsed Packet.SEIP (php_ok (SEIP_parse bs))
      | Tag.MDC \<Rightarrow> map_parsed Packet.MDC (php_ok (MDC_parse bs))
      | Tag.PKESK \<Rightarrow> map_parsed Packet.PKESK (PKESK_parse bs)
      | Tag.Padding \<Rightarrow> map_parsed Packet.Padding (php_ok (Padding_parse bs))
      | _ \<Rightarrow> Inr (Unparsable (Err (UnsupportedPacketType tag))))"

text \<open>The parsers of encrypted and compressed data set the reader and whether the body counts as processed.\<close>

definition packet_reader :: "Packet \<Rightarrow> body_reader \<Rightarrow> pp_reader" where
  "packet_reader p b =
     (case p of
        Packet.CompressedData d \<Rightarrow>
          (case cd_algo d of
             CompressionAlgorithm.Zip \<Rightarrow> Decompressor (cd_algo d) b
           | CompressionAlgorithm.Zlib \<Rightarrow> Decompressor (cd_algo d) b
           | CompressionAlgorithm.BZip2 \<Rightarrow> Decompressor (cd_algo d) b
           | _ \<Rightarrow> Plain b)
      | _ \<Rightarrow> Plain b)"

definition packet_processed :: "Packet \<Rightarrow> bool" where
  "packet_processed p =
     (case p of Packet.CompressedData d \<Rightarrow> compression_supported (cd_algo d) | Packet.SEIP _ \<Rightarrow> False | _ \<Rightarrow> True)"

text \<open>The checks of the header: its syntax, and the size of packets that are not streamed.\<close>

definition header_error :: "u32 \<Rightarrow> Header \<Rightarrow> failure option res" where
  "header_error max_size header =
     (let tag = CTB_tag (ctb header) in
      case Header_valid header True of
        Inl Panic \<Rightarrow> Inl Panic
      | Inl e \<Rightarrow> Inr (Some e)
      | Inr _ \<Rightarrow>
          if is_data_packet tag then Inr None
          else
            (case body_length header of
               BodyLength.Full l \<Rightarrow> Inr (if l > max_size then Some (Err (PacketTooLarge tag l max_size)) else None)
             | _ \<Rightarrow> Inl Panic))"

definition pp_start :: "Tag \<Rightarrow> body_reader \<Rightarrow> state \<Rightarrow> Packet php_outcome \<Rightarrow> PacketParser" where
  "pp_start tag body st outcome =
     (case outcome of
        Parsed p rest \<Rightarrow>
          \<lparr>pp_packet = p, pp_reader = packet_reader p (body\<lparr>br_data := rest\<rparr>), pp_processed = packet_processed p,
           pp_finished = False, pp_state = st\<rparr>
      | Unparsable e \<Rightarrow>
          \<lparr>pp_packet = Packet.Unknown (UnknownPacket_new tag e), pp_reader = Plain (reread body e), pp_processed = True,
           pp_finished = False, pp_state = st\<rparr>)"

definition PacketParser_parse :: "backend \<Rightarrow> state \<Rightarrow> bytes \<Rightarrow> ParserResult res" where
  "PacketParser_parse be st bs =
     (case pending_error st of
        Some e \<Rightarrow> Inl e
      | None \<Rightarrow>
          if bs = [] then Inr (EOF st)
          else
            and_then (find_header (first_packet st) bs 0 None) (\<lambda>(skip, header, input, pending).
            let tag = CTB_tag (ctb header);
                body = body_of (body_length header) input in
            and_then (header_error (max_packet_size (st_settings st)) header) (\<lambda>header_syntax_error.
            and_then (if tag = Tag.Reserved \<and> skip > 0 then Inr (Unparsable (Err MalformedPacket))
                      else (case header_syntax_error of
                              Some e \<Rightarrow> Inr (Unparsable e)
                            | None \<Rightarrow> parse_packet be tag (br_data body))) (\<lambda>outcome.
              Inr (Success (pp_start tag body (st\<lparr>first_packet := False, pending_error := pending\<rparr>) outcome))))))"

definition set_or_extend :: "bytes \<Rightarrow> 'p Body \<Rightarrow> bool \<Rightarrow> 'p Body res" where
  "set_or_extend rest c processed =
     (if rest \<noteq> [] then
        and_then (case c of
                    Unprocessed bytes \<Rightarrow> Inr bytes
                  | Processed bytes \<Rightarrow> Inr bytes
                  | Structured ps \<Rightarrow> if ps = [] then Inr [] else Inl (Err InvalidOperation)) (\<lambda>current.
          Inr (if processed then Processed (current @ rest) else Unprocessed (current @ rest)))
      else
        (case c of Structured ps \<Rightarrow> if ps = [] then Inr c else Inl (Err InvalidOperation) | _ \<Rightarrow> Inr c))"

definition buffer_unread_content :: "bytes \<Rightarrow> bool \<Rightarrow> Packet \<Rightarrow> Packet res" where
  "buffer_unread_content rest processed p =
     (case p of
        Packet.Literal _ \<Rightarrow>
          and_then (set_or_extend rest (the (Packet_container p)) False) (\<lambda>c. Inr (Packet_set_container c p))
      | Packet.Unknown _ \<Rightarrow>
          and_then (set_or_extend rest (the (Packet_container p)) False) (\<lambda>c. Inr (Packet_set_container c p))
      | Packet.CompressedData _ \<Rightarrow>
          and_then (set_or_extend rest (the (Packet_container p)) processed) (\<lambda>c. Inr (Packet_set_container c p))
      | Packet.SEIP _ \<Rightarrow>
          and_then (set_or_extend rest (the (Packet_container p)) processed) (\<lambda>c. Inr (Packet_set_container c p))
      | p \<Rightarrow> if rest \<noteq> [] then Inl (Err MalformedPacket) else Inr p)"

definition PacketParser_finish :: "decompressor \<Rightarrow> PacketParser \<Rightarrow> PacketParser res" where
  "PacketParser_finish decompress pp =
     (if pp_finished pp then Inr pp
      else
        and_then (pp_steal_eof decompress (pp_reader pp)) (\<lambda>(rest, reader).
        and_then (if set_buffer_unread_content (st_settings (pp_state pp))
                  then buffer_unread_content rest (pp_processed pp) (pp_packet pp)
                  else Inr (pp_packet pp)) (\<lambda>p.
          Inr (pp\<lparr>pp_packet := p, pp_reader := Plain reader, pp_finished := True\<rparr>))))"

definition PacketParser_next :: "backend \<Rightarrow> decompressor \<Rightarrow> PacketParser \<Rightarrow> (Packet \<times> ParserResult) res" where
  "PacketParser_next be decompress pp =
     and_then (PacketParser_finish decompress pp) (\<lambda>pp.
     and_then (case pp_reader pp of Plain b \<Rightarrow> buffered_reader_stack_pop b | Decompressor _ b \<Rightarrow> buffered_reader_stack_pop b) (\<lambda>bs.
     and_then (PacketParser_parse be (pp_state pp) bs) (\<lambda>ppr. Inr (pp_packet pp, ppr))))"

definition Packet_from_bytes :: "backend \<Rightarrow> decompressor \<Rightarrow> bytes \<Rightarrow> Packet res" where
  "Packet_from_bytes be decompress bs =
     and_then (PacketParser_parse be (state_new (settings_default\<lparr>set_buffer_unread_content := True\<rparr>)) bs) (\<lambda>ppr.
       case ppr of
         EOF _ \<Rightarrow> Inl (Err InvalidOperation)
       | Success pp \<Rightarrow>
           and_then (PacketParser_next be decompress pp) (\<lambda>(p, ppr).
             case ppr of EOF _ \<Rightarrow> Inr p | Success _ \<Rightarrow> Inl (Err InvalidOperation)))"

text \<open>All packets, as a client gets them that calls \<open>next\<close> until the end.\<close>

partial_function (option) packets_loop ::
    "backend \<Rightarrow> decompressor \<Rightarrow> ParserResult \<Rightarrow> Packet list res option" where
  "packets_loop be decompress ppr =
     (case ppr of
        EOF _ \<Rightarrow> Some (Inr [])
      | Success pp \<Rightarrow>
          (case PacketParser_next be decompress pp of
             Inl e \<Rightarrow> Some (Inl e)
           | Inr (p, ppr) \<Rightarrow>
               Option.bind (packets_loop be decompress ppr) (\<lambda>r. Some (and_then r (\<lambda>ps. Inr (p # ps))))))"

definition packets_from_bytes :: "backend \<Rightarrow> decompressor \<Rightarrow> settings \<Rightarrow> bytes \<Rightarrow> Packet list res option" where
  "packets_from_bytes be decompress settings bs =
     (case PacketParser_parse be (state_new settings) bs of Inl e \<Rightarrow> Some (Inl e) | Inr ppr \<Rightarrow> packets_loop be decompress ppr)"

end
