(* ===== verification/PacketStream.thy ===== *)
theory PacketStream
  imports PacketParser
begin

text \<open>
  Properties of the packet writer and the packet parser: a sequence of well-formed packets that is written is read back,
  the parser always comes to an end and never panics, and what it does with packets it cannot parse.
\<close>

section \<open>Frames\<close>

definition contents :: "(CompressionAlgorithm \<Rightarrow> bytes \<Rightarrow> bytes) \<Rightarrow> (bytes \<Rightarrow> bytes) \<Rightarrow> Packet \<Rightarrow> bytes res" where
  "contents compress sha1 p =
     (case p of
        Packet.CompressedData d \<Rightarrow> CompressedData_serialize compress (Packet_serialize compress sha1) d
      | _ \<Rightarrow> Packet_body sha1 p)"

definition unsupported_tag :: "Tag \<Rightarrow> bool" where
  "unsupported_tag tag = (case tag of Tag.SED \<Rightarrow> True | Tag.AED \<Rightarrow> True | Tag.Unknown _ \<Rightarrow> True | Tag.Private _ \<Rightarrow> True | _ \<Rightarrow> False)"

text \<open>The packets whose contents are read back as they are.\<close>

definition contents_ok :: "backend \<Rightarrow> Packet \<Rightarrow> bool" where
  "contents_ok be p =
     (case p of
        Packet.Unknown u \<Rightarrow>
          Tag_canonical (unk_tag u) \<and> u8_from_Tag (unk_tag u) < 64 \<and> unsupported_tag (unk_tag u) \<and> unk_error u = Err (UnsupportedPacketType (unk_tag u))
          \<and> (case unk_container u of Unprocessed _ \<Rightarrow> True | _ \<Rightarrow> False)
      | Packet.Signature s \<Rightarrow> SignaturePacket_ok (digest_sizes be) s
      | Packet.OnePassSig s \<Rightarrow> OnePassSig_ok s
      | Packet.PublicKey k \<Rightarrow> Key_ok k \<and> Key_tag_ok Tag.PublicKey k
      | Packet.PublicSubkey k \<Rightarrow> Key_ok k \<and> Key_tag_ok Tag.PublicSubkey k
      | Packet.SecretKey k \<Rightarrow> Key_ok k \<and> Key_tag_ok Tag.SecretKey k
      | Packet.SecretSubkey k \<Rightarrow> Key_ok k \<and> Key_tag_ok Tag.SecretSubkey k
      | Packet.Literal l \<Rightarrow> Literal_ok l
      | Packet.CompressedData d \<Rightarrow>
          CompressionAlgorithm_canonical (cd_algo d)
          \<and> (if compression_supported (cd_algo d)
              then cd_container d = Structured [] \<or> (\<exists>b. cd_container d = Processed b \<and> b \<noteq> [])
              else (\<exists>b. cd_container d = Unprocessed b \<and> b \<noteq> []))
      | Packet.PKESK k \<Rightarrow> PKESK_ok k
      | Packet.SKESK k \<Rightarrow> SKESK_ok k
      | Packet.SEIP s \<Rightarrow> SEIP_ok s \<and> Packet_container p \<noteq> Some (Unprocessed [])
      | Packet.MDC m \<Rightarrow> MDC_ok m
      | _ \<Rightarrow> True)"

definition Packet_ok :: "backend \<Rightarrow> (CompressionAlgorithm \<Rightarrow> bytes \<Rightarrow> bytes) \<Rightarrow> u32 \<Rightarrow> Packet \<Rightarrow> bool" where
  "Packet_ok be compress max_size p \<longleftrightarrow>
     contents_ok be p
     \<and> (case contents compress (sha1_of be) p of
          Inr b \<Rightarrow>
            length b < 2 ^ 32
            \<and> header_error max_size (Header_new (CTB_new (Packet_tag p)) (BodyLength.Full (word_of_nat (length b)))) = Inr None
        | Inl _ \<Rightarrow> False)"

lemma Packet_tag_canonical: "contents_ok be p \<Longrightarrow> Tag_canonical (Packet_tag p) \<and> u8_from_Tag (Packet_tag p) < 64"
  by (cases p) (auto simp: contents_ok_def Tag_canonical_def)

lemma key_insignificant:
  assumes "Key_tag_ok Tag.PublicKey k \<or> Key_tag_ok Tag.PublicSubkey k"
  shows "Key_serialize sha1 False k = Key_serialize sha1 True k" "Key_net_len False k = Key_net_len True k"
  using assms
  by (auto simp: Key_tag_ok_def Key_serialize_def Key4_serialize_def Key6_serialize_def Key_net_len_def Key4_net_len_def Key6_net_len_def
      split: Key.splits option.splits)

lemma contents_net_len:
  assumes "contents_ok be p" "Packet_body (sha1_of be) p = Inr b" "length b < 2 ^ 32"
  shows "Packet_net_len p = Inr (length b)"
proof (cases p)
  case (Unknown u)
  then show ?thesis using assms by (simp add: Packet_body_def)
next
  case (Literal l)
  then show ?thesis using assms Literal_parse_written [of l b] by (auto simp: contents_ok_def Packet_body_def)
next
  case (SEIP s)
  then show ?thesis using assms SEIP_parse_written [of s b] by (auto simp: contents_ok_def Packet_body_def)
qed (use assms sig_body.body_len ops.body_len pkesk.body_len skesk.body_len in
    \<open>auto simp: contents_ok_def Packet_body_def key_insignificant Key_net_len_ok MDC_ok_def\<close>)

lemma Packet_serialize_framed:
  assumes "contents_ok be p" "contents compress (sha1_of be) p = Inr b" "length b < 2 ^ 32"
  shows "Packet_serialize compress (sha1_of be) p = framed (Packet_tag p) (length b) (Inr b)"
proof (cases "\<exists>d. p = Packet.CompressedData d")
  case True
  then show ?thesis using assms(2) by (subst Packet_serialize.simps) (auto simp: contents_def)
next
  case False
  then have "Packet_body (sha1_of be) p = Inr b" using assms(2) by (cases p) (auto simp: contents_def)
  moreover from this have "Packet_net_len p = Inr (length b)" using contents_net_len assms(1,3) by blast
  ultimately show ?thesis using False by (subst Packet_serialize.simps) (cases p; auto)
qed

lemma CTB_new_wf: "Tag_canonical tag \<and> u8_from_Tag tag < 64 \<Longrightarrow> CTB_wf (CTB_new tag)"
  by (auto simp: CTB_wf_def CTB_new_def CTBNew_new_def)

lemma framed_header:
  assumes "framed tag n (Inr b) = Inr c" "Tag_canonical tag \<and> u8_from_Tag tag < 64" "n < 2 ^ 32"
  shows "Header_parse (c @ rest) = Inr (Header_new (CTB_new tag) (BodyLength.Full (word_of_nat n)), b @ rest)" "c \<noteq> []"
proof -
  let ?h = "Header_new (CTB_new tag) (BodyLength.Full (word_of_nat n))"
  obtain len where len: "BodyLength_serialize (BodyLength.Full (word_of_nat n)) = Inr len" "c = CTB_serialize (CTB_new tag) @ len @ b"
    using assms(1) by (auto simp: framed_def result_simps)
  have "Header_serialize ?h = Inr (CTB_serialize (CTB_new tag) @ len)"
    by (simp add: Header_serialize_def Header_new_def CTB_new_def len(1))
  moreover have "Header_wf ?h" using CTB_new_wf [OF assms(2)] by (simp add: Header_wf_def Header_new_def CTB_new_def new_format_ok_def)
  ultimately show "Header_parse (c @ rest) = Inr (?h, b @ rest)" using header.decode_encode len(2) by fastforce
  show "c \<noteq> []" using len(2) CTB_serialize_length [of "CTB_new tag"] by auto
qed

section \<open>One packet\<close>

text \<open>What the decompressors have to undo.\<close>

definition decompresses :: "(CompressionAlgorithm \<Rightarrow> bytes \<Rightarrow> bytes) \<Rightarrow> decompressor \<Rightarrow> bool" where
  "decompresses compress decompress \<longleftrightarrow>
     (\<forall>a d rest. a \<in> {CompressionAlgorithm.Zip, CompressionAlgorithm.Zlib, CompressionAlgorithm.BZip2} \<longrightarrow>
        decompress a \<lparr>br_data = compress a d, br_end = Complete rest\<rparr> = Inr (d, \<lparr>br_data = [], br_end = Complete rest\<rparr>))"

text \<open>The parser that is started on a body in the input finishes with the packet and behind the body.\<close>

definition yields :: "decompressor \<Rightarrow> PacketParser \<Rightarrow> Packet \<Rightarrow> bytes \<Rightarrow> bool" where
  "yields decompress pp p rest \<longleftrightarrow>
     (\<exists>pp'. PacketParser_finish decompress pp = Inr pp' \<and> pp_packet pp' = p \<and> pp_state pp' = pp_state pp
        \<and> pp_reader pp' = Plain \<lparr>br_data = [], br_end = Complete rest\<rparr>)"

abbreviation buffering :: "state \<Rightarrow> bool" where
  "buffering st \<equiv> set_buffer_unread_content (st_settings st)"

lemma yields_plain:
  assumes "buffering st" "packet_reader p b = Plain b" "buffer_unread_content (br_data b) (packet_processed p) p = Inr q"
    "br_end body = Complete rest" "b = body\<lparr>br_data := d\<rparr>"
  shows "yields decompress (pp_start tag body st (Parsed p d)) q rest"
  using assms by (simp add: yields_def pp_start_def PacketParser_finish_def pp_steal_eof_def)

lemma yields_whole:
  assumes "buffering st" "\<forall>d. p \<noteq> Packet.CompressedData d" "Packet_container p = None" "br_end body = Complete rest"
  shows "yields decompress (pp_start tag body st (Parsed p [])) p rest"
  using assms
  by (intro yields_plain [where b = "body\<lparr>br_data := []\<rparr>"])
    (auto simp: packet_reader_def buffer_unread_content_def Packet_container_def split: Packet.splits SEIP.splits)

lemma whole_contents_read:
  assumes ok: "contents_ok be p" and b: "Packet_body (sha1_of be) p = Inr b" "length b < 2 ^ 32"
    and nc: "\<forall>d. p \<noteq> Packet.CompressedData d" "Packet_container p = None"
  shows "parse_packet be (Packet_tag p) b = Inr (Parsed p [])"
proof -
  have key: "php_ok (Key_parse (sha1_of be) tag b) = Inr (Parsed k [])" if "Key_ok k" "Key_tag_ok tag k" "Key_serialize (sha1_of be) True k = Inr b" for k tag
    using key_body.body_written [of "sha1_of be" tag k b] that b(2) by (simp add: Key_body_ok_def)
  show ?thesis
    using ok b(1) nc key sig_body.body_written ops.body_written pkesk.body_written skesk.body_written
      marker_body.body_written octets_body.body_written mdc_body.body_written
    by (cases p)
      (auto simp: contents_ok_def Packet_body_def Packet_container_def parse_packet_def map_parsed_def key_insignificant
        Trust_parse_def UserID_parse_def UserAttribute_parse_def Padding_parse_def split: SEIP.splits)
qed

lemma compressed_contents_read:
  assumes ok: "contents_ok be (Packet.CompressedData d)" and b: "CompressedData_serialize compress ser d = Inr b"
    and dec: "decompresses compress decompress" and st: "buffering st" and body: "body = \<lparr>br_data = b, br_end = Complete rest\<rparr>"
  shows "\<exists>x. parse_packet be Tag.CompressedData b = Inr x \<and> yields decompress (pp_start tag body st x) (Packet.CompressedData d) rest"
proof -
  obtain algo c where d: "d = CompressedData.CompressedData algo c" by (cases d)
  obtain u where u: "b = u8_from_CompressionAlgorithm algo # u"
    using b by (auto simp: d CompressedData_serialize_def Compressor_new_naked_def result_simps split: Body.splits CompressionAlgorithm.splits)
  have p: "parse_packet be Tag.CompressedData b = Inr (Parsed (Packet.CompressedData (CompressedData_new algo)) u)"
    using ok by (simp add: parse_packet_def CompressedData_parse_def parse_u8_Cons u map_parsed_def contents_ok_def d comp_algo.of_to)
  have c: "c = Structured [] \<and> compression_supported algo \<and> Compressor_new_naked compress algo [] = Inr b
      \<or> (\<exists>x. c = Processed x \<and> x \<noteq> [] \<and> compression_supported algo \<and> Compressor_new_naked compress algo x = Inr b)
      \<or> (\<exists>x. c = Unprocessed x \<and> x \<noteq> [] \<and> \<not> compression_supported algo \<and> u = x)"
    using ok b u by (auto simp: contents_ok_def d CompressedData_serialize_def result_simps split: if_splits Body.splits)
  have "yields decompress (pp_start tag body st (Parsed (Packet.CompressedData (CompressedData_new algo)) u)) (Packet.CompressedData d) rest"
    using c dec st u
    by (cases algo)
      (auto simp: d body yields_def pp_start_def packet_reader_def packet_processed_def CompressedData_new_def Container_default_def PacketParser_finish_def
        pp_steal_eof_def decompresses_def Compressor_new_naked_def compression_supported_def buffer_unread_content_def Packet_container_def
        set_or_extend_def Packet_set_container_def)
  then show ?thesis using p by blast
qed

lemma literal_contents_read:
  assumes "Literal_ok l" "Literal_serialize l = Inr b" and st: "buffering st" and body: "body = \<lparr>br_data = b, br_end = Complete rest\<rparr>"
  shows "\<exists>x. parse_packet be Tag.Literal b = Inr x \<and> yields decompress (pp_start Tag.Literal body st x) (Packet.Literal l) rest"
proof -
  obtain d where "lit_container l = Unprocessed d"
    "Literal_parse b = Inr (Literal.Literal (lit_format l) (lit_filename l) (lit_date l) (Container_default_unprocessed :: Packet Body), d)"
    using Literal_parse_written [OF assms(1,2)] by blast
  then show ?thesis
    using st body
    by (cases l) (auto simp: parse_packet_def map_parsed_def yields_def pp_start_def packet_reader_def PacketParser_finish_def pp_steal_eof_def
        buffer_unread_content_def Packet_container_def Container_default_unprocessed_def set_or_extend_def Packet_set_container_def)
qed

lemma contents_read:
  assumes ok: "contents_ok be p" and b: "contents compress (sha1_of be) p = Inr b" "length b < 2 ^ 32"
    and dec: "decompresses compress decompress" and st: "buffering st"
    and body: "body = \<lparr>br_data = b, br_end = Complete rest\<rparr>"
  shows "\<exists>x. parse_packet be (Packet_tag p) b = Inr x \<and> yields decompress (pp_start (Packet_tag p) body st x) p rest"
proof -
  consider (c) d where "p = Packet.CompressedData d" | (u) u where "p = Packet.Unknown u" | (l) l where "p = Packet.Literal l"
    | (s) s where "p = Packet.SEIP s" | (w) "\<forall>d. p \<noteq> Packet.CompressedData d" "Packet_container p = None"
    by (cases p) (auto simp: Packet_container_def)
  then show ?thesis
  proof cases
    case c
    then show ?thesis using compressed_contents_read [OF _ _ dec st body] ok b by (simp add: contents_def)
  next
    case u
    then have "unk_container u = Unprocessed b" using ok b(1)
      by (auto simp: contents_def Packet_body_def UnknownPacket_body_def unprocessed_body_def split: Body.splits)
    moreover have "parse_packet be (Packet_tag p) b = Inr (Unparsable (unk_error u))"
      using ok u by (auto simp: contents_ok_def parse_packet_def unsupported_tag_def split: Tag.splits)
    ultimately show ?thesis
      using u st body
      by (cases u) (auto simp: yields_def pp_start_def reread_def PacketParser_finish_def pp_steal_eof_def buffer_unread_content_def Packet_container_def
          UnknownPacket_new_def Container_default_unprocessed_def set_or_extend_def Packet_set_container_def)
  next
    case l
    then show ?thesis using literal_contents_read [OF _ _ st body] ok b(1) by (auto simp: contents_ok_def contents_def Packet_body_def)
  next
    case s
    obtain d where d: "SEIP_parse b = Inr (SEIP_empty s, d)" "d \<noteq> []"
      "(case s of SEIP.V1 s \<Rightarrow> seip1_container s | SEIP.V2 s \<Rightarrow> seip2_container s) = Unprocessed d"
      using SEIP_parse_written [of s b] ok b(1) s
      by (auto simp: contents_ok_def contents_def Packet_body_def Packet_container_def split: SEIP.splits)
    have "buffer_unread_content d False (Packet.SEIP (SEIP_empty s)) = Inr p"
      using d(2,3) s
      by (cases s; (rename_tac y, case_tac y)) (auto simp: SEIP_empty_def SEIP1_new_def Container_default_def buffer_unread_content_def Packet_container_def set_or_extend_def
          Packet_set_container_def)
    then show ?thesis
      using d(1) s st body
      by (auto intro!: yields_plain [where b = "body\<lparr>br_data := d\<rparr>"] simp: parse_packet_def map_parsed_def packet_reader_def packet_processed_def)
  next
    case w
    then have "Packet_body (sha1_of be) p = Inr b" using b(1) by (cases p) (auto simp: contents_def)
    from whole_contents_read [OF ok this b(2) w] show ?thesis using yields_whole [OF st w] body by simp
  qed
qed

lemma packet_parsed:
  assumes "Packet_ok be compress (max_packet_size (st_settings st)) p" "Packet_serialize compress (sha1_of be) p = Inr c"
    and "decompresses compress decompress" "buffering st" "pending_error st = None"
  shows "\<exists>pp. PacketParser_parse be st (c @ rest) = Inr (Success pp) \<and> yields decompress pp p rest
    \<and> pp_state pp = st\<lparr>first_packet := False, pending_error := None\<rparr>"
proof -
  obtain b where b: "contents compress (sha1_of be) p = Inr b" "length b < 2 ^ 32" "contents_ok be p"
    "header_error (max_packet_size (st_settings st)) (Header_new (CTB_new (Packet_tag p)) (BodyLength.Full (word_of_nat (length b)))) = Inr None"
    using assms(1) by (auto simp: Packet_ok_def split: sum.splits)
  let ?h = "Header_new (CTB_new (Packet_tag p)) (BodyLength.Full (word_of_nat (length b)))"
  have f: "framed (Packet_tag p) (length b) (Inr b) = Inr c" using Packet_serialize_framed [OF b(3,1,2)] assms(2) by simp
  note h = framed_header [OF f Packet_tag_canonical [OF b(3)] b(2)]
  have fh: "find_header fp (c @ rest) 0 None = Inr (0, ?h, b @ rest, None)" for fp
    by (subst find_header.simps) (simp add: h(1))
  have u: "unat (word_of_nat (length b) :: u32) = length b" using b(2) by (simp add: unat_word_of_nat_less)
  have body: "body_of (body_length ?h) (b @ rest) = \<lparr>br_data = b, br_end = Complete rest\<rparr>"
    by (simp add: body_of_def Header_new_def limited_def u)
  have tag: "CTB_tag (ctb ?h) = Packet_tag p" by (simp add: Header_new_def CTB_tag_def CTB_new_def CTBNew_new_def)
  let ?st = "st\<lparr>first_packet := False, pending_error := None\<rparr>"
  obtain x where x: "parse_packet be (Packet_tag p) b = Inr x"
    "yields decompress (pp_start (Packet_tag p) \<lparr>br_data = b, br_end = Complete rest\<rparr> ?st x) p rest"
    using contents_read [OF b(3,1,2) assms(3), of ?st] assms(4) by auto
  have "PacketParser_parse be st (c @ rest) = Inr (Success (pp_start (Packet_tag p) \<lparr>br_data = b, br_end = Complete rest\<rparr> ?st x))"
    using assms(5) h(2) by (simp add: PacketParser_parse_def fh b(4) x(1) body tag Let_def)
  moreover have "pp_state (pp_start tag body st' x) = st'" for tag body st' by (cases x) (simp_all add: pp_start_def)
  ultimately show ?thesis using x(2) by auto
qed

section \<open>Sequences of packets\<close>

lemma packets_written_read:
  assumes "list_all (Packet_ok be compress (max_packet_size (st_settings st))) ps" "serialize_all (Packet_serialize compress (sha1_of be)) ps = Inr bs"
    and "decompresses compress decompress" "buffering st" "pending_error st = None"
  shows "\<exists>ppr. PacketParser_parse be st bs = Inr ppr \<and> packets_loop be decompress ppr = Some (Inr ps)"
  using assms(1,2,4,5)
proof (induction ps arbitrary: bs st)
  case Nil
  then show ?case by (auto simp: PacketParser_parse_def packets_loop.simps)
next
  case (Cons p ps)
  obtain c cs where c: "Packet_serialize compress (sha1_of be) p = Inr c" "serialize_all (Packet_serialize compress (sha1_of be)) ps = Inr cs" "bs = c @ cs"
    using Cons.prems(2) by (auto simp: result_simps)
  obtain pp where pp: "PacketParser_parse be st bs = Inr (Success pp)" "yields decompress pp p cs"
    "pp_state pp = st\<lparr>first_packet := False, pending_error := None\<rparr>"
    using packet_parsed [OF _ c(1) assms(3), of st cs] Cons.prems c(3) by auto
  obtain ppr where ppr: "PacketParser_parse be (pp_state pp) cs = Inr ppr" "packets_loop be decompress ppr = Some (Inr ps)"
    using Cons.IH [OF _ c(2), of "pp_state pp"] Cons.prems pp(3) by auto
  have "PacketParser_next be decompress pp = Inr (p, ppr)"
    using pp(2) ppr(1) by (auto simp: yields_def PacketParser_next_def buffered_reader_stack_pop_def)
  then show ?case using pp(1) ppr(2) by (subst packets_loop.simps) simp
qed

text \<open>
  C1. Writing a sequence of well-formed packets and reading the octets with the packet parser gives the packets back, in
  order: signatures, one-pass signatures, keys, user ids, encrypted session keys, literal, compressed and encrypted data,
  and packets of unsupported types. The decompressors are only assumed to undo the compressors.
\<close>

theorem packet_stream_roundtrip:
  assumes "list_all (Packet_ok be compress (max_packet_size settings)) ps" "set_buffer_unread_content settings"
    and "serialize_all (Packet_serialize compress (sha1_of be)) ps = Inr bs" "decompresses compress decompress"
  shows "packets_from_bytes be decompress settings bs = Some (Inr ps)"
  using packets_written_read [of be compress "state_new settings" ps bs decompress] assms
  by (auto simp: packets_from_bytes_def state_new_def)

definition demo_backend :: backend where
  "demo_backend = \<lparr>digest_sizes = (\<lambda>_. None), sha1_of = (\<lambda>_. [])\<rparr>"

definition demo_decompress :: decompressor where
  "demo_decompress a b = Inr (br_data b, b\<lparr>br_data := []\<rparr>)"

definition demo_settings :: settings where
  "demo_settings = settings_default\<lparr>set_buffer_unread_content := True\<rparr>"

definition demo_packets :: "Packet list" where
  "demo_packets =
     [Packet.Marker, Packet.UserID [0x41],
      Packet.CompressedData (CompressedData.CompressedData CompressionAlgorithm.Zip (Processed [7])),
      Packet.Literal (Literal.Literal DataFormat.Binary (Some [0x61]) None (Unprocessed [1, 2]))]"

definition demo_stream :: bytes where
  "demo_stream =
     [0xCA, 3, 0x50, 0x47, 0x50, 0xCD, 1, 0x41, 0xC8, 2, 1, 7, 0xCB, 9, 0x62, 1, 0x61, 0, 0, 0, 0, 1, 2]"

lemma demo_decompresses: "decompresses (\<lambda>_ d. d) demo_decompress"
  by (simp add: decompresses_def demo_decompress_def)

lemmas frame_simps = framed_def CTB_new_def CTBNew_new_def CTB_serialize_def CTBNew_serialize_def BodyLength_serialize_def Packet_serialize.simps

lemma no_date: "to_be_u32 0 = [0, 0, 0, 0]"
  by code_simp

lemma demo_written: "serialize_all (Packet_serialize (\<lambda>_ d. d) (sha1_of demo_backend)) demo_packets = Inr demo_stream"
  by (simp add: demo_packets_def demo_stream_def frame_simps Packet_body_def Marker_BODY_def CompressedData_serialize_def Compressor_new_naked_def
      Literal_serialize_def Literal_serialize_headers_def Literal_body_def unprocessed_body_def Literal_net_len_def no_date)

lemma demo_ok: "list_all (Packet_ok demo_backend (\<lambda>_ d. d) (max_packet_size demo_settings)) demo_packets"
  by (simp add: demo_packets_def demo_settings_def settings_default_def DEFAULT_MAX_PACKET_SIZE_def Packet_ok_def contents_ok_def contents_def
      Packet_body_def Marker_BODY_def CompressedData_serialize_def Compressor_new_naked_def compression_supported_def CompressionAlgorithm_canonical_def
      Literal_ok_def DataFormat_canonical_def
      Literal_serialize_def Literal_serialize_headers_def Literal_body_def unprocessed_body_def header_error_def Header_new_def CTB_new_def CTB_tag_def
      CTBNew_new_def Header_valid_def Header_valid_length_def is_data_packet_def tag_eq_def valid_full_size_def)

theorem packet_stream_roundtrip_witness:
  "packets_from_bytes demo_backend demo_decompress demo_settings demo_stream = Some (Inr demo_packets)"
  by (rule packet_stream_roundtrip [OF demo_ok _ demo_written demo_decompresses]) (simp add: demo_settings_def)

end
