(* ===== verification/PacketSafety.thy ===== *)
theory PacketSafety
  imports PacketStream
begin

text \<open>
  What the packet parser does on arbitrary input: it does not panic and comes to an end, it reports packets that are cut
  off, and it keeps what it cannot parse to the packet concerned.
\<close>

section \<open>No panics\<close>

lemma read_no_panic [simp]: "\<not> panics (read_be_u32 bs)" "\<not> panics (read_be_u16 bs)" "\<not> panics (parse_bytes_eof bs)"
  by (simp_all add: parse_bytes_eof_def)

lemma material_field_no_panic [simp]:
  "\<not> panics (parse_bytes_u8_len bs)" "\<not> panics (parse_bytes_into n bs)" "\<not> panics (ProtectedMPI_parse bs)"
  by (auto simp: parse_bytes_u8_len_def parse_bytes_into_def ProtectedMPI_parse_def MPI_parse_common_def uniform_error_for_secrets_def Let_def split: prod.splits)

lemma PublicKey_parse_no_panic [simp]: "\<not> panics (PublicKey_parse a bs)"
  by (cases a) (auto simp: public_key_defs split: prod.splits)

lemma Ciphertext_parse_no_panic [simp]: "\<not> panics (Ciphertext_parse a bs)"
  by (cases a) (auto simp: ciphertext_defs split: prod.splits)

lemma SecretKeyMaterial_parse_mpis_no_panic [simp]: "\<not> panics (SecretKeyMaterial_parse_mpis a bs)"
  by (cases a) (auto simp: secret_key_defs split: prod.splits)

lemma SecretKeyMaterial_parse_no_panic [simp]: "\<not> panics (SecretKeyMaterial_parse sha1 a c bs)"
  by (auto simp: SecretKeyMaterial_parse_def Let_def split: prod.splits option.splits SecretKeyChecksum.splits)

lemma S2K_parse_no_panic [simp]: "\<not> panics (S2K_parse_common l bs)"
  by (auto simp: S2K_parse_common_def read_salt_def parse_parameters_def check_size_def split: option.splits)

lemma S2K_parse_versions_no_panic [simp]: "\<not> panics (S2K_parse_v4 bs)" "\<not> panics (S2K_parse_v6 l bs)"
  by (simp_all add: S2K_parse_v4_def S2K_parse_v6_def)

lemma field_bounds_no_panic:
  assumes "\<And>bs. pos bs < (2 ^ 32 :: nat)"
  shows "\<not> panics (variable_sized_field_start (pos bs) l)" "\<not> panics (variable_sized_field_remaining (pos bs) f)"
    "\<not> panics (variable_sized_field_end (pos bs) f)"
  using assms [of bs] by (simp_all add: field_defs Let_def)

lemma Key4_parse_no_panic: "\<not> panics (Key4_parse sha1 tag bs)"
  by (auto simp: Key4_parse_def Key4_parse_secret_def check_secret_def split: sum.splits prod.splits)

lemma Key6_parse_no_panic: "(\<And>bs. pos bs < 2 ^ 32) \<Longrightarrow> \<not> panics (Key6_parse sha1 pos tag bs)"
  by (auto simp: Key6_parse_def Key6_parse_secret_def s2k_field_v6_def check_secret_def field_bounds_no_panic split: sum.splits prod.splits)

lemma Key_parse_no_panic:
  assumes "length bs < 2 ^ 32" "tag \<in> {Tag.PublicKey, Tag.PublicSubkey, Tag.SecretKey, Tag.SecretSubkey}"
  shows "\<not> panics (Key_parse sha1 tag bs)"
proof -
  have "length bs - length xs < 2 ^ 32" for xs :: bytes using assms(1) by simp
  then show ?thesis using assms(2) by (auto simp: Key_parse_def Key4_parse_no_panic Key6_parse_no_panic split: prod.splits)
qed

text \<open>Outcomes of the parsers of bodies.\<close>

lemma panics_php_try [simp]: "panics (php_try r f) \<longleftrightarrow> panics r \<or> (\<exists>x. r = Inr x \<and> panics (f x))"
  by (auto simp: php_try_def panics_def split: sum.splits failure.splits)

lemma panics_php_ok [simp]: "panics (php_ok r) \<longleftrightarrow> panics r"
  by (auto simp: php_ok_def split: prod.splits)

lemma panics_map_parsed [simp]: "panics (map_parsed f r) \<longleftrightarrow> panics r"
  by (cases r) (auto simp: map_parsed_def panics_def split: php_outcome.split)

lemma PKESK_parse_no_panic [simp]: "\<not> panics (PKESK_parse bs)"
  by (auto simp: PKESK_parse_def PKESK3_parse_def PKESK6_parse_def pkesk6_recipient_parse_def Fingerprint_from_bytes_def Let_def
      split: prod.splits php_outcome.splits if_splits)

lemma OnePassSig_parse_no_panic [simp]: "\<not> panics (OnePassSig_parse bs)"
  by (auto simp: OnePassSig_parse_def OnePassSig3_parse_def OnePassSig6_parse_def Fingerprint_from_bytes_def Let_def split: prod.splits)

lemma SKESK_parse_no_panic [simp]: "\<not> panics (SKESK_parse bs)"
  by (auto simp: SKESK_parse_def SKESK4_parse_def SKESK6_parse_def split: prod.splits)

lemma container_parse_no_panic [simp]: "\<not> panics (SEIP_parse bs)" "\<not> panics (CompressedData_parse bs)" "\<not> panics (Literal_parse bs)"
proof -
  show "\<not> panics (SEIP_parse bs)"
    by (auto simp: SEIP_parse_def SEIP2_parse_def SEIP2_new_def check_chunk_size_def split: prod.splits)
  show "\<not> panics (CompressedData_parse bs)" by (auto simp: CompressedData_parse_def split: prod.splits)
  show "\<not> panics (Literal_parse bs)"
    by (auto simp: Literal_parse_def Literal_set_filename_def result_simps parse_bytes_eq_Inr split: prod.splits option.splits if_splits)
qed

lemma parse_packet_no_panic:
  assumes "length bs < 2 ^ 32"
  shows "\<not> panics (parse_packet be tag bs)"
proof -
  have sig: "\<not> panics (SignaturePacket_parse ds SignaturePacket_serialized_len (SignaturePacket_from_bytes ds) bs)" for ds
  proof
    assume "panics (SignaturePacket_parse ds SignaturePacket_serialized_len (SignaturePacket_from_bytes ds) bs)"
    then have "panics (SignaturePacket_from_bytes ds bs)" by (subst SignaturePacket_from_bytes.simps) (auto simp: panics_def)
    then show False using SignaturePacket_from_bytes_no_panic by blast
  qed
  show ?thesis
    by (cases tag)
      (auto simp: parse_packet_def sig Key_parse_no_panic [OF assms] Trust_parse_def UserID_parse_def UserAttribute_parse_def Padding_parse_def
        Marker_parse_def MDC_parse_def split: prod.splits)
qed

section \<open>Progress\<close>

lemma Header_parse_consumes:
  assumes "Header_parse bs = Inr (h, rest)"
  shows "length rest < length bs"
proof -
  obtain b bs' c where b: "bs = b # bs'" "CTB_try_from b = Inr c"
    using assms by (auto simp: Header_parse_def result_simps reader_inverts)
  show ?thesis
    using assms b
    by (cases c; cases "\<exists>x. c = CTB.Old x \<and> length_type x = PacketLengthType.Indeterminate")
      (auto simp: Header_parse_def parse_old_format_def result_simps reader_inverts split: PacketLengthType.splits dest!: parse_new_format_consumes)
qed

lemma find_header_result:
  assumes "find_header fp bs skip oe = Inr (k, h, input, pe)" "oe \<noteq> Some Panic"
  shows "(k = 0 \<and> skip = 0 \<and> Header_parse bs = Inr (h, input) \<or> 0 < k \<and> skip \<le> k \<and> k \<le> max skip (Suc (length bs)) \<and> h = junk_header k \<and> input = bs)
    \<and> pe \<noteq> Some Panic"
  using assms
proof (induction "Suc (length bs) - skip" arbitrary: skip oe rule: less_induct)
  case less
  have np: "Header_parse (drop skip bs) \<noteq> Inl Panic" using Header_parse_no_panic [of "drop skip bs"] by (auto simp: panics_def)
  have IH: "\<not> length bs < skip \<Longrightarrow> find_header fp bs (Suc skip) oe' = Inr (k, h, input, pe) \<Longrightarrow> oe' \<noteq> Some Panic \<Longrightarrow> ?case" for oe'
    using less.hyps [of "Suc skip" oe'] by (auto simp: Suc_diff_le)
  show ?case
    using less.prems np IH
    by (auto simp: find_header.simps [of fp bs skip oe] Let_def split: if_splits sum.splits option.splits prod.splits)
qed

lemma find_header_no_panic: "oe \<noteq> Some Panic \<Longrightarrow> 0 < skip \<or> skip \<le> length bs \<Longrightarrow> find_header fp bs skip oe \<noteq> Inl Panic"
proof (induction "Suc (length bs) - skip" arbitrary: skip oe rule: less_induct)
  case less
  have np: "Header_parse (drop skip bs) \<noteq> Inl Panic" using Header_parse_no_panic [of "drop skip bs"] by (auto simp: panics_def)
  have IH: "\<not> length bs < skip \<Longrightarrow> oe' \<noteq> Some Panic \<Longrightarrow> find_header fp bs (Suc skip) oe' \<noteq> Inl Panic" for oe'
    using less.hyps [of "Suc skip" oe'] by (auto simp: Suc_diff_le)
  show ?case
    using less.prems np IH
    by (auto simp: find_header.simps [of fp bs skip oe] Let_def split: if_splits sum.splits option.splits prod.splits)
qed

text \<open>How much input is left behind a body.\<close>

definition left :: "body_reader \<Rightarrow> nat" where
  "left b = (case br_end b of Complete r \<Rightarrow> length r | Short \<Rightarrow> 0 | BadHeader r \<Rightarrow> length r)"

lemma left_prepend [simp]: "left (prepend d b) = left b"
  by (simp add: left_def prepend_def)

lemma br_data_prepend [simp]: "br_data (prepend d b) = d @ br_data b"
  by (simp add: prepend_def)

lemma chunked_left: "left (chunked n final bs) \<le> length bs"
proof (induction n final bs rule: chunked.induct)
  case (1 n final bs)
  show ?case
    using 1 parse_new_format_consumes [of "drop n bs"]
    by (subst chunked.simps) (fastforce simp: left_def [of "_\<lparr>br_data := _\<rparr>"] left_def [of "\<lparr>br_data = _, br_end = _\<rparr>"] split: sum.splits prod.splits BodyLength.splits)
qed

lemma chunked_data: "length (br_data (chunked n final bs)) \<le> length bs"
proof (induction n final bs rule: chunked.induct)
  case (1 n final bs)
  show ?case
    using 1 parse_new_format_consumes [of "drop n bs"]
    by (subst chunked.simps) (fastforce split: sum.splits prod.splits BodyLength.splits)
qed

lemma body_of_bounds: "length (br_data (body_of len bs)) \<le> length bs \<and> left (body_of len bs) \<le> length bs"
  using chunked_left chunked_data by (cases len) (simp_all add: body_of_def limited_def left_def [of "\<lparr>br_data = _, br_end = _\<rparr>"])

lemma junk_body: "0 < k \<Longrightarrow> k < 2 ^ 32 \<Longrightarrow> bs \<noteq> [] \<Longrightarrow> left (body_of (body_length (junk_header k)) bs) < length bs"
  by (simp add: junk_header_def Header_new_def body_of_def limited_def left_def unat_word_of_nat_less)

lemma left_reread: "left (reread b e) \<le> left b"
proof (cases "br_end b")
  case (BadHeader r)
  then show ?thesis using chunked_left [of 0 False r] by (simp add: reread_def left_def [of b])
qed (simp_all add: reread_def)

definition reader_left :: "pp_reader \<Rightarrow> nat" where
  "reader_left r = (case r of Plain b \<Rightarrow> left b | Decompressor _ b \<Rightarrow> left b)"

lemma pp_start_left: "reader_left (pp_reader (pp_start tag body st x)) \<le> left body"
proof -
  have "left (body\<lparr>br_data := d\<rparr>) = left body" for d by (simp add: left_def)
  then show ?thesis
    by (cases x) (auto simp: pp_start_def reader_left_def packet_reader_def left_reread split: Packet.splits CompressionAlgorithm.splits)
qed

lemma pp_start_fields [simp]: "pp_state (pp_start tag body st x) = st" "pp_finished (pp_start tag body st x) = False"
  by (cases x; simp add: pp_start_def)+

lemma header_error_no_panic: "header_error m h \<noteq> Inl Panic"
proof (cases "Header_valid h True")
  case (Inl e)
  have "\<not> panics (Header_valid h True)" by (auto simp: Header_valid_def Header_valid_length_no_panic Let_def split: Tag.splits)
  then show ?thesis using Inl by (cases e) (auto simp: header_error_def Let_def panics_def)
next
  case (Inr x)
  then have "Header_valid_length (CTB_tag (ctb h)) True (body_length h) = Inr ()" using Header_valid_eq_Inr [of h True] by simp
  then show ?thesis using Inr by (auto simp: header_error_def Let_def Header_valid_length_def split: BodyLength.splits if_splits)
qed

lemma PacketParser_parse_progress:
  assumes "PacketParser_parse be st bs = Inr (Success pp)" "length bs + 1 < 2 ^ 32"
  shows "reader_left (pp_reader pp) < length bs \<and> pending_error (pp_state pp) \<noteq> Some Panic \<and> \<not> pp_finished pp"
proof -
  have ne: "bs \<noteq> []" using assms(1) by (auto simp: PacketParser_parse_def split: option.splits)
  obtain k h input pe x where f: "find_header (first_packet st) bs 0 None = Inr (k, h, input, pe)"
    and pp: "pp = pp_start (CTB_tag (ctb h)) (body_of (body_length h) input) (st\<lparr>first_packet := False, pending_error := pe\<rparr>) x"
    using assms(1) ne by (auto simp: PacketParser_parse_def result_simps Let_def split: option.splits if_splits)
  have "left (body_of (body_length h) input) < length bs"
    using find_header_result [OF f] Header_parse_consumes [of bs h input] body_of_bounds [of "body_length h" input] junk_body [of k bs] ne assms(2)
    by auto
  then show ?thesis using pp_start_left [of "CTB_tag (ctb h)" "body_of (body_length h) input" _ x] find_header_result [OF f] by (auto simp: pp intro: le_less_trans)
qed

lemma PacketParser_parse_no_panic:
  assumes "pending_error st \<noteq> Some Panic" "length bs < 2 ^ 32"
  shows "PacketParser_parse be st bs \<noteq> Inl Panic"
proof -
  have "parse_packet be tag (br_data (body_of len input)) \<noteq> Inl Panic" if "length input \<le> length bs" for tag len input
    using parse_packet_no_panic [of "br_data (body_of len input)" be tag] body_of_bounds [of len input] that assms(2) by (auto simp: panics_def)
  moreover have "length input \<le> length bs" if "find_header fp bs 0 None = Inr (k, h, input, pe)" for fp k h input pe
    using find_header_result [OF that] Header_parse_consumes [of bs h input] by auto
  ultimately show ?thesis
    using assms(1) find_header_no_panic [of None 0 bs] header_error_no_panic
    by (auto simp: PacketParser_parse_def result_simps Let_def split: option.splits if_splits)
qed

text \<open>What is asked of the decompressors: they do not panic and do not put anything back.\<close>

definition behaves :: "decompressor \<Rightarrow> bool" where
  "behaves decompress \<longleftrightarrow> (\<forall>a b. decompress a b \<noteq> Inl Panic \<and> (\<forall>d b'. decompress a b = Inr (d, b') \<longrightarrow> left b' \<le> left b))"

lemma finish_no_panic: "behaves decompress \<Longrightarrow> PacketParser_finish decompress pp \<noteq> Inl Panic"
  by (auto simp: behaves_def PacketParser_finish_def pp_steal_eof_def buffer_unread_content_def set_or_extend_def result_simps
      split: pp_reader.splits body_end.splits Packet.splits Body.splits if_splits)

lemma finish_left:
  assumes "behaves decompress" "PacketParser_finish decompress pp = Inr pp'" "\<not> pp_finished pp"
  shows "\<exists>b. pp_reader pp' = Plain b \<and> left b \<le> reader_left (pp_reader pp) \<and> pp_state pp' = pp_state pp"
  using assms
  by (auto simp: behaves_def PacketParser_finish_def pp_steal_eof_def result_simps reader_left_def left_def split: pp_reader.splits body_end.splits)

lemma pop_left: "buffered_reader_stack_pop b = Inr bs \<Longrightarrow> length bs \<le> left b" "buffered_reader_stack_pop b \<noteq> Inl Panic"
  by (auto simp: buffered_reader_stack_pop_def left_def split: body_end.splits if_splits)

lemma packets_loop_returns:
  assumes "behaves decompress" "\<not> pp_finished pp" "pending_error (pp_state pp) \<noteq> Some Panic" "reader_left (pp_reader pp) + 1 < 2 ^ 32"
  shows "\<exists>r. packets_loop be decompress (Success pp) = Some r \<and> r \<noteq> Inl Panic"
  using assms(2-)
proof (induction "reader_left (pp_reader pp)" arbitrary: pp rule: less_induct)
  case less
  show ?case
  proof (cases "PacketParser_next be decompress pp")
    case (Inl e)
    have "e \<noteq> Panic"
    proof
      assume "e = Panic"
      moreover have "PacketParser_parse be (pp_state pp') bs \<noteq> Inl Panic"
        if "PacketParser_finish decompress pp = Inr pp'" "pp_reader pp' = Plain b" "buffered_reader_stack_pop b = Inr bs" for pp' b bs
        using finish_left [OF assms(1) that(1) less.prems(1)] that(2) pop_left(1) [OF that(3)] less.prems(2,3) PacketParser_parse_no_panic by auto
      ultimately show False
        using Inl finish_no_panic [OF assms(1), of pp] finish_left [OF assms(1) _ less.prems(1)] pop_left(2)
        by (fastforce simp: PacketParser_next_def result_simps)
    qed
    then show ?thesis using Inl by (simp add: packets_loop.simps)
  next
    case (Inr a)
    obtain p ppr where a: "a = (p, ppr)" by (cases a)
    obtain pp' b bs where n: "PacketParser_finish decompress pp = Inr pp'" "pp_reader pp' = Plain b" "buffered_reader_stack_pop b = Inr bs"
      "PacketParser_parse be (pp_state pp') bs = Inr ppr" "left b \<le> reader_left (pp_reader pp)"
      using Inr finish_left [OF assms(1) _ less.prems(1)] by (fastforce simp: PacketParser_next_def a result_simps)
    have "\<exists>r. packets_loop be decompress ppr = Some r \<and> r \<noteq> Inl Panic"
    proof (cases ppr)
      case (EOF st)
      then show ?thesis by (simp add: packets_loop.simps)
    next
      case (Success q)
      have "reader_left (pp_reader q) < length bs \<and> pending_error (pp_state q) \<noteq> Some Panic \<and> \<not> pp_finished q"
        using PacketParser_parse_progress [of be "pp_state pp'" bs q] n Success pop_left(1) [OF n(3)] less.prems(3) by auto
      then show ?thesis using less.hyps [of q] Success n(5) pop_left(1) [OF n(3)] less.prems(3) by auto
    qed
    then obtain r where r: "packets_loop be decompress ppr = Some r" "r \<noteq> Inl Panic" by blast
    then have "and_then r (\<lambda>ps. Inr (p # ps)) \<noteq> Inl Panic" by (cases r) auto
    then show ?thesis using r Inr a by (subst packets_loop.simps) simp
  qed
qed

section \<open>Theorems\<close>

text \<open>
  C9. On any input of less than four gigabytes the packet parser comes to an end and does not panic, whatever the octets
  are, if the decompressors do not panic and do not give octets back.
\<close>

theorem packet_parser_total:
  assumes "behaves decompress" "length bs + 1 < 2 ^ 32"
  shows "\<exists>r. packets_from_bytes be decompress settings bs = Some r \<and> \<not> panics r"
proof (cases "PacketParser_parse be (state_new settings) bs")
  case (Inl e)
  then show ?thesis
    using PacketParser_parse_no_panic [of "state_new settings" bs be] assms(2) by (auto simp: packets_from_bytes_def state_new_def panics_def)
next
  case (Inr ppr)
  show ?thesis
  proof (cases ppr)
    case (EOF st)
    then show ?thesis using Inr by (simp add: packets_from_bytes_def packets_loop.simps)
  next
    case (Success pp)
    have "reader_left (pp_reader pp) < length bs \<and> pending_error (pp_state pp) \<noteq> Some Panic \<and> \<not> pp_finished pp"
      using PacketParser_parse_progress Inr Success assms(2) by blast
    then show ?thesis
      using packets_loop_returns [OF assms(1), of pp be] Inr Success assms(2) by (auto simp: packets_from_bytes_def panics_def)
  qed
qed

theorem packet_parser_total_witness:
  "\<exists>r. packets_from_bytes demo_backend demo_decompress settings_default [0xC0, 0xFF] = Some r \<and> \<not> panics r"
  by (rule packet_parser_total) (auto simp: behaves_def demo_decompress_def left_def)

lemma parse_packet_tag: "parse_packet be tag bs = Inr (Parsed p d) \<Longrightarrow> Packet_tag p = tag"
  by (cases tag) (auto simp: parse_packet_def map_parsed_eq_Parsed)

lemma find_header_first: "Header_parse bs = Inr (h, input) \<Longrightarrow> find_header fp bs 0 oe = Inr (0, h, input, None)"
  by (simp add: find_header.simps)

lemma parse_at_header:
  assumes "Header_parse bs = Inr (h, input)" "pending_error st = None"
  shows "PacketParser_parse be st bs =
    and_then (header_error (max_packet_size (st_settings st)) h) (\<lambda>err.
    and_then (case err of Some e \<Rightarrow> Inr (Unparsable e) | None \<Rightarrow> parse_packet be (CTB_tag (ctb h)) (br_data (body_of (body_length h) input)))
      (\<lambda>x. Inr (Success (pp_start (CTB_tag (ctb h)) (body_of (body_length h) input) (st\<lparr>first_packet := False, pending_error := None\<rparr>) x))))"
  using assms Header_parse_consumes [OF assms(1)] by (auto simp: PacketParser_parse_def find_header_first Let_def)

text \<open>
  The positions at which the parser looks for a packet: the start of the input, and the end of each packet that it got through.
\<close>

inductive at_packet :: "backend \<Rightarrow> decompressor \<Rightarrow> settings \<Rightarrow> bytes \<Rightarrow> state \<Rightarrow> bytes \<Rightarrow> bool" for be decompress settings bs where
  at_start: "at_packet be decompress settings bs (state_new settings) bs"
| at_next: "at_packet be decompress settings bs st rest \<Longrightarrow> PacketParser_parse be st rest = Inr (Success pp) \<Longrightarrow>
    PacketParser_finish decompress pp = Inr pp' \<Longrightarrow> pp_reader pp' = Plain b \<Longrightarrow> buffered_reader_stack_pop b = Inr rest' \<Longrightarrow>
    at_packet be decompress settings bs (pp_state pp') rest'"

definition packets_from :: "backend \<Rightarrow> decompressor \<Rightarrow> state \<Rightarrow> bytes \<Rightarrow> Packet list res option" where
  "packets_from be decompress st bs =
     (case PacketParser_parse be st bs of Inl e \<Rightarrow> Some (Inl e) | Inr ppr \<Rightarrow> packets_loop be decompress ppr)"

lemma packets_from_start: "packets_from_bytes be decompress settings bs = packets_from be decompress (state_new settings) bs"
  by (simp add: packets_from_bytes_def packets_from_def)

text \<open>An error at any such position is the result for the whole input.\<close>

lemma at_packet_fails:
  assumes "at_packet be decompress settings bs st rest" "packets_from be decompress st rest = Some (Inl e)"
  shows "packets_from_bytes be decompress settings bs = Some (Inl e)"
  using assms
proof (induction rule: at_packet.induct)
  case at_start
  then show ?case by (simp add: packets_from_start)
next
  case (at_next st rest pp pp' b rest')
  have "packets_loop be decompress (Success pp) = Some (Inl e)"
  proof (cases "PacketParser_parse be (pp_state pp') rest'")
    case (Inl e')
    then have "PacketParser_next be decompress pp = Inl e"
      using at_next.hyps at_next.prems by (simp add: PacketParser_next_def packets_from_def)
    then show ?thesis by (simp add: packets_loop.simps)
  next
    case (Inr ppr)
    then have "PacketParser_next be decompress pp = Inr (pp_packet pp', ppr)" "packets_loop be decompress ppr = Some (Inl e)"
      using at_next.hyps at_next.prems by (simp_all add: PacketParser_next_def packets_from_def)
    then show ?thesis by (subst packets_loop.simps) simp
  qed
  then show ?case using at_next.IH at_next.hyps(2) by (simp add: packets_from_def)
qed

text \<open>A body that the input cuts off: fewer octets than announced, or an unfinished chunk.\<close>

definition cut_off :: "BodyLength \<Rightarrow> bytes \<Rightarrow> bool" where
  "cut_off len bs =
     (case len of
        BodyLength.Full l \<Rightarrow> length bs < unat l
      | BodyLength.Partial l \<Rightarrow> br_end (chunked (unat l) False bs) = Short
      | BodyLength.Indeterminate \<Rightarrow> False)"

lemma cut_off_Short: "cut_off len bs \<Longrightarrow> br_end (body_of len bs) = Short"
  by (auto simp: cut_off_def body_of_def limited_def split: BodyLength.splits)

lemma short_next_fails:
  assumes "br_end body = Short" "tag \<noteq> Tag.CompressedData" "\<And>p d. x = Parsed p d \<Longrightarrow> Packet_tag p = tag"
  shows "\<exists>e. PacketParser_next be decompress (pp_start tag body st x) = Inl e"
proof -
  have plain: "packet_reader p b = Plain b" if "Packet_tag p \<noteq> Tag.CompressedData" for p b
    using that by (cases p) (auto simp: packet_reader_def)
  obtain b where r: "pp_reader (pp_start tag body st x) = Plain b" "br_end b = Short"
    using assms plain by (cases x) (auto simp: pp_start_def reread_def)
  then show ?thesis
    by (cases "PacketParser_finish decompress (pp_start tag body st x)")
      (auto simp: PacketParser_next_def PacketParser_finish_def pp_steal_eof_def r result_simps buffered_reader_stack_pop_def split: if_splits)
qed


text \<open>A marker packet, and behind it a packet with a user ID that is cut off.\<close>

lemma demo_marker_header: "Header_parse ([0xCA, 3, 0x50, 0x47, 0x50] @ rest) = Inr (Header_new (CTB_new Tag.Marker) (BodyLength.Full 3), [0x50, 0x47, 0x50] @ rest)"
proof -
  have "framed Tag.Marker 3 (Inr []) = Inr [0xCA, 3]" by (simp add: frame_simps)
  from framed_header(1) [OF this, of "[0x50, 0x47, 0x50] @ rest"] show ?thesis by (simp add: Tag_canonical_def)
qed

lemmas demo_packet_simps = demo_settings_def state_new_def settings_default_def DEFAULT_MAX_PACKET_SIZE_def header_error_def
  Header_new_def CTB_tag_def CTB_new_def CTBNew_new_def Header_valid_def Header_valid_length_def is_data_packet_def tag_eq_def valid_full_size_def
  parse_packet_def parse_bytes_whole php_ok_def php_try_def map_parsed_def body_of_def limited_def

lemma behind_demo_marker:
  "at_packet demo_backend demo_decompress demo_settings ([0xCA, 3, 0x50, 0x47, 0x50] @ rest) ((state_new demo_settings)\<lparr>first_packet := False, pending_error := None\<rparr>) rest"
proof -
  let ?st = "(state_new demo_settings)\<lparr>first_packet := False, pending_error := None\<rparr>"
  let ?pp = "pp_start Tag.Marker \<lparr>br_data = [0x50, 0x47, 0x50], br_end = Complete rest\<rparr> ?st (Parsed Packet.Marker [])"
  have parse: "PacketParser_parse demo_backend (state_new demo_settings) ([0xCA, 3, 0x50, 0x47, 0x50] @ rest) = Inr (Success ?pp)"
    by (simp only: parse_at_header [OF demo_marker_header, of "state_new demo_settings", simplified state_new_def state.simps, OF refl] state_new_def)
       (simp add: demo_packet_simps Marker_parse_def Marker_BODY_def)
  have fin: "PacketParser_finish demo_decompress ?pp = Inr (?pp\<lparr>pp_finished := True\<rparr>)"
    by (simp add: PacketParser_finish_def pp_start_def packet_reader_def pp_steal_eof_def buffer_unread_content_def state_new_def)
  show ?thesis
    using at_next [OF at_start parse fin] by (simp add: pp_start_def packet_reader_def buffered_reader_stack_pop_def)
qed


text \<open>
  What the parser reports as unparsable stays within its packet: wherever a packet starts, with a header of either format and a
  length of any form whose body is complete, if the header fails the checks or the parser of the contents reports an error of the
  packet, then the packet becomes one of unknown contents that keeps the tag, the error and all octets of the body, and the parser
  goes on right behind it. (Errors that the parsers of contents do not report in this way are not covered.)
\<close>

theorem unparsable_packet_kept:
  assumes "Header_parse bs = Inr (h, input)" "body_of (body_length h) input = \<lparr>br_data = b, br_end = Complete rest\<rparr>"
    and "set_buffer_unread_content (st_settings st)" "pending_error st = None"
    and "header_error (max_packet_size (st_settings st)) h = Inr (Some e)
      \<or> header_error (max_packet_size (st_settings st)) h = Inr None \<and> parse_packet be (CTB_tag (ctb h)) b = Inr (Unparsable e)"
  shows "\<exists>pp. PacketParser_parse be st bs = Inr (Success pp)
    \<and> PacketParser_next be decompress pp =
        and_then (PacketParser_parse be (st\<lparr>first_packet := False, pending_error := None\<rparr>) rest) (\<lambda>ppr.
          Inr (Packet.Unknown (UnknownPacket (CTB_tag (ctb h)) e (Unprocessed b)), ppr))"
proof -
  let ?st = "st\<lparr>first_packet := False, pending_error := None\<rparr>"
  let ?pp = "pp_start (CTB_tag (ctb h)) \<lparr>br_data = b, br_end = Complete rest\<rparr> ?st (Unparsable e)"
  have "PacketParser_parse be st bs = Inr (Success ?pp)"
    using assms(5) by (auto simp: parse_at_header [OF assms(1,4)] assms(2))
  moreover have "PacketParser_next be decompress ?pp
      = and_then (PacketParser_parse be ?st rest) (\<lambda>ppr. Inr (Packet.Unknown (UnknownPacket (CTB_tag (ctb h)) e (Unprocessed b)), ppr))"
    using assms(3)
    by (simp add: PacketParser_next_def PacketParser_finish_def pp_start_def reread_def pp_steal_eof_def buffer_unread_content_def Packet_container_def
        UnknownPacket_new_def Container_default_unprocessed_def set_or_extend_def Packet_set_container_def buffered_reader_stack_pop_def)
  ultimately show ?thesis by blast
qed

text \<open>A marker packet in the old format, with a length of two octets and contents that are not those of a marker.\<close>

definition demo_old_header :: Header where
  "demo_old_header = Header_new (CTB.Old \<lparr>old_tag = Tag.Marker, length_type = PacketLengthType.TwoOctets\<rparr>) (BodyLength.Full 3)"

theorem unparsable_packet_kept_witness:
  "\<exists>pp. PacketParser_parse demo_backend (state_new demo_settings) [0xA9, 0, 3, 1, 2, 3, 0xCA] = Inr (Success pp)
    \<and> PacketParser_next demo_backend demo_decompress pp =
        and_then (PacketParser_parse demo_backend ((state_new demo_settings)\<lparr>first_packet := False, pending_error := None\<rparr>) [0xCA]) (\<lambda>ppr.
          Inr (Packet.Unknown (UnknownPacket (CTB_tag (ctb demo_old_header)) (Err MalformedPacket) (Unprocessed [1, 2, 3])), ppr))"
proof (rule unparsable_packet_kept)
  show "Header_parse [0xA9, 0, 3, 1, 2, 3, 0xCA] = Inr (demo_old_header, [1, 2, 3, 0xCA])"
    by (simp add: Header_parse_def CTB_try_from_def parse_old_format_def read_be_u16_def data_consume_hard_def from_be_u16_def be_nat_def
        Tag_from_u8_def PacketLengthType_try_from_def demo_old_header_def)
qed (simp_all add: demo_old_header_def demo_packet_simps Marker_parse_def Marker_BODY_def)

section \<open>Recovery\<close>

definition implausible_at :: "bytes \<Rightarrow> nat \<Rightarrow> bool" where
  "implausible_at bs i = (case Header_parse (drop i bs) of Inr (h, rest) \<Rightarrow> \<not> is_ok (plausible_cert h rest) | Inl _ \<Rightarrow> True)"

lemma find_header_skips:
  assumes "Header_parse (drop n bs) = Inr (h, rest)" "is_ok (plausible_cert h rest)" "n \<le> length bs" "n \<le> Suc RECOVERY_THRESHOLD" "0 < n"
    and "skip \<le> n" "\<And>i. skip \<le> i \<Longrightarrow> i < n \<Longrightarrow> 0 < i \<Longrightarrow> implausible_at bs i" "skip = 0 \<Longrightarrow> \<not> is_ok (Header_parse bs)"
  shows "find_header False bs skip oe = Inr (n, junk_header n, bs, None)"
  using assms(6-)
proof (induction "n - skip" arbitrary: skip oe)
  case 0
  then have "skip = n" by simp
  then show ?case using assms(1-5) by (simp add: find_header.simps [of False bs n])
next
  case (Suc k)
  have lt: "skip < n" using Suc.hyps(2) by simp
  have IH: "find_header False bs (Suc skip) oe' = Inr (n, junk_header n, bs, None)" for oe'
    using Suc.hyps(1) [of "Suc skip" oe'] Suc.hyps(2) Suc.prems lt by auto
  show ?case
  proof (cases "Header_parse (drop skip bs)")
    case (Inl e)
    then show ?thesis using IH lt assms(3,4) by (auto simp: find_header.simps [of False bs skip] Let_def)
  next
    case (Inr a)
    have s0: "0 < skip" using Suc.prems(3) Inr by (cases skip) auto
    then have "implausible_at bs skip" using Suc.prems(2) lt by blast
    then show ?thesis using IH Inr lt s0 assms(3) by (cases a) (auto simp: find_header.simps [of False bs skip] implausible_at_def)
  qed
qed

text \<open>
  C31. Junk between packets is skipped: behind a first packet, octets that are no header, of at most 32 kilobytes and with
  no header in them that looks like that of a key, a signature or a marker, are returned as one packet of unknown contents, and the
  parser goes on with the packet behind them.
\<close>

theorem junk_recovered:
  assumes "\<not> first_packet st" "pending_error st = None" "set_buffer_unread_content (st_settings st)"
    and "junk \<noteq> []" "length junk \<le> RECOVERY_THRESHOLD" "\<not> is_ok (Header_parse (junk @ rest))"
    and "\<forall>i. 0 < i \<and> i < length junk \<longrightarrow> implausible_at (junk @ rest) i"
    and "Header_parse rest = Inr (h, input)" "is_ok (plausible_cert h input)"
  shows "\<exists>pp. PacketParser_parse be st (junk @ rest) = Inr (Success pp)
    \<and> PacketParser_next be decompress pp =
        and_then (PacketParser_parse be st rest) (\<lambda>ppr. Inr (Packet.Unknown (UnknownPacket Tag.Reserved (Err MalformedPacket) (Unprocessed junk)), ppr))"
proof -
  let ?n = "length junk"
  have f: "find_header False (junk @ rest) 0 None = Inr (?n, junk_header ?n, junk @ rest, None)"
    by (rule find_header_skips [where h = h and rest = input]) (use assms in simp_all)
  have "unat (word_of_nat ?n :: u32) = ?n" using assms(5) by (simp add: unat_word_of_nat_less RECOVERY_THRESHOLD_def)
  then have body: "body_of (body_length (junk_header ?n)) (junk @ rest) = \<lparr>br_data = junk, br_end = Complete rest\<rparr>"
    by (simp add: junk_header_def Header_new_def body_of_def limited_def)
  have tag: "CTB_tag (ctb (junk_header ?n)) = Tag.Reserved" by (simp add: junk_header_def Header_new_def CTB_tag_def CTB_new_def CTBNew_new_def)
  obtain err where err: "header_error (max_packet_size (st_settings st)) (junk_header ?n) = Inr err"
    using tag by (auto simp: header_error_def Header_valid_def Let_def)
  have st: "st\<lparr>first_packet := False, pending_error := None\<rparr> = st" using assms(1,2) by simp
  let ?pp = "pp_start Tag.Reserved \<lparr>br_data = junk, br_end = Complete rest\<rparr> st (Unparsable (Err MalformedPacket))"
  have "PacketParser_parse be st (junk @ rest) = Inr (Success ?pp)"
    using assms(1,2,4) by (simp add: PacketParser_parse_def f err body tag Let_def st)
  moreover have "PacketParser_next be decompress ?pp = and_then (PacketParser_parse be st rest) (\<lambda>ppr.
      Inr (Packet.Unknown (UnknownPacket Tag.Reserved (Err MalformedPacket) (Unprocessed junk)), ppr))"
    using assms(3,4)
    by (simp add: PacketParser_next_def PacketParser_finish_def pp_start_def reread_def pp_steal_eof_def buffer_unread_content_def Packet_container_def
        UnknownPacket_new_def Container_default_unprocessed_def set_or_extend_def Packet_set_container_def buffered_reader_stack_pop_def)
  ultimately show ?thesis by blast
qed

definition demo_key_octets :: bytes where
  "demo_key_octets = [0xC6, 6, 4, 0, 0, 0, 0, 1]"

lemma demo_key_header: "Header_parse demo_key_octets = Inr (Header_new (CTB_new Tag.PublicKey) (BodyLength.Full 6), [4, 0, 0, 0, 0, 1])"
proof -
  have "framed Tag.PublicKey 6 (Inr []) = Inr [0xC6, 6]" by (simp add: frame_simps)
  from framed_header(1) [OF this, of "[4, 0, 0, 0, 0, 1]"] show ?thesis by (simp add: Tag_canonical_def demo_key_octets_def)
qed

theorem junk_recovered_witness:
  "\<exists>pp. PacketParser_parse demo_backend ((state_new demo_settings)\<lparr>first_packet := False\<rparr>) ([0] @ demo_key_octets) = Inr (Success pp)
    \<and> PacketParser_next demo_backend demo_decompress pp =
        and_then (PacketParser_parse demo_backend ((state_new demo_settings)\<lparr>first_packet := False\<rparr>) demo_key_octets) (\<lambda>ppr.
          Inr (Packet.Unknown (UnknownPacket Tag.Reserved (Err MalformedPacket) (Unprocessed [0])), ppr))"
  by (rule junk_recovered [OF _ _ _ _ _ _ _ demo_key_header])
    (simp_all add: state_new_def demo_settings_def RECOVERY_THRESHOLD_def Header_parse_def CTB_try_from_def plausible_cert_def Header_new_def CTB_new_def
      CTB_tag_def CTBNew_new_def Key_plausible_def Key4_plausible_def pk_algo_known_def PublicKeyAlgorithm_from_u8_def)

section \<open>Conversions and encrypted session keys\<close>

text \<open>
  Converting a packet to a packet of unknown contents keeps what is written: but for literal data packets, of which the
  conversion drops the format, the file name and the date, the octets are the same.
\<close>

theorem unknown_conversion_written:
  assumes "contents_ok be p" "Unknown_try_from (sha1_of be) p = Inr u" "contents compress (sha1_of be) p = Inr b" "length b < 2 ^ 32"
  shows "if \<exists>l. p = Packet.Literal l
    then \<exists>d. unk_container u = Unprocessed d \<and> length d + 6 \<le> length b
    else Packet_serialize compress (sha1_of be) (Packet.Unknown u) = Packet_serialize compress (sha1_of be) p"
proof (cases "\<exists>l. p = Packet.Literal l")
  case True
  then show ?thesis
    using assms(2,3)
    by (auto simp: Unknown_try_from_def result_simps contents_def Packet_body_def Literal_serialize_def Literal_serialize_headers_def Let_def)
next
  case False
  have "unk_tag u = Packet_tag p \<and> unk_container u = Unprocessed b"
    using assms(1-3) False
    by (cases p) (auto simp: Unknown_try_from_def Unknown_convert_def contents_def Packet_body_def UnknownPacket_body_def unprocessed_body_def contents_ok_def
        split: sum.splits Body.splits)
  then have "Packet_serialize compress (sha1_of be) (Packet.Unknown u) = framed (Packet_tag p) (length b) (Inr b)"
    by (subst Packet_serialize.simps) (simp add: UnknownPacket_body_def unprocessed_body_def Packet_body_def)
  then show ?thesis using False Packet_serialize_framed [OF assms(1,3,4)] by simp
qed

theorem unknown_conversion_written_witness:
  "if \<exists>l. Packet.UserID [7] = Packet.Literal l
    then \<exists>d. unk_container (UnknownPacket Tag.UserID (Err MalformedPacket) (Unprocessed [7])) = (Unprocessed d :: Packet Body) \<and> length d + 6 \<le> length [7 :: u8]
    else Packet_serialize (\<lambda>_ d. d) (sha1_of demo_backend) (Packet.Unknown (UnknownPacket Tag.UserID (Err MalformedPacket) (Unprocessed [7])))
      = Packet_serialize (\<lambda>_ d. d) (sha1_of demo_backend) (Packet.UserID [7])"
  by (rule unknown_conversion_written [where be = demo_backend])
    (simp_all add: contents_ok_def Unknown_try_from_def Unknown_convert_def contents_def Packet_body_def)

text \<open>The octets of an encrypted session key before the ciphertext, in the two versions.\<close>

definition pkesk_prefix :: "bytes \<Rightarrow> PublicKeyAlgorithm \<Rightarrow> bool" where
  "pkesk_prefix pre algo \<longleftrightarrow> (\<exists>a. algo = PublicKeyAlgorithm_from_u8 a
     \<and> ((\<exists>keyid. length keyid = 8 \<and> pre = [3] @ keyid @ [a])
        \<or> (\<exists>r. (\<forall>x. \<exists>fp. pkesk6_recipient_parse (r @ x) = Inr (Parsed fp x)) \<and> pre = [6] @ r @ [a])))"

lemma malformed_ciphertext_fails:
  assumes "pkesk_prefix pre algo" "for_encryption algo" "Ciphertext_parse algo esk = Inl e"
  shows "parse_packet be Tag.PKESK (pre @ esk) = Inl e"
proof -
  obtain a where a: "algo = PublicKeyAlgorithm_from_u8 a"
    and pre: "(\<exists>keyid. length keyid = 8 \<and> pre = [3] @ keyid @ [a])
      \<or> (\<exists>r. (\<forall>x. \<exists>fp. pkesk6_recipient_parse (r @ x) = Inr (Parsed fp x)) \<and> pre = [6] @ r @ [a])"
    using assms(1) by (auto simp: pkesk_prefix_def)
  from pre show ?thesis
  proof (elim disjE exE conjE)
    fix keyid assume "length keyid = 8" "pre = [3] @ keyid @ [a]"
    then show ?thesis using assms(2,3) a
      by (simp add: parse_packet_def PKESK_parse_def parse_u8_Cons PKESK3_parse_def parse_bytes_append Let_def map_parsed_def)
  next
    fix r assume r: "\<forall>x. \<exists>fp. pkesk6_recipient_parse (r @ x) = Inr (Parsed fp x)" "pre = [6] @ r @ [a]"
    obtain fp where "pkesk6_recipient_parse (r @ a # esk) = Inr (Parsed fp (a # esk))" using r(1) by blast
    then show ?thesis using assms(2,3) a r(2)
      by (simp add: parse_packet_def PKESK_parse_def parse_u8_Cons PKESK6_parse_def Let_def map_parsed_def)
  qed
qed

text \<open>
  An encrypted session key, of version 3 or 6, whose ciphertext does not parse is not kept as a packet of unknown contents, as
  other packets are: wherever in the input it is, the error of the ciphertext is the result for the whole input, and neither the
  packets before nor those behind it are returned.
\<close>

theorem malformed_pkesk_aborts:
  assumes "at_packet be decompress settings bs st rest" "pending_error st = None" "Header_parse rest = Inr (h, input)"
    and "CTB_tag (ctb h) = Tag.PKESK" "header_error (max_packet_size (st_settings st)) h = Inr None"
    and "br_data (body_of (body_length h) input) = pre @ esk" "pkesk_prefix pre algo" "for_encryption algo" "Ciphertext_parse algo esk = Inl e"
  shows "packets_from_bytes be decompress settings bs = Some (Inl e)"
proof (rule at_packet_fails [OF assms(1)])
  have "PacketParser_parse be st rest = Inl e"
    using assms(4-6) malformed_ciphertext_fails [OF assms(7-9)] by (simp add: parse_at_header [OF assms(3,2)])
  then show "packets_from be decompress st rest = Some (Inl e)" by (simp add: packets_from_def)
qed

text \<open>Behind a marker packet, an encrypted session key of version 6 for an anonymous recipient with a ciphertext that is too short.\<close>

theorem malformed_pkesk_aborts_witness:
  "packets_from_bytes demo_backend demo_decompress demo_settings ([0xCA, 3, 0x50, 0x47, 0x50] @ [0xC1, 10, 6, 0, 1, 8, 0, 1, 2, 3, 4, 5]) = Some (Inl (IoErr UnexpectedEof))"
proof (rule malformed_pkesk_aborts [OF behind_demo_marker])
  have "framed Tag.PKESK 10 (Inr []) = Inr [0xC1, 10]" by (simp add: frame_simps)
  from framed_header(1) [OF this, of "[6, 0, 1, 8, 0, 1, 2, 3, 4, 5]"]
  show "Header_parse [0xC1, 10, 6, 0, 1, 8, 0, 1, 2, 3, 4, 5] = Inr (Header_new (CTB_new Tag.PKESK) (BodyLength.Full 10), [6, 0, 1, 8, 0, 1, 2, 3, 4, 5])" by (simp add: Tag_canonical_def)
  show "pkesk_prefix [6, 0, 1] PublicKeyAlgorithm.RSAEncryptSign"
    unfolding pkesk_prefix_def
    by (rule exI [of _ 1]) (auto simp: PublicKeyAlgorithm_from_u8_def pkesk6_recipient_parse_def parse_u8_Cons intro!: exI [of _ "[0]"])
  show "br_data (body_of (body_length (Header_new (CTB_new Tag.PKESK) (BodyLength.Full 10))) [6, 0, 1, 8, 0, 1, 2, 3, 4, 5]) = [6, 0, 1] @ [8, 0, 1, 2, 3, 4, 5]"
    by (simp add: demo_packet_simps)
qed (simp_all add: demo_packet_simps for_encryption_def Ciphertext_parse_def MPI_parse_def MPI_parse_common_def from_be_u16_def be_nat_def Let_def)

end
