(* ===== verification/LiteralWriter.thy ===== *)
theory LiteralWriter
  imports PacketStream
begin

text \<open>
  The streaming writer of literal data (\<open>LiteralWriter\<close> of \<open>serialize/stream.rs\<close>) on top of the filter that cuts the body
  into chunks, and its reading by the packet parser. The sink is the octets written so far; a signer above the writer, which
  gets a copy of the data, is left out.
\<close>

section \<open>The writer\<close>

definition PartialBodyFilter_new :: "bytes \<Rightarrow> partial_body_filter res" where
  "PartialBodyFilter_new inner =
     (case with_limits inner PARTIAL_BODY_FILTER_BUFFER_THRESHOLD PARTIAL_BODY_FILTER_MAX_CHUNK_SIZE of Inr f \<Rightarrow> Inr f | Inl _ \<Rightarrow> Inl Panic)"

text \<open>The headers are written field by field; a file name that is not there is not written.\<close>

definition literal_header_writes :: "'p Literal \<Rightarrow> pf_op list" where
  "literal_header_writes l =
     (let filename = (case lit_filename l of Some f \<Rightarrow> take (min (length f) 255) f | None \<Rightarrow> []) in
      [Write [u8_from_DataFormat (lit_format l)], Write [word_of_nat (length filename)]]
      @ (if filename = [] then [] else [Write filename])
      @ [Write (to_be_u32 (case lit_date l of Some d \<Rightarrow> d | None \<Rightarrow> 0))])"

definition LiteralWriter_build :: "bytes \<Rightarrow> 'p Literal \<Rightarrow> partial_body_filter res" where
  "LiteralWriter_build sink template =
     and_then (PartialBodyFilter_new (sink @ CTB_serialize (CTB_new Tag.Literal))) (\<lambda>inner.
       pf_run (literal_header_writes template) inner)"

definition LiteralWriter_into_inner :: "partial_body_filter \<Rightarrow> bytes res" where
  "LiteralWriter_into_inner f = and_then (pf_into_inner f) (\<lambda>inner. case inner of Some sink \<Rightarrow> Inr sink | None \<Rightarrow> Inl Panic)"

definition literal_session :: "bytes \<Rightarrow> 'p Literal \<Rightarrow> pf_op list \<Rightarrow> bytes res" where
  "literal_session sink template ops =
     and_then (LiteralWriter_build sink template) (\<lambda>w. and_then (pf_run ops w) LiteralWriter_into_inner)"

section \<open>Chunked bodies\<close>

lemma chunked_payload: "payload n final bs = Inr (d, rest) \<Longrightarrow> chunked n final bs = \<lparr>br_data = d, br_end = Complete rest\<rparr>"
proof (induction n final bs arbitrary: d rule: payload.induct)
  case (1 n final bs)
  show ?case
  proof (cases "length bs < n \<or> final")
    case True
    then show ?thesis using 1(3) by (auto simp: payload.simps [of n _ bs] chunked.simps [of n _ bs] split: if_splits)
  next
    case False
    then obtain bl bs' where p: "parse_new_format (drop n bs) = Inr (bl, bs')"
      using 1(3) by (auto simp: payload.simps [of n _ bs] result_simps)
    then show ?thesis
      using 1 False by (cases bl) (auto simp: payload.simps [of n _ bs] chunked.simps [of n _ bs] prepend_def result_simps)
  qed
qed

lemma pf_run_append: "pf_run (ops @ ops') f = and_then (pf_run ops f) (pf_run ops')"
  by (induction ops f rule: pf_run.induct) (simp_all add: and_then_assoc cong: and_then_cong)

lemma literal_header_written: "pf_written (literal_header_writes l) = Literal_serialize_headers l"
  by (auto simp: literal_header_writes_def Literal_serialize_headers_def Let_def)

lemma pf_written_append: "pf_written (ops @ ops') = pf_written ops @ pf_written ops'"
  by (induction ops rule: pf_written.induct) simp_all

lemma default_limits:
  "PartialBodyFilter_new inner = Inr \<lparr>pf_inner = Some inner, pf_buffer = [], pf_buffer_threshold = 2 ^ 22, pf_max_chunk_size = 2 ^ 30, pf_position = 0\<rparr>"
  using with_limits_2p [of 30 inner 22]
  by (simp add: PartialBodyFilter_new_def PARTIAL_BODY_FILTER_BUFFER_THRESHOLD_def PARTIAL_BODY_FILTER_MAX_CHUNK_SIZE_def)

lemma literal_session_written:
  "\<exists>bs. literal_session sink l ops = Inr (sink @ CTB_serialize (CTB_new Tag.Literal) @ bs)
     \<and> (\<forall>rest. decode_body (bs @ rest) = Inr (Literal_serialize_headers l @ pf_written ops, rest))
     \<and> (\<forall>n rest. parse_new_format bs = Inr (BodyLength.Partial n, rest) \<longrightarrow> 512 \<le> n)"
proof -
  let ?pre = "sink @ CTB_serialize (CTB_new Tag.Literal)"
  let ?f = "\<lparr>pf_inner = Some ?pre, pf_buffer = [], pf_buffer_threshold = 2 ^ 22, pf_max_chunk_size = 2 ^ 30, pf_position = 0\<rparr>"
  have "with_limits ?pre (2 ^ 22) (2 ^ 30) = Inr ?f" by (rule with_limits_2p) simp
  then have "pf_inv ?pre [] ?f" by (rule with_limits_inv)
  from pf_run_inv [OF this, of "literal_header_writes l @ ops"]
  obtain f' where f': "pf_run (literal_header_writes l @ ops) ?f = Inr f'" "pf_inv ?pre (Literal_serialize_headers l @ pf_written ops) f'"
    "pf_buffer_threshold f' = 2 ^ 22" "pf_max_chunk_size f' = 2 ^ 30"
    by (auto simp: pf_written_append literal_header_written)
  from pf_into_inner_decodes [OF f'(2)] obtain bs where bs: "pf_into_inner f' = Inr (Some (?pre @ bs))"
    "\<forall>rest. decode_body (bs @ rest) = Inr (Literal_serialize_headers l @ pf_written ops, rest)"
    "\<forall>n rest. parse_new_format bs = Inr (BodyLength.Partial n, rest) \<longrightarrow> 512 \<le> n"
    using f'(3,4) by auto
  have "literal_session sink l ops = and_then (pf_run (literal_header_writes l @ ops) ?f) LiteralWriter_into_inner"
    by (simp add: literal_session_def LiteralWriter_build_def default_limits pf_run_append and_then_assoc)
  then show ?thesis using f'(1) bs by (auto simp: LiteralWriter_into_inner_def)
qed

lemma chunked_literal_header:
  assumes "decode_body bs = Inr (d, [])" "6 \<le> length d" "\<forall>n rest. parse_new_format bs = Inr (BodyLength.Partial n, rest) \<longrightarrow> 512 \<le> n"
  shows "\<exists>h input. Header_parse (CTB_serialize (CTB_new Tag.Literal) @ bs) = Inr (h, input) \<and> CTB_tag (ctb h) = Tag.Literal
    \<and> body_of (body_length h) input = \<lparr>br_data = d, br_end = Complete []\<rparr> \<and> header_error m h = Inr None"
proof -
  obtain bl input where p: "parse_new_format bs = Inr (bl, input)"
    "(case bl of BodyLength.Full l \<Rightarrow> payload (unat l) True input | BodyLength.Partial l \<Rightarrow> payload (unat l) False input
      | BodyLength.Indeterminate \<Rightarrow> Inl Panic) = Inr (d, [])"
    using assms(1) by (auto simp: decode_body_def payload.simps [of 0 _ bs] result_simps)
  have h: "Header_parse (CTB_serialize (CTB_new Tag.Literal) @ bs) = Inr (Header_new (CTB_new Tag.Literal) bl, input)"
    using p(1) by (simp add: Header_parse_def CTB_serialize_def CTB_new_def CTBNew_new_def CTBNew_serialize_def CTB_try_from_def Tag_from_u8_def)
  have b: "body_of bl input = \<lparr>br_data = d, br_end = Complete []\<rparr>"
    using p(2) by (cases bl) (auto simp: body_of_def limited_def payload.simps [of _ True] chunked_payload split: if_splits)
  have "header_error m (Header_new (CTB_new Tag.Literal) bl) = Inr None"
  proof (cases bl)
    case (Full l)
    then have "unat l = length d" using p(2) by (auto simp: payload.simps [of _ True] split: if_splits)
    then have "\<not> l < 6" using assms(2) by (simp add: word_less_nat_alt)
    then show ?thesis using Full by (simp add: header_error_def Header_valid_def Header_valid_length_def is_data_packet_def tag_eq_def Header_new_def CTB_tag_def
        CTB_new_def CTBNew_new_def)
  next
    case (Partial l)
    then have "\<not> l < 512" using assms(3) p(1) by (auto simp: not_less)
    then show ?thesis using Partial by (simp add: header_error_def Header_valid_def Header_valid_length_def is_data_packet_def tag_eq_def Header_new_def CTB_tag_def
        CTB_new_def CTBNew_new_def)
  next
    case Indeterminate
    then show ?thesis using p(2) by simp
  qed
  then show ?thesis using h b by (intro exI [of _ "Header_new (CTB_new Tag.Literal) bl"] exI [of _ input])
      (simp add: Header_new_def CTB_tag_def CTB_new_def CTBNew_new_def)
qed

section \<open>Theorems\<close>

text \<open>
  C13. A literal data packet that is written as a stream, in any pieces and with any flushes, never fails, and is read by
  the packet parser as one literal packet with the template's format, file name and date and all of the data, whatever the
  limit on the size of packets.
\<close>

theorem literal_stream_read:
  assumes "Literal_ok l" "lit_container l = Unprocessed (pf_written ops)" "set_buffer_unread_content settings"
  shows "\<exists>out. literal_session sink l ops = Inr (sink @ out) \<and> packets_from_bytes be decompress settings out = Some (Inr [Packet.Literal l])"
proof -
  obtain bs where bs: "literal_session sink l ops = Inr (sink @ CTB_serialize (CTB_new Tag.Literal) @ bs)"
    "decode_body (bs @ []) = Inr (Literal_serialize_headers l @ pf_written ops, [])"
    "\<forall>n rest. parse_new_format bs = Inr (BodyLength.Partial n, rest) \<longrightarrow> 512 \<le> n"
    using literal_session_written [of sink l ops] by blast
  let ?d = "Literal_serialize_headers l @ pf_written ops" and ?out = "CTB_serialize (CTB_new Tag.Literal) @ bs"
  have "6 \<le> length ?d" by (simp add: Literal_serialize_headers_def Let_def)
  from chunked_literal_header [OF _ this bs(3), of "max_packet_size settings"] bs(2)
  obtain h input where h: "Header_parse ?out = Inr (h, input)" "CTB_tag (ctb h) = Tag.Literal"
    "body_of (body_length h) input = \<lparr>br_data = ?d, br_end = Complete []\<rparr>" "header_error (max_packet_size settings) h = Inr None"
    by auto
  let ?st = "(state_new settings)\<lparr>first_packet := False, pending_error := None\<rparr>"
  have "Literal_serialize l = Inr ?d" using assms(2) by (simp add: Literal_serialize_def Literal_body_def unprocessed_body_def)
  from literal_contents_read [OF assms(1) this _ h(3), of ?st be decompress] assms(3)
  obtain x where x: "parse_packet be Tag.Literal ?d = Inr x"
    "yields decompress (pp_start Tag.Literal (body_of (body_length h) input) ?st x) (Packet.Literal l) []"
    by (auto simp: state_new_def h(3))
  have ne: "?out \<noteq> []" using CTB_serialize_length [of "CTB_new Tag.Literal"] by auto
  have "PacketParser_parse be (state_new settings) ?out = Inr (Success (pp_start Tag.Literal (body_of (body_length h) input) ?st x))"
    using ne h x(1) by (simp add: PacketParser_parse_def find_header.simps [of _ ?out] state_new_def Let_def)
  moreover have "PacketParser_next be decompress (pp_start Tag.Literal (body_of (body_length h) input) ?st x)
      = and_then (PacketParser_parse be ?st []) (\<lambda>ppr. Inr (Packet.Literal l, ppr))"
    using x(2) by (cases x) (auto simp: yields_def PacketParser_next_def buffered_reader_stack_pop_def pp_start_def)
  moreover have "PacketParser_parse be ?st [] = Inr (EOF ?st)" by (simp add: PacketParser_parse_def)
  ultimately have "packets_from_bytes be decompress settings ?out = Some (Inr [Packet.Literal l])"
    by (simp add: packets_from_bytes_def packets_loop.simps [of _ _ "Success _"] packets_loop.simps [of _ _ "EOF _"])
  then show ?thesis using bs(1) by auto
qed

theorem literal_stream_read_witness:
  "\<exists>out. literal_session [9] (Literal.Literal DataFormat.Binary None (Some 5) (Unprocessed [1, 2, 3]) :: Packet Literal) [Write [1], Flush, Write [2, 3]] = Inr ([9] @ out)
    \<and> packets_from_bytes demo_backend demo_decompress demo_settings out
        = Some (Inr [Packet.Literal (Literal.Literal DataFormat.Binary None (Some 5) (Unprocessed [1, 2, 3]))])"
  by (rule literal_stream_read) (simp_all add: Literal_ok_def DataFormat_canonical_def demo_settings_def)

end
