(* ===== verification/PacketPiles.thy ===== *)
theory PacketPiles
  imports Packets "HOL-Library.Sublist"
begin

text \<open>
  Packet piles (\<open>packet_pile.rs\<close>): trees of packets, the iterators over them with and without the paths of the packets
  (\<open>packet/mod.rs\<close>), access and replacement by path, and the two builders that put the packets a parser returns into
  the containers they belong to (\<open>packet_pile.rs\<close>, \<open>parse/packet_pile_parser.rs\<close>).

  A reference that can be written through is the value it refers to with the function that puts a new one in its place.
\<close>

section \<open>Versions and children\<close>

definition Packet_kind :: "Packet \<Rightarrow> Tag option" where
  "Packet_kind p = (case p of Packet.Unknown _ \<Rightarrow> None | _ \<Rightarrow> Some (Packet_tag p))"

definition Packet_is_critical :: "Packet \<Rightarrow> bool" where
  "Packet_is_critical p = is_critical (Packet_tag p)"

definition SignaturePacket_version :: "SignaturePacket \<Rightarrow> u8" where
  "SignaturePacket_version s = (case s of SignaturePacket.V3 _ \<Rightarrow> 3 | SignaturePacket.V4 _ \<Rightarrow> 4 | SignaturePacket.V6 _ \<Rightarrow> 6)"

definition OnePassSig_version :: "OnePassSig \<Rightarrow> u8" where
  "OnePassSig_version s = (case s of OnePassSig.V3 _ \<Rightarrow> 3 | OnePassSig.V6 _ \<Rightarrow> 6)"

definition Key_version :: "Key \<Rightarrow> u8" where
  "Key_version k = (case k of Key.V4 _ \<Rightarrow> 4 | Key.V6 _ \<Rightarrow> 6)"

definition PKESK_version :: "PKESK \<Rightarrow> u8" where
  "PKESK_version s = (case s of PKESK.V3 _ \<Rightarrow> 3 | PKESK.V6 _ \<Rightarrow> 6)"

definition SKESK_version :: "SKESK \<Rightarrow> u8" where
  "SKESK_version s = (case s of SKESK.V4 _ \<Rightarrow> 4 | SKESK.V6 _ \<Rightarrow> 6)"

definition SEIP_version :: "'p SEIP \<Rightarrow> u8" where
  "SEIP_version s = (case s of SEIP.V1 _ \<Rightarrow> 1 | SEIP.V2 _ \<Rightarrow> 2)"

definition Packet_version :: "Packet \<Rightarrow> u8 option" where
  "Packet_version p =
     (case p of
        Packet.Signature p \<Rightarrow> Some (SignaturePacket_version p)
      | Packet.OnePassSig p \<Rightarrow> Some (OnePassSig_version p)
      | Packet.PublicKey p \<Rightarrow> Some (Key_version p)
      | Packet.PublicSubkey p \<Rightarrow> Some (Key_version p)
      | Packet.SecretKey p \<Rightarrow> Some (Key_version p)
      | Packet.SecretSubkey p \<Rightarrow> Some (Key_version p)
      | Packet.PKESK p \<Rightarrow> Some (PKESK_version p)
      | Packet.SKESK p \<Rightarrow> Some (SKESK_version p)
      | Packet.SEIP p \<Rightarrow> Some (SEIP_version p)
      | _ \<Rightarrow> None)"

definition Packet_children :: "Packet \<Rightarrow> Packet list option" where
  "Packet_children p = (case Packet_container p of Some c \<Rightarrow> Container_children c | None \<Rightarrow> None)"

lemma container_smaller:
  "unk_container u = Structured ps \<Longrightarrow> size_list size ps \<le> size_UnknownPacket size u"
  "lit_container l = Structured ps \<Longrightarrow> size_list size ps \<le> size_Literal size l"
  "cd_container d = Structured ps \<Longrightarrow> size_list size ps \<le> size_CompressedData size d"
  "seip1_container s1 = Structured ps \<Longrightarrow> size_list size ps \<le> size_SEIP1 size s1"
  "seip2_container s2 = Structured ps \<Longrightarrow> size_list size ps \<le> size_SEIP2 size s2"
  by (cases u; cases l; cases d; cases s1; cases s2; simp)+

lemma Packet_children_smaller: "Packet_children p = Some ps \<Longrightarrow> size_list size ps < size p"
  by (cases p)
    (auto simp: Packet_children_def Packet_container_def Container_children_def less_Suc_eq_le
      dest: container_smaller split: Body.splits SEIP.splits intro: le_SucI)

section \<open>Iterators\<close>

datatype Iter =
  Iter (it_children: "Packet list") (it_child: "Packet option") (it_grandchildren: "Iter option") (it_depth: nat)

definition Iter_default :: Iter where
  "Iter_default = Iter [] None None 0"

definition Container_descendants :: "Packet Body \<Rightarrow> Iter option" where
  "Container_descendants c = (case Container_children c of Some ps \<Rightarrow> Some (Iter ps None None 0) | None \<Rightarrow> None)"

definition Packet_descendants :: "Packet \<Rightarrow> Iter option" where
  "Packet_descendants p = (case Packet_container p of Some c \<Rightarrow> Container_descendants c | None \<Rightarrow> None)"

text \<open>The next child and the iterator for its children.\<close>

definition next_child :: "Packet list \<Rightarrow> Iter option \<Rightarrow> Packet option \<times> Iter" where
  "next_child children grandchildren =
     (case children of
        [] \<Rightarrow> (None, Iter [] None grandchildren 0)
      | child # children \<Rightarrow> (Some child, Iter children (Some child) (Packet_descendants child) 0))"

fun Iter_next :: "Iter \<Rightarrow> Packet option \<times> Iter" where
  "Iter_next (Iter children child None depth) = next_child children None"
| "Iter_next (Iter children child (Some grandchildren) depth) =
     (case Iter_next grandchildren of
        (Some grandchild, grandchildren) \<Rightarrow>
          (Some grandchild, Iter children child (Some grandchildren) (it_depth grandchildren + 1))
      | (None, grandchildren) \<Rightarrow> next_child children (Some grandchildren))"

text \<open>Iterating to the end. What is left to visit decreases.\<close>

fun remaining :: "Iter \<Rightarrow> nat" where
  "remaining (Iter children child None depth) = size_list size children"
| "remaining (Iter children child (Some grandchildren) depth) = size_list size children + remaining grandchildren"

lemma Packet_descendants_eq:
  "Packet_descendants p = map_option (\<lambda>ps. Iter ps None None 0) (Packet_children p)"
  by (auto simp: Packet_descendants_def Container_descendants_def Packet_children_def split: option.splits)

lemma remaining_next_child: "next_child cs g = (Some p, it) \<Longrightarrow> remaining it < size_list size cs"
  by (cases cs; cases "Packet_children p") (auto simp: next_child_def Packet_descendants_eq dest: Packet_children_smaller)

lemma remaining_Iter_next: "Iter_next it = (Some p, it') \<Longrightarrow> remaining it' < remaining it"
  by (induction it arbitrary: p it' rule: Iter_next.induct)
    (auto split: prod.splits option.splits dest: remaining_next_child)

function Iter_collect :: "Iter \<Rightarrow> Packet list" where
  "Iter_collect it = (case Iter_next it of (None, _) \<Rightarrow> [] | (Some p, it) \<Rightarrow> p # Iter_collect it)"
  by pat_completeness auto
termination
  by (relation "measure remaining") (auto dest: remaining_Iter_next [OF sym])

record PacketPathIter =
  pi_iter :: Iter
  pi_path :: "nat list option"

definition Iter_paths :: "Iter \<Rightarrow> PacketPathIter" where
  "Iter_paths it = \<lparr>pi_iter = it, pi_path = None\<rparr>"

definition step_path :: "nat list \<Rightarrow> nat \<Rightarrow> nat list" where
  "step_path path depth =
     (let old_depth = length path - 1 in
      if old_depth > depth then (let path = take (depth + 1) path in path[depth := path ! depth + 1])
      else if old_depth = depth then path[old_depth := path ! old_depth + 1]
      else if old_depth + 1 = depth then path @ [0]
      else path)"

definition PacketPathIter_next :: "PacketPathIter \<Rightarrow> (nat list \<times> Packet) option \<times> PacketPathIter" where
  "PacketPathIter_next s =
     (case Iter_next (pi_iter s) of
        (Some packet, it) \<Rightarrow>
          (let path = (case pi_path s of None \<Rightarrow> [0] | Some path \<Rightarrow> step_path path (it_depth it)) in
           (Some (path, packet), \<lparr>pi_iter = it, pi_path = Some path\<rparr>))
      | (None, it) \<Rightarrow> (None, s\<lparr>pi_iter := it\<rparr>))"

function PacketPathIter_collect :: "PacketPathIter \<Rightarrow> (nat list \<times> Packet) list" where
  "PacketPathIter_collect s =
     (case PacketPathIter_next s of (None, _) \<Rightarrow> [] | (Some x, s) \<Rightarrow> x # PacketPathIter_collect s)"
  by pat_completeness auto
termination
  by (relation "measure (\<lambda>s. remaining (pi_iter s))")
    (auto simp: PacketPathIter_next_def Let_def dest: remaining_Iter_next split: prod.splits option.splits)

declare Iter_collect.simps [simp del] PacketPathIter_collect.simps [simp del]

section \<open>Piles\<close>

datatype PacketPile = PacketPile (top_level: "Packet Body")

definition PacketPile_from :: "Packet list \<Rightarrow> PacketPile" where
  "PacketPile_from ps = PacketPile (Structured ps)"

definition PacketPile_descendants :: "PacketPile \<Rightarrow> Iter res" where
  "PacketPile_descendants pile = (case Container_descendants (top_level pile) of Some it \<Rightarrow> Inr it | None \<Rightarrow> Inl Panic)"

definition PacketPile_children :: "PacketPile \<Rightarrow> Packet list res" where
  "PacketPile_children pile = (case Container_children (top_level pile) of Some ps \<Rightarrow> Inr ps | None \<Rightarrow> Inl Panic)"

fun path_ref_loop :: "Packet Body option \<Rightarrow> Packet option \<Rightarrow> nat list \<Rightarrow> Packet option" where
  "path_ref_loop cont packet [] = packet"
| "path_ref_loop cont packet (i # pathspec) =
     (case cont of
        Some c \<Rightarrow>
          (case Container_children c of
             Some children \<Rightarrow>
               if i < length children then
                 let p = children ! i in path_ref_loop (Packet_container p) (Some p) pathspec
               else None
           | None \<Rightarrow> None)
      | None \<Rightarrow> None)"

definition path_ref :: "PacketPile \<Rightarrow> nat list \<Rightarrow> Packet option" where
  "path_ref pile pathspec = path_ref_loop (Some (top_level pile)) None pathspec"

text \<open>The packet at a path for writing. On the way the code unwraps the container of a packet that may have none.\<close>

fun path_ref_mut_loop :: "Packet Body \<Rightarrow> nat list \<Rightarrow> (Packet \<times> (Packet \<Rightarrow> Packet Body)) option res" where
  "path_ref_mut_loop container [] = Inr None"
| "path_ref_mut_loop container (i # pathspec) =
     (case Container_children container of
        None \<Rightarrow> Inr None
      | Some children \<Rightarrow>
          if i < length children then
            let p = children ! i in
            if pathspec = [] then Inr (Some (p, \<lambda>q. Structured (children[i := q])))
            else
              (case Packet_container p of
                 None \<Rightarrow> Inl Panic
               | Some c \<Rightarrow>
                   and_then (path_ref_mut_loop c pathspec) (\<lambda>r.
                     Inr (map_option (\<lambda>(q, put). (q, \<lambda>q. Structured (children[i := Packet_set_container (put q) p]))) r)))
          else Inr None)"

definition path_ref_mut :: "PacketPile \<Rightarrow> nat list \<Rightarrow> (Packet \<times> (Packet \<Rightarrow> PacketPile)) option res" where
  "path_ref_mut pile pathspec =
     and_then (path_ref_mut_loop (top_level pile) pathspec) (\<lambda>r.
       Inr (map_option (\<lambda>(q, put). (q, \<lambda>q. PacketPile (put q))) r))"

definition structured_container :: "Packet \<Rightarrow> bool" where
  "structured_container p = (case p of Packet.CompressedData _ \<Rightarrow> True | Packet.SEIP _ \<Rightarrow> True | _ \<Rightarrow> False)"

fun replace_loop :: "Packet Body \<Rightarrow> nat list \<Rightarrow> nat \<Rightarrow> Packet list \<Rightarrow> (Packet list \<times> Packet Body) res" where
  "replace_loop container [] amount inserted = Inl (Err IndexOutOfRange)"
| "replace_loop container (i # pathspec) amount inserted =
     (case Container_children container of
        None \<Rightarrow> Inl (Err IndexOutOfRange)
      | Some children \<Rightarrow>
          if pathspec = [] then
            if i + amount > length children then Inl (Err IndexOutOfRange)
            else
              (let old = take amount (drop i children);
                   children = take i children @ drop (i + amount) children;
                   tail = drop i children;
                   children = take i children in
               Inr (old, Structured (children @ inserted @ tail)))
          else if i \<ge> length children then Inl (Err IndexOutOfRange)
          else if \<not> structured_container (children ! i) then Inl (Err IndexOutOfRange)
          else
            (case Packet_container (children ! i) of
               None \<Rightarrow> Inl Panic
             | Some c \<Rightarrow>
                 and_then (replace_loop c pathspec amount inserted) (\<lambda>(old, c).
                   Inr (old, Structured (children[i := Packet_set_container c (children ! i)])))))"

definition PacketPile_replace :: "PacketPile \<Rightarrow> nat list \<Rightarrow> nat \<Rightarrow> Packet list \<Rightarrow> (Packet list \<times> PacketPile) res" where
  "PacketPile_replace pile pathspec amount inserted =
     and_then (replace_loop (top_level pile) pathspec amount inserted) (\<lambda>(old, c). Inr (old, PacketPile c))"


section \<open>Builders\<close>

text \<open>
  The parser returns packets with their depth; each goes into the last container at this depth.
  \<open>PacketPileParser\<close> walks down from the top for every packet.
\<close>

fun insert_loop :: "nat \<Rightarrow> Packet \<Rightarrow> Packet Body \<Rightarrow> Packet Body res" where
  "insert_loop 0 packet container =
     (case Container_children container of Some ps \<Rightarrow> Inr (Structured (ps @ [packet])) | None \<Rightarrow> Inl Panic)"
| "insert_loop (Suc n) packet container =
     (case Container_children container of
        None \<Rightarrow> Inl Panic
      | Some ps \<Rightarrow>
          if ps = [] then Inl Panic
          else
            let p = last ps in
            (case Packet_children p of
               None \<Rightarrow> Inl Panic
             | Some cs \<Rightarrow>
                 if cs = [] \<and> n \<noteq> 0 then Inl Panic
                 else
                   (case Packet_container p of
                      None \<Rightarrow> Inl Panic
                    | Some c \<Rightarrow>
                        and_then (insert_loop n packet c) (\<lambda>c. Inr (Structured (butlast ps @ [Packet_set_container c p]))))))"

definition insert_packet :: "Packet \<Rightarrow> nat \<Rightarrow> PacketPile \<Rightarrow> PacketPile res" where
  "insert_packet packet pos pile = and_then (insert_loop pos packet (top_level pile)) (\<lambda>c. Inr (PacketPile c))"

text \<open>
  \<open>PacketPile::try_from\<close> keeps a reference to the container of the last packet, which is found again from the top
  only when a container has ended. The reference is the number of steps to the last child from the top. A step fails
  on packets that are not structured; the other two arms are an index of minus one and an \<open>unwrap\<close>.
\<close>

definition last_container :: "Packet Body \<Rightarrow> (Packet list \<times> Packet \<times> Packet Body) res" where
  "last_container c =
     (case Container_children c of
        None \<Rightarrow> Inl (Err InvalidOperation)
      | Some ps \<Rightarrow>
          if ps = [] then Inl Panic
          else (case Packet_container (last ps) of None \<Rightarrow> Inl Panic | Some c \<Rightarrow> Inr (butlast ps, last ps, c)))"

fun container_at :: "nat \<Rightarrow> Packet Body \<Rightarrow> Packet Body res" where
  "container_at 0 c = Inr c"
| "container_at (Suc n) c = and_then (last_container c) (\<lambda>(_, _, c). container_at n c)"

fun push_at :: "nat \<Rightarrow> Packet \<Rightarrow> Packet Body \<Rightarrow> Packet Body res" where
  "push_at 0 packet c = (case Container_children c of Some ps \<Rightarrow> Inr (Structured (ps @ [packet])) | None \<Rightarrow> Inl Panic)"
| "push_at (Suc n) packet c =
     and_then (last_container c) (\<lambda>(ps, p, c).
     and_then (push_at n packet c) (\<lambda>c. Inr (Structured (ps @ [Packet_set_container c p]))))"

function (sequential)
    build_outer :: "Packet Body \<Rightarrow> int \<Rightarrow> (nat \<times> Packet) list \<Rightarrow> Packet Body res"
    and build_inner :: "Packet Body \<Rightarrow> nat \<Rightarrow> nat \<Rightarrow> int \<Rightarrow> Packet \<Rightarrow> (nat \<times> Packet) list \<Rightarrow> Packet Body res" where
  "build_outer toplevel last_position [] = Inr toplevel"
| "build_outer toplevel last_position ((pos, packet) # rest) =
     (let relative_position = int pos - last_position in
      if relative_position > 1 then Inl Panic
      else
        (let lvl = pos - (if relative_position > 0 then 1 else 0) in
         and_then (container_at lvl toplevel) (\<lambda>_.
           build_inner toplevel lvl pos (if relative_position < 0 then 0 else relative_position) packet rest)))"
| "build_inner toplevel lvl pos relative_position packet rest =
     (let lvl = (if relative_position = 1 then lvl + 1 else lvl) in
      and_then (push_at lvl packet toplevel) (\<lambda>toplevel.
        case rest of
          [] \<Rightarrow> Inr toplevel
        | (pos', packet') # rest' \<Rightarrow>
            if pos' < pos then build_outer toplevel (int pos) rest
            else build_inner toplevel lvl pos' (int pos' - int pos) packet' rest'))"
  by pat_completeness auto
termination
  by (relation "measure (\<lambda>x. case x of Inl (_, _, r) \<Rightarrow> 2 * length r | Inr (_, _, _, _, _, r) \<Rightarrow> 2 * length r + 1)") auto

declare build_outer.simps(2) [simp del] build_inner.simps [simp del]

definition PacketPile_try_from :: "(nat \<times> Packet) list \<Rightarrow> PacketPile res" where
  "PacketPile_try_from parser =
     (case parser of
        [] \<Rightarrow> Inr (PacketPile_from [])
      | (depth, _) # _ \<Rightarrow>
          if depth \<noteq> 0 then Inl (Err InvalidOperation)
          else and_then (build_outer Container_default 0 parser) (\<lambda>c. Inr (PacketPile c)))"

section \<open>The order of iteration\<close>

text \<open>
  The reference: packets in depth-first order with their depth, and with their paths. \<open>pre\<close> is the path of the
  container and \<open>i\<close> the index of the first packet in it.
\<close>

function preorder :: "nat \<Rightarrow> Packet list \<Rightarrow> (nat \<times> Packet) list" where
  "preorder d [] = []"
| "preorder d (p # ps) =
     (d, p) # (case Packet_children p of None \<Rightarrow> [] | Some cs \<Rightarrow> preorder (Suc d) cs) @ preorder d ps"
  by pat_completeness auto
termination
  by (relation "measure (\<lambda>(d, ps). size_list size ps)") (auto dest: Packet_children_smaller)

function walk :: "nat list \<Rightarrow> nat \<Rightarrow> Packet list \<Rightarrow> (nat list \<times> Packet) list" where
  "walk pre i [] = []"
| "walk pre i (p # ps) =
     (pre @ [i], p) # (case Packet_children p of None \<Rightarrow> [] | Some cs \<Rightarrow> walk (pre @ [i]) 0 cs) @ walk pre (Suc i) ps"
  by pat_completeness auto
termination
  by (relation "measure (\<lambda>(pre, i, ps). size_list size ps)") (auto dest: Packet_children_smaller)

fun visits :: "Iter \<Rightarrow> (nat \<times> Packet) list" where
  "visits (Iter children child None depth) = preorder 0 children"
| "visits (Iter children child (Some grandchildren) depth) =
     map (\<lambda>(d, p). (Suc d, p)) (visits grandchildren) @ preorder 0 children"

lemma preorder_Suc: "preorder (Suc d) ps = map (\<lambda>(d, p). (Suc d, p)) (preorder d ps)"
  by (induction d ps rule: preorder.induct) (auto split: option.splits)

lemma visits_next_child:
  "next_child cs g = (Some p, it) \<Longrightarrow> preorder 0 cs = (it_depth it, p) # visits it"
  "next_child cs g = (None, it) \<Longrightarrow> cs = [] \<and> it = Iter [] None g 0"
  by (auto simp: next_child_def Packet_descendants_eq preorder_Suc split: list.splits option.splits)

lemma visits_Iter_next:
  "Iter_next it = (Some p, it') \<Longrightarrow> visits it = (it_depth it', p) # visits it'"
  "Iter_next it = (None, it') \<Longrightarrow> visits it = [] \<and> visits it' = []"
  by (induction it arbitrary: p it' rule: Iter_next.induct)
    (auto split: prod.splits option.splits dest: visits_next_child)

lemma Iter_collect_visits: "Iter_collect it = map snd (visits it)"
proof (induction it rule: Iter_collect.induct)
  case (1 it)
  then show ?case
    using visits_Iter_next [of it] by (subst Iter_collect.simps) (auto split: prod.splits option.splits)
qed

text \<open>Paths from depths. The empty path stands for the start of the iteration.\<close>

definition path_step :: "nat list \<Rightarrow> nat \<Rightarrow> nat list" where
  "path_step path d = (if path = [] then [0] else step_path path d)"

fun trace :: "nat list \<Rightarrow> (nat \<times> Packet) list \<Rightarrow> (nat list \<times> Packet) list" where
  "trace path [] = []"
| "trace path ((d, p) # xs) = (path_step path d, p) # trace (path_step path d) xs"

fun trace_end :: "nat list \<Rightarrow> (nat \<times> Packet) list \<Rightarrow> nat list" where
  "trace_end path [] = path"
| "trace_end path ((d, p) # xs) = trace_end (path_step path d) xs"

lemma trace_append: "trace path (xs @ ys) = trace path xs @ trace (trace_end path xs) ys"
  by (induction path xs rule: trace.induct) simp_all

lemma trace_end_append: "trace_end path (xs @ ys) = trace_end (trace_end path xs) ys"
  by (induction path xs rule: trace.induct) simp_all

lemma path_step_first: "length pre = d \<Longrightarrow> path_step pre d = pre @ [0]"
  by (cases pre) (auto simp: path_step_def step_path_def)

lemma path_step_sibling: "length pre = d \<Longrightarrow> path_step (pre @ i # r) d = pre @ [Suc i]"
  by (auto simp: path_step_def step_path_def Let_def nth_append)

lemma trace_preorder:
  assumes "length pre = d"
  shows "trace (pre @ i # r) (preorder d ps) = walk pre (Suc i) ps \<and> (\<exists>r'. trace_end (pre @ i # r) (preorder d ps) = pre @ (i + length ps) # r')"
    and "trace pre (preorder d ps) = walk pre 0 ps \<and> (ps \<noteq> [] \<longrightarrow> (\<exists>r'. trace_end pre (preorder d ps) = pre @ (length ps - 1) # r'))"
  using assms
proof (induction d ps arbitrary: pre i r rule: preorder.induct)
  case (1 d)
  { case 1 show ?case by auto next case 2 show ?case by simp }
next
  case (2 d p ps)
  have children: "trace (pre @ [j]) (case Packet_children p of None \<Rightarrow> [] | Some cs \<Rightarrow> preorder (Suc d) cs)
      = (case Packet_children p of None \<Rightarrow> [] | Some cs \<Rightarrow> walk (pre @ [j]) 0 cs)
      \<and> (\<exists>r'. trace_end (pre @ [j]) (case Packet_children p of None \<Rightarrow> [] | Some cs \<Rightarrow> preorder (Suc d) cs) = pre @ j # r')"
    if "length pre = d" for pre j
  proof (cases "Packet_children p")
    case (Some cs)
    then show ?thesis using 2(2) [of cs "pre @ [j]"] that by (cases "cs = []") auto
  qed simp
  { case 1
    obtain r' where r': "trace_end (pre @ [Suc i]) (case Packet_children p of None \<Rightarrow> [] | Some cs \<Rightarrow> preorder (Suc d) cs) = pre @ Suc i # r'"
      using children [OF 1] by blast
    show ?case using 2(3) [OF 1, of "Suc i" r'] children [OF 1, of "Suc i"] r' 1
      by (simp add: path_step_sibling trace_append trace_end_append)
  next
    case 2
    obtain r' where r': "trace_end (pre @ [0]) (case Packet_children p of None \<Rightarrow> [] | Some cs \<Rightarrow> preorder (Suc d) cs) = pre @ 0 # r'"
      using children [OF 2] by blast
    show ?case using "2.IH"(3) [OF 2, of 0 r'] children [OF 2, of 0] r' 2
      by (simp add: path_step_first trace_append trace_end_append) }
qed

lemma PacketPathIter_collect_trace:
  "pi_path s \<noteq> Some [] \<Longrightarrow>
   PacketPathIter_collect s = trace (case pi_path s of None \<Rightarrow> [] | Some path \<Rightarrow> path) (visits (pi_iter s))"
proof (induction s rule: PacketPathIter_collect.induct)
  case (1 s)
  obtain r it where next_it: "Iter_next (pi_iter s) = (r, it)" by force
  show ?case
  proof (cases r)
    case None
    then show ?thesis
      using next_it visits_Iter_next(2) [of "pi_iter s" it] by (subst PacketPathIter_collect.simps) (simp add: PacketPathIter_next_def)
  next
    case (Some p)
    define path where "path = (case pi_path s of None \<Rightarrow> [0] | Some path \<Rightarrow> step_path path (it_depth it))"
    have "path = path_step (case pi_path s of None \<Rightarrow> [] | Some path \<Rightarrow> path) (it_depth it)"
      using 1(2) by (auto simp: path_def path_step_def split: option.splits)
    moreover have "path \<noteq> []"
      using 1(2) by (auto simp: path_def step_path_def Let_def split: option.splits)
    ultimately show ?thesis
      using next_it Some visits_Iter_next(1) [of "pi_iter s" p it] 1(1) [of "Some (path, p)"]
      by (subst PacketPathIter_collect.simps) (simp add: PacketPathIter_next_def path_def [symmetric] Let_def)
  qed
qed

lemma paths_walk: "PacketPathIter_collect (Iter_paths (Iter ps None None 0)) = walk [] 0 ps"
  using trace_preorder(2) [of "[]" 0 ps] by (simp add: PacketPathIter_collect_trace Iter_paths_def)

lemma map_snd_walk: "map snd (walk pre i ps) = map snd (preorder d ps)"
  by (induction pre i ps arbitrary: d rule: walk.induct) (auto split: option.splits)

lemma path_ref_loop_packet: "path_ref_loop c p (i # r) = path_ref_loop c None (i # r)"
  by simp

lemma path_ref_loop_Cons:
  "path_ref_loop (Some (Structured ps)) None (j # r) = Some q \<longleftrightarrow>
   j < length ps \<and> (r = [] \<and> q = ps ! j \<or> r \<noteq> [] \<and> (\<exists>cs. Packet_children (ps ! j) = Some cs \<and> path_ref_loop (Some (Structured cs)) None r = Some q))"
  by (cases r) (auto simp: Container_children_def Packet_children_def Let_def split: option.splits Body.splits)

lemma ex_nat_split: "(\<exists>j. P j) \<longleftrightarrow> P 0 \<or> (\<exists>j. P (Suc j))"
  by (metis not0_implies_Suc)

lemma walk_path_ref:
  "(q, p) \<in> set (walk pre i ps) \<longleftrightarrow> (\<exists>j r. q = pre @ (i + j) # r \<and> path_ref_loop (Some (Structured ps)) None (j # r) = Some p)"
proof (induction pre i ps arbitrary: q p rule: walk.induct)
  case (1 pre i)
  then show ?case by (simp add: Container_children_def)
next
  case (2 pre i x ps)
  have here: "(q, p) \<in> set ((pre @ [i], x) # (case Packet_children x of None \<Rightarrow> [] | Some cs \<Rightarrow> walk (pre @ [i]) 0 cs))
      \<longleftrightarrow> (\<exists>r. q = pre @ i # r \<and> path_ref_loop (Some (Structured (x # ps))) None (0 # r) = Some p)" for q
  proof (cases "Packet_children x")
    case None
    then show ?thesis by (auto simp: path_ref_loop_Cons simp del: path_ref_loop.simps)
  next
    case (Some cs)
    have "(\<exists>r. q = pre @ i # r \<and> path_ref_loop (Some (Structured (x # ps))) None (0 # r) = Some p)
        \<longleftrightarrow> q = pre @ [i] \<and> p = x \<or> (\<exists>j r. q = pre @ i # j # r \<and> path_ref_loop (Some (Structured cs)) None (j # r) = Some p)"
      using Some unfolding path_ref_loop_Cons [of "x # ps"] by (auto simp: neq_Nil_conv simp del: path_ref_loop.simps)
    then show ?thesis using 2(1) [OF Some, of q p] Some by (auto simp del: path_ref_loop.simps)
  qed
  have later: "path_ref_loop (Some (Structured (x # ps))) None (Suc j # r) = path_ref_loop (Some (Structured ps)) None (j # r)" for j r
    by (simp add: Container_children_def Let_def)
  have "(\<exists>j r. q = pre @ (i + j) # r \<and> path_ref_loop (Some (Structured (x # ps))) None (j # r) = Some p)
      \<longleftrightarrow> (\<exists>r. q = pre @ i # r \<and> path_ref_loop (Some (Structured (x # ps))) None (0 # r) = Some p)
        \<or> (\<exists>j r. q = pre @ (Suc i + j) # r \<and> path_ref_loop (Some (Structured ps)) None (j # r) = Some p)"
    unfolding later [symmetric] by (subst ex_nat_split) simp
  moreover have "(q, p) \<in> set (walk pre i (x # ps)) \<longleftrightarrow>
      (q, p) \<in> set ((pre @ [i], x) # (case Packet_children x of None \<Rightarrow> [] | Some cs \<Rightarrow> walk (pre @ [i]) 0 cs)) \<or> (q, p) \<in> set (walk pre (Suc i) ps)"
    by simp
  ultimately show ?case unfolding here 2(2) by (simp del: path_ref_loop.simps)
qed

lemma walk_sorted: "sorted_wrt (\<lambda>x y. (fst x, fst y) \<in> lexord less_than) (walk pre i ps)"
proof (induction pre i ps rule: walk.induct)
  case (1 pre i)
  then show ?case by simp
next
  case (2 pre i x ps)
  let ?inner = "case Packet_children x of None \<Rightarrow> [] | Some cs \<Rightarrow> walk (pre @ [i]) 0 cs"
  have inner: "\<exists>j r. fst y = pre @ i # j # r" if "y \<in> set ?inner" for y
    using that walk_path_ref [of "fst y" "snd y" "pre @ [i]" 0] by (auto split: option.splits)
  have outer: "\<exists>j r. fst y = pre @ (Suc i + j) # r" if "y \<in> set (walk pre (Suc i) ps)" for y
    using that walk_path_ref [of "fst y" "snd y" pre "Suc i"] by auto
  have first: "(pre @ [i], fst y) \<in> lexord less_than" if "y \<in> set ?inner \<union> set (walk pre (Suc i) ps)" for y
  proof -
    have "(\<exists>j r. fst y = pre @ i # j # r) \<or> (\<exists>j r. fst y = pre @ (Suc i + j) # r)" using that inner outer by blast
    then show ?thesis by (auto simp: lexord_append_leftI)
  qed
  have later: "(fst y, fst z) \<in> lexord less_than" if "y \<in> set ?inner" "z \<in> set (walk pre (Suc i) ps)" for y z
    using inner [OF that(1)] outer [OF that(2)] by (auto simp: lexord_append_leftI)
  have "sorted_wrt (\<lambda>x y. (fst x, fst y) \<in> lexord less_than) ?inner"
    using 2(1) by (cases "Packet_children x") auto
  then show ?case
    unfolding walk.simps sorted_wrt.simps sorted_wrt_append set_append using first later 2(2) by simp
qed

lemma PacketPile_descendants_from [simp]: "PacketPile_descendants (PacketPile_from ps) = Inr (Iter ps None None 0)"
  by (simp add: PacketPile_descendants_def PacketPile_from_def Container_descendants_def Container_children_def)

text \<open>
  C32. Iterating over a pile with paths visits every packet of the tree exactly once, under the path by which
  \<open>path_ref\<close> finds it, in the lexicographic order of the paths, and the plain iterator visits the same packets.
\<close>

theorem pile_paths:
  "\<exists>it. PacketPile_descendants (PacketPile_from ps) = Inr it
     \<and> set (PacketPathIter_collect (Iter_paths it)) = {(path, p). path_ref (PacketPile_from ps) path = Some p}
     \<and> sorted_wrt (\<lambda>x y. (fst x, fst y) \<in> lexord less_than) (PacketPathIter_collect (Iter_paths it))
     \<and> map snd (PacketPathIter_collect (Iter_paths it)) = Iter_collect it"
proof -
  have found: "path_ref (PacketPile_from ps) path = Some p \<longleftrightarrow> (path, p) \<in> set (walk [] 0 ps)" for path p
    by (cases path) (simp_all add: walk_path_ref path_ref_def PacketPile_from_def del: path_ref_loop.simps(2))
  then show ?thesis
    by (auto simp: found paths_walk walk_sorted Iter_collect_visits intro: map_snd_walk)
qed

section \<open>Access and replacement by path\<close>

lemma Packet_container_set [simp]: "Packet_container p = Some c \<Longrightarrow> Packet_container (Packet_set_container c' p) = Some c'"
  by (cases p) (auto simp: Packet_container_def Packet_set_container_def split: SEIP.splits)

lemma Packet_set_container_set [simp]: "Packet_set_container c (Packet_set_container c' p) = Packet_set_container c p"
  by (cases p) (auto simp: Packet_set_container_def split: SEIP.splits)

lemma Packet_set_container_same [simp]: "Packet_container p = Some c \<Longrightarrow> Packet_set_container c p = p"
  by (cases p) (auto simp: Packet_container_def Packet_set_container_def split: SEIP.splits)

lemma structured_container_set [simp]: "structured_container (Packet_set_container c p) = structured_container p"
  by (cases p) (auto simp: structured_container_def Packet_set_container_def split: SEIP.splits)

lemma structured_container_Some: "structured_container p \<Longrightarrow> \<exists>c. Packet_container p = Some c"
  by (cases p) (auto simp: structured_container_def Packet_container_def split: SEIP.splits)

lemma Container_children_Structured [simp]: "Container_children (Structured ps) = Some ps"
  by (simp add: Container_children_def)

lemma Container_children_Some: "Container_children c = Some ps \<longleftrightarrow> c = Structured ps"
  by (cases c) (auto simp: Container_children_def)

text \<open>The packets in the container at a path.\<close>

fun children_at :: "Packet Body \<Rightarrow> nat list \<Rightarrow> Packet list option" where
  "children_at c [] = Container_children c"
| "children_at c (i # path) =
     (case Container_children c of
        Some ps \<Rightarrow> if i < length ps then (case Packet_container (ps ! i) of Some c \<Rightarrow> children_at c path | None \<Rightarrow> None) else None
      | None \<Rightarrow> None)"

lemma replace_loop_children:
  assumes "replace_loop c (pre @ [i]) n new = Inr (old, c')"
  shows "\<exists>cs. children_at c pre = Some cs \<and> i + n \<le> length cs \<and> old = take n (drop i cs)
    \<and> children_at c' pre = Some (take i cs @ new @ drop (i + n) cs)"
  using assms
proof (induction pre arbitrary: c c')
  case Nil
  then show ?case by (auto simp: Let_def min_def split: option.splits if_splits)
next
  case (Cons j pre)
  then show ?case
    by (fastforce simp: result_simps split: option.splits if_splits)
qed

lemma split_at: "i + n \<le> length xs \<Longrightarrow> \<exists>a b c. xs = a @ b @ c \<and> length a = i \<and> length b = n"
  by (rule exI [of _ "take i xs"], rule exI [of _ "take n (drop i xs)"], rule exI [of _ "drop (i + n) xs"])
    (metis (no_types, lifting) add_leE append_take_drop_id diff_add_inverse drop_drop le_diff_conv2 length_drop length_take min.absorb2 add.commute)

lemma replace_loop_undo:
  assumes "replace_loop c path n new = Inr (old, c')"
  shows "length old = n \<and> replace_loop c' path (length new) old = Inr (new, c)"
  using assms
proof (induction path arbitrary: c c')
  case (Cons i path)
  then obtain ps where c: "c = Structured ps" by (auto simp: Container_children_Some split: option.splits)
  show ?case
  proof (cases "path = []")
    case True
    then obtain a b d where "ps = a @ b @ d" "length a = i" "length b = n"
      using Cons(2) c split_at [of i n ps] by (auto split: if_splits)
    then show ?thesis using True Cons(2) c by (auto simp: Let_def)
  next
    case False
    then show ?thesis using Cons c
      by (fastforce simp: result_simps split: option.splits if_splits)
  qed
qed simp

lemma replace_loop_no_panic: "\<not> panics (replace_loop c path n new)"
proof (induction path arbitrary: c)
  case (Cons i path)
  then show ?case
    by (auto simp: Let_def split: option.splits dest: structured_container_Some)
qed simp

text \<open>
  Replacing packets of a container by path puts the new packets in the place of the ones that are returned, and
  replacing again with the packets that were returned undoes it. No replacement panics, whatever the path.
\<close>

theorem pile_replace:
  assumes "PacketPile_replace pile (pre @ [i]) n new = Inr (old, pile')"
  shows "(\<exists>cs. children_at (top_level pile) pre = Some cs \<and> i + n \<le> length cs \<and> old = take n (drop i cs)
      \<and> children_at (top_level pile') pre = Some (take i cs @ new @ drop (i + n) cs))
    \<and> PacketPile_replace pile' (pre @ [i]) (length new) old = Inr (new, pile)
    \<and> \<not> panics (PacketPile_replace pile' path m packets')"
proof -
  obtain c' where c': "replace_loop (top_level pile) (pre @ [i]) n new = Inr (old, c')" "pile' = PacketPile c'"
    using assms by (auto simp: PacketPile_replace_def result_simps)
  show ?thesis
    using replace_loop_children [OF c'(1)] replace_loop_undo [OF c'(1)] c'(2)
    by (auto simp: PacketPile_replace_def replace_loop_no_panic)
qed

theorem pile_replace_witness:
  "PacketPile_replace (PacketPile_from [Packet.CompressedData (CompressedData.CompressedData CompressionAlgorithm.Zip (Structured [Packet.Marker]))])
     [0, 0] 1 [Packet.Trust [], Packet.Padding [7]]
   = Inr ([Packet.Marker],
       PacketPile_from [Packet.CompressedData (CompressedData.CompressedData CompressionAlgorithm.Zip (Structured [Packet.Trust [], Packet.Padding [7]]))])
   \<and> PacketPile_replace
       (PacketPile_from [Packet.CompressedData (CompressedData.CompressedData CompressionAlgorithm.Zip (Structured [Packet.Trust [], Packet.Padding [7]]))])
       [0, 0] 2 [Packet.Marker]
     = Inr ([Packet.Trust [], Packet.Padding [7]],
         PacketPile_from [Packet.CompressedData (CompressedData.CompressedData CompressionAlgorithm.Zip (Structured [Packet.Marker]))])"
proof -
  let ?pile = "PacketPile_from [Packet.CompressedData (CompressedData.CompressedData CompressionAlgorithm.Zip (Structured [Packet.Marker]))]"
  let ?pile' = "PacketPile_from [Packet.CompressedData (CompressedData.CompressedData CompressionAlgorithm.Zip (Structured [Packet.Trust [], Packet.Padding [7]]))]"
  have replaced: "PacketPile_replace ?pile ([0] @ [0]) 1 [Packet.Trust [], Packet.Padding [7]] = Inr ([Packet.Marker], ?pile')"
    by (simp add: PacketPile_replace_def PacketPile_from_def structured_container_def Packet_container_def Packet_set_container_def)
  show ?thesis using replaced pile_replace [OF replaced] by (simp add: numeral_2_eq_2)
qed

lemma path_ref_mut_loop_panics:
  assumes "path_ref_loop (Some c) None path = Some p" "Packet_container p = None"
  shows "path_ref_mut_loop c (path @ i # rest) = Inl Panic \<and> path_ref_loop (Some c) None (path @ i # rest) = None"
  using assms(1)
proof (induction path arbitrary: c)
  case (Cons j path)
  then obtain ps where c: "c = Structured ps" "j < length ps"
    by (auto simp: Container_children_Some split: option.splits if_splits)
  show ?case
  proof (cases "path = []")
    case True
    then show ?thesis using Cons(2) c assms(2) by simp
  next
    case False
    then obtain k r where path: "path = k # r" by (cases path) auto
    obtain c' where "Packet_container (ps ! j) = Some c'" "path_ref_loop (Some c') None path = Some p"
      using Cons(2) c path by (auto simp: Let_def split: option.splits)
    then show ?thesis using Cons(1) [of c'] c path by (auto simp: Let_def split: option.splits)
  qed
qed simp

text \<open>
  A path that goes on below a packet that is no container makes \<open>path_ref_mut\<close> panic, where \<open>path_ref\<close>
  returns that there is no packet.
\<close>

theorem path_ref_mut_panics:
  assumes "path_ref pile path = Some p" "Packet_container p = None"
  shows "path_ref_mut pile (path @ i # rest) = Inl Panic \<and> path_ref pile (path @ i # rest) = None"
  using path_ref_mut_loop_panics [OF assms(1) [unfolded path_ref_def] assms(2)] by (simp_all add: path_ref_mut_def path_ref_def)

theorem path_ref_mut_panics_witness:
  "path_ref_mut (PacketPile_from [Packet.Marker]) [0, 0] = Inl Panic"
  using path_ref_mut_panics [of "PacketPile_from [Packet.Marker]" "[0]" Packet.Marker 0 "[]"]
  by (simp add: path_ref_def PacketPile_from_def Packet_container_def)

section \<open>Building a pile\<close>

text \<open>What the parser returns for a tree: the packets in depth-first order, the containers without their contents.\<close>

definition hollow :: "Packet \<Rightarrow> Packet" where
  "hollow p = (case Packet_children p of Some _ \<Rightarrow> Packet_set_container (Structured []) p | None \<Rightarrow> p)"

definition recursed :: "nat \<Rightarrow> Packet list \<Rightarrow> (nat \<times> Packet) list" where
  "recursed d ps = map (\<lambda>(d, p). (d, hollow p)) (preorder d ps)"

text \<open>The container at a level along the last packets, and the tree with its packets changed.\<close>

fun set_level :: "nat \<Rightarrow> Packet list \<Rightarrow> Packet Body \<Rightarrow> Packet Body" where
  "set_level 0 cs c = Structured cs"
| "set_level (Suc n) cs c =
     (case last_container c of Inr (ps, p, c) \<Rightarrow> Structured (ps @ [Packet_set_container (set_level n cs c) p]) | Inl _ \<Rightarrow> c)"

lemma last_container_snoc [simp]:
  "last_container (Structured (ps @ [p])) = (case Packet_container p of None \<Rightarrow> Inl Panic | Some c \<Rightarrow> Inr (ps, p, c))"
  by (simp add: last_container_def split: option.split)

lemma last_container_Inr: "last_container c = Inr (ps, p, c') \<Longrightarrow> c = Structured (ps @ [p]) \<and> Packet_container p = Some c'"
  by (auto simp: last_container_def Container_children_Some split: option.splits if_splits)

lemma container_at_set_level: "container_at d c = Inr c' \<Longrightarrow> container_at d (set_level d cs c) = Inr (Structured cs)"
  by (induction d cs c rule: set_level.induct) (auto simp: result_simps dest!: last_container_Inr)

lemma set_level_set_level: "container_at d c = Inr c' \<Longrightarrow> set_level d cs (set_level d cs' c) = set_level d cs c"
  by (induction d cs c rule: set_level.induct) (auto simp: result_simps dest!: last_container_Inr)

lemma set_level_same: "container_at d c = Inr (Structured cs) \<Longrightarrow> set_level d cs c = c"
  by (induction d cs c rule: set_level.induct) (auto simp: result_simps dest!: last_container_Inr)

lemma container_at_Suc:
  "container_at d c = Inr (Structured (qs @ [p])) \<Longrightarrow> Packet_container p = Some c' \<Longrightarrow> container_at (Suc d) c = Inr c'"
  by (induction d arbitrary: c) (auto simp: result_simps)

lemma set_level_Suc:
  "container_at d c = Inr (Structured (qs @ [p])) \<Longrightarrow> Packet_container p = Some c' \<Longrightarrow>
   set_level (Suc d) cs c = set_level d (qs @ [Packet_set_container (Structured cs) p]) c"
  by (induction d arbitrary: c) (auto simp: result_simps dest!: last_container_Inr)

lemma push_at_level: "container_at d c = Inr (Structured qs) \<Longrightarrow> push_at d p c = Inr (set_level d (qs @ [p]) c)"
  by (induction d p c rule: push_at.induct) (auto simp: result_simps split: prod.splits)

lemma insert_loop_level: "container_at d c = Inr (Structured qs) \<Longrightarrow> insert_loop d p c = Inr (set_level d (qs @ [p]) c)"
proof (induction d arbitrary: c)
  case (Suc d)
  then obtain ps q c' where last: "last_container c = Inr (ps, q, c')" and c': "container_at d c' = Inr (Structured qs)"
    by (auto simp: result_simps)
  from last_container_Inr [OF last] have c: "c = Structured (ps @ [q])" "Packet_container q = Some c'" by auto
  obtain cs where "c' = Structured cs" "cs = [] \<Longrightarrow> d = 0"
    using c' by (cases d) (auto simp: result_simps dest!: last_container_Inr)
  then show ?case using Suc(1) [OF c'] c by (simp add: Packet_children_def Let_def)
qed simp

text \<open>
  The contract of putting a packet into the tree: it is added to the container at its level. Whoever keeps it rebuilds
  a tree from its packets.
\<close>

fun insert_all :: "(nat \<Rightarrow> Packet \<Rightarrow> Packet Body \<Rightarrow> Packet Body res) \<Rightarrow> (nat \<times> Packet) list \<Rightarrow> Packet Body \<Rightarrow> Packet Body res" where
  "insert_all ins [] c = Inr c"
| "insert_all ins ((d, p) # xs) c = and_then (ins d p c) (insert_all ins xs)"

lemma insert_all_append: "insert_all ins (xs @ ys) c = and_then (insert_all ins xs c) (insert_all ins ys)"
  by (induction ins xs c rule: insert_all.induct) (simp_all add: and_then_assoc cong: and_then_cong)

locale level_insertion =
  fixes ins :: "nat \<Rightarrow> Packet \<Rightarrow> Packet Body \<Rightarrow> Packet Body res"
  assumes ins_level: "container_at d c = Inr (Structured qs) \<Longrightarrow> ins d p c = Inr (set_level d (qs @ [p]) c)"
begin

lemma insert_recursed:
  "container_at d c = Inr (Structured qs) \<Longrightarrow> insert_all ins (recursed d ps) c = Inr (set_level d (qs @ ps) c)"
proof (induction d ps arbitrary: c qs rule: preorder.induct)
  case (1 d)
  then show ?case by (simp add: recursed_def set_level_same)
next
  case (2 d p ps)
  define c1 where "c1 = set_level d (qs @ [hollow p]) c"
  have c1: "container_at d c1 = Inr (Structured (qs @ [hollow p]))"
    unfolding c1_def using 2(3) by (rule container_at_set_level)
  have children: "insert_all ins (case Packet_children p of None \<Rightarrow> [] | Some cs \<Rightarrow> recursed (Suc d) cs) c1 = Inr (set_level d (qs @ [p]) c)"
  proof (cases "Packet_children p")
    case None
    then show ?thesis by (simp add: c1_def hollow_def)
  next
    case (Some cs)
    then have p: "Packet_container p = Some (Structured cs)"
      by (auto simp: Packet_children_def Container_children_Some split: option.splits)
    then have h: "Packet_container (hollow p) = Some (Structured [])" using Some by (simp add: hollow_def)
    have "insert_all ins (recursed (Suc d) cs) c1 = Inr (set_level (Suc d) cs c1)"
      using 2(1) [OF Some container_at_Suc [OF c1 h]] by simp
    also have "set_level (Suc d) cs c1 = set_level d (qs @ [p]) c"
      unfolding set_level_Suc [OF c1 h] using 2(3) Some p by (simp add: c1_def set_level_set_level hollow_def)
    finally show ?thesis using Some by simp
  qed
  have "recursed d (p # ps) = (d, hollow p) # (case Packet_children p of None \<Rightarrow> [] | Some cs \<Rightarrow> recursed (Suc d) cs) @ recursed d ps"
    by (auto simp: recursed_def split: option.splits)
  moreover have "container_at d (set_level d (qs @ [p]) c) = Inr (Structured (qs @ [p]))"
    using 2(3) by (rule container_at_set_level)
  ultimately show ?case
    using 2(2) [of "set_level d (qs @ [p]) c" "qs @ [p]"] ins_level [OF 2(3)] children 2(3)
    by (simp add: insert_all_append c1_def [symmetric] set_level_set_level)
qed

lemma insert_tree: "insert_all ins (recursed 0 ps) Container_default = Inr (Structured ps)"
  using insert_recursed [of 0 Container_default "[]" ps] by (simp add: Container_default_def)

end

interpretation pushed: level_insertion push_at
  by unfold_locales (rule push_at_level)

interpretation inserted: level_insertion insert_loop
  by unfold_locales (rule insert_loop_level)

text \<open>Keeping a reference to the container is the same as walking down each time, where the depth grows by one at most.\<close>

fun depths_ok :: "nat \<Rightarrow> (nat \<times> Packet) list \<Rightarrow> bool" where
  "depths_ok d [] = True"
| "depths_ok d ((d', _) # xs) \<longleftrightarrow> d' \<le> Suc d \<and> depths_ok d' xs"

lemma container_at_error: "container_at n c = Inl e \<Longrightarrow> push_at (n + k) p c = Inl e"
  by (induction n arbitrary: c) (auto simp: result_simps)

lemma build_push:
  "depths_ok (nat lastp) xs \<and> lastp \<ge> 0 \<longrightarrow> build_outer c lastp xs = insert_all push_at xs c"
  "pos = (if rel = 1 then lvl + 1 else lvl) \<and> depths_ok pos rest \<longrightarrow>
   build_inner c lvl pos rel p rest = insert_all push_at ((pos, p) # rest) c"
proof (induction c lastp xs and c lvl pos rel p rest rule: build_outer_build_inner.induct)
  case (1 c lastp)
  then show ?case by simp
next
  case (2 c lastp pos p rest)
  show ?case
  proof
    assume ok: "depths_ok (nat lastp) ((pos, p) # rest) \<and> lastp \<ge> 0"
    define rel where "rel = int pos - lastp"
    define lvl where "lvl = pos - (if rel > 0 then 1 else 0)"
    have rel: "rel \<le> 1" using ok by (auto simp: rel_def)
    have "container_at lvl c = Inl e \<Longrightarrow> push_at pos p c = Inl e" for e
      using container_at_error [of lvl c e "pos - lvl" p] by (simp add: lvl_def)
    moreover have "build_inner c lvl pos (if rel < 0 then 0 else rel) p rest = insert_all push_at ((pos, p) # rest) c" if "is_ok (container_at lvl c)"
      using 2 [OF rel_def _ lvl_def] rel ok that by (auto simp: lvl_def rel_def is_ok_iff simp del: build_inner.simps push_at.simps)
    ultimately show "build_outer c lastp ((pos, p) # rest) = insert_all push_at ((pos, p) # rest) c"
      using rel by (cases "container_at lvl c") (simp_all add: build_outer.simps Let_def rel_def [symmetric] lvl_def [symmetric])
  qed
next
  case (3 c lvl pos rel p rest)
  show ?case
  proof
    assume ok: "pos = (if rel = 1 then lvl + 1 else lvl) \<and> depths_ok pos rest"
    have rest: "(case rest of [] \<Rightarrow> Inr c' | (pos', p') # rest' \<Rightarrow>
        if pos' < pos then build_outer c' (int pos) rest else build_inner c' pos pos' (int pos' - int pos) p' rest') = insert_all push_at rest c'"
      if "push_at pos p c = Inr c'" for c'
    proof (cases rest)
      case (Cons x rest')
      obtain pos' p' where x: "x = (pos', p')" by force
      show ?thesis
      proof (cases "pos' < pos")
        case True
        have "build_outer c' (int pos) rest = insert_all push_at rest c'"
          using 3(1) [OF conjunct1 [OF ok] that Cons x [symmetric] True] ok Cons x True by auto
        then show ?thesis using Cons x True by simp
      next
        case False
        have "pos' = (if int pos' - int pos = 1 then pos + 1 else pos) \<and> depths_ok pos' rest'" using False ok Cons x by auto
        with 3(2) [OF conjunct1 [OF ok] that Cons x [symmetric] False]
        have "build_inner c' pos pos' (int pos' - int pos) p' rest' = insert_all push_at ((pos', p') # rest') c'" by blast
        then show ?thesis using Cons x False by simp
      qed
    qed simp
    show "build_inner c lvl pos rel p rest = insert_all push_at ((pos, p) # rest) c"
      unfolding build_inner.simps [of c] Let_def conjunct1 [OF ok, symmetric] insert_all.simps
      by (rule and_then_cong [OF refl rest])
  qed
qed

lemma recursed_depths:
  "d \<le> Suc e \<Longrightarrow> (\<And>e'. d \<le> Suc e' \<Longrightarrow> depths_ok e' ys) \<Longrightarrow> depths_ok e (recursed d ps @ ys)"
proof (induction d ps arbitrary: e ys rule: preorder.induct)
  case (1 d)
  then show ?case by (simp add: recursed_def)
next
  case (2 d p ps)
  have tail: "depths_ok e' (recursed d ps @ ys)" if "d \<le> Suc e'" for e'
    using 2(2) [OF that 2(4)] .
  have "depths_ok d ((case Packet_children p of None \<Rightarrow> [] | Some cs \<Rightarrow> recursed (Suc d) cs) @ recursed d ps @ ys)"
    using 2(1) [of _ d "recursed d ps @ ys"] tail by (auto split: option.splits)
  then show ?case using 2(3) by (auto simp: recursed_def split: option.splits)
qed

text \<open>
  Both builders of piles make of the packets that a parser returns for a tree, each with its depth and without
  its contents, the tree again: the one that walks down from the top for each packet, and the one that keeps a
  reference to the last container.
\<close>

theorem pile_rebuilt:
  "PacketPile_try_from (recursed 0 ps) = Inr (PacketPile_from ps)
   \<and> insert_all (\<lambda>d p c. and_then (insert_packet p d (PacketPile c)) (\<lambda>pile. Inr (top_level pile))) (recursed 0 ps) Container_default
     = Inr (top_level (PacketPile_from ps))"
proof
  have insert: "(\<lambda>d p c. and_then (insert_packet p d (PacketPile c)) (\<lambda>pile. Inr (top_level pile))) = insert_loop"
    by (intro ext) (simp add: insert_packet_def and_then_assoc)
  show "insert_all (\<lambda>d p c. and_then (insert_packet p d (PacketPile c)) (\<lambda>pile. Inr (top_level pile))) (recursed 0 ps) Container_default
      = Inr (top_level (PacketPile_from ps))"
    unfolding insert by (simp add: inserted.insert_tree PacketPile_from_def)
  have "depths_ok 0 (recursed 0 ps)" using recursed_depths [of 0 0 "[]" ps] by simp
  then have "build_outer Container_default 0 (recursed 0 ps) = Inr (Structured ps)"
    using build_push(1) [of 0 "recursed 0 ps" Container_default] pushed.insert_tree by simp
  then show "PacketPile_try_from (recursed 0 ps) = Inr (PacketPile_from ps)"
    by (cases ps) (auto simp: PacketPile_try_from_def recursed_def PacketPile_from_def)
qed

end
