(* ===== verification/Messages.thy ===== *)
theory Messages
  imports PacketPiles
begin

text \<open>
  Messages (\<open>message/mod.rs\<close>): the tokens of a packet sequence (\<open>message/lexer.rs\<close>), the grammar of messages
  (\<open>message/grammar.lalrpop\<close>), the validator that turns packets with their paths into tokens, and the conversion of a
  pile into a message.

  The parser of the grammar is generated at build time by LALRPOP. It is the parameter \<open>parse\<close>, and its contract is the
  locale \<open>message_parser\<close>: it accepts the sentences of the grammar, and reports an unexpected end exactly on the
  other beginnings of sentences. The recogniser at the end of this theory keeps it.
\<close>

section \<open>The grammar\<close>

datatype Token =
    Literal | CompressedData | SKESK | PKESK | SEIPv1 | SEIPv2 | MDC | AED | OPS | SIG | Pop | OpaqueContent

text \<open>One predicate per nonterminal; \<open>MessagePart\<close> is \<open>Message\<close>.\<close>

inductive MessagePart :: "Token list \<Rightarrow> bool"
  and CompressedDataPart :: "Token list \<Rightarrow> bool"
  and Seipv1Part :: "Token list \<Rightarrow> bool"
  and Seipv2Part :: "Token list \<Rightarrow> bool"
  and AedPart :: "Token list \<Rightarrow> bool"
  and EncryptedPart :: "Token list \<Rightarrow> bool"
  and EncryptionContainer :: "Token list \<Rightarrow> bool"
  and ESKS :: "Token list \<Rightarrow> bool"
  and ESK :: "Token list \<Rightarrow> bool"
  and SignedPart :: "Token list \<Rightarrow> bool" where
  message_literal: "MessagePart [Token.Literal]"
| message_compressed: "CompressedDataPart w \<Longrightarrow> MessagePart w"
| message_encrypted: "EncryptedPart w \<Longrightarrow> MessagePart w"
| message_signed: "SignedPart w \<Longrightarrow> MessagePart w"
| message_opaque: "MessagePart [Token.OpaqueContent]"
| compressed: "MessagePart m \<Longrightarrow> CompressedDataPart (Token.CompressedData # m @ [Token.Pop])"
| seipv1: "MessagePart m \<Longrightarrow> Seipv1Part (Token.SEIPv1 # m @ [Token.MDC, Token.Pop])"
| seipv1_opaque: "Seipv1Part [Token.SEIPv1, Token.OpaqueContent, Token.Pop]"
| seipv2: "MessagePart m \<Longrightarrow> Seipv2Part (Token.SEIPv2 # m @ [Token.Pop])"
| aed: "MessagePart m \<Longrightarrow> AedPart (Token.AED # m @ [Token.Pop])"
| encrypted: "EncryptionContainer w \<Longrightarrow> EncryptedPart w"
| encrypted_esks: "ESKS e \<Longrightarrow> EncryptionContainer w \<Longrightarrow> EncryptedPart (e @ w)"
| container_seipv1: "Seipv1Part w \<Longrightarrow> EncryptionContainer w"
| container_seipv2: "Seipv2Part w \<Longrightarrow> EncryptionContainer w"
| container_aed: "AedPart w \<Longrightarrow> EncryptionContainer w"
| esks: "ESK e \<Longrightarrow> ESKS e"
| esks_more: "ESKS es \<Longrightarrow> ESK e \<Longrightarrow> ESKS (es @ e)"
| esk_pkesk: "ESK [Token.PKESK]"
| esk_skesk: "ESK [Token.SKESK]"
| signed_sig: "MessagePart m \<Longrightarrow> SignedPart (Token.SIG # m)"
| signed_ops: "MessagePart m \<Longrightarrow> SignedPart (Token.OPS # m @ [Token.SIG])"

text \<open>The outcomes of the generated parser that the validator tells apart.\<close>

datatype parse_outcome = Accepted | UnrecognizedEof | UnrecognizedToken

locale message_parser =
  fixes parse :: "Token list \<Rightarrow> parse_outcome"
  assumes accepts: "parse ts = Accepted \<longleftrightarrow> MessagePart ts"
    and prefixes: "parse ts = UnrecognizedEof \<longleftrightarrow> \<not> MessagePart ts \<and> (\<exists>us. MessagePart (ts @ us))"

section \<open>The validator\<close>

datatype MessageParserError = Parser parse_outcome | OpenPGP Error

datatype MessageValidity = Message | MessagePrefix | Error MessageParserError

definition is_message :: "MessageValidity \<Rightarrow> bool" where
  "is_message v = (case v of MessageValidity.Message \<Rightarrow> True | _ \<Rightarrow> False)"

definition is_message_prefix :: "MessageValidity \<Rightarrow> bool" where
  "is_message_prefix v = (case v of MessageValidity.MessagePrefix \<Rightarrow> True | _ \<Rightarrow> False)"

definition is_err :: "MessageValidity \<Rightarrow> bool" where
  "is_err v = (case v of MessageValidity.Error _ \<Rightarrow> True | _ \<Rightarrow> False)"

record MessageValidator =
  mv_tokens :: "Token list"
  mv_finished :: bool
  mv_depth :: "int option"
  mv_error :: "MessageParserError option"

definition MessageValidator_new :: MessageValidator where
  "MessageValidator_new = \<lparr>mv_tokens = [], mv_finished = False, mv_depth = Some 0, mv_error = None\<rparr>"

definition push_token :: "Token \<Rightarrow> nat list \<Rightarrow> MessageValidator \<Rightarrow> MessageValidator res" where
  "push_token token path v =
     (if mv_finished v then Inl Panic
      else
        (case mv_depth v of
           None \<Rightarrow> Inl Panic
         | Some old_depth \<Rightarrow>
             if token = Token.Pop then Inl Panic
             else if path = [] then Inl Panic
             else if mv_error v \<noteq> None then Inr v
             else
               (let depth = int (length path) - 1 in
                Inr (v\<lparr>mv_tokens := mv_tokens v @ (if old_depth > depth then replicate (nat (old_depth - depth)) Token.Pop else []) @ [token],
                       mv_depth := Some depth\<rparr>))))"

text \<open>What a packet is in a message: a token, nothing at all, or out of place.\<close>

datatype packet_role = Tok Token | Ignored | Unexpected

definition classify :: "Tag \<Rightarrow> u8 option \<Rightarrow> packet_role" where
  "classify tag version =
     (if tag = Tag.Literal then Tok Token.Literal
      else if tag = Tag.CompressedData then Tok Token.CompressedData
      else if tag = Tag.SKESK then Tok Token.SKESK
      else if tag = Tag.PKESK then Tok Token.PKESK
      else if tag = Tag.SEIP \<and> version = Some 1 then Tok Token.SEIPv1
      else if tag = Tag.SEIP \<and> version = Some 2 then Tok Token.SEIPv2
      else if tag = Tag.MDC then Tok Token.MDC
      else if tag = Tag.AED then Tok Token.AED
      else if tag = Tag.OnePassSig then Tok Token.OPS
      else if tag = Tag.Signature then Tok Token.SIG
      else if tag = Tag.Marker then Ignored
      else if tag = Tag.Padding then Ignored
      else if \<not> is_critical tag then Ignored
      else Unexpected)"

definition MessageValidator_push :: "Tag \<Rightarrow> u8 option \<Rightarrow> nat list \<Rightarrow> MessageValidator \<Rightarrow> MessageValidator res" where
  "MessageValidator_push tag version path v =
     (if mv_error v \<noteq> None then Inr v
      else
        (case classify tag version of
           Tok token \<Rightarrow> push_token token path v
         | Ignored \<Rightarrow> Inr v
         | Unexpected \<Rightarrow> Inr (v\<lparr>mv_error := Some (OpenPGP MalformedMessage), mv_tokens := []\<rparr>)))"

definition MessageValidator_finish :: "MessageValidator \<Rightarrow> MessageValidator res" where
  "MessageValidator_finish v =
     (if mv_finished v then Inl Panic
      else
        Inr (v\<lparr>mv_tokens := mv_tokens v @ (case mv_depth v of Some depth \<Rightarrow> replicate (nat depth) Token.Pop | None \<Rightarrow> []),
               mv_finished := True\<rparr>))"

definition MessageValidator_check :: "(Token list \<Rightarrow> parse_outcome) \<Rightarrow> MessageValidator \<Rightarrow> MessageValidity" where
  "MessageValidator_check parse v =
     (case mv_error v of
        Some err \<Rightarrow> MessageValidity.Error err
      | None \<Rightarrow>
          (let r = parse (mv_tokens v) in
           if mv_finished v then
             (case r of Accepted \<Rightarrow> MessageValidity.Message | err \<Rightarrow> MessageValidity.Error (Parser err))
           else
             (case r of
                Accepted \<Rightarrow> MessageValidity.MessagePrefix
              | UnrecognizedEof \<Rightarrow> MessageValidity.MessagePrefix
              | err \<Rightarrow> MessageValidity.Error (Parser err))))"

section \<open>Messages\<close>

text \<open>
  The conversion of a pile. A packet of unknown contents ends it; otherwise the packet is pushed, and the contents of a
  container that is not unpacked are pushed as opaque. The outer result is for panics.
\<close>

definition push_contents :: "nat list \<Rightarrow> Packet \<Rightarrow> MessageValidator \<Rightarrow> MessageValidator res" where
  "push_contents path packet v =
     (case packet of
        Packet.CompressedData _ \<Rightarrow>
          if Packet_children packet = None then push_token Token.OpaqueContent (path @ [0]) v else Inr v
      | Packet.SEIP _ \<Rightarrow>
          if Packet_children packet = None then push_token Token.OpaqueContent (path @ [0]) v else Inr v
      | _ \<Rightarrow> Inr v)"

fun push_packets :: "(nat list \<times> Packet) list \<Rightarrow> MessageValidator \<Rightarrow> (MessageParserError + MessageValidator) res" where
  "push_packets [] v = Inr (Inr v)"
| "push_packets ((path, packet) # rest) v =
     (case packet of
        Packet.Unknown _ \<Rightarrow> Inr (Inl (OpenPGP MalformedMessage))
      | _ \<Rightarrow>
          and_then (MessageValidator_push (Packet_tag packet) (Packet_version packet) path v) (\<lambda>v.
          and_then (push_contents path packet v) (\<lambda>v.
            push_packets rest v)))"

definition Message_try_from :: "(Token list \<Rightarrow> parse_outcome) \<Rightarrow> PacketPile \<Rightarrow> (MessageParserError + PacketPile) res" where
  "Message_try_from parse pile =
     and_then (PacketPile_descendants pile) (\<lambda>it.
     and_then (push_packets (PacketPathIter_collect (Iter_paths it)) MessageValidator_new) (\<lambda>r.
       case r of
         Inl e \<Rightarrow> Inr (Inl e)
       | Inr v \<Rightarrow>
           and_then (MessageValidator_finish v) (\<lambda>v.
             case MessageValidator_check parse v of
               MessageValidity.Message \<Rightarrow> Inr (Inr pile)
             | MessageValidity.MessagePrefix \<Rightarrow> Inl Panic
             | MessageValidity.Error e \<Rightarrow> Inr (Inl e))))"

definition Message_body :: "PacketPile \<Rightarrow> Packet Literal option res" where
  "Message_body pile =
     and_then (PacketPile_descendants pile) (\<lambda>it.
       Inr (case filter (\<lambda>p. case p of Packet.Literal _ \<Rightarrow> True | _ \<Rightarrow> False) (Iter_collect it) of
              Packet.Literal l # _ \<Rightarrow> Some l
            | _ \<Rightarrow> None))"

section \<open>A recogniser of the grammar\<close>

text \<open>
  A stack of what is expected: a token, a message, what follows an encrypted session key, the contents of a
  version 1 container, or what follows its opaque contents.
\<close>

datatype expected = T Token | Msg | Enc | Seip1Body | Seip1End

definition expand_container :: "Token \<Rightarrow> expected list option" where
  "expand_container t =
     (case t of
        Token.SEIPv1 \<Rightarrow> Some [Seip1Body]
      | Token.SEIPv2 \<Rightarrow> Some [Msg, T Token.Pop]
      | Token.AED \<Rightarrow> Some [Msg, T Token.Pop]
      | _ \<Rightarrow> None)"

definition expand_enc :: "Token \<Rightarrow> expected list option" where
  "expand_enc t = (if t = Token.PKESK \<or> t = Token.SKESK then Some [Enc] else expand_container t)"

definition expand_msg :: "Token \<Rightarrow> expected list option" where
  "expand_msg t =
     (case t of
        Token.Literal \<Rightarrow> Some []
      | Token.OpaqueContent \<Rightarrow> Some []
      | Token.CompressedData \<Rightarrow> Some [Msg, T Token.Pop]
      | Token.SIG \<Rightarrow> Some [Msg]
      | Token.OPS \<Rightarrow> Some [Msg, T Token.SIG]
      | t \<Rightarrow> expand_enc t)"

definition expand :: "expected \<Rightarrow> Token \<Rightarrow> expected list option" where
  "expand s t =
     (case s of
        T t' \<Rightarrow> if t = t' then Some [] else None
      | Msg \<Rightarrow> expand_msg t
      | Enc \<Rightarrow> expand_enc t
      | Seip1Body \<Rightarrow>
          if t = Token.OpaqueContent then Some [Seip1End]
          else map_option (\<lambda>ss. ss @ [T Token.MDC, T Token.Pop]) (expand_msg t)
      | Seip1End \<Rightarrow> if t = Token.Pop then Some [] else if t = Token.MDC then Some [T Token.Pop] else None)"

fun recognise :: "expected list \<Rightarrow> Token list \<Rightarrow> parse_outcome" where
  "recognise [] [] = Accepted"
| "recognise [] (t # ts) = UnrecognizedToken"
| "recognise (s # st) [] = UnrecognizedEof"
| "recognise (s # st) (t # ts) = (case expand s t of None \<Rightarrow> UnrecognizedToken | Some ss \<Rightarrow> recognise (ss @ st) ts)"

text \<open>What the stack stands for.\<close>

fun expects :: "expected \<Rightarrow> Token list \<Rightarrow> bool" where
  "expects (T t) w \<longleftrightarrow> w = [t]"
| "expects Msg w \<longleftrightarrow> MessagePart w"
| "expects Enc w \<longleftrightarrow> EncryptedPart w"
| "expects Seip1Body w \<longleftrightarrow> Seipv1Part (Token.SEIPv1 # w)"
| "expects Seip1End w \<longleftrightarrow> w = [Token.Pop] \<or> w = [Token.MDC, Token.Pop]"

fun stack :: "expected list \<Rightarrow> Token list \<Rightarrow> bool" where
  "stack [] w \<longleftrightarrow> w = []"
| "stack (s # st) w \<longleftrightarrow> (\<exists>u v. w = u @ v \<and> expects s u \<and> stack st v)"

lemma stack_append: "stack (xs @ ys) w \<longleftrightarrow> (\<exists>u v. w = u @ v \<and> stack xs u \<and> stack ys v)"
proof (induction xs arbitrary: w)
  case (Cons x xs)
  show ?case unfolding append_Cons stack.simps Cons by (metis append.assoc)
qed simp

inductive_simps MessagePart_iff: "MessagePart w"
inductive_simps part_iffs: "CompressedDataPart w" "Seipv1Part w" "Seipv2Part w" "AedPart w" "EncryptionContainer w" "SignedPart w" "ESK w"
inductive_simps EncryptedPart_iff: "EncryptedPart w"

lemma ESKS_iff: "ESKS w \<longleftrightarrow> w \<noteq> [] \<and> set w \<subseteq> {Token.PKESK, Token.SKESK}"
proof
  assume "ESKS w"
  then show "w \<noteq> [] \<and> set w \<subseteq> {Token.PKESK, Token.SKESK}"
    by (induction rule: MessagePart_CompressedDataPart_Seipv1Part_Seipv2Part_AedPart_EncryptedPart_EncryptionContainer_ESKS_ESK_SignedPart.inducts(8)
        [where ?P1.0 = "\<lambda>_. True" and ?P2.0 = "\<lambda>_. True" and ?P3.0 = "\<lambda>_. True" and ?P4.0 = "\<lambda>_. True"
          and ?P5.0 = "\<lambda>_. True" and ?P6.0 = "\<lambda>_. True" and ?P7.0 = "\<lambda>_. True"
          and ?P9.0 = "\<lambda>w. w = [Token.PKESK] \<or> w = [Token.SKESK]" and ?P10.0 = "\<lambda>_. True"]) auto
next
  assume "w \<noteq> [] \<and> set w \<subseteq> {Token.PKESK, Token.SKESK}"
  then show "ESKS w"
  proof (induction w rule: rev_induct)
    case (snoc t w)
    then show ?case
      by (cases "w = []") (auto intro: esks esks_more [of w] esk_pkesk esk_skesk)
  qed simp
qed

lemma encrypted_part_iff:
  "EncryptedPart w \<longleftrightarrow> (\<exists>e c. w = e @ c \<and> set e \<subseteq> {Token.PKESK, Token.SKESK} \<and> EncryptionContainer c)"
  unfolding EncryptedPart_iff ESKS_iff by (metis append_Nil empty_subsetI list.set(1))

lemma container_iff:
  "EncryptionContainer (t # w) \<longleftrightarrow> (\<exists>ss. expand_container t = Some ss \<and> stack ss w)"
  by (cases t) (auto simp: part_iffs expand_container_def)

lemma enc_iff: "EncryptedPart (t # w) \<longleftrightarrow> (\<exists>ss. expand_enc t = Some ss \<and> stack ss w)"
proof (cases "t = Token.PKESK \<or> t = Token.SKESK")
  case True
  have "EncryptedPart (t # w) \<longleftrightarrow> EncryptedPart w"
  proof
    assume "EncryptedPart (t # w)"
    then obtain e c where w: "t # w = e @ c" "set e \<subseteq> {Token.PKESK, Token.SKESK}" "EncryptionContainer c"
      by (auto simp: encrypted_part_iff)
    have "e \<noteq> []" using w True by (auto simp: container_iff expand_container_def)
    then obtain e' where "e = t # e'" "w = e' @ c" using w(1) by (auto simp: Cons_eq_append_conv)
    then show "EncryptedPart w" using w by (auto simp: encrypted_part_iff)
  next
    assume "EncryptedPart w"
    then obtain e c where w: "w = e @ c" "set e \<subseteq> {Token.PKESK, Token.SKESK}" "EncryptionContainer c"
      by (auto simp: encrypted_part_iff)
    then have "t # w = (t # e) @ c \<and> set (t # e) \<subseteq> {Token.PKESK, Token.SKESK}" using True by auto
    then show "EncryptedPart (t # w)" unfolding encrypted_part_iff using w(3) by blast
  qed
  then show ?thesis using True by (simp add: expand_enc_def)
next
  case False
  have "EncryptedPart (t # w) \<longleftrightarrow> EncryptionContainer (t # w)"
    using False encrypted by (auto simp: encrypted_part_iff [of "t # w"] Cons_eq_append_conv) (metis empty_set empty_subsetI)
  then show ?thesis using False by (simp add: expand_enc_def container_iff)
qed

lemma not_empty: "\<not> MessagePart []" "\<not> EncryptedPart []"
  by (auto simp: MessagePart_iff [of "[]"] encrypted_part_iff part_iffs)

lemma msg_iff: "MessagePart (t # w) \<longleftrightarrow> (\<exists>ss. expand_msg t = Some ss \<and> stack ss w)"
  unfolding MessagePart_iff [of "t # w"] enc_iff
  by (cases t) (auto simp: part_iffs expand_msg_def expand_enc_def expand_container_def)

lemma expand_iff: "expects s (t # w) \<longleftrightarrow> (\<exists>ss. expand s t = Some ss \<and> stack ss w)"
proof (cases s)
  case Seip1Body
  have end_iff: "stack (ss @ [T Token.MDC, T Token.Pop]) w \<longleftrightarrow> (\<exists>m. w = m @ [Token.MDC, Token.Pop] \<and> stack ss m)" for ss w
    by (auto simp: stack_append)
  have "Seipv1Part (Token.SEIPv1 # t # w) \<longleftrightarrow>
      (\<exists>m. t # w = m @ [Token.MDC, Token.Pop] \<and> MessagePart m) \<or> t = Token.OpaqueContent \<and> w = [Token.Pop]"
    by (auto simp: part_iffs)
  also have "(\<exists>m. t # w = m @ [Token.MDC, Token.Pop] \<and> MessagePart m) \<longleftrightarrow>
      (\<exists>m. w = m @ [Token.MDC, Token.Pop] \<and> MessagePart (t # m))"
    by (auto simp: Cons_eq_append_conv not_empty)
  finally show ?thesis using Seip1Body by (auto simp: expand_def msg_iff end_iff expand_msg_def)
qed (auto simp: expand_def msg_iff enc_iff)

lemma expects_not_empty: "\<not> expects s []"
  by (cases s) (auto simp: not_empty part_iffs)

lemma stack_iff:
  "stack (s # st) (t # w) \<longleftrightarrow> (\<exists>ss. expand s t = Some ss \<and> stack (ss @ st) w)"
proof -
  have "stack (s # st) (t # w) \<longleftrightarrow> (\<exists>u v. w = u @ v \<and> expects s (t # u) \<and> stack st v)"
    using expects_not_empty [of s] by (auto simp: Cons_eq_append_conv)
  then show ?thesis by (auto simp: expand_iff stack_append)
qed

lemma recognise_accepts: "recognise st w = Accepted \<longleftrightarrow> stack st w"
proof (induction st w rule: recognise.induct)
  case (3 s st)
  then show ?case by (simp add: expects_not_empty)
next
  case (4 s st t ts)
  then show ?case unfolding stack_iff by (auto split: option.splits)
qed simp_all

lemma expects_something: "\<exists>w. expects s w"
proof -
  have "MessagePart [Token.Literal]" by (rule message_literal)
  moreover have "EncryptedPart [Token.SEIPv1, Token.OpaqueContent, Token.Pop]"
    by (rule encrypted) (rule container_seipv1, rule seipv1_opaque)
  ultimately show ?thesis by (cases s) (auto simp: part_iffs)
qed

lemma stack_something: "\<exists>w. stack st w"
  by (induction st) (auto, metis expects_something)

lemma recognise_eof: "recognise st w = UnrecognizedEof \<longleftrightarrow> \<not> stack st w \<and> (\<exists>us. stack st (w @ us))"
proof (induction st w rule: recognise.induct)
  case (3 s st)
  then show ?case using stack_something [of "s # st"] by (auto simp: expects_not_empty)
next
  case (4 s st t ts)
  then show ?case unfolding append_Cons stack_iff by (auto split: option.splits)
qed simp_all

interpretation recogniser: message_parser "recognise [Msg]"
  by unfold_locales (simp_all add: recognise_accepts recognise_eof)

end
