(* ===== verification/MessageStructure.thy ===== *)
theory MessageStructure
  imports Messages
begin

text \<open>
  A pile of packets is a message if and only if it has the structure of one: the validator, which sees packets one after
  the other with their paths and makes tokens of them, decides a property of the tree.
\<close>

section \<open>The structure of messages\<close>

text \<open>Marker and padding packets may stand anywhere.\<close>

definition skipped :: "Packet \<Rightarrow> bool" where
  "skipped p = (case p of Packet.Marker \<Rightarrow> True | Packet.Padding _ \<Rightarrow> True | _ \<Rightarrow> False)"

abbreviation visible :: "Packet list \<Rightarrow> Packet list" where
  "visible \<equiv> filter (\<lambda>p. \<not> skipped p)"

text \<open>
  A message is a literal data packet, a compressed packet with a message inside, session keys in front of encrypted
  data, or a message with signatures in front or around it. The contents of a container that is not unpacked count as a
  message.
\<close>

inductive message_tree :: "Packet list \<Rightarrow> bool"
  and encrypted_tree :: "Packet list \<Rightarrow> bool" where
  literal: "message_tree [Packet.Literal l]"
| compressed_opaque: "Packet_children (Packet.CompressedData c) = None \<Longrightarrow> message_tree [Packet.CompressedData c]"
| compressed_message: "Packet_children (Packet.CompressedData c) = Some cs \<Longrightarrow> message_tree (visible cs) \<Longrightarrow> message_tree [Packet.CompressedData c]"
| signed_old: "message_tree ps \<Longrightarrow> message_tree (Packet.Signature s # ps)"
| signed: "message_tree ps \<Longrightarrow> message_tree (Packet.OnePassSig o1 # ps @ [Packet.Signature s])"
| encrypted_message: "encrypted_tree ps \<Longrightarrow> message_tree ps"
| pkesk: "encrypted_tree ps \<Longrightarrow> encrypted_tree (Packet.PKESK k # ps)"
| skesk: "encrypted_tree ps \<Longrightarrow> encrypted_tree (Packet.SKESK k # ps)"
| seip_opaque: "Packet_children (Packet.SEIP s) = None \<Longrightarrow> encrypted_tree [Packet.SEIP s]"
| seip1_message: "Packet_children (Packet.SEIP (SEIP.V1 s1)) = Some cs \<Longrightarrow> visible cs = ps @ [Packet.MDC m] \<Longrightarrow> message_tree ps \<Longrightarrow>
    encrypted_tree [Packet.SEIP (SEIP.V1 s1)]"
| seip2_message: "Packet_children (Packet.SEIP (SEIP.V2 s2)) = Some cs \<Longrightarrow> message_tree (visible cs) \<Longrightarrow> encrypted_tree [Packet.SEIP (SEIP.V2 s2)]"

section \<open>Balance of the tokens\<close>

definition container_token :: "Token \<Rightarrow> bool" where
  "container_token t \<longleftrightarrow> t \<in> {Token.CompressedData, Token.SEIPv1, Token.SEIPv2, Token.AED}"

definition delta :: "Token \<Rightarrow> int" where
  "delta t = (if container_token t then 1 else if t = Token.Pop then -1 else 0)"

definition bal :: "Token list \<Rightarrow> int" where
  "bal w = sum_list (map delta w)"

lemma pop_no_container [simp]: "\<not> container_token Token.Pop"
  by (simp add: container_token_def)

lemma bal_simps [simp]: "bal [] = 0" "bal (t # w) = delta t + bal w" "bal (u @ w) = bal u + bal w"
  by (simp_all add: bal_def)

lemma bal_pops [simp]: "bal (replicate n Token.Pop) = - int n"
  by (induction n) (simp_all add: delta_def container_token_def)

fun open_containers :: "expected list \<Rightarrow> nat" where
  "open_containers [] = 0"
| "open_containers (s # st) = (if s = T Token.Pop \<or> s = Seip1Body \<or> s = Seip1End then 1 else 0) + open_containers st"

lemma open_append [simp]: "open_containers (xs @ ys) = open_containers xs + open_containers ys"
  by (induction xs) simp_all

fun closing :: "expected \<Rightarrow> bool" where
  "closing (T t) \<longleftrightarrow> \<not> container_token t"
| "closing _ \<longleftrightarrow> True"

lemma expand_open:
  "expand s t = Some ss \<Longrightarrow> closing s \<Longrightarrow> list_all closing ss \<and> int (open_containers ss) = int (open_containers [s]) + delta t"
  by (cases s; cases t)
    (auto simp: expand_def expand_msg_def expand_enc_def expand_container_def delta_def container_token_def split: if_splits)

lemma stack_split:
  "stack st (u @ v) \<Longrightarrow> list_all closing st \<Longrightarrow> \<exists>st'. stack st' v \<and> int (open_containers st') = int (open_containers st) + bal u"
proof (induction u arbitrary: st)
  case (Cons t u)
  obtain s st1 where st: "st = s # st1" using Cons(2) by (cases st) auto
  obtain ss where ss: "expand s t = Some ss" "stack (ss @ st1) (u @ v)"
    using Cons(2) st stack_iff [of s st1 t "u @ v"] by auto
  show ?case using Cons(1) [OF ss(2)] expand_open [OF ss(1)] st Cons(3) by auto
qed auto

lemma stack_empty: "stack st [] \<Longrightarrow> st = []"
  by (cases st) (auto simp: expects_not_empty)

lemma message_balance:
  assumes "MessagePart w"
  shows "bal w = 0" and "w = u @ v \<Longrightarrow> bal u \<ge> 0"
proof -
  have st: "stack [Msg] w" using assms by simp
  show "bal w = 0" using stack_split [of "[Msg]" w "[]"] st by (auto simp del: stack.simps dest!: stack_empty)
  show "w = u @ v \<Longrightarrow> bal u \<ge> 0" using stack_split [of "[Msg]" u v] st by (auto simp del: stack.simps)
qed

text \<open>The end of a container in a message is its last token.\<close>

lemma message_closed:
  assumes "bal inner = 0" "inner @ [Token.Pop] @ rest = m @ x @ [Token.Pop]" "MessagePart m" "bal x = 0" "length x \<le> 1"
  shows "rest = [] \<and> inner = m @ x"
proof (cases "rest = []")
  case False
  then obtain r where "rest = r @ [Token.Pop]"
    using assms(2) by (metis append_assoc append_is_Nil_conv last_appendR last_snoc snoc_eq_iff_butlast)
  then have eq: "m @ x = inner @ Token.Pop # r" using assms(2) by simp
  consider (inside) v where "m = (inner @ [Token.Pop]) @ v" | (atend) "inner = m" "x = [Token.Pop]"
    using eq assms(5) by (cases x; cases r rule: rev_cases) (auto simp: append_eq_Cons_conv)
  then show ?thesis
  proof cases
    case inside
    then show ?thesis using message_balance(2) [OF assms(3) inside] assms(1) by (simp add: delta_def container_token_def)
  next
    case atend
    then show ?thesis using assms(4) by (simp add: delta_def container_token_def)
  qed
qed (use assms(2) in simp)

section \<open>Tokens of a tree\<close>

definition packet_class :: "Packet \<Rightarrow> packet_role" where
  "packet_class p = classify (Packet_tag p) (Packet_version p)"

definition expected_packet :: "Packet \<Rightarrow> bool" where
  "expected_packet p \<longleftrightarrow> (case p of Packet.Unknown _ \<Rightarrow> False | _ \<Rightarrow> packet_class p \<noteq> Unexpected)"

text \<open>A literal data packet has octets for its contents, as all operations on it keep it.\<close>

definition plain_literal :: "Packet \<Rightarrow> bool" where
  "plain_literal p \<longleftrightarrow> (case p of Packet.Literal _ \<Rightarrow> Packet_children p = None | _ \<Rightarrow> True)"

definition forest_all :: "(Packet \<Rightarrow> bool) \<Rightarrow> Packet list \<Rightarrow> bool" where
  "forest_all P ps = list_all P (map snd (preorder 0 ps))"

lemma map_snd_preorder_Suc: "map snd (preorder (Suc d) ps) = map snd (preorder d ps)"
  by (simp add: preorder_Suc comp_def case_prod_beta)

lemma forest_all_simps [simp]:
  "forest_all P []"
  "forest_all P (p # ps) \<longleftrightarrow> P p \<and> (case Packet_children p of None \<Rightarrow> True | Some cs \<Rightarrow> forest_all P cs) \<and> forest_all P ps"
  by (simp_all add: forest_all_def map_snd_preorder_Suc split: option.splits)

lemma forest_all_append [simp]: "forest_all P (xs @ ys) \<longleftrightarrow> forest_all P xs \<and> forest_all P ys"
  by (induction xs) auto

datatype packet_shape = Skip | Leaf Token | Node Token

definition shape :: "Packet \<Rightarrow> packet_shape" where
  "shape p =
     (case packet_class p of
        Tok t \<Rightarrow> if structured_container p then Node t else Leaf t
      | _ \<Rightarrow> Skip)"

lemma shapes:
  "shape (Packet.Signature sg) = Leaf Token.SIG" "shape (Packet.OnePassSig os) = Leaf Token.OPS" "shape Packet.Marker = Skip"
  "shape (Packet.Literal l) = Leaf Token.Literal" "shape (Packet.CompressedData c) = Node Token.CompressedData"
  "shape (Packet.PKESK pk) = Leaf Token.PKESK" "shape (Packet.SKESK sk) = Leaf Token.SKESK"
  "shape (Packet.SEIP (SEIP.V1 s1)) = Node Token.SEIPv1" "shape (Packet.SEIP (SEIP.V2 s2)) = Node Token.SEIPv2"
  "shape (Packet.MDC m) = Leaf Token.MDC" "shape (Packet.Padding b) = Skip"
  by (simp_all add: shape_def packet_class_def classify_def structured_container_def Packet_version_def SEIP_version_def)

lemma expected_cases:
  assumes "expected_packet p"
  obtains (sig) s where "p = Packet.Signature s" | (ops) s where "p = Packet.OnePassSig s" | (marker) "p = Packet.Marker"
    | (literal) l where "p = Packet.Literal l" | (compressed) c where "p = Packet.CompressedData c"
    | (pkesk) k where "p = Packet.PKESK k" | (skesk) k where "p = Packet.SKESK k"
    | (seip1) s where "p = Packet.SEIP (SEIP.V1 s)" | (seip2) s where "p = Packet.SEIP (SEIP.V2 s)"
    | (mdc) m where "p = Packet.MDC m" | (padding) b where "p = Packet.Padding b"
proof (cases p)
  case (SEIP s)
  then show ?thesis using that by (cases s) auto
qed (use assms in \<open>simp_all add: expected_packet_def packet_class_def classify_def is_critical_def that\<close>)

lemma expected_simps [simp]:
  "expected_packet (Packet.Signature sg)" "expected_packet (Packet.OnePassSig os)" "expected_packet Packet.Marker"
  "expected_packet (Packet.Literal l)" "expected_packet (Packet.CompressedData c)"
  "expected_packet (Packet.PKESK pk)" "expected_packet (Packet.SKESK sk)"
  "expected_packet (Packet.SEIP s)" "expected_packet (Packet.MDC m)" "expected_packet (Packet.Padding b)"
  by (cases s; simp add: expected_packet_def packet_class_def classify_def Packet_version_def SEIP_version_def)+

lemma no_children [simp]:
  "Packet_children (Packet.Signature sg) = None" "Packet_children (Packet.OnePassSig os) = None" "Packet_children Packet.Marker = None"
  "Packet_children (Packet.PKESK pk) = None" "Packet_children (Packet.SKESK sk) = None"
  "Packet_children (Packet.MDC m) = None" "Packet_children (Packet.Padding b) = None"
  by (simp_all add: Packet_children_def Packet_container_def)

function tokens_of :: "Packet list \<Rightarrow> Token list" where
  "tokens_of [] = []"
| "tokens_of (p # ps) =
     (case shape p of
        Skip \<Rightarrow> []
      | Leaf t \<Rightarrow> [t]
      | Node t \<Rightarrow> t # (case Packet_children p of None \<Rightarrow> [Token.OpaqueContent] | Some cs \<Rightarrow> tokens_of cs) @ [Token.Pop]) @ tokens_of ps"
  by pat_completeness auto
termination
  by (relation "measure (size_list size)") (auto dest: Packet_children_smaller)

lemma tokens_append: "tokens_of (xs @ ys) = tokens_of xs @ tokens_of ys"
  by (induction xs) simp_all

lemma tokens_visible: "tokens_of (visible ps) = tokens_of ps"
  by (induction ps) (auto simp: skipped_def shapes split: Packet.splits)

lemma expected_visible: "forest_all expected_packet (visible ps) = forest_all expected_packet ps"
  by (induction ps) (auto simp: skipped_def split: Packet.splits)

lemma plain_visible: "forest_all plain_literal ps \<Longrightarrow> forest_all plain_literal (visible ps)"
  by (induction ps) auto

lemma bal_tokens: "forest_all expected_packet ps \<Longrightarrow> bal (tokens_of ps) = 0"
proof (induction ps rule: tokens_of.induct)
  case (2 p ps)
  then have "expected_packet p" by simp
  then show ?case using 2
    by (cases rule: expected_cases)
      (auto simp: shapes delta_def container_token_def split: option.splits)
qed simp

text \<open>Containers in which there is nothing to be seen.\<close>

function empties :: "Packet list \<Rightarrow> nat" where
  "empties [] = 0"
| "empties (p # ps) =
     (case shape p of
        Node _ \<Rightarrow> (case Packet_children p of None \<Rightarrow> 0 | Some cs \<Rightarrow> (if tokens_of cs = [] then 1 else 0) + empties cs)
      | _ \<Rightarrow> 0) + empties ps"
  by pat_completeness auto
termination
  by (relation "measure (size_list size)") (auto dest: Packet_children_smaller)

lemma empties_append: "empties (xs @ ys) = empties xs + empties ys"
  by (induction xs) simp_all

lemma empties_visible: "empties (visible ps) = empties ps"
  by (induction ps) (auto simp: skipped_def shapes split: Packet.splits)

lemmas visible_simps = tokens_visible expected_visible empties_visible

lemma tree_tokens:
  "message_tree ps \<Longrightarrow> forest_all plain_literal ps \<Longrightarrow> MessagePart (tokens_of ps) \<and> forest_all expected_packet ps \<and> empties ps = 0"
  "encrypted_tree ps \<Longrightarrow> forest_all plain_literal ps \<Longrightarrow> EncryptedPart (tokens_of ps) \<and> forest_all expected_packet ps \<and> empties ps = 0"
proof (induction rule: message_tree_encrypted_tree.inducts)
  case (seip_opaque s)
  then show ?case
    by (cases s) (auto simp: shapes intro: encrypted container_seipv1 container_seipv2 seipv1_opaque seipv2 [of "[Token.OpaqueContent]", simplified] message_opaque)
next
  case (seip1_message s1 cs ps m)
  have "forest_all plain_literal (visible cs)" using seip1_message(1,5) by (auto intro: plain_visible)
  then have ps: "MessagePart (tokens_of ps)" "forest_all expected_packet ps" "empties ps = 0"
    using seip1_message(2,4) by auto
  moreover have "tokens_of cs = tokens_of ps @ [Token.MDC]" "forest_all expected_packet cs" "empties cs = 0"
    unfolding visible_simps [of cs, symmetric] seip1_message(2) using ps by (simp_all add: tokens_append empties_append shapes)
  ultimately show ?case
    using seip1_message(1) by (auto simp: shapes intro!: encrypted container_seipv1 seipv1)
next
  case (seip2_message s2 cs)
  then have "forest_all plain_literal (visible cs)" by (auto intro: plain_visible)
  then show ?case using seip2_message
    by (auto simp: visible_simps shapes not_empty intro: encrypted container_seipv2 seipv2)
next
  case (compressed_message c cs)
  then have "forest_all plain_literal (visible cs)" by (auto intro: plain_visible)
  then show ?case using compressed_message
    by (auto simp: visible_simps shapes not_empty intro: message_compressed compressed)
next
  case (pkesk ps k)
  then show ?case by (auto simp: shapes enc_iff expand_enc_def)
next
  case (skesk ps k)
  then show ?case by (auto simp: shapes enc_iff expand_enc_def)
qed (auto simp: shapes tokens_append empties_append plain_literal_def
    intro: message_literal message_encrypted message_signed signed_sig signed_ops message_compressed compressed [of "[Token.OpaqueContent]", simplified] message_opaque)

lemma tokens_empty: "forest_all expected_packet ps \<Longrightarrow> list_all (\<lambda>p. \<not> skipped p) ps \<Longrightarrow> tokens_of ps = [] \<Longrightarrow> ps = []"
  by (cases ps) (auto elim!: expected_cases simp: shapes skipped_def)

text \<open>The last token of visible packets tells the last packet, unless it is the end of a container.\<close>

lemma tokens_last:
  assumes "forest_all expected_packet ps" "list_all (\<lambda>p. \<not> skipped p) ps" "tokens_of ps = m @ [t]" "t \<noteq> Token.Pop"
  shows "\<exists>ps' p. ps = ps' @ [p] \<and> shape p = Leaf t \<and> m = tokens_of ps'"
proof -
  obtain ps' p where ps: "ps = ps' @ [p]" using assms(3) by (cases ps rule: rev_cases) auto
  then have "expected_packet p" "\<not> skipped p" using assms(1,2) by auto
  then show ?thesis using assms(3,4) ps by (cases rule: expected_cases) (auto simp: shapes skipped_def tokens_append)
qed

definition inside :: "Packet \<Rightarrow> Token list" where
  "inside p = (case Packet_children p of None \<Rightarrow> [Token.OpaqueContent] | Some cs \<Rightarrow> tokens_of cs)"

text \<open>Packets of the sequences considered below: expected, and with nothing to skip.\<close>

definition proper :: "Packet list \<Rightarrow> bool" where
  "proper ps \<longleftrightarrow> forest_all expected_packet ps \<and> forest_all plain_literal ps \<and> list_all (\<lambda>p. \<not> skipped p) ps"

lemma proper_append [simp]: "proper (xs @ ys) \<longleftrightarrow> proper xs \<and> proper ys"
  by (auto simp: proper_def)

lemma proper_Cons: "proper (p # ps) \<Longrightarrow> expected_packet p \<and> \<not> skipped p \<and> proper ps"
  by (simp add: proper_def)

lemma proper_children: "proper (p # ps) \<Longrightarrow> Packet_children p = Some cs \<Longrightarrow> proper (visible cs)"
  by (auto simp: proper_def expected_visible list_all_iff intro: plain_visible)

lemma node_closed:
  assumes "proper (p # us)" "inside p @ [Token.Pop] @ tokens_of us = m @ x @ [Token.Pop]" "MessagePart m" "bal x = 0" "length x \<le> 1"
  shows "us = [] \<and> inside p = m @ x"
proof -
  have "bal (inside p) = 0"
    using assms(1) by (auto simp: inside_def proper_def bal_tokens delta_def container_token_def split: option.splits)
  from message_closed [OF this assms(2-5)] show ?thesis using tokens_empty [of us] assms(1) by (auto simp: proper_def)
qed

lemma inside_split:
  assumes "proper (p # us)" "inside p = m @ [t]" "t \<noteq> Token.Pop" "t \<noteq> Token.OpaqueContent"
  obtains cs ps q where "Packet_children p = Some cs" "visible cs = ps @ [q]" "shape q = Leaf t" "m = tokens_of ps"
proof -
  obtain cs where cs: "Packet_children p = Some cs" "tokens_of (visible cs) = m @ [t]"
    using assms(2,4) by (auto simp: inside_def tokens_visible split: option.splits)
  show ?thesis
    using tokens_last [of "visible cs" m t] proper_children [OF assms(1) cs(1)] cs assms(3) that by (auto simp: proper_def)
qed

lemma leaf_packet:
  "expected_packet q \<Longrightarrow> shape q = Leaf Token.SIG \<Longrightarrow> \<exists>s. q = Packet.Signature s"
  "expected_packet q \<Longrightarrow> shape q = Leaf Token.MDC \<Longrightarrow> \<exists>m. q = Packet.MDC m"
  by (auto elim!: expected_cases simp: shapes)

lemmas expansions = msg_iff expand_msg_def enc_iff expand_enc_def expand_container_def

lemma inside_opaque:
  assumes "proper (p # us)" "inside p = [Token.OpaqueContent]"
  shows "Packet_children p = None"
proof (rule ccontr)
  assume "Packet_children p \<noteq> None"
  then obtain cs where cs: "Packet_children p = Some cs" "tokens_of (visible cs) = [] @ [Token.OpaqueContent]"
    using assms(2) by (auto simp: inside_def tokens_visible)
  then obtain ps q where q: "visible cs = ps @ [q]" "shape q = Leaf Token.OpaqueContent"
    using tokens_last [OF _ _ cs(2)] proper_children [OF assms(1) cs(1)] by (auto simp: proper_def)
  then have "expected_packet q" using proper_children [OF assms(1) cs(1)] by (auto simp: proper_def)
  then show False using q(2) by (cases rule: expected_cases) (auto simp: shapes)
qed

lemma seip1_tree:
  assumes ok: "proper (Packet.SEIP (SEIP.V1 s) # us)" and part: "EncryptedPart (tokens_of (Packet.SEIP (SEIP.V1 s) # us))"
    and inner: "\<And>cs cs' x. Packet_children (Packet.SEIP (SEIP.V1 s)) = Some cs \<Longrightarrow> visible cs = cs' @ x \<Longrightarrow>
      MessagePart (tokens_of cs') \<Longrightarrow> message_tree cs'"
  shows "encrypted_tree (Packet.SEIP (SEIP.V1 s) # us)"
proof -
  let ?p = "Packet.SEIP (SEIP.V1 s)"
  have "Seipv1Part (Token.SEIPv1 # inside ?p @ [Token.Pop] @ tokens_of us)"
    using part by (auto simp: shapes enc_iff expand_enc_def expand_container_def inside_def)
  then consider (mdc) m where "inside ?p @ [Token.Pop] @ tokens_of us = m @ [Token.MDC] @ [Token.Pop]" "MessagePart m"
    | (opaque) "inside ?p @ [Token.Pop] @ tokens_of us = [Token.OpaqueContent] @ [] @ [Token.Pop]"
    by (auto simp: part_iffs)
  then show ?thesis
  proof cases
    case mdc
    then have closed: "us = []" "inside ?p = m @ [Token.MDC]"
      using node_closed [OF ok mdc] by (simp_all add: delta_def container_token_def)
    obtain cs ps q where q: "Packet_children ?p = Some cs" "visible cs = ps @ [q]" "shape q = Leaf Token.MDC" "m = tokens_of ps"
      using inside_split [OF ok closed(2)] by auto
    moreover obtain d where "q = Packet.MDC d"
      using leaf_packet(2) [OF _ q(3)] proper_children [OF ok q(1)] q(2) by (auto simp: proper_def)
    ultimately show ?thesis using inner [of cs ps "[q]"] mdc(2) closed(1) by (auto intro: message_tree_encrypted_tree.intros)
  next
    case opaque
    then have "us = []" "Packet_children ?p = None"
      using node_closed [OF ok opaque message_opaque] inside_opaque [OF ok] by simp_all
    then show ?thesis by (auto intro: message_tree_encrypted_tree.intros)
  qed
qed

lemma tokens_tree:
  "proper ps \<Longrightarrow> (MessagePart (tokens_of ps) \<longrightarrow> message_tree ps) \<and> (EncryptedPart (tokens_of ps) \<longrightarrow> encrypted_tree ps)"
proof (induction "length (tokens_of ps)" arbitrary: ps rule: less_induct)
  case less
  note IH = less(1)
  show ?case
  proof (cases ps)
    case (Cons p us)
    note ok = less(2) [unfolded Cons] note us = proper_Cons [OF ok]
    note empty = tokens_empty [of us]
    have rest: "(MessagePart (tokens_of us) \<longrightarrow> message_tree us) \<and> (EncryptedPart (tokens_of us) \<longrightarrow> encrypted_tree us)" if "shape p = Leaf t" for t
      using IH [of us] us Cons that by auto
    have inner: "message_tree cs'" if "Packet_children p = Some cs" "visible cs = cs' @ x" "shape p = Node t" "MessagePart (tokens_of cs')" for cs cs' x t
    proof -
      have "tokens_of cs = tokens_of cs' @ tokens_of x" using tokens_visible [of cs] that(2) by (simp add: tokens_append)
      then show ?thesis using IH [of cs'] that proper_children [OF ok that(1)] Cons by auto
    qed
    have contents: "message_tree (visible cs)" if "Packet_children p = Some cs" "shape p = Node t" "MessagePart (inside p)" for cs t
      using inner [of cs "visible cs" "[]" t] that by (simp add: inside_def tokens_visible)
    show ?thesis using us [THEN conjunct1]
    proof (cases rule: expected_cases)
      case (sig s)
      then show ?thesis using Cons rest by (auto simp: shapes expansions intro: message_tree_encrypted_tree.intros)
    next
      case (ops s)
      have "message_tree ps" if m: "tokens_of us = m @ [Token.SIG]" "MessagePart m" for m
      proof -
        obtain us' q where q: "us = us' @ [q]" "shape q = Leaf Token.SIG" "m = tokens_of us'"
          using tokens_last [of us m Token.SIG] us m(1) by (auto simp: proper_def)
        moreover have "message_tree us'" using IH [of us'] us q m(2) Cons ops by (auto simp: shapes tokens_append)
        ultimately show ?thesis using Cons ops leaf_packet(1) [of q] us by (auto simp: proper_def intro: message_tree_encrypted_tree.intros)
      qed
      then show ?thesis using Cons ops by (auto simp: shapes expansions)
    next
      case (literal l)
      then show ?thesis using Cons empty us by (auto simp: proper_def shapes expansions intro: message_tree_encrypted_tree.intros)
    next
      case (compressed c)
      have "message_tree ps" if "inside p @ [Token.Pop] @ tokens_of us = m @ [] @ [Token.Pop]" "MessagePart m" for m
        using node_closed [OF ok that] that(2) contents Cons compressed
        by (cases "Packet_children p") (auto simp: shapes intro: message_tree_encrypted_tree.intros)
      then show ?thesis using Cons compressed by (auto simp: shapes expansions inside_def)
    next
      case (seip1 s)
      have "EncryptedPart (tokens_of ps) \<longrightarrow> encrypted_tree ps"
        using seip1_tree [OF ok [unfolded seip1]] inner Cons seip1 by (auto simp: shapes)
      then show ?thesis
        using Cons seip1 by (auto simp: shapes msg_iff expand_msg_def enc_iff intro: encrypted_message)
    next
      case (seip2 s)
      have "encrypted_tree ps" if "inside p @ [Token.Pop] @ tokens_of us = m @ [] @ [Token.Pop]" "MessagePart m" for m
        using node_closed [OF ok that] that(2) contents Cons seip2
        by (cases "Packet_children p") (auto simp: shapes intro: message_tree_encrypted_tree.intros)
      then show ?thesis using Cons seip2 by (auto simp: shapes expansions inside_def intro: encrypted_message)
    next
      case (mdc m)
      then show ?thesis using Cons by (auto simp: shapes expansions)
    qed (use us Cons rest in \<open>auto simp: skipped_def shapes expansions intro: message_tree_encrypted_tree.intros\<close>)
  qed (simp add: not_empty)
qed

section \<open>The tokens of the validator\<close>

text \<open>
  What is pushed for a packet at a depth, and the tokens that come of a sequence of pushes: the ends of the containers
  that have been left are made up from the depths.
\<close>

definition pushes :: "nat \<times> Packet \<Rightarrow> (nat \<times> Token) list" where
  "pushes x =
     (case shape (snd x) of
        Skip \<Rightarrow> []
      | Leaf t \<Rightarrow> [(fst x, t)]
      | Node t \<Rightarrow> (fst x, t) # (if Packet_children (snd x) = None then [(Suc (fst x), Token.OpaqueContent)] else []))"

fun emit :: "nat \<Rightarrow> (nat \<times> Token) list \<Rightarrow> Token list" where
  "emit d0 [] = replicate d0 Token.Pop"
| "emit d0 ((d, t) # xs) = replicate (d0 - d) Token.Pop @ t # emit d xs"

definition events :: "nat \<Rightarrow> Packet list \<Rightarrow> (nat \<times> Token) list" where
  "events d ps = concat (map pushes (preorder d ps))"

lemma events_Nil [simp]: "events d [] = []"
  by (simp add: events_def)

lemma events_Cons:
  "events d (p # ps) = pushes (d, p) @ (case Packet_children p of None \<Rightarrow> [] | Some cs \<Rightarrow> events (Suc d) cs) @ events d ps"
  by (simp add: events_def split: option.splits)

abbreviation upto :: "nat \<Rightarrow> (nat \<times> Token) list \<Rightarrow> bool" where
  "upto d xs \<equiv> xs = [] \<or> fst (hd xs) \<le> d"

lemma emit_down: "upto d xs \<Longrightarrow> d \<le> d0 \<Longrightarrow> emit d0 xs = replicate (d0 - d) Token.Pop @ emit d xs"
  by (cases xs) (auto simp: replicate_add [symmetric])

lemma emit_up: "xs \<noteq> [] \<Longrightarrow> fst (hd xs) = Suc d \<Longrightarrow> emit d (xs @ ys) = emit (Suc d) (xs @ ys)"
  by (cases xs) auto

definition forest_ok :: "Packet list \<Rightarrow> bool" where
  "forest_ok ps \<longleftrightarrow> forest_all expected_packet ps \<and> forest_all plain_literal ps"

lemma forest_ok_Cons:
  assumes "forest_ok (p # ps)"
  obtains (skip) "shape p = Skip" "Packet_children p = None" "forest_ok ps"
    | (leaf) t where "shape p = Leaf t" "\<not> container_token t" "t \<noteq> Token.Pop" "Packet_children p = None" "forest_ok ps"
    | (opaque) t where "shape p = Node t" "container_token t" "Packet_children p = None" "forest_ok ps"
    | (node) t cs where "shape p = Node t" "container_token t" "Packet_children p = Some cs" "forest_ok cs" "forest_ok ps"
proof -
  have "expected_packet p" using assms by (simp add: forest_ok_def)
  then show ?thesis using assms that
    by (cases rule: expected_cases)
      (auto simp: forest_ok_def shapes container_token_def plain_literal_def split: option.splits)
qed

lemma events_hd: "forest_ok ps \<Longrightarrow> events d ps \<noteq> [] \<Longrightarrow> fst (hd (events d ps)) = d"
proof (induction ps)
  case (Cons p ps)
  from Cons(2) show ?case
    by (cases rule: forest_ok_Cons) (use Cons in \<open>auto simp: events_Cons pushes_def\<close>)
qed simp

lemma events_empty: "forest_ok ps \<Longrightarrow> events d ps = [] \<longleftrightarrow> tokens_of ps = []"
proof (induction ps)
  case (Cons p ps)
  from Cons(2) show ?case
    by (cases rule: forest_ok_Cons) (use Cons in \<open>auto simp: events_Cons pushes_def\<close>)
qed simp

lemma empties_none: "forest_ok ps \<Longrightarrow> tokens_of ps = [] \<Longrightarrow> empties ps = 0"
proof (induction ps)
  case (Cons p ps)
  from Cons(2) show ?case
    by (cases rule: forest_ok_Cons) (use Cons in auto)
qed simp

lemma upto_events: "forest_ok ps \<Longrightarrow> upto d xs \<Longrightarrow> upto d (events d ps @ xs)"
  using events_hd [of ps d] by (auto simp: hd_append)

lemma emit_node:
  assumes "upto d xs" "ys \<noteq> []" "fst (hd ys) = Suc d" "emit (Suc d) (ys @ xs) = w @ emit (Suc d) xs"
  shows "emit d ((d, t) # ys @ xs) = t # w @ [Token.Pop] @ emit d xs"
  using assms emit_up [of ys d xs] emit_down [of xs d "Suc d"] by simp

lemma emit_tokens:
  "forest_ok ps \<Longrightarrow> empties ps = 0 \<Longrightarrow> upto d xs \<Longrightarrow> emit d (events d ps @ xs) = tokens_of ps @ emit d xs"
proof (induction ps arbitrary: d xs rule: tokens_of.induct)
  case (2 p ps)
  have rest: "emit d (events d ps @ xs) = tokens_of ps @ emit d xs"
    using 2(2) [where d = d and xs = xs] 2(3-5) by (auto simp: forest_ok_def)
  have up: "upto d (events d ps @ xs)" using upto_events [of ps xs d] 2(3,5) by (auto simp: forest_ok_def)
  from 2(3) show ?case
  proof (cases rule: forest_ok_Cons)
    case (opaque t)
    then show ?thesis
      using emit_node [OF up, of "[(Suc d, Token.OpaqueContent)]" "[Token.OpaqueContent]" t] rest
      by (simp add: events_Cons pushes_def)
  next
    case (node t cs)
    have cs: "empties cs = 0" "tokens_of cs \<noteq> []" using 2(4) node by (auto split: if_splits)
    have "emit (Suc d) (events (Suc d) cs @ events d ps @ xs) = tokens_of cs @ emit (Suc d) (events d ps @ xs)"
      using 2(1) [of t cs] node cs up by auto
    then have "emit d ((d, t) # events (Suc d) cs @ events d ps @ xs) = t # tokens_of cs @ [Token.Pop] @ emit d (events d ps @ xs)"
      using emit_node [OF up, of "events (Suc d) cs"] events_empty [of cs] events_hd [of cs] node(4) cs(2) by simp
    then show ?thesis using node rest by (simp add: events_Cons pushes_def)
  qed (use rest in \<open>simp_all add: events_Cons pushes_def\<close>)
qed simp

lemma bal_emit:
  "forest_ok ps \<Longrightarrow> upto d xs \<Longrightarrow> bal (emit d (events d ps @ xs)) = int (empties ps) + bal (emit d xs)"
proof (induction ps arbitrary: d xs rule: tokens_of.induct)
  case (2 p ps)
  have rest: "bal (emit d (events d ps @ xs)) = int (empties ps) + bal (emit d xs)"
    using 2(2) [where d = d and xs = xs] 2(3,4) by (auto simp: forest_ok_def)
  have up: "upto d (events d ps @ xs)" using upto_events [of ps xs d] 2(3,4) by (auto simp: forest_ok_def)
  from 2(3) show ?case
  proof (cases rule: forest_ok_Cons)
    case (leaf t)
    then show ?thesis using rest by (simp add: events_Cons pushes_def delta_def)
  next
    case (opaque t)
    then show ?thesis
      using emit_node [OF up, of "[(Suc d, Token.OpaqueContent)]" "[Token.OpaqueContent]" t] rest
      by (simp add: events_Cons pushes_def delta_def container_token_def)
  next
    case (node t cs)
    have inner: "bal (emit (Suc d) (events (Suc d) cs @ events d ps @ xs)) = int (empties cs) + bal (emit (Suc d) (events d ps @ xs))"
      using 2(1) [of t cs] node up by auto
    show ?thesis
    proof (cases "tokens_of cs = []")
      case True
      then have "empties cs = 0" using empties_none [OF node(4)] by simp
      then show ?thesis using True node rest events_empty [of cs "Suc d"] by (simp add: events_Cons pushes_def delta_def)
    next
      case False
      then have "emit d (events (Suc d) cs @ events d ps @ xs) = emit (Suc d) (events (Suc d) cs @ events d ps @ xs)"
        using emit_up events_empty [of cs "Suc d"] events_hd [of cs "Suc d"] node(4) by simp
      then show ?thesis using inner node rest False emit_down [OF up, of "Suc d"]
        by (simp add: events_Cons pushes_def delta_def)
    qed
  qed (use rest in \<open>simp_all add: events_Cons pushes_def\<close>)
qed simp

definition ready :: "nat \<Rightarrow> MessageValidator \<Rightarrow> bool" where
  "ready d v \<longleftrightarrow> \<not> mv_finished v \<and> mv_depth v = Some (int d) \<and> mv_error v = None"

lemma push_token_ready:
  assumes "ready d0 v" "length path = Suc d" "t \<noteq> Token.Pop"
  obtains v' where "push_token t path v = Inr v'" "ready d v'" "mv_tokens v' = mv_tokens v @ replicate (d0 - d) Token.Pop @ [t]"
proof (rule that)
  show "push_token t path v = Inr (v\<lparr>mv_tokens := mv_tokens v @ replicate (d0 - d) Token.Pop @ [t], mv_depth := Some (int d)\<rparr>)"
    using assms by (auto simp: push_token_def ready_def Let_def nat_diff_distrib)
qed (use assms in \<open>simp_all add: ready_def\<close>)

lemma push_class:
  "expected_packet p \<Longrightarrow> mv_error v = None \<Longrightarrow>
   MessageValidator_push (Packet_tag p) (Packet_version p) path v
   = (case shape p of Skip \<Rightarrow> Inr v | Leaf t \<Rightarrow> push_token t path v | Node t \<Rightarrow> push_token t path v)"
  by (erule expected_cases)
    (simp_all add: MessageValidator_push_def shapes classify_def Packet_version_def SEIP_version_def)

lemma push_contents_shape:
  "expected_packet p \<Longrightarrow> push_contents path p v
   = (case shape p of
        Node t \<Rightarrow> if Packet_children p = None then push_token Token.OpaqueContent (path @ [0]) v else Inr v
      | _ \<Rightarrow> Inr v)"
  by (erule expected_cases) (simp_all add: push_contents_def shapes)

lemma shape_token: "expected_packet p \<Longrightarrow> shape p = Leaf t \<or> shape p = Node t \<Longrightarrow> t \<noteq> Token.Pop"
  by (erule expected_cases) (auto simp: shapes)

lemma push_packet_ready:
  assumes "ready d0 v" "length path = Suc d" "expected_packet p"
  obtains v' d' where
    "and_then (MessageValidator_push (Packet_tag p) (Packet_version p) path v) (push_contents path p) = Inr v'" "ready d' v'"
    "\<And>xs. mv_tokens v @ emit d0 (pushes (d, p) @ xs) = mv_tokens v' @ emit d' xs"
proof (cases "shape p")
  case Skip
  then show ?thesis
    using that [of v d0] assms by (simp add: push_class push_contents_shape ready_def pushes_def)
next
  case (Leaf t)
  obtain v' where "push_token t path v = Inr v'" "ready d v'" "mv_tokens v' = mv_tokens v @ replicate (d0 - d) Token.Pop @ [t]"
    using push_token_ready [OF assms(1,2)] shape_token [OF assms(3)] Leaf by metis
  then show ?thesis
    using that [of v' d] Leaf assms by (simp add: push_class push_contents_shape ready_def pushes_def)
next
  case (Node t)
  obtain v1 where v1: "push_token t path v = Inr v1" "ready d v1" "mv_tokens v1 = mv_tokens v @ replicate (d0 - d) Token.Pop @ [t]"
    using push_token_ready [OF assms(1,2)] shape_token [OF assms(3)] Node by metis
  obtain v2 where v2: "push_token Token.OpaqueContent (path @ [0]) v1 = Inr v2" "ready (Suc d) v2" "mv_tokens v2 = mv_tokens v1 @ [Token.OpaqueContent]"
    using push_token_ready [OF v1(2), of "path @ [0]" "Suc d" Token.OpaqueContent] assms(2) by auto
  show ?thesis
  proof (cases "Packet_children p = None")
    case True
    then show ?thesis
      using that [of v2 "Suc d"] Node assms v1 v2 by (simp add: push_class push_contents_shape ready_def pushes_def)
  next
    case False
    then obtain cs where "Packet_children p = Some cs" by auto
    then show ?thesis
      using that [of v1 d] Node assms v1 by (simp add: push_class push_contents_shape ready_def pushes_def)
  qed
qed

lemma push_packets_Cons:
  "expected_packet p \<Longrightarrow> push_packets ((path, p) # xs) v =
   and_then (and_then (MessageValidator_push (Packet_tag p) (Packet_version p) path v) (push_contents path p)) (push_packets xs)"
  by (erule expected_cases) (simp_all add: and_then_assoc)

abbreviation with_depth :: "nat list \<times> Packet \<Rightarrow> nat \<times> Packet" where
  "with_depth x \<equiv> (length (fst x) - 1, snd x)"

lemma push_packets_expected:
  "ready d0 v \<Longrightarrow> list_all (\<lambda>(path, p). path \<noteq> [] \<and> expected_packet p) xs \<Longrightarrow>
   \<exists>v' d'. push_packets xs v = Inr (Inr v') \<and> ready d' v'
     \<and> mv_tokens v' @ replicate d' Token.Pop = mv_tokens v @ emit d0 (concat (map (pushes \<circ> with_depth) xs))"
proof (induction xs arbitrary: v d0)
  case (Cons x xs)
  obtain path p where x: "x = (path, p)" by force
  then obtain d where d: "length path = Suc d" "expected_packet p" using Cons(3) by (cases path) auto
  obtain v1 d1 where v1: "and_then (MessageValidator_push (Packet_tag p) (Packet_version p) path v) (push_contents path p) = Inr v1" "ready d1 v1"
    "\<And>xs. mv_tokens v @ emit d0 (pushes (d, p) @ xs) = mv_tokens v1 @ emit d1 xs"
    using push_packet_ready [OF Cons(2) d] by metis
  then show ?case using Cons(1) [OF v1(2)] Cons(3) x d by (simp add: push_packets_Cons del: push_packets.simps(2))
qed auto

lemma push_packets_error:
  "mv_error v \<noteq> None \<Longrightarrow> \<not> mv_finished v \<Longrightarrow> mv_depth v \<noteq> None \<Longrightarrow> list_all (\<lambda>(path, p). path \<noteq> []) xs \<Longrightarrow>
   push_packets xs v = Inr (Inr v) \<or> (\<exists>e. push_packets xs v = Inr (Inl e))"
proof (induction xs)
  case (Cons x xs)
  obtain path p where "x = (path, p)" by force
  then show ?case using Cons by (cases p) (auto simp: MessageValidator_push_def push_contents_def push_token_def)
qed simp

lemma push_packets_unexpected:
  "ready d0 v \<Longrightarrow> list_all (\<lambda>(path, p). path \<noteq> []) xs \<Longrightarrow> \<not> list_all (\<lambda>(path, p). expected_packet p) xs \<Longrightarrow>
   (\<exists>v'. push_packets xs v = Inr (Inr v') \<and> mv_error v' \<noteq> None \<and> \<not> mv_finished v') \<or> (\<exists>e. push_packets xs v = Inr (Inl e))"
proof (induction xs arbitrary: v d0)
  case (Cons x xs)
  obtain path p where x: "x = (path, p)" by force
  show ?case
  proof (cases "expected_packet p")
    case True
    obtain d where d: "length path = Suc d" using Cons(3) x by (cases path) auto
    obtain v1 d1 where "and_then (MessageValidator_push (Packet_tag p) (Packet_version p) path v) (push_contents path p) = Inr v1" "ready d1 v1"
      using push_packet_ready [OF Cons(2) d True] by metis
    then show ?thesis using Cons x True by (simp add: push_packets_Cons del: push_packets.simps(2))
  next
    case False
    then show ?thesis
      using Cons(2,3) x push_packets_error [of "v\<lparr>mv_error := Some (OpenPGP MalformedMessage), mv_tokens := []\<rparr>" xs]
      by (cases p) (auto simp: expected_packet_def packet_class_def MessageValidator_push_def push_contents_def ready_def
          structured_container_def classify_def Packet_version_def SEIP_version_def split: packet_role.splits SEIP.splits)
  qed
qed simp

lemma walk_depths: "map with_depth (walk pre i ps) = preorder (length pre) ps"
proof (induction pre i ps rule: walk.induct)
  case (2 pre i p ps)
  then show ?case by (auto split: option.splits)
qed simp

lemma walk_packets:
  "list_all (\<lambda>(path, p). path \<noteq> []) (walk pre i ps)"
  "list_all (\<lambda>(path, p). expected_packet p) (walk [] 0 ps) \<longleftrightarrow> forest_all expected_packet ps"
proof -
  show "list_all (\<lambda>(path, p). path \<noteq> []) (walk pre i ps)"
    using walk_path_ref by (fastforce simp: list_all_iff)
  have "list_all (\<lambda>(path, p). expected_packet p) (walk [] 0 ps) \<longleftrightarrow> list_all expected_packet (map snd (walk [] 0 ps))"
    by (induction "walk [] 0 ps") (auto simp: list_all_iff)
  then show "list_all (\<lambda>(path, p). expected_packet p) (walk [] 0 ps) \<longleftrightarrow> forest_all expected_packet ps"
    by (simp add: forest_all_def map_snd_walk [of "[]" 0 ps 0])
qed

lemma new_ready: "ready 0 MessageValidator_new"
  by (simp add: ready_def MessageValidator_new_def)

lemma Message_try_from_walk:
  "Message_try_from parse (PacketPile_from ps) =
   and_then (push_packets (walk [] 0 ps) MessageValidator_new) (\<lambda>r.
     case r of
       Inl e \<Rightarrow> Inr (Inl e)
     | Inr v \<Rightarrow>
         and_then (MessageValidator_finish v) (\<lambda>v.
           case MessageValidator_check parse v of
             MessageValidity.Message \<Rightarrow> Inr (Inr (PacketPile_from ps))
           | MessageValidity.MessagePrefix \<Rightarrow> Inl Panic
           | MessageValidity.Error e \<Rightarrow> Inr (Inl e)))"
  by (simp add: Message_try_from_def paths_walk)

lemma try_from_unexpected:
  assumes "\<not> forest_all expected_packet ps"
  shows "\<exists>e. Message_try_from parse (PacketPile_from ps) = Inr (Inl e)"
  using push_packets_unexpected [OF new_ready walk_packets(1), of "[]" 0 ps] assms
  by (auto simp: walk_packets Message_try_from_walk MessageValidator_finish_def MessageValidator_check_def)

lemma try_from_expected:
  assumes "forest_all expected_packet ps"
  shows "Message_try_from parse (PacketPile_from ps)
    = (case parse (emit 0 (events 0 ps)) of Accepted \<Rightarrow> Inr (Inr (PacketPile_from ps)) | e \<Rightarrow> Inr (Inl (Parser e)))"
proof -
  have "list_all (\<lambda>(path, p). path \<noteq> [] \<and> expected_packet p) (walk [] 0 ps)"
    using walk_packets(1) [of "[]" 0 ps] walk_packets(2) [of ps] assms by (auto simp: list_all_iff)
  then obtain v d where v: "push_packets (walk [] 0 ps) MessageValidator_new = Inr (Inr v)" "ready d v"
    "mv_tokens v @ replicate d Token.Pop = mv_tokens MessageValidator_new @ emit 0 (concat (map (pushes \<circ> with_depth) (walk [] 0 ps)))"
    using push_packets_expected [OF new_ready] by blast
  moreover have "concat (map (pushes \<circ> with_depth) (walk [] 0 ps)) = events 0 ps"
    using walk_depths [of "[]" 0 ps] by (simp add: events_def map_map [symmetric] del: map_map)
  ultimately have "mv_tokens v @ replicate d Token.Pop = emit 0 (events 0 ps)" by (simp add: MessageValidator_new_def)
  then show ?thesis using v
    by (simp add: Message_try_from_walk ready_def MessageValidator_finish_def MessageValidator_check_def Let_def split: parse_outcome.splits)
qed

context message_parser
begin

lemma try_from_tree:
  assumes "forest_all plain_literal ps"
  shows "if message_tree (visible ps) then Message_try_from parse (PacketPile_from ps) = Inr (Inr (PacketPile_from ps))
    else \<exists>e. Message_try_from parse (PacketPile_from ps) = Inr (Inl e)"
proof (cases "forest_all expected_packet ps")
  case True
  then have ok: "forest_ok ps" using assms by (simp add: forest_ok_def)
  have proper: "proper (visible ps)" using assms True by (auto simp: proper_def expected_visible list_all_iff intro: plain_visible)
  have "MessagePart (emit 0 (events 0 ps)) \<longleftrightarrow> message_tree (visible ps)"
  proof
    assume part: "MessagePart (emit 0 (events 0 ps))"
    then have "empties ps = 0" using message_balance(1) bal_emit [OF ok, of "[]" 0] by fastforce
    then have "MessagePart (tokens_of (visible ps))" using part emit_tokens [OF ok, of "[]" 0] by (simp add: tokens_visible)
    then show "message_tree (visible ps)" using tokens_tree [OF proper] by blast
  next
    assume "message_tree (visible ps)"
    then show "MessagePart (emit 0 (events 0 ps))"
      using tree_tokens(1) [of "visible ps"] plain_visible [OF assms] emit_tokens [OF ok, of "[]" 0] by (auto simp: visible_simps)
  qed
  then show ?thesis
    using accepts [of "emit 0 (events 0 ps)"] by (auto simp: try_from_expected [OF True] split: parse_outcome.splits)
next
  case False
  then have "\<not> message_tree (visible ps)" using tree_tokens(1) [of "visible ps"] plain_visible [OF assms] by (auto simp: expected_visible)
  then show ?thesis using try_from_unexpected [OF False] by simp
qed

end

text \<open>
  C10. A pile of packets converts to a message if and only if it has the structure of one, marker and padding packets
  aside; otherwise the conversion returns an error and does not panic. The hypotheses are the contract of the
  generated parser, and that literal data packets have octets for contents.
\<close>

theorem message_try_from_iff:
  assumes "message_parser parse" "forest_all plain_literal ps"
  shows "(Message_try_from parse (PacketPile_from ps) = Inr (Inr (PacketPile_from ps)) \<longleftrightarrow> message_tree (visible ps))
    \<and> ((\<exists>e. Message_try_from parse (PacketPile_from ps) = Inr (Inl e)) \<longleftrightarrow> \<not> message_tree (visible ps))"
  using message_parser.try_from_tree [OF assms] by (auto split: if_splits)

theorem message_try_from_iff_witness:
  "Message_try_from (recognise [Msg])
     (PacketPile_from [Packet.Marker, Packet.CompressedData (CompressedData.CompressedData CompressionAlgorithm.Zip
        (Structured [Packet.Literal (Literal_new DataFormat.Binary), Packet.Padding [1]]))])
   = Inr (Inr (PacketPile_from [Packet.Marker, Packet.CompressedData (CompressedData.CompressedData CompressionAlgorithm.Zip
        (Structured [Packet.Literal (Literal_new DataFormat.Binary), Packet.Padding [1]]))]))"
proof -
  let ?inner = "[Packet.Literal (Literal_new DataFormat.Binary), Packet.Padding [1]]"
  let ?c = "CompressedData.CompressedData CompressionAlgorithm.Zip (Structured ?inner)"
  have children: "Packet_children (Packet.CompressedData ?c) = Some ?inner" "Packet_children (Packet.Literal (Literal_new DataFormat.Binary)) = None"
    by (simp_all add: Packet_children_def Packet_container_def Literal_new_def Container_default_unprocessed_def Container_children_def)
  have "message_tree (visible [Packet.Marker, Packet.CompressedData ?c])"
    using message_tree_encrypted_tree.compressed_message [OF children(1)] message_tree_encrypted_tree.literal by (simp add: skipped_def)
  moreover have "forest_all plain_literal [Packet.Marker, Packet.CompressedData ?c]"
    by (simp add: children plain_literal_def)
  ultimately show ?thesis
    using message_try_from_iff [OF recogniser.message_parser_axioms] by blast
qed

text \<open>
  While packets are still pushed, the validator answers that the packets seen are the beginning of a message if
  and only if a message starts with them, and never that they are one; every other answer is an error. After \<open>finish\<close>
  it answers that they are a message if and only if they are one.
\<close>

theorem validator_check_iff:
  assumes "message_parser parse" "mv_error v = None"
  shows "if mv_finished v
    then (MessageValidator_check parse v = MessageValidity.Message \<longleftrightarrow> MessagePart (mv_tokens v))
      \<and> MessageValidator_check parse v \<noteq> MessageValidity.MessagePrefix
    else (MessageValidator_check parse v = MessageValidity.MessagePrefix \<longleftrightarrow> (\<exists>us. MessagePart (mv_tokens v @ us)))
      \<and> MessageValidator_check parse v \<noteq> MessageValidity.Message"
proof -
  have "MessagePart w \<Longrightarrow> \<exists>us. MessagePart (w @ us)" for w by (metis append_Nil2)
  then show ?thesis
    using message_parser.accepts [OF assms(1), of "mv_tokens v"] message_parser.prefixes [OF assms(1), of "mv_tokens v"] assms(2)
    by (auto simp: MessageValidator_check_def Let_def split: parse_outcome.splits)
qed

theorem validator_check_iff_witness:
  "MessageValidator_check (recognise [Msg]) (MessageValidator_new\<lparr>mv_tokens := [Token.OPS, Token.Literal]\<rparr>) = MessageValidity.MessagePrefix
   \<and> MessageValidator_check (recognise [Msg]) (MessageValidator_new\<lparr>mv_tokens := [Token.OPS, Token.Literal], mv_finished := True\<rparr>)
     \<noteq> MessageValidity.Message"
proof -
  have "recognise [Msg] [Token.OPS, Token.Literal, Token.SIG] = Accepted" "recognise [Msg] [Token.OPS, Token.Literal] \<noteq> Accepted"
    by (simp_all add: expand_def expand_msg_def)
  then have part: "\<exists>us. MessagePart ([Token.OPS, Token.Literal] @ us)" "\<not> MessagePart [Token.OPS, Token.Literal]"
    using recogniser.accepts by (metis append_Cons append_Nil)+
  have "MessageValidator_check (recognise [Msg]) (MessageValidator_new\<lparr>mv_tokens := [Token.OPS, Token.Literal]\<rparr>) = MessageValidity.MessagePrefix"
    using validator_check_iff [OF recogniser.message_parser_axioms, of "MessageValidator_new\<lparr>mv_tokens := [Token.OPS, Token.Literal]\<rparr>"] part(1)
    by (simp add: MessageValidator_new_def)
  moreover have "MessageValidator_check (recognise [Msg]) (MessageValidator_new\<lparr>mv_tokens := [Token.OPS, Token.Literal], mv_finished := True\<rparr>)
      \<noteq> MessageValidity.Message"
    using validator_check_iff [OF recogniser.message_parser_axioms,
        of "MessageValidator_new\<lparr>mv_tokens := [Token.OPS, Token.Literal], mv_finished := True\<rparr>"] part(2)
    by (simp add: MessageValidator_new_def)
  ultimately show ?thesis ..
qed

text \<open>
  A packet that is unknown but not critical is ignored by the validator, as the standard asks for, but the
  conversion of a pile rejects every message with such a packet.
\<close>

theorem unknown_packet_rejected:
  assumes "\<not> is_critical (unk_tag u)" "unk_tag u \<notin> {Tag.Literal, Tag.CompressedData, Tag.SKESK, Tag.PKESK, Tag.SEIP, Tag.MDC, Tag.AED, Tag.OnePassSig, Tag.Signature}"
  shows "MessageValidator_push (unk_tag u) (Packet_version (Packet.Unknown u)) path v = Inr v
    \<and> (\<exists>e. Message_try_from parse (PacketPile_from (ps @ Packet.Unknown u # qs)) = Inr (Inl e))"
proof
  show "MessageValidator_push (unk_tag u) (Packet_version (Packet.Unknown u)) path v = Inr v"
    using assms by (auto simp: MessageValidator_push_def classify_def Packet_version_def)
  show "\<exists>e. Message_try_from parse (PacketPile_from (ps @ Packet.Unknown u # qs)) = Inr (Inl e)"
    by (rule try_from_unexpected) (simp add: expected_packet_def)
qed

theorem unknown_packet_rejected_witness:
  "\<exists>e. Message_try_from (recognise [Msg]) (PacketPile_from ([Packet.Literal (Literal_new DataFormat.Binary)] @
     Packet.Unknown (UnknownPacket_new (Tag.Unknown 40) (Err (UnsupportedPacketType (Tag.Unknown 40)))) # [])) = Inr (Inl e)"
  using unknown_packet_rejected [of "UnknownPacket_new (Tag.Unknown 40) (Err (UnsupportedPacketType (Tag.Unknown 40)))" "[]" MessageValidator_new
    "recognise [Msg]" "[Packet.Literal (Literal_new DataFormat.Binary)]" "[]"]
  by (simp add: UnknownPacket_new_def is_critical_def)

end
