(* ===== verification/Cleartext.thy ===== *)
theory Cleartext
  imports Signatures
begin

text \<open>
  Text in signatures: hashing with line endings normalised on the fly (\<open>parse/hashed_reader.rs\<close>), and the two filters
  through which a message of the cleartext signature framework is written, which trim white space at the end of lines and
  escape dashes (\<open>serialize/stream/trim_whitespace.rs\<close>, \<open>serialize/stream/dash_escape.rs\<close>), with the reader that undoes
  them (\<open>read_clearsigned_message\<close> of \<open>armor.rs\<close>).

  A hash context is the octets hashed so far, and the sink of a filter the sequence of the writes it got.
\<close>

abbreviation LF :: u8 where
  "LF \<equiv> 10"

abbreviation CR :: u8 where
  "CR \<equiv> 13"

section \<open>Hashing modes\<close>

datatype 'h HashingMode = Binary bytes 'h | Text bytes 'h | TextLastWasCr bytes 'h

definition HashingMode_eq :: "'h HashingMode \<Rightarrow> 'h HashingMode \<Rightarrow> bool" where
  "HashingMode_eq a b =
     (case (a, b) of
        (Binary salt_s s, Binary salt_o t) \<Rightarrow> salt_s = salt_o \<and> s = t
      | (Text salt_s s, Text salt_o t) \<Rightarrow> salt_s = salt_o \<and> s = t
      | (TextLastWasCr salt_s s, Text salt_o t) \<Rightarrow> salt_s = salt_o \<and> s = t
      | (Text salt_s s, TextLastWasCr salt_o t) \<Rightarrow> salt_s = salt_o \<and> s = t
      | (TextLastWasCr salt_s s, TextLastWasCr salt_o t) \<Rightarrow> salt_s = salt_o \<and> s = t
      | _ \<Rightarrow> False)"

definition HashingMode_map :: "('h \<Rightarrow> 'g) \<Rightarrow> 'h HashingMode \<Rightarrow> 'g HashingMode" where
  "HashingMode_map f mode =
     (case mode of
        Binary salt1 t \<Rightarrow> Binary salt1 (f t)
      | Text salt1 t \<Rightarrow> Text salt1 (f t)
      | TextLastWasCr salt1 t \<Rightarrow> TextLastWasCr salt1 (f t))"

definition HashingMode_mapf :: "('h \<Rightarrow> 'g res) \<Rightarrow> 'h HashingMode \<Rightarrow> 'g HashingMode res" where
  "HashingMode_mapf f mode =
     (case mode of
        Binary salt1 t \<Rightarrow> and_then (f t) (\<lambda>u. Inr (Binary salt1 u))
      | Text salt1 t \<Rightarrow> and_then (f t) (\<lambda>u. Inr (Text salt1 u))
      | TextLastWasCr salt1 t \<Rightarrow> and_then (f t) (\<lambda>u. Inr (TextLastWasCr salt1 u)))"

definition HashingMode_salt :: "'h HashingMode \<Rightarrow> bytes" where
  "HashingMode_salt mode = (case mode of Binary salt1 _ \<Rightarrow> salt1 | Text salt1 _ \<Rightarrow> salt1 | TextLastWasCr salt1 _ \<Rightarrow> salt1)"

definition HashingMode_into_inner :: "'h HashingMode \<Rightarrow> 'h" where
  "HashingMode_into_inner mode = (case mode of Binary _ t \<Rightarrow> t | Text _ t \<Rightarrow> t | TextLastWasCr _ t \<Rightarrow> t)"

definition for_salt_and_type :: "'h \<Rightarrow> bytes \<Rightarrow> SignatureType \<Rightarrow> 'h HashingMode" where
  "for_salt_and_type t salt1 type1 = (if type1 = SignatureType.Text then Text salt1 t else Binary salt1 t)"

text \<open>
  The search for the next line ending: what is hashed, how much of the line is consumed (nothing, if there is no line
  ending), and whether a line feed still belongs to the carriage return before the data.
\<close>

fun scan_line :: "bytes \<Rightarrow> nat \<Rightarrow> bytes \<Rightarrow> bool \<Rightarrow> (bytes \<times> nat \<times> bool) res" where
  "scan_line line i [] last_was_cr = Inr ([], 0, last_was_cr)"
| "scan_line line i (c # rest) last_was_cr =
     (if c = LF \<and> last_was_cr then if i \<noteq> 0 then Inl Panic else Inr ([], 1, last_was_cr)
      else if c = CR \<or> c = LF then
        Inr (take i line @ [CR, LF],
             if c = CR \<and> i + 1 < length line \<and> line ! (i + 1) = LF then i + 1 + 1 else i + 1,
             last_was_cr)
      else scan_line line (i + 1) rest False)"

function text_loop :: "bytes \<Rightarrow> bool \<Rightarrow> bytes \<Rightarrow> bytes res" where
  "text_loop line last_was_cr h =
     (if line = [] then Inr h
      else
        and_then (scan_line line 0 line last_was_cr) (\<lambda>(out, n, last_was_cr).
          if n > 0 then text_loop (drop n line) last_was_cr (h @ out) else Inr (h @ line)))"
  by pat_completeness auto
termination
  by (relation "measure (\<lambda>(line, _, _). length line)") auto

declare text_loop.simps [simp del]

definition HashingMode_update :: "bytes \<Rightarrow> bytes HashingMode \<Rightarrow> bytes HashingMode res" where
  "HashingMode_update data mode =
     (if data = [] then Inr mode
      else
        (case mode of
           Binary salt1 h \<Rightarrow> Inr (Binary salt1 (h @ data))
         | Text salt1 h \<Rightarrow>
             and_then (text_loop data False h) (\<lambda>h. Inr (if last data = CR then TextLastWasCr salt1 h else Text salt1 h))
         | TextLastWasCr salt1 h \<Rightarrow>
             and_then (text_loop data True h) (\<lambda>h. Inr (if last data = CR then TextLastWasCr salt1 h else Text salt1 h))))"

section \<open>Filters\<close>

text \<open>\<open>split\<close> on line feeds: the lines without them, always at least one.\<close>

fun split_lf :: "bytes \<Rightarrow> bytes list" where
  "split_lf [] = [[]]"
| "split_lf (b # bs) = (if b = LF then [] # split_lf bs else (case split_lf bs of l # ls \<Rightarrow> (b # l) # ls | [] \<Rightarrow> [[b]]))"

record line_filter =
  lf_inner :: "bytes list"
  lf_buffer :: bytes
  lf_position :: u64

text \<open>\<open>write_all\<close> does not write when there is nothing to write.\<close>

definition write_all :: "bytes \<Rightarrow> bytes list \<Rightarrow> bytes list" where
  "write_all buf inner = (if buf = [] then inner else inner @ [buf])"

definition DashEscapeFilter_new :: "bytes list \<Rightarrow> line_filter" where
  "DashEscapeFilter_new inner = \<lparr>lf_inner = inner, lf_buffer = [], lf_position = 0\<rparr>"

definition dash_escape_line :: "bytes \<Rightarrow> bytes list \<Rightarrow> bytes list" where
  "dash_escape_line l inner =
     write_all l
       (if take 1 l = [0x2D] \<or> take 5 l = [0x46, 0x72, 0x6F, 0x6D, 0x20] then write_all [0x2D, 0x20] inner else inner)"

definition DashEscapeFilter_write_out :: "bytes \<Rightarrow> bool \<Rightarrow> line_filter \<Rightarrow> line_filter" where
  "DashEscapeFilter_write_out other finished f =
     (let ls = split_lf (lf_buffer f @ other);
          inner = fold (\<lambda>l inner. write_all [LF] (dash_escape_line l inner)) (butlast ls) (lf_inner f) in
      if finished then f\<lparr>lf_inner := dash_escape_line (last ls) inner, lf_buffer := []\<rparr>
      else f\<lparr>lf_inner := inner, lf_buffer := last ls\<rparr>)"

definition DashEscapeFilter_write :: "bytes \<Rightarrow> line_filter \<Rightarrow> line_filter" where
  "DashEscapeFilter_write buf f =
     (let f = DashEscapeFilter_write_out buf False f in f\<lparr>lf_position := lf_position f + word_of_nat (length buf)\<rparr>)"

definition DashEscapeFilter_into_inner :: "line_filter \<Rightarrow> bytes list" where
  "DashEscapeFilter_into_inner f = lf_inner (DashEscapeFilter_write_out [] True f)"

definition TrailingWSFilter_new :: "bytes list \<Rightarrow> line_filter" where
  "TrailingWSFilter_new inner = \<lparr>lf_inner = inner, lf_buffer = [], lf_position = 0\<rparr>"

text \<open>Spaces and tabs at the end of a line are trimmed, octet by octet.\<close>

function trim :: "bytes \<Rightarrow> bytes" where
  "trim l = (if l \<noteq> [] \<and> (last l = 0x20 \<or> last l = 0x09) then trim (butlast l) else l)"
  by pat_completeness auto
termination
  by (relation "measure length") auto

declare trim.simps [simp del]

definition trim_line :: "bytes \<Rightarrow> bytes list \<Rightarrow> bytes list" where
  "trim_line l inner =
     (let crlf_line_end = (l \<noteq> [] \<and> last l = CR);
          l = (if crlf_line_end then butlast l else l);
          inner = write_all (trim l) inner in
      if crlf_line_end then write_all [CR, LF] inner else write_all [LF] inner)"

definition TrailingWSFilter_write_out :: "bytes \<Rightarrow> bool \<Rightarrow> line_filter \<Rightarrow> line_filter" where
  "TrailingWSFilter_write_out other finished f =
     (let ls = split_lf (lf_buffer f @ other);
          inner = fold trim_line (butlast ls) (lf_inner f) in
      f\<lparr>lf_inner := (if finished then write_all (trim (last ls)) inner else inner), lf_buffer := last ls\<rparr>)"

definition TrailingWSFilter_write :: "bytes \<Rightarrow> line_filter \<Rightarrow> line_filter" where
  "TrailingWSFilter_write buf f =
     (let f = TrailingWSFilter_write_out buf False f in f\<lparr>lf_position := lf_position f + word_of_nat (length buf)\<rparr>)"

definition TrailingWSFilter_into_inner :: "line_filter \<Rightarrow> bytes list" where
  "TrailingWSFilter_into_inner f = lf_inner (TrailingWSFilter_write_out [] True f)"

section \<open>Reading the framework\<close>

text \<open>The characters of the category of dashes, and the dashes at the start of octets in UTF-8.\<close>

definition dashes :: "int list" where
  "dashes =
     [0x002D, 0x058A, 0x05BE, 0x1400, 0x1806, 0x2010, 0x2011, 0x2012, 0x2013, 0x2014, 0x2015, 0x2E17, 0x2E1A, 0x2E3A, 0x2E3B, 0x2E40,
      0x301C, 0x3030, 0x30A0, 0xFE31, 0xFE32, 0xFE58, 0xFE63, 0xFF0D]"

text \<open>The encoding of a code point below \<open>0x10000\<close> in UTF-8.\<close>

definition utf8 :: "int \<Rightarrow> bytes" where
  "utf8 c =
     map word_of_int
       (if c < 0x80 then [c]
        else if c < 0x800 then [0xC0 + c div 0x40, 0x80 + c mod 0x40]
        else [0xE0 + c div 0x1000, 0x80 + c div 0x40 mod 0x40, 0x80 + c mod 0x40])"

definition encoded_dashes :: "bytes list" where
  "encoded_dashes = map utf8 dashes"

definition dash_at :: "bytes \<Rightarrow> nat" where
  "dash_at d = (case filter (\<lambda>c. take (length c) d = c) encoded_dashes of [] \<Rightarrow> 0 | c # _ \<Rightarrow> length c)"

function dash_prefix_len :: "bytes \<Rightarrow> nat" where
  "dash_prefix_len d = (if dash_at d = 0 \<or> d = [] then 0 else dash_at d + dash_prefix_len (drop (dash_at d) d))"
  by pat_completeness auto
termination
  by (relation "measure length") auto

declare dash_prefix_len.simps [simp del]

definition dash_prefix :: "bytes \<Rightarrow> bytes \<times> bytes" where
  "dash_prefix d = (take (dash_prefix_len d) d, drop (dash_prefix_len d) d)"

definition BEGIN_PGP_SIGNATURE :: bytes where
  "BEGIN_PGP_SIGNATURE =
     [0x42, 0x45, 0x47, 0x49, 0x4E, 0x20, 0x50, 0x47, 0x50, 0x20, 0x53, 0x49, 0x47, 0x4E, 0x41, 0x54, 0x55, 0x52, 0x45]"

definition is_ascii_whitespace :: "u8 \<Rightarrow> bool" where
  "is_ascii_whitespace b \<longleftrightarrow> b \<in> {0x09, 0x0A, 0x0C, 0x0D, 0x20}"

fun common_prefix :: "bytes \<Rightarrow> bytes \<Rightarrow> nat" where
  "common_prefix (a # as) (b # bs) = (if a = b then 1 + common_prefix as bs else 0)"
| "common_prefix _ _ = 0"

text \<open>A line with its line ending, if it has one; the octets after it.\<close>

fun read_to_lf :: "bytes \<Rightarrow> bytes \<times> bytes" where
  "read_to_lf [] = ([], [])"
| "read_to_lf (b # bs) = (if b = LF then ([b], bs) else (case read_to_lf bs of (l, rest) \<Rightarrow> (b # l, rest)))"

text \<open>The line that ends the text.\<close>

definition ends_message :: "bytes \<Rightarrow> bool" where
  "ends_message line =
     (let (ds, after) = dash_prefix line in
      length ds > 2 \<and> take (length BEGIN_PGP_SIGNATURE) after = BEGIN_PGP_SIGNATURE)"

definition csf_line :: "bytes \<Rightarrow> bytes" where
  "csf_line line =
     (let line = (if take 2 line = [0x2D, 0x20] then drop 2 line else line);
          crlf_line_end = (length line \<ge> 2 \<and> drop (length line - 2) line = [CR, LF]);
          line = take (length line - (if crlf_line_end then 2 else 1)) line in
      trim line @ (if crlf_line_end then [CR, LF] else [LF]))"

lemma read_to_lf_rest: "read_to_lf bs = (l, rest) \<Longrightarrow> l \<noteq> [] \<Longrightarrow> length rest < length bs"
proof (induction bs arbitrary: l rest)
  case (Cons b bs)
  show ?case
  proof (cases "b = LF \<or> bs = []")
    case False
    then obtain l' where "read_to_lf bs = (l', rest)" "l' \<noteq> []"
      using Cons(2) by (cases bs) (auto split: prod.splits if_splits)
    then show ?thesis using Cons(1) [of l' rest] by simp
  qed (use Cons(2) in \<open>auto split: if_splits\<close>)
qed simp

text \<open>The text up to the start of the signature, and what follows.\<close>

function csf_text :: "bytes \<Rightarrow> bytes \<Rightarrow> bytes \<Rightarrow> (bytes \<times> bytes) res" where
  "csf_text quoting source text1 =
     (let (prefixed_line, rest) = read_to_lf source in
      if prefixed_line = [] then Inr (text1, source)
      else
        (let n = min (length prefixed_line) (length quoting);
             line = drop n prefixed_line;
             l = common_prefix quoting (take n prefixed_line) in
         if \<not> (l = length quoting \<or> list_all is_ascii_whitespace (drop l quoting)) then Inl (IoErr InvalidInput)
         else if ends_message line then Inr (text1, rest)
         else csf_text quoting rest (text1 @ csf_line line)))"
  by pat_completeness auto
termination
  by (relation "measure (\<lambda>(_, s, _). length s)") (auto dest: read_to_lf_rest [OF sym])

declare csf_text.simps [simp del]

text \<open>The line ending in front of the signature is not part of the text.\<close>

definition read_clearsigned_text :: "bytes \<Rightarrow> bytes \<Rightarrow> (bytes \<times> bytes) res" where
  "read_clearsigned_text quoting source =
     and_then (csf_text quoting source []) (\<lambda>(text1, rest).
       if text1 = [] then Inr ([], rest)
       else if last text1 \<noteq> LF then Inl Panic
       else
         (let text1 = butlast text1 in
          Inr (if text1 \<noteq> [] \<and> last text1 = CR then butlast text1 else text1, rest)))"


section \<open>Normalised text\<close>

text \<open>
  The reference: a carriage return and a line feed for every line ending, octet by octet; the flag says that the octet
  before was a carriage return.
\<close>

fun normalized :: "bool \<Rightarrow> bytes \<Rightarrow> bytes" where
  "normalized cr [] = []"
| "normalized cr (c # cs) =
     (if c = LF then (if cr then [] else [CR, LF]) @ normalized False cs
      else if c = CR then [CR, LF] @ normalized True cs
      else c # normalized False cs)"

definition ends_cr :: "bool \<Rightarrow> bytes \<Rightarrow> bool" where
  "ends_cr cr bs = (if bs = [] then cr else last bs = CR)"

lemma normalized_append: "normalized cr (xs @ ys) = normalized cr xs @ normalized (ends_cr cr xs) ys"
  by (induction cr xs rule: normalized.induct) (auto simp: ends_cr_def)

text \<open>
  What is hashed for data after a carriage return: until the first octet that is no line ending, every line feed is taken
  for the one of that carriage return.
\<close>

fun after_cr :: "bytes \<Rightarrow> bytes" where
  "after_cr [] = []"
| "after_cr (c # cs) =
     (if c = LF then after_cr cs
      else if c = CR then [CR, LF] @ (case cs of d # ds \<Rightarrow> if d = LF then after_cr ds else after_cr cs | [] \<Rightarrow> [])
      else c # normalized False cs)"

abbreviation plain :: "u8 \<Rightarrow> bool" where
  "plain c \<equiv> c \<noteq> CR \<and> c \<noteq> LF"

lemma scan_line_plain:
  "scan_line (pre @ rest) (length pre) rest False =
   Inr (case dropWhile plain rest of
          [] \<Rightarrow> ([], 0, False)
        | c # cs \<Rightarrow> (pre @ takeWhile plain rest @ [CR, LF],
            length pre + length (takeWhile plain rest) + (if c = CR \<and> cs \<noteq> [] \<and> hd cs = LF then 2 else 1), False))"
proof (induction rest arbitrary: pre)
  case (Cons c rest)
  show ?case
  proof (cases "plain c")
    case True
    then have "scan_line (pre @ c # rest) (length pre) (c # rest) False = scan_line ((pre @ [c]) @ rest) (length (pre @ [c])) rest False" by simp
    also note Cons [of "pre @ [c]"]
    finally show ?thesis using True by (cases "dropWhile plain rest") (simp_all del: dropWhile_eq_Nil_conv)
  next
    case False
    then show ?thesis by (cases rest) (auto simp: nth_append)
  qed
qed simp

lemma normalized_plain: "list_all plain ps \<Longrightarrow> normalized False (ps @ rest) = ps @ normalized False rest"
  by (induction ps) auto

lemma text_loop_False: "text_loop line False h = Inr (h @ normalized False line)"
proof (induction "length line" arbitrary: line h rule: less_induct)
  case less
  let ?ps = "takeWhile plain line"
  have plain: "list_all plain ?ps" by (auto simp: list_all_iff dest: set_takeWhileD)
  show ?case
  proof (cases "dropWhile plain line")
    case Nil
    have eq: "?ps = line" using takeWhile_dropWhile_id [of plain line] unfolding Nil by (simp only: append_Nil2)
    have "normalized False ?ps = ?ps" using normalized_plain [OF plain, of "[]"] by (simp only: append_Nil2 normalized.simps)
    then have "normalized False line = line" unfolding eq .
    moreover have "scan_line line 0 line False = Inr ([], 0, False)" using scan_line_plain [of "[]" line] unfolding Nil by simp
    ultimately show ?thesis by (subst text_loop.simps) simp
  next
    case (Cons c cs)
    define ps where "ps = ?ps"
    have line: "line = ps @ c # cs"
      using takeWhile_dropWhile_id [of plain line] unfolding Cons ps_def by (rule sym)
    have c: "\<not> plain c" using iffD1 [OF dropWhile_eq_Cons_conv Cons] by blast
    define n where "n = length ps + (if c = CR \<and> cs \<noteq> [] \<and> hd cs = LF then 2 else 1)"
    have scan: "scan_line line 0 line False = Inr (ps @ [CR, LF], n, False)"
      using scan_line_plain [of "[]" line] unfolding Cons ps_def [symmetric] by (simp add: n_def)
    have n: "n > 0" and ne: "line \<noteq> []" using line by (auto simp: n_def)
    have step: "text_loop line False h = text_loop (drop n line) False (h @ ps @ [CR, LF])"
      using scan n ne by (subst text_loop.simps) simp
    have "drop n line = drop (n - length ps) (c # cs)" unfolding line by (simp add: n_def)
    then have "[CR, LF] @ normalized False (drop n line) = normalized False (c # cs)"
      using c by (cases cs) (auto simp: n_def)
    moreover have "normalized False line = ps @ normalized False (c # cs)"
      unfolding line using plain normalized_plain unfolding ps_def [symmetric] by simp
    moreover have "text_loop (drop n line) False (h @ ps @ [CR, LF]) = Inr ((h @ ps @ [CR, LF]) @ normalized False (drop n line))"
      using n ne by (intro less) simp
    ultimately show ?thesis using step by simp
  qed
qed

lemma text_loop_True: "text_loop line True h = Inr (h @ after_cr line)"
proof (induction line arbitrary: h rule: after_cr.induct)
  case 1
  then show ?case by (simp add: text_loop.simps)
next
  case (2 c cs)
  consider "c = LF" | "c = CR" | "plain c" by auto
  then show ?case
  proof cases
    case 1
    then show ?thesis using 2 by (subst text_loop.simps) simp
  next
    case c: 2
    then show ?thesis using 2 by (subst text_loop.simps) (cases cs; simp add: text_loop.simps [of "[]"])
  next
    case 3
    have "text_loop (c # cs) True h = text_loop (c # cs) False h"
      using 3 by (subst (1 2) text_loop.simps) simp
    then show ?thesis using 3 text_loop_False [of "c # cs" h] by simp
  qed
qed

text \<open>A line feed among the line endings at the start that belongs to no carriage return.\<close>

fun lone_lf :: "bytes \<Rightarrow> bool" where
  "lone_lf [] = False"
| "lone_lf (c # cs) =
     (if c = LF then True
      else if c = CR then (case cs of d # ds \<Rightarrow> if d = LF then lone_lf ds else lone_lf cs | [] \<Rightarrow> False)
      else False)"

lemma after_cr_le: "length (after_cr cs) \<le> length (normalized False cs)"
proof (induction cs rule: after_cr.induct)
  case (2 c cs)
  show ?case
  proof (cases cs)
    case (Cons d ds)
    then show ?thesis using 2 by (cases "c = CR"; cases "c = LF"; cases "d = LF") simp_all
  qed (use 2 in simp)
qed simp

lemma after_cr_length:
  "(lone_lf cs \<longrightarrow> length (after_cr cs) < length (normalized False cs))
   \<and> (\<not> lone_lf cs \<longrightarrow> after_cr cs = normalized False cs)"
proof (induction cs rule: lone_lf.induct)
  case (2 c cs)
  consider "c = LF" | "c = CR" "cs = []" | d ds where "c = CR" "cs = d # ds" | "plain c" by (cases cs) auto
  then show ?case
  proof cases
    case 1
    moreover have "length (after_cr cs) \<le> length (normalized False cs)"
      using after_cr_le [of cs] by simp
    ultimately show ?thesis by simp
  next
    case 3
    then show ?thesis using 2 by (cases "d = LF") simp_all
  qed simp_all
qed simp


text \<open>The data in pieces, as the readers and the writers hash it.\<close>

fun HashingMode_updates :: "bytes list \<Rightarrow> bytes HashingMode \<Rightarrow> bytes HashingMode res" where
  "HashingMode_updates [] mode = Inr mode"
| "HashingMode_updates (p # ps) mode = and_then (HashingMode_update p mode) (HashingMode_updates ps)"

text \<open>No piece after a carriage return starts with line endings one of which is a line feed that the code skips.\<close>

definition bridged :: "bool \<Rightarrow> bytes \<Rightarrow> bool" where
  "bridged cr p \<longleftrightarrow> \<not> (cr \<and> p \<noteq> [] \<and> (if hd p = LF then lone_lf (tl p) else lone_lf p))"

fun bridged_pieces :: "bool \<Rightarrow> bytes list \<Rightarrow> bool" where
  "bridged_pieces cr [] \<longleftrightarrow> True"
| "bridged_pieces cr (p # ps) \<longleftrightarrow> bridged cr p \<and> bridged_pieces (ends_cr cr p) ps"

definition text_mode :: "bool \<Rightarrow> bytes \<Rightarrow> bytes \<Rightarrow> bytes HashingMode" where
  "text_mode cr salt1 h = (if cr then TextLastWasCr salt1 h else Text salt1 h)"

definition hashed_piece :: "bool \<Rightarrow> bytes \<Rightarrow> bytes" where
  "hashed_piece cr p = (if cr then after_cr p else normalized False p)"

lemma HashingMode_update_text:
  "HashingMode_update p (text_mode cr salt1 h) = Inr (text_mode (ends_cr cr p) salt1 (h @ hashed_piece cr p))"
  by (auto simp: HashingMode_update_def text_mode_def hashed_piece_def ends_cr_def text_loop_False text_loop_True)

text \<open>A line feed at the start of the piece belongs to the carriage return before it.\<close>

lemma hashed_piece_split:
  assumes "cr" "p \<noteq> []"
  shows "hashed_piece cr p = after_cr (if hd p = LF then tl p else p)"
    and "normalized cr p = normalized False (if hd p = LF then tl p else p)"
  using assms by (cases p; simp add: hashed_piece_def)+

lemma hashed_piece_le: "length (hashed_piece cr p) \<le> length (normalized cr p)"
proof (cases "cr \<and> p \<noteq> []")
  case True
  then show ?thesis using hashed_piece_split [of cr p] after_cr_le by (simp del: normalized.simps)
qed (auto simp: hashed_piece_def)

lemma hashed_piece_iff: "hashed_piece cr p = normalized cr p \<longleftrightarrow> bridged cr p"
proof (cases "cr \<and> p \<noteq> []")
  case True
  define q where "q = (if hd p = LF then tl p else p)"
  have "bridged cr p \<longleftrightarrow> \<not> lone_lf q" using True by (simp add: bridged_def q_def)
  moreover have "hashed_piece cr p = after_cr q" "normalized cr p = normalized False q"
    unfolding q_def using True hashed_piece_split [of cr p] by blast+
  ultimately show ?thesis using after_cr_length [of q] by auto
qed (auto simp: hashed_piece_def bridged_def)

lemma append_eq_shorter:
  assumes "length a \<le> length c" "length b \<le> length d"
  shows "a @ b = c @ d \<longleftrightarrow> a = c \<and> b = d"
proof
  assume eq: "a @ b = c @ d"
  then have "length a + length b = length c + length d" by (metis length_append)
  then have "length a = length c" using assms by simp
  then show "a = c \<and> b = d" using eq by simp
qed simp

lemma HashingMode_updates_text:
  "\<exists>out. HashingMode_updates ps (text_mode cr salt1 h) = Inr (text_mode (ends_cr cr (concat ps)) salt1 (h @ out))
     \<and> length out \<le> length (normalized cr (concat ps))
     \<and> (out = normalized cr (concat ps) \<longleftrightarrow> bridged_pieces cr ps)"
proof (induction ps arbitrary: cr h)
  case (Cons p ps)
  obtain out where out: "HashingMode_updates ps (text_mode (ends_cr cr p) salt1 (h @ hashed_piece cr p)) =
      Inr (text_mode (ends_cr (ends_cr cr p) (concat ps)) salt1 ((h @ hashed_piece cr p) @ out))"
    "length out \<le> length (normalized (ends_cr cr p) (concat ps))"
    "out = normalized (ends_cr cr p) (concat ps) \<longleftrightarrow> bridged_pieces (ends_cr cr p) ps"
    using Cons by blast
  have "ends_cr (ends_cr cr p) (concat ps) = ends_cr cr (concat (p # ps))" by (simp add: ends_cr_def)
  moreover have "hashed_piece cr p @ out = normalized cr (concat (p # ps)) \<longleftrightarrow> bridged_pieces cr (p # ps)"
    using append_eq_shorter [OF hashed_piece_le out(2), of cr] out(3) by (simp add: normalized_append hashed_piece_iff)
  ultimately show ?case using out(1,2) hashed_piece_le [of cr p]
    by (intro exI [of _ "hashed_piece cr p @ out"]) (simp add: HashingMode_update_text normalized_append)
qed (simp add: ends_cr_def)

text \<open>
  Text is hashed in pieces without a panic; what is hashed is the text with its line endings normalised exactly when no
  piece that follows a carriage return starts with line endings one of which is a line feed of its own.
\<close>

theorem text_hashed_in_pieces:
  "\<exists>mode. HashingMode_updates ps (Text salt1 h) = Inr mode \<and> HashingMode_salt mode = salt1
     \<and> (HashingMode_into_inner mode = h @ normalized False (concat ps) \<longleftrightarrow> bridged_pieces False ps)"
  using HashingMode_updates_text [of ps False salt1 h]
  by (auto simp: text_mode_def HashingMode_salt_def HashingMode_into_inner_def)

text \<open>
  A carriage return, and two line feeds in the next piece: of the two lines one is hashed.
\<close>

theorem line_feed_lost:
  "HashingMode_updates [[CR], [LF, LF]] (Text [] []) = Inr (Text [] [CR, LF])
   \<and> HashingMode_updates [[CR, LF, LF]] (Text [] []) = Inr (Text [] [CR, LF, CR, LF])"
  by (simp add: HashingMode_update_def text_loop.simps)

section \<open>Lines\<close>

abbreviation lf_lines :: "bytes list \<Rightarrow> bytes" where
  "lf_lines ls \<equiv> concat (map (\<lambda>l. l @ [LF]) ls)"

definition join_lf :: "bytes list \<Rightarrow> bytes" where
  "join_lf ls = lf_lines (butlast ls) @ last ls"

abbreviation no_lf :: "bytes \<Rightarrow> bool" where
  "no_lf l \<equiv> LF \<notin> set l"

lemma split_lf_nonempty [simp]: "split_lf bs \<noteq> []"
  by (cases bs) (auto split: list.split)

lemma split_lf_line: "no_lf l \<Longrightarrow> split_lf (l @ LF # rest) = l # split_lf rest"
  by (induction l) auto

lemma split_lf_last: "no_lf l \<Longrightarrow> split_lf l = [l]"
  by (induction l) auto

lemma split_lf_lines: "list_all no_lf ls \<Longrightarrow> split_lf (lf_lines ls @ rest) = ls @ split_lf rest"
  by (induction ls) (auto simp: split_lf_line)

lemma split_lf_no_lf: "list_all no_lf (split_lf bs)"
  by (induction bs) (auto split: list.split)

lemma split_lf_no_lf_butlast: "list_all no_lf (butlast (split_lf bs))"
  using split_lf_no_lf [of bs] by (auto simp: list_all_iff dest: in_set_butlastD)

lemma split_lf_no_lf_last: "no_lf (last (split_lf bs))"
  using split_lf_no_lf [of bs] by (simp add: list_all_iff)

lemma split_lf_join [simp]: "join_lf (split_lf bs) = bs"
proof (induction bs)
  case (Cons b bs)
  show ?case
  proof (cases "split_lf bs")
    case (Cons l ls)
    then show ?thesis using \<open>join_lf (split_lf bs) = bs\<close> by (cases ls) (auto simp: join_lf_def)
  qed simp
qed (simp add: join_lf_def)

lemma split_lf_of_join: "ls \<noteq> [] \<Longrightarrow> list_all no_lf ls \<Longrightarrow> split_lf (join_lf ls) = ls"
  by (cases ls rule: rev_cases) (simp_all add: join_lf_def split_lf_lines split_lf_last)

lemma split_lf_append: "split_lf (xs @ ys) = butlast (split_lf xs) @ split_lf (last (split_lf xs) @ ys)"
  using split_lf_lines [OF split_lf_no_lf_butlast, of xs "last (split_lf xs) @ ys"] split_lf_join [of xs]
  by (metis append_assoc join_lf_def)

lemma join_lf_lf: "ls \<noteq> [] \<Longrightarrow> join_lf ls @ [LF] = lf_lines ls"
  by (cases ls rule: rev_cases) (simp_all add: join_lf_def)

section \<open>What the filters write\<close>

text \<open>
  A filter handles whole lines as they arrive, and the rest at the end. However the text is cut into pieces, what it writes
  depends on the lines alone.
\<close>

locale line_filters =
  fixes put :: "bytes \<Rightarrow> line_filter \<Rightarrow> line_filter"
    and finish :: "line_filter \<Rightarrow> bytes list"
    and whole_line :: "bytes \<Rightarrow> bytes list"
    and last_line :: "bytes \<Rightarrow> bytes list"
  assumes write_inner: "lf_inner (put p f) = lf_inner f @ concat (map whole_line (butlast (split_lf (lf_buffer f @ p))))"
    and write_buffer: "lf_buffer (put p f) = last (split_lf (lf_buffer f @ p))"
    and finish_writes: "finish f =
      lf_inner f @ concat (map whole_line (butlast (split_lf (lf_buffer f)))) @ last_line (last (split_lf (lf_buffer f)))"
begin

lemma written:
  "finish (fold put ps f) =
   lf_inner f @ concat (map whole_line (butlast (split_lf (lf_buffer f @ concat ps))))
     @ last_line (last (split_lf (lf_buffer f @ concat ps)))"
proof (induction ps arbitrary: f)
  case (Cons p ps)
  let ?ls = "split_lf (lf_buffer f @ p)"
  have "split_lf (lf_buffer f @ p @ concat ps) = butlast ?ls @ split_lf (last ?ls @ concat ps)"
    using split_lf_append [of "lf_buffer f @ p" "concat ps"] by simp
  then show ?case using Cons [of "put p f"] by (simp add: write_inner write_buffer butlast_append)
qed (simp add: finish_writes)

end

definition nonempty :: "bytes list \<Rightarrow> bytes list" where
  "nonempty ws = filter (\<lambda>w. w \<noteq> []) ws"

lemma concat_nonempty [simp]: "concat (nonempty ws) = concat ws"
  by (induction ws) (auto simp: nonempty_def)

lemma write_all_nonempty: "write_all buf inner = inner @ nonempty [buf]"
  by (simp add: write_all_def nonempty_def)

lemma fold_writes: "(\<And>l ws. g l ws = ws @ w l) \<Longrightarrow> fold g ls ws = ws @ concat (map w ls)"
  by (induction ls arbitrary: ws) auto

definition dash_escaped :: "bytes \<Rightarrow> bytes" where
  "dash_escaped l = (if take 1 l = [0x2D] \<or> take 5 l = [0x46, 0x72, 0x6F, 0x6D, 0x20] then [0x2D, 0x20] else []) @ l"

definition dash_writes :: "bytes \<Rightarrow> bytes list" where
  "dash_writes l =
     (if take 1 l = [0x2D] \<or> take 5 l = [0x46, 0x72, 0x6F, 0x6D, 0x20] then [[0x2D, 0x20]] else []) @ nonempty [l]"

lemma dash_escape_line_writes: "dash_escape_line l inner = inner @ dash_writes l"
  by (simp add: dash_escape_line_def dash_writes_def write_all_nonempty) (simp add: nonempty_def)

lemma concat_dash_writes [simp]: "concat (dash_writes l) = dash_escaped l"
  by (simp add: dash_writes_def dash_escaped_def)

lemma dash_fold:
  "fold (\<lambda>l inner. write_all [LF] (inner @ dash_writes l)) ls ws = ws @ concat (map (\<lambda>l. dash_writes l @ [[LF]]) ls)"
  by (rule fold_writes) (simp add: write_all_def)

interpretation dash: line_filters DashEscapeFilter_write DashEscapeFilter_into_inner "\<lambda>l. dash_writes l @ [[LF]]" dash_writes
  by unfold_locales
    (simp_all add: DashEscapeFilter_write_def DashEscapeFilter_into_inner_def DashEscapeFilter_write_out_def Let_def
       dash_escape_line_writes dash_fold)

definition trimmed :: "bytes \<Rightarrow> bytes" where
  "trimmed l = (if l \<noteq> [] \<and> last l = CR then trim (butlast l) @ [CR] else trim l)"

definition trim_writes :: "bytes \<Rightarrow> bytes list" where
  "trim_writes l = (if l \<noteq> [] \<and> last l = CR then nonempty [trim (butlast l), [CR, LF]] else nonempty [trim l, [LF]])"

lemma trim_line_writes: "trim_line l inner = inner @ trim_writes l"
  by (simp add: trim_line_def trim_writes_def Let_def write_all_nonempty) (simp add: nonempty_def)

lemma concat_trim_writes [simp]: "concat (trim_writes l) = trimmed l @ [LF]"
  by (simp add: trim_writes_def trimmed_def)

lemma trim_fold: "fold trim_line ls ws = ws @ concat (map trim_writes ls)"
  by (rule fold_writes) (rule trim_line_writes)

interpretation trailing: line_filters TrailingWSFilter_write TrailingWSFilter_into_inner trim_writes "\<lambda>l. nonempty [trim l]"
  by unfold_locales
    (simp_all add: TrailingWSFilter_write_def TrailingWSFilter_into_inner_def TrailingWSFilter_write_out_def Let_def trim_fold
       write_all_nonempty)

text \<open>Through the two filters, text in any pieces: the lines trimmed, the lines escaped.\<close>

definition trimmed_lines :: "bytes \<Rightarrow> bytes list" where
  "trimmed_lines bs = map trimmed (butlast (split_lf bs)) @ [trim (last (split_lf bs))]"

definition trim_filter :: "bytes list \<Rightarrow> bytes list" where
  "trim_filter ps = TrailingWSFilter_into_inner (fold TrailingWSFilter_write ps (TrailingWSFilter_new []))"

definition dash_filter :: "bytes list \<Rightarrow> bytes list" where
  "dash_filter ps = DashEscapeFilter_into_inner (fold DashEscapeFilter_write ps (DashEscapeFilter_new []))"

lemma trim_filter_writes:
  "trim_filter ps =
   concat (map trim_writes (butlast (split_lf (concat ps)))) @ nonempty [trim (last (split_lf (concat ps)))]"
  by (simp add: trim_filter_def trailing.written TrailingWSFilter_new_def)

lemma concat_concat_map: "concat (concat (map f xs)) = concat (map (\<lambda>x. concat (f x)) xs)"
  by (induction xs) auto

lemma trim_filter_text: "concat (trim_filter ps) = join_lf (trimmed_lines (concat ps))"
  by (simp add: trim_filter_writes concat_concat_map join_lf_def trimmed_lines_def o_def)

lemma dash_filter_text: "concat (dash_filter ps) = join_lf (map dash_escaped (split_lf (concat ps)))"
proof -
  have "concat (dash_filter ps) =
      concat (map (\<lambda>l. dash_escaped l @ [LF]) (butlast (split_lf (concat ps)))) @ dash_escaped (last (split_lf (concat ps)))"
    by (simp add: dash_filter_def dash.written DashEscapeFilter_new_def concat_concat_map)
  then show ?thesis by (simp add: join_lf_def map_butlast [symmetric] last_map o_def)
qed

lemma bridged_pieces_nonempty [simp]: "bridged_pieces cr (nonempty ws @ vs) = bridged_pieces cr (ws @ vs)"
  by (induction ws arbitrary: cr) (auto simp: nonempty_def bridged_def ends_cr_def)

lemma bridged_line_end [simp]: "bridged cr [LF]" "bridged cr [CR, LF]" "bridged False p"
  by (simp_all add: bridged_def)

lemma bridged_trim_writes: "bridged_pieces False (concat (map trim_writes ls) @ nonempty [l])"
  by (induction ls) (auto simp: trim_writes_def ends_cr_def nonempty_def)

lemma trim_filter_bridged: "bridged_pieces False (trim_filter ps)"
  by (simp only: trim_filter_writes bridged_trim_writes)

section \<open>Reading what the filters write\<close>

lemma trim_set: "set (trim l) \<subseteq> set l"
proof (induction l rule: trim.induct)
  case (1 l)
  then show ?case by (subst trim.simps) (auto dest: in_set_butlastD)
qed

lemma trim_trim [simp]: "trim (trim l) = trim l"
proof (induction l rule: trim.induct)
  case (1 l)
  show ?case
  proof (cases "l \<noteq> [] \<and> (last l = 0x20 \<or> last l = 0x09)")
    case True
    then show ?thesis using 1 trim.simps [of l] by simp
  next
    case False
    then have "trim l = l" by (subst trim.simps) auto
    then show ?thesis by simp
  qed
qed

text \<open>Text in which every carriage return is followed by a line feed.\<close>

fun crlf_text :: "bytes \<Rightarrow> bool" where
  "crlf_text [] \<longleftrightarrow> True"
| "crlf_text (b # bs) \<longleftrightarrow> (b = CR \<longrightarrow> bs \<noteq> [] \<and> hd bs = LF) \<and> crlf_text bs"

lemma crlf_text_lines:
  "crlf_text bs \<Longrightarrow>
   list_all (\<lambda>l. CR \<notin> set (butlast l)) (butlast (split_lf bs)) \<and> CR \<notin> set (last (split_lf bs))"
proof (induction bs)
  case (Cons b bs)
  obtain l ls where ls: "split_lf bs = l # ls" by (cases "split_lf bs") simp_all
  show ?case
  proof (cases "b = CR")
    case True
    then obtain cs where "bs = LF # cs" using Cons(2) by (cases bs) auto
    then show ?thesis using True Cons by simp
  next
    case False
    then show ?thesis using Cons ls by (cases ls; cases l) auto
  qed
qed simp

definition clean :: "bytes \<Rightarrow> bool" where
  "clean l \<longleftrightarrow> no_lf l \<and> trimmed l = l"

lemma clean_trim: "no_lf l \<Longrightarrow> CR \<notin> set l \<Longrightarrow> clean (trim l)"
  using trim_set [of l] last_in_set [of "trim l"] unfolding clean_def trimmed_def by (metis subset_iff trim_trim)

lemma clean_trimmed:
  assumes "no_lf l" "CR \<notin> set (butlast l)"
  shows "clean (trimmed l)"
proof (cases "l \<noteq> [] \<and> last l = CR")
  case True
  then show ?thesis
    using assms trim_set [of "butlast l"] by (auto simp: clean_def trimmed_def dest: in_set_butlastD)
next
  case False
  then have "CR \<notin> set l" using assms(2) by (cases l rule: rev_cases) auto
  then have "clean (trim l)" using assms(1) by (intro clean_trim)
  then show ?thesis using False by (auto simp: trimmed_def)
qed

lemma trimmed_lines_clean: "crlf_text bs \<Longrightarrow> list_all clean (trimmed_lines bs)"
  using crlf_text_lines [of bs] split_lf_no_lf_butlast [of bs] clean_trim [OF split_lf_no_lf_last, of bs]
  by (auto simp: trimmed_lines_def list_all_iff clean_trimmed)

lemma trimmed_lines_last: "crlf_text bs \<Longrightarrow> CR \<notin> set (last (trimmed_lines bs))"
  using crlf_text_lines [of bs] trim_set [of "last (split_lf bs)"] by (auto simp: trimmed_lines_def)

lemma csf_line_escaped:
  assumes "clean l"
  shows "csf_line (dash_escaped l @ [LF]) = l @ [LF]"
proof -
  have "take 2 (dash_escaped l @ [LF]) = [0x2D, 0x20] \<longleftrightarrow> dash_escaped l \<noteq> l"
    by (cases l; cases "tl l") (auto simp: dash_escaped_def numeral_2_eq_2)
  then have strip: "(if take 2 (dash_escaped l @ [LF]) = [0x2D, 0x20] then drop 2 (dash_escaped l @ [LF]) else dash_escaped l @ [LF]) = l @ [LF]"
    by (auto simp: dash_escaped_def)
  have crlf: "(length (l @ [LF]) \<ge> 2 \<and> drop (length (l @ [LF]) - 2) (l @ [LF]) = [CR, LF]) \<longleftrightarrow> l \<noteq> [] \<and> last l = CR"
    by (cases l rule: rev_cases) auto
  show ?thesis
  proof (cases "l \<noteq> [] \<and> last l = CR")
    case True
    then have "trim (butlast l) @ [CR] = l" using assms by (simp add: clean_def trimmed_def)
    moreover have "take (length (l @ [LF]) - 2) (l @ [LF]) = butlast l"
      by (simp add: butlast_conv_take)
    ultimately show ?thesis unfolding csf_line_def Let_def strip crlf using True by simp
  next
    case False
    then have "trim l = l" using assms by (auto simp: clean_def trimmed_def)
    moreover have "take (length (l @ [LF]) - 1) (l @ [LF]) = l" by simp
    ultimately show ?thesis unfolding csf_line_def Let_def strip crlf using False by (simp only: if_False)
  qed
qed

lemma read_to_lf_line: "no_lf l \<Longrightarrow> read_to_lf (l @ LF # rest) = (l @ [LF], rest)"
  by (induction l) auto

lemma csf_text_line:
  assumes "no_lf l"
  shows "csf_text [] (l @ LF # rest) t =
    (if ends_message (l @ [LF]) then Inr (t, rest) else csf_text [] rest (t @ csf_line (l @ [LF])))"
  by (subst csf_text.simps) (simp add: read_to_lf_line [OF assms])

lemma csf_text_lines:
  assumes "list_all (\<lambda>l. no_lf l \<and> \<not> ends_message (l @ [LF])) ls"
  shows "csf_text [] (lf_lines ls @ rest) t = csf_text [] rest (t @ concat (map (\<lambda>l. csf_line (l @ [LF])) ls))"
  using assms by (induction ls arbitrary: t) (auto simp: csf_text_line)

text \<open>The separating newline, the header line of the armored signature, and the rest of it.\<close>

definition SIGNATURE_HEADER :: bytes where
  "SIGNATURE_HEADER = replicate 5 0x2D @ BEGIN_PGP_SIGNATURE @ replicate 5 0x2D"

lemma SIGNATURE_HEADER_ends: "no_lf SIGNATURE_HEADER" "ends_message (SIGNATURE_HEADER @ [LF])"
  by code_simp+

lemma csf_text_filtered:
  assumes "list_all clean ls" "list_all (\<lambda>l. \<not> ends_message (dash_escaped l @ [LF])) ls"
  shows "csf_text [] (lf_lines (map dash_escaped ls) @ SIGNATURE_HEADER @ LF # sig) [] = Inr (lf_lines ls, sig)"
proof -
  have "no_lf (dash_escaped l)" if "clean l" for l using that by (simp add: clean_def dash_escaped_def)
  then have "list_all (\<lambda>l. no_lf l \<and> \<not> ends_message (l @ [LF])) (map dash_escaped ls)"
    using assms by (auto simp: list_all_iff)
  moreover have "map (\<lambda>l. csf_line (l @ [LF])) (map dash_escaped ls) = map (\<lambda>l. l @ [LF]) ls"
    using assms(1) by (auto simp: list_all_iff csf_line_escaped)
  ultimately show ?thesis
    using csf_text_lines [of "map dash_escaped ls" "SIGNATURE_HEADER @ LF # sig" "[]"]
    by (simp only: csf_text_line [OF SIGNATURE_HEADER_ends(1)] SIGNATURE_HEADER_ends(2) if_True append_Nil)
qed

lemma read_clearsigned_filtered:
  assumes "ls \<noteq> []" "list_all clean ls" "list_all (\<lambda>l. \<not> ends_message (dash_escaped l @ [LF])) ls" "CR \<notin> set (last ls)"
  shows "read_clearsigned_text [] (join_lf (map dash_escaped ls) @ LF # SIGNATURE_HEADER @ LF # sig) = Inr (join_lf ls, sig)"
proof -
  have src: "join_lf (map dash_escaped ls) @ LF # SIGNATURE_HEADER @ LF # sig =
      lf_lines (map dash_escaped ls) @ SIGNATURE_HEADER @ LF # sig"
    using join_lf_lf [of "map dash_escaped ls"] assms(1) by (simp add: append_assoc [symmetric] del: append_assoc)
  have "lf_lines ls = join_lf ls @ [LF]" using join_lf_lf [OF assms(1)] by simp
  moreover have "join_lf ls = [] \<or> last (join_lf ls) \<noteq> CR"
  proof (cases "last ls = []")
    case True
    then show ?thesis by (cases "butlast ls" rule: rev_cases) (simp_all add: join_lf_def)
  next
    case False
    then show ?thesis using assms(4) by (metis join_lf_def last_appendR last_in_set)
  qed
  ultimately show ?thesis
    using csf_text_filtered [OF assms(2,3), of sig] unfolding read_clearsigned_text_def src by (auto simp: Let_def)
qed

text \<open>
  C33. A message of the cleartext signature framework, written in any pieces: what is read back is the text the signer got from
  the filter that trims it, which is the text the signature covers, and the signature follows it. The text has carriage
  returns only in front of line feeds, and no line of it is taken for the start of the signature.
\<close>

theorem cleartext_round_trip:
  assumes "crlf_text (concat ps)"
    and "list_all (\<lambda>l. \<not> ends_message (dash_escaped l @ [LF])) (trimmed_lines (concat ps))"
  shows "read_clearsigned_text [] (concat (dash_filter (trim_filter ps)) @ LF # SIGNATURE_HEADER @ LF # sig) =
      Inr (join_lf (trimmed_lines (concat ps)), sig)
    \<and> (\<exists>mode. HashingMode_updates (trim_filter ps) (Text salt1 h) = Inr mode
        \<and> HashingMode_into_inner mode = h @ normalized False (join_lf (trimmed_lines (concat ps))))"
proof -
  let ?ls = "trimmed_lines (concat ps)"
  have ne: "?ls \<noteq> []" by (simp add: trimmed_lines_def)
  have "list_all no_lf ?ls" using trimmed_lines_clean [OF assms(1)] by (auto simp: list_all_iff clean_def)
  then have "concat (dash_filter (trim_filter ps)) = join_lf (map dash_escaped ?ls)"
    by (simp add: dash_filter_text trim_filter_text split_lf_of_join [OF ne])
  moreover note read_clearsigned_filtered [OF ne trimmed_lines_clean [OF assms(1)] assms(2) trimmed_lines_last [OF assms(1)]]
  moreover have "\<exists>mode. HashingMode_updates (trim_filter ps) (Text salt1 h) = Inr mode
      \<and> HashingMode_into_inner mode = h @ normalized False (concat (trim_filter ps))"
    using HashingMode_updates_text [of "trim_filter ps" False salt1 h]
    by (auto simp: text_mode_def HashingMode_into_inner_def trim_filter_bridged)
  ultimately show ?thesis by (simp add: trim_filter_text)
qed

text \<open>
  A space and a carriage return at the end of a line, and a space after it: the signature covers the first space, the
  reader removes it.
\<close>

theorem trimmed_differently:
  "let signed = concat (trim_filter [[0x61, 0x20, CR, 0x20, LF]]) in
   signed = [0x61, 0x20, CR, LF]
   \<and> read_clearsigned_text [] (concat (dash_filter [signed]) @ LF # SIGNATURE_HEADER @ [LF]) = Inr ([0x61, CR, LF], [])"
  by code_simp

text \<open>An em dash in front of the words that start a signature: the text ends there.\<close>

theorem em_dash_ends_text:
  "let signed = concat (trim_filter [[0x61, LF] @ utf8 0x2014 @ BEGIN_PGP_SIGNATURE]) in
   read_clearsigned_text [] (concat (dash_filter [signed]) @ LF # SIGNATURE_HEADER @ [LF]) =
     Inr ([0x61], SIGNATURE_HEADER @ [LF])"
  by code_simp

theorem cleartext_round_trip_witness:
  "read_clearsigned_text []
     (concat (dash_filter (trim_filter [[0x2D, 0x61], [0x20, CR], [LF, 0x62]])) @ LF # SIGNATURE_HEADER @ LF # [0x58]) =
     Inr ([0x2D, 0x61, CR, LF, 0x62], [0x58])
   \<and> concat (dash_filter (trim_filter [[0x2D, 0x61], [0x20, CR], [LF, 0x62]])) = [0x2D, 0x20, 0x2D, 0x61, CR, LF, 0x62]"
proof -
  let ?ps = "[[0x2D, 0x61], [0x20, CR], [LF, 0x62]] :: bytes list"
  have ls: "trimmed_lines (concat ?ps) = [[0x2D, 0x61, CR], [0x62]]" by code_simp
  have "crlf_text (concat ?ps)" by simp
  moreover have "list_all (\<lambda>l. \<not> ends_message (dash_escaped l @ [LF])) (trimmed_lines (concat ?ps))"
    unfolding ls by code_simp
  ultimately have "read_clearsigned_text [] (concat (dash_filter (trim_filter ?ps)) @ LF # SIGNATURE_HEADER @ LF # [0x58]) =
      Inr (join_lf (trimmed_lines (concat ?ps)), [0x58])"
    using cleartext_round_trip [of ?ps "[0x58]" "[]" "[]"] by blast
  moreover have "concat (dash_filter (trim_filter ?ps)) = [0x2D, 0x20, 0x2D, 0x61, CR, LF, 0x62]" by code_simp
  ultimately show ?thesis unfolding ls by (simp add: join_lf_def)
qed

end
