(* ===== verification/BufferedReaders.thy ===== *)
theory BufferedReaders
  imports Algorithms "HOL-Library.Sublist"
begin

text \<open>
  The crate \<open>buffered-reader\<close>: the trait \<open>BufferedReader\<close> with its provided methods (\<open>lib.rs\<close>), the readers
  \<open>Memory\<close>, \<open>EOF\<close> and \<open>Generic\<close>, and the adaptors \<open>Limitor\<close>, \<open>Reserve\<close>, \<open>Dup\<close> and \<open>Adapter\<close>.

  A reader is a state and a record of the methods an implementation can choose, as a trait object is. An operation
  maps a state to a new state and a result; \<open>None\<close> is a call that does not return. Slices are the lists of
  their octets, amounts (\<open>usize\<close>, \<open>u64\<close>) are natural numbers, and a failed assertion or a slice that is out of
  range is \<open>Panic\<close>. Cookies and the recycling of allocated buffers do not influence the data and are left out. The
  default size of buffers, which the environment can set, is the parameter \<open>buf_size\<close>, and the sources of octets
  outside the crate (\<open>std::io::Read\<close>, \<open>std::io::Write\<close>) are parameters.
\<close>

section \<open>Operations on a state that can fail or not return\<close>

type_synonym ('s, 'a) io = "'s \<Rightarrow> ('s \<times> 'a res) option"

definition io_then :: "('s \<times> 'a res) option \<Rightarrow> ('a \<Rightarrow> ('s, 'b) io) \<Rightarrow> ('s \<times> 'b res) option" where
  "io_then p f =
     (case p of None \<Rightarrow> None | Some (s, Inl e) \<Rightarrow> Some (s, Inl e) | Some (s, Inr x) \<Rightarrow> f x s)"

lemma io_then_simps [simp]:
  "io_then None f = None"
  "io_then (Some (s, Inl e)) f = Some (s, Inl e)"
  "io_then (Some (s, Inr x)) f = f x s"
  by (simp_all add: io_then_def)

lemma io_then_mono [partial_function_mono]:
  assumes "mono_option p" "\<And>x s. mono_option (\<lambda>f. g f x s)"
  shows "mono_option (\<lambda>f. io_then (p f) (g f))"
proof -
  have *: "io_then p f = Option.bind p (\<lambda>(s, r). case r of Inl e \<Rightarrow> Some (s, Inl e) | Inr x \<Rightarrow> f x s)" for p and f
    by (simp add: io_then_def split: option.split prod.split sum.split)
  have "mono_option (\<lambda>f. (\<lambda>(s, r). case r of Inl e \<Rightarrow> Some (s, Inl e) | Inr x \<Rightarrow> g f x s) y)" for y
    using assms(2) by (cases y; cases "snd y") (simp_all add: option.const_mono)
  then show ?thesis
    unfolding * by (rule bind_mono [OF assms(1)])
qed

definition io_assert :: "bool \<Rightarrow> ('s, unit) io" where
  "io_assert b s = Some (s, if b then Inr () else Inl Panic)"

lemma io_then_assert [simp]: "io_then (io_assert b s) f = (if b then f () s else Some (s, Inl Panic))"
  by (simp add: io_assert_def)

section \<open>The trait\<close>

record 'r BufferedReader =
  br_read :: "nat \<Rightarrow> ('r, bytes) io"
  br_buffer :: "'r \<Rightarrow> bytes res"
  br_data :: "nat \<Rightarrow> ('r, bytes) io"
  br_data_hard :: "nat \<Rightarrow> ('r, bytes) io"
  br_consume :: "nat \<Rightarrow> ('r, bytes) io"
  br_data_consume :: "nat \<Rightarrow> ('r, bytes) io"
  br_data_consume_hard :: "nat \<Rightarrow> ('r, bytes) io"
  br_consummated :: "('r, bool) io"

subsection \<open>Methods that implementations can replace\<close>

definition default_data_hard :: "(nat \<Rightarrow> ('r, bytes) io) \<Rightarrow> nat \<Rightarrow> ('r, bytes) io" where
  "default_data_hard data amount r =
     io_then (data amount r) (\<lambda>buffer r.
       Some (r, if length buffer < amount then Inl (IoErr UnexpectedEof) else Inr buffer))"

definition default_data_consume :: "(nat \<Rightarrow> ('r, bytes) io) \<Rightarrow> (nat \<Rightarrow> ('r, bytes) io) \<Rightarrow> nat \<Rightarrow> ('r, bytes) io" where
  "default_data_consume data consume amount r =
     io_then (data amount r) (\<lambda>d r.
       let amount = min amount (length d) in
       io_then (consume amount r) (\<lambda>buffer r.
         io_then (io_assert (amount \<le> length buffer) r) (\<lambda>_ r. Some (r, Inr buffer))))"

definition default_data_consume_hard :: "(nat \<Rightarrow> ('r, bytes) io) \<Rightarrow> (nat \<Rightarrow> ('r, bytes) io) \<Rightarrow> nat \<Rightarrow> ('r, bytes) io" where
  "default_data_consume_hard data_hard consume amount r =
     io_then (data_hard amount r) (\<lambda>d r.
       io_then (io_assert (amount \<le> length d) r) (\<lambda>_ r.
         io_then (consume amount r) (\<lambda>buffer r.
           io_then (io_assert (amount \<le> length buffer) r) (\<lambda>_ r. Some (r, Inr buffer)))))"

text \<open>A failed \<open>data_hard\<close> is the end of the data, whatever the error is; panics are not caught.\<close>

definition default_eof :: "(nat \<Rightarrow> ('r, bytes) io) \<Rightarrow> ('r, bool) io" where
  "default_eof data_hard r =
     (case data_hard 1 r of
        None \<Rightarrow> None
      | Some (r, Inl Panic) \<Rightarrow> Some (r, Inl Panic)
      | Some (r, Inl _) \<Rightarrow> Some (r, Inr True)
      | Some (r, Inr _) \<Rightarrow> Some (r, Inr False))"

definition buffered_reader_generic_read_impl :: "(nat \<Rightarrow> ('r, bytes) io) \<Rightarrow> nat \<Rightarrow> ('r, bytes) io" where
  "buffered_reader_generic_read_impl data_consume len r =
     io_then (data_consume len r) (\<lambda>inner r. Some (r, Inr (take (min len (length inner)) inner)))"

subsection \<open>Provided methods\<close>

definition eof :: "'r BufferedReader \<Rightarrow> ('r, bool) io" where
  "eof br = default_eof (br_data_hard br)"

partial_function (option) data_eof_loop :: "'r BufferedReader \<Rightarrow> nat \<Rightarrow> ('r, nat) io" where
  "data_eof_loop br s r =
     io_then (br_data br s r) (\<lambda>buffer r.
       if length buffer < s then Some (r, Inr (length buffer)) else data_eof_loop br (s * 2) r)"

definition data_eof :: "nat \<Rightarrow> 'r BufferedReader \<Rightarrow> ('r, bytes) io" where
  "data_eof buf_size br r =
     io_then (data_eof_loop br buf_size r) (\<lambda>s r.
       Some (r, and_then (br_buffer br r) (\<lambda>buffer. if length buffer = s then Inr buffer else Inl Panic)))"

definition br_read_be_u16 :: "'r BufferedReader \<Rightarrow> ('r, u16) io" where
  "br_read_be_u16 br r =
     io_then (br_data_consume_hard br 2 r) (\<lambda>input r.
       Some (r, if 2 \<le> length input then Inr (from_be_u16 (take 2 input)) else Inl Panic))"

definition br_read_be_u32 :: "'r BufferedReader \<Rightarrow> ('r, u32) io" where
  "br_read_be_u32 br r =
     io_then (br_data_consume_hard br 4 r) (\<lambda>input r.
       Some (r, if 4 \<le> length input then Inr (from_be_u32 (take 4 input)) else Inl Panic))"

fun position :: "('a \<Rightarrow> bool) \<Rightarrow> 'a list \<Rightarrow> nat option" where
  "position p [] = None"
| "position p (x # xs) = (if p x then Some 0 else map_option Suc (position p xs))"

partial_function (option) read_to_loop :: "'r BufferedReader \<Rightarrow> u8 \<Rightarrow> nat \<Rightarrow> ('r, nat) io" where
  "read_to_loop br terminal n r =
     io_then (br_data br n r) (\<lambda>data r.
       case position (\<lambda>c. c = terminal) data of
         Some newline \<Rightarrow> Some (r, Inr (newline + 1))
       | None \<Rightarrow>
           if length data < n then Some (r, Inr (length data))
           else read_to_loop br terminal (max (2 * n) (length data + 1024)) r)"

definition read_to :: "'r BufferedReader \<Rightarrow> u8 \<Rightarrow> ('r, bytes) io" where
  "read_to br terminal r =
     io_then (read_to_loop br terminal 128 r) (\<lambda>len r.
       Some (r, and_then (br_buffer br r) (\<lambda>buffer.
         if len \<le> length buffer then Inr (take len buffer) else Inl Panic)))"

text \<open>The terminals are sorted, so that the binary search is membership.\<close>

partial_function (option) drop_until_loop :: "nat \<Rightarrow> 'r BufferedReader \<Rightarrow> u8 list \<Rightarrow> nat \<Rightarrow> ('r, nat \<times> nat) io" where
  "drop_until_loop buf_size br terminals dropped r =
     io_then (Some (r, br_buffer br r)) (\<lambda>b r.
     io_then (if b = [] then br_data br buf_size r else Some (r, Inr b)) (\<lambda>buffer r.
       if buffer = [] then Some (r, Inr (dropped, 0))
       else
         case position (\<lambda>c. c \<in> set terminals) buffer of
           Some p \<Rightarrow> Some (r, Inr (dropped, p))
         | None \<Rightarrow>
             io_then (br_consume br (length buffer) r) (\<lambda>_ r.
               drop_until_loop buf_size br terminals (dropped + length buffer) r)))"

definition drop_until :: "nat \<Rightarrow> 'r BufferedReader \<Rightarrow> u8 list \<Rightarrow> ('r, nat) io" where
  "drop_until buf_size br terminals r =
     io_then (io_assert (sorted terminals) r) (\<lambda>_ r.
     io_then (drop_until_loop buf_size br terminals 0 r) (\<lambda>(dropped, p) r.
     io_then (br_consume br p r) (\<lambda>_ r. Some (r, Inr (dropped + p)))))"

definition drop_through :: "nat \<Rightarrow> 'r BufferedReader \<Rightarrow> u8 list \<Rightarrow> bool \<Rightarrow> ('r, u8 option \<times> nat) io" where
  "drop_through buf_size br terminals match_eof r =
     io_then (drop_until buf_size br terminals r) (\<lambda>dropped r.
     io_then (br_data_consume br 1 r) (\<lambda>rest r.
       Some (r, case rest of
           [] \<Rightarrow> if match_eof then Inr (None, dropped) else Inl (IoErr UnexpectedEof)
         | c # _ \<Rightarrow> Inr (Some c, dropped + 1))))"

definition steal :: "'r BufferedReader \<Rightarrow> nat \<Rightarrow> ('r, bytes) io" where
  "steal br amount r =
     io_then (br_data_consume_hard br amount r) (\<lambda>data r.
       io_then (io_assert (amount \<le> length data) r) (\<lambda>_ r.
         Some (r, Inr (if amount < length data then take amount data else data))))"

definition steal_eof :: "nat \<Rightarrow> 'r BufferedReader \<Rightarrow> ('r, bytes) io" where
  "steal_eof buf_size br r =
     io_then (data_eof buf_size br r) (\<lambda>d r. steal br (length d) r)"

partial_function (option) drop_eof_loop :: "nat \<Rightarrow> 'r BufferedReader \<Rightarrow> bool \<Rightarrow> ('r, bool) io" where
  "drop_eof_loop buf_size br at_least_one_byte r =
     io_then (br_data br buf_size r) (\<lambda>d r.
       let n = length d in
       io_then (br_consume br n r) (\<lambda>_ r.
         if n < buf_size then Some (r, Inr (at_least_one_byte \<or> n > 0))
         else drop_eof_loop buf_size br (at_least_one_byte \<or> n > 0) r))"

definition drop_eof :: "nat \<Rightarrow> 'r BufferedReader \<Rightarrow> ('r, bool) io" where
  "drop_eof buf_size br = drop_eof_loop buf_size br False"

text \<open>
  The sink is \<open>write_all\<close> of a \<open>std::io::Write\<close>. The state is that of the sink and that of the reader.
\<close>

partial_function (option) copy_loop ::
    "(bytes \<Rightarrow> 'w \<Rightarrow> 'w \<times> unit res) \<Rightarrow> nat \<Rightarrow> 'r BufferedReader \<Rightarrow> nat \<Rightarrow> 'w \<Rightarrow> 'r \<Rightarrow> (('w \<times> 'r) \<times> nat res) option" where
  "copy_loop write_all buf_size br copied w r =
     (case br_data br buf_size r of
        None \<Rightarrow> None
      | Some (r, Inl e) \<Rightarrow> Some ((w, r), Inl e)
      | Some (r, Inr data) \<Rightarrow>
          (case write_all data w of
             (w, Inl e) \<Rightarrow> Some ((w, r), Inl e)
           | (w, Inr _) \<Rightarrow>
               (let n = length data in
                case br_consume br n r of
                  None \<Rightarrow> None
                | Some (r, Inl e) \<Rightarrow> Some ((w, r), Inl e)
                | Some (r, Inr _) \<Rightarrow>
                    if n < buf_size then Some ((w, r), Inr (copied + n))
                    else copy_loop write_all buf_size br (copied + n) w r)))"

definition copy :: "(bytes \<Rightarrow> 'w \<Rightarrow> 'w \<times> unit res) \<Rightarrow> nat \<Rightarrow> 'r BufferedReader \<Rightarrow> 'w \<Rightarrow> 'r \<Rightarrow> (('w \<times> 'r) \<times> nat res) option" where
  "copy write_all buf_size br w r = copy_loop write_all buf_size br 0 w r"

section \<open>Readers\<close>

subsection \<open>Memory\<close>

record Memory =
  mem_buffer :: bytes
  mem_cursor :: nat

definition Memory_new :: "bytes \<Rightarrow> Memory" where
  "Memory_new b = \<lparr>mem_buffer = b, mem_cursor = 0\<rparr>"

definition Memory_buffer :: "Memory \<Rightarrow> bytes res" where
  "Memory_buffer m = (if mem_cursor m \<le> length (mem_buffer m) then Inr (drop (mem_cursor m) (mem_buffer m)) else Inl Panic)"

definition Memory_data :: "nat \<Rightarrow> (Memory, bytes) io" where
  "Memory_data amount m =
     io_then (io_assert (mem_cursor m \<le> length (mem_buffer m)) m) (\<lambda>_ m. Some (m, Memory_buffer m))"

definition Memory_consume :: "nat \<Rightarrow> (Memory, bytes) io" where
  "Memory_consume amount m =
     io_then (io_assert (mem_cursor m \<le> length (mem_buffer m) \<and> amount \<le> length (mem_buffer m) - mem_cursor m) m) (\<lambda>_ m.
       Some (m\<lparr>mem_cursor := mem_cursor m + amount\<rparr>, Inr (drop (mem_cursor m) (mem_buffer m))))"

definition Memory_data_consume :: "nat \<Rightarrow> (Memory, bytes) io" where
  "Memory_data_consume amount m =
     io_then (io_assert (mem_cursor m \<le> length (mem_buffer m)) m) (\<lambda>_ m.
       Memory_consume (min amount (length (mem_buffer m) - mem_cursor m)) m)"

definition Memory_data_consume_hard :: "nat \<Rightarrow> (Memory, bytes) io" where
  "Memory_data_consume_hard amount m =
     io_then (io_assert (mem_cursor m \<le> length (mem_buffer m)) m) (\<lambda>_ m.
       if length (mem_buffer m) - mem_cursor m < amount then Some (m, Inl (IoErr UnexpectedEof))
       else Memory_consume amount m)"

definition Memory_read :: "nat \<Rightarrow> (Memory, bytes) io" where
  "Memory_read len m =
     io_then (io_assert (mem_cursor m \<le> length (mem_buffer m)) m) (\<lambda>_ m.
       let amount = min len (length (mem_buffer m) - mem_cursor m) in
       io_then (Memory_consume amount m) (\<lambda>_ m'.
         Some (m', Inr (take amount (drop (mem_cursor m) (mem_buffer m))))))"

definition Memory_reader :: "Memory BufferedReader" where
  "Memory_reader =
     \<lparr>br_read = Memory_read, br_buffer = Memory_buffer, br_data = Memory_data,
      br_data_hard = default_data_hard Memory_data, br_consume = Memory_consume,
      br_data_consume = Memory_data_consume, br_data_consume_hard = Memory_data_consume_hard,
      br_consummated = default_eof (default_data_hard Memory_data)\<rparr>"

subsection \<open>EOF\<close>

definition EOF_consume :: "nat \<Rightarrow> (unit, bytes) io" where
  "EOF_consume amount u = Some (u, if amount = 0 then Inr [] else Inl Panic)"

definition EOF_data_consume_hard :: "nat \<Rightarrow> (unit, bytes) io" where
  "EOF_data_consume_hard amount u = Some (u, if amount = 0 then Inr [] else Inl (IoErr UnexpectedEof))"

definition EOF_reader :: "unit BufferedReader" where
  "EOF_reader =
     \<lparr>br_read = (\<lambda>_ u. Some (u, Inr [])), br_buffer = (\<lambda>_. Inr []), br_data = (\<lambda>_ u. Some (u, Inr [])),
      br_data_hard = default_data_hard (\<lambda>_ u. Some (u, Inr [])), br_consume = EOF_consume,
      br_data_consume = (\<lambda>_ u. Some (u, Inr [])), br_data_consume_hard = EOF_data_consume_hard,
      br_consummated = default_eof (default_data_hard (\<lambda>_ u. Some (u, Inr [])))\<rparr>"

subsection \<open>Limitor\<close>

record 'r Limitor =
  lim_limit :: nat
  lim_reader :: 'r

definition Limitor_new :: "'r \<Rightarrow> nat \<Rightarrow> 'r Limitor" where
  "Limitor_new r limit = \<lparr>lim_limit = limit, lim_reader = r\<rparr>"

text \<open>A call of the wrapped reader.\<close>

definition on_reader :: "('r, 'a) io \<Rightarrow> ('s \<Rightarrow> 'r) \<Rightarrow> ('r \<Rightarrow> 's \<Rightarrow> 's) \<Rightarrow> ('s, 'a) io" where
  "on_reader f get put s = map_option (\<lambda>(r, x). (put r s, x)) (f (get s))"

definition Limitor_call :: "('r, 'a) io \<Rightarrow> ('r Limitor, 'a) io" where
  "Limitor_call f = on_reader f lim_reader (\<lambda>r. lim_reader_update (\<lambda>_. r))"

definition Limitor_read :: "'r BufferedReader \<Rightarrow> nat \<Rightarrow> ('r Limitor, bytes) io" where
  "Limitor_read br n l =
     (let len = min (lim_limit l) n in
      io_then (Limitor_call (br_read br len) l) (\<lambda>d l.
        if length d \<le> lim_limit l then Some (l\<lparr>lim_limit := lim_limit l - length d\<rparr>, Inr d) else Some (l, Inl Panic)))"

definition Limitor_buffer :: "'r BufferedReader \<Rightarrow> 'r Limitor \<Rightarrow> bytes res" where
  "Limitor_buffer br l = and_then (br_buffer br (lim_reader l)) (\<lambda>buf. Inr (take (min (length buf) (lim_limit l)) buf))"

definition Limitor_data :: "'r BufferedReader \<Rightarrow> nat \<Rightarrow> ('r Limitor, bytes) io" where
  "Limitor_data br n l =
     (let amount = min n (lim_limit l) in
      io_then (Limitor_call (br_data br amount) l) (\<lambda>buffer l.
        Some (l, Inr (if lim_limit l < length buffer then take (lim_limit l) buffer else buffer))))"

definition Limitor_consume :: "'r BufferedReader \<Rightarrow> nat \<Rightarrow> ('r Limitor, bytes) io" where
  "Limitor_consume br amount l =
     io_then (io_assert (amount \<le> lim_limit l) l) (\<lambda>_ l.
       let l = l\<lparr>lim_limit := lim_limit l - amount\<rparr> in
       io_then (Limitor_call (br_consume br amount) l) (\<lambda>d l.
         Some (l, Inr (take (min (lim_limit l + amount) (length d)) d))))"

definition Limitor_count :: "nat \<Rightarrow> bytes \<Rightarrow> ('r Limitor, bytes) io" where
  "Limitor_count amount buffer l =
     (let amount = min amount (length buffer) in
      io_then (io_assert (amount \<le> lim_limit l) l) (\<lambda>_ l.
        let l = l\<lparr>lim_limit := lim_limit l - amount\<rparr> in
        Some (l, Inr (take (min (length buffer) (lim_limit l + amount)) buffer))))"

definition Limitor_data_consume :: "'r BufferedReader \<Rightarrow> nat \<Rightarrow> ('r Limitor, bytes) io" where
  "Limitor_data_consume br n l =
     (let amount = min n (lim_limit l) in
      io_then (Limitor_call (br_data_consume br amount) l) (Limitor_count amount))"

definition Limitor_data_consume_hard :: "'r BufferedReader \<Rightarrow> nat \<Rightarrow> ('r Limitor, bytes) io" where
  "Limitor_data_consume_hard br amount l =
     (if lim_limit l < amount then Some (l, Inl (IoErr UnexpectedEof))
      else io_then (Limitor_call (br_data_consume_hard br amount) l) (Limitor_count amount))"

definition Limitor_reader :: "'r BufferedReader \<Rightarrow> 'r Limitor BufferedReader" where
  "Limitor_reader br =
     \<lparr>br_read = Limitor_read br, br_buffer = Limitor_buffer br, br_data = Limitor_data br,
      br_data_hard = default_data_hard (Limitor_data br), br_consume = Limitor_consume br,
      br_data_consume = Limitor_data_consume br, br_data_consume_hard = Limitor_data_consume_hard br,
      br_consummated = (\<lambda>l. Some (l, Inr (lim_limit l = 0)))\<rparr>"

subsection \<open>Reserve\<close>

record 'r Reserve =
  res_reserve :: nat
  res_reader :: 'r

definition Reserve_new :: "'r \<Rightarrow> nat \<Rightarrow> 'r Reserve" where
  "Reserve_new r n = \<lparr>res_reserve = n, res_reader = r\<rparr>"

definition Reserve_call :: "('r, 'a) io \<Rightarrow> ('r Reserve, 'a) io" where
  "Reserve_call f = on_reader f res_reader (\<lambda>r. res_reader_update (\<lambda>_. r))"

definition Reserve_read :: "'r BufferedReader \<Rightarrow> nat \<Rightarrow> ('r Reserve, bytes) io" where
  "Reserve_read br n s =
     io_then (Reserve_call (br_data br (n + res_reserve s)) s) (\<lambda>d s.
       if res_reserve s < length d then Reserve_call (br_read br (min n (length d - res_reserve s))) s
       else Some (s, Inr []))"

definition Reserve_buffer :: "'r BufferedReader \<Rightarrow> 'r Reserve \<Rightarrow> bytes res" where
  "Reserve_buffer br s =
     and_then (br_buffer br (res_reader s)) (\<lambda>buf.
       Inr (if res_reserve s < length buf then take (length buf - res_reserve s) buf else []))"

definition Reserve_data :: "'r BufferedReader \<Rightarrow> nat \<Rightarrow> ('r Reserve, bytes) io" where
  "Reserve_data br amount s =
     io_then (Reserve_call (br_data br (amount + res_reserve s)) s) (\<lambda>d s.
       Some (s, Inr (if length d \<le> res_reserve s then [] else take (length d - res_reserve s) d)))"

definition Reserve_consume :: "'r BufferedReader \<Rightarrow> nat \<Rightarrow> ('r Reserve, bytes) io" where
  "Reserve_consume br amount s =
     io_then (Some (s, Reserve_buffer br s)) (\<lambda>b s.
     io_then (io_assert (amount \<le> length b) s) (\<lambda>_ s.
     io_then (Reserve_call (br_consume br amount) s) (\<lambda>d s.
     io_then (io_assert (amount \<le> length d) s) (\<lambda>_ s.
       Some (s, Inr (if amount < length d \<and> amount + res_reserve s < length d
                     then take (length d - res_reserve s) d else take amount d))))))"

definition Reserve_data_consume :: "'r BufferedReader \<Rightarrow> nat \<Rightarrow> ('r Reserve, bytes) io" where
  "Reserve_data_consume br amount s =
     io_then (Reserve_data br amount s) (\<lambda>d s. Reserve_consume br (min amount (length d)) s)"

definition Reserve_data_consume_hard :: "'r BufferedReader \<Rightarrow> nat \<Rightarrow> ('r Reserve, bytes) io" where
  "Reserve_data_consume_hard br amount s =
     io_then (default_data_hard (Reserve_data br) amount s) (\<lambda>d s. Reserve_consume br amount s)"

definition Reserve_reader :: "'r BufferedReader \<Rightarrow> 'r Reserve BufferedReader" where
  "Reserve_reader br =
     \<lparr>br_read = Reserve_read br, br_buffer = Reserve_buffer br, br_data = Reserve_data br,
      br_data_hard = default_data_hard (Reserve_data br), br_consume = Reserve_consume br,
      br_data_consume = Reserve_data_consume br, br_data_consume_hard = Reserve_data_consume_hard br,
      br_consummated = default_eof (default_data_hard (Reserve_data br))\<rparr>"

subsection \<open>Dup\<close>

record 'r Dup =
  dup_cursor :: nat
  dup_reader :: 'r

definition Dup_new :: "'r \<Rightarrow> 'r Dup" where
  "Dup_new r = \<lparr>dup_cursor = 0, dup_reader = r\<rparr>"

definition Dup_rewind :: "'r Dup \<Rightarrow> 'r Dup" where
  "Dup_rewind d = d\<lparr>dup_cursor := 0\<rparr>"

definition Dup_call :: "('r, 'a) io \<Rightarrow> ('r Dup, 'a) io" where
  "Dup_call f = on_reader f dup_reader (\<lambda>r. dup_reader_update (\<lambda>_. r))"

definition Dup_read :: "'r BufferedReader \<Rightarrow> nat \<Rightarrow> ('r Dup, bytes) io" where
  "Dup_read br n s =
     io_then (Dup_call (br_data br (dup_cursor s + n)) s) (\<lambda>d s.
     io_then (io_assert (dup_cursor s \<le> length d) s) (\<lambda>_ s.
       let d = drop (dup_cursor s) d; amount = min n (length d) in
       Some (s\<lparr>dup_cursor := dup_cursor s + amount\<rparr>, Inr (take amount d))))"

definition Dup_buffer :: "'r BufferedReader \<Rightarrow> 'r Dup \<Rightarrow> bytes res" where
  "Dup_buffer br s =
     and_then (br_buffer br (dup_reader s)) (\<lambda>d.
       if dup_cursor s \<le> length d then Inr (drop (dup_cursor s) d) else Inl Panic)"

definition Dup_data :: "'r BufferedReader \<Rightarrow> nat \<Rightarrow> ('r Dup, bytes) io" where
  "Dup_data br amount s =
     io_then (Dup_call (br_data br (dup_cursor s + amount)) s) (\<lambda>d s.
     io_then (io_assert (dup_cursor s \<le> length d) s) (\<lambda>_ s. Some (s, Inr (drop (dup_cursor s) d))))"

definition Dup_consume :: "'r BufferedReader \<Rightarrow> nat \<Rightarrow> ('r Dup, bytes) io" where
  "Dup_consume br amount s =
     io_then (Some (s, br_buffer br (dup_reader s))) (\<lambda>d s.
     io_then (io_assert (dup_cursor s + amount \<le> length d) s) (\<lambda>_ s.
       Some (s\<lparr>dup_cursor := dup_cursor s + amount\<rparr>, Inr (drop (dup_cursor s) d))))"

definition Dup_data_consume :: "'r BufferedReader \<Rightarrow> nat \<Rightarrow> ('r Dup, bytes) io" where
  "Dup_data_consume br amount s =
     io_then (Dup_call (br_data br (dup_cursor s + amount)) s) (\<lambda>d s.
     io_then (io_assert (dup_cursor s \<le> length d) s) (\<lambda>_ s.
       let d = drop (dup_cursor s) d in
       Some (s\<lparr>dup_cursor := dup_cursor s + min (length d) amount\<rparr>, Inr d)))"

definition Dup_data_consume_hard :: "'r BufferedReader \<Rightarrow> nat \<Rightarrow> ('r Dup, bytes) io" where
  "Dup_data_consume_hard br amount s =
     io_then (Dup_call (br_data_hard br (dup_cursor s + amount)) s) (\<lambda>d s.
     io_then (io_assert (dup_cursor s + amount \<le> length d) s) (\<lambda>_ s.
       let d = drop (dup_cursor s) d in
       Some (s\<lparr>dup_cursor := dup_cursor s + amount\<rparr>, Inr d)))"

definition Dup_reader :: "'r BufferedReader \<Rightarrow> 'r Dup BufferedReader" where
  "Dup_reader br =
     \<lparr>br_read = Dup_read br, br_buffer = Dup_buffer br, br_data = Dup_data br,
      br_data_hard = default_data_hard (Dup_data br), br_consume = Dup_consume br,
      br_data_consume = Dup_data_consume br, br_data_consume_hard = Dup_data_consume_hard br,
      br_consummated = default_eof (default_data_hard (Dup_data br))\<rparr>"

subsection \<open>Adapter\<close>

text \<open>\<open>Adapter\<close> changes the type of the cookie, so that its state is that of the wrapped reader.\<close>

definition Adapter_reader :: "'r BufferedReader \<Rightarrow> 'r BufferedReader" where
  "Adapter_reader br =
     \<lparr>br_read = br_read br, br_buffer = br_buffer br, br_data = br_data br,
      br_data_hard = default_data_hard (br_data br), br_consume = br_consume br,
      br_data_consume = br_data_consume br, br_data_consume_hard = br_data_consume_hard br,
      br_consummated = br_consummated br\<rparr>"

subsection \<open>Generic\<close>

text \<open>
  The wrapped source is given by its method \<open>read\<close>: from the size of the buffer to the octets it put there.
\<close>

record 's Generic =
  gen_buffer :: "bytes option"
  gen_cursor :: nat
  gen_preferred_chunk_size :: nat
  gen_reader :: 's
  gen_error :: "failure option"
  gen_eof :: bool

definition Generic_new :: "nat \<Rightarrow> 's \<Rightarrow> nat option \<Rightarrow> 's Generic" where
  "Generic_new buf_size s preferred_chunk_size =
     \<lparr>gen_buffer = None, gen_cursor = 0,
      gen_preferred_chunk_size = (case preferred_chunk_size of Some n \<Rightarrow> n | None \<Rightarrow> buf_size),
      gen_reader = s, gen_error = None, gen_eof = False\<rparr>"

definition amount_buffered :: "'s Generic \<Rightarrow> nat" where
  "amount_buffered g = (case gen_buffer g of Some b \<Rightarrow> length b - gen_cursor g | None \<Rightarrow> 0)"

text \<open>
  The loop that reads until \<open>amount\<close> octets are there, the source ends or it fails. The octets read so far are
  \<open>acc\<close>, in a buffer of \<open>capacity\<close> octets of which the first \<open>buffered\<close> are kept for the old data.
\<close>

partial_function (option) gen_fill ::
    "(nat \<Rightarrow> ('s, bytes) io) \<Rightarrow> nat \<Rightarrow> nat \<Rightarrow> nat \<Rightarrow> bytes \<Rightarrow> 's Generic \<Rightarrow> ('s Generic \<times> bytes) option" where
  "gen_fill read capacity buffered amount acc g =
     (if buffered + length acc < amount \<and> \<not> gen_eof g \<and> gen_error g = None then
        (case read (capacity - (buffered + length acc)) (gen_reader g) of
           None \<Rightarrow> None
         | Some (s, Inr d) \<Rightarrow>
             (let g = g\<lparr>gen_reader := s\<rparr> in
              if d = [] then Some (g\<lparr>gen_eof := True\<rparr>, acc)
              else gen_fill read capacity buffered amount (acc @ d) g)
         | Some (s, Inl e) \<Rightarrow>
             (let g = g\<lparr>gen_reader := s\<rparr> in
              if e = IoErr Interrupted then gen_fill read capacity buffered amount acc g
              else Some (g\<lparr>gen_error := Some e\<rparr>, acc)))
      else Some (g, acc))"

definition gen_refill :: "nat \<Rightarrow> (nat \<Rightarrow> ('s, bytes) io) \<Rightarrow> nat \<Rightarrow> 's Generic \<Rightarrow> 's Generic option" where
  "gen_refill buf_size read amount g =
     (let buffered = amount_buffered g in
      if buffered < amount then
        (let capacity = amount + max buf_size (gen_preferred_chunk_size g * 2) in
         case gen_fill read capacity buffered amount [] g of
           None \<Rightarrow> None
         | Some (g, acc) \<Rightarrow>
             Some (if acc \<noteq> [] then
                     g\<lparr>gen_buffer := Some (take buffered (drop (gen_cursor g) (case gen_buffer g of Some b \<Rightarrow> b | None \<Rightarrow> [])) @ acc),
                       gen_cursor := 0\<rparr>
                   else g))
      else Some g)"

text \<open>The end of \<open>data_helper\<close>: what is returned from the buffer.\<close>

definition Generic_result :: "nat \<Rightarrow> bool \<Rightarrow> bool \<Rightarrow> ('s Generic, bytes) io" where
  "Generic_result amount hard and_consume g =
     (let buffered = amount_buffered g in
      if hard \<and> buffered < amount then Some (g, Inl (IoErr UnexpectedEof))
      else if amount = 0 \<or> buffered = 0 then Some (g, Inr [])
      else
        (case gen_buffer g of
           None \<Rightarrow> Some (g, Inl Panic)
         | Some buffer \<Rightarrow>
             Some (if and_consume then g\<lparr>gen_cursor := gen_cursor g + min buffered amount\<rparr> else g,
                   Inr (drop (gen_cursor g) buffer))))"

definition Generic_data_helper :: "nat \<Rightarrow> (nat \<Rightarrow> ('s, bytes) io) \<Rightarrow> nat \<Rightarrow> bool \<Rightarrow> bool \<Rightarrow> ('s Generic, bytes) io" where
  "Generic_data_helper buf_size read amount hard and_consume g =
     io_then (io_assert (case gen_buffer g of Some b \<Rightarrow> gen_cursor g \<le> length b | None \<Rightarrow> gen_cursor g = 0) g) (\<lambda>_ g.
       case gen_refill buf_size read amount g of
         None \<Rightarrow> None
       | Some g \<Rightarrow>
           (let buffered = amount_buffered g in
            case gen_error g of
              Some e \<Rightarrow>
                if hard \<and> buffered < amount \<or> \<not> hard \<and> buffered = 0 then Some (g\<lparr>gen_error := None\<rparr>, Inl e)
                else Generic_result amount hard and_consume g
            | None \<Rightarrow> Generic_result amount hard and_consume g))"

definition Generic_buffer :: "'s Generic \<Rightarrow> bytes res" where
  "Generic_buffer g =
     (case gen_buffer g of
        Some b \<Rightarrow> if gen_cursor g \<le> length b then Inr (drop (gen_cursor g) b) else Inl Panic
      | None \<Rightarrow> Inr [])"

definition Generic_consume :: "nat \<Rightarrow> ('s Generic, bytes) io" where
  "Generic_consume amount g =
     (case gen_buffer g of
        Some b \<Rightarrow>
          io_then (io_assert (gen_cursor g \<le> length b \<and> amount \<le> length b - gen_cursor g) g) (\<lambda>_ g.
            Some (g\<lparr>gen_cursor := gen_cursor g + amount\<rparr>, Inr (drop (gen_cursor g) b)))
      | None \<Rightarrow> io_then (io_assert (amount = 0) g) (\<lambda>_ g. Some (g, Inr [])))"

definition Generic_reader :: "nat \<Rightarrow> (nat \<Rightarrow> ('s, bytes) io) \<Rightarrow> 's Generic BufferedReader" where
  "Generic_reader buf_size read =
     (let helper = Generic_data_helper buf_size read in
      \<lparr>br_read = buffered_reader_generic_read_impl (\<lambda>n. helper n False True), br_buffer = Generic_buffer,
       br_data = (\<lambda>n. helper n False False), br_data_hard = (\<lambda>n. helper n True False), br_consume = Generic_consume,
       br_data_consume = (\<lambda>n. helper n False True), br_data_consume_hard = (\<lambda>n. helper n True True),
       br_consummated = default_eof (\<lambda>n. helper n True False)\<rparr>)"

end
