(* ===== verification/ReaderContract.thy ===== *)
theory ReaderContract
  imports BufferedReaders
begin

text \<open>
  The contract of the trait \<open>BufferedReader\<close> as locales, what the provided methods compute for every reader that
  keeps it, and the proof that the readers of the crate keep it. An adaptor keeps it if the reader it wraps does, so
  stacks of readers of any height are covered.
\<close>

section \<open>Searching\<close>

text \<open>The octets through the first that satisfies a predicate, or all.\<close>

definition through :: "('a \<Rightarrow> bool) \<Rightarrow> 'a list \<Rightarrow> 'a list" where
  "through p xs = takeWhile (\<lambda>x. \<not> p x) xs @ take 1 (dropWhile (\<lambda>x. \<not> p x) xs)"

lemma position_Some_less: "position p xs = Some i \<Longrightarrow> i < length xs"
  by (induction xs arbitrary: i) (auto split: if_splits)

lemma position_None: "position p xs = None \<Longrightarrow> x \<in> set xs \<Longrightarrow> \<not> p x"
  by (induction xs) (auto split: if_splits)

lemma position_Some_takeWhile: "position p xs = Some i \<Longrightarrow> length (takeWhile (\<lambda>x. \<not> p x) (xs @ ys)) = i"
  by (induction xs arbitrary: i) (auto split: if_splits)

lemma position_Some_through: "position p xs = Some i \<Longrightarrow> take (Suc i) (xs @ ys) = through p (xs @ ys)"
  by (induction xs arbitrary: i) (auto simp: through_def split: if_splits)

lemma position_None_through: "position p xs = None \<Longrightarrow> through p xs = xs"
  by (induction xs) (auto simp: through_def split: if_splits)

lemma prefix_full: "prefix d xs \<Longrightarrow> min n (length xs) \<le> length d \<Longrightarrow> length d < n \<Longrightarrow> d = xs"
  by (auto simp: prefix_def min_def split: if_splits)

lemma prefix_take_mono: "prefix a b \<Longrightarrow> prefix (take n a) (take n b)"
  by (auto simp: prefix_def)

lemma prefix_drop_mono: "prefix a b \<Longrightarrow> prefix (drop n a) (drop n b)"
  by (auto simp: prefix_def)

lemma prefix_take_le: "prefix a b \<Longrightarrow> m \<le> n \<Longrightarrow> prefix (take m a) (take n b)"
  by (metis prefix_take_mono take_is_prefix take_take min.absorb2 prefix_order.trans)

lemma take_drop_append: "take n (drop c b) @ drop (c + n) b = drop c b"
  by (metis add.commute append_take_drop_id drop_drop)

lemma take_min_length [simp]: "take (min n (length d)) d = take n d" "take (min (length d) n) d = take n d"
  by (simp_all add: min_def)

lemma take_if: "(if n < length d then take n d else d) = take n d"
  by simp

section \<open>The contract\<close>

text \<open>The provided methods without their assertions.\<close>

lemma default_data_consume_plain:
  "default_data_consume data consume n r = Some (r', Inr d) \<Longrightarrow>
     io_then (data n r) (\<lambda>d r. consume (min n (length d)) r) = Some (r', Inr d)"
  by (auto simp: default_data_consume_def io_then_def io_assert_def Let_def split: option.splits prod.splits sum.splits if_splits)

lemma default_data_consume_hard_plain:
  "default_data_consume_hard data_hard consume n r = Some (r', Inr d) \<Longrightarrow>
     io_then (data_hard n r) (\<lambda>d r. consume n r) = Some (r', Inr d)"
  by (auto simp: default_data_consume_hard_def io_then_def io_assert_def split: option.splits prod.splits sum.splits if_splits)

text \<open>
  A state \<open>r\<close> in which the source does not fail (\<open>ok r\<close>) has octets that are not consumed yet (\<open>rem r\<close>), a prefix
  of which is buffered (\<open>buf r\<close>). Looking at data extends the buffer, to the requested amount if there is that
  much; consuming takes from the buffer. An amount of zero may be answered with less than the buffer.
\<close>

locale reader_core =
  fixes buffer :: "'r \<Rightarrow> bytes res"
    and data :: "nat \<Rightarrow> ('r, bytes) io"
    and consume :: "nat \<Rightarrow> ('r, bytes) io"
    and buf :: "'r \<Rightarrow> bytes"
    and rem :: "'r \<Rightarrow> bytes"
    and ok :: "'r \<Rightarrow> bool"
  assumes buffer: "ok r \<Longrightarrow> buffer r = Inr (buf r)"
    and buf_prefix: "ok r \<Longrightarrow> prefix (buf r) (rem r)"
    and data: "ok r \<Longrightarrow> \<exists>r' d. data n r = Some (r', Inr d) \<and> ok r' \<and> rem r' = rem r \<and> prefix (buf r) (buf r')
      \<and> prefix d (buf r') \<and> (0 < n \<longrightarrow> d = buf r') \<and> min n (length (rem r)) \<le> length d"
    and consume: "ok r \<Longrightarrow> n \<le> length (buf r) \<Longrightarrow>
      \<exists>r'. consume n r = Some (r', Inr (buf r)) \<and> ok r' \<and> rem r' = drop n (rem r) \<and> buf r' = drop n (buf r)"
begin

lemma buf_length: "ok r \<Longrightarrow> length (buf r) \<le> length (rem r)"
  using buf_prefix by (blast dest: prefix_length_le)

lemma dataE:
  assumes "ok r"
  obtains r' d where "data n r = Some (r', Inr d)" "ok r'" "rem r' = rem r" "prefix (buf r) (buf r')" "prefix d (buf r')"
    "0 < n \<Longrightarrow> d = buf r'" "min n (length (rem r)) \<le> length d" "prefix d (rem r)"
proof -
  obtain r' d where r': "data n r = Some (r', Inr d)" "ok r'" "rem r' = rem r" "prefix (buf r) (buf r')" "prefix d (buf r')"
      "0 < n \<longrightarrow> d = buf r'" "min n (length (rem r)) \<le> length d"
    using data [OF assms, of n] by blast
  moreover have "prefix d (rem r)" using r'(3,5) buf_prefix [OF r'(2)] by simp
  ultimately show thesis using that by blast
qed

lemma consumeE:
  assumes "ok r" "n \<le> length (buf r)"
  obtains r' where "consume n r = Some (r', Inr (buf r))" "ok r'" "rem r' = drop n (rem r)" "buf r' = drop n (buf r)"
  using consume [OF assms] by blast

lemma default_data_hard_ok:
  assumes "ok r" "n \<le> length (rem r)"
  shows "\<exists>r' d. default_data_hard data n r = Some (r', Inr d) \<and> ok r' \<and> rem r' = rem r \<and> prefix d (buf r') \<and> n \<le> length d"
  using dataE [OF assms(1), of n] assms(2) by (fastforce simp: default_data_hard_def)

lemma default_data_hard_short:
  assumes "ok r" "length (rem r) < n"
  shows "\<exists>r'. default_data_hard data n r = Some (r', Inl (IoErr UnexpectedEof)) \<and> ok r' \<and> rem r' = rem r \<and> prefix (buf r) (buf r')"
proof -
  obtain r' d where d: "data n r = Some (r', Inr d)" "ok r'" "rem r' = rem r" "prefix d (rem r)" "prefix (buf r) (buf r')"
    using dataE [OF assms(1)] by metis
  then have "length d < n" using assms(2) prefix_length_le [OF d(4)] by simp
  then show ?thesis using d by (simp add: default_data_hard_def)
qed

lemma default_data_consume_ok:
  assumes "ok r"
  shows "\<exists>r' d. default_data_consume data consume n r = Some (r', Inr d) \<and> ok r' \<and> rem r' = drop n (rem r)
    \<and> prefix d (rem r) \<and> min n (length (rem r)) \<le> length d"
proof -
  obtain r1 d where d: "data n r = Some (r1, Inr d)" "ok r1" "rem r1 = rem r" "prefix d (buf r1)"
      "min n (length (rem r)) \<le> length d" "prefix d (rem r)"
    using dataE [OF assms] by metis
  have le: "length d \<le> length (buf r1)" "length d \<le> length (rem r)"
    using d(4,6) by (auto dest: prefix_length_le)
  then have "min n (length d) \<le> length (buf r1)" by simp
  then obtain r2 where r2: "consume (min n (length d)) r1 = Some (r2, Inr (buf r1))" "ok r2" "rem r2 = drop (min n (length d)) (rem r1)"
    using consumeE [OF d(2)] by metis
  have "drop (min n (length d)) (rem r) = drop n (rem r)"
    using d(5) le(2) by (cases "n \<le> length d") auto
  then show ?thesis
    using d r2 le buf_prefix [OF d(2)] by (auto simp: default_data_consume_def Let_def min_le_iff_disj)
qed

lemma default_data_consume_hard_ok:
  assumes "ok r" "n \<le> length (rem r)"
  shows "\<exists>r' d. default_data_consume_hard (default_data_hard data) consume n r = Some (r', Inr d) \<and> ok r' \<and> rem r' = drop n (rem r)
    \<and> prefix d (rem r) \<and> n \<le> length d"
proof -
  obtain r1 d where d: "default_data_hard data n r = Some (r1, Inr d)" "ok r1" "rem r1 = rem r" "prefix d (buf r1)" "n \<le> length d"
    using default_data_hard_ok [OF assms] by blast
  then have n: "n \<le> length (buf r1)" by (meson order_trans prefix_length_le)
  obtain r2 where "consume n r1 = Some (r2, Inr (buf r1))" "ok r2" "rem r2 = drop n (rem r1)"
    using consumeE [OF d(2) n] by metis
  then show ?thesis
    using d n buf_prefix [OF d(2)] by (auto simp: default_data_consume_hard_def)
qed

lemma default_data_consume_hard_short:
  assumes "ok r" "length (rem r) < n"
  shows "\<exists>r'. default_data_consume_hard (default_data_hard data) consume n r = Some (r', Inl (IoErr UnexpectedEof)) \<and> ok r' \<and> rem r' = rem r"
  using default_data_hard_short [OF assms] by (auto simp: default_data_consume_hard_def)

end

locale buffered_reader = reader_core "br_buffer br" "br_data br" "br_consume br" buf rem ok
  for br :: "'r BufferedReader" and buf rem ok +
  assumes data_hard: "ok r \<Longrightarrow> n \<le> length (rem r) \<Longrightarrow>
      \<exists>r' d. br_data_hard br n r = Some (r', Inr d) \<and> ok r' \<and> rem r' = rem r \<and> prefix d (buf r') \<and> n \<le> length d"
    and data_hard_short: "ok r \<Longrightarrow> length (rem r) < n \<Longrightarrow>
      \<exists>r'. br_data_hard br n r = Some (r', Inl (IoErr UnexpectedEof)) \<and> ok r' \<and> rem r' = rem r \<and> prefix (buf r) (buf r')"
    and data_consume: "ok r \<Longrightarrow> \<exists>r' d. br_data_consume br n r = Some (r', Inr d) \<and> ok r' \<and> rem r' = drop n (rem r)
      \<and> prefix d (rem r) \<and> min n (length (rem r)) \<le> length d"
    and data_consume_hard: "ok r \<Longrightarrow> n \<le> length (rem r) \<Longrightarrow>
      \<exists>r' d. br_data_consume_hard br n r = Some (r', Inr d) \<and> ok r' \<and> rem r' = drop n (rem r) \<and> prefix d (rem r) \<and> n \<le> length d"
    and data_consume_hard_short: "ok r \<Longrightarrow> length (rem r) < n \<Longrightarrow>
      \<exists>r'. br_data_consume_hard br n r = Some (r', Inl (IoErr UnexpectedEof)) \<and> ok r' \<and> rem r' = rem r"
    and read: "ok r \<Longrightarrow> \<exists>r' d. br_read br n r = Some (r', Inr d) \<and> ok r' \<and> rem r = d @ rem r' \<and> length d \<le> n
      \<and> (0 < n \<and> d = [] \<longrightarrow> rem r = [])"
begin

text \<open>The loops of the provided methods end and return what they should.\<close>

lemma data_eof_loop_ok:
  assumes "ok r" "0 < s"
  shows "\<exists>r'. data_eof_loop br s r = Some (r', Inr (length (rem r))) \<and> ok r' \<and> rem r' = rem r \<and> buf r' = rem r"
  using assms
proof (induction "Suc (length (rem r)) - s" arbitrary: s r rule: less_induct)
  case less
  obtain r1 d where d: "br_data br s r = Some (r1, Inr d)" "ok r1" "rem r1 = rem r" "d = buf r1"
      "min s (length (rem r)) \<le> length d" "prefix d (rem r)"
    using dataE [OF less.prems(1)] less.prems(2) by metis
  show ?case
  proof (cases "length d < s")
    case True
    then have "d = rem r" by (rule prefix_full [OF d(6,5)])
    then show ?thesis
      using d True by (subst data_eof_loop.simps) simp
  next
    case False
    then have "s \<le> length (rem r)" using prefix_length_le [OF d(6)] by simp
    then have "\<exists>r'. data_eof_loop br (s * 2) r1 = Some (r', Inr (length (rem r1))) \<and> ok r' \<and> rem r' = rem r1 \<and> buf r' = rem r1"
      using less.prems(2) d(2,3) by (intro less.hyps) auto
    then show ?thesis
      using d False by (subst data_eof_loop.simps) simp
  qed
qed

lemma data_eof_ok:
  assumes "ok r" "0 < buf_size"
  shows "\<exists>r'. data_eof buf_size br r = Some (r', Inr (rem r)) \<and> ok r' \<and> rem r' = rem r"
  using data_eof_loop_ok [OF assms] buffer by (auto simp: data_eof_def)

lemma steal_short:
  assumes "ok r" "length (rem r) < n"
  shows "\<exists>r'. steal br n r = Some (r', Inl (IoErr UnexpectedEof)) \<and> ok r' \<and> rem r' = rem r"
  using data_consume_hard_short [OF assms] by (auto simp: steal_def)

lemma steal_ok:
  assumes "ok r" "n \<le> length (rem r)"
  shows "\<exists>r'. steal br n r = Some (r', Inr (take n (rem r))) \<and> ok r' \<and> rem r' = drop n (rem r)"
proof -
  obtain r' d where r': "br_data_consume_hard br n r = Some (r', Inr d)" "ok r'" "rem r' = drop n (rem r)" "prefix d (rem r)" "n \<le> length d"
    using data_consume_hard [OF assms] by blast
  then have "take n d = take n (rem r)" by (auto simp: prefix_def)
  then show ?thesis
    using r' by (auto simp: steal_def)
qed

lemma steal_eof_ok:
  assumes "ok r" "0 < buf_size"
  shows "\<exists>r'. steal_eof buf_size br r = Some (r', Inr (rem r)) \<and> ok r' \<and> rem r' = []"
proof -
  obtain r1 where r1: "data_eof buf_size br r = Some (r1, Inr (rem r))" "ok r1" "rem r1 = rem r"
    using data_eof_ok [OF assms] by blast
  then show ?thesis
    using steal_ok [OF r1(2), of "length (rem r)"] by (auto simp: steal_eof_def)
qed

lemma read_to_loop_ok:
  assumes "ok r" "0 < n"
  shows "\<exists>r' k. read_to_loop br c n r = Some (r', Inr k) \<and> ok r' \<and> rem r' = rem r \<and> k \<le> length (buf r')
    \<and> take k (rem r) = through (\<lambda>x. x = c) (rem r)"
  using assms
proof (induction "Suc (length (rem r)) - n" arbitrary: n r rule: less_induct)
  case less
  obtain r1 d where d: "br_data br n r = Some (r1, Inr d)" "ok r1" "rem r1 = rem r" "d = buf r1"
      "min n (length (rem r)) \<le> length d" "prefix d (rem r)"
    using dataE [OF less.prems(1)] less.prems(2) by metis
  show ?case
  proof (cases "position (\<lambda>x. x = c) d")
    case (Some i)
    then show ?thesis
      using d position_Some_through [OF Some] by (subst read_to_loop.simps) (auto dest: position_Some_less simp: Suc_le_eq prefix_def)
  next
    case None
    show ?thesis
    proof (cases "length d < n")
      case True
      then have "d = rem r"
        using prefix_full [OF d(6,5)] by simp
      then show ?thesis
        using d True None position_None_through [OF None] by (subst read_to_loop.simps) simp
    next
      case False
      then have "n \<le> length (rem r)" using prefix_length_le [OF d(6)] by simp
      then have "\<exists>r' k. read_to_loop br c (max (2 * n) (length d + 1024)) r1 = Some (r', Inr k) \<and> ok r' \<and> rem r' = rem r1
          \<and> k \<le> length (buf r') \<and> take k (rem r1) = through (\<lambda>x. x = c) (rem r1)"
        using less.prems(2) d(2,3) by (intro less.hyps) auto
      then show ?thesis
        using d False None by (subst read_to_loop.simps) simp
    qed
  qed
qed

lemma read_to_ok:
  assumes "ok r"
  shows "\<exists>r'. read_to br c r = Some (r', Inr (through (\<lambda>x. x = c) (rem r))) \<and> ok r' \<and> rem r' = rem r"
proof -
  obtain r' k where r': "read_to_loop br c 128 r = Some (r', Inr k)" "ok r'" "rem r' = rem r" "k \<le> length (buf r')"
      "take k (rem r) = through (\<lambda>x. x = c) (rem r)"
    using read_to_loop_ok [OF assms, of 128 c] by auto
  moreover have "take k (buf r') = take k (rem r)"
    using buf_prefix [OF r'(2)] r'(3,4) by (auto simp: prefix_def)
  ultimately show ?thesis
    using buffer [OF r'(2)] by (auto simp: read_to_def)
qed

lemma drop_until_loop_ok:
  assumes "ok r" "0 < buf_size"
  shows "\<exists>r' m p. drop_until_loop buf_size br ts k r = Some (r', Inr (k + m, p)) \<and> ok r' \<and> p \<le> length (buf r')
    \<and> rem r' = drop m (rem r) \<and> m + p = length (takeWhile (\<lambda>x. x \<notin> set ts) (rem r))"
  using assms
proof (induction "length (rem r)" arbitrary: k r rule: less_induct)
  case less
  obtain r1 d where d: "(if buf r = [] then br_data br buf_size r else Some (r, Inr (buf r))) = Some (r1, Inr d)" "ok r1" "rem r1 = rem r"
      "d = buf r1" "d = [] \<Longrightarrow> rem r = []"
  proof (cases "buf r = []")
    case True
    then show thesis
      using dataE [OF less.prems(1), of buf_size] less.prems(2) that by (metis length_0_conv min_def le_zero_eq not_gr_zero)
  next
    case False
    then show thesis using less.prems(1) by (intro that [of r "buf r"]) auto
  qed
  have pre: "prefix d (rem r)" using buf_prefix [OF d(2)] d(3,4) by simp
  show ?case
  proof (cases "position (\<lambda>x. x \<in> set ts) d")
    case (Some p)
    then have "d \<noteq> []" "p < length d" by (auto dest: position_Some_less)
    then have "drop_until_loop buf_size br ts k r = Some (r1, Inr (k, p))"
      using d(1) Some buffer [OF less.prems(1)] by (subst drop_until_loop.simps) (simp)
    then show ?thesis
      using d Some pre \<open>p < length d\<close> position_Some_takeWhile [OF Some] by (intro exI [of _ r1] exI [of _ 0] exI [of _ p]) (auto simp: prefix_def)
  next
    case None
    show ?thesis
    proof (cases "d = []")
      case True
      then have "drop_until_loop buf_size br ts k r = Some (r1, Inr (k, 0))"
        using d(1) buffer [OF less.prems(1)] by (subst drop_until_loop.simps) simp
      then show ?thesis
        using d True by (intro exI [of _ r1] exI [of _ 0]) auto
    next
      case False
      obtain r2 where r2: "br_consume br (length d) r1 = Some (r2, Inr d)" "ok r2" "rem r2 = drop (length d) (rem r)"
        using consumeE [OF d(2), of "length d"] d(3,4) by auto
      have "length (rem r2) < length (rem r)"
        using r2(3) False prefix_length_le [OF pre] by (cases d) auto
      then obtain r' m p where r': "drop_until_loop buf_size br ts (k + length d) r2 = Some (r', Inr (k + length d + m, p))" "ok r'"
          "p \<le> length (buf r')" "rem r' = drop m (rem r2)" "m + p = length (takeWhile (\<lambda>x. x \<notin> set ts) (rem r2))"
        using less.hyps [of r2 "k + length d"] r2(2) less.prems(2) by blast
      have "drop_until_loop buf_size br ts k r = Some (r', Inr (k + (length d + m), p))"
        using d(1) False None r2(1) r'(1) buffer [OF less.prems(1)] by (subst drop_until_loop.simps) (simp add: add.assoc)
      moreover have "length (takeWhile (\<lambda>x. x \<notin> set ts) (rem r)) = length d + length (takeWhile (\<lambda>x. x \<notin> set ts) (rem r2))"
        using pre r2(3) position_None [OF None] by (auto simp: prefix_def takeWhile_append2)
      ultimately show ?thesis
        using r' r2(3) by (intro exI [of _ r'] exI [of _ "length d + m"] exI [of _ p]) (auto simp: add.commute)
    qed
  qed
qed

lemma drop_until_ok:
  assumes "ok r" "0 < buf_size" "sorted ts"
  shows "\<exists>r'. drop_until buf_size br ts r = Some (r', Inr (length (takeWhile (\<lambda>x. x \<notin> set ts) (rem r)))) \<and> ok r'
    \<and> rem r' = dropWhile (\<lambda>x. x \<notin> set ts) (rem r)"
proof -
  obtain r1 m p where r1: "drop_until_loop buf_size br ts 0 r = Some (r1, Inr (0 + m, p))" "ok r1" "p \<le> length (buf r1)"
      "rem r1 = drop m (rem r)" "m + p = length (takeWhile (\<lambda>x. x \<notin> set ts) (rem r))"
    using drop_until_loop_ok [OF assms(1,2)] by blast
  obtain r2 where "br_consume br p r1 = Some (r2, Inr (buf r1))" "ok r2" "rem r2 = drop p (rem r1)"
    using consumeE [OF r1(2,3)] by metis
  then show ?thesis
    using r1 assms(3) by (auto simp: drop_until_def dropWhile_eq_drop add.commute)
qed

lemma drop_through_ok:
  assumes "ok r" "0 < buf_size" "sorted ts"
  shows "\<exists>r'. drop_through buf_size br ts match_eof r = Some (r', case dropWhile (\<lambda>x. x \<notin> set ts) (rem r) of
       [] \<Rightarrow> if match_eof then Inr (None, length (rem r)) else Inl (IoErr UnexpectedEof)
     | c # cs \<Rightarrow> Inr (Some c, length (rem r) - length cs)) \<and> ok r' \<and> rem r' = tl (dropWhile (\<lambda>x. x \<notin> set ts) (rem r))"
proof -
  obtain r1 where r1: "drop_until buf_size br ts r = Some (r1, Inr (length (takeWhile (\<lambda>x. x \<notin> set ts) (rem r))))" "ok r1"
      "rem r1 = dropWhile (\<lambda>x. x \<notin> set ts) (rem r)"
    using drop_until_ok [OF assms] by blast
  obtain r2 d where r2: "br_data_consume br 1 r1 = Some (r2, Inr d)" "ok r2" "rem r2 = drop 1 (rem r1)" "prefix d (rem r1)"
      "min 1 (length (rem r1)) \<le> length d"
    using data_consume [OF r1(2)] by blast
  have "length (takeWhile (\<lambda>x. x \<notin> set ts) (rem r)) + length (rem r1) = length (rem r)"
    unfolding r1(3) by (metis length_append takeWhile_dropWhile_id)
  then show ?thesis
    using r1(1,2) r2 unfolding r1(3) [symmetric] by (cases "rem r1"; cases d) (auto simp: drop_through_def)
qed

lemma chunkE:
  assumes "ok r" "0 < n"
  obtains r1 r2 d where "br_data br n r = Some (r1, Inr d)" "br_consume br (length d) r1 = Some (r2, Inr d)" "ok r2"
    "rem r = d @ rem r2" "length d < n \<Longrightarrow> rem r2 = []"
proof -
  obtain r1 d where d: "br_data br n r = Some (r1, Inr d)" "ok r1" "rem r1 = rem r" "d = buf r1"
      "min n (length (rem r)) \<le> length d" "prefix d (rem r)"
    using dataE [OF assms(1)] assms(2) by metis
  obtain r2 where r2: "br_consume br (length d) r1 = Some (r2, Inr d)" "ok r2" "rem r2 = drop (length d) (rem r)"
    using consumeE [OF d(2), of "length d"] d(3,4) by auto
  show thesis
    using d(6) prefix_full [OF d(6,5)] r2 by (intro that [OF d(1) r2(1,2)]) (auto simp: prefix_def)
qed

lemma drop_eof_loop_ok:
  assumes "ok r" "0 < buf_size"
  shows "\<exists>r'. drop_eof_loop buf_size br b r = Some (r', Inr (b \<or> rem r \<noteq> [])) \<and> ok r' \<and> rem r' = []"
  using assms
proof (induction "length (rem r)" arbitrary: b r rule: less_induct)
  case less
  obtain r1 r2 d where d: "br_data br buf_size r = Some (r1, Inr d)" "br_consume br (length d) r1 = Some (r2, Inr d)" "ok r2"
      "rem r = d @ rem r2" "length d < buf_size \<Longrightarrow> rem r2 = []"
    using chunkE [OF less.prems] by metis
  show ?case
  proof (cases "length d < buf_size")
    case False
    then have "d \<noteq> []" using less.prems(2) by auto
    then show ?thesis
      using less.hyps [of r2 "b \<or> d \<noteq> []"] d False less.prems(2) by (subst drop_eof_loop.simps) auto
  qed (use d in \<open>subst drop_eof_loop.simps, auto\<close>)
qed

lemma drop_eof_ok:
  assumes "ok r" "0 < buf_size"
  shows "\<exists>r'. drop_eof buf_size br r = Some (r', Inr (rem r \<noteq> [])) \<and> ok r' \<and> rem r' = []"
  using drop_eof_loop_ok [OF assms, of False] by (simp add: drop_eof_def)

text \<open>Copying into a vector.\<close>

lemma copy_loop_ok:
  assumes "ok r" "0 < buf_size"
  shows "\<exists>r'. copy_loop (\<lambda>d w. (w @ d, Inr ())) buf_size br k w r = Some ((w @ rem r, r'), Inr (k + length (rem r))) \<and> ok r' \<and> rem r' = []"
  using assms
proof (induction "length (rem r)" arbitrary: k w r rule: less_induct)
  case less
  obtain r1 r2 d where d: "br_data br buf_size r = Some (r1, Inr d)" "br_consume br (length d) r1 = Some (r2, Inr d)" "ok r2"
      "rem r = d @ rem r2" "length d < buf_size \<Longrightarrow> rem r2 = []"
    using chunkE [OF less.prems] by metis
  show ?case
  proof (cases "length d < buf_size")
    case False
    then have "d \<noteq> []" using less.prems(2) by auto
    then show ?thesis
      using less.hyps [of r2 "k + length d" "w @ d"] d False less.prems(2) by (subst copy_loop.simps) auto
  qed (use d in \<open>subst copy_loop.simps, auto\<close>)
qed

lemma copy_ok:
  assumes "ok r" "0 < buf_size"
  shows "\<exists>r'. copy (\<lambda>d w. (w @ d, Inr ())) buf_size br w r = Some ((w @ rem r, r'), Inr (length (rem r))) \<and> ok r' \<and> rem r' = []"
  using copy_loop_ok [OF assms, of 0] by (simp add: copy_def)

lemma eof_ok:
  assumes "ok r"
  shows "\<exists>r'. eof br r = Some (r', Inr (rem r = [])) \<and> ok r' \<and> rem r' = rem r"
  using data_hard [OF assms, of 1] data_hard_short [OF assms, of 1]
  by (cases "rem r") (auto simp: eof_def default_eof_def)

end

lemma buffered_readerI:
  assumes core: "reader_core (br_buffer br) (br_data br) (br_consume br) buf rem ok"
    and hard: "br_data_hard br = default_data_hard (br_data br)"
    and "\<And>r n. ok r \<Longrightarrow> \<exists>r' d. br_data_consume br n r = Some (r', Inr d) \<and> ok r' \<and> rem r' = drop n (rem r)
      \<and> prefix d (rem r) \<and> min n (length (rem r)) \<le> length d"
    and "\<And>r n. ok r \<Longrightarrow> n \<le> length (rem r) \<Longrightarrow>
      \<exists>r' d. br_data_consume_hard br n r = Some (r', Inr d) \<and> ok r' \<and> rem r' = drop n (rem r) \<and> prefix d (rem r) \<and> n \<le> length d"
    and "\<And>r n. ok r \<Longrightarrow> length (rem r) < n \<Longrightarrow>
      \<exists>r'. br_data_consume_hard br n r = Some (r', Inl (IoErr UnexpectedEof)) \<and> ok r' \<and> rem r' = rem r"
    and "\<And>r n. ok r \<Longrightarrow> \<exists>r' d. br_read br n r = Some (r', Inr d) \<and> ok r' \<and> rem r = d @ rem r' \<and> length d \<le> n
      \<and> (0 < n \<and> d = [] \<longrightarrow> rem r = [])"
  shows "buffered_reader br buf rem ok"
  using reader_core.default_data_hard_ok [OF core] reader_core.default_data_hard_short [OF core]
  by (intro buffered_reader.intro [OF core] buffered_reader_axioms.intro) (simp_all add: hard assms(3-6))

text \<open>
  A source of octets, as \<open>std::io::Read\<close> documents it: a read returns at most as many octets as asked for, none only
  at the end, and may be interrupted, though not forever.
\<close>

locale read_source =
  fixes read :: "nat \<Rightarrow> ('s, bytes) io"
    and src :: "'s \<Rightarrow> bytes"
    and src_ok :: "'s \<Rightarrow> bool"
    and retries :: "'s \<Rightarrow> nat"
  assumes read_step: "src_ok s \<Longrightarrow> 0 < n \<Longrightarrow> \<exists>s' x. read n s = Some (s', x) \<and> src_ok s' \<and>
      (x = Inl (IoErr Interrupted) \<and> src s' = src s \<and> retries s' < retries s
       \<or> (\<exists>d. x = Inr d \<and> length d \<le> n \<and> src s = d @ src s' \<and> (d = [] \<longrightarrow> src s = []) \<and> retries s' \<le> retries s))"

text \<open>A reader that keeps the contract is such a source.\<close>

sublocale buffered_reader \<subseteq> source: read_source "br_read br" rem ok "\<lambda>_. 0"
proof
  fix s and n :: nat
  assume "ok s" "0 < n"
  then show "\<exists>s' x. br_read br n s = Some (s', x) \<and> ok s' \<and>
      (x = Inl (IoErr Interrupted) \<and> rem s' = rem s \<and> 0 < (0 :: nat)
       \<or> (\<exists>d. x = Inr d \<and> length d \<le> n \<and> rem s = d @ rem s' \<and> (d = [] \<longrightarrow> rem s = []) \<and> 0 \<le> (0 :: nat)))"
    using read [of s n] by blast
qed

section \<open>Memory\<close>

definition mem_rem :: "Memory \<Rightarrow> bytes" where
  "mem_rem m = drop (mem_cursor m) (mem_buffer m)"

definition mem_ok :: "Memory \<Rightarrow> bool" where
  "mem_ok m \<longleftrightarrow> mem_cursor m \<le> length (mem_buffer m)"

lemmas memory_defs = mem_rem_def mem_ok_def Memory_buffer_def Memory_data_def Memory_consume_def Memory_data_consume_def
  Memory_data_consume_hard_def Memory_read_def

interpretation memory_core: reader_core Memory_buffer Memory_data Memory_consume mem_rem mem_rem mem_ok
  by unfold_locales (auto simp: memory_defs add.commute)

interpretation memory: buffered_reader Memory_reader mem_rem mem_rem mem_ok
proof (unfold_locales, goal_cases)
  case (10 r n)
  then show ?case
    by (auto simp: Memory_reader_def memory_defs Let_def min_def take_drop_append)
qed (auto simp: Memory_reader_def memory_defs default_data_hard_def add.commute min_def Let_def)

section \<open>Adaptors\<close>

text \<open>A limitor shows the first octets of the reader it wraps, a reserve all but the last, a dup those after its cursor.\<close>

definition lim_buf :: "('r \<Rightarrow> bytes) \<Rightarrow> 'r Limitor \<Rightarrow> bytes" where
  "lim_buf f l = take (lim_limit l) (f (lim_reader l))"

definition res_buf :: "('r \<Rightarrow> bytes) \<Rightarrow> 'r Reserve \<Rightarrow> bytes" where
  "res_buf f s = take (length (f (res_reader s)) - res_reserve s) (f (res_reader s))"

definition dup_buf :: "('r \<Rightarrow> bytes) \<Rightarrow> 'r Dup \<Rightarrow> bytes" where
  "dup_buf f s = drop (dup_cursor s) (f (dup_reader s))"

context buffered_reader
begin

lemma Limitor_core:
  "reader_core (Limitor_buffer br) (Limitor_data br) (Limitor_consume br) (lim_buf buf) (lim_buf rem) (\<lambda>l. ok (lim_reader l))"
proof (unfold_locales, goal_cases)
  case (1 r)
  then show ?case by (simp add: Limitor_buffer_def buffer lim_buf_def min_def)
next
  case (2 r)
  then show ?case using buf_prefix [of "lim_reader r"] by (auto simp: lim_buf_def prefix_def)
next
  case (3 r n)
  then obtain r' d where "br_data br (min n (lim_limit r)) (lim_reader r) = Some (r', Inr d)" "ok r'" "rem r' = rem (lim_reader r)"
      "prefix (buf (lim_reader r)) (buf r')" "prefix d (buf r')" "0 < min n (lim_limit r) \<Longrightarrow> d = buf r'"
      "min (min n (lim_limit r)) (length (rem (lim_reader r))) \<le> length d"
    using dataE by metis
  then show ?case
    by (intro exI [of _ "r\<lparr>lim_reader := r'\<rparr>"] exI [of _ "take (lim_limit r) d"], cases "lim_limit r = 0")
      (auto simp: Limitor_data_def Limitor_call_def on_reader_def lim_buf_def take_if simp del: take_all_iff intro!: prefix_take_mono)
next
  case (4 r n)
  then obtain r' where "br_consume br n (lim_reader r) = Some (r', Inr (buf (lim_reader r)))" "ok r'"
      "rem r' = drop n (rem (lim_reader r))" "buf r' = drop n (buf (lim_reader r))" "n \<le> lim_limit r"
    using consumeE [of "lim_reader r" n] by (auto simp: lim_buf_def)
  then show ?case
    by (auto simp: Limitor_consume_def Limitor_call_def on_reader_def lim_buf_def drop_take)
qed

lemma Limitor_contract: "buffered_reader (Limitor_reader br) (lim_buf buf) (lim_buf rem) (\<lambda>l. ok (lim_reader l))"
proof (rule buffered_readerI, goal_cases)
  case 1
  show ?case using Limitor_core by (simp add: Limitor_reader_def)
next
  case 2
  show ?case by (simp add: Limitor_reader_def)
next
  case (3 r n)
  then obtain r' d where r': "br_data_consume br (min n (lim_limit r)) (lim_reader r) = Some (r', Inr d)" "ok r'"
      "rem r' = drop (min n (lim_limit r)) (rem (lim_reader r))" "prefix d (rem (lim_reader r))"
      "min (min n (lim_limit r)) (length (rem (lim_reader r))) \<le> length d"
    using data_consume by blast
  have "length d \<le> length (rem (lim_reader r))" "prefix (take (lim_limit r) d) (take (lim_limit r) (rem (lim_reader r)))"
    using r'(4) by (auto dest: prefix_length_le intro: prefix_take_mono)
  with r' show ?case
    by (intro exI [of _ "r\<lparr>lim_reader := r', lim_limit := lim_limit r - min (min n (lim_limit r)) (length d)\<rparr>"] exI [of _ "take (lim_limit r) d"])
      (auto simp: Limitor_reader_def Limitor_data_consume_def Limitor_call_def on_reader_def Limitor_count_def Let_def lim_buf_def
        min_def drop_take split: if_splits)
next
  case (4 r n)
  then obtain r' d where r': "br_data_consume_hard br n (lim_reader r) = Some (r', Inr d)" "ok r'"
      "rem r' = drop n (rem (lim_reader r))" "prefix d (rem (lim_reader r))" "n \<le> length d" "n \<le> lim_limit r"
    using data_consume_hard [of "lim_reader r" n] by (auto simp: lim_buf_def)
  have "prefix (take (lim_limit r) d) (take (lim_limit r) (rem (lim_reader r)))"
    using r'(4) by (rule prefix_take_mono)
  with r' show ?case
    by (intro exI [of _ "r\<lparr>lim_reader := r', lim_limit := lim_limit r - n\<rparr>"] exI [of _ "take (lim_limit r) d"])
      (auto simp: Limitor_reader_def Limitor_data_consume_hard_def Limitor_call_def on_reader_def Limitor_count_def Let_def lim_buf_def drop_take)
next
  case (5 r n)
  show ?case
  proof (cases "lim_limit r < n")
    case False
    then obtain r' where "br_data_consume_hard br n (lim_reader r) = Some (r', Inl (IoErr UnexpectedEof))" "ok r'" "rem r' = rem (lim_reader r)"
      using data_consume_hard_short [of "lim_reader r" n] 5 by (auto simp: lim_buf_def min_less_iff_disj)
    then show ?thesis
      using False by (auto simp: Limitor_reader_def Limitor_data_consume_hard_def Limitor_call_def on_reader_def lim_buf_def)
  qed (use 5 in \<open>simp add: Limitor_reader_def Limitor_data_consume_hard_def\<close>)
next
  case (6 r n)
  then obtain r' d where "br_read br (min (lim_limit r) n) (lim_reader r) = Some (r', Inr d)" "ok r'" "rem (lim_reader r) = d @ rem r'"
      "length d \<le> min (lim_limit r) n" "0 < min (lim_limit r) n \<and> d = [] \<longrightarrow> rem (lim_reader r) = []"
    using read by blast
  then show ?case
    by (auto simp: Limitor_reader_def Limitor_read_def Limitor_call_def on_reader_def lim_buf_def)
qed

lemma Reserve_core:
  "reader_core (Reserve_buffer br) (Reserve_data br) (Reserve_consume br) (res_buf buf) (res_buf rem) (\<lambda>s. ok (res_reader s))"
proof (unfold_locales, goal_cases)
  case (1 r)
  then show ?case by (simp add: Reserve_buffer_def buffer res_buf_def)
next
  case (2 r)
  then show ?case
    using buf_prefix [of "res_reader r"] buf_length [of "res_reader r"] by (auto simp: res_buf_def intro!: prefix_take_le)
next
  case (3 r n)
  then obtain r' d where r': "br_data br (n + res_reserve r) (res_reader r) = Some (r', Inr d)" "ok r'" "rem r' = rem (res_reader r)"
      "prefix (buf (res_reader r)) (buf r')" "prefix d (buf r')" "0 < n + res_reserve r \<Longrightarrow> d = buf r'"
      "min (n + res_reserve r) (length (rem (res_reader r))) \<le> length d"
    using dataE by metis
  then show ?case
    using prefix_length_le [OF r'(4)] prefix_length_le [OF r'(5)]
    by (intro exI [of _ "r\<lparr>res_reader := r'\<rparr>"] exI [of _ "take (length d - res_reserve r) d"])
      (auto simp: Reserve_data_def Reserve_call_def on_reader_def res_buf_def intro!: prefix_take_le)
next
  case (4 r n)
  then have n: "n \<le> length (buf (res_reader r)) - res_reserve r" by (simp add: res_buf_def)
  then have "n \<le> length (buf (res_reader r))" by simp
  then obtain r' where r': "br_consume br n (res_reader r) = Some (r', Inr (buf (res_reader r)))" "ok r'"
      "rem r' = drop n (rem (res_reader r))" "buf r' = drop n (buf (res_reader r))"
    using consume [OF 4(1)] by blast
  have "Reserve_consume br n r = Some (r\<lparr>res_reader := r'\<rparr>, Inr (res_buf buf r))"
    using 4 n r' by (cases "n = length (buf (res_reader r)) - res_reserve r")
      (auto simp: Reserve_consume_def Reserve_buffer_def buffer Reserve_call_def on_reader_def res_buf_def)
  then show ?case
    using n r' by (auto simp: res_buf_def drop_take add.commute)
qed

lemma Reserve_contract: "buffered_reader (Reserve_reader br) (res_buf buf) (res_buf rem) (\<lambda>s. ok (res_reader s))"
proof (rule buffered_readerI, goal_cases)
  case 1
  show ?case using Reserve_core by (simp add: Reserve_reader_def)
next
  case 2
  show ?case by (simp add: Reserve_reader_def)
next
  case (3 r n)
  then show ?case
    using reader_core.default_data_consume_ok [OF Reserve_core, of r n] default_data_consume_plain
    by (fastforce simp: Reserve_reader_def Reserve_data_consume_def)
next
  case (4 r n)
  then show ?case
    using reader_core.default_data_consume_hard_ok [OF Reserve_core, of r n] default_data_consume_hard_plain
    by (fastforce simp: Reserve_reader_def Reserve_data_consume_hard_def)
next
  case (5 r n)
  then show ?case
    using reader_core.default_data_hard_short [OF Reserve_core, of r n]
    by (auto simp: Reserve_reader_def Reserve_data_consume_hard_def)
next
  case (6 r n)
  obtain r1 d where d: "br_data br (n + res_reserve r) (res_reader r) = Some (r1, Inr d)" "ok r1" "rem r1 = rem (res_reader r)"
      "min (n + res_reserve r) (length (rem (res_reader r))) \<le> length d" "prefix d (rem (res_reader r))"
    using dataE [OF 6] by metis
  let ?m = "min n (length d - res_reserve r)"
  obtain r2 e where e: "br_read br ?m r1 = Some (r2, Inr e)" "ok r2" "rem r1 = e @ rem r2" "length e \<le> ?m" "0 < ?m \<and> e = [] \<longrightarrow> rem r1 = []"
    using read [OF d(2)] by blast
  have le: "length d \<le> length (rem (res_reader r))" using d(5) by (rule prefix_length_le)
  then have "take (length (rem (res_reader r)) - res_reserve r) (rem (res_reader r)) = e @ take (length (rem r2) - res_reserve r) (rem r2)"
    using e(3,4) unfolding d(3) [symmetric] by auto
  then show ?case
    using d e le by (cases "res_reserve r < length d")
      (auto simp: Reserve_reader_def Reserve_read_def Reserve_call_def on_reader_def res_buf_def)
qed

lemma Dup_core:
  "reader_core (Dup_buffer br) (Dup_data br) (Dup_consume br) (dup_buf buf) (dup_buf rem)
     (\<lambda>s. ok (dup_reader s) \<and> dup_cursor s \<le> length (buf (dup_reader s)))"
proof (unfold_locales, goal_cases)
  case (1 r)
  then show ?case by (simp add: Dup_buffer_def buffer dup_buf_def)
next
  case (2 r)
  then show ?case using buf_prefix by (auto simp: dup_buf_def intro!: prefix_drop_mono)
next
  case (3 r n)
  then obtain r' d where r': "br_data br (dup_cursor r + n) (dup_reader r) = Some (r', Inr d)" "ok r'" "rem r' = rem (dup_reader r)"
      "prefix (buf (dup_reader r)) (buf r')" "prefix d (buf r')" "0 < dup_cursor r + n \<Longrightarrow> d = buf r'"
      "min (dup_cursor r + n) (length (rem (dup_reader r))) \<le> length d"
    using dataE by metis
  moreover have "dup_cursor r \<le> length d" "dup_cursor r \<le> length (buf r')"
    using 3 r'(7) prefix_length_le [OF r'(4)] buf_length [of "dup_reader r"] by auto
  ultimately show ?case
    by (intro exI [of _ "r\<lparr>dup_reader := r'\<rparr>"] exI [of _ "drop (dup_cursor r) d"])
      (auto simp: Dup_data_def Dup_call_def on_reader_def dup_buf_def intro!: prefix_drop_mono)
next
  case (4 r n)
  then show ?case
    by (auto simp: Dup_consume_def buffer dup_buf_def add.commute)
qed

lemma Dup_contract:
  "buffered_reader (Dup_reader br) (dup_buf buf) (dup_buf rem) (\<lambda>s. ok (dup_reader s) \<and> dup_cursor s \<le> length (buf (dup_reader s)))"
proof (rule buffered_readerI, goal_cases)
  case 1
  show ?case using Dup_core by (simp add: Dup_reader_def)
next
  case 2
  show ?case by (simp add: Dup_reader_def)
next
  case (3 r n)
  then obtain r' d where r': "br_data br (dup_cursor r + n) (dup_reader r) = Some (r', Inr d)" "ok r'" "rem r' = rem (dup_reader r)"
      "prefix d (buf r')" "min (dup_cursor r + n) (length (rem (dup_reader r))) \<le> length d" "prefix d (rem (dup_reader r))"
    using dataE by metis
  have "dup_cursor r \<le> length d" "length d \<le> length (buf r')" "length d \<le> length (rem (dup_reader r))"
    using 3 r'(5) prefix_length_le [OF r'(4)] prefix_length_le [OF r'(6)] buf_length [of "dup_reader r"] by auto
  moreover from this have "drop (dup_cursor r + min (length d - dup_cursor r) n) (rem (dup_reader r)) = drop (n + dup_cursor r) (rem (dup_reader r))"
    using r'(5) by (cases "dup_cursor r + n \<le> length (rem (dup_reader r))") (auto simp: add.commute min_absorb2 le_diff_conv2 min_le_iff_disj)
  ultimately show ?case
    using r' prefix_drop_mono [OF r'(6), of "dup_cursor r"]
    by (auto simp: Dup_reader_def Dup_data_consume_def Dup_call_def on_reader_def dup_buf_def Let_def)
next
  case (4 r n)
  then have "dup_cursor r + n \<le> length (rem (dup_reader r))"
    using buf_length [of "dup_reader r"] by (auto simp: dup_buf_def)
  then obtain r' d where r': "br_data_hard br (dup_cursor r + n) (dup_reader r) = Some (r', Inr d)" "ok r'" "rem r' = rem (dup_reader r)"
      "prefix d (buf r')" "dup_cursor r + n \<le> length d"
    using data_hard [of "dup_reader r" "dup_cursor r + n"] 4 by blast
  moreover have "prefix d (rem (dup_reader r))" using r' buf_prefix prefix_order.trans by metis
  ultimately show ?case
    using prefix_length_le [OF r'(4)]
    by (auto simp: Dup_reader_def Dup_data_consume_hard_def Dup_call_def on_reader_def dup_buf_def Let_def add.commute intro!: prefix_drop_mono)
next
  case (5 r n)
  then have "length (rem (dup_reader r)) < dup_cursor r + n" by (auto simp: dup_buf_def)
  then obtain r' where "br_data_hard br (dup_cursor r + n) (dup_reader r) = Some (r', Inl (IoErr UnexpectedEof))" "ok r'" "rem r' = rem (dup_reader r)"
      "length (buf (dup_reader r)) \<le> length (buf r')"
    using data_hard_short [of "dup_reader r" "dup_cursor r + n"] 5 by (blast dest: prefix_length_le)
  then show ?case
    using 5 by (auto simp: Dup_reader_def Dup_data_consume_hard_def Dup_call_def on_reader_def dup_buf_def)
next
  case (6 r n)
  then obtain r' d where r': "br_data br (dup_cursor r + n) (dup_reader r) = Some (r', Inr d)" "ok r'" "rem r' = rem (dup_reader r)"
      "prefix d (buf r')" "min (dup_cursor r + n) (length (rem (dup_reader r))) \<le> length d" "prefix d (rem (dup_reader r))"
    using dataE by metis
  have "dup_cursor r \<le> length d" "length d \<le> length (buf r')" "length d \<le> length (rem (dup_reader r))"
    using 6 r'(5) prefix_length_le [OF r'(4)] prefix_length_le [OF r'(6)] buf_length [of "dup_reader r"] by auto
  with r' show ?case
    by (auto simp: Dup_reader_def Dup_read_def Dup_call_def on_reader_def dup_buf_def Let_def min_def prefix_def take_drop_append split: if_splits)
qed

lemma Adapter_contract: "buffered_reader (Adapter_reader br) buf rem ok"
  using reader_core_axioms data_consume data_consume_hard data_consume_hard_short read
  by (intro buffered_readerI) (simp_all add: Adapter_reader_def)

end

section \<open>Generic\<close>

definition gen_buf :: "'s Generic \<Rightarrow> bytes" where
  "gen_buf g = (case gen_buffer g of Some b \<Rightarrow> drop (gen_cursor g) b | None \<Rightarrow> [])"

definition gen_rem :: "('s \<Rightarrow> bytes) \<Rightarrow> 's Generic \<Rightarrow> bytes" where
  "gen_rem src g = gen_buf g @ src (gen_reader g)"

definition gen_ok :: "('s \<Rightarrow> bytes) \<Rightarrow> ('s \<Rightarrow> bool) \<Rightarrow> 's Generic \<Rightarrow> bool" where
  "gen_ok src src_ok g \<longleftrightarrow>
     (case gen_buffer g of Some b \<Rightarrow> gen_cursor g \<le> length b | None \<Rightarrow> gen_cursor g = 0)
     \<and> gen_error g = None \<and> src_ok (gen_reader g) \<and> (gen_eof g \<longrightarrow> src (gen_reader g) = [])"

lemma amount_buffered_eq: "amount_buffered g = length (gen_buf g)"
  by (simp add: amount_buffered_def gen_buf_def split: option.split)

context read_source
begin

lemma gen_fill_ok:
  assumes "src_ok (gen_reader g)" "gen_error g = None" "gen_eof g \<longrightarrow> src (gen_reader g) = []" "amount \<le> capacity"
  shows "\<exists>g' new. gen_fill read capacity buffered amount acc g = Some (g', acc @ new) \<and> gen_buffer g' = gen_buffer g \<and> gen_cursor g' = gen_cursor g
    \<and> gen_error g' = None \<and> src_ok (gen_reader g') \<and> (gen_eof g' \<longrightarrow> src (gen_reader g') = []) \<and> src (gen_reader g) = new @ src (gen_reader g')
    \<and> (amount \<le> buffered + length (acc @ new) \<or> src (gen_reader g') = [])"
  using assms
proof (induction "retries (gen_reader g) + length (src (gen_reader g))" arbitrary: g acc rule: less_induct)
  case less
  show ?case
  proof (cases "buffered + length acc < amount \<and> \<not> gen_eof g")
    case False
    then show ?thesis
      using less.prems by (subst gen_fill.simps) auto
  next
    case True
    let ?n = "capacity - (buffered + length acc)"
    have "0 < ?n" using True less.prems(4) by simp
    then obtain s x where s: "read ?n (gen_reader g) = Some (s, x)" "src_ok s"
      and x: "x = Inl (IoErr Interrupted) \<and> src s = src (gen_reader g) \<and> retries s < retries (gen_reader g)
       \<or> (\<exists>d. x = Inr d \<and> length d \<le> ?n \<and> src (gen_reader g) = d @ src s \<and> (d = [] \<longrightarrow> src (gen_reader g) = []) \<and> retries s \<le> retries (gen_reader g))"
      using read_step [OF less.prems(1)] by blast
    let ?g = "g\<lparr>gen_reader := s\<rparr>"
    consider "x = Inl (IoErr Interrupted)" "src s = src (gen_reader g)" "retries s < retries (gen_reader g)"
      | "x = Inr []" "src s = []" "src (gen_reader g) = []"
      | d where "x = Inr d" "d \<noteq> []" "src (gen_reader g) = d @ src s" "retries s \<le> retries (gen_reader g)"
      using x by fastforce
    then show ?thesis
    proof cases
      case 1
      then show ?thesis
        using less.hyps [of ?g acc] less.prems s True by (subst gen_fill.simps) simp
    next
      case 2
      then show ?thesis
        using less.prems s True by (subst gen_fill.simps) simp
    next
      case 3
      then have "retries s + length (src s) < retries (gen_reader g) + length (src (gen_reader g))"
        by (cases d) auto
      then obtain g' new where "gen_fill read capacity buffered amount (acc @ d) ?g = Some (g', (acc @ d) @ new)"
          "gen_buffer g' = gen_buffer g" "gen_cursor g' = gen_cursor g" "gen_error g' = None" "src_ok (gen_reader g')"
          "gen_eof g' \<longrightarrow> src (gen_reader g') = []" "src s = new @ src (gen_reader g')"
          "amount \<le> buffered + length ((acc @ d) @ new) \<or> src (gen_reader g') = []"
        using less.hyps [of ?g "acc @ d"] less.prems s True by auto
      then show ?thesis
        using 3 less.prems s True by (intro exI [of _ g'] exI [of _ "d @ new"], subst gen_fill.simps) (auto simp: Let_def)
    qed
  qed
qed

lemma gen_refill_ok:
  assumes "gen_ok src src_ok g"
  shows "\<exists>g'. gen_refill buf_size read n g = Some g' \<and> gen_ok src src_ok g' \<and> gen_rem src g' = gen_rem src g
    \<and> prefix (gen_buf g) (gen_buf g') \<and> min n (length (gen_rem src g)) \<le> length (gen_buf g')"
proof (cases "length (gen_buf g) < n")
  case True
  let ?c = "n + max buf_size (gen_preferred_chunk_size g * 2)"
  obtain g' new where g': "gen_fill read ?c (length (gen_buf g)) n [] g = Some (g', new)" "gen_buffer g' = gen_buffer g"
      "gen_cursor g' = gen_cursor g" "gen_error g' = None" "src_ok (gen_reader g')" "gen_eof g' \<longrightarrow> src (gen_reader g') = []"
      "src (gen_reader g) = new @ src (gen_reader g')" "n \<le> length (gen_buf g) + length new \<or> src (gen_reader g') = []"
    using gen_fill_ok [of g n ?c "length (gen_buf g)" "[]"] assms by (auto simp: gen_ok_def)
  then have "gen_buf g' = gen_buf g" by (simp add: gen_buf_def split: option.split)
  with g' True assms show ?thesis
    by (cases "new = []")
      (auto simp: gen_refill_def amount_buffered_eq Let_def gen_ok_def gen_rem_def gen_buf_def split: option.splits)
qed (use assms in \<open>auto simp: gen_refill_def amount_buffered_eq gen_rem_def\<close>)

lemma Generic_data_helper_ok:
  assumes "gen_ok src src_ok g"
  obtains g' where "Generic_data_helper buf_size read n hard and_consume g = Generic_result n hard and_consume g'" "gen_ok src src_ok g'"
    "gen_rem src g' = gen_rem src g" "prefix (gen_buf g) (gen_buf g')" "min n (length (gen_rem src g)) \<le> length (gen_buf g')"
proof -
  obtain g' where "gen_refill buf_size read n g = Some g'" "gen_ok src src_ok g'"
    "gen_rem src g' = gen_rem src g" "prefix (gen_buf g) (gen_buf g')" "min n (length (gen_rem src g)) \<le> length (gen_buf g')"
    using gen_refill_ok [OF assms] by blast
  then show thesis
    using assms by (intro that [of g']) (auto simp: Generic_data_helper_def gen_ok_def split: option.splits)
qed

lemma Generic_result_peek:
  assumes "gen_ok src src_ok g"
  shows "Generic_result n hard False g =
    Some (g, if hard \<and> length (gen_buf g) < n then Inl (IoErr UnexpectedEof) else if n = 0 then Inr [] else Inr (gen_buf g))"
  using assms by (auto simp: Generic_result_def amount_buffered_eq Let_def gen_buf_def gen_ok_def split: option.splits)

lemma Generic_result_consume:
  assumes "gen_ok src src_ok g" "\<not> (hard \<and> length (gen_buf g) < n)"
  shows "\<exists>g'. Generic_result n hard True g = Some (g', if n = 0 then Inr [] else Inr (gen_buf g)) \<and> gen_ok src src_ok g'
    \<and> gen_rem src g' = drop (min n (length (gen_buf g))) (gen_buf g) @ src (gen_reader g)"
  using assms by (auto simp: Generic_result_def amount_buffered_eq Let_def gen_buf_def gen_rem_def gen_ok_def min_def add.commute split: option.splits)

lemma Generic_consume_ok:
  assumes "gen_ok src src_ok g" "hard \<longrightarrow> n \<le> length (gen_rem src g)"
  shows "\<exists>g' d. Generic_data_helper buf_size read n hard True g = Some (g', Inr d) \<and> gen_ok src src_ok g'
    \<and> gen_rem src g' = drop n (gen_rem src g) \<and> prefix d (gen_rem src g) \<and> min n (length (gen_rem src g)) \<le> length d"
proof -
  obtain g1 where g1: "Generic_data_helper buf_size read n hard True g = Generic_result n hard True g1" "gen_ok src src_ok g1"
      "gen_rem src g1 = gen_rem src g" "min n (length (gen_rem src g)) \<le> length (gen_buf g1)"
    using Generic_data_helper_ok [OF assms(1)] by metis
  then have "\<not> (hard \<and> length (gen_buf g1) < n)" using assms(2) by auto
  then obtain g' where g': "Generic_result n hard True g1 = Some (g', if n = 0 then Inr [] else Inr (gen_buf g1))" "gen_ok src src_ok g'"
      "gen_rem src g' = drop (min n (length (gen_buf g1))) (gen_buf g1) @ src (gen_reader g1)"
    using Generic_result_consume [OF g1(2)] by blast
  moreover have "gen_rem src g' = drop n (gen_rem src g)"
    using g'(3) g1(4) unfolding g1(3) [symmetric] by (auto simp: gen_rem_def min_def split: if_splits)
  moreover have "prefix (gen_buf g1) (gen_rem src g)" using g1(3) by (metis gen_rem_def prefixI)
  ultimately show ?thesis
    using g1 by auto
qed

lemma Generic_contract: "buffered_reader (Generic_reader buf_size read) gen_buf (gen_rem src) (gen_ok src src_ok)"
proof (intro buffered_reader.intro buffered_reader_axioms.intro reader_core.intro, goal_cases)
  case (1 r)
  then show ?case
    by (auto simp: Generic_reader_def Generic_buffer_def gen_ok_def gen_buf_def Let_def split: option.splits)
next
  case (2 r)
  then show ?case by (simp add: gen_rem_def)
next
  case (3 r n)
  then obtain g where g: "Generic_data_helper buf_size read n False False r = Generic_result n False False g" "gen_ok src src_ok g"
      "gen_rem src g = gen_rem src r" "prefix (gen_buf r) (gen_buf g)" "min n (length (gen_rem src r)) \<le> length (gen_buf g)"
    by (rule Generic_data_helper_ok)
  then show ?case by (auto simp: Generic_reader_def Let_def Generic_result_peek)
next
  case (4 r n)
  then show ?case
    by (auto simp: Generic_reader_def Let_def Generic_consume_def gen_ok_def gen_buf_def gen_rem_def add.commute split: option.splits)
next
  case (5 r n)
  then obtain g where g: "Generic_data_helper buf_size read n True False r = Generic_result n True False g" "gen_ok src src_ok g"
      "gen_rem src g = gen_rem src r" "min n (length (gen_rem src r)) \<le> length (gen_buf g)"
    using Generic_data_helper_ok by metis
  then show ?case using 5(2) by (auto simp: Generic_reader_def Let_def Generic_result_peek)
next
  case (6 r n)
  then obtain g where g: "Generic_data_helper buf_size read n True False r = Generic_result n True False g" "gen_ok src src_ok g"
      "gen_rem src g = gen_rem src r" "prefix (gen_buf r) (gen_buf g)"
    using Generic_data_helper_ok by metis
  moreover have "length (gen_buf g) < n" using 6(2) g(3) by (metis gen_rem_def length_append le_add1 le_less_trans)
  ultimately show ?case by (auto simp: Generic_reader_def Let_def Generic_result_peek)
next
  case (7 r n)
  then show ?case
    using Generic_consume_ok [OF 7, of False n buf_size] by (auto simp: Generic_reader_def Let_def)
next
  case (8 r n)
  then show ?case
    using Generic_consume_ok [OF 8(1), of True n buf_size] by (auto simp: Generic_reader_def Let_def)
next
  case (9 r n)
  then obtain g where g: "Generic_data_helper buf_size read n True True r = Generic_result n True True g" "gen_ok src src_ok g"
      "gen_rem src g = gen_rem src r"
    using Generic_data_helper_ok by metis
  moreover have "length (gen_buf g) < n" using 9(2) g(3) by (metis gen_rem_def length_append le_add1 le_less_trans)
  ultimately show ?case by (auto simp: Generic_reader_def Let_def Generic_result_def amount_buffered_eq)
next
  case (10 r n)
  then obtain g' d where g': "Generic_data_helper buf_size read n False True r = Some (g', Inr d)" "gen_ok src src_ok g'"
      "gen_rem src g' = drop n (gen_rem src r)" "prefix d (gen_rem src r)" "min n (length (gen_rem src r)) \<le> length d"
    using Generic_consume_ok [OF 10, of False n buf_size] by auto
  moreover have "take n d = take n (gen_rem src r)"
    using g'(4,5) by (auto simp: prefix_def min_def split: if_splits)
  ultimately show ?case
    by (auto simp: Generic_reader_def Let_def buffered_reader_generic_read_impl_def)
qed

end

text \<open>Every reader is a source for \<open>Generic\<close>.\<close>

context buffered_reader
begin

lemma Generic_over: "buffered_reader (Generic_reader buf_size (br_read br)) gen_buf (gen_rem rem) (gen_ok rem ok)"
  by (rule source.Generic_contract)

lemma data_eof_loop_zero:
  assumes "ok r"
  shows "data_eof_loop br 0 r = None"
proof (rule ccontr)
  assume "data_eof_loop br 0 r \<noteq> None"
  then obtain y where "data_eof_loop br 0 r = Some y" by blast
  then have "\<not> (br = br \<and> (0 :: nat) = 0 \<and> ok r)"
  proof (rule data_eof_loop.raw_induct [where P = "\<lambda>b s r y. \<not> (b = br \<and> s = 0 \<and> ok r)", rotated])
    fix f :: "'r BufferedReader \<Rightarrow> nat \<Rightarrow> ('r, nat) io" and b s r y
    assume IH: "\<And>b s r y. f b s r = Some y \<Longrightarrow> \<not> (b = br \<and> s = 0 \<and> ok r)"
      and eq: "io_then (br_data b s r) (\<lambda>buffer r. if length buffer < s then Some (r, Inr (length buffer)) else f b (s * 2) r) = Some y"
    show "\<not> (b = br \<and> s = 0 \<and> ok r)"
    proof
      assume *: "b = br \<and> s = 0 \<and> ok r"
      then obtain r' d where "br_data br 0 r = Some (r', Inr d)" "ok r'" using data by blast
      then show False using eq * by (auto dest: IH)
    qed
  qed
  with assms show False by simp
qed

lemma drop_eof_loop_zero:
  assumes "ok r"
  shows "drop_eof_loop 0 br b r = None"
proof (rule ccontr)
  assume "drop_eof_loop 0 br b r \<noteq> None"
  then obtain y where "drop_eof_loop 0 br b r = Some y" by blast
  then have "\<not> ((0 :: nat) = 0 \<and> br = br \<and> ok r)"
  proof (rule drop_eof_loop.raw_induct [where P = "\<lambda>n a b r y. \<not> (n = 0 \<and> a = br \<and> ok r)", rotated])
    fix f :: "nat \<Rightarrow> 'r BufferedReader \<Rightarrow> bool \<Rightarrow> ('r, bool) io" and n a b r y
    assume IH: "\<And>n a b r y. f n a b r = Some y \<Longrightarrow> \<not> (n = 0 \<and> a = br \<and> ok r)"
      and eq: "io_then (br_data a n r) (\<lambda>d r. let m = length d in io_then (br_consume a m r) (\<lambda>_ r.
           if m < n then Some (r, Inr (b \<or> m > 0)) else f n a (b \<or> m > 0) r)) = Some y"
    show "\<not> (n = 0 \<and> a = br \<and> ok r)"
    proof
      assume *: "n = 0 \<and> a = br \<and> ok r"
      then obtain r1 d where d: "br_data br 0 r = Some (r1, Inr d)" "ok r1" "length d \<le> length (buf r1)"
        using dataE [of r 0] by (metis prefix_length_le)
      then obtain r2 where "br_consume br (length d) r1 = Some (r2, Inr (buf r1))" "ok r2"
        using consumeE by metis
      then show False using eq * d by (auto simp: Let_def dest: IH)
    qed
  qed
  with assms show False by simp
qed

end

section \<open>The readers of the crate\<close>

interpretation eof_reader: buffered_reader EOF_reader "\<lambda>_. []" "\<lambda>_. []" "\<lambda>_. True"
  by unfold_locales (auto simp: EOF_reader_def EOF_consume_def EOF_data_consume_hard_def default_data_hard_def)

interpretation generic_memory: buffered_reader "Generic_reader buf_size (br_read Memory_reader)" gen_buf "gen_rem mem_rem" "gen_ok mem_rem mem_ok"
  for buf_size
  by (rule memory.source.Generic_contract)

interpretation dup_generic: buffered_reader "Dup_reader (Generic_reader buf_size (br_read Memory_reader))" "dup_buf gen_buf"
    "dup_buf (gen_rem mem_rem)" "\<lambda>s. gen_ok mem_rem mem_ok (dup_reader s) \<and> dup_cursor s \<le> length (gen_buf (dup_reader s))"
  for buf_size
  by (rule generic_memory.Dup_contract)

interpretation limitor_memory: buffered_reader "Limitor_reader Memory_reader" "lim_buf mem_rem" "lim_buf mem_rem" "\<lambda>l. mem_ok (lim_reader l)"
  by (rule memory.Limitor_contract)

interpretation reserve_memory: buffered_reader "Reserve_reader Memory_reader" "res_buf mem_rem" "res_buf mem_rem" "\<lambda>s. mem_ok (res_reader s)"
  by (rule memory.Reserve_contract)

section \<open>Theorems\<close>

text \<open>
  C14. Every adaptor of the crate keeps the contract of \<open>BufferedReader\<close> if the reader it wraps does: \<open>Limitor\<close> shows
  its first octets, \<open>Reserve\<close> all but the last, \<open>Dup\<close> those after its cursor without consuming any, \<open>Adapter\<close> the
  same, and \<open>Generic\<close>, which reads into a buffer of its own, what is left in the buffer and the source.
\<close>

theorem reader_adaptors_contract:
  assumes "buffered_reader br buf rem ok"
  shows "buffered_reader (Limitor_reader br) (lim_buf buf) (lim_buf rem) (\<lambda>l. ok (lim_reader l))
    \<and> buffered_reader (Reserve_reader br) (res_buf buf) (res_buf rem) (\<lambda>s. ok (res_reader s))
    \<and> buffered_reader (Dup_reader br) (dup_buf buf) (dup_buf rem) (\<lambda>s. ok (dup_reader s) \<and> dup_cursor s \<le> length (buf (dup_reader s)))
    \<and> buffered_reader (Adapter_reader br) buf rem ok
    \<and> buffered_reader (Generic_reader buf_size (br_read br)) gen_buf (gen_rem rem) (gen_ok rem ok)"
  using buffered_reader.Limitor_contract [OF assms] buffered_reader.Reserve_contract [OF assms] buffered_reader.Dup_contract [OF assms]
    buffered_reader.Adapter_contract [OF assms] buffered_reader.Generic_over [OF assms]
  by blast

theorem reader_adaptors_contract_witness:
  "buffered_reader (Limitor_reader Memory_reader) (lim_buf mem_rem) (lim_buf mem_rem) (\<lambda>l. mem_ok (lim_reader l))"
  using reader_adaptors_contract [OF memory.buffered_reader_axioms, of 1] by blast

text \<open>
  C29. Reading to the end returns for every reader that keeps the contract, on a source that does not fail: \<open>data_eof\<close>
  shows all that is left, \<open>steal_eof\<close> takes it, \<open>drop_eof\<close> drops it and says whether there was something, and
  \<open>copy\<close> appends it to a vector.
\<close>

theorem read_to_end_returns:
  assumes "buffered_reader br buf rem ok" "ok r" "0 < buf_size"
  shows "\<exists>r1 r2 r3 r4.
      data_eof buf_size br r = Some (r1, Inr (rem r)) \<and> rem r1 = rem r
    \<and> steal_eof buf_size br r = Some (r2, Inr (rem r)) \<and> rem r2 = []
    \<and> drop_eof buf_size br r = Some (r3, Inr (rem r \<noteq> [])) \<and> rem r3 = []
    \<and> copy (\<lambda>d w. (w @ d, Inr ())) buf_size br w r = Some ((w @ rem r, r4), Inr (length (rem r))) \<and> rem r4 = []"
  using buffered_reader.data_eof_ok [OF assms] buffered_reader.steal_eof_ok [OF assms] buffered_reader.drop_eof_ok [OF assms]
    buffered_reader.copy_ok [OF assms]
  by blast

theorem read_to_end_returns_witness:
  "\<exists>r'. steal_eof 4 (Limitor_reader Memory_reader) (Limitor_new (Memory_new [1, 2, 3, 4, 5, 6, 7]) 6) = Some (r', Inr [1, 2, 3, 4, 5, 6])"
  using read_to_end_returns [OF limitor_memory.buffered_reader_axioms, of "Limitor_new (Memory_new [1, 2, 3, 4, 5, 6, 7]) 6" 4]
  by (auto simp: Limitor_new_def Memory_new_def mem_ok_def lim_buf_def mem_rem_def)

text \<open>
  Searching returns too: \<open>read_to\<close> shows the octets through the first terminal, \<open>drop_until\<close> consumes those
  before the first of some terminals and counts them, \<open>drop_through\<close> consumes that one as well, and at the end of the
  data fails if the caller does not accept it.
\<close>

theorem reader_search:
  assumes "buffered_reader br buf rem ok" "ok r" "0 < buf_size" "sorted ts"
  shows "\<exists>r1 r2 r3.
      read_to br c r = Some (r1, Inr (through (\<lambda>x. x = c) (rem r))) \<and> rem r1 = rem r
    \<and> drop_until buf_size br ts r = Some (r2, Inr (length (takeWhile (\<lambda>x. x \<notin> set ts) (rem r)))) \<and> rem r2 = dropWhile (\<lambda>x. x \<notin> set ts) (rem r)
    \<and> drop_through buf_size br ts match_eof r = Some (r3, case dropWhile (\<lambda>x. x \<notin> set ts) (rem r) of
         [] \<Rightarrow> if match_eof then Inr (None, length (rem r)) else Inl (IoErr UnexpectedEof)
       | t # cs \<Rightarrow> Inr (Some t, length (rem r) - length cs))
    \<and> rem r3 = tl (dropWhile (\<lambda>x. x \<notin> set ts) (rem r))"
  using buffered_reader.read_to_ok [OF assms(1,2)] buffered_reader.drop_until_ok [OF assms] buffered_reader.drop_through_ok [OF assms]
  by blast

theorem reader_search_witness:
  "\<exists>r'. drop_through 4 Memory_reader [10, 13] False (Memory_new [7, 8, 13, 9]) = Some (r', Inr (Some 13, 3))"
  using reader_search [OF memory.buffered_reader_axioms, of "Memory_new [7, 8, 13, 9]" 4 "[10, 13]" 0 False]
  by (auto simp: Memory_new_def mem_ok_def mem_rem_def)

text \<open>
  C30. \<open>Generic\<close> delivers the whole of a source that is interrupted any finite number of times, in reads of whatever
  sizes the source returns.
\<close>

theorem generic_delivers:
  assumes "read_source read src src_ok retries" "src_ok s" "0 < buf_size"
  shows "\<exists>g. steal_eof buf_size (Generic_reader buf_size read) (Generic_new buf_size s chunk) = Some (g, Inr (src s)) \<and> src (gen_reader g) = []"
proof -
  have "gen_ok src src_ok (Generic_new buf_size s chunk)" "gen_rem src (Generic_new buf_size s chunk) = src s"
    using assms(2) by (simp_all add: gen_ok_def Generic_new_def gen_rem_def gen_buf_def)
  then show ?thesis
    using buffered_reader.steal_eof_ok [OF read_source.Generic_contract [OF assms(1)] _ assms(3), of "Generic_new buf_size s chunk"]
    by (force simp: gen_rem_def)
qed

definition interrupted_read :: "nat \<Rightarrow> (nat \<times> bytes, bytes) io" where
  "interrupted_read n s =
     (case s of (k, bs) \<Rightarrow>
        if 0 < k then Some ((k - 1, bs), Inl (IoErr Interrupted)) else Some ((if bs = [] then 0 else 2, drop 1 bs), Inr (take 1 bs)))"

theorem generic_delivers_witness:
  "\<exists>g. steal_eof 8 (Generic_reader 8 interrupted_read) (Generic_new 8 (2, [1, 2, 3]) None) = Some (g, Inr [1, 2, 3])"
proof -
  have "read_source interrupted_read snd (\<lambda>_. True) (\<lambda>(k, bs). k + 3 * length bs)"
  proof
    fix s :: "nat \<times> bytes" and n :: nat
    assume "0 < n"
    then show "\<exists>s' x. interrupted_read n s = Some (s', x) \<and> True \<and>
      (x = Inl (IoErr Interrupted) \<and> snd s' = snd s \<and> (case s' of (k, bs) \<Rightarrow> k + 3 * length bs) < (case s of (k, bs) \<Rightarrow> k + 3 * length bs)
       \<or> (\<exists>d. x = Inr d \<and> length d \<le> n \<and> snd s = d @ snd s' \<and> (d = [] \<longrightarrow> snd s = []) \<and>
            (case s' of (k, bs) \<Rightarrow> k + 3 * length bs) \<le> (case s of (k, bs) \<Rightarrow> k + 3 * length bs)))"
      by (cases s; cases "snd s") (auto simp: interrupted_read_def)
  qed
  from generic_delivers [OF this, where s = "(2, [1, 2, 3])" and buf_size = 8 and chunk = None] show ?thesis by auto
qed

text \<open>
  The size of buffers comes from the environment, and a size of zero is accepted: then reading to the end never
  returns, for any reader that keeps the contract.
\<close>

theorem zero_buffer_size_loops:
  assumes "buffered_reader br buf rem ok" "ok r"
  shows "data_eof 0 br r = None \<and> steal_eof 0 br r = None \<and> drop_eof 0 br r = None"
  using buffered_reader.data_eof_loop_zero [OF assms] buffered_reader.drop_eof_loop_zero [OF assms]
  by (simp add: data_eof_def steal_eof_def drop_eof_def)

theorem zero_buffer_size_loops_witness: "data_eof 0 Memory_reader (Memory_new [1, 2, 3]) = None"
  using zero_buffer_size_loops [OF memory.buffered_reader_axioms, of "Memory_new [1, 2, 3]"] by (simp add: Memory_new_def mem_ok_def)

end
