(* ===== verification/HashedReader.thy ===== *)
theory HashedReader
  imports Cleartext ReaderContract
begin

text \<open>
  Hashing what is read: the state of the packet parser that rides on the readers (\<open>Cookie\<close> and \<open>SignatureGroup\<close> of
  \<open>parse.rs\<close>) with its stack of groups of signatures, and the reader that hashes what is consumed
  (\<open>parse/hashed_reader.rs\<close>). A hash context is the octets hashed so far; which algorithms the backend supports is a
  parameter.
\<close>

section \<open>Cookies\<close>

datatype HashesFor = ForNothing | ForMDC | ForSignature | ForCleartextSignature

datatype Hashing = Enabled | Notarized | Disabled

record SignatureGroup =
  sg_ops_count :: nat
  sg_hashes :: "bytes HashingMode list"

definition SignatureGroup_default :: SignatureGroup where
  "SignatureGroup_default = \<lparr>sg_ops_count = 0, sg_hashes = []\<rparr>"

definition SignatureGroup_clear :: "SignatureGroup \<Rightarrow> SignatureGroup" where
  "SignatureGroup_clear g = g\<lparr>sg_ops_count := 0, sg_hashes := []\<rparr>"

record Cookie =
  ck_level :: "int option"
  ck_hashes_for :: HashesFor
  ck_hashing :: Hashing
  ck_saw_last :: bool
  ck_sig_groups :: "SignatureGroup list"
  ck_sig_groups_max_len :: nat
  ck_hash_stash :: "bytes option"
  ck_fake_eof :: bool
  ck_csf_transformation :: bool

definition Cookie_default :: Cookie where
  "Cookie_default =
     \<lparr>ck_level = None, ck_hashes_for = ForNothing, ck_hashing = Enabled, ck_saw_last = False,
      ck_sig_groups = [SignatureGroup_default], ck_sig_groups_max_len = 1, ck_hash_stash = None, ck_fake_eof = False,
      ck_csf_transformation = False\<rparr>"

definition Cookie_new :: "int \<Rightarrow> Cookie" where
  "Cookie_new lvl = Cookie_default\<lparr>ck_level := Some lvl\<rparr>"

definition sig_group :: "Cookie \<Rightarrow> SignatureGroup res" where
  "sig_group c = (if ck_sig_groups c = [] then Inl Panic else Inr (last (ck_sig_groups c)))"

definition sig_group_mut :: "(SignatureGroup \<Rightarrow> SignatureGroup) \<Rightarrow> Cookie \<Rightarrow> Cookie res" where
  "sig_group_mut f c =
     (let gs = ck_sig_groups c in
      if gs = [] then Inl Panic else Inr (c\<lparr>ck_sig_groups := gs[length gs - 1 := f (gs ! (length gs - 1))]\<rparr>))"

definition signature_level :: "Cookie \<Rightarrow> nat res" where
  "signature_level c =
     (if length (ck_sig_groups c) \<le> ck_sig_groups_max_len c then Inr (ck_sig_groups_max_len c - length (ck_sig_groups c))
      else Inl Panic)"

definition sig_group_unused :: "Cookie \<Rightarrow> bool res" where
  "sig_group_unused c = and_then (sig_group c) (\<lambda>g. Inr (sg_ops_count g = 0))"

definition sig_group_push :: "Cookie \<Rightarrow> Cookie" where
  "sig_group_push c =
     c\<lparr>ck_sig_groups := ck_sig_groups c @ [SignatureGroup_default], ck_sig_groups_max_len := ck_sig_groups_max_len c + 1\<rparr>"

definition sig_group_pop :: "Cookie \<Rightarrow> Cookie" where
  "sig_group_pop c =
     (if length (ck_sig_groups c) = 1 then
        c\<lparr>ck_sig_groups := map SignatureGroup_clear (ck_sig_groups c), ck_hashes_for := ForNothing\<rparr>
      else c\<lparr>ck_sig_groups := butlast (ck_sig_groups c)\<rparr>)"

text \<open>
  Switching the hashing of a level, through a stack of readers given by their cookies from the top: the walk ends at a
  reader of a lower level or of no level.
\<close>

fun Cookie_hashing :: "Hashing \<Rightarrow> int \<Rightarrow> Cookie list \<Rightarrow> Cookie list" where
  "Cookie_hashing how lvl [] = []"
| "Cookie_hashing how lvl (c # cs) =
     (case ck_level c of
        None \<Rightarrow> c # cs
      | Some br_level \<Rightarrow>
          if br_level < lvl then c # cs
          else
            (if br_level = lvl \<and> (ck_hashes_for c = ForSignature \<or> ck_hashes_for c = ForCleartextSignature)
             then c\<lparr>ck_hashing := how\<rparr> else c)
            # Cookie_hashing how lvl cs)"

definition ARMOR_READER_LEVEL :: int where
  "ARMOR_READER_LEVEL = -2"

definition set_processing_csf_message :: "Cookie \<Rightarrow> Cookie" where
  "set_processing_csf_message c = c\<lparr>ck_csf_transformation := True\<rparr>"

fun processing_csf_message :: "Cookie list \<Rightarrow> bool" where
  "processing_csf_message [] = False"
| "processing_csf_message (c # cs) =
     (if ck_level c = Some ARMOR_READER_LEVEL then ck_csf_transformation c else processing_csf_message cs)"

section \<open>Updating the hashes\<close>

fun update_hashes :: "bytes \<Rightarrow> bytes HashingMode list \<Rightarrow> bytes HashingMode list res" where
  "update_hashes data [] = Inr []"
| "update_hashes data (h # hs) =
     and_then (HashingMode_update data h) (\<lambda>h. and_then (update_hashes data hs) (\<lambda>hs. Inr (h # hs)))"

definition update_group :: "bytes \<Rightarrow> SignatureGroup \<Rightarrow> SignatureGroup res" where
  "update_group data g = and_then (update_hashes data (sg_hashes g)) (\<lambda>hs. Inr (g\<lparr>sg_hashes := hs\<rparr>))"

text \<open>The groups from the bottom; the topmost one is left out unless hashing is enabled.\<close>

fun update_groups :: "Hashing \<Rightarrow> bytes \<Rightarrow> SignatureGroup list \<Rightarrow> SignatureGroup list res" where
  "update_groups how data [] = Inr []"
| "update_groups how data (g # gs) =
     (if gs = [] \<and> how \<noteq> Enabled then Inr (g # gs)
      else and_then (update_group data g) (\<lambda>g. and_then (update_groups how data gs) (\<lambda>gs. Inr (g # gs))))"

definition hash_update_csf :: "bytes \<Rightarrow> Cookie \<Rightarrow> Cookie res" where
  "hash_update_csf data c =
     (let ngroups = length (ck_sig_groups c) in
      if ck_hashes_for c \<noteq> ForCleartextSignature then Inl Panic
      else if \<not> (ngroups = 1 \<or> ngroups = 2) then Inl Panic
      else if data = [] then Inr c
      else if ck_hashing c = Disabled then Inr c
      else
        and_then (update_group data (hd (ck_sig_groups c))) (\<lambda>g. Inr (c\<lparr>ck_sig_groups := (ck_sig_groups c)[0 := g]\<rparr>)))"

definition hash_stashed :: "Cookie \<Rightarrow> Cookie res" where
  "hash_stashed c =
     (case ck_hash_stash c of
        None \<Rightarrow> Inr c
      | Some stashed_data \<Rightarrow>
          (let ngroups = length (ck_sig_groups c) in
           if ngroups \<le> 1 then Inl Panic
           else
             and_then (update_group stashed_data (ck_sig_groups c ! (ngroups - 2))) (\<lambda>g.
               Inr (c\<lparr>ck_hash_stash := None, ck_sig_groups := (ck_sig_groups c)[ngroups - 2 := g]\<rparr>))))"

definition hash_update :: "bytes \<Rightarrow> Cookie \<Rightarrow> Cookie res" where
  "hash_update data c =
     (if ck_hashes_for c = ForCleartextSignature then hash_update_csf data c
      else
        and_then (hash_stashed c) (\<lambda>c.
          if data = [] then Inr c
          else if ck_hashing c = Disabled then Inr c
          else
            and_then (update_groups (ck_hashing c) data (ck_sig_groups c)) (\<lambda>gs. Inr (c\<lparr>ck_sig_groups := gs\<rparr>))))"

section \<open>The hashed reader\<close>

record 'r HashedReader =
  hr_reader :: 'r
  hr_cookie :: Cookie

text \<open>A context of a supported algorithm, into which the salt is hashed first.\<close>

definition new_context :: "(HashAlgorithm \<Rightarrow> bool) \<Rightarrow> bytes \<Rightarrow> HashAlgorithm \<Rightarrow> bytes res" where
  "new_context supported salt1 algo =
     (if supported algo then Inr salt1 else Inl (Err (UnsupportedHashAlgorithm algo)))"

fun push_hashes :: "(HashAlgorithm \<Rightarrow> bool) \<Rightarrow> HashAlgorithm HashingMode list \<Rightarrow> Cookie \<Rightarrow> Cookie res" where
  "push_hashes supported [] c = Inr c"
| "push_hashes supported (mode # modes) c =
     and_then (HashingMode_mapf (new_context supported (HashingMode_salt mode)) mode) (\<lambda>h.
       and_then (sig_group_mut (\<lambda>g. g\<lparr>sg_hashes := sg_hashes g @ [h]\<rparr>) c) (push_hashes supported modes))"

definition HashedReader_new ::
  "(HashAlgorithm \<Rightarrow> bool) \<Rightarrow> 'r \<Rightarrow> HashesFor \<Rightarrow> HashAlgorithm HashingMode list \<Rightarrow> 'r HashedReader res" where
  "HashedReader_new supported r hashes_for algos =
     and_then (push_hashes supported algos Cookie_default) (\<lambda>c.
       Inr \<lparr>hr_reader = r, hr_cookie = c\<lparr>ck_hashes_for := hashes_for\<rparr>\<rparr>)"

definition HashedReader_call :: "('r, 'a) io \<Rightarrow> ('r HashedReader, 'a) io" where
  "HashedReader_call f = on_reader f hr_reader (\<lambda>r. hr_reader_update (\<lambda>_. r))"

definition HashedReader_buffer :: "'r BufferedReader \<Rightarrow> 'r HashedReader \<Rightarrow> bytes res" where
  "HashedReader_buffer br h = br_buffer br (hr_reader h)"

definition HashedReader_data :: "'r BufferedReader \<Rightarrow> nat \<Rightarrow> ('r HashedReader, bytes) io" where
  "HashedReader_data br amount = HashedReader_call (br_data br amount)"

definition HashedReader_data_hard :: "'r BufferedReader \<Rightarrow> nat \<Rightarrow> ('r HashedReader, bytes) io" where
  "HashedReader_data_hard br amount = HashedReader_call (br_data_hard br amount)"

text \<open>The cookie is taken out, updated and put back; what returns or panics in between leaves the default one.\<close>

definition cookie_update :: "bytes \<Rightarrow> Cookie \<Rightarrow> ('r HashedReader, unit) io" where
  "cookie_update data c h =
     (case hash_update data c of Inl e \<Rightarrow> Some (h, Inl e) | Inr c \<Rightarrow> Some (h\<lparr>hr_cookie := c\<rparr>, Inr ()))"

definition HashedReader_consume :: "'r BufferedReader \<Rightarrow> nat \<Rightarrow> ('r HashedReader, bytes) io" where
  "HashedReader_consume br amount h =
     (let state = hr_cookie h; h = h\<lparr>hr_cookie := Cookie_default\<rparr> in
      case br_buffer br (hr_reader h) of
        Inl e \<Rightarrow> Some (h, Inl e)
      | Inr data \<Rightarrow>
          io_then (io_assert (amount \<le> length data) h) (\<lambda>_ h.
            io_then (cookie_update (take amount data) state h) (\<lambda>_ h. HashedReader_call (br_consume br amount) h)))"

definition HashedReader_data_consume :: "'r BufferedReader \<Rightarrow> nat \<Rightarrow> ('r HashedReader, bytes) io" where
  "HashedReader_data_consume br amount h =
     (let state = hr_cookie h; h = h\<lparr>hr_cookie := Cookie_default\<rparr> in
      io_then (HashedReader_call (br_data br amount) h) (\<lambda>data h.
        let data = take (min (length data) amount) data; got = length data in
        io_then (cookie_update data state h) (\<lambda>_ h.
          case HashedReader_call (br_data_consume br amount) h of
            None \<Rightarrow> None
          | Some (h, Inl e) \<Rightarrow> Some (h, Inl Panic)
          | Some (h, Inr data) \<Rightarrow> io_then (io_assert (got \<le> length data) h) (\<lambda>_ h. Some (h, Inr data)))))"

definition HashedReader_data_consume_hard :: "'r BufferedReader \<Rightarrow> nat \<Rightarrow> ('r HashedReader, bytes) io" where
  "HashedReader_data_consume_hard br amount h =
     (let state = hr_cookie h; h = h\<lparr>hr_cookie := Cookie_default\<rparr> in
      io_then (HashedReader_call (br_data_hard br amount) h) (\<lambda>data h.
        io_then (io_assert (amount \<le> length data) h) (\<lambda>_ h.
          io_then (cookie_update (take amount data) state h) (\<lambda>_ h.
            case HashedReader_call (br_data_consume br amount) h of
              None \<Rightarrow> None
            | Some (h, Inl e) \<Rightarrow> Some (h, Inl Panic)
            | Some (h, Inr data) \<Rightarrow> Some (h, Inr data)))))"

definition HashedReader_reader :: "'r BufferedReader \<Rightarrow> 'r HashedReader BufferedReader" where
  "HashedReader_reader br =
     \<lparr>br_read = buffered_reader_generic_read_impl (HashedReader_data_consume br), br_buffer = HashedReader_buffer br,
      br_data = HashedReader_data br, br_data_hard = HashedReader_data_hard br, br_consume = HashedReader_consume br,
      br_data_consume = HashedReader_data_consume br, br_data_consume_hard = HashedReader_data_consume_hard br,
      br_consummated = default_eof (HashedReader_data_hard br)\<rparr>"

text \<open>Detached signatures: everything is read, and the hashes of the topmost group are returned.\<close>

definition hash_buffered_reader ::
  "nat \<Rightarrow> (HashAlgorithm \<Rightarrow> bool) \<Rightarrow> 'r BufferedReader \<Rightarrow> HashAlgorithm HashingMode list \<Rightarrow> 'r
     \<Rightarrow> bytes HashingMode list res option" where
  "hash_buffered_reader buf_size supported br algos r =
     (case HashedReader_new supported r ForSignature algos of
        Inl e \<Rightarrow> Some (Inl e)
      | Inr h \<Rightarrow>
          (case drop_eof buf_size (HashedReader_reader br) h of
             None \<Rightarrow> None
           | Some (h, Inl e) \<Rightarrow> Some (Inl e)
           | Some (h, Inr _) \<Rightarrow> Some (and_then (sig_group (hr_cookie h)) (\<lambda>g. Inr (sg_hashes g)))))"

section \<open>Hashing never fails\<close>

lemma HashingMode_update_total: "\<exists>m'. HashingMode_update d m = Inr m'"
proof (cases m)
  case (Binary salt1 h)
  then show ?thesis by (simp add: HashingMode_update_def)
next
  case (Text salt1 h)
  then show ?thesis using HashingMode_update_text [of d False salt1 h] by (simp add: text_mode_def)
next
  case (TextLastWasCr salt1 h)
  then show ?thesis using HashingMode_update_text [of d True salt1 h] by (simp add: text_mode_def)
qed

definition updated :: "bytes \<Rightarrow> bytes HashingMode \<Rightarrow> bytes HashingMode" where
  "updated d m = projr (HashingMode_update d m)"

lemma HashingMode_update_updated: "HashingMode_update d m = Inr (updated d m)"
  using HashingMode_update_total [of d m] by (auto simp: updated_def)

lemma HashingMode_updates_fold: "HashingMode_updates ps m = Inr (fold updated ps m)"
  by (induction ps arbitrary: m) (simp_all add: HashingMode_update_updated)

lemma update_hashes_map: "update_hashes d hs = Inr (map (updated d) hs)"
  by (induction hs) (simp_all add: HashingMode_update_updated)

definition updated_group :: "bytes \<Rightarrow> SignatureGroup \<Rightarrow> SignatureGroup" where
  "updated_group d g = g\<lparr>sg_hashes := map (updated d) (sg_hashes g)\<rparr>"

lemma update_group_updated: "update_group d g = Inr (updated_group d g)"
  by (simp add: update_group_def update_hashes_map updated_group_def)

lemma update_groups_map:
  "update_groups how d gs =
   Inr (if how = Enabled then map (updated_group d) gs else map (updated_group d) (butlast gs) @ drop (length gs - 1) gs)"
proof (induction gs)
  case (Cons g gs)
  then show ?case by (cases gs) (auto simp: update_group_updated)
qed simp

text \<open>A cookie that hashes without panics, and keeps doing so.\<close>

definition cookie_ok :: "Cookie \<Rightarrow> bool" where
  "cookie_ok c \<longleftrightarrow>
     (if ck_hashes_for c = ForCleartextSignature then length (ck_sig_groups c) = 1 \<or> length (ck_sig_groups c) = 2
      else ck_hash_stash c = None \<or> 1 < length (ck_sig_groups c))"

lemma hash_update_ok:
  assumes "cookie_ok c"
  shows "\<exists>c'. hash_update d c = Inr c' \<and> cookie_ok c'"
proof (cases "ck_hashes_for c = ForCleartextSignature")
  case True
  then show ?thesis using assms by (auto simp: hash_update_def hash_update_csf_def cookie_ok_def update_group_updated)
next
  case False
  then obtain c1 where "hash_stashed c = Inr c1" "ck_hashes_for c1 = ck_hashes_for c" "ck_hash_stash c1 = None"
    using assms by (cases "ck_hash_stash c") (auto simp: hash_stashed_def cookie_ok_def update_group_updated Let_def)
  then show ?thesis using False by (auto simp: hash_update_def cookie_ok_def update_groups_map)
qed

lemma cookie_ok_default: "cookie_ok Cookie_default"
  by (simp add: cookie_ok_def Cookie_default_def)

lemma cookie_update_ok:
  assumes "cookie_ok c"
  shows "\<exists>c'. cookie_update d c h = Some (h\<lparr>hr_cookie := c'\<rparr>, Inr ()) \<and> cookie_ok c'"
  using hash_update_ok [OF assms, of d] by (auto simp: cookie_update_def)

section \<open>The contract of the hashed reader\<close>

context buffered_reader
begin

lemma HashedReader_core:
  "reader_core (HashedReader_buffer br) (HashedReader_data br) (HashedReader_consume br) (\<lambda>h. buf (hr_reader h)) (\<lambda>h. rem (hr_reader h))
     (\<lambda>h. ok (hr_reader h) \<and> cookie_ok (hr_cookie h))"
proof (unfold_locales, goal_cases)
  case (1 h)
  then show ?case by (simp add: HashedReader_buffer_def buffer)
next
  case (2 h)
  then show ?case using buf_prefix by simp
next
  case (3 h n)
  then obtain r' d where "br_data br n (hr_reader h) = Some (r', Inr d)" "ok r'" "rem r' = rem (hr_reader h)"
      "prefix (buf (hr_reader h)) (buf r')" "prefix d (buf r')" "0 < n \<longrightarrow> d = buf r'" "min n (length (rem (hr_reader h))) \<le> length d"
    using data [of "hr_reader h" n] by blast
  then show ?case using 3 by (auto simp: HashedReader_data_def HashedReader_call_def on_reader_def)
next
  case (4 h n)
  then obtain r' where "br_consume br n (hr_reader h) = Some (r', Inr (buf (hr_reader h)))" "ok r'"
      "rem r' = drop n (rem (hr_reader h))" "buf r' = drop n (buf (hr_reader h))"
    using consumeE [of "hr_reader h" n] by blast
  moreover obtain c' where "cookie_update (take n (buf (hr_reader h))) (hr_cookie h) (h\<lparr>hr_cookie := Cookie_default\<rparr>) =
      Some (h\<lparr>hr_cookie := c'\<rparr>, Inr ())" "cookie_ok c'"
    using cookie_update_ok [of "hr_cookie h" _ "h\<lparr>hr_cookie := Cookie_default\<rparr>"] 4 by force
  ultimately show ?case
    using 4 by (auto simp: HashedReader_consume_def HashedReader_call_def on_reader_def buffer Let_def)
qed

lemma HashedReader_data_consume_ok:
  assumes "ok (hr_reader h)" "cookie_ok (hr_cookie h)"
  shows "\<exists>h' d. HashedReader_data_consume br n h = Some (h', Inr d) \<and> (ok (hr_reader h') \<and> cookie_ok (hr_cookie h'))
    \<and> rem (hr_reader h') = drop n (rem (hr_reader h)) \<and> prefix d (rem (hr_reader h)) \<and> min n (length (rem (hr_reader h))) \<le> length d"
proof -
  obtain r1 d1 where d1: "br_data br n (hr_reader h) = Some (r1, Inr d1)" "ok r1" "rem r1 = rem (hr_reader h)" "prefix d1 (rem r1)"
    using dataE [OF assms(1), of n] by metis
  obtain r2 d where d: "br_data_consume br n r1 = Some (r2, Inr d)" "ok r2" "rem r2 = drop n (rem r1)" "prefix d (rem r1)"
      "min n (length (rem r1)) \<le> length d"
    using data_consume [OF d1(2)] by blast
  have "min (length d1) n \<le> length d" using d(5) prefix_length_le [OF d1(4)] by simp
  moreover obtain c' where "cookie_update (take (min (length d1) n) d1) (hr_cookie h) \<lparr>hr_reader = r1, hr_cookie = Cookie_default\<rparr> =
      Some (\<lparr>hr_reader = r1, hr_cookie = c'\<rparr>, Inr ())" "cookie_ok c'"
    using cookie_update_ok [OF assms(2), of "take (min (length d1) n) d1" "\<lparr>hr_reader = r1, hr_cookie = Cookie_default\<rparr>"] by auto
  ultimately show ?thesis
    using d1 d by (cases h) (simp add: HashedReader_data_consume_def HashedReader_call_def on_reader_def Let_def)
qed

lemma HashedReader_data_consume_hard_ok:
  assumes "ok (hr_reader h)" "cookie_ok (hr_cookie h)" "n \<le> length (rem (hr_reader h))"
  shows "\<exists>h' d. HashedReader_data_consume_hard br n h = Some (h', Inr d) \<and> (ok (hr_reader h') \<and> cookie_ok (hr_cookie h'))
    \<and> rem (hr_reader h') = drop n (rem (hr_reader h)) \<and> prefix d (rem (hr_reader h)) \<and> n \<le> length d"
proof -
  obtain r1 d1 where d1: "br_data_hard br n (hr_reader h) = Some (r1, Inr d1)" "ok r1" "rem r1 = rem (hr_reader h)" "n \<le> length d1"
    using data_hard [OF assms(1,3)] by blast
  obtain r2 d where d: "br_data_consume br n r1 = Some (r2, Inr d)" "ok r2" "rem r2 = drop n (rem r1)" "prefix d (rem r1)"
      "min n (length (rem r1)) \<le> length d"
    using data_consume [OF d1(2)] by blast
  moreover obtain c' where "cookie_update (take n d1) (hr_cookie h) \<lparr>hr_reader = r1, hr_cookie = Cookie_default\<rparr> =
      Some (\<lparr>hr_reader = r1, hr_cookie = c'\<rparr>, Inr ())" "cookie_ok c'"
    using cookie_update_ok [OF assms(2), of "take n d1" "\<lparr>hr_reader = r1, hr_cookie = Cookie_default\<rparr>"] by auto
  ultimately show ?thesis
    using d1 assms(3) by (cases h) (simp add: HashedReader_data_consume_hard_def HashedReader_call_def on_reader_def Let_def)
qed

lemma HashedReader_contract:
  "buffered_reader (HashedReader_reader br) (\<lambda>h. buf (hr_reader h)) (\<lambda>h. rem (hr_reader h))
     (\<lambda>h. ok (hr_reader h) \<and> cookie_ok (hr_cookie h))"
proof (intro buffered_reader.intro buffered_reader_axioms.intro, goal_cases)
  case 1
  show ?case using HashedReader_core by (simp add: HashedReader_reader_def)
next
  case (2 h n)
  then show ?case using data_hard [of "hr_reader h" n]
    by (fastforce simp: HashedReader_reader_def HashedReader_data_hard_def HashedReader_call_def on_reader_def)
next
  case (3 h n)
  then show ?case using data_hard_short [of "hr_reader h" n]
    by (fastforce simp: HashedReader_reader_def HashedReader_data_hard_def HashedReader_call_def on_reader_def)
next
  case (4 h n)
  then show ?case using HashedReader_data_consume_ok [of h n] by (simp add: HashedReader_reader_def)
next
  case (5 h n)
  then show ?case using HashedReader_data_consume_hard_ok [of h n] by (simp add: HashedReader_reader_def)
next
  case (6 h n)
  then show ?case using data_hard_short [of "hr_reader h" n] cookie_ok_default
    by (fastforce simp: HashedReader_reader_def HashedReader_data_consume_hard_def HashedReader_call_def on_reader_def)
next
  case (7 h n)
  then obtain h' d where h': "HashedReader_data_consume br n h = Some (h', Inr d)" "ok (hr_reader h')" "cookie_ok (hr_cookie h')"
      "rem (hr_reader h') = drop n (rem (hr_reader h))" "prefix d (rem (hr_reader h))" "min n (length (rem (hr_reader h))) \<le> length d"
    using HashedReader_data_consume_ok [of h n] by blast
  have "take n d = take n (rem (hr_reader h))"
    using h'(5,6) by (cases "n \<le> length d") (auto simp: prefix_def min_def split: if_splits)
  then show ?case using h' by (auto simp: HashedReader_reader_def buffered_reader_generic_read_impl_def)
qed

text \<open>Reading to the end hashes all that was left, in pieces.\<close>

lemma HashedReader_chunk:
  assumes "ok r" "0 < n"
    and hash: "\<And>d. hash_update d c = Inr (f d)"
  shows "\<exists>r1 r2 d. br_data (HashedReader_reader br) n \<lparr>hr_reader = r, hr_cookie = c\<rparr> = Some (\<lparr>hr_reader = r1, hr_cookie = c\<rparr>, Inr d)
    \<and> br_consume (HashedReader_reader br) (length d) \<lparr>hr_reader = r1, hr_cookie = c\<rparr> = Some (\<lparr>hr_reader = r2, hr_cookie = f d\<rparr>, Inr d)
    \<and> ok r2 \<and> rem r = d @ rem r2 \<and> (length d < n \<longrightarrow> rem r2 = [])"
proof -
  obtain r1 d where d: "br_data br n r = Some (r1, Inr d)" "ok r1" "rem r1 = rem r" "d = buf r1"
      "min n (length (rem r)) \<le> length d" "prefix d (rem r)"
    using dataE [OF assms(1)] assms(2) by metis
  obtain r2 where r2: "br_consume br (length d) r1 = Some (r2, Inr d)" "ok r2" "rem r2 = drop (length d) (rem r)"
    using consumeE [OF d(2), of "length d"] d(3,4) by auto
  have "rem r = d @ rem r2 \<and> (length d < n \<longrightarrow> rem r2 = [])"
    using d(6) prefix_full [OF d(6,5)] r2(3) by (auto simp: prefix_def)
  moreover have "br_buffer br r1 = Inr d" using buffer [OF d(2)] d(4) by simp
  ultimately show ?thesis
    using d(1) r2(1,2) hash [of d]
    by (intro exI [of _ r1] exI [of _ r2] exI [of _ d])
      (simp add: HashedReader_reader_def HashedReader_data_def HashedReader_consume_def HashedReader_call_def on_reader_def
        cookie_update_def Let_def)
qed

end

text \<open>The cookie of a reader that hashes for detached signatures.\<close>

definition sig_cookie :: "bytes HashingMode list \<Rightarrow> Cookie" where
  "sig_cookie hs = Cookie_default\<lparr>ck_hashes_for := ForSignature, ck_sig_groups := [\<lparr>sg_ops_count = 0, sg_hashes = hs\<rparr>]\<rparr>"

lemma updated_empty [simp]: "updated [] m = m"
  by (simp add: updated_def HashingMode_update_def)

lemma hash_update_sig_cookie: "hash_update d (sig_cookie hs) = Inr (sig_cookie (map (updated d) hs))"
  by (cases "d = []")
    (simp_all add: hash_update_def sig_cookie_def Cookie_default_def hash_stashed_def update_groups_map updated_group_def map_idI)

context buffered_reader
begin

lemma drop_eof_hashes:
  assumes "ok r" "0 < n"
  shows "\<exists>r' ps b'. drop_eof_loop n (HashedReader_reader br) b \<lparr>hr_reader = r, hr_cookie = sig_cookie hs\<rparr> =
      Some (\<lparr>hr_reader = r', hr_cookie = sig_cookie (map (fold updated ps) hs)\<rparr>, Inr b') \<and> concat ps = rem r"
  using assms
proof (induction "length (rem r)" arbitrary: b r hs rule: less_induct)
  case less
  obtain r1 r2 d where d: "br_data (HashedReader_reader br) n \<lparr>hr_reader = r, hr_cookie = sig_cookie hs\<rparr> =
        Some (\<lparr>hr_reader = r1, hr_cookie = sig_cookie hs\<rparr>, Inr d)"
      "br_consume (HashedReader_reader br) (length d) \<lparr>hr_reader = r1, hr_cookie = sig_cookie hs\<rparr> =
        Some (\<lparr>hr_reader = r2, hr_cookie = sig_cookie (map (updated d) hs)\<rparr>, Inr d)"
      "ok r2" "rem r = d @ rem r2" "length d < n \<longrightarrow> rem r2 = []"
    using HashedReader_chunk [OF less.prems, of "sig_cookie hs" "\<lambda>d. sig_cookie (map (updated d) hs)"] hash_update_sig_cookie by blast
  show ?case
  proof (cases "length d < n")
    case True
    then show ?thesis
      using d by (subst drop_eof_loop.simps) (auto intro!: exI [of _ "[d]"])
  next
    case False
    then have "length (rem r2) < length (rem r)" using d(4) less.prems(2) by auto
    then obtain r' ps b' where ps: "drop_eof_loop n (HashedReader_reader br) (b \<or> d \<noteq> []) \<lparr>hr_reader = r2, hr_cookie = sig_cookie (map (updated d) hs)\<rparr> =
        Some (\<lparr>hr_reader = r', hr_cookie = sig_cookie (map (fold updated ps) (map (updated d) hs))\<rparr>, Inr b')" "concat ps = rem r2"
      using less.hyps [OF _ d(3) less.prems(2)] by blast
    then show ?thesis
      using d False by (subst drop_eof_loop.simps) (auto intro!: exI [of _ "d # ps"])
  qed
qed

end

text \<open>What is hashed first is the salt.\<close>

definition salted :: "HashAlgorithm HashingMode \<Rightarrow> bytes HashingMode" where
  "salted m = HashingMode_map (\<lambda>_. HashingMode_salt m) m"

lemma push_hashes_supported:
  assumes "list_all (\<lambda>m. supported (HashingMode_into_inner m)) algos"
  shows "push_hashes supported algos (c\<lparr>ck_sig_groups := [\<lparr>sg_ops_count = k, sg_hashes = hs\<rparr>]\<rparr>) =
    Inr (c\<lparr>ck_sig_groups := [\<lparr>sg_ops_count = k, sg_hashes = hs @ map salted algos\<rparr>]\<rparr>)"
  using assms
proof (induction algos arbitrary: hs)
  case (Cons m algos)
  have "HashingMode_mapf (new_context supported (HashingMode_salt m)) m = Inr (salted m)"
    using Cons(2) by (cases m) (simp_all add: HashingMode_mapf_def new_context_def salted_def HashingMode_map_def HashingMode_into_inner_def)
  then show ?case using Cons by (simp add: sig_group_mut_def)
qed simp

lemma HashedReader_new_supported:
  assumes "list_all (\<lambda>m. supported (HashingMode_into_inner m)) algos"
  shows "HashedReader_new supported r ForSignature algos = Inr \<lparr>hr_reader = r, hr_cookie = sig_cookie (map salted algos)\<rparr>"
proof -
  have "Cookie_default = Cookie_default\<lparr>ck_sig_groups := [\<lparr>sg_ops_count = 0, sg_hashes = []\<rparr>]\<rparr>"
    by (simp add: Cookie_default_def SignatureGroup_default_def)
  then show ?thesis
    using push_hashes_supported [OF assms, where c = Cookie_default and k = 0 and hs = "[]"] by (simp add: HashedReader_new_def sig_cookie_def)
qed

text \<open>The reference: binary data as it is, text with its line endings normalised, after the salt.\<close>

definition hashed_data :: "bytes \<Rightarrow> HashAlgorithm HashingMode \<Rightarrow> bytes HashingMode" where
  "hashed_data data m =
     (case m of
        Binary salt1 _ \<Rightarrow> Binary salt1 (salt1 @ data)
      | Text salt1 _ \<Rightarrow> text_mode (ends_cr False data) salt1 (salt1 @ normalized False data)
      | TextLastWasCr salt1 _ \<Rightarrow> TextLastWasCr salt1 (salt1 @ normalized True data))"

lemma updates_binary: "fold updated ps (Binary salt1 h) = Binary salt1 (h @ concat ps)"
  by (induction ps arbitrary: h) (auto simp: updated_def HashingMode_update_def)

text \<open>
  Texts that are hashed the same in any pieces: no line feed without a carriage return of its own directly follows other line
  endings with a carriage return among them. \<open>run\<close> says whether there is one in the line endings just seen, \<open>cr\<close> whether it was
  last. Texts without carriage returns and texts in which every line feed follows one are of this kind.
\<close>

fun steady :: "bool \<Rightarrow> bool \<Rightarrow> bytes \<Rightarrow> bool" where
  "steady run cr [] \<longleftrightarrow> True"
| "steady run cr (c # cs) \<longleftrightarrow>
     (if c = CR then steady True True cs
      else if c = LF then (if cr then steady run False cs else \<not> run \<and> steady False False cs)
      else steady False False cs)"

lemma steady_no_cr: "CR \<notin> set bs \<Longrightarrow> steady False False bs"
  by (induction bs) auto

fun every_lf_after_cr :: "bool \<Rightarrow> bytes \<Rightarrow> bool" where
  "every_lf_after_cr cr [] \<longleftrightarrow> True"
| "every_lf_after_cr cr (c # cs) \<longleftrightarrow> (if c = LF then cr else True) \<and> every_lf_after_cr (c = CR) cs"

lemma steady_crlf: "every_lf_after_cr cr bs \<Longrightarrow> steady run cr bs"
  by (induction bs arbitrary: run cr) auto

lemma steady_hd: "p = [] \<or> hd p \<noteq> LF \<Longrightarrow> steady run True p \<longleftrightarrow> steady run False p"
  by (cases p) simp_all

lemma steady_not_lone: "steady True False q \<Longrightarrow> \<not> lone_lf q"
proof (induction q rule: lone_lf.induct)
  case (2 c cs)
  consider "c = CR" "cs = []" | "c = LF" | "c \<noteq> CR" "c \<noteq> LF" | d ds where "c = CR" "cs = d # ds" by (cases cs) auto
  then show ?case
  proof cases
    case 2: 4
    show ?thesis
    proof (cases "d = LF")
      case True
      then show ?thesis using 2 "2.IH"(1) "2.prems" by simp
    next
      case False
      then have "steady True False (d # ds)" using 2 "2.prems" steady_hd [of "d # ds" True] by simp
      then show ?thesis using 2 False "2.IH"(2) by simp
    qed
  qed (use "2.prems" in simp_all)
qed simp

lemma steady_bridged: "steady run cr p \<Longrightarrow> (cr \<Longrightarrow> run) \<Longrightarrow> bridged cr p"
proof (cases "cr \<and> p \<noteq> []")
  case True
  assume "steady run cr p" "cr \<Longrightarrow> run"
  then have "steady True True p" using True by simp
  then have "steady True False (if hd p = LF then tl p else p)" 
  proof (cases "hd p = LF")
    case lf: True
    then obtain t where "p = LF # t" using True by (cases p) simp_all
    then show ?thesis using \<open>steady True True p\<close> by simp
  next
    case False
    then show ?thesis using \<open>steady True True p\<close> steady_hd [of p True] by simp
  qed
  from steady_not_lone [OF this] show ?thesis by (cases "hd p = LF") (simp_all add: bridged_def)
qed (simp add: bridged_def)

lemma steady_append:
  assumes "steady run cr (xs @ ys)" "cr \<Longrightarrow> run"
  shows "steady run cr xs \<and> (\<exists>run'. (ends_cr cr xs \<longrightarrow> run') \<and> steady run' (ends_cr cr xs) ys)"
  using assms
proof (induction xs arbitrary: run cr)
  case (Cons c xs)
  have "ends_cr cr (c # xs) = ends_cr (c = CR) xs" by (simp add: ends_cr_def)
  then show ?case using Cons by (auto split: if_splits)
qed (auto simp: ends_cr_def)

lemma steady_pieces: "steady run cr (concat ps) \<Longrightarrow> (cr \<Longrightarrow> run) \<Longrightarrow> bridged_pieces cr ps"
proof (induction ps arbitrary: run cr)
  case (Cons p ps)
  have "steady run cr p" "\<exists>run'. (ends_cr cr p \<longrightarrow> run') \<and> steady run' (ends_cr cr p) (concat ps)"
    using steady_append [of run cr p "concat ps"] Cons.prems by simp_all
  then show ?case using Cons.IH Cons.prems(2) steady_bridged [of run cr p] by auto
qed simp

lemma updates_text:
  assumes "steady False False (concat ps)"
  shows "fold updated ps (Text salt1 h) = text_mode (ends_cr False (concat ps)) salt1 (h @ normalized False (concat ps))"
  using HashingMode_updates_text [of ps False salt1 h] steady_pieces [OF assms]
  by (auto simp: HashingMode_updates_fold text_mode_def)

section \<open>Properties\<close>

interpretation hashed_memory: buffered_reader "HashedReader_reader Memory_reader" "\<lambda>h. mem_rem (hr_reader h)" "\<lambda>h. mem_rem (hr_reader h)"
    "\<lambda>h. mem_ok (hr_reader h) \<and> cookie_ok (hr_cookie h)"
  by (rule memory.HashedReader_contract)

text \<open>
  C34. For a detached signature, all that a reader has left is hashed: as it is for binary signatures, and with normalised line
  endings for text signatures, each time after the salt, in whatever pieces the reader delivers the data. For text signatures, no
  line feed of its own may directly follow line endings with a carriage return, as in no text with uniform line endings one does;
  otherwise what is hashed depends on the pieces.
\<close>

theorem detached_data_hashed:
  assumes "buffered_reader br buf rem ok" "ok r" "0 < buf_size"
    and "list_all (\<lambda>m. supported (HashingMode_into_inner m)) algos"
    and "list_all (\<lambda>m. case m of Binary _ _ \<Rightarrow> True | Text _ _ \<Rightarrow> steady False False (rem r) | TextLastWasCr _ _ \<Rightarrow> False) algos"
  shows "hash_buffered_reader buf_size supported br algos r = Some (Inr (map (hashed_data (rem r)) algos))"
proof -
  obtain r' ps b' where ps: "drop_eof_loop buf_size (HashedReader_reader br) False \<lparr>hr_reader = r, hr_cookie = sig_cookie (map salted algos)\<rparr> =
      Some (\<lparr>hr_reader = r', hr_cookie = sig_cookie (map (fold updated ps) (map salted algos))\<rparr>, Inr b')" "concat ps = rem r"
    using buffered_reader.drop_eof_hashes [OF assms(1-3)] by blast
  have "fold updated ps (salted m) = hashed_data (rem r) m" if "m \<in> set algos" for m
    using assms(5) that updates_text [of ps] ps(2)
    by (cases m) (auto simp: list_all_iff salted_def HashingMode_map_def HashingMode_salt_def hashed_data_def updates_binary)
  then show ?thesis
    using ps(1) HashedReader_new_supported [OF assms(4), of r]
    by (simp add: hash_buffered_reader_def drop_eof_def sig_group_def sig_cookie_def)
qed

theorem detached_data_hashed_witness:
  "hash_buffered_reader 2 (\<lambda>_. True) Memory_reader [Binary [7] HashAlgorithm.SHA256, Text [] HashAlgorithm.SHA512]
       (Memory_new [0x61, CR, LF, CR, LF, 0x62, CR]) =
     Some (Inr [Binary [7] [7, 0x61, CR, LF, CR, LF, 0x62, CR], TextLastWasCr [] [0x61, CR, LF, CR, LF, 0x62, CR, LF]])"
  using detached_data_hashed [OF memory.buffered_reader_axioms, of "Memory_new [0x61, CR, LF, CR, LF, 0x62, CR]" 2 "\<lambda>_. True"
      "[Binary [7] HashAlgorithm.SHA256, Text [] HashAlgorithm.SHA512]"]
  by (simp add: hashed_data_def text_mode_def ends_cr_def mem_ok_def mem_rem_def Memory_new_def)

text \<open>
  If the data is shorter than asked for, consuming it fails, which is as it should be, and the reader forgets its hashes
  and its level.
\<close>

theorem failed_consume_loses_cookie:
  assumes "buffered_reader br buf rem ok" "ok (hr_reader h)" "length (rem (hr_reader h)) < n"
  shows "\<exists>h'. HashedReader_data_consume_hard br n h = Some (h', Inl (IoErr UnexpectedEof)) \<and> hr_cookie h' = Cookie_default"
  using buffered_reader.data_hard_short [OF assms]
  by (auto simp: HashedReader_data_consume_hard_def HashedReader_call_def on_reader_def)

end
