(* ===== verification/Aead.thy ===== *)
theory Aead
  imports PacketBodies ReaderContract
begin

text \<open>
  Authenticated encryption in chunks (\<open>crypto/aead.rs\<close>): contexts, the schedule of keys and nonces of the version 2 of
  encrypted containers, the encryptor, which is a writer, and the decryptor, which is a reader. The ciphers and the
  key derivation of the backend are parameters. A context of the backend is what it was built from, since every context
  is used once; opening a ciphertext leaves octets in the destination even if it fails, since the backends may write
  there before they compare the tag (\<open>crypto/backend/nettle/aead.rs\<close>). The sink of the encryptor is the octets written,
  the source of the decryptor any buffered reader. The counters (\<open>u64\<close>) are natural numbers with a test for overflow.
\<close>

section \<open>Contexts\<close>

record Builder =
  bd_symm :: SymmetricAlgorithm
  bd_aead :: AEADAlgorithm
  bd_key :: bytes
  bd_aad :: bytes
  bd_nonce :: bytes

text \<open>What the backend provides: which algorithms it supports, the creation of a context, its tag size and its use.\<close>

record AeadBackend =
  bk_supports_algo :: "SymmetricAlgorithm \<Rightarrow> bool"
  bk_supports_algo_with_symmetric :: "AEADAlgorithm \<Rightarrow> SymmetricAlgorithm \<Rightarrow> bool"
  bk_context :: "Builder \<Rightarrow> unit res"
  bk_digest_size :: "Builder \<Rightarrow> nat"
  bk_encrypt_seal :: "Builder \<Rightarrow> bytes \<Rightarrow> bytes res"
  bk_decrypt_verify :: "Builder \<Rightarrow> bytes \<Rightarrow> bytes \<Rightarrow> bytes \<times> unit res"

definition AEADAlgorithm_context ::
    "AeadBackend \<Rightarrow> AEADAlgorithm \<Rightarrow> SymmetricAlgorithm \<Rightarrow> bytes \<Rightarrow> bytes \<Rightarrow> bytes \<Rightarrow> Builder res" where
  "AEADAlgorithm_context bk aead symm key aad nonce =
     (if \<not> bk_supports_algo bk symm then Inl (Err (UnsupportedSymmetricAlgorithm symm))
      else if \<not> bk_supports_algo_with_symmetric bk aead symm then Inl (Err (UnsupportedAEADAlgorithm aead))
      else Inr \<lparr>bd_symm = symm, bd_aead = aead, bd_key = key, bd_aad = aad, bd_nonce = nonce\<rparr>)"

definition Builder_for_encryption :: "AeadBackend \<Rightarrow> Builder \<Rightarrow> Builder res" where
  "Builder_for_encryption bk b = and_then (bk_context bk b) (\<lambda>_. Inr b)"

definition Builder_for_decryption :: "AeadBackend \<Rightarrow> Builder \<Rightarrow> Builder res" where
  "Builder_for_decryption bk b = and_then (bk_context bk b) (\<lambda>_. Inr b)"

definition EncryptionContext_encrypt_seal :: "AeadBackend \<Rightarrow> Builder \<Rightarrow> bytes \<Rightarrow> bytes \<Rightarrow> bytes res" where
  "EncryptionContext_encrypt_seal bk ctx dst src =
     (if length dst \<noteq> length src + bk_digest_size bk ctx then Inl (Err InvalidOperation) else bk_encrypt_seal bk ctx src)"

definition DecryptionContext_decrypt_verify :: "AeadBackend \<Rightarrow> Builder \<Rightarrow> bytes \<Rightarrow> bytes \<Rightarrow> bytes \<times> unit res" where
  "DecryptionContext_decrypt_verify bk ctx dst src =
     (if length dst + bk_digest_size bk ctx \<noteq> length src then (dst, Inl (Err InvalidOperation))
      else bk_decrypt_verify bk ctx dst src)"

definition AEADAlgorithm_digest_size :: "AEADAlgorithm \<Rightarrow> nat res" where
  "AEADAlgorithm_digest_size a =
     (case a of
        AEADAlgorithm.EAX \<Rightarrow> Inr 16
      | AEADAlgorithm.OCB \<Rightarrow> Inr 16
      | AEADAlgorithm.GCM \<Rightarrow> Inr 16
      | _ \<Rightarrow> Inl (Err (UnsupportedAEADAlgorithm a)))"

section \<open>Schedules\<close>

text \<open>The trait: both methods hand key, nonce and associated data to a function that builds a context.\<close>

record Schedule =
  sch_chunk :: "nat \<Rightarrow> (bytes \<Rightarrow> bytes \<Rightarrow> bytes \<Rightarrow> Builder res) \<Rightarrow> Builder res"
  sch_finalizer :: "nat \<Rightarrow> nat \<Rightarrow> (bytes \<Rightarrow> bytes \<Rightarrow> bytes \<Rightarrow> Builder res) \<Rightarrow> Builder res"

record SEIPv2Schedule =
  ss_key :: bytes
  ss_nonce :: bytes
  ss_ad :: bytes
  ss_nonce_len :: nat

definition MIN_CHUNK_SIZE :: nat where "MIN_CHUNK_SIZE = 2 ^ 6"
definition MAX_CHUNK_SIZE :: nat where "MAX_CHUNK_SIZE = 2 ^ 22"
definition MAX_NONCE_LEN :: nat where "MAX_NONCE_LEN = 16"

text \<open>The backend's key derivation: from the key, the salt, the information and the length wanted to the octets.\<close>

definition SEIPv2Schedule_new ::
    "(bytes \<Rightarrow> bytes \<Rightarrow> bytes \<Rightarrow> nat \<Rightarrow> bytes res) \<Rightarrow> bytes \<Rightarrow> SymmetricAlgorithm \<Rightarrow> AEADAlgorithm \<Rightarrow> nat \<Rightarrow> bytes
      \<Rightarrow> SEIPv2Schedule res" where
  "SEIPv2Schedule_new hkdf_sha256 session_key sym_algo aead chunk_size slt =
     (if \<not> (MIN_CHUNK_SIZE \<le> chunk_size \<and> chunk_size \<le> MAX_CHUNK_SIZE) then Inl (Err InvalidArgument)
      else
        and_then (key_size sym_algo) (\<lambda>ks.
        and_then (nonce_size aead) (\<lambda>nonce_len.
          if nonce_len < 8 \<or> trailing_zeros 64 chunk_size < 6 then Inl Panic
          else
            (let ad = [0xd2, 2, u8_from_SymmetricAlgorithm sym_algo, u8_from_AEADAlgorithm aead,
                       word_of_nat (trailing_zeros 64 chunk_size) - 6] in
             and_then (hkdf_sha256 session_key slt ad (ks + (nonce_len - 8))) (\<lambda>key_nonce.
               Inr \<lparr>ss_key = take ks key_nonce, ss_nonce = drop ks key_nonce, ss_ad = ad, ss_nonce_len = nonce_len\<rparr>)))))"

text \<open>Filling the nonce in its store: slices out of range and copies of different lengths abort.\<close>

definition chunk_nonce :: "SEIPv2Schedule \<Rightarrow> nat \<Rightarrow> bytes res" where
  "chunk_nonce s index =
     (if MAX_NONCE_LEN < ss_nonce_len s \<or> length (ss_nonce s) + 8 \<noteq> ss_nonce_len s then Inl Panic
      else Inr (ss_nonce s @ be_bytes 8 index))"

definition SEIPv2Schedule_chunk :: "SEIPv2Schedule \<Rightarrow> nat \<Rightarrow> (bytes \<Rightarrow> bytes \<Rightarrow> bytes \<Rightarrow> 'a res) \<Rightarrow> 'a res" where
  "SEIPv2Schedule_chunk s index fn = and_then (chunk_nonce s index) (\<lambda>nonce. fn (ss_key s) nonce (ss_ad s))"

definition SEIPv2Schedule_finalizer :: "SEIPv2Schedule \<Rightarrow> nat \<Rightarrow> nat \<Rightarrow> (bytes \<Rightarrow> bytes \<Rightarrow> bytes \<Rightarrow> 'a res) \<Rightarrow> 'a res" where
  "SEIPv2Schedule_finalizer s index len fn =
     (let ad = ss_ad s @ be_bytes 8 len in
      and_then (chunk_nonce s index) (\<lambda>nonce. fn (ss_key s) nonce ad))"

definition SEIPv2_schedule :: "SEIPv2Schedule \<Rightarrow> Schedule" where
  "SEIPv2_schedule s = \<lparr>sch_chunk = SEIPv2Schedule_chunk s, sch_finalizer = SEIPv2Schedule_finalizer s\<rparr>"

section \<open>Decryptor\<close>

definition add_u64 :: "nat \<Rightarrow> nat \<Rightarrow> nat res" where
  "add_u64 a b = (if a + b < 2 ^ 64 then Inr (a + b) else Inl Panic)"

record 'r InternalDecryptor =
  id_source :: 'r
  id_sym_algo :: SymmetricAlgorithm
  id_aead :: AEADAlgorithm
  id_schedule :: Schedule
  id_digest_size :: nat
  id_chunk_size :: nat
  id_chunk_index :: nat
  id_bytes_decrypted :: nat
  id_buffer :: bytes

definition InternalDecryptor_new ::
    "SymmetricAlgorithm \<Rightarrow> AEADAlgorithm \<Rightarrow> nat \<Rightarrow> Schedule \<Rightarrow> 'r \<Rightarrow> 'r InternalDecryptor res" where
  "InternalDecryptor_new sym_algo aead chunk_size schedule source =
     and_then (AEADAlgorithm_digest_size aead) (\<lambda>ds.
       Inr \<lparr>id_source = source, id_sym_algo = sym_algo, id_aead = aead, id_schedule = schedule, id_digest_size = ds,
            id_chunk_size = chunk_size, id_chunk_index = 0, id_bytes_decrypted = 0, id_buffer = []\<rparr>)"

definition on_source :: "('r, 'a) io \<Rightarrow> ('r InternalDecryptor, 'a) io" where
  "on_source f d = (case f (id_source d) of None \<Rightarrow> None | Some (s, x) \<Rightarrow> Some (d\<lparr>id_source := s\<rparr>, x))"

definition decryption_context :: "AeadBackend \<Rightarrow> 'r InternalDecryptor \<Rightarrow> bytes \<Rightarrow> bytes \<Rightarrow> bytes \<Rightarrow> Builder res" where
  "decryption_context bk d key iv ad =
     and_then (AEADAlgorithm_context bk (id_aead d) (id_sym_algo d) key ad iv) (Builder_for_decryption bk)"

text \<open>After a chunk was opened: the counters advance, and only then the chunk is consumed.\<close>

definition chunk_decrypted :: "'r BufferedReader \<Rightarrow> nat \<Rightarrow> nat \<Rightarrow> ('r InternalDecryptor, unit) io" where
  "chunk_decrypted br to_decrypt chunk_len d =
     (case add_u64 (id_chunk_index d) 1 of
        Inl e \<Rightarrow> Some (d, Inl e)
      | Inr index \<Rightarrow>
          (let d = d\<lparr>id_chunk_index := index\<rparr> in
           case add_u64 (id_bytes_decrypted d) to_decrypt of
             Inl e \<Rightarrow> Some (d, Inl e)
           | Inr amount \<Rightarrow>
               io_then (on_source (br_consume br chunk_len) (d\<lparr>id_bytes_decrypted := amount\<rparr>)) (\<lambda>_ d. Some (d, Inr ()))))"

definition resize :: "bytes \<Rightarrow> nat \<Rightarrow> bytes" where
  "resize xs n = take n xs @ replicate (n - length xs) 0"

text \<open>
  One chunk: \<open>n\<close> is the length of the caller's buffer and \<open>out\<close> what was put there so far. A chunk that does not fit is
  opened in the buffer of the decryptor.
\<close>

definition decrypt_chunk ::
    "AeadBackend \<Rightarrow> 'r BufferedReader \<Rightarrow> nat \<Rightarrow> bytes \<Rightarrow> bytes \<Rightarrow> ('r InternalDecryptor, bytes) io" where
  "decrypt_chunk bk br n out chunk d =
     (if chunk = [] then Some (d, Inr out)
      else if length chunk \<le> id_digest_size d then Some (d, Inl (Err ManipulatedMessage))
      else
        (case sch_chunk (id_schedule d) (id_chunk_index d) (decryption_context bk d) of
           Inl e \<Rightarrow> Some (d, Inl e)
         | Inr ctx \<Rightarrow>
             (let to_decrypt = length chunk - id_digest_size d in
              if n - length out < to_decrypt then
                (case DecryptionContext_decrypt_verify bk ctx (resize (id_buffer d) to_decrypt) chunk of
                   (buffer, Inl e) \<Rightarrow> Some (d\<lparr>id_buffer := buffer\<rparr>, Inl e)
                 | (buffer, Inr _) \<Rightarrow>
                     (let to_copy = n - length out in
                      io_then (io_assert (0 < to_copy \<and> to_copy < id_chunk_size d) (d\<lparr>id_buffer := buffer\<rparr>)) (\<lambda>_ d.
                      io_then (chunk_decrypted br to_decrypt (length chunk) (d\<lparr>id_buffer := drop to_copy buffer\<rparr>)) (\<lambda>_ d.
                        Some (d, Inr (out @ take to_copy buffer))))))
              else
                (case DecryptionContext_decrypt_verify bk ctx (replicate to_decrypt 0) chunk of
                   (_, Inl e) \<Rightarrow> Some (d, Inl e)
                 | (plain, Inr _) \<Rightarrow>
                     io_then (chunk_decrypted br to_decrypt (length chunk) d) (\<lambda>_ d. Some (d, Inr (out @ plain)))))))"

definition check_final_digest :: "AeadBackend \<Rightarrow> 'r BufferedReader \<Rightarrow> ('r InternalDecryptor, unit) io" where
  "check_final_digest bk br d =
     (case sch_finalizer (id_schedule d) (id_chunk_index d) (id_bytes_decrypted d) (decryption_context bk d) of
        Inl e \<Rightarrow> Some (d, Inl e)
      | Inr ctx \<Rightarrow>
          io_then (on_source (br_data br (id_digest_size d)) d) (\<lambda>final_digest d.
            case DecryptionContext_decrypt_verify bk ctx [] final_digest of
              (_, Inl e) \<Rightarrow> Some (d, Inl e)
            | (_, Inr _) \<Rightarrow> io_then (on_source (br_consume br (id_digest_size d)) d) (\<lambda>_ d. Some (d, Inr ()))))"

text \<open>The loop over the chunks that the caller's buffer has room for.\<close>

fun decrypt_chunks :: "AeadBackend \<Rightarrow> 'r BufferedReader \<Rightarrow> nat \<Rightarrow> nat \<Rightarrow> bytes \<Rightarrow> ('r InternalDecryptor, bytes) io" where
  "decrypt_chunks bk br 0 n out d = Some (d, Inr out)"
| "decrypt_chunks bk br (Suc k) n out d =
     (let final_digest_size = id_digest_size d;
          chunk_digest_size = id_chunk_size d + id_digest_size d;
          to_read = chunk_digest_size + final_digest_size in
      io_then (on_source (br_data br to_read) d) (\<lambda>_ d.
      io_then (Some (d, br_buffer br (id_source d))) (\<lambda>buffer d.
        if buffer = [] then Some (d, Inr out)
        else if length buffer < final_digest_size then Some (d, Inl (Err ManipulatedMessage))
        else
          (let check_final_tag = length buffer < to_read;
               chunk = take (min (length buffer) to_read - final_digest_size) buffer in
           io_then (io_assert (length chunk \<le> chunk_digest_size) d) (\<lambda>_ d.
           io_then (decrypt_chunk bk br n out chunk d) (\<lambda>out d.
             if check_final_tag then io_then (check_final_digest bk br d) (\<lambda>_ d. Some (d, Inr out))
             else decrypt_chunks bk br k n out d))))))"

definition read_helper :: "AeadBackend \<Rightarrow> 'r BufferedReader \<Rightarrow> nat \<Rightarrow> ('r InternalDecryptor, bytes) io" where
  "read_helper bk br n d =
     (let to_copy = min (length (id_buffer d)) n;
          out = take to_copy (id_buffer d);
          d' = d\<lparr>id_buffer := drop to_copy (id_buffer d)\<rparr> in
      if id_buffer d \<noteq> [] \<and> to_copy = n then Some (d', Inr out)
      else if id_chunk_size d = 0 then Some (d', Inl Panic)
      else decrypt_chunks bk br ((n - length out + id_chunk_size d - 1) div id_chunk_size d) n out d')"

text \<open>Errors of the library are wrapped in an error of the standard library.\<close>

definition wrap_error :: "failure \<Rightarrow> failure" where
  "wrap_error e = (case e of Err _ \<Rightarrow> IoErr OtherError | _ \<Rightarrow> e)"

definition InternalDecryptor_read :: "AeadBackend \<Rightarrow> 'r BufferedReader \<Rightarrow> nat \<Rightarrow> ('r InternalDecryptor, bytes) io" where
  "InternalDecryptor_read bk br n d =
     (case read_helper bk br n d of
        None \<Rightarrow> None
      | Some (d, Inr out) \<Rightarrow> Some (d, Inr out)
      | Some (d, Inl e) \<Rightarrow> Some (d, Inl (wrap_error e)))"

text \<open>The decryptor as a buffered reader, with all methods those of the generic reader in it.\<close>

definition Decryptor_new ::
    "nat \<Rightarrow> SymmetricAlgorithm \<Rightarrow> AEADAlgorithm \<Rightarrow> nat \<Rightarrow> Schedule \<Rightarrow> 'r \<Rightarrow> 'r InternalDecryptor Generic res" where
  "Decryptor_new buf_size symm aead chunk_size schedule source =
     and_then (InternalDecryptor_new symm aead chunk_size schedule source) (\<lambda>d. Inr (Generic_new buf_size d None))"

definition Decryptor_reader :: "AeadBackend \<Rightarrow> nat \<Rightarrow> 'r BufferedReader \<Rightarrow> 'r InternalDecryptor Generic BufferedReader" where
  "Decryptor_reader bk buf_size br = Generic_reader buf_size (InternalDecryptor_read bk br)"

section \<open>Encryptor\<close>

record Encryptor =
  en_inner :: "bytes option"
  en_sym_algo :: SymmetricAlgorithm
  en_aead :: AEADAlgorithm
  en_schedule :: Schedule
  en_digest_size :: nat
  en_chunk_size :: nat
  en_chunk_index :: nat
  en_bytes_encrypted :: nat
  en_buffer :: bytes
  en_scratch :: bytes

definition Encryptor_new :: "SymmetricAlgorithm \<Rightarrow> AEADAlgorithm \<Rightarrow> nat \<Rightarrow> Schedule \<Rightarrow> bytes \<Rightarrow> Encryptor res" where
  "Encryptor_new sym_algo aead chunk_size schedule sink =
     and_then (AEADAlgorithm_digest_size aead) (\<lambda>ds.
       Inr \<lparr>en_inner = Some sink, en_sym_algo = sym_algo, en_aead = aead, en_schedule = schedule, en_digest_size = ds,
            en_chunk_size = chunk_size, en_chunk_index = 0, en_bytes_encrypted = 0, en_buffer = [],
            en_scratch = replicate (chunk_size + ds) 0\<rparr>)"

definition encryption_context :: "AeadBackend \<Rightarrow> Encryptor \<Rightarrow> bytes \<Rightarrow> bytes \<Rightarrow> bytes \<Rightarrow> Builder res" where
  "encryption_context bk e key iv ad =
     and_then (AEADAlgorithm_context bk (en_aead e) (en_sym_algo e) key ad iv) (Builder_for_encryption bk)"

definition add_encrypted :: "nat \<Rightarrow> (Encryptor, unit) io" where
  "add_encrypted n e =
     (case add_u64 (en_bytes_encrypted e) n of
        Inl x \<Rightarrow> Some (e, Inl x)
      | Inr amount \<Rightarrow>
          (case add_u64 (en_chunk_index e) 1 of
             Inl x \<Rightarrow> Some (e\<lparr>en_bytes_encrypted := amount\<rparr>, Inl x)
           | Inr index \<Rightarrow> Some (e\<lparr>en_bytes_encrypted := amount, en_chunk_index := index\<rparr>, Inr ())))"

text \<open>Sealing a chunk into the scratch buffer, counting it, clearing the plaintext buffer if it was there, writing it.\<close>

definition encrypt_chunk :: "AeadBackend \<Rightarrow> nat \<Rightarrow> bool \<Rightarrow> bytes \<Rightarrow> (Encryptor, unit) io" where
  "encrypt_chunk bk amount clear chunk e =
     (case sch_chunk (en_schedule e) (en_chunk_index e) (encryption_context bk e) of
        Inl x \<Rightarrow> Some (e, Inl x)
      | Inr ctx \<Rightarrow>
          (case EncryptionContext_encrypt_seal bk ctx (en_scratch e) chunk of
             Inl x \<Rightarrow> Some (e, Inl x)
           | Inr sealed \<Rightarrow>
               io_then (add_encrypted amount (e\<lparr>en_scratch := sealed\<rparr>)) (\<lambda>_ e.
                 Some (e\<lparr>en_buffer := (if clear then [] else en_buffer e),
                         en_inner := map_option (\<lambda>inner. inner @ en_scratch e) (en_inner e)\<rparr>, Inr ()))))"

function chunks :: "nat \<Rightarrow> bytes \<Rightarrow> bytes list" where
  "chunks n xs = (if xs = [] \<or> n = 0 then [] else take n xs # chunks n (drop n xs))"
  by pat_completeness auto
termination
  by (relation "measure (length \<circ> snd)") auto

declare chunks.simps [simp del]

fun encrypt_whole_chunks :: "AeadBackend \<Rightarrow> bytes list \<Rightarrow> (Encryptor, unit) io" where
  "encrypt_whole_chunks bk [] e = Some (e, Inr ())"
| "encrypt_whole_chunks bk (chunk # rest) e =
     (if length chunk = en_chunk_size e then
        io_then (encrypt_chunk bk (en_chunk_size e) False chunk e) (\<lambda>_ e. encrypt_whole_chunks bk rest e)
      else
        io_then (io_assert (en_buffer e = []) e) (\<lambda>_ e. encrypt_whole_chunks bk rest (e\<lparr>en_buffer := en_buffer e @ chunk\<rparr>)))"

text \<open>Filling a buffer that is not empty, and sealing it once it is full; the rest of the data is returned.\<close>

definition fill_buffer :: "AeadBackend \<Rightarrow> bytes \<Rightarrow> (Encryptor, bytes) io" where
  "fill_buffer bk buf e =
     (if en_buffer e = [] then Some (e, Inr buf)
      else if en_chunk_size e < length (en_buffer e) then Some (e, Inl Panic)
      else
        (let n = min (length buf) (en_chunk_size e - length (en_buffer e));
             e' = e\<lparr>en_buffer := en_buffer e @ take n buf\<rparr> in
         io_then (io_assert (length (en_buffer e') \<le> en_chunk_size e') e') (\<lambda>_ e.
           if length (en_buffer e) = en_chunk_size e then
             io_then (encrypt_chunk bk (en_chunk_size e) True (en_buffer e) e) (\<lambda>_ e. Some (e, Inr (drop n buf)))
           else Some (e, Inr (drop n buf)))))"

definition write_helper :: "AeadBackend \<Rightarrow> bytes \<Rightarrow> (Encryptor, nat) io" where
  "write_helper bk buf e =
     (if en_inner e = None then Some (e, Inl (IoErr BrokenPipe))
      else
        io_then (fill_buffer bk buf e) (\<lambda>rest e.
        io_then (io_assert (en_chunk_size e \<noteq> 0) e) (\<lambda>_ e.
        io_then (encrypt_whole_chunks bk (chunks (en_chunk_size e) rest) e) (\<lambda>_ e.
          Some (e, Inr (length buf))))))"

definition Encryptor_write :: "AeadBackend \<Rightarrow> bytes \<Rightarrow> (Encryptor, nat) io" where
  "Encryptor_write bk buf e =
     (case write_helper bk buf e of
        None \<Rightarrow> None
      | Some (e, Inr n) \<Rightarrow> Some (e, Inr n)
      | Some (e, Inl x) \<Rightarrow> Some (e, Inl (wrap_error x)))"

definition Encryptor_flush :: "(Encryptor, unit) io" where
  "Encryptor_flush e = Some (e, if en_inner e = None then Inl (IoErr BrokenPipe) else Inr ())"

text \<open>
  Finishing takes the inner writer out of the encryptor; when a step fails, the writer is dropped with what was
  written.
\<close>

definition final_chunk :: "AeadBackend \<Rightarrow> bytes \<Rightarrow> (Encryptor, bytes) io" where
  "final_chunk bk inner e =
     (if en_buffer e = [] then Some (e, Inr inner)
      else
        (case sch_chunk (en_schedule e) (en_chunk_index e) (encryption_context bk e) of
           Inl x \<Rightarrow> Some (e, Inl x)
         | Inr ctx \<Rightarrow>
             io_then (io_assert (length (en_buffer e) < en_chunk_size e) e) (\<lambda>_ e.
             let e = e\<lparr>en_scratch := take (length (en_buffer e) + en_digest_size e) (en_scratch e)\<rparr> in
             case EncryptionContext_encrypt_seal bk ctx (en_scratch e) (en_buffer e) of
               Inl x \<Rightarrow> Some (e, Inl x)
             | Inr sealed \<Rightarrow>
                 io_then (add_encrypted (length (en_buffer e)) (e\<lparr>en_scratch := sealed\<rparr>)) (\<lambda>_ e.
                   Some (e\<lparr>en_buffer := []\<rparr>, Inr (inner @ en_scratch e))))))"

definition Encryptor_finalize :: "AeadBackend \<Rightarrow> (Encryptor, bytes) io" where
  "Encryptor_finalize bk e =
     (case en_inner e of
        None \<Rightarrow> Some (e, Inl (IoErr BrokenPipe))
      | Some inner \<Rightarrow>
          io_then (final_chunk bk inner (e\<lparr>en_inner := None\<rparr>)) (\<lambda>inner e.
            case sch_finalizer (en_schedule e) (en_chunk_index e) (en_bytes_encrypted e) (encryption_context bk e) of
              Inl x \<Rightarrow> Some (e, Inl x)
            | Inr ctx \<Rightarrow>
                io_then (io_assert (en_digest_size e \<le> length (en_scratch e)) e) (\<lambda>_ e.
                  case EncryptionContext_encrypt_seal bk ctx (take (en_digest_size e) (en_scratch e)) [] of
                    Inl x \<Rightarrow> Some (e, Inl x)
                  | Inr tag \<Rightarrow> Some (e\<lparr>en_scratch := tag @ drop (en_digest_size e) (en_scratch e)\<rparr>, Inr (inner @ tag)))))"

fun Encryptor_write_all :: "AeadBackend \<Rightarrow> bytes list \<Rightarrow> (Encryptor, unit) io" where
  "Encryptor_write_all bk [] e = Some (e, Inr ())"
| "Encryptor_write_all bk (buf # bufs) e = io_then (Encryptor_write bk buf e) (\<lambda>_ e. Encryptor_write_all bk bufs e)"


section \<open>The format\<close>

text \<open>
  Reference definitions of the format: chunks of one size, the last one possibly shorter, each sealed with its index,
  and at the end a tag over nothing that binds the number of chunks and octets. \<open>seal\<close>, \<open>opn\<close> and \<open>fin\<close> are the
  operations on one chunk.
\<close>

function encode_chunks :: "(nat \<Rightarrow> bytes \<Rightarrow> bytes) \<Rightarrow> (nat \<Rightarrow> nat \<Rightarrow> bytes) \<Rightarrow> nat \<Rightarrow> nat \<Rightarrow> nat \<Rightarrow> bytes \<Rightarrow> bytes" where
  "encode_chunks seal fin cs i t xs =
     (if xs = [] \<or> cs = 0 then fin i t
      else seal i (take cs xs) @ encode_chunks seal fin cs (i + 1) (t + length (take cs xs)) (drop cs xs))"
  by pat_completeness auto
termination
  by (relation "measure (\<lambda>(_, _, _, _, _, xs). length xs)") auto

declare encode_chunks.simps [simp del]

text \<open>
  What a reader may deliver of a ciphertext: the octets that were verified, in order, and how the stream ends, with
  \<open>None\<close> for a good end and otherwise the first failure. A chunk counts when its own tag is right, the last one if it is
  shorter than the others only when the final tag is right, too. Nothing after a failure counts.
\<close>

type_synonym verified_stream = "bytes \<times> failure option"

definition preceded :: "bytes \<Rightarrow> verified_stream \<Rightarrow> verified_stream" where
  "preceded p v = (p @ fst v, snd v)"

definition ends_with :: "bytes \<Rightarrow> unit res \<Rightarrow> verified_stream" where
  "ends_with p r = (case r of Inl e \<Rightarrow> ([], Some e) | Inr _ \<Rightarrow> (p, None))"

function decode_chunks ::
    "(nat \<Rightarrow> bytes \<Rightarrow> bytes res) \<Rightarrow> (nat \<Rightarrow> nat \<Rightarrow> bytes \<Rightarrow> unit res) \<Rightarrow> nat \<Rightarrow> nat \<Rightarrow> nat \<Rightarrow> nat \<Rightarrow> bytes \<Rightarrow> verified_stream" where
  "decode_chunks opn fin cs ds i t ct =
     (if length ct < ds then ([], Some (Err ManipulatedMessage))
      else if length ct = ds then ends_with [] (fin i t ct)
      else
        (let n = min (length ct) (cs + ds + ds) - ds in
         if n \<le> ds then ([], Some (Err ManipulatedMessage))
         else
           (case opn i (take n ct) of
              Inl e \<Rightarrow> ([], Some e)
            | Inr p \<Rightarrow>
                if length ct < cs + ds + ds then ends_with p (fin (i + 1) (t + (n - ds)) (drop n ct))
                else preceded p (decode_chunks opn fin cs ds (i + 1) (t + (n - ds)) (drop n ct)))))"
  by pat_completeness auto
termination
  by (relation "measure (\<lambda>(_, _, _, _, _, _, ct). length ct)") auto

declare decode_chunks.simps [simp del]

lemma preceded_simps [simp]:
  "preceded [] v = v" "preceded p (q, e) = (p @ q, e)" "preceded p (preceded q v) = preceded (p @ q) v"
  "fst (preceded p v) = p @ fst v" "snd (preceded p v) = snd v"
  by (simp_all add: preceded_def)

lemma ends_with_simps [simp]: "ends_with p (Inl e) = ([], Some e)" "ends_with p (Inr u) = (p, None)"
  by (simp_all add: ends_with_def)

text \<open>The operations on one chunk, with the contexts that the schedule makes.\<close>

definition open_chunk :: "AeadBackend \<Rightarrow> 'r InternalDecryptor \<Rightarrow> nat \<Rightarrow> bytes \<Rightarrow> bytes res" where
  "open_chunk bk d i chunk =
     and_then (sch_chunk (id_schedule d) i (decryption_context bk d)) (\<lambda>ctx.
       case DecryptionContext_decrypt_verify bk ctx (replicate (length chunk - id_digest_size d) 0) chunk of
         (plain, r) \<Rightarrow> and_then r (\<lambda>_. Inr plain))"

definition open_final :: "AeadBackend \<Rightarrow> 'r InternalDecryptor \<Rightarrow> nat \<Rightarrow> nat \<Rightarrow> bytes \<Rightarrow> unit res" where
  "open_final bk d i t tag =
     and_then (sch_finalizer (id_schedule d) i t (decryption_context bk d)) (\<lambda>ctx.
       snd (DecryptionContext_decrypt_verify bk ctx [] tag))"

definition decode_from :: "AeadBackend \<Rightarrow> 'r InternalDecryptor \<Rightarrow> nat \<Rightarrow> nat \<Rightarrow> bytes \<Rightarrow> verified_stream" where
  "decode_from bk d = decode_chunks (open_chunk bk d) (open_final bk d) (id_chunk_size d) (id_digest_size d)"

text \<open>
  What a decryptor has yet to deliver: its buffer, and the rest of the ciphertext decoded. A source with nothing left is
  the end: the final tag was checked before, or the ciphertext was empty from the start, which the code does not reject.
\<close>

definition stream_of :: "AeadBackend \<Rightarrow> ('r \<Rightarrow> bytes) \<Rightarrow> 'r InternalDecryptor \<Rightarrow> verified_stream" where
  "stream_of bk rem d =
     preceded (id_buffer d)
       (if rem (id_source d) = [] then ([], None)
        else decode_from bk d (id_chunk_index d) (id_bytes_decrypted d) (rem (id_source d)))"

text \<open>A destination is a slice, which keeps its length.\<close>

definition keeps_length :: "AeadBackend \<Rightarrow> bool" where
  "keeps_length bk \<longleftrightarrow> (\<forall>ctx dst src. length (fst (bk_decrypt_verify bk ctx dst src)) = length dst)"

definition dec_ok :: "('r \<Rightarrow> bytes) \<Rightarrow> ('r \<Rightarrow> bool) \<Rightarrow> 'r InternalDecryptor \<Rightarrow> bool" where
  "dec_ok rem ok d \<longleftrightarrow> ok (id_source d) \<and> 0 < id_chunk_size d \<and> 0 < id_digest_size d
     \<and> id_chunk_index d + length (rem (id_source d)) < 2 ^ 64 \<and> id_bytes_decrypted d + length (rem (id_source d)) < 2 ^ 64"

lemma length_resize [simp]: "length (resize xs n) = n"
  by (simp add: resize_def)

lemma resize_Nil [simp]: "resize [] n = replicate n 0"
  by (simp add: resize_def)

lemma open_chunkE:
  assumes "open_chunk bk d i chunk = Inr p"
  obtains ctx where "sch_chunk (id_schedule d) i (decryption_context bk d) = Inr ctx"
    "DecryptionContext_decrypt_verify bk ctx (replicate (length chunk - id_digest_size d) 0) chunk = (p, Inr ())"
proof -
  obtain ctx where ctx: "sch_chunk (id_schedule d) i (decryption_context bk d) = Inr ctx"
    using assms by (auto simp: open_chunk_def result_simps)
  moreover obtain q r where "DecryptionContext_decrypt_verify bk ctx (replicate (length chunk - id_digest_size d) 0) chunk = (q, r)"
    by fastforce
  ultimately show thesis using assms that by (auto simp: open_chunk_def result_simps)
qed

lemma open_chunk_length:
  assumes "keeps_length bk" "open_chunk bk d i chunk = Inr p"
  shows "length p = length chunk - id_digest_size d"
  using assms
  by (auto simp: open_chunk_def keeps_length_def DecryptionContext_decrypt_verify_def result_simps split: if_splits prod.splits)
     (metis fst_conv length_replicate)

lemma open_chunk_update [simp]:
  "open_chunk bk (d\<lparr>id_source := s\<rparr>) = open_chunk bk d"
  "open_chunk bk (d\<lparr>id_buffer := b\<rparr>) = open_chunk bk d"
  "open_chunk bk (d\<lparr>id_chunk_index := i\<rparr>) = open_chunk bk d"
  "open_chunk bk (d\<lparr>id_bytes_decrypted := t\<rparr>) = open_chunk bk d"
  by (simp_all add: open_chunk_def [abs_def] decryption_context_def [abs_def])

lemma open_final_update [simp]:
  "open_final bk (d\<lparr>id_source := s\<rparr>) = open_final bk d"
  "open_final bk (d\<lparr>id_buffer := b\<rparr>) = open_final bk d"
  "open_final bk (d\<lparr>id_chunk_index := i\<rparr>) = open_final bk d"
  "open_final bk (d\<lparr>id_bytes_decrypted := t\<rparr>) = open_final bk d"
  by (simp_all add: open_final_def [abs_def] decryption_context_def [abs_def])

lemma decode_from_update [simp]:
  "decode_from bk (d\<lparr>id_source := s\<rparr>) = decode_from bk d"
  "decode_from bk (d\<lparr>id_buffer := b\<rparr>) = decode_from bk d"
  "decode_from bk (d\<lparr>id_chunk_index := i\<rparr>) = decode_from bk d"
  "decode_from bk (d\<lparr>id_bytes_decrypted := t\<rparr>) = decode_from bk d"
  by (simp_all add: decode_from_def)

context buffered_reader
begin

lemma chunk_decrypted_ok:
  assumes "ok (id_source d)" "n \<le> length (buf (id_source d))" "id_chunk_index d + 1 < 2 ^ 64" "id_bytes_decrypted d + l < 2 ^ 64"
  obtains s where "chunk_decrypted br l n d
      = Some (d\<lparr>id_chunk_index := id_chunk_index d + 1, id_bytes_decrypted := id_bytes_decrypted d + l, id_source := s\<rparr>, Inr ())"
    "ok s" "rem s = drop n (rem (id_source d))" "buf s = drop n (buf (id_source d))"
proof -
  obtain s where s: "br_consume br n (id_source d) = Some (s, Inr (buf (id_source d)))" "ok s" "rem s = drop n (rem (id_source d))"
      "buf s = drop n (buf (id_source d))"
    by (rule consumeE [OF assms(1,2)])
  have "chunk_decrypted br l n d
      = Some (d\<lparr>id_chunk_index := id_chunk_index d + 1, id_bytes_decrypted := id_bytes_decrypted d + l, id_source := s\<rparr>, Inr ())"
    using s(1) assms(3,4) by (simp add: chunk_decrypted_def add_u64_def on_source_def)
  then show thesis using s that by blast
qed

lemma check_final_digest_ok:
  assumes "dec_ok rem ok d" "length (rem (id_source d)) = id_digest_size d"
  shows "\<exists>s. check_final_digest bk br d =
      (case open_final bk d (id_chunk_index d) (id_bytes_decrypted d) (rem (id_source d)) of
         Inl e \<Rightarrow> Some (d\<lparr>id_source := s\<rparr>, Inl e) | Inr _ \<Rightarrow> Some (d\<lparr>id_source := s\<rparr>, Inr ()))
    \<and> (is_ok (open_final bk d (id_chunk_index d) (id_bytes_decrypted d) (rem (id_source d))) \<longrightarrow> ok s \<and> rem s = [])"
proof -
  have ok: "ok (id_source d)" and ds: "0 < id_digest_size d"
    using assms(1) by (simp_all add: dec_ok_def)
  obtain s t where s: "br_data br (id_digest_size d) (id_source d) = Some (s, Inr t)" "ok s" "rem s = rem (id_source d)"
      "prefix t (buf s)" "min (id_digest_size d) (length (rem (id_source d))) \<le> length t" "prefix t (rem (id_source d))"
    by (rule dataE [OF ok, of "id_digest_size d"]) blast
  have t: "t = rem (id_source d)"
  proof -
    obtain zs where zs: "rem (id_source d) = t @ zs" using s(6) by (rule prefixE)
    then have "length zs = 0" using s(5) assms(2) by (simp del: length_0_conv)
    then show ?thesis using zs by simp
  qed
  have "id_digest_size d \<le> length (buf s)"
    using s(4) t assms(2) by (metis prefix_length_le)
  then obtain s' where s': "br_consume br (id_digest_size d) s = Some (s', Inr (buf s))" "ok s'" "rem s' = drop (id_digest_size d) (rem s)"
    using consumeE [OF s(2)] by metis
  show ?thesis
  proof (cases "sch_finalizer (id_schedule d) (id_chunk_index d) (id_bytes_decrypted d) (decryption_context bk d)")
    case (Inl e)
    then show ?thesis by (auto simp: check_final_digest_def open_final_def intro: exI [of _ "id_source d"])
  next
    case (Inr ctx)
    show ?thesis
    proof (cases "DecryptionContext_decrypt_verify bk ctx [] t")
      case (Pair x y)
      then show ?thesis
        using Inr s(1,3) s' t assms(2) by (cases y) (auto simp: check_final_digest_def open_final_def on_source_def)
    qed
  qed
qed


lemma decrypt_chunk_ok:
  assumes d: "dec_ok rem ok d" "id_buffer d = []" and bk: "keeps_length bk" and out: "length out < n"
    and chunk: "chunk = take m (rem (id_source d))" "m \<le> length (buf (id_source d))" "length chunk \<le> id_chunk_size d + id_digest_size d"
      "id_digest_size d < m"
  shows "case open_chunk bk d (id_chunk_index d) chunk of
      Inl e \<Rightarrow> (\<exists>d'. decrypt_chunk bk br n out chunk d = Some (d', Inl e))
    | Inr p \<Rightarrow> (\<exists>s. decrypt_chunk bk br n out chunk d
          = Some (d\<lparr>id_chunk_index := id_chunk_index d + 1, id_bytes_decrypted := id_bytes_decrypted d + (m - id_digest_size d),
                id_source := s, id_buffer := drop (n - length out) p\<rparr>, Inr (out @ take (n - length out) p))
          \<and> ok s \<and> rem s = drop m (rem (id_source d)))"
proof -
  let ?l = "m - id_digest_size d"
  have ok: "ok (id_source d)" using d by (simp add: dec_ok_def)
  have m: "length chunk = m" "m \<le> length (rem (id_source d))"
    using chunk(1,2) buf_length [OF ok] by simp_all
  then have ne: "chunk \<noteq> []" "\<not> length chunk \<le> id_digest_size d" "id_digest_size d < length chunk" using chunk(4) by auto
  have bounds: "id_chunk_index d + 1 < 2 ^ 64" "id_bytes_decrypted d + ?l < 2 ^ 64"
    using d m chunk(4) by (auto simp: dec_ok_def)
  have step: "\<exists>s. chunk_decrypted br ?l m (d\<lparr>id_buffer := b\<rparr>)
      = Some (d\<lparr>id_chunk_index := id_chunk_index d + 1, id_bytes_decrypted := id_bytes_decrypted d + ?l, id_source := s, id_buffer := b\<rparr>, Inr ())
      \<and> ok s \<and> rem s = drop m (rem (id_source d))" for b
    by (rule chunk_decrypted_ok [of "d\<lparr>id_buffer := b\<rparr>" m ?l]) (use ok chunk(2) bounds in simp_all, cases d, auto)
  have keep: "d\<lparr>id_buffer := []\<rparr> = d" using d(2) by simp
  show ?thesis
  proof (cases "open_chunk bk d (id_chunk_index d) chunk")
    case (Inl e)
    show ?thesis
    proof (cases "sch_chunk (id_schedule d) (id_chunk_index d) (decryption_context bk d)")
      case (Inr ctx)
      then obtain q where "DecryptionContext_decrypt_verify bk ctx (replicate ?l 0) chunk = (q, Inl e)"
        using Inl m(1) by (auto simp: open_chunk_def result_simps split: prod.splits)
      then show ?thesis using Inl Inr ne m(1) d(2) by (simp add: decrypt_chunk_def Let_def)
    qed (use Inl ne in \<open>simp add: decrypt_chunk_def open_chunk_def\<close>)
  next
    case (Inr p)
    then have p: "length p = ?l" using open_chunk_length [OF bk, of d "id_chunk_index d" chunk p] m(1) by simp
    obtain ctx where ctx: "sch_chunk (id_schedule d) (id_chunk_index d) (decryption_context bk d) = Inr ctx"
        "DecryptionContext_decrypt_verify bk ctx (replicate ?l 0) chunk = (p, Inr ())"
      using Inr m(1) by (elim open_chunkE) simp
    show ?thesis
    proof (cases "n - length out < ?l")
      case True
      then have "0 < n - length out \<and> n - length out < id_chunk_size d" using out chunk(3) m(1) by linarith
      then show ?thesis
        using ctx ne m(1) d(2) True step [of "drop (n - length out) p"] Inr
        by (auto simp: decrypt_chunk_def Let_def)
    next
      case False
      then show ?thesis
        using ctx ne m(1) d(2) p step [of "[]"] Inr
        by (auto simp: decrypt_chunk_def Let_def keep)
    qed
  qed
qed


lemma decode_from_split:
  assumes "m = min (length ct) (id_chunk_size d + id_digest_size d + id_digest_size d) - id_digest_size d" "id_digest_size d < m"
  shows "decode_from bk d i t ct =
      (case open_chunk bk d i (take m ct) of
         Inl e \<Rightarrow> ([], Some e)
       | Inr p \<Rightarrow>
           if length ct < id_chunk_size d + id_digest_size d + id_digest_size d
           then ends_with p (open_final bk d (i + 1) (t + (m - id_digest_size d)) (drop m ct))
           else preceded p (decode_from bk d (i + 1) (t + (m - id_digest_size d)) (drop m ct)))"
proof -
  have "\<not> length ct < id_digest_size d" "length ct \<noteq> id_digest_size d" using assms by auto
  then show ?thesis
    unfolding decode_from_def using assms(2)
    by (subst decode_chunks.simps) (simp add: Let_def flip: assms(1))
qed

text \<open>
  What a round of reading does with \<open>out\<close> delivered already and room for \<open>n\<close> octets: it fills the room from the verified
  octets and leaves the rest, or the stream ends before that, well or with its failure.
\<close>

definition delivers :: "AeadBackend \<Rightarrow> nat \<Rightarrow> bytes \<Rightarrow> 'r InternalDecryptor \<Rightarrow> ('r InternalDecryptor \<times> bytes res) option \<Rightarrow> bool" where
  "delivers bk n out d result \<longleftrightarrow>
     (case stream_of bk rem d of (p, e) \<Rightarrow>
        if n - length out \<le> length p then
          (\<exists>d'. result = Some (d', Inr (out @ take (n - length out) p)) \<and> dec_ok rem ok d'
             \<and> stream_of bk rem d' = (drop (n - length out) p, e))
        else
          (case e of
             None \<Rightarrow> (\<exists>d'. result = Some (d', Inr (out @ p)) \<and> dec_ok rem ok d' \<and> stream_of bk rem d' = ([], None))
           | Some e \<Rightarrow> (\<exists>d'. result = Some (d', Inl e))))"

lemma delivers_fullI:
  assumes "result = Some (d', Inr (out @ p))" "dec_ok rem ok d'" "stream_of bk rem d = preceded p (stream_of bk rem d')"
    "n = length out + length p"
  shows "delivers bk n out d result"
  using assms by (cases "stream_of bk rem d'") (simp add: delivers_def)

lemma delivers_endI:
  assumes "result = Some (d', Inr (out @ take (n - length out) p))" "dec_ok rem ok d'" "stream_of bk rem d = (p, None)"
    "stream_of bk rem d' = (drop (n - length out) p, None)"
  shows "delivers bk n out d result"
  using assms by (simp add: delivers_def)

lemma delivers_errI: "result = Some (d', Inl e) \<Longrightarrow> stream_of bk rem d = ([], Some e) \<Longrightarrow> length out < n \<Longrightarrow> delivers bk n out d result"
  by (simp add: delivers_def)

lemma delivers_more:
  assumes "delivers bk n (out @ p) d' result" "stream_of bk rem d = preceded p (stream_of bk rem d')" "length (out @ p) \<le> n"
  shows "delivers bk n out d result"
proof (cases "stream_of bk rem d'")
  case (Pair q e)
  have "n - length out \<le> length (p @ q) \<longleftrightarrow> n - length (out @ p) \<le> length q" using assms(3) by auto
  then show ?thesis
    using assms Pair by (auto simp: delivers_def split: if_splits option.splits)
qed

lemma check_final_delivers:
  assumes "dec_ok rem ok d'" "length (rem (id_source d')) = id_digest_size d'" "length out < n" "id_buffer d' = drop (n - length out) p"
    "stream_of bk rem d = ends_with p (open_final bk d' (id_chunk_index d') (id_bytes_decrypted d') (rem (id_source d')))"
  shows "delivers bk n out d (io_then (check_final_digest bk br d') (\<lambda>_ d. Some (d, Inr (out @ take (n - length out) p))))"
proof (cases "open_final bk d' (id_chunk_index d') (id_bytes_decrypted d') (rem (id_source d'))")
  case (Inl e)
  then show ?thesis
    using check_final_digest_ok [OF assms(1,2), of bk] assms(3,5) by (auto intro!: delivers_errI)
next
  case (Inr u)
  then obtain s where s: "check_final_digest bk br d' = Some (d'\<lparr>id_source := s\<rparr>, Inr ())" "ok s" "rem s = []"
    using check_final_digest_ok [OF assms(1,2), of bk] by auto
  then show ?thesis
    using assms Inr by (intro delivers_endI [of _ "d'\<lparr>id_source := s\<rparr>" _ _ p]) (auto simp: dec_ok_def stream_of_def)
qed

text \<open>Fetching the next chunk: what the loop sees is a prefix of what is left, and it sees the end when it is near.\<close>

lemma decrypt_chunks_step:
  fixes d :: "'r InternalDecryptor"
  defines "c \<equiv> rem (id_source d)" and "len \<equiv> id_chunk_size d + id_digest_size d + id_digest_size d"
  assumes "dec_ok rem ok d" and m: "m = min (length c) len - id_digest_size d"
  obtains s where "ok s" "rem s = c" "m \<le> length (buf s)"
    "decrypt_chunks bk br (Suc k) n out d =
      (if c = [] then Some (d\<lparr>id_source := s\<rparr>, Inr out)
       else if length c < id_digest_size d then Some (d\<lparr>id_source := s\<rparr>, Inl (Err ManipulatedMessage))
       else io_then (decrypt_chunk bk br n out (take m c) (d\<lparr>id_source := s\<rparr>)) (\<lambda>out d.
         if length c < len then io_then (check_final_digest bk br d) (\<lambda>_ d. Some (d, Inr out))
         else decrypt_chunks bk br k n out d))"
proof -
  have ok: "ok (id_source d)" and pos: "0 < len" "0 < id_digest_size d" using assms(3) by (simp_all add: dec_ok_def len_def)
  obtain s b where s: "br_data br len (id_source d) = Some (s, Inr b)" "ok s" "rem s = c" "b = buf s"
      "min len (length c) \<le> length b" "prefix b c"
    by (rule dataE [OF ok, of len]) (use pos in \<open>auto simp: c_def\<close>)
  have eqs: "length b < len \<longleftrightarrow> length c < len" "min (length b) len = min (length c) len"
      "b = [] \<longleftrightarrow> c = []" "length b < id_digest_size d \<longleftrightarrow> length c < id_digest_size d"
    using s(5) prefix_length_le [OF s(6)] pos by (auto simp: min_def len_def split: if_splits)
  have chunk: "take m b = take m c" "m \<le> length b"
    using s(6) eqs(2) by (auto simp: m prefix_def)
  have "br_buffer br s = Inr b" using buffer [OF s(2)] s(4) by simp
  then show thesis
    using that [OF s(2,3)] chunk s(1,4) eqs by (simp add: on_source_def Let_def m len_def)
qed

lemma decrypt_chunks_ok:
  assumes "dec_ok rem ok d" "id_buffer d = []" "keeps_length bk" "length out \<le> n"
    "k = (n - length out + id_chunk_size d - 1) div id_chunk_size d"
  shows "delivers bk n out d (decrypt_chunks bk br k n out d)"
  using assms
proof (induction k arbitrary: d out)
  case 0
  then have "length out = n" by (auto simp: dec_ok_def div_eq_0_iff)
  with 0 show ?case by (intro delivers_fullI [of _ d _ "[]"]) auto
next
  case (Suc k)
  let ?cs = "id_chunk_size d" and ?ds = "id_digest_size d" and ?c = "rem (id_source d)"
  define m where "m = min (length ?c) (?cs + ?ds + ?ds) - ?ds"
  have pos: "0 < ?cs" "0 < ?ds" using Suc.prems(1) by (simp_all add: dec_ok_def)
  have out: "length out < n" using Suc.prems(4,5) pos by (cases "length out = n") auto
  obtain s where s: "ok s" "rem s = ?c" "m \<le> length (buf s)" and step: "decrypt_chunks bk br (Suc k) n out d =
      (if ?c = [] then Some (d\<lparr>id_source := s\<rparr>, Inr out)
       else if length ?c < ?ds then Some (d\<lparr>id_source := s\<rparr>, Inl (Err ManipulatedMessage))
       else io_then (decrypt_chunk bk br n out (take m ?c) (d\<lparr>id_source := s\<rparr>)) (\<lambda>out d.
         if length ?c < ?cs + ?ds + ?ds then io_then (check_final_digest bk br d) (\<lambda>_ d. Some (d, Inr out))
         else decrypt_chunks bk br k n out d))"
    by (rule decrypt_chunks_step [OF Suc.prems(1) m_def])
  let ?d = "d\<lparr>id_source := s\<rparr>"
  have d: "dec_ok rem ok ?d" "id_buffer ?d = []" using Suc.prems(1,2) s(1,2) by (simp_all add: dec_ok_def)
  consider (empty) "?c = []" | (short) "?c \<noteq> []" "length ?c < ?ds" | (tag) "length ?c = ?ds"
    | (bad) "?ds < length ?c" "m \<le> ?ds" | (chunk) "?ds < length ?c" "?ds < m"
    by fastforce
  then show ?case
  proof cases
    case empty
    then show ?thesis
      using Suc.prems(2) d step by (intro delivers_endI [of _ ?d _ _ "[]"]) (simp_all add: stream_of_def s(2))
  next
    case short
    then have "stream_of bk rem d = ([], Some (Err ManipulatedMessage))"
      using Suc.prems(2) by (simp add: stream_of_def decode_from_def decode_chunks.simps [of _ _ _ _ _ _ ?c])
    then show ?thesis using short step out by (intro delivers_errI) auto
  next
    case tag
    then have "?c \<noteq> []" "m = 0" using pos by (auto simp: m_def)
    then show ?thesis
      using check_final_delivers [OF d(1), of out n "[]" bk d] step tag pos Suc.prems(2) s(2) out
      by (simp add: decrypt_chunk_def stream_of_def decode_from_def decode_chunks.simps [of _ _ _ _ _ _ ?c])
  next
    case bad
    then have "stream_of bk rem d = ([], Some (Err ManipulatedMessage))"
      using Suc.prems(2) by (auto simp: stream_of_def decode_from_def decode_chunks.simps [of _ _ _ _ _ _ ?c] m_def)
    moreover have "m \<noteq> 0" using bad pos by (auto simp: m_def)
    ultimately show ?thesis using bad step out by (intro delivers_errI [of _ ?d]) (auto simp: decrypt_chunk_def m_def)
  next
    case chunk
    have m: "m \<le> length ?c" "m \<le> ?cs + ?ds" by (auto simp: m_def)
    note opened = decrypt_chunk_ok [OF d Suc.prems(3) out, of "take m ?c" m]
    have split: "stream_of bk rem d = decode_from bk d (id_chunk_index d) (id_bytes_decrypted d) ?c"
      using chunk Suc.prems(2) by (auto simp: stream_of_def)
    note split = split [unfolded decode_from_split [OF m_def chunk(2), of bk]]
    show ?thesis
    proof (cases "open_chunk bk d (id_chunk_index d) (take m ?c)")
      case (Inl e)
      then show ?thesis using opened split step chunk m s out by (auto intro!: delivers_errI)
    next
      case (Inr p)
      let ?r = "n - length out"
      from Inr obtain s' where s': "decrypt_chunk bk br n out (take m ?c) ?d = Some
          (d\<lparr>id_chunk_index := id_chunk_index d + 1, id_bytes_decrypted := id_bytes_decrypted d + (m - ?ds), id_source := s',
              id_buffer := drop ?r p\<rparr>, Inr (out @ take ?r p))" (is "_ = Some (?d', _)")
          "ok s'" "rem s' = drop m ?c"
        using opened chunk m s by auto
      have p: "length p = m - ?ds" using open_chunk_length [OF Suc.prems(3) Inr] m(1) by simp
      have d': "dec_ok rem ok ?d'" using Suc.prems(1) s' chunk(2) m(1) by (auto simp: dec_ok_def)
      show ?thesis
      proof (cases "length ?c < ?cs + ?ds + ?ds")
        case True
        then have "length (rem s') = ?ds" using s'(3) chunk(1) by (simp add: m_def)
        then show ?thesis
          using check_final_delivers [OF d', of out n p bk d] step split Inr True s' chunk pos out by auto
      next
        case False
        then have cs: "length p = ?cs" using p by (simp add: m_def)
        have result: "decrypt_chunks bk br (Suc k) n out d = decrypt_chunks bk br k n (out @ take ?r p) ?d'"
          using step s' False chunk pos by auto
        have "rem s' \<noteq> []" using s'(3) False pos by (auto simp: m_def)
        then have stream: "stream_of bk rem d = preceded (take ?r p) (stream_of bk rem ?d')"
          using split Inr False s'(3) by (simp add: stream_of_def)
        show ?thesis
        proof (cases "?r < ?cs")
          case True
          then have "k = 0" using Suc.prems(5) by (simp add: div_if split: if_splits)
          then show ?thesis using result stream d' out True cs by (intro delivers_fullI [of _ ?d' _ "take ?r p"]) simp_all
        next
          case large: False
          have "Suc k = (?r + ?cs - 1) div ?cs" using Suc.prems(5) by simp
          also have "\<dots> = Suc ((?r - ?cs + ?cs - 1) div ?cs)" using large pos by (subst div_if) auto
          finally have k: "k = (n - length (out @ take ?r p) + id_chunk_size ?d' - 1) div id_chunk_size ?d'"
            using large cs by simp
          have "delivers bk n (out @ take ?r p) ?d' (decrypt_chunks bk br k n (out @ take ?r p) ?d')"
            by (rule Suc.IH [OF d' _ Suc.prems(3) _ k]) (use large cs out in auto)
          then show ?thesis using delivers_more [of bk n out "take ?r p"] stream result large out by simp
        qed
      qed
    qed
  qed
qed

lemma read_helper_ok:
  assumes "dec_ok rem ok d" "keeps_length bk"
  shows "delivers bk n [] d (read_helper bk br n d)"
proof (cases "id_buffer d \<noteq> [] \<and> min (length (id_buffer d)) n = n")
  case True
  let ?d = "d\<lparr>id_buffer := drop n (id_buffer d)\<rparr>"
  have "stream_of bk rem d = preceded (take n (id_buffer d)) (stream_of bk rem ?d)"
    by (simp add: stream_of_def)
  then show ?thesis
    using True assms(1) by (intro delivers_fullI [of _ ?d _ "take n (id_buffer d)"]) (auto simp: read_helper_def dec_ok_def Let_def)
next
  case False
  let ?d = "d\<lparr>id_buffer := []\<rparr>" and ?b = "id_buffer d"
  have b: "length ?b \<le> n" "min (length ?b) n = length ?b" using False by auto
  have d: "dec_ok rem ok ?d" using assms(1) by (simp add: dec_ok_def)
  have loop: "delivers bk n ?b ?d (read_helper bk br n d)"
    using decrypt_chunks_ok [OF d _ assms(2) b(1) refl] False b(2) assms(1) by (auto simp: read_helper_def dec_ok_def Let_def)
  have "stream_of bk rem d = preceded ?b (stream_of bk rem ?d)" by (simp add: stream_of_def)
  then show ?thesis using delivers_more [of bk n "[]" ?b ?d _ d] loop b(1) by simp
qed

lemma decryptor_read_ok:
  assumes "dec_ok rem ok d" "keeps_length bk" "stream_of bk rem d = (p, e)"
  shows "\<exists>d'. if n \<le> length p then
        InternalDecryptor_read bk br n d = Some (d', Inr (take n p)) \<and> dec_ok rem ok d' \<and> stream_of bk rem d' = (drop n p, e)
      else
        (case e of
           None \<Rightarrow> InternalDecryptor_read bk br n d = Some (d', Inr p) \<and> dec_ok rem ok d' \<and> stream_of bk rem d' = ([], None)
         | Some e \<Rightarrow> InternalDecryptor_read bk br n d = Some (d', Inl (wrap_error e)))"
  using read_helper_ok [OF assms(1,2), of n] assms(3)
  by (auto simp: delivers_def InternalDecryptor_read_def split: if_splits option.splits)

lemma decryptor_source:
  assumes "keeps_length bk"
  shows "read_source (InternalDecryptor_read bk br) (\<lambda>d. fst (stream_of bk rem d))
    (\<lambda>d. dec_ok rem ok d \<and> snd (stream_of bk rem d) = None) (\<lambda>_. 0)"
proof
  fix d and n :: nat
  assume d: "dec_ok rem ok d \<and> snd (stream_of bk rem d) = None" and "0 < n"
  then obtain p where p: "stream_of bk rem d = (p, None)" by (cases "stream_of bk rem d") auto
  obtain d' where "InternalDecryptor_read bk br n d = Some (d', Inr (take n p))" "dec_ok rem ok d'" "stream_of bk rem d' = (drop n p, None)"
    using decryptor_read_ok [OF _ assms p, of n] d by (auto split: if_splits)
  then show "\<exists>s' x. InternalDecryptor_read bk br n d = Some (s', x) \<and> (dec_ok rem ok s' \<and> snd (stream_of bk rem s') = None) \<and>
      (x = Inl (IoErr Interrupted) \<and> fst (stream_of bk rem s') = fst (stream_of bk rem d) \<and> (0::nat) < 0
       \<or> (\<exists>y. x = Inr y \<and> length y \<le> n \<and> fst (stream_of bk rem d) = y @ fst (stream_of bk rem s')
            \<and> (y = [] \<longrightarrow> fst (stream_of bk rem d) = []) \<and> (0::nat) \<le> 0))"
    using p \<open>0 < n\<close> by auto
qed

lemma Decryptor_contract:
  assumes "keeps_length bk"
  shows "buffered_reader (Decryptor_reader bk buf_size br) gen_buf (gen_rem (\<lambda>d. fst (stream_of bk rem d)))
      (gen_ok (\<lambda>d. fst (stream_of bk rem d)) (\<lambda>d. dec_ok rem ok d \<and> snd (stream_of bk rem d) = None))"
  unfolding Decryptor_reader_def by (rule read_source.Generic_contract [OF decryptor_source [OF assms]])

end

end
