(* ===== verification/AeadStreams.thy ===== *)
theory AeadStreams
  imports Aead
begin

text \<open>
  Authenticated encryption in chunks, from the encryptor to the decryptor (\<open>crypto/aead.rs\<close>): what is written in pieces
  is read back, what is read was authenticated, and the two places where it was not.
\<close>

section \<open>Round trip of the format\<close>

lemma encode_chunks_chunk:
  assumes "length c = cs" "0 < cs"
  shows "encode_chunks seal fin cs i t (c @ rest) = seal i c @ encode_chunks seal fin cs (i + 1) (t + cs) rest"
  using assms by (subst encode_chunks.simps) auto

lemma encode_chunks_Nil [simp]: "encode_chunks seal fin cs i t [] = fin i t"
  by (subst encode_chunks.simps) simp

lemma encode_chunks_last:
  assumes "length c < cs" "c \<noteq> []"
  shows "encode_chunks seal fin cs i t c = seal i c @ fin (i + 1) (t + length c)"
  using assms by (subst encode_chunks.simps) auto

text \<open>Data is empty, a last chunk, or a whole chunk and more.\<close>

lemma chunked_induct [consumes 1, case_names empty last whole]:
  assumes "0 < (cs :: nat)" "\<And>i t. P i t []" "\<And>i t c. c \<noteq> [] \<Longrightarrow> length c < cs \<Longrightarrow> P i t c"
    "\<And>i t c rest. length c = cs \<Longrightarrow> P (i + 1) (t + cs) rest \<Longrightarrow> P i t (c @ rest)"
  shows "P (i :: nat) (t :: nat) xs"
proof (induction xs arbitrary: i t rule: length_induct)
  case (1 xs)
  consider "xs = []" | "xs \<noteq> []" "length xs < cs" | "cs \<le> length xs" by fastforce
  then show ?case
  proof cases
    case 3
    then have "length (take cs xs) = cs" "length (drop cs xs) < length xs" using assms(1) by auto
    then have "P i t (take cs xs @ drop cs xs)" using 1 by (intro assms(4)) auto
    then show ?thesis by simp
  qed (use assms(2,3) in auto)
qed

lemma length_encode_chunks:
  assumes "0 < cs" "\<And>i c. length (seal i c) = length c + ds" "\<And>i t. length (fin i t) = ds"
  shows "ds \<le> length (encode_chunks seal fin cs i t xs) \<and> length (encode_chunks seal fin cs i t xs) \<le> length xs * (ds + 1) + ds"
  using assms(1)
proof (induction i t xs rule: chunked_induct)
  case (last i t c)
  then have "ds \<le> length c * ds" by (cases c) auto
  then show ?case using last assms by (simp add: encode_chunks_last)
next
  case (whole i t c rest)
  have "ds \<le> cs * ds" using assms(1) by simp
  then have "length rest + length rest * ds + ds \<le> length rest + (cs + length rest) * ds" unfolding add_mult_distrib by linarith
  then show ?case using whole assms by (simp add: encode_chunks_chunk)
qed (use assms in auto)

lemma decode_encode_chunks:
  assumes pos: "0 < cs" "0 < ds" and len: "\<And>i c. length (seal i c) = length c + ds" "\<And>i t. length (fin i t) = ds"
    and opn: "\<And>i c. opn i (seal i c) = Inr c" "\<And>i t. check i t (fin i t) = Inr ()"
  shows "decode_chunks opn check cs ds i t (encode_chunks seal fin cs i t xs) = (xs, None)"
  using pos(1)
proof (induction i t xs rule: chunked_induct)
  case (empty i t)
  then show ?case using len opn by (subst decode_chunks.simps) simp
next
  case (last i t c)
  then show ?case using len opn pos by (subst decode_chunks.simps) (simp add: encode_chunks_last Let_def)
next
  case (whole i t c rest)
  let ?r = "encode_chunks seal fin cs (i + 1) (t + cs) rest"
  have "ds \<le> length ?r" using length_encode_chunks [of cs seal ds fin, OF pos(1) len] by blast
  then have "min (length (seal i c @ ?r)) (cs + ds + ds) - ds = cs + ds" "\<not> length (seal i c @ ?r) < cs + ds + ds"
      "\<not> length (seal i c @ ?r) < ds" "length (seal i c @ ?r) \<noteq> ds" "\<not> cs + ds \<le> ds"
    using whole(1) len(1) pos by simp_all
  moreover have "take (cs + ds) (seal i c @ ?r) = seal i c" "drop (cs + ds) (seal i c @ ?r) = ?r" using whole(1) len(1) by simp_all
  ultimately show ?case
    using whole opn(1) pos by (subst decode_chunks.simps) (simp only: encode_chunks_chunk Let_def if_False sum.case simp_thms add_diff_cancel_right' preceded_simps)
qed

text \<open>If the final tag is wrong, the whole chunks are still good, a shorter one after them is not.\<close>

lemma decode_wrong_final:
  assumes pos: "0 < cs" "0 < ds" and len: "\<And>i c. length (seal i c) = length c + ds" "\<And>i t. length (fin i t) = ds"
    and opn: "\<And>i c. opn i (seal i c) = Inr c" "\<And>i t. check i t (fin i t) = Inl e"
  shows "decode_chunks opn check cs ds i t (encode_chunks seal fin cs i t xs) = (take (cs * (length xs div cs)) xs, Some e)"
  using pos(1)
proof (induction i t xs rule: chunked_induct)
  case (empty i t)
  then show ?case using len opn by (subst decode_chunks.simps) simp
next
  case (last i t c)
  then show ?case using len opn pos by (subst decode_chunks.simps) (simp add: encode_chunks_last Let_def)
next
  case (whole i t c rest)
  let ?r = "encode_chunks seal fin cs (i + 1) (t + cs) rest"
  have "ds \<le> length ?r" using length_encode_chunks [of cs seal ds fin, OF pos(1) len] by blast
  then have "min (length (seal i c @ ?r)) (cs + ds + ds) - ds = cs + ds" "\<not> length (seal i c @ ?r) < cs + ds + ds"
      "\<not> length (seal i c @ ?r) < ds" "length (seal i c @ ?r) \<noteq> ds" "\<not> cs + ds \<le> ds"
    using whole(1) len(1) pos by simp_all
  moreover have "take (cs + ds) (seal i c @ ?r) = seal i c" "drop (cs + ds) (seal i c @ ?r) = ?r" using whole(1) len(1) by simp_all
  ultimately have "decode_chunks opn check cs ds i t (encode_chunks seal fin cs i t (c @ rest))
      = preceded c (take (cs * (length rest div cs)) rest, Some e)"
    using whole opn(1) pos by (subst decode_chunks.simps) (simp only: encode_chunks_chunk Let_def if_False sum.case simp_thms add_diff_cancel_right')
  then show ?case using whole(1) pos by (simp add: div_add_self1)
qed

section \<open>What the backend promises\<close>

text \<open>The contexts that the schedule of a container makes for a chunk and for the end.\<close>

definition chunk_context :: "SEIPv2Schedule \<Rightarrow> SymmetricAlgorithm \<Rightarrow> AEADAlgorithm \<Rightarrow> nat \<Rightarrow> Builder" where
  "chunk_context s symm aead i =
     \<lparr>bd_symm = symm, bd_aead = aead, bd_key = ss_key s, bd_aad = ss_ad s, bd_nonce = ss_nonce s @ be_bytes 8 i\<rparr>"

definition final_context :: "SEIPv2Schedule \<Rightarrow> SymmetricAlgorithm \<Rightarrow> AEADAlgorithm \<Rightarrow> nat \<Rightarrow> nat \<Rightarrow> Builder" where
  "final_context s symm aead i t = (chunk_context s symm aead i)\<lparr>bd_aad := ss_ad s @ be_bytes 8 t\<rparr>"

text \<open>
  The backend supports the algorithms; with a key and a nonce of the right sizes it seals any data, adding a tag, and
  opens what it sealed. Key derivation returns as many octets as asked for.
\<close>

definition seals :: "AeadBackend \<Rightarrow> nat \<Rightarrow> Builder \<Rightarrow> bool" where
  "seals bk ds ctx \<longleftrightarrow> bk_context bk ctx = Inr () \<and> bk_digest_size bk ctx = ds
     \<and> (\<forall>m. is_ok (bk_encrypt_seal bk ctx m) \<and> length (projr (bk_encrypt_seal bk ctx m)) = length m + ds
          \<and> (\<forall>dst. length dst = length m \<longrightarrow> bk_decrypt_verify bk ctx dst (projr (bk_encrypt_seal bk ctx m)) = (m, Inr ())))"

definition aead_backend :: "AeadBackend \<Rightarrow> SymmetricAlgorithm \<Rightarrow> AEADAlgorithm \<Rightarrow> bool" where
  "aead_backend bk symm aead \<longleftrightarrow> keeps_length bk \<and> bk_supports_algo bk symm \<and> bk_supports_algo_with_symmetric bk aead symm
     \<and> (\<forall>ks ns ds key aad nonce. key_size symm = Inr ks \<longrightarrow> nonce_size aead = Inr ns \<longrightarrow> AEADAlgorithm_digest_size aead = Inr ds
          \<longrightarrow> length key = ks \<longrightarrow> length nonce = ns
          \<longrightarrow> seals bk ds \<lparr>bd_symm = symm, bd_aead = aead, bd_key = key, bd_aad = aad, bd_nonce = nonce\<rparr>)"

definition hkdf_length :: "(bytes \<Rightarrow> bytes \<Rightarrow> bytes \<Rightarrow> nat \<Rightarrow> bytes res) \<Rightarrow> bool" where
  "hkdf_length hkdf \<longleftrightarrow> (\<forall>key slt info n okm. hkdf key slt info n = Inr okm \<longrightarrow> length okm = n)"

text \<open>A schedule that fits a backend: both kinds of context can be made and work.\<close>

definition schedule_ok :: "AeadBackend \<Rightarrow> SymmetricAlgorithm \<Rightarrow> AEADAlgorithm \<Rightarrow> nat \<Rightarrow> SEIPv2Schedule \<Rightarrow> bool" where
  "schedule_ok bk symm aead ds s \<longleftrightarrow> bk_supports_algo bk symm \<and> bk_supports_algo_with_symmetric bk aead symm
     \<and> ss_nonce_len s \<le> MAX_NONCE_LEN \<and> length (ss_nonce s) + 8 = ss_nonce_len s
     \<and> (\<forall>i. seals bk ds (chunk_context s symm aead i)) \<and> (\<forall>i t. seals bk ds (final_context s symm aead i t))"

lemma digest_size_16: "AEADAlgorithm_digest_size aead = Inr ds \<Longrightarrow> ds = 16"
  by (cases aead) (auto simp: AEADAlgorithm_digest_size_def)

lemma nonce_size_digest_size: "nonce_size aead = Inr ns \<Longrightarrow> 8 \<le> ns \<and> ns \<le> 16 \<and> AEADAlgorithm_digest_size aead = Inr 16"
  by (cases aead) (auto simp: AEADAlgorithm_digest_size_def nonce_size_def)

lemma SEIPv2Schedule_new_ok:
  assumes "aead_backend bk symm aead" "hkdf_length hkdf" "SEIPv2Schedule_new hkdf session_key symm aead cs slt = Inr s"
  shows "schedule_ok bk symm aead 16 s \<and> 0 < cs \<and> AEADAlgorithm_digest_size aead = Inr 16"
proof -
  obtain ks ns okm ad where new: "key_size symm = Inr ks" "nonce_size aead = Inr ns" "MIN_CHUNK_SIZE \<le> cs"
      "hkdf session_key slt ad (ks + (ns - 8)) = Inr okm"
      "s = \<lparr>ss_key = take ks okm, ss_nonce = drop ks okm, ss_ad = ad, ss_nonce_len = ns\<rparr>"
    using assms(3) by (auto simp: SEIPv2Schedule_new_def result_simps Let_def split: if_splits)
  have ns: "8 \<le> ns" "ns \<le> 16" "AEADAlgorithm_digest_size aead = Inr 16" using nonce_size_digest_size [OF new(2)] by auto
  have okm: "length okm = ks + (ns - 8)" using assms(2) new(4) by (auto simp: hkdf_length_def)
  have seals: "length nonce = ns \<Longrightarrow> seals bk 16 \<lparr>bd_symm = symm, bd_aead = aead, bd_key = take ks okm, bd_aad = aad, bd_nonce = nonce\<rparr>"
    for aad nonce
    using assms(1) new(1,2) ns(3) okm unfolding aead_backend_def by auto
  have "0 < cs" using new(3) by (simp add: MIN_CHUNK_SIZE_def)
  moreover have "schedule_ok bk symm aead 16 s"
    using assms(1) new(5) ns okm seals
    by (simp add: schedule_ok_def chunk_context_def final_context_def MAX_NONCE_LEN_def aead_backend_def)
  ultimately show ?thesis using ns(3) by simp
qed

section \<open>The encryptor\<close>

definition seal_chunk :: "AeadBackend \<Rightarrow> SEIPv2Schedule \<Rightarrow> SymmetricAlgorithm \<Rightarrow> AEADAlgorithm \<Rightarrow> nat \<Rightarrow> bytes \<Rightarrow> bytes" where
  "seal_chunk bk s symm aead i c = projr (bk_encrypt_seal bk (chunk_context s symm aead i) c)"

definition seal_final :: "AeadBackend \<Rightarrow> SEIPv2Schedule \<Rightarrow> SymmetricAlgorithm \<Rightarrow> AEADAlgorithm \<Rightarrow> nat \<Rightarrow> nat \<Rightarrow> bytes" where
  "seal_final bk s symm aead i t = projr (bk_encrypt_seal bk (final_context s symm aead i t) [])"

definition enc_ok :: "AeadBackend \<Rightarrow> SEIPv2Schedule \<Rightarrow> Encryptor \<Rightarrow> bool" where
  "enc_ok bk s e \<longleftrightarrow> schedule_ok bk (en_sym_algo e) (en_aead e) (en_digest_size e) s \<and> en_schedule e = SEIPv2_schedule s
     \<and> en_inner e \<noteq> None \<and> length (en_scratch e) = en_chunk_size e + en_digest_size e \<and> length (en_buffer e) < en_chunk_size e
     \<and> en_chunk_index e \<le> en_bytes_encrypted e"

text \<open>What will have been written once the data \<open>rest\<close> was written and the encryptor finished.\<close>

definition enc_total :: "AeadBackend \<Rightarrow> SEIPv2Schedule \<Rightarrow> Encryptor \<Rightarrow> bytes \<Rightarrow> bytes" where
  "enc_total bk s e rest = the (en_inner e)
     @ encode_chunks (seal_chunk bk s (en_sym_algo e) (en_aead e)) (seal_final bk s (en_sym_algo e) (en_aead e)) (en_chunk_size e)
         (en_chunk_index e) (en_bytes_encrypted e) (en_buffer e @ rest)"

definition enc_amount :: "Encryptor \<Rightarrow> nat" where
  "enc_amount e = en_bytes_encrypted e + length (en_buffer e)"

lemma encryption_contexts:
  assumes "schedule_ok bk symm aead ds s" "en_sym_algo e = symm" "en_aead e = aead"
  shows "sch_chunk (SEIPv2_schedule s) i (encryption_context bk e) = Inr (chunk_context s symm aead i)"
    "sch_finalizer (SEIPv2_schedule s) i t (encryption_context bk e) = Inr (final_context s symm aead i t)"
  using assms
  by (auto simp: SEIPv2_schedule_def SEIPv2Schedule_chunk_def SEIPv2Schedule_finalizer_def chunk_nonce_def schedule_ok_def
      encryption_context_def AEADAlgorithm_context_def Builder_for_encryption_def chunk_context_def final_context_def seals_def Let_def)

lemma decryption_contexts:
  assumes "schedule_ok bk symm aead ds s" "id_sym_algo d = symm" "id_aead d = aead"
  shows "sch_chunk (SEIPv2_schedule s) i (decryption_context bk d) = Inr (chunk_context s symm aead i)"
    "sch_finalizer (SEIPv2_schedule s) i t (decryption_context bk d) = Inr (final_context s symm aead i t)"
  using assms
  by (auto simp: SEIPv2_schedule_def SEIPv2Schedule_chunk_def SEIPv2Schedule_finalizer_def chunk_nonce_def schedule_ok_def
      decryption_context_def AEADAlgorithm_context_def Builder_for_decryption_def chunk_context_def final_context_def seals_def Let_def)

lemma seal_ok:
  assumes "schedule_ok bk symm aead ds s"
  shows "length dst = length c + ds \<Longrightarrow>
      EncryptionContext_encrypt_seal bk (chunk_context s symm aead i) dst c = Inr (seal_chunk bk s symm aead i c)"
    "length dst = ds \<Longrightarrow> EncryptionContext_encrypt_seal bk (final_context s symm aead i t) dst [] = Inr (seal_final bk s symm aead i t)"
    "length (seal_chunk bk s symm aead i c) = length c + ds" "length (seal_final bk s symm aead i t) = ds"
  using assms
  by (auto simp: schedule_ok_def seals_def EncryptionContext_encrypt_seal_def seal_chunk_def seal_final_def is_ok_iff)
     (metis sum.sel(2))+

lemma encrypt_chunk_ok:
  assumes "enc_ok bk s e" "length chunk = en_chunk_size e" "en_bytes_encrypted e + en_chunk_size e < 2 ^ 64" "clear \<or> b = []"
  shows "encrypt_chunk bk (en_chunk_size e) clear chunk (e\<lparr>en_buffer := b\<rparr>) =
      Some (e\<lparr>en_scratch := seal_chunk bk s (en_sym_algo e) (en_aead e) (en_chunk_index e) chunk,
              en_bytes_encrypted := en_bytes_encrypted e + en_chunk_size e, en_chunk_index := en_chunk_index e + 1, en_buffer := [],
              en_inner := Some (the (en_inner e) @ seal_chunk bk s (en_sym_algo e) (en_aead e) (en_chunk_index e) chunk)\<rparr>, Inr ())"
proof -
  have e: "schedule_ok bk (en_sym_algo e) (en_aead e) (en_digest_size e) s" "en_schedule e = SEIPv2_schedule s"
    using assms(1) by (simp_all add: enc_ok_def)
  have "en_chunk_index e + 1 < 2 ^ 64" using assms(1,3) by (simp add: enc_ok_def)
  then show ?thesis
    using assms encryption_contexts [OF e(1)] seal_ok [OF e(1)] e(2)
    by (cases e) (auto simp: encrypt_chunk_def add_encrypted_def add_u64_def enc_ok_def)
qed

text \<open>Writing keeps what will have been written, and counts.\<close>

definition writes :: "AeadBackend \<Rightarrow> SEIPv2Schedule \<Rightarrow> Encryptor \<Rightarrow> bytes \<Rightarrow> Encryptor \<Rightarrow> bool" where
  "writes bk s e buf e' \<longleftrightarrow> enc_ok bk s e' \<and> enc_amount e' = enc_amount e + length buf
     \<and> en_chunk_size e' = en_chunk_size e \<and> (\<forall>rest. enc_total bk s e' rest = enc_total bk s e (buf @ rest))"

lemma writes_trans: "writes bk s e a e' \<Longrightarrow> writes bk s e' b e'' \<Longrightarrow> writes bk s e (a @ b) e''"
  by (simp add: writes_def)

lemma writes_chunk:
  assumes "enc_ok bk s e" "en_buffer e @ chunk = c" "length c = en_chunk_size e" "enc_amount e + length chunk < 2 ^ 64"
    "e' = e\<lparr>en_scratch := seal_chunk bk s (en_sym_algo e) (en_aead e) (en_chunk_index e) c,
              en_bytes_encrypted := en_bytes_encrypted e + en_chunk_size e, en_chunk_index := en_chunk_index e + 1, en_buffer := [],
              en_inner := Some (the (en_inner e) @ seal_chunk bk s (en_sym_algo e) (en_aead e) (en_chunk_index e) c)\<rparr>"
  shows "writes bk s e chunk e'"
proof -
  have e: "schedule_ok bk (en_sym_algo e) (en_aead e) (en_digest_size e) s" "0 < en_chunk_size e"
    using assms(1) by (auto simp: enc_ok_def)
  have "enc_total bk s e' rest = enc_total bk s e (chunk @ rest)" for rest
    using e(2) assms(2,3,5) encode_chunks_chunk [of c "en_chunk_size e"] by (simp add: enc_total_def flip: append_assoc)
  moreover have "enc_ok bk s e'"
    using assms(1,3,5) seal_ok(3) [OF e(1)] e(2) by (simp add: enc_ok_def)
  moreover have "en_chunk_size e = length (en_buffer e) + length chunk" using assms(2,3) by auto
  ultimately show ?thesis
    using assms(5) by (simp add: writes_def enc_amount_def)
qed

lemma chunks_simps:
  "chunks n [] = []" "0 < n \<Longrightarrow> xs \<noteq> [] \<Longrightarrow> chunks n xs = take n xs # chunks n (drop n xs)"
  by (subst chunks.simps, simp)+

lemma encrypt_whole_chunks_ok:
  assumes "enc_ok bk s e" "en_buffer e = []" "enc_amount e + length xs < 2 ^ 64"
  shows "\<exists>e'. encrypt_whole_chunks bk (chunks (en_chunk_size e) xs) e = Some (e', Inr ()) \<and> writes bk s e xs e'"
  using assms
proof (induction xs arbitrary: e rule: length_induct)
  case (1 xs)
  let ?cs = "en_chunk_size e"
  have cs: "0 < ?cs" using 1(2) by (auto simp: enc_ok_def)
  consider "xs = []" | "xs \<noteq> []" "length xs < ?cs" | "?cs \<le> length xs" by fastforce
  then show ?case
  proof cases
    case 1
    then show ?thesis using 1 \<open>enc_ok bk s e\<close> by (simp add: chunks_simps writes_def)
  next
    case 2
    let ?e = "e\<lparr>en_buffer := xs\<rparr>"
    have "writes bk s e xs ?e"
      using 2 \<open>enc_ok bk s e\<close> \<open>en_buffer e = []\<close> by (simp add: writes_def enc_ok_def enc_amount_def enc_total_def)
    then show ?thesis using 2 cs \<open>en_buffer e = []\<close> by (auto simp: chunks_simps)
  next
    case 3
    let ?c = "take ?cs xs" and ?r = "drop ?cs xs"
    have same: "e\<lparr>en_buffer := []\<rparr> = e" using 1(3) by simp
    obtain e' where e': "encrypt_chunk bk ?cs False ?c e = Some (e', Inr ())" "writes bk s e ?c e'" "en_buffer e' = []"
      using 3 1(2-4) encrypt_chunk_ok [of bk s e ?c False "[]"] writes_chunk [of bk s e ?c ?c] by (auto simp: enc_amount_def same)
    have "enc_ok bk s e'" "enc_amount e' + length ?r < 2 ^ 64" "en_chunk_size e' = ?cs" "length ?r < length xs"
      using e'(2) 1(4) 3 cs by (auto simp: writes_def)
    then obtain e'' where "encrypt_whole_chunks bk (chunks ?cs ?r) e' = Some (e'', Inr ())" "writes bk s e' ?r e''"
      using 1(1) e'(3) by metis
    then show ?thesis
      using e' 3 cs writes_trans [OF e'(2), of ?r e''] chunks_simps(2) [OF cs, of xs] by force
  qed
qed

lemma fill_buffer_ok:
  assumes "enc_ok bk s e" "enc_amount e + length buf < 2 ^ 64"
  shows "\<exists>e' n. fill_buffer bk buf e = Some (e', Inr (drop n buf)) \<and> writes bk s e (take n buf) e' \<and> (en_buffer e' = [] \<or> drop n buf = [])"
proof (cases "en_buffer e = []")
  case True
  then show ?thesis using assms(1) by (intro exI [of _ e] exI [of _ 0]) (simp add: fill_buffer_def writes_def)
next
  case False
  let ?cs = "en_chunk_size e"
  define n where "n = min (length buf) (?cs - length (en_buffer e))"
  let ?e = "e\<lparr>en_buffer := en_buffer e @ take n buf\<rparr>" and ?c = "en_buffer e @ take n buf"
  have e: "length (en_buffer e) < ?cs" using assms(1) by (simp add: enc_ok_def)
  show ?thesis
  proof (cases "length ?c = ?cs")
    case True
    have "en_bytes_encrypted e + ?cs < 2 ^ 64" "n \<le> length buf"
      using assms(2) True by (auto simp: enc_amount_def n_def)
    then obtain e' where "encrypt_chunk bk ?cs True ?c ?e = Some (e', Inr ())" "writes bk s e (take n buf) e'" "en_buffer e' = []"
      using encrypt_chunk_ok [OF assms(1) True, of True ?c] writes_chunk [OF assms(1) refl True _ refl] assms(2) by (auto simp: enc_amount_def)
    then show ?thesis
      using False True e by (intro exI [of _ e'] exI [of _ n]) (simp add: fill_buffer_def n_def [symmetric] Let_def)
  next
    case small: False
    then have "length ?c < ?cs" "drop n buf = []" using e by (auto simp: n_def)
    moreover from this have "writes bk s e (take n buf) ?e"
      using assms(1) by (simp add: writes_def enc_ok_def enc_amount_def enc_total_def)
    ultimately show ?thesis
      using False small e by (intro exI [of _ ?e] exI [of _ n]) (simp add: fill_buffer_def n_def [symmetric] Let_def)
  qed
qed

lemma write_helper_ok:
  assumes "enc_ok bk s e" "enc_amount e + length buf < 2 ^ 64"
  shows "\<exists>e'. Encryptor_write bk buf e = Some (e', Inr (length buf)) \<and> writes bk s e buf e'"
proof -
  obtain e1 n where e1: "fill_buffer bk buf e = Some (e1, Inr (drop n buf))" "writes bk s e (take n buf) e1"
      "en_buffer e1 = [] \<or> drop n buf = []"
    using fill_buffer_ok [OF assms] by blast
  then have ok: "enc_ok bk s e1" "enc_amount e1 + length (drop n buf) < 2 ^ 64" "en_chunk_size e1 \<noteq> 0"
    using assms(2) by (auto simp: writes_def enc_ok_def)
  obtain e2 where "encrypt_whole_chunks bk (chunks (en_chunk_size e1) (drop n buf)) e1 = Some (e2, Inr ())" "writes bk s e1 (drop n buf) e2"
  proof (cases "en_buffer e1 = []")
    case True
    then show thesis using encrypt_whole_chunks_ok [OF ok(1) _ ok(2)] that by blast
  next
    case False
    then show thesis using e1(3) ok(1) that [of e1] by (simp add: chunks_simps writes_def)
  qed
  moreover from this have "writes bk s e buf e2" using writes_trans [OF e1(2)] by force
  ultimately show ?thesis
    using assms(1) e1(1) ok(3) by (auto simp: Encryptor_write_def write_helper_def enc_ok_def)
qed

lemma write_all_ok:
  assumes "enc_ok bk s e" "enc_amount e + length (concat bufs) < 2 ^ 64"
  shows "\<exists>e'. Encryptor_write_all bk bufs e = Some (e', Inr ()) \<and> writes bk s e (concat bufs) e'"
  using assms
proof (induction bufs arbitrary: e)
  case Nil
  then show ?case by (simp add: writes_def)
next
  case (Cons buf bufs)
  then obtain e1 where e1: "Encryptor_write bk buf e = Some (e1, Inr (length buf))" "writes bk s e buf e1"
    using write_helper_ok [of bk s e buf] by auto
  then have "enc_ok bk s e1" "enc_amount e1 + length (concat bufs) < 2 ^ 64" using Cons.prems(2) by (auto simp: writes_def)
  then show ?case using Cons.IH [of e1] e1 writes_trans [OF e1(2)] by fastforce
qed

lemma finalize_ok:
  assumes "enc_ok bk s e" "enc_amount e < 2 ^ 64"
  shows "\<exists>e'. Encryptor_finalize bk e = Some (e', Inr (enc_total bk s e []))"
proof -
  have e: "schedule_ok bk (en_sym_algo e) (en_aead e) (en_digest_size e) s" "en_schedule e = SEIPv2_schedule s"
    using assms(1) by (simp_all add: enc_ok_def)
  obtain inner where inner: "en_inner e = Some inner" using assms(1) by (auto simp: enc_ok_def)
  show ?thesis
  proof (cases "en_buffer e = []")
    case True
    then show ?thesis
      using assms inner e encryption_contexts [OF e(1)] seal_ok [OF e(1)]
      by (simp add: Encryptor_finalize_def final_chunk_def enc_total_def enc_ok_def)
  next
    case False
    have "en_chunk_index e + 1 < 2 ^ 64" "length (en_buffer e) < en_chunk_size e"
      using assms False by (cases "en_buffer e"; simp add: enc_ok_def enc_amount_def)+
    then show ?thesis
      using assms inner e encryption_contexts [OF e(1)] seal_ok [OF e(1)] False
      by (simp add: Encryptor_finalize_def final_chunk_def enc_total_def enc_ok_def add_encrypted_def add_u64_def
          enc_amount_def encode_chunks_last)
  qed
qed

section \<open>From the encryptor to the decryptor\<close>

lemma open_sealed:
  assumes "schedule_ok bk symm aead ds s" "id_sym_algo d = symm" "id_aead d = aead" "id_schedule d = SEIPv2_schedule s" "id_digest_size d = ds"
  shows "open_chunk bk d i (seal_chunk bk s symm aead i c) = Inr c"
    "open_final bk d i t (seal_final bk s symm aead i t) = Inr ()"
  using assms decryption_contexts [OF assms(1-3)] seal_ok(3,4) [OF assms(1)]
  by (auto simp: open_chunk_def open_final_def DecryptionContext_decrypt_verify_def schedule_ok_def seals_def seal_chunk_def seal_final_def)

lemma encryptor_output:
  assumes "schedule_ok bk symm aead ds s" "AEADAlgorithm_digest_size aead = Inr ds" "0 < cs" "length (concat bufs) < 2 ^ 64"
  obtains e e' e'' where "Encryptor_new symm aead cs (SEIPv2_schedule s) [] = Inr e" "Encryptor_write_all bk bufs e = Some (e', Inr ())"
    "Encryptor_finalize bk e' = Some (e'', Inr (encode_chunks (seal_chunk bk s symm aead) (seal_final bk s symm aead) cs 0 0 (concat bufs)))"
proof -
  obtain e where new: "Encryptor_new symm aead cs (SEIPv2_schedule s) [] = Inr e"
    using assms(2) by (simp add: Encryptor_new_def)
  then have e: "enc_ok bk s e" "enc_amount e = 0"
      "enc_total bk s e (concat bufs) = encode_chunks (seal_chunk bk s symm aead) (seal_final bk s symm aead) cs 0 0 (concat bufs)"
    using assms(1-3) by (auto simp: Encryptor_new_def enc_ok_def enc_amount_def enc_total_def)
  obtain e' where e': "Encryptor_write_all bk bufs e = Some (e', Inr ())" "writes bk s e (concat bufs) e'"
    using write_all_ok [OF e(1), of bufs] e(2) assms(4) by auto
  then have "enc_ok bk s e'" "enc_amount e' < 2 ^ 64" "enc_total bk s e' [] = enc_total bk s e (concat bufs)"
    using e(2) assms(4) by (auto simp: writes_def)
  then show thesis using finalize_ok [of bk s e'] that [OF new e'(1)] e(3) by auto
qed

lemma decryptor_reads_encoded:
  assumes "schedule_ok bk symm aead ds s" "AEADAlgorithm_digest_size aead = Inr ds" "keeps_length bk" "0 < cs" "length xs < 2 ^ 59" "0 < buf_size"
  shows "\<exists>r r'. Decryptor_new buf_size symm aead cs (SEIPv2_schedule s)
        (Memory_new (encode_chunks (seal_chunk bk s symm aead) (seal_final bk s symm aead) cs 0 0 xs)) = Inr r
      \<and> steal_eof buf_size (Decryptor_reader bk buf_size Memory_reader) r = Some (r', Inr xs)"
proof -
  let ?ct = "encode_chunks (seal_chunk bk s symm aead) (seal_final bk s symm aead) cs 0 0 xs"
  have ds: "ds = 16" using assms(2) by (rule digest_size_16)
  obtain d where d: "InternalDecryptor_new symm aead cs (SEIPv2_schedule s) (Memory_new ?ct) = Inr d"
    using assms(2) by (simp add: InternalDecryptor_new_def)
  then have fields: "id_source d = Memory_new ?ct" "id_sym_algo d = symm" "id_aead d = aead" "id_schedule d = SEIPv2_schedule s"
      "id_digest_size d = ds" "id_chunk_size d = cs" "id_chunk_index d = 0" "id_bytes_decrypted d = 0" "id_buffer d = []"
    using assms(2) by (auto simp: InternalDecryptor_new_def)
  have rem: "mem_rem (id_source d) = ?ct" "mem_ok (id_source d)" using fields(1) by (simp_all add: mem_rem_def mem_ok_def Memory_new_def)
  have len: "ds \<le> length ?ct" "length ?ct \<le> length xs * (ds + 1) + ds"
    using length_encode_chunks [of cs "seal_chunk bk s symm aead" ds "seal_final bk s symm aead"] assms(4) seal_ok(3,4) [OF assms(1)] by blast+
  then have "length ?ct < 2 ^ 64" using assms(5) ds by simp
  then have ok: "dec_ok mem_rem mem_ok d" using rem fields assms(4) ds by (simp add: dec_ok_def)
  have stream: "stream_of bk mem_rem d = (xs, None)"
    using len(1) ds rem(1) fields decode_encode_chunks [of cs ds "seal_chunk bk s symm aead" "seal_final bk s symm aead" "open_chunk bk d" "open_final bk d" 0 0 xs]
      assms(4) seal_ok(3,4) [OF assms(1)] open_sealed [OF assms(1) fields(2-5)]
    by (auto simp: stream_of_def decode_from_def)
  let ?src = "\<lambda>d. fst (stream_of bk mem_rem d)" and ?r = "Generic_new buf_size d None"
  have r: "gen_ok ?src (\<lambda>d. dec_ok mem_rem mem_ok d \<and> snd (stream_of bk mem_rem d) = None) ?r" "gen_rem ?src ?r = xs"
    using ok stream by (simp_all add: gen_ok_def Generic_new_def gen_rem_def gen_buf_def)
  have "\<exists>r'. steal_eof buf_size (Decryptor_reader bk buf_size Memory_reader) ?r = Some (r', Inr xs)"
    using buffered_reader.steal_eof_ok [OF memory.Decryptor_contract [OF assms(3)] r(1) assms(6)] r(2) by fastforce
  then show ?thesis using d by (simp add: Decryptor_new_def)
qed

text \<open>
  C3. Round trip through the streams: data written to an encryptor in any pieces and finished is a ciphertext from which
  the decryptor delivers the data, with the key schedule of version 2 containers and every backend that opens what it
  sealed.
\<close>

theorem aead_round_trip:
  assumes "aead_backend bk symm aead" "hkdf_length hkdf" "SEIPv2Schedule_new hkdf session_key symm aead cs slt = Inr s"
    "length (concat bufs) < 2 ^ 59" "0 < buf_size"
  shows "\<exists>e e' e'' ct r r'. Encryptor_new symm aead cs (SEIPv2_schedule s) [] = Inr e
      \<and> Encryptor_write_all bk bufs e = Some (e', Inr ()) \<and> Encryptor_finalize bk e' = Some (e'', Inr ct)
      \<and> Decryptor_new buf_size symm aead cs (SEIPv2_schedule s) (Memory_new ct) = Inr r
      \<and> steal_eof buf_size (Decryptor_reader bk buf_size Memory_reader) r = Some (r', Inr (concat bufs))"
proof -
  have s: "schedule_ok bk symm aead 16 s" "0 < cs" "AEADAlgorithm_digest_size aead = Inr 16"
    using SEIPv2Schedule_new_ok [OF assms(1-3)] by auto
  have "keeps_length bk" using assms(1) by (simp add: aead_backend_def)
  note reads = decryptor_reads_encoded [OF s(1,3) this s(2) assms(4,5)]
  have "length (concat bufs) < 2 ^ 64" using assms(4) by simp
  then obtain e e' e'' where "Encryptor_new symm aead cs (SEIPv2_schedule s) [] = Inr e" "Encryptor_write_all bk bufs e = Some (e', Inr ())"
      "Encryptor_finalize bk e' = Some (e'', Inr (encode_chunks (seal_chunk bk s symm aead) (seal_final bk s symm aead) cs 0 0 (concat bufs)))"
    by (rule encryptor_output [OF s(1,3,2)])
  with reads show ?thesis by blast
qed

text \<open>A backend for the concrete examples: the data in the clear, with a sum over everything as its tag.\<close>

definition sum_tag :: "Builder \<Rightarrow> bytes \<Rightarrow> bytes" where
  "sum_tag ctx m = replicate 16 (sum_list (bd_key ctx @ bd_aad ctx @ bd_nonce ctx @ m))"

definition sum_backend :: AeadBackend where
  "sum_backend =
     \<lparr>bk_supports_algo = (\<lambda>_. True), bk_supports_algo_with_symmetric = (\<lambda>_ _. True), bk_context = (\<lambda>_. Inr ()),
      bk_digest_size = (\<lambda>_. 16), bk_encrypt_seal = (\<lambda>ctx m. Inr (m @ sum_tag ctx m)),
      bk_decrypt_verify = (\<lambda>ctx dst src.
        (resize (take (length dst) src) (length dst),
         if drop (length dst) src = sum_tag ctx (take (length dst) src) then Inr () else Inl (Err ManipulatedMessage)))\<rparr>"

definition sum_hkdf :: "bytes \<Rightarrow> bytes \<Rightarrow> bytes \<Rightarrow> nat \<Rightarrow> bytes res" where
  "sum_hkdf key slt info n = Inr (replicate n (sum_list (key @ slt @ info)))"

lemma sum_backend_keeps_length: "keeps_length sum_backend"
  by (simp add: keeps_length_def sum_backend_def)

lemma sum_backend_ok: "aead_backend sum_backend symm aead"
  using sum_backend_keeps_length
  by (cases aead) (auto simp: aead_backend_def sum_backend_def seals_def sum_tag_def AEADAlgorithm_digest_size_def resize_def nonce_size_def)

lemma sum_hkdf_length: "hkdf_length sum_hkdf"
  by (auto simp: hkdf_length_def sum_hkdf_def)

lemma trailing_zeros_64: "trailing_zeros 64 64 = 6"
  by code_simp

theorem aead_round_trip_witness:
  "\<exists>s e e' e'' ct r r'. SEIPv2Schedule_new sum_hkdf [1, 2] SymmetricAlgorithm.AES128 AEADAlgorithm.OCB 64 [3] = Inr s
      \<and> Encryptor_new SymmetricAlgorithm.AES128 AEADAlgorithm.OCB 64 (SEIPv2_schedule s) [] = Inr e
      \<and> Encryptor_write_all sum_backend [replicate 100 5, [], replicate 28 6] e = Some (e', Inr ())
      \<and> Encryptor_finalize sum_backend e' = Some (e'', Inr ct)
      \<and> Decryptor_new 32 SymmetricAlgorithm.AES128 AEADAlgorithm.OCB 64 (SEIPv2_schedule s) (Memory_new ct) = Inr r
      \<and> steal_eof 32 (Decryptor_reader sum_backend 32 Memory_reader) r = Some (r', Inr (replicate 100 5 @ replicate 28 6))"
proof -
  obtain s where s: "SEIPv2Schedule_new sum_hkdf [1, 2] SymmetricAlgorithm.AES128 AEADAlgorithm.OCB 64 [3] = Inr s"
    by (simp add: SEIPv2Schedule_new_def MIN_CHUNK_SIZE_def MAX_CHUNK_SIZE_def key_size_def nonce_size_def sum_hkdf_def Let_def
        trailing_zeros_64)
  from aead_round_trip [OF sum_backend_ok sum_hkdf_length s, where bufs = "[replicate 100 5, [], replicate 28 6]" and buf_size = 32]
  have "\<exists>e e' e'' ct r r'. Encryptor_new SymmetricAlgorithm.AES128 AEADAlgorithm.OCB 64 (SEIPv2_schedule s) [] = Inr e
      \<and> Encryptor_write_all sum_backend [replicate 100 5, [], replicate 28 6] e = Some (e', Inr ())
      \<and> Encryptor_finalize sum_backend e' = Some (e'', Inr ct)
      \<and> Decryptor_new 32 SymmetricAlgorithm.AES128 AEADAlgorithm.OCB 64 (SEIPv2_schedule s) (Memory_new ct) = Inr r
      \<and> steal_eof 32 (Decryptor_reader sum_backend 32 Memory_reader) r = Some (r', Inr (replicate 100 5 @ replicate 28 6))"
    by simp
  with s show ?thesis by blast
qed

text \<open>
  C2. Every read of the decryptor, on any ciphertext, delivers exactly what the format allows. While there are enough
  verified octets it fills the buffer with the next of them and keeps the rest. If the stream ends before that, the read
  delivers what is left when the end was verified, and otherwise it reports the failure of the first chunk or final tag that
  is not good. So until the first error nothing is delivered that was not verified, nothing is lost or reordered, and a
  manipulation is reported by the read that reaches it.
\<close>

theorem decryptor_refines_format:
  assumes "buffered_reader br buf rem ok" "keeps_length bk" "dec_ok rem ok d" "stream_of bk rem d = (p, e)"
  shows "\<exists>d'. if n \<le> length p then
        InternalDecryptor_read bk br n d = Some (d', Inr (take n p)) \<and> dec_ok rem ok d' \<and> stream_of bk rem d' = (drop n p, e)
      else
        (case e of
           None \<Rightarrow> InternalDecryptor_read bk br n d = Some (d', Inr p) \<and> dec_ok rem ok d' \<and> stream_of bk rem d' = ([], None)
         | Some e \<Rightarrow> InternalDecryptor_read bk br n d = Some (d', Inl (wrap_error e)))"
  by (rule buffered_reader.decryptor_read_ok [OF assms(1,3,2,4)])

text \<open>
  A schedule, and a decryptor for a ciphertext. The example has two whole chunks, a third of two octets and a final tag, as
  the format asks for, or a wrong one.
\<close>

definition example_schedule :: SEIPv2Schedule where
  "example_schedule = \<lparr>ss_key = [1], ss_nonce = [2, 3, 4, 5, 6, 7, 8], ss_ad = [9], ss_nonce_len = 15\<rparr>"

definition example_decryptor :: "bytes \<Rightarrow> Memory InternalDecryptor" where
  "example_decryptor ct =
     \<lparr>id_source = Memory_new ct, id_sym_algo = SymmetricAlgorithm.AES128, id_aead = AEADAlgorithm.OCB,
      id_schedule = SEIPv2_schedule example_schedule, id_digest_size = 16, id_chunk_size = 64, id_chunk_index = 0,
      id_bytes_decrypted = 0, id_buffer = []\<rparr>"

definition example_ciphertext :: "(nat \<Rightarrow> nat \<Rightarrow> bytes) \<Rightarrow> bytes" where
  "example_ciphertext fin =
     encode_chunks (seal_chunk sum_backend example_schedule SymmetricAlgorithm.AES128 AEADAlgorithm.OCB) fin 64 0 0
       (replicate 128 7 @ [5, 6])"

definition example_final :: "nat \<Rightarrow> nat \<Rightarrow> bytes" where
  "example_final = seal_final sum_backend example_schedule SymmetricAlgorithm.AES128 AEADAlgorithm.OCB"

definition wrong_final :: "nat \<Rightarrow> nat \<Rightarrow> bytes" where
  "wrong_final i t = 1 # replicate 15 0"

lemma example_decryptor_ok: "length ct < 2 ^ 64 \<Longrightarrow> dec_ok mem_rem mem_ok (example_decryptor ct)"
  by (simp add: dec_ok_def example_decryptor_def mem_rem_def mem_ok_def Memory_new_def)

lemma sum_backend_seals: "seals sum_backend 16 ctx"
  by (auto simp: seals_def sum_backend_def sum_tag_def resize_def)

lemma example_schedule_ok: "schedule_ok sum_backend SymmetricAlgorithm.AES128 AEADAlgorithm.OCB 16 example_schedule"
  by (simp add: schedule_ok_def sum_backend_seals) (simp add: sum_backend_def example_schedule_def MAX_NONCE_LEN_def)

lemma example_length:
  assumes "\<And>i t. length (fin i t) = 16"
  shows "length (example_ciphertext fin) < 2 ^ 64 \<and> example_ciphertext fin \<noteq> []"
proof -
  have "16 \<le> length (example_ciphertext fin) \<and> length (example_ciphertext fin) \<le> length (replicate 128 (7 :: 8 word) @ [5, 6]) * (16 + 1) + 16"
    unfolding example_ciphertext_def using assms seal_ok(3) [OF example_schedule_ok] by (intro length_encode_chunks) simp_all
  then show ?thesis by auto
qed

lemma example_stream:
  assumes "example_ciphertext fin \<noteq> []"
  shows "stream_of sum_backend mem_rem (example_decryptor (example_ciphertext fin))
    = decode_from sum_backend (example_decryptor (example_ciphertext fin)) 0 0 (example_ciphertext fin)"
  using assms by (simp add: stream_of_def example_decryptor_def mem_rem_def Memory_new_def)

lemma example_fields:
  "id_sym_algo (example_decryptor ct) = SymmetricAlgorithm.AES128" "id_aead (example_decryptor ct) = AEADAlgorithm.OCB"
  "id_schedule (example_decryptor ct) = SEIPv2_schedule example_schedule" "id_digest_size (example_decryptor ct) = 16"
  "id_chunk_size (example_decryptor ct) = 64"
  by (simp_all add: example_decryptor_def)

lemmas example_open = open_sealed [OF example_schedule_ok example_fields(1-4)]
lemmas example_seal = seal_ok(3,4) [OF example_schedule_ok]

lemma example_final_length: "length (example_final i t) = 16"
  by (simp add: example_final_def example_seal)

lemma example_stream_good:
  "stream_of sum_backend mem_rem (example_decryptor (example_ciphertext example_final)) = (replicate 128 7 @ [5, 6], None)"
proof -
  have "decode_from sum_backend (example_decryptor ct) 0 0 (example_ciphertext example_final) = (replicate 128 7 @ [5, 6], None)" for ct
    unfolding decode_from_def example_fields example_ciphertext_def
    by (rule decode_encode_chunks) (simp_all add: example_final_length example_seal example_open, simp add: example_final_def example_open)
  then show ?thesis using example_stream example_length [of example_final, OF example_final_length] by simp
qed

lemma open_wrong_final: "open_final sum_backend (example_decryptor ct) i t (wrong_final i t) = Inl (Err ManipulatedMessage)"
  using decryption_contexts [OF example_schedule_ok example_fields(1,2)]
  by (auto simp: open_final_def example_fields DecryptionContext_decrypt_verify_def sum_backend_def wrong_final_def sum_tag_def numeral_eq_Suc)

lemma example_stream_bad:
  "stream_of sum_backend mem_rem (example_decryptor (example_ciphertext wrong_final)) = (replicate 128 7, Some (Err ManipulatedMessage))"
proof -
  have "decode_from sum_backend (example_decryptor ct) 0 0 (example_ciphertext wrong_final)
      = (take (64 * (length (replicate 128 (7 :: 8 word) @ [5, 6]) div 64)) (replicate 128 7 @ [5, 6]), Some (Err ManipulatedMessage))" for ct
    unfolding decode_from_def example_fields example_ciphertext_def
    by (rule decode_wrong_final) (simp_all add: example_seal example_open open_wrong_final, simp add: wrong_final_def)
  then show ?thesis using example_stream example_length [of wrong_final] by (simp add: wrong_final_def)
qed

theorem decryptor_refines_format_witness:
  "(\<exists>d1 d2. InternalDecryptor_read sum_backend Memory_reader 100 (example_decryptor (example_ciphertext example_final))
        = Some (d1, Inr (replicate 100 7))
      \<and> InternalDecryptor_read sum_backend Memory_reader 100 d1 = Some (d2, Inr (replicate 28 7 @ [5, 6])))
   \<and> (\<exists>d1 d2. InternalDecryptor_read sum_backend Memory_reader 100 (example_decryptor (example_ciphertext wrong_final))
        = Some (d1, Inr (replicate 100 7))
      \<and> InternalDecryptor_read sum_backend Memory_reader 100 d1 = Some (d2, Inl (IoErr OtherError)))"
proof
  note read = decryptor_refines_format [OF memory.buffered_reader_axioms sum_backend_keeps_length]
  have "dec_ok mem_rem mem_ok (example_decryptor (example_ciphertext example_final))"
    using example_length [of example_final, OF example_final_length] by (intro example_decryptor_ok) blast
  from read [OF this example_stream_good, of 100] obtain d1 where
    d1: "InternalDecryptor_read sum_backend Memory_reader 100 (example_decryptor (example_ciphertext example_final)) = Some (d1, Inr (replicate 100 7))"
      "dec_ok mem_rem mem_ok d1" "stream_of sum_backend mem_rem d1 = (replicate 28 7 @ [5, 6], None)"
    by auto
  with read [OF d1(2,3), of 100] show "\<exists>d1 d2. InternalDecryptor_read sum_backend Memory_reader 100 (example_decryptor (example_ciphertext example_final))
        = Some (d1, Inr (replicate 100 7))
      \<and> InternalDecryptor_read sum_backend Memory_reader 100 d1 = Some (d2, Inr (replicate 28 7 @ [5, 6]))"
    by auto
  have "dec_ok mem_rem mem_ok (example_decryptor (example_ciphertext wrong_final))"
    using example_length [of wrong_final] by (intro example_decryptor_ok) (simp add: wrong_final_def)
  from read [OF this example_stream_bad, of 100] obtain d1 where
    d1: "InternalDecryptor_read sum_backend Memory_reader 100 (example_decryptor (example_ciphertext wrong_final))
        = Some (d1, Inr (replicate 100 7))"
      "dec_ok mem_rem mem_ok d1" "stream_of sum_backend mem_rem d1 = (replicate 28 7, Some (Err ManipulatedMessage))"
    by auto
  with read [OF d1(2,3), of 100] show "\<exists>d1 d2. InternalDecryptor_read sum_backend Memory_reader 100
        (example_decryptor (example_ciphertext wrong_final)) = Some (d1, Inr (replicate 100 7))
      \<and> InternalDecryptor_read sum_backend Memory_reader 100 d1 = Some (d2, Inl (IoErr OtherError))"
    by (auto simp: wrap_error_def)
qed

text \<open>
  C38. A chunk that fails to verify and is larger than the caller's buffer was opened in the decryptor's own buffer, which
  then is not cleared: the next read does not repeat the error but returns what the backend left there.
\<close>

theorem failed_chunk_is_returned:
  assumes "buffered_reader br buf rem ok" "keeps_length bk" "dec_ok rem ok d" "id_buffer d = []"
    "m = min (length (rem (id_source d))) (id_chunk_size d + id_digest_size d + id_digest_size d) - id_digest_size d"
    "sch_chunk (id_schedule d) (id_chunk_index d) (decryption_context bk d) = Inr ctx"
    "DecryptionContext_decrypt_verify bk ctx (replicate (m - id_digest_size d) 0) (take m (rem (id_source d))) = (leaked, Inl e)"
    "0 < n" "n < m - id_digest_size d"
  shows "\<exists>d1 d2. InternalDecryptor_read bk br n d = Some (d1, Inl (wrap_error e)) \<and> InternalDecryptor_read bk br n d1 = Some (d2, Inr (take n leaked))"
proof -
  let ?cs = "id_chunk_size d" and ?ds = "id_digest_size d" and ?c = "rem (id_source d)"
  have pos: "0 < ?cs" using assms(3) by (simp add: dec_ok_def)
  then obtain k where k: "(n + ?cs - 1) div ?cs = Suc k" using assms(8) by (cases "(n + ?cs - 1) div ?cs") (auto simp: div_eq_0_iff)
  obtain s where step: "decrypt_chunks bk br (Suc k) n [] d =
      (if ?c = [] then Some (d\<lparr>id_source := s\<rparr>, Inr [])
       else if length ?c < ?ds then Some (d\<lparr>id_source := s\<rparr>, Inl (Err ManipulatedMessage))
       else io_then (decrypt_chunk bk br n [] (take m ?c) (d\<lparr>id_source := s\<rparr>)) (\<lambda>out d.
         if length ?c < ?cs + ?ds + ?ds then io_then (check_final_digest bk br d) (\<lambda>_ d. Some (d, Inr out))
         else decrypt_chunks bk br k n out d))"
    by (rule buffered_reader.decrypt_chunks_step [OF assms(1,3,5)])
  have m: "\<not> m \<le> ?ds" "length (take m ?c) = m" "take m ?c \<noteq> []" "?c \<noteq> []" "\<not> length ?c < id_digest_size d" using assms(5,9) by auto
  have same: "d\<lparr>id_buffer := []\<rparr> = d" using assms(4) by simp
  let ?d = "d\<lparr>id_source := s, id_buffer := leaked\<rparr>"
  have "decryption_context bk (d\<lparr>id_source := s\<rparr>) = decryption_context bk d" by (simp add: decryption_context_def fun_eq_iff)
  then have "decrypt_chunk bk br n [] (take m ?c) (d\<lparr>id_source := s\<rparr>) = Some (?d, Inl e)"
    using assms(4,6,7,9) m by (simp add: decrypt_chunk_def Let_def)
  then have "read_helper bk br n d = Some (?d, Inl e)"
    using step m pos k assms(4) by (simp add: read_helper_def Let_def same)
  moreover have "length leaked = m - id_digest_size d"
    using assms(2,7) by (auto simp: DecryptionContext_decrypt_verify_def keeps_length_def split: if_splits) (metis fst_conv length_replicate)
  then have "read_helper bk br n ?d = Some (?d\<lparr>id_buffer := drop n leaked\<rparr>, Inr (take n leaked))"
    using assms(9) by (auto simp: read_helper_def Let_def min_def)
  ultimately show ?thesis by (simp add: InternalDecryptor_read_def)
qed

lemma be_bytes_zero: "be_bytes k 0 = replicate k 0"
  by (induction k) (simp_all add: replicate_append_same)

theorem failed_chunk_is_returned_witness:
  "\<exists>d1 d2. InternalDecryptor_read sum_backend Memory_reader 2 (example_decryptor ([1, 2, 3] @ replicate 32 0)) = Some (d1, Inl (IoErr OtherError))
     \<and> InternalDecryptor_read sum_backend Memory_reader 2 d1 = Some (d2, Inr [1, 2])"
proof -
  let ?ct = "[1, 2, 3] @ replicate 32 0 :: bytes" and ?ctx = "chunk_context example_schedule SymmetricAlgorithm.AES128 AEADAlgorithm.OCB 0"
  have rem: "mem_rem (id_source (example_decryptor ?ct)) = ?ct" by (simp add: example_decryptor_def mem_rem_def Memory_new_def)
  have ctx: "sch_chunk (id_schedule (example_decryptor ?ct)) (id_chunk_index (example_decryptor ?ct))
      (decryption_context sum_backend (example_decryptor ?ct)) = Inr ?ctx"
    by (simp add: example_decryptor_def SEIPv2_schedule_def SEIPv2Schedule_chunk_def chunk_nonce_def example_schedule_def MAX_NONCE_LEN_def
        decryption_context_def AEADAlgorithm_context_def sum_backend_def Builder_for_decryption_def chunk_context_def)
  have opened: "DecryptionContext_decrypt_verify sum_backend ?ctx (replicate 3 0) (take 19 ?ct) = ([1, 2, 3], Inl (Err ManipulatedMessage))"
    by (simp add: DecryptionContext_decrypt_verify_def sum_backend_def resize_def sum_tag_def chunk_context_def example_schedule_def
        be_bytes_zero sum_list_replicate)
  have "\<exists>d1 d2. InternalDecryptor_read sum_backend Memory_reader 2 (example_decryptor ?ct) = Some (d1, Inl (wrap_error (Err ManipulatedMessage)))
     \<and> InternalDecryptor_read sum_backend Memory_reader 2 d1 = Some (d2, Inr (take 2 [1, 2, 3]))"
    by (rule failed_chunk_is_returned [OF memory.buffered_reader_axioms sum_backend_keeps_length example_decryptor_ok, of ?ct 19 ?ctx])
       (use rem ctx opened in \<open>simp_all add: example_decryptor_def\<close>)
  then show ?thesis by (simp add: wrap_error_def)
qed

end
