(* ===== verification/Times.thy ===== *)
theory Times
  imports Algorithms
begin

text \<open>
  The times of the format (\<open>types/timestamp.rs\<close>): seconds since the epoch and durations in seconds, both of 32 bits, their
  conversion from and to the times of the system, which are in nanoseconds, arithmetic, and rounding.
\<close>

unbundle bit_operations_syntax

definition NANOS_PER_SEC :: int where
  "NANOS_PER_SEC = 1000000000"

definition as_secs :: "int \<Rightarrow> int" where
  "as_secs t = t div NANOS_PER_SEC"

section \<open>Conversions\<close>

text \<open>\<open>duration_since\<close> the epoch fails for times before it.\<close>

definition Timestamp_try_from :: "SystemTime \<Rightarrow> u32 res" where
  "Timestamp_try_from t =
     (if 0 \<le> t \<and> as_secs t \<le> 0xFFFFFFFF then Inr (word_of_int (as_secs t)) else Inl (Err InvalidArgument))"

definition SystemTime_from :: "u32 \<Rightarrow> SystemTime" where
  "SystemTime_from t = uint t * NANOS_PER_SEC"

definition Duration_try_from :: "int \<Rightarrow> u32 res" where
  "Duration_try_from d = (if as_secs d \<le> 0xFFFFFFFF then Inr (word_of_int (as_secs d)) else Inl (Err InvalidArgument))"

definition SystemDuration_from :: "u32 \<Rightarrow> int" where
  "SystemDuration_from d = uint d * NANOS_PER_SEC"

definition normalize_systemtime :: "SystemTime \<Rightarrow> SystemTime res" where
  "normalize_systemtime t = (if 0 \<le> t then Inr (as_secs t * NANOS_PER_SEC) else Inl Panic)"

section \<open>Arithmetic\<close>

definition u32_checked_add :: "u32 \<Rightarrow> u32 \<Rightarrow> u32 option" where
  "u32_checked_add a b = (if uint a + uint b < 2 ^ 32 then Some (a + b) else None)"

definition u32_checked_sub :: "u32 \<Rightarrow> u32 \<Rightarrow> u32 option" where
  "u32_checked_sub a b = (if b \<le> a then Some (a - b) else None)"

definition u32_checked_mul :: "u32 \<Rightarrow> u32 \<Rightarrow> u32 option" where
  "u32_checked_mul a b = (if uint a * uint b < 2 ^ 32 then Some (a * b) else None)"

definition Timestamp_checked_add :: "u32 \<Rightarrow> u32 \<Rightarrow> u32 option" where
  "Timestamp_checked_add t d = u32_checked_add t d"

definition Timestamp_checked_sub :: "u32 \<Rightarrow> u32 \<Rightarrow> u32 option" where
  "Timestamp_checked_sub t d = u32_checked_sub t d"

definition Duration_minutes :: "u32 \<Rightarrow> u32 res" where
  "Duration_minutes n = (case u32_checked_mul 60 n of Some val \<Rightarrow> Inr val | None \<Rightarrow> Inl (Err InvalidArgument))"

definition Duration_hours :: "u32 \<Rightarrow> u32 res" where
  "Duration_hours n = (case u32_checked_mul 60 n of Some val \<Rightarrow> Duration_minutes val | None \<Rightarrow> Inl (Err InvalidArgument))"

definition Duration_days :: "u32 \<Rightarrow> u32 res" where
  "Duration_days n = (case u32_checked_mul 24 n of Some val \<Rightarrow> Duration_hours val | None \<Rightarrow> Inl (Err InvalidArgument))"

definition Duration_weeks :: "u32 \<Rightarrow> u32 res" where
  "Duration_weeks n = (case u32_checked_mul 7 n of Some val \<Rightarrow> Duration_days val | None \<Rightarrow> Inl (Err InvalidArgument))"

text \<open>
  The product of 365.2425, which as a double is \<open>6425414011327611 / 2 ^ 44\<close>, and a number, rounded to the nearest double,
  ties to even, in units of \<open>2 ^ -44\<close>.
\<close>

definition round_double :: "int \<Rightarrow> int" where
  "round_double x =
     (let e = (if x < 2 ^ 53 then 0 else nat (int (length (takeWhile (\<lambda>k. 2 ^ (53 + k) \<le> x) [0..<64]))));
          q = x div 2 ^ e; r = x mod 2 ^ e in
      (if e > 0 \<and> (2 * r > 2 ^ e \<or> 2 * r = 2 ^ e \<and> q mod 2 = 1) then q + 1 else q) * 2 ^ e)"

definition Duration_years :: "u32 \<Rightarrow> u32 res" where
  "Duration_years n =
     (let s = round_double (6425414011327611 * uint n) div 2 ^ 44 in
      if s > 0xFFFFFFFF then Inl (Err InvalidArgument) else Inr (word_of_int s))"

section \<open>Rounding\<close>

definition low_mask :: "nat \<Rightarrow> u32" where
  "low_mask p = push_bit p 1 - 1"

definition Timestamp_round_down :: "u32 \<Rightarrow> u8 option \<Rightarrow> SystemTime option \<Rightarrow> u32 res" where
  "Timestamp_round_down t precision floor1 =
     (let p = unat (case precision of Some p \<Rightarrow> p | None \<Rightarrow> 21) in
      if p < 32 then
        (let rounded = t AND NOT (low_mask p) in
         case floor1 of
           Some f \<Rightarrow> and_then (Timestamp_try_from f) (\<lambda>f. Inr (max rounded f))
         | None \<Rightarrow> Inr rounded)
      else Inl (Err InvalidArgument))"

definition Duration_round_up :: "u32 \<Rightarrow> u8 option \<Rightarrow> int option \<Rightarrow> u32 res" where
  "Duration_round_up d precision ceil1 =
     (let p = unat (case precision of Some p \<Rightarrow> p | None \<Rightarrow> 21) in
      if p < 32 then
        (case u32_checked_add d (low_mask p) of
           Some added \<Rightarrow>
             (let rounded = added AND NOT (low_mask p) in
              case ceil1 of
                Some c \<Rightarrow> and_then (Duration_try_from c) (\<lambda>c. Inr (min rounded c))
              | None \<Rightarrow> Inr rounded)
         | None \<Rightarrow> Inr 0xFFFFFFFF)
      else Inl (Err InvalidArgument))"

section \<open>Properties\<close>

lemma uint_u32_less: "uint (w :: u32) < 2 ^ 32"
  using uint_bounded [of w] by simp

lemma u32_checked_mul_iff:
  "u32_checked_mul a b = (if uint a * uint b < 2 ^ 32 then Some (word_of_int (uint a * uint b)) else None)"
  by (simp add: u32_checked_mul_def)

text \<open>Steps of a unit: the product if it fits, an error otherwise, also if an earlier product does not fit.\<close>

lemma checked_mul_then:
  assumes "\<And>m. f m = (if k * uint m < 2 ^ 32 then Inr (word_of_int (k * uint m)) else Inl e)" "0 < k"
  shows "(case u32_checked_mul a n of Some val \<Rightarrow> f val | None \<Rightarrow> Inl e) =
    (if k * uint a * uint n < 2 ^ 32 then Inr (word_of_int (k * uint a * uint n)) else Inl e)"
proof (cases "uint a * uint n < 2 ^ 32")
  case True
  then have "uint (a * n) = uint a * uint n"
    using True by (simp add: uint_word_arith_bintrs take_bit_int_eq_self)
  then show ?thesis using True assms by (simp add: u32_checked_mul_def mult.assoc)
next
  case False
  moreover have "uint a * uint n \<le> k * (uint a * uint n)"
    using assms(2) mult_right_mono [of 1 k "uint a * uint n"] by simp
  ultimately show ?thesis by (simp add: u32_checked_mul_def mult.assoc)
qed

lemma Duration_minutes_eq:
  "Duration_minutes n = (if 60 * uint n < 2 ^ 32 then Inr (word_of_int (60 * uint n)) else Inl (Err InvalidArgument))"
  using checked_mul_then [of "\<lambda>m. Inr m" 1 "Err InvalidArgument" 60 n] uint_u32_less by (simp add: Duration_minutes_def)

lemma Duration_hours_eq:
  "Duration_hours n = (if 3600 * uint n < 2 ^ 32 then Inr (word_of_int (3600 * uint n)) else Inl (Err InvalidArgument))"
  using checked_mul_then [OF Duration_minutes_eq, of 60 n] by (simp add: Duration_hours_def)

lemma Duration_days_eq:
  "Duration_days n = (if 86400 * uint n < 2 ^ 32 then Inr (word_of_int (86400 * uint n)) else Inl (Err InvalidArgument))"
  using checked_mul_then [OF Duration_hours_eq, of 24 n] by (simp add: Duration_days_def)

lemma Duration_weeks_eq:
  "Duration_weeks n = (if 604800 * uint n < 2 ^ 32 then Inr (word_of_int (604800 * uint n)) else Inl (Err InvalidArgument))"
  using checked_mul_then [OF Duration_days_eq, of 7 n] by (simp add: Duration_weeks_def)

text \<open>A year is 365 seconds long: the days are taken for seconds.\<close>

theorem year_of_seconds:
  "Duration_years 1 = Inr 365 \<and> Duration_days 365 = Inr 31536000"
  by code_simp

lemma low_mask_eq: "low_mask p = mask p"
  by (simp add: low_mask_def mask_eq_exp_minus_1)

lemma uint_and_not_mask: "uint (w AND NOT (low_mask p) :: u32) = uint w - uint w mod 2 ^ p"
proof -
  have "w - take_bit p w = w AND NOT (take_bit p w)"
    by (rule disjunctive_diff) (auto simp: bit_simps)
  also have "\<dots> = w AND NOT (low_mask p)"
    unfolding low_mask_eq by (rule bit_word_eqI) (auto simp: bit_simps)
  finally have "w AND NOT (low_mask p) = w - take_bit p w" by (rule sym)
  moreover have "uint (take_bit p w) = uint w mod 2 ^ p" by (simp only: unsigned_take_bit_eq) (simp only: take_bit_eq_mod)
  ultimately show ?thesis
    using uint_sub_lem [of "take_bit p w" w] by (simp add: zmod_le_nonneg_dividend)
qed

lemma uint_low_mask: "p < 32 \<Longrightarrow> uint (low_mask p) = 2 ^ p - 1"
  using arg_cong [OF of_int_mask_eq [of p], of "uint :: u32 \<Rightarrow> int"]
  by (simp add: low_mask_eq uint_word_of_int_eq min_def) (simp add: mask_eq_exp_minus_1)

text \<open>
  Rounding: down to a multiple of \<open>2 ^ p\<close> that is less than \<open>2 ^ p\<close> away; up to such a multiple, or to the longest duration
  where it is not representable.
\<close>

theorem rounding:
  assumes "unat p < 32"
  shows "\<exists>t' d'. Timestamp_round_down t (Some p) None = Inr t' \<and> Duration_round_up d (Some p) None = Inr d'
    \<and> t' \<le> t \<and> uint t - uint t' < 2 ^ unat p \<and> uint t' mod 2 ^ unat p = 0
    \<and> d \<le> d' \<and> uint d' - uint d < 2 ^ unat p \<and> (uint d' mod 2 ^ unat p = 0 \<or> d' = 0xFFFFFFFF)"
proof -
  let ?p = "unat p" and ?m = "2 ^ unat p :: int"
  define t' where "t' = t AND NOT (low_mask ?p)"
  have t': "uint t' = uint t - uint t mod ?m" by (simp add: t'_def uint_and_not_mask)
  then have "t' \<le> t \<and> uint t - uint t' < ?m \<and> uint t' mod ?m = 0"
    using pos_mod_bound [of ?m "uint t"] pos_mod_sign [of ?m "uint t"] by (simp add: word_le_def)
  moreover have "Timestamp_round_down t (Some p) None = Inr t'" using assms by (simp add: Timestamp_round_down_def t'_def)
  moreover have "\<exists>d'. Duration_round_up d (Some p) None = Inr d' \<and> d \<le> d' \<and> uint d' - uint d < ?m \<and> (uint d' mod ?m = 0 \<or> d' = 0xFFFFFFFF)"
  proof (cases "uint d + (?m - 1) < 2 ^ 32")
    case True
    define s where "s = d + low_mask ?p"
    have s: "uint s = uint d + (?m - 1)"
      using True assms uint_low_mask [OF assms] uint_add_lem [of d "low_mask ?p"] by (simp add: s_def)
    define d' where "d' = s AND NOT (low_mask ?p)"
    have d': "uint d' = uint s - uint s mod ?m" unfolding d'_def by (rule uint_and_not_mask)
    have "uint s mod ?m \<le> ?m - 1" "0 \<le> uint s mod ?m" by simp_all
    then have le: "d \<le> d' \<and> uint d' - uint d < ?m" unfolding word_le_def using s d' by linarith
    have mod: "uint d' mod ?m = 0" using d' by (simp add: minus_mod_eq_mult_div)
    have "Duration_round_up d (Some p) None = Inr d'"
      using True assms uint_low_mask [OF assms] by (simp add: Duration_round_up_def u32_checked_add_def s_def d'_def Let_def)
    then show ?thesis using le mod by metis
  next
    case False
    moreover have "uint d < 2 ^ 32" by (rule uint_u32_less)
    ultimately show ?thesis
      using assms uint_low_mask [OF assms] by (simp add: Duration_round_up_def u32_checked_add_def word_le_def)
  qed
  ultimately show ?thesis by metis
qed

theorem rounding_witness:
  "\<exists>t' d'. Timestamp_round_down 1000 (Some 8) None = Inr t' \<and> Duration_round_up 1000 (Some 8) None = Inr d' \<and> t' \<le> 1000 \<and> 1000 \<le> d'"
proof -
  have "unat (8 :: u8) < 32" by simp
  then show ?thesis using rounding [of 8 1000 1000] by blast
qed

text \<open>Times survive the way to the system and back; the way from the system cuts them to seconds.\<close>

lemma time_conversions:
  "Timestamp_try_from (SystemTime_from t) = Inr t"
  "Timestamp_try_from s = Inr t \<Longrightarrow> SystemTime_from t \<le> s \<and> s < SystemTime_from t + NANOS_PER_SEC"
proof -
  have "uint t \<le> 0xFFFFFFFF" using uint_u32_less [of t] by simp
  then show "Timestamp_try_from (SystemTime_from t) = Inr t"
    by (simp add: Timestamp_try_from_def SystemTime_from_def as_secs_def NANOS_PER_SEC_def)
next
  assume "Timestamp_try_from s = Inr t"
  then have "0 \<le> s" "s div 1000000000 \<le> 0xFFFFFFFF" "t = word_of_int (s div 1000000000)"
    by (auto simp: Timestamp_try_from_def as_secs_def NANOS_PER_SEC_def split: if_splits)
  then have "uint t = s div 1000000000" by (simp add: uint_word_of_int_eq take_bit_int_eq_self)
  then show "SystemTime_from t \<le> s \<and> s < SystemTime_from t + NANOS_PER_SEC"
    by (simp add: SystemTime_from_def NANOS_PER_SEC_def) (use minus_mod_eq_div_mult [of s 1000000000] pos_mod_bound [of 1000000000 s] pos_mod_sign [of 1000000000 s] in linarith)
qed

lemma Duration_try_from_uint:
  assumes "Duration_try_from d = Inr w" "0 \<le> d"
  shows "uint w = as_secs d"
proof -
  have "w = word_of_int (as_secs d)" "as_secs d < 2 ^ 32" "0 \<le> as_secs d"
    using assms by (auto simp: Duration_try_from_def as_secs_def NANOS_PER_SEC_def split: if_splits)
  then show ?thesis by (simp add: uint_word_of_int_eq take_bit_int_eq_self)
qed

end
