(* ===== verification/BinarySearch.thy ===== *)
theory BinarySearch
  imports Mpi
begin

text \<open>
  The binary search of the standard library, \<open>slice::binary_search_by\<close>, which the verification cache and the lists of cutoffs
  use: the range is halved until one element is left. On a list whose elements are in the order of the comparison it finds an
  element that compares equal, or else the place where to insert one; on other lists it returns, too, but nothing is said of
  the result.
\<close>

definition Ordering_reverse :: "Ordering \<Rightarrow> Ordering" where
  "Ordering_reverse c = (case c of Less \<Rightarrow> Greater | Equal \<Rightarrow> Equal | Greater \<Rightarrow> Less)"

function halve :: "('a \<Rightarrow> Ordering) \<Rightarrow> 'a list \<Rightarrow> nat \<Rightarrow> nat \<Rightarrow> nat" where
  "halve f xs base size1 =
     (if size1 \<le> 1 then base
      else let half = size1 div 2; mid = base + half in
        halve f xs (if f (xs ! mid) = Greater then base else mid) (size1 - half))"
  by pat_completeness auto
termination by (relation "measure (\<lambda>(f, xs, base, n). n)") auto

declare halve.simps [simp del]

text \<open>\<open>Inr\<close> is the place of an element that was found, \<open>Inl\<close> the place where to insert one.\<close>

definition binary_search_by :: "('a \<Rightarrow> Ordering) \<Rightarrow> 'a list \<Rightarrow> nat + nat" where
  "binary_search_by f xs =
     (if xs = [] then Inl 0
      else
        (let base = halve f xs 0 (length xs) in
         case f (xs ! base) of Equal \<Rightarrow> Inr base | Less \<Rightarrow> Inl (base + 1) | Greater \<Rightarrow> Inl base))"

definition searchable :: "('a \<Rightarrow> Ordering) \<Rightarrow> 'a list \<Rightarrow> bool" where
  "searchable f xs \<longleftrightarrow> (\<forall>i j. i < j \<longrightarrow> j < length xs \<longrightarrow>
     (f (xs ! i) = Greater \<longrightarrow> f (xs ! j) = Greater) \<and> (f (xs ! j) = Less \<longrightarrow> f (xs ! i) = Less))"

lemma cmp_iff: "cmp a b = Less \<longleftrightarrow> a < b" "cmp a b = Equal \<longleftrightarrow> a = b" "cmp a b = Greater \<longleftrightarrow> b < a"
  by (auto simp: cmp_def)

lemma searchable_mono:
  assumes "\<And>x. x \<in> set xs \<Longrightarrow> f x = cmp (key x) (k :: 'k::linorder)" "sorted (map key xs)"
  shows "searchable f xs"
  unfolding searchable_def
proof (intro allI impI)
  fix i j
  assume ij: "i < j" "j < length xs"
  then have "key (xs ! i) \<le> key (xs ! j)" using assms(2) sorted_nth_mono [of "map key xs" i j] by simp
  then show "(f (xs ! i) = Greater \<longrightarrow> f (xs ! j) = Greater) \<and> (f (xs ! j) = Less \<longrightarrow> f (xs ! i) = Less)"
    using ij assms(1) [OF nth_mem, of i] assms(1) [OF nth_mem, of j] by (auto simp: cmp_iff)
qed

lemma halve_range:
  assumes "searchable f xs"
    and "0 < size1" "base + size1 \<le> length xs" "\<forall>j. base + size1 \<le> j \<longrightarrow> j < length xs \<longrightarrow> f (xs ! j) = Greater"
  shows "halve f xs base size1 < length xs \<and> (\<forall>j. halve f xs base size1 < j \<longrightarrow> j < length xs \<longrightarrow> f (xs ! j) = Greater)
    \<and> (halve f xs base size1 = base \<or> f (xs ! halve f xs base size1) \<noteq> Greater)"
  using assms(2-4)
proof (induction size1 arbitrary: base rule: less_induct)
  case (less size1)
  show ?case
  proof (cases "size1 \<le> 1")
    case True
    then have "size1 = 1" using less.prems by simp
    then show ?thesis using less.prems by (simp add: halve.simps)
  next
    case False
    define half where "half = size1 div 2"
    have half: "0 < half" "half < size1" "half \<le> size1 - half" using False by (auto simp: half_def)
    show ?thesis
    proof (cases "f (xs ! (base + half)) = Greater")
      case True
      have "f (xs ! j) = Greater" if "base + (size1 - half) \<le> j" "j < length xs" for j
      proof (cases "base + half = j")
        case ne: False
        then have "base + half < j" using that half by linarith
        with True assms(1) that show ?thesis unfolding searchable_def by blast
      qed (use True in simp)
      then show ?thesis
        using less.IH [of "size1 - half" base] half less.prems True False by (simp add: halve.simps [of f xs base size1] half_def [symmetric] Let_def)
    next
      case gt: False
      then have "halve f xs base size1 = halve f xs (base + half) (size1 - half)"
        using False by (simp add: halve.simps [of f xs base size1] half_def [symmetric] Let_def)
      then show ?thesis using less.IH [of "size1 - half" "base + half"] half less.prems gt by auto
    qed
  qed
qed

lemma binary_search_found: "searchable f xs \<Longrightarrow> binary_search_by f xs = Inr i \<Longrightarrow> i < length xs \<and> f (xs ! i) = Equal"
  using halve_range [of f xs "length xs" 0] by (auto simp: binary_search_by_def Let_def split: if_splits Ordering.splits)

lemma binary_search_missing:
  assumes "searchable f xs" "binary_search_by f xs = Inl i"
  shows "i \<le> length xs \<and> (\<forall>j < i. f (xs ! j) = Less) \<and> (\<forall>j. i \<le> j \<longrightarrow> j < length xs \<longrightarrow> f (xs ! j) = Greater)"
proof (cases "xs = []")
  case True
  then show ?thesis using assms(2) by (simp add: binary_search_by_def)
next
  case False
  define r where "r = halve f xs 0 (length xs)"
  have r: "r < length xs" "\<And>j. r < j \<Longrightarrow> j < length xs \<Longrightarrow> f (xs ! j) = Greater" "r = 0 \<or> f (xs ! r) \<noteq> Greater"
    using halve_range [OF assms(1), of "length xs" 0] False by (auto simp: r_def)
  consider (less) "f (xs ! r) = Less" "i = r + 1" | (greater) "f (xs ! r) = Greater" "i = r"
    using assms(2) False by (auto simp: binary_search_by_def r_def [symmetric] Let_def split: Ordering.splits)
  then show ?thesis
  proof cases
    case less
    have "f (xs ! j) = Less" if "j < i" for j
    proof (cases "j = r")
      case False
      then have "j < r" using that less(2) by simp
      then show ?thesis using assms(1) r(1) less(1) unfolding searchable_def by blast
    qed (use less in simp)
    then show ?thesis using less r by auto
  next
    case greater
    then have "r = 0" using r(3) by simp
    moreover have "f (xs ! j) = Greater" if "j < length xs" for j
      using that greater r(2) [of j] \<open>r = 0\<close> by (cases j) auto
    ultimately show ?thesis using greater r(1) by auto
  qed
qed

lemma binary_search_missing_iff:
  assumes "searchable f xs"
  shows "(\<exists>i. binary_search_by f xs = Inl i) \<longleftrightarrow> (\<forall>x \<in> set xs. f x \<noteq> Equal)"
proof
  assume "\<exists>i. binary_search_by f xs = Inl i"
  then obtain i where "binary_search_by f xs = Inl i" by blast
  from binary_search_missing [OF assms this] have "f (xs ! j) \<noteq> Equal" if "j < length xs" for j
    using that by (cases "j < i") auto
  then show "\<forall>x \<in> set xs. f x \<noteq> Equal" by (auto simp: in_set_conv_nth)
next
  assume "\<forall>x \<in> set xs. f x \<noteq> Equal"
  then show "\<exists>i. binary_search_by f xs = Inl i"
    using binary_search_found [OF assms] by (cases "binary_search_by f xs") force+
qed

end
