(* ===== verification/Policies.thy ===== *)
theory Policies
  imports PacketPiles Times BinarySearch
begin

text \<open>
  Policies (\<open>policy.rs\<close>, \<open>policy/cutofflist.rs\<close>): lists of the times after which algorithms, subpackets and versions of
  packets are rejected, the standard policy with all its settings, the decisions it takes on signatures, keys and packets,
  and the null policy. The times are \<open>Timestamp\<close>s, the current time is an argument. The context that \<open>anyhow\<close> adds to an
  error is text and left out. The decision on a key amalgamation looks only at the key in it.
\<close>

section \<open>Vectors or slices\<close>

datatype 'a VecOrSlice = Vec "'a list" | Slice "'a list"

definition VecOrSlice_empty :: "'a VecOrSlice" where
  "VecOrSlice_empty = Vec []"

definition VecOrSlice_deref :: "'a VecOrSlice \<Rightarrow> 'a list" where
  "VecOrSlice_deref v = (case v of Vec xs \<Rightarrow> xs | Slice xs \<Rightarrow> xs)"

definition VecOrSlice_get :: "'a VecOrSlice \<Rightarrow> nat \<Rightarrow> 'a option" where
  "VecOrSlice_get v i =
     (case v of
        Vec xs \<Rightarrow> if i < length xs then Some (xs ! i) else None
      | Slice xs \<Rightarrow> if i < length xs then Some (xs ! i) else None)"

definition VecOrSlice_len :: "'a VecOrSlice \<Rightarrow> nat" where
  "VecOrSlice_len v = (case v of Vec xs \<Rightarrow> length xs | Slice xs \<Rightarrow> length xs)"

definition VecOrSlice_as_mut :: "'a VecOrSlice \<Rightarrow> 'a list" where
  "VecOrSlice_as_mut v = (case v of Vec xs \<Rightarrow> xs | Slice xs \<Rightarrow> xs)"

definition VecOrSlice_resize :: "'a VecOrSlice \<Rightarrow> nat \<Rightarrow> 'a \<Rightarrow> 'a VecOrSlice" where
  "VecOrSlice_resize v n x = (let xs = VecOrSlice_as_mut v in Vec (take n xs @ replicate (n - length xs) x))"

definition VecOrSlice_index_mut :: "'a VecOrSlice \<Rightarrow> nat \<Rightarrow> 'a \<Rightarrow> 'a VecOrSlice res" where
  "VecOrSlice_index_mut v i x =
     (let xs = VecOrSlice_as_mut v in if i < length xs then Inr (Vec (xs[i := x])) else Inl Panic)"

section \<open>Cutoff lists\<close>

record CutoffList =
  cutoffs :: "u32 option VecOrSlice"

definition UNIX_EPOCH :: u32 where "UNIX_EPOCH = 0"
definition TIMESTAMP_MAX :: u32 where "TIMESTAMP_MAX = - 1"

definition REJECT :: "u32 option" where "REJECT = Some UNIX_EPOCH"
definition ACCEPT :: "u32 option" where "ACCEPT = None"
definition DEFAULT_POLICY :: "u32 option" where "DEFAULT_POLICY = REJECT"

definition CutoffList_reject_all :: CutoffList where
  "CutoffList_reject_all = \<lparr>cutoffs = VecOrSlice_empty\<rparr>"

text \<open>\<open>code\<close> is the conversion of the algorithms into octets.\<close>

definition CutoffList_set :: "('a \<Rightarrow> u8) \<Rightarrow> 'a \<Rightarrow> u32 option \<Rightarrow> CutoffList \<Rightarrow> CutoffList res" where
  "CutoffList_set code a cutoff l =
     (let i = unat (code a);
          v = (if VecOrSlice_len (cutoffs l) \<le> i then VecOrSlice_resize (cutoffs l) (i + 1) DEFAULT_POLICY else cutoffs l) in
      and_then (VecOrSlice_index_mut v i cutoff) (\<lambda>v. Inr (l\<lparr>cutoffs := v\<rparr>)))"

definition CutoffList_cutoff :: "('a \<Rightarrow> u8) \<Rightarrow> CutoffList \<Rightarrow> 'a \<Rightarrow> u32 option" where
  "CutoffList_cutoff code l a = (case VecOrSlice_get (cutoffs l) (unat (code a)) of Some c \<Rightarrow> c | None \<Rightarrow> DEFAULT_POLICY)"

text \<open>The comparison both kinds of list make, with the tolerance added to the cutoff.\<close>

definition check_cutoff :: "u32 option \<Rightarrow> u32 \<Rightarrow> u32 option \<Rightarrow> unit res" where
  "check_cutoff cutoff time tolerance =
     (case cutoff of
        None \<Rightarrow> Inr ()
      | Some c \<Rightarrow>
          (let c = (case Timestamp_checked_add c (case tolerance of Some d \<Rightarrow> d | None \<Rightarrow> 0) of Some t \<Rightarrow> t | None \<Rightarrow> TIMESTAMP_MAX) in
           if c \<le> time then Inl (Err (PolicyViolation (Some (SystemTime_from c)))) else Inr ()))"

definition CutoffList_check :: "('a \<Rightarrow> u8) \<Rightarrow> CutoffList \<Rightarrow> 'a \<Rightarrow> u32 \<Rightarrow> u32 option \<Rightarrow> unit res" where
  "CutoffList_check code l a time tolerance = check_cutoff (CutoffList_cutoff code l a) time tolerance"

text \<open>The lists that the macro makes: the defaults, or a list of one's own.\<close>

datatype 'l DefaultOr = Default | Custom 'l

definition list_force :: "u32 option list \<Rightarrow> CutoffList DefaultOr \<Rightarrow> CutoffList" where
  "list_force defaults l = (case l of Default \<Rightarrow> \<lparr>cutoffs = Vec defaults\<rparr> | Custom l \<Rightarrow> l)"

definition list_set :: "('a \<Rightarrow> u8) \<Rightarrow> u32 option list \<Rightarrow> 'a \<Rightarrow> u32 option \<Rightarrow> CutoffList DefaultOr \<Rightarrow> CutoffList DefaultOr res" where
  "list_set code defaults a cutoff l = and_then (CutoffList_set code a cutoff (list_force defaults l)) (\<lambda>l. Inr (Custom l))"

definition list_reject_all :: "CutoffList DefaultOr" where
  "list_reject_all = Custom CutoffList_reject_all"

definition list_cutoff :: "('a \<Rightarrow> u8) \<Rightarrow> u32 option list \<Rightarrow> CutoffList DefaultOr \<Rightarrow> 'a \<Rightarrow> u32 option" where
  "list_cutoff code defaults l a =
     (case l of
        Default \<Rightarrow>
          (let i = unat (code a) in if length defaults \<le> i then DEFAULT_POLICY else defaults ! i)
      | Custom l \<Rightarrow> CutoffList_cutoff code l a)"

definition list_check :: "('a \<Rightarrow> u8) \<Rightarrow> u32 option list \<Rightarrow> CutoffList DefaultOr \<Rightarrow> 'a \<Rightarrow> u32 \<Rightarrow> u32 option \<Rightarrow> unit res" where
  "list_check code defaults l a time d =
     (case l of
        Default \<Rightarrow> CutoffList_check code \<lparr>cutoffs = Slice defaults\<rparr> a time d
      | Custom l \<Rightarrow> CutoffList_check code l a time d)"

section \<open>Cutoff lists with versions\<close>

record VersionedCutoffList =
  unversioned_cutoffs :: "u32 option VecOrSlice"
  versioned_cutoffs :: "(Tag \<times> u8 \<times> u32 option) VecOrSlice"

definition VersionedCutoffList_reject_all :: VersionedCutoffList where
  "VersionedCutoffList_reject_all = \<lparr>unversioned_cutoffs = VecOrSlice_empty, versioned_cutoffs = VecOrSlice_empty\<rparr>"

text \<open>Tags are compared by their octets, then versions.\<close>

definition version_less :: "Tag \<times> u8 \<Rightarrow> Tag \<times> u8 \<Rightarrow> bool" where
  "version_less x y \<longleftrightarrow>
     u8_from_Tag (fst x) < u8_from_Tag (fst y) \<or> u8_from_Tag (fst x) = u8_from_Tag (fst y) \<and> snd x < snd y"

fun windows_sorted :: "(Tag \<times> u8 \<times> u32 option) list \<Rightarrow> bool" where
  "windows_sorted (x # y # xs) \<longleftrightarrow> version_less (fst x, fst (snd x)) (fst y, fst (snd y)) \<and> windows_sorted (y # xs)"
| "windows_sorted _ \<longleftrightarrow> True"

text \<open>
  The check is compiled into builds with debug assertions only. It is modelled as always there; on the lists that a policy can
  have it never fails (\<open>tags_sorted\<close> below), so that the other builds behave the same.
\<close>

definition assert_sorted :: "VersionedCutoffList \<Rightarrow> unit res" where
  "assert_sorted l = (if windows_sorted (VecOrSlice_deref (versioned_cutoffs l)) then Inr () else Inl Panic)"

definition version_search :: "Tag \<Rightarrow> u8 \<Rightarrow> (Tag \<times> u8 \<times> u32 option) list \<Rightarrow> nat + nat" where
  "version_search algo version xs =
     binary_search_by (\<lambda>(a, v, _). Ordering_reverse (cmp_then (cmp (u8_from_Tag algo) (u8_from_Tag a)) (cmp version v))) xs"

definition VersionedCutoffList_set_versioned :: "Tag \<Rightarrow> u8 \<Rightarrow> u32 option \<Rightarrow> VersionedCutoffList \<Rightarrow> VersionedCutoffList res" where
  "VersionedCutoffList_set_versioned algo version cutoff l =
     and_then (assert_sorted l) (\<lambda>_.
       let xs = VecOrSlice_as_mut (versioned_cutoffs l);
           xs = (case version_search algo version xs of
                   Inr i \<Rightarrow> xs[i := (algo, version, cutoff)]
                 | Inl i \<Rightarrow> take i xs @ (algo, version, cutoff) # drop i xs);
           l = l\<lparr>versioned_cutoffs := Vec xs\<rparr> in
       and_then (assert_sorted l) (\<lambda>_. Inr l))"

definition VersionedCutoffList_set_unversioned :: "Tag \<Rightarrow> u32 option \<Rightarrow> VersionedCutoffList \<Rightarrow> VersionedCutoffList res" where
  "VersionedCutoffList_set_unversioned algo cutoff l =
     (let i = unat (u8_from_Tag algo);
          v = (if VecOrSlice_len (unversioned_cutoffs l) \<le> i then VecOrSlice_resize (unversioned_cutoffs l) (i + 1) DEFAULT_POLICY
               else unversioned_cutoffs l) in
      and_then (VecOrSlice_index_mut v i cutoff) (\<lambda>v. Inr (l\<lparr>unversioned_cutoffs := v\<rparr>)))"

definition VersionedCutoffList_cutoff :: "VersionedCutoffList \<Rightarrow> Tag \<Rightarrow> u8 \<Rightarrow> u32 option res" where
  "VersionedCutoffList_cutoff l algo version =
     and_then (assert_sorted l) (\<lambda>_.
       let xs = VecOrSlice_deref (versioned_cutoffs l) in
       case version_search algo version xs of
         Inr i \<Rightarrow> Inr (snd (snd (xs ! i)))
       | Inl _ \<Rightarrow> Inr (case VecOrSlice_get (unversioned_cutoffs l) (unat (u8_from_Tag algo)) of Some c \<Rightarrow> c | None \<Rightarrow> DEFAULT_POLICY))"

definition VersionedCutoffList_check :: "VersionedCutoffList \<Rightarrow> Tag \<Rightarrow> u8 \<Rightarrow> u32 \<Rightarrow> u32 option \<Rightarrow> unit res" where
  "VersionedCutoffList_check l algo version time tolerance =
     and_then (VersionedCutoffList_cutoff l algo version) (\<lambda>cutoff. check_cutoff cutoff time tolerance)"

section \<open>The defaults\<close>

text \<open>The first of February of the years from 1970 to 2106, in seconds since the epoch.\<close>

definition FEBRUARY :: "u32 list" where
  "FEBRUARY =
     [2678400, 34214400, 65750400, 97372800, 128908800, 160444800, 191980800, 223603200, 255139200, 286675200,
      318211200, 349833600, 381369600, 412905600, 444441600, 476064000, 507600000, 539136000, 570672000, 602294400,
      633830400, 665366400, 696902400, 728524800, 760060800, 791596800, 823132800, 854755200, 886291200, 917827200,
      949363200, 980985600, 1012521600, 1044057600, 1075593600, 1107216000, 1138752000, 1170288000, 1201824000, 1233446400,
      1264982400, 1296518400, 1328054400, 1359676800, 1391212800, 1422748800, 1454284800, 1485907200, 1517443200, 1548979200,
      1580515200, 1612137600, 1643673600, 1675209600, 1706745600, 1738368000, 1769904000, 1801440000, 1832976000, 1864598400,
      1896134400, 1927670400, 1959206400, 1990828800, 2022364800, 2053900800, 2085436800, 2117059200, 2148595200, 2180131200,
      2211667200, 2243289600, 2274825600, 2306361600, 2337897600, 2369520000, 2401056000, 2432592000, 2464128000, 2495750400,
      2527286400, 2558822400, 2590358400, 2621980800, 2653516800, 2685052800, 2716588800, 2748211200, 2779747200, 2811283200,
      2842819200, 2874441600, 2905977600, 2937513600, 2969049600, 3000672000, 3032208000, 3063744000, 3095280000, 3126902400,
      3158438400, 3189974400, 3221510400, 3253132800, 3284668800, 3316204800, 3347740800, 3379363200, 3410899200, 3442435200,
      3473971200, 3505593600, 3537129600, 3568665600, 3600201600, 3631824000, 3663360000, 3694896000, 3726432000, 3758054400,
      3789590400, 3821126400, 3852662400, 3884284800, 3915820800, 3947356800, 3978892800, 4010515200, 4042051200, 4073587200,
      4105123200, 4136659200, 4168195200, 4199731200, 4231267200, 4262889600, 4294425600]"

definition Y1997M2 :: u32 where "Y1997M2 = 854755200"
definition Y2004M2 :: u32 where "Y2004M2 = 1075593600"
definition Y2013M2 :: u32 where "Y2013M2 = 1359676800"
definition Y2014M2 :: u32 where "Y2014M2 = 1391212800"
definition Y2017M2 :: u32 where "Y2017M2 = 1485907200"
definition Y2021M2 :: u32 where "Y2021M2 = 1612137600"
definition Y2023M2 :: u32 where "Y2023M2 = 1675209600"
definition Y2025M2 :: u32 where "Y2025M2 = 1738368000"
definition Y2030M2 :: u32 where "Y2030M2 = 1896134400"

definition CollisionResistantHash_defaults :: "u32 option list" where
  "CollisionResistantHash_defaults =
     [REJECT, Some Y1997M2, Some Y2013M2, Some Y2013M2, REJECT, REJECT,
       REJECT, REJECT, ACCEPT, ACCEPT, ACCEPT, ACCEPT,
       ACCEPT, REJECT, ACCEPT]"

definition SecondPreImageResistantHash_defaults :: "u32 option list" where
  "SecondPreImageResistantHash_defaults =
     [REJECT, Some Y2004M2, Some Y2023M2, Some Y2013M2, REJECT, REJECT,
       REJECT, REJECT, ACCEPT, ACCEPT, ACCEPT, ACCEPT,
       ACCEPT, REJECT, ACCEPT]"

definition SubpacketTag_defaults :: "u32 option list" where
  "SubpacketTag_defaults =
     [REJECT, REJECT, ACCEPT, ACCEPT, ACCEPT, ACCEPT,
       ACCEPT, ACCEPT, REJECT, ACCEPT, REJECT, ACCEPT,
       ACCEPT, REJECT, REJECT, REJECT, ACCEPT, REJECT,
       REJECT, REJECT, ACCEPT, ACCEPT, ACCEPT, ACCEPT,
       ACCEPT, ACCEPT, ACCEPT, ACCEPT, ACCEPT, ACCEPT,
       ACCEPT, REJECT, ACCEPT, ACCEPT, REJECT, ACCEPT,
       REJECT, ACCEPT, REJECT, ACCEPT]"

definition AsymmetricAlgorithm_defaults :: "u32 option list" where
  "AsymmetricAlgorithm_defaults =
     [Some Y2014M2, ACCEPT, ACCEPT, ACCEPT, Some Y2014M2, Some Y2025M2,
       Some Y2025M2, Some Y2025M2, Some Y2014M2, Some Y2030M2, Some Y2030M2, Some Y2030M2,
       ACCEPT, ACCEPT, ACCEPT, ACCEPT, ACCEPT, ACCEPT,
       ACCEPT, ACCEPT, ACCEPT, ACCEPT, ACCEPT, ACCEPT,
       ACCEPT, ACCEPT, ACCEPT, ACCEPT, ACCEPT, ACCEPT]"

definition SymmetricAlgorithm_defaults :: "u32 option list" where
  "SymmetricAlgorithm_defaults =
     [REJECT, Some Y2025M2, Some Y2017M2, Some Y2025M2, ACCEPT, REJECT,
       REJECT, ACCEPT, ACCEPT, ACCEPT, ACCEPT, ACCEPT,
       ACCEPT, ACCEPT]"

definition AEADAlgorithm_defaults :: "u32 option list" where
  "AEADAlgorithm_defaults =
     [REJECT, ACCEPT, ACCEPT, ACCEPT]"

definition PacketTag_defaults :: VersionedCutoffList where
  "PacketTag_defaults =
     \<lparr>unversioned_cutoffs = Slice
        [REJECT, ACCEPT, ACCEPT, ACCEPT, ACCEPT, ACCEPT,
         ACCEPT, ACCEPT, ACCEPT, Some Y2004M2, ACCEPT, ACCEPT,
         ACCEPT, ACCEPT, ACCEPT, REJECT, REJECT, ACCEPT,
         ACCEPT, ACCEPT, REJECT, ACCEPT],
      versioned_cutoffs = Slice [(Tag.Signature, 3, Some Y2021M2), (Tag.Signature, 5, REJECT)]\<rparr>"

text \<open>The list of packet tags that the macro makes.\<close>

definition tags_force :: "VersionedCutoffList DefaultOr \<Rightarrow> VersionedCutoffList" where
  "tags_force l = (case l of Default \<Rightarrow> PacketTag_defaults | Custom l \<Rightarrow> l)"

definition tags_set_versioned :: "Tag \<Rightarrow> u8 \<Rightarrow> u32 option \<Rightarrow> VersionedCutoffList DefaultOr \<Rightarrow> VersionedCutoffList DefaultOr res" where
  "tags_set_versioned algo version cutoff l =
     and_then (VersionedCutoffList_set_versioned algo version cutoff (tags_force l)) (\<lambda>l. Inr (Custom l))"

definition tags_set_unversioned :: "Tag \<Rightarrow> u32 option \<Rightarrow> VersionedCutoffList DefaultOr \<Rightarrow> VersionedCutoffList DefaultOr res" where
  "tags_set_unversioned algo cutoff l =
     (let l = tags_force l;
          l = l\<lparr>versioned_cutoffs := Vec (filter (\<lambda>(a, _, _). \<not> tag_eq algo a) (VecOrSlice_as_mut (versioned_cutoffs l)))\<rparr> in
      and_then (VersionedCutoffList_set_unversioned algo cutoff l) (\<lambda>l. Inr (Custom l)))"

definition tags_reject_all :: "VersionedCutoffList DefaultOr" where
  "tags_reject_all = Custom VersionedCutoffList_reject_all"

definition tags_cutoff :: "VersionedCutoffList DefaultOr \<Rightarrow> Tag \<Rightarrow> u8 \<Rightarrow> u32 option res" where
  "tags_cutoff l algo version =
     VersionedCutoffList_cutoff (case l of Custom l \<Rightarrow> l | Default \<Rightarrow> PacketTag_defaults) algo version"

definition tags_check :: "VersionedCutoffList DefaultOr \<Rightarrow> Tag \<Rightarrow> u8 \<Rightarrow> u32 \<Rightarrow> u32 option \<Rightarrow> unit res" where
  "tags_check l algo version time d =
     VersionedCutoffList_check (case l of Custom l \<Rightarrow> l | Default \<Rightarrow> PacketTag_defaults) algo version time d"

section \<open>Asymmetric algorithms\<close>

datatype AsymmetricAlgorithm =
    RSA1024
  | RSA2048
  | RSA3072
  | RSA4096
  | ElGamal1024
  | ElGamal2048
  | ElGamal3072
  | ElGamal4096
  | DSA1024
  | DSA2048
  | DSA3072
  | DSA4096
  | NistP256
  | NistP384
  | NistP521
  | BrainpoolP256
  | BrainpoolP384
  | BrainpoolP512
  | Cv25519
  | X25519
  | X448
  | Ed25519
  | Ed448
  | MLDSA65_Ed25519
  | MLDSA87_Ed448
  | SLHDSA128s
  | SLHDSA128f
  | SLHDSA256s
  | MLKEM768_X25519
  | MLKEM1024_X448
  | Unknown

definition AsymmetricAlgorithm_variants :: "AsymmetricAlgorithm list" where
  "AsymmetricAlgorithm_variants =
     [AsymmetricAlgorithm.RSA1024, AsymmetricAlgorithm.RSA2048, AsymmetricAlgorithm.RSA3072, AsymmetricAlgorithm.RSA4096,
      AsymmetricAlgorithm.ElGamal1024, AsymmetricAlgorithm.ElGamal2048, AsymmetricAlgorithm.ElGamal3072, AsymmetricAlgorithm.ElGamal4096,
      AsymmetricAlgorithm.DSA1024, AsymmetricAlgorithm.DSA2048, AsymmetricAlgorithm.DSA3072, AsymmetricAlgorithm.DSA4096,
      AsymmetricAlgorithm.NistP256, AsymmetricAlgorithm.NistP384, AsymmetricAlgorithm.NistP521, AsymmetricAlgorithm.BrainpoolP256,
      AsymmetricAlgorithm.BrainpoolP384, AsymmetricAlgorithm.BrainpoolP512, AsymmetricAlgorithm.Cv25519, AsymmetricAlgorithm.X25519,
      AsymmetricAlgorithm.X448, AsymmetricAlgorithm.Ed25519, AsymmetricAlgorithm.Ed448, AsymmetricAlgorithm.MLDSA65_Ed25519,
      AsymmetricAlgorithm.MLDSA87_Ed448, AsymmetricAlgorithm.SLHDSA128s, AsymmetricAlgorithm.SLHDSA128f, AsymmetricAlgorithm.SLHDSA256s,
      AsymmetricAlgorithm.MLKEM768_X25519, AsymmetricAlgorithm.MLKEM1024_X448]"

definition u8_from_AsymmetricAlgorithm :: "AsymmetricAlgorithm \<Rightarrow> u8" where
  "u8_from_AsymmetricAlgorithm a =
     (case a of
        AsymmetricAlgorithm.RSA1024 \<Rightarrow> 0
      | AsymmetricAlgorithm.RSA2048 \<Rightarrow> 1
      | AsymmetricAlgorithm.RSA3072 \<Rightarrow> 2
      | AsymmetricAlgorithm.RSA4096 \<Rightarrow> 3
      | AsymmetricAlgorithm.ElGamal1024 \<Rightarrow> 4
      | AsymmetricAlgorithm.ElGamal2048 \<Rightarrow> 5
      | AsymmetricAlgorithm.ElGamal3072 \<Rightarrow> 6
      | AsymmetricAlgorithm.ElGamal4096 \<Rightarrow> 7
      | AsymmetricAlgorithm.DSA1024 \<Rightarrow> 8
      | AsymmetricAlgorithm.DSA2048 \<Rightarrow> 9
      | AsymmetricAlgorithm.DSA3072 \<Rightarrow> 10
      | AsymmetricAlgorithm.DSA4096 \<Rightarrow> 11
      | AsymmetricAlgorithm.NistP256 \<Rightarrow> 12
      | AsymmetricAlgorithm.NistP384 \<Rightarrow> 13
      | AsymmetricAlgorithm.NistP521 \<Rightarrow> 14
      | AsymmetricAlgorithm.BrainpoolP256 \<Rightarrow> 15
      | AsymmetricAlgorithm.BrainpoolP384 \<Rightarrow> 16
      | AsymmetricAlgorithm.BrainpoolP512 \<Rightarrow> 17
      | AsymmetricAlgorithm.Cv25519 \<Rightarrow> 18
      | AsymmetricAlgorithm.X25519 \<Rightarrow> 19
      | AsymmetricAlgorithm.X448 \<Rightarrow> 20
      | AsymmetricAlgorithm.Ed25519 \<Rightarrow> 21
      | AsymmetricAlgorithm.Ed448 \<Rightarrow> 22
      | AsymmetricAlgorithm.MLDSA65_Ed25519 \<Rightarrow> 23
      | AsymmetricAlgorithm.MLDSA87_Ed448 \<Rightarrow> 24
      | AsymmetricAlgorithm.SLHDSA128s \<Rightarrow> 25
      | AsymmetricAlgorithm.SLHDSA128f \<Rightarrow> 26
      | AsymmetricAlgorithm.SLHDSA256s \<Rightarrow> 27
      | AsymmetricAlgorithm.MLKEM768_X25519 \<Rightarrow> 28
      | AsymmetricAlgorithm.MLKEM1024_X448 \<Rightarrow> 29
      | AsymmetricAlgorithm.Unknown \<Rightarrow> 255)"

section \<open>The standard policy\<close>

datatype HashAlgoSecurity = SecondPreImageResistance | CollisionResistance

definition HashAlgoSecurity_default :: HashAlgoSecurity where
  "HashAlgoSecurity_default = CollisionResistance"

record StandardPolicy =
  pol_time :: "u32 option"
  pol_collision_resistant_hash_algos :: "CutoffList DefaultOr"
  pol_second_pre_image_resistant_hash_algos :: "CutoffList DefaultOr"
  pol_hash_revocation_tolerance :: u32
  pol_critical_subpackets :: "CutoffList DefaultOr"
  pol_good_critical_notations :: "bytes list"
  pol_packet_tags :: "VersionedCutoffList DefaultOr"
  pol_symmetric_algos :: "CutoffList DefaultOr"
  pol_aead_algos :: "CutoffList DefaultOr"
  pol_asymmetric_algos :: "CutoffList DefaultOr"

definition system_time_cutoff_to_timestamp :: "SystemTime \<Rightarrow> u32 option" where
  "system_time_cutoff_to_timestamp t =
     (let t = as_secs (if 0 \<le> t then t else 0) in if t > 0xFFFFFFFF then None else Some (word_of_int t))"

definition StandardPolicy_new :: StandardPolicy where
  "StandardPolicy_new =
     \<lparr>pol_time = None, pol_collision_resistant_hash_algos = Default, pol_second_pre_image_resistant_hash_algos = Default,
      pol_hash_revocation_tolerance = (7 * 365 + 2) * 24 * 60 * 60, pol_critical_subpackets = Default,
      pol_good_critical_notations = [], pol_packet_tags = Default, pol_symmetric_algos = Default, pol_aead_algos = Default,
      pol_asymmetric_algos = Default\<rparr>"

definition StandardPolicy_at :: "SystemTime \<Rightarrow> StandardPolicy" where
  "StandardPolicy_at time =
     StandardPolicy_new\<lparr>pol_time := Some (case system_time_cutoff_to_timestamp time of Some t \<Rightarrow> t | None \<Rightarrow> TIMESTAMP_MAX)\<rparr>"

definition StandardPolicy_time :: "StandardPolicy \<Rightarrow> SystemTime option" where
  "StandardPolicy_time p = map_option SystemTime_from (pol_time p)"

text \<open>A cutoff that a caller gives, \<open>None\<close> for none.\<close>

definition cutoff_at :: "SystemTime option \<Rightarrow> u32 option" where
  "cutoff_at t = Option.bind t system_time_cutoff_to_timestamp"

subsection \<open>Hash algorithms\<close>

definition set_collision_resistant :: "HashAlgorithm \<Rightarrow> u32 option \<Rightarrow> StandardPolicy \<Rightarrow> StandardPolicy res" where
  "set_collision_resistant h c p =
     and_then (list_set u8_from_HashAlgorithm CollisionResistantHash_defaults h c (pol_collision_resistant_hash_algos p)) (\<lambda>l.
       Inr (p\<lparr>pol_collision_resistant_hash_algos := l\<rparr>))"

definition set_second_pre_image_resistant :: "HashAlgorithm \<Rightarrow> u32 option \<Rightarrow> StandardPolicy \<Rightarrow> StandardPolicy res" where
  "set_second_pre_image_resistant h c p =
     and_then (list_set u8_from_HashAlgorithm SecondPreImageResistantHash_defaults h c (pol_second_pre_image_resistant_hash_algos p))
       (\<lambda>l. Inr (p\<lparr>pol_second_pre_image_resistant_hash_algos := l\<rparr>))"

definition reject_hash_property_at :: "HashAlgorithm \<Rightarrow> HashAlgoSecurity \<Rightarrow> SystemTime option \<Rightarrow> StandardPolicy \<Rightarrow> StandardPolicy res" where
  "reject_hash_property_at h sec t p =
     (case sec of
        CollisionResistance \<Rightarrow> set_collision_resistant h (cutoff_at t) p
      | SecondPreImageResistance \<Rightarrow> set_second_pre_image_resistant h (cutoff_at t) p)"

definition accept_hash_property :: "HashAlgorithm \<Rightarrow> HashAlgoSecurity \<Rightarrow> StandardPolicy \<Rightarrow> StandardPolicy res" where
  "accept_hash_property h sec p = reject_hash_property_at h sec None p"

definition accept_hash :: "HashAlgorithm \<Rightarrow> StandardPolicy \<Rightarrow> StandardPolicy res" where
  "accept_hash h p =
     and_then (accept_hash_property h CollisionResistance p) (accept_hash_property h SecondPreImageResistance)"

definition reject_hash :: "HashAlgorithm \<Rightarrow> StandardPolicy \<Rightarrow> StandardPolicy res" where
  "reject_hash h p = and_then (set_collision_resistant h REJECT p) (set_second_pre_image_resistant h REJECT)"

definition reject_all_hashes :: "StandardPolicy \<Rightarrow> StandardPolicy" where
  "reject_all_hashes p =
     p\<lparr>pol_collision_resistant_hash_algos := list_reject_all, pol_second_pre_image_resistant_hash_algos := list_reject_all\<rparr>"

definition reject_hash_at :: "HashAlgorithm \<Rightarrow> SystemTime option \<Rightarrow> StandardPolicy \<Rightarrow> StandardPolicy res" where
  "reject_hash_at h t p =
     and_then (set_collision_resistant h (cutoff_at t) p) (set_second_pre_image_resistant h (cutoff_at t))"

definition hash_cutoff :: "StandardPolicy \<Rightarrow> HashAlgorithm \<Rightarrow> HashAlgoSecurity \<Rightarrow> SystemTime option" where
  "hash_cutoff p h sec =
     map_option SystemTime_from
       (case sec of
          CollisionResistance \<Rightarrow> list_cutoff u8_from_HashAlgorithm CollisionResistantHash_defaults (pol_collision_resistant_hash_algos p) h
        | SecondPreImageResistance \<Rightarrow>
            list_cutoff u8_from_HashAlgorithm SecondPreImageResistantHash_defaults (pol_second_pre_image_resistant_hash_algos p) h)"

definition hash_revocation_tolerance :: "u32 \<Rightarrow> StandardPolicy \<Rightarrow> StandardPolicy" where
  "hash_revocation_tolerance d p = p\<lparr>pol_hash_revocation_tolerance := d\<rparr>"

definition get_hash_revocation_tolerance :: "StandardPolicy \<Rightarrow> u32" where
  "get_hash_revocation_tolerance p = pol_hash_revocation_tolerance p"

subsection \<open>Critical subpackets\<close>

definition set_critical_subpacket :: "SubpacketTag \<Rightarrow> u32 option \<Rightarrow> StandardPolicy \<Rightarrow> StandardPolicy res" where
  "set_critical_subpacket a c p = and_then (list_set u8_from_SubpacketTag SubpacketTag_defaults a c (pol_critical_subpackets p)) (\<lambda>l. Inr (p\<lparr>pol_critical_subpackets := l\<rparr>))"

definition accept_critical_subpacket :: "SubpacketTag \<Rightarrow> StandardPolicy \<Rightarrow> StandardPolicy res" where
  "accept_critical_subpacket a p = set_critical_subpacket a ACCEPT p"

definition reject_critical_subpacket :: "SubpacketTag \<Rightarrow> StandardPolicy \<Rightarrow> StandardPolicy res" where
  "reject_critical_subpacket a p = set_critical_subpacket a REJECT p"

definition reject_all_critical_subpackets :: "StandardPolicy \<Rightarrow> StandardPolicy" where
  "reject_all_critical_subpackets p = p\<lparr>pol_critical_subpackets := list_reject_all\<rparr>"

definition reject_critical_subpacket_at :: "SubpacketTag \<Rightarrow> SystemTime option \<Rightarrow> StandardPolicy \<Rightarrow> StandardPolicy res" where
  "reject_critical_subpacket_at a t p = set_critical_subpacket a (cutoff_at t) p"

definition critical_subpacket_cutoff :: "StandardPolicy \<Rightarrow> SubpacketTag \<Rightarrow> SystemTime option" where
  "critical_subpacket_cutoff p a = map_option SystemTime_from (list_cutoff u8_from_SubpacketTag SubpacketTag_defaults (pol_critical_subpackets p) a)"

definition good_critical_notations :: "bytes list \<Rightarrow> StandardPolicy \<Rightarrow> StandardPolicy" where
  "good_critical_notations good_list p = p\<lparr>pol_good_critical_notations := good_list\<rparr>"

subsection \<open>Asymmetric algorithms\<close>

definition set_asymmetric_algo :: "AsymmetricAlgorithm \<Rightarrow> u32 option \<Rightarrow> StandardPolicy \<Rightarrow> StandardPolicy res" where
  "set_asymmetric_algo a c p = and_then (list_set u8_from_AsymmetricAlgorithm AsymmetricAlgorithm_defaults a c (pol_asymmetric_algos p)) (\<lambda>l. Inr (p\<lparr>pol_asymmetric_algos := l\<rparr>))"

definition accept_asymmetric_algo :: "AsymmetricAlgorithm \<Rightarrow> StandardPolicy \<Rightarrow> StandardPolicy res" where
  "accept_asymmetric_algo a p = set_asymmetric_algo a ACCEPT p"

definition reject_asymmetric_algo :: "AsymmetricAlgorithm \<Rightarrow> StandardPolicy \<Rightarrow> StandardPolicy res" where
  "reject_asymmetric_algo a p = set_asymmetric_algo a REJECT p"

definition reject_all_asymmetric_algos :: "StandardPolicy \<Rightarrow> StandardPolicy" where
  "reject_all_asymmetric_algos p = p\<lparr>pol_asymmetric_algos := list_reject_all\<rparr>"

definition reject_asymmetric_algo_at :: "AsymmetricAlgorithm \<Rightarrow> SystemTime option \<Rightarrow> StandardPolicy \<Rightarrow> StandardPolicy res" where
  "reject_asymmetric_algo_at a t p = set_asymmetric_algo a (cutoff_at t) p"

definition asymmetric_algo_cutoff :: "StandardPolicy \<Rightarrow> AsymmetricAlgorithm \<Rightarrow> SystemTime option" where
  "asymmetric_algo_cutoff p a = map_option SystemTime_from (list_cutoff u8_from_AsymmetricAlgorithm AsymmetricAlgorithm_defaults (pol_asymmetric_algos p) a)"

subsection \<open>Symmetric algorithms\<close>

definition set_symmetric_algo :: "SymmetricAlgorithm \<Rightarrow> u32 option \<Rightarrow> StandardPolicy \<Rightarrow> StandardPolicy res" where
  "set_symmetric_algo a c p = and_then (list_set u8_from_SymmetricAlgorithm SymmetricAlgorithm_defaults a c (pol_symmetric_algos p)) (\<lambda>l. Inr (p\<lparr>pol_symmetric_algos := l\<rparr>))"

definition accept_symmetric_algo :: "SymmetricAlgorithm \<Rightarrow> StandardPolicy \<Rightarrow> StandardPolicy res" where
  "accept_symmetric_algo a p = set_symmetric_algo a ACCEPT p"

definition reject_symmetric_algo :: "SymmetricAlgorithm \<Rightarrow> StandardPolicy \<Rightarrow> StandardPolicy res" where
  "reject_symmetric_algo a p = set_symmetric_algo a REJECT p"

definition reject_all_symmetric_algos :: "StandardPolicy \<Rightarrow> StandardPolicy" where
  "reject_all_symmetric_algos p = p\<lparr>pol_symmetric_algos := list_reject_all\<rparr>"

definition reject_symmetric_algo_at :: "SymmetricAlgorithm \<Rightarrow> SystemTime option \<Rightarrow> StandardPolicy \<Rightarrow> StandardPolicy res" where
  "reject_symmetric_algo_at a t p = set_symmetric_algo a (cutoff_at t) p"

definition symmetric_algo_cutoff :: "StandardPolicy \<Rightarrow> SymmetricAlgorithm \<Rightarrow> SystemTime option" where
  "symmetric_algo_cutoff p a = map_option SystemTime_from (list_cutoff u8_from_SymmetricAlgorithm SymmetricAlgorithm_defaults (pol_symmetric_algos p) a)"

subsection \<open>Authenticated encryption\<close>

definition set_aead_algo :: "AEADAlgorithm \<Rightarrow> u32 option \<Rightarrow> StandardPolicy \<Rightarrow> StandardPolicy res" where
  "set_aead_algo a c p = and_then (list_set u8_from_AEADAlgorithm AEADAlgorithm_defaults a c (pol_aead_algos p)) (\<lambda>l. Inr (p\<lparr>pol_aead_algos := l\<rparr>))"

definition accept_aead_algo :: "AEADAlgorithm \<Rightarrow> StandardPolicy \<Rightarrow> StandardPolicy res" where
  "accept_aead_algo a p = set_aead_algo a ACCEPT p"

definition reject_aead_algo :: "AEADAlgorithm \<Rightarrow> StandardPolicy \<Rightarrow> StandardPolicy res" where
  "reject_aead_algo a p = set_aead_algo a REJECT p"

definition reject_all_aead_algos :: "StandardPolicy \<Rightarrow> StandardPolicy" where
  "reject_all_aead_algos p = p\<lparr>pol_aead_algos := list_reject_all\<rparr>"

definition reject_aead_algo_at :: "AEADAlgorithm \<Rightarrow> SystemTime option \<Rightarrow> StandardPolicy \<Rightarrow> StandardPolicy res" where
  "reject_aead_algo_at a t p = set_aead_algo a (cutoff_at t) p"

definition aead_algo_cutoff :: "StandardPolicy \<Rightarrow> AEADAlgorithm \<Rightarrow> SystemTime option" where
  "aead_algo_cutoff p a = map_option SystemTime_from (list_cutoff u8_from_AEADAlgorithm AEADAlgorithm_defaults (pol_aead_algos p) a)"

subsection \<open>Packets\<close>

definition set_packet_tag_version :: "Tag \<Rightarrow> u8 \<Rightarrow> u32 option \<Rightarrow> StandardPolicy \<Rightarrow> StandardPolicy res" where
  "set_packet_tag_version tag version c p =
     and_then (tags_set_versioned tag version c (pol_packet_tags p)) (\<lambda>l. Inr (p\<lparr>pol_packet_tags := l\<rparr>))"

definition set_packet_tag :: "Tag \<Rightarrow> u32 option \<Rightarrow> StandardPolicy \<Rightarrow> StandardPolicy res" where
  "set_packet_tag tag c p = and_then (tags_set_unversioned tag c (pol_packet_tags p)) (\<lambda>l. Inr (p\<lparr>pol_packet_tags := l\<rparr>))"

definition accept_packet_tag_version :: "Tag \<Rightarrow> u8 \<Rightarrow> StandardPolicy \<Rightarrow> StandardPolicy res" where
  "accept_packet_tag_version tag version p = set_packet_tag_version tag version ACCEPT p"

definition accept_packet_tag :: "Tag \<Rightarrow> StandardPolicy \<Rightarrow> StandardPolicy res" where
  "accept_packet_tag tag p = set_packet_tag tag ACCEPT p"

definition reject_packet_tag_version :: "Tag \<Rightarrow> u8 \<Rightarrow> StandardPolicy \<Rightarrow> StandardPolicy res" where
  "reject_packet_tag_version tag version p = set_packet_tag_version tag version REJECT p"

definition reject_packet_tag :: "Tag \<Rightarrow> StandardPolicy \<Rightarrow> StandardPolicy res" where
  "reject_packet_tag tag p = set_packet_tag tag REJECT p"

definition reject_all_packet_tags :: "StandardPolicy \<Rightarrow> StandardPolicy" where
  "reject_all_packet_tags p = p\<lparr>pol_packet_tags := tags_reject_all\<rparr>"

definition reject_packet_tag_version_at :: "Tag \<Rightarrow> u8 \<Rightarrow> SystemTime option \<Rightarrow> StandardPolicy \<Rightarrow> StandardPolicy res" where
  "reject_packet_tag_version_at tag version t p = set_packet_tag_version tag version (cutoff_at t) p"

definition reject_packet_tag_at :: "Tag \<Rightarrow> SystemTime option \<Rightarrow> StandardPolicy \<Rightarrow> StandardPolicy res" where
  "reject_packet_tag_at tag t p = set_packet_tag tag (cutoff_at t) p"

definition packet_tag_version_cutoff :: "StandardPolicy \<Rightarrow> Tag \<Rightarrow> u8 \<Rightarrow> SystemTime option res" where
  "packet_tag_version_cutoff p tag version =
     and_then (tags_cutoff (pol_packet_tags p) tag version) (\<lambda>c. Inr (map_option SystemTime_from c))"

section \<open>Decisions\<close>

definition SignaturePacket_deref :: "SignaturePacket \<Rightarrow> SignaturePacket Signature4" where
  "SignaturePacket_deref s =
     (case s of SignaturePacket.V3 s \<Rightarrow> intern s | SignaturePacket.V4 s \<Rightarrow> s | SignaturePacket.V6 s \<Rightarrow> common s)"

definition effective_time :: "u32 \<Rightarrow> StandardPolicy \<Rightarrow> u32" where
  "effective_time now p = (case pol_time p of Some t \<Rightarrow> t | None \<Rightarrow> now)"

definition is_revocation :: "SignatureType \<Rightarrow> bool" where
  "is_revocation t \<longleftrightarrow> t = SignatureType.KeyRevocation \<or> t = SignatureType.SubkeyRevocation \<or> t = SignatureType.CertificationRevocation"

definition check_collision_resistant :: "StandardPolicy \<Rightarrow> HashAlgorithm \<Rightarrow> u32 \<Rightarrow> u32 option \<Rightarrow> unit res" where
  "check_collision_resistant p h time d =
     list_check u8_from_HashAlgorithm CollisionResistantHash_defaults (pol_collision_resistant_hash_algos p) h time d"

definition check_second_pre_image_resistant :: "StandardPolicy \<Rightarrow> HashAlgorithm \<Rightarrow> u32 \<Rightarrow> u32 option \<Rightarrow> unit res" where
  "check_second_pre_image_resistant p h time d =
     list_check u8_from_HashAlgorithm SecondPreImageResistantHash_defaults (pol_second_pre_image_resistant_hash_algos p) h time d"

definition check_critical_subpacket :: "StandardPolicy \<Rightarrow> u32 \<Rightarrow> SignaturePacket Subpacket \<Rightarrow> unit res" where
  "check_critical_subpacket p time csp =
     and_then (list_check u8_from_SubpacketTag SubpacketTag_defaults (pol_critical_subpackets p) (Subpacket_tag csp) time None) (\<lambda>_.
       case sp_value csp of
         SubpacketValue.NotationData n \<Rightarrow>
           if nd_name n \<notin> set (pol_good_critical_notations p) then Inl (Err (PolicyViolation None)) else Inr ()
       | _ \<Rightarrow> Inr ())"

fun check_critical_subpackets :: "StandardPolicy \<Rightarrow> u32 \<Rightarrow> SignaturePacket Subpacket list \<Rightarrow> unit res" where
  "check_critical_subpackets p time [] = Inr ()"
| "check_critical_subpackets p time (csp # csps) =
     and_then (check_critical_subpacket p time csp) (\<lambda>_. check_critical_subpackets p time csps)"

definition StandardPolicy_signature :: "u32 \<Rightarrow> StandardPolicy \<Rightarrow> SignaturePacket \<Rightarrow> HashAlgoSecurity \<Rightarrow> unit res" where
  "StandardPolicy_signature now p sig sec =
     (let time = effective_time now p;
          f = Signature4.fields (SignaturePacket_deref sig);
          rev = is_revocation (sf_typ f);
          tolerance = (if rev then Some (pol_hash_revocation_tolerance p) else None) in
      and_then (if sec = CollisionResistance then check_collision_resistant p (sf_hash_algo f) time tolerance else Inr ()) (\<lambda>_.
      and_then (check_second_pre_image_resistant p (sf_hash_algo f) time tolerance) (\<lambda>_.
        check_critical_subpackets p time (filter critical (packets (hashed_area (sf_subpackets f)))))))"

definition StandardPolicy_symmetric_algorithm :: "u32 \<Rightarrow> StandardPolicy \<Rightarrow> SymmetricAlgorithm \<Rightarrow> unit res" where
  "StandardPolicy_symmetric_algorithm now p algo =
     list_check u8_from_SymmetricAlgorithm SymmetricAlgorithm_defaults (pol_symmetric_algos p) algo (effective_time now p) None"

definition StandardPolicy_aead_algorithm :: "u32 \<Rightarrow> StandardPolicy \<Rightarrow> AEADAlgorithm \<Rightarrow> unit res" where
  "StandardPolicy_aead_algorithm now p algo =
     list_check u8_from_AEADAlgorithm AEADAlgorithm_defaults (pol_aead_algos p) algo (effective_time now p) None"

definition StandardPolicy_packet :: "u32 \<Rightarrow> StandardPolicy \<Rightarrow> Packet \<Rightarrow> unit res" where
  "StandardPolicy_packet now p pkt =
     tags_check (pol_packet_tags p) (Packet_tag pkt) (case Packet_version pkt of Some v \<Rightarrow> v | None \<Rightarrow> 0) (effective_time now p) None"

text \<open>The size of a key, for the families that come in sizes; material without a size is unreachable.\<close>

definition sized_algorithm ::
    "nat option \<Rightarrow> AsymmetricAlgorithm \<Rightarrow> AsymmetricAlgorithm \<Rightarrow> AsymmetricAlgorithm \<Rightarrow> AsymmetricAlgorithm \<Rightarrow> AsymmetricAlgorithm res" where
  "sized_algorithm bits a1024 a2048 a3072 a4096 =
     (case bits of
        None \<Rightarrow> Inl Panic
      | Some b \<Rightarrow> Inr (if b < 2048 then a1024 else if b < 3072 then a2048 else if b < 4096 then a3072 else a4096))"

definition curve_algorithm :: "PublicKey \<Rightarrow> AsymmetricAlgorithm res" where
  "curve_algorithm mpis =
     and_then
       (case mpis of
          PublicKey.EdDSA curve _ \<Rightarrow> Inr curve
        | PublicKey.ECDSA curve _ \<Rightarrow> Inr curve
        | PublicKey.ECDH curve _ _ _ \<Rightarrow> Inr curve
        | _ \<Rightarrow> Inl Panic)
       (\<lambda>curve. Inr
         (case curve of
            Curve.NistP256 \<Rightarrow> AsymmetricAlgorithm.NistP256
          | Curve.NistP384 \<Rightarrow> AsymmetricAlgorithm.NistP384
          | Curve.NistP521 \<Rightarrow> AsymmetricAlgorithm.NistP521
          | Curve.BrainpoolP256 \<Rightarrow> AsymmetricAlgorithm.BrainpoolP256
          | Curve.BrainpoolP384 \<Rightarrow> AsymmetricAlgorithm.BrainpoolP384
          | Curve.BrainpoolP512 \<Rightarrow> AsymmetricAlgorithm.BrainpoolP512
          | Curve.Ed25519 \<Rightarrow> AsymmetricAlgorithm.Cv25519
          | Curve.Cv25519 \<Rightarrow> AsymmetricAlgorithm.Cv25519
          | Curve.Unknown _ \<Rightarrow> AsymmetricAlgorithm.Unknown))"

definition key_algorithm :: "PublicKeyAlgorithm \<Rightarrow> PublicKey \<Rightarrow> AsymmetricAlgorithm res" where
  "key_algorithm pk_algo mpis =
     (let rsa = sized_algorithm (PublicKey_bits mpis) AsymmetricAlgorithm.RSA1024 AsymmetricAlgorithm.RSA2048
                  AsymmetricAlgorithm.RSA3072 AsymmetricAlgorithm.RSA4096;
          elgamal = sized_algorithm (PublicKey_bits mpis) AsymmetricAlgorithm.ElGamal1024 AsymmetricAlgorithm.ElGamal2048
                  AsymmetricAlgorithm.ElGamal3072 AsymmetricAlgorithm.ElGamal4096 in
      case pk_algo of
        PublicKeyAlgorithm.RSAEncryptSign \<Rightarrow> rsa
      | PublicKeyAlgorithm.RSAEncrypt \<Rightarrow> rsa
      | PublicKeyAlgorithm.RSASign \<Rightarrow> rsa
      | PublicKeyAlgorithm.ElGamalEncryptSign \<Rightarrow> elgamal
      | PublicKeyAlgorithm.ElGamalEncrypt \<Rightarrow> elgamal
      | PublicKeyAlgorithm.DSA \<Rightarrow>
          sized_algorithm (PublicKey_bits mpis) AsymmetricAlgorithm.DSA1024 AsymmetricAlgorithm.DSA2048
            AsymmetricAlgorithm.DSA3072 AsymmetricAlgorithm.DSA4096
      | PublicKeyAlgorithm.ECDH \<Rightarrow> curve_algorithm mpis
      | PublicKeyAlgorithm.ECDSA \<Rightarrow> curve_algorithm mpis
      | PublicKeyAlgorithm.EdDSA \<Rightarrow> curve_algorithm mpis
      | PublicKeyAlgorithm.X25519 \<Rightarrow> Inr AsymmetricAlgorithm.X25519
      | PublicKeyAlgorithm.X448 \<Rightarrow> Inr AsymmetricAlgorithm.X448
      | PublicKeyAlgorithm.Ed25519 \<Rightarrow> Inr AsymmetricAlgorithm.Ed25519
      | PublicKeyAlgorithm.Ed448 \<Rightarrow> Inr AsymmetricAlgorithm.Ed448
      | PublicKeyAlgorithm.MLDSA65_Ed25519 \<Rightarrow> Inr AsymmetricAlgorithm.MLDSA65_Ed25519
      | PublicKeyAlgorithm.MLDSA87_Ed448 \<Rightarrow> Inr AsymmetricAlgorithm.MLDSA87_Ed448
      | PublicKeyAlgorithm.SLHDSA128s \<Rightarrow> Inr AsymmetricAlgorithm.SLHDSA128s
      | PublicKeyAlgorithm.SLHDSA128f \<Rightarrow> Inr AsymmetricAlgorithm.SLHDSA128f
      | PublicKeyAlgorithm.SLHDSA256s \<Rightarrow> Inr AsymmetricAlgorithm.SLHDSA256s
      | PublicKeyAlgorithm.MLKEM768_X25519 \<Rightarrow> Inr AsymmetricAlgorithm.MLKEM768_X25519
      | PublicKeyAlgorithm.MLKEM1024_X448 \<Rightarrow> Inr AsymmetricAlgorithm.MLKEM1024_X448
      | PublicKeyAlgorithm.Private _ \<Rightarrow> Inr AsymmetricAlgorithm.Unknown
      | PublicKeyAlgorithm.Unknown _ \<Rightarrow> Inr AsymmetricAlgorithm.Unknown)"

definition StandardPolicy_key :: "u32 \<Rightarrow> StandardPolicy \<Rightarrow> Key4 \<Rightarrow> unit res" where
  "StandardPolicy_key now p k =
     and_then (key_algorithm (key_pk_algo k) (key_mpis k)) (\<lambda>a.
     let time = effective_time now p in
     and_then (list_check u8_from_AsymmetricAlgorithm AsymmetricAlgorithm_defaults (pol_asymmetric_algos p) a time None) (\<lambda>_.
       case key_mpis k of
         PublicKey.ECDH _ _ hash symm \<Rightarrow>
           and_then (StandardPolicy_symmetric_algorithm now p symm) (\<lambda>_.
             if symm = SymmetricAlgorithm.AES128 \<or> symm = SymmetricAlgorithm.AES192 \<or> symm = SymmetricAlgorithm.AES256
             then check_collision_resistant p hash time None
             else Inl (Err (PolicyViolation None)))
       | _ \<Rightarrow> Inr ()))"

section \<open>The trait\<close>

text \<open>A policy is the record of its five decisions; the provided methods reject everything.\<close>

record Policy =
  policy_signature :: "SignaturePacket \<Rightarrow> HashAlgoSecurity \<Rightarrow> unit res"
  policy_key :: "Key4 \<Rightarrow> unit res"
  policy_symmetric_algorithm :: "SymmetricAlgorithm \<Rightarrow> unit res"
  policy_aead_algorithm :: "AEADAlgorithm \<Rightarrow> unit res"
  policy_packet :: "Packet \<Rightarrow> unit res"

definition default_policy :: Policy where
  "default_policy =
     \<lparr>policy_signature = (\<lambda>_ _. Inl (Err (PolicyViolation None))), policy_key = (\<lambda>_. Inl (Err (PolicyViolation None))),
      policy_symmetric_algorithm = (\<lambda>_. Inl (Err (PolicyViolation None))), policy_aead_algorithm = (\<lambda>_. Inl (Err (PolicyViolation None))),
      policy_packet = (\<lambda>_. Inl (Err (PolicyViolation None)))\<rparr>"

definition standard_policy :: "u32 \<Rightarrow> StandardPolicy \<Rightarrow> Policy" where
  "standard_policy now p =
     \<lparr>policy_signature = StandardPolicy_signature now p, policy_key = StandardPolicy_key now p,
      policy_symmetric_algorithm = StandardPolicy_symmetric_algorithm now p, policy_aead_algorithm = StandardPolicy_aead_algorithm now p,
      policy_packet = StandardPolicy_packet now p\<rparr>"

definition NullPolicy :: Policy where
  "NullPolicy =
     \<lparr>policy_signature = (\<lambda>_ _. Inr ()), policy_key = (\<lambda>_. Inr ()), policy_symmetric_algorithm = (\<lambda>_. Inr ()),
      policy_aead_algorithm = (\<lambda>_. Inr ()), policy_packet = (\<lambda>_. Inr ())\<rparr>"

section \<open>Cutoff lists as maps\<close>

text \<open>
  What the policy relies on: a list is a map from keys to cutoffs, setting never fails on a well-formed list, and
  replaces the cutoff of one key. After any sequence of settings the last one for a key counts.
\<close>

locale cutoff_map =
  fixes get :: "'l \<Rightarrow> 'q \<Rightarrow> u32 option res"
    and put :: "'k \<Rightarrow> u32 option \<Rightarrow> 'l \<Rightarrow> 'l res"
    and concerns :: "'k \<Rightarrow> 'q \<Rightarrow> bool"
    and ok :: "'l \<Rightarrow> bool"
  assumes put: "ok l \<Longrightarrow> \<exists>l'. put k c l = Inr l' \<and> ok l' \<and> (\<forall>q. get l' q = (if concerns k q then Inr c else get l q))"
begin

lemma puts:
  "ok l \<Longrightarrow> \<exists>l'. foldl (\<lambda>r (k, c). and_then r (put k c)) (Inr l) ops = Inr l' \<and> ok l'
     \<and> (\<forall>q. get l' q = (case find (\<lambda>(k, c). concerns k q) (rev ops) of Some (_, c) \<Rightarrow> Inr c | None \<Rightarrow> get l q))"
proof (induction ops rule: rev_induct)
  case Nil
  then show ?case by simp
next
  case (snoc op ops)
  then obtain l1 where l1: "foldl (\<lambda>r (k, c). and_then r (put k c)) (Inr l) ops = Inr l1" "ok l1"
      "\<forall>q. get l1 q = (case find (\<lambda>(k, c). concerns k q) (rev ops) of Some (_, c) \<Rightarrow> Inr c | None \<Rightarrow> get l q)"
    by blast
  obtain l2 where "put (fst op) (snd op) l1 = Inr l2" "ok l2" "\<forall>q. get l2 q = (if concerns (fst op) q then Inr (snd op) else get l1 q)"
    using put [OF l1(2)] by blast
  then show ?case using l1 by (cases op) simp
qed

end

lemma list_cutoff_eq:
  "list_cutoff code defaults l a =
     (let xs = VecOrSlice_deref (cutoffs (list_force defaults l)) in if unat (code a) < length xs then xs ! unat (code a) else REJECT)"
  by (auto simp: list_cutoff_def list_force_def CutoffList_cutoff_def VecOrSlice_get_def VecOrSlice_deref_def DEFAULT_POLICY_def Let_def
      split: DefaultOr.split VecOrSlice.split)

lemma list_check_eq: "list_check code defaults l a time d = check_cutoff (list_cutoff code defaults l a) time d"
  by (auto simp: list_check_def CutoffList_check_def list_cutoff_def CutoffList_cutoff_def VecOrSlice_get_def Let_def split: DefaultOr.split)

lemma set_elems:
  "\<exists>l'. CutoffList_set code a c l = Inr l' \<and> VecOrSlice_deref (cutoffs l')
     = (let xs = VecOrSlice_deref (cutoffs l); i = unat (code a) in
        (if length xs \<le> i then xs @ replicate (i + 1 - length xs) REJECT else xs)[i := c])"
  by (cases "cutoffs l") (auto simp: CutoffList_set_def VecOrSlice_len_def VecOrSlice_resize_def VecOrSlice_index_mut_def VecOrSlice_as_mut_def
      VecOrSlice_deref_def DEFAULT_POLICY_def Let_def)

lemma list_set_ok:
  "\<exists>l'. list_set code defaults a c l = Inr l' \<and> (\<forall>b. list_cutoff code defaults l' b = (if code a = code b then c else list_cutoff code defaults l b))"
proof -
  let ?xs = "VecOrSlice_deref (cutoffs (list_force defaults l))" and ?i = "unat (code a)"
  obtain l' where l': "CutoffList_set code a c (list_force defaults l) = Inr l'"
      "VecOrSlice_deref (cutoffs l') = (if length ?xs \<le> ?i then ?xs @ replicate (?i + 1 - length ?xs) REJECT else ?xs)[?i := c]"
    using set_elems [of code a c "list_force defaults l"] by (auto simp: Let_def)
  have "list_cutoff code defaults (Custom l') b = (if code a = code b then c else list_cutoff code defaults l b)" for b
    using l'(2) by (auto simp: list_cutoff_eq list_force_def [of _ "Custom l'"] Let_def nth_append nth_list_update word_unat_eq_iff)
  then show ?thesis using l'(1) by (auto simp: list_set_def)
qed

interpretation cutoff_list: cutoff_map "\<lambda>l a. Inr (list_cutoff code defaults l a)" "list_set code defaults" "\<lambda>a b. code a = code b" "\<lambda>_. True"
  for code :: "'a \<Rightarrow> u8" and defaults :: "u32 option list"
  using list_set_ok [of code defaults] by unfold_locales fastforce

text \<open>The versioned list: entries are in the order of a number that identifies tag and version.\<close>

definition version_number :: "Tag \<Rightarrow> u8 \<Rightarrow> nat" where
  "version_number t v = unat (u8_from_Tag t) * 256 + unat v"

abbreviation entry_number :: "Tag \<times> u8 \<times> u32 option \<Rightarrow> nat" where
  "entry_number x \<equiv> version_number (fst x) (fst (snd x))"

lemma digits_256:
  assumes "b < 256" "d < (256 :: nat)"
  shows "a * 256 + b = c * 256 + d \<longleftrightarrow> a = c \<and> b = d" "a * 256 + b < c * 256 + d \<longleftrightarrow> a < c \<or> a = c \<and> b < d"
  using assms by (cases a c rule: linorder_cases; linarith)+

lemma version_number_eq: "version_number t v = version_number t' v' \<longleftrightarrow> tag_eq t t' \<and> v = v'"
  unfolding version_number_def tag_eq_def word_unat_eq_iff by (rule digits_256) simp_all

lemma version_less_number: "version_less x y \<longleftrightarrow> version_number (fst x) (snd x) < version_number (fst y) (snd y)"
  unfolding version_number_def version_less_def word_less_nat_alt word_unat_eq_iff by (rule digits_256(2) [symmetric]) simp_all

lemma windows_sorted_iff: "windows_sorted xs \<longleftrightarrow> sorted_wrt (<) (map entry_number xs)"
proof (induction xs rule: windows_sorted.induct)
  case (1 x y xs)
  then show ?case by (auto simp: version_less_number)
qed simp_all

definition versioned_lookup :: "(Tag \<times> u8 \<times> u32 option) list \<Rightarrow> nat \<Rightarrow> u32 option option" where
  "versioned_lookup xs = map_of (map (\<lambda>x. (entry_number x, snd (snd x))) xs)"

lemma versioned_lookup_append:
  "versioned_lookup (xs @ ys) k = (case versioned_lookup xs k of Some c \<Rightarrow> Some c | None \<Rightarrow> versioned_lookup ys k)"
  by (simp add: versioned_lookup_def map_add_def split: option.split)

lemma versioned_lookup_Cons: "versioned_lookup (x # xs) k = (if entry_number x = k then Some (snd (snd x)) else versioned_lookup xs k)"
  by (simp add: versioned_lookup_def)

lemma versioned_lookup_None: "(\<And>x. x \<in> set xs \<Longrightarrow> entry_number x \<noteq> k) \<Longrightarrow> versioned_lookup xs k = None"
  by (force simp: versioned_lookup_def map_of_eq_None_iff)

lemma version_compare:
  "(\<lambda>(a, v', _). Ordering_reverse (cmp_then (cmp (u8_from_Tag t) (u8_from_Tag a)) (cmp v v'))) x = cmp (entry_number x) (version_number t v)"
proof -
  have less: "version_less a b \<longleftrightarrow> version_number (fst a) (snd a) < version_number (fst b) (snd b)" for a b by (rule version_less_number)
  obtain a v' c where x: "x = (a, v', c)" by (metis surj_pair)
  have "version_less (a, v') (t, v) \<longleftrightarrow> entry_number x < version_number t v" "version_less (t, v) (a, v') \<longleftrightarrow> version_number t v < entry_number x"
    by (simp_all add: less x)
  then show ?thesis by (auto simp: x version_less_def Ordering_reverse_def cmp_then_def cmp_def)
qed

lemma version_search_split:
  assumes "windows_sorted xs"
  obtains (found) pre x post where "xs = pre @ x # post" "version_search t v xs = Inr (length pre)" "entry_number x = version_number t v"
      "\<forall>y \<in> set pre. entry_number y < version_number t v" "\<forall>y \<in> set post. version_number t v < entry_number y"
    | (missing) pre post where "xs = pre @ post" "version_search t v xs = Inl (length pre)"
      "\<forall>y \<in> set pre. entry_number y < version_number t v" "\<forall>y \<in> set post. version_number t v < entry_number y"
proof -
  let ?f = "\<lambda>x. cmp (entry_number x) (version_number t v)"
  have strict: "sorted_wrt (<) (map entry_number xs)" using assms by (simp add: windows_sorted_iff)
  have f: "version_search t v xs = binary_search_by ?f xs" unfolding version_search_def version_compare ..
  have ok: "searchable ?f xs" by (rule searchable_mono) (use strict in \<open>auto intro: strict_sorted_imp_sorted\<close>)
  show thesis
  proof (cases "binary_search_by ?f xs")
    case (Inr i)
    then have i: "i < length xs" "entry_number (xs ! i) = version_number t v"
      using binary_search_found [OF ok Inr] by (simp_all add: cmp_iff)
    have xs: "xs = take i xs @ xs ! i # drop (Suc i) xs" using i(1) by (rule id_take_nth_drop)
    have "sorted_wrt (<) (map entry_number (take i xs @ xs ! i # drop (Suc i) xs))" using strict xs by simp
    then show thesis using found [OF xs] i Inr f by (auto simp: sorted_wrt_append)
  next
    case (Inl i)
    then have i: "i \<le> length xs" "\<forall>j < i. entry_number (xs ! j) < version_number t v"
        "\<forall>j. i \<le> j \<longrightarrow> j < length xs \<longrightarrow> version_number t v < entry_number (xs ! j)"
      using binary_search_missing [OF ok Inl] by (simp_all add: cmp_iff)
    from i have "\<forall>y \<in> set (take i xs). entry_number y < version_number t v" "\<forall>y \<in> set (drop i xs). version_number t v < entry_number y"
      by (simp_all only: all_set_conv_all_nth) simp_all
    then show thesis using missing [of "take i xs" "drop i xs"] Inl f i(1) by simp
  qed
qed

definition tags_sorted :: "VersionedCutoffList DefaultOr \<Rightarrow> bool" where
  "tags_sorted l \<longleftrightarrow> windows_sorted (VecOrSlice_deref (versioned_cutoffs (tags_force l)))"

lemma VecOrSlice_as_mut_eq: "VecOrSlice_as_mut v = VecOrSlice_deref v"
  by (simp add: VecOrSlice_as_mut_def VecOrSlice_deref_def)

text \<open>The cutoff that a list holds: that of the version, or of the tag, or rejection.\<close>

definition unversioned_lookup :: "VersionedCutoffList \<Rightarrow> Tag \<Rightarrow> u32 option" where
  "unversioned_lookup l t = (let xs = VecOrSlice_deref (unversioned_cutoffs l); i = unat (u8_from_Tag t) in if i < length xs then xs ! i else REJECT)"

lemma tags_cutoff_eq:
  assumes "tags_sorted l"
  shows "tags_cutoff l t v = Inr (case versioned_lookup (VecOrSlice_deref (versioned_cutoffs (tags_force l))) (version_number t v) of
      Some c \<Rightarrow> c | None \<Rightarrow> unversioned_lookup (tags_force l) t)"
proof -
  let ?l = "tags_force l"
  have sorted: "windows_sorted (VecOrSlice_deref (versioned_cutoffs ?l))" using assms by (simp add: tags_sorted_def)
  have cutoff: "tags_cutoff l t v = VersionedCutoffList_cutoff ?l t v"
    by (simp add: tags_cutoff_def tags_force_def split: DefaultOr.split)
  have rest: "(case VecOrSlice_get (unversioned_cutoffs ?l) (unat (u8_from_Tag t)) of Some c \<Rightarrow> c | None \<Rightarrow> DEFAULT_POLICY) = unversioned_lookup ?l t"
    by (cases "unversioned_cutoffs ?l") (auto simp: unversioned_lookup_def VecOrSlice_get_def VecOrSlice_deref_def DEFAULT_POLICY_def Let_def)
  show ?thesis
  proof (cases rule: version_search_split [OF sorted, of t v, case_names found missing])
    case (found pre x post)
    have "versioned_lookup pre (version_number t v) = None" using found(4) by (intro versioned_lookup_None) auto
    then show ?thesis
      using cutoff sorted found by (simp add: VersionedCutoffList_cutoff_def assert_sorted_def versioned_lookup_append versioned_lookup_Cons Let_def)
  next
    case (missing pre post)
    have "versioned_lookup (pre @ post) (version_number t v) = None" using missing by (intro versioned_lookup_None) auto
    then show ?thesis
      using cutoff sorted missing rest by (simp add: VersionedCutoffList_cutoff_def assert_sorted_def Let_def)
  qed
qed

lemma tags_set_versioned_ok:
  assumes "tags_sorted l"
  shows "\<exists>l'. tags_set_versioned t v c l = Inr l' \<and> tags_sorted l'
    \<and> (\<forall>t' v'. tags_cutoff l' t' v' = (if tag_eq t t' \<and> v = v' then Inr c else tags_cutoff l t' v'))"
proof -
  let ?xs = "VecOrSlice_deref (versioned_cutoffs (tags_force l))" and ?k = "version_number t v"
  have sorted: "windows_sorted ?xs" using assms by (simp add: tags_sorted_def)
  define ys where "ys = (case version_search t v ?xs of Inr i \<Rightarrow> ?xs[i := (t, v, c)] | Inl i \<Rightarrow> take i ?xs @ (t, v, c) # drop i ?xs)"
  have ys: "windows_sorted ys \<and> (\<forall>k'. versioned_lookup ys k' = (if k' = ?k then Some c else versioned_lookup ?xs k'))"
  proof (cases rule: version_search_split [OF sorted, of t v, case_names found missing])
    case (found pre x post)
    have lookup: "versioned_lookup pre ?k = None" using found(4) by (intro versioned_lookup_None) auto
    have "ys = pre @ (t, v, c) # post" using found(1,2) by (simp add: ys_def)
    then show ?thesis
      using sorted found lookup by (auto simp: windows_sorted_iff sorted_wrt_append versioned_lookup_append versioned_lookup_Cons split: option.split)
  next
    case (missing pre post)
    have lookup: "versioned_lookup pre ?k = None" using missing(3) by (intro versioned_lookup_None) auto
    have "ys = pre @ (t, v, c) # post" using missing(1,2) by (simp add: ys_def)
    then show ?thesis
      using sorted missing lookup by (auto simp: windows_sorted_iff sorted_wrt_append versioned_lookup_append versioned_lookup_Cons split: option.split)
  qed
  define l' where "l' = Custom ((tags_force l)\<lparr>versioned_cutoffs := Vec ys\<rparr>)"
  have force: "tags_force l' = (tags_force l)\<lparr>versioned_cutoffs := Vec ys\<rparr>" by (simp add: l'_def tags_force_def)
  have l': "tags_set_versioned t v c l = Inr l'" "tags_sorted l'"
    using sorted ys by (simp_all add: tags_set_versioned_def VersionedCutoffList_set_versioned_def assert_sorted_def VecOrSlice_as_mut_eq
        ys_def [symmetric] l'_def tags_sorted_def tags_force_def [of "Custom _"] VecOrSlice_deref_def [of "Vec _"] Let_def)
  moreover have "tags_cutoff l' t' v' = (if tag_eq t t' \<and> v = v' then Inr c else tags_cutoff l t' v')" for t' v'
  proof -
    have "unversioned_lookup ((tags_force l)\<lparr>versioned_cutoffs := Vec ys\<rparr>) t' = unversioned_lookup (tags_force l) t'"
      by (simp add: unversioned_lookup_def)
    moreover have "version_number t' v' = ?k \<longleftrightarrow> tag_eq t t' \<and> v = v'" using version_number_eq [of t v t' v'] by auto
    ultimately show ?thesis
      using ys unfolding tags_cutoff_eq [OF assms] tags_cutoff_eq [OF l'(2)] force by (simp add: VecOrSlice_deref_def [of "Vec _"] split: option.split)
  qed
  ultimately show ?thesis by blast
qed

text \<open>Setting the cutoff of a tag drops those of its versions.\<close>

lemma versioned_lookup_filter:
  "versioned_lookup (filter (\<lambda>(a, _, _). \<not> tag_eq t a) xs) (version_number t' v')
     = (if tag_eq t t' then None else versioned_lookup xs (version_number t' v'))"
proof (induction xs)
  case Nil
  then show ?case by (simp add: versioned_lookup_def)
next
  case (Cons x xs)
  obtain a v c where x: "x = (a, v, c)" by (cases x)
  have "version_number a v = version_number t' v' \<Longrightarrow> tag_eq t a = tag_eq t t'"
    by (simp add: version_number_eq) (simp add: tag_eq_def)
  then show ?case
    using Cons x by (cases "version_number a v = version_number t' v'") (simp_all add: versioned_lookup_Cons)
qed

lemma tags_set_unversioned_ok:
  assumes "tags_sorted l"
  shows "\<exists>l'. tags_set_unversioned t c l = Inr l' \<and> tags_sorted l'
    \<and> (\<forall>t' v'. tags_cutoff l' t' v' = (if tag_eq t t' then Inr c else tags_cutoff l t' v'))"
proof -
  let ?l = "tags_force l" and ?i = "unat (u8_from_Tag t)"
  let ?xs = "VecOrSlice_deref (versioned_cutoffs ?l)" and ?us = "VecOrSlice_deref (unversioned_cutoffs ?l)"
  let ?ys = "filter (\<lambda>(a, _, _). \<not> tag_eq t a) ?xs"
  define us where "us = (if length ?us \<le> ?i then ?us @ replicate (?i + 1 - length ?us) REJECT else ?us)[?i := c]"
  define l' where "l' = \<lparr>unversioned_cutoffs = Vec us, versioned_cutoffs = Vec ?ys\<rparr>"
  have set: "tags_set_unversioned t c l = Inr (Custom l')"
    by (cases "unversioned_cutoffs ?l") (auto simp: tags_set_unversioned_def VersionedCutoffList_set_unversioned_def VecOrSlice_len_def VecOrSlice_resize_def
        VecOrSlice_index_mut_def VecOrSlice_as_mut_def VecOrSlice_deref_def DEFAULT_POLICY_def us_def l'_def Let_def)
  have force: "tags_force (Custom l') = l'" and versions: "VecOrSlice_deref (versioned_cutoffs l') = ?ys"
    by (simp_all add: tags_force_def l'_def VecOrSlice_deref_def)
  have sorted: "tags_sorted (Custom l')"
    using assms sorted_wrt_filter [of "\<lambda>x y. entry_number x < entry_number y" ?xs]
    by (simp add: tags_sorted_def tags_force_def [of "Custom _"] windows_sorted_iff sorted_wrt_map l'_def VecOrSlice_deref_def [of "Vec _"])
  have "unversioned_lookup l' t' = (if tag_eq t t' then c else unversioned_lookup ?l t')" for t'
    by (auto simp: l'_def VecOrSlice_deref_def [of "Vec _"] unversioned_lookup_def tag_eq_def word_unat_eq_iff us_def nth_append nth_list_update Let_def)
  then have "tags_cutoff (Custom l') t' v' = (if tag_eq t t' then Inr c else tags_cutoff l t' v')" for t' v'
    unfolding tags_cutoff_eq [OF sorted] tags_cutoff_eq [OF assms]
    by (simp add: force versions versioned_lookup_filter split: option.split)
  then show ?thesis using set sorted by blast
qed

text \<open>The settings of the list of tags: of one version, or of all versions of a tag.\<close>

definition tags_put :: "Tag \<times> u8 option \<Rightarrow> u32 option \<Rightarrow> VersionedCutoffList DefaultOr \<Rightarrow> VersionedCutoffList DefaultOr res" where
  "tags_put k c l = (case k of (t, Some v) \<Rightarrow> tags_set_versioned t v c l | (t, None) \<Rightarrow> tags_set_unversioned t c l)"

definition tags_concern :: "Tag \<times> u8 option \<Rightarrow> Tag \<times> u8 \<Rightarrow> bool" where
  "tags_concern k q \<longleftrightarrow> tag_eq (fst k) (fst q) \<and> (snd k = None \<or> snd k = Some (snd q))"

interpretation tags: cutoff_map "\<lambda>l q. tags_cutoff l (fst q) (snd q)" tags_put tags_concern tags_sorted
proof
  fix l k c
  assume l: "tags_sorted l"
  show "\<exists>l'. tags_put k c l = Inr l' \<and> tags_sorted l'
      \<and> (\<forall>q. tags_cutoff l' (fst q) (snd q) = (if tags_concern k q then Inr c else tags_cutoff l (fst q) (snd q)))"
  proof (cases "snd k")
    case None
    then show ?thesis using tags_set_unversioned_ok [OF l, of "fst k" c] by (cases k) (auto simp: tags_put_def tags_concern_def)
  next
    case (Some v)
    then show ?thesis using tags_set_versioned_ok [OF l, of "fst k" v c] by (cases k) (auto simp: tags_put_def tags_concern_def)
  qed
qed

section \<open>What settings do\<close>

text \<open>The settings of a policy, as the sequence of calls that a program makes.\<close>

datatype Setting =
    HashAt HashAlgorithm HashAlgoSecurity "SystemTime option"
  | RejectHash HashAlgorithm
  | RejectAllHashes
  | RevocationTolerance u32
  | CriticalSubpacketAt SubpacketTag "SystemTime option"
  | RejectAllCriticalSubpackets
  | GoodCriticalNotations "bytes list"
  | AsymmetricAt AsymmetricAlgorithm "SystemTime option"
  | RejectAllAsymmetric
  | SymmetricAt SymmetricAlgorithm "SystemTime option"
  | RejectAllSymmetric
  | AeadAt AEADAlgorithm "SystemTime option"
  | RejectAllAead
  | PacketTagAt Tag "SystemTime option"
  | PacketTagVersionAt Tag u8 "SystemTime option"
  | RejectAllPacketTags

primrec apply_setting :: "Setting \<Rightarrow> StandardPolicy \<Rightarrow> StandardPolicy res" where
  "apply_setting (HashAt h sec t) p = reject_hash_property_at h sec t p"
| "apply_setting (RejectHash h) p = reject_hash h p"
| "apply_setting RejectAllHashes p = Inr (reject_all_hashes p)"
| "apply_setting (RevocationTolerance d) p = Inr (hash_revocation_tolerance d p)"
| "apply_setting (CriticalSubpacketAt s t) p = reject_critical_subpacket_at s t p"
| "apply_setting RejectAllCriticalSubpackets p = Inr (reject_all_critical_subpackets p)"
| "apply_setting (GoodCriticalNotations ns) p = Inr (good_critical_notations ns p)"
| "apply_setting (AsymmetricAt a t) p = reject_asymmetric_algo_at a t p"
| "apply_setting RejectAllAsymmetric p = Inr (reject_all_asymmetric_algos p)"
| "apply_setting (SymmetricAt a t) p = reject_symmetric_algo_at a t p"
| "apply_setting RejectAllSymmetric p = Inr (reject_all_symmetric_algos p)"
| "apply_setting (AeadAt a t) p = reject_aead_algo_at a t p"
| "apply_setting RejectAllAead p = Inr (reject_all_aead_algos p)"
| "apply_setting (PacketTagAt tag t) p = reject_packet_tag_at tag t p"
| "apply_setting (PacketTagVersionAt tag v t) p = reject_packet_tag_version_at tag v t p"
| "apply_setting RejectAllPacketTags p = Inr (reject_all_packet_tags p)"

inductive configured :: "StandardPolicy \<Rightarrow> bool" where
  configured_new: "configured StandardPolicy_new"
| configured_at: "configured (StandardPolicy_at t)"
| configured_setting: "configured p \<Longrightarrow> apply_setting s p = Inr p' \<Longrightarrow> configured p'"

lemma tags_sorted_defaults: "tags_sorted Default" "tags_sorted tags_reject_all"
  by (simp_all add: tags_sorted_def tags_force_def PacketTag_defaults_def tags_reject_all_def VersionedCutoffList_reject_all_def
      VecOrSlice_deref_def VecOrSlice_empty_def version_less_def)

lemmas setter_defs = reject_hash_property_at_def set_collision_resistant_def set_second_pre_image_resistant_def reject_hash_def
  reject_all_hashes_def hash_revocation_tolerance_def reject_critical_subpacket_at_def set_critical_subpacket_def
  reject_all_critical_subpackets_def good_critical_notations_def reject_asymmetric_algo_at_def set_asymmetric_algo_def
  reject_all_asymmetric_algos_def reject_symmetric_algo_at_def set_symmetric_algo_def reject_all_symmetric_algos_def
  reject_aead_algo_at_def set_aead_algo_def reject_all_aead_algos_def reject_all_packet_tags_def

lemma apply_setting_ok:
  assumes "tags_sorted (pol_packet_tags p)"
  shows "\<exists>p'. apply_setting s p = Inr p' \<and> tags_sorted (pol_packet_tags p')"
proof (cases s)
  case (PacketTagAt tag t)
  then show ?thesis
    using tags_set_unversioned_ok [OF assms, of tag "cutoff_at t"] by (auto simp: reject_packet_tag_at_def set_packet_tag_def)
next
  case (PacketTagVersionAt tag v t)
  then show ?thesis
    using tags_set_versioned_ok [OF assms, of tag v "cutoff_at t"] by (auto simp: reject_packet_tag_version_at_def set_packet_tag_version_def)
next
  case (HashAt h sec t)
  then show ?thesis
    using assms list_set_ok [of u8_from_HashAlgorithm CollisionResistantHash_defaults h "cutoff_at t" "pol_collision_resistant_hash_algos p"]
      list_set_ok [of u8_from_HashAlgorithm SecondPreImageResistantHash_defaults h "cutoff_at t" "pol_second_pre_image_resistant_hash_algos p"]
    by (cases sec) (auto simp: setter_defs)
next
  case (RejectHash h)
  then show ?thesis
    using assms list_set_ok [of u8_from_HashAlgorithm CollisionResistantHash_defaults h REJECT "pol_collision_resistant_hash_algos p"]
      list_set_ok [of u8_from_HashAlgorithm SecondPreImageResistantHash_defaults h REJECT "pol_second_pre_image_resistant_hash_algos p"]
    by (auto simp: setter_defs)
next
  case (CriticalSubpacketAt x t)
  then show ?thesis
    using assms list_set_ok [of u8_from_SubpacketTag SubpacketTag_defaults x "cutoff_at t" "pol_critical_subpackets p"] by (auto simp: setter_defs)
next
  case (AsymmetricAt x t)
  then show ?thesis
    using assms list_set_ok [of u8_from_AsymmetricAlgorithm AsymmetricAlgorithm_defaults x "cutoff_at t" "pol_asymmetric_algos p"] by (auto simp: setter_defs)
next
  case (SymmetricAt x t)
  then show ?thesis
    using assms list_set_ok [of u8_from_SymmetricAlgorithm SymmetricAlgorithm_defaults x "cutoff_at t" "pol_symmetric_algos p"] by (auto simp: setter_defs)
next
  case (AeadAt x t)
  then show ?thesis
    using assms list_set_ok [of u8_from_AEADAlgorithm AEADAlgorithm_defaults x "cutoff_at t" "pol_aead_algos p"] by (auto simp: setter_defs)
qed (use assms tags_sorted_defaults(2) in \<open>simp_all add: setter_defs\<close>)

lemma configured_sorted: "configured p \<Longrightarrow> tags_sorted (pol_packet_tags p)"
proof (induction rule: configured.induct)
  case (configured_setting p s p')
  then show ?case using apply_setting_ok [of p s] by auto
qed (simp_all add: StandardPolicy_new_def StandardPolicy_at_def tags_sorted_defaults)

text \<open>No decision aborts.\<close>

lemma check_cutoff_no_panic: "\<not> panics (check_cutoff c time d)"
  by (simp add: check_cutoff_def Let_def split: option.split)

lemma check_critical_no_panic: "\<not> panics (check_critical_subpackets p time csps)"
  by (induction csps) (auto simp: check_critical_subpacket_def list_check_eq check_cutoff_no_panic split: SubpacketValue.split)

lemma key_algorithm_no_panic: "PublicKey_parse algo bs = Inr (mpis, rest) \<Longrightarrow> \<not> panics (key_algorithm algo mpis)"
  by (cases algo) (auto simp: PublicKey_parse_def key_algorithm_def sized_algorithm_def curve_algorithm_def PublicKey_bits_def result_simps Let_def
      split: if_splits)

datatype Subject =
    OfSignature SignaturePacket HashAlgoSecurity
  | OfKey Key4
  | OfSymmetricAlgorithm SymmetricAlgorithm
  | OfAEADAlgorithm AEADAlgorithm
  | OfPacket Packet

primrec decide :: "Policy \<Rightarrow> Subject \<Rightarrow> unit res" where
  "decide p (OfSignature sig sec) = policy_signature p sig sec"
| "decide p (OfKey k) = policy_key p k"
| "decide p (OfSymmetricAlgorithm a) = policy_symmetric_algorithm p a"
| "decide p (OfAEADAlgorithm a) = policy_aead_algorithm p a"
| "decide p (OfPacket pkt) = policy_packet p pkt"

definition subject_parsed :: "Subject \<Rightarrow> bool" where
  "subject_parsed x = (case x of OfKey k \<Rightarrow> \<exists>bs rest. PublicKey_parse (key_pk_algo k) bs = Inr (key_mpis k, rest) | _ \<Rightarrow> True)"

lemma tags_check_eq:
  "tags_check l t v time d = and_then (tags_cutoff l t v) (\<lambda>c. check_cutoff c time d)"
  by (simp add: tags_check_def tags_cutoff_def VersionedCutoffList_check_def split: DefaultOr.split)

lemmas decision_defs = standard_policy_def StandardPolicy_signature_def StandardPolicy_key_def StandardPolicy_symmetric_algorithm_def
  StandardPolicy_aead_algorithm_def StandardPolicy_packet_def check_collision_resistant_def check_second_pre_image_resistant_def
  list_check_eq tags_check_eq Let_def

lemma decide_no_panic:
  assumes "configured p" "subject_parsed x"
  shows "\<not> panics (decide (standard_policy now p) x)"
proof (cases x)
  case (OfKey k)
  then obtain bs rest where "PublicKey_parse (key_pk_algo k) bs = Inr (key_mpis k, rest)" using assms(2) by (auto simp: subject_parsed_def)
  then have "\<not> panics (key_algorithm (key_pk_algo k) (key_mpis k))" by (rule key_algorithm_no_panic)
  then show ?thesis
    using OfKey by (auto simp: decision_defs check_cutoff_no_panic split: PublicKey.split)
next
  case (OfPacket pkt)
  then show ?thesis
    using configured_sorted [OF assms(1)] by (simp add: decision_defs check_cutoff_no_panic tags_cutoff_eq)
qed (simp_all add: decision_defs check_cutoff_no_panic check_critical_no_panic)

text \<open>
  C8. A policy never aborts: from the standard policy, any setting can be made after any others, and it keeps the list of
  versions in order, so that every decision on a packet, signature or algorithm returns, and one on a key as well, if its
  material was read by the parser for its algorithm.
\<close>

theorem policy_never_panics:
  assumes "configured p" "subject_parsed x"
  shows "(\<forall>s. \<not> panics (apply_setting s p)) \<and> \<not> panics (decide (standard_policy now p) x)"
proof
  show "\<forall>s. \<not> panics (apply_setting s p)"
    using apply_setting_ok [OF configured_sorted [OF assms(1)]] by (metis Inl_Inr_False panics_def)
  show "\<not> panics (decide (standard_policy now p) x)"
    by (rule decide_no_panic [OF assms])
qed


lemma check_cutoff_mono: "check_cutoff c time' d = Inr () \<Longrightarrow> time \<le> time' \<Longrightarrow> check_cutoff c time d = Inr ()"
  by (auto simp: check_cutoff_def Let_def split: option.splits if_splits)

lemma check_critical_mono:
  "check_critical_subpackets (p\<lparr>pol_time := t'\<rparr>) time' csps = Inr () \<Longrightarrow> time \<le> time'
    \<Longrightarrow> check_critical_subpackets (p\<lparr>pol_time := t\<rparr>) time csps = Inr ()"
  by (induction csps)
    (auto simp: check_critical_subpacket_def list_check_eq result_simps split: SubpacketValue.splits if_splits intro: check_cutoff_mono)

text \<open>C39. What a policy accepts at some time it accepts at every earlier time: rejections are final.\<close>

theorem rejections_final:
  assumes "t \<le> t'" "decide (standard_policy now (p\<lparr>pol_time := Some t'\<rparr>)) x = Inr ()"
  shows "decide (standard_policy now (p\<lparr>pol_time := Some t\<rparr>)) x = Inr ()"
  using assms
  by (cases x)
    (auto simp: decision_defs effective_time_def result_simps split: if_splits PublicKey.splits intro: check_cutoff_mono check_critical_mono)

text \<open>
  C40. The last setting counts: after any settings of versions and of whole tags, the cutoff of a version of a tag is that of
  the last setting that concerns it, or else the one from before.
\<close>

theorem last_tag_setting_counts:
  assumes "configured p"
  shows "\<exists>l. foldl (\<lambda>r (k, c). and_then r (tags_put k c)) (Inr (pol_packet_tags p)) ops = Inr l
    \<and> tags_cutoff l t v = (case find (\<lambda>(k, c). tags_concern k (t, v)) (rev ops) of
        Some (_, c) \<Rightarrow> Inr c | None \<Rightarrow> tags_cutoff (pol_packet_tags p) t v)"
  using tags.puts [OF configured_sorted [OF assms], of ops] by (metis fst_conv snd_conv)

theorem last_tag_setting_counts_witness:
  "\<exists>l. foldl (\<lambda>r (k, c). and_then r (tags_put k c)) (Inr (pol_packet_tags StandardPolicy_new))
       [((Tag.Signature, None), REJECT), ((Tag.Signature, Some 4), ACCEPT)] = Inr l \<and> tags_cutoff l Tag.Signature 3 = Inr REJECT"
  using last_tag_setting_counts [OF configured_new, of "[((Tag.Signature, None), REJECT), ((Tag.Signature, Some 4), ACCEPT)]" Tag.Signature 3]
  by (simp add: tags_concern_def tag_eq_def)

text \<open>The standard policy with SHA-1 and version 3 of signatures rejected, and a key as the parser reads it.\<close>

theorem policy_never_panics_witness:
  "\<exists>p p'. apply_setting (RejectHash HashAlgorithm.SHA1) StandardPolicy_new = Inr p
    \<and> apply_setting (PacketTagVersionAt Tag.Signature 3 None) p = Inr p' \<and> (\<forall>s. \<not> panics (apply_setting s p'))
    \<and> \<not> panics (decide (standard_policy 0 p') (OfKey (Key4_make 1 PublicKeyAlgorithm.Ed25519 (PublicKey.Ed25519 (replicate 32 9)) None)))"
proof -
  let ?k = "Key4_make 1 PublicKeyAlgorithm.Ed25519 (PublicKey.Ed25519 (replicate 32 9)) None"
  obtain p where p: "apply_setting (RejectHash HashAlgorithm.SHA1) StandardPolicy_new = Inr p"
    using apply_setting_ok [OF configured_sorted [OF configured_new]] by blast
  then have cp: "configured p" by (rule configured_setting [OF configured_new])
  obtain p' where p': "apply_setting (PacketTagVersionAt Tag.Signature 3 None) p = Inr p'"
    using apply_setting_ok [OF configured_sorted [OF cp]] by blast
  then have "configured p'" by (rule configured_setting [OF cp])
  moreover have "PublicKey_parse PublicKeyAlgorithm.Ed25519 (replicate 32 9) = Inr (PublicKey.Ed25519 (replicate 32 9), [])"
    using PublicKey_serialize_parse [of "PublicKey.Ed25519 (replicate 32 9)" PublicKeyAlgorithm.Ed25519 "[]"]
    by (simp add: PublicKey_serialize_def PublicKey_serialized_len_def PublicKey_wf_def PublicKey_algo_def algo_family_def)
  then have "subject_parsed (OfKey ?k)" by (auto simp: subject_parsed_def Key4_make_def)
  ultimately have "(\<forall>s. \<not> panics (apply_setting s p')) \<and> \<not> panics (decide (standard_policy 0 p') (OfKey ?k))"
    by (rule policy_never_panics)
  with p p' show ?thesis by blast
qed

theorem rejections_final_witness:
  "decide (standard_policy 0 (StandardPolicy_new\<lparr>pol_time := Some 5\<rparr>)) (OfAEADAlgorithm AEADAlgorithm.OCB) = Inr ()"
  by (rule rejections_final [of 5 7])
    (simp_all add: decision_defs StandardPolicy_new_def list_cutoff_def AEADAlgorithm_defaults_def u8_from_AEADAlgorithm_def ACCEPT_def check_cutoff_def)

section \<open>The standard dates\<close>

text \<open>
  The dates are what their names say: midnight on the first of February, counted from the epoch over years of 365 days
  and a leap day in every fourth year, other than in three of four centuries.
\<close>

definition days_until_year :: "int \<Rightarrow> int" where
  "days_until_year y = 365 * (y - 1970) + ((y - 1) div 4 - (y - 1) div 100 + (y - 1) div 400 - 477)"

theorem february_table: "map uint FEBRUARY = map (\<lambda>y. (days_until_year y + 31) * 86400) [1970..2106]"
  by code_simp

lemma check_cutoff_plain: "check_cutoff c time None = Inr () \<longleftrightarrow> (case c of None \<Rightarrow> True | Some d \<Rightarrow> time < d)"
proof (cases c)
  case (Some d)
  have "Timestamp_checked_add d 0 = Some d" using uint_u32_less [of d] by (simp add: Timestamp_checked_add_def u32_checked_add_def)
  then show ?thesis using Some by (auto simp: check_cutoff_def not_le)
qed (simp add: check_cutoff_def)

lemma hash_defaults_reject:
  assumes "u \<noteq> 1" "u \<noteq> 2" "u \<noteq> 3" "u \<noteq> 8" "u \<noteq> 9" "u \<noteq> 10" "u \<noteq> 11" "u \<noteq> 12" "u \<noteq> (14 :: u8)"
  shows "(if length CollisionResistantHash_defaults \<le> unat u then REJECT else CollisionResistantHash_defaults ! unat u) = REJECT"
proof -
  have rest: "\<forall>i \<in> {0..<15}. CollisionResistantHash_defaults ! i = REJECT \<or> i \<in> {1, 2, 3, 8, 9, 10, 11, 12, 14}"
    by (simp add: atLeastLessThan_upt upt_rec CollisionResistantHash_defaults_def)
  have "unat u \<notin> {1, 2, 3, 8, 9, 10, 11, 12, 14}"
    using assms by (simp add: word_unat_eq_iff)
  then show ?thesis using rest by (auto simp: CollisionResistantHash_defaults_def)
qed

text \<open>
  Signatures under the standard policy: one that needs collision resistance is accepted if and only if its hash is of
  the SHA-2 or SHA-3 family, or MD5 before February 1997, or SHA-1 or RIPE-MD before February 2013.
\<close>

theorem standard_policy_hashes:
  assumes "filter critical (packets (hashed_area (sf_subpackets (Signature4.fields (SignaturePacket_deref sig))))) = []"
    "\<not> is_revocation (sf_typ (Signature4.fields (SignaturePacket_deref sig)))" "HashAlgorithm_canonical (sf_hash_algo (Signature4.fields (SignaturePacket_deref sig)))"
  shows "StandardPolicy_signature now (StandardPolicy_new\<lparr>pol_time := Some t\<rparr>) sig CollisionResistance = Inr () \<longleftrightarrow>
    (case sf_hash_algo (Signature4.fields (SignaturePacket_deref sig)) of
       HashAlgorithm.MD5 \<Rightarrow> t < FEBRUARY ! (1997 - 1970)
     | HashAlgorithm.SHA1 \<Rightarrow> t < FEBRUARY ! (2013 - 1970)
     | HashAlgorithm.RipeMD \<Rightarrow> t < FEBRUARY ! (2013 - 1970)
     | HashAlgorithm.Private _ \<Rightarrow> False
     | HashAlgorithm.Unknown _ \<Rightarrow> False
     | _ \<Rightarrow> True)"
proof -
  let ?h = "sf_hash_algo (Signature4.fields (SignaturePacket_deref sig))"
  have "StandardPolicy_signature now (StandardPolicy_new\<lparr>pol_time := Some t\<rparr>) sig CollisionResistance = Inr () \<longleftrightarrow>
      (case list_cutoff u8_from_HashAlgorithm CollisionResistantHash_defaults Default ?h of None \<Rightarrow> True | Some d \<Rightarrow> t < d)
      \<and> (case list_cutoff u8_from_HashAlgorithm SecondPreImageResistantHash_defaults Default ?h of None \<Rightarrow> True | Some d \<Rightarrow> t < d)"
    using assms(1,2) by (simp add: decision_defs StandardPolicy_new_def effective_time_def result_simps check_cutoff_plain)
  moreover have "t < 854755200 \<Longrightarrow> t < 1075593600" "t < 1359676800 \<Longrightarrow> t < 1675209600"
    by (erule less_trans, simp)+
  moreover have len: "length CollisionResistantHash_defaults = 15" by (simp add: CollisionResistantHash_defaults_def)
  moreover have "FEBRUARY ! (1997 - 1970) = Y1997M2" "FEBRUARY ! (2013 - 1970) = Y2013M2"
    by (simp_all add: FEBRUARY_def Y1997M2_def Y2013M2_def)
  moreover have "?h = HashAlgorithm.Private u \<or> ?h = HashAlgorithm.Unknown u \<Longrightarrow>
      list_cutoff u8_from_HashAlgorithm CollisionResistantHash_defaults Default ?h = REJECT" for u
    using assms(3) hash_defaults_reject [of u]
    by (auto simp: list_cutoff_def DEFAULT_POLICY_def Let_def u8_from_HashAlgorithm_def HashAlgorithm_canonical_def HashAlgorithm_from_u8_def
        len word_le_nat_alt split: if_splits)
  ultimately show ?thesis
    by (cases ?h) (auto simp: list_cutoff_def CollisionResistantHash_defaults_def SecondPreImageResistantHash_defaults_def u8_from_HashAlgorithm_def
        REJECT_def UNIX_EPOCH_def ACCEPT_def Y1997M2_def Y2004M2_def Y2013M2_def Y2023M2_def)
qed


text \<open>A signature to look at: without subpackets, of any type and with any hash.\<close>

definition plain_signature :: "SignatureType \<Rightarrow> HashAlgorithm \<Rightarrow> SignaturePacket" where
  "plain_signature typ h =
     SignaturePacket.V4 (Signature4_new typ PublicKeyAlgorithm.EdDSA h (SubpacketArea [] None) (SubpacketArea [] None) (0, 0) (Signature.Unknown [] []))"

lemma plain_signature_fields:
  "sf_typ (Signature4.fields (SignaturePacket_deref (plain_signature typ h))) = typ"
  "sf_hash_algo (Signature4.fields (SignaturePacket_deref (plain_signature typ h))) = h"
  "packets (hashed_area (sf_subpackets (Signature4.fields (SignaturePacket_deref (plain_signature typ h))))) = []"
  by (simp_all add: plain_signature_def SignaturePacket_deref_def Signature4_new_def SubpacketAreas_new_def)

theorem standard_policy_hashes_witness:
  "StandardPolicy_signature 0 (StandardPolicy_new\<lparr>pol_time := Some 1400000000\<rparr>) (plain_signature SignatureType.Binary HashAlgorithm.SHA1)
     CollisionResistance \<noteq> Inr ()"
proof -
  have "\<not> (1400000000 :: u32) < FEBRUARY ! (2013 - 1970)" by (simp add: FEBRUARY_def)
  then show ?thesis
    using standard_policy_hashes [of "plain_signature SignatureType.Binary HashAlgorithm.SHA1" 0 1400000000]
    by (simp add: plain_signature_fields is_revocation_def HashAlgorithm_canonical_def)
qed

text \<open>
  The tolerance for revocations is added to every cutoff, also to the epoch, which stands for rejection: a revocation
  made with a hash that was rejected altogether is accepted until the tolerance has passed after the epoch.
\<close>

theorem rejected_hash_accepted:
  assumes "reject_hash h p = Inr p'" "pol_time p = Some t" "t < pol_hash_revocation_tolerance p"
    "is_revocation (sf_typ (Signature4.fields (SignaturePacket_deref sig)))" "sf_hash_algo (Signature4.fields (SignaturePacket_deref sig)) = h"
    "filter critical (packets (hashed_area (sf_subpackets (Signature4.fields (SignaturePacket_deref sig))))) = []"
  shows "StandardPolicy_signature now p' sig sec = Inr ()"
proof -
  obtain l1 where l1: "list_set u8_from_HashAlgorithm CollisionResistantHash_defaults h REJECT (pol_collision_resistant_hash_algos p) = Inr l1"
      "list_cutoff u8_from_HashAlgorithm CollisionResistantHash_defaults l1 h = REJECT"
    using list_set_ok [of u8_from_HashAlgorithm CollisionResistantHash_defaults h REJECT] by metis
  obtain l2 where l2: "list_set u8_from_HashAlgorithm SecondPreImageResistantHash_defaults h REJECT (pol_second_pre_image_resistant_hash_algos p) = Inr l2"
      "list_cutoff u8_from_HashAlgorithm SecondPreImageResistantHash_defaults l2 h = REJECT"
    using list_set_ok [of u8_from_HashAlgorithm SecondPreImageResistantHash_defaults h REJECT] by metis
  have p': "p' = p\<lparr>pol_collision_resistant_hash_algos := l1, pol_second_pre_image_resistant_hash_algos := l2\<rparr>"
    using assms(1) l1(1) l2(1) by (simp add: setter_defs)
  have "Timestamp_checked_add 0 d = Some d" for d
    using uint_u32_less [of d] by (simp add: Timestamp_checked_add_def u32_checked_add_def)
  then have "check_cutoff REJECT t (Some (pol_hash_revocation_tolerance p)) = Inr ()"
    using assms(3) by (simp add: check_cutoff_def REJECT_def UNIX_EPOCH_def Let_def)
  then show ?thesis
    using assms(2,4-6) l1(2) l2(2) by (simp add: decision_defs p' effective_time_def)
qed

theorem rejected_hash_accepted_witness:
  "\<exists>p'. reject_hash HashAlgorithm.MD5 (hash_revocation_tolerance (- 1) (StandardPolicy_new\<lparr>pol_time := Some 1700000000\<rparr>)) = Inr p'
     \<and> StandardPolicy_signature 0 p' (plain_signature SignatureType.KeyRevocation HashAlgorithm.MD5) CollisionResistance = Inr ()"
proof -
  let ?p = "hash_revocation_tolerance (- 1) (StandardPolicy_new\<lparr>pol_time := Some 1700000000\<rparr>)"
  have "tags_sorted (pol_packet_tags ?p)" by (simp add: hash_revocation_tolerance_def StandardPolicy_new_def tags_sorted_defaults)
  then obtain p' where p': "reject_hash HashAlgorithm.MD5 ?p = Inr p'"
    using apply_setting_ok [of ?p "RejectHash HashAlgorithm.MD5"] by auto
  have "StandardPolicy_signature 0 p' (plain_signature SignatureType.KeyRevocation HashAlgorithm.MD5) CollisionResistance = Inr ()"
    by (rule rejected_hash_accepted [OF p', of 1700000000])
      (simp_all add: plain_signature_fields is_revocation_def hash_revocation_tolerance_def StandardPolicy_new_def)
  with p' show ?thesis by blast
qed

text \<open>
  The rule that rejects signatures of version 5 never applies: no packet has that version, since the parser keeps such
  signatures as unknown packets, and unknown packets of the tag are accepted.
\<close>

theorem version_5_rule_unused:
  "Packet_version pkt \<noteq> Some 5
    \<and> StandardPolicy_packet now StandardPolicy_new (Packet.Unknown (UnknownPacket Tag.Signature err body)) = Inr ()"
proof
  show "Packet_version pkt \<noteq> Some 5"
    by (cases pkt) (simp_all add: Packet_version_def SignaturePacket_version_def OnePassSig_version_def Key_version_def PKESK_version_def
        SKESK_version_def SEIP_version_def split: SignaturePacket.split OnePassSig.split Key.split PKESK.split SKESK.split SEIP.split)
  show "StandardPolicy_packet now StandardPolicy_new (Packet.Unknown (UnknownPacket Tag.Signature err body)) = Inr ()"
    by (simp add: decision_defs StandardPolicy_new_def Packet_version_def tags_cutoff_def VersionedCutoffList_cutoff_def PacketTag_defaults_def
        assert_sorted_def version_search_def binary_search_by_def halve.simps Ordering_reverse_def cmp_then_def cmp_def version_less_def VecOrSlice_deref_def VecOrSlice_get_def u8_from_Tag_def ACCEPT_def check_cutoff_def)
qed

end
