(* ===== verification/SignatureAttributes.thy ===== *)
theory SignatureAttributes
  imports Signatures Times
begin

text \<open>
  The attributes of signatures: what the subpackets of a signature say (the accessors of \<open>SubpacketAreas\<close> in
  \<open>packet/signature/subpacket.rs\<close>), and the builder that sets them (\<open>SignatureBuilder\<close>, there and in \<open>packet/signature.rs\<close>),
  up to the point where the signature is computed.

  Times are nanoseconds of the system. What a key contributes is its version, algorithm, names and creation time; random octets and
  the current time are parameters.
\<close>

section \<open>Accessors\<close>

text \<open>The value of the subpacket that counts, and the values of all; a value of another kind is unreachable.\<close>

definition area_value :: "'sig SubpacketAreas \<Rightarrow> SubpacketTag \<Rightarrow> ('sig SubpacketValue \<Rightarrow> 'a option) \<Rightarrow> 'a option res" where
  "area_value s tag f =
     and_then (fst (SubpacketAreas_subpacket s tag)) (\<lambda>sb. Inr (case sb of Some sb \<Rightarrow> f (sp_value sb) | None \<Rightarrow> None))"

fun collect_values :: "('sig SubpacketValue \<Rightarrow> 'a option) \<Rightarrow> 'sig Subpacket list \<Rightarrow> 'a list res" where
  "collect_values f [] = Inr []"
| "collect_values f (sb # sbs) =
     (case f (sp_value sb) of None \<Rightarrow> Inl Panic | Some v \<Rightarrow> and_then (collect_values f sbs) (\<lambda>vs. Inr (v # vs)))"

definition area_values :: "'sig SubpacketAreas \<Rightarrow> SubpacketTag \<Rightarrow> ('sig SubpacketValue \<Rightarrow> 'a option) \<Rightarrow> 'a list res" where
  "area_values s tag f = collect_values f (SubpacketAreas_subpackets s tag)"

definition signature_creation_time :: "'sig SubpacketAreas \<Rightarrow> SystemTime option res" where
  "signature_creation_time s =
     area_value s SubpacketTag.SignatureCreationTime (\<lambda>v. case v of SubpacketValue.SignatureCreationTime t \<Rightarrow> Some (SystemTime_from t) | _ \<Rightarrow> None)"

definition signature_validity_period :: "'sig SubpacketAreas \<Rightarrow> int option res" where
  "signature_validity_period s =
     area_value s SubpacketTag.SignatureExpirationTime (\<lambda>v. case v of SubpacketValue.SignatureExpirationTime d \<Rightarrow> Some (SystemDuration_from d) | _ \<Rightarrow> None)"

definition key_validity_period :: "'sig SubpacketAreas \<Rightarrow> int option res" where
  "key_validity_period s =
     area_value s SubpacketTag.KeyExpirationTime (\<lambda>v. case v of SubpacketValue.KeyExpirationTime d \<Rightarrow> Some (SystemDuration_from d) | _ \<Rightarrow> None)"

definition exportable_certification :: "'sig SubpacketAreas \<Rightarrow> bool option res" where
  "exportable_certification s =
     area_value s SubpacketTag.ExportableCertification (\<lambda>v. case v of SubpacketValue.ExportableCertification v \<Rightarrow> Some v | _ \<Rightarrow> None)"

definition trust_signature :: "'sig SubpacketAreas \<Rightarrow> (u8 \<times> u8) option res" where
  "trust_signature s =
     area_value s SubpacketTag.TrustSignature (\<lambda>v. case v of SubpacketValue.TrustSignature lvl trust \<Rightarrow> Some ((lvl, trust)) | _ \<Rightarrow> None)"

definition revocable :: "'sig SubpacketAreas \<Rightarrow> bool option res" where
  "revocable s =
     area_value s SubpacketTag.Revocable (\<lambda>v. case v of SubpacketValue.Revocable v \<Rightarrow> Some v | _ \<Rightarrow> None)"

definition preferred_symmetric_algorithms :: "'sig SubpacketAreas \<Rightarrow> SymmetricAlgorithm list option res" where
  "preferred_symmetric_algorithms s =
     area_value s SubpacketTag.PreferredSymmetricAlgorithms (\<lambda>v. case v of SubpacketValue.PreferredSymmetricAlgorithms v \<Rightarrow> Some v | _ \<Rightarrow> None)"

definition preferred_hash_algorithms :: "'sig SubpacketAreas \<Rightarrow> HashAlgorithm list option res" where
  "preferred_hash_algorithms s =
     area_value s SubpacketTag.PreferredHashAlgorithms (\<lambda>v. case v of SubpacketValue.PreferredHashAlgorithms v \<Rightarrow> Some v | _ \<Rightarrow> None)"

definition preferred_compression_algorithms :: "'sig SubpacketAreas \<Rightarrow> CompressionAlgorithm list option res" where
  "preferred_compression_algorithms s =
     area_value s SubpacketTag.PreferredCompressionAlgorithms (\<lambda>v. case v of SubpacketValue.PreferredCompressionAlgorithms v \<Rightarrow> Some v | _ \<Rightarrow> None)"

definition preferred_aead_ciphersuites :: "'sig SubpacketAreas \<Rightarrow> (SymmetricAlgorithm \<times> AEADAlgorithm) list option res" where
  "preferred_aead_ciphersuites s =
     area_value s SubpacketTag.PreferredAEADCiphersuites (\<lambda>v. case v of SubpacketValue.PreferredAEADCiphersuites v \<Rightarrow> Some v | _ \<Rightarrow> None)"

definition key_server_preferences :: "'sig SubpacketAreas \<Rightarrow> KeyServerPreferences option res" where
  "key_server_preferences s =
     area_value s SubpacketTag.KeyServerPreferences (\<lambda>v. case v of SubpacketValue.KeyServerPreferences v \<Rightarrow> Some v | _ \<Rightarrow> None)"

definition preferred_key_server :: "'sig SubpacketAreas \<Rightarrow> bytes option res" where
  "preferred_key_server s =
     area_value s SubpacketTag.PreferredKeyServer (\<lambda>v. case v of SubpacketValue.PreferredKeyServer v \<Rightarrow> Some v | _ \<Rightarrow> None)"

definition policy_uri :: "'sig SubpacketAreas \<Rightarrow> bytes option res" where
  "policy_uri s =
     area_value s SubpacketTag.PolicyURI (\<lambda>v. case v of SubpacketValue.PolicyURI v \<Rightarrow> Some v | _ \<Rightarrow> None)"

definition primary_userid :: "'sig SubpacketAreas \<Rightarrow> bool option res" where
  "primary_userid s =
     area_value s SubpacketTag.PrimaryUserID (\<lambda>v. case v of SubpacketValue.PrimaryUserID v \<Rightarrow> Some v | _ \<Rightarrow> None)"

definition key_flags :: "'sig SubpacketAreas \<Rightarrow> KeyFlags option res" where
  "key_flags s =
     area_value s SubpacketTag.KeyFlags (\<lambda>v. case v of SubpacketValue.KeyFlags v \<Rightarrow> Some v | _ \<Rightarrow> None)"

definition signers_user_id :: "'sig SubpacketAreas \<Rightarrow> bytes option res" where
  "signers_user_id s =
     area_value s SubpacketTag.SignersUserID (\<lambda>v. case v of SubpacketValue.SignersUserID v \<Rightarrow> Some v | _ \<Rightarrow> None)"

definition reason_for_revocation :: "'sig SubpacketAreas \<Rightarrow> (ReasonForRevocation \<times> bytes) option res" where
  "reason_for_revocation s =
     area_value s SubpacketTag.ReasonForRevocation (\<lambda>v. case v of SubpacketValue.ReasonForRevocation code reason \<Rightarrow> Some ((code, reason)) | _ \<Rightarrow> None)"

definition features :: "'sig SubpacketAreas \<Rightarrow> Features option res" where
  "features s =
     area_value s SubpacketTag.Features (\<lambda>v. case v of SubpacketValue.Features v \<Rightarrow> Some v | _ \<Rightarrow> None)"

definition signature_target :: "'sig SubpacketAreas \<Rightarrow> (PublicKeyAlgorithm \<times> HashAlgorithm \<times> bytes) option res" where
  "signature_target s =
     area_value s SubpacketTag.SignatureTarget (\<lambda>v. case v of SubpacketValue.SignatureTarget pk hash digest1 \<Rightarrow> Some ((pk, hash, digest1)) | _ \<Rightarrow> None)"

definition regular_expressions :: "'sig SubpacketAreas \<Rightarrow> bytes list res" where
  "regular_expressions s =
     area_values s SubpacketTag.RegularExpression (\<lambda>v. case v of SubpacketValue.RegularExpression v \<Rightarrow> Some v | _ \<Rightarrow> None)"

definition revocation_keys :: "'sig SubpacketAreas \<Rightarrow> RevocationKey list res" where
  "revocation_keys s =
     area_values s SubpacketTag.RevocationKey (\<lambda>v. case v of SubpacketValue.RevocationKey v \<Rightarrow> Some v | _ \<Rightarrow> None)"

definition issuers :: "'sig SubpacketAreas \<Rightarrow> KeyID list res" where
  "issuers s =
     area_values s SubpacketTag.Issuer (\<lambda>v. case v of SubpacketValue.Issuer v \<Rightarrow> Some v | _ \<Rightarrow> None)"

definition issuer_fingerprints :: "'sig SubpacketAreas \<Rightarrow> Fingerprint list res" where
  "issuer_fingerprints s =
     area_values s SubpacketTag.IssuerFingerprint (\<lambda>v. case v of SubpacketValue.IssuerFingerprint v \<Rightarrow> Some v | _ \<Rightarrow> None)"

definition notation_data :: "'sig SubpacketAreas \<Rightarrow> NotationData list res" where
  "notation_data s =
     area_values s SubpacketTag.NotationData (\<lambda>v. case v of SubpacketValue.NotationData v \<Rightarrow> Some v | _ \<Rightarrow> None)"

definition embedded_signatures :: "'sig SubpacketAreas \<Rightarrow> 'sig list res" where
  "embedded_signatures s =
     area_values s SubpacketTag.EmbeddedSignature (\<lambda>v. case v of SubpacketValue.EmbeddedSignature v \<Rightarrow> Some v | _ \<Rightarrow> None)"

definition intended_recipients :: "'sig SubpacketAreas \<Rightarrow> Fingerprint list res" where
  "intended_recipients s =
     area_values s SubpacketTag.IntendedRecipient (\<lambda>v. case v of SubpacketValue.IntendedRecipient v \<Rightarrow> Some v | _ \<Rightarrow> None)"

definition notation_values :: "'sig SubpacketAreas \<Rightarrow> bytes \<Rightarrow> bytes list res" where
  "notation_values s name =
     and_then (notation_data s) (\<lambda>ns. Inr (map nd_value (filter (\<lambda>n. nd_name n = name) ns)))"

definition approved_certifications :: "'sig SubpacketAreas \<Rightarrow> bytes list res" where
  "approved_certifications s =
     (if length (SubpacketArea_subpackets (hashed_area s) SubpacketTag.ApprovedCertifications) > 1
         \<or> length (SubpacketArea_subpackets (unhashed_area s) SubpacketTag.ApprovedCertifications) \<noteq> 0
      then Inl (Err BadSignature)
      else
        and_then
          (area_values s SubpacketTag.ApprovedCertifications
             (\<lambda>v. case v of SubpacketValue.ApprovedCertifications ds \<Rightarrow> Some ds | _ \<Rightarrow> None))
          (\<lambda>dss. Inr (concat dss)))"

subsection \<open>Validity in time\<close>

definition signature_expiration_time :: "'sig SubpacketAreas \<Rightarrow> SystemTime option res" where
  "signature_expiration_time s =
     and_then (signature_creation_time s) (\<lambda>c.
       and_then (signature_validity_period s) (\<lambda>v.
         Inr (case (c, v) of (Some ct, Some vp) \<Rightarrow> if as_secs vp > 0 then Some (ct + vp) else None | _ \<Rightarrow> None)))"

definition CLOCK_SKEW_TOLERANCE :: int where
  "CLOCK_SKEW_TOLERANCE = 30 * 60 * NANOS_PER_SEC"

definition signature_alive :: "SystemTime \<Rightarrow> 'sig SubpacketAreas \<Rightarrow> SystemTime option \<Rightarrow> int option \<Rightarrow> unit res" where
  "signature_alive now s time1 clock_skew_tolerance =
     (let (t, tolerance) =
        (case (time1, clock_skew_tolerance) of
           (None, None) \<Rightarrow> (now, CLOCK_SKEW_TOLERANCE)
         | (None, Some tolerance) \<Rightarrow> (now, tolerance)
         | (Some t, None) \<Rightarrow> (t, 0)
         | (Some t, Some tolerance) \<Rightarrow> (t, tolerance)) in
      and_then (signature_creation_time s) (\<lambda>c.
        and_then (signature_validity_period s) (\<lambda>v.
          case c of
            None \<Rightarrow> Inl (Err MalformedPacket)
          | Some c \<Rightarrow>
              if (case v of Some e \<Rightarrow> as_secs e > 0 \<and> c + e \<le> t | None \<Rightarrow> False) then
                Inl (Err (Expired (c + (case v of Some e \<Rightarrow> e | None \<Rightarrow> 0))))
              else if max c tolerance - tolerance > t then Inl (Err (NotYetLive (max c tolerance - tolerance)))
              else Inr ())))"

definition key_expiration_time :: "'sig SubpacketAreas \<Rightarrow> SystemTime \<Rightarrow> SystemTime option res" where
  "key_expiration_time s key_creation_time =
     and_then (key_validity_period s) (\<lambda>v.
       Inr (case v of Some vp \<Rightarrow> if as_secs vp > 0 then Some (key_creation_time + vp) else None | None \<Rightarrow> None))"

definition key_alive :: "SystemTime \<Rightarrow> 'sig SubpacketAreas \<Rightarrow> SystemTime \<Rightarrow> SystemTime option \<Rightarrow> unit res" where
  "key_alive now s key_creation_time time1 =
     (let t = (case time1 of Some t \<Rightarrow> t | None \<Rightarrow> now) in
      and_then (key_validity_period s) (\<lambda>v.
        if (case v of Some e \<Rightarrow> as_secs e > 0 \<and> key_creation_time + e \<le> t | None \<Rightarrow> False) then
          Inl (Err (Expired (key_creation_time + (case v of Some e \<Rightarrow> e | None \<Rightarrow> 0))))
        else if key_creation_time > t then Inl (Err (NotYetLive key_creation_time))
        else Inr ()))"

section \<open>The builder\<close>

datatype SBVersion = SBV4 | SBV6 bytes

definition SBVersion_to_u8 :: "SBVersion \<Rightarrow> u8" where
  "SBVersion_to_u8 v = (case v of SBV4 \<Rightarrow> 4 | SBV6 _ \<Rightarrow> 6)"

definition SBVersion_salt :: "SBVersion \<Rightarrow> bytes option" where
  "SBVersion_salt v = (case v of SBV4 \<Rightarrow> None | SBV6 salt1 \<Rightarrow> Some salt1)"

record 'sig SignatureBuilder =
  sb_reference_time :: "SystemTime option"
  sb_overrode_creation_time :: bool
  sb_original_creation_time :: "SystemTime option"
  sb_fields :: "'sig SignatureFields"
  sb_version :: SBVersion

type_synonym 'sig builder_op = "'sig SignatureBuilder \<Rightarrow> 'sig SignatureBuilder res"

abbreviation sb_areas :: "'sig SignatureBuilder \<Rightarrow> 'sig SubpacketAreas" where
  "sb_areas b \<equiv> sf_subpackets (sb_fields b)"

definition HashAlgorithm_default :: HashAlgorithm where
  "HashAlgorithm_default = HashAlgorithm.SHA512"

definition SignatureBuilder_new :: "SignatureType \<Rightarrow> 'sig SignatureBuilder" where
  "SignatureBuilder_new type1 =
     \<lparr>sb_reference_time = None, sb_overrode_creation_time = False, sb_original_creation_time = None,
      sb_fields = SignatureFields 4 type1 (PublicKeyAlgorithm.Unknown 0) HashAlgorithm_default
        (SubpacketAreas (SubpacketArea [] None) (SubpacketArea [] None)),
      sb_version = SBV4\<rparr>"

definition map_fields :: "('sig SubpacketAreas \<Rightarrow> 'sig SubpacketAreas) \<Rightarrow> 'sig SignatureBuilder \<Rightarrow> 'sig SignatureBuilder" where
  "map_fields f b =
     (let d = sb_fields b in
      b\<lparr>sb_fields := SignatureFields (sf_version d) (sf_typ d) (sf_pk_algo d) (sf_hash_algo d) (f (sf_subpackets d))\<rparr>)"

definition set_type :: "SignatureType \<Rightarrow> 'sig SignatureBuilder \<Rightarrow> 'sig SignatureBuilder" where
  "set_type t b =
     (let d = sb_fields b in
      b\<lparr>sb_fields := SignatureFields (sf_version d) t (sf_pk_algo d) (sf_hash_algo d) (sf_subpackets d)\<rparr>)"

definition set_hash_algo :: "HashAlgorithm \<Rightarrow> 'sig SignatureBuilder \<Rightarrow> 'sig SignatureBuilder" where
  "set_hash_algo h b =
     (let d = sb_fields b in
      b\<lparr>sb_fields := SignatureFields (sf_version d) (sf_typ d) (sf_pk_algo d) h (sf_subpackets d)\<rparr>)"

subsection \<open>Setters\<close>

definition modify_hashed_area :: "('sig SubpacketArea \<Rightarrow> 'sig SubpacketArea res) \<Rightarrow> 'sig builder_op" where
  "modify_hashed_area f b =
     and_then (f (hashed_area (sb_areas b))) (\<lambda>a. Inr (map_fields (\<lambda>s. SubpacketAreas a (unhashed_area s)) b))"

definition modify_unhashed_area :: "('sig SubpacketArea \<Rightarrow> 'sig SubpacketArea res) \<Rightarrow> 'sig builder_op" where
  "modify_unhashed_area f b =
     and_then (f (unhashed_area (sb_areas b))) (\<lambda>a. Inr (map_fields (\<lambda>s. SubpacketAreas (hashed_area s) a) b))"

text \<open>What the setters do to the hashed area: make a subpacket, and replace the others of its kind, or add it.\<close>

definition replace_hashed :: "('sig \<Rightarrow> nat) \<Rightarrow> 'sig SubpacketValue \<Rightarrow> bool \<Rightarrow> 'sig builder_op" where
  "replace_hashed sig_len v crit b =
     and_then (Subpacket_new sig_len v crit) (\<lambda>sp. modify_hashed_area (\<lambda>a. SubpacketArea_replace sig_len a sp) b)"

definition add_hashed :: "('sig \<Rightarrow> nat) \<Rightarrow> 'sig SubpacketValue \<Rightarrow> bool \<Rightarrow> 'sig builder_op" where
  "add_hashed sig_len v crit b =
     and_then (Subpacket_new sig_len v crit) (\<lambda>sp. modify_hashed_area (\<lambda>a. SubpacketArea_add sig_len a sp) b)"

definition remove_hashed :: "SubpacketTag \<Rightarrow> 'sig SignatureBuilder \<Rightarrow> 'sig SignatureBuilder" where
  "remove_hashed tag b = map_fields (\<lambda>s. SubpacketAreas (SubpacketArea_remove_all (hashed_area s) tag) (unhashed_area s)) b"

definition remove_unhashed :: "SubpacketTag \<Rightarrow> 'sig SignatureBuilder \<Rightarrow> 'sig SignatureBuilder" where
  "remove_unhashed tag b = map_fields (\<lambda>s. SubpacketAreas (hashed_area s) (SubpacketArea_remove_all (unhashed_area s) tag)) b"

definition set_exportable_certification :: "('sig \<Rightarrow> nat) \<Rightarrow> bool \<Rightarrow> 'sig builder_op" where
  "set_exportable_certification sig_len exportable b = replace_hashed sig_len (SubpacketValue.ExportableCertification exportable) True b"

definition set_trust_signature :: "('sig \<Rightarrow> nat) \<Rightarrow> u8 \<Rightarrow> u8 \<Rightarrow> 'sig builder_op" where
  "set_trust_signature sig_len lvl trust b = replace_hashed sig_len (SubpacketValue.TrustSignature lvl trust) True b"

definition set_regular_expression :: "('sig \<Rightarrow> nat) \<Rightarrow> bytes \<Rightarrow> 'sig builder_op" where
  "set_regular_expression sig_len re b = replace_hashed sig_len (SubpacketValue.RegularExpression re) True b"

definition set_revocable :: "('sig \<Rightarrow> nat) \<Rightarrow> bool \<Rightarrow> 'sig builder_op" where
  "set_revocable sig_len revoc b = replace_hashed sig_len (SubpacketValue.Revocable revoc) True b"

definition set_preferred_symmetric_algorithms :: "('sig \<Rightarrow> nat) \<Rightarrow> SymmetricAlgorithm list \<Rightarrow> 'sig builder_op" where
  "set_preferred_symmetric_algorithms sig_len preferences b = replace_hashed sig_len (SubpacketValue.PreferredSymmetricAlgorithms preferences) False b"

definition set_preferred_hash_algorithms :: "('sig \<Rightarrow> nat) \<Rightarrow> HashAlgorithm list \<Rightarrow> 'sig builder_op" where
  "set_preferred_hash_algorithms sig_len preferences b = replace_hashed sig_len (SubpacketValue.PreferredHashAlgorithms preferences) False b"

definition set_preferred_compression_algorithms :: "('sig \<Rightarrow> nat) \<Rightarrow> CompressionAlgorithm list \<Rightarrow> 'sig builder_op" where
  "set_preferred_compression_algorithms sig_len preferences b = replace_hashed sig_len (SubpacketValue.PreferredCompressionAlgorithms preferences) False b"

definition set_key_server_preferences :: "('sig \<Rightarrow> nat) \<Rightarrow> KeyServerPreferences \<Rightarrow> 'sig builder_op" where
  "set_key_server_preferences sig_len preferences b = replace_hashed sig_len (SubpacketValue.KeyServerPreferences preferences) False b"

definition set_preferred_key_server :: "('sig \<Rightarrow> nat) \<Rightarrow> bytes \<Rightarrow> 'sig builder_op" where
  "set_preferred_key_server sig_len uri b = replace_hashed sig_len (SubpacketValue.PreferredKeyServer uri) False b"

definition set_primary_userid :: "('sig \<Rightarrow> nat) \<Rightarrow> bool \<Rightarrow> 'sig builder_op" where
  "set_primary_userid sig_len primary b = replace_hashed sig_len (SubpacketValue.PrimaryUserID primary) True b"

definition set_policy_uri :: "('sig \<Rightarrow> nat) \<Rightarrow> bytes \<Rightarrow> 'sig builder_op" where
  "set_policy_uri sig_len uri b = replace_hashed sig_len (SubpacketValue.PolicyURI uri) False b"

definition set_key_flags :: "('sig \<Rightarrow> nat) \<Rightarrow> KeyFlags \<Rightarrow> 'sig builder_op" where
  "set_key_flags sig_len fl b = replace_hashed sig_len (SubpacketValue.KeyFlags fl) True b"

definition set_signers_user_id :: "('sig \<Rightarrow> nat) \<Rightarrow> bytes \<Rightarrow> 'sig builder_op" where
  "set_signers_user_id sig_len uid b = replace_hashed sig_len (SubpacketValue.SignersUserID uid) False b"

definition set_reason_for_revocation :: "('sig \<Rightarrow> nat) \<Rightarrow> ReasonForRevocation \<Rightarrow> bytes \<Rightarrow> 'sig builder_op" where
  "set_reason_for_revocation sig_len code reason b = replace_hashed sig_len (SubpacketValue.ReasonForRevocation code reason) False b"

definition set_features :: "('sig \<Rightarrow> nat) \<Rightarrow> Features \<Rightarrow> 'sig builder_op" where
  "set_features sig_len fs b = replace_hashed sig_len (SubpacketValue.Features fs) False b"

definition set_signature_target :: "('sig \<Rightarrow> nat) \<Rightarrow> PublicKeyAlgorithm \<Rightarrow> HashAlgorithm \<Rightarrow> bytes \<Rightarrow> 'sig builder_op" where
  "set_signature_target sig_len pk hash digest1 b = replace_hashed sig_len (SubpacketValue.SignatureTarget pk hash digest1) True b"

definition set_preferred_aead_ciphersuites :: "('sig \<Rightarrow> nat) \<Rightarrow> (SymmetricAlgorithm \<times> AEADAlgorithm) list \<Rightarrow> 'sig builder_op" where
  "set_preferred_aead_ciphersuites sig_len preferences b = replace_hashed sig_len (SubpacketValue.PreferredAEADCiphersuites preferences) False b"

definition add_regular_expression :: "('sig \<Rightarrow> nat) \<Rightarrow> bytes \<Rightarrow> 'sig builder_op" where
  "add_regular_expression sig_len re b = add_hashed sig_len (SubpacketValue.RegularExpression re) True b"

definition add_revocation_key :: "('sig \<Rightarrow> nat) \<Rightarrow> RevocationKey \<Rightarrow> 'sig builder_op" where
  "add_revocation_key sig_len rk b = add_hashed sig_len (SubpacketValue.RevocationKey rk) True b"

definition add_issuer :: "('sig \<Rightarrow> nat) \<Rightarrow> KeyID \<Rightarrow> 'sig builder_op" where
  "add_issuer sig_len keyid1 b = add_hashed sig_len (SubpacketValue.Issuer keyid1) False b"

definition add_issuer_fingerprint :: "('sig \<Rightarrow> nat) \<Rightarrow> Fingerprint \<Rightarrow> 'sig builder_op" where
  "add_issuer_fingerprint sig_len fp b = add_hashed sig_len (SubpacketValue.IssuerFingerprint fp) False b"

definition add_intended_recipient :: "('sig \<Rightarrow> nat) \<Rightarrow> Fingerprint \<Rightarrow> 'sig builder_op" where
  "add_intended_recipient sig_len recipient b = add_hashed sig_len (SubpacketValue.IntendedRecipient recipient) False b"

definition set_revocation_key :: "('sig \<Rightarrow> nat) \<Rightarrow> RevocationKey \<Rightarrow> 'sig builder_op" where
  "set_revocation_key sig_len rk b = add_revocation_key sig_len rk (remove_hashed SubpacketTag.RevocationKey b)"

definition set_issuer :: "('sig \<Rightarrow> nat) \<Rightarrow> KeyID \<Rightarrow> 'sig builder_op" where
  "set_issuer sig_len keyid1 b =
     and_then (replace_hashed sig_len (SubpacketValue.Issuer keyid1) False b) (\<lambda>b.
       Inr (remove_unhashed SubpacketTag.Issuer b))"

definition set_issuer_fingerprint :: "('sig \<Rightarrow> nat) \<Rightarrow> Fingerprint \<Rightarrow> 'sig builder_op" where
  "set_issuer_fingerprint sig_len fp b =
     and_then (replace_hashed sig_len (SubpacketValue.IssuerFingerprint fp) False b) (\<lambda>b.
       Inr (remove_unhashed SubpacketTag.IssuerFingerprint b))"

definition set_embedded_signature :: "('sig \<Rightarrow> nat) \<Rightarrow> 'sig \<Rightarrow> 'sig builder_op" where
  "set_embedded_signature sig_len sig b =
     and_then (replace_hashed sig_len (SubpacketValue.EmbeddedSignature sig) True b) (\<lambda>b.
       Inr (remove_unhashed SubpacketTag.EmbeddedSignature b))"

fun add_all_recipients :: "('sig \<Rightarrow> nat) \<Rightarrow> Fingerprint list \<Rightarrow> 'sig builder_op" where
  "add_all_recipients sig_len [] b = Inr b"
| "add_all_recipients sig_len (fp # fps) b =
     and_then (add_hashed sig_len (SubpacketValue.IntendedRecipient fp) False b) (add_all_recipients sig_len fps)"

definition set_intended_recipients :: "('sig \<Rightarrow> nat) \<Rightarrow> Fingerprint list \<Rightarrow> 'sig builder_op" where
  "set_intended_recipients sig_len recipients b =
     add_all_recipients sig_len recipients (remove_hashed SubpacketTag.IntendedRecipient b)"

text \<open>The notation of a name is removed without touching the cache, which adding the new one invalidates.\<close>

definition add_notation :: "('sig \<Rightarrow> nat) \<Rightarrow> bytes \<Rightarrow> bytes \<Rightarrow> NotationDataFlags option \<Rightarrow> bool \<Rightarrow> 'sig builder_op" where
  "add_notation sig_len name val fl crit b =
     add_hashed sig_len (SubpacketValue.NotationData (NotationData_new name val fl)) crit b"

definition set_notation :: "('sig \<Rightarrow> nat) \<Rightarrow> bytes \<Rightarrow> bytes \<Rightarrow> NotationDataFlags option \<Rightarrow> bool \<Rightarrow> 'sig builder_op" where
  "set_notation sig_len name val fl crit b =
     add_notation sig_len name val fl crit
       (map_fields (\<lambda>s.
          SubpacketAreas
            (SubpacketArea
               (filter (\<lambda>p. \<not> (case sp_value p of SubpacketValue.NotationData n \<Rightarrow> nd_name n = name | _ \<Rightarrow> False))
                  (packets (hashed_area s)))
               (parsed (hashed_area s)))
            (unhashed_area s)) b)"

text \<open>Digests are sorted as slices of octets are.\<close>

fun slice_le :: "bytes \<Rightarrow> bytes \<Rightarrow> bool" where
  "slice_le [] _ = True"
| "slice_le (_ # _) [] = False"
| "slice_le (x # xs) (y # ys) = (x < y \<or> x = y \<and> slice_le xs ys)"

fun insert_digest :: "bytes \<Rightarrow> bytes list \<Rightarrow> bytes list" where
  "insert_digest d [] = [d]"
| "insert_digest d (e # es) = (if slice_le d e then d # e # es else e # insert_digest d es)"

definition set_approved_certifications :: "('sig \<Rightarrow> nat) \<Rightarrow> bytes list \<Rightarrow> 'sig builder_op" where
  "set_approved_certifications sig_len digests b =
     (if digests \<noteq> [] \<and> list_ex (\<lambda>d. length d \<noteq> length (hd digests)) digests then Inl (Err InvalidOperation)
      else replace_hashed sig_len (SubpacketValue.ApprovedCertifications (foldr insert_digest digests [])) True b)"

subsection \<open>Times\<close>

definition set_signature_creation_time :: "('sig \<Rightarrow> nat) \<Rightarrow> SystemTime \<Rightarrow> 'sig builder_op" where
  "set_signature_creation_time sig_len creation_time b =
     and_then (Timestamp_try_from creation_time) (\<lambda>t.
       and_then (replace_hashed sig_len (SubpacketValue.SignatureCreationTime t) True b) (\<lambda>b.
         Inr (b\<lparr>sb_overrode_creation_time := True\<rparr>)))"

definition preserve_signature_creation_time :: "('sig \<Rightarrow> nat) \<Rightarrow> 'sig builder_op" where
  "preserve_signature_creation_time sig_len b =
     (case sb_original_creation_time b of
        Some t \<Rightarrow> set_signature_creation_time sig_len t b
      | None \<Rightarrow> Inl (Err InvalidOperation))"

definition suppress_signature_creation_time :: "'sig builder_op" where
  "suppress_signature_creation_time b =
     Inr ((remove_unhashed SubpacketTag.SignatureCreationTime (remove_hashed SubpacketTag.SignatureCreationTime b))
            \<lparr>sb_overrode_creation_time := True\<rparr>)"

definition set_signature_validity_period :: "('sig \<Rightarrow> nat) \<Rightarrow> int \<Rightarrow> 'sig builder_op" where
  "set_signature_validity_period sig_len expires_in b =
     and_then (Duration_try_from expires_in) (\<lambda>d.
       replace_hashed sig_len (SubpacketValue.SignatureExpirationTime d) True b)"

definition set_key_validity_period :: "('sig \<Rightarrow> nat) \<Rightarrow> int option \<Rightarrow> 'sig builder_op" where
  "set_key_validity_period sig_len expires_in b =
     (case expires_in of
        Some e \<Rightarrow> and_then (Duration_try_from e) (\<lambda>d. replace_hashed sig_len (SubpacketValue.KeyExpirationTime d) True b)
      | None \<Rightarrow> Inr (remove_hashed SubpacketTag.KeyExpirationTime b))"

definition set_key_expiration_time :: "('sig \<Rightarrow> nat) \<Rightarrow> SystemTime \<Rightarrow> SystemTime option \<Rightarrow> 'sig builder_op" where
  "set_key_expiration_time sig_len key_creation_time expiration b =
     (case expiration of
        Some e \<Rightarrow>
          and_then (normalize_systemtime e) (\<lambda>e.
            if e < key_creation_time then Inl (Err InvalidArgument)
            else set_key_validity_period sig_len (Some (e - key_creation_time)) b)
      | None \<Rightarrow> set_key_validity_period sig_len None b)"

definition set_reference_time :: "SystemTime option \<Rightarrow> 'sig builder_op" where
  "set_reference_time reference_time b =
     (case reference_time of
        Some t \<Rightarrow> and_then (Timestamp_try_from t) (\<lambda>_. Inr (b\<lparr>sb_reference_time := reference_time\<rparr>))
      | None \<Rightarrow> Inr (b\<lparr>sb_reference_time := reference_time\<rparr>))"

definition SIG_BACKDATE_BY :: int where
  "SIG_BACKDATE_BY = 60"

definition effective_signature_creation_time :: "SystemTime \<Rightarrow> 'sig SignatureBuilder \<Rightarrow> SystemTime option res" where
  "effective_signature_creation_time now1 b =
     (let now = and_then (Timestamp_try_from (case sb_reference_time b of Some t \<Rightarrow> t | None \<Rightarrow> now1)) (\<lambda>t. Inr (SystemTime_from t)) in
      if \<not> sb_overrode_creation_time b then
        (case sb_original_creation_time b of
           Some orig \<Rightarrow>
             and_then now (\<lambda>now.
               let t = max (orig + 1 * NANOS_PER_SEC) (now - SIG_BACKDATE_BY * NANOS_PER_SEC) in
               if t > now then Inl (Err InvalidOperation) else Inr (Some t))
         | None \<Rightarrow> and_then now (\<lambda>now. Inr (Some now)))
      else signature_creation_time (sb_areas b))"

definition builder_expiration_time :: "SystemTime \<Rightarrow> 'sig SignatureBuilder \<Rightarrow> SystemTime option res" where
  "builder_expiration_time now b =
     and_then (signature_validity_period (sb_areas b)) (\<lambda>v.
       case (effective_signature_creation_time now b, v) of
         (Inr (Some ct), Some vp) \<Rightarrow> Inr (if as_secs vp > 0 then Some (ct + vp) else None)
       | (Inl Panic, _) \<Rightarrow> Inl Panic
       | _ \<Rightarrow> Inr None)"

subsection \<open>From a signature, and to one\<close>

definition builder_from_fields :: "'sig SignatureFields \<Rightarrow> 'sig SignatureBuilder res" where
  "builder_from_fields d =
     and_then (signature_creation_time (sf_subpackets d)) (\<lambda>creation_time.
       let strip = (\<lambda>a. SubpacketArea_remove_all
             (SubpacketArea_remove_all (SubpacketArea_remove_all a SubpacketTag.SignatureCreationTime) SubpacketTag.Issuer)
             SubpacketTag.IssuerFingerprint);
           s = sf_subpackets d in
       Inr \<lparr>sb_reference_time = None, sb_overrode_creation_time = False, sb_original_creation_time = creation_time,
            sb_fields = SignatureFields (sf_version d) (sf_typ d) (sf_pk_algo d) HashAlgorithm_default
              (SubpacketAreas (strip (hashed_area s)) (strip (unhashed_area s))),
            sb_version = SBV4\<rparr>)"

record signer_public =
  pub_pk_algo :: PublicKeyAlgorithm
  pub_version :: u8
  pub_keyid :: KeyID
  pub_fingerprint :: Fingerprint

definition presign_version :: "(nat \<Rightarrow> bytes res) \<Rightarrow> HashAlgorithm \<Rightarrow> SBVersion \<Rightarrow> u8 \<Rightarrow> SBVersion res" where
  "presign_version random h v key_version =
     (if key_version = 4 then Inr SBV4
      else if key_version = 6 then
        (case v of
           SBV4 \<Rightarrow> and_then (salt_size h) (\<lambda>n. and_then (random n) (\<lambda>salt1. Inr (SBV6 salt1)))
         | SBV6 salt1 \<Rightarrow> Inr (SBV6 salt1))
      else Inl (Err InvalidOperation))"

definition SALT_NOTATION :: bytes where
  "SALT_NOTATION =
     [0x73, 0x61, 0x6C, 0x74, 0x40, 0x6E, 0x6F, 0x74, 0x61, 0x74, 0x69, 0x6F, 0x6E, 0x73, 0x2E, 0x73, 0x65, 0x71, 0x75, 0x6F, 0x69,
      0x61, 0x2D, 0x70, 0x67, 0x70, 0x2E, 0x6F, 0x72, 0x67]"

text \<open>Only the first of the issuers is looked at.\<close>

definition no_issuers :: "'sig SubpacketAreas \<Rightarrow> bool res" where
  "no_issuers s =
     and_then
       (collect_values (\<lambda>v. case v of SubpacketValue.Issuer v \<Rightarrow> Some v | _ \<Rightarrow> None)
          (take 1 (SubpacketAreas_subpackets s SubpacketTag.Issuer)))
       (\<lambda>vs. Inr (vs = []))"

definition no_issuer_fingerprints :: "'sig SubpacketAreas \<Rightarrow> bool res" where
  "no_issuer_fingerprints s =
     and_then
       (collect_values (\<lambda>v. case v of SubpacketValue.IssuerFingerprint v \<Rightarrow> Some v | _ \<Rightarrow> None)
          (take 1 (SubpacketAreas_subpackets s SubpacketTag.IssuerFingerprint)))
       (\<lambda>vs. Inr (vs = []))"

definition presign_issuer :: "('sig \<Rightarrow> nat) \<Rightarrow> (nat \<Rightarrow> bytes res) \<Rightarrow> signer_public \<Rightarrow> 'sig builder_op" where
  "presign_issuer sig_len random pk b =
     (case sb_version b of
        SBV4 \<Rightarrow>
          and_then (no_issuers (sb_areas b)) (\<lambda>no_ids.
            and_then (if no_ids then no_issuer_fingerprints (sb_areas b) else Inr False) (\<lambda>none.
              and_then
                (if none then
                   and_then (set_issuer sig_len (pub_keyid pk) b) (set_issuer_fingerprint sig_len (pub_fingerprint pk))
                 else Inr b)
                (\<lambda>b. and_then (random 32) (\<lambda>salt1. set_notation sig_len SALT_NOTATION salt1 None False b))))
      | SBV6 _ \<Rightarrow>
          and_then (no_issuer_fingerprints (sb_areas b)) (\<lambda>none.
            if none then set_issuer_fingerprint sig_len (pub_fingerprint pk) b else Inr b))"

definition pre_sign :: "('sig \<Rightarrow> nat) \<Rightarrow> (nat \<Rightarrow> bytes res) \<Rightarrow> SystemTime \<Rightarrow> signer_public \<Rightarrow> 'sig builder_op" where
  "pre_sign sig_len random now pk b =
     and_then (presign_version random (sf_hash_algo (sb_fields b)) (sb_version b) (pub_version pk)) (\<lambda>v.
       let d = sb_fields b;
           b = b\<lparr>sb_version := v,
                  sb_fields := SignatureFields (SBVersion_to_u8 v) (sf_typ d) (pub_pk_algo pk) (sf_hash_algo d) (sf_subpackets d)\<rparr> in
       and_then
         (if \<not> sb_overrode_creation_time b then
            and_then (effective_signature_creation_time now b) (\<lambda>t.
              case t of Some t \<Rightarrow> set_signature_creation_time sig_len t b | None \<Rightarrow> Inr b)
          else Inr b)
         (\<lambda>b. and_then (presign_issuer sig_len random pk b) (\<lambda>b. Inr (map_fields SubpacketAreas_sort b))))"

definition prefix_salt :: "'sig SignatureBuilder \<Rightarrow> bytes option" where
  "prefix_salt b = SBVersion_salt (sb_version b)"

definition set_prefix_salt :: "bytes \<Rightarrow> 'sig SignatureBuilder \<Rightarrow> 'sig SignatureBuilder \<times> bytes option" where
  "set_prefix_salt new_salt b = (b\<lparr>sb_version := SBV6 new_salt\<rparr>, SBVersion_salt (sb_version b))"

definition builder_sign ::
    "(HashAlgorithm \<Rightarrow> bytes \<Rightarrow> Signature res) \<Rightarrow> bytes \<Rightarrow> 'sig SignatureBuilder \<Rightarrow> ('sig Signature4 + 'sig Signature6) res" where
  "builder_sign signer digest1 b =
     (if (case sb_version b of SBV6 _ \<Rightarrow> True | SBV4 \<Rightarrow> False) \<and> sf_pk_algo (sb_fields b) = PublicKeyAlgorithm.DSA
      then Inl (Err BadSignature)
      else
        and_then (signer (sf_hash_algo (sb_fields b)) digest1) (\<lambda>mpis.
          if length digest1 < 2 then Inl Panic
          else
            (let v4 = Signature4 (sb_fields b) (digest1 ! 0, digest1 ! 1) mpis (Some digest1) 0 None in
             case sb_version b of
               SBV4 \<Rightarrow> Inr (Inl v4)
             | SBV6 salt1 \<Rightarrow> and_then (Signature6_from_common v4 salt1) (\<lambda>s. Inr (Inr s)))))"

section \<open>What the unhashed area can say\<close>

lemma subpacket_from_hashed:
  "\<not> from_unhashed tag \<Longrightarrow> fst (SubpacketAreas_subpacket (SubpacketAreas h u) tag) = fst (SubpacketArea_subpacket h tag)"
  by (auto simp: SubpacketAreas_subpacket_def split: sum.splits option.splits prod.splits)

lemma area_value_hashed:
  "\<not> from_unhashed tag \<Longrightarrow> area_value (SubpacketAreas h u) tag f = area_value (SubpacketAreas h u') tag f"
  by (simp add: area_value_def subpacket_from_hashed)

lemma area_values_hashed:
  "\<not> from_unhashed tag \<Longrightarrow> area_values (SubpacketAreas h u) tag f = area_values (SubpacketAreas h u') tag f"
  by (simp add: area_values_def SubpacketAreas_subpackets_def)

text \<open>
  C35. The unhashed area, which a signature does not protect, has no influence on any accessor but those of issuers,
  embedded signatures and approved certifications.
\<close>

theorem unhashed_area_ignored:
  "signature_creation_time (SubpacketAreas h u) = signature_creation_time (SubpacketAreas h u')
    \<and> signature_validity_period (SubpacketAreas h u) = signature_validity_period (SubpacketAreas h u')
    \<and> key_validity_period (SubpacketAreas h u) = key_validity_period (SubpacketAreas h u')
    \<and> exportable_certification (SubpacketAreas h u) = exportable_certification (SubpacketAreas h u')
    \<and> trust_signature (SubpacketAreas h u) = trust_signature (SubpacketAreas h u')
    \<and> revocable (SubpacketAreas h u) = revocable (SubpacketAreas h u')
    \<and> preferred_symmetric_algorithms (SubpacketAreas h u) = preferred_symmetric_algorithms (SubpacketAreas h u')
    \<and> preferred_hash_algorithms (SubpacketAreas h u) = preferred_hash_algorithms (SubpacketAreas h u')
    \<and> preferred_compression_algorithms (SubpacketAreas h u) = preferred_compression_algorithms (SubpacketAreas h u')
    \<and> preferred_aead_ciphersuites (SubpacketAreas h u) = preferred_aead_ciphersuites (SubpacketAreas h u')
    \<and> key_server_preferences (SubpacketAreas h u) = key_server_preferences (SubpacketAreas h u')
    \<and> preferred_key_server (SubpacketAreas h u) = preferred_key_server (SubpacketAreas h u')
    \<and> policy_uri (SubpacketAreas h u) = policy_uri (SubpacketAreas h u')
    \<and> primary_userid (SubpacketAreas h u) = primary_userid (SubpacketAreas h u')
    \<and> key_flags (SubpacketAreas h u) = key_flags (SubpacketAreas h u')
    \<and> signers_user_id (SubpacketAreas h u) = signers_user_id (SubpacketAreas h u')
    \<and> reason_for_revocation (SubpacketAreas h u) = reason_for_revocation (SubpacketAreas h u')
    \<and> features (SubpacketAreas h u) = features (SubpacketAreas h u')
    \<and> signature_target (SubpacketAreas h u) = signature_target (SubpacketAreas h u')
    \<and> regular_expressions (SubpacketAreas h u) = regular_expressions (SubpacketAreas h u')
    \<and> revocation_keys (SubpacketAreas h u) = revocation_keys (SubpacketAreas h u')
    \<and> notation_data (SubpacketAreas h u) = notation_data (SubpacketAreas h u')
    \<and> intended_recipients (SubpacketAreas h u) = intended_recipients (SubpacketAreas h u')
    \<and> signature_expiration_time (SubpacketAreas h u) = signature_expiration_time (SubpacketAreas h u')
    \<and> signature_alive now (SubpacketAreas h u) t tolerance = signature_alive now (SubpacketAreas h u') t tolerance
    \<and> key_expiration_time (SubpacketAreas h u) kt = key_expiration_time (SubpacketAreas h u') kt
    \<and> key_alive now (SubpacketAreas h u) kt t = key_alive now (SubpacketAreas h u') kt t"
  unfolding signature_creation_time_def signature_validity_period_def key_validity_period_def exportable_certification_def trust_signature_def revocable_def preferred_symmetric_algorithms_def preferred_hash_algorithms_def preferred_compression_algorithms_def preferred_aead_ciphersuites_def key_server_preferences_def preferred_key_server_def policy_uri_def primary_userid_def key_flags_def signers_user_id_def reason_for_revocation_def features_def signature_target_def regular_expressions_def revocation_keys_def notation_data_def intended_recipients_def signature_expiration_time_def signature_alive_def key_expiration_time_def key_alive_def
  by (intro conjI)
    (simp_all add: from_unhashed_def area_value_hashed [where u = u and u' = u'] area_values_hashed [where u = u and u' = u'])

section \<open>Setting and getting\<close>

lemma subpacket_lookup:
  assumes "SubpacketArea_invar sig_len h" "SubpacketTag_canonical tag"
  shows "fst (SubpacketAreas_subpacket (SubpacketAreas h u) tag) =
    (case find_last (\<lambda>p. Subpacket_tag p = tag) (packets h) of
       Some sb \<Rightarrow> Inr (Some sb)
     | None \<Rightarrow> if from_unhashed tag then fst (SubpacketArea_subpacket u tag) else Inr None)"
  using invar_lookup(1) [OF assms] by (cases "find_last (\<lambda>p. Subpacket_tag p = tag) (packets h)")
    (auto simp: SubpacketAreas_subpacket_def split: prod.splits)

lemma Subpacket_new_value: "Subpacket_new sig_len v crit = Inr p \<Longrightarrow> sp_value p = v"
  by (auto simp: Subpacket_new_def with_length_def Let_def split: if_splits)

lemma replace_hashed_packets:
  assumes "SubpacketArea_invar sig_len (hashed_area (sb_areas b))" "SubpacketTag_canonical (SubpacketValue_tag v)"
    and "replace_hashed sig_len v crit b = Inr b'"
  obtains p a where "sb_areas b' = SubpacketAreas a (unhashed_area (sb_areas b))" "SubpacketArea_invar sig_len a" "sp_value p = v"
    "packets a = filter (\<lambda>w. Subpacket_tag w \<noteq> SubpacketValue_tag v) (packets (hashed_area (sb_areas b))) @ [p]"
proof -
  obtain q a where q: "Subpacket_new sig_len v crit = Inr q" "SubpacketArea_replace sig_len (hashed_area (sb_areas b)) q = Inr a"
      "b' = map_fields (\<lambda>s. SubpacketAreas a (unhashed_area s)) b"
    using assms(3) by (auto simp: replace_hashed_def modify_hashed_area_def result_simps)
  have v: "sp_value q = v" using Subpacket_new_value [OF q(1)] .
  then have "SubpacketArea_invar sig_len a \<and>
      packets a = filter (\<lambda>w. Subpacket_tag w \<noteq> Subpacket_tag q) (packets (hashed_area (sb_areas b))) @ [set_authenticated q False]"
    using area.replace [OF assms(1) _ q(2)] assms(2) by (simp add: Subpacket_tag_def)
  then show thesis
    using v q(3) by (intro that [of a "set_authenticated q False"])
      (simp_all add: map_fields_def Let_def Subpacket_tag_def set_authenticated_def)
qed

lemma area_value_replaced:
  assumes "SubpacketArea_invar sig_len (hashed_area (sb_areas b))" "SubpacketTag_canonical (SubpacketValue_tag v)"
    and "replace_hashed sig_len v crit b = Inr b'"
  shows "area_value (sb_areas b') (SubpacketValue_tag v) f = Inr (f v)"
    and "SubpacketTag_canonical tag \<Longrightarrow> tag \<noteq> SubpacketValue_tag v \<Longrightarrow> area_value (sb_areas b') tag f = area_value (sb_areas b) tag f"
proof -
  obtain p a where a: "sb_areas b' = SubpacketAreas a (unhashed_area (sb_areas b))" "SubpacketArea_invar sig_len a" "sp_value p = v"
      "packets a = filter (\<lambda>w. Subpacket_tag w \<noteq> SubpacketValue_tag v) (packets (hashed_area (sb_areas b))) @ [p]"
    using replace_hashed_packets [OF assms] by metis
  show "area_value (sb_areas b') (SubpacketValue_tag v) f = Inr (f v)"
    using a(3,4) by (simp add: a(1) area_value_def subpacket_lookup [OF a(2) assms(2)] Subpacket_tag_def)
  assume tag: "SubpacketTag_canonical tag" "tag \<noteq> SubpacketValue_tag v"
  have "find_last (\<lambda>p. Subpacket_tag p = tag) (packets a) = find_last (\<lambda>p. Subpacket_tag p = tag) (packets (hashed_area (sb_areas b)))"
    using a(3,4) tag(2) by (auto simp: find_last_filter Subpacket_tag_def intro!: arg_cong2 [where f = find_last])
  moreover have "sb_areas b = SubpacketAreas (hashed_area (sb_areas b)) (unhashed_area (sb_areas b))" by simp
  ultimately show "area_value (sb_areas b') tag f = area_value (sb_areas b) tag f"
    using subpacket_lookup [OF a(2) tag(1)] subpacket_lookup [OF assms(1) tag(1)] a(1) unfolding area_value_def by metis
qed

lemma and_then_known: "(\<And>x. m = Inr x \<Longrightarrow> f x = Inr y) \<Longrightarrow> and_then m f = and_then m (\<lambda>_. Inr y)"
  by (cases m) simp_all

lemma area_values_of:
  assumes "filter (\<lambda>p. Subpacket_tag p = tag) (packets h) = ps" "map (\<lambda>p. f (sp_value p)) ps = map Some vs"
    and "from_unhashed tag \<Longrightarrow> filter (\<lambda>p. Subpacket_tag p = tag) (packets u) = []"
  shows "area_values (SubpacketAreas h u) tag f = Inr vs"
proof -
  have "collect_values f ps = Inr vs" using assms(2) by (induction ps arbitrary: vs) (auto split: option.split)
  moreover have "filter (\<lambda>sp. from_unhashed tag \<and> Subpacket_tag sp = tag) (packets u) = []"
    using assms(3) by (cases "from_unhashed tag") (simp_all add: filter_empty_conv)
  ultimately show ?thesis
    using assms(1) by (simp add: area_values_def SubpacketAreas_subpackets_def SubpacketArea_subpackets_def)
qed

lemma area_values_replaced:
  assumes "SubpacketArea_invar sig_len (hashed_area (sb_areas b))" "SubpacketTag_canonical (SubpacketValue_tag v)"
    and "replace_hashed sig_len v crit b = Inr b'" "f v = Some x"
    and "from_unhashed (SubpacketValue_tag v) \<Longrightarrow> filter (\<lambda>p. Subpacket_tag p = SubpacketValue_tag v) (packets u) = []"
  shows "area_values (SubpacketAreas (hashed_area (sb_areas b')) u) (SubpacketValue_tag v) f = Inr [x]"
proof -
  obtain p a where a: "sb_areas b' = SubpacketAreas a (unhashed_area (sb_areas b))" "sp_value p = v"
      "packets a = filter (\<lambda>w. Subpacket_tag w \<noteq> SubpacketValue_tag v) (packets (hashed_area (sb_areas b))) @ [p]"
    using replace_hashed_packets [OF assms(1-3)] by metis
  then show ?thesis using assms(4,5) by (intro area_values_of [where ps = "[p]"]) (auto simp: Subpacket_tag_def)
qed

lemma sb_areas_remove:
  "sb_areas (remove_hashed tag b) = SubpacketAreas (SubpacketArea_remove_all (hashed_area (sb_areas b)) tag) (unhashed_area (sb_areas b))"
  "sb_areas (remove_unhashed tag b) = SubpacketAreas (hashed_area (sb_areas b)) (SubpacketArea_remove_all (unhashed_area (sb_areas b)) tag)"
  by (simp_all add: remove_hashed_def remove_unhashed_def map_fields_def Let_def)

lemma removed_none: "filter (\<lambda>p. Subpacket_tag p = tag) (packets (SubpacketArea_remove_all a tag)) = []"
  by (simp add: SubpacketArea_remove_all_def cache_invalidate_def Let_def)

lemma area_values_set:
  assumes "SubpacketArea_invar sig_len (hashed_area (sb_areas b))" "SubpacketTag_canonical (SubpacketValue_tag v)"
    and "replace_hashed sig_len v crit b = Inr b'" "f v = Some x"
  shows "area_values (sb_areas (remove_unhashed (SubpacketValue_tag v) b')) (SubpacketValue_tag v) f = Inr [x]"
  unfolding sb_areas_remove using assms by (intro area_values_replaced removed_none)

lemma add_hashed_packets:
  assumes "SubpacketArea_invar sig_len (hashed_area (sb_areas b))" "SubpacketTag_canonical (SubpacketValue_tag v)"
    and "add_hashed sig_len v crit b = Inr b'"
  obtains p a where "sb_areas b' = SubpacketAreas a (unhashed_area (sb_areas b))" "SubpacketArea_invar sig_len a" "sp_value p = v"
    "packets a = packets (hashed_area (sb_areas b)) @ [p]"
proof -
  obtain q a where q: "Subpacket_new sig_len v crit = Inr q" "SubpacketArea_add sig_len (hashed_area (sb_areas b)) q = Inr a"
      "b' = map_fields (\<lambda>s. SubpacketAreas a (unhashed_area s)) b"
    using assms(3) by (auto simp: add_hashed_def modify_hashed_area_def result_simps)
  have v: "sp_value q = v" using Subpacket_new_value [OF q(1)] .
  then have "SubpacketArea_invar sig_len a \<and> packets a = packets (hashed_area (sb_areas b)) @ [set_authenticated q False]"
    using area.add [OF assms(1) _ q(2)] assms(2) by (simp add: Subpacket_tag_def)
  then show thesis
    using v q(3) by (intro that [of a "set_authenticated q False"]) (simp_all add: map_fields_def Let_def set_authenticated_def)
qed

lemma remove_hashed_ok:
  assumes "SubpacketArea_invar sig_len (hashed_area (sb_areas b))"
  shows "SubpacketArea_invar sig_len (hashed_area (sb_areas (remove_hashed tag b)))"
    and "filter (\<lambda>p. Subpacket_tag p = tag) (packets (hashed_area (sb_areas (remove_hashed tag b)))) = []"
  using area.remove [OF assms, of tag] removed_none by (simp_all add: sb_areas_remove)

lemma canonical_recipient: "SubpacketTag_canonical (SubpacketValue_tag (SubpacketValue.IntendedRecipient fp))"
  by (simp add: SubpacketTag_canonical_def SubpacketValue_tag_def)

lemma add_all_recipients_values:
  assumes "SubpacketArea_invar sig_len (hashed_area (sb_areas b))" "add_all_recipients sig_len fps b = Inr b'"
    and "area_values (sb_areas b) SubpacketTag.IntendedRecipient f = Inr vs" "\<And>fp. f (SubpacketValue.IntendedRecipient fp) = Some fp"
  shows "area_values (sb_areas b') SubpacketTag.IntendedRecipient f = Inr (vs @ fps)"
  using assms(1-3)
proof (induction fps arbitrary: b vs)
  case (Cons fp fps)
  obtain b1 where b1: "add_hashed sig_len (SubpacketValue.IntendedRecipient fp) False b = Inr b1" "add_all_recipients sig_len fps b1 = Inr b'"
    using Cons.prems(2) by (auto simp: result_simps)
  obtain p a where a: "sb_areas b1 = SubpacketAreas a (unhashed_area (sb_areas b))" "SubpacketArea_invar sig_len a"
      "sp_value p = SubpacketValue.IntendedRecipient fp" "packets a = packets (hashed_area (sb_areas b)) @ [p]"
    using add_hashed_packets [OF Cons.prems(1) canonical_recipient b1(1)] by metis
  have "collect_values f (xs @ [p]) = Inr (ys @ [fp])" if "collect_values f xs = Inr ys" for xs ys
    using that a(3) assms(4) by (induction xs arbitrary: ys) (auto simp: result_simps split: option.splits)
  then have "area_values (sb_areas b1) SubpacketTag.IntendedRecipient f = Inr (vs @ [fp])"
    using Cons.prems(3) a
    by (simp add: area_values_def SubpacketAreas_subpackets_def SubpacketArea_subpackets_def from_unhashed_def Subpacket_tag_def SubpacketValue_tag_def)
  then show ?case using Cons.IH [of b1 "vs @ [fp]"] a b1(2) by simp
qed simp

lemma set_get:
  assumes "SubpacketArea_invar sig_len (hashed_area (sb_areas b))"
    and "SubpacketTag_canonical (SubpacketValue_tag v)" "tag = SubpacketValue_tag v" "f v = Some x"
  shows "and_then (replace_hashed sig_len v crit b) (\<lambda>b. area_value (sb_areas b) tag f) = and_then (replace_hashed sig_len v crit b) (\<lambda>_. Inr (Some x))"
  unfolding assms(3) using area_value_replaced(1) [OF assms(1,2), where f = f] assms(4) by (intro and_then_known) simp

lemma set_several:
  assumes "SubpacketArea_invar sig_len (hashed_area (sb_areas b))"
    and "SubpacketTag_canonical (SubpacketValue_tag v)" "tag = SubpacketValue_tag v" "f v = Some x" "\<not> from_unhashed tag"
    and "replace_hashed sig_len v crit b = Inr b'"
  shows "area_values (sb_areas b') tag f = Inr [x]"
  using area_values_replaced [OF assms(1,2,6), where f = f and x = x and u = "unhashed_area (sb_areas b')"] assms(3-5) by simp

lemma set_without_unhashed:
  assumes "SubpacketArea_invar sig_len (hashed_area (sb_areas b))"
    and "SubpacketTag_canonical (SubpacketValue_tag v)" "tag = SubpacketValue_tag v" "f v = Some x"
  shows "and_then (and_then (replace_hashed sig_len v crit b) (\<lambda>b. Inr (remove_unhashed tag b))) (\<lambda>b. area_values (sb_areas b) tag f) =
    and_then (and_then (replace_hashed sig_len v crit b) (\<lambda>b. Inr (remove_unhashed tag b))) (\<lambda>_. Inr [x])"
  unfolding assms(3) using area_values_set [OF assms(1,2), where f = f and x = x] assms(4) by (intro and_then_known) (auto simp: result_simps)

lemma add_to_removed:
  assumes "SubpacketArea_invar sig_len (hashed_area (sb_areas b))"
    and "SubpacketTag_canonical (SubpacketValue_tag v)" "tag = SubpacketValue_tag v" "f v = Some x" "\<not> from_unhashed tag"
    and "add_hashed sig_len v crit (remove_hashed tag b) = Inr b'"
  shows "area_values (sb_areas b') tag f = Inr [x]"
proof -
  obtain p a where a: "sb_areas b' = SubpacketAreas a (unhashed_area (sb_areas (remove_hashed tag b)))" "sp_value p = v"
      "packets a = packets (hashed_area (sb_areas (remove_hashed tag b))) @ [p]"
    using add_hashed_packets [OF remove_hashed_ok(1) [OF assms(1)] assms(2,6)] by metis
  then show ?thesis
    unfolding a(1) using assms(3-5) remove_hashed_ok(2) [OF assms(1), of tag]
    by (intro area_values_of [where ps = "[p]"]) (auto simp: Subpacket_tag_def)
qed

lemma set_recipients:
  assumes "SubpacketArea_invar sig_len (hashed_area (sb_areas b))"
    and "\<And>fp. f (SubpacketValue.IntendedRecipient fp) = Some fp"
    and "add_all_recipients sig_len fps (remove_hashed SubpacketTag.IntendedRecipient b) = Inr b'"
  shows "area_values (sb_areas b') SubpacketTag.IntendedRecipient f = Inr fps"
proof -
  let ?b = "remove_hashed SubpacketTag.IntendedRecipient b"
  have "area_values (SubpacketAreas (hashed_area (sb_areas ?b)) (unhashed_area (sb_areas ?b))) SubpacketTag.IntendedRecipient f = Inr []"
    using remove_hashed_ok(2) [OF assms(1)] by (intro area_values_of [where ps = "[]"]) (simp_all add: from_unhashed_def)
  then show ?thesis using add_all_recipients_values [OF remove_hashed_ok(1) [OF assms(1)] assms(3), of f "[]"] assms(2) by simp
qed

text \<open>The subpackets of a signature of nothing in them.\<close>

definition empty_builder :: "unit SignatureBuilder" where
  "empty_builder = SignatureBuilder_new SignatureType.Binary"

lemma empty_builder_invar: "SubpacketArea_invar (\<lambda>_. 0) (hashed_area (sb_areas empty_builder))"
  by (simp add: empty_builder_def SignatureBuilder_new_def area_defs)

lemmas builder_witness_simps = replace_hashed_def add_hashed_def modify_hashed_area_def empty_builder_def SignatureBuilder_new_def map_fields_def
  Subpacket_new_def with_length_def SubpacketArea_replace_def SubpacketArea_add_def add_internal_def SubpacketArea_remove_all_def
  cache_invalidate_def SubpacketArea_serialized_len_def Subpacket_serialized_len_def SubpacketLength_serialized_len_def
  SubpacketLength_from_u32_def SubpacketLength_len_def len_optimal_encoding_def BodyLength_serialized_len_def
  SubpacketValue_serialized_len_def set_authenticated_def Fingerprint_as_bytes_def Let_def

section \<open>Expiration\<close>

text \<open>
  A signature is alive from its creation, less the tolerance, until it expires, and a key from its creation until it expires; the
  protection against underflow makes no difference after the epoch.
\<close>

theorem alive_until_expiration:
  assumes "signature_creation_time s = Inr (Some c)" "signature_validity_period s = Inr v" "key_validity_period s = Inr kv"
    and "0 \<le> t" "0 \<le> tolerance"
  shows "(signature_alive now s (Some t) (Some tolerance) = Inr () \<longleftrightarrow>
      c - tolerance \<le> t \<and> (case signature_expiration_time s of Inr (Some x) \<Rightarrow> t < x | _ \<Rightarrow> True))
    \<and> (key_alive now s kt (Some t) = Inr () \<longleftrightarrow>
      kt \<le> t \<and> (case key_expiration_time s kt of Inr (Some x) \<Rightarrow> t < x | _ \<Rightarrow> True))"
  using assms
  by (cases v; cases kv)
    (auto simp: signature_alive_def signature_expiration_time_def key_alive_def key_expiration_time_def max_def)

lemma as_secs_times: "as_secs (x * NANOS_PER_SEC) = x"
  by (simp add: as_secs_def NANOS_PER_SEC_def)

text \<open>
  The expiration time of a key that is set is the one that is found, cut to seconds; but a key that is set to expire in the second of
  its creation never expires.
\<close>

lemma key_expiration_set_get:
  fixes b :: "'sig SignatureBuilder"
  assumes "SubpacketArea_invar sig_len (hashed_area (sb_areas b))" "kt = SystemTime_from ct"
    and "set_key_expiration_time sig_len kt (Some e) b = Inr b'"
  shows "key_expiration_time (sb_areas b') kt = Inr (if as_secs e = uint ct then None else Some (as_secs e * NANOS_PER_SEC))"
proof -
  have kt: "kt = uint ct * NANOS_PER_SEC" using assms(2) by (simp add: SystemTime_from_def)
  obtain d where e: "0 \<le> e" "kt \<le> as_secs e * NANOS_PER_SEC" "Duration_try_from (as_secs e * NANOS_PER_SEC - kt) = Inr d"
      "replace_hashed sig_len (SubpacketValue.KeyExpirationTime d) True b = Inr b'"
    using assms(3) by (auto simp: set_key_expiration_time_def set_key_validity_period_def normalize_systemtime_def result_simps split: if_splits)
  have le: "uint ct \<le> as_secs e" using e(2) by (simp add: kt NANOS_PER_SEC_def)
  have "as_secs (as_secs e * NANOS_PER_SEC - kt) = as_secs e - uint ct"
    unfolding kt left_diff_distrib [symmetric] by (rule as_secs_times)
  then have d: "uint d = as_secs e - uint ct"
    using Duration_try_from_uint [OF e(3)] e(2) by simp
  have tag: "SubpacketValue_tag (SubpacketValue.KeyExpirationTime d :: 'sig SubpacketValue) = SubpacketTag.KeyExpirationTime"
    "SubpacketTag_canonical (SubpacketValue_tag (SubpacketValue.KeyExpirationTime d :: 'sig SubpacketValue))"
    by (simp_all add: SubpacketTag_canonical_def SubpacketValue_tag_def)
  have "key_validity_period (sb_areas b') = Inr (Some (SystemDuration_from d))"
    unfolding key_validity_period_def tag(1) [symmetric]
    by (rule trans [OF area_value_replaced(1) [OF assms(1) tag(2) e(4)]]) simp
  moreover have "as_secs (SystemDuration_from d) = uint d" by (simp add: SystemDuration_from_def as_secs_times)
  moreover have "kt + SystemDuration_from d = as_secs e * NANOS_PER_SEC"
    unfolding kt SystemDuration_from_def d by (simp add: left_diff_distrib)
  ultimately show ?thesis using le d by (auto simp: key_expiration_time_def)
qed

section \<open>Before signing\<close>

text \<open>An operation that keeps the invariant of the hashed area and the subpacket of a tag in it.\<close>

definition keeps :: "('sig \<Rightarrow> nat) \<Rightarrow> SubpacketTag \<Rightarrow> 'sig SignatureBuilder \<Rightarrow> 'sig SignatureBuilder \<Rightarrow> bool" where
  "keeps sig_len tag b b' \<longleftrightarrow>
     SubpacketArea_invar sig_len (hashed_area (sb_areas b'))
     \<and> find_last (\<lambda>p. Subpacket_tag p = tag) (packets (hashed_area (sb_areas b'))) =
       find_last (\<lambda>p. Subpacket_tag p = tag) (packets (hashed_area (sb_areas b)))"

abbreviation sb_invar :: "('sig \<Rightarrow> nat) \<Rightarrow> 'sig SignatureBuilder \<Rightarrow> bool" where
  "sb_invar sig_len b \<equiv> SubpacketArea_invar sig_len (hashed_area (sb_areas b))"

lemma keeps_trans: "keeps sig_len tag a b \<Longrightarrow> keeps sig_len tag b c \<Longrightarrow> keeps sig_len tag a c"
  by (simp add: keeps_def)

lemma replace_hashed_keeps:
  assumes "sb_invar sig_len b" "SubpacketTag_canonical (SubpacketValue_tag v)" "replace_hashed sig_len v crit b = Inr b'"
    and "tag \<noteq> SubpacketValue_tag v"
  shows "keeps sig_len tag b b'"
proof -
  obtain p a where a: "sb_areas b' = SubpacketAreas a (unhashed_area (sb_areas b))" "SubpacketArea_invar sig_len a" "sp_value p = v"
      "packets a = filter (\<lambda>w. Subpacket_tag w \<noteq> SubpacketValue_tag v) (packets (hashed_area (sb_areas b))) @ [p]"
    using replace_hashed_packets [OF assms(1-3)] by metis
  then show ?thesis
    using assms(4) by (auto simp: keeps_def find_last_filter Subpacket_tag_def intro!: arg_cong2 [where f = find_last])
qed

lemma remove_unhashed_keeps: "sb_invar sig_len b \<Longrightarrow> keeps sig_len tag b (remove_unhashed t b)"
  by (simp add: keeps_def sb_areas_remove)

lemma sort_keeps:
  assumes "sb_invar sig_len b"
  shows "keeps sig_len tag b (map_fields SubpacketAreas_sort b)"
proof -
  have "hashed_area (sb_areas (map_fields SubpacketAreas_sort b)) = SubpacketArea_sort (hashed_area (sb_areas b))"
    by (simp add: map_fields_def SubpacketAreas_sort_def Let_def)
  moreover have "SubpacketArea_invar sig_len (SubpacketArea_sort (hashed_area (sb_areas b)))"
    "SubpacketArea_lookup (SubpacketArea_sort (hashed_area (sb_areas b))) tag = SubpacketArea_lookup (hashed_area (sb_areas b)) tag"
    using sort_lookup [OF assms] by simp_all
  ultimately show ?thesis using invar_lookup(2) [of sig_len _ tag] assms unfolding keeps_def by metis
qed

text \<open>The notation is removed behind the back of the cache, and the cache is gone when the new one is added.\<close>

lemma SubpacketArea_add_any_cache: "SubpacketArea_add sig_len (SubpacketArea ps c) p = SubpacketArea_add sig_len (SubpacketArea ps None) p"
  by (simp add: SubpacketArea_add_def add_internal_def SubpacketArea_serialized_len_def cache_invalidate_def Let_def)

lemma filter_invar:
  assumes "SubpacketArea_invar sig_len a"
  shows "SubpacketArea_invar sig_len (SubpacketArea (filter P (packets a)) None)"
  using assms filter_serialized_le [of "Subpacket_serialized_len sig_len" P "packets a"] by (auto simp: area_defs list_all_iff)

lemma set_notation_keeps:
  fixes b :: "'sig SignatureBuilder"
  assumes "sb_invar sig_len b" "set_notation sig_len name val fl crit b = Inr b'" "tag \<noteq> SubpacketTag.NotationData"
  shows "keeps sig_len tag b b'
    \<and> (\<forall>p \<in> set (packets (hashed_area (sb_areas b))). Subpacket_tag p \<noteq> SubpacketTag.NotationData \<longrightarrow> p \<in> set (packets (hashed_area (sb_areas b'))))
    \<and> unhashed_area (sb_areas b') = unhashed_area (sb_areas b)"
proof -
  define keep where "keep = (\<lambda>p :: 'sig Subpacket. \<not> (case sp_value p of SubpacketValue.NotationData n \<Rightarrow> nd_name n = name | _ \<Rightarrow> False))"
  have keep: "keep p" if "Subpacket_tag p \<noteq> SubpacketTag.NotationData" for p
    using that by (auto simp: keep_def Subpacket_tag_def SubpacketValue_tag_def split: SubpacketValue.splits)
  let ?v = "SubpacketValue.NotationData (NotationData_new name val fl) :: 'sig SubpacketValue"
  have tag: "SubpacketValue_tag ?v = SubpacketTag.NotationData" by (simp add: SubpacketValue_tag_def)
  obtain q a where q: "Subpacket_new sig_len ?v crit = Inr q"
      "SubpacketArea_add sig_len (SubpacketArea (filter keep (packets (hashed_area (sb_areas b)))) None) q = Inr a"
      "sb_areas b' = SubpacketAreas a (unhashed_area (sb_areas b))"
    using assms(2) unfolding keep_def
    by (auto simp: set_notation_def add_notation_def add_hashed_def modify_hashed_area_def map_fields_def Let_def
        SubpacketArea_add_any_cache [where c = "parsed (hashed_area (sb_areas b))"] result_simps)
  have qt: "Subpacket_tag q = SubpacketTag.NotationData"
    using Subpacket_new_value [OF q(1)] tag by (simp add: Subpacket_tag_def)
  have a: "SubpacketArea_invar sig_len a" "packets a = filter keep (packets (hashed_area (sb_areas b))) @ [set_authenticated q False]"
    using area.add [OF filter_invar [OF assms(1)] _ q(2)] qt by (simp_all add: SubpacketTag_canonical_def)
  have "(\<lambda>p. keep p \<and> Subpacket_tag p = tag) = (\<lambda>p. Subpacket_tag p = tag)" using keep assms(3) by blast
  then have "find_last (\<lambda>p. Subpacket_tag p = tag) (packets a) = find_last (\<lambda>p. Subpacket_tag p = tag) (packets (hashed_area (sb_areas b)))"
    using qt assms(3) by (simp add: a(2) find_last_filter)
  then show ?thesis using q(3) a keep by (simp add: keeps_def)
qed

text \<open>A signature names its issuer if a subpacket with a key id or fingerprint is in either area.\<close>

definition names_issuer :: "'sig SubpacketAreas \<Rightarrow> bool" where
  "names_issuer s \<longleftrightarrow>
     (\<exists>p \<in> set (packets (hashed_area s)) \<union> set (packets (unhashed_area s)). Subpacket_tag p \<in> {SubpacketTag.Issuer, SubpacketTag.IssuerFingerprint})"

lemma collect_first: "and_then (collect_values f (take 1 xs)) (\<lambda>vs. Inr (vs = [])) = Inr False \<Longrightarrow> xs \<noteq> []"
  by (cases xs) auto

lemma issuer_present:
  "no_issuers s = Inr False \<Longrightarrow> names_issuer s" "no_issuer_fingerprints s = Inr False \<Longrightarrow> names_issuer s"
proof -
  have "SubpacketAreas_subpackets s tag \<noteq> [] \<Longrightarrow> tag \<in> {SubpacketTag.Issuer, SubpacketTag.IssuerFingerprint} \<Longrightarrow> names_issuer s" for tag
    by (auto simp: SubpacketAreas_subpackets_def SubpacketArea_subpackets_def names_issuer_def filter_empty_conv)
  then show "no_issuers s = Inr False \<Longrightarrow> names_issuer s" "no_issuer_fingerprints s = Inr False \<Longrightarrow> names_issuer s"
    unfolding no_issuers_def no_issuer_fingerprints_def by (metis collect_first insertCI)+
qed

lemma set_issuer_fingerprint_ok:
  assumes "sb_invar sig_len b" "set_issuer_fingerprint sig_len fp b = Inr b'" "tag \<noteq> SubpacketTag.IssuerFingerprint"
  shows "keeps sig_len tag b b' \<and> names_issuer (sb_areas b')"
proof -
  obtain b1 where b1: "replace_hashed sig_len (SubpacketValue.IssuerFingerprint fp) False b = Inr b1" "b' = remove_unhashed SubpacketTag.IssuerFingerprint b1"
    using assms(2) by (auto simp: set_issuer_fingerprint_def result_simps)
  have c: "SubpacketTag_canonical (SubpacketValue_tag (SubpacketValue.IssuerFingerprint fp :: 'a SubpacketValue))"
    by (simp add: SubpacketTag_canonical_def SubpacketValue_tag_def)
  obtain p a where a: "sb_areas b1 = SubpacketAreas a (unhashed_area (sb_areas b))" "SubpacketArea_invar sig_len a"
      "sp_value p = SubpacketValue.IssuerFingerprint fp" "p \<in> set (packets a)"
    using replace_hashed_packets [OF assms(1) c b1(1)] by (metis in_set_conv_decomp)
  have "keeps sig_len tag b b1"
    using replace_hashed_keeps [OF assms(1) c b1(1)] assms(3) by (simp add: SubpacketValue_tag_def)
  moreover have "keeps sig_len tag b1 b'" using a(1,2) by (simp add: b1(2) remove_unhashed_keeps)
  moreover have "names_issuer (sb_areas b')"
    using a unfolding b1(2) sb_areas_remove names_issuer_def by (auto simp: Subpacket_tag_def SubpacketValue_tag_def intro!: bexI [of _ p])
  ultimately show ?thesis using keeps_trans by blast
qed

lemma set_issuer_keeps:
  assumes "sb_invar sig_len b" "set_issuer sig_len keyid1 b = Inr b'" "tag \<noteq> SubpacketTag.Issuer"
  shows "keeps sig_len tag b b'"
proof -
  obtain b1 where b1: "replace_hashed sig_len (SubpacketValue.Issuer keyid1) False b = Inr b1" "b' = remove_unhashed SubpacketTag.Issuer b1"
    using assms(2) by (auto simp: set_issuer_def result_simps)
  have "keeps sig_len tag b b1"
    using assms(3) by (intro replace_hashed_keeps [OF assms(1) _ b1(1)]) (simp_all add: SubpacketTag_canonical_def SubpacketValue_tag_def)
  moreover from this have "keeps sig_len tag b1 b'" by (simp add: b1(2) keeps_def sb_areas_remove)
  ultimately show ?thesis by (rule keeps_trans)
qed

lemma names_issuer_sort: "names_issuer (sb_areas (map_fields SubpacketAreas_sort b)) = names_issuer (sb_areas b)"
  by (simp add: names_issuer_def map_fields_def SubpacketAreas_sort_def SubpacketArea_sort_def cache_invalidate_def Let_def)

lemma set_notation_names_issuer:
  assumes "sb_invar sig_len b" "set_notation sig_len name val fl crit b = Inr b'" "names_issuer (sb_areas b)"
  shows "names_issuer (sb_areas b')"
  using set_notation_keeps [OF assms(1,2), of SubpacketTag.Issuer] assms(3) unfolding names_issuer_def by auto

lemma presign_issuer_ok:
  assumes inv: "sb_invar sig_len b" and "presign_issuer sig_len random pk b = Inr b'"
    and tag: "tag = SubpacketTag.SignatureCreationTime"
  shows "keeps sig_len tag b b' \<and> names_issuer (sb_areas b')"
proof (cases "sb_version b")
  case SBV4
  obtain no_ids none b1 salt1 where ids: "no_issuers (sb_areas b) = Inr no_ids"
      "(if no_ids then no_issuer_fingerprints (sb_areas b) else Inr False) = Inr none"
    and b1: "(if none then and_then (set_issuer sig_len (pub_keyid pk) b) (set_issuer_fingerprint sig_len (pub_fingerprint pk)) else Inr b) = Inr b1"
      "set_notation sig_len SALT_NOTATION salt1 None False b1 = Inr b'"
    using assms(2) unfolding presign_issuer_def SBV4 SBVersion.case and_then_eq_Inr by blast
  have "keeps sig_len tag b b1 \<and> names_issuer (sb_areas b1)"
  proof (cases none)
    case True
    then obtain b0 where b0: "set_issuer sig_len (pub_keyid pk) b = Inr b0" "set_issuer_fingerprint sig_len (pub_fingerprint pk) b0 = Inr b1"
      using b1(1) by (auto simp: result_simps)
    have k: "keeps sig_len tag b b0" using set_issuer_keeps [OF inv b0(1)] by (simp add: tag)
    then have "keeps sig_len tag b0 b1 \<and> names_issuer (sb_areas b1)"
      using set_issuer_fingerprint_ok [OF _ b0(2), of tag] by (simp add: keeps_def tag)
    then show ?thesis using keeps_trans [OF k] by blast
  next
    case False
    then have "no_issuers (sb_areas b) = Inr False \<or> no_issuer_fingerprints (sb_areas b) = Inr False" "b1 = b"
      using ids b1(1) by (auto split: if_splits)
    then show ?thesis using issuer_present [of "sb_areas b"] inv by (auto simp: keeps_def)
  qed
  moreover from this have inv1: "sb_invar sig_len b1" by (simp add: keeps_def)
  moreover have "keeps sig_len tag b1 b'" using set_notation_keeps [OF inv1 b1(2), of tag] by (simp add: tag)
  ultimately show ?thesis using keeps_trans set_notation_names_issuer [OF inv1 b1(2)] by blast
next
  case (SBV6 salt1)
  then obtain none where none: "no_issuer_fingerprints (sb_areas b) = Inr none"
      "(if none then set_issuer_fingerprint sig_len (pub_fingerprint pk) b else Inr b) = Inr b'"
    using assms(2) by (auto simp: presign_issuer_def result_simps)
  then show ?thesis
    using set_issuer_fingerprint_ok [OF inv, of _ b' tag] issuer_present(2) inv by (cases none) (auto simp: keeps_def tag)
qed

text \<open>Which operations leave the version and the algorithm alone.\<close>

lemma fields_kept:
  "replace_hashed sig_len v crit b = Inr b' \<Longrightarrow> sf_version (sb_fields b') = sf_version (sb_fields b) \<and> sf_pk_algo (sb_fields b') = sf_pk_algo (sb_fields b)"
  "add_hashed sig_len v crit b = Inr b' \<Longrightarrow> sf_version (sb_fields b') = sf_version (sb_fields b) \<and> sf_pk_algo (sb_fields b') = sf_pk_algo (sb_fields b)"
  "sf_version (sb_fields (map_fields f b)) = sf_version (sb_fields b)"
  "sf_pk_algo (sb_fields (map_fields f b)) = sf_pk_algo (sb_fields b)"
  by (auto simp: replace_hashed_def add_hashed_def modify_hashed_area_def map_fields_def Let_def result_simps)

lemma presign_issuer_fields:
  "presign_issuer sig_len random pk b = Inr b' \<Longrightarrow>
   sf_version (sb_fields b') = sf_version (sb_fields b) \<and> sf_pk_algo (sb_fields b') = sf_pk_algo (sb_fields b)"
  by (auto simp: presign_issuer_def set_issuer_def set_issuer_fingerprint_def set_notation_def add_notation_def remove_unhashed_def result_simps
      dest!: fields_kept(1,2) split: SBVersion.splits if_splits)
    (simp_all add: fields_kept)

lemma set_signature_creation_time_get:
  fixes b :: "'sig SignatureBuilder"
  assumes "sb_invar sig_len b" "set_signature_creation_time sig_len (SystemTime_from w) b = Inr b'"
  shows "sb_invar sig_len b' \<and> find_last (\<lambda>p. Subpacket_tag p = SubpacketTag.SignatureCreationTime) (packets (hashed_area (sb_areas b'))) \<noteq> None
    \<and> signature_creation_time (sb_areas b') = Inr (Some (SystemTime_from w))
    \<and> sf_version (sb_fields b') = sf_version (sb_fields b) \<and> sf_pk_algo (sb_fields b') = sf_pk_algo (sb_fields b)"
proof -
  let ?v = "SubpacketValue.SignatureCreationTime w :: 'sig SubpacketValue"
  obtain b1 where b1: "replace_hashed sig_len ?v True b = Inr b1" "b' = b1\<lparr>sb_overrode_creation_time := True\<rparr>"
    using assms(2) by (auto simp: set_signature_creation_time_def time_conversions(1) result_simps)
  have tag: "SubpacketValue_tag ?v = SubpacketTag.SignatureCreationTime" "SubpacketTag_canonical (SubpacketValue_tag ?v)"
    by (simp_all add: SubpacketTag_canonical_def SubpacketValue_tag_def)
  obtain p a where a: "sb_areas b1 = SubpacketAreas a (unhashed_area (sb_areas b))" "SubpacketArea_invar sig_len a" "sp_value p = ?v"
      "packets a = filter (\<lambda>w. Subpacket_tag w \<noteq> SubpacketValue_tag ?v) (packets (hashed_area (sb_areas b))) @ [p]"
    using replace_hashed_packets [OF assms(1) tag(2) b1(1)] by metis
  have "signature_creation_time (sb_areas b1) = Inr (Some (SystemTime_from w))"
    unfolding signature_creation_time_def tag(1) [symmetric] by (rule trans [OF area_value_replaced(1) [OF assms(1) tag(2) b1(1)]]) simp
  then show ?thesis using a tag(1) fields_kept(1) [OF b1(1)] by (simp add: b1(2) Subpacket_tag_def)
qed

lemma creation_time_kept:
  assumes "sb_invar sig_len b" "keeps sig_len SubpacketTag.SignatureCreationTime b b'"
  shows "signature_creation_time (sb_areas b') = signature_creation_time (sb_areas b)"
proof -
  have "SubpacketTag_canonical SubpacketTag.SignatureCreationTime" by (simp add: SubpacketTag_canonical_def)
  then have "fst (SubpacketAreas_subpacket (sb_areas c) SubpacketTag.SignatureCreationTime) =
      Inr (find_last (\<lambda>p. Subpacket_tag p = SubpacketTag.SignatureCreationTime) (packets (hashed_area (sb_areas c))))"
    if "sb_invar sig_len c" for c :: "'a SignatureBuilder"
    using subpacket_lookup [OF that, of _ "unhashed_area (sb_areas c)"] by (simp add: from_unhashed_def split: option.split)
  then show ?thesis using assms by (simp add: signature_creation_time_def area_value_def keeps_def)
qed

lemma whole_second:
  assumes "Timestamp_try_from (k * NANOS_PER_SEC) = Inr w"
  shows "SystemTime_from w = k * NANOS_PER_SEC"
proof -
  have "0 \<le> k * NANOS_PER_SEC" "as_secs (k * NANOS_PER_SEC) \<le> 0xFFFFFFFF" "w = word_of_int (as_secs (k * NANOS_PER_SEC))"
    using assms by (auto simp: Timestamp_try_from_def split: if_splits)
  then have "0 \<le> k" "k < 2 ^ 32" "w = word_of_int k" unfolding as_secs_times by (simp_all add: NANOS_PER_SEC_def zero_le_mult_iff)
  then show ?thesis by (simp add: SystemTime_from_def uint_word_of_int_eq take_bit_int_eq_self)
qed

lemma effective_time:
  assumes "\<not> sb_overrode_creation_time b" "sb_original_creation_time b = map_option SystemTime_from orig"
    and "clock = (case sb_reference_time b of Some t \<Rightarrow> t | None \<Rightarrow> now)" "effective_signature_creation_time now b = Inr t0"
  shows "\<exists>k. t0 = Some (k * NANOS_PER_SEC) \<and> k * NANOS_PER_SEC \<le> clock
    \<and> (case orig of
          Some o1 \<Rightarrow> SystemTime_from o1 < k * NANOS_PER_SEC \<and> clock - k * NANOS_PER_SEC < (SIG_BACKDATE_BY + 1) * NANOS_PER_SEC
        | None \<Rightarrow> clock - k * NANOS_PER_SEC < NANOS_PER_SEC)"
proof -
  obtain nw where nw: "Timestamp_try_from clock = Inr nw"
    using assms by (cases orig; cases "Timestamp_try_from clock") (auto simp: effective_signature_creation_time_def)
  have n: "uint nw * 1000000000 \<le> clock" "clock < uint nw * 1000000000 + 1000000000"
    using time_conversions(2) [OF nw] by (simp_all add: SystemTime_from_def NANOS_PER_SEC_def)
  show ?thesis
  proof (cases orig)
    case None
    then show ?thesis
      using assms nw n by (intro exI [of _ "uint nw"]) (auto simp: effective_signature_creation_time_def SystemTime_from_def SIG_BACKDATE_BY_def NANOS_PER_SEC_def)
  next
    case (Some o1)
    define k where "k = max (uint o1 + 1) (uint nw - 60)"
    have k: "k * 1000000000 = max (uint o1 * 1000000000 + 1000000000) (uint nw * 1000000000 - 60000000000)"
      by (simp add: k_def max_def)
    have "\<not> uint nw * 1000000000 < k * 1000000000 \<and> t0 = Some (k * 1000000000)"
      using assms nw Some unfolding k
      by (auto simp: effective_signature_creation_time_def SystemTime_from_def SIG_BACKDATE_BY_def NANOS_PER_SEC_def Let_def split: if_splits)
    then show ?thesis
      using Some n by (intro exI [of _ k]) (auto simp: SystemTime_from_def SIG_BACKDATE_BY_def NANOS_PER_SEC_def k_def max_def split: if_splits)
  qed
qed

section \<open>Setting and getting times, notations and approvals\<close>

lemma timestamp_seconds: "Timestamp_try_from t = Inr w \<Longrightarrow> SystemTime_from w = as_secs t * NANOS_PER_SEC"
  by (auto simp: Timestamp_try_from_def SystemTime_from_def as_secs_def NANOS_PER_SEC_def uint_word_of_int_eq take_bit_int_eq_self
      pos_imp_zdiv_nonneg_iff split: if_splits)

lemma set_creation_time_get:
  assumes "SubpacketArea_invar sig_len (hashed_area (sb_areas b))"
  shows "and_then (set_signature_creation_time sig_len t b) (\<lambda>b. signature_creation_time (sb_areas b)) =
    and_then (set_signature_creation_time sig_len t b) (\<lambda>_. Inr (Some (as_secs t * NANOS_PER_SEC)))"
proof (cases "Timestamp_try_from t")
  case (Inr w)
  note tags = SubpacketTag_canonical_def SubpacketValue_tag_def
  show ?thesis
    unfolding set_signature_creation_time_def signature_creation_time_def Inr and_then_assoc and_then_Inr
    by (simp, rule set_get [OF assms]) (simp_all add: tags timestamp_seconds [OF Inr])
qed (simp add: set_signature_creation_time_def)

lemma set_validity_periods_get:
  assumes "SubpacketArea_invar sig_len (hashed_area (sb_areas b))" "0 \<le> d"
  shows "and_then (set_signature_validity_period sig_len d b) (\<lambda>b. signature_validity_period (sb_areas b)) =
      and_then (set_signature_validity_period sig_len d b) (\<lambda>_. Inr (Some (as_secs d * NANOS_PER_SEC)))"
    "and_then (set_key_validity_period sig_len (Some d) b) (\<lambda>b. key_validity_period (sb_areas b)) =
      and_then (set_key_validity_period sig_len (Some d) b) (\<lambda>_. Inr (Some (as_secs d * NANOS_PER_SEC)))"
proof -
  note tags = SubpacketTag_canonical_def SubpacketValue_tag_def
  have w: "SystemDuration_from w = as_secs d * NANOS_PER_SEC" if "Duration_try_from d = Inr w" for w
    using Duration_try_from_uint [OF that assms(2)] by (simp add: SystemDuration_from_def)
  show "and_then (set_signature_validity_period sig_len d b) (\<lambda>b. signature_validity_period (sb_areas b)) =
      and_then (set_signature_validity_period sig_len d b) (\<lambda>_. Inr (Some (as_secs d * NANOS_PER_SEC)))"
    unfolding set_signature_validity_period_def signature_validity_period_def and_then_assoc
    by (cases "Duration_try_from d") (auto simp: w tags intro!: set_get [OF assms(1)])
  show "and_then (set_key_validity_period sig_len (Some d) b) (\<lambda>b. key_validity_period (sb_areas b)) =
      and_then (set_key_validity_period sig_len (Some d) b) (\<lambda>_. Inr (Some (as_secs d * NANOS_PER_SEC)))"
    unfolding set_key_validity_period_def key_validity_period_def option.case and_then_assoc
    by (cases "Duration_try_from d") (auto simp: w tags intro!: set_get [OF assms(1)])
qed

lemma unset_key_validity:
  assumes "SubpacketArea_invar sig_len (hashed_area (sb_areas b))"
  shows "and_then (set_key_validity_period sig_len None b) (\<lambda>b. key_validity_period (sb_areas b)) = Inr None"
    "and_then (set_key_expiration_time sig_len kt None b) (\<lambda>b. key_expiration_time (sb_areas b) kt) = Inr None"
proof -
  let ?b = "remove_hashed SubpacketTag.KeyExpirationTime b"
  have "SubpacketTag_canonical SubpacketTag.KeyExpirationTime" by (simp add: SubpacketTag_canonical_def)
  note lookup = subpacket_lookup [OF remove_hashed_ok(1) [OF assms, of SubpacketTag.KeyExpirationTime] this, of "unhashed_area (sb_areas ?b)"]
  have "find_last (\<lambda>p. Subpacket_tag p = SubpacketTag.KeyExpirationTime) (packets (hashed_area (sb_areas ?b))) = None"
    using remove_hashed_ok(2) [OF assms, of SubpacketTag.KeyExpirationTime] by (simp add: find_last_def)
  then have none: "key_validity_period (sb_areas ?b) = Inr None"
    using lookup by (simp add: key_validity_period_def area_value_def from_unhashed_def)
  then show "and_then (set_key_validity_period sig_len None b) (\<lambda>b. key_validity_period (sb_areas b)) = Inr None"
    by (simp add: set_key_validity_period_def)
  show "and_then (set_key_expiration_time sig_len kt None b) (\<lambda>b. key_expiration_time (sb_areas b) kt) = Inr None"
    using none by (simp add: set_key_expiration_time_def set_key_validity_period_def key_expiration_time_def)
qed

lemma collect_notations:
  assumes "\<And>v. f v = (case v of SubpacketValue.NotationData n \<Rightarrow> Some n | _ \<Rightarrow> None)"
    and "keep = (\<lambda>p. \<not> (case sp_value p of SubpacketValue.NotationData n \<Rightarrow> nd_name n = name | _ \<Rightarrow> False))"
    and "sp_value q = SubpacketValue.NotationData new"
  shows "collect_values f (filter keep ps @ [q]) = and_then (collect_values f ps) (\<lambda>ns. Inr (filter (\<lambda>n. nd_name n \<noteq> name) ns @ [new]))"
  by (induction ps) (auto simp: assms(1,3) assms(2) [THEN fun_cong] and_then_assoc split: SubpacketValue.splits)

lemma set_notation_packets:
  fixes b :: "'sig SignatureBuilder"
  assumes "SubpacketArea_invar sig_len (hashed_area (sb_areas b))" "set_notation sig_len name val fl crit b = Inr b'"
  obtains q where "sp_value q = SubpacketValue.NotationData (NotationData_new name val fl)"
    "packets (hashed_area (sb_areas b')) =
      filter (\<lambda>p. \<not> (case sp_value p of SubpacketValue.NotationData n \<Rightarrow> nd_name n = name | _ \<Rightarrow> False)) (packets (hashed_area (sb_areas b))) @ [q]"
    "unhashed_area (sb_areas b') = unhashed_area (sb_areas b)"
proof -
  define keep where "keep = (\<lambda>p :: 'sig Subpacket. \<not> (case sp_value p of SubpacketValue.NotationData n \<Rightarrow> nd_name n = name | _ \<Rightarrow> False))"
  let ?v = "SubpacketValue.NotationData (NotationData_new name val fl) :: 'sig SubpacketValue"
  obtain q a where q: "Subpacket_new sig_len ?v crit = Inr q"
      "SubpacketArea_add sig_len (SubpacketArea (filter keep (packets (hashed_area (sb_areas b)))) None) q = Inr a"
      "sb_areas b' = SubpacketAreas a (unhashed_area (sb_areas b))"
    using assms(2) unfolding keep_def
    by (auto simp: set_notation_def add_notation_def add_hashed_def modify_hashed_area_def map_fields_def Let_def
        SubpacketArea_add_any_cache [where c = "parsed (hashed_area (sb_areas b))"] result_simps)
  have v: "sp_value q = ?v" using Subpacket_new_value [OF q(1)] .
  then have "packets a = filter keep (packets (hashed_area (sb_areas b))) @ [set_authenticated q False]"
    using area.add [OF filter_invar [OF assms(1)] _ q(2)] by (simp add: Subpacket_tag_def SubpacketValue_tag_def SubpacketTag_canonical_def)
  then show thesis
    using that [of "set_authenticated q False"] v q(3) by (simp add: keep_def set_authenticated_def)
qed

lemma set_notation_get:
  fixes b :: "'sig SignatureBuilder"
  assumes "SubpacketArea_invar sig_len (hashed_area (sb_areas b))" "set_notation sig_len name val fl crit b = Inr b'"
  shows "notation_data (sb_areas b') = and_then (notation_data (sb_areas b)) (\<lambda>ns. Inr (filter (\<lambda>n. nd_name n \<noteq> name) ns @ [NotationData_new name val fl]))"
proof -
  let ?keep = "\<lambda>p :: 'sig Subpacket. \<not> (case sp_value p of SubpacketValue.NotationData n \<Rightarrow> nd_name n = name | _ \<Rightarrow> False)"
  let ?f = "\<lambda>v :: 'sig SubpacketValue. case v of SubpacketValue.NotationData n \<Rightarrow> Some n | _ \<Rightarrow> None"
  obtain q where q: "sp_value q = SubpacketValue.NotationData (NotationData_new name val fl)"
    "packets (hashed_area (sb_areas b')) = filter ?keep (packets (hashed_area (sb_areas b))) @ [q]" by (rule set_notation_packets [OF assms])
  have areas: "sb_areas c = SubpacketAreas (hashed_area (sb_areas c)) (unhashed_area (sb_areas c))" for c :: "'sig SignatureBuilder" by simp
  have data: "notation_data (sb_areas c) = collect_values ?f (filter (\<lambda>p. Subpacket_tag p = SubpacketTag.NotationData) (packets (hashed_area (sb_areas c))))" for c :: "'sig SignatureBuilder"
    by (subst areas) (simp add: notation_data_def area_values_def SubpacketAreas_subpackets_def SubpacketArea_subpackets_def from_unhashed_def)
  have "filter (\<lambda>p. Subpacket_tag p = SubpacketTag.NotationData) (filter ?keep ps @ [q]) =
      filter ?keep (filter (\<lambda>p. Subpacket_tag p = SubpacketTag.NotationData) ps) @ [q]" for ps
    using q(1) by (simp add: Subpacket_tag_def SubpacketValue_tag_def conj_commute)
  then show ?thesis unfolding data q(2) by (simp only: collect_notations [where keep = ?keep and f = ?f, OF refl refl q(1)])
qed

lemma set_approved_get:
  fixes b :: "'sig SignatureBuilder"
  assumes "SubpacketArea_invar sig_len (hashed_area (sb_areas b))" "set_approved_certifications sig_len ds b = Inr b'"
  shows "approved_certifications (sb_areas b') =
    (if SubpacketArea_subpackets (unhashed_area (sb_areas b)) SubpacketTag.ApprovedCertifications = [] then Inr (foldr insert_digest ds [])
     else Inl (Err BadSignature))"
proof -
  let ?v = "SubpacketValue.ApprovedCertifications (foldr insert_digest ds []) :: 'sig SubpacketValue"
  have tag: "SubpacketValue_tag ?v = SubpacketTag.ApprovedCertifications" "SubpacketTag_canonical (SubpacketValue_tag ?v)"
    by (simp_all add: SubpacketTag_canonical_def SubpacketValue_tag_def)
  have "replace_hashed sig_len ?v True b = Inr b'" using assms(2) by (auto simp: set_approved_certifications_def split: if_splits)
  from replace_hashed_packets [OF assms(1) tag(2) this] obtain p a where a: "sb_areas b' = SubpacketAreas a (unhashed_area (sb_areas b))" "sp_value p = ?v"
      "packets a = filter (\<lambda>w. Subpacket_tag w \<noteq> SubpacketTag.ApprovedCertifications) (packets (hashed_area (sb_areas b))) @ [p]" unfolding tag(1) by metis
  then have one: "SubpacketArea_subpackets a SubpacketTag.ApprovedCertifications = [p]"
    using tag(1) by (simp add: SubpacketArea_subpackets_def Subpacket_tag_def)
  show ?thesis
    using a(2) one by (auto simp: a(1) approved_certifications_def area_values_def SubpacketAreas_subpackets_def SubpacketArea_subpackets_def filter_empty_conv)
qed

text \<open>
  C36. What is set on a builder is what the accessors return, for each of its setters of attributes: if the setter succeeds, the
  accessor returns the value. For attributes of which there can be several, what is set is the only one, also if there were others in
  the unhashed area. Times and periods are cut to seconds, and the expiration of a key in the second of its creation comes back as none.
  A notation replaces the others of its name. Approved certifications come back sorted, or, if there are some in the unhashed area, as
  an error.
\<close>

theorem builder_set_get:
  assumes inv: "SubpacketArea_invar sig_len (hashed_area (sb_areas b))" and period: "0 \<le> period"
  shows "and_then (set_exportable_certification sig_len exportable b) (\<lambda>b. exportable_certification (sb_areas b)) = and_then (set_exportable_certification sig_len exportable b) (\<lambda>_. Inr (Some exportable))
    \<and> and_then (set_trust_signature sig_len lvl trust b) (\<lambda>b. trust_signature (sb_areas b)) = and_then (set_trust_signature sig_len lvl trust b) (\<lambda>_. Inr (Some (lvl, trust)))
    \<and> and_then (set_revocable sig_len revoc b) (\<lambda>b. revocable (sb_areas b)) = and_then (set_revocable sig_len revoc b) (\<lambda>_. Inr (Some revoc))
    \<and> and_then (set_preferred_symmetric_algorithms sig_len sym_prefs b) (\<lambda>b. preferred_symmetric_algorithms (sb_areas b)) = and_then (set_preferred_symmetric_algorithms sig_len sym_prefs b) (\<lambda>_. Inr (Some sym_prefs))
    \<and> and_then (set_preferred_hash_algorithms sig_len hash_prefs b) (\<lambda>b. preferred_hash_algorithms (sb_areas b)) = and_then (set_preferred_hash_algorithms sig_len hash_prefs b) (\<lambda>_. Inr (Some hash_prefs))
    \<and> and_then (set_preferred_compression_algorithms sig_len comp_prefs b) (\<lambda>b. preferred_compression_algorithms (sb_areas b)) = and_then (set_preferred_compression_algorithms sig_len comp_prefs b) (\<lambda>_. Inr (Some comp_prefs))
    \<and> and_then (set_preferred_aead_ciphersuites sig_len aead_prefs b) (\<lambda>b. preferred_aead_ciphersuites (sb_areas b)) = and_then (set_preferred_aead_ciphersuites sig_len aead_prefs b) (\<lambda>_. Inr (Some aead_prefs))
    \<and> and_then (set_key_server_preferences sig_len ks_prefs b) (\<lambda>b. key_server_preferences (sb_areas b)) = and_then (set_key_server_preferences sig_len ks_prefs b) (\<lambda>_. Inr (Some ks_prefs))
    \<and> and_then (set_preferred_key_server sig_len uri b) (\<lambda>b. preferred_key_server (sb_areas b)) = and_then (set_preferred_key_server sig_len uri b) (\<lambda>_. Inr (Some uri))
    \<and> and_then (set_primary_userid sig_len primary b) (\<lambda>b. primary_userid (sb_areas b)) = and_then (set_primary_userid sig_len primary b) (\<lambda>_. Inr (Some primary))
    \<and> and_then (set_policy_uri sig_len uri b) (\<lambda>b. policy_uri (sb_areas b)) = and_then (set_policy_uri sig_len uri b) (\<lambda>_. Inr (Some uri))
    \<and> and_then (set_key_flags sig_len fl b) (\<lambda>b. key_flags (sb_areas b)) = and_then (set_key_flags sig_len fl b) (\<lambda>_. Inr (Some fl))
    \<and> and_then (set_signers_user_id sig_len uid b) (\<lambda>b. signers_user_id (sb_areas b)) = and_then (set_signers_user_id sig_len uid b) (\<lambda>_. Inr (Some uid))
    \<and> and_then (set_reason_for_revocation sig_len code reason b) (\<lambda>b. reason_for_revocation (sb_areas b)) = and_then (set_reason_for_revocation sig_len code reason b) (\<lambda>_. Inr (Some (code, reason)))
    \<and> and_then (set_features sig_len fs b) (\<lambda>b. features (sb_areas b)) = and_then (set_features sig_len fs b) (\<lambda>_. Inr (Some fs))
    \<and> and_then (set_signature_target sig_len pk hash digest1 b) (\<lambda>b. signature_target (sb_areas b)) = and_then (set_signature_target sig_len pk hash digest1 b) (\<lambda>_. Inr (Some (pk, hash, digest1)))
    \<and> and_then (set_regular_expression sig_len re b) (\<lambda>b. regular_expressions (sb_areas b)) = and_then (set_regular_expression sig_len re b) (\<lambda>_. Inr [re])
    \<and> and_then (set_revocation_key sig_len rk b) (\<lambda>b. revocation_keys (sb_areas b)) = and_then (set_revocation_key sig_len rk b) (\<lambda>_. Inr [rk])
    \<and> and_then (set_issuer sig_len keyid1 b) (\<lambda>b. issuers (sb_areas b)) = and_then (set_issuer sig_len keyid1 b) (\<lambda>_. Inr [keyid1])
    \<and> and_then (set_issuer_fingerprint sig_len fp b) (\<lambda>b. issuer_fingerprints (sb_areas b)) = and_then (set_issuer_fingerprint sig_len fp b) (\<lambda>_. Inr [fp])
    \<and> and_then (set_embedded_signature sig_len sig b) (\<lambda>b. embedded_signatures (sb_areas b)) = and_then (set_embedded_signature sig_len sig b) (\<lambda>_. Inr [sig])
    \<and> and_then (set_intended_recipients sig_len recipients b) (\<lambda>b. intended_recipients (sb_areas b)) = and_then (set_intended_recipients sig_len recipients b) (\<lambda>_. Inr recipients)
    \<and> and_then (set_signature_creation_time sig_len time b) (\<lambda>b. signature_creation_time (sb_areas b)) = and_then (set_signature_creation_time sig_len time b) (\<lambda>_. Inr (Some (as_secs time * NANOS_PER_SEC)))
    \<and> and_then (set_signature_validity_period sig_len period b) (\<lambda>b. signature_validity_period (sb_areas b)) = and_then (set_signature_validity_period sig_len period b) (\<lambda>_. Inr (Some (as_secs period * NANOS_PER_SEC)))
    \<and> and_then (set_key_validity_period sig_len (Some period) b) (\<lambda>b. key_validity_period (sb_areas b)) = and_then (set_key_validity_period sig_len (Some period) b) (\<lambda>_. Inr (Some (as_secs period * NANOS_PER_SEC)))
    \<and> and_then (set_key_expiration_time sig_len (SystemTime_from ct) (Some time) b) (\<lambda>b. key_expiration_time (sb_areas b) (SystemTime_from ct)) = and_then (set_key_expiration_time sig_len (SystemTime_from ct) (Some time) b) (\<lambda>_. Inr (if as_secs time = uint ct then None else Some (as_secs time * NANOS_PER_SEC)))
    \<and> and_then (set_key_validity_period sig_len None b) (\<lambda>b. key_validity_period (sb_areas b)) = Inr None
    \<and> and_then (set_key_expiration_time sig_len (SystemTime_from ct) None b) (\<lambda>b. key_expiration_time (sb_areas b) (SystemTime_from ct)) = Inr None
    \<and> and_then (set_notation sig_len name val nfl crit b) (\<lambda>b. notation_data (sb_areas b)) = and_then (set_notation sig_len name val nfl crit b) (\<lambda>_. and_then (notation_data (sb_areas b)) (\<lambda>ns. Inr (filter (\<lambda>n. nd_name n \<noteq> name) ns @ [NotationData_new name val nfl])))
    \<and> and_then (set_approved_certifications sig_len ds b) (\<lambda>b. approved_certifications (sb_areas b)) = and_then (set_approved_certifications sig_len ds b) (\<lambda>_. if SubpacketArea_subpackets (unhashed_area (sb_areas b)) SubpacketTag.ApprovedCertifications = [] then Inr (foldr insert_digest ds []) else Inl (Err BadSignature))"
proof -
  note tags = SubpacketTag_canonical_def SubpacketValue_tag_def
  have "and_then (set_regular_expression sig_len re b) (\<lambda>b. regular_expressions (sb_areas b)) =
      and_then (set_regular_expression sig_len re b) (\<lambda>_. Inr [re])"
    unfolding set_regular_expression_def regular_expressions_def
    by (intro and_then_known set_several [OF inv]) (simp_all add: tags from_unhashed_def)
  moreover have "and_then (set_revocation_key sig_len rk b) (\<lambda>b. revocation_keys (sb_areas b)) =
      and_then (set_revocation_key sig_len rk b) (\<lambda>_. Inr [rk])"
    unfolding set_revocation_key_def add_revocation_key_def revocation_keys_def
    by (intro and_then_known add_to_removed [OF inv]) (simp_all add: tags from_unhashed_def)
  moreover have "and_then (set_issuer sig_len keyid1 b) (\<lambda>b. issuers (sb_areas b)) = and_then (set_issuer sig_len keyid1 b) (\<lambda>_. Inr [keyid1])"
    unfolding set_issuer_def issuers_def
    by (intro set_without_unhashed [OF inv]) (simp_all add: tags)
  moreover have "and_then (set_issuer_fingerprint sig_len fp b) (\<lambda>b. issuer_fingerprints (sb_areas b)) =
      and_then (set_issuer_fingerprint sig_len fp b) (\<lambda>_. Inr [fp])"
    unfolding set_issuer_fingerprint_def issuer_fingerprints_def
    by (intro set_without_unhashed [OF inv]) (simp_all add: tags)
  moreover have "and_then (set_embedded_signature sig_len sig b) (\<lambda>b. embedded_signatures (sb_areas b)) =
      and_then (set_embedded_signature sig_len sig b) (\<lambda>_. Inr [sig])"
    unfolding set_embedded_signature_def embedded_signatures_def
    by (intro set_without_unhashed [OF inv]) (simp_all add: tags)
  moreover have "and_then (set_intended_recipients sig_len recipients b) (\<lambda>b. intended_recipients (sb_areas b)) =
      and_then (set_intended_recipients sig_len recipients b) (\<lambda>_. Inr recipients)"
    unfolding set_intended_recipients_def intended_recipients_def
    by (intro and_then_known set_recipients [OF inv]) simp_all
  moreover note set_creation_time_get [OF inv, of time] set_validity_periods_get [OF inv period] unset_key_validity(1) [OF inv] unset_key_validity(2) [OF inv, of "SystemTime_from ct"]
  moreover have "and_then (set_key_expiration_time sig_len (SystemTime_from ct) (Some time) b) (\<lambda>b. key_expiration_time (sb_areas b) (SystemTime_from ct)) =
      and_then (set_key_expiration_time sig_len (SystemTime_from ct) (Some time) b) (\<lambda>_. Inr (if as_secs time = uint ct then None else Some (as_secs time * NANOS_PER_SEC)))"
    by (intro and_then_known key_expiration_set_get [OF inv refl])
  moreover have "and_then (set_notation sig_len name val nfl crit b) (\<lambda>b. notation_data (sb_areas b)) = and_then (set_notation sig_len name val nfl crit b) (\<lambda>_.
      and_then (notation_data (sb_areas b)) (\<lambda>ns. Inr (filter (\<lambda>n. nd_name n \<noteq> name) ns @ [NotationData_new name val nfl])))"
    using set_notation_get [OF inv, of name val nfl crit] by (cases "set_notation sig_len name val nfl crit b") simp_all
  moreover have "and_then (set_approved_certifications sig_len ds b) (\<lambda>b. approved_certifications (sb_areas b)) = and_then (set_approved_certifications sig_len ds b) (\<lambda>_.
      if SubpacketArea_subpackets (unhashed_area (sb_areas b)) SubpacketTag.ApprovedCertifications = [] then Inr (foldr insert_digest ds []) else Inl (Err BadSignature))"
    using set_approved_get [OF inv, of ds] by (cases "set_approved_certifications sig_len ds b") simp_all
  ultimately show ?thesis
    unfolding set_exportable_certification_def set_trust_signature_def set_revocable_def set_preferred_symmetric_algorithms_def set_preferred_hash_algorithms_def set_preferred_compression_algorithms_def set_preferred_aead_ciphersuites_def set_key_server_preferences_def set_preferred_key_server_def set_primary_userid_def set_policy_uri_def set_key_flags_def set_signers_user_id_def set_reason_for_revocation_def set_features_def set_signature_target_def exportable_certification_def trust_signature_def revocable_def preferred_symmetric_algorithms_def preferred_hash_algorithms_def preferred_compression_algorithms_def preferred_aead_ciphersuites_def key_server_preferences_def preferred_key_server_def primary_userid_def policy_uri_def key_flags_def signers_user_id_def reason_for_revocation_def features_def signature_target_def
    by (intro conjI) (assumption | rule set_get [OF inv]; simp add: tags)+
qed

theorem builder_set_get_witness:
  "and_then (set_primary_userid (\<lambda>_. 0) True empty_builder) (\<lambda>b. primary_userid (sb_areas b)) = Inr (Some True)
   \<and> and_then (set_intended_recipients (\<lambda>_. 0) [Fingerprint.V4 (replicate 20 7), Fingerprint.V4 (replicate 20 8)] empty_builder)
       (\<lambda>b. intended_recipients (sb_areas b)) = Inr [Fingerprint.V4 (replicate 20 7), Fingerprint.V4 (replicate 20 8)]"
proof -
  let ?rs = "[Fingerprint.V4 (replicate 20 7), Fingerprint.V4 (replicate 20 8)]"
  have "\<exists>b. set_primary_userid (\<lambda>_. 0) True empty_builder = Inr b" "\<exists>b. set_intended_recipients (\<lambda>_. 0) ?rs empty_builder = Inr b"
    by (simp_all add: set_primary_userid_def set_intended_recipients_def remove_hashed_def builder_witness_simps)
  then show ?thesis
    using builder_set_get [OF empty_builder_invar order_refl, where primary = True and recipients = ?rs] by (auto simp: result_simps)
qed

text \<open>
  C37. Before signing, unless the time was set or suppressed explicitly, the builder gets the time that \<open>effective_signature_creation_time\<close>
  announces: that of the clock, or of the reference time if there is one, cut to seconds, and for a template one that is newer than the
  template and less than 61 seconds before that. The version is that of the key, and the issuer is named.
\<close>

theorem pre_sign_completes:
  fixes b :: "'sig SignatureBuilder"
  assumes inv: "SubpacketArea_invar sig_len (hashed_area (sb_areas b))" and "\<not> sb_overrode_creation_time b"
    and orig: "sb_original_creation_time b = map_option SystemTime_from orig"
    and clock: "clock = (case sb_reference_time b of Some t \<Rightarrow> t | None \<Rightarrow> now)"
    and "pre_sign sig_len random now pk b = Inr b'"
  shows "\<exists>t. effective_signature_creation_time now b = Inr (Some t) \<and> signature_creation_time (sb_areas b') = Inr (Some t) \<and> t \<le> clock
    \<and> (case orig of
          Some o1 \<Rightarrow> SystemTime_from o1 < t \<and> clock - t < (SIG_BACKDATE_BY + 1) * NANOS_PER_SEC
        | None \<Rightarrow> clock - t < NANOS_PER_SEC)
    \<and> sf_version (sb_fields b') = pub_version pk \<and> sf_pk_algo (sb_fields b') = pub_pk_algo pk \<and> names_issuer (sb_areas b')"
proof -
  obtain v where v: "presign_version random (sf_hash_algo (sb_fields b)) (sb_version b) (pub_version pk) = Inr v"
    using assms(5) by (auto simp: pre_sign_def result_simps)
  define b0 where "b0 = b\<lparr>sb_version := v, sb_fields := SignatureFields (SBVersion_to_u8 v) (sf_typ (sb_fields b)) (pub_pk_algo pk)
      (sf_hash_algo (sb_fields b)) (sb_areas b)\<rparr>"
  have b0: "sb_areas b0 = sb_areas b" "sb_overrode_creation_time b0 = sb_overrode_creation_time b"
    "effective_signature_creation_time now b0 = effective_signature_creation_time now b"
    by (simp_all add: b0_def effective_signature_creation_time_def Let_def)
  obtain t0 b1 b2 where t0: "effective_signature_creation_time now b = Inr t0"
      and b1: "(case t0 of Some t \<Rightarrow> set_signature_creation_time sig_len t b0 | None \<Rightarrow> Inr b0) = Inr b1"
      and b2: "presign_issuer sig_len random pk b1 = Inr b2" "b' = map_fields SubpacketAreas_sort b2"
    using assms(2,5) v b0(2,3) by (auto simp: pre_sign_def b0_def [symmetric] result_simps)
  obtain k where k: "t0 = Some (k * NANOS_PER_SEC)" "k * NANOS_PER_SEC \<le> clock"
      "case orig of
         Some o1 \<Rightarrow> SystemTime_from o1 < k * NANOS_PER_SEC \<and> clock - k * NANOS_PER_SEC < (SIG_BACKDATE_BY + 1) * NANOS_PER_SEC
       | None \<Rightarrow> clock - k * NANOS_PER_SEC < NANOS_PER_SEC"
    using effective_time [OF assms(2) orig clock t0] by blast
  obtain w where "Timestamp_try_from (k * NANOS_PER_SEC) = Inr w"
    using b1 k(1) by (auto simp: set_signature_creation_time_def result_simps)
  then have w: "k * NANOS_PER_SEC = SystemTime_from w" using whole_second by simp
  have set: "sb_invar sig_len b1" "signature_creation_time (sb_areas b1) = Inr (Some (SystemTime_from w))"
      "sf_version (sb_fields b1) = SBVersion_to_u8 v" "sf_pk_algo (sb_fields b1) = pub_pk_algo pk"
    using set_signature_creation_time_get [of sig_len b0 w b1] inv b1 b0(1) k(1) w by (simp_all add: b0_def)
  have issuer: "keeps sig_len SubpacketTag.SignatureCreationTime b1 b2" "names_issuer (sb_areas b2)"
    using presign_issuer_ok [OF set(1) b2(1) refl] by simp_all
  moreover from this have "keeps sig_len SubpacketTag.SignatureCreationTime b2 b'"
    unfolding b2(2) by (intro sort_keeps) (simp add: keeps_def)
  ultimately have "signature_creation_time (sb_areas b') = Inr (Some (k * NANOS_PER_SEC))"
    using creation_time_kept [OF set(1)] keeps_trans set(2) w by metis
  moreover have "SBVersion_to_u8 v = pub_version pk"
    using v by (auto simp: presign_version_def SBVersion_to_u8_def result_simps split: if_splits SBVersion.splits)
  ultimately show ?thesis
    using k t0 set(3,4) issuer(2) presign_issuer_fields [OF b2(1)] by (simp add: b2(2) fields_kept(3,4) names_issuer_sort)
qed

definition demo_areas :: "unit SubpacketAreas" where
  "demo_areas =
     SubpacketAreas
       (SubpacketArea [Subpacket (SubpacketLength_from_u32 5) True (SubpacketValue.SignatureCreationTime 100) False,
          Subpacket (SubpacketLength_from_u32 5) True (SubpacketValue.SignatureExpirationTime 50) False] None)
       (SubpacketArea [] None)"

theorem alive_until_expiration_witness:
  "signature_alive 0 demo_areas (Some (SystemTime_from 149)) (Some 0) = Inr ()
   \<and> signature_alive 0 demo_areas (Some (SystemTime_from 150)) (Some 0) \<noteq> Inr ()"
proof -
  have c: "signature_creation_time demo_areas = Inr (Some (SystemTime_from 100))" by code_simp
  have v: "signature_validity_period demo_areas = Inr (Some (SystemDuration_from 50))" by code_simp
  have k: "key_validity_period demo_areas = Inr None" by code_simp
  have x: "signature_expiration_time demo_areas = Inr (Some (SystemTime_from 150))" by code_simp
  have "0 \<le> SystemTime_from 149" "0 \<le> SystemTime_from 150" "SystemTime_from 100 - 0 \<le> SystemTime_from 149"
    "SystemTime_from 149 < SystemTime_from 150" "\<not> SystemTime_from 150 < SystemTime_from 150" by code_simp+
  then show ?thesis
    using alive_until_expiration [OF c v k, of "SystemTime_from 149" 0 0] alive_until_expiration [OF c v k, of "SystemTime_from 150" 0 0]
    by (simp add: x)
qed

definition demo_key :: signer_public where
  "demo_key = \<lparr>pub_pk_algo = PublicKeyAlgorithm.EdDSA, pub_version = 6, pub_keyid = KeyID.Long (replicate 8 1),
     pub_fingerprint = Fingerprint.V6 (replicate 32 1)\<rparr>"

text \<open>A builder made from a signature of time 990, with 1000 for the current time.\<close>

definition template_builder :: "unit SignatureBuilder" where
  "template_builder = empty_builder\<lparr>sb_original_creation_time := Some (SystemTime_from 990)\<rparr>"

theorem pre_sign_completes_witness:
  "\<exists>b t. pre_sign (\<lambda>_. 0) (\<lambda>n. Inr (replicate n 0)) (SystemTime_from 1000) demo_key template_builder = Inr b
     \<and> signature_creation_time (sb_areas b) = Inr (Some t) \<and> SystemTime_from 990 < t \<and> t \<le> SystemTime_from 1000
     \<and> sf_version (sb_fields b) = 6 \<and> names_issuer (sb_areas b)"
proof -
  have t: "effective_signature_creation_time (SystemTime_from 1000) template_builder = Inr (Some (SystemTime_from 991))"
    by (simp add: effective_signature_creation_time_def template_builder_def empty_builder_def SignatureBuilder_new_def time_conversions(1) Let_def)
      (simp add: SystemTime_from_def NANOS_PER_SEC_def SIG_BACKDATE_BY_def)
  obtain b where b: "pre_sign (\<lambda>_. 0) (\<lambda>n. Inr (replicate n 0)) (SystemTime_from 1000) demo_key template_builder = Inr b"
    using t
    by (simp add: pre_sign_def presign_version_def salt_size_def effective_signature_creation_time_def set_signature_creation_time_def template_builder_def
        time_conversions(1) presign_issuer_def no_issuer_fingerprints_def set_issuer_fingerprint_def remove_unhashed_def demo_key_def HashAlgorithm_default_def
        SubpacketAreas_subpackets_def SubpacketArea_subpackets_def Subpacket_tag_def SubpacketValue_tag_def builder_witness_simps)
  have "\<not> sb_overrode_creation_time template_builder" "sb_original_creation_time template_builder = map_option SystemTime_from (Some 990)"
    "SystemTime_from 1000 = (case sb_reference_time template_builder of Some t \<Rightarrow> t | None \<Rightarrow> SystemTime_from 1000)"
    "SubpacketArea_invar (\<lambda>_. 0) (hashed_area (sb_areas template_builder))"
    using empty_builder_invar by (simp_all add: template_builder_def empty_builder_def SignatureBuilder_new_def)
  from pre_sign_completes [OF this(4,1-3) b] show ?thesis using b by (auto simp: demo_key_def)
qed

end
