(* ===== verification/SignatureHashing.thy ===== *)
theory SignatureHashing
  imports Policies SignatureAttributes
begin

text \<open>
  What a signature covers: hash contexts, the octets that stand for keys, user IDs, user attributes and the signature
  itself (\<open>crypto/hash.rs\<close>), and the operations of the builder that sign something (\<open>packet/signature.rs\<close>).

  A context is the octets hashed so far. Which algorithms there are and what their digests look like comes from the backend:
  the fields of \<open>HashBackend\<close>. SHA-1 is not created by the backend but by the crate that detects collisions.
\<close>

section \<open>Contexts\<close>

record HashBackend =
  hb_is_supported :: "HashAlgorithm \<Rightarrow> bool"
  hb_new_hasher :: "HashAlgorithm \<Rightarrow> unit res"
  hb_digest :: "HashAlgorithm \<Rightarrow> bytes \<Rightarrow> nat \<Rightarrow> bytes res"

record Context =
  ctx_algo :: HashAlgorithm
  ctx_for_signature :: "u8 option"
  ctx_data :: bytes

definition HashAlgorithm_context :: "HashBackend \<Rightarrow> HashAlgorithm \<Rightarrow> Context res" where
  "HashAlgorithm_context be algo =
     (if \<not> hb_is_supported be algo then Inl (Err (UnsupportedHashAlgorithm algo))
      else
        and_then (if algo = HashAlgorithm.SHA1 then Inr () else hb_new_hasher be algo) (\<lambda>_.
          Inr \<lparr>ctx_algo = algo, ctx_for_signature = None, ctx_data = []\<rparr>))"

definition for_signature :: "u8 \<Rightarrow> Context \<Rightarrow> Context" where
  "for_signature version ctx = ctx\<lparr>ctx_for_signature := Some version\<rparr>"

definition for_digest :: "Context \<Rightarrow> Context" where
  "for_digest ctx = ctx"

definition Context_update :: "bytes \<Rightarrow> Context \<Rightarrow> Context" where
  "Context_update data ctx = ctx\<lparr>ctx_data := ctx_data ctx @ data\<rparr>"

definition Context_digest_size :: "Context \<Rightarrow> nat res" where
  "Context_digest_size ctx = (case digest_size (ctx_algo ctx) of Inr n \<Rightarrow> Inr n | Inl _ \<Rightarrow> Inl Panic)"

definition Context_digest :: "HashBackend \<Rightarrow> Context \<Rightarrow> nat \<Rightarrow> bytes res" where
  "Context_digest be ctx n = hb_digest be (ctx_algo ctx) (ctx_data ctx) n"

definition into_digest :: "HashBackend \<Rightarrow> Context \<Rightarrow> bytes res" where
  "into_digest be ctx = and_then (Context_digest_size ctx) (Context_digest be ctx)"

section \<open>What is hashed\<close>

definition UserID_hash :: "bytes \<Rightarrow> Context \<Rightarrow> Context res" where
  "UserID_hash val ctx = Inr (Context_update val (Context_update (0xB4 # to_be_u32 (word_of_nat (length val))) ctx))"

definition UserAttribute_hash :: "bytes \<Rightarrow> Context \<Rightarrow> Context res" where
  "UserAttribute_hash val ctx = Inr (Context_update val (Context_update (0xD1 # to_be_u32 (word_of_nat (length val))) ctx))"

definition Key_hash :: "Key \<Rightarrow> Context \<Rightarrow> Context res" where
  "Key_hash k ctx =
     and_then (case k of Key.V4 k \<Rightarrow> Key4_hash (ctx_for_signature ctx) k | Key.V6 k \<Rightarrow> Key6_hash (ctx_for_signature ctx) k)
       (\<lambda>bs. Inr (Context_update bs ctx))"

definition Signature3_hash_fields :: "SignaturePacket SignatureFields \<Rightarrow> Context \<Rightarrow> Context res" where
  "Signature3_hash_fields f ctx =
     and_then (signature_creation_time (sf_subpackets f)) (\<lambda>t.
       let time = (case Timestamp_try_from (case t of Some t \<Rightarrow> t | None \<Rightarrow> 0) of Inr t \<Rightarrow> t | Inl _ \<Rightarrow> 0) in
       Inr (Context_update (u8_from_SignatureType (sf_typ f) # to_be_u32 time) ctx))"

abbreviation area_len :: "SignaturePacket SubpacketArea \<Rightarrow> nat" where
  "area_len \<equiv> SubpacketArea_serialized_len SignaturePacket_serialized_len"

abbreviation area_octets :: "SignaturePacket SubpacketArea \<Rightarrow> bytes res" where
  "area_octets \<equiv> SubpacketArea_serialize SignaturePacket_serialize"

definition algorithm_octets :: "SignaturePacket SignatureFields \<Rightarrow> bytes" where
  "algorithm_octets f =
     [u8_from_SignatureType (sf_typ f), u8_from_PublicKeyAlgorithm (sf_pk_algo f), u8_from_HashAlgorithm (sf_hash_algo f)]"

definition Signature4_hash_fields :: "SignaturePacket SignatureFields \<Rightarrow> Context \<Rightarrow> Context res" where
  "Signature4_hash_fields f ctx =
     (let hashed = hashed_area (sf_subpackets f);
          header = 4 # algorithm_octets f @ to_be_u16 (word_of_nat (area_len hashed)) in
      and_then (area_octets hashed) (\<lambda>area.
        let trailer = [4, 0xff] @ to_be_u32 (word_of_nat (length header + area_len hashed)) in
        Inr (Context_update trailer (Context_update area (Context_update header ctx)))))"

definition Signature6_hash_fields :: "SignaturePacket SignatureFields \<Rightarrow> Context \<Rightarrow> Context res" where
  "Signature6_hash_fields f ctx =
     (let hashed = hashed_area (sf_subpackets f);
          header = 6 # algorithm_octets f @ to_be_u32 (word_of_nat (area_len hashed)) in
      and_then (area_octets hashed) (\<lambda>area.
        let trailer = [6, 0xff] @ to_be_u32 (word_of_nat (length header + area_len hashed)) in
        Inr (Context_update trailer (Context_update area (Context_update header ctx)))))"

definition SignatureFields_hash :: "SignaturePacket SignatureFields \<Rightarrow> Context \<Rightarrow> Context res" where
  "SignatureFields_hash f ctx =
     (if sf_version f = 3 then Signature3_hash_fields f ctx
      else if sf_version f = 4 then Signature4_hash_fields f ctx
      else if sf_version f = 6 then Signature6_hash_fields f ctx
      else Inl (Err InvalidOperation))"

definition Signature_hash :: "SignaturePacket \<Rightarrow> Context \<Rightarrow> Context res" where
  "Signature_hash s ctx =
     (case s of
        SignaturePacket.V3 s \<Rightarrow> Signature3_hash_fields (Signature4.fields (intern s)) ctx
      | SignaturePacket.V4 s \<Rightarrow> Signature4_hash_fields (Signature4.fields s) ctx
      | SignaturePacket.V6 s \<Rightarrow> Signature6_hash_fields (Signature4.fields (common s)) ctx)"

definition SignatureBuilder_hash :: "SignaturePacket SignatureBuilder \<Rightarrow> Context \<Rightarrow> Context res" where
  "SignatureBuilder_hash b ctx =
     (case sb_version b of
        SBV4 \<Rightarrow> Signature4_hash_fields (sb_fields b) ctx
      | SBV6 _ \<Rightarrow> Signature6_hash_fields (sb_fields b) ctx)"

text \<open>The common shape: the type is checked, then the salt, what is signed and the signature are hashed.\<close>

type_synonym hashing = "Context \<Rightarrow> Context res"

definition hash_salted :: "SignatureType list \<Rightarrow> SignatureType \<Rightarrow> bytes option \<Rightarrow> hashing \<Rightarrow> hashing \<Rightarrow> hashing" where
  "hash_salted types typ salt1 covered self ctx =
     (if typ \<notin> set types then Inl (Err (UnsupportedSignatureType typ))
      else and_then (covered (case salt1 of Some s \<Rightarrow> Context_update s ctx | None \<Rightarrow> ctx)) self)"

definition nothing :: hashing where
  "nothing ctx = Inr ctx"

definition hash_two :: "hashing \<Rightarrow> hashing \<Rightarrow> hashing" where
  "hash_two f g ctx = and_then (f ctx) g"

definition certification_types :: "SignatureType list" where
  "certification_types =
     [SignatureType.GenericCertification, SignatureType.PersonaCertification, SignatureType.CasualCertification,
      SignatureType.PositiveCertification]"

abbreviation builder_hash_salted :: "SignatureType list \<Rightarrow> hashing \<Rightarrow> SignaturePacket SignatureBuilder \<Rightarrow> hashing" where
  "builder_hash_salted types covered b \<equiv> hash_salted types (sf_typ (sb_fields b)) (prefix_salt b) covered (SignatureBuilder_hash b)"

definition builder_hash_standalone :: "SignaturePacket SignatureBuilder \<Rightarrow> hashing" where
  "builder_hash_standalone b = builder_hash_salted [SignatureType.Standalone] nothing b"

definition builder_hash_timestamp :: "SignaturePacket SignatureBuilder \<Rightarrow> hashing" where
  "builder_hash_timestamp b = builder_hash_salted [SignatureType.Timestamp] nothing b"

definition builder_hash_direct_key :: "Key \<Rightarrow> SignaturePacket SignatureBuilder \<Rightarrow> hashing" where
  "builder_hash_direct_key key b = builder_hash_salted [SignatureType.DirectKey, SignatureType.KeyRevocation] (Key_hash key) b"

definition builder_hash_subkey_binding :: "Key \<Rightarrow> Key \<Rightarrow> SignaturePacket SignatureBuilder \<Rightarrow> hashing" where
  "builder_hash_subkey_binding key subkey b =
     builder_hash_salted [SignatureType.SubkeyBinding, SignatureType.SubkeyRevocation] (hash_two (Key_hash key) (Key_hash subkey)) b"

definition builder_hash_primary_key_binding :: "Key \<Rightarrow> Key \<Rightarrow> SignaturePacket SignatureBuilder \<Rightarrow> hashing" where
  "builder_hash_primary_key_binding key subkey b =
     builder_hash_salted [SignatureType.PrimaryKeyBinding] (hash_two (Key_hash key) (Key_hash subkey)) b"

definition builder_hash_userid_binding :: "Key \<Rightarrow> bytes \<Rightarrow> SignaturePacket SignatureBuilder \<Rightarrow> hashing" where
  "builder_hash_userid_binding key userid b =
     builder_hash_salted (certification_types @ [SignatureType.CertificationRevocation]) (hash_two (Key_hash key) (UserID_hash userid)) b"

definition builder_hash_user_attribute_binding :: "Key \<Rightarrow> bytes \<Rightarrow> SignaturePacket SignatureBuilder \<Rightarrow> hashing" where
  "builder_hash_user_attribute_binding key ua b =
     builder_hash_salted (certification_types @ [SignatureType.CertificationRevocation]) (hash_two (Key_hash key) (UserAttribute_hash ua)) b"

section \<open>The same for signatures\<close>

abbreviation Signature_fields :: "SignaturePacket \<Rightarrow> SignaturePacket SignatureFields" where
  "Signature_fields s \<equiv> Signature4.fields (SignaturePacket_deref s)"

abbreviation Signature_areas :: "SignaturePacket \<Rightarrow> SignaturePacket SubpacketAreas" where
  "Signature_areas s \<equiv> sf_subpackets (Signature_fields s)"

definition Signature_salt :: "SignaturePacket \<Rightarrow> bytes option" where
  "Signature_salt s = (case s of SignaturePacket.V6 s \<Rightarrow> Some (salt s) | _ \<Rightarrow> None)"

abbreviation signature_hash_salted :: "SignatureType list \<Rightarrow> hashing \<Rightarrow> SignaturePacket \<Rightarrow> hashing" where
  "signature_hash_salted types covered s \<equiv> hash_salted types (sf_typ (Signature_fields s)) (Signature_salt s) covered (Signature_hash s)"

definition hash_standalone :: "SignaturePacket \<Rightarrow> hashing" where
  "hash_standalone s = signature_hash_salted [SignatureType.Standalone] nothing s"

definition hash_timestamp :: "SignaturePacket \<Rightarrow> hashing" where
  "hash_timestamp s = signature_hash_salted [SignatureType.Timestamp] nothing s"

definition hash_direct_key :: "Key \<Rightarrow> SignaturePacket \<Rightarrow> hashing" where
  "hash_direct_key key s = signature_hash_salted [SignatureType.DirectKey, SignatureType.KeyRevocation] (Key_hash key) s"

definition hash_subkey_binding :: "Key \<Rightarrow> Key \<Rightarrow> SignaturePacket \<Rightarrow> hashing" where
  "hash_subkey_binding key subkey s =
     signature_hash_salted [SignatureType.SubkeyBinding, SignatureType.SubkeyRevocation] (hash_two (Key_hash key) (Key_hash subkey)) s"

definition hash_primary_key_binding :: "Key \<Rightarrow> Key \<Rightarrow> SignaturePacket \<Rightarrow> hashing" where
  "hash_primary_key_binding key subkey s =
     signature_hash_salted [SignatureType.PrimaryKeyBinding] (hash_two (Key_hash key) (Key_hash subkey)) s"

definition hash_userid_binding :: "Key \<Rightarrow> bytes \<Rightarrow> SignaturePacket \<Rightarrow> hashing" where
  "hash_userid_binding key userid s =
     signature_hash_salted (certification_types @ [SignatureType.CertificationRevocation]) (hash_two (Key_hash key) (UserID_hash userid)) s"

definition hash_user_attribute_binding :: "Key \<Rightarrow> bytes \<Rightarrow> SignaturePacket \<Rightarrow> hashing" where
  "hash_user_attribute_binding key ua s =
     signature_hash_salted (certification_types @ [SignatureType.CertificationRevocation]) (hash_two (Key_hash key) (UserAttribute_hash ua)) s"

definition hash_userid_approval :: "Key \<Rightarrow> bytes \<Rightarrow> SignaturePacket \<Rightarrow> hashing" where
  "hash_userid_approval key userid s =
     signature_hash_salted [SignatureType.CertificationApproval] (hash_two (Key_hash key) (UserID_hash userid)) s"

definition hash_user_attribute_approval :: "Key \<Rightarrow> bytes \<Rightarrow> SignaturePacket \<Rightarrow> hashing" where
  "hash_user_attribute_approval key ua s =
     signature_hash_salted [SignatureType.CertificationApproval] (hash_two (Key_hash key) (UserAttribute_hash ua)) s"

definition hash_for_confirmation :: "SignaturePacket \<Rightarrow> hashing" where
  "hash_for_confirmation s ctx =
     (let s4 = SignaturePacket_deref s; hashed = hashed_area (Signature_areas s) in
      and_then (area_octets hashed) (\<lambda>area.
      and_then (Signature_serialize (sig_mpis s4)) (\<lambda>mpis.
        let body = sf_version (Signature_fields s) # algorithm_octets (Signature_fields s)
                   @ to_be_u16 (word_of_nat (min (area_len hashed) 0xFFFF)) @ area @ [0, 0]
                   @ [fst (digest_prefix s4), snd (digest_prefix s4)] @ mpis in
        Inr (Context_update body (Context_update (to_be_u32 (word_of_nat (length body))) (Context_update [0x88] ctx))))))"

section \<open>Signing\<close>

text \<open>
  A signer is its public key with the fingerprint of it and the operation that signs a digest. The fingerprint is a field,
  as in the code it is computed once and kept.
\<close>

record Signer =
  sg_key :: Key
  sg_fingerprint :: Fingerprint
  sg_sign :: "HashAlgorithm \<Rightarrow> bytes \<Rightarrow> Signature res"

definition Signer_public :: "Signer \<Rightarrow> signer_public" where
  "Signer_public sg =
     \<lparr>pub_pk_algo = key_pk_algo (case sg_key sg of Key.V4 k \<Rightarrow> k | Key.V6 k \<Rightarrow> k), pub_version = Key_version (sg_key sg),
      pub_keyid = KeyID_from_Fingerprint (sg_fingerprint sg), pub_fingerprint = sg_fingerprint sg\<rparr>"

record SigningEnv =
  env_hashes :: HashBackend
  env_random :: "nat \<Rightarrow> bytes res"
  env_now :: SystemTime

abbreviation builder_pre_sign :: "SigningEnv \<Rightarrow> Signer \<Rightarrow> SignaturePacket builder_op" where
  "builder_pre_sign env sg \<equiv> pre_sign SignaturePacket_serialized_len (env_random env) (env_now env) (Signer_public sg)"

definition finish_signature :: "Signer \<Rightarrow> bytes \<Rightarrow> SignaturePacket SignatureBuilder \<Rightarrow> SignaturePacket res" where
  "finish_signature sg digest1 b =
     and_then (builder_sign (sg_sign sg) digest1 b) (\<lambda>s. Inr (case s of Inl s \<Rightarrow> SignaturePacket.V4 s | Inr s \<Rightarrow> SignaturePacket.V6 s))"

definition sign_over ::
    "(SignaturePacket SignatureBuilder \<Rightarrow> hashing) \<Rightarrow> SigningEnv \<Rightarrow> Signer \<Rightarrow> SignaturePacket SignatureBuilder \<Rightarrow> SignaturePacket res" where
  "sign_over hash env sg b =
     and_then (builder_pre_sign env sg b) (\<lambda>b.
     and_then (HashAlgorithm_context (env_hashes env) (sf_hash_algo (sb_fields b))) (\<lambda>ctx.
     and_then (hash b (for_signature (sf_version (sb_fields b)) ctx)) (\<lambda>ctx.
     and_then (into_digest (env_hashes env) ctx) (\<lambda>digest1. finish_signature sg digest1 b))))"

definition sign_standalone :: "SigningEnv \<Rightarrow> Signer \<Rightarrow> SignaturePacket SignatureBuilder \<Rightarrow> SignaturePacket res" where
  "sign_standalone = sign_over builder_hash_standalone"

definition sign_timestamp :: "SigningEnv \<Rightarrow> Signer \<Rightarrow> SignaturePacket SignatureBuilder \<Rightarrow> SignaturePacket res" where
  "sign_timestamp = sign_over builder_hash_timestamp"

definition signed_key :: "Key option \<Rightarrow> Signer \<Rightarrow> Key" where
  "signed_key pk sg = (case pk of Some pk \<Rightarrow> pk | None \<Rightarrow> sg_key sg)"

definition sign_direct_key :: "SigningEnv \<Rightarrow> Signer \<Rightarrow> Key option \<Rightarrow> SignaturePacket SignatureBuilder \<Rightarrow> SignaturePacket res" where
  "sign_direct_key env sg pk = sign_over (builder_hash_direct_key (signed_key pk sg)) env sg"

definition sign_userid_binding :: "SigningEnv \<Rightarrow> Signer \<Rightarrow> Key option \<Rightarrow> bytes \<Rightarrow> SignaturePacket SignatureBuilder \<Rightarrow> SignaturePacket res" where
  "sign_userid_binding env sg key userid = sign_over (builder_hash_userid_binding (signed_key key sg) userid) env sg"

definition sign_subkey_binding :: "SigningEnv \<Rightarrow> Signer \<Rightarrow> Key option \<Rightarrow> Key \<Rightarrow> SignaturePacket SignatureBuilder \<Rightarrow> SignaturePacket res" where
  "sign_subkey_binding env sg primary subkey = sign_over (builder_hash_subkey_binding (signed_key primary sg) subkey) env sg"

definition sign_primary_key_binding :: "SigningEnv \<Rightarrow> Signer \<Rightarrow> Key \<Rightarrow> Key \<Rightarrow> SignaturePacket SignatureBuilder \<Rightarrow> SignaturePacket res" where
  "sign_primary_key_binding env sg primary subkey = sign_over (builder_hash_primary_key_binding primary subkey) env sg"

definition sign_user_attribute_binding :: "SigningEnv \<Rightarrow> Signer \<Rightarrow> Key option \<Rightarrow> bytes \<Rightarrow> SignaturePacket SignatureBuilder \<Rightarrow> SignaturePacket res" where
  "sign_user_attribute_binding env sg key ua = sign_over (builder_hash_user_attribute_binding (signed_key key sg) ua) env sg"

definition sign_hash :: "SigningEnv \<Rightarrow> Signer \<Rightarrow> Context \<Rightarrow> SignaturePacket SignatureBuilder \<Rightarrow> SignaturePacket res" where
  "sign_hash env sg ctx b =
     and_then (builder_pre_sign env sg (set_hash_algo (ctx_algo ctx) b)) (\<lambda>b.
     and_then (SignatureBuilder_hash b ctx) (\<lambda>ctx.
     and_then (into_digest (env_hashes env) ctx) (\<lambda>digest1. finish_signature sg digest1 b)))"

definition sign_message :: "SigningEnv \<Rightarrow> Signer \<Rightarrow> bytes \<Rightarrow> SignaturePacket SignatureBuilder \<Rightarrow> SignaturePacket res" where
  "sign_message env sg msg b =
     and_then
       (case sf_typ (sb_fields b) of
          SignatureType.Binary \<Rightarrow> Inr ()
        | SignatureType.Text \<Rightarrow> Inr ()
        | SignatureType.Unknown _ \<Rightarrow> Inr ()
        | typ \<Rightarrow> Inl (Err (UnsupportedSignatureType typ)))
       (\<lambda>_.
     and_then (builder_pre_sign env sg b) (\<lambda>b.
     and_then (HashAlgorithm_context (env_hashes env) (sf_hash_algo (sb_fields b))) (\<lambda>ctx.
     let ctx = for_signature (sf_version (sb_fields b)) ctx;
         ctx = (case SBVersion_salt (sb_version b) of Some s \<Rightarrow> Context_update s ctx | None \<Rightarrow> ctx) in
     and_then (SignatureBuilder_hash b (Context_update msg ctx)) (\<lambda>ctx.
     and_then (into_digest (env_hashes env) ctx) (\<lambda>digest1. finish_signature sg digest1 b)))))"

section \<open>Signer and verifier hash the same\<close>

lemma sb_version_kept:
  "replace_hashed sig_len v crit b = Inr b' \<Longrightarrow> sb_version b' = sb_version b"
  "add_hashed sig_len v crit b = Inr b' \<Longrightarrow> sb_version b' = sb_version b"
  "sb_version (map_fields f b) = sb_version b"
  by (auto simp: replace_hashed_def add_hashed_def modify_hashed_area_def map_fields_def Let_def result_simps)

lemma presign_issuer_version: "presign_issuer sig_len random pk b = Inr b' \<Longrightarrow> sb_version b' = sb_version b"
  by (auto simp: presign_issuer_def set_issuer_def set_issuer_fingerprint_def set_notation_def add_notation_def remove_unhashed_def result_simps
      dest!: sb_version_kept(1,2) split: SBVersion.splits if_splits)
    (simp_all add: sb_version_kept(3))

lemma set_creation_time_version:
  "set_signature_creation_time sig_len t b = Inr b' \<Longrightarrow> sb_version b' = sb_version b \<and> sf_version (sb_fields b') = sf_version (sb_fields b)"
  by (auto simp: set_signature_creation_time_def result_simps dest: sb_version_kept(1) fields_kept(1))

text \<open>After it was completed, a builder has the version of the signature it makes.\<close>

lemma pre_sign_version:
  assumes "pre_sign sig_len random now pk b = Inr b'"
  shows "sf_version (sb_fields b') = SBVersion_to_u8 (sb_version b')"
    "presign_version random (sf_hash_algo (sb_fields b)) (sb_version b) (pub_version pk) = Inr (sb_version b')"
proof -
  obtain v where v: "presign_version random (sf_hash_algo (sb_fields b)) (sb_version b) (pub_version pk) = Inr v"
    using assms by (auto simp: pre_sign_def result_simps)
  define b0 where "b0 = b\<lparr>sb_version := v, sb_fields := SignatureFields (SBVersion_to_u8 v) (sf_typ (sb_fields b)) (pub_pk_algo pk)
      (sf_hash_algo (sb_fields b)) (sb_areas b)\<rparr>"
  obtain b1 b2 where b1: "(if \<not> sb_overrode_creation_time b0 then and_then (effective_signature_creation_time now b0) (\<lambda>t.
              case t of Some t \<Rightarrow> set_signature_creation_time sig_len t b0 | None \<Rightarrow> Inr b0) else Inr b0) = Inr b1"
    and b2: "presign_issuer sig_len random pk b1 = Inr b2" "b' = map_fields SubpacketAreas_sort b2"
    using assms unfolding pre_sign_def v and_then_Inr Let_def b0_def [symmetric] and_then_eq_Inr Inr_inject by blast
  have b0: "sb_version b0 = v" "sf_version (sb_fields b0) = SBVersion_to_u8 v" by (simp_all add: b0_def)
  have "sb_version b1 = v \<and> sf_version (sb_fields b1) = SBVersion_to_u8 v"
    using b1 b0 by (auto simp: result_simps split: if_splits option.splits dest!: set_creation_time_version)
  then show "sf_version (sb_fields b') = SBVersion_to_u8 (sb_version b')"
    "presign_version random (sf_hash_algo (sb_fields b)) (sb_version b) (pub_version pk) = Inr (sb_version b')"
    using presign_issuer_version [OF b2(1)] presign_issuer_fields [OF b2(1)] v by (simp_all add: b2(2) sb_version_kept(3) fields_kept(3))
qed

lemma algorithm_octets_version:
  "algorithm_octets (SignatureFields v (sf_typ f) (sf_pk_algo f) (sf_hash_algo f) (sf_subpackets f)) = algorithm_octets f"
  by (simp add: algorithm_octets_def)

text \<open>The signature that is made from a digest has the type, the salt and the octets that were hashed.\<close>

lemma finish_signature_ok:
  assumes "finish_signature sg d b = Inr s" "sf_version (sb_fields b) = SBVersion_to_u8 (sb_version b)"
  shows "sf_typ (Signature_fields s) = sf_typ (sb_fields b)" "Signature_salt s = prefix_salt b" "Signature_hash s = SignatureBuilder_hash b"
    "sf_hash_algo (Signature_fields s) = sf_hash_algo (sb_fields b)" "sf_version (Signature_fields s) = sf_version (sb_fields b)"
    "sg_sign sg (sf_hash_algo (sb_fields b)) d = Inr (sig_mpis (SignaturePacket_deref s))"
    "computed_digest (SignaturePacket_deref s) = Some d"
    "sf_subpackets (Signature_fields s) = sb_areas b"
  using assms
  by (auto simp: finish_signature_def builder_sign_def Signature6_from_common_def set_version_def SignaturePacket_deref_def Signature_salt_def
      prefix_salt_def SBVersion_salt_def SBVersion_to_u8_def Signature_hash_def SignatureBuilder_hash_def Signature6_hash_fields_def
      algorithm_octets_version Let_def result_simps fun_eq_iff split: SBVersion.splits if_splits)

text \<open>What it means that a signature was made over what the given operation hashes.\<close>

definition made_over :: "SigningEnv \<Rightarrow> Signer \<Rightarrow> hashing \<Rightarrow> SignaturePacket \<Rightarrow> bool" where
  "made_over env sg hash s \<longleftrightarrow>
     (\<exists>ctx ctx' d. HashAlgorithm_context (env_hashes env) (sf_hash_algo (Signature_fields s)) = Inr ctx
        \<and> hash (for_signature (sf_version (Signature_fields s)) ctx) = Inr ctx' \<and> into_digest (env_hashes env) ctx' = Inr d
        \<and> sg_sign sg (sf_hash_algo (Signature_fields s)) d = Inr (sig_mpis (SignaturePacket_deref s))
        \<and> computed_digest (SignaturePacket_deref s) = Some d)"

lemma sign_over_made:
  assumes "sign_over hash env sg b = Inr s"
    and "\<And>b. hash b = builder_hash_salted types covered b"
  shows "made_over env sg (signature_hash_salted types covered s) s"
proof -
  obtain b' ctx ctx' d where b': "builder_pre_sign env sg b = Inr b'"
      "HashAlgorithm_context (env_hashes env) (sf_hash_algo (sb_fields b')) = Inr ctx"
      "hash b' (for_signature (sf_version (sb_fields b')) ctx) = Inr ctx'" "into_digest (env_hashes env) ctx' = Inr d"
      "finish_signature sg d b' = Inr s"
    using assms(1) by (auto simp: sign_over_def result_simps)
  note fin = finish_signature_ok [OF b'(5) pre_sign_version(1) [OF b'(1)]]
  show ?thesis
    unfolding made_over_def fin using b'(2-4) fin(6) assms(2) by auto
qed

text \<open>
  What is signed is what is verified: the signature that an operation of the builder makes is made over the digest of
  exactly the octets that the corresponding operation of the finished signature hashes, with the same algorithm, the same
  version and the same salt, and the digest is kept in the signature.
\<close>

lemma signed_is_hashed:
  "(sign_standalone env sg b = Inr s \<longrightarrow> made_over env sg (hash_standalone s) s)
   \<and> (sign_timestamp env sg b = Inr s \<longrightarrow> made_over env sg (hash_timestamp s) s)
   \<and> (sign_direct_key env sg pk b = Inr s \<longrightarrow> made_over env sg (hash_direct_key (signed_key pk sg) s) s)
   \<and> (sign_userid_binding env sg pk u b = Inr s \<longrightarrow> made_over env sg (hash_userid_binding (signed_key pk sg) u s) s)
   \<and> (sign_subkey_binding env sg pk k b = Inr s \<longrightarrow> made_over env sg (hash_subkey_binding (signed_key pk sg) k s) s)
   \<and> (sign_primary_key_binding env sg p k b = Inr s \<longrightarrow> made_over env sg (hash_primary_key_binding p k s) s)
   \<and> (sign_user_attribute_binding env sg pk u b = Inr s \<longrightarrow> made_over env sg (hash_user_attribute_binding (signed_key pk sg) u s) s)"
  unfolding sign_standalone_def sign_timestamp_def sign_direct_key_def sign_userid_binding_def sign_subkey_binding_def
    sign_primary_key_binding_def sign_user_attribute_binding_def hash_standalone_def hash_timestamp_def hash_direct_key_def
    hash_userid_binding_def hash_subkey_binding_def hash_primary_key_binding_def hash_user_attribute_binding_def
  by (intro conjI impI; erule sign_over_made)
    (simp_all add: builder_hash_standalone_def builder_hash_timestamp_def builder_hash_direct_key_def builder_hash_userid_binding_def
      builder_hash_subkey_binding_def builder_hash_primary_key_binding_def builder_hash_user_attribute_binding_def)

section \<open>What is hashed is unambiguous\<close>

text \<open>
  Well-formed parts: the octets of the hashed area are as many as announced and fit the length field, the octets of a
  key are as many as announced, a user ID or attribute fits its length field. Version 3 signatures have no trailer; their
  type must not be the octet that marks a trailer.
\<close>

definition area_well_sized :: "nat \<Rightarrow> SignaturePacket SignatureFields \<Rightarrow> bool" where
  "area_well_sized bound f =
     (case area_octets (hashed_area (sf_subpackets f)) of
        Inr os \<Rightarrow> length os = area_len (hashed_area (sf_subpackets f)) \<and> length os < bound
      | Inl _ \<Rightarrow> True)"

definition Signature_version :: "SignaturePacket \<Rightarrow> nat" where
  "Signature_version s = (case s of SignaturePacket.V3 _ \<Rightarrow> 3 | SignaturePacket.V4 _ \<Rightarrow> 4 | SignaturePacket.V6 _ \<Rightarrow> 6)"

definition signature_well_sized :: "SignaturePacket \<Rightarrow> bool" where
  "signature_well_sized s \<longleftrightarrow>
     unat (sf_version (Signature_fields s)) = Signature_version s
     \<and> (case s of
        SignaturePacket.V3 _ \<Rightarrow> u8_from_SignatureType (sf_typ (Signature_fields s)) \<noteq> 0xff
      | SignaturePacket.V4 _ \<Rightarrow> area_well_sized (2 ^ 16) (Signature_fields s)
      | SignaturePacket.V6 _ \<Rightarrow> area_well_sized (2 ^ 32 - 8) (Signature_fields s))"

definition key_well_sized :: "Key \<Rightarrow> bool" where
  "key_well_sized k =
     (let mpis = key_mpis (case k of Key.V4 k \<Rightarrow> k | Key.V6 k \<Rightarrow> k) in
      case PublicKey_serialize mpis of Inr c \<Rightarrow> length c = PublicKey_serialized_len mpis | Inl _ \<Rightarrow> True)"

lemma be_length_inj:
  "to_be_u16 (word_of_nat m) = to_be_u16 (word_of_nat n) \<Longrightarrow> m < 2 ^ 16 \<Longrightarrow> n < 2 ^ 16 \<Longrightarrow> m = n"
  "to_be_u32 (word_of_nat m) = to_be_u32 (word_of_nat n) \<Longrightarrow> m < 2 ^ 32 \<Longrightarrow> n < 2 ^ 32 \<Longrightarrow> m = n"
proof -
  show "m = n" if "to_be_u16 (word_of_nat m) = to_be_u16 (word_of_nat n)" "m < 2 ^ 16" "n < 2 ^ 16"
    using arg_cong [OF that(1), of "\<lambda>b. unat (from_be_u16 b)"] that(2,3) by (simp add: unat_of_nat)
  show "m = n" if "to_be_u32 (word_of_nat m) = to_be_u32 (word_of_nat n)" "m < 2 ^ 32" "n < 2 ^ 32"
    using arg_cong [OF that(1), of "\<lambda>b. unat (from_be_u32 b)"] that(2,3) by (simp add: unat_of_nat)
qed

lemma split_end: "length u = length v \<Longrightarrow> xs @ u = ys @ v \<longleftrightarrow> xs = ys \<and> u = v"
  by (simp add: append_eq_append_conv)

definition trailed :: "u8 \<Rightarrow> bytes \<Rightarrow> bytes" where
  "trailed v body = body @ [v, 0xff] @ to_be_u32 (word_of_nat (length body))"

lemma trailed_eq:
  assumes "xs @ trailed v body = ys @ trailed w body'" "length body < 2 ^ 32" "length body' < 2 ^ 32"
  shows "xs = ys \<and> v = w \<and> body = body'"
proof -
  have "(xs @ body @ [v, 0xff]) @ to_be_u32 (word_of_nat (length body)) = (ys @ body' @ [w, 0xff]) @ to_be_u32 (word_of_nat (length body'))"
    using assms(1) by (simp add: trailed_def)
  then have *: "xs @ body @ [v, 0xff] = ys @ body' @ [w, 0xff]"
      "to_be_u32 (word_of_nat (length body)) = to_be_u32 (word_of_nat (length body'))"
    by (simp_all only: split_end length_to_be simp_thms)
  then have "length body = length body'" using assms(2,3) be_length_inj(2) by blast
  moreover have "(xs @ body) @ [v, 0xff] = (ys @ body') @ [w, 0xff]" using *(1) by simp
  then have "xs @ body = ys @ body' \<and> v = w" by simp
  ultimately show ?thesis by (simp add: split_end)
qed

text \<open>The octets that stand for a signature, its user IDs and its keys.\<close>

definition signature_octets :: "SignaturePacket \<Rightarrow> bytes res" where
  "signature_octets s =
     (let f = Signature_fields s; hashed = hashed_area (sf_subpackets f) in
      case s of
        SignaturePacket.V3 _ \<Rightarrow>
          and_then (signature_creation_time (sf_subpackets f)) (\<lambda>t.
            Inr (u8_from_SignatureType (sf_typ f)
              # to_be_u32 (case Timestamp_try_from (case t of Some t \<Rightarrow> t | None \<Rightarrow> 0) of Inr t \<Rightarrow> t | Inl _ \<Rightarrow> 0)))
      | SignaturePacket.V4 _ \<Rightarrow>
          and_then (area_octets hashed) (\<lambda>os. Inr (trailed 4 (4 # algorithm_octets f @ to_be_u16 (word_of_nat (length os)) @ os)))
      | SignaturePacket.V6 _ \<Rightarrow>
          and_then (area_octets hashed) (\<lambda>os. Inr (trailed 6 (6 # algorithm_octets f @ to_be_u32 (word_of_nat (length os)) @ os))))"

definition key_octets :: "u8 \<Rightarrow> Key \<Rightarrow> bytes res" where
  "key_octets v k = (case k of Key.V4 k \<Rightarrow> Key4_hash (Some v) k | Key.V6 k \<Rightarrow> Key6_hash (Some v) k)"

definition value_octets :: "u8 \<Rightarrow> bytes \<Rightarrow> bytes" where
  "value_octets mark val = mark # to_be_u32 (word_of_nat (length val)) @ val"

lemma ctx_data_update [simp]: "ctx_data (Context_update bs ctx) = ctx_data ctx @ bs" "ctx_for_signature (Context_update bs ctx) = ctx_for_signature ctx"
  by (simp_all add: Context_update_def)

lemma length_algorithm_octets [simp]: "length (algorithm_octets f) = 3"
  by (simp add: algorithm_octets_def)

lemma Signature_hash_octets:
  assumes "Signature_hash s ctx = Inr ctx'" "signature_well_sized s"
  obtains os where "signature_octets s = Inr os" "ctx_data ctx' = ctx_data ctx @ os"
  using assms
  by (cases s) (auto simp: Signature_hash_def signature_octets_def Signature3_hash_fields_def Signature4_hash_fields_def Signature6_hash_fields_def
      SignaturePacket_deref_def signature_well_sized_def area_well_sized_def trailed_def Let_def result_simps)

text \<open>Where the octets of a signature begin can be read from their end.\<close>

lemma v3_end:
  assumes "xs @ t # to_be_u32 n = ys @ trailed v body"
  shows "t = 0xff"
proof -
  have "(xs @ [t]) @ to_be_u32 n = (ys @ body @ [v, 0xff]) @ to_be_u32 (word_of_nat (length body))"
    using assms by (simp add: trailed_def)
  then have "xs @ [t] = ys @ body @ [v, 0xff]" by (subst (asm) split_end) (simp_all only: length_to_be simp_thms)
  then have "last (xs @ [t]) = last (ys @ body @ [v, 0xff])" by simp
  then show ?thesis by simp
qed

lemma signature_octets_cases:
  assumes "signature_octets s = Inr os" "signature_well_sized s"
  obtains (short) t n where "os = t # to_be_u32 n" "t \<noteq> 0xff" "Signature_version s = 3"
    | (long) v body where "os = trailed v body" "length body < 2 ^ 32" "v = word_of_nat (Signature_version s)" "Signature_version s \<in> {4, 6}"
proof (cases s)
  case (V3 s3)
  then show thesis
    using assms short by (auto simp: signature_octets_def signature_well_sized_def Signature_version_def Let_def result_simps)
next
  case (V4 s4)
  then obtain a where a: "area_octets (hashed_area (Signature_areas s)) = Inr a" "os = trailed 4 (4 # algorithm_octets (Signature_fields s) @ to_be_u16 (word_of_nat (length a)) @ a)"
    using assms(1) by (auto simp: signature_octets_def Let_def and_then_eq_Inr)
  then have "length a < 2 ^ 16" using assms(2) V4 by (simp add: signature_well_sized_def area_well_sized_def)
  then show thesis using V4 a(2) long by (simp add: Signature_version_def)
next
  case (V6 s6)
  then obtain a where a: "area_octets (hashed_area (Signature_areas s)) = Inr a" "os = trailed 6 (6 # algorithm_octets (Signature_fields s) @ to_be_u32 (word_of_nat (length a)) @ a)"
    using assms(1) by (auto simp: signature_octets_def Let_def and_then_eq_Inr)
  then have "length a < 2 ^ 32 - 8" using assms(2) V6 by (simp add: signature_well_sized_def area_well_sized_def)
  then show thesis using V6 a(2) long by (simp add: Signature_version_def)
qed

lemma signature_end:
  assumes "signature_octets s = Inr os" "signature_well_sized s" "signature_octets s' = Inr os'" "signature_well_sized s'"
    and "xs @ os = ys @ os'"
  shows "xs = ys \<and> os = os' \<and> Signature_version s = Signature_version s'"
  using assms(1,2)
proof (cases rule: signature_octets_cases)
  case short
  from assms(3,4) show ?thesis
  proof (cases rule: signature_octets_cases)
    case (short t' n')
    then show ?thesis using \<open>os = _\<close> \<open>Signature_version s = 3\<close> assms(5) by (simp add: split_end)
  next
    case (long v body)
    then show ?thesis using short v3_end assms(5) by metis
  qed
next
  case (long v body)
  from assms(3,4) show ?thesis
  proof (cases rule: signature_octets_cases)
    case (short t' n')
    then show ?thesis using long v3_end [of ys t' n' xs v body] assms(5) by simp
  next
    case (long v' body')
    with \<open>os = trailed v body\<close> \<open>length body < 2 ^ 32\<close> assms(5) have "xs = ys \<and> v = v' \<and> body = body'"
      using trailed_eq by blast
    moreover have "(word_of_nat 4 :: u8) \<noteq> word_of_nat 6" by simp
    ultimately show ?thesis
      using long \<open>os = trailed v body\<close> \<open>v = word_of_nat (Signature_version s)\<close> \<open>Signature_version s \<in> {4, 6}\<close> by auto
  qed
qed

text \<open>The octets of keys and of values say how long they are.\<close>

lemma key_octets_delimited:
  assumes "key_octets v k = Inr a" "key_octets v k' = Inr a'" "key_well_sized k" "key_well_sized k'" "a @ xs = a' @ ys"
  shows "a = a' \<and> xs = ys"
proof -
  have shape: "(v = 3 \<or> v = 4) \<and> (\<exists>n b. a = 0x99 # to_be_u16 (word_of_nat n) @ b \<and> length b = n \<and> n < 2 ^ 16)
      \<or> v = 6 \<and> (\<exists>n b. a = 0x9b # to_be_u32 (word_of_nat n) @ b \<and> length b = n \<and> n < 2 ^ 32)"
    if "key_octets v k = Inr a" "key_well_sized k" for k a
    using that by (cases k) (auto simp: key_octets_def Key4_hash_def Key6_hash_def write_key_hash_header_def key_well_sized_def result_simps split: if_splits)
  have "length a = length a'"
    using shape [OF assms(1,3)] shape [OF assms(2,4)] assms(5) be_length_inj by (auto simp: append_eq_append_conv)
  then show ?thesis using assms(5) by simp
qed

lemma value_octets_delimited:
  assumes "value_octets m u = value_octets m' u'" "length u < 2 ^ 32" "length u' < 2 ^ 32"
  shows "m = m' \<and> u = u'"
  using assms by (auto simp: value_octets_def append_eq_append_conv)

lemma covered_value:
  assumes "hash_two (Key_hash k) h ctx = Inr ctx'" "\<And>ctx. h ctx = Inr (Context_update u (Context_update (m # to_be_u32 (word_of_nat (length u))) ctx))"
    and "ctx_for_signature ctx = Some v"
  obtains a where "key_octets v k = Inr a" "ctx_data ctx' = ctx_data ctx @ a @ value_octets m u"
  using assms by (cases k) (auto simp: hash_two_def Key_hash_def key_octets_def value_octets_def result_simps)

text \<open>A salt of the size that belongs to the hash, which verification insists on.\<close>

definition salt_well_sized :: "SignaturePacket \<Rightarrow> bool" where
  "salt_well_sized s =
     (case s of SignaturePacket.V6 s6 \<Rightarrow> salt_size (sf_hash_algo (Signature_fields s)) = Inr (length (salt s6)) | _ \<Rightarrow> True)"

definition salt_octets :: "SignaturePacket \<Rightarrow> bytes" where
  "salt_octets s = (case Signature_salt s of Some x \<Rightarrow> x | None \<Rightarrow> [])"

lemma salt_size_octet: "salt_size h = Inr n \<Longrightarrow> salt_size h' = Inr n' \<Longrightarrow> u8_from_HashAlgorithm h = u8_from_HashAlgorithm h' \<Longrightarrow> n = n'"
  by (cases h; cases h') (simp_all add: salt_size_def u8_from_HashAlgorithm_def)

lemma salt_lengths:
  assumes "signature_octets s = Inr os" "signature_octets s' = Inr os" "signature_well_sized s" "signature_well_sized s'"
    and "salt_well_sized s" "salt_well_sized s'" "Signature_version s = Signature_version s'"
  shows "length (salt_octets s) = length (salt_octets s')"
proof (cases "Signature_version s = 6")
  case True
  then obtain s6 s6' where v: "s = SignaturePacket.V6 s6" "s' = SignaturePacket.V6 s6'"
    using assms(7) by (cases s; cases s') (simp_all add: Signature_version_def)
  obtain a b where os: "os = trailed 6 (6 # algorithm_octets (Signature_fields s) @ to_be_u32 (word_of_nat (length a)) @ a)"
      "os = trailed 6 (6 # algorithm_octets (Signature_fields s') @ to_be_u32 (word_of_nat (length b)) @ b)"
    using assms(1,2) v by (auto simp: signature_octets_def Let_def and_then_eq_Inr)
  then have "algorithm_octets (Signature_fields s) = algorithm_octets (Signature_fields s')"
    using arg_cong [of _ _ "\<lambda>x. take 3 (drop 1 x)"] by (simp add: trailed_def append_eq_append_conv)
  then show ?thesis
    using assms(5,6) v salt_size_octet by (auto simp: algorithm_octets_def salt_well_sized_def salt_octets_def Signature_salt_def)
next
  case False
  then show ?thesis using assms(7) by (cases s; cases s') (simp_all add: Signature_version_def salt_octets_def Signature_salt_def)
qed

text \<open>The octets hashed for a user ID or attribute: salt, key, value and signature, one after the other.\<close>

lemma binding_octets:
  assumes "hash_salted types typ (Signature_salt s) (hash_two (Key_hash k) h) (Signature_hash s) (for_signature (sf_version (Signature_fields s)) c) = Inr d"
    and "ctx_data c = []" "signature_well_sized s"
    and "\<And>ctx. h ctx = Inr (Context_update u (Context_update (m # to_be_u32 (word_of_nat (length u))) ctx))"
  obtains a os where "key_octets (sf_version (Signature_fields s)) k = Inr a" "signature_octets s = Inr os"
    "ctx_data d = (salt_octets s @ a @ value_octets m u) @ os"
proof -
  define c0 where "c0 = (case Signature_salt s of Some x \<Rightarrow> Context_update x (for_signature (sf_version (Signature_fields s)) c)
      | None \<Rightarrow> for_signature (sf_version (Signature_fields s)) c)"
  have c0: "ctx_data c0 = salt_octets s" "ctx_for_signature c0 = Some (sf_version (Signature_fields s))"
    using assms(2) by (simp_all add: c0_def salt_octets_def for_signature_def split: option.split)
  obtain c1 where c1: "hash_two (Key_hash k) h c0 = Inr c1" "Signature_hash s c1 = Inr d"
    using assms(1) by (auto simp: hash_salted_def c0_def result_simps split: if_splits)
  obtain a where a: "key_octets (sf_version (Signature_fields s)) k = Inr a" "ctx_data c1 = ctx_data c0 @ a @ value_octets m u"
    by (rule covered_value [OF c1(1) assms(4) c0(2)])
  obtain os where "signature_octets s = Inr os" "ctx_data d = ctx_data c1 @ os"
    by (rule Signature_hash_octets [OF c1(2) assms(3)])
  with a c0(1) that show thesis by simp
qed

lemma binding_unambiguous:
  assumes "signature_octets s = Inr os" "signature_well_sized s" "salt_well_sized s" "signature_octets s' = Inr os'" "signature_well_sized s'"
    "salt_well_sized s'" "key_octets (sf_version (Signature_fields s)) k = Inr a" "key_octets (sf_version (Signature_fields s')) k' = Inr a'"
    "key_well_sized k" "key_well_sized k'" "length u < 2 ^ 32" "length u' < 2 ^ 32"
    and eq: "(salt_octets s @ a @ value_octets m u) @ os = (salt_octets s' @ a' @ value_octets m' u') @ os'"
  shows "os = os' \<and> salt_octets s = salt_octets s' \<and> a = a' \<and> m = m' \<and> u = u' \<and> sf_version (Signature_fields s) = sf_version (Signature_fields s')"
proof -
  have sig: "salt_octets s @ a @ value_octets m u = salt_octets s' @ a' @ value_octets m' u'" "os = os'" "Signature_version s = Signature_version s'"
    using signature_end [OF assms(1,2,4,5) eq] by simp_all
  then have v: "sf_version (Signature_fields s) = sf_version (Signature_fields s')"
    using assms(2,5) by (auto simp: signature_well_sized_def intro: word_unat_eq_iff [THEN iffD2])
  have "length (salt_octets s) = length (salt_octets s')"
    using salt_lengths [of s os s'] assms(1-6) sig(2,3) by simp
  then have salt: "salt_octets s = salt_octets s'" "a @ value_octets m u = a' @ value_octets m' u'" using sig(1) by (simp_all add: append_eq_append_conv)
  have "key_octets (sf_version (Signature_fields s)) k' = Inr a'" using assms(8) v by simp
  from key_octets_delimited [OF assms(7) this assms(9,10) salt(2)] value_octets_delimited [OF _ assms(11,12)] salt(1) sig(2) v
  show ?thesis by blast
qed

lemma userid_binding_octets:
  assumes "hash_userid_binding k u s (for_signature (sf_version (Signature_fields s)) c) = Inr d" "ctx_data c = []" "signature_well_sized s"
  obtains a os where "key_octets (sf_version (Signature_fields s)) k = Inr a" "signature_octets s = Inr os"
    "ctx_data d = (salt_octets s @ a @ value_octets 0xB4 u) @ os"
  using binding_octets [OF assms(1) [unfolded hash_userid_binding_def] assms(2,3) UserID_hash_def] by blast

lemma user_attribute_binding_octets:
  assumes "hash_user_attribute_binding k u s (for_signature (sf_version (Signature_fields s)) c) = Inr d" "ctx_data c = []" "signature_well_sized s"
  obtains a os where "key_octets (sf_version (Signature_fields s)) k = Inr a" "signature_octets s = Inr os"
    "ctx_data d = (salt_octets s @ a @ value_octets 0xD1 u) @ os"
  using binding_octets [OF assms(1) [unfolded hash_user_attribute_binding_def] assms(2,3) UserAttribute_hash_def] by blast


definition example_key :: Key where
  "example_key = Key.V4 (Key4_make 1 PublicKeyAlgorithm.Ed25519 (PublicKey.Ed25519 (replicate 32 9)) None)"

definition example_certification :: "SignaturePacket Subpacket list \<Rightarrow> SignaturePacket" where
  "example_certification unhashed = SignaturePacket.V4
     (Signature4_new SignatureType.GenericCertification PublicKeyAlgorithm.Ed25519 HashAlgorithm.SHA512 (SubpacketArea [] None)
       (SubpacketArea unhashed None) (1, 2) (Signature.Ed25519 [7]))"

definition example_context :: Context where
  "example_context = \<lparr>ctx_algo = HashAlgorithm.SHA512, ctx_for_signature = None, ctx_data = []\<rparr>"

lemmas example_simps = example_key_def example_certification_def example_context_def Key4_make_def Signature4_new_def SubpacketAreas_new_def
  SignaturePacket_deref_def Signature_salt_def hash_userid_binding_def hash_user_attribute_binding_def hash_salted_def certification_types_def
  for_signature_def hash_two_def Key_hash_def Key4_hash_def write_key_hash_header_def UserID_hash_def UserAttribute_hash_def Signature_hash_def
  Signature4_hash_fields_def PublicKey_serialize_def PublicKey_serialized_len_def SubpacketArea_serialize_def SubpacketArea_serialized_len_def
  signature_well_sized_def area_well_sized_def Signature_version_def salt_well_sized_def key_well_sized_def algorithm_octets_def Let_def


end
