(* ===== verification/SignatureCache.thy ===== *)
theory SignatureCache
  imports SignatureHashing BinarySearch
begin

text \<open>
  The cache of verified signatures (\<open>packet/signature/cache.rs\<close>): how its keys are computed, looking one up, adding one,
  restoring a list of keys and listing the cache.

  The cache is a global of the program; here it is an argument and a result. The restored entries are a sorted list that is
  searched by halving; each of the sixteen maps is the list of its entries in ascending order of their keys. The operations run
  one after the other: the locks of the maps and the thread that restores are not modelled, nor is the trace output.
\<close>

section \<open>Entries\<close>

definition HASH_ALGO :: HashAlgorithm where
  "HASH_ALGO = HashAlgorithm.SHA512"

definition VALUE_BYTES :: nat where
  "VALUE_BYTES = 512 div 8 div 2"

record Metadata =
  inserted :: bool
  accessed :: bool

record Entry =
  entry_value :: bytes
  entry_metadata :: Metadata

definition Metadata_new :: "bool \<Rightarrow> Metadata" where
  "Metadata_new ins = \<lparr>inserted = ins, accessed = False\<rparr>"

definition le_octets :: "nat \<Rightarrow> bytes" where
  "le_octets n = map (\<lambda>i. word_of_nat (drop_bit i n)) [0, 8, 16, 24]"

definition Entry_new :: "HashBackend \<Rightarrow> SignaturePacket \<Rightarrow> bytes \<Rightarrow> Key \<Rightarrow> Entry res" where
  "Entry_new be sig digest1 key =
     (let mpis = sig_mpis (SignaturePacket_deref sig); key_mpis1 = key_mpis (case key of Key.V4 k \<Rightarrow> k | Key.V6 k \<Rightarrow> k) in
      and_then (HashAlgorithm_context be HASH_ALGO) (\<lambda>ctx.
      let ctx = Context_update (le_octets (Signature_serialized_len mpis)) (Context_update [0] (for_digest ctx)) in
      and_then (Signature_serialize mpis) (\<lambda>os.
      let ctx = Context_update digest1
                  (Context_update [u8_from_HashAlgorithm (sf_hash_algo (Signature_fields sig))] (Context_update os ctx)) in
      and_then (PublicKey_serialize key_mpis1) (\<lambda>os.
      and_then (into_digest be (Context_update os ctx)) (\<lambda>context_hash.
        if length context_hash < VALUE_BYTES then Inl Panic
        else Inr \<lparr>entry_value = take VALUE_BYTES context_hash, entry_metadata = Metadata_new True\<rparr>)))))"

section \<open>Searching\<close>

definition search_value :: "bytes \<Rightarrow> Entry list \<Rightarrow> nat option" where
  "search_value v es = (case binary_search_by (\<lambda>e. slice_cmp (entry_value e) v) es of Inr i \<Rightarrow> Some i | Inl _ \<Rightarrow> None)"

text \<open>The ordered maps of the standard library.\<close>

fun btree_get :: "bytes \<Rightarrow> Entry list \<Rightarrow> nat option" where
  "btree_get v [] = None"
| "btree_get v (e # es) = (if entry_value e = v then Some 0 else map_option Suc (btree_get v es))"

fun btree_insert :: "Entry \<Rightarrow> Entry list \<Rightarrow> Entry list" where
  "btree_insert e [] = [e]"
| "btree_insert e (e' # es) =
     (case slice_cmp (entry_value e) (entry_value e') of
        Less \<Rightarrow> e # e' # es
      | Equal \<Rightarrow> e # es
      | Greater \<Rightarrow> e' # btree_insert e es)"

section \<open>The cache\<close>

definition BUCKETS_BITS :: nat where
  "BUCKETS_BITS = 4"

definition BUCKETS :: nat where
  "BUCKETS = push_bit BUCKETS_BITS 1"

definition BUCKETS_SHIFT :: nat where
  "BUCKETS_SHIFT = 8 - BUCKETS_BITS"

record SignatureVerificationCache =
  cache_list :: "Entry list option"
  buckets :: "Entry list list"
  hits :: u64
  misses :: u64
  preloads :: u64
  insertions :: u64

definition cache_empty :: SignatureVerificationCache where
  "cache_empty = \<lparr>cache_list = None, buckets = replicate BUCKETS [], hits = 0, misses = 0, preloads = 0, insertions = 0\<rparr>"

definition bucket :: "bytes \<Rightarrow> nat" where
  "bucket v = unat (drop_bit BUCKETS_SHIFT (v ! 0))"

definition mark_accessed :: "nat \<Rightarrow> Entry list \<Rightarrow> Entry list" where
  "mark_accessed i es = es[i := (es ! i)\<lparr>entry_metadata := (entry_metadata (es ! i))\<lparr>accessed := True\<rparr>\<rparr>]"

definition cache_present :: "bytes \<Rightarrow> SignatureVerificationCache \<Rightarrow> (bool \<times> SignatureVerificationCache) res" where
  "cache_present v c =
     (if length v \<noteq> VALUE_BYTES then Inl Panic
      else
        case (case cache_list c of Some es \<Rightarrow> search_value v es | None \<Rightarrow> None) of
          Some i \<Rightarrow> Inr (True, c\<lparr>cache_list := map_option (mark_accessed i) (cache_list c), hits := hits c + 1\<rparr>)
        | None \<Rightarrow>
            (let b = bucket v; entries = buckets c ! b in
             case btree_get v entries of
               Some i \<Rightarrow> Inr (True, c\<lparr>buckets := (buckets c)[b := mark_accessed i entries], hits := hits c + 1\<rparr>)
             | None \<Rightarrow> Inr (False, c\<lparr>misses := misses c + 1\<rparr>)))"

definition cache_insert :: "bytes \<Rightarrow> SignatureVerificationCache \<Rightarrow> SignatureVerificationCache" where
  "cache_insert v c =
     (let b = bucket v; entries = buckets c ! b in
      case btree_get v entries of
        None \<Rightarrow>
          c\<lparr>buckets := (buckets c)[b := btree_insert \<lparr>entry_value = v, entry_metadata = Metadata_new True\<rparr> entries],
            insertions := insertions c + 1\<rparr>
      | Some _ \<Rightarrow> c)"

definition Entry_present :: "Entry \<Rightarrow> SignatureVerificationCache \<Rightarrow> (bool \<times> SignatureVerificationCache) res" where
  "Entry_present e c = cache_present (entry_value e) c"

definition Entry_insert :: "Entry \<Rightarrow> bool \<Rightarrow> SignatureVerificationCache \<Rightarrow> SignatureVerificationCache" where
  "Entry_insert e verified c = (if verified then cache_insert (entry_value e) c else c)"

definition clear_insertions :: "SignatureVerificationCache \<Rightarrow> SignatureVerificationCache" where
  "clear_insertions c = c\<lparr>insertions := 0\<rparr>"

text \<open>
  The keys to restore: those of the wrong size are skipped, the others are sorted. Keys of one size are ordered like the
  numbers they spell. The first restored list is kept as it is, a later one goes to the maps, whose index must not fall.
\<close>

definition restore_items :: "bytes list \<Rightarrow> Entry list" where
  "restore_items entries =
     sort_key (\<lambda>e. be_nat (entry_value e))
       (map (\<lambda>v. \<lparr>entry_value = v, entry_metadata = Metadata_new False\<rparr>) (filter (\<lambda>v. length v = VALUE_BYTES) entries))"

fun restore_buckets :: "nat \<Rightarrow> Entry list \<Rightarrow> Entry list list \<Rightarrow> Entry list list res" where
  "restore_buckets bucket_i [] bs = Inr bs"
| "restore_buckets bucket_i (e # es) bs =
     (let i = bucket (entry_value e) in
      if i \<noteq> bucket_i \<and> \<not> bucket_i < i then Inl Panic
      else restore_buckets i es (bs[i := btree_insert e (bs ! i)]))"

definition has_cache_hash :: "HashBackend \<Rightarrow> bool" where
  "has_cache_hash be =
     (case HashAlgorithm_context be HASH_ALGO of Inr ctx \<Rightarrow> Context_digest_size (for_digest ctx) = Inr (2 * VALUE_BYTES) | Inl _ \<Rightarrow> False)"

definition cache_restore :: "HashBackend \<Rightarrow> bytes list \<Rightarrow> SignatureVerificationCache \<Rightarrow> SignatureVerificationCache res" where
  "cache_restore be entries c =
     (if \<not> has_cache_hash be then Inl Panic
      else
        let items = restore_items entries; c = c\<lparr>preloads := preloads c + word_of_nat (length items)\<rparr> in
        case cache_list c of
          None \<Rightarrow> Inr (c\<lparr>cache_list := Some items\<rparr>)
        | Some _ \<Rightarrow> and_then (restore_buckets 0 items (buckets c)) (\<lambda>bs. Inr (c\<lparr>buckets := bs\<rparr>)))"

definition cache_dump :: "SignatureVerificationCache \<Rightarrow> Entry list" where
  "cache_dump c =
     (let es = (case cache_list c of Some es \<Rightarrow> es | None \<Rightarrow> []) in
      concat (map (filter (\<lambda>e. search_value (entry_value e) es = None)) (buckets c)) @ es)"

section \<open>The cache is a set of keys\<close>

abbreviation entry_key :: "Entry \<Rightarrow> nat" where
  "entry_key e \<equiv> be_nat (entry_value e)"

definition entries_ok :: "Entry list \<Rightarrow> bool" where
  "entries_ok es \<longleftrightarrow> sorted (map entry_key es) \<and> (\<forall>e \<in> set es. length (entry_value e) = VALUE_BYTES)"

definition cache_invar :: "SignatureVerificationCache \<Rightarrow> bool" where
  "cache_invar c \<longleftrightarrow>
     (case cache_list c of Some es \<Rightarrow> entries_ok es | None \<Rightarrow> True)
     \<and> length (buckets c) = BUCKETS
     \<and> (\<forall>i < BUCKETS. entries_ok (buckets c ! i) \<and> distinct (map entry_key (buckets c ! i)) \<and> (\<forall>e \<in> set (buckets c ! i). bucket (entry_value e) = i))"

definition values_of :: "Entry list \<Rightarrow> bytes set" where
  "values_of es = entry_value ` set es"

definition cache_values :: "SignatureVerificationCache \<Rightarrow> bytes set" where
  "cache_values c = (case cache_list c of Some es \<Rightarrow> values_of es | None \<Rightarrow> {}) \<union> (\<Union>es \<in> set (buckets c). values_of es)"

lemma be_nat_inj: "length a = length b \<Longrightarrow> be_nat a = be_nat b \<longleftrightarrow> a = b"
  using be_bytes_be_nat by metis

lemma search_value_iff:
  assumes "entries_ok es" "length v = VALUE_BYTES"
  shows "search_value v es = None \<longleftrightarrow> v \<notin> values_of es" "search_value v es = Some i \<Longrightarrow> i < length es \<and> entry_value (es ! i) = v"
proof -
  have cmp: "slice_cmp (entry_value e) v = cmp (entry_key e) (be_nat v)" if "e \<in> set es" for e
    using assms that by (intro slice_cmp_be_nat) (simp add: entries_ok_def)
  have eq: "slice_cmp (entry_value e) v = Equal \<longleftrightarrow> entry_value e = v" if "e \<in> set es" for e
    using cmp [OF that] assms that be_nat_inj [of "entry_value e" v] by (auto simp: cmp_def entries_ok_def)
  have "searchable (\<lambda>e. slice_cmp (entry_value e) v) es"
    using assms(1) cmp by (intro searchable_mono [of _ _ entry_key]) (simp_all add: entries_ok_def)
  note search = binary_search_missing_iff [OF this] binary_search_found [OF this]
  show "search_value v es = None \<longleftrightarrow> v \<notin> values_of es"
    using search(1) eq by (auto simp: search_value_def values_of_def image_iff split: sum.splits)
  show "search_value v es = Some i \<Longrightarrow> i < length es \<and> entry_value (es ! i) = v"
    using search(2) eq by (auto simp: search_value_def split: sum.splits)
qed

lemma btree_get_iff:
  "btree_get v es = None \<longleftrightarrow> v \<notin> values_of es"
  "btree_get v es = Some i \<Longrightarrow> i < length es \<and> entry_value (es ! i) = v"
  by (induction es arbitrary: i) (auto simp: values_of_def split: if_splits)

lemma values_mark_accessed [simp]: "map entry_value (mark_accessed i es) = map entry_value es"
  by (cases "i < length es") (simp_all add: mark_accessed_def map_update list_update_same_conv list_update_beyond)

lemma entries_ok_values: "entries_ok es \<longleftrightarrow> sorted (map be_nat (map entry_value es)) \<and> (\<forall>v \<in> set (map entry_value es). length v = VALUE_BYTES)"
  by (simp add: entries_ok_def comp_def)

lemma mark_accessed_ok [simp]:
  "entries_ok (mark_accessed i es) \<longleftrightarrow> entries_ok es" "values_of (mark_accessed i es) = values_of es"
  "map entry_key (mark_accessed i es) = map entry_key es"
  "(\<forall>e \<in> set (mark_accessed i es). P (entry_value e)) \<longleftrightarrow> (\<forall>e \<in> set es. P (entry_value e))"
proof -
  note eq = values_mark_accessed [of i es]
  show "entries_ok (mark_accessed i es) \<longleftrightarrow> entries_ok es" by (simp only: entries_ok_values eq)
  show "values_of (mark_accessed i es) = values_of es" using arg_cong [OF eq, of set] unfolding values_of_def set_map .
  show "map entry_key (mark_accessed i es) = map entry_key es" using arg_cong [OF eq, of "map be_nat"] unfolding map_map comp_def .
  show "(\<forall>e \<in> set (mark_accessed i es). P (entry_value e)) \<longleftrightarrow> (\<forall>e \<in> set es. P (entry_value e))"
    using arg_cong [OF eq, of set] by (metis (no_types, lifting) image_iff list.set_map)
qed

lemma btree_insert_ok:
  assumes "entries_ok es" "distinct (map entry_key es)" "length (entry_value e) = VALUE_BYTES"
  shows "entries_ok (btree_insert e es) \<and> distinct (map entry_key (btree_insert e es))
    \<and> values_of (btree_insert e es) = insert (entry_value e) (values_of es)"
  using assms(1,2)
proof (induction es)
  case Nil
  then show ?case using assms(3) by (simp add: entries_ok_def values_of_def)
next
  case (Cons e' es)
  have len: "length (entry_value e') = length (entry_value e)" "\<forall>x \<in> set es. length (entry_value x) = VALUE_BYTES"
    using Cons.prems assms(3) by (auto simp: entries_ok_def)
  have IH: "entries_ok (btree_insert e es)" "distinct (map entry_key (btree_insert e es))"
      "values_of (btree_insert e es) = insert (entry_value e) (values_of es)"
    using Cons by (auto simp: entries_ok_def)
  have sub: "entry_key ` set (btree_insert e es) = insert (entry_key e) (entry_key ` set es)"
    using arg_cong [OF IH(3), of "image be_nat"] by (simp add: values_of_def image_image)
  show ?case
  proof (cases "slice_cmp (entry_value e) (entry_value e')")
    case Less
    then have "entry_key e < entry_key e'" using slice_cmp_be_nat [OF len(1)[symmetric]] by (simp add: cmp_def split: if_splits)
    then show ?thesis using Less Cons.prems assms(3) by (fastforce simp: entries_ok_def values_of_def)
  next
    case Equal
    then have "entry_key e = entry_key e'" using slice_cmp_be_nat [OF len(1)[symmetric]] by (simp add: cmp_def split: if_splits)
    then have "entry_value e = entry_value e'" using be_nat_inj len(1) by metis
    then show ?thesis using Equal Cons.prems assms(3) by (simp add: entries_ok_def values_of_def)
  next
    case Greater
    then have gt: "entry_key e' < entry_key e" using slice_cmp_be_nat [OF len(1)[symmetric]] by (simp add: cmp_def split: if_splits)
    have "entries_ok (e' # btree_insert e es) \<and> distinct (map entry_key (e' # btree_insert e es))"
      using IH(1,2) sub gt Cons.prems assms(3) len by (auto simp: entries_ok_def)
    then show ?thesis using Greater IH(3) by (simp add: values_of_def insert_commute)
  qed
qed

lemma bucket_mono:
  assumes "length a = VALUE_BYTES" "length b = VALUE_BYTES" "be_nat a \<le> be_nat b"
  shows "bucket a \<le> bucket b"
proof -
  obtain x xs y ys where ab: "a = x # xs" "b = y # ys" using assms(1,2) by (cases a; cases b) (auto simp: VALUE_BYTES_def)
  have "slice_cmp a b \<noteq> Greater" using slice_cmp_be_nat [of a b] assms by (auto simp: cmp_def)
  then have "x \<le> y" using ab by (auto simp: cmp_then_def cmp_def split: if_splits)
  then show ?thesis using ab by (simp add: bucket_def unat_drop_bit_eq word_le_nat_alt div_le_mono drop_bit_nat_def)
qed

lemma bucket_bound: "bucket v < BUCKETS"
proof -
  have "unat (v ! 0) div 16 < 16" using unat_u8_less [of "v ! 0"] by linarith
  then show ?thesis by (simp add: bucket_def BUCKETS_SHIFT_def BUCKETS_BITS_def BUCKETS_def unat_drop_bit_eq drop_bit_nat_def)
qed

lemma cache_values_bucket:
  assumes "cache_invar c"
  shows "v \<in> cache_values c \<longleftrightarrow> (case cache_list c of Some es \<Rightarrow> v \<in> values_of es | None \<Rightarrow> False) \<or> v \<in> values_of (buckets c ! bucket v)"
proof -
  have "v \<in> (\<Union>es \<in> set (buckets c). values_of es) \<longleftrightarrow> v \<in> values_of (buckets c ! bucket v)"
  proof
    assume "v \<in> (\<Union>es \<in> set (buckets c). values_of es)"
    then obtain i where "i < BUCKETS" "v \<in> values_of (buckets c ! i)" using assms by (auto simp: in_set_conv_nth cache_invar_def)
    then show "v \<in> values_of (buckets c ! bucket v)" using assms by (auto simp: cache_invar_def values_of_def)
  next
    assume "v \<in> values_of (buckets c ! bucket v)"
    then show "v \<in> (\<Union>es \<in> set (buckets c). values_of es)" using assms bucket_bound [of v] by (auto simp: cache_invar_def)
  qed
  then show ?thesis by (auto simp: cache_values_def split: option.splits)
qed

text \<open>Replacing one of the maps by one with other keys of the same bucket.\<close>

lemma cache_update_bucket:
  assumes "cache_invar c" "i < BUCKETS" "entries_ok es" "distinct (map entry_key es)" "\<And>v. v \<in> values_of es \<Longrightarrow> bucket v = i"
  shows "cache_invar (c\<lparr>buckets := (buckets c)[i := es]\<rparr>)"
    "values_of (buckets c ! i) \<subseteq> values_of es \<Longrightarrow> cache_values (c\<lparr>buckets := (buckets c)[i := es]\<rparr>) = cache_values c \<union> values_of es"
proof -
  show inv: "cache_invar (c\<lparr>buckets := (buckets c)[i := es]\<rparr>)"
    using assms by (auto simp: cache_invar_def nth_list_update values_of_def)
  assume sub: "values_of (buckets c ! i) \<subseteq> values_of es"
  show "cache_values (c\<lparr>buckets := (buckets c)[i := es]\<rparr>) = cache_values c \<union> values_of es"
  proof (rule set_eqI)
    fix v
    show "v \<in> cache_values (c\<lparr>buckets := (buckets c)[i := es]\<rparr>) \<longleftrightarrow> v \<in> cache_values c \<union> values_of es"
      using cache_values_bucket [OF inv, of v] cache_values_bucket [OF assms(1), of v] assms sub
      by (cases "bucket v = i") (auto simp: cache_invar_def split: option.splits)
  qed
qed

lemma cache_update_fields:
  "cache_invar (c\<lparr>hits := a\<rparr>) = cache_invar c" "cache_invar (c\<lparr>misses := a\<rparr>) = cache_invar c"
  "cache_invar (c\<lparr>insertions := a\<rparr>) = cache_invar c" "cache_invar (c\<lparr>preloads := a\<rparr>) = cache_invar c"
  "cache_values (c\<lparr>hits := a\<rparr>) = cache_values c" "cache_values (c\<lparr>misses := a\<rparr>) = cache_values c"
  "cache_values (c\<lparr>insertions := a\<rparr>) = cache_values c" "cache_values (c\<lparr>preloads := a\<rparr>) = cache_values c"
  by (simp_all add: cache_invar_def cache_values_def)

lemma cache_empty_ok: "cache_invar cache_empty \<and> cache_values cache_empty = {}"
  by (simp add: cache_invar_def cache_values_def cache_empty_def entries_ok_def values_of_def BUCKETS_def BUCKETS_BITS_def)

lemma bucket_ok:
  assumes "cache_invar c"
  shows "entries_ok (buckets c ! bucket v)" "distinct (map entry_key (buckets c ! bucket v))"
    "w \<in> values_of (buckets c ! bucket v) \<Longrightarrow> bucket w = bucket v"
  using assms bucket_bound [of v] by (auto simp: cache_invar_def values_of_def)

lemma bucket_subset: "cache_invar c \<Longrightarrow> values_of (buckets c ! bucket v) \<subseteq> cache_values c"
  using bucket_bound [of v] nth_mem [of "bucket v" "buckets c"] by (auto simp: cache_values_def cache_invar_def)

lemma cache_present_ok:
  assumes "cache_invar c" "length v = VALUE_BYTES"
  shows "\<exists>c'. cache_present v c = Inr (v \<in> cache_values c, c') \<and> cache_invar c' \<and> cache_values c' = cache_values c"
proof (cases "case cache_list c of Some es \<Rightarrow> search_value v es | None \<Rightarrow> None")
  case (Some i)
  then obtain es where es: "cache_list c = Some es" "search_value v es = Some i" by (auto split: option.splits)
  then have "entries_ok es" using assms(1) by (simp add: cache_invar_def)
  then have "v \<in> values_of es" using search_value_iff(1) [OF _ assms(2)] es(2) by fastforce
  then show ?thesis
    using Some es assms by (auto simp: cache_present_def cache_invar_def cache_values_def)
next
  case None
  then have out: "case cache_list c of Some es \<Rightarrow> v \<notin> values_of es | None \<Rightarrow> True"
    using search_value_iff(1) [OF _ assms(2)] assms(1) by (auto simp: cache_invar_def split: option.splits)
  have inv: "cache_invar (c\<lparr>buckets := (buckets c)[bucket v := mark_accessed i (buckets c ! bucket v)]\<rparr>)"
      "cache_values (c\<lparr>buckets := (buckets c)[bucket v := mark_accessed i (buckets c ! bucket v)]\<rparr>) = cache_values c" for i
    using cache_update_bucket [OF assms(1) bucket_bound, of "mark_accessed i (buckets c ! bucket v)" v, unfolded mark_accessed_ok,
        OF bucket_ok [OF assms(1)]] bucket_subset [OF assms(1), of v]
    by (simp_all add: Un_absorb2)
  have "v \<in> cache_values c \<longleftrightarrow> btree_get v (buckets c ! bucket v) \<noteq> None"
    using cache_values_bucket [OF assms(1), of v] out btree_get_iff(1) by (auto split: option.splits)
  then show ?thesis
    using None assms inv cache_update_fields
    by (cases "btree_get v (buckets c ! bucket v)") (simp_all add: cache_present_def Let_def)
qed

lemma cache_insert_bucket:
  assumes "cache_invar c" "length (entry_value e) = VALUE_BYTES"
  defines "c' \<equiv> c\<lparr>buckets := (buckets c)[bucket (entry_value e) := btree_insert e (buckets c ! bucket (entry_value e))]\<rparr>"
  shows "cache_invar c'" "cache_values c' = insert (entry_value e) (cache_values c)"
proof -
  let ?b = "bucket (entry_value e)"
  define es where "es = btree_insert e (buckets c ! ?b)"
  have es: "entries_ok es" "distinct (map entry_key es)" "values_of es = insert (entry_value e) (values_of (buckets c ! ?b))"
    using btree_insert_ok [OF bucket_ok(1,2) [OF assms(1)] assms(2)] by (simp_all add: es_def)
  have b: "bucket w = ?b" if "w \<in> values_of es" for w
    using that bucket_ok(3) [OF assms(1)] unfolding es(3) by blast
  have "cache_invar (c\<lparr>buckets := (buckets c)[?b := es]\<rparr>)"
      "cache_values (c\<lparr>buckets := (buckets c)[?b := es]\<rparr>) = cache_values c \<union> values_of es"
    using cache_update_bucket [OF assms(1) bucket_bound es(1,2) b] unfolding es(3) by blast+
  moreover have "cache_values c \<union> values_of es = insert (entry_value e) (cache_values c)"
    using es(3) bucket_subset [OF assms(1)] by blast
  ultimately show "cache_invar c'" "cache_values c' = insert (entry_value e) (cache_values c)" by (simp_all add: c'_def es_def)
qed

lemma cache_insert_ok:
  assumes "cache_invar c" "length v = VALUE_BYTES"
  shows "cache_invar (cache_insert v c) \<and> cache_values (cache_insert v c) = insert v (cache_values c)"
proof (cases "btree_get v (buckets c ! bucket v)")
  case None
  then show ?thesis
    using cache_insert_bucket [OF assms(1), of "\<lparr>entry_value = v, entry_metadata = Metadata_new True\<rparr>"] assms(2)
    by (simp add: cache_insert_def cache_update_fields Let_def)
next
  case (Some i)
  then have "v \<in> cache_values c" using btree_get_iff(1) [of v "buckets c ! bucket v"] cache_values_bucket [OF assms(1), of v] by auto
  then show ?thesis using Some assms by (auto simp: cache_insert_def Let_def)
qed

lemma restore_items_ok: "entries_ok (restore_items vs)" "values_of (restore_items vs) = {v \<in> set vs. length v = VALUE_BYTES}"
  by (auto simp: restore_items_def entries_ok_def values_of_def image_iff)

lemma restore_buckets_ok:
  assumes "entries_ok es" "cache_invar c" "\<forall>e \<in> set es. i \<le> bucket (entry_value e)"
  shows "\<exists>bs. restore_buckets i es (buckets c) = Inr bs \<and> cache_invar (c\<lparr>buckets := bs\<rparr>)
    \<and> cache_values (c\<lparr>buckets := bs\<rparr>) = cache_values c \<union> values_of es"
  using assms
proof (induction es arbitrary: i c)
  case Nil
  then show ?case by (simp add: values_of_def)
next
  case (Cons e es)
  define c' where "c' = c\<lparr>buckets := (buckets c)[bucket (entry_value e) := btree_insert e (buckets c ! bucket (entry_value e))]\<rparr>"
  have c': "cache_invar c'" "cache_values c' = insert (entry_value e) (cache_values c)"
    using cache_insert_bucket [OF Cons.prems(2), of e] Cons.prems(1) by (simp_all add: c'_def entries_ok_def)
  have "\<forall>e' \<in> set es. bucket (entry_value e) \<le> bucket (entry_value e')"
    using Cons.prems(1) bucket_mono by (auto simp: entries_ok_def)
  moreover have "entries_ok es" using Cons.prems(1) by (simp add: entries_ok_def)
  ultimately obtain bs where "restore_buckets (bucket (entry_value e)) es (buckets c') = Inr bs" "cache_invar (c'\<lparr>buckets := bs\<rparr>)"
      "cache_values (c'\<lparr>buckets := bs\<rparr>) = cache_values c' \<union> values_of es"
    using Cons.IH [OF _ c'(1)] by blast
  then show ?case using Cons.prems(3) c'(2) by (auto simp: c'_def values_of_def Let_def)
qed

lemma cache_restore_ok:
  assumes "cache_invar c" "has_cache_hash be"
  shows "\<exists>c'. cache_restore be vs c = Inr c' \<and> cache_invar c' \<and> cache_values c' = cache_values c \<union> {v \<in> set vs. length v = VALUE_BYTES}"
proof -
  define c0 where "c0 = c\<lparr>preloads := preloads c + word_of_nat (length (restore_items vs))\<rparr>"
  have c0: "cache_invar c0" "cache_values c0 = cache_values c" "cache_list c0 = cache_list c" using assms(1) by (simp_all add: c0_def cache_update_fields)
  show ?thesis
  proof (cases "cache_list c")
    case None
    then have "cache_invar (c0\<lparr>cache_list := Some (restore_items vs)\<rparr>)"
        "cache_values (c0\<lparr>cache_list := Some (restore_items vs)\<rparr>) = cache_values c \<union> values_of (restore_items vs)"
      using c0 restore_items_ok(1) by (auto simp: cache_invar_def cache_values_def)
    then show ?thesis using None assms(2) c0(3) by (simp add: cache_restore_def c0_def restore_items_ok(2) Let_def)
  next
    case (Some es)
    then show ?thesis
      using restore_buckets_ok [OF restore_items_ok(1) c0(1), of vs 0] assms(2) c0 restore_items_ok(2)
      by (auto simp: cache_restore_def c0_def Let_def result_simps)
  qed
qed

lemma cache_dump_ok:
  assumes "cache_invar c"
  shows "values_of (cache_dump c) = cache_values c"
proof -
  define es where "es = (case cache_list c of Some es \<Rightarrow> es | None \<Rightarrow> [])"
  have "entries_ok es" using assms by (auto simp: es_def cache_invar_def entries_ok_def split: option.splits)
  then have s: "search_value (entry_value e) es = None \<longleftrightarrow> entry_value e \<notin> values_of es" if "b \<in> set (buckets c)" "e \<in> set b" for b e
    using that assms search_value_iff(1) [of es "entry_value e"] by (fastforce simp: cache_invar_def entries_ok_def in_set_conv_nth)
  have "cache_values c = values_of es \<union> (\<Union>b \<in> set (buckets c). values_of b)" by (auto simp: cache_values_def es_def values_of_def split: option.splits)
  moreover have "values_of (cache_dump c) = values_of es \<union> (\<Union>b \<in> set (buckets c). values_of (filter (\<lambda>e. search_value (entry_value e) es = None) b))"
    by (auto simp: cache_dump_def es_def [symmetric] values_of_def Let_def)
  moreover have "values_of (filter (\<lambda>e. search_value (entry_value e) es = None) b) = values_of b - values_of es" if "b \<in> set (buckets c)" for b
    using s [OF that] by (auto simp: values_of_def)
  ultimately show ?thesis by auto
qed

text \<open>
  C17. The cache of verified signatures is a set of keys: whether a key is there is found by halving the restored list and then in one of the
  sixteen maps, and looking one up changes nothing but the marks and counters; inserting adds one key; restoring never aborts and adds the
  keys of the right size; and a list of what is in the cache restores it.
\<close>

theorem verification_cache_is_set:
  assumes "cache_invar c" "length v = VALUE_BYTES" "has_cache_hash be"
  shows "(\<exists>c'. cache_present v c = Inr (v \<in> cache_values c, c') \<and> cache_invar c' \<and> cache_values c' = cache_values c)
    \<and> cache_invar (cache_insert v c) \<and> cache_values (cache_insert v c) = insert v (cache_values c)
    \<and> (\<exists>c'. cache_restore be vs c = Inr c' \<and> cache_invar c' \<and> cache_values c' = cache_values c \<union> {v \<in> set vs. length v = VALUE_BYTES})
    \<and> (\<exists>c'. cache_restore be (map entry_value (cache_dump c)) cache_empty = Inr c' \<and> cache_values c' = cache_values c)"
proof -
  have "set (map entry_value (cache_dump c)) = cache_values c" using cache_dump_ok [OF assms(1)] by (simp add: values_of_def)
  moreover have "\<forall>v \<in> cache_values c. length v = VALUE_BYTES"
    using assms(1) by (fastforce simp: cache_values_def values_of_def cache_invar_def entries_ok_def in_set_conv_nth split: option.splits)
  ultimately have "{v \<in> set (map entry_value (cache_dump c)). length v = VALUE_BYTES} = cache_values c" by blast
  then show ?thesis
    using cache_present_ok [OF assms(1,2)] cache_insert_ok [OF assms(1,2)] cache_restore_ok [OF assms(1,3)]
      cache_restore_ok [of cache_empty, OF _ assms(3), of "map entry_value (cache_dump c)"] cache_empty_ok by auto
qed

definition example_hashes :: HashBackend where
  "example_hashes = \<lparr>hb_is_supported = (\<lambda>_. True), hb_new_hasher = (\<lambda>_. Inr ()), hb_digest = (\<lambda>_ data n. Inr (take n (data @ replicate n 0)))\<rparr>"

lemma example_hashes_ok: "has_cache_hash example_hashes"
  by (simp add: has_cache_hash_def example_hashes_def HashAlgorithm_context_def HASH_ALGO_def Context_digest_size_def digest_size_def
      for_digest_def VALUE_BYTES_def)

theorem verification_cache_is_set_witness:
  "(\<exists>c'. cache_present (replicate 32 0x1F) (cache_insert (replicate 32 0x20) cache_empty) = Inr (False, c'))
   \<and> (\<exists>c'. cache_restore example_hashes [[1, 2], replicate 32 3] (cache_insert (replicate 32 0x20) cache_empty) = Inr c'
        \<and> cache_values c' = {replicate 32 0x20, replicate 32 3})"
proof -
  have len: "length (replicate 32 x :: bytes) = VALUE_BYTES" for x by (simp add: VALUE_BYTES_def)
  let ?c = "cache_insert (replicate 32 0x20) cache_empty"
  have c: "cache_invar ?c" "cache_values ?c = {replicate 32 0x20}" using cache_insert_ok [OF _ len] cache_empty_ok by auto
  have "{v \<in> set [[1, 2], replicate 32 (3 :: u8)]. length v = VALUE_BYTES} = {replicate 32 3}" by (auto simp: VALUE_BYTES_def)
  then show ?thesis
    using verification_cache_is_set [OF c(1) len example_hashes_ok, of "0x1F" "[[1, 2], replicate 32 3]"] c(2) by auto
qed

section \<open>What a client of the cache may rely on\<close>

text \<open>
  A store of keys that remembers which checks succeeded. The client looks the key of a check up, and only if it is not there
  runs the check and adds the key on success.
\<close>

locale check_store =
  fixes invar :: "'c \<Rightarrow> bool" and keys :: "'c \<Rightarrow> 'k set" and key_ok :: "'k \<Rightarrow> bool"
    and look :: "'k \<Rightarrow> 'c \<Rightarrow> 'e + bool \<times> 'c" and add :: "'k \<Rightarrow> 'c \<Rightarrow> 'c"
  assumes look: "invar c \<Longrightarrow> key_ok k \<Longrightarrow> \<exists>c'. look k c = Inr (k \<in> keys c, c') \<and> invar c' \<and> keys c' = keys c"
    and add: "invar c \<Longrightarrow> key_ok k \<Longrightarrow> invar (add k c) \<and> keys (add k c) = insert k (keys c)"
begin

lemma memoised:
  assumes "invar c" "key_ok k" "look k c = Inr (b, c1)"
    and "r = (if b then Inr () else check)" "c' = (if b then c1 else if is_ok check then add k c1 else c1)"
  shows "invar c'" "is_ok r \<longleftrightarrow> k \<in> keys c \<or> is_ok check" "keys c' = (if is_ok r then insert k (keys c) else keys c)"
proof -
  from look [OF assms(1,2)] assms(3) have *: "b \<longleftrightarrow> k \<in> keys c" "invar c1" "keys c1 = keys c" by auto
  show "invar c'" using * add [OF *(2) assms(2)] assms(5) by simp
  show "is_ok r \<longleftrightarrow> k \<in> keys c \<or> is_ok check" using * assms(4) by simp
  show "keys c' = (if is_ok r then insert k (keys c) else keys c)" using * add [OF *(2) assms(2)] assms(4,5) by auto
qed

lemma look_total: "invar c \<Longrightarrow> key_ok k \<Longrightarrow> \<exists>b c'. look k c = Inr (b, c')"
  using look by blast

end

interpretation verified: check_store cache_invar cache_values "\<lambda>v. length v = VALUE_BYTES" cache_present cache_insert
  by unfold_locales (simp_all add: cache_present_ok cache_insert_ok)

end
