(* ===== verification/Asymmetric.thy ===== *)
theory Asymmetric
  imports KeyWrap Keys
begin

text \<open>
  Public-key operations: which primitive of the backend signs, verifies, encrypts and decrypts for which material, and
  how the arguments and results are converted (\<open>Key::encrypt\<close> and \<open>Key::verify\<close> in \<open>packet/key.rs\<close>, \<open>KeyPair\<close> and
  \<open>multi_key_combine\<close> in \<open>crypto/asymmetric.rs\<close>).

  The primitives are those of the interface of the cryptographic backends (\<open>crypto/backend/interface\<close>); they are the
  fields of a record that every operation takes as an argument. Freshly generated keys are values of the record, so an
  operation is given the randomness it uses. A failed conversion to a fixed-size array is an error from outside the crate.
\<close>

section \<open>The backend\<close>

record AsymmetricBackend =
  x25519_generate_key :: "(bytes \<times> bytes) res"
  x25519_shared_point :: "bytes \<Rightarrow> bytes \<Rightarrow> bytes res"
  x448_generate_key :: "(bytes \<times> bytes) res"
  x448_shared_point :: "bytes \<Rightarrow> bytes \<Rightarrow> bytes res"
  ed25519_sign :: "bytes \<Rightarrow> bytes \<Rightarrow> bytes \<Rightarrow> bytes res"
  ed25519_verify :: "bytes \<Rightarrow> bytes \<Rightarrow> bytes \<Rightarrow> bool res"
  ed448_sign :: "bytes \<Rightarrow> bytes \<Rightarrow> bytes \<Rightarrow> bytes res"
  ed448_verify :: "bytes \<Rightarrow> bytes \<Rightarrow> bytes \<Rightarrow> bool res"
  mldsa65_sign :: "bytes \<Rightarrow> bytes \<Rightarrow> bytes res"
  mldsa65_verify :: "bytes \<Rightarrow> bytes \<Rightarrow> bytes \<Rightarrow> bool res"
  mldsa87_sign :: "bytes \<Rightarrow> bytes \<Rightarrow> bytes res"
  mldsa87_verify :: "bytes \<Rightarrow> bytes \<Rightarrow> bytes \<Rightarrow> bool res"
  slhdsa128s_sign :: "bytes \<Rightarrow> bytes \<Rightarrow> bytes res"
  slhdsa128s_verify :: "bytes \<Rightarrow> bytes \<Rightarrow> bytes \<Rightarrow> bool res"
  slhdsa128f_sign :: "bytes \<Rightarrow> bytes \<Rightarrow> bytes res"
  slhdsa128f_verify :: "bytes \<Rightarrow> bytes \<Rightarrow> bytes \<Rightarrow> bool res"
  slhdsa256s_sign :: "bytes \<Rightarrow> bytes \<Rightarrow> bytes res"
  slhdsa256s_verify :: "bytes \<Rightarrow> bytes \<Rightarrow> bytes \<Rightarrow> bool res"
  mlkem768_encapsulate :: "bytes \<Rightarrow> (bytes \<times> bytes) res"
  mlkem768_decapsulate :: "bytes \<Rightarrow> bytes \<Rightarrow> bytes res"
  mlkem1024_encapsulate :: "bytes \<Rightarrow> (bytes \<times> bytes) res"
  mlkem1024_decapsulate :: "bytes \<Rightarrow> bytes \<Rightarrow> bytes res"
  dsa_sign :: "MPI \<Rightarrow> MPI \<Rightarrow> MPI \<Rightarrow> MPI \<Rightarrow> MPI \<Rightarrow> bytes \<Rightarrow> (MPI \<times> MPI) res"
  dsa_verify :: "MPI \<Rightarrow> MPI \<Rightarrow> MPI \<Rightarrow> MPI \<Rightarrow> bytes \<Rightarrow> MPI \<Rightarrow> MPI \<Rightarrow> bool res"
  encrypt_backend :: "Key \<Rightarrow> bytes \<Rightarrow> Ciphertext res"
  decrypt_backend :: "Key \<Rightarrow> SecretKeyMaterial \<Rightarrow> Ciphertext \<Rightarrow> nat option \<Rightarrow> bytes res"
  sign_backend :: "Key \<Rightarrow> SecretKeyMaterial \<Rightarrow> HashAlgorithm \<Rightarrow> bytes \<Rightarrow> Signature res"
  verify_backend :: "Key \<Rightarrow> Signature \<Rightarrow> HashAlgorithm \<Rightarrow> bytes \<Rightarrow> unit res"
  hkdf_sha256 :: "bytes \<Rightarrow> bytes \<Rightarrow> nat \<Rightarrow> bytes res"
  hkdf_sha512 :: "bytes \<Rightarrow> bytes \<Rightarrow> nat \<Rightarrow> bytes res"
  digests :: hash_backend
  encryptors :: cipher_backend
  decryptors :: cipher_backend

definition Key_common :: "Key \<Rightarrow> Key4" where
  "Key_common k = (case k of Key.V4 k \<Rightarrow> k | Key.V6 k \<Rightarrow> k)"

abbreviation Key_mpis :: "Key \<Rightarrow> PublicKey" where
  "Key_mpis k \<equiv> key_mpis (Key_common k)"

abbreviation Key_pk_algo :: "Key \<Rightarrow> PublicKeyAlgorithm" where
  "Key_pk_algo k \<equiv> key_pk_algo (Key_common k)"

section \<open>Encryption\<close>

definition ascii :: "string \<Rightarrow> bytes" where
  "ascii s = map of_char s"

definition combine_separator :: bytes where
  "combine_separator = ascii ''OpenPGPCompositeKDFv1'' @ [0x15]"

definition multi_key_combine :: "AsymmetricBackend \<Rightarrow> bytes \<Rightarrow> bytes \<Rightarrow> bytes \<Rightarrow> bytes \<Rightarrow> PublicKeyAlgorithm \<Rightarrow> bytes res" where
  "multi_key_combine be mlkem_key ecdh_key ecdh_ciphertext ecdh_public pk_algo =
     and_then (digests be HashAlgorithm.SHA3_256) (\<lambda>(_, digest).
       Inr (take 32 (digest (mlkem_key @ ecdh_key @ ecdh_ciphertext @ ecdh_public @ [u8_from_PublicKeyAlgorithm pk_algo] @ combine_separator))))"

text \<open>
  The wrap key of X25519 and X448: three arrays of one size are copied next to each other, and an octet string of another
  size aborts the copy.
\<close>

definition exchange_kek ::
    "(bytes \<Rightarrow> bytes \<Rightarrow> nat \<Rightarrow> bytes res) \<Rightarrow> bytes \<Rightarrow> SymmetricAlgorithm \<Rightarrow> nat \<Rightarrow> bytes \<Rightarrow> bytes \<Rightarrow> bytes \<Rightarrow> bytes res" where
  "exchange_kek hkdf info wrap_algo n E U S =
     (if length E = n \<and> length U = n \<and> length S = n then and_then (key_size wrap_algo) (hkdf (E @ U @ S) info) else Inl Panic)"

definition x25519_kek :: "AsymmetricBackend \<Rightarrow> bytes \<Rightarrow> bytes \<Rightarrow> bytes \<Rightarrow> bytes res" where
  "x25519_kek be = exchange_kek (hkdf_sha256 be) (ascii ''OpenPGP X25519'') SymmetricAlgorithm.AES128 32"

definition x448_kek :: "AsymmetricBackend \<Rightarrow> bytes \<Rightarrow> bytes \<Rightarrow> bytes \<Rightarrow> bytes res" where
  "x448_kek be = exchange_kek (hkdf_sha512 be) (ascii ''OpenPGP X448'') SymmetricAlgorithm.AES256 56"

definition to_array :: "nat \<Rightarrow> bytes \<Rightarrow> bytes res" where
  "to_array n bs = (if length bs = n then Inr bs else Inl (IoErr OtherError))"

definition encrypt_x25519 :: "AsymmetricBackend \<Rightarrow> bytes \<Rightarrow> bytes \<Rightarrow> Ciphertext res" where
  "encrypt_x25519 be U data =
     and_then (x25519_generate_key be) (\<lambda>(v, V).
     and_then (x25519_shared_point be v U) (\<lambda>S.
     and_then (x25519_kek be V U S) (\<lambda>kek.
     and_then (aes_key_wrap (encryptors be) SymmetricAlgorithm.AES128 kek data) (\<lambda>esk. Inr (Ciphertext.X25519 V esk)))))"

definition encrypt_x448 :: "AsymmetricBackend \<Rightarrow> bytes \<Rightarrow> bytes \<Rightarrow> Ciphertext res" where
  "encrypt_x448 be U data =
     and_then (x448_generate_key be) (\<lambda>(v, V).
     and_then (x448_shared_point be v U) (\<lambda>S.
     and_then (x448_kek be V U S) (\<lambda>kek.
     and_then (aes_key_wrap (encryptors be) SymmetricAlgorithm.AES256 kek data) (\<lambda>esk. Inr (Ciphertext.X448 V esk)))))"

definition encrypt_mlkem768 :: "AsymmetricBackend \<Rightarrow> bytes \<Rightarrow> bytes \<Rightarrow> bytes \<Rightarrow> Ciphertext res" where
  "encrypt_mlkem768 be ecdh_public mlkem_public data =
     and_then (x25519_generate_key be) (\<lambda>(ecdh_secret, ecdh_ciphertext).
     and_then (x25519_shared_point be ecdh_secret ecdh_public) (\<lambda>ecdh_keyshare.
     and_then (mlkem768_encapsulate be mlkem_public) (\<lambda>(mlkem_ciphertext, mlkem_keyshare).
     and_then (multi_key_combine be mlkem_keyshare ecdh_keyshare ecdh_ciphertext ecdh_public PublicKeyAlgorithm.MLKEM768_X25519) (\<lambda>kek.
     and_then (aes_key_wrap (encryptors be) SymmetricAlgorithm.AES256 kek data) (\<lambda>esk.
       Inr (Ciphertext.MLKEM768_X25519 ecdh_ciphertext mlkem_ciphertext esk))))))"

definition encrypt_mlkem1024 :: "AsymmetricBackend \<Rightarrow> bytes \<Rightarrow> bytes \<Rightarrow> bytes \<Rightarrow> Ciphertext res" where
  "encrypt_mlkem1024 be ecdh_public mlkem_public data =
     and_then (x448_generate_key be) (\<lambda>(ecdh_secret, ecdh_ciphertext).
     and_then (x448_shared_point be ecdh_secret ecdh_public) (\<lambda>ecdh_keyshare.
     and_then (mlkem1024_encapsulate be mlkem_public) (\<lambda>(mlkem_ciphertext, mlkem_keyshare).
     and_then (multi_key_combine be mlkem_keyshare ecdh_keyshare ecdh_ciphertext ecdh_public PublicKeyAlgorithm.MLKEM1024_X448) (\<lambda>kek.
     and_then (aes_key_wrap (encryptors be) SymmetricAlgorithm.AES256 kek data) (\<lambda>esk.
       Inr (Ciphertext.MLKEM1024_X448 ecdh_ciphertext mlkem_ciphertext esk))))))"

definition encrypt_cv25519 :: "AsymmetricBackend \<Rightarrow> bytes \<Rightarrow> PublicKey \<Rightarrow> MPI \<Rightarrow> bytes \<Rightarrow> Ciphertext res" where
  "encrypt_cv25519 be fp mpis q data =
     and_then (MPI_decode_point q Curve.Cv25519) (\<lambda>(R, _).
     and_then (x25519_generate_key be) (\<lambda>(v, VB).
     let VB = MPI_new_compressed_point VB in
     and_then (and_then (to_array 32 R) (x25519_shared_point be v)) (\<lambda>S. encrypt_wrap (digests be) (encryptors be) mpis fp data VB S)))"

definition Key_encrypt :: "AsymmetricBackend \<Rightarrow> bytes \<Rightarrow> Key \<Rightarrow> bytes \<Rightarrow> Ciphertext res" where
  "Key_encrypt be fp k data =
     (let algo = Key_pk_algo k; mpis = Key_mpis k in
      if algo = PublicKeyAlgorithm.X25519 then
        (case mpis of PublicKey.X25519 U \<Rightarrow> encrypt_x25519 be U data | _ \<Rightarrow> Inl (Err MalformedPacket))
      else if algo = PublicKeyAlgorithm.X448 then
        (case mpis of PublicKey.X448 U \<Rightarrow> encrypt_x448 be U data | _ \<Rightarrow> Inl (Err MalformedPacket))
      else if algo = PublicKeyAlgorithm.MLKEM768_X25519 then
        (case mpis of PublicKey.MLKEM768_X25519 e m \<Rightarrow> encrypt_mlkem768 be e m data | _ \<Rightarrow> Inl (Err MalformedPacket))
      else if algo = PublicKeyAlgorithm.MLKEM1024_X448 then
        (case mpis of PublicKey.MLKEM1024_X448 e m \<Rightarrow> encrypt_mlkem1024 be e m data | _ \<Rightarrow> Inl (Err MalformedPacket))
      else if algo \<in> {PublicKeyAlgorithm.RSASign, PublicKeyAlgorithm.DSA, PublicKeyAlgorithm.ECDSA, PublicKeyAlgorithm.EdDSA,
          PublicKeyAlgorithm.Ed25519, PublicKeyAlgorithm.Ed448, PublicKeyAlgorithm.MLDSA65_Ed25519, PublicKeyAlgorithm.MLDSA87_Ed448,
          PublicKeyAlgorithm.SLHDSA128s, PublicKeyAlgorithm.SLHDSA128f, PublicKeyAlgorithm.SLHDSA256s} then Inl (Err InvalidOperation)
      else
        (case (algo, mpis) of
           (PublicKeyAlgorithm.ECDH, PublicKey.ECDH Curve.Cv25519 q _ _) \<Rightarrow> encrypt_cv25519 be fp mpis q data
         | _ \<Rightarrow> encrypt_backend be k data))"

section \<open>Key pairs\<close>

record KeyPair =
  kp_public :: Key
  kp_secret :: SecretKeyMaterial

definition decrypt_x25519 :: "AsymmetricBackend \<Rightarrow> bytes \<Rightarrow> bytes \<Rightarrow> bytes \<Rightarrow> bytes \<Rightarrow> bytes res" where
  "decrypt_x25519 be U x E key =
     and_then (x25519_shared_point be x E) (\<lambda>S.
     and_then (x25519_kek be E U S) (\<lambda>kek. aes_key_unwrap (decryptors be) SymmetricAlgorithm.AES128 kek key))"

definition decrypt_x448 :: "AsymmetricBackend \<Rightarrow> bytes \<Rightarrow> bytes \<Rightarrow> bytes \<Rightarrow> bytes \<Rightarrow> bytes res" where
  "decrypt_x448 be U x E key =
     and_then (x448_shared_point be x E) (\<lambda>S.
     and_then (x448_kek be E U S) (\<lambda>kek. aes_key_unwrap (decryptors be) SymmetricAlgorithm.AES256 kek key))"

definition decrypt_cv25519 :: "AsymmetricBackend \<Rightarrow> bytes \<Rightarrow> PublicKey \<Rightarrow> MPI \<Rightarrow> MPI \<Rightarrow> Ciphertext \<Rightarrow> bytes res" where
  "decrypt_cv25519 be fp mpis scalar e ciphertext =
     and_then (MPI_decode_point e Curve.Cv25519) (\<lambda>(V, _).
     let r = rev (ProtectedMPI_value_padded scalar 32) in
     and_then (and_then (to_array 32 V) (x25519_shared_point be r)) (\<lambda>S. decrypt_unwrap (digests be) (decryptors be) mpis fp S ciphertext))"

definition decrypt_mlkem768 ::
    "AsymmetricBackend \<Rightarrow> bytes \<Rightarrow> bytes \<Rightarrow> bytes \<Rightarrow> bytes \<Rightarrow> bytes \<Rightarrow> bytes \<Rightarrow> bytes res" where
  "decrypt_mlkem768 be ecdh_public ecdh_secret mlkem_secret ecdh_ciphertext mlkem_ciphertext esk =
     and_then (x25519_shared_point be ecdh_secret ecdh_ciphertext) (\<lambda>ecdh_keyshare.
     and_then (mlkem768_decapsulate be mlkem_secret mlkem_ciphertext) (\<lambda>mlkem_keyshare.
     and_then (multi_key_combine be mlkem_keyshare ecdh_keyshare ecdh_ciphertext ecdh_public PublicKeyAlgorithm.MLKEM768_X25519) (\<lambda>kek.
       aes_key_unwrap (decryptors be) SymmetricAlgorithm.AES256 kek esk)))"

definition decrypt_mlkem1024 ::
    "AsymmetricBackend \<Rightarrow> bytes \<Rightarrow> bytes \<Rightarrow> bytes \<Rightarrow> bytes \<Rightarrow> bytes \<Rightarrow> bytes \<Rightarrow> bytes res" where
  "decrypt_mlkem1024 be ecdh_public ecdh_secret mlkem_secret ecdh_ciphertext mlkem_ciphertext esk =
     and_then (x448_shared_point be ecdh_secret ecdh_ciphertext) (\<lambda>ecdh_keyshare.
     and_then (mlkem1024_decapsulate be mlkem_secret mlkem_ciphertext) (\<lambda>mlkem_keyshare.
     and_then (multi_key_combine be mlkem_keyshare ecdh_keyshare ecdh_ciphertext ecdh_public PublicKeyAlgorithm.MLKEM1024_X448) (\<lambda>kek.
       aes_key_unwrap (decryptors be) SymmetricAlgorithm.AES256 kek esk)))"

definition KeyPair_decrypt :: "AsymmetricBackend \<Rightarrow> bytes \<Rightarrow> KeyPair \<Rightarrow> Ciphertext \<Rightarrow> nat option \<Rightarrow> bytes res" where
  "KeyPair_decrypt be fp kp ciphertext plaintext_len =
     (let mpis = Key_mpis (kp_public kp); backend = decrypt_backend be (kp_public kp) (kp_secret kp) ciphertext plaintext_len in
      case kp_secret kp of
        SecretKeyMaterial.X25519 x \<Rightarrow>
          (case (mpis, ciphertext) of (PublicKey.X25519 U, Ciphertext.X25519 E key) \<Rightarrow> decrypt_x25519 be U x E key | _ \<Rightarrow> backend)
      | SecretKeyMaterial.X448 x \<Rightarrow>
          (case (mpis, ciphertext) of (PublicKey.X448 U, Ciphertext.X448 E key) \<Rightarrow> decrypt_x448 be U x E key | _ \<Rightarrow> backend)
      | SecretKeyMaterial.ECDH scalar \<Rightarrow>
          (case (mpis, ciphertext) of
             (PublicKey.ECDH Curve.Cv25519 _ _ _, Ciphertext.ECDH e _) \<Rightarrow> decrypt_cv25519 be fp mpis scalar e ciphertext
           | _ \<Rightarrow> backend)
      | SecretKeyMaterial.MLKEM768_X25519 se sm \<Rightarrow>
          (case (mpis, ciphertext) of
             (PublicKey.MLKEM768_X25519 pe _, Ciphertext.MLKEM768_X25519 ce cm esk) \<Rightarrow> decrypt_mlkem768 be pe se sm ce cm esk
           | _ \<Rightarrow> backend)
      | SecretKeyMaterial.MLKEM1024_X448 se sm \<Rightarrow>
          (case (mpis, ciphertext) of
             (PublicKey.MLKEM1024_X448 pe _, Ciphertext.MLKEM1024_X448 ce cm esk) \<Rightarrow> decrypt_mlkem1024 be pe se sm ce cm esk
           | _ \<Rightarrow> backend)
      | _ \<Rightarrow> backend)"

section \<open>Signatures\<close>

definition sign_eddsa :: "AsymmetricBackend \<Rightarrow> Curve \<Rightarrow> MPI \<Rightarrow> MPI \<Rightarrow> bytes \<Rightarrow> Signature res" where
  "sign_eddsa be curve q scalar digest =
     (if curve = Curve.Ed25519 then
        and_then (MPI_decode_point q Curve.Ed25519) (\<lambda>(public, _).
        and_then (to_array 32 public) (\<lambda>public.
        and_then (ed25519_sign be (ProtectedMPI_value_padded scalar 32) public digest) (\<lambda>sig.
          Inr (Signature.EdDSA (MPI_new (take 32 sig)) (MPI_new (drop 32 sig))))))
      else Inl (Err (UnsupportedEllipticCurve curve)))"

definition KeyPair_sign :: "AsymmetricBackend \<Rightarrow> KeyPair \<Rightarrow> HashAlgorithm \<Rightarrow> bytes \<Rightarrow> Signature res" where
  "KeyPair_sign be kp hash_algo digest =
     (let k = kp_public kp; backend = sign_backend be k (kp_secret kp) hash_algo digest in
      case (Key_pk_algo k, Key_mpis k) of
        (PublicKeyAlgorithm.Ed25519, PublicKey.Ed25519 a) \<Rightarrow>
          (case kp_secret kp of
             SecretKeyMaterial.Ed25519 x \<Rightarrow> and_then (ed25519_sign be x a digest) (\<lambda>s. Inr (Signature.Ed25519 s)) | _ \<Rightarrow> backend)
      | (PublicKeyAlgorithm.Ed448, PublicKey.Ed448 a) \<Rightarrow>
          (case kp_secret kp of
             SecretKeyMaterial.Ed448 x \<Rightarrow> and_then (ed448_sign be x a digest) (\<lambda>s. Inr (Signature.Ed448 s)) | _ \<Rightarrow> backend)
      | (PublicKeyAlgorithm.MLDSA65_Ed25519, PublicKey.MLDSA65_Ed25519 eddsa_pub _) \<Rightarrow>
          (case kp_secret kp of
             SecretKeyMaterial.MLDSA65_Ed25519 eddsa_sec mldsa_sec \<Rightarrow>
               and_then (ed25519_sign be eddsa_sec eddsa_pub digest) (\<lambda>e.
               and_then (mldsa65_sign be mldsa_sec digest) (\<lambda>m. Inr (Signature.MLDSA65_Ed25519 e m)))
           | _ \<Rightarrow> backend)
      | (PublicKeyAlgorithm.MLDSA87_Ed448, PublicKey.MLDSA87_Ed448 eddsa_pub _) \<Rightarrow>
          (case kp_secret kp of
             SecretKeyMaterial.MLDSA87_Ed448 eddsa_sec mldsa_sec \<Rightarrow>
               and_then (ed448_sign be eddsa_sec eddsa_pub digest) (\<lambda>e.
               and_then (mldsa87_sign be mldsa_sec digest) (\<lambda>m. Inr (Signature.MLDSA87_Ed448 e m)))
           | _ \<Rightarrow> backend)
      | (PublicKeyAlgorithm.SLHDSA128s, PublicKey.SLHDSA128s _) \<Rightarrow>
          (case kp_secret kp of
             SecretKeyMaterial.SLHDSA128s x \<Rightarrow> and_then (slhdsa128s_sign be x digest) (\<lambda>s. Inr (Signature.SLHDSA128s s)) | _ \<Rightarrow> backend)
      | (PublicKeyAlgorithm.SLHDSA128f, PublicKey.SLHDSA128f _) \<Rightarrow>
          (case kp_secret kp of
             SecretKeyMaterial.SLHDSA128f x \<Rightarrow> and_then (slhdsa128f_sign be x digest) (\<lambda>s. Inr (Signature.SLHDSA128f s)) | _ \<Rightarrow> backend)
      | (PublicKeyAlgorithm.SLHDSA256s, PublicKey.SLHDSA256s _) \<Rightarrow>
          (case kp_secret kp of
             SecretKeyMaterial.SLHDSA256s x \<Rightarrow> and_then (slhdsa256s_sign be x digest) (\<lambda>s. Inr (Signature.SLHDSA256s s)) | _ \<Rightarrow> backend)
      | (PublicKeyAlgorithm.EdDSA, PublicKey.EdDSA curve q) \<Rightarrow>
          (case kp_secret kp of SecretKeyMaterial.EdDSA scalar \<Rightarrow> sign_eddsa be curve q scalar digest | _ \<Rightarrow> backend)
      | (PublicKeyAlgorithm.DSA, PublicKey.DSA p q g y) \<Rightarrow>
          (case kp_secret kp of
             SecretKeyMaterial.DSA x \<Rightarrow> and_then (dsa_sign be x p q g y digest) (\<lambda>(r, s). Inr (Signature.DSA r s)) | _ \<Rightarrow> backend)
      | _ \<Rightarrow> backend)"

text \<open>Padding that fails makes the signature bad; the octets of the point are 32 or the run aborts.\<close>

definition verify_eddsa :: "AsymmetricBackend \<Rightarrow> Curve \<Rightarrow> MPI \<Rightarrow> bytes \<Rightarrow> MPI \<Rightarrow> MPI \<Rightarrow> bool res" where
  "verify_eddsa be curve q digest r s =
     (let bad = (\<lambda>m. case m of Inr v \<Rightarrow> Inr v | Inl _ \<Rightarrow> Inl (Err BadSignature)) in
      if curve = Curve.Ed25519 then
        and_then (MPI_decode_point q Curve.Ed25519) (\<lambda>(public, _).
          if length public \<noteq> 32 then Inl Panic
          else
            and_then (bad (MPI_value_padded r 32)) (\<lambda>r.
            and_then (bad (MPI_value_padded s 32)) (\<lambda>s.
            and_then (to_array 64 (r @ s)) (ed25519_verify be public digest))))
      else Inl (Err (UnsupportedEllipticCurve curve)))"

definition both_verify :: "bool res \<Rightarrow> bool res \<Rightarrow> bool res" where
  "both_verify a b =
     (if a = Inl Panic then Inl Panic else if b = Inl Panic then Inl Panic else Inr (a = Inr True \<and> b = Inr True))"

definition Key_verify :: "AsymmetricBackend \<Rightarrow> Key \<Rightarrow> Signature \<Rightarrow> HashAlgorithm \<Rightarrow> bytes \<Rightarrow> unit res" where
  "Key_verify be k sig hash_algo digest =
     (let check = (\<lambda>r. and_then r (\<lambda>ok. if ok then Inr () else Inl (Err ManipulatedMessage))) in
      case (Key_mpis k, sig) of
        (PublicKey.Ed25519 a, Signature.Ed25519 s) \<Rightarrow> check (ed25519_verify be a digest s)
      | (PublicKey.Ed448 a, Signature.Ed448 s) \<Rightarrow> check (ed448_verify be a digest s)
      | (PublicKey.EdDSA curve q, Signature.EdDSA r s) \<Rightarrow> check (verify_eddsa be curve q digest r s)
      | (PublicKey.MLDSA65_Ed25519 ep mp, Signature.MLDSA65_Ed25519 es ms) \<Rightarrow>
          check (both_verify (ed25519_verify be ep digest es) (mldsa65_verify be mp digest ms))
      | (PublicKey.MLDSA87_Ed448 ep mp, Signature.MLDSA87_Ed448 es ms) \<Rightarrow>
          check (both_verify (ed448_verify be ep digest es) (mldsa87_verify be mp digest ms))
      | (PublicKey.SLHDSA128s p, Signature.SLHDSA128s s) \<Rightarrow> check (slhdsa128s_verify be p digest s)
      | (PublicKey.SLHDSA128f p, Signature.SLHDSA128f s) \<Rightarrow> check (slhdsa128f_verify be p digest s)
      | (PublicKey.SLHDSA256s p, Signature.SLHDSA256s s) \<Rightarrow> check (slhdsa256s_verify be p digest s)
      | (PublicKey.DSA p q g y, Signature.DSA r s) \<Rightarrow> check (dsa_verify be p q g y digest r s)
      | (PublicKey.RSA _ _, Signature.RSA _) \<Rightarrow> verify_backend be k sig hash_algo digest
      | (PublicKey.ECDSA _ _, Signature.ECDSA _ _) \<Rightarrow> verify_backend be k sig hash_algo digest
      | _ \<Rightarrow> Inl (Err MalformedPacket))"

section \<open>What is signed verifies\<close>

text \<open>
  The material of a key pair that signs with a primitive of the backend interface, and what is relied on of that primitive:
  it accepts what it made. RSA and ECDSA are not among them: for these \<open>sign_backend\<close> and \<open>verify_backend\<close> are whole routines
  of each backend, of which nothing is assumed.
\<close>

definition signing_material :: "PublicKeyAlgorithm \<Rightarrow> PublicKey \<Rightarrow> SecretKeyMaterial \<Rightarrow> bool" where
  "signing_material algo mpis sec =
     (case mpis of
        PublicKey.Ed25519 _ \<Rightarrow> algo = PublicKeyAlgorithm.Ed25519 \<and> (case sec of SecretKeyMaterial.Ed25519 _ \<Rightarrow> True | _ \<Rightarrow> False)
      | PublicKey.Ed448 _ \<Rightarrow> algo = PublicKeyAlgorithm.Ed448 \<and> (case sec of SecretKeyMaterial.Ed448 _ \<Rightarrow> True | _ \<Rightarrow> False)
      | PublicKey.MLDSA65_Ed25519 _ _ \<Rightarrow>
          algo = PublicKeyAlgorithm.MLDSA65_Ed25519 \<and> (case sec of SecretKeyMaterial.MLDSA65_Ed25519 _ _ \<Rightarrow> True | _ \<Rightarrow> False)
      | PublicKey.MLDSA87_Ed448 _ _ \<Rightarrow>
          algo = PublicKeyAlgorithm.MLDSA87_Ed448 \<and> (case sec of SecretKeyMaterial.MLDSA87_Ed448 _ _ \<Rightarrow> True | _ \<Rightarrow> False)
      | PublicKey.SLHDSA128s _ \<Rightarrow> algo = PublicKeyAlgorithm.SLHDSA128s \<and> (case sec of SecretKeyMaterial.SLHDSA128s _ \<Rightarrow> True | _ \<Rightarrow> False)
      | PublicKey.SLHDSA128f _ \<Rightarrow> algo = PublicKeyAlgorithm.SLHDSA128f \<and> (case sec of SecretKeyMaterial.SLHDSA128f _ \<Rightarrow> True | _ \<Rightarrow> False)
      | PublicKey.SLHDSA256s _ \<Rightarrow> algo = PublicKeyAlgorithm.SLHDSA256s \<and> (case sec of SecretKeyMaterial.SLHDSA256s _ \<Rightarrow> True | _ \<Rightarrow> False)
      | PublicKey.EdDSA _ _ \<Rightarrow> algo = PublicKeyAlgorithm.EdDSA \<and> (case sec of SecretKeyMaterial.EdDSA _ \<Rightarrow> True | _ \<Rightarrow> False)
      | PublicKey.DSA _ _ _ _ \<Rightarrow> algo = PublicKeyAlgorithm.DSA \<and> (case sec of SecretKeyMaterial.DSA _ \<Rightarrow> True | _ \<Rightarrow> False)
      | _ \<Rightarrow> False)"

definition accepts :: "(bytes \<Rightarrow> 's res) \<Rightarrow> (bytes \<Rightarrow> 's \<Rightarrow> bool res) \<Rightarrow> bool" where
  "accepts sign verify \<longleftrightarrow> (\<forall>d s. sign d = Inr s \<longrightarrow> verify d s = Inr True)"

definition signature_laws :: "AsymmetricBackend \<Rightarrow> KeyPair \<Rightarrow> bool" where
  "signature_laws be kp \<longleftrightarrow>
     (case (Key_mpis (kp_public kp), kp_secret kp) of
        (PublicKey.Ed25519 a, SecretKeyMaterial.Ed25519 x) \<Rightarrow> accepts (ed25519_sign be x a) (ed25519_verify be a)
      | (PublicKey.Ed448 a, SecretKeyMaterial.Ed448 x) \<Rightarrow> accepts (ed448_sign be x a) (ed448_verify be a)
      | (PublicKey.MLDSA65_Ed25519 e m, SecretKeyMaterial.MLDSA65_Ed25519 x y) \<Rightarrow>
          accepts (ed25519_sign be x e) (ed25519_verify be e) \<and> accepts (mldsa65_sign be y) (mldsa65_verify be m)
      | (PublicKey.MLDSA87_Ed448 e m, SecretKeyMaterial.MLDSA87_Ed448 x y) \<Rightarrow>
          accepts (ed448_sign be x e) (ed448_verify be e) \<and> accepts (mldsa87_sign be y) (mldsa87_verify be m)
      | (PublicKey.SLHDSA128s p, SecretKeyMaterial.SLHDSA128s x) \<Rightarrow> accepts (slhdsa128s_sign be x) (slhdsa128s_verify be p)
      | (PublicKey.SLHDSA128f p, SecretKeyMaterial.SLHDSA128f x) \<Rightarrow> accepts (slhdsa128f_sign be x) (slhdsa128f_verify be p)
      | (PublicKey.SLHDSA256s p, SecretKeyMaterial.SLHDSA256s x) \<Rightarrow> accepts (slhdsa256s_sign be x) (slhdsa256s_verify be p)
      | (PublicKey.EdDSA _ q, SecretKeyMaterial.EdDSA x) \<Rightarrow>
          (\<forall>a d s. ed25519_sign be (ProtectedMPI_value_padded x 32) a d = Inr s \<longrightarrow> length s = 64)
          \<and> (\<forall>a b. MPI_decode_point q Curve.Ed25519 = Inr (a, b) \<longrightarrow>
               accepts (ed25519_sign be (ProtectedMPI_value_padded x 32) a) (ed25519_verify be a))
      | (PublicKey.DSA p q g y, SecretKeyMaterial.DSA x) \<Rightarrow>
          accepts (dsa_sign be x p q g y) (\<lambda>d (r, s). dsa_verify be p q g y d r s)
      | _ \<Rightarrow> True)"

lemma acceptsD: "accepts sign verify \<Longrightarrow> sign d = Inr s \<Longrightarrow> verify d s = Inr True"
  by (simp add: accepts_def)

text \<open>The MPIs of a signature lose leading zeros, and padding gives them back.\<close>

lemma value_padded_new: "length bs = n \<Longrightarrow> MPI_value_padded (MPI_new bs) n = Inr bs"
proof -
  assume n: "length bs = n"
  have split: "bs = takeWhile (\<lambda>x. x = 0) bs @ trim_leading_zeros bs"
    by (simp add: trim_leading_zeros_dropWhile)
  have zeros: "takeWhile (\<lambda>x. x = 0) bs = replicate (length (takeWhile (\<lambda>x. x = 0) bs)) 0"
    by (rule replicate_eqI) (auto dest: set_takeWhileD)
  then have "bs = replicate (n - length (trim_leading_zeros bs)) 0 @ trim_leading_zeros bs"
    using split n by (metis add_diff_cancel_right' length_append)
  then show ?thesis
    using n arg_cong [OF split, of length] by (auto simp: MPI_value_padded_def MPI_new_def pad_def)
qed

lemma decode_point_32: "curve = Curve.Ed25519 \<or> curve = Curve.Cv25519 \<Longrightarrow> MPI_decode_point q curve = Inr (p, r) \<Longrightarrow> length p = 32"
  by (auto simp: MPI_decode_point_def decode_point_common_def split: if_splits)

lemma eddsa_verifies:
  assumes "sign_eddsa be curve q x d = Inr sig"
    and len: "\<And>a d s. ed25519_sign be (ProtectedMPI_value_padded x 32) a d = Inr s \<Longrightarrow> length s = 64"
    and ok: "\<And>a b. MPI_decode_point q Curve.Ed25519 = Inr (a, b) \<Longrightarrow> accepts (ed25519_sign be (ProtectedMPI_value_padded x 32) a) (ed25519_verify be a)"
  obtains r s where "sig = Signature.EdDSA r s" "verify_eddsa be curve q d r s = Inr True"
proof -
  obtain a b s where c: "curve = Curve.Ed25519" "MPI_decode_point q Curve.Ed25519 = Inr (a, b)"
      "ed25519_sign be (ProtectedMPI_value_padded x 32) a d = Inr s"
      "sig = Signature.EdDSA (MPI_new (take 32 s)) (MPI_new (drop 32 s))"
    using assms(1) by (auto simp: sign_eddsa_def to_array_def result_simps split: if_splits)
  have "MPI_value_padded (MPI_new (take 32 s)) 32 = Inr (take 32 s)" "MPI_value_padded (MPI_new (drop 32 s)) 32 = Inr (drop 32 s)"
    using len [OF c(3)] by (simp_all add: value_padded_new)
  then have "verify_eddsa be curve q d (MPI_new (take 32 s)) (MPI_new (drop 32 s)) = Inr True"
    using c(1,2) len [OF c(3)] decode_point_32 [OF _ c(2)] acceptsD [OF ok [OF c(2)] c(3)]
    by (simp add: verify_eddsa_def to_array_def)
  then show thesis using that c(4) by blast
qed

text \<open>
  A key pair verifies its own signatures. For EdDSA the two halves of the signature go through integers without leading
  zeros, for the hybrid schemes both halves have to verify.
\<close>

lemma key_pair_verifies:
  assumes "signing_material (Key_pk_algo (kp_public kp)) (Key_mpis (kp_public kp)) (kp_secret kp)"
    and "signature_laws be kp" "KeyPair_sign be kp h d = Inr sig"
  shows "Key_verify be (kp_public kp) sig h d = Inr ()"
proof (cases "Key_mpis (kp_public kp)")
  case (EdDSA curve q)
  then obtain x where x: "kp_secret kp = SecretKeyMaterial.EdDSA x" "Key_pk_algo (kp_public kp) = PublicKeyAlgorithm.EdDSA"
    using assms(1) by (auto simp: signing_material_def split: SecretKeyMaterial.splits)
  have "sign_eddsa be curve q x d = Inr sig" using assms(3) EdDSA x by (simp add: KeyPair_sign_def)
  moreover have "(\<forall>a d s. ed25519_sign be (ProtectedMPI_value_padded x 32) a d = Inr s \<longrightarrow> length s = 64)
          \<and> (\<forall>a b. MPI_decode_point q Curve.Ed25519 = Inr (a, b) \<longrightarrow>
               accepts (ed25519_sign be (ProtectedMPI_value_padded x 32) a) (ed25519_verify be a))"
    using assms(2) EdDSA x(1) by (simp add: signature_laws_def)
  ultimately obtain r s where "sig = Signature.EdDSA r s" "verify_eddsa be curve q d r s = Inr True"
    using eddsa_verifies [of be curve q x d sig] by metis
  with EdDSA show ?thesis by (simp add: Key_verify_def)
qed (use assms in \<open>auto simp: signing_material_def signature_laws_def KeyPair_sign_def Key_verify_def both_verify_def result_simps
      split: SecretKeyMaterial.splits dest: acceptsD\<close>)

text \<open>A backend whose signatures repeat what they sign, with zeros in front.\<close>

definition demo_sign :: "bytes \<Rightarrow> bytes \<Rightarrow> bytes" where
  "demo_sign a d = replicate 32 0 @ take 16 (a @ replicate 16 0) @ take 16 (d @ replicate 16 0)"

definition demo_backend :: AsymmetricBackend where
  "demo_backend =
     \<lparr>x25519_generate_key = Inr (replicate 32 3, replicate 32 4), x25519_shared_point = (\<lambda>_ _. Inr (replicate 32 7)),
      x448_generate_key = Inr (replicate 56 3, replicate 56 4), x448_shared_point = (\<lambda>_ _. Inr (replicate 56 7)),
      ed25519_sign = (\<lambda>_ a d. Inr (demo_sign a d)), ed25519_verify = (\<lambda>a d s. Inr (s = demo_sign a d)),
      ed448_sign = (\<lambda>_ a d. Inr (a @ d)), ed448_verify = (\<lambda>a d s. Inr (s = a @ d)),
      mldsa65_sign = (\<lambda>_ d. Inr d), mldsa65_verify = (\<lambda>_ d s. Inr (s = d)),
      mldsa87_sign = (\<lambda>_ d. Inr d), mldsa87_verify = (\<lambda>_ d s. Inr (s = d)),
      slhdsa128s_sign = (\<lambda>_ d. Inr d), slhdsa128s_verify = (\<lambda>_ d s. Inr (s = d)),
      slhdsa128f_sign = (\<lambda>_ d. Inr d), slhdsa128f_verify = (\<lambda>_ d s. Inr (s = d)),
      slhdsa256s_sign = (\<lambda>_ d. Inr d), slhdsa256s_verify = (\<lambda>_ d s. Inr (s = d)),
      mlkem768_encapsulate = (\<lambda>_. Inr ([1], [2])), mlkem768_decapsulate = (\<lambda>_ _. Inr [2]),
      mlkem1024_encapsulate = (\<lambda>_. Inr ([1], [2])), mlkem1024_decapsulate = (\<lambda>_ _. Inr [2]),
      dsa_sign = (\<lambda>_ _ _ _ _ d. Inr (MPI_new d, MPI_new d)), dsa_verify = (\<lambda>_ _ _ _ d r s. Inr (r = MPI_new d \<and> s = MPI_new d)),
      encrypt_backend = (\<lambda>_ _. Inl (Err InvalidOperation)), decrypt_backend = (\<lambda>_ _ _ _. Inl (Err InvalidOperation)),
      sign_backend = (\<lambda>_ _ _ _. Inl (Err InvalidOperation)), verify_backend = (\<lambda>_ _ _ _. Inl (Err InvalidOperation)),
      hkdf_sha256 = (\<lambda>_ _ n. Inr (replicate n 1)), hkdf_sha512 = (\<lambda>_ _ n. Inr (replicate n 1)),
      digests = (\<lambda>_. Inr (32, \<lambda>_. replicate 32 5)), encryptors = (\<lambda>_ _. Inr (\<lambda>b. Inr (rev b))), decryptors = (\<lambda>_ _. Inr (\<lambda>b. Inr (rev b)))\<rparr>"

definition demo_pair :: "PublicKeyAlgorithm \<Rightarrow> PublicKey \<Rightarrow> SecretKeyMaterial \<Rightarrow> KeyPair" where
  "demo_pair algo mpis sec = \<lparr>kp_public = Key.V4 (Key4_make 0 algo mpis None), kp_secret = sec\<rparr>"

abbreviation demo_eddsa :: KeyPair where
  "demo_eddsa \<equiv> demo_pair PublicKeyAlgorithm.EdDSA (PublicKey.EdDSA Curve.Ed25519 \<lparr>MPI_value = 0x40 # replicate 32 9\<rparr>)
     (SecretKeyMaterial.EdDSA \<lparr>MPI_value = [1]\<rparr>)"

lemmas demo_pair_simps = demo_pair_def demo_backend_def Key4_make_def Key_common_def

section \<open>What is encrypted decrypts\<close>

definition exchange_material :: "PublicKeyAlgorithm \<Rightarrow> PublicKey \<Rightarrow> SecretKeyMaterial \<Rightarrow> bool" where
  "exchange_material algo mpis sec =
     (case mpis of
        PublicKey.X25519 _ \<Rightarrow> algo = PublicKeyAlgorithm.X25519 \<and> (case sec of SecretKeyMaterial.X25519 _ \<Rightarrow> True | _ \<Rightarrow> False)
      | PublicKey.X448 _ \<Rightarrow> algo = PublicKeyAlgorithm.X448 \<and> (case sec of SecretKeyMaterial.X448 _ \<Rightarrow> True | _ \<Rightarrow> False)
      | PublicKey.MLKEM768_X25519 _ _ \<Rightarrow>
          algo = PublicKeyAlgorithm.MLKEM768_X25519 \<and> (case sec of SecretKeyMaterial.MLKEM768_X25519 _ _ \<Rightarrow> True | _ \<Rightarrow> False)
      | PublicKey.MLKEM1024_X448 _ _ \<Rightarrow>
          algo = PublicKeyAlgorithm.MLKEM1024_X448 \<and> (case sec of SecretKeyMaterial.MLKEM1024_X448 _ _ \<Rightarrow> True | _ \<Rightarrow> False)
      | PublicKey.ECDH curve _ _ _ \<Rightarrow>
          algo = PublicKeyAlgorithm.ECDH \<and> curve = Curve.Cv25519 \<and> (case sec of SecretKeyMaterial.ECDH _ \<Rightarrow> True | _ \<Rightarrow> False)
      | _ \<Rightarrow> False)"

text \<open>
  What is relied on: both ends of an exchange get the same octets of the right size, encapsulation is undone, the key
  derivation and the digest that the algorithm uses give as many octets as asked for, and its cipher is inverse.
\<close>

definition exchange_agrees :: "(bytes \<times> bytes) res \<Rightarrow> (bytes \<Rightarrow> bytes \<Rightarrow> bytes res) \<Rightarrow> nat \<Rightarrow> bytes \<Rightarrow> bytes \<Rightarrow> bool" where
  "exchange_agrees generate shared n U x \<longleftrightarrow>
     (\<exists>v V S. generate = Inr (v, V) \<and> shared v U = Inr S \<and> shared x V = Inr S \<and> length V = n \<and> length U = n \<and> length S = n)"

definition kem_agrees :: "(bytes \<Rightarrow> (bytes \<times> bytes) res) \<Rightarrow> (bytes \<Rightarrow> bytes \<Rightarrow> bytes res) \<Rightarrow> bytes \<Rightarrow> bytes \<Rightarrow> bool" where
  "kem_agrees encapsulate decapsulate pub sec \<longleftrightarrow> (\<exists>c s. encapsulate pub = Inr (c, s) \<and> decapsulate sec c = Inr s)"

text \<open>The cipher that wraps the session key, which is the only one that is needed.\<close>

definition wrap_algo :: "PublicKey \<Rightarrow> SymmetricAlgorithm" where
  "wrap_algo mpis =
     (case mpis of
        PublicKey.X25519 _ \<Rightarrow> SymmetricAlgorithm.AES128
      | PublicKey.ECDH _ _ _ s \<Rightarrow> s
      | _ \<Rightarrow> SymmetricAlgorithm.AES256)"

definition cipher_laws :: "AsymmetricBackend \<Rightarrow> SymmetricAlgorithm \<Rightarrow> bool" where
  "cipher_laws be algo \<longleftrightarrow>
     (\<forall>key. key_size algo = Inr (length key) \<longrightarrow>
        (\<exists>e d. encryptors be algo key = Inr e \<and> decryptors be algo key = Inr d \<and> inverse_ciphers e d))"

text \<open>As the interface documents it, at most 255 times the size of the digest can be derived.\<close>

definition hkdf_laws :: "(bytes \<Rightarrow> bytes \<Rightarrow> nat \<Rightarrow> bytes res) \<Rightarrow> nat \<Rightarrow> bool" where
  "hkdf_laws hkdf ds \<longleftrightarrow> (\<forall>ikm info n. n \<le> 255 * ds \<longrightarrow> (\<exists>k. hkdf ikm info n = Inr k \<and> length k = n))"

definition combiner_laws :: "AsymmetricBackend \<Rightarrow> bool" where
  "combiner_laws be \<longleftrightarrow> (\<exists>digest. digests be HashAlgorithm.SHA3_256 = Inr (32, digest) \<and> (\<forall>x. length (digest x) = 32))"

definition exchange_laws :: "AsymmetricBackend \<Rightarrow> KeyPair \<Rightarrow> bool" where
  "exchange_laws be kp \<longleftrightarrow>
     (case (Key_mpis (kp_public kp), kp_secret kp) of
        (PublicKey.X25519 U, SecretKeyMaterial.X25519 x) \<Rightarrow>
          exchange_agrees (x25519_generate_key be) (x25519_shared_point be) 32 U x \<and> hkdf_laws (hkdf_sha256 be) 32
      | (PublicKey.X448 U, SecretKeyMaterial.X448 x) \<Rightarrow>
          exchange_agrees (x448_generate_key be) (x448_shared_point be) 56 U x \<and> hkdf_laws (hkdf_sha512 be) 64
      | (PublicKey.MLKEM768_X25519 e m, SecretKeyMaterial.MLKEM768_X25519 x y) \<Rightarrow>
          exchange_agrees (x25519_generate_key be) (x25519_shared_point be) 32 e x
          \<and> kem_agrees (mlkem768_encapsulate be) (mlkem768_decapsulate be) m y \<and> combiner_laws be
      | (PublicKey.MLKEM1024_X448 e m, SecretKeyMaterial.MLKEM1024_X448 x y) \<Rightarrow>
          exchange_agrees (x448_generate_key be) (x448_shared_point be) 56 e x
          \<and> kem_agrees (mlkem1024_encapsulate be) (mlkem1024_decapsulate be) m y \<and> combiner_laws be
      | (PublicKey.ECDH _ q h s, SecretKeyMaterial.ECDH x) \<Rightarrow>
          (\<exists>R. MPI_decode_point q Curve.Cv25519 = Inr (R, [])
             \<and> exchange_agrees (x25519_generate_key be) (x25519_shared_point be) 32 R (rev (ProtectedMPI_value_padded x 32)))
          \<and> (\<exists>sz dsz digest. key_size s = Inr sz \<and> digests be h = Inr (dsz, digest) \<and> sz \<le> dsz \<and> (\<forall>x. length (digest x) = dsz))
      | _ \<Rightarrow> True)"

definition session_key_fits :: "PublicKey \<Rightarrow> bytes \<Rightarrow> bool" where
  "session_key_fits mpis data =
     (case mpis of PublicKey.ECDH _ _ _ _ \<Rightarrow> length data < 40 | _ \<Rightarrow> length data mod 8 = 0 \<and> data \<noteq> [])"

lemma cipher_laws_wrap:
  assumes "cipher_laws be algo" "key_size algo = Inr (length kek)" "length data mod 8 = 0" "data \<noteq> []"
  obtains c where "aes_key_wrap (encryptors be) algo kek data = Inr c" "aes_key_unwrap (decryptors be) algo kek c = Inr data"
proof -
  have "\<exists>e d. encryptors be algo kek = Inr e \<and> decryptors be algo kek = Inr d \<and> inverse_ciphers e d"
    using assms(1,2) unfolding cipher_laws_def by blast
  then obtain e d where "encryptors be algo kek = Inr e" "decryptors be algo kek = Inr d" "inverse_ciphers e d" by blast
  from aes_key_unwrap_wrap [where encryptor = "encryptors be" and decryptor = "decryptors be", OF assms(2) this assms(3,4)] that show thesis by blast
qed

lemma exchange_kek_ok:
  assumes "key_size algo = Inr n" "hkdf_laws hkdf l" "n \<le> 255 * l" "length E = m" "length U = m" "length S = m"
  obtains kek where "exchange_kek hkdf info algo m E U S = Inr kek" "length kek = n"
proof -
  obtain k where "hkdf (E @ U @ S) info n = Inr k" "length k = n" using assms(2,3) unfolding hkdf_laws_def by blast
  then show thesis using that assms(1,4-6) by (simp add: exchange_kek_def)
qed

lemma combine_ok:
  assumes "combiner_laws be"
  obtains kek where "multi_key_combine be m e c p algo = Inr kek" "length kek = 32"
  using assms by (auto simp: multi_key_combine_def combiner_laws_def)

lemma x25519_round_trip:
  assumes "cipher_laws be SymmetricAlgorithm.AES128" "exchange_agrees (x25519_generate_key be) (x25519_shared_point be) 32 U x"
    and "hkdf_laws (hkdf_sha256 be) 32" "length data mod 8 = 0" "data \<noteq> []"
  shows "\<exists>E key. encrypt_x25519 be U data = Inr (Ciphertext.X25519 E key) \<and> decrypt_x25519 be U x E key = Inr data"
proof -
  obtain v V S where S: "x25519_generate_key be = Inr (v, V)" "x25519_shared_point be v U = Inr S" "x25519_shared_point be x V = Inr S"
      "length V = 32" "length U = 32" "length S = 32"
    using assms(2) by (auto simp: exchange_agrees_def)
  obtain kek where kek: "x25519_kek be V U S = Inr kek" "length kek = 16"
    unfolding x25519_kek_def by (rule exchange_kek_ok [OF _ assms(3), of SymmetricAlgorithm.AES128 16 V 32 U S])
      (use S in \<open>auto simp: key_size_def\<close>)
  obtain c where "aes_key_wrap (encryptors be) SymmetricAlgorithm.AES128 kek data = Inr c"
      "aes_key_unwrap (decryptors be) SymmetricAlgorithm.AES128 kek c = Inr data"
    by (rule cipher_laws_wrap [OF assms(1) _ assms(4,5)]) (use kek(2) in \<open>auto simp: key_size_def\<close>)
  with S kek show ?thesis by (simp add: encrypt_x25519_def decrypt_x25519_def)
qed

lemma x448_round_trip:
  assumes "cipher_laws be SymmetricAlgorithm.AES256" "exchange_agrees (x448_generate_key be) (x448_shared_point be) 56 U x"
    and "hkdf_laws (hkdf_sha512 be) 64" "length data mod 8 = 0" "data \<noteq> []"
  shows "\<exists>E key. encrypt_x448 be U data = Inr (Ciphertext.X448 E key) \<and> decrypt_x448 be U x E key = Inr data"
proof -
  obtain v V S where S: "x448_generate_key be = Inr (v, V)" "x448_shared_point be v U = Inr S" "x448_shared_point be x V = Inr S"
      "length V = 56" "length U = 56" "length S = 56"
    using assms(2) by (auto simp: exchange_agrees_def)
  obtain kek where kek: "x448_kek be V U S = Inr kek" "length kek = 32"
    unfolding x448_kek_def by (rule exchange_kek_ok [OF _ assms(3), of SymmetricAlgorithm.AES256 32 V 56 U S])
      (use S in \<open>auto simp: key_size_def\<close>)
  obtain c where "aes_key_wrap (encryptors be) SymmetricAlgorithm.AES256 kek data = Inr c"
      "aes_key_unwrap (decryptors be) SymmetricAlgorithm.AES256 kek c = Inr data"
    by (rule cipher_laws_wrap [OF assms(1) _ assms(4,5)]) (use kek(2) in \<open>auto simp: key_size_def\<close>)
  with S kek show ?thesis by (simp add: encrypt_x448_def decrypt_x448_def)
qed

lemma mlkem_wrap:
  assumes "cipher_laws be SymmetricAlgorithm.AES256" "combiner_laws be" "length data mod 8 = 0" "data \<noteq> []"
  obtains kek esk where "multi_key_combine be m e c p algo = Inr kek" "aes_key_wrap (encryptors be) SymmetricAlgorithm.AES256 kek data = Inr esk"
    "aes_key_unwrap (decryptors be) SymmetricAlgorithm.AES256 kek esk = Inr data"
proof -
  obtain kek where kek: "multi_key_combine be m e c p algo = Inr kek" "length kek = 32" by (rule combine_ok [OF assms(2)])
  show thesis
    by (rule cipher_laws_wrap [OF assms(1) _ assms(3,4), of kek])
      (use kek that in \<open>auto simp: key_size_def\<close>)
qed

lemma mlkem768_round_trip:
  assumes "cipher_laws be SymmetricAlgorithm.AES256" "exchange_agrees (x25519_generate_key be) (x25519_shared_point be) 32 pe se"
    and "kem_agrees (mlkem768_encapsulate be) (mlkem768_decapsulate be) pm sm" "combiner_laws be" "length data mod 8 = 0" "data \<noteq> []"
  shows "\<exists>ce cm esk. encrypt_mlkem768 be pe pm data = Inr (Ciphertext.MLKEM768_X25519 ce cm esk) \<and> decrypt_mlkem768 be pe se sm ce cm esk = Inr data"
proof -
  obtain v V S where S: "x25519_generate_key be = Inr (v, V)" "x25519_shared_point be v pe = Inr S" "x25519_shared_point be se V = Inr S"
    using assms(2) by (auto simp: exchange_agrees_def)
  obtain c s where c: "mlkem768_encapsulate be pm = Inr (c, s)" "mlkem768_decapsulate be sm c = Inr s"
    using assms(3) by (auto simp: kem_agrees_def)
  obtain kek esk where "multi_key_combine be s S V pe PublicKeyAlgorithm.MLKEM768_X25519 = Inr kek"
      "aes_key_wrap (encryptors be) SymmetricAlgorithm.AES256 kek data = Inr esk"
      "aes_key_unwrap (decryptors be) SymmetricAlgorithm.AES256 kek esk = Inr data"
    by (rule mlkem_wrap [OF assms(1,4,5,6)])
  with S c show ?thesis by (simp add: encrypt_mlkem768_def decrypt_mlkem768_def)
qed

lemma mlkem1024_round_trip:
  assumes "cipher_laws be SymmetricAlgorithm.AES256" "exchange_agrees (x448_generate_key be) (x448_shared_point be) 56 pe se"
    and "kem_agrees (mlkem1024_encapsulate be) (mlkem1024_decapsulate be) pm sm" "combiner_laws be" "length data mod 8 = 0" "data \<noteq> []"
  shows "\<exists>ce cm esk. encrypt_mlkem1024 be pe pm data = Inr (Ciphertext.MLKEM1024_X448 ce cm esk) \<and> decrypt_mlkem1024 be pe se sm ce cm esk = Inr data"
proof -
  obtain v V S where S: "x448_generate_key be = Inr (v, V)" "x448_shared_point be v pe = Inr S" "x448_shared_point be se V = Inr S"
    using assms(2) by (auto simp: exchange_agrees_def)
  obtain c s where c: "mlkem1024_encapsulate be pm = Inr (c, s)" "mlkem1024_decapsulate be sm c = Inr s"
    using assms(3) by (auto simp: kem_agrees_def)
  obtain kek esk where "multi_key_combine be s S V pe PublicKeyAlgorithm.MLKEM1024_X448 = Inr kek"
      "aes_key_wrap (encryptors be) SymmetricAlgorithm.AES256 kek data = Inr esk"
      "aes_key_unwrap (decryptors be) SymmetricAlgorithm.AES256 kek esk = Inr data"
    by (rule mlkem_wrap [OF assms(1,4,5,6)])
  with S c show ?thesis by (simp add: encrypt_mlkem1024_def decrypt_mlkem1024_def)
qed

lemma decode_compressed: "length V = 32 \<Longrightarrow> MPI_decode_point (MPI_new_compressed_point V) Curve.Cv25519 = Inr (V, [])"
  by (simp add: MPI_decode_point_def decode_point_common_def MPI_new_compressed_point_def new_compressed_point_common_def MPI_new_def trim_leading_zeros_id)

lemma cv25519_round_trip:
  assumes "cipher_laws be s" "MPI_decode_point q Curve.Cv25519 = Inr (R, [])"
    and "exchange_agrees (x25519_generate_key be) (x25519_shared_point be) 32 R (rev (ProtectedMPI_value_padded x 32))"
    and "key_size s = Inr sz" "digests be h = Inr (dsz, digest)" "sz \<le> dsz" "\<And>x. length (digest x) = dsz" "length data < 40"
  shows "\<exists>e key. encrypt_cv25519 be fp (PublicKey.ECDH curve q h s) q data = Inr (Ciphertext.ECDH e key)
    \<and> decrypt_cv25519 be fp (PublicKey.ECDH curve q h s) x e (Ciphertext.ECDH e key) = Inr data"
proof -
  obtain v V S where S: "x25519_generate_key be = Inr (v, V)" "x25519_shared_point be v R = Inr S"
      "x25519_shared_point be (rev (ProtectedMPI_value_padded x 32)) V = Inr S" "length V = 32" "length R = 32"
    using assms(3) by (auto simp: exchange_agrees_def)
  have "\<exists>e d. \<forall>key. length key = sz \<longrightarrow> encryptors be s key = Inr (e key) \<and> decryptors be s key = Inr (d key) \<and> inverse_ciphers (e key) (d key)"
    using assms(1,4) unfolding cipher_laws_def by metis
  then obtain e d where "\<And>key. length key = sz \<Longrightarrow> encryptors be s key = Inr (e key) \<and> decryptors be s key = Inr (d key) \<and> inverse_ciphers (e key) (d key)"
    by blast
  from ecdh_wrap_unwrap [of s sz "digests be" h dsz digest "encryptors be" _ "decryptors be", OF assms(4-7) this assms(8)]
  obtain C where "encrypt_wrap (digests be) (encryptors be) (PublicKey.ECDH curve q h s) fp data (MPI_new_compressed_point V) S = Inr (Ciphertext.ECDH (MPI_new_compressed_point V) C)"
      "decrypt_unwrap (digests be) (decryptors be) (PublicKey.ECDH curve q h s) fp S (Ciphertext.ECDH (MPI_new_compressed_point V) C) = Inr data"
    by blast
  with S assms(2) show ?thesis by (simp add: encrypt_cv25519_def decrypt_cv25519_def decode_compressed to_array_def)
qed

lemma ecdh_pair_round_trip:
  assumes "exchange_material (Key_pk_algo (kp_public kp)) (Key_mpis (kp_public kp)) (kp_secret kp)"
    and "cipher_laws be (wrap_algo (Key_mpis (kp_public kp)))" "exchange_laws be kp" "session_key_fits (Key_mpis (kp_public kp)) data"
    and ECDH: "Key_mpis (kp_public kp) = PublicKey.ECDH curve q h s"
  shows "\<exists>c. Key_encrypt be fp (kp_public kp) data = Inr c \<and> KeyPair_decrypt be fp kp c len = Inr data"
proof -
  obtain x where x: "kp_secret kp = SecretKeyMaterial.ECDH x" "curve = Curve.Cv25519" "Key_pk_algo (kp_public kp) = PublicKeyAlgorithm.ECDH"
    using assms(1) ECDH by (auto simp: exchange_material_def split: SecretKeyMaterial.splits)
  obtain R sz dsz digest where law: "MPI_decode_point q Curve.Cv25519 = Inr (R, [])"
      "exchange_agrees (x25519_generate_key be) (x25519_shared_point be) 32 R (rev (ProtectedMPI_value_padded x 32))"
      "key_size s = Inr sz" "digests be h = Inr (dsz, digest)" "sz \<le> dsz" "\<And>x. length (digest x) = dsz"
    using assms(3) ECDH x(1) by (auto simp: exchange_laws_def)
  have "length data < 40" using assms(4) ECDH by (simp add: session_key_fits_def)
  moreover have "cipher_laws be s" using assms(2) ECDH by (simp add: wrap_algo_def)
  ultimately have "\<exists>e key. encrypt_cv25519 be fp (PublicKey.ECDH curve q h s) q data = Inr (Ciphertext.ECDH e key)
      \<and> decrypt_cv25519 be fp (PublicKey.ECDH curve q h s) x e (Ciphertext.ECDH e key) = Inr data"
    by (intro cv25519_round_trip [OF _ law])
  with ECDH x show ?thesis
    by (auto simp: Key_encrypt_def KeyPair_decrypt_def)
qed

text \<open>
  C4. A session key that is encrypted to a key is decrypted by the key pair: for X25519, X448, the two hybrids with
  ML-KEM and ECDH over Curve25519, \<open>KeyPair::decrypt\<close> undoes \<open>Key::encrypt\<close>, for session keys that the key wrap can hold.
  What is relied on is that the two ends of an exchange agree, that encapsulation is undone, that the one cipher that wraps
  for this key has blocks of 16 octets and is undone, and that HKDF derives up to 255 times its digest size, where it is
  used.
\<close>

theorem session_key_round_trip:
  assumes "exchange_material (Key_pk_algo (kp_public kp)) (Key_mpis (kp_public kp)) (kp_secret kp)"
    and "cipher_laws be (wrap_algo (Key_mpis (kp_public kp)))" "exchange_laws be kp" "session_key_fits (Key_mpis (kp_public kp)) data"
  shows "\<exists>c. Key_encrypt be fp (kp_public kp) data = Inr c \<and> KeyPair_decrypt be fp kp c len = Inr data"
proof (cases "Key_mpis (kp_public kp)")
  case (X25519 U)
  then obtain x where x: "kp_secret kp = SecretKeyMaterial.X25519 x" "Key_pk_algo (kp_public kp) = PublicKeyAlgorithm.X25519"
    using assms(1) by (auto simp: exchange_material_def split: SecretKeyMaterial.splits)
  have data: "length data mod 8 = 0" "data \<noteq> []" using assms(4) X25519 by (simp_all add: session_key_fits_def)
  have "exchange_agrees (x25519_generate_key be) (x25519_shared_point be) 32 U x" "hkdf_laws (hkdf_sha256 be) 32"
    using assms(3) X25519 x(1) by (simp_all add: exchange_laws_def)
  from x25519_round_trip [OF _ this data] assms(2) show ?thesis
    using X25519 x by (auto simp: Key_encrypt_def KeyPair_decrypt_def wrap_algo_def Let_def)
next
  case (X448 U)
  then obtain x where x: "kp_secret kp = SecretKeyMaterial.X448 x" "Key_pk_algo (kp_public kp) = PublicKeyAlgorithm.X448"
    using assms(1) by (auto simp: exchange_material_def split: SecretKeyMaterial.splits)
  have data: "length data mod 8 = 0" "data \<noteq> []" using assms(4) X448 by (simp_all add: session_key_fits_def)
  have "exchange_agrees (x448_generate_key be) (x448_shared_point be) 56 U x" "hkdf_laws (hkdf_sha512 be) 64"
    using assms(3) X448 x(1) by (simp_all add: exchange_laws_def)
  from x448_round_trip [OF _ this data] assms(2) show ?thesis
    using X448 x by (auto simp: Key_encrypt_def KeyPair_decrypt_def wrap_algo_def Let_def)
next
  case (MLKEM768_X25519 e m)
  then obtain x y where x: "kp_secret kp = SecretKeyMaterial.MLKEM768_X25519 x y" "Key_pk_algo (kp_public kp) = PublicKeyAlgorithm.MLKEM768_X25519"
    using assms(1) by (auto simp: exchange_material_def split: SecretKeyMaterial.splits)
  have data: "length data mod 8 = 0" "data \<noteq> []" using assms(4) MLKEM768_X25519 by (simp_all add: session_key_fits_def)
  have "exchange_agrees (x25519_generate_key be) (x25519_shared_point be) 32 e x" "kem_agrees (mlkem768_encapsulate be) (mlkem768_decapsulate be) m y"
      "combiner_laws be"
    using assms(3) MLKEM768_X25519 x(1) by (simp_all add: exchange_laws_def)
  from mlkem768_round_trip [OF _ this data] assms(2) show ?thesis
    using MLKEM768_X25519 x by (auto simp: Key_encrypt_def KeyPair_decrypt_def wrap_algo_def Let_def)
next
  case (MLKEM1024_X448 e m)
  then obtain x y where x: "kp_secret kp = SecretKeyMaterial.MLKEM1024_X448 x y" "Key_pk_algo (kp_public kp) = PublicKeyAlgorithm.MLKEM1024_X448"
    using assms(1) by (auto simp: exchange_material_def split: SecretKeyMaterial.splits)
  have data: "length data mod 8 = 0" "data \<noteq> []" using assms(4) MLKEM1024_X448 by (simp_all add: session_key_fits_def)
  have "exchange_agrees (x448_generate_key be) (x448_shared_point be) 56 e x" "kem_agrees (mlkem1024_encapsulate be) (mlkem1024_decapsulate be) m y"
      "combiner_laws be"
    using assms(3) MLKEM1024_X448 x(1) by (simp_all add: exchange_laws_def)
  from mlkem1024_round_trip [OF _ this data] assms(2) show ?thesis
    using MLKEM1024_X448 x by (auto simp: Key_encrypt_def KeyPair_decrypt_def wrap_algo_def Let_def)
next
  case (ECDH curve q h s)
  then show ?thesis by (rule ecdh_pair_round_trip [OF assms])
qed (use assms(1) in \<open>simp_all add: exchange_material_def\<close>)

abbreviation demo_x25519 :: KeyPair where
  "demo_x25519 \<equiv> demo_pair PublicKeyAlgorithm.X25519 (PublicKey.X25519 (replicate 32 9)) (SecretKeyMaterial.X25519 (replicate 32 8))"

theorem session_key_round_trip_witness:
  "\<exists>c. Key_encrypt demo_backend [] (kp_public demo_x25519) (replicate 16 6) = Inr c
    \<and> KeyPair_decrypt demo_backend [] demo_x25519 c None = Inr (replicate 16 6)"
proof (rule session_key_round_trip)
  show "exchange_material (Key_pk_algo (kp_public demo_x25519)) (Key_mpis (kp_public demo_x25519)) (kp_secret demo_x25519)"
    by (simp add: exchange_material_def demo_pair_simps)
  show "cipher_laws demo_backend (wrap_algo (Key_mpis (kp_public demo_x25519)))" by (simp add: cipher_laws_def demo_pair_simps inverse_ciphers_def)
  show "exchange_laws demo_backend demo_x25519" by (simp add: exchange_laws_def exchange_agrees_def hkdf_laws_def demo_pair_simps)
  show "session_key_fits (Key_mpis (kp_public demo_x25519)) (replicate 16 6)" by (simp add: session_key_fits_def demo_pair_simps)
qed

end
