(* ===== verification/SignatureVerification.thy ===== *)
theory SignatureVerification
  imports SignatureCache Asymmetric
begin

text \<open>
  Verification of signatures (\<open>packet/signature.rs\<close>): the checks on the signature and the key, the cache of verified
  signatures, the primitive, what is recorded in a signature that verified, and the operations for the kinds of signatures.

  A signature records what verification finds out in cells that are written behind a shared reference: whether a subpacket is
  authenticated, further issuers, the digest. Here an operation returns its result with the signature and the cache
  afterwards. The digests of fingerprints, the primitives and the hash algorithms come from outside the crate and are the
  fields of \<open>VerifyEnv\<close>.
\<close>

section \<open>Data\<close>

record VerifyEnv =
  ve_hashes :: HashBackend
  ve_backend :: AsymmetricBackend
  ve_sha1 :: "bytes \<Rightarrow> bytes"
  ve_sha256 :: "bytes \<Rightarrow> bytes"

type_synonym verification = "unit res \<times> SignaturePacket \<times> SignatureVerificationCache"

text \<open>A change of the part that all versions have in common.\<close>

definition map_common :: "(SignaturePacket Signature4 \<Rightarrow> SignaturePacket Signature4) \<Rightarrow> SignaturePacket \<Rightarrow> SignaturePacket" where
  "map_common g s =
     (case s of
        SignaturePacket.V3 s \<Rightarrow> SignaturePacket.V3 (Signature3 (g (intern s)))
      | SignaturePacket.V4 s \<Rightarrow> SignaturePacket.V4 (g s)
      | SignaturePacket.V6 s \<Rightarrow> SignaturePacket.V6 (Signature6 (g (common s)) (salt s)))"

definition with_areas :: "SignaturePacket SubpacketAreas \<Rightarrow> SignaturePacket Signature4 \<Rightarrow> SignaturePacket Signature4" where
  "with_areas a s =
     (let f = Signature4.fields s in
      Signature4 (SignatureFields (sf_version f) (sf_typ f) (sf_pk_algo f) (sf_hash_algo f) a)
        (digest_prefix s) (sig_mpis s) (computed_digest s) (level s) (additional_issuers s))"

definition map_packets :: "('sig Subpacket \<Rightarrow> 'sig Subpacket) \<Rightarrow> 'sig SubpacketArea \<Rightarrow> 'sig SubpacketArea" where
  "map_packets g a = SubpacketArea (map g (packets a)) (parsed a)"

definition set_additional_issuers :: "KeyHandle list \<Rightarrow> SignaturePacket Signature4 \<Rightarrow> SignaturePacket Signature4" where
  "set_additional_issuers ids s =
     (case additional_issuers s of
        Some _ \<Rightarrow> s
      | None \<Rightarrow> Signature4 (Signature4.fields s) (digest_prefix s) (sig_mpis s) (computed_digest s) (level s) (Some ids))"

definition set_computed_digest :: "bytes option \<Rightarrow> SignaturePacket Signature4 \<Rightarrow> SignaturePacket Signature4" where
  "set_computed_digest hash s =
     (case computed_digest s of
        Some _ \<Rightarrow> s
      | None \<Rightarrow> Signature4 (Signature4.fields s) (digest_prefix s) (sig_mpis s) (Some (case hash of Some d \<Rightarrow> d | None \<Rightarrow> [])) (level s)
                  (additional_issuers s))"

text \<open>The issuers a signature names, fingerprints first; the sort is stable.\<close>

definition subpacket_issuer :: "'sig Subpacket \<Rightarrow> KeyHandle option" where
  "subpacket_issuer p =
     (case sp_value p of
        SubpacketValue.Issuer i \<Rightarrow> Some (KeyHandle.KeyID i)
      | SubpacketValue.IssuerFingerprint i \<Rightarrow> Some (KeyHandle.Fingerprint i)
      | _ \<Rightarrow> None)"

definition get_issuers :: "SignaturePacket \<Rightarrow> KeyHandle list" where
  "get_issuers s =
     (let issuers = List.map_filter subpacket_issuer
            (packets (hashed_area (Signature_areas s)) @ packets (unhashed_area (Signature_areas s))) in
      sort_key (\<lambda>h. case h of KeyHandle.Fingerprint _ \<Rightarrow> 0 | KeyHandle.KeyID _ \<Rightarrow> (1 :: nat)) issuers)"

section \<open>Verifying a digest\<close>

definition check_salt :: "SignaturePacket \<Rightarrow> unit res" where
  "check_salt s =
     (if sf_version (Signature_fields s) = 6 then
        and_then (salt_size (sf_hash_algo (Signature_fields s))) (\<lambda>n.
          if Some n \<noteq> map_option length (Signature_salt s) then Inl (Err BadSignature) else Inr ())
      else Inr ())"

definition check_times :: "Key \<Rightarrow> SignaturePacket \<Rightarrow> unit res" where
  "check_times key s =
     and_then (signature_creation_time (Signature_areas s)) (\<lambda>t.
       case t of
         Some t \<Rightarrow> if t < SystemTime_from (creation_time (Key_common key)) then Inl (Err BadSignature) else Inr ()
       | None \<Rightarrow> Inl (Err BadSignature))"

definition check_signature :: "Key \<Rightarrow> SignaturePacket \<Rightarrow> unit res" where
  "check_signature key s =
     (let v = sf_version (Signature_fields s) in
      if (v = 6) \<noteq> (Key_version key = 6) then Inl (Err BadSignature)
      else
        and_then (check_salt s) (\<lambda>_.
          if v = 6 \<and> sf_pk_algo (Signature_fields s) = PublicKeyAlgorithm.DSA then Inl (Err BadSignature) else check_times key s))"

definition digest_to_verify :: "bytes option \<Rightarrow> SignaturePacket \<Rightarrow> bytes res" where
  "digest_to_verify computed s =
     (case computed of
        Some d \<Rightarrow> Inr d
      | None \<Rightarrow> (case computed_digest (SignaturePacket_deref s) of Some d \<Rightarrow> Inr d | None \<Rightarrow> Inl (Err BadSignature)))"

definition primitive_verify :: "VerifyEnv \<Rightarrow> Key \<Rightarrow> SignaturePacket \<Rightarrow> bytes \<Rightarrow> unit res" where
  "primitive_verify env key s d =
     Key_verify (ve_backend env) key (sig_mpis (SignaturePacket_deref s)) (sf_hash_algo (Signature_fields s)) d"

definition cached_verify ::
    "VerifyEnv \<Rightarrow> Key \<Rightarrow> SignaturePacket \<Rightarrow> bytes \<Rightarrow> SignatureVerificationCache \<Rightarrow> unit res \<times> SignatureVerificationCache" where
  "cached_verify env key s d c =
     (case Entry_new (ve_hashes env) s d key of
        Inr entry \<Rightarrow>
          (case Entry_present entry c of
             Inr (present, c) \<Rightarrow>
               if present then (Inr (), c)
               else let result = primitive_verify env key s d in (result, Entry_insert entry (is_ok result) c)
           | Inl e \<Rightarrow> (Inl e, c))
      | Inl Panic \<Rightarrow> (Inl Panic, c)
      | Inl _ \<Rightarrow> (primitive_verify env key s d, c))"

definition late_salt_check :: "SignaturePacket \<Rightarrow> unit res" where
  "late_salt_check s =
     (case salt_size (sf_hash_algo (Signature_fields s)) of
        Inr expected \<Rightarrow>
          if sf_version (Signature_fields s) = 6 \<and> (case Signature_salt s of Some x \<Rightarrow> length x | None \<Rightarrow> 0) \<noteq> expected
          then Inl (Err BadSignature) else Inr ()
      | Inl Panic \<Rightarrow> Inl Panic
      | Inl _ \<Rightarrow> Inr ())"

definition missing_issuers :: "KeyID \<Rightarrow> Fingerprint \<Rightarrow> SignaturePacket \<Rightarrow> KeyHandle list" where
  "missing_issuers id1 fp s =
     (let issuers = get_issuers s; v = sf_version (Signature_fields s) in
      (if v \<le> 4 \<and> \<not> list_ex (KeyHandle_eq (KeyHandle.KeyID id1)) issuers then [KeyHandle.KeyID id1] else [])
      @ (if v \<ge> 4 \<and> \<not> list_ex (KeyHandle_eq (KeyHandle.Fingerprint fp)) issuers then [KeyHandle.Fingerprint fp] else []))"

definition mark_unhashed :: "KeyID \<Rightarrow> Fingerprint \<Rightarrow> 'sig Subpacket \<Rightarrow> 'sig Subpacket" where
  "mark_unhashed id1 fp p =
     set_authenticated p
       (case sp_value p of
          SubpacketValue.Issuer i \<Rightarrow> i = id1
        | SubpacketValue.IssuerFingerprint i \<Rightarrow> i = fp
        | _ \<Rightarrow> False)"

definition record_verified :: "VerifyEnv \<Rightarrow> Key \<Rightarrow> bytes option \<Rightarrow> SignaturePacket \<Rightarrow> SignaturePacket res" where
  "record_verified env key computed s =
     and_then (Key_keyid (ve_sha1 env) (ve_sha256 env) key) (\<lambda>id1.
     and_then (Key_fingerprint (ve_sha1 env) (ve_sha256 env) key) (\<lambda>fp.
       let areas = SubpacketAreas (map_packets (\<lambda>p. set_authenticated p True) (hashed_area (Signature_areas s)))
                     (map_packets (mark_unhashed id1 fp) (unhashed_area (Signature_areas s)));
           s = map_common (with_areas areas) s;
           s = map_common (set_additional_issuers (missing_issuers id1 fp s)) s in
       Inr (case computed of Some d \<Rightarrow> map_common (set_computed_digest (Some d)) s | None \<Rightarrow> s)))"

definition verify_digest_internal ::
    "VerifyEnv \<Rightarrow> Key \<Rightarrow> bytes option \<Rightarrow> SignaturePacket \<Rightarrow> SignatureVerificationCache \<Rightarrow> verification" where
  "verify_digest_internal env key computed s c =
     (case and_then (check_signature key s) (\<lambda>_. digest_to_verify computed s) of
        Inl e \<Rightarrow> (Inl e, s, c)
      | Inr d \<Rightarrow>
          (case cached_verify env key s d c of
             (result, c) \<Rightarrow>
               (case and_then (if result = Inl Panic then Inl Panic else late_salt_check s) (\<lambda>_.
                       and_then result (\<lambda>_. record_verified env key computed s)) of
                  Inr s \<Rightarrow> (Inr (), s, c)
                | Inl e \<Rightarrow> (Inl e, s, c))))"

section \<open>The kinds of signatures\<close>

definition digest_of :: "VerifyEnv \<Rightarrow> hashing \<Rightarrow> SignaturePacket \<Rightarrow> bytes res" where
  "digest_of env hash s =
     and_then (HashAlgorithm_context (ve_hashes env) (sf_hash_algo (Signature_fields s))) (\<lambda>ctx.
     and_then (hash (for_signature (sf_version (Signature_fields s)) ctx)) (into_digest (ve_hashes env)))"

type_synonym verifier = "SignaturePacket \<Rightarrow> SignatureVerificationCache \<Rightarrow> verification"

definition verify_computed :: "VerifyEnv \<Rightarrow> Key \<Rightarrow> bytes res \<Rightarrow> verifier" where
  "verify_computed env key digest1 s c =
     (case digest1 of Inl e \<Rightarrow> (Inl e, s, c) | Inr d \<Rightarrow> verify_digest_internal env key (Some d) s c)"

definition verify_typed :: "VerifyEnv \<Rightarrow> SignatureType list \<Rightarrow> Key \<Rightarrow> (SignaturePacket \<Rightarrow> hashing) \<Rightarrow> verifier" where
  "verify_typed env types key hash s c =
     (if sf_typ (Signature_fields s) \<notin> set types then (Inl (Err (UnsupportedSignatureType (sf_typ (Signature_fields s)))), s, c)
      else verify_computed env key (digest_of env (hash s) s) s c)"

definition verify_signature :: "VerifyEnv \<Rightarrow> Key \<Rightarrow> verifier" where
  "verify_signature env key = verify_digest_internal env key None"

definition verify_hash :: "VerifyEnv \<Rightarrow> Key \<Rightarrow> Context \<Rightarrow> verifier" where
  "verify_hash env key ctx s = verify_computed env key (and_then (Signature_hash s ctx) (into_digest (ve_hashes env))) s"

definition verify_digest :: "VerifyEnv \<Rightarrow> Key \<Rightarrow> bytes \<Rightarrow> verifier" where
  "verify_digest env key d = verify_digest_internal env key (Some d)"

definition verify_document :: "VerifyEnv \<Rightarrow> Key \<Rightarrow> verifier" where
  "verify_document env key s c =
     (if \<not> (sf_typ (Signature_fields s) = SignatureType.Binary \<or> sf_typ (Signature_fields s) = SignatureType.Text)
      then (Inl (Err (UnsupportedSignatureType (sf_typ (Signature_fields s)))), s, c)
      else verify_digest_internal env key None s c)"

definition verify_standalone :: "VerifyEnv \<Rightarrow> Key \<Rightarrow> verifier" where
  "verify_standalone env key = verify_typed env [SignatureType.Standalone] key hash_standalone"

definition verify_timestamp :: "VerifyEnv \<Rightarrow> Key \<Rightarrow> verifier" where
  "verify_timestamp env key = verify_typed env [SignatureType.Timestamp] key hash_timestamp"

definition verify_direct_key :: "VerifyEnv \<Rightarrow> Key \<Rightarrow> Key \<Rightarrow> verifier" where
  "verify_direct_key env signer pk = verify_typed env [SignatureType.DirectKey] signer (hash_direct_key pk)"

definition verify_primary_key_revocation :: "VerifyEnv \<Rightarrow> Key \<Rightarrow> Key \<Rightarrow> verifier" where
  "verify_primary_key_revocation env signer pk = verify_typed env [SignatureType.KeyRevocation] signer (hash_direct_key pk)"

definition verify_primary_key_binding :: "VerifyEnv \<Rightarrow> Key \<Rightarrow> Key \<Rightarrow> verifier" where
  "verify_primary_key_binding env pk subkey = verify_typed env [SignatureType.PrimaryKeyBinding] subkey (hash_primary_key_binding pk subkey)"

text \<open>
  The signature of the other key: the embedded signatures are tried in order until one verifies, which is then marked. The
  signature in the subpacket records its verification, too.
\<close>

fun try_backsigs ::
    "verifier \<Rightarrow> SignaturePacket Subpacket list \<Rightarrow> unit res \<Rightarrow> SignatureVerificationCache
     \<Rightarrow> unit res \<times> SignaturePacket Subpacket list \<times> SignatureVerificationCache" where
  "try_backsigs ver [] last_result c = (last_result, [], c)"
| "try_backsigs ver (p # ps) last_result c =
     (if Subpacket_tag p \<noteq> SubpacketTag.EmbeddedSignature then
        (case try_backsigs ver ps last_result c of (r, ps, c) \<Rightarrow> (r, p # ps, c))
      else
        case sp_value p of
          SubpacketValue.EmbeddedSignature sig \<Rightarrow>
            (case ver sig c of
               (Inr _, sig, c) \<Rightarrow> (Inr (), Subpacket (sp_length p) (critical p) (SubpacketValue.EmbeddedSignature sig) True # ps, c)
             | (Inl Panic, sig, c) \<Rightarrow> (Inl Panic, p # ps, c)
             | (Inl e, sig, c) \<Rightarrow> (case try_backsigs ver ps (Inl e) c of (r, ps, c) \<Rightarrow> (r, p # ps, c)))
        | _ \<Rightarrow> (Inl Panic, p # ps, c))"

definition verify_backsig :: "VerifyEnv \<Rightarrow> Key \<Rightarrow> Key \<Rightarrow> verifier" where
  "verify_backsig env pk subkey s c =
     (let hashed = hashed_area (Signature_areas s); unhashed = unhashed_area (Signature_areas s) in
      case try_backsigs (verify_primary_key_binding env pk subkey) (packets hashed @ packets unhashed) (Inl (Err BadSignature)) c of
        (r, ps, c) \<Rightarrow>
          (r, map_common (with_areas (SubpacketAreas (SubpacketArea (take (length (packets hashed)) ps) (parsed hashed))
                (SubpacketArea (drop (length (packets hashed)) ps) (parsed unhashed)))) s, c))"

definition verify_subkey_binding :: "VerifyEnv \<Rightarrow> Key \<Rightarrow> Key \<Rightarrow> Key \<Rightarrow> verifier" where
  "verify_subkey_binding env signer pk subkey s c =
     (case verify_typed env [SignatureType.SubkeyBinding] signer (hash_subkey_binding pk subkey) s c of
        (Inl e, s, c) \<Rightarrow> (Inl e, s, c)
      | (Inr _, s, c) \<Rightarrow>
          (case key_flags (Signature_areas s) of
             Inl e \<Rightarrow> (Inl e, s, c)
           | Inr fl \<Rightarrow>
               if (case fl of Some kf \<Rightarrow> KeyFlags_for_signing kf | None \<Rightarrow> False) then verify_backsig env pk subkey s c
               else (Inr (), s, c)))"

definition verify_subkey_revocation :: "VerifyEnv \<Rightarrow> Key \<Rightarrow> Key \<Rightarrow> Key \<Rightarrow> verifier" where
  "verify_subkey_revocation env signer pk subkey = verify_typed env [SignatureType.SubkeyRevocation] signer (hash_subkey_binding pk subkey)"

definition verify_userid_binding :: "VerifyEnv \<Rightarrow> Key \<Rightarrow> Key \<Rightarrow> bytes \<Rightarrow> verifier" where
  "verify_userid_binding env signer pk userid = verify_typed env certification_types signer (hash_userid_binding pk userid)"

definition verify_userid_revocation :: "VerifyEnv \<Rightarrow> Key \<Rightarrow> Key \<Rightarrow> bytes \<Rightarrow> verifier" where
  "verify_userid_revocation env signer pk userid =
     verify_typed env [SignatureType.CertificationRevocation] signer (hash_userid_binding pk userid)"

text \<open>Approvals are checked to hold digests of the right size; their type is checked when they are hashed.\<close>

definition approval_digest :: "VerifyEnv \<Rightarrow> hashing \<Rightarrow> SignaturePacket \<Rightarrow> bytes res" where
  "approval_digest env hash s =
     and_then (HashAlgorithm_context (ve_hashes env) (sf_hash_algo (Signature_fields s))) (\<lambda>ctx.
     and_then (approved_certifications (Signature_areas s)) (\<lambda>ds.
     and_then (if ds = [] then Inr False else and_then (Context_digest_size ctx) (\<lambda>n. Inr (list_ex (\<lambda>d. length d \<noteq> n) ds))) (\<lambda>wrong.
       if wrong then Inl (Err BadSignature) else digest_of env hash s)))"

definition verify_userid_approval :: "VerifyEnv \<Rightarrow> Key \<Rightarrow> Key \<Rightarrow> bytes \<Rightarrow> verifier" where
  "verify_userid_approval env signer pk userid s =
     verify_computed env signer (approval_digest env (hash_userid_approval pk userid s) s) s"

definition verify_user_attribute_binding :: "VerifyEnv \<Rightarrow> Key \<Rightarrow> Key \<Rightarrow> bytes \<Rightarrow> verifier" where
  "verify_user_attribute_binding env signer pk ua = verify_typed env certification_types signer (hash_user_attribute_binding pk ua)"

definition verify_user_attribute_revocation :: "VerifyEnv \<Rightarrow> Key \<Rightarrow> Key \<Rightarrow> bytes \<Rightarrow> verifier" where
  "verify_user_attribute_revocation env signer pk ua =
     verify_typed env [SignatureType.CertificationRevocation] signer (hash_user_attribute_binding pk ua)"

definition verify_user_attribute_approval :: "VerifyEnv \<Rightarrow> Key \<Rightarrow> Key \<Rightarrow> bytes \<Rightarrow> verifier" where
  "verify_user_attribute_approval env signer pk ua s =
     verify_computed env signer (approval_digest env (hash_user_attribute_approval pk ua s) s) s"

definition hash_message :: "bytes \<Rightarrow> SignaturePacket \<Rightarrow> hashing" where
  "hash_message msg s ctx =
     Signature_hash s (Context_update msg (case Signature_salt s of Some x \<Rightarrow> Context_update x ctx | None \<Rightarrow> ctx))"

definition verify_message :: "VerifyEnv \<Rightarrow> Key \<Rightarrow> bytes \<Rightarrow> verifier" where
  "verify_message env signer msg = verify_typed env [SignatureType.Binary, SignatureType.Text] signer (hash_message msg)"

section \<open>What the cache can say\<close>

text \<open>
  Every key in the cache was computed for a signature, a digest and a key with which the primitive succeeded. A digest is
  accepted if the primitive accepts it or its key in the cache is that of something the primitive accepted.
\<close>

definition genuine :: "VerifyEnv \<Rightarrow> bytes \<Rightarrow> bool" where
  "genuine env v \<longleftrightarrow> (\<exists>s d key e. Entry_new (ve_hashes env) s d key = Inr e \<and> entry_value e = v \<and> primitive_verify env key s d = Inr ())"

definition cache_sound :: "VerifyEnv \<Rightarrow> SignatureVerificationCache \<Rightarrow> bool" where
  "cache_sound env c \<longleftrightarrow> cache_invar c \<and> (\<forall>v \<in> cache_values c. genuine env v)"

definition accepted :: "VerifyEnv \<Rightarrow> Key \<Rightarrow> SignaturePacket \<Rightarrow> bytes \<Rightarrow> bool" where
  "accepted env key s d \<longleftrightarrow>
     primitive_verify env key s d = Inr () \<or> (\<exists>e. Entry_new (ve_hashes env) s d key = Inr e \<and> genuine env (entry_value e))"

lemma Entry_new_length: "Entry_new be s d key = Inr e \<Longrightarrow> length (entry_value e) = VALUE_BYTES"
  by (auto simp: Entry_new_def Let_def result_simps split: if_splits)

lemma is_ok_unit: "is_ok (r :: unit res) \<longleftrightarrow> r = Inr ()"
  by (cases r) auto

lemma cached_verify_cases:
  assumes "cached_verify env key s d c = (r, c')" "cache_invar c"
  obtains (panic) "Entry_new (ve_hashes env) s d key = Inl Panic" "r = Inl Panic" "c' = c"
    | (direct) e where "Entry_new (ve_hashes env) s d key = Inl e" "e \<noteq> Panic" "r = primitive_verify env key s d" "c' = c"
    | (cached) e where "Entry_new (ve_hashes env) s d key = Inr e" "cache_invar c'"
        "r = Inr () \<longleftrightarrow> entry_value e \<in> cache_values c \<or> primitive_verify env key s d = Inr ()"
        "cache_values c' = (if r = Inr () then insert (entry_value e) (cache_values c) else cache_values c)"
proof (cases "Entry_new (ve_hashes env) s d key")
  case (Inl e)
  then show thesis using assms(1) panic direct by (cases e) (auto simp: cached_verify_def)
next
  case (Inr e)
  note len = Entry_new_length [OF Inr]
  obtain b c1 where look: "cache_present (entry_value e) c = Inr (b, c1)" using verified.look_total [OF assms(2) len] by blast
  have "r = (if b then Inr () else primitive_verify env key s d)"
      "c' = (if b then c1 else if is_ok (primitive_verify env key s d) then cache_insert (entry_value e) c1 else c1)"
    using assms(1) Inr look by (auto simp: cached_verify_def Entry_present_def Entry_insert_def Let_def split: if_splits)
  from verified.memoised [OF assms(2) len look this] cached [OF Inr] show thesis by (simp add: is_ok_unit)
qed

lemma cached_verify_sound:
  assumes "cached_verify env key s d c = (r, c')" "cache_sound env c"
  shows "cache_sound env c' \<and> (r = Inr () \<longrightarrow> accepted env key s d)"
proof -
  from assms(2) have inv: "cache_invar c" by (simp add: cache_sound_def)
  from assms(1) inv show ?thesis
  proof (cases rule: cached_verify_cases)
    case (cached e)
    then have "r = Inr () \<longrightarrow> genuine env (entry_value e)"
      using assms(2) by (auto simp: cache_sound_def genuine_def)
    then show ?thesis using cached assms(2) by (auto simp: cache_sound_def accepted_def)
  qed (use assms(2) in \<open>auto simp: accepted_def\<close>)
qed

lemma cached_verify_complete:
  assumes "cache_invar c" "primitive_verify env key s d = Inr ()" "Entry_new (ve_hashes env) s d key \<noteq> Inl Panic"
  shows "fst (cached_verify env key s d c) = Inr ()"
  using surjective_pairing assms(1) by (cases rule: cached_verify_cases [of env key s d c]) (use assms(2,3) in auto)

section \<open>What is recorded\<close>

lemma map_common_deref [simp]: "SignaturePacket_deref (map_common g s) = g (SignaturePacket_deref s)"
  by (cases s) (simp_all add: map_common_def SignaturePacket_deref_def)

lemma map_common_kept [simp]: "Signature_salt (map_common g s) = Signature_salt s"
  by (cases s) (simp_all add: map_common_def Signature_salt_def)

lemma map_common_version: "map_common g s = s' \<Longrightarrow> Signature_version s' = Signature_version s"
  by (cases s) (auto simp: map_common_def Signature_version_def)

lemma common_fields [simp]:
  "Signature4.fields (set_additional_issuers ids s4) = Signature4.fields s4" "Signature4.fields (set_computed_digest h s4) = Signature4.fields s4"
  "sf_subpackets (Signature4.fields (with_areas a s4)) = a" "sf_version (Signature4.fields (with_areas a s4)) = sf_version (Signature4.fields s4)"
  "sf_typ (Signature4.fields (with_areas a s4)) = sf_typ (Signature4.fields s4)"
  "algorithm_octets (Signature4.fields (with_areas a s4)) = algorithm_octets (Signature4.fields s4)"
  by (simp_all add: set_additional_issuers_def set_computed_digest_def with_areas_def algorithm_octets_def Let_def split: option.split)

lemma record_verified_fields:
  assumes "record_verified env key computed s = Inr s'" "Key_fingerprint (ve_sha1 env) (ve_sha256 env) key = Inr fp"
  shows "hashed_area (Signature_areas s') = map_packets (\<lambda>p. set_authenticated p True) (hashed_area (Signature_areas s))"
    "unhashed_area (Signature_areas s') = map_packets (mark_unhashed (KeyID_from_Fingerprint fp) fp) (unhashed_area (Signature_areas s))"
    "Signature_salt s' = Signature_salt s" "Signature_version s' = Signature_version s"
    "algorithm_octets (Signature_fields s') = algorithm_octets (Signature_fields s)" "sf_typ (Signature_fields s') = sf_typ (Signature_fields s)"
proof -
  obtain g where g: "s' = map_common g s" "Signature4.fields (g (SignaturePacket_deref s)) = Signature4.fields (with_areas (SubpacketAreas
        (map_packets (\<lambda>p. set_authenticated p True) (hashed_area (Signature_areas s)))
        (map_packets (mark_unhashed (KeyID_from_Fingerprint fp) fp) (unhashed_area (Signature_areas s)))) (SignaturePacket_deref s))"
  proof -
    have comp: "map_common f (map_common g s) = map_common (\<lambda>x. f (g x)) s" for f g s by (cases s) (simp_all add: map_common_def)
    show thesis
      using assms by (auto simp: record_verified_def Key_keyid_def comp Let_def result_simps split: option.splits intro!: that)
  qed
  show "hashed_area (Signature_areas s') = map_packets (\<lambda>p. set_authenticated p True) (hashed_area (Signature_areas s))"
    "unhashed_area (Signature_areas s') = map_packets (mark_unhashed (KeyID_from_Fingerprint fp) fp) (unhashed_area (Signature_areas s))"
    "Signature_salt s' = Signature_salt s" "Signature_version s' = Signature_version s"
    "algorithm_octets (Signature_fields s') = algorithm_octets (Signature_fields s)" "sf_typ (Signature_fields s') = sf_typ (Signature_fields s)"
    by (simp_all add: g map_common_version [OF refl])
qed

text \<open>The marks are not part of the octets that are signed.\<close>

abbreviation mark :: "bool \<Rightarrow> 'sig SubpacketArea \<Rightarrow> 'sig SubpacketArea" where
  "mark b \<equiv> map_packets (\<lambda>p. set_authenticated p b)"

lemma area_octets_mark: "area_octets (mark b a) = area_octets a"
proof -
  have "subpackets_serialize f (map (\<lambda>p. set_authenticated p b) ps) = subpackets_serialize f ps" for f :: "SignaturePacket \<Rightarrow> bytes res" and ps
    by (induction ps) (simp_all add: Subpacket_serialize_def set_authenticated_def Subpacket_tag_def)
  then show ?thesis by (simp add: SubpacketArea_serialize_def map_packets_def)
qed

lemma cache_index_mark: "cache_index (map (\<lambda>p. set_authenticated p b) ps) = cache_index ps"
proof -
  have step: "foldl (\<lambda>index (i, sp). index[tag_code sp := word_of_nat i]) x (enumerate n (map (\<lambda>p. set_authenticated p b) ps))
      = foldl (\<lambda>index (i, sp). index[tag_code sp := word_of_nat i]) x (enumerate n ps)" for x n
    by (induction ps arbitrary: x n) (simp_all add: tag_code_def)
  have tags: "map tag_code (map (\<lambda>p. set_authenticated p b) ps) = map tag_code ps" by (simp add: tag_code_def comp_def)
  show ?thesis unfolding cache_index_def tags step ..
qed

lemma area_value_mark:
  assumes "\<not> from_unhashed tag"
  shows "area_value (SubpacketAreas (mark b h) u) tag f = area_value (SubpacketAreas h u') tag f"
proof -
  have "fst (SubpacketArea_subpacket (mark b h) tag) = and_then (fst (SubpacketArea_subpacket h tag)) (\<lambda>p. Inr (map_option (\<lambda>p. set_authenticated p b) p))"
    by (cases "parsed h") (simp_all add: SubpacketArea_subpacket_def cache_init_def map_packets_def cache_index_mark Let_def)
  moreover have "(case map_option (\<lambda>p. set_authenticated p b) sb of Some sb \<Rightarrow> f (sp_value sb) | None \<Rightarrow> None)
      = (case sb of Some sb \<Rightarrow> f (sp_value sb) | None \<Rightarrow> None)" for sb
    by (cases sb) (simp_all add: set_authenticated_def)
  ultimately show ?thesis
    using assms by (simp add: area_value_def subpacket_from_hashed and_then_assoc)
qed

lemma signature_octets_recorded:
  assumes "record_verified env key computed s = Inr s'"
  shows "signature_octets s' = signature_octets s"
proof -
  obtain fp where fp: "Key_fingerprint (ve_sha1 env) (ve_sha256 env) key = Inr fp"
    using assms by (auto simp: record_verified_def Key_keyid_def result_simps)
  note f = record_verified_fields [OF assms fp]
  have "signature_creation_time (SubpacketAreas (hashed_area (Signature_areas s')) (unhashed_area (Signature_areas s')))
      = signature_creation_time (SubpacketAreas (hashed_area (Signature_areas s)) (unhashed_area (Signature_areas s)))"
    unfolding f(1) signature_creation_time_def by (intro area_value_mark) (simp add: from_unhashed_def)
  then have t: "signature_creation_time (Signature_areas s') = signature_creation_time (Signature_areas s)" by simp
  have "area_octets (hashed_area (Signature_areas s')) = area_octets (hashed_area (Signature_areas s))" by (simp add: f(1) area_octets_mark)
  moreover have "u8_from_SignatureType (sf_typ (Signature_fields s')) = u8_from_SignatureType (sf_typ (Signature_fields s))" using f(6) by simp
  ultimately show ?thesis
    unfolding signature_octets_def Let_def t f(5) using f(4) by (cases s; cases s') (simp_all add: Signature_version_def)
qed

section \<open>Soundness\<close>

text \<open>What holds of a signature that verified over a digest.\<close>

definition marked_by :: "Fingerprint \<Rightarrow> SignaturePacket \<Rightarrow> bool" where
  "marked_by fp s \<longleftrightarrow>
     list_all authenticated (packets (hashed_area (Signature_areas s)))
     \<and> list_all (\<lambda>p. authenticated p \<longrightarrow> subpacket_issuer p \<in> {Some (KeyHandle.Fingerprint fp), Some (KeyHandle.KeyID (KeyID_from_Fingerprint fp))})
         (packets (unhashed_area (Signature_areas s)))"

lemma record_verified_marks:
  assumes "record_verified env key computed s = Inr s'"
  obtains fp where "Key_fingerprint (ve_sha1 env) (ve_sha256 env) key = Inr fp" "marked_by fp s'"
proof -
  obtain fp where fp: "Key_fingerprint (ve_sha1 env) (ve_sha256 env) key = Inr fp"
    using assms by (auto simp: record_verified_def Key_keyid_def result_simps)
  have "authenticated (mark_unhashed id1 fp p) \<Longrightarrow> subpacket_issuer (mark_unhashed id1 fp p) \<in> {Some (KeyHandle.Fingerprint fp), Some (KeyHandle.KeyID id1)}"
    for id1 and p :: "SignaturePacket Subpacket"
    by (auto simp: mark_unhashed_def set_authenticated_def subpacket_issuer_def split: SubpacketValue.splits)
  then have "marked_by fp s'"
    using record_verified_fields(1,2) [OF assms fp] by (auto simp: marked_by_def map_packets_def list_all_iff set_authenticated_def)
  with fp that show thesis by blast
qed

lemma verify_digest_internal_sound:
  assumes "verify_digest_internal env key computed s c = (r, s', c')" "cache_sound env c"
  shows "cache_sound env c' \<and> (r \<noteq> Inr () \<longrightarrow> s' = s)
    \<and> (r = Inr () \<longrightarrow> check_signature key s = Inr () \<and> (\<exists>d. digest_to_verify computed s = Inr d \<and> accepted env key s d)
        \<and> record_verified env key computed s = Inr s')"
proof (cases "and_then (check_signature key s) (\<lambda>_. digest_to_verify computed s)")
  case (Inl e)
  then show ?thesis using assms by (auto simp: verify_digest_internal_def)
next
  case (Inr d)
  obtain r1 c1 where c1: "cached_verify env key s d c = (r1, c1)" by fastforce
  then show ?thesis
    using Inr assms(1) cached_verify_sound [OF c1 assms(2)]
    by (auto simp: verify_digest_internal_def result_simps split: sum.splits if_splits)
qed


text \<open>The same facts for use in other proofs.\<close>

lemma verify_typed_ok:
  assumes "verify_typed env types key hash s c = (Inr (), s', c')" "cache_sound env c"
  shows "sf_typ (Signature_fields s) \<in> set types" "check_signature key s = Inr ()" "cache_sound env c'"
    "\<exists>d. digest_of env (hash s) s = Inr d \<and> accepted env key s d \<and> record_verified env key (Some d) s = Inr s'"
proof -
  from assms(1) show ty: "sf_typ (Signature_fields s) \<in> set types" by (auto simp: verify_typed_def split: if_splits)
  obtain d where d: "digest_of env (hash s) s = Inr d" "verify_digest_internal env key (Some d) s c = (Inr (), s', c')"
    using assms(1) ty by (auto simp: verify_typed_def verify_computed_def split: sum.splits)
  from verify_digest_internal_sound [OF d(2) assms(2)] d(1)
  show "check_signature key s = Inr ()" "cache_sound env c'"
    "\<exists>d. digest_of env (hash s) s = Inr d \<and> accepted env key s d \<and> record_verified env key (Some d) s = Inr s'"
    by (simp_all add: digest_to_verify_def)
qed

lemma verify_typed_cache: "verify_typed env types key hash s c = (r, s', c') \<Longrightarrow> cache_sound env c \<Longrightarrow> cache_sound env c'"
  by (auto simp: verify_typed_def verify_computed_def dest: verify_digest_internal_sound split: if_splits sum.splits)

lemma try_backsigs_found:
  assumes "try_backsigs ver ps last_result c = (Inr (), ps', c')" "last_result \<noteq> Inr ()" "I c"
    and keep: "\<And>s c r s' c'. ver s c = (r, s', c') \<Longrightarrow> I c \<Longrightarrow> I c'"
  shows "\<exists>p \<in> set ps. \<exists>sig c0 sig' c1. sp_value p = SubpacketValue.EmbeddedSignature sig \<and> I c0 \<and> ver sig c0 = (Inr (), sig', c1)"
  using assms(1-3)
proof (induction ps arbitrary: last_result c ps')
  case Nil
  then show ?case by simp
next
  case (Cons p ps)
  show ?case
  proof (cases "\<exists>sig. sp_value p = SubpacketValue.EmbeddedSignature sig")
    case True
    then obtain sig where sig: "sp_value p = SubpacketValue.EmbeddedSignature sig" by blast
    then have tag: "Subpacket_tag p = SubpacketTag.EmbeddedSignature" by (simp add: Subpacket_tag_def SubpacketValue_tag_def)
    obtain r sig' c1 where ver: "ver sig c = (r, sig', c1)" by (metis prod_cases3)
    show ?thesis
    proof (cases r)
      case (Inr u)
      then show ?thesis using sig ver Cons.prems(3) by auto
    next
      case (Inl e)
      then have "\<exists>ps'. try_backsigs ver ps (Inl e) c1 = (Inr (), ps', c')"
        using Cons.prems(1) sig tag ver by (cases e) (auto split: prod.splits)
      then show ?thesis using Cons.IH [of "Inl e" c1] keep [OF ver Cons.prems(3)] by auto
    qed
  next
    case False
    then have "\<exists>ps'. try_backsigs ver ps last_result c = (Inr (), ps', c')"
      using Cons.prems(1) by (auto split: if_splits prod.splits SubpacketValue.splits)
    then show ?thesis using Cons.IH [of last_result c] Cons.prems(2,3) by auto
  qed
qed

lemma record_verified_values:
  assumes "record_verified env key computed s = Inr s'"
  shows "key_flags (Signature_areas s') = key_flags (Signature_areas s)"
    "map sp_value (packets (hashed_area (Signature_areas s'))) = map sp_value (packets (hashed_area (Signature_areas s)))"
    "map sp_value (packets (unhashed_area (Signature_areas s'))) = map sp_value (packets (unhashed_area (Signature_areas s)))"
proof -
  obtain fp where fp: "Key_fingerprint (ve_sha1 env) (ve_sha256 env) key = Inr fp"
    using assms by (auto simp: record_verified_def Key_keyid_def result_simps)
  note f = record_verified_fields [OF assms fp]
  have "key_flags (SubpacketAreas (hashed_area (Signature_areas s')) (unhashed_area (Signature_areas s')))
      = key_flags (SubpacketAreas (hashed_area (Signature_areas s)) (unhashed_area (Signature_areas s)))"
    unfolding f(1) key_flags_def by (intro area_value_mark) (simp add: from_unhashed_def)
  then show "key_flags (Signature_areas s') = key_flags (Signature_areas s)" by simp
  show "map sp_value (packets (hashed_area (Signature_areas s'))) = map sp_value (packets (hashed_area (Signature_areas s)))"
    "map sp_value (packets (unhashed_area (Signature_areas s'))) = map sp_value (packets (unhashed_area (Signature_areas s)))"
    by (simp_all add: f(1,2) map_packets_def mark_unhashed_def set_authenticated_def)
qed

text \<open>
  C7. A subkey that may sign is only accepted if it agrees: if the binding of a subkey verifies and its key flags allow signing, then besides
  the signature of the primary key over both keys one of the embedded signatures is a primary key binding over both keys that
  the subkey made.
\<close>

theorem signing_subkey_agrees:
  assumes "verify_subkey_binding env signer pk subkey s c = (Inr (), s', c')" "cache_sound env c"
    and "key_flags (Signature_areas s) = Inr (Some kf)" "KeyFlags_for_signing kf"
  shows "sf_typ (Signature_fields s) = SignatureType.SubkeyBinding \<and> check_signature signer s = Inr ()
    \<and> (\<exists>d. digest_of env (hash_subkey_binding pk subkey s) s = Inr d \<and> accepted env signer s d)
    \<and> (\<exists>sig d. SubpacketValue.EmbeddedSignature sig
          \<in> set (map sp_value (packets (hashed_area (Signature_areas s)) @ packets (unhashed_area (Signature_areas s))))
        \<and> sf_typ (Signature_fields sig) = SignatureType.PrimaryKeyBinding \<and> check_signature subkey sig = Inr ()
        \<and> digest_of env (hash_primary_key_binding pk subkey sig) sig = Inr d \<and> accepted env subkey sig d)"
proof -
  obtain s1 c1 where v: "verify_typed env [SignatureType.SubkeyBinding] signer (hash_subkey_binding pk subkey) s c = (Inr (), s1, c1)"
    and rest: "(case key_flags (Signature_areas s1) of Inl e \<Rightarrow> (Inl e, s1, c1)
           | Inr fl \<Rightarrow> if (case fl of Some kf \<Rightarrow> KeyFlags_for_signing kf | None \<Rightarrow> False) then verify_backsig env pk subkey s1 c1
               else (Inr (), s1, c1)) = (Inr (), s', c')"
    using assms(1) by (auto simp: verify_subkey_binding_def split: prod.splits sum.splits)
  note bound = verify_typed_ok [OF v assms(2)]
  from bound(4) obtain d where d: "digest_of env (hash_subkey_binding pk subkey s) s = Inr d" "accepted env signer s d"
    "record_verified env signer (Some d) s = Inr s1" by blast
  note vals = record_verified_values [OF d(3)]
  let ?ps = "packets (hashed_area (Signature_areas s1)) @ packets (unhashed_area (Signature_areas s1))"
  obtain ps c2 where found: "try_backsigs (verify_primary_key_binding env pk subkey) ?ps (Inl (Err BadSignature)) c1 = (Inr (), ps, c2)"
    using rest assms(3,4) vals(1) by (auto simp: verify_backsig_def Let_def split: prod.splits)
  have keep: "verify_primary_key_binding env pk subkey sig c = (r, sig', c') \<Longrightarrow> cache_sound env c \<Longrightarrow> cache_sound env c'" for sig c r sig' c'
    unfolding verify_primary_key_binding_def by (rule verify_typed_cache)
  obtain p sig c0 sig' c3 where sig: "p \<in> set ?ps" "sp_value p = SubpacketValue.EmbeddedSignature sig" "cache_sound env c0"
      "verify_primary_key_binding env pk subkey sig c0 = (Inr (), sig', c3)"
    using try_backsigs_found [where I = "cache_sound env", OF found _ bound(3)] keep by blast
  have "map sp_value ?ps = map sp_value (packets (hashed_area (Signature_areas s)) @ packets (unhashed_area (Signature_areas s)))"
    using vals(2,3) by simp
  then have "SubpacketValue.EmbeddedSignature sig \<in> set (map sp_value (packets (hashed_area (Signature_areas s)) @ packets (unhashed_area (Signature_areas s))))"
    using sig(1,2) by (metis image_eqI list.set_map)
  with verify_typed_ok [OF sig(4) [unfolded verify_primary_key_binding_def] sig(3)] bound(1,2) d(1,2) show ?thesis by auto
qed

section \<open>What is made verifies\<close>

text \<open>A key pair signs with its own key (\<open>impl Signer for KeyPair\<close>).\<close>

definition KeyPair_signer :: "AsymmetricBackend \<Rightarrow> Fingerprint \<Rightarrow> KeyPair \<Rightarrow> Signer" where
  "KeyPair_signer be fp kp = \<lparr>sg_key = kp_public kp, sg_fingerprint = fp, sg_sign = KeyPair_sign be kp\<rparr>"

lemma finished_version:
  assumes "builder_pre_sign senv sg b = Inr b'" "finish_signature sg d b' = Inr s"
  shows "sf_version (Signature_fields s) = 6 \<longleftrightarrow> Key_version (sg_key sg) = 6"
    "sf_version (Signature_fields s) = 6 \<Longrightarrow> sf_pk_algo (Signature_fields s) \<noteq> PublicKeyAlgorithm.DSA"
    "unat (sf_version (Signature_fields s)) = Signature_version s"
proof -
  note v = pre_sign_version [OF assms(1)]
  have "SBVersion_to_u8 (sb_version b') = 6 \<longleftrightarrow> Key_version (sg_key sg) = 6"
    using v(2) by (auto simp: presign_version_def Signer_public_def SBVersion_to_u8_def result_simps split: if_splits SBVersion.splits)
  then show "sf_version (Signature_fields s) = 6 \<longleftrightarrow> Key_version (sg_key sg) = 6"
    using finish_signature_ok(5) [OF assms(2) v(1)] v(1) by simp
  show "sf_pk_algo (Signature_fields s) \<noteq> PublicKeyAlgorithm.DSA" if "sf_version (Signature_fields s) = 6"
    using assms(2) that v(1) finish_signature_ok(5) [OF assms(2) v(1)]
    by (auto simp: finish_signature_def builder_sign_def Signature6_from_common_def set_version_def SignaturePacket_deref_def
        SBVersion_to_u8_def Let_def result_simps split: SBVersion.splits if_splits)
  show "unat (sf_version (Signature_fields s)) = Signature_version s"
    using assms(2) v(1) finish_signature_ok(5) [OF assms(2) v(1)]
    by (auto simp: finish_signature_def builder_sign_def Signature6_from_common_def Signature_version_def
        SBVersion_to_u8_def Let_def result_simps split: SBVersion.splits if_splits)
qed

text \<open>A hash fills the slice it is given, and neither it nor its creation aborts.\<close>

definition hash_laws :: "HashBackend \<Rightarrow> bool" where
  "hash_laws be \<longleftrightarrow>
     (\<forall>h. hb_new_hasher be h \<noteq> Inl Panic) \<and> (\<forall>h data n. hb_digest be h data n \<noteq> Inl Panic)
     \<and> (\<forall>h data n r. hb_digest be h data n = Inr r \<longrightarrow> length r = n)"

lemma serialize_no_panic: "Signature_serialize m \<noteq> Inl Panic" "PublicKey_serialize k \<noteq> Inl Panic"
  by (cases m; simp add: Signature_serialize_def)
     (cases k; auto simp: PublicKey_serialize_def write_field_with_u8_size_def result_simps split: if_splits)

lemma Entry_new_no_panic: "hash_laws be \<Longrightarrow> Entry_new be s d key \<noteq> Inl Panic"
  using serialize_no_panic
  by (auto simp: Entry_new_def hash_laws_def HashAlgorithm_context_def HASH_ALGO_def into_digest_def Context_digest_size_def Context_digest_def
      digest_size_def Context_update_def for_digest_def VALUE_BYTES_def Let_def result_simps split: if_splits sum.splits)

lemma verify_typed_complete:
  assumes "hash_laws (ve_hashes env)" "Key_fingerprint (ve_sha1 env) (ve_sha256 env) key = Inr fp" "cache_invar c" "check_signature key s = Inr ()"
    and "sf_typ (Signature_fields s) \<in> set types" "digest_of env (hash s) s = Inr d" "primitive_verify env key s d = Inr ()"
  shows "\<exists>s' c'. verify_typed env types key hash s c = (Inr (), s', c') \<and> record_verified env key (Some d) s = Inr s' \<and> cache_invar c'"
proof -
  obtain c1 where c1: "cached_verify env key s d c = (Inr (), c1)"
    using cached_verify_complete [OF assms(3,7)] Entry_new_no_panic [OF assms(1)] by (metis prod.collapse)
  then have "cache_invar c1" using assms(3) by (cases rule: cached_verify_cases) (use assms(3) in auto)
  moreover have salt: "late_salt_check s = Inr ()"
    using assms(4) by (cases "Signature_salt s") (auto simp: check_signature_def check_salt_def late_salt_check_def salt_size_def Let_def result_simps
        split: if_splits HashAlgorithm.splits)
  moreover obtain s' where s': "record_verified env key (Some d) s = Inr s'"
    using assms(2) by (auto simp: record_verified_def Key_keyid_def Let_def)
  ultimately show ?thesis
    using assms(4-6) c1 by (simp add: verify_typed_def verify_computed_def verify_digest_internal_def digest_to_verify_def)
qed

lemma made_over_verifies:
  assumes laws: "signing_material (Key_pk_algo (kp_public kp)) (Key_mpis (kp_public kp)) (kp_secret kp)" "signature_laws (ve_backend env) kp"
      "hash_laws (ve_hashes env)" "env_hashes senv = ve_hashes env" "Key_fingerprint (ve_sha1 env) (ve_sha256 env) (kp_public kp) = Inr fp"
    and "cache_invar c" "check_signature (kp_public kp) s = Inr ()"
    and "made_over senv (KeyPair_signer (ve_backend env) fp' kp) (hash s) s" "sf_typ (Signature_fields s) \<in> set types"
  shows "fst (verify_typed env types (kp_public kp) hash s c) = Inr ()"
    "\<exists>d. record_verified env (kp_public kp) (Some d) s = Inr (fst (snd (verify_typed env types (kp_public kp) hash s c)))"
proof -
  obtain d where d: "digest_of env (hash s) s = Inr d"
      "KeyPair_sign (ve_backend env) kp (sf_hash_algo (Signature_fields s)) d = Inr (sig_mpis (SignaturePacket_deref s))"
    using assms(8) laws(4) by (auto simp: made_over_def KeyPair_signer_def digest_of_def)
  have "primitive_verify env (kp_public kp) s d = Inr ()"
    using key_pair_verifies [OF laws(1,2) d(2)] by (simp add: primitive_verify_def)
  from verify_typed_complete [where hash = hash, OF laws(3,5) assms(6,7,9) d(1) this]
  show "fst (verify_typed env types (kp_public kp) hash s c) = Inr ()"
    "\<exists>d. record_verified env (kp_public kp) (Some d) s = Inr (fst (snd (verify_typed env types (kp_public kp) hash s c)))" by auto
qed

lemma sign_over_finished:
  assumes "sign_over hash senv sg b = Inr s"
  obtains b' d where "builder_pre_sign senv sg b = Inr b'" "finish_signature sg d b' = Inr s"
  using assms by (auto simp: sign_over_def result_simps)

lemma sign_message_made:
  assumes "sign_message senv sg msg b = Inr s"
  shows "made_over senv sg (hash_message msg s) s" "\<exists>b' d. builder_pre_sign senv sg b = Inr b' \<and> finish_signature sg d b' = Inr s"
proof -
  obtain b' ctx ctx' d where b': "builder_pre_sign senv sg b = Inr b'"
      "HashAlgorithm_context (env_hashes senv) (sf_hash_algo (sb_fields b')) = Inr ctx"
      "SignatureBuilder_hash b' (Context_update msg (case SBVersion_salt (sb_version b') of
          Some s \<Rightarrow> Context_update s (for_signature (sf_version (sb_fields b')) ctx) | None \<Rightarrow> for_signature (sf_version (sb_fields b')) ctx)) = Inr ctx'"
      "into_digest (env_hashes senv) ctx' = Inr d" "finish_signature sg d b' = Inr s"
    using assms by (auto simp: sign_message_def Let_def result_simps)
  note fin = finish_signature_ok [OF b'(5) pre_sign_version(1) [OF b'(1)]]
  show "made_over senv sg (hash_message msg s) s"
    unfolding made_over_def hash_message_def fin using b'(2-4) fin(6) by (auto simp: prefix_salt_def)
  show "\<exists>b' d. builder_pre_sign senv sg b = Inr b' \<and> finish_signature sg d b' = Inr s" using b' by blast
qed

lemma made_checks:
  assumes "builder_pre_sign senv sg b = Inr b'" "finish_signature sg d b' = Inr s" "check_times (sg_key sg) s = Inr ()" "salt_well_sized s"
  shows "check_signature (sg_key sg) s = Inr ()"
  using finished_version [OF assms(1,2)] assms(3,4)
  by (cases s) (auto simp: check_signature_def check_salt_def salt_well_sized_def Signature_salt_def Signature_version_def Let_def)

text \<open>What is asked of the key pair, the backends and the finished signature.\<close>

definition can_verify :: "VerifyEnv \<Rightarrow> SigningEnv \<Rightarrow> Fingerprint \<Rightarrow> KeyPair \<Rightarrow> SignatureVerificationCache \<Rightarrow> bool" where
  "can_verify env senv fp kp c \<longleftrightarrow>
     signing_material (Key_pk_algo (kp_public kp)) (Key_mpis (kp_public kp)) (kp_secret kp) \<and> signature_laws (ve_backend env) kp
     \<and> hash_laws (ve_hashes env) \<and> env_hashes senv = ve_hashes env
     \<and> Key_fingerprint (ve_sha1 env) (ve_sha256 env) (kp_public kp) = Inr fp \<and> cache_invar c"

lemma made_verifies:
  assumes "can_verify env senv fp kp c" "check_times (kp_public kp) s = Inr ()" "salt_well_sized s"
    and "made_over senv (KeyPair_signer (ve_backend env) fp kp) (hash s) s" "sf_typ (Signature_fields s) \<in> set types"
    and "\<exists>b b' d. builder_pre_sign senv (KeyPair_signer (ve_backend env) fp kp) b = Inr b' \<and> finish_signature (KeyPair_signer (ve_backend env) fp kp) d b' = Inr s"
  shows "fst (verify_typed env types (kp_public kp) hash s c) = Inr ()"
    "\<exists>d. record_verified env (kp_public kp) (Some d) s = Inr (fst (snd (verify_typed env types (kp_public kp) hash s c)))"
proof -
  have "check_signature (kp_public kp) s = Inr ()"
    using assms(6) made_checks [of senv "KeyPair_signer (ve_backend env) fp kp"] assms(2,3) by (auto simp: KeyPair_signer_def)
  with made_over_verifies [of kp env senv fp c s fp hash types] assms(1,4,5)
  show "fst (verify_typed env types (kp_public kp) hash s c) = Inr ()"
    "\<exists>d. record_verified env (kp_public kp) (Some d) s = Inr (fst (snd (verify_typed env types (kp_public kp) hash s c)))"
    by (simp_all add: can_verify_def)
qed

lemma sign_over_verifies:
  assumes "sign_over hash senv (KeyPair_signer (ve_backend env) fp kp) b = Inr s"
    and "can_verify env senv fp kp c" "check_times (kp_public kp) s = Inr ()" "salt_well_sized s"
    and "\<And>b. hash b = builder_hash_salted hashed_types covered b" "hashf s = signature_hash_salted hashed_types covered s"
    and "sf_typ (Signature_fields s) \<in> set hashed_types \<Longrightarrow> sf_typ (Signature_fields s) \<in> set types"
  shows "fst (verify_typed env types (kp_public kp) hashf s c) = Inr ()"
    "\<exists>d. record_verified env (kp_public kp) (Some d) s = Inr (fst (snd (verify_typed env types (kp_public kp) hashf s c)))"
proof -
  have made: "made_over senv (KeyPair_signer (ve_backend env) fp kp) (hashf s) s"
    unfolding assms(6) by (rule sign_over_made [OF assms(1,5)])
  then have "sf_typ (Signature_fields s) \<in> set types"
    using assms(6,7) by (auto simp: made_over_def hash_salted_def split: if_splits)
  moreover obtain b' d where "builder_pre_sign senv (KeyPair_signer (ve_backend env) fp kp) b = Inr b'"
      "finish_signature (KeyPair_signer (ve_backend env) fp kp) d b' = Inr s"
    by (rule sign_over_finished [OF assms(1)])
  ultimately show "fst (verify_typed env types (kp_public kp) hashf s c) = Inr ()"
    "\<exists>d. record_verified env (kp_public kp) (Some d) s = Inr (fst (snd (verify_typed env types (kp_public kp) hashf s c)))"
    using made_verifies [where hash = hashf, OF assms(2-4) made] by blast+
qed

lemmas kind_defs = sign_standalone_def sign_timestamp_def sign_direct_key_def sign_userid_binding_def sign_subkey_binding_def
  sign_primary_key_binding_def sign_user_attribute_binding_def hash_standalone_def hash_timestamp_def hash_direct_key_def
  hash_userid_binding_def hash_subkey_binding_def hash_primary_key_binding_def hash_user_attribute_binding_def
  builder_hash_standalone_def builder_hash_timestamp_def builder_hash_direct_key_def builder_hash_userid_binding_def
  builder_hash_subkey_binding_def builder_hash_primary_key_binding_def builder_hash_user_attribute_binding_def
  verify_standalone_def verify_timestamp_def verify_direct_key_def verify_primary_key_revocation_def verify_primary_key_binding_def
  verify_subkey_revocation_def verify_userid_binding_def verify_userid_revocation_def verify_user_attribute_binding_def
  verify_user_attribute_revocation_def

lemma subkey_binding_verifies:
  assumes "fst (verify_typed env [SignatureType.SubkeyBinding] signer (hash_subkey_binding pk subkey) s c) = Inr ()"
    and "\<exists>d. record_verified env signer (Some d) s
          = Inr (fst (snd (verify_typed env [SignatureType.SubkeyBinding] signer (hash_subkey_binding pk subkey) s c)))"
    and "key_flags (Signature_areas s) = Inr fl" "case fl of Some kf \<Rightarrow> \<not> KeyFlags_for_signing kf | None \<Rightarrow> True"
  shows "fst (verify_subkey_binding env signer pk subkey s c) = Inr ()"
proof -
  obtain s1 c1 where v: "verify_typed env [SignatureType.SubkeyBinding] signer (hash_subkey_binding pk subkey) s c = (Inr (), s1, c1)"
    using assms(1) by (metis prod.collapse)
  then have "key_flags (Signature_areas s1) = Inr fl" using assms(2,3) record_verified_values(1) by fastforce
  then show ?thesis using v assms(4) by (simp add: verify_subkey_binding_def split: option.splits)
qed

text \<open>
  C6. What is made verifies: a signature of any kind that the builder makes with a key pair is accepted when it is verified with the public
  key over the same things, whatever is in the cache, given that the primitive of the backend accepts what it makes. This holds for versions
  4 and 6 and for the algorithms whose primitives the backend interface names: EdDSA, Ed25519, Ed448, the hybrids with ML-DSA, SLH-DSA and
  DSA, but not for RSA and ECDSA. The signature must not predate the key, and a salt that was set by hand must have the size of the hash.
  Bindings of signing-capable subkeys need another signature and are left out.
\<close>

theorem made_signatures_verify:
  assumes "can_verify env senv fp kp c" "check_times (kp_public kp) s = Inr ()" "salt_well_sized s"
    and "sg = KeyPair_signer (ve_backend env) fp kp" "typ1 = sf_typ (Signature_fields s)"
  shows "(sign_standalone senv sg b = Inr s \<longrightarrow> fst (verify_standalone env (kp_public kp) s c) = Inr ())
   \<and> (sign_timestamp senv sg b = Inr s \<longrightarrow> fst (verify_timestamp env (kp_public kp) s c) = Inr ())
   \<and> (sign_direct_key senv sg pk b = Inr s \<longrightarrow>
        fst ((if typ1 = SignatureType.DirectKey then verify_direct_key else verify_primary_key_revocation) env (kp_public kp) (signed_key pk sg) s c) = Inr ())
   \<and> (sign_userid_binding senv sg pk u b = Inr s \<longrightarrow>
        fst ((if typ1 = SignatureType.CertificationRevocation then verify_userid_revocation else verify_userid_binding)
          env (kp_public kp) (signed_key pk sg) u s c) = Inr ())
   \<and> (sign_user_attribute_binding senv sg pk u b = Inr s \<longrightarrow>
        fst ((if typ1 = SignatureType.CertificationRevocation then verify_user_attribute_revocation else verify_user_attribute_binding)
          env (kp_public kp) (signed_key pk sg) u s c) = Inr ())
   \<and> (sign_primary_key_binding senv sg p (kp_public kp) b = Inr s \<longrightarrow> fst (verify_primary_key_binding env p (kp_public kp) s c) = Inr ())
   \<and> (sign_subkey_binding senv sg pk k b = Inr s \<longrightarrow>
        (if typ1 = SignatureType.SubkeyRevocation then fst (verify_subkey_revocation env (kp_public kp) (signed_key pk sg) k s c) = Inr ()
         else \<forall>fl. key_flags (Signature_areas s) = Inr fl \<and> (case fl of Some kf \<Rightarrow> \<not> KeyFlags_for_signing kf | None \<Rightarrow> True)
           \<longrightarrow> fst (verify_subkey_binding env (kp_public kp) (signed_key pk sg) k s c) = Inr ()))
   \<and> (sign_message senv sg msg b = Inr s \<and> typ1 \<in> {SignatureType.Binary, SignatureType.Text}
        \<longrightarrow> fst (verify_message env (kp_public kp) msg s c) = Inr ())"
proof -
  note over = sign_over_verifies [OF _ assms(1-3)]
  have sub: "fst (verify_subkey_binding env (kp_public kp) (signed_key pk sg) k s c) = Inr ()"
    if "sign_subkey_binding senv sg pk k b = Inr s" "typ1 \<noteq> SignatureType.SubkeyRevocation" "key_flags (Signature_areas s) = Inr fl"
      "case fl of Some kf \<Rightarrow> \<not> KeyFlags_for_signing kf | None \<Rightarrow> True" for fl
    using that assms(4,5) by (intro subkey_binding_verifies [OF _ _ that(3,4)]) (auto simp: kind_defs intro!: over)
  have msg: "fst (verify_message env (kp_public kp) msg s c) = Inr ()"
    if "sign_message senv sg msg b = Inr s" "typ1 \<in> {SignatureType.Binary, SignatureType.Text}"
    unfolding verify_message_def using that assms(4,5) sign_message_made [OF that(1)] by (intro made_verifies(1) [OF assms(1-3)]) auto
  show ?thesis
    using assms(4,5) sub msg
    by (intro conjI impI; (simp; fail)?; (simp split: if_splits)?; (auto simp: kind_defs certification_types_def intro!: over(1); fail)?)
qed

definition example_env :: VerifyEnv where
  "example_env = \<lparr>ve_hashes = example_hashes, ve_backend = demo_backend, ve_sha1 = (\<lambda>bs. replicate 20 1), ve_sha256 = (\<lambda>bs. replicate 32 1)\<rparr>"

definition example_senv :: SigningEnv where
  "example_senv = \<lparr>env_hashes = example_hashes, env_random = (\<lambda>n. Inr (replicate n 5)), env_now = SystemTime_from 1000\<rparr>"

definition example_pair :: KeyPair where
  "example_pair = \<lparr>kp_public = Key.V6 (Key4_make 1 PublicKeyAlgorithm.Ed25519 (PublicKey.Ed25519 (replicate 32 9)) None),
     kp_secret = SecretKeyMaterial.Ed25519 (replicate 32 8)\<rparr>"

definition example_fp :: Fingerprint where
  "example_fp = Fingerprint.V6 (replicate 32 1)"

definition example_areas :: "SignaturePacket SubpacketAreas" where
  "example_areas = SubpacketAreas (SubpacketArea
     [Subpacket (SubpacketLength_from_u32 5) True (SubpacketValue.SignatureCreationTime 1000) False,
      Subpacket (SubpacketLength_from_u32 34) True (SubpacketValue.IssuerFingerprint example_fp) False] None) (SubpacketArea [] None)"

definition example_builder :: "SignaturePacket SignatureBuilder" where
  "example_builder = \<lparr>sb_reference_time = None, sb_overrode_creation_time = True, sb_original_creation_time = None,
     sb_fields = SignatureFields 6 SignatureType.GenericCertification PublicKeyAlgorithm.Ed25519 HashAlgorithm.SHA512 example_areas,
     sb_version = SBV6 (replicate 32 5)\<rparr>"

lemma example_presign:
  "builder_pre_sign example_senv (KeyPair_signer demo_backend example_fp example_pair) example_builder = Inr example_builder"
  by (simp add: pre_sign_def presign_version_def Signer_public_def KeyPair_signer_def example_pair_def Key_version_def example_builder_def
     SBVersion_to_u8_def presign_issuer_def no_issuer_fingerprints_def example_areas_def SubpacketAreas_subpackets_def SubpacketArea_subpackets_def
     Subpacket_tag_def SubpacketValue_tag_def map_fields_def SubpacketAreas_sort_def SubpacketArea_sort_def cache_invalidate_def Key4_make_def tag_code_def)

lemma example_area_octets: "is_ok (area_octets (hashed_area example_areas))"
  by (simp add: example_areas_def SubpacketArea_serialize_def Subpacket_serialize_def SubpacketValue_serialize_def SubpacketLength_serialize_def
      SubpacketLength_from_u32_def SubpacketLength_len_def BodyLength_serialize_def fingerprint_value_serialize_def Fingerprint_as_bytes_def
      example_fp_def Let_def)

lemma example_hash:
  "\<exists>ctx ctx'. HashAlgorithm_context example_hashes HashAlgorithm.SHA512 = Inr ctx
    \<and> builder_hash_userid_binding (kp_public example_pair) [65, 66] example_builder (for_signature 6 ctx) = Inr ctx' \<and> ctx_algo ctx' = HashAlgorithm.SHA512"
proof -
  obtain os where "area_octets (hashed_area example_areas) = Inr os" using example_area_octets by (auto simp: is_ok_iff)
  then show ?thesis
    by (simp add: HashAlgorithm_context_def example_hashes_def builder_hash_userid_binding_def hash_salted_def example_builder_def certification_types_def
      prefix_salt_def SBVersion_salt_def hash_two_def Key_hash_def example_pair_def Key4_make_def Key6_hash_def write_key_hash_header_def for_signature_def
      PublicKey_serialize_def PublicKey_serialized_len_def UserID_hash_def SignatureBuilder_hash_def Signature6_hash_fields_def Context_update_def Let_def)
qed

lemma example_signed:
  "\<exists>s. sign_userid_binding example_senv (KeyPair_signer demo_backend example_fp example_pair) None [65, 66] example_builder = Inr s
     \<and> check_times (kp_public example_pair) s = Inr () \<and> salt_well_sized s \<and> sf_typ (Signature_fields s) = SignatureType.GenericCertification"
proof -
  let ?sg = "KeyPair_signer demo_backend example_fp example_pair"
  obtain ctx ctx' where ctx: "HashAlgorithm_context example_hashes HashAlgorithm.SHA512 = Inr ctx"
      "builder_hash_userid_binding (kp_public example_pair) [65, 66] example_builder (for_signature 6 ctx) = Inr ctx'"
      "ctx_algo ctx' = HashAlgorithm.SHA512"
    using example_hash by blast
  then obtain d where d: "into_digest example_hashes ctx' = Inr d" "length d = 64"
    by (auto simp: into_digest_def Context_digest_def Context_digest_size_def digest_size_def example_hashes_def)
  obtain m where m: "KeyPair_sign demo_backend example_pair HashAlgorithm.SHA512 d = Inr m"
    by (simp add: KeyPair_sign_def example_pair_def demo_pair_simps to_array_def)
  let ?s = "SignaturePacket.V6 (Signature6 (Signature4 (sb_fields example_builder) (d ! 0, d ! 1) m (Some d) 0 None) (replicate 32 5))"
  have "finish_signature ?sg d example_builder = Inr ?s"
    using m d(2) by (simp add: finish_signature_def builder_sign_def KeyPair_signer_def example_builder_def Signature6_from_common_def set_version_def)
  then have "sign_userid_binding example_senv ?sg None [65, 66] example_builder = Inr ?s"
    using example_presign ctx d(1)
    by (simp add: sign_userid_binding_def sign_over_def signed_key_def KeyPair_signer_def example_senv_def example_builder_def)
  moreover have "check_times (kp_public example_pair) ?s = Inr ()"
    by (simp add: check_times_def signature_creation_time_def area_value_def SignaturePacket_deref_def example_builder_def example_areas_def
        SubpacketAreas_subpacket_def SubpacketArea_subpacket_def cache_init_def cache_index_def tag_code_def Subpacket_tag_def SubpacketValue_tag_def
        SUBPACKET_NOT_PRESENT_def SystemTime_from_def NANOS_PER_SEC_def example_pair_def Key_common_def Key4_make_def)
  ultimately show ?thesis
    by (intro exI [of _ ?s]) (simp add: salt_well_sized_def salt_size_def SignaturePacket_deref_def example_builder_def)
qed

lemma example_can_verify: "can_verify example_env example_senv example_fp example_pair cache_empty"
proof -
  have "signature_laws demo_backend example_pair"
    by (simp add: signature_laws_def accepts_def demo_pair_simps example_pair_def demo_sign_def min_def)
  moreover have "signing_material (Key_pk_algo (kp_public example_pair)) (Key_mpis (kp_public example_pair)) (kp_secret example_pair)"
    by (simp add: signing_material_def example_pair_def demo_pair_simps)
  moreover have "hash_laws example_hashes" by (auto simp: hash_laws_def example_hashes_def)
  moreover have "Key_fingerprint (ve_sha1 example_env) (ve_sha256 example_env) (kp_public example_pair) = Inr example_fp"
    by (simp add: Key_fingerprint_def example_pair_def example_env_def Key6_fingerprint_def Key6_hash_def write_key_hash_header_def
        PublicKey_serialize_def PublicKey_serialized_len_def Key4_make_def example_fp_def)
  ultimately show ?thesis using cache_empty_ok by (simp add: can_verify_def example_env_def example_senv_def)
qed

theorem made_signatures_verify_witness:
  "\<exists>s. sign_userid_binding example_senv (KeyPair_signer demo_backend example_fp example_pair) None [65, 66] example_builder = Inr s
     \<and> fst (verify_userid_binding example_env (kp_public example_pair) (kp_public example_pair) [65, 66] s cache_empty) = Inr ()"
proof -
  obtain s where s: "sign_userid_binding example_senv (KeyPair_signer demo_backend example_fp example_pair) None [65, 66] example_builder = Inr s"
      "check_times (kp_public example_pair) s = Inr ()" "salt_well_sized s" "sf_typ (Signature_fields s) = SignatureType.GenericCertification"
    using example_signed by blast
  have be: "KeyPair_signer demo_backend example_fp example_pair = KeyPair_signer (ve_backend example_env) example_fp example_pair"
    by (simp add: example_env_def)
  have "fst (verify_userid_binding example_env (kp_public example_pair) (signed_key None (KeyPair_signer demo_backend example_fp example_pair)) [65, 66]
      s cache_empty) = Inr ()"
    using made_signatures_verify [OF example_can_verify s(2,3) be refl, of example_builder None "[65, 66]"] s(1,4) by simp
  then show ?thesis using s(1) by (auto simp: signed_key_def KeyPair_signer_def)
qed


text \<open>A subkey that may sign, with an embedded signature, and primitives that accept everything.\<close>

definition example_signature ::
    "SignatureType \<Rightarrow> SignaturePacket Subpacket list \<Rightarrow> SignaturePacket Subpacket list \<Rightarrow> SignaturePacket" where
  "example_signature t hashed unhashed = SignaturePacket.V4
     (Signature4_new t PublicKeyAlgorithm.Ed25519 HashAlgorithm.SHA512
       (SubpacketArea (Subpacket (SubpacketLength_from_u32 5) True (SubpacketValue.SignatureCreationTime 1000) False # hashed) None)
       (SubpacketArea unhashed None) (0, 0) (Signature.Ed25519 (replicate 64 0)))"

definition example_backsig :: SignaturePacket where
  "example_backsig = example_signature SignatureType.PrimaryKeyBinding [] []"

definition example_binding :: SignaturePacket where
  "example_binding = example_signature SignatureType.SubkeyBinding
     [Subpacket (SubpacketLength_from_u32 2) True (SubpacketValue.KeyFlags only_signing) False]
     [Subpacket (SubpacketLength_from_u32 100) True (SubpacketValue.EmbeddedSignature example_backsig) False]"

definition accepting_env :: VerifyEnv where
  "accepting_env = example_env\<lparr>ve_backend := demo_backend\<lparr>ed25519_verify := (\<lambda>_ _ _. Inr True)\<rparr>\<rparr>"

lemma only_signing_signs: "KeyFlags_for_signing only_signing"
  by (simp add: KeyFlags_for_signing_def only_flags)

lemmas example_sig_simps = example_binding_def example_backsig_def example_signature_def Signature4_new_def SubpacketAreas_new_def SignaturePacket_deref_def
  Signature_salt_def

lemma example_sig_flags: "SignatureAttributes.key_flags (Signature_areas example_binding) = Inr (Some only_signing)"
  by (simp add: SignatureAttributes.key_flags_def area_value_def example_sig_simps SubpacketAreas_subpacket_def SubpacketArea_subpacket_def cache_init_def cache_index_def
      tag_code_def Subpacket_tag_def SubpacketValue_tag_def SUBPACKET_NOT_PRESENT_def)

lemma example_sig_checks: "check_signature example_key example_binding = Inr ()" "check_signature example_key example_backsig = Inr ()"
  by (simp_all add: check_signature_def check_salt_def check_times_def signature_creation_time_def area_value_def example_sig_simps SubpacketAreas_subpacket_def
      SubpacketArea_subpacket_def cache_init_def cache_index_def tag_code_def Subpacket_tag_def SubpacketValue_tag_def SUBPACKET_NOT_PRESENT_def
      SystemTime_from_def NANOS_PER_SEC_def example_key_def Key_common_def Key4_make_def Key_version_def)

lemma example_sig_octets:
  "is_ok (area_octets (hashed_area (Signature_areas example_binding)))" "is_ok (area_octets (hashed_area (Signature_areas example_backsig)))"
  by (simp_all add: example_sig_simps SubpacketArea_serialize_def Subpacket_serialize_def SubpacketValue_serialize_def SubpacketLength_serialize_def
      SubpacketLength_from_u32_def SubpacketLength_len_def BodyLength_serialize_def Let_def)

lemma example_sig_digests:
  "is_ok (digest_of accepting_env (hash_subkey_binding example_key example_key example_binding) example_binding)"
  "is_ok (digest_of accepting_env (hash_primary_key_binding example_key example_key example_backsig) example_backsig)"
proof -
  obtain os os' where "area_octets (hashed_area (Signature_areas example_binding)) = Inr os" "area_octets (hashed_area (Signature_areas example_backsig)) = Inr os'"
    using example_sig_octets by (auto simp: is_ok_iff)
  then show "is_ok (digest_of accepting_env (hash_subkey_binding example_key example_key example_binding) example_binding)"
    "is_ok (digest_of accepting_env (hash_primary_key_binding example_key example_key example_backsig) example_backsig)"
    by (simp_all add: digest_of_def accepting_env_def example_env_def example_hashes_def HashAlgorithm_context_def hash_subkey_binding_def
        hash_primary_key_binding_def hash_salted_def hash_two_def Key_hash_def example_key_def Key4_make_def Key4_hash_def write_key_hash_header_def
        for_signature_def PublicKey_serialize_def PublicKey_serialized_len_def Signature_hash_def Signature4_hash_fields_def into_digest_def
        Context_digest_size_def Context_digest_def digest_size_def Context_update_def example_sig_simps Let_def)
qed

lemma example_sig_accepted: "primitive_verify accepting_env example_key example_binding d = Inr ()" "primitive_verify accepting_env example_key example_backsig d = Inr ()"
  by (simp_all add: primitive_verify_def Key_verify_def accepting_env_def example_key_def Key4_make_def Key_common_def example_sig_simps to_array_def)

lemma accepting_env_ok: "hash_laws (ve_hashes accepting_env)" "Key_fingerprint (ve_sha1 accepting_env) (ve_sha256 accepting_env) example_key = Inr (Fingerprint.V4 (replicate 20 1))"
  by (auto simp: hash_laws_def accepting_env_def example_env_def example_hashes_def Key_fingerprint_def example_key_def Key4_fingerprint_def Key4_hash_def
      write_key_hash_header_def PublicKey_serialize_def PublicKey_serialized_len_def Key4_make_def)

lemma example_backsig_verifies:
  assumes "cache_invar c"
  shows "\<exists>s' c'. verify_primary_key_binding accepting_env example_key example_key example_backsig c = (Inr (), s', c')"
proof -
  obtain d where "digest_of accepting_env (hash_primary_key_binding example_key example_key example_backsig) example_backsig = Inr d"
    using example_sig_digests by (auto simp: is_ok_iff)
  from verify_typed_complete [where hash = "hash_primary_key_binding example_key example_key" and types = "[SignatureType.PrimaryKeyBinding]",
      OF accepting_env_ok assms example_sig_checks(2) _ this example_sig_accepted(2)]
  show ?thesis by (auto simp: verify_primary_key_binding_def example_sig_simps)
qed

lemma example_binding_verifies: "\<exists>s' c'. verify_subkey_binding accepting_env example_key example_key example_key example_binding cache_empty = (Inr (), s', c')"
proof -
  obtain d where d: "digest_of accepting_env (hash_subkey_binding example_key example_key example_binding) example_binding = Inr d"
    using example_sig_digests by (auto simp: is_ok_iff)
  obtain s1 c1 where v: "verify_typed accepting_env [SignatureType.SubkeyBinding] example_key (hash_subkey_binding example_key example_key) example_binding cache_empty
      = (Inr (), s1, c1)" "record_verified accepting_env example_key (Some d) example_binding = Inr s1" "cache_invar c1"
    using verify_typed_complete [where hash = "hash_subkey_binding example_key example_key" and types = "[SignatureType.SubkeyBinding]",
      OF accepting_env_ok _ example_sig_checks(1) _ d example_sig_accepted(1), of cache_empty] cache_empty_ok by (auto simp: example_sig_simps)
  note f = record_verified_fields [OF v(2) accepting_env_ok(2)]
  have flags: "SignatureAttributes.key_flags (Signature_areas s1) = Inr (Some only_signing)"
    using record_verified_values(1) [OF v(2)] example_sig_flags by simp
  obtain s2 c2 where "verify_primary_key_binding accepting_env example_key example_key example_backsig c1 = (Inr (), s2, c2)"
    using example_backsig_verifies [OF v(3)] by blast
  then have "\<exists>ps c'. try_backsigs (verify_primary_key_binding accepting_env example_key example_key)
      (packets (hashed_area (Signature_areas s1)) @ packets (unhashed_area (Signature_areas s1))) (Inl (Err BadSignature)) c1 = (Inr (), ps, c')"
    unfolding f(1,2) by (simp add: example_binding_def example_signature_def Signature4_new_def SubpacketAreas_new_def SignaturePacket_deref_def map_packets_def
      mark_unhashed_def set_authenticated_def Subpacket_tag_def SubpacketValue_tag_def)
  then show ?thesis using v(1) flags only_signing_signs by (auto simp: verify_subkey_binding_def verify_backsig_def Let_def)
qed

theorem signing_subkey_agrees_witness:
  "\<exists>s' c'. verify_subkey_binding accepting_env example_key example_key example_key example_binding cache_empty = (Inr (), s', c')
     \<and> (\<exists>sig d. sf_typ (Signature_fields sig) = SignatureType.PrimaryKeyBinding
          \<and> digest_of accepting_env (hash_primary_key_binding example_key example_key sig) sig = Inr d \<and> accepted accepting_env example_key sig d)"
proof -
  obtain s' c' where v: "verify_subkey_binding accepting_env example_key example_key example_key example_binding cache_empty = (Inr (), s', c')"
    using example_binding_verifies by blast
  have "cache_sound accepting_env cache_empty" using cache_empty_ok by (simp add: cache_sound_def)
  from signing_subkey_agrees [OF v this example_sig_flags only_signing_signs] v show ?thesis by blast
qed

end
