(* ===== verification/Spec2Isabelle.thy ===== *)
theory Spec2Isabelle
  imports PartialBody KeyWrap SignatureCodec KeyCodec PacketSafety LiteralWriter MessageStructure HashedReader AeadStreams SignatureVerification Policies
begin

text \<open>
  \<^bold>\<open>A verification development for the Sequoia OpenPGP library.\<close>

  \<^bold>\<open>The program.\<close> Sequoia is an implementation of OpenPGP (RFC 9580). Its crate \<open>openpgp\<close> reads a stream of
  octets with readers of the crate \<open>buffered-reader\<close>, cuts it into packets, parses the bodies of the packets into
  signatures, keys, session keys and data, and writes packets back as octets. The layers above, which group packets
  into messages and certificates and call cryptographic backends, rest on this core. The development models the core
  bottom up, in the order in which the code calls it, and proves that reading and writing agree, that the parser ends
  and does not panic, and what happens on malformed input.

  \<^bold>\<open>The theories and the code they model\<close> (paths are relative to \<open>src/openpgp/src\<close> if no crate is named).

  \<^item> \<open>Prelude\<close>: octets, machine integers, \<open>Result\<close>, big-endian codes, and the shared lemmas and collections.
  \<^item> \<open>Types\<close>, \<open>Algorithms\<close>: the registries of tags, algorithms and types (\<open>packet/tag.rs\<close>, \<open>crypto/types/\<close>,
    \<open>types/mod.rs\<close>), the error type (\<open>lib.rs\<close>) and the attributes of algorithms. The locales \<open>wire_code\<close> and
    \<open>wire_enum\<close> state that an enumeration and its octet agree; every enumeration interprets them.
  \<^item> \<open>Header\<close>: framing of packets, \<open>packet/header/\<close> with the parsers of \<open>parse.rs\<close> and the writers of \<open>serialize.rs\<close>.
  \<^item> \<open>PartialBody\<close>: bodies in chunks, the writer \<open>serialize/stream/partial_body.rs\<close> and the reader
    \<open>parse/partial_body.rs\<close> as state machines, both against one decoder of the format.
  \<^item> \<open>Mpi\<close>, \<open>Material\<close>: integers and cryptographic material (\<open>crypto/mpi.rs\<close>, \<open>parse/mpis.rs\<close>).
  \<^item> \<open>S2k\<close>, \<open>KeyWrap\<close>: key derivation from passwords (\<open>crypto/s2k.rs\<close>) and key wrapping (\<open>crypto/ecdh.rs\<close>).
  \<^item> \<open>Asymmetric\<close>: signing, verifying, encrypting and decrypting with keys (\<open>crypto/asymmetric.rs\<close>, \<open>packet/key.rs\<close>)
    around the primitives of the backend.
  \<^item> \<open>Flags\<close>, \<open>KeyHandles\<close>: bit fields and key flags (\<open>types/\<close>), names of keys (\<open>fingerprint.rs\<close>, \<open>keyid.rs\<close>,
    \<open>keyhandle.rs\<close>, \<open>fmt.rs\<close>).
  \<^item> \<open>Subpackets\<close>, \<open>SubpacketCodec\<close>, \<open>SubpacketAreas\<close>: signature subpackets, and the areas that hold them with the
    cache by which they are found (\<open>packet/signature/subpacket.rs\<close>).
  \<^item> \<open>Signatures\<close>, \<open>SignatureCodec\<close>: signature packets of versions 3, 4 and 6 (\<open>packet/signature.rs\<close>,
    \<open>packet/signature/v6.rs\<close>). A signature can contain signatures; the theories of subpackets have the operations on
    them as parameters and \<open>Signatures\<close> closes the recursion.
  \<^item> \<open>Keys\<close>, \<open>KeyCodec\<close>: key packets of versions 4 and 6, their secret parts and fingerprints (\<open>packet/key.rs\<close>,
    \<open>packet/key/\<close>, \<open>crypto/hash.rs\<close>).
  \<^item> \<open>BufferedReaders\<close>, \<open>ReaderContract\<close>: the crate \<open>buffered-reader\<close>. The trait is a record of methods, its contract
    the locales of \<open>ReaderContract\<close>, which the readers and adaptors of the crate interpret.
  \<^item> \<open>PacketBodies\<close>, \<open>PacketBodyCodec\<close>: the bodies of the other packets (\<open>packet/\<close>), containers, and the contract
    \<open>packet_body\<close> between the writer and the parser of a body, interpreted for each of them.
  \<^item> \<open>Packets\<close>, \<open>PacketParser\<close>, \<open>PacketStream\<close>, \<open>PacketSafety\<close>: packets and their writer (\<open>packet/mod.rs\<close>,
    \<open>serialize.rs\<close>), the packet parser with its recovery on junk (\<open>parse.rs\<close>), and what holds of both together.
  \<^item> \<open>LiteralWriter\<close>: the streaming writer of literal data (\<open>serialize/stream.rs\<close>) against the packet parser.
  \<^item> \<open>PacketPiles\<close>, \<open>Messages\<close>, \<open>MessageStructure\<close>: trees of packets addressed by paths (\<open>packet_pile.rs\<close>), the lexer,
    the generated grammar and the validator of messages (\<open>message/\<close>), and the validator against the structure that
    RFC 9580 gives to messages.
  \<^item> \<open>Cleartext\<close>, \<open>HashedReader\<close>: hashing of text with normalised line endings, the filters of the cleartext signature
    framework (\<open>serialize/stream/\<close>, \<open>parse/stream.rs\<close>), and the reader that hashes what it delivers
    (\<open>parse/hashed_reader.rs\<close>).
  \<^item> \<open>Times\<close>, \<open>SignatureAttributes\<close>: timestamps and durations (\<open>types/timestamp.rs\<close>), and what subpackets say of a
    signature: the accessors, when a signature or key is alive, and the signature builder with its setters
    (\<open>packet/signature/subpacket.rs\<close>, \<open>packet/signature.rs\<close>).
  \<^item> \<open>SignatureHashing\<close>, \<open>SignatureCache\<close>, \<open>SignatureVerification\<close>: what is hashed for each kind of signature and the
    \<open>sign_*\<close> methods of the builder (\<open>crypto/hash.rs\<close>, \<open>packet/signature.rs\<close>), the cache of verified signatures as a state
    machine (\<open>packet/signature/cache.rs\<close>), and the \<open>verify_*\<close> methods with the back signature of signing subkeys. The locale
    \<open>check_store\<close> states what verification relies on of the cache, and the cache interprets it.
  \<^item> \<open>Aead\<close>, \<open>AeadStreams\<close>: authenticated encryption in chunks (\<open>crypto/aead.rs\<close>): contexts, the schedule of keys and
    nonces, the encryptor and the decryptor as state machines, against a decoder of the format. The decryptor is the
    source of a \<open>Generic\<close> reader and keeps the contract of readers.
  \<^item> \<open>Policies\<close>: the cutoff lists and the standard policy with its settings and decisions (\<open>policy.rs\<close>,
    \<open>policy/cutofflist.rs\<close>). The locale \<open>cutoff_map\<close> states that a list is a map from algorithms to cutoffs; both kinds
    of list interpret it.
  \<^item> \<open>BinarySearch\<close>: the search of the standard library on slices, which the cache and the cutoff lists use.

  \<^bold>\<open>What is shown.\<close> Round trips: of headers, integers, material, string-to-key specifiers, signatures, keys, packet
  bodies, whole streams of packets, of streams written in pieces, and of encryption in chunks; most of them say in
  addition that only what was written is read as the value. A session key
  encrypted to a key is decrypted, and a signature made with a key pair over any of the things the builder signs verifies,
  given that the primitives of the backend do so; a signature that verifies, with the cache or without, was accepted by the
  primitive over exactly what it is said to cover, a signing subkey has agreed to its binding, and what is hashed for a
  certification determines the key, the user ID and the fields of the signature.
  Equivalence with a reference: the unrolled hashing of passwords against its
  description, comparison of integers against their numbers, aliasing of handles and equality of bit fields. Contracts:
  the readers and all their stacks deliver the octets of their source; the decryptor, until its first error, delivers
  exactly the octets that were authenticated, and reports the first chunk or final tag that is wrong; the cache of verified
  signatures is a set of what was inserted. Safety and termination: the packet parser ends
  without a panic on every input below four gigabytes, keeps a packet that it reports as unparsable with all its octets, reports one
  that is cut off wherever it is, and finds its way past junk; the standard policy decides without a panic after any settings, and what
  it rejects it does not accept later. Error behaviour: the places where the code does not do what it says are
  theorems as well, for example the header of an old packet that is rewritten wrongly.

  \<^bold>\<open>How the code is modelled.\<close> A \<open>Result\<close> is a sum whose left side is \<open>Err\<close> of the error's constructor, without its
  text, or \<open>Panic\<close> for a failed assertion, an index or slice out of range, an overflow in checked arithmetic or
  \<open>unreachable!\<close>. Integers of a fixed width are words; \<open>usize\<close> is a natural number, with a test where a subtraction
  could underflow, and an \<open>as\<close> that truncates is a conversion to a word. A memory reader is the list of its unread
  octets; a writer is the list of what was written. Strings are lists of code points, or octets where the code treats
  them so; \<open>Protected\<close> memory is its octets. What other crates, the backend chosen at build time or the environment
  provide is a parameter: hash functions, ciphers, digest sizes, Argon2, compression, random octets, the size of
  buffers, and readers of the system.

  \<^bold>\<open>Bounds and fuel.\<close> No operation takes fuel. Recursion that is not structural has a measure; the operations of readers
  that can run forever are partial functions whose value \<open>None\<close> is a call that does not return, with theorems that they
  return. The bound of four gigabytes is that of the code, which cuts the length of skipped junk to 32 bits.

  \<^bold>\<open>Not modelled.\<close> The primitives of the cryptographic backends, which call foreign libraries, with all of RSA, ECDSA and ElGamal, and generating keys;
  certificates, their parsing, canonicalisation and validity; symmetric encryption without authentication; reading and writing files, decompression and the
  other readers that wrap foreign code; descending into containers while parsing; ASCII armor; the streaming interfaces
  other than the writer of literal data and the filters of cleartext signatures; regular expressions; the crates \<open>ipc\<close>,
  \<open>net\<close> and \<open>autocrypt\<close>, tests, examples and tools.
\<close>

end
